(* ===== verification/Prelude.thy ===== *)
theory Prelude
  imports Main "HOL-Library.Word"
begin

text \<open>
  Shared vocabulary of the development: the machine types of
  \<^verbatim>\<open>include/tk/typedef.h\<close>, the error codes of \<^verbatim>\<open>include/tk/errno.h\<close>, the sizes of
  \<^verbatim>\<open>config/config.h\<close> and \<^verbatim>\<open>include/sys/knldef.h\<close> for the \<^verbatim>\<open>SMP=1\<close> profile, and the generic
  facts on lists and words that the component theories use.
\<close>

unbundle bit_operations_syntax

named_theorems knl_defs \<open>definitions of the kernel primitives, for unfolding\<close>
named_theorems frame \<open>fields that an operation leaves alone\<close>

subsection \<open>Machine types (typedef.h)\<close>

text \<open>
  \<open>UW\<close>, \<open>UINT\<close>, \<open>ATR\<close>, \<open>RELTIM\<close> and \<open>ABSTIM\<close> are 32-bit words that wrap. The signed types
  \<open>INT\<close>, \<open>W\<close>, \<open>ID\<close>, \<open>PRI\<close>, \<open>TMO\<close> and \<open>ER\<close> are mathematical integers: the code checks their ranges
  before it adds or subtracts, and the component invariants bound them.
\<close>

type_synonym UB = "8 word"
type_synonym UW = "32 word"
type_synonym LSYSTIM = "64 word"
type_synonym ER = int

abbreviation (input) INT_MAX :: int where "INT_MAX \<equiv> 2147483647"

subsection \<open>Error codes (errno.h, without sub-error codes)\<close>

abbreviation (input) E_OK :: ER where "E_OK \<equiv> 0"
abbreviation (input) E_SYS :: ER where "E_SYS \<equiv> - 5"
abbreviation (input) E_RSATR :: ER where "E_RSATR \<equiv> - 11"
abbreviation (input) E_PAR :: ER where "E_PAR \<equiv> - 17"
abbreviation (input) E_ID :: ER where "E_ID \<equiv> - 18"
abbreviation (input) E_CTX :: ER where "E_CTX \<equiv> - 25"
abbreviation (input) E_ILUSE :: ER where "E_ILUSE \<equiv> - 28"
abbreviation (input) E_NOMEM :: ER where "E_NOMEM \<equiv> - 33"
abbreviation (input) E_LIMIT :: ER where "E_LIMIT \<equiv> - 34"
abbreviation (input) E_OBJ :: ER where "E_OBJ \<equiv> - 41"
abbreviation (input) E_NOEXS :: ER where "E_NOEXS \<equiv> - 42"
abbreviation (input) E_QOVR :: ER where "E_QOVR \<equiv> - 43"
abbreviation (input) E_RLWAI :: ER where "E_RLWAI \<equiv> - 49"
abbreviation (input) E_TMOUT :: ER where "E_TMOUT \<equiv> - 50"
abbreviation (input) E_DLT :: ER where "E_DLT \<equiv> - 51"
abbreviation (input) E_BUSY :: ER where "E_BUSY \<equiv> - 65"

subsection \<open>Sizes (config.h, knldef.h)\<close>

definition NUM_TSKPRI :: nat where "NUM_TSKPRI = 32"
definition NUM_TSKID :: nat where "NUM_TSKID = 32"
definition NUM_SEMID :: nat where "NUM_SEMID = 16"
definition NUM_FLGID :: nat where "NUM_FLGID = 16"
definition NUM_MBXID :: nat where "NUM_MBXID = 4"
definition NUM_MTXID :: nat where "NUM_MTXID = 4"
definition NUM_MBFID :: nat where "NUM_MBFID = 4"
definition NUM_MPFID :: nat where "NUM_MPFID = 4"
definition NUM_MPLID :: nat where "NUM_MPLID = 4"
definition NUM_CYCID :: nat where "NUM_CYCID = 4"
definition NUM_ALMID :: nat where "NUM_ALMID = 4"
definition TK_MAX_CORE :: nat where "TK_MAX_CORE = 2"

lemmas size_defs = NUM_TSKPRI_def NUM_TSKID_def NUM_SEMID_def NUM_FLGID_def NUM_MBXID_def
  NUM_MTXID_def NUM_MBFID_def NUM_MPFID_def NUM_MPLID_def NUM_CYCID_def NUM_ALMID_def

abbreviation (input) ALL_CORE_BIT :: UW where "ALL_CORE_BIT \<equiv> 3"
abbreviation (input) TIMER_PERIOD :: int where "TIMER_PERIOD \<equiv> 10"

abbreviation (input) TSK_SELF :: int where "TSK_SELF \<equiv> 0"
abbreviation (input) TPRI_INI :: int where "TPRI_INI \<equiv> 0"
abbreviation (input) TPRI_RUN :: int where "TPRI_RUN \<equiv> 0"
abbreviation (input) MIN_TSKPRI :: int where "MIN_TSKPRI \<equiv> 1"
abbreviation (input) TMO_POL :: int where "TMO_POL \<equiv> 0"
abbreviation (input) TMO_FEVR :: int where "TMO_FEVR \<equiv> - 1"

lemma cores_upt [simp]: "[0..<TK_MAX_CORE] = [0, 1]"
  by (simp add: TK_MAX_CORE_def upt_rec numeral_2_eq_2)

lemma less_cores: "c < TK_MAX_CORE \<longleftrightarrow> c = 0 \<or> c = 1"
  by (auto simp: TK_MAX_CORE_def)

subsection \<open>Lists\<close>

lemma distinct_remove1_set [simp]: "distinct xs \<Longrightarrow> set (remove1 x xs) = set xs - {x}"
  by simp

lemma remove1_not_in: "x \<notin> set xs \<Longrightarrow> remove1 x xs = xs"
  by (rule remove1_idem)

text \<open>
  Insertion in front of the first element that satisfies \<open>P\<close>, at the end when there is none: the
  shape of every \<^verbatim>\<open>for ( q = head->next; q != head; q = q->next ) if (P) break;  QueInsert(e, q)\<close> loop.
\<close>

fun insert_before :: "('a \<Rightarrow> bool) \<Rightarrow> 'a \<Rightarrow> 'a list \<Rightarrow> 'a list" where
  "insert_before P x [] = [x]"
| "insert_before P x (y # ys) = (if P y then x # y # ys else y # insert_before P x ys)"

lemma insert_before_split:
  "insert_before P x ys = takeWhile (\<lambda>y. \<not> P y) ys @ x # dropWhile (\<lambda>y. \<not> P y) ys"
  by (induction ys) auto

lemma set_insert_before [simp]: "set (insert_before P x ys) = insert x (set ys)"
  by (induction ys) auto

lemma distinct_insert_before [simp]:
  "distinct (insert_before P x ys) \<longleftrightarrow> x \<notin> set ys \<and> distinct ys"
  by (induction ys) auto

lemma length_insert_before [simp]: "length (insert_before P x ys) = Suc (length ys)"
  by (induction ys) auto

lemma sorted_insert_before:
  assumes "sorted (map k ys)"
  shows "sorted (map k (insert_before (\<lambda>y. k x < k y) x ys))"
  using assms by (induction ys) (auto simp: not_less intro: less_imp_le order_trans)

lemma sorted_map_keep:
  "sorted (map f xs) \<Longrightarrow> (\<And>x. x \<in> set xs \<Longrightarrow> g x = f x) \<Longrightarrow> sorted (map g xs)"
  by (metis map_cong)

end
