(* ===== verification/Queue.thy ===== *)
theory Queue
  imports Prelude "HOL-Library.While_Combinator"
begin

text \<open>
  \<^verbatim>\<open>include/sys/queue.h\<close>: the doubly linked ring \<open>QUEUE\<close> on which every kernel queue is built.
  The pointer operations are modelled on an explicit heap of \<open>next\<close>/\<open>prev\<close> links; \<open>ring m h xs\<close>
  says that the ring with head \<open>h\<close> holds the nodes \<open>xs\<close>, and \<open>rings m A\<close> that a family of heads
  represents the family of lists \<open>A\<close> without sharing a node. The other theories of the development
  work on \<open>A\<close>; the lemmas here are what justifies it.
\<close>

subsection \<open>The pointer operations\<close>

record 'p qheap =
  qnext :: "'p \<Rightarrow> 'p"
  qprev :: "'p \<Rightarrow> 'p"

definition QueInit :: "'p \<Rightarrow> 'p qheap \<Rightarrow> 'p qheap" where
  "QueInit que m =
     (let m = m\<lparr>qnext := (qnext m)(que := que)\<rparr>
      in m\<lparr>qprev := (qprev m)(que := que)\<rparr>)"

definition isQueEmpty :: "'p \<Rightarrow> 'p qheap \<Rightarrow> bool" where
  "isQueEmpty que m \<longleftrightarrow> qnext m que = que"

definition QueInsert :: "'p \<Rightarrow> 'p \<Rightarrow> 'p qheap \<Rightarrow> 'p qheap" where
  "QueInsert entry que m =
     (let m = m\<lparr>qprev := (qprev m)(entry := qprev m que)\<rparr>;
          m = m\<lparr>qnext := (qnext m)(entry := que)\<rparr>;
          m = m\<lparr>qnext := (qnext m)(qprev m que := entry)\<rparr>
      in m\<lparr>qprev := (qprev m)(que := entry)\<rparr>)"

definition QueRemove :: "'p \<Rightarrow> 'p qheap \<Rightarrow> 'p qheap" where
  "QueRemove entry m =
     (if qnext m entry \<noteq> entry
      then let m = m\<lparr>qnext := (qnext m)(qprev m entry := qnext m entry)\<rparr>
           in m\<lparr>qprev := (qprev m)(qnext m entry := qprev m entry)\<rparr>
      else m)"

definition QueRemoveNext :: "'p \<Rightarrow> 'p qheap \<Rightarrow> 'p qheap \<times> 'p option" where
  "QueRemoveNext que m =
     (if qnext m que = que then (m, None)
      else let entry = qnext m que;
               m = m\<lparr>qnext := (qnext m)(que := qnext m entry)\<rparr>
           in (m\<lparr>qprev := (qprev m)(qnext m entry := que)\<rparr>, Some entry))"

text \<open>
  The scan shared by \<open>knl_queue_insert_tpri\<close> (\<^verbatim>\<open>wait.h\<close>), \<open>knl_queue_insert_mpri\<close> (\<^verbatim>\<open>mailbox.c\<close>) and
  \<open>knl_enqueue_tmeb\<close> (\<^verbatim>\<open>timer.c\<close>): run along \<open>next\<close> from the head until the predicate holds or the
  head is met again. On a heap that is no ring the loop need not end, hence \<open>while_option\<close>.
\<close>

definition que_scan :: "('p \<Rightarrow> bool) \<Rightarrow> 'p \<Rightarrow> 'p qheap \<Rightarrow> 'p option" where
  "que_scan P que m = while_option (\<lambda>q. q \<noteq> que \<and> \<not> P q) (\<lambda>q. qnext m q) (qnext m que)"

subsection \<open>Chains and rings\<close>

fun chain :: "'p qheap \<Rightarrow> 'p list \<Rightarrow> bool" where
  "chain m (x # y # zs) \<longleftrightarrow> qnext m x = y \<and> qprev m y = x \<and> chain m (y # zs)"
| "chain m _ \<longleftrightarrow> True"

definition ring :: "'p qheap \<Rightarrow> 'p \<Rightarrow> 'p list \<Rightarrow> bool" where
  "ring m h xs \<longleftrightarrow> distinct (h # xs) \<and> chain m (h # xs @ [h])"

lemma chain_append:
  "chain m (xs @ y # zs) \<longleftrightarrow> chain m (xs @ [y]) \<and> chain m (y # zs)"
proof (induction xs)
  case (Cons x xs)
  then show ?case by (cases xs) auto
qed simp

lemma chain_append2:
  "chain m (xs @ y # z # zs) \<longleftrightarrow>
     chain m (xs @ [y]) \<and> qnext m y = z \<and> qprev m z = y \<and> chain m (z # zs)"
  by (subst chain_append) simp

lemma chain_cong:
  assumes "\<And>x. x \<in> set (butlast xs) \<Longrightarrow> qnext m' x = qnext m x"
    and "\<And>x. x \<in> set (tl xs) \<Longrightarrow> qprev m' x = qprev m x"
  shows "chain m' xs \<longleftrightarrow> chain m xs"
  using assms
proof (induction m xs rule: chain.induct)
  case (1 m x y zs)
  have "chain m' (y # zs) = chain m (y # zs)"
    using 1(1) 1(2) 1(3) by (metis butlast.simps(2) list.distinct(1) list.sel(3) list.set_intros(2) list.set_sel(2))
  moreover have "qnext m' x = qnext m x" "qprev m' y = qprev m y"
    using 1(2)[of x] 1(3)[of y] by auto
  ultimately show ?case by simp
qed auto

lemma ring_cong:
  assumes "\<And>x. x \<in> insert h (set xs) \<Longrightarrow> qnext m' x = qnext m x"
    and "\<And>x. x \<in> insert h (set xs) \<Longrightarrow> qprev m' x = qprev m x"
  shows "ring m' h xs \<longleftrightarrow> ring m h xs"
proof -
  have "chain m' (h # xs @ [h]) \<longleftrightarrow> chain m (h # xs @ [h])"
    by (rule chain_cong) (use assms in \<open>auto simp: butlast_append dest: in_set_butlastD\<close>)
  then show ?thesis by (simp add: ring_def)
qed

lemma ring_nil: "ring m h [] \<longleftrightarrow> qnext m h = h \<and> qprev m h = h"
  by (auto simp: ring_def)

lemma ring_first: "ring m h xs \<Longrightarrow> qnext m h = hd (xs @ [h])"
  by (cases xs) (auto simp: ring_def)

lemma ring_last: "ring m h xs \<Longrightarrow> qprev m h = last (h # xs)"
proof (cases xs rule: rev_cases)
  case (snoc ys y)
  assume "ring m h xs"
  then have "chain m ((h # ys) @ y # [h])" by (simp add: ring_def snoc)
  then have "chain m (y # [h])" by (subst (asm) chain_append) simp
  then show ?thesis by (simp add: snoc)
qed (simp add: ring_nil)

lemma isQueEmpty_ring: "ring m h xs \<Longrightarrow> isQueEmpty h m \<longleftrightarrow> xs = []"
  by (cases xs) (auto simp: ring_first isQueEmpty_def ring_def)

lemma QueInit_ring [simp]: "ring (QueInit h m) h []"
  by (simp add: ring_nil QueInit_def Let_def)

lemma QueInsert_sel:
  "qnext (QueInsert e q m) =
     (let p = if q = e then qprev m q else qprev m q in ((qnext m)(e := q))(p := e))"
  "qprev (QueInsert e q m) = ((qprev m)(e := qprev m q))(q := e)"
  by (auto simp: QueInsert_def Let_def)

text \<open>Insertion in front of the first node of the second half; the head itself when that is empty.\<close>

lemma QueInsert_ring:
  assumes r: "ring m h (xs @ ys)" and e: "e \<notin> insert h (set (xs @ ys))" and q: "q = hd (ys @ [h])"
  shows "ring (QueInsert e q m) h (xs @ e # ys)"
proof -
  let ?m = "QueInsert e q m"
  obtain ps p where ps: "h # xs = ps @ [p]" by (metis neq_Nil_conv rev_exhaust)
  obtain qs where qs: "ys @ [h] = q # qs" using q by (cases ys) auto
  have eq: "h # (xs @ ys) @ [h] = ps @ p # q # qs"
    using ps qs by (metis append.assoc append_Cons append_Nil)
  have d: "distinct (ps @ [p] @ ys)"
    using r ps unfolding ring_def by (metis append.assoc append_Cons)
  have ch: "chain m (ps @ [p])" "chain m [p, q]" "chain m (q # qs)"
    using r unfolding ring_def eq by (simp_all add: chain_append2)
  then have pq: "qnext m p = q" "qprev m q = p" by auto
  have setps: "set (ps @ [p]) = insert h (set xs)" by (metis list.simps(15) ps)
  have setqs: "set (q # qs) = insert h (set ys)" by (metis list.set(1) list.simps(15) qs set_append sup.commute Un_insert_left sup_bot_left)
  have en: "e \<noteq> p" "e \<noteq> q" "e \<notin> set ps" "e \<notin> set qs"
    using e setps setqs by auto
  have bys: "butlast (q # qs) = ys" by (metis butlast_snoc qs)
  have "p = last (h # xs)" by (simp add: ps)
  then have "p \<in> insert h (set xs)" by (metis last_in_set list.distinct(1) list.simps(15))
  then have pqs: "p \<notin> set (butlast (q # qs))" unfolding bys using r by (auto simp: ring_def)
  have tps: "tl (ps @ [p]) = xs" by (metis list.sel(3) ps)
  have "q \<in> insert h (set ys)" using setqs by auto
  then have qps: "q \<notin> set (tl (ps @ [p]))" using r by (auto simp: ring_def tps)
  have c1: "chain ?m (ps @ [p])"
  proof -
    have "p \<notin> set (butlast (ps @ [p]))" using d by simp
    then show ?thesis
      using ch(1) en qps e by (subst chain_cong[of _ _ m]) (auto simp: QueInsert_sel pq tps)
  qed
  have c2: "chain ?m (q # qs)"
  proof -
    have "q \<notin> set qs" using qs r by (cases ys) (auto simp: ring_def)
    then show ?thesis
      using ch(3) en pqs e
      by (subst chain_cong[of _ _ m]; unfold bys list.sel) (auto simp: QueInsert_sel pq)
  qed
  have "chain ?m [p, e, q]" using en by (auto simp: QueInsert_sel pq)
  then have "chain ?m (ps @ p # e # q # qs)"
    using c1 c2 by (simp add: chain_append2)
  moreover have "h # (xs @ e # ys) @ [h] = ps @ p # e # q # qs"
    using ps qs by (metis append.assoc append_Cons append_Nil)
  moreover have "distinct (h # xs @ e # ys)" using r e by (auto simp: ring_def)
  ultimately show ?thesis by (simp add: ring_def)
qed


lemma QueRemove_sel:
  assumes "qnext m e \<noteq> e"
  shows "qnext (QueRemove e m) = (qnext m)(qprev m e := qnext m e)"
    and "qprev (QueRemove e m) =
      (qprev m)(((qnext m)(qprev m e := qnext m e)) e := qprev m e)"
  using assms by (simp_all add: QueRemove_def Let_def)

lemma QueRemove_ring:
  assumes r: "ring m h (xs @ e # ys)"
  shows "ring (QueRemove e m) h (xs @ ys)"
proof -
  let ?m = "QueRemove e m"
  obtain ps p where ps: "h # xs = ps @ [p]" by (metis neq_Nil_conv rev_exhaust)
  obtain q qs where qs: "ys @ [h] = q # qs" by (cases ys) auto
  have eq: "h # (xs @ e # ys) @ [h] = ps @ p # e # q # qs"
    using ps qs by (metis append.assoc append_Cons append_Nil)
  have ch: "chain m (ps @ [p])" "qnext m p = e" "qprev m e = p" "qnext m e = q" "qprev m q = e"
      "chain m (q # qs)"
    using r unfolding ring_def eq by (simp_all add: chain_append2)
  have bys: "butlast (q # qs) = ys" and tps: "tl (ps @ [p]) = xs"
    by (metis butlast_snoc qs) (metis list.sel(3) ps)
  have qin: "q \<in> insert h (set ys)" using qs by (cases ys) auto
  have "p = last (h # xs)" by (simp add: ps)
  then have pin: "p \<in> insert h (set xs)" by (metis last_in_set list.distinct(1) list.simps(15))
  have ne: "qnext m e \<noteq> e" "p \<noteq> e" "p \<notin> set ys" "q \<notin> set xs"
    using r qin pin by (auto simp: ring_def ch)
  have "distinct (h # xs)" using r by (auto simp: ring_def)
  then have "distinct (ps @ [p])" by (simp only: ps)
  then have c1: "chain ?m (ps @ [p])"
    using ch ne r by (subst chain_cong[of _ _ m]) (auto simp: QueRemove_sel tps ring_def)
  have c2: "chain ?m (q # qs)"
  proof -
    have "q \<notin> set qs" using qs r by (cases ys) (auto simp: ring_def)
    then show ?thesis
      using ch ne r
      
      by (subst chain_cong[of _ _ m]; (unfold bys list.sel)?) (auto simp: QueRemove_sel ring_def)
  qed
  have "chain ?m (ps @ p # q # qs)"
    using c1 c2 ne by (simp add: chain_append2 QueRemove_sel ch)
  moreover have "h # (xs @ ys) @ [h] = ps @ p # q # qs"
    using ps qs by (metis append.assoc append_Cons append_Nil)
  moreover have "distinct (h # xs @ ys)" using r by (auto simp: ring_def)
  ultimately show ?thesis by (simp add: ring_def)
qed

lemma QueRemoveNext_eq:
  assumes "ring m h (e # ys)"
  shows "QueRemoveNext h m = (QueRemove e m, Some e)"
proof -
  have "qnext m h = e" "qprev m e = h" "e \<noteq> h" using assms by (auto simp: ring_def)
  moreover have "qnext m e \<noteq> e" using assms by (cases ys) (auto simp: ring_def)
  ultimately show ?thesis by (simp add: QueRemoveNext_def QueRemove_def Let_def)
qed

lemma QueRemoveNext_empty: "ring m h [] \<Longrightarrow> QueRemoveNext h m = (m, None)"
  by (simp add: ring_nil QueRemoveNext_def)

lemma QueRemove_self: "qnext m e = e \<Longrightarrow> QueRemove e m = m"
  by (simp add: QueRemove_def)

text \<open>The scan of a ring stops, on the first node that satisfies the predicate or on the head.\<close>

lemma que_scan_from:
  assumes "chain m (q # qs @ [h])" and "h \<notin> set (q # qs)"
  shows "while_option (\<lambda>q. q \<noteq> h \<and> \<not> P q) (\<lambda>q. qnext m q) q =
           Some (hd (dropWhile (\<lambda>q. \<not> P q) (q # qs) @ [h]))"
  using assms
proof (induction qs arbitrary: q)
  case Nil
  then show ?case by (auto simp: while_option_unfold)
next
  case (Cons r qs)
  then show ?case by (auto simp: while_option_unfold[of _ _ q])
qed

lemma que_scan_ring:
  assumes "ring m h xs"
  shows "que_scan P h m = Some (hd (dropWhile (\<lambda>q. \<not> P q) xs @ [h]))"
proof (cases xs)
  case Nil
  then show ?thesis using assms by (simp add: que_scan_def ring_nil while_option_unfold)
next
  case (Cons x ys)
  then have "qnext m h = x" "chain m (x # ys @ [h])" "h \<notin> set (x # ys)"
    using assms by (auto simp: ring_def)
  then show ?thesis
    using que_scan_from[of m x ys h P] unfolding que_scan_def Cons by metis
qed

subsection \<open>Families of rings\<close>

text \<open>
  A link is either a queue head or the \<open>QUEUE\<close> member at the start of a control block. \<open>rings\<close> is
  the representation invariant of all the queues that hold blocks of one type.
\<close>

datatype ('h, 'n) qptr = Head 'h | Node 'n

definition rings :: "('h, 'n) qptr qheap \<Rightarrow> ('h \<Rightarrow> 'n list) \<Rightarrow> bool" where
  "rings m A \<longleftrightarrow> (\<forall>h. ring m (Head h) (map Node (A h))) \<and>
     (\<forall>h h'. h \<noteq> h' \<longrightarrow> set (A h) \<inter> set (A h') = {})"

lemma rings_ring: "rings m A \<Longrightarrow> ring m (Head h) (map Node (A h))"
  by (simp add: rings_def)

lemma rings_distinct: "rings m A \<Longrightarrow> distinct (A h)"
  by (auto simp: rings_def ring_def distinct_map)

lemma rings_unique: "rings m A \<Longrightarrow> n \<in> set (A h) \<Longrightarrow> n \<in> set (A h') \<Longrightarrow> h = h'"
  by (auto simp: rings_def)

lemma rings_update:
  assumes "rings m A" and "ring m' (Head h) (map Node ns)"
    and "\<And>x. x \<notin> insert (Head h) (Node ` (set ns \<union> set (A h))) \<Longrightarrow>
           qnext m' x = qnext m x \<and> qprev m' x = qprev m x"
    and "\<And>h' n. h' \<noteq> h \<Longrightarrow> n \<in> set (A h') \<Longrightarrow> n \<notin> set ns"
  shows "rings m' (A(h := ns))"
proof -
  have "ring m' (Head h') (map Node (A h'))" if "h' \<noteq> h" for h'
  proof -
    have "ring m' (Head h') (map Node (A h')) = ring m (Head h') (map Node (A h'))"
    proof (rule ring_cong)
      fix x assume "x \<in> insert (Head h') (set (map Node (A h')))"
      then have "x \<notin> insert (Head h) (Node ` (set ns \<union> set (A h)))"
        using that assms(4)[OF that] rings_unique[OF assms(1), of _ h' h] by auto
      then show "qnext m' x = qnext m x" "qprev m' x = qprev m x" using assms(3) by blast+
    qed
    then show ?thesis using assms(1) by (simp add: rings_def)
  qed
  then have "\<forall>h'. ring m' (Head h') (map Node ((A(h := ns)) h'))" using assms(2) by simp
  moreover have "set ((A(h := ns)) h1) \<inter> set ((A(h := ns)) h2) = {}" if "h1 \<noteq> h2" for h1 h2
    using that assms(4)[of h1] assms(4)[of h2] rings_unique[OF assms(1), of _ h1 h2]
    by (auto simp: disjoint_iff)
  ultimately show ?thesis unfolding rings_def by blast
qed

lemma ring_prev_in:
  assumes "ring m h (xs @ ys)"
  shows "qprev m (hd (ys @ [h])) \<in> insert h (set xs)"
proof -
  obtain q qs where qs: "ys @ [h] = q # qs" by (cases ys) auto
  obtain ps p where ps: "h # xs = ps @ [p]" by (metis neq_Nil_conv rev_exhaust)
  have "h # (xs @ ys) @ [h] = ps @ p # q # qs"
    using ps qs by (metis append.assoc append_Cons append_Nil)
  then have "qprev m q = p" using assms by (simp add: ring_def chain_append2)
  moreover have "p \<in> insert h (set xs)"
    using ps by (metis last_in_set last_snoc list.distinct(1) list.simps(15))
  ultimately show ?thesis by (simp add: qs)
qed

lemma rings_insert:
  assumes A: "rings m A" and h: "A h = xs @ ys" and n: "\<And>h. n \<notin> set (A h)"
    and q: "q = hd (map Node ys @ [Head h])"
  shows "rings (QueInsert (Node n) q m) (A(h := xs @ n # ys))"
proof (rule rings_update[OF A])
  have r: "ring m (Head h) (map Node xs @ map Node ys)"
    using rings_ring[OF A, of h] by (simp add: h)
  have "Node n \<notin> insert (Head h) (set (map Node xs @ map Node ys))" using n[of h] h by auto
  from QueInsert_ring[OF r this q]
  show "ring (QueInsert (Node n) q m) (Head h) (map Node (xs @ n # ys))" by simp
  have "qprev m q \<in> insert (Head h) (Node ` set xs)" using ring_prev_in[OF r] q by simp
  moreover have "q \<in> insert (Head h) (Node ` set ys)" using q by (cases ys) auto
  ultimately show "qnext (QueInsert (Node n) q m) x = qnext m x \<and>
      qprev (QueInsert (Node n) q m) x = qprev m x"
    if "x \<notin> insert (Head h) (Node ` (set (xs @ n # ys) \<union> set (A h)))" for x
    using that by (auto simp: QueInsert_sel h)
  show "n' \<notin> set (xs @ n # ys)" if "h' \<noteq> h" "n' \<in> set (A h')" for h' n'
    using that n[of h'] rings_unique[OF A, of n' h' h] h by auto
qed

lemma rings_remove:
  assumes A: "rings m A" and n: "n \<in> set (A h)"
  shows "rings (QueRemove (Node n) m) (A(h := remove1 n (A h)))"
proof -
  obtain xs ys where h: "A h = xs @ n # ys" "n \<notin> set xs" using split_list_first[OF n] by auto
  have r: "ring m (Head h) (map Node xs @ Node n # map Node ys)"
    using rings_ring[OF A, of h] by (simp add: h)
  have R: "remove1 n (A h) = xs @ ys" by (simp add: h remove1_append)
  have pv: "qprev m (Node n) \<in> insert (Head h) (Node ` set xs)"
    using ring_prev_in[of m "Head h" "map Node xs" "Node n # map Node ys"] r by simp
  have nx: "qnext m (Node n) \<in> insert (Head h) (Node ` set ys)"
    using r by (cases ys) (auto simp: ring_def chain_append2[of m "Head h # map Node xs", simplified])
  have "qnext m (Node n) \<noteq> Node n" using nx h rings_distinct[OF A, of h] by auto
  note sel = QueRemove_sel[OF this]
  show ?thesis unfolding R
  proof (rule rings_update[OF A])
    show "ring (QueRemove (Node n) m) (Head h) (map Node (xs @ ys))"
      using QueRemove_ring[OF r] by simp
    show "qnext (QueRemove (Node n) m) x = qnext m x \<and> qprev (QueRemove (Node n) m) x = qprev m x"
      if "x \<notin> insert (Head h) (Node ` (set (xs @ ys) \<union> set (A h)))" for x
      using that pv nx by (auto simp: sel h)
    show "n' \<notin> set (xs @ ys)" if "h' \<noteq> h" "n' \<in> set (A h')" for h' n'
      using that rings_unique[OF A, of n' h' h] h by auto
  qed
qed

subsection \<open>The interface the kernel uses\<close>

text \<open>
  The queue operations of the kernel in terms of the primitives: insertion at the tail and at the
  head, insertion in front of the first node that satisfies a predicate, removal, and the removal
  of the first node.
\<close>

definition que_ins_last :: "'n \<Rightarrow> 'h \<Rightarrow> ('h, 'n) qptr qheap \<Rightarrow> ('h, 'n) qptr qheap" where
  "que_ins_last n h m = QueInsert (Node n) (Head h) m"

definition que_ins_first :: "'n \<Rightarrow> 'h \<Rightarrow> ('h, 'n) qptr qheap \<Rightarrow> ('h, 'n) qptr qheap" where
  "que_ins_first n h m = QueInsert (Node n) (qnext m (Head h)) m"

fun node_sat :: "('n \<Rightarrow> bool) \<Rightarrow> ('h, 'n) qptr \<Rightarrow> bool" where
  "node_sat P (Node n) = P n"
| "node_sat P (Head h) = False"

definition que_ins_before ::
  "('n \<Rightarrow> bool) \<Rightarrow> 'n \<Rightarrow> 'h \<Rightarrow> ('h, 'n) qptr qheap \<Rightarrow> ('h, 'n) qptr qheap option" where
  "que_ins_before P n h m =
     map_option (\<lambda>q. QueInsert (Node n) q m) (que_scan (node_sat P) (Head h) m)"

locale queue_store =
  fixes rep :: "'m \<Rightarrow> ('h \<Rightarrow> 'n list) \<Rightarrow> bool"
    and empty :: "'h \<Rightarrow> 'm \<Rightarrow> bool"
    and first :: "'h \<Rightarrow> 'm \<Rightarrow> 'n"
    and ins_last :: "'n \<Rightarrow> 'h \<Rightarrow> 'm \<Rightarrow> 'm"
    and ins_first :: "'n \<Rightarrow> 'h \<Rightarrow> 'm \<Rightarrow> 'm"
    and ins_before :: "('n \<Rightarrow> bool) \<Rightarrow> 'n \<Rightarrow> 'h \<Rightarrow> 'm \<Rightarrow> 'm option"
    and del :: "'n \<Rightarrow> 'm \<Rightarrow> 'm"
  assumes empty: "rep m A \<Longrightarrow> empty h m \<longleftrightarrow> A h = []"
    and first: "rep m A \<Longrightarrow> A h \<noteq> [] \<Longrightarrow> first h m = hd (A h)"
    and dist: "rep m A \<Longrightarrow> distinct (A h)"
    and uniq: "rep m A \<Longrightarrow> n \<in> set (A h) \<Longrightarrow> n \<in> set (A h') \<Longrightarrow> h = h'"
    and ins_last: "rep m A \<Longrightarrow> (\<And>h. n \<notin> set (A h)) \<Longrightarrow>
      rep (ins_last n h m) (A(h := A h @ [n]))"
    and ins_first: "rep m A \<Longrightarrow> (\<And>h. n \<notin> set (A h)) \<Longrightarrow>
      rep (ins_first n h m) (A(h := n # A h))"
    and ins_before: "rep m A \<Longrightarrow> (\<And>h. n \<notin> set (A h)) \<Longrightarrow>
      \<exists>m'. ins_before P n h m = Some m' \<and> rep m' (A(h := insert_before P n (A h)))"
    and del: "rep m A \<Longrightarrow> n \<in> set (A h) \<Longrightarrow> rep (del n m) (A(h := remove1 n (A h)))"
begin

text \<open>A member of some ring taken out and out of all of them: the two removals agree.\<close>

lemma del_all:
  assumes "rep m A" and "n \<in> set (A h)"
  shows "rep (del n m) (\<lambda>h. remove1 n (A h))"
proof -
  have "n \<notin> set (A h')" if "h' \<noteq> h" for h' using uniq[OF assms(1,2), of h'] that by auto
  then have "A(h := remove1 n (A h)) = (\<lambda>h. remove1 n (A h))"
    by (auto simp: fun_eq_iff remove1_idem)
  then show ?thesis using del[OF assms] by simp
qed

text \<open>Moving the first node to the end, as \<open>knl_ready_queue_rotate\<close> does.\<close>

lemma rotate:
  assumes "rep m A" and "A h \<noteq> []"
  shows "rep (ins_last (hd (A h)) h (del (hd (A h)) m)) (A(h := rotate1 (A h)))"
proof -
  let ?n = "hd (A h)"
  let ?B = "\<lambda>h. remove1 ?n (A h)"
  have B: "rep (del ?n m) ?B" using assms by (intro del_all[of _ _ _ h]) auto
  have fresh: "?n \<notin> set (?B h')" for h' using dist[OF assms(1)] by simp
  have "?B(h := ?B h @ [?n]) = A(h := rotate1 (A h))"
  proof -
    have "?B h @ [?n] = rotate1 (A h)" using assms(2) by (cases "A h") auto
    moreover have "?B h' = A h'" if "h' \<noteq> h" for h'
      using uniq[OF assms(1), of ?n h h'] assms(2) that by (intro remove1_idem) auto
    ultimately show ?thesis by (auto simp: fun_eq_iff)
  qed
  then show ?thesis using ins_last[OF B fresh, of h] by simp
qed

text \<open>Requeueing by priority, as \<open>knl_gcb_change_priority\<close> does, always comes to an end.\<close>

lemma requeue:
  assumes "rep m A" and "n \<in> set (A h)"
  shows "\<exists>m'. ins_before P n h (del n m) = Some m' \<and>
           rep m' (A(h := insert_before P n (remove1 n (A h))))"
proof -
  have B: "rep (del n m) (A(h := remove1 n (A h)))" using assms by (rule del)
  have fresh: "n \<notin> set ((A(h := remove1 n (A h))) h')" for h'
    using dist[OF assms(1)] uniq[OF assms(1,2), of h'] by auto
  from ins_before[OF B this, of P h] show ?thesis by (simp add: fun_upd_def cong: if_cong)
qed

text \<open>The loop that empties a queue from the front, as \<open>knl_wait_delete\<close> does.\<close>

lemma drain:
  assumes "rep m A"
  shows "\<exists>m'. while_option (\<lambda>m. \<not> empty h m) (\<lambda>m. del (first h m) m) m = Some m' \<and>
           rep m' (A(h := []))"
  using assms
proof (induction "A h" arbitrary: m A)
  case Nil
  then have "empty h m" by (simp add: empty)
  moreover have "A(h := []) = A" using Nil(1) by (auto simp: fun_eq_iff)
  ultimately show ?case using Nil(2) by (simp add: while_option_unfold)
next
  case (Cons n ns)
  have nonempty: "\<not> empty h m" and n: "first h m = n"
    using empty[OF Cons.prems, of h] first[OF Cons.prems, of h] Cons.hyps(2)[symmetric] by auto
  have "rep (del n m) (A(h := remove1 n (A h)))"
    using del[OF Cons.prems, of n h] Cons.hyps(2)[symmetric] by simp
  moreover have "ns = (A(h := remove1 n (A h))) h" using Cons.hyps(2)[symmetric] by simp
  ultimately obtain m' where
    "while_option (\<lambda>m. \<not> empty h m) (\<lambda>m. del (first h m) m) (del n m) = Some m'"
    "rep m' ((A(h := remove1 n (A h)))(h := []))"
    using Cons.hyps(1) by blast
  then show ?case by (subst while_option_unfold) (simp add: nonempty n)
qed

end

definition que_first :: "'h \<Rightarrow> ('h, 'n) qptr qheap \<Rightarrow> 'n" where
  "que_first h m = (case qnext m (Head h) of Node n \<Rightarrow> n | Head _ \<Rightarrow> undefined)"

interpretation que: queue_store rings "\<lambda>h. isQueEmpty (Head h)" que_first que_ins_last
  que_ins_first que_ins_before "\<lambda>n. QueRemove (Node n)"
proof (unfold_locales, goal_cases)
  case (1 m A h)
  then show ?case using isQueEmpty_ring[OF rings_ring[OF 1], of h] by simp
next
  case (2 m A h)
  then show ?case using ring_first[OF rings_ring[OF 2(1)], of h] by (cases "A h") (auto simp: que_first_def)
next
  case (3 m A h)
  then show ?case by (rule rings_distinct)
next
  case (4 m A n h h')
  then show ?case by (rule rings_unique)
next
  case (5 m A n h)
  then show ?case using rings_insert[OF 5(1), of h "A h" "[]" n] by (simp add: que_ins_last_def)
next
  case (6 m A n h)
  have "qnext m (Head h) = hd (map Node (A h) @ [Head h])" by (rule ring_first[OF rings_ring[OF 6(1)]])
  then show ?case using rings_insert[OF 6(1), of h "[]" "A h" n] 6 by (simp add: que_ins_first_def)
next
  case (7 m A n P h)
  let ?xs = "takeWhile (\<lambda>y. \<not> P y) (A h)" and ?ys = "dropWhile (\<lambda>y. \<not> P y) (A h)"
  have "(\<lambda>q. \<not> node_sat P q) \<circ> Node = (\<lambda>y. \<not> P y)" by auto
  then have scan: "que_scan (node_sat P) (Head h) m = Some (hd (map Node ?ys @ [Head h]))"
    using que_scan_ring[OF rings_ring[OF 7(1), of h], of "node_sat P"] by (simp add: dropWhile_map comp_def)
  show ?case
    using rings_insert[OF 7(1), of h ?xs ?ys n] 7(2) scan
    by (auto simp: que_ins_before_def insert_before_split)
next
  case (8 m A n h)
  then show ?case by (rule rings_remove)
qed

end
