(* ===== verification/Kernel_State.thy ===== *)
theory Kernel_State
  imports Prelude
begin

text \<open>
  The data of the kernel: control blocks, queues, the ready queue, the per-core scheduler slots, the
  software clock and the memory of the tasks, collected in the record \<open>kstate\<close>. Pointers to control
  blocks are table indices, a NULL pointer is \<open>None\<close>. The \<open>QUEUE\<close> rings that link task control blocks
  are the lists \<open>que s h\<close> (theory \<open>Queue\<close> relates them to the pointers); a ring of free control
  blocks of another type is the list of their indices.
\<close>

subsection \<open>Task states and wait specifications (task.h, winfo.h)\<close>

datatype tstat = TS_NONEXIST | TS_READY | TS_WAIT | TS_SUSPEND | TS_WAITSUS | TS_DORMANT

primrec tstat_code :: "tstat \<Rightarrow> UW" where
  "tstat_code TS_NONEXIST = 0"
| "tstat_code TS_READY = 1"
| "tstat_code TS_WAIT = 2"
| "tstat_code TS_SUSPEND = 4"
| "tstat_code TS_WAITSUS = 6"
| "tstat_code TS_DORMANT = 8"

definition in_wait :: "tstat \<Rightarrow> bool" where
  "in_wait st \<longleftrightarrow> tstat_code st AND tstat_code TS_WAIT \<noteq> 0"

definition in_suspend :: "tstat \<Rightarrow> bool" where
  "in_suspend st \<longleftrightarrow> tstat_code st AND tstat_code TS_SUSPEND \<noteq> 0"

definition knl_task_alive :: "tstat \<Rightarrow> bool" where
  "knl_task_alive st \<longleftrightarrow>
     tstat_code st AND (tstat_code TS_READY OR tstat_code TS_WAIT OR tstat_code TS_SUSPEND) \<noteq> 0"

lemma in_wait_iff [simp]: "in_wait st \<longleftrightarrow> st = TS_WAIT \<or> st = TS_WAITSUS"
  by (cases st) (simp_all add: in_wait_def)

lemma in_suspend_iff [simp]: "in_suspend st \<longleftrightarrow> st = TS_SUSPEND \<or> st = TS_WAITSUS"
  by (cases st) (simp_all add: in_suspend_def)

lemma knl_task_alive_iff [simp]:
  "knl_task_alive st \<longleftrightarrow> st \<noteq> TS_NONEXIST \<and> st \<noteq> TS_DORMANT"
  by (cases st) (simp_all add: knl_task_alive_def)

text \<open>
  The constant \<open>WSPEC\<close> objects of the object files; a TCB points to one of them. The three members
  of a \<open>WSPEC\<close> are the functions below, with one constructor per hook function of the source.
\<close>

datatype wspec =
    Wspec_slp | Wspec_dly
  | Wspec_sem_tfifo | Wspec_sem_tpri
  | Wspec_flg_tfifo | Wspec_flg_tpri
  | Wspec_mbx_tfifo | Wspec_mbx_tpri
  | Wspec_mtx_tfifo | Wspec_mtx_tpri | Wspec_mtx_inherit
  | Wspec_smbf_tfifo | Wspec_smbf_tpri | Wspec_rmbf
  | Wspec_mpl_tfifo | Wspec_mpl_tpri
  | Wspec_mpf_tfifo | Wspec_mpf_tpri

datatype chg_pri_hook =
  Sem_chg_pri | Flg_chg_pri | Mbx_chg_pri | Mtx_chg_pri | Mbf_chg_pri | Mpl_chg_pri | Mpf_chg_pri

datatype rel_wai_hook = Sem_rel_wai | Mtx_rel_wai | Mbf_rel_wai | Mpl_rel_wai

text \<open>The union \<open>WINFO\<close>, with the members of the wait factors side by side.\<close>

record winfo =
  sem_cnt :: int
  flg_waiptn :: UW
  flg_wfmode :: UW
  flg_p_flgptn :: UW
  mbx_ppk_msg :: UW
  rmbf_msg :: UW
  rmbf_p_msgsz :: "nat option"
  smbf_msg :: UW
  smbf_msgsz :: int
  mpl_blksz :: int
  mpl_p_blk :: UW
  mpf_p_blf :: UW

subsection \<open>Control blocks\<close>

text \<open>
  \<open>wercd\<close> is the address of the local variable in which the blocked system call finds its result:
  \<open>Some t\<close> is the local of task \<open>t\<close>'s pending call, whose value is \<open>ercd s t\<close>. \<open>ctx_set\<close> records the
  initial context that \<open>knl_setup_context\<close> builds on the task's stack and the start code that
  \<open>knl_setup_stacd\<close> stores in it; the dispatcher consumes it.
\<close>

record tcb =
  tskid :: int
  exinf :: UW
  tskatr :: UW
  task_entry :: UW
  sstksz :: int
  isysmode :: int
  sysmode :: int
  ipriority :: nat
  bpriority :: nat
  priority :: nat
  state :: tstat
  assprc :: UW
  klockwait :: bool
  klocked :: bool
  stkfree :: bool
  wspec :: wspec
  wid :: int
  wupcnt :: int
  suscnt :: int
  wercd :: "nat option"
  winfo :: winfo
  isstack :: UW
  ctx_set :: "int option"
  mtxlist :: "nat option"

record semcb =
  semid :: int
  sem_exinf :: UW
  sematr :: UW
  semcnt :: int
  maxsem :: int

record flgcb =
  flgid :: int
  flg_exinf :: UW
  flgatr :: UW
  flgptn :: UW

record mbxcb =
  mbxid :: int
  mbx_exinf :: UW
  mbxatr :: UW
  mq_head :: UW
  mq_tail :: UW

record mtxcb =
  mtxid :: int
  mtx_exinf :: UW
  mtxatr :: UW
  ceilpri :: nat
  mtxtsk :: "nat option"
  mtx_next :: "nat option"

record mbfcb =
  mbfid :: int
  mbf_exinf :: UW
  mbfatr :: UW
  bufsz :: int
  maxmsz :: int
  frbufsz :: int
  mbf_head :: int
  mbf_tail :: int
  buffer :: UW

record mpfcb =
  mpfid :: int
  mpf_exinf :: UW
  mpfatr :: UW
  mpfcnt :: int
  blfsz :: int
  mpfsz :: int
  frbcnt :: int
  mempool :: UW
  unused :: UW
  freelist :: UW
  mpf_locked :: bool

text \<open>The members of \<open>MPLCB\<close> that form an \<open>IMACB\<close> lie in memory, at \<open>mplcb_at\<close> of the kernel state.\<close>

record mplcb =
  mplid :: int
  mpl_exinf :: UW
  mplatr :: UW
  mpl_mempool :: UW

record cyccb =
  cyc_exinf :: UW
  cycatr :: UW
  cychdr :: UW
  cycstat :: UW
  cyctim :: UW
  cyc_assprc :: UW
  cyc_generation :: UW

record almcb =
  alm_exinf :: UW
  almatr :: UW
  almhdr :: UW
  almstat :: UW
  alm_assprc :: UW
  alm_generation :: UW

subsection \<open>Queues of tasks\<close>

datatype qhd =
    RdyQ nat | FreeTcb
  | SemQ nat | FlgQ nat | MbxQ nat | MtxQ nat | SmbfQ nat | RmbfQ nat | MplQ nat | MpfQ nat
  | LockQ nat

type_synonym queues = "qhd \<Rightarrow> nat list"

text \<open>
  \<open>QueRemove\<close> takes a node out of the one ring that holds it, \<open>QueInsert\<close> in front of a head appends.
  Nodes are linked in at most one ring (\<open>Queue.rings\<close>), so taking \<open>t\<close> out of every list is the removal
  of the code (\<open>Queue.que.del_all\<close>); a self-linked node is in no list.
\<close>

definition q_remove :: "nat \<Rightarrow> queues \<Rightarrow> queues" where
  "q_remove t Q = (\<lambda>h. remove1 t (Q h))"

definition q_insert :: "nat \<Rightarrow> qhd \<Rightarrow> queues \<Rightarrow> queues" where
  "q_insert t h Q = Q(h := Q h @ [t])"

definition q_insert_top :: "nat \<Rightarrow> qhd \<Rightarrow> queues \<Rightarrow> queues" where
  "q_insert_top t h Q = Q(h := t # Q h)"

subsection \<open>The ready queue and the per-core slots\<close>

record rdyque =
  top_priority :: nat
  bitmap :: UW
  klocktsk :: "nat option"

text \<open>
  \<open>smp.h\<close>, \<open>ready_queue_smp.c\<close>, \<open>smp_dispatch.c\<close>, \<open>wait.c\<close>: the per-core arrays and the diagnostic
  counters of the SMP port. \<open>primask\<close> and \<open>pendsv\<close> are the interrupt mask and the pending dispatch
  exception of a core, \<open>ipi_pending\<close> the message bits sent to it, \<open>doorbell\<close> whether its hardware FIFO
  holds an unread word.
\<close>

record smp =
  ctxtsk :: "nat \<Rightarrow> nat option"
  schedtsk :: "nat \<Rightarrow> nat option"
  dispatch_disabled :: "nat \<Rightarrow> nat"
  taskindp :: "nat \<Rightarrow> int"
  primask :: "nat \<Rightarrow> bool"
  pendsv :: "nat \<Rightarrow> bool"
  online_mask :: UW
  ipi_pending :: "nat \<Rightarrow> UW"
  doorbell :: "nat \<Rightarrow> bool"
  rq_hist :: "nat \<Rightarrow> UW"
  bad_assign :: UW
  bad_assign_task :: UW
  bad_assign_core :: UW
  dup_candidate :: UW
  dup_publish :: UW
  last_pub :: "nat \<Rightarrow> UW"
  pub_count :: "nat \<Rightarrow> UW"
  wake_raced :: UW
  assign_count :: UW
  assign_refused :: UW
  context_releases :: "nat \<Rightarrow> UW"
  deferred_reclaims :: UW

subsection \<open>Timer events (timer.h)\<close>

text \<open>
  A timer event block is embedded in a TCB, a cyclic or an alarm control block. A callback pointer
  with its argument is a \<open>cback\<close>.
\<close>

datatype tmeb_ref = TmTsk nat | TmCyc nat | TmAlm nat

datatype cback =
    Wait_release_tmout nat
  | Distribute_cychdr nat | Call_cychdr nat
  | Distribute_almhdr nat | Call_almhdr nat

record tmeb =
  ev_time :: UW
  callback :: "cback option"

datatype tmq_head = TimerQ | HdrQ nat

record tdiag =
  ticks :: UW
  wrong_core_ticks :: UW
  expired_events :: UW
  max_expired_per_tick :: UW
  handler_enqueued :: "nat \<Rightarrow> UW"
  handler_executed :: "nat \<Rightarrow> UW"
  callback_max_us :: "nat \<Rightarrow> UW"
  callback_detached :: "nat \<Rightarrow> UW"
  callback_reconciled :: "nat \<Rightarrow> UW"
  callback_stale :: "nat \<Rightarrow> UW"

record tmr =
  current_time :: LSYSTIM
  real_time_ofs :: LSYSTIM
  tmeb_of :: "tmeb_ref \<Rightarrow> tmeb"
  tmq :: "tmq_head \<Rightarrow> tmeb_ref list"
  hdr_active :: "nat \<Rightarrow> bool"
  timer_diag :: tdiag

subsection \<open>The kernel state\<close>

text \<open>
  Tasks \<open>0 .. NUM_TSKID - 1\<close> are the entries of \<open>knl_tcb_table\<close>, task \<open>NUM_TSKID + c\<close> is the private
  idle task of core \<open>c\<close>. \<open>mem\<close> is the byte memory in which messages, message buffers, memory pools
  and the variables behind the pointers of the callers lie. \<open>fault\<close> is set when the code would
  dereference a NULL pointer or when a fuel bound is exceeded. \<open>rcvsz s t\<close> is the local variable of
  that name in task \<open>t\<close>'s pending \<open>tk_rcv_mbf\<close>, to which the \<open>Some t\<close> in \<open>rmbf_p_msgsz\<close> points;
  \<open>imacb\<close>, \<open>lowmem_top\<close> and \<open>lowmem_limit\<close> are the pointers of the kernel's memory allocator, and
  \<open>mplcb_at s i\<close> is the address at which the linker placed \<open>knl_mplcb_table[i].mplsz\<close>.
\<close>

record kstate =
  tcb :: "nat \<Rightarrow> tcb"
  que :: queues
  rq :: rdyque
  smp :: smp
  tmr :: tmr
  ercd :: "nat \<Rightarrow> int"
  sem :: "nat \<Rightarrow> semcb"
  free_sem :: "nat list"
  flg :: "nat \<Rightarrow> flgcb"
  free_flg :: "nat list"
  mbx :: "nat \<Rightarrow> mbxcb"
  free_mbx :: "nat list"
  mtx :: "nat \<Rightarrow> mtxcb"
  free_mtx :: "nat list"
  mbf :: "nat \<Rightarrow> mbfcb"
  free_mbf :: "nat list"
  mpf :: "nat \<Rightarrow> mpfcb"
  free_mpf :: "nat list"
  mpl :: "nat \<Rightarrow> mplcb"
  free_mpl :: "nat list"
  mplcb_at :: "nat \<Rightarrow> UW"
  cyc :: "nat \<Rightarrow> cyccb"
  free_cyc :: "nat list"
  alm :: "nat \<Rightarrow> almcb"
  free_alm :: "nat list"
  mem :: "UW \<Rightarrow> UB"
  rcvsz :: "nat \<Rightarrow> int"
  imacb :: UW
  lowmem_top :: UW
  lowmem_limit :: UW
  fault :: bool

definition idletsk :: "nat \<Rightarrow> nat" where
  "idletsk core = NUM_TSKID + core"

text \<open>
  A system call that does not wait returns a value; one that waits returns later, with the value that
  the releasing side leaves in \<open>ercd\<close>.
\<close>

datatype sysret = Ret int | Blocked

subsection \<open>Field access\<close>

abbreviation upd_tcb :: "nat \<Rightarrow> (tcb \<Rightarrow> tcb) \<Rightarrow> kstate \<Rightarrow> kstate" where
  "upd_tcb t f s \<equiv> s\<lparr>tcb := (tcb s)(t := f (tcb s t))\<rparr>"

abbreviation upd_que :: "(queues \<Rightarrow> queues) \<Rightarrow> kstate \<Rightarrow> kstate" where
  "upd_que f s \<equiv> s\<lparr>que := f (que s)\<rparr>"

abbreviation cur :: "nat \<Rightarrow> kstate \<Rightarrow> nat" where
  "cur c s \<equiv> the (ctxtsk (smp s) c)"

subsection \<open>Memory words (little endian)\<close>

definition ld32 :: "UW \<Rightarrow> (UW \<Rightarrow> UB) \<Rightarrow> UW" where
  "ld32 p m = ucast (m p) OR push_bit 8 (ucast (m (p + 1))) OR
     push_bit 16 (ucast (m (p + 2))) OR push_bit 24 (ucast (m (p + 3)))"

definition st32 :: "UW \<Rightarrow> UW \<Rightarrow> (UW \<Rightarrow> UB) \<Rightarrow> (UW \<Rightarrow> UB)" where
  "st32 p v m = m(p := ucast v, p + 1 := ucast (drop_bit 8 v),
     p + 2 := ucast (drop_bit 16 v), p + 3 := ucast (drop_bit 24 v))"

lemma ld32_st32_same [simp]: "ld32 p (st32 p v m) = v"
proof -
  have "p + 1 \<noteq> p" "p + 2 \<noteq> p" "p + 3 \<noteq> p" "p + 2 \<noteq> p + 1" "p + 3 \<noteq> p + 1" "p + 3 \<noteq> p + 2"
    by simp_all
  then have "ld32 p (st32 p v m) = ucast (ucast v :: UB) OR push_bit 8 (ucast (ucast (drop_bit 8 v) :: UB)) OR
     push_bit 16 (ucast (ucast (drop_bit 16 v) :: UB)) OR push_bit 24 (ucast (ucast (drop_bit 24 v) :: UB))"
    by (simp add: ld32_def st32_def)
  also have "\<dots> = v"
  proof (rule bit_word_eqI)
    fix n assume "n < LENGTH(32)"
    then consider "n < 8" | "8 \<le> n" "n < 16" | "16 \<le> n" "n < 24" | "24 \<le> n" "n < 32" by fastforce
    then show "bit ((ucast (ucast v :: UB) :: UW) OR push_bit 8 (ucast (ucast (drop_bit 8 v) :: UB)) OR
      push_bit 16 (ucast (ucast (drop_bit 16 v) :: UB)) OR
      push_bit 24 (ucast (ucast (drop_bit 24 v) :: UB))) n = bit v n"
      by cases (auto simp: bit_simps)
  qed
  finally show ?thesis .
qed

end
