(* ===== verification/Ready_Queue.thy ===== *)
theory Ready_Queue
  imports Kernel_State
begin

text \<open>
  \<^verbatim>\<open>kernel/tkernel/ready_queue.h\<close>: the ready queue, one FIFO ring per priority with a bitmap of the
  occupied priorities and the cached highest priority. \<open>NUM_TSKPRI\<close> is the width of the bitmap word,
  so the search for the highest priority is the inline loop over its bits.
\<close>

subsection \<open>Operations\<close>

function knl_ready_queue_calc_top_priority :: "UW \<Rightarrow> nat \<Rightarrow> nat" where
  "knl_ready_queue_calc_top_priority bm pos =
     (if pos < NUM_TSKPRI
      then if bm AND push_bit pos 1 \<noteq> 0 then pos
           else knl_ready_queue_calc_top_priority bm (pos + 1)
      else NUM_TSKPRI)"
  by pat_completeness auto
termination by (relation "measure (\<lambda>(bm, pos). NUM_TSKPRI - pos)") auto

declare knl_ready_queue_calc_top_priority.simps [simp del]

definition knl_ready_queue_initialize :: "kstate \<Rightarrow> kstate" where
  "knl_ready_queue_initialize s = s\<lparr>
     que := (\<lambda>h. case h of RdyQ i \<Rightarrow> if i < NUM_TSKPRI then [] else que s h | _ \<Rightarrow> que s h),
     rq := \<lparr>top_priority = NUM_TSKPRI, bitmap = 0, klocktsk = None\<rparr>\<rparr>"

definition knl_ready_queue_top :: "kstate \<Rightarrow> nat option" where
  "knl_ready_queue_top s =
     (case klocktsk (rq s) of
        Some t \<Rightarrow> Some t
      | None \<Rightarrow> if top_priority (rq s) = NUM_TSKPRI then None
                else Some (hd (que s (RdyQ (top_priority (rq s))))))"

definition knl_ready_queue_top_priority :: "kstate \<Rightarrow> nat" where
  "knl_ready_queue_top_priority s = top_priority (rq s)"

definition rq_mark :: "tcb \<Rightarrow> nat \<Rightarrow> rdyque \<Rightarrow> rdyque" where
  "rq_mark T t r =
     (let p = priority T;
          r = r\<lparr>bitmap := bitmap r OR push_bit p 1\<rparr>;
          r = (if klocked T then r\<lparr>klocktsk := Some t\<rparr> else r)
      in if p < top_priority r then r\<lparr>top_priority := p\<rparr> else r)"

definition knl_ready_queue_insert :: "nat \<Rightarrow> kstate \<Rightarrow> kstate \<times> bool" where
  "knl_ready_queue_insert t s =
     (let T = tcb s t
      in (s\<lparr>que := q_insert t (RdyQ (priority T)) (que s), rq := rq_mark T t (rq s)\<rparr>,
          priority T < top_priority (rq s)))"

definition knl_ready_queue_insert_top :: "nat \<Rightarrow> kstate \<Rightarrow> kstate" where
  "knl_ready_queue_insert_top t s =
     (let T = tcb s t
      in s\<lparr>que := q_insert_top t (RdyQ (priority T)) (que s), rq := rq_mark T t (rq s)\<rparr>)"

definition knl_ready_queue_delete :: "nat \<Rightarrow> kstate \<Rightarrow> kstate" where
  "knl_ready_queue_delete t s =
     (let p = priority (tcb s t);
          r = (if klocktsk (rq s) = Some t then (rq s)\<lparr>klocktsk := None\<rparr> else rq s);
          Q = q_remove t (que s);
          s = s\<lparr>que := Q, rq := r\<rparr>
      in if klockwait (tcb s t) then upd_tcb t (klockwait_update (\<lambda>_. False)) s
         else if Q (RdyQ p) \<noteq> [] then s
         else let r = r\<lparr>bitmap := bitmap r AND NOT (push_bit p 1)\<rparr>
              in if p \<noteq> top_priority r then s\<lparr>rq := r\<rparr>
                 else s\<lparr>rq := r\<lparr>top_priority := knl_ready_queue_calc_top_priority (bitmap r) p\<rparr>\<rparr>)"

definition knl_ready_queue_rotate :: "nat \<Rightarrow> kstate \<Rightarrow> kstate" where
  "knl_ready_queue_rotate p s =
     (case que s (RdyQ p) of
        [] \<Rightarrow> s
      | t # ts \<Rightarrow> s\<lparr>que := q_insert t (RdyQ p) ((que s)(RdyQ p := ts))\<rparr>)"

definition knl_ready_queue_move_last :: "nat \<Rightarrow> kstate \<Rightarrow> kstate \<times> nat" where
  "knl_ready_queue_move_last t s =
     (let h = RdyQ (priority (tcb s t));
          Q = q_insert t h (q_remove t (que s))
      in (s\<lparr>que := Q\<rparr>, hd (Q h)))"

subsection \<open>The search in the bitmap\<close>

lemma and_push_bit_1: "(w::'a::len word) AND push_bit n 1 \<noteq> 0 \<longleftrightarrow> n < LENGTH('a) \<and> bit w n"
proof -
  have "w AND push_bit n 1 = (if bit w n then push_bit n 1 else 0)"
    by (rule bit_word_eqI) (auto simp: bit_simps)
  then show ?thesis
    by (auto simp: bit_eq_iff bit_simps dest: bit_imp_le_length)
qed

lemma calc_top_spec:
  assumes "pos \<le> NUM_TSKPRI"
  shows "pos \<le> knl_ready_queue_calc_top_priority bm pos"
    and "knl_ready_queue_calc_top_priority bm pos \<le> NUM_TSKPRI"
    and "knl_ready_queue_calc_top_priority bm pos < NUM_TSKPRI \<Longrightarrow>
           bit bm (knl_ready_queue_calc_top_priority bm pos)"
    and "pos \<le> p \<Longrightarrow> p < knl_ready_queue_calc_top_priority bm pos \<Longrightarrow> \<not> bit bm p"
proof -
  have "pos \<le> knl_ready_queue_calc_top_priority bm pos \<and>
        knl_ready_queue_calc_top_priority bm pos \<le> NUM_TSKPRI \<and>
        (knl_ready_queue_calc_top_priority bm pos < NUM_TSKPRI \<longrightarrow>
           bit bm (knl_ready_queue_calc_top_priority bm pos)) \<and>
        (\<forall>p. pos \<le> p \<and> p < knl_ready_queue_calc_top_priority bm pos \<longrightarrow> \<not> bit bm p)"
    using assms
  proof (induction bm pos rule: knl_ready_queue_calc_top_priority.induct)
    case (1 bm pos)
    show ?case
    proof (cases "pos < NUM_TSKPRI")
      case False
      then show ?thesis using 1(2) by (auto simp: knl_ready_queue_calc_top_priority.simps)
    next
      case lt: True
      show ?thesis
      proof (cases "bm AND push_bit pos 1 \<noteq> 0")
        case True
        then have "bit bm pos" using and_push_bit_1[of bm pos] by blast
        moreover have "knl_ready_queue_calc_top_priority bm pos = pos"
          using lt True by (subst knl_ready_queue_calc_top_priority.simps) simp
        ultimately show ?thesis using lt by auto
      next
        case False
        then have nb: "\<not> bit bm pos" using lt and_push_bit_1[of bm pos] by (auto simp: NUM_TSKPRI_def)
        have eq: "knl_ready_queue_calc_top_priority bm pos =
            knl_ready_queue_calc_top_priority bm (pos + 1)"
          using lt False by (subst knl_ready_queue_calc_top_priority.simps) simp
        show ?thesis using 1(1)[OF lt False] lt nb unfolding eq
          by (metis Suc_eq_plus1 Suc_leD Suc_leI le_neq_implies_less)
      qed
    qed
  qed
  then show "pos \<le> knl_ready_queue_calc_top_priority bm pos"
    "knl_ready_queue_calc_top_priority bm pos \<le> NUM_TSKPRI"
    "knl_ready_queue_calc_top_priority bm pos < NUM_TSKPRI \<Longrightarrow>
       bit bm (knl_ready_queue_calc_top_priority bm pos)"
    "pos \<le> p \<Longrightarrow> p < knl_ready_queue_calc_top_priority bm pos \<Longrightarrow> \<not> bit bm p"
    by blast+
qed

subsection \<open>The invariant\<close>

text \<open>
  A bit is set exactly when its ring holds a task, and the cached priority is the least occupied one,
  \<open>NUM_TSKPRI\<close> when there is none.
\<close>

definition rq_ok :: "queues \<Rightarrow> rdyque \<Rightarrow> bool" where
  "rq_ok Q r \<longleftrightarrow>
     (\<forall>p<NUM_TSKPRI. bit (bitmap r) p \<longleftrightarrow> Q (RdyQ p) \<noteq> []) \<and>
     (\<forall>p<top_priority r. Q (RdyQ p) = []) \<and> top_priority r \<le> NUM_TSKPRI \<and>
     (top_priority r < NUM_TSKPRI \<longrightarrow> Q (RdyQ (top_priority r)) \<noteq> [])"

lemma rq_ok_top_least:
  assumes "rq_ok Q r" and "p < NUM_TSKPRI" and "Q (RdyQ p) \<noteq> []"
  shows "top_priority r \<le> p"
  using assms unfolding rq_ok_def by (metis not_le)

lemma rq_ok_cong:
  "(\<And>p. Q (RdyQ p) = [] \<longleftrightarrow> Q' (RdyQ p) = []) \<Longrightarrow> rq_ok Q r \<longleftrightarrow> rq_ok Q' r"
  by (simp add: rq_ok_def)

lemma rq_ok_klocktsk [simp]: "rq_ok Q (r\<lparr>klocktsk := x\<rparr>) \<longleftrightarrow> rq_ok Q r"
  by (simp add: rq_ok_def)

lemma rq_ok_mark:
  assumes ok: "rq_ok Q r" and p: "priority T < NUM_TSKPRI"
    and Q': "Q' (RdyQ (priority T)) \<noteq> []" "\<And>q. q \<noteq> priority T \<Longrightarrow> Q' (RdyQ q) = Q (RdyQ q)"
  shows "rq_ok Q' (rq_mark T t r)"
proof -
  have b: "bitmap (rq_mark T t r) = bitmap r OR push_bit (priority T) 1"
    and tp: "top_priority (rq_mark T t r) = min (priority T) (top_priority r)"
    by (simp_all add: rq_mark_def Let_def)
  have "bit (bitmap (rq_mark T t r)) q \<longleftrightarrow> Q' (RdyQ q) \<noteq> []" if "q < NUM_TSKPRI" for q
    using ok that Q' p by (cases "q = priority T") (auto simp: rq_ok_def b bit_simps NUM_TSKPRI_def)
  moreover have "Q' (RdyQ q) = []" if "q < min (priority T) (top_priority r)" for q
    using ok that Q'(2)[of q] by (auto simp: rq_ok_def)
  moreover have "Q' (RdyQ (min (priority T) (top_priority r))) \<noteq> []"
  proof (cases "top_priority r < priority T")
    case True
    then have "Q (RdyQ (top_priority r)) \<noteq> []" using ok p by (auto simp: rq_ok_def)
    then show ?thesis using True Q'(2)[of "top_priority r"] by (simp add: min_def)
  qed (use Q'(1) in \<open>simp add: min_def not_less\<close>)
  ultimately show ?thesis using ok p by (auto simp: rq_ok_def tp min_def)
qed

lemma rq_ok_insert:
  assumes "rq_ok (que s) (rq s)" and "priority (tcb s t) < NUM_TSKPRI"
    and "s' = fst (knl_ready_queue_insert t s)"
  shows "rq_ok (que s') (rq s')"
  using rq_ok_mark[OF assms(1,2)] assms(3)
  by (simp add: knl_ready_queue_insert_def Let_def q_insert_def)

lemma rq_ok_insert_top:
  assumes "rq_ok (que s) (rq s)" and "priority (tcb s t) < NUM_TSKPRI"
    and "s' = knl_ready_queue_insert_top t s"
  shows "rq_ok (que s') (rq s')"
  using rq_ok_mark[OF assms(1,2)] assms(3)
  by (simp add: knl_ready_queue_insert_top_def Let_def q_insert_top_def)

lemma rq_ok_rotate:
  assumes "rq_ok (que s) (rq s)" and "s' = knl_ready_queue_rotate p s"
  shows "rq_ok (que s') (rq s')"
proof -
  have "(que s (RdyQ q) = []) = (que s' (RdyQ q) = [])" for q
    by (cases "que s (RdyQ p)") (auto simp: assms(2) knl_ready_queue_rotate_def q_insert_def)
  moreover have "rq s' = rq s"
    by (cases "que s (RdyQ p)") (auto simp: assms(2) knl_ready_queue_rotate_def)
  ultimately show ?thesis using assms(1) rq_ok_cong[of "que s" "que s'"] by simp
qed

lemma rq_ok_delete:
  assumes ok: "rq_ok (que s) (rq s)" and p: "priority (tcb s t) < NUM_TSKPRI"
    and home: "\<And>q. t \<in> set (que s (RdyQ q)) \<Longrightarrow> q = priority (tcb s t) \<and> \<not> klockwait (tcb s t)"
    and s': "s' = knl_ready_queue_delete t s"
  shows "rq_ok (que s') (rq s')"
proof -
  let ?p = "priority (tcb s t)" and ?Q = "q_remove t (que s)"
  let ?r = "if klocktsk (rq s) = Some t then (rq s)\<lparr>klocktsk := None\<rparr> else rq s"
  have okr: "rq_ok (que s) ?r" using ok by simp
  have oth: "?Q (RdyQ q) = que s (RdyQ q)" if "q \<noteq> ?p \<or> klockwait (tcb s t)" for q
    using home[of q] that by (auto simp: q_remove_def intro!: remove1_idem)
  have same: "?Q (RdyQ q) = [] \<longleftrightarrow> que s (RdyQ q) = []" if "klockwait (tcb s t) \<or> ?Q (RdyQ ?p) \<noteq> []" for q
  proof (cases "q = ?p \<and> \<not> klockwait (tcb s t)")
    case True
    then have "?Q (RdyQ q) \<noteq> []" using that by simp
    moreover from this have "que s (RdyQ q) \<noteq> []" by (auto simp: q_remove_def)
    ultimately show ?thesis by simp
  qed (use oth in auto)
  show ?thesis
  proof (cases "klockwait (tcb s t) \<or> ?Q (RdyQ ?p) \<noteq> []")
    case True
    then have "que s' = ?Q" "rq s' = ?r"
      by (auto simp: s' knl_ready_queue_delete_def Let_def)
    then show ?thesis using okr rq_ok_cong[of ?Q "que s" ?r] same[OF True] by simp
  next
    case False
    let ?b = "bitmap (rq s) AND NOT (push_bit ?p 1)"
    have Q': "que s' = ?Q" and b': "bitmap (rq s') = ?b"
      and tp: "top_priority (rq s') = (if ?p = top_priority (rq s)
                 then knl_ready_queue_calc_top_priority ?b ?p else top_priority (rq s))"
      using False by (auto simp: s' knl_ready_queue_delete_def Let_def)
    have bits: "bit ?b q \<longleftrightarrow> ?Q (RdyQ q) \<noteq> []" if "q < NUM_TSKPRI" for q
      using ok that oth[of q] False
      by (cases "q = ?p") (auto simp: rq_ok_def bit_simps NUM_TSKPRI_def)
    have low: "?Q (RdyQ q) = []" if "q < top_priority (rq s)" for q
      using ok that by (auto simp: rq_ok_def q_remove_def)
    show ?thesis
    proof (cases "?p = top_priority (rq s)")
      case eq: True
      let ?n = "knl_ready_queue_calc_top_priority ?b ?p"
      note sp = calc_top_spec[where bm = ?b, OF less_imp_le[OF p]]
      have "?Q (RdyQ q) = []" if "q < ?n" for q
        using low[of q] sp(2) sp(4)[of q] bits[of q] that eq by (cases "q < ?p") auto
      moreover have "?Q (RdyQ ?n) \<noteq> []" if "?n < NUM_TSKPRI" using sp(3)[OF that] bits[OF that] by simp
      ultimately show ?thesis using bits sp(2) by (auto simp: rq_ok_def Q' b' tp eq)
    next
      case ne: False
      then have "?Q (RdyQ (top_priority (rq s))) \<noteq> []" if "top_priority (rq s) < NUM_TSKPRI"
        using ok that oth[of "top_priority (rq s)"] by (auto simp: rq_ok_def)
      then show ?thesis using bits low ne ok by (auto simp: rq_ok_def Q' b' tp)
    qed
  qed
qed

lemma calc_top_frame:
  "tcb (knl_ready_queue_delete t s) =
     (tcb s)(t := (tcb s t)\<lparr>klockwait := False\<rparr>)"
  "que (knl_ready_queue_delete t s) = q_remove t (que s)"
proof -
  have "(tcb s t)\<lparr>klockwait := False\<rparr> = tcb s t" if "\<not> klockwait (tcb s t)"
    using that by (cases "tcb s t") simp
  then show "tcb (knl_ready_queue_delete t s) = (tcb s)(t := (tcb s t)\<lparr>klockwait := False\<rparr>)"
    by (auto simp: knl_ready_queue_delete_def Let_def fun_eq_iff)
  show "que (knl_ready_queue_delete t s) = q_remove t (que s)"
    by (simp add: knl_ready_queue_delete_def Let_def)
qed

text \<open>The rest of the state after a deletion: only the ready queue's own record changes.\<close>

definition rq_unmark :: "nat \<Rightarrow> kstate \<Rightarrow> rdyque" where
  "rq_unmark t s = rq (knl_ready_queue_delete t s)"

lemma knl_ready_queue_delete_eq:
  "knl_ready_queue_delete t s =
     s\<lparr>tcb := (tcb s)(t := (tcb s t)\<lparr>klockwait := False\<rparr>), que := q_remove t (que s),
       rq := rq_unmark t s\<rparr>"
proof (rule kstate.equality)
  show "tcb (knl_ready_queue_delete t s) = tcb (s\<lparr>tcb := (tcb s)(t := (tcb s t)\<lparr>klockwait := False\<rparr>),
      que := q_remove t (que s), rq := rq_unmark t s\<rparr>)"
    by (simp add: calc_top_frame)
qed (simp_all add: knl_ready_queue_delete_def rq_unmark_def Let_def)

end
