(* ===== verification/Smp_Assign.thy ===== *)
theory Smp_Assign
  imports Ready_Queue
begin

text \<open>
  \<^verbatim>\<open>kernel/tkernel/ready_queue_smp.c\<close>: the choice of one task per core from the global ready queue and
  its publication in \<open>knl_schedtsk\<close>, with the cross-core request of \<^verbatim>\<open>smp_dispatch.c\<close>.
\<close>

subsection \<open>Operations\<close>

function knl_popcount :: "UW \<Rightarrow> nat" where
  "knl_popcount bits = (if bits \<noteq> 0 then Suc (knl_popcount (bits AND (bits - 1))) else 0)"
  by pat_completeness auto
termination
proof (relation "measure unat")
  fix bits :: UW assume "bits \<noteq> 0"
  have "bits AND (bits - 1) \<le> bits - 1" by (rule word_and_le1)
  also have "\<dots> < bits" using \<open>bits \<noteq> 0\<close> by (metis diff_less_mono2 dual_order.refl less_irrefl
      linorder_not_less measure_unat unat_minus_one word_less_nat_alt word_not_simps(1))
  finally show "(bits AND (bits - 1), bits) \<in> measure unat" by (simp add: word_less_nat_alt)
qed simp

declare knl_popcount.simps [simp del]

abbreviation core_bit :: "nat \<Rightarrow> UW" where "core_bit core \<equiv> push_bit core 1"

definition knl_task_core_mask :: "kstate \<Rightarrow> nat \<Rightarrow> UW" where
  "knl_task_core_mask s t =
     (let enabled = ALL_CORE_BIT AND online_mask (smp s)
      in case find (\<lambda>core. ctxtsk (smp s) core = Some t) [0..<TK_MAX_CORE] of
           Some core \<Rightarrow> core_bit core AND enabled
         | None \<Rightarrow>
      (case find (\<lambda>core. schedtsk (smp s) core = Some t) [0..<TK_MAX_CORE] of
           Some core \<Rightarrow> core_bit core AND enabled
         | None \<Rightarrow>
             let enabled = fold (\<lambda>core en. if dispatch_disabled (smp s) core \<ge> 2
                                           then en AND NOT (core_bit core) else en)
                                [0..<TK_MAX_CORE] enabled
             in assprc (tcb s t) AND enabled AND ALL_CORE_BIT))"

text \<open>
  A candidate is a task with the mask of the cores it may take; \<open>candidate[i]\<close> and \<open>masks[i]\<close> of the
  code are the two components of entry \<open>i\<close>.
\<close>

fun knl_already_candidate :: "(nat \<times> UW) list \<Rightarrow> nat \<Rightarrow> smp \<Rightarrow> bool \<times> smp" where
  "knl_already_candidate [] t m = (False, m)"
| "knl_already_candidate ((u, _) # cs) t m =
     (if u = t then (True, m\<lparr>dup_candidate := dup_candidate m + 1\<rparr>)
      else knl_already_candidate cs t m)"

definition knl_candidate_feasible :: "(nat \<times> UW) list \<Rightarrow> UW \<Rightarrow> smp \<Rightarrow> bool \<times> smp" where
  "knl_candidate_feasible cs nxt m =
     (if nxt = 0 then (False, m)
      else let count = length cs;
               union_bits = fold (\<lambda>(_, mk) b. b OR mk) cs nxt
           in (knl_popcount union_bits \<ge> count + 1,
               m\<lparr>rq_hist := (rq_hist m)
                    (count := push_bit 16 (of_nat (count + 1)) OR union_bits)\<rparr>))"

text \<open>One of the two scans over a ring: \<open>kl\<close> tells whether lock holders or the other tasks are wanted.\<close>

fun scan_ring :: "kstate \<Rightarrow> bool \<Rightarrow> nat list \<Rightarrow> (nat \<times> UW) list \<times> smp \<Rightarrow> (nat \<times> UW) list \<times> smp" where
  "scan_ring s kl [] (cs, m) = (cs, m)"
| "scan_ring s kl (t # q) (cs, m) =
     (if \<not> length cs < TK_MAX_CORE then (cs, m)
      else if klocked (tcb s t) \<noteq> kl then scan_ring s kl q (cs, m)
      else let (dup, m) = knl_already_candidate cs t m
           in if dup then scan_ring s kl q (cs, m)
      else let mk = knl_task_core_mask s t;
               (ok, m) = knl_candidate_feasible cs mk m
           in if \<not> ok then scan_ring s kl q (cs, m)
              else scan_ring s kl q (cs @ [(t, mk)], m))"

definition scan_queue ::
  "kstate \<Rightarrow> bool \<Rightarrow> (nat \<times> UW) list \<times> smp \<Rightarrow> (nat \<times> UW) list \<times> smp" where
  "scan_queue s kl a = fold (\<lambda>p. scan_ring s kl (que s (RdyQ p))) [0..<NUM_TSKPRI] a"

text \<open>
  One of the three placement loops: candidates not yet placed whose mask is eligible go to the first
  free core of their mask that is wanted.
\<close>

fun place_pass ::
  "(UW \<Rightarrow> bool) \<Rightarrow> (nat \<Rightarrow> nat \<Rightarrow> bool) \<Rightarrow> (nat option \<times> UW) list \<Rightarrow> (nat \<Rightarrow> nat option) \<Rightarrow>
   (nat option \<times> UW) list \<times> (nat \<Rightarrow> nat option)" where
  "place_pass elig want [] out = ([], out)"
| "place_pass elig want ((cand, mk) # cs) out =
     (case (case cand of None \<Rightarrow> None | Some t \<Rightarrow>
              if \<not> elig mk then None
              else map_option (\<lambda>core. (core, t))
                     (find (\<lambda>core. mk AND core_bit core \<noteq> 0 \<and> out core = None \<and> want t core)
                        [0..<TK_MAX_CORE])) of
        None \<Rightarrow> let (cs, out) = place_pass elig want cs out in ((cand, mk) # cs, out)
      | Some (core, t) \<Rightarrow>
          let (cs, out) = place_pass elig want cs (out(core := Some t)) in ((None, mk) # cs, out))"

definition knl_assign_cores :: "kstate \<Rightarrow> (nat \<times> UW) list \<Rightarrow> (nat \<Rightarrow> nat option)" where
  "knl_assign_cores s cs =
     (let cands = map (\<lambda>(t, mk). (Some t, mk)) cs;
          (cands, out) = place_pass (\<lambda>mk. knl_popcount mk = 1) (\<lambda>t core. True) cands (\<lambda>_. None);
          (cands, out) = place_pass (\<lambda>mk. True) (\<lambda>t core. ctxtsk (smp s) core = Some t) cands out;
          (cands, out) = place_pass (\<lambda>mk. True) (\<lambda>t core. True) cands out
      in out)"

definition knl_ready_queue_assign :: "kstate \<Rightarrow> (nat \<Rightarrow> nat option) \<times> smp" where
  "knl_ready_queue_assign s =
     (let m = (smp s)\<lparr>rq_hist := (\<lambda>core. if core < TK_MAX_CORE then 0 else rq_hist (smp s) core)\<rparr>;
          (cs, m) = scan_queue s True ([], m);
          (cs, m) = scan_queue s False (cs, m)
      in (knl_assign_cores s cs, m))"

definition knl_dispatch :: "nat \<Rightarrow> smp \<Rightarrow> smp" where
  "knl_dispatch core m = m\<lparr>pendsv := (pendsv m)(core := True)\<rparr>"

definition knl_ipi_send :: "nat \<Rightarrow> UW \<Rightarrow> smp \<Rightarrow> smp" where
  "knl_ipi_send core msg m =
     (if core \<ge> TK_MAX_CORE then m
      else m\<lparr>ipi_pending := (ipi_pending m)(core := ipi_pending m core OR msg),
             doorbell := (doorbell m)(core := True)\<rparr>)"

abbreviation (input) KNL_IPI_RESCHEDULE :: UW where "KNL_IPI_RESCHEDULE \<equiv> 1"

definition knl_smp_dispatch_request :: "nat \<Rightarrow> nat \<Rightarrow> smp \<Rightarrow> smp" where
  "knl_smp_dispatch_request c core m =
     (if core = c then knl_dispatch core m else knl_ipi_send core KNL_IPI_RESCHEDULE m)"

text \<open>The three filters on the selection and the publication loop of \<open>knl_smp_reschedule_all\<close>.\<close>

definition drop_published :: "nat \<Rightarrow> (nat \<Rightarrow> nat option) \<times> smp \<Rightarrow> (nat \<Rightarrow> nat option) \<times> smp" where
  "drop_published core = (\<lambda>(sel, m).
     if sel core = None then (sel, m)
     else case find (\<lambda>other. other \<noteq> core \<and> schedtsk m other = sel core \<and> sel other \<noteq> sel core)
                 [0..<TK_MAX_CORE] of
            Some other \<Rightarrow> (sel(core := None), m\<lparr>dup_publish := dup_publish m + 1\<rparr>)
          | None \<Rightarrow> (sel, m))"

definition drop_duplicate ::
  "nat \<times> nat \<Rightarrow> (nat \<Rightarrow> nat option) \<times> smp \<Rightarrow> (nat \<Rightarrow> nat option) \<times> smp" where
  "drop_duplicate = (\<lambda>(core, prev) (sel, m).
     if sel core \<noteq> None \<and> sel core = sel prev
     then (sel(core := None), m\<lparr>dup_publish := dup_publish m + 1\<rparr>) else (sel, m))"

definition drop_illegal ::
  "(nat \<Rightarrow> tcb) \<Rightarrow> nat \<Rightarrow> (nat \<Rightarrow> nat option) \<times> smp \<Rightarrow> (nat \<Rightarrow> nat option) \<times> smp" where
  "drop_illegal T core = (\<lambda>(sel, m).
     case sel core of
       Some t \<Rightarrow>
         if assprc (T t) AND core_bit core = 0
         then (sel(core := None),
               m\<lparr>bad_assign := bad_assign m + 1, bad_assign_task := of_int (tskid (T t)),
                 bad_assign_core := of_nat core\<rparr>)
         else (sel, m)
     | None \<Rightarrow> (sel, m))"

definition publish ::
  "(nat \<Rightarrow> tcb) \<Rightarrow> nat \<Rightarrow> (nat \<Rightarrow> nat option) \<Rightarrow> nat \<Rightarrow> smp \<Rightarrow> smp" where
  "publish T c sel core m =
     (if online_mask m AND core_bit core = 0 \<or> schedtsk m core = sel core then m
      else let m = m\<lparr>schedtsk := (schedtsk m)(core := sel core),
                     last_pub := (last_pub m)(core :=
                       (case sel core of None \<Rightarrow> 0 | Some t \<Rightarrow> of_int (tskid (T t)))),
                     pub_count := (pub_count m)(core := pub_count m core + 1)\<rparr>
           in if core \<noteq> c then knl_smp_dispatch_request c core m else m)"

definition resched_smp :: "nat \<Rightarrow> kstate \<Rightarrow> smp" where
  "resched_smp c s =
     (let (sel, m) = knl_ready_queue_assign s;
          (sel, m) = fold drop_published [0..<TK_MAX_CORE] (sel, m);
          (sel, m) = fold drop_duplicate
                       (concat (map (\<lambda>core. map (Pair core) [0..<core]) [1..<TK_MAX_CORE])) (sel, m);
          (sel, m) = fold (drop_illegal (tcb s)) [0..<TK_MAX_CORE] (sel, m)
      in fold (publish (tcb s) c sel) [0..<TK_MAX_CORE] m)"

definition knl_smp_reschedule_all :: "nat \<Rightarrow> kstate \<Rightarrow> kstate" where
  "knl_smp_reschedule_all c s = s\<lparr>smp := resched_smp c s\<rparr>"

abbreviation knl_reschedule :: "nat \<Rightarrow> kstate \<Rightarrow> kstate" where
  "knl_reschedule \<equiv> knl_smp_reschedule_all"

subsection \<open>Masks and popcount\<close>

lemma popcount_simps [simp]:
  "knl_popcount 0 = 0" "knl_popcount 1 = 1" "knl_popcount 2 = 1" "knl_popcount 3 = 2"
  by (simp_all add: knl_popcount.simps)

lemma mask3_cases: "w AND 3 = w \<Longrightarrow> w = 0 \<or> w = 1 \<or> w = 2 \<or> (w::UW) = 3"
proof -
  assume w: "w AND 3 = w"
  have "w \<le> 3" using word_and_le1[of w 3] w by simp
  then have "unat w \<le> 3" by (simp add: word_le_nat_alt)
  then have "unat w = 0 \<or> unat w = 1 \<or> unat w = 2 \<or> unat w = 3" by linarith
  moreover have "w = word_of_nat (unat w)" by simp
  ultimately show ?thesis by (elim disjE) simp_all
qed

lemma bit_masks [simp]:
  "bit (1::UW) c \<longleftrightarrow> c = 0" "bit (2::UW) c \<longleftrightarrow> c = 1" "bit (3::UW) c \<longleftrightarrow> c = 0 \<or> c = 1"
proof -
  show "bit (1::UW) c \<longleftrightarrow> c = 0" by (simp add: bit_1_iff)
  have "(2::UW) = push_bit 1 1" by simp
  then show "bit (2::UW) c \<longleftrightarrow> c = 1"
    by (auto simp: bit_simps bit_1_iff simp del: push_bit_of_1)
  have "(3::UW) = mask 2" by (simp add: mask_eq_exp_minus_1)
  then have "bit (3::UW) c = bit (mask 2 :: UW) c" by (simp only:)
  then show "bit (3::UW) c \<longleftrightarrow> c = 0 \<or> c = 1" by (auto simp only: bit_mask_iff) auto
qed

declare bit_numeral_word_iff [simp del]

lemma core_bit_and: "c < TK_MAX_CORE \<Longrightarrow> (w::UW) AND core_bit c \<noteq> 0 \<longleftrightarrow> bit w c"
  using and_push_bit_1[of w c] by (auto simp: TK_MAX_CORE_def)

subsection \<open>The cores a task may take\<close>

definition smp_excl :: "smp \<Rightarrow> bool" where
  "smp_excl m \<longleftrightarrow>
     (\<forall>c<TK_MAX_CORE. \<forall>d<TK_MAX_CORE. c \<noteq> d \<longrightarrow>
        (\<forall>t. \<not> (ctxtsk m c = Some t \<and> ctxtsk m d = Some t) \<and>
             \<not> (schedtsk m c = Some t \<and> schedtsk m d = Some t) \<and>
             \<not> (ctxtsk m c = Some t \<and> schedtsk m d = Some t)))"

definition smp_aff :: "(nat \<Rightarrow> tcb) \<Rightarrow> smp \<Rightarrow> bool" where
  "smp_aff T m \<longleftrightarrow>
     (\<forall>c<TK_MAX_CORE. \<forall>t. ctxtsk m c = Some t \<or> schedtsk m c = Some t \<longrightarrow> bit (assprc (T t)) c)"

lemma smp_exclD:
  assumes "smp_excl m" "c < TK_MAX_CORE" "d < TK_MAX_CORE"
  shows "ctxtsk m c = Some t \<Longrightarrow> ctxtsk m d = Some t \<Longrightarrow> c = d"
    and "schedtsk m c = Some t \<Longrightarrow> schedtsk m d = Some t \<Longrightarrow> c = d"
    and "ctxtsk m c = Some t \<Longrightarrow> schedtsk m d = Some t \<Longrightarrow> c = d"
  using assms unfolding smp_excl_def by blast+

lemma core_mask_and3: "knl_task_core_mask s t AND 3 = knl_task_core_mask s t"
proof -
  have "(w AND v AND 3) AND 3 = (w AND v AND (3::UW))" "(w AND (3 AND v)) AND 3 = w AND (3 AND (v::UW))"
    for w v by (simp_all add: bit_eq_iff bit_simps; blast)+
  then show ?thesis
    by (simp add: knl_task_core_mask_def Let_def split: option.split)
qed

lemma core_mask_range: "bit (knl_task_core_mask s t) c \<Longrightarrow> c < TK_MAX_CORE"
  using core_mask_and3[of s t] by (metis bit_and_iff bit_masks(3) less_cores)

lemma core_mask_cases:
  "knl_task_core_mask s t = 0 \<or> knl_task_core_mask s t = 1 \<or>
   knl_task_core_mask s t = 2 \<or> knl_task_core_mask s t = 3"
  by (rule mask3_cases[OF core_mask_and3])

lemma core_mask_online: "bit (knl_task_core_mask s t) c \<Longrightarrow> bit (online_mask (smp s)) c"
  by (auto simp: knl_task_core_mask_def Let_def bit_simps split: option.splits if_splits)

lemma core_mask_ctx:
  assumes "smp_excl (smp s)" "ctxtsk (smp s) c = Some t" "c < TK_MAX_CORE"
    "bit (knl_task_core_mask s t) d"
  shows "d = c"
proof -
  have d: "d < TK_MAX_CORE" using assms(4) by (rule core_mask_range)
  show ?thesis using assms d smp_exclD(1)[OF assms(1), of c d t]
    by (auto simp: knl_task_core_mask_def Let_def bit_simps bit_1_iff less_cores split: if_splits)
qed

lemma core_mask_sched:
  assumes "smp_excl (smp s)" "schedtsk (smp s) c = Some t" "c < TK_MAX_CORE"
    "bit (knl_task_core_mask s t) d"
  shows "d = c"
proof -
  have d: "d < TK_MAX_CORE" using assms(4) by (rule core_mask_range)
  show ?thesis
  proof (cases "\<exists>e<TK_MAX_CORE. ctxtsk (smp s) e = Some t")
    case True
    then show ?thesis
      using core_mask_ctx[OF assms(1) _ _ assms(4)] smp_exclD(3)[OF assms(1) _ assms(3) _ assms(2)] by metis
  next
    case False
    then show ?thesis using assms d smp_exclD(2)[OF assms(1), of c d t]
      by (auto simp: knl_task_core_mask_def Let_def bit_simps bit_1_iff less_cores split: if_splits)
  qed
qed

lemma core_mask_aff:
  assumes "smp_aff (tcb s) (smp s)" "bit (knl_task_core_mask s t) c"
  shows "bit (assprc (tcb s t)) c"
  using assms core_mask_range[OF assms(2)]
  by (auto simp: knl_task_core_mask_def smp_aff_def Let_def bit_simps bit_1_iff less_cores split: if_splits)

subsection \<open>The scan as a greedy choice\<close>

text \<open>
  The order of the scan: the lock holders by priority, then the other tasks by priority, first come
  first served within each. \<open>greedy\<close> is the choice the scan makes along it.
\<close>

definition ready_list :: "kstate \<Rightarrow> nat list" where
  "ready_list s = concat (map (\<lambda>p. que s (RdyQ p)) [0..<NUM_TSKPRI])"

definition scan_order :: "kstate \<Rightarrow> nat list" where
  "scan_order s = filter (\<lambda>t. klocked (tcb s t)) (ready_list s) @
                  filter (\<lambda>t. \<not> klocked (tcb s t)) (ready_list s)"

definition feasible :: "(nat \<times> UW) list \<Rightarrow> UW \<Rightarrow> bool" where
  "feasible cs w \<longleftrightarrow> w \<noteq> 0 \<and> knl_popcount (fold (\<lambda>(_, mk) b. b OR mk) cs w) \<ge> length cs + 1"

fun greedy :: "(nat \<Rightarrow> UW) \<Rightarrow> nat list \<Rightarrow> (nat \<times> UW) list \<Rightarrow> (nat \<times> UW) list" where
  "greedy mk [] cs = cs"
| "greedy mk (t # q) cs =
     (if length cs < TK_MAX_CORE \<and> t \<notin> fst ` set cs \<and> feasible cs (mk t)
      then greedy mk q (cs @ [(t, mk t)]) else greedy mk q cs)"

lemma greedy_append: "greedy mk (xs @ ys) cs = greedy mk ys (greedy mk xs cs)"
  by (induction mk xs cs rule: greedy.induct) auto

lemma greedy_full: "\<not> length cs < TK_MAX_CORE \<Longrightarrow> greedy mk q cs = cs"
  by (induction q) auto

lemma fst_already [simp]: "fst (knl_already_candidate cs t m) \<longleftrightarrow> t \<in> fst ` set cs"
  by (induction cs t m rule: knl_already_candidate.induct) auto

lemma snd_already: "t \<notin> fst ` set cs \<Longrightarrow> snd (knl_already_candidate cs t m) = m"
  by (induction cs t m rule: knl_already_candidate.induct) auto

lemma fst_feasible [simp]: "fst (knl_candidate_feasible cs w m) \<longleftrightarrow> feasible cs w"
  by (simp add: knl_candidate_feasible_def feasible_def Let_def)

lemma fst_scan_ring:
  "fst (scan_ring s kl q (cs, m)) =
     greedy (knl_task_core_mask s) (filter (\<lambda>t. klocked (tcb s t) = kl) q) cs"
proof (induction q arbitrary: cs m)
  case (Cons t q)
  show ?case
    using Cons fst_already[of cs t m]
      fst_feasible[of cs "knl_task_core_mask s t" "snd (knl_already_candidate cs t m)"]
    by (auto simp: greedy_full Let_def split: prod.splits simp del: fst_already fst_feasible)
qed simp

lemma scan_ring_full: "\<not> length cs < TK_MAX_CORE \<Longrightarrow> scan_ring s kl q (cs, m) = (cs, m)"
  by (cases q) auto

lemma scan_ring_append: "scan_ring s kl (xs @ ys) a = scan_ring s kl ys (scan_ring s kl xs a)"
proof (induction xs arbitrary: a)
  case (Cons x xs)
  obtain cs m where "a = (cs, m)" by fastforce
  then show ?case by (simp add: Cons scan_ring_full Let_def split: prod.split)
next
  case Nil
  then show ?case by (cases a) simp
qed

lemma scan_queue_eq: "scan_queue s kl a = scan_ring s kl (ready_list s) a"
proof -
  have "fold (\<lambda>p. scan_ring s kl (que s (RdyQ p))) ps a =
      scan_ring s kl (concat (map (\<lambda>p. que s (RdyQ p)) ps)) a" for ps
    by (induction ps arbitrary: a) (auto simp: scan_ring_append)
  then show ?thesis by (simp add: scan_queue_def ready_list_def)
qed

lemma greedy_sub: "fst ` set (greedy mk q cs) \<subseteq> fst ` set cs \<union> set q"
proof (induction q arbitrary: cs)
  case (Cons t q)
  then show ?case using Cons[of cs] Cons[of "cs @ [(t, mk t)]"] by auto
qed simp

text \<open>The scan writes only its own diagnostics, the duplicate counter only on a corrupt queue.\<close>

lemma snd_scan_ring:
  assumes "distinct q" "\<And>t. t \<in> set q \<Longrightarrow> klocked (tcb s t) = kl \<Longrightarrow> t \<notin> fst ` set cs"
  shows "\<exists>h. snd (scan_ring s kl q (cs, m)) = m\<lparr>rq_hist := h\<rparr>"
  using assms
proof (induction q arbitrary: cs m)
  case Nil
  show ?case by (rule exI[of _ "rq_hist m"]) simp
next
  case (Cons t q)
  have self: "\<exists>h. m = m\<lparr>rq_hist := h\<rparr>" by (rule exI[of _ "rq_hist m"]) simp
  have IH: "\<exists>h'. snd (scan_ring s kl q (cs', m\<lparr>rq_hist := h\<rparr>)) = m\<lparr>rq_hist := h'\<rparr>"
    if "\<And>t. t \<in> set q \<Longrightarrow> klocked (tcb s t) = kl \<Longrightarrow> t \<notin> fst ` set cs'" for cs' h
    using Cons.IH[OF _ that, of "m\<lparr>rq_hist := h\<rparr>"] Cons.prems(1) by auto
  have IH0: "\<exists>h'. snd (scan_ring s kl q (cs, m)) = m\<lparr>rq_hist := h'\<rparr>"
    using IH[of cs "rq_hist m"] Cons.prems(2) by simp
  show ?case
  proof (cases "klocked (tcb s t) = kl \<and> length cs < TK_MAX_CORE")
    case True
    then have t: "t \<notin> fst ` set cs" using Cons.prems by auto
    have a: "knl_already_candidate cs t m = (False, m)"
      using snd_already[OF t] fst_already[of cs t m] t by (metis prod.collapse)
    obtain ok m' where f: "knl_candidate_feasible cs (knl_task_core_mask s t) m = (ok, m')" by fastforce
    then obtain h where h: "m' = m\<lparr>rq_hist := h\<rparr>"
      using self by (auto simp: knl_candidate_feasible_def Let_def split: if_splits)
    show ?thesis
      using True a f IH[of "cs @ [(t, knl_task_core_mask s t)]" h] IH[of cs h] Cons.prems h
      by auto
  next
    case False
    then show ?thesis using IH0 self by auto
  qed
qed

subsection \<open>What the scan chooses\<close>

definition chosen :: "kstate \<Rightarrow> (nat \<times> UW) list" where
  "chosen s = greedy (knl_task_core_mask s) (scan_order s) []"

lemma assign_eq:
  assumes "distinct (ready_list s)"
  shows "\<exists>h. knl_ready_queue_assign s = (knl_assign_cores s (chosen s), (smp s)\<lparr>rq_hist := h\<rparr>)"
proof -
  let ?m = "(smp s)\<lparr>rq_hist := (\<lambda>core. if core < TK_MAX_CORE then 0 else rq_hist (smp s) core)\<rparr>"
  obtain cs1 m1 where e1: "scan_ring s True (ready_list s) ([], ?m) = (cs1, m1)" by fastforce
  obtain cs2 m2 where e2: "scan_ring s False (ready_list s) (cs1, m1) = (cs2, m2)" by fastforce
  have c1: "cs1 = greedy (knl_task_core_mask s) (filter (\<lambda>t. klocked (tcb s t)) (ready_list s)) []"
    using fst_scan_ring[of s True "ready_list s" "[]" ?m] e1 by simp
  have c2: "cs2 = chosen s"
    using fst_scan_ring[of s False "ready_list s" cs1 m1] e2
    by (simp add: chosen_def scan_order_def greedy_append c1)
  obtain h1 where h1: "m1 = ?m\<lparr>rq_hist := h1\<rparr>"
    using snd_scan_ring[OF assms, of s True "[]" ?m] e1 by auto
  have "t \<notin> fst ` set cs1" if "\<not> klocked (tcb s t)" for t
    using greedy_sub[of "knl_task_core_mask s" "filter (\<lambda>t. klocked (tcb s t)) (ready_list s)" "[]"]
      that c1 by auto
  then obtain h2 where "m2 = m1\<lparr>rq_hist := h2\<rparr>"
    using snd_scan_ring[OF assms, of s False cs1 m1] e2 by auto
  then show ?thesis
    using h1 e1 e2 c2 by (auto simp: knl_ready_queue_assign_def scan_queue_eq Let_def)
qed

definition hall :: "(nat \<Rightarrow> UW) \<Rightarrow> (nat \<times> UW) list \<Rightarrow> bool" where
  "hall mk cs \<longleftrightarrow>
     (\<forall>(t, m) \<in> set cs. m = mk t \<and> m \<noteq> 0) \<and> distinct (map fst cs) \<and> length cs \<le> TK_MAX_CORE \<and>
     (\<forall>a b. cs = [a, b] \<longrightarrow> knl_popcount (snd b OR snd a) \<ge> 2)"

lemma hall_greedy: "hall mk cs \<Longrightarrow> hall mk (greedy mk q cs)"
proof (induction mk q cs rule: greedy.induct)
  case (2 mk t q cs)
  show ?case
  proof (cases "length cs < TK_MAX_CORE \<and> t \<notin> fst ` set cs \<and> feasible cs (mk t)")
    case True
    then have "hall mk (cs @ [(t, mk t)])"
      using 2(3) by (cases cs) (auto simp: hall_def feasible_def TK_MAX_CORE_def)
    then show ?thesis using 2 True by simp
  next
    case False
    then show ?thesis using 2 by auto
  qed
qed simp

lemma greedy_extends: "\<exists>zs. greedy mk q cs = cs @ zs"
proof (induction q arbitrary: cs)
  case (Cons t q)
  show ?case using Cons[of cs] Cons[of "cs @ [(t, mk t)]"] by auto
qed simp

text \<open>A task that is passed over found both cores taken, or its only core taken by an earlier task.\<close>

lemma greedy_reject:
  assumes "t \<notin> fst ` set (greedy mk (xs @ t # zs) [])" and "mk t = 1 \<or> mk t = 2 \<or> mk t = 3"
  defines "cs \<equiv> greedy mk xs []"
  shows "length cs = TK_MAX_CORE \<or> (\<exists>u. cs = [(u, mk u)] \<and> knl_popcount (mk t OR mk u) < 2)"
proof -
  have h: "hall mk cs" unfolding cs_def by (rule hall_greedy) (simp add: hall_def)
  obtain ws where ws: "greedy mk (xs @ t # zs) [] = cs @ ws"
    using greedy_extends[of mk "t # zs" cs] by (auto simp: greedy_append cs_def)
  have "\<not> (length cs < TK_MAX_CORE \<and> t \<notin> fst ` set cs \<and> feasible cs (mk t))"
  proof
    assume a: "length cs < TK_MAX_CORE \<and> t \<notin> fst ` set cs \<and> feasible cs (mk t)"
    then have "greedy mk (xs @ t # zs) [] = greedy mk zs (cs @ [(t, mk t)])"
      by (simp add: greedy_append cs_def)
    then show False using assms(1) greedy_extends[of mk zs "cs @ [(t, mk t)]"] by auto
  qed
  moreover have "t \<notin> fst ` set cs" using assms(1) ws by auto
  moreover have "knl_popcount (mk t) = 1 \<or> knl_popcount (mk t) = 2" using assms(2) by auto
  ultimately show ?thesis using h assms(2)
    by (cases cs; cases "tl cs") (auto simp: hall_def feasible_def TK_MAX_CORE_def)
qed

subsection \<open>The placement\<close>

definition placed :: "(nat \<times> UW) list \<Rightarrow> (nat \<Rightarrow> nat option) \<Rightarrow> bool" where
  "placed cs out \<longleftrightarrow>
     (\<forall>(t, m) \<in> set cs. \<exists>c. bit m c \<and> out c = Some t) \<and>
     (\<forall>c t. out c = Some t \<longrightarrow> c < TK_MAX_CORE \<and> (\<exists>m. (t, m) \<in> set cs \<and> bit m c)) \<and>
     (\<forall>c d t. out c = Some t \<longrightarrow> out d = Some t \<longrightarrow> c = d)"

lemma placed_one:
  "c < TK_MAX_CORE \<Longrightarrow> bit m c \<Longrightarrow> placed [(t, m)] ((\<lambda>_. None)(c := Some t))"
  by (auto simp: placed_def split: if_splits)

lemma placed_two:
  assumes "c < TK_MAX_CORE" "d < TK_MAX_CORE" "c \<noteq> d" "t \<noteq> u" "bit m c" "bit n d"
  shows "placed [(t, m), (u, n)] ((\<lambda>_. None)(c := Some t, d := Some u))"
  unfolding placed_def
proof (intro conjI allI impI)
  let ?out = "(\<lambda>_. None)(c := Some t, d := Some u)"
  show "\<forall>(v, w)\<in>set [(t, m), (u, n)]. \<exists>e. bit w e \<and> ?out e = Some v"
    using assms by (auto intro: exI[of _ c] exI[of _ d])
  fix e f v assume e: "?out e = Some v"
  then show "e < TK_MAX_CORE" "\<exists>w. (v, w) \<in> set [(t, m), (u, n)] \<and> bit w e"
    using assms by (auto split: if_splits)
  assume "?out f = Some v"
  with e show "e = f" using assms(3,4) by (auto split: if_splits)
qed

lemma word_and_small:
  "(1::UW) AND 1 = 1" "(1::UW) AND 2 = 0" "(2::UW) AND 1 = 0" "(2::UW) AND 2 = 2"
  "(3::UW) AND 1 = 1" "(3::UW) AND 2 = 2" "(1::UW) OR 1 = 1" "(2::UW) OR 2 = 2"
  by simp_all

lemma assign_eval_one:
  "knl_assign_cores s [(t, 1)] = (\<lambda>_. None)(0 := Some t)"
  "knl_assign_cores s [(t, 2)] = (\<lambda>_. None)(1 := Some t)"
  by (simp_all add: knl_assign_cores_def word_and_small)

lemma assign_eval_one3:
  "knl_assign_cores s [(t, 3)] =
     (\<lambda>_. None)((if ctxtsk (smp s) 0 \<noteq> Some t \<and> ctxtsk (smp s) 1 = Some t then 1 else 0) := Some t)"
  by (simp add: knl_assign_cores_def word_and_small)

lemma assign_eval_two:
  assumes "t \<noteq> u"
  shows "knl_assign_cores s [(t, 1), (u, 2)] = (\<lambda>_. None)(0 := Some t, 1 := Some u)"
    "knl_assign_cores s [(t, 1), (u, 3)] = (\<lambda>_. None)(0 := Some t, 1 := Some u)"
    "knl_assign_cores s [(t, 3), (u, 2)] = (\<lambda>_. None)(0 := Some t, 1 := Some u)"
    "knl_assign_cores s [(t, 2), (u, 1)] = (\<lambda>_. None)(1 := Some t, 0 := Some u)"
    "knl_assign_cores s [(t, 2), (u, 3)] = (\<lambda>_. None)(1 := Some t, 0 := Some u)"
    "knl_assign_cores s [(t, 3), (u, 1)] = (\<lambda>_. None)(1 := Some t, 0 := Some u)"
  using assms by (simp_all add: knl_assign_cores_def word_and_small fun_upd_twist)

lemma assign_eval_free:
  assumes "t \<noteq> u"
  shows "knl_assign_cores s [(t, 3), (u, 3)] =
    (if ctxtsk (smp s) 0 = Some t \<or> ctxtsk (smp s) 1 \<noteq> Some t \<and> ctxtsk (smp s) 0 \<noteq> Some u
     then (\<lambda>_. None)(0 := Some t, 1 := Some u) else (\<lambda>_. None)(1 := Some t, 0 := Some u))"
  using assms
  by (cases "ctxtsk (smp s) 0 = Some t"; cases "ctxtsk (smp s) 1 = Some t";
      cases "ctxtsk (smp s) 0 = Some u"; cases "ctxtsk (smp s) 1 = Some u")
    (simp_all add: knl_assign_cores_def word_and_small fun_upd_twist)

lemma assign_cores_placed:
  assumes h: "hall mk cs" and w: "\<And>t. mk t = 0 \<or> mk t = 1 \<or> mk t = 2 \<or> mk t = 3"
  shows "placed cs (knl_assign_cores s cs)"
proof -
  consider "cs = []" | t where "cs = [(t, mk t)]" "mk t \<noteq> 0"
    | t u where "cs = [(t, mk t), (u, mk u)]" "mk t \<noteq> 0" "mk u \<noteq> 0" "t \<noteq> u"
        "knl_popcount (mk u OR mk t) \<ge> 2"
    using h by (cases cs; cases "tl cs"; cases "tl (tl cs)") (auto simp: hall_def TK_MAX_CORE_def)
  then show ?thesis
  proof cases
    case 1
    then show ?thesis by (simp add: placed_def knl_assign_cores_def)
  next
    case 2
    then show ?thesis
      using w[of t] placed_one[of 0 "mk t" t] placed_one[of 1 "mk t" t]
      by (auto simp: assign_eval_one assign_eval_one3 less_cores)
  next
    case 3
    have "mk t = 1 \<and> mk u = 2 \<or> mk t = 1 \<and> mk u = 3 \<or> mk t = 3 \<and> mk u = 2 \<or> mk t = 2 \<and> mk u = 1 \<or>
        mk t = 2 \<and> mk u = 3 \<or> mk t = 3 \<and> mk u = 1 \<or> mk t = 3 \<and> mk u = 3"
      using w[of t] w[of u] 3 by (elim disjE) (simp_all add: word_and_small)
    then show ?thesis
      using placed_two[of 0 1 t u "mk t" "mk u"] placed_two[of 1 0 t u "mk t" "mk u"] 3(1,4)
      by (elim disjE conjE) (simp_all add: assign_eval_two assign_eval_free less_cores)
  qed
qed

subsection \<open>Publication\<close>

text \<open>The parts of the per-core state that a reschedule leaves alone, whatever the queue holds.\<close>

definition core_view where
  "core_view m = (ctxtsk m, dispatch_disabled m, taskindp m, primask m, pendsv m, online_mask m,
     wake_raced m, assign_count m, assign_refused m, context_releases m, deferred_reclaims m)"

lemma core_view_scan: "core_view (snd (scan_ring s kl q (cs, m))) = core_view m"
proof (induction q arbitrary: cs m)
  case (Cons t q)
  have a: "core_view (snd (knl_already_candidate cs t m)) = core_view m" for cs m
    by (induction cs t m rule: knl_already_candidate.induct) (auto simp: core_view_def)
  have f: "core_view (snd (knl_candidate_feasible cs w m)) = core_view m" for cs w m
    by (simp add: knl_candidate_feasible_def core_view_def Let_def)
  show ?case
    using Cons a[of cs m] f[of cs "knl_task_core_mask s t" "snd (knl_already_candidate cs t m)"]
    by (auto simp: Let_def split: prod.splits)
qed simp

lemma core_view_publish: "core_view (fold (publish T c sel) cs m) = core_view m"
proof (induction cs arbitrary: m)
  case (Cons d cs)
  have "core_view (publish T c sel d m) = core_view m"
    by (simp add: publish_def Let_def knl_smp_dispatch_request_def knl_ipi_send_def core_view_def)
  then show ?case using Cons by simp
qed simp

lemma core_view_filters:
  "core_view (snd (drop_published core a)) = core_view (snd a)"
  "core_view (snd (drop_duplicate cp a)) = core_view (snd a)"
  "core_view (snd (drop_illegal T core a)) = core_view (snd a)"
  by (auto simp: drop_published_def drop_duplicate_def drop_illegal_def core_view_def
      split: prod.splits option.splits)

lemma core_view_fold:
  assumes "\<And>x a. core_view (snd (f x a)) = core_view (snd a)"
  shows "core_view (snd (fold f xs a)) = core_view (snd a)"
  by (induction xs arbitrary: a) (simp_all add: assms)

lemma core_view_resched: "core_view (resched_smp c s) = core_view (smp s)"
proof -
  obtain sel m where a: "knl_ready_queue_assign s = (sel, m)" by fastforce
  have "core_view m = core_view (smp s)"
  proof -
    let ?m = "(smp s)\<lparr>rq_hist := (\<lambda>core. if core < TK_MAX_CORE then 0 else rq_hist (smp s) core)\<rparr>"
    obtain cs1 m1 where e1: "scan_ring s True (ready_list s) ([], ?m) = (cs1, m1)" by fastforce
    obtain cs2 m2 where e2: "scan_ring s False (ready_list s) (cs1, m1) = (cs2, m2)" by fastforce
    have "m = m2" using a e1 e2 by (simp add: knl_ready_queue_assign_def scan_queue_eq Let_def)
    then show ?thesis
      using core_view_scan[of s True "ready_list s" "[]" ?m] e1
        core_view_scan[of s False "ready_list s" cs1 m1] e2 by (simp add: core_view_def)
  qed
  moreover have "core_view (resched_smp c s) = core_view m"
    unfolding resched_smp_def a Let_def
    by (simp add: case_prod_unfold core_view_publish core_view_fold core_view_filters
        del: cores_upt)
  ultimately show ?thesis by simp
qed

lemma resched_frame [simp]:
  "ctxtsk (resched_smp c s) = ctxtsk (smp s)"
  "dispatch_disabled (resched_smp c s) = dispatch_disabled (smp s)"
  "taskindp (resched_smp c s) = taskindp (smp s)"
  "primask (resched_smp c s) = primask (smp s)"
  "pendsv (resched_smp c s) = pendsv (smp s)"
  "online_mask (resched_smp c s) = online_mask (smp s)"
  "wake_raced (resched_smp c s) = wake_raced (smp s)"
  "context_releases (resched_smp c s) = context_releases (smp s)"
  "deferred_reclaims (resched_smp c s) = deferred_reclaims (smp s)"
  using core_view_resched[of c s] by (simp_all add: core_view_def)

text \<open>With a sound state before it, the reschedule publishes exactly what the placement gives.\<close>

definition selection :: "kstate \<Rightarrow> nat \<Rightarrow> nat option" where
  "selection s = knl_assign_cores s (chosen s)"

lemma hall_chosen: "hall (knl_task_core_mask s) (chosen s)"
  unfolding chosen_def by (rule hall_greedy) (simp add: hall_def)

lemma placed_selection: "placed (chosen s) (selection s)"
  unfolding selection_def by (rule assign_cores_placed[OF hall_chosen core_mask_cases])

lemma set_scan_order: "set (scan_order s) = set (ready_list s)"
  by (auto simp: scan_order_def)

lemma selectionD:
  assumes "selection s c = Some t"
  shows "c < TK_MAX_CORE" "t \<in> set (ready_list s)" "bit (knl_task_core_mask s t) c"
proof -
  obtain m where m: "c < TK_MAX_CORE" "(t, m) \<in> set (chosen s)" "bit m c"
    using placed_selection[of s] assms unfolding placed_def by blast
  then show "c < TK_MAX_CORE" "bit (knl_task_core_mask s t) c"
    using hall_chosen[of s] unfolding hall_def by auto
  show "t \<in> set (ready_list s)"
    using m(2) greedy_sub[of "knl_task_core_mask s" "scan_order s" "[]"] set_scan_order[of s]
    by (force simp: chosen_def)
qed

lemma selection_inj: "selection s c = Some t \<Longrightarrow> selection s d = Some t \<Longrightarrow> c = d"
  using placed_selection[of s] unfolding placed_def by blast

lemma filters_idle:
  assumes "smp_excl (smp s)" "smp_aff (tcb s) (smp s)" "schedtsk m = schedtsk (smp s)"
  shows "core < TK_MAX_CORE \<Longrightarrow> drop_published core (selection s, m) = (selection s, m)"
    and "core \<noteq> prev \<Longrightarrow> drop_duplicate (core, prev) (selection s, m) = (selection s, m)"
    and "drop_illegal (tcb s) core (selection s, m) = (selection s, m)"
proof -
  assume core: "core < TK_MAX_CORE"
  show "drop_published core (selection s, m) = (selection s, m)"
  proof (cases "selection s core")
    case (Some t)
    have no: "\<not> (other \<noteq> core \<and> schedtsk (smp s) other = Some t)" if "other < TK_MAX_CORE" for other
      using core_mask_sched[OF assms(1) _ that selectionD(3)[OF Some]] by blast
    show ?thesis using no[of 0] no[of 1] by (auto simp: drop_published_def Some assms(3) less_cores)
  qed (simp add: drop_published_def)
next
  show "core \<noteq> prev \<Longrightarrow> drop_duplicate (core, prev) (selection s, m) = (selection s, m)"
    using selection_inj[of s core _ prev] by (cases "selection s core") (auto simp: drop_duplicate_def)
  show "drop_illegal (tcb s) core (selection s, m) = (selection s, m)"
  proof (cases "selection s core")
    case (Some t)
    then have "bit (assprc (tcb s t)) core" using core_mask_aff[OF assms(2) selectionD(3)] by blast
    then show ?thesis
      using core_bit_and[OF selectionD(1)[OF Some], of "assprc (tcb s t)"]
      by (simp add: drop_illegal_def Some)
  qed (simp add: drop_illegal_def)
qed

lemma resched_eq:
  assumes "smp_excl (smp s)" "smp_aff (tcb s) (smp s)" "distinct (ready_list s)"
  shows "\<exists>h. resched_smp c s =
    fold (publish (tcb s) c (selection s)) [0..<TK_MAX_CORE] ((smp s)\<lparr>rq_hist := h\<rparr>)"
proof -
  obtain h where h: "knl_ready_queue_assign s = (selection s, (smp s)\<lparr>rq_hist := h\<rparr>)"
    using assign_eq[OF assms(3)] by (auto simp: selection_def)
  have "fold drop_published [0..<TK_MAX_CORE] (selection s, (smp s)\<lparr>rq_hist := h\<rparr>) =
      (selection s, (smp s)\<lparr>rq_hist := h\<rparr>)"
    "fold drop_duplicate [(1, 0)] (selection s, (smp s)\<lparr>rq_hist := h\<rparr>) =
      (selection s, (smp s)\<lparr>rq_hist := h\<rparr>)"
    "fold (drop_illegal (tcb s)) [0..<TK_MAX_CORE] (selection s, (smp s)\<lparr>rq_hist := h\<rparr>) =
      (selection s, (smp s)\<lparr>rq_hist := h\<rparr>)"
    using filters_idle[OF assms(1,2), of "(smp s)\<lparr>rq_hist := h\<rparr>"] by (simp_all add: less_cores)
  moreover have "concat (map (\<lambda>core. map (Pair core) [0..<core]) [1..<TK_MAX_CORE]) = [(1, 0)]"
    by (simp add: TK_MAX_CORE_def upt_rec numeral_2_eq_2)
  ultimately show ?thesis by (simp add: resched_smp_def h Let_def del: cores_upt) blast
qed

lemma schedtsk_publish [simp]:
  "schedtsk (publish T c sel d m) =
     (if online_mask m AND core_bit d = 0 then schedtsk m else (schedtsk m)(d := sel d))"
  by (auto simp: publish_def Let_def knl_smp_dispatch_request_def knl_ipi_send_def knl_dispatch_def)

lemma publish_frame [simp]:
  "online_mask (publish T c sel d m) = online_mask m"
  "bad_assign (publish T c sel d m) = bad_assign m"
  "dup_publish (publish T c sel d m) = dup_publish m"
  "dup_candidate (publish T c sel d m) = dup_candidate m"
  by (auto simp: publish_def Let_def knl_smp_dispatch_request_def knl_ipi_send_def knl_dispatch_def)

lemma schedtsk_resched:
  assumes "smp_excl (smp s)" "smp_aff (tcb s) (smp s)" "distinct (ready_list s)"
  shows "schedtsk (resched_smp c s) d =
    (if d < TK_MAX_CORE \<and> bit (online_mask (smp s)) d then selection s d else schedtsk (smp s) d)"
proof -
  obtain h where h: "resched_smp c s =
      fold (publish (tcb s) c (selection s)) [0..<TK_MAX_CORE] ((smp s)\<lparr>rq_hist := h\<rparr>)"
    using resched_eq[OF assms] by blast
  show ?thesis
    using core_bit_and[of 0 "online_mask (smp s)"] core_bit_and[of 1 "online_mask (smp s)"]
    by (auto simp: h less_cores)
qed

lemma resched_counters:
  assumes "smp_excl (smp s)" "smp_aff (tcb s) (smp s)" "distinct (ready_list s)"
  shows "bad_assign (resched_smp c s) = bad_assign (smp s)"
    "dup_publish (resched_smp c s) = dup_publish (smp s)"
    "dup_candidate (resched_smp c s) = dup_candidate (smp s)"
proof -
  obtain h where h: "resched_smp c s =
      fold (publish (tcb s) c (selection s)) [0..<TK_MAX_CORE] ((smp s)\<lparr>rq_hist := h\<rparr>)"
    using resched_eq[OF assms] by blast
  show "bad_assign (resched_smp c s) = bad_assign (smp s)"
    "dup_publish (resched_smp c s) = dup_publish (smp s)"
    "dup_candidate (resched_smp c s) = dup_candidate (smp s)"
    by (simp_all add: h)
qed

lemma resched_excl:
  assumes "smp_excl (smp s)" "smp_aff (tcb s) (smp s)" "distinct (ready_list s)"
  shows "smp_excl (resched_smp c s)"
proof -
  note sch = schedtsk_resched[OF assms, of c]
  have mask: "bit (knl_task_core_mask s t) d"
    if "d < TK_MAX_CORE" "schedtsk (resched_smp c s) d = Some t" "bit (online_mask (smp s)) d" for d t
    using that selectionD(3) by (simp add: sch)
  show ?thesis unfolding smp_excl_def
  proof (intro allI impI conjI notI)
    fix d e t assume de: "d < TK_MAX_CORE" "e < TK_MAX_CORE" "d \<noteq> e"
    { assume "ctxtsk (resched_smp c s) d = Some t \<and> ctxtsk (resched_smp c s) e = Some t"
      then show False using smp_exclD(1)[OF assms(1) de(1,2)] de(3) by auto }
    { assume a: "schedtsk (resched_smp c s) d = Some t \<and> schedtsk (resched_smp c s) e = Some t"
      show False
      proof (cases "bit (online_mask (smp s)) d"; cases "bit (online_mask (smp s)) e")
        assume "bit (online_mask (smp s)) d" "bit (online_mask (smp s)) e"
        then show False using a de selection_inj[of s d t e] by (simp add: sch)
      next
        assume o: "bit (online_mask (smp s)) d" "\<not> bit (online_mask (smp s)) e"
        then show False using a de core_mask_sched[OF assms(1), of e t d] mask[of d t] by (simp add: sch)
      next
        assume o: "\<not> bit (online_mask (smp s)) d" "bit (online_mask (smp s)) e"
        then show False using a de core_mask_sched[OF assms(1), of d t e] mask[of e t] by (simp add: sch)
      next
        assume "\<not> bit (online_mask (smp s)) d" "\<not> bit (online_mask (smp s)) e"
        then show False using a de smp_exclD(2)[OF assms(1) de(1,2)] by (auto simp: sch)
      qed }
    { assume a: "ctxtsk (resched_smp c s) d = Some t \<and> schedtsk (resched_smp c s) e = Some t"
      show False
      proof (cases "bit (online_mask (smp s)) e")
        case True
        then show False using a de core_mask_ctx[OF assms(1), of d t e] mask[of e t] by simp
      next
        case False
        then show False using a de smp_exclD(3)[OF assms(1) de(1,2)] by (auto simp: sch)
      qed }
  qed
qed

lemma resched_aff:
  assumes "smp_excl (smp s)" "smp_aff (tcb s) (smp s)" "distinct (ready_list s)"
  shows "smp_aff (tcb s) (resched_smp c s)"
  using assms(2) core_mask_aff[OF assms(2) selectionD(3)] schedtsk_resched[OF assms, of c]
  unfolding smp_aff_def by (auto split: if_splits)

subsection \<open>Priorities\<close>

definition precedes :: "'a list \<Rightarrow> 'a \<Rightarrow> 'a \<Rightarrow> bool" where
  "precedes L u t \<longleftrightarrow> (\<exists>xs zs. L = xs @ t # zs \<and> u \<in> set xs)"

text \<open>A READY task that is left out finds every core it may take occupied by an earlier task.\<close>

lemma chosen_placed:
  assumes "(u, m) \<in> set (chosen s)"
  shows "\<exists>d<TK_MAX_CORE. bit (knl_task_core_mask s u) d \<and> selection s d = Some u"
proof -
  have "m = knl_task_core_mask s u" using hall_chosen[of s] assms unfolding hall_def by blast
  moreover obtain d where "bit m d" "selection s d = Some u"
    using placed_selection[of s] assms unfolding placed_def by blast
  ultimately show ?thesis using core_mask_range by blast
qed

lemma resched_outranked:
  assumes "smp_excl (smp s)" "smp_aff (tcb s) (smp s)" "distinct (ready_list s)"
    and t: "t \<in> set (ready_list s)" and c: "bit (knl_task_core_mask s t) c"
    and out: "\<And>d. d < TK_MAX_CORE \<Longrightarrow> schedtsk (resched_smp self s) d \<noteq> Some t"
  shows "\<exists>u. schedtsk (resched_smp self s) c = Some u \<and> precedes (scan_order s) u t"
proof -
  let ?mk = "knl_task_core_mask s"
  note sch = schedtsk_resched[OF assms(1-3), of self]
  have on: "c < TK_MAX_CORE" "bit (online_mask (smp s)) c"
    using c core_mask_range core_mask_online by auto
  have hc: "hall ?mk (chosen s)" by (rule hall_chosen)
  have place: "\<exists>d<TK_MAX_CORE. bit (?mk u) d \<and> selection s d = Some u" if "(u, m) \<in> set (chosen s)" for u m
    using chosen_placed[OF that] .
  have t0: "t \<notin> fst ` set (chosen s)"
  proof
    assume "t \<in> fst ` set (chosen s)"
    then obtain m where "(t, m) \<in> set (chosen s)" by force
    then obtain d where "d < TK_MAX_CORE" "bit (?mk t) d" "selection s d = Some t" using place by blast
    then show False using out[of d] sch[of d] core_mask_online by auto
  qed
  obtain xs zs where L: "scan_order s = xs @ t # zs"
    using t set_scan_order[of s] by (metis split_list)
  let ?cs = "greedy ?mk xs []"
  have mkt: "?mk t = 1 \<or> ?mk t = 2 \<or> ?mk t = 3" using core_mask_cases[of s t] c by auto
  have rej: "length ?cs = TK_MAX_CORE \<or> (\<exists>u. ?cs = [(u, ?mk u)] \<and> knl_popcount (?mk t OR ?mk u) < 2)"
    using greedy_reject[of t ?mk xs zs] t0 mkt by (simp add: chosen_def L)
  have sub: "fst ` set ?cs \<subseteq> set xs" using greedy_sub[of ?mk xs "[]"] by simp
  obtain ws where ws: "chosen s = ?cs @ ws"
    using greedy_extends[of ?mk "t # zs" ?cs] by (auto simp: chosen_def L greedy_append)
  have "\<exists>u m. (u, m) \<in> set ?cs \<and> selection s c = Some u"
    using rej
  proof
    assume len: "length ?cs = TK_MAX_CORE"
    then obtain a b where ab: "?cs = [a, b]"
      by (cases ?cs; cases "tl ?cs"; cases "tl (tl ?cs)") (auto simp: TK_MAX_CORE_def)
    obtain d where d: "d < TK_MAX_CORE" "selection s d = Some (fst a)"
      using place[of "fst a" "snd a"] ws ab by auto
    obtain e where e: "e < TK_MAX_CORE" "selection s e = Some (fst b)"
      using place[of "fst b" "snd b"] ws ab by auto
    have "fst a \<noteq> fst b" using hc ws ab by (simp add: hall_def)
    then have "d \<noteq> e" using d e by auto
    then have "c = d \<or> c = e" using d(1) e(1) on(1) by (auto simp: less_cores)
    then show ?thesis using d e ab by (metis list.set_intros prod.collapse)
  next
    assume "\<exists>u. ?cs = [(u, ?mk u)] \<and> knl_popcount (?mk t OR ?mk u) < 2"
    then obtain u where u: "?cs = [(u, ?mk u)]" "knl_popcount (?mk t OR ?mk u) < 2" by blast
    obtain d where d: "d < TK_MAX_CORE" "bit (?mk u) d" "selection s d = Some u"
      using place[of u "?mk u"] ws u by auto
    have "?mk u \<noteq> 0" using hc ws u by (auto simp: hall_def)
    then have "?mk u = ?mk t \<and> ?mk t \<noteq> 3" using mkt core_mask_cases[of s u] u(2) by (auto simp: word_and_small)
    then have "c = d" using d(2) c mkt by auto
    then show ?thesis using d u by auto
  qed
  then obtain u m where u: "(u, m) \<in> set ?cs" "selection s c = Some u" by blast
  then have "u \<in> set xs" using sub by force
  then show ?thesis using u(2) on sch[of c] L unfolding precedes_def by auto
qed

text \<open>What preceding means: a lock holder before the others, then the higher priority.\<close>

lemma sorted_map_before:
  "sorted (map f L) \<Longrightarrow> L = xs @ t # zs \<Longrightarrow> u \<in> set xs \<Longrightarrow> f u \<le> f t"
  by (auto simp: sorted_append)

lemma precedes_scan_order:
  assumes pri: "\<And>p u. u \<in> set (que s (RdyQ p)) \<Longrightarrow> priority (tcb s u) = p"
    and pre: "precedes (scan_order s) u t"
  shows "klocked (tcb s u) \<and> \<not> klocked (tcb s t) \<or>
    (klocked (tcb s u) \<longleftrightarrow> klocked (tcb s t)) \<and> priority (tcb s u) \<le> priority (tcb s t)"
proof -
  have "sorted (map (\<lambda>v. priority (tcb s v)) (concat (map (\<lambda>p. que s (RdyQ p)) [0..<n])))" for n
  proof (induction n)
    case (Suc n)
    have "map (\<lambda>v. priority (tcb s v)) (que s (RdyQ n)) = replicate (length (que s (RdyQ n))) n"
      using pri by (auto simp: map_eq_conv intro!: replicate_eqI)
    then have "sorted (map (\<lambda>v. priority (tcb s v)) (que s (RdyQ n)))" by simp
    then show ?case using Suc pri by (auto simp: sorted_append)
  qed simp
  then have srt: "sorted (map (\<lambda>v. priority (tcb s v)) (ready_list s))" by (simp add: ready_list_def)
  then have srt2: "sorted (map (\<lambda>v. priority (tcb s v)) (filter P (ready_list s)))" for P
    by (rule sorted_filter)
  obtain xs zs where L: "scan_order s = xs @ t # zs" "u \<in> set xs"
    using pre by (auto simp: precedes_def)
  let ?A = "filter (\<lambda>t. klocked (tcb s t)) (ready_list s)"
  let ?B = "filter (\<lambda>t. \<not> klocked (tcb s t)) (ready_list s)"
  have AB: "?A @ ?B = xs @ t # zs" using L(1) by (simp add: scan_order_def)
  then obtain us where "xs = ?A @ us \<and> us @ t # zs = ?B \<or> xs @ us = ?A \<and> us @ ?B = t # zs"
    using append_eq_append_conv2[of ?A ?B xs "t # zs"] by metis
  then show ?thesis
  proof
    assume 1: "xs = ?A @ us \<and> us @ t # zs = ?B"
    have mB: "v \<in> set (ready_list s) \<and> \<not> klocked (tcb s v)" if "v \<in> set (us @ t # zs)" for v
      using arg_cong[OF conjunct2[OF 1], of set] that by auto
    show ?thesis
    proof (cases "u \<in> set us")
      case True
      have "priority (tcb s u) \<le> priority (tcb s t)"
        using sorted_map_before[OF srt2 conjunct2[OF 1, symmetric] True] .
      then show ?thesis using mB[of t] mB[of u] True by auto
    next
      case False
      then have "u \<in> set ?A" using L(2) 1 by auto
      then show ?thesis using mB[of t] by auto
    qed
  next
    assume 2: "xs @ us = ?A \<and> us @ ?B = t # zs"
    have mA: "klocked (tcb s v)" if "v \<in> set (xs @ us)" for v
      using arg_cong[OF conjunct1[OF 2], of set] that by auto
    show ?thesis
    proof (cases us)
      case Nil
      then have "?B = t # zs" using 2 by simp
      then have "t \<in> set ?B" by (metis list.set_intros(1))
      then show ?thesis using mA[of u] L(2) by auto
    next
      case (Cons v vs)
      then have A: "?A = xs @ t # vs" using 2 by auto
      have "priority (tcb s u) \<le> priority (tcb s t)" using sorted_map_before[OF srt2 A L(2)] .
      then show ?thesis using mA[of u] mA[of t] L(2) Cons 2 by auto
    qed
  qed
qed

end
