(* ===== verification/Task_Ctl.thy ===== *)
theory Task_Ctl
  imports Smp_Assign
begin

text \<open>
  \<^verbatim>\<open>task.c\<close>, \<^verbatim>\<open>timer.c\<close> (registration of events), \<^verbatim>\<open>wait.c\<close> and the critical-section macros of
  \<^verbatim>\<open>cpu_status.h\<close>: the state transitions of a task that every system call is made of. The argument
  \<open>c\<close> is the core that executes the code.
\<close>

subsection \<open>Context queries and critical sections (cpu\_status.h)\<close>

abbreviation (input) DDS_ENABLE :: nat where "DDS_ENABLE \<equiv> 0"
abbreviation (input) DDS_DISABLE_IMPLICIT :: nat where "DDS_DISABLE_IMPLICIT \<equiv> 1"
abbreviation (input) DDS_DISABLE :: nat where "DDS_DISABLE \<equiv> 2"

definition knl_isTaskIndependent :: "nat \<Rightarrow> kstate \<Rightarrow> bool" where
  "knl_isTaskIndependent c s \<longleftrightarrow> taskindp (smp s) c > 0"

definition in_indp :: "nat \<Rightarrow> kstate \<Rightarrow> bool" where
  "in_indp c s \<longleftrightarrow> knl_isTaskIndependent c s \<or> ctxtsk (smp s) c = None"

definition in_ddsp :: "nat \<Rightarrow> kstate \<Rightarrow> bool" where
  "in_ddsp c s \<longleftrightarrow> dispatch_disabled (smp s) c \<noteq> 0 \<or> in_indp c s \<or> primask (smp s) c"

definition in_loc :: "nat \<Rightarrow> kstate \<Rightarrow> bool" where
  "in_loc c s \<longleftrightarrow> primask (smp s) c \<or> in_indp c s"

definition end_cs :: "nat \<Rightarrow> smp \<Rightarrow> smp" where
  "end_cs c m =
     (if \<not> primask m c \<and> ctxtsk m c \<noteq> schedtsk m c \<and> dispatch_disabled m c = 0
      then knl_dispatch c m else m)"

definition END_CRITICAL_SECTION :: "nat \<Rightarrow> kstate \<Rightarrow> kstate" where
  "END_CRITICAL_SECTION c s = s\<lparr>smp := end_cs c (smp s)\<rparr>"

lemma end_cs_frame [simp]:
  "ctxtsk (end_cs c m) = ctxtsk m" "schedtsk (end_cs c m) = schedtsk m"
  "dispatch_disabled (end_cs c m) = dispatch_disabled m" "primask (end_cs c m) = primask m"
  "online_mask (end_cs c m) = online_mask m" "taskindp (end_cs c m) = taskindp m"
  "bad_assign (end_cs c m) = bad_assign m" "dup_publish (end_cs c m) = dup_publish m"
  by (simp_all add: end_cs_def knl_dispatch_def)

subsection \<open>Task control (task.c)\<close>

definition int_priority :: "int \<Rightarrow> nat" where "int_priority x = nat (x - MIN_TSKPRI)"
definition ext_tskpri :: "nat \<Rightarrow> int" where "ext_tskpri x = int x + MIN_TSKPRI"

definition knl_is_ctxtsk :: "nat \<Rightarrow> kstate \<Rightarrow> bool" where
  "knl_is_ctxtsk t s \<longleftrightarrow> find (\<lambda>core. ctxtsk (smp s) core = Some t) [0..<TK_MAX_CORE] \<noteq> None"

definition knl_ctxtsk_core :: "nat \<Rightarrow> kstate \<Rightarrow> int" where
  "knl_ctxtsk_core t s =
     (case find (\<lambda>core. ctxtsk (smp s) core = Some t) [0..<TK_MAX_CORE] of
        Some core \<Rightarrow> int core | None \<Rightarrow> - 1)"

definition knl_make_dormant :: "nat \<Rightarrow> kstate \<Rightarrow> kstate" where
  "knl_make_dormant t = upd_tcb t (\<lambda>T. T\<lparr>state := TS_DORMANT,
     priority := ipriority T, bpriority := ipriority T, sysmode := isysmode T,
     wupcnt := 0, suscnt := 0, klockwait := False, klocked := False, stkfree := False,
     wercd := None, mtxlist := None\<rparr>)"

definition knl_make_ready :: "nat \<Rightarrow> nat \<Rightarrow> kstate \<Rightarrow> kstate" where
  "knl_make_ready c t s =
     knl_smp_reschedule_all c (fst (knl_ready_queue_insert t (upd_tcb t (state_update (\<lambda>_. TS_READY)) s)))"

definition knl_make_non_ready :: "nat \<Rightarrow> nat \<Rightarrow> kstate \<Rightarrow> kstate" where
  "knl_make_non_ready c t s = knl_smp_reschedule_all c (knl_ready_queue_delete t s)"

definition knl_rotate_ready_queue :: "nat \<Rightarrow> nat \<Rightarrow> kstate \<Rightarrow> kstate" where
  "knl_rotate_ready_queue c p s = knl_reschedule c (knl_ready_queue_rotate p s)"

definition knl_rotate_ready_queue_run :: "nat \<Rightarrow> kstate \<Rightarrow> kstate" where
  "knl_rotate_ready_queue_run c s =
     (if schedtsk (smp s) c \<noteq> None
      then knl_reschedule c (knl_ready_queue_rotate (knl_ready_queue_top_priority s) s) else s)"

text \<open>The idle task of a core as \<open>knl_idle_initialize\<close> builds it, and the initial task tables.\<close>

definition knl_idle_initialize :: "kstate \<Rightarrow> kstate" where
  "knl_idle_initialize s = fold (\<lambda>core s.
     let t = idletsk core;
         s = upd_tcb t (\<lambda>T. T\<lparr>tskid := 0, exinf := of_nat core, tskatr := 1 OR 0x300 OR 0x10000,
               isysmode := 1, ipriority := NUM_TSKPRI - 1, assprc := core_bit core\<rparr>) s;
         s = knl_make_dormant t s
     in upd_tcb t (\<lambda>T. T\<lparr>ctx_set := Some (int core), state := TS_READY\<rparr>) s) [0..<TK_MAX_CORE] s"

definition knl_task_initialize :: "kstate \<Rightarrow> kstate" where
  "knl_task_initialize s =
     (let s = s\<lparr>smp := (smp s)\<lparr>
           ctxtsk := (\<lambda>c. if c < TK_MAX_CORE then None else ctxtsk (smp s) c),
           schedtsk := (\<lambda>c. if c < TK_MAX_CORE then None else schedtsk (smp s) c),
           dispatch_disabled := (\<lambda>c. if c < TK_MAX_CORE then DDS_ENABLE else dispatch_disabled (smp s) c)\<rparr>\<rparr>;
         s = knl_ready_queue_initialize s;
         s = upd_que (\<lambda>Q. Q(FreeTcb := [])) s;
         s = fold (\<lambda>i s. upd_que (q_insert i FreeTcb)
                 (upd_tcb i (\<lambda>T. T\<lparr>tskid := int i + 1, state := TS_NONEXIST\<rparr>) s)) [0..<NUM_TSKID] s
     in knl_idle_initialize s)"

subsection \<open>Timer events (timer.c, timer.h)\<close>

definition lltoul :: "LSYSTIM \<Rightarrow> UW" where "lltoul x = ucast x"

abbreviation (input) ABSTIM_DIFF_MIN :: UW where "ABSTIM_DIFF_MIN \<equiv> 0x7FFFFFFF"

definition knl_abstim_reached :: "UW \<Rightarrow> UW \<Rightarrow> bool" where
  "knl_abstim_reached curtim evttim \<longleftrightarrow> curtim - evttim \<le> ABSTIM_DIFF_MIN"

definition upd_tmeb :: "tmeb_ref \<Rightarrow> (tmeb \<Rightarrow> tmeb) \<Rightarrow> tmr \<Rightarrow> tmr" where
  "upd_tmeb ev f m = m\<lparr>tmeb_of := (tmeb_of m)(ev := f (tmeb_of m ev))\<rparr>"

definition knl_timer_delete :: "tmeb_ref \<Rightarrow> tmr \<Rightarrow> tmr" where
  "knl_timer_delete ev m = m\<lparr>tmq := (\<lambda>h. remove1 ev (tmq m h))\<rparr>"

definition knl_enqueue_tmeb :: "tmeb_ref \<Rightarrow> tmr \<Rightarrow> tmr" where
  "knl_enqueue_tmeb ev m =
     (let ofs = lltoul (current_time m) - ABSTIM_DIFF_MIN;
          time = (\<lambda>e. ev_time (tmeb_of m e))
      in m\<lparr>tmq := (tmq m)(TimerQ :=
             insert_before (\<lambda>q. time ev - ofs < time q - ofs) ev (tmq m TimerQ))\<rparr>)"

definition knl_timer_insert :: "tmeb_ref \<Rightarrow> int \<Rightarrow> cback \<Rightarrow> tmr \<Rightarrow> tmr" where
  "knl_timer_insert ev tmout cb m =
     (let m = upd_tmeb ev (\<lambda>e. e\<lparr>callback := Some cb\<rparr>) m
      in if tmout = TMO_FEVR then m
         else knl_enqueue_tmeb ev
                (upd_tmeb ev (\<lambda>e. e\<lparr>ev_time := lltoul (current_time m) + of_int tmout + 10\<rparr>) m))"

definition knl_timer_insert_reltim :: "tmeb_ref \<Rightarrow> UW \<Rightarrow> cback \<Rightarrow> tmr \<Rightarrow> tmr" where
  "knl_timer_insert_reltim ev tmout cb m =
     knl_enqueue_tmeb ev (upd_tmeb ev (\<lambda>e. e\<lparr>callback := Some cb,
       ev_time := lltoul (current_time m) + tmout + 10\<rparr>) m)"

definition knl_timer_insert_abs :: "tmeb_ref \<Rightarrow> UW \<Rightarrow> cback \<Rightarrow> tmr \<Rightarrow> tmr" where
  "knl_timer_insert_abs ev time cb m =
     knl_enqueue_tmeb ev (upd_tmeb ev (\<lambda>e. e\<lparr>callback := Some cb, ev_time := time\<rparr>) m)"

subsection \<open>Waiting (wait.c, wait.h)\<close>

definition set_wercd :: "nat \<Rightarrow> int \<Rightarrow> kstate \<Rightarrow> kstate" where
  "set_wercd t e s =
     (case wercd (tcb s t) of
        Some u \<Rightarrow> s\<lparr>ercd := (ercd s)(u := e)\<rparr>
      | None \<Rightarrow> s\<lparr>fault := True\<rparr>)"

definition knl_note_wake_race :: "nat \<Rightarrow> nat \<Rightarrow> kstate \<Rightarrow> kstate" where
  "knl_note_wake_race c t s =
     (case find (\<lambda>core. core \<noteq> c \<and> ctxtsk (smp s) core = Some t) [0..<TK_MAX_CORE] of
        Some core \<Rightarrow> s\<lparr>smp := (smp s)\<lparr>wake_raced := wake_raced (smp s) + 1\<rparr>\<rparr>
      | None \<Rightarrow> s)"

definition knl_wait_cancel :: "nat \<Rightarrow> kstate \<Rightarrow> kstate" where
  "knl_wait_cancel t s =
     s\<lparr>tmr := knl_timer_delete (TmTsk t) (tmr s), que := q_remove t (que s)\<rparr>"

definition knl_make_non_wait :: "nat \<Rightarrow> nat \<Rightarrow> kstate \<Rightarrow> kstate" where
  "knl_make_non_wait c t s =
     (if state (tcb s t) = TS_WAIT then knl_make_ready c t s
      else upd_tcb t (state_update (\<lambda>_. TS_SUSPEND)) s)"

definition knl_wait_release :: "nat \<Rightarrow> nat \<Rightarrow> kstate \<Rightarrow> kstate" where
  "knl_wait_release c t s =
     knl_make_non_wait c t
       (s\<lparr>tmr := knl_timer_delete (TmTsk t) (tmr s), que := q_remove t (que s)\<rparr>)"

definition knl_wait_release_ok_ercd :: "nat \<Rightarrow> nat \<Rightarrow> int \<Rightarrow> kstate \<Rightarrow> kstate" where
  "knl_wait_release_ok_ercd c t e s =
     knl_note_wake_race c t (knl_wait_release c t (set_wercd t e s))"

definition knl_wait_release_ok :: "nat \<Rightarrow> nat \<Rightarrow> kstate \<Rightarrow> kstate" where
  "knl_wait_release_ok c t s =
     knl_note_wake_race c t (knl_wait_release c t (set_wercd t E_OK s))"

definition wait_state :: "nat \<Rightarrow> kstate \<Rightarrow> kstate" where
  "wait_state c s =
     (let t = cur c s
      in case state (tcb s t) of
           TS_READY \<Rightarrow> upd_tcb t (state_update (\<lambda>_. TS_WAIT)) (knl_make_non_ready c t s)
         | TS_SUSPEND \<Rightarrow> upd_tcb t (state_update (\<lambda>_. TS_WAITSUS)) s
         | _ \<Rightarrow> s)"

definition knl_make_wait :: "nat \<Rightarrow> int \<Rightarrow> kstate \<Rightarrow> kstate" where
  "knl_make_wait c tmout s =
     (let t = cur c s; s = wait_state c s
      in s\<lparr>tmr := knl_timer_insert (TmTsk t) tmout (Wait_release_tmout t) (tmr s)\<rparr>)"

definition knl_make_wait_reltim :: "nat \<Rightarrow> UW \<Rightarrow> kstate \<Rightarrow> kstate" where
  "knl_make_wait_reltim c tmout s =
     (let t = cur c s; s = wait_state c s
      in s\<lparr>tmr := knl_timer_insert_reltim (TmTsk t) tmout (Wait_release_tmout t) (tmr s)\<rparr>)"

text \<open>
  \<open>knl_wait_delete\<close> empties a wait queue from its head. Every pass takes the head out, so the initial
  length bounds the passes; \<open>wait_delete_empty\<close> below shows that the bound is exact.
\<close>

primrec wait_delete_loop :: "nat \<Rightarrow> nat \<Rightarrow> qhd \<Rightarrow> kstate \<Rightarrow> kstate" where
  "wait_delete_loop 0 c q s = s"
| "wait_delete_loop (Suc n) c q s =
     (case que s q of
        [] \<Rightarrow> s
      | t # _ \<Rightarrow> wait_delete_loop n c q
                  (knl_note_wake_race c t (knl_wait_release c t (set_wercd t E_DLT s))))"

definition knl_wait_delete :: "nat \<Rightarrow> qhd \<Rightarrow> kstate \<Rightarrow> kstate" where
  "knl_wait_delete c q s = wait_delete_loop (length (que s q)) c q s"

definition knl_wait_tskid :: "qhd \<Rightarrow> kstate \<Rightarrow> int" where
  "knl_wait_tskid q s = (case que s q of [] \<Rightarrow> 0 | t # _ \<Rightarrow> tskid (tcb s t))"

definition knl_queue_insert_tpri :: "nat \<Rightarrow> qhd \<Rightarrow> kstate \<Rightarrow> kstate" where
  "knl_queue_insert_tpri t q s =
     s\<lparr>que := (que s)(q := insert_before (\<lambda>u. priority (tcb s u) > priority (tcb s t)) t (que s q))\<rparr>"

text \<open>
  The routines on the common head of the control blocks take the wait queue, the object's ID and its
  attribute, which are what they read of a \<open>GCB\<close>.
\<close>

abbreviation (input) TA_TPRI :: UW where "TA_TPRI \<equiv> 1"

definition knl_gcb_make_wait :: "nat \<Rightarrow> qhd \<Rightarrow> int \<Rightarrow> UW \<Rightarrow> int \<Rightarrow> kstate \<Rightarrow> kstate" where
  "knl_gcb_make_wait c q objid objatr tmout s =
     (let t = cur c s;
          s = set_wercd t E_TMOUT s
      in if tmout \<noteq> TMO_POL
         then let s = upd_tcb t (wid_update (\<lambda>_. objid)) s;
                  s = knl_make_wait c tmout s
              in if objatr AND TA_TPRI \<noteq> 0 then knl_queue_insert_tpri t q s
                 else upd_que (q_insert t q) s
         else s)"

definition knl_gcb_change_priority :: "qhd \<Rightarrow> nat \<Rightarrow> kstate \<Rightarrow> kstate" where
  "knl_gcb_change_priority q t s = knl_queue_insert_tpri t q (upd_que (q_remove t) s)"

definition knl_gcb_top_of_wait_queue :: "qhd \<Rightarrow> UW \<Rightarrow> nat \<Rightarrow> kstate \<Rightarrow> nat" where
  "knl_gcb_top_of_wait_queue q objatr t s =
     (case que s q of
        [] \<Rightarrow> t
      | u # _ \<Rightarrow> if objatr AND TA_TPRI = 0 then u
                  else if priority (tcb s t) < priority (tcb s u) then t else u)"

end
