(* ===== verification/Sched_Inv.thy ===== *)
theory Sched_Inv
  imports Task_Ctl
begin

text \<open>
  The invariant of the scheduler state and its preservation by the state transitions of \<open>Task_Ctl\<close>:
  every task control block is linked exactly where its state says, the ready queue's bitmap and
  cached priority are exact, no task is current or selected on two cores, and a selected task is
  READY.
\<close>

subsection \<open>Where a task control block is linked\<close>

primrec wait_ring :: "wspec \<Rightarrow> nat \<Rightarrow> qhd option" where
  "wait_ring Wspec_slp i = None"
| "wait_ring Wspec_dly i = None"
| "wait_ring Wspec_sem_tfifo i = Some (SemQ i)"
| "wait_ring Wspec_sem_tpri i = Some (SemQ i)"
| "wait_ring Wspec_flg_tfifo i = Some (FlgQ i)"
| "wait_ring Wspec_flg_tpri i = Some (FlgQ i)"
| "wait_ring Wspec_mbx_tfifo i = Some (MbxQ i)"
| "wait_ring Wspec_mbx_tpri i = Some (MbxQ i)"
| "wait_ring Wspec_mtx_tfifo i = Some (MtxQ i)"
| "wait_ring Wspec_mtx_tpri i = Some (MtxQ i)"
| "wait_ring Wspec_mtx_inherit i = Some (MtxQ i)"
| "wait_ring Wspec_smbf_tfifo i = Some (SmbfQ i)"
| "wait_ring Wspec_smbf_tpri i = Some (SmbfQ i)"
| "wait_ring Wspec_rmbf i = Some (RmbfQ i)"
| "wait_ring Wspec_mpl_tfifo i = Some (MplQ i)"
| "wait_ring Wspec_mpl_tpri i = Some (MplQ i)"
| "wait_ring Wspec_mpf_tfifo i = Some (MpfQ i)"
| "wait_ring Wspec_mpf_tpri i = Some (MpfQ i)"

definition wring :: "tcb \<Rightarrow> qhd option" where
  "wring T = wait_ring (wspec T) (nat (wid T - 1))"

definition at_home :: "tcb \<Rightarrow> qhd \<Rightarrow> bool" where
  "at_home T q \<longleftrightarrow>
     (case q of
        RdyQ p \<Rightarrow> state T = TS_READY \<and> \<not> klockwait T \<and> priority T = p
      | LockQ _ \<Rightarrow> state T = TS_READY \<and> klockwait T
      | FreeTcb \<Rightarrow> state T = TS_NONEXIST
      | _ \<Rightarrow> in_wait (state T) \<and> wring T = Some q)"

definition needs_home :: "tcb \<Rightarrow> bool" where
  "needs_home T \<longleftrightarrow> state T = TS_NONEXIST \<and> \<not> stkfree T \<or> state T = TS_READY \<or>
     in_wait (state T) \<and> wring T \<noteq> None"

definition loc_ok :: "(nat \<Rightarrow> tcb) \<Rightarrow> queues \<Rightarrow> bool" where
  "loc_ok T Q \<longleftrightarrow>
     (\<forall>q. distinct (Q q)) \<and>
     (\<forall>q t. t \<in> set (Q q) \<longrightarrow> t < NUM_TSKID \<and> at_home (T t) q) \<and>
     (\<forall>q q' t. t \<in> set (Q q) \<longrightarrow> t \<in> set (Q q') \<longrightarrow> q = q') \<and>
     (\<forall>t<NUM_TSKID. needs_home (T t) \<longrightarrow> (\<exists>q. t \<in> set (Q q)))"

lemma loc_okD:
  assumes "loc_ok T Q"
  shows "distinct (Q q)"
    and "t \<in> set (Q q) \<Longrightarrow> t < NUM_TSKID"
    and "t \<in> set (Q q) \<Longrightarrow> at_home (T t) q"
    and "t \<in> set (Q q) \<Longrightarrow> t \<in> set (Q q') \<Longrightarrow> q = q'"
    and "t < NUM_TSKID \<Longrightarrow> needs_home (T t) \<Longrightarrow> \<exists>q. t \<in> set (Q q)"
  using assms unfolding loc_ok_def by blast+

lemma wait_ring_kind: "wait_ring w i = Some q \<Longrightarrow> q \<noteq> RdyQ p \<and> q \<noteq> FreeTcb \<and> q \<noteq> LockQ k"
  by (cases w) auto

lemma wring_kind: "wring T = Some q \<Longrightarrow> q \<noteq> RdyQ p \<and> q \<noteq> FreeTcb \<and> q \<noteq> LockQ k"
  unfolding wring_def by (rule wait_ring_kind)

lemma at_home_wring:
  assumes "at_home T q" "in_wait (state T)" shows "wring T = Some q"
  using assms by (cases q) (auto simp: at_home_def)

lemma at_home_wait: "in_wait (state T) \<Longrightarrow> wring T = Some q \<Longrightarrow> at_home T q"
  using wring_kind[of T q] by (cases q) (auto simp: at_home_def)

lemma at_home_ready: "at_home T (RdyQ p) \<longleftrightarrow> state T = TS_READY \<and> \<not> klockwait T \<and> priority T = p"
  by (simp add: at_home_def)

lemma set_q_remove: "loc_ok T Q \<Longrightarrow> set (q_remove t Q q) = set (Q q) - {t}"
  using loc_okD(1)[of T Q q] by (simp add: q_remove_def)

lemma distinct_q_remove: "loc_ok T Q \<Longrightarrow> distinct (q_remove t Q q)"
  using loc_okD(1)[of T Q q] by (simp add: q_remove_def)

text \<open>
  Moving one task: after \<open>QueRemove\<close> it is linked nowhere, and then it is put in at most one ring,
  the one its new control block asks for.
\<close>

lemma loc_ok_out:
  assumes "loc_ok T Q" "\<not> needs_home T'"
  shows "loc_ok (T(t := T')) (q_remove t Q)"
  unfolding loc_ok_def
proof (intro conjI allI impI)
  show "distinct (q_remove t Q q)" for q using distinct_q_remove[OF assms(1)] .
  show "u < NUM_TSKID" "at_home ((T(t := T')) u) q" if "u \<in> set (q_remove t Q q)" for q u
    using that loc_okD(2,3)[OF assms(1)] by (auto simp: set_q_remove[OF assms(1)])
  show "q = q'" if "u \<in> set (q_remove t Q q)" "u \<in> set (q_remove t Q q')" for q q' u
    using that loc_okD(4)[OF assms(1)] by (auto simp: set_q_remove[OF assms(1)])
  show "\<exists>q. u \<in> set (q_remove t Q q)" if "u < NUM_TSKID" "needs_home ((T(t := T')) u)" for u
    using that loc_okD(5)[OF assms(1), of u] assms(2) by (auto simp: set_q_remove[OF assms(1)] split: if_splits)
qed

lemma loc_ok_in:
  assumes ok: "loc_ok T Q" and t: "t < NUM_TSKID" and home: "at_home T' h"
    and xs: "set xs = insert t (set (q_remove t Q h))" "distinct xs"
  shows "loc_ok (T(t := T')) ((q_remove t Q)(h := xs))"
  unfolding loc_ok_def
proof (intro conjI allI impI)
  let ?Q = "(q_remove t Q)(h := xs)"
  show "distinct (?Q q)" for q using distinct_q_remove[OF ok] xs(2) by auto
  show "u < NUM_TSKID" "at_home ((T(t := T')) u) q" if "u \<in> set (?Q q)" for q u
    using that loc_okD(2,3)[OF ok] t home xs(1) by (auto simp: set_q_remove[OF ok] split: if_splits)
  show "q = q'" if "u \<in> set (?Q q)" "u \<in> set (?Q q')" for q q' u
    using that loc_okD(4)[OF ok, of u] xs(1) by (auto simp: set_q_remove[OF ok] split: if_splits)
  show "\<exists>q. u \<in> set (?Q q)" if u: "u < NUM_TSKID" "needs_home ((T(t := T')) u)" for u
  proof (cases "u = t")
    case True
    then show ?thesis using xs(1) by (intro exI[of _ h]) simp
  next
    case False
    then have "needs_home (T u)" using u(2) by simp
    then obtain q where "u \<in> set (Q q)" using loc_okD(5)[OF ok u(1)] by blast
    then show ?thesis using False xs(1) by (intro exI[of _ q]) (auto simp: set_q_remove[OF ok])
  qed
qed

text \<open>A task that is linked nowhere: the state between \<open>QueRemove\<close> and the next insertion.\<close>

lemma loc_ok_join:
  assumes ok: "loc_ok T Q" and t: "t < NUM_TSKID" "\<And>q. t \<notin> set (Q q)" and home: "at_home T' h"
    and xs: "set xs = insert t (set (Q h))" "distinct xs"
  shows "loc_ok (T(t := T')) (Q(h := xs))"
proof -
  have "q_remove t Q = Q" using t(2) by (auto simp: q_remove_def fun_eq_iff remove1_idem)
  then show ?thesis using loc_ok_in[OF ok t(1) home, of xs] xs by simp
qed

lemma q_remove_fresh: "(\<And>q. t \<notin> set (Q q)) \<Longrightarrow> q_remove t Q = Q"
  by (auto simp: q_remove_def fun_eq_iff remove1_idem)

lemma loc_ok_same:
  assumes "loc_ok T Q" "\<And>q. t \<in> set (Q q) \<Longrightarrow> at_home T' q" "needs_home T' \<Longrightarrow> needs_home (T t)"
  shows "loc_ok (T(t := T')) Q"
  using assms unfolding loc_ok_def by (simp; blast)

lemma at_home_cong:
  assumes "state T' = state T" "klockwait T' = klockwait T" "priority T' = priority T"
    "wspec T' = wspec T" "wid T' = wid T"
  shows "at_home T' q \<longleftrightarrow> at_home T q"
  using assms by (cases q) (simp_all add: at_home_def wring_def)

lemma needs_home_cong:
  assumes "state T' = state T" "stkfree T' = stkfree T" "wspec T' = wspec T" "wid T' = wid T"
  shows "needs_home T' \<longleftrightarrow> needs_home T"
  using assms by (simp add: needs_home_def wring_def)

subsection \<open>Task control blocks\<close>

definition tcb_ok :: "nat \<Rightarrow> tcb \<Rightarrow> bool" where
  "tcb_ok t T \<longleftrightarrow>
     tskid T = int t + 1 \<and>
     (state T \<noteq> TS_NONEXIST \<longrightarrow>
        priority T < NUM_TSKPRI \<and> bpriority T < NUM_TSKPRI \<and> ipriority T < NUM_TSKPRI \<and>
        0 \<le> wupcnt T \<and> wupcnt T \<le> INT_MAX \<and> 0 \<le> suscnt T \<and> suscnt T \<le> INT_MAX \<and>
        (suscnt T > 0 \<longleftrightarrow> in_suspend (state T))) \<and>
     (state T \<notin> {TS_NONEXIST, TS_READY} \<longrightarrow> \<not> klockwait T) \<and>
     (in_wait (state T) \<longrightarrow> wercd T = Some t)"

definition tcbs_ok :: "(nat \<Rightarrow> tcb) \<Rightarrow> bool" where
  "tcbs_ok T \<longleftrightarrow> (\<forall>t<NUM_TSKID. tcb_ok t (T t))"

lemma tcbs_okD: "tcbs_ok T \<Longrightarrow> t < NUM_TSKID \<Longrightarrow> tcb_ok t (T t)"
  by (simp add: tcbs_ok_def)

lemma tcbs_ok_upd: "tcbs_ok T \<Longrightarrow> (t < NUM_TSKID \<Longrightarrow> tcb_ok t T') \<Longrightarrow> tcbs_ok (T(t := T'))"
  by (auto simp: tcbs_ok_def)

subsection \<open>The ready list\<close>

lemma ready_list_iff:
  assumes "loc_ok (tcb s) (que s)" "tcbs_ok (tcb s)"
  shows "t \<in> set (ready_list s) \<longleftrightarrow>
    t < NUM_TSKID \<and> state (tcb s t) = TS_READY \<and> \<not> klockwait (tcb s t)"
proof
  assume "t \<in> set (ready_list s)"
  then obtain p where "t \<in> set (que s (RdyQ p))" by (auto simp: ready_list_def)
  then show "t < NUM_TSKID \<and> state (tcb s t) = TS_READY \<and> \<not> klockwait (tcb s t)"
    using loc_okD(2,3)[OF assms(1), of t "RdyQ p"] by (simp add: at_home_ready)
next
  assume t: "t < NUM_TSKID \<and> state (tcb s t) = TS_READY \<and> \<not> klockwait (tcb s t)"
  then obtain q where q: "t \<in> set (que s q)"
    using loc_okD(5)[OF assms(1), of t] by (auto simp: needs_home_def)
  have "at_home (tcb s t) q" using loc_okD(3)[OF assms(1) q] .
  then have "q = RdyQ (priority (tcb s t))" using t by (cases q) (auto simp: at_home_def)
  moreover have "priority (tcb s t) < NUM_TSKPRI" using tcbs_okD[OF assms(2)] t by (auto simp: tcb_ok_def)
  ultimately show "t \<in> set (ready_list s)" using q by (auto simp: ready_list_def)
qed

lemma distinct_concat_upt:
  assumes "\<And>p. distinct (f p)" "\<And>p p' t. t \<in> set (f p) \<Longrightarrow> t \<in> set (f p') \<Longrightarrow> p = p'"
  shows "distinct (concat (map f [0..<n]))"
proof (induction n)
  case (Suc n)
  have "set (concat (map f [0..<n])) \<inter> set (f n) = {}"
    using assms(2) by fastforce
  then show ?case using Suc assms(1) by simp
qed simp

lemma distinct_ready_list: "loc_ok (tcb s) (que s) \<Longrightarrow> distinct (ready_list s)"
  unfolding ready_list_def
  by (rule distinct_concat_upt) (use loc_okD(1,4) in blast)+

lemma ready_list_cong:
  "(\<And>p. que s' (RdyQ p) = que s (RdyQ p)) \<Longrightarrow> ready_list s' = ready_list s"
  by (simp add: ready_list_def)

subsection \<open>The invariant\<close>

definition sched_ok :: "queues \<Rightarrow> smp \<Rightarrow> bool" where
  "sched_ok Q m \<longleftrightarrow>
     (\<forall>c<TK_MAX_CORE. \<forall>t. bit (online_mask m) c \<longrightarrow> schedtsk m c = Some t \<longrightarrow>
        (\<exists>p. t \<in> set (Q (RdyQ p))))"

definition kwf :: "kstate \<Rightarrow> bool" where
  "kwf s \<longleftrightarrow> loc_ok (tcb s) (que s) \<and> tcbs_ok (tcb s) \<and> rq_ok (que s) (rq s) \<and>
     smp_excl (smp s) \<and> smp_aff (tcb s) (smp s) \<and> sched_ok (que s) (smp s)"

lemma kwfD:
  assumes "kwf s"
  shows "loc_ok (tcb s) (que s)" "tcbs_ok (tcb s)" "rq_ok (que s) (rq s)" "smp_excl (smp s)"
    "smp_aff (tcb s) (smp s)" "sched_ok (que s) (smp s)"
  using assms by (auto simp: kwf_def)

lemma kwf_frame [simp]:
  "kwf (s\<lparr>tmr := a\<rparr>) = kwf s" "kwf (s\<lparr>ercd := b\<rparr>) = kwf s" "kwf (s\<lparr>sem := c\<rparr>) = kwf s"
  "kwf (s\<lparr>free_sem := d\<rparr>) = kwf s" "kwf (s\<lparr>flg := e\<rparr>) = kwf s" "kwf (s\<lparr>free_flg := d\<rparr>) = kwf s"
  "kwf (s\<lparr>mbx := f\<rparr>) = kwf s" "kwf (s\<lparr>free_mbx := d\<rparr>) = kwf s" "kwf (s\<lparr>mtx := g\<rparr>) = kwf s"
  "kwf (s\<lparr>free_mtx := d\<rparr>) = kwf s" "kwf (s\<lparr>mbf := h\<rparr>) = kwf s" "kwf (s\<lparr>free_mbf := d\<rparr>) = kwf s"
  "kwf (s\<lparr>mpf := i\<rparr>) = kwf s" "kwf (s\<lparr>free_mpf := d\<rparr>) = kwf s"
  "kwf (s\<lparr>mpl := a1\<rparr>) = kwf s" "kwf (s\<lparr>free_mpl := d\<rparr>) = kwf s" "kwf (s\<lparr>mplcb_at := a2\<rparr>) = kwf s" "kwf (s\<lparr>cyc := j\<rparr>) = kwf s"
  "kwf (s\<lparr>free_cyc := d\<rparr>) = kwf s" "kwf (s\<lparr>alm := k\<rparr>) = kwf s" "kwf (s\<lparr>free_alm := d\<rparr>) = kwf s"
  "kwf (s\<lparr>mem := l\<rparr>) = kwf s" "kwf (s\<lparr>rcvsz := r\<rparr>) = kwf s" "kwf (s\<lparr>imacb := q\<rparr>) = kwf s"
  "kwf (s\<lparr>lowmem_top := q\<rparr>) = kwf s" "kwf (s\<lparr>lowmem_limit := q\<rparr>) = kwf s" "kwf (s\<lparr>fault := n\<rparr>) = kwf s"
  by (simp_all add: kwf_def)

lemma sched_resched:
  assumes "smp_excl (smp s)" "smp_aff (tcb s) (smp s)" "distinct (ready_list s)"
  shows "sched_ok (que s) (resched_smp c s)"
proof -
  have "\<exists>p. t \<in> set (que s (RdyQ p))" if "selection s d = Some t" for d t
    using selectionD(2)[OF that] by (auto simp: ready_list_def)
  then show ?thesis
    using schedtsk_resched[OF assms, of c] by (auto simp: sched_ok_def)
qed

lemma kwf_resched:
  assumes "loc_ok (tcb s) (que s)" "tcbs_ok (tcb s)" "rq_ok (que s) (rq s)"
    "smp_excl (smp s)" "smp_aff (tcb s) (smp s)"
  shows "kwf (knl_smp_reschedule_all c s)"
proof -
  have d: "distinct (ready_list s)" by (rule distinct_ready_list[OF assms(1)])
  show ?thesis
    using assms resched_excl[OF assms(4,5) d] resched_aff[OF assms(4,5) d] sched_resched[OF assms(4,5) d]
    by (simp add: kwf_def knl_smp_reschedule_all_def)
qed

lemma smp_aff_assprc:
  "(\<And>t. assprc (T' t) = assprc (T t)) \<Longrightarrow> smp_aff T' m \<longleftrightarrow> smp_aff T m"
  by (simp add: smp_aff_def)

subsection \<open>Changes of one control block\<close>

lemma kwf_upd_tcb:
  assumes "kwf s"
    and "state T' = state (tcb s t)" "klockwait T' = klockwait (tcb s t)"
      "stkfree T' = stkfree (tcb s t)" "priority T' = priority (tcb s t)"
      "assprc T' = assprc (tcb s t)"
    and "in_wait (state (tcb s t)) \<Longrightarrow> wspec T' = wspec (tcb s t) \<and> wid T' = wid (tcb s t)"
    and "t < NUM_TSKID \<Longrightarrow> tcb_ok t (tcb s t) \<Longrightarrow> tcb_ok t T'"
  shows "kwf (s\<lparr>tcb := (tcb s)(t := T')\<rparr>)"
proof -
  note k = kwfD[OF assms(1)]
  have ah: "at_home T' q \<longleftrightarrow> at_home (tcb s t) q" for q
    using assms(2-6) assms(7) by (cases q) (auto simp: at_home_def wring_def)
  have "loc_ok ((tcb s)(t := T')) (que s)"
    using k(1) ah assms(2-7) loc_okD(3)[OF k(1)]
    by (intro loc_ok_same) (auto simp: needs_home_def wring_def)
  moreover have "tcbs_ok ((tcb s)(t := T'))"
    using k(2) assms(8) by (intro tcbs_ok_upd) (auto dest: tcbs_okD)
  moreover have "smp_aff ((tcb s)(t := T')) (smp s)"
    using k(5) assms(6) by (subst smp_aff_assprc) auto
  ultimately show ?thesis using k by (simp add: kwf_def)
qed

subsection \<open>Entering and leaving the ready queue\<close>

lemma rq_ok_q_remove:
  assumes "rq_ok Q r" "\<And>p. t \<notin> set (Q (RdyQ p))"
  shows "rq_ok (q_remove t Q) r"
  using assms by (subst rq_ok_cong[of _ Q]) (auto simp: q_remove_def remove1_idem)

lemma kwf_enter_ready:
  assumes k: "kwf s" and t: "t < NUM_TSKID" "\<And>p. t \<notin> set (que s (RdyQ p))"
    and T': "state T' = TS_READY" "\<not> klockwait T'" "assprc T' = assprc (tcb s t)" "tcb_ok t T'"
  shows "kwf (knl_smp_reschedule_all c (s\<lparr>tcb := (tcb s)(t := T'),
    que := q_insert t (RdyQ (priority T')) (q_remove t (que s)), rq := rq_mark T' t (rq s)\<rparr>))"
    (is "kwf (knl_smp_reschedule_all c ?s)")
proof (rule kwf_resched)
  note k' = kwfD[OF k]
  let ?h = "RdyQ (priority T')"
  have lt: "priority T' < NUM_TSKPRI" using T' by (simp add: tcb_ok_def)
  have fresh: "t \<notin> set (q_remove t (que s) q)" for q by (simp add: set_q_remove[OF k'(1)])
  have "loc_ok ((tcb s)(t := T')) ((q_remove t (que s))(?h := q_remove t (que s) ?h @ [t]))"
    using k'(1) t T' fresh distinct_q_remove[OF k'(1)]
    by (intro loc_ok_in) (auto simp: at_home_ready)
  then show "loc_ok (tcb ?s) (que ?s)" by (simp add: q_insert_def)
  show "tcbs_ok (tcb ?s)" using k'(2) T' by (simp add: tcbs_ok_upd)
  have "rq_ok (q_remove t (que s)) (rq s)" using k'(3) t(2) by (rule rq_ok_q_remove)
  then show "rq_ok (que ?s) (rq ?s)" using rq_ok_mark[OF _ lt] by (simp add: q_insert_def)
  show "smp_excl (smp ?s)" using k'(4) by simp
  have "assprc (((tcb s)(t := T')) u) = assprc (tcb s u)" for u using T'(3) by simp
  then show "smp_aff (tcb ?s) (smp ?s)" using k'(5) smp_aff_assprc[of "(tcb s)(t := T')" "tcb s"] by simp
qed

text \<open>
  A task that stops being READY: the reschedule happens while the task is linked nowhere, so the
  facts about the per-core state are those of the queue without it.
\<close>

lemma leave_ready:
  fixes s t
  assumes k: "kwf s"
  defines "s1 \<equiv> knl_ready_queue_delete t s"
  shows "smp_excl (resched_smp c s1)" "smp_aff (tcb s) (resched_smp c s1)"
    "sched_ok (q_remove t (que s)) (resched_smp c s1)" "rq_ok (q_remove t (que s)) (rq s1)"
proof -
  note k' = kwfD[OF k]
  have q1: "que s1 = q_remove t (que s)" and m1: "smp s1 = smp s"
    by (simp_all add: s1_def knl_ready_queue_delete_eq)
  have a1: "assprc (tcb s1 u) = assprc (tcb s u)" for u by (simp add: s1_def knl_ready_queue_delete_eq)
  have d: "distinct (ready_list s1)"
    unfolding ready_list_def q1
  proof (rule distinct_concat_upt)
    show "distinct (q_remove t (que s) (RdyQ p))" for p by (rule distinct_q_remove[OF k'(1)])
    show "p = p'" if "u \<in> set (q_remove t (que s) (RdyQ p))" "u \<in> set (q_remove t (que s) (RdyQ p'))"
      for p p' u using that loc_okD(4)[OF k'(1), of u "RdyQ p" "RdyQ p'"]
      by (simp add: set_q_remove[OF k'(1)])
  qed
  have af: "smp_aff (tcb s1) m \<longleftrightarrow> smp_aff (tcb s) m" for m using a1 by (rule smp_aff_assprc)
  have e1: "smp_excl (smp s1)" "smp_aff (tcb s1) (smp s1)" using k'(4,5) af by (simp_all add: m1)
  show "smp_excl (resched_smp c s1)" by (rule resched_excl[OF e1 d])
  show "smp_aff (tcb s) (resched_smp c s1)" using resched_aff[OF e1 d] af by simp
  show "sched_ok (q_remove t (que s)) (resched_smp c s1)" using sched_resched[OF e1 d] by (simp add: q1)
  have home: "q = priority (tcb s t) \<and> \<not> klockwait (tcb s t)" if "t \<in> set (que s (RdyQ q))" for q
    using loc_okD(3)[OF k'(1) that] by (simp add: at_home_ready)
  show "rq_ok (q_remove t (que s)) (rq s1)"
  proof (cases "\<exists>q. t \<in> set (que s (RdyQ q))")
    case True
    then have "t < NUM_TSKID" "state (tcb s t) = TS_READY"
      using loc_okD(2)[OF k'(1)] loc_okD(3)[OF k'(1), of t "RdyQ _", unfolded at_home_ready] by blast+
    then have "priority (tcb s t) < NUM_TSKPRI" using tcbs_okD[OF k'(2)] by (auto simp: tcb_ok_def)
    then show ?thesis using rq_ok_delete[OF k'(3) _ home refl] q1 by (simp add: s1_def)
  next
    case False
    show ?thesis
    proof (cases "priority (tcb s t) < NUM_TSKPRI")
      case True
      then show ?thesis using rq_ok_delete[OF k'(3) _ home refl] q1 by (simp add: s1_def)
    next
      case ge: False
      have q0: "rq_ok (q_remove t (que s)) (rq s)" using k'(3) False by (intro rq_ok_q_remove) auto
      have em: "bit (bitmap (rq s) AND NOT (push_bit (priority (tcb s t)) 1)) p \<longleftrightarrow> bit (bitmap (rq s)) p"
        if "p < NUM_TSKPRI" for p using that ge by (auto simp: bit_simps bit_1_iff NUM_TSKPRI_def)
      show ?thesis using q0 ge k'(3) em
        by (auto simp: s1_def knl_ready_queue_delete_def Let_def rq_ok_def
            knl_ready_queue_calc_top_priority.simps)
    qed
  qed
qed

text \<open>From READY to any state in which the task is linked in no ring, or in a wait ring.\<close>

lemma kwf_leave_ready:
  assumes k: "kwf s" and t: "t < NUM_TSKID"
    and T': "assprc T' = assprc (tcb s t)" "tcb_ok t T'"
    and dest: "\<not> needs_home T' \<and> Q' = q_remove t (que s) \<or>
      (\<exists>h xs. at_home T' h \<and> (\<forall>p. h \<noteq> RdyQ p) \<and> Q' = (q_remove t (que s))(h := xs) \<and>
         set xs = insert t (set (q_remove t (que s) h)) \<and> distinct xs)"
    and s': "tcb s' = (tcb s)(t := T')" "que s' = Q'" "rq s' = rq (knl_ready_queue_delete t s)"
      "smp s' = resched_smp c (knl_ready_queue_delete t s)"
  shows "kwf s'"
proof -
  note k' = kwfD[OF k]
  note lr = leave_ready[OF k, where t = t]
  have rdy: "Q' (RdyQ p) = q_remove t (que s) (RdyQ p)" for p using dest by auto
  have "loc_ok (tcb s') (que s')"
    using dest loc_ok_out[OF k'(1)] loc_ok_in[OF k'(1) t] unfolding s' by blast
  moreover have "tcbs_ok (tcb s')" unfolding s' using k'(2) T'(2) by (intro tcbs_ok_upd) auto
  moreover have "rq_ok (que s') (rq s')" using lr(4) rdy rq_ok_cong[of Q' "q_remove t (que s)"] by (simp add: s')
  moreover have "smp_aff (tcb s') (smp s')"
    using lr(2) T'(1) smp_aff_assprc[of "(tcb s)(t := T')" "tcb s"] by (simp add: s')
  moreover have "sched_ok (que s') (smp s')" using lr(3) rdy by (simp add: s' sched_ok_def)
  ultimately show ?thesis using lr(1) by (simp add: kwf_def s')
qed

text \<open>Changes of a task outside the ready queue that stays outside it.\<close>

lemma kwf_off_ready:
  assumes k: "kwf s" and t: "t < NUM_TSKID" "\<And>p. t \<notin> set (que s (RdyQ p))"
    and T': "assprc T' = assprc (tcb s t)" "tcb_ok t T'"
    and dest: "\<not> needs_home T' \<and> Q' = q_remove t (que s) \<or>
      (\<exists>h xs. at_home T' h \<and> (\<forall>p. h \<noteq> RdyQ p) \<and> Q' = (q_remove t (que s))(h := xs) \<and>
         set xs = insert t (set (q_remove t (que s) h)) \<and> distinct xs)"
    and s': "tcb s' = (tcb s)(t := T')" "que s' = Q'" "rq s' = rq s" "smp s' = smp s"
  shows "kwf s'"
proof -
  note k' = kwfD[OF k]
  have rdy: "Q' (RdyQ p) = que s (RdyQ p)" for p using dest t(2)[of p] by (auto simp: q_remove_def remove1_idem)
  have "loc_ok (tcb s') (que s')"
    using dest loc_ok_out[OF k'(1)] loc_ok_in[OF k'(1) t(1)] unfolding s' by blast
  moreover have "tcbs_ok (tcb s')" unfolding s' using k'(2) T'(2) by (intro tcbs_ok_upd) auto
  moreover have "rq_ok (que s') (rq s')" using k'(3) rdy rq_ok_cong[of Q' "que s"] by (simp add: s')
  moreover have "smp_aff (tcb s') (smp s')"
    using k'(5) T'(1) smp_aff_assprc[of "(tcb s)(t := T')" "tcb s"] by (simp add: s')
  moreover have "sched_ok (que s') (smp s')" using k'(6) rdy by (simp add: s' sched_ok_def)
  ultimately show ?thesis using k'(4) by (simp add: kwf_def s')
qed

subsection \<open>What the transitions change\<close>

text \<open>
  First the fields that the transitions never touch: the control blocks of the other objects and the
  memory.
\<close>

lemma set_wercd_frame [simp]:
  "sem (set_wercd t e s) = sem s" "free_sem (set_wercd t e s) = free_sem s"
  "flg (set_wercd t e s) = flg s" "free_flg (set_wercd t e s) = free_flg s"
  "mbx (set_wercd t e s) = mbx s" "free_mbx (set_wercd t e s) = free_mbx s"
  "mtx (set_wercd t e s) = mtx s" "free_mtx (set_wercd t e s) = free_mtx s"
  "mbf (set_wercd t e s) = mbf s" "free_mbf (set_wercd t e s) = free_mbf s"
  "mpf (set_wercd t e s) = mpf s" "free_mpf (set_wercd t e s) = free_mpf s"
  "mpl (set_wercd t e s) = mpl s" "free_mpl (set_wercd t e s) = free_mpl s" "mplcb_at (set_wercd t e s) = mplcb_at s"
  "cyc (set_wercd t e s) = cyc s" "free_cyc (set_wercd t e s) = free_cyc s"
  "alm (set_wercd t e s) = alm s" "free_alm (set_wercd t e s) = free_alm s"
  "mem (set_wercd t e s) = mem s"
  "rcvsz (set_wercd t e s) = rcvsz s" "imacb (set_wercd t e s) = imacb s"
  "lowmem_top (set_wercd t e s) = lowmem_top s"
  "lowmem_limit (set_wercd t e s) = lowmem_limit s"
  by (simp_all add: set_wercd_def split: option.split)

lemma note_wake_race_frame [simp]:
  "sem (knl_note_wake_race c t s) = sem s" "free_sem (knl_note_wake_race c t s) = free_sem s"
  "flg (knl_note_wake_race c t s) = flg s" "free_flg (knl_note_wake_race c t s) = free_flg s"
  "mbx (knl_note_wake_race c t s) = mbx s" "free_mbx (knl_note_wake_race c t s) = free_mbx s"
  "mtx (knl_note_wake_race c t s) = mtx s" "free_mtx (knl_note_wake_race c t s) = free_mtx s"
  "mbf (knl_note_wake_race c t s) = mbf s" "free_mbf (knl_note_wake_race c t s) = free_mbf s"
  "mpf (knl_note_wake_race c t s) = mpf s" "free_mpf (knl_note_wake_race c t s) = free_mpf s"
  "mpl (knl_note_wake_race c t s) = mpl s" "free_mpl (knl_note_wake_race c t s) = free_mpl s" "mplcb_at (knl_note_wake_race c t s) = mplcb_at s"
  "cyc (knl_note_wake_race c t s) = cyc s" "free_cyc (knl_note_wake_race c t s) = free_cyc s"
  "alm (knl_note_wake_race c t s) = alm s" "free_alm (knl_note_wake_race c t s) = free_alm s"
  "mem (knl_note_wake_race c t s) = mem s"
  "rcvsz (knl_note_wake_race c t s) = rcvsz s" "imacb (knl_note_wake_race c t s) = imacb s"
  "lowmem_top (knl_note_wake_race c t s) = lowmem_top s"
  "lowmem_limit (knl_note_wake_race c t s) = lowmem_limit s"
  by (simp_all add: knl_note_wake_race_def split: option.split)

lemma wait_release_frame [simp]:
  "sem (knl_wait_release c t s) = sem s" "free_sem (knl_wait_release c t s) = free_sem s"
  "flg (knl_wait_release c t s) = flg s" "free_flg (knl_wait_release c t s) = free_flg s"
  "mbx (knl_wait_release c t s) = mbx s" "free_mbx (knl_wait_release c t s) = free_mbx s"
  "mtx (knl_wait_release c t s) = mtx s" "free_mtx (knl_wait_release c t s) = free_mtx s"
  "mbf (knl_wait_release c t s) = mbf s" "free_mbf (knl_wait_release c t s) = free_mbf s"
  "mpf (knl_wait_release c t s) = mpf s" "free_mpf (knl_wait_release c t s) = free_mpf s"
  "mpl (knl_wait_release c t s) = mpl s" "free_mpl (knl_wait_release c t s) = free_mpl s" "mplcb_at (knl_wait_release c t s) = mplcb_at s"
  "cyc (knl_wait_release c t s) = cyc s" "free_cyc (knl_wait_release c t s) = free_cyc s"
  "alm (knl_wait_release c t s) = alm s" "free_alm (knl_wait_release c t s) = free_alm s"
  "mem (knl_wait_release c t s) = mem s"
  "rcvsz (knl_wait_release c t s) = rcvsz s" "imacb (knl_wait_release c t s) = imacb s"
  "lowmem_top (knl_wait_release c t s) = lowmem_top s"
  "lowmem_limit (knl_wait_release c t s) = lowmem_limit s"
  by (simp_all add: knl_wait_release_def knl_make_non_wait_def knl_make_ready_def
      knl_smp_reschedule_all_def knl_ready_queue_insert_def Let_def)

lemma wait_release_ok_frame [simp]:
  "sem (knl_wait_release_ok c t s) = sem s" "free_sem (knl_wait_release_ok c t s) = free_sem s"
  "flg (knl_wait_release_ok c t s) = flg s" "free_flg (knl_wait_release_ok c t s) = free_flg s"
  "mbx (knl_wait_release_ok c t s) = mbx s" "free_mbx (knl_wait_release_ok c t s) = free_mbx s"
  "mtx (knl_wait_release_ok c t s) = mtx s" "free_mtx (knl_wait_release_ok c t s) = free_mtx s"
  "mbf (knl_wait_release_ok c t s) = mbf s" "free_mbf (knl_wait_release_ok c t s) = free_mbf s"
  "mpf (knl_wait_release_ok c t s) = mpf s" "free_mpf (knl_wait_release_ok c t s) = free_mpf s"
  "mpl (knl_wait_release_ok c t s) = mpl s" "free_mpl (knl_wait_release_ok c t s) = free_mpl s" "mplcb_at (knl_wait_release_ok c t s) = mplcb_at s"
  "cyc (knl_wait_release_ok c t s) = cyc s" "free_cyc (knl_wait_release_ok c t s) = free_cyc s"
  "alm (knl_wait_release_ok c t s) = alm s" "free_alm (knl_wait_release_ok c t s) = free_alm s"
  "mem (knl_wait_release_ok c t s) = mem s"
  "rcvsz (knl_wait_release_ok c t s) = rcvsz s" "imacb (knl_wait_release_ok c t s) = imacb s"
  "lowmem_top (knl_wait_release_ok c t s) = lowmem_top s"
  "lowmem_limit (knl_wait_release_ok c t s) = lowmem_limit s"
  by (simp_all add: knl_wait_release_ok_def)

lemma wait_release_ok_ercd_frame [simp]:
  "sem (knl_wait_release_ok_ercd c t e s) = sem s"
  "free_sem (knl_wait_release_ok_ercd c t e s) = free_sem s"
  "flg (knl_wait_release_ok_ercd c t e s) = flg s"
  "free_flg (knl_wait_release_ok_ercd c t e s) = free_flg s"
  "mbx (knl_wait_release_ok_ercd c t e s) = mbx s"
  "free_mbx (knl_wait_release_ok_ercd c t e s) = free_mbx s"
  "mtx (knl_wait_release_ok_ercd c t e s) = mtx s"
  "free_mtx (knl_wait_release_ok_ercd c t e s) = free_mtx s"
  "mbf (knl_wait_release_ok_ercd c t e s) = mbf s"
  "free_mbf (knl_wait_release_ok_ercd c t e s) = free_mbf s"
  "mpf (knl_wait_release_ok_ercd c t e s) = mpf s"
  "free_mpf (knl_wait_release_ok_ercd c t e s) = free_mpf s"
  "mpl (knl_wait_release_ok_ercd c t e s) = mpl s" "free_mpl (knl_wait_release_ok_ercd c t e s) = free_mpl s" "mplcb_at (knl_wait_release_ok_ercd c t e s) = mplcb_at s"
  "cyc (knl_wait_release_ok_ercd c t e s) = cyc s"
  "free_cyc (knl_wait_release_ok_ercd c t e s) = free_cyc s"
  "alm (knl_wait_release_ok_ercd c t e s) = alm s"
  "free_alm (knl_wait_release_ok_ercd c t e s) = free_alm s"
  "mem (knl_wait_release_ok_ercd c t e s) = mem s"
  "rcvsz (knl_wait_release_ok_ercd c t e s) = rcvsz s" "imacb (knl_wait_release_ok_ercd c t e s) = imacb s"
  "lowmem_top (knl_wait_release_ok_ercd c t e s) = lowmem_top s"
  "lowmem_limit (knl_wait_release_ok_ercd c t e s) = lowmem_limit s"
  by (simp_all add: knl_wait_release_ok_ercd_def)

lemma wait_state_frame [simp]:
  "sem (wait_state c s) = sem s" "free_sem (wait_state c s) = free_sem s"
  "flg (wait_state c s) = flg s" "free_flg (wait_state c s) = free_flg s"
  "mbx (wait_state c s) = mbx s" "free_mbx (wait_state c s) = free_mbx s"
  "mtx (wait_state c s) = mtx s" "free_mtx (wait_state c s) = free_mtx s"
  "mbf (wait_state c s) = mbf s" "free_mbf (wait_state c s) = free_mbf s"
  "mpf (wait_state c s) = mpf s" "free_mpf (wait_state c s) = free_mpf s"
  "mpl (wait_state c s) = mpl s" "free_mpl (wait_state c s) = free_mpl s" "mplcb_at (wait_state c s) = mplcb_at s"
  "cyc (wait_state c s) = cyc s" "free_cyc (wait_state c s) = free_cyc s"
  "alm (wait_state c s) = alm s" "free_alm (wait_state c s) = free_alm s"
  "mem (wait_state c s) = mem s"
  "rcvsz (wait_state c s) = rcvsz s" "imacb (wait_state c s) = imacb s"
  "lowmem_top (wait_state c s) = lowmem_top s"
  "lowmem_limit (wait_state c s) = lowmem_limit s"
  by (simp_all add: wait_state_def knl_make_non_ready_def knl_smp_reschedule_all_def
      knl_ready_queue_delete_eq Let_def split: tstat.split)

lemma make_wait_frame [simp]:
  "sem (knl_make_wait c tmout s) = sem s" "free_sem (knl_make_wait c tmout s) = free_sem s"
  "flg (knl_make_wait c tmout s) = flg s" "free_flg (knl_make_wait c tmout s) = free_flg s"
  "mbx (knl_make_wait c tmout s) = mbx s" "free_mbx (knl_make_wait c tmout s) = free_mbx s"
  "mtx (knl_make_wait c tmout s) = mtx s" "free_mtx (knl_make_wait c tmout s) = free_mtx s"
  "mbf (knl_make_wait c tmout s) = mbf s" "free_mbf (knl_make_wait c tmout s) = free_mbf s"
  "mpf (knl_make_wait c tmout s) = mpf s" "free_mpf (knl_make_wait c tmout s) = free_mpf s"
  "mpl (knl_make_wait c tmout s) = mpl s" "free_mpl (knl_make_wait c tmout s) = free_mpl s" "mplcb_at (knl_make_wait c tmout s) = mplcb_at s"
  "cyc (knl_make_wait c tmout s) = cyc s" "free_cyc (knl_make_wait c tmout s) = free_cyc s"
  "alm (knl_make_wait c tmout s) = alm s" "free_alm (knl_make_wait c tmout s) = free_alm s"
  "mem (knl_make_wait c tmout s) = mem s"
  "rcvsz (knl_make_wait c tmout s) = rcvsz s" "imacb (knl_make_wait c tmout s) = imacb s"
  "lowmem_top (knl_make_wait c tmout s) = lowmem_top s"
  "lowmem_limit (knl_make_wait c tmout s) = lowmem_limit s"
  by (simp_all add: knl_make_wait_def Let_def)

lemma queue_insert_tpri_frame [simp]:
  "sem (knl_queue_insert_tpri t q s) = sem s"
  "free_sem (knl_queue_insert_tpri t q s) = free_sem s"
  "flg (knl_queue_insert_tpri t q s) = flg s"
  "free_flg (knl_queue_insert_tpri t q s) = free_flg s"
  "mbx (knl_queue_insert_tpri t q s) = mbx s"
  "free_mbx (knl_queue_insert_tpri t q s) = free_mbx s"
  "mtx (knl_queue_insert_tpri t q s) = mtx s"
  "free_mtx (knl_queue_insert_tpri t q s) = free_mtx s"
  "mbf (knl_queue_insert_tpri t q s) = mbf s"
  "free_mbf (knl_queue_insert_tpri t q s) = free_mbf s"
  "mpf (knl_queue_insert_tpri t q s) = mpf s"
  "free_mpf (knl_queue_insert_tpri t q s) = free_mpf s"
  "mpl (knl_queue_insert_tpri t q s) = mpl s" "free_mpl (knl_queue_insert_tpri t q s) = free_mpl s" "mplcb_at (knl_queue_insert_tpri t q s) = mplcb_at s"
  "cyc (knl_queue_insert_tpri t q s) = cyc s"
  "free_cyc (knl_queue_insert_tpri t q s) = free_cyc s"
  "alm (knl_queue_insert_tpri t q s) = alm s"
  "free_alm (knl_queue_insert_tpri t q s) = free_alm s"
  "mem (knl_queue_insert_tpri t q s) = mem s"
  "rcvsz (knl_queue_insert_tpri t q s) = rcvsz s" "imacb (knl_queue_insert_tpri t q s) = imacb s"
  "lowmem_top (knl_queue_insert_tpri t q s) = lowmem_top s"
  "lowmem_limit (knl_queue_insert_tpri t q s) = lowmem_limit s"
  by (simp_all add: knl_queue_insert_tpri_def)

lemma gcb_make_wait_frame [simp]:
  "sem (knl_gcb_make_wait c q objid objatr tmout s) = sem s"
  "free_sem (knl_gcb_make_wait c q objid objatr tmout s) = free_sem s"
  "flg (knl_gcb_make_wait c q objid objatr tmout s) = flg s"
  "free_flg (knl_gcb_make_wait c q objid objatr tmout s) = free_flg s"
  "mbx (knl_gcb_make_wait c q objid objatr tmout s) = mbx s"
  "free_mbx (knl_gcb_make_wait c q objid objatr tmout s) = free_mbx s"
  "mtx (knl_gcb_make_wait c q objid objatr tmout s) = mtx s"
  "free_mtx (knl_gcb_make_wait c q objid objatr tmout s) = free_mtx s"
  "mbf (knl_gcb_make_wait c q objid objatr tmout s) = mbf s"
  "free_mbf (knl_gcb_make_wait c q objid objatr tmout s) = free_mbf s"
  "mpf (knl_gcb_make_wait c q objid objatr tmout s) = mpf s"
  "free_mpf (knl_gcb_make_wait c q objid objatr tmout s) = free_mpf s"
  "mpl (knl_gcb_make_wait c q objid objatr tmout s) = mpl s" "free_mpl (knl_gcb_make_wait c q objid objatr tmout s) = free_mpl s" "mplcb_at (knl_gcb_make_wait c q objid objatr tmout s) = mplcb_at s"
  "cyc (knl_gcb_make_wait c q objid objatr tmout s) = cyc s"
  "free_cyc (knl_gcb_make_wait c q objid objatr tmout s) = free_cyc s"
  "alm (knl_gcb_make_wait c q objid objatr tmout s) = alm s"
  "free_alm (knl_gcb_make_wait c q objid objatr tmout s) = free_alm s"
  "mem (knl_gcb_make_wait c q objid objatr tmout s) = mem s"
  "rcvsz (knl_gcb_make_wait c q objid objatr tmout s) = rcvsz s" "imacb (knl_gcb_make_wait c q objid objatr tmout s) = imacb s"
  "lowmem_top (knl_gcb_make_wait c q objid objatr tmout s) = lowmem_top s"
  "lowmem_limit (knl_gcb_make_wait c q objid objatr tmout s) = lowmem_limit s"
  by (simp_all add: knl_gcb_make_wait_def Let_def)

lemma gcb_change_priority_frame [simp]:
  "sem (knl_gcb_change_priority q t s) = sem s"
  "free_sem (knl_gcb_change_priority q t s) = free_sem s"
  "flg (knl_gcb_change_priority q t s) = flg s"
  "free_flg (knl_gcb_change_priority q t s) = free_flg s"
  "mbx (knl_gcb_change_priority q t s) = mbx s"
  "free_mbx (knl_gcb_change_priority q t s) = free_mbx s"
  "mtx (knl_gcb_change_priority q t s) = mtx s"
  "free_mtx (knl_gcb_change_priority q t s) = free_mtx s"
  "mbf (knl_gcb_change_priority q t s) = mbf s"
  "free_mbf (knl_gcb_change_priority q t s) = free_mbf s"
  "mpf (knl_gcb_change_priority q t s) = mpf s"
  "free_mpf (knl_gcb_change_priority q t s) = free_mpf s"
  "mpl (knl_gcb_change_priority q t s) = mpl s" "free_mpl (knl_gcb_change_priority q t s) = free_mpl s" "mplcb_at (knl_gcb_change_priority q t s) = mplcb_at s"
  "cyc (knl_gcb_change_priority q t s) = cyc s"
  "free_cyc (knl_gcb_change_priority q t s) = free_cyc s"
  "alm (knl_gcb_change_priority q t s) = alm s"
  "free_alm (knl_gcb_change_priority q t s) = free_alm s"
  "mem (knl_gcb_change_priority q t s) = mem s"
  "rcvsz (knl_gcb_change_priority q t s) = rcvsz s" "imacb (knl_gcb_change_priority q t s) = imacb s"
  "lowmem_top (knl_gcb_change_priority q t s) = lowmem_top s"
  "lowmem_limit (knl_gcb_change_priority q t s) = lowmem_limit s"
  by (simp_all add: knl_gcb_change_priority_def)

lemma end_critical_section_frame [simp]:
  "sem (END_CRITICAL_SECTION c s) = sem s" "free_sem (END_CRITICAL_SECTION c s) = free_sem s"
  "flg (END_CRITICAL_SECTION c s) = flg s" "free_flg (END_CRITICAL_SECTION c s) = free_flg s"
  "mbx (END_CRITICAL_SECTION c s) = mbx s" "free_mbx (END_CRITICAL_SECTION c s) = free_mbx s"
  "mtx (END_CRITICAL_SECTION c s) = mtx s" "free_mtx (END_CRITICAL_SECTION c s) = free_mtx s"
  "mbf (END_CRITICAL_SECTION c s) = mbf s" "free_mbf (END_CRITICAL_SECTION c s) = free_mbf s"
  "mpf (END_CRITICAL_SECTION c s) = mpf s" "free_mpf (END_CRITICAL_SECTION c s) = free_mpf s"
  "mpl (END_CRITICAL_SECTION c s) = mpl s" "free_mpl (END_CRITICAL_SECTION c s) = free_mpl s" "mplcb_at (END_CRITICAL_SECTION c s) = mplcb_at s"
  "cyc (END_CRITICAL_SECTION c s) = cyc s" "free_cyc (END_CRITICAL_SECTION c s) = free_cyc s"
  "alm (END_CRITICAL_SECTION c s) = alm s" "free_alm (END_CRITICAL_SECTION c s) = free_alm s"
  "mem (END_CRITICAL_SECTION c s) = mem s"
  "rcvsz (END_CRITICAL_SECTION c s) = rcvsz s" "imacb (END_CRITICAL_SECTION c s) = imacb s"
  "lowmem_top (END_CRITICAL_SECTION c s) = lowmem_top s"
  "lowmem_limit (END_CRITICAL_SECTION c s) = lowmem_limit s" "tcb (END_CRITICAL_SECTION c s) = tcb s"
  "que (END_CRITICAL_SECTION c s) = que s" "rq (END_CRITICAL_SECTION c s) = rq s"
  "tmr (END_CRITICAL_SECTION c s) = tmr s" "ercd (END_CRITICAL_SECTION c s) = ercd s"
  "fault (END_CRITICAL_SECTION c s) = fault s"
  by (simp_all add: END_CRITICAL_SECTION_def)

lemma end_critical_section_smp [simp]: "smp (END_CRITICAL_SECTION c s) = end_cs c (smp s)"
  by (simp add: END_CRITICAL_SECTION_def)

subsection \<open>Release of a waiting task\<close>

definition released :: "tcb \<Rightarrow> tcb" where
  "released T = T\<lparr>state := (if state T = TS_WAIT then TS_READY else TS_SUSPEND)\<rparr>"

definition q_release :: "nat \<Rightarrow> tcb \<Rightarrow> queues \<Rightarrow> queues" where
  "q_release t T Q = (if state T = TS_WAIT then q_insert t (RdyQ (priority T)) (q_remove t Q)
                      else q_remove t Q)"

lemma wait_release_sel [simp]:
  "tcb (knl_wait_release c t s) = (tcb s)(t := released (tcb s t))"
  "que (knl_wait_release c t s) = q_release t (tcb s t) (que s)"
  "tmr (knl_wait_release c t s) = knl_timer_delete (TmTsk t) (tmr s)"
  "ercd (knl_wait_release c t s) = ercd s"
  "fault (knl_wait_release c t s) = fault s"
  "ctxtsk (smp (knl_wait_release c t s)) = ctxtsk (smp s)"
  by (simp_all add: knl_wait_release_def knl_make_non_wait_def knl_make_ready_def
      knl_smp_reschedule_all_def knl_ready_queue_insert_def released_def q_release_def Let_def)

lemma note_wake_race_sel [simp]:
  "tcb (knl_note_wake_race c t s) = tcb s" "que (knl_note_wake_race c t s) = que s"
  "rq (knl_note_wake_race c t s) = rq s" "tmr (knl_note_wake_race c t s) = tmr s"
  "ercd (knl_note_wake_race c t s) = ercd s" "fault (knl_note_wake_race c t s) = fault s"
  "ctxtsk (smp (knl_note_wake_race c t s)) = ctxtsk (smp s)"
  by (simp_all add: knl_note_wake_race_def split: option.split)

lemma set_wercd_sel [simp]:
  "tcb (set_wercd t e s) = tcb s" "que (set_wercd t e s) = que s" "rq (set_wercd t e s) = rq s"
  "smp (set_wercd t e s) = smp s" "tmr (set_wercd t e s) = tmr s"
  by (simp_all add: set_wercd_def split: option.split)

lemma set_wercd_some:
  "wercd (tcb s t) = Some u \<Longrightarrow> set_wercd t e s = s\<lparr>ercd := (ercd s)(u := e)\<rparr>"
  by (simp add: set_wercd_def)

lemma wait_release_ok_eq: "knl_wait_release_ok c t s = knl_wait_release_ok_ercd c t E_OK s"
  by (simp add: knl_wait_release_ok_def knl_wait_release_ok_ercd_def)

lemma wait_release_ok_sel [simp]:
  "tcb (knl_wait_release_ok_ercd c t e s) = (tcb s)(t := released (tcb s t))"
  "que (knl_wait_release_ok_ercd c t e s) = q_release t (tcb s t) (que s)"
  "tmr (knl_wait_release_ok_ercd c t e s) = knl_timer_delete (TmTsk t) (tmr s)"
  "ctxtsk (smp (knl_wait_release_ok_ercd c t e s)) = ctxtsk (smp s)"
  "tcb (knl_wait_release_ok c t s) = (tcb s)(t := released (tcb s t))"
  "que (knl_wait_release_ok c t s) = q_release t (tcb s t) (que s)"
  "tmr (knl_wait_release_ok c t s) = knl_timer_delete (TmTsk t) (tmr s)"
  "ctxtsk (smp (knl_wait_release_ok c t s)) = ctxtsk (smp s)"
  by (simp_all add: knl_wait_release_ok_ercd_def wait_release_ok_eq)

lemma wait_release_ok_ercd_val:
  assumes "wercd (tcb s t) = Some u"
  shows "ercd (knl_wait_release_ok_ercd c t e s) = (ercd s)(u := e)"
    "fault (knl_wait_release_ok_ercd c t e s) = fault s"
  by (simp_all add: knl_wait_release_ok_ercd_def set_wercd_some[OF assms])

lemma q_release_other:
  "q \<noteq> RdyQ (priority T) \<Longrightarrow> q_release t T Q q = remove1 t (Q q)"
  by (simp add: q_release_def q_insert_def q_remove_def)

lemma released_sel [simp]:
  "priority (released T) = priority T" "wspec (released T) = wspec T" "wid (released T) = wid T"
  "winfo (released T) = winfo T" "wercd (released T) = wercd T" "assprc (released T) = assprc T"
  "mtxlist (released T) = mtxlist T" "bpriority (released T) = bpriority T"
  "tskid (released T) = tskid T" "klockwait (released T) = klockwait T" "stkfree (released T) = stkfree T"
  "\<not> in_wait (state (released T))"
  by (simp_all add: released_def)

lemma kwf_smp_cong:
  assumes "kwf s" "ctxtsk m = ctxtsk (smp s)" "schedtsk m = schedtsk (smp s)"
    "online_mask m = online_mask (smp s)"
  shows "kwf (s\<lparr>smp := m\<rparr>)"
  using assms by (simp add: kwf_def smp_excl_def smp_aff_def sched_ok_def)

lemma kwf_end_cs [simp]: "kwf s \<Longrightarrow> kwf (END_CRITICAL_SECTION c s)"
  unfolding END_CRITICAL_SECTION_def by (rule kwf_smp_cong) auto

lemma kwf_note_wake_race: "kwf s \<Longrightarrow> kwf (knl_note_wake_race c t s)"
  by (auto simp: knl_note_wake_race_def intro: kwf_smp_cong split: option.split)

lemma kwf_set_wercd: "kwf s \<Longrightarrow> kwf (set_wercd t e s)"
  by (simp add: set_wercd_def split: option.split)

lemma waiting_not_ready:
  assumes "kwf s" "state (tcb s t) \<noteq> TS_READY" shows "t \<notin> set (que s (RdyQ p))"
  using loc_okD(3)[OF kwfD(1)[OF assms(1)], of t "RdyQ p"] assms(2) by (auto simp: at_home_ready)

lemma kwf_wait_release:
  assumes k: "kwf s" and t: "t < NUM_TSKID" "in_wait (state (tcb s t))"
  shows "kwf (knl_wait_release c t s)"
proof (cases "state (tcb s t) = TS_WAIT")
  case True
  let ?s = "s\<lparr>tmr := knl_timer_delete (TmTsk t) (tmr s)\<rparr>"
  have nr: "t \<notin> set (que s (RdyQ p))" for p using waiting_not_ready[OF k] True by simp
  have ok: "tcb_ok t (tcb s t)" using tcbs_okD[OF kwfD(2)[OF k] t(1)] .
  let ?T = "(tcb s t)\<lparr>state := TS_READY\<rparr>"
  have "kwf (knl_smp_reschedule_all c (?s\<lparr>tcb := (tcb ?s)(t := ?T),
      que := q_insert t (RdyQ (priority ?T)) (q_remove t (que ?s)), rq := rq_mark ?T t (rq ?s)\<rparr>))"
    by (rule kwf_enter_ready) (use k t nr ok True in \<open>auto simp: tcb_ok_def\<close>)
  then show ?thesis
    using True by (simp add: knl_wait_release_def knl_make_non_wait_def knl_make_ready_def
        knl_ready_queue_insert_def Let_def)
next
  case False
  then have ws: "state (tcb s t) = TS_WAITSUS" using t(2) by simp
  have nr: "t \<notin> set (que s (RdyQ p))" for p using waiting_not_ready[OF k] ws by simp
  have ok: "tcb_ok t (tcb s t)" using tcbs_okD[OF kwfD(2)[OF k] t(1)] .
  let ?T = "(tcb s t)\<lparr>state := TS_SUSPEND\<rparr>"
  show ?thesis
    by (rule kwf_off_ready[OF k t(1) nr, of ?T "q_remove t (que s)"])
      (use ok ws in \<open>simp_all add: needs_home_def tcb_ok_def knl_wait_release_def knl_make_non_wait_def\<close>)
qed

lemma kwf_wait_release_ok:
  assumes "kwf s" "t < NUM_TSKID" "in_wait (state (tcb s t))"
  shows "kwf (knl_wait_release_ok_ercd c t e s)" "kwf (knl_wait_release_ok c t s)"
  using assms unfolding knl_wait_release_ok_ercd_def knl_wait_release_ok_def
  by (simp_all add: kwf_note_wake_race kwf_wait_release kwf_set_wercd)

text \<open>Members of a wait ring are waiting, so a release takes exactly one task out of the ring.\<close>

lemma ring_waiting:
  assumes "kwf s" "t \<in> set (que s q)" "\<And>p. q \<noteq> RdyQ p" "q \<noteq> FreeTcb" "\<And>k. q \<noteq> LockQ k"
  shows "t < NUM_TSKID" "in_wait (state (tcb s t))" "wring (tcb s t) = Some q"
    "wercd (tcb s t) = Some t" "priority (tcb s t) < NUM_TSKPRI"
proof -
  note k = kwfD[OF assms(1)]
  show t: "t < NUM_TSKID" using loc_okD(2)[OF k(1) assms(2)] .
  have "at_home (tcb s t) q" using loc_okD(3)[OF k(1) assms(2)] .
  then show w: "in_wait (state (tcb s t))" "wring (tcb s t) = Some q"
    using assms(3-5) by (cases q; auto simp: at_home_def)+
  show "wercd (tcb s t) = Some t" "priority (tcb s t) < NUM_TSKPRI"
    using tcbs_okD[OF k(2) t] w(1) by (auto simp: tcb_ok_def)
qed

subsection \<open>Deleting a wait queue\<close>

lemma released_ring:
  "(\<And>p. q \<noteq> RdyQ p) \<Longrightarrow> que (knl_wait_release c t s) q = remove1 t (que s q)"
  by (simp add: q_release_other)

lemma wait_delete_empty:
  assumes "\<And>p. q \<noteq> RdyQ p"
  shows "que (knl_wait_delete c q s) q = []"
proof -
  have "que (wait_delete_loop n c q s) q = []" if "length (que s q) \<le> n" for n
    using that
  proof (induction n arbitrary: s)
    case (Suc n)
    show ?case
    proof (cases "que s q")
      case (Cons t ts)
      let ?s = "knl_note_wake_race c t (knl_wait_release c t (set_wercd t E_DLT s))"
      have "que ?s q = ts" using assms Cons by (simp add: q_release_other)
      then show ?thesis using Suc Cons by simp
    qed simp
  qed simp
  then show ?thesis by (simp add: knl_wait_delete_def)
qed

text \<open>What the loop does to the tasks: each waiting task is released with \<open>E_DLT\<close>, the others keep.\<close>

lemma wait_delete_loop:
  assumes "kwf s" "\<And>p. q \<noteq> RdyQ p" "q \<noteq> FreeTcb" "\<And>k. q \<noteq> LockQ k" "length (que s q) \<le> n"
  shows "kwf (wait_delete_loop n c q s)"
    and "tcb (wait_delete_loop n c q s) = (\<lambda>t. if t \<in> set (que s q) then released (tcb s t) else tcb s t)"
    and "\<And>h. (\<And>p. h \<noteq> RdyQ p) \<Longrightarrow> h \<noteq> q \<Longrightarrow> que (wait_delete_loop n c q s) h = que s h"
    and "ercd (wait_delete_loop n c q s) = (\<lambda>t. if t \<in> set (que s q) then E_DLT else ercd s t)"
    and "fault (wait_delete_loop n c q s) = fault s"
proof -
  have "kwf (wait_delete_loop n c q s) \<and>
     tcb (wait_delete_loop n c q s) = (\<lambda>t. if t \<in> set (que s q) then released (tcb s t) else tcb s t) \<and>
     (\<forall>h. (\<forall>p. h \<noteq> RdyQ p) \<longrightarrow> h \<noteq> q \<longrightarrow> que (wait_delete_loop n c q s) h = que s h) \<and>
     ercd (wait_delete_loop n c q s) = (\<lambda>t. if t \<in> set (que s q) then E_DLT else ercd s t) \<and>
     fault (wait_delete_loop n c q s) = fault s"
    using assms(1,5)
  proof (induction n arbitrary: s)
    case (Suc n)
    show ?case
    proof (cases "que s q")
      case (Cons t ts)
      let ?s = "knl_note_wake_race c t (knl_wait_release c t (set_wercd t E_DLT s))"
      note w = ring_waiting[OF Suc.prems(1) _ assms(2-4), of t]
      have we: "set_wercd t E_DLT s = s\<lparr>ercd := (ercd s)(t := E_DLT)\<rparr>"
        using w(4) Cons by (simp add: set_wercd_some)
      have k: "kwf ?s"
        using w(1,2) Cons Suc.prems by (simp add: kwf_note_wake_race kwf_wait_release kwf_set_wercd)
      have q: "que ?s q = ts" using assms(2) Cons by (simp add: q_release_other)
      have d: "t \<notin> set ts" using loc_okD(1)[OF kwfD(1)[OF Suc.prems(1)], of q] Cons by simp
      have other: "que ?s h = que s h" if "\<forall>p. h \<noteq> RdyQ p" "h \<noteq> q" for h
      proof -
        have "t \<notin> set (que s h)"
          using loc_okD(4)[OF kwfD(1)[OF Suc.prems(1)], of t q h] Cons that by auto
        then show ?thesis using that by (simp add: q_release_other remove1_idem)
      qed
      have "length (que ?s q) \<le> n" using q Suc.prems(2) Cons by simp
      note IH = Suc.IH[OF k this]
      show ?thesis using IH q d other Cons by (auto simp: we fun_eq_iff)
    qed (use Suc.prems(1) in simp)
  qed auto
  then show "kwf (wait_delete_loop n c q s)"
    "tcb (wait_delete_loop n c q s) = (\<lambda>t. if t \<in> set (que s q) then released (tcb s t) else tcb s t)"
    "\<And>h. (\<And>p. h \<noteq> RdyQ p) \<Longrightarrow> h \<noteq> q \<Longrightarrow> que (wait_delete_loop n c q s) h = que s h"
    "ercd (wait_delete_loop n c q s) = (\<lambda>t. if t \<in> set (que s q) then E_DLT else ercd s t)"
    "fault (wait_delete_loop n c q s) = fault s"
    by blast+
qed

lemmas kwf_wait_delete = wait_delete_loop(1)[OF _ _ _ _ order_refl, folded knl_wait_delete_def]
lemmas wait_delete_sel = wait_delete_loop(2-5)[OF _ _ _ _ order_refl, folded knl_wait_delete_def]

lemma wait_delete_loop_keep:
  assumes "\<And>t s. f (knl_note_wake_race c t (knl_wait_release c t (set_wercd t E_DLT s))) = f s"
  shows "f (wait_delete_loop n c q s) = f s"
  by (induction n arbitrary: s) (auto simp: assms split: list.split)

lemma wait_delete_frame [simp]:
  "sem (knl_wait_delete c q s) = sem s" "free_sem (knl_wait_delete c q s) = free_sem s"
  "flg (knl_wait_delete c q s) = flg s" "free_flg (knl_wait_delete c q s) = free_flg s"
  "mbx (knl_wait_delete c q s) = mbx s" "free_mbx (knl_wait_delete c q s) = free_mbx s"
  "mtx (knl_wait_delete c q s) = mtx s" "free_mtx (knl_wait_delete c q s) = free_mtx s"
  "mbf (knl_wait_delete c q s) = mbf s" "free_mbf (knl_wait_delete c q s) = free_mbf s"
  "mpf (knl_wait_delete c q s) = mpf s" "free_mpf (knl_wait_delete c q s) = free_mpf s"
  "mpl (knl_wait_delete c q s) = mpl s" "free_mpl (knl_wait_delete c q s) = free_mpl s" "mplcb_at (knl_wait_delete c q s) = mplcb_at s"
  "cyc (knl_wait_delete c q s) = cyc s" "free_cyc (knl_wait_delete c q s) = free_cyc s"
  "alm (knl_wait_delete c q s) = alm s" "free_alm (knl_wait_delete c q s) = free_alm s"
  "mem (knl_wait_delete c q s) = mem s"
  "rcvsz (knl_wait_delete c q s) = rcvsz s" "imacb (knl_wait_delete c q s) = imacb s"
  "lowmem_top (knl_wait_delete c q s) = lowmem_top s"
  "lowmem_limit (knl_wait_delete c q s) = lowmem_limit s"
  unfolding knl_wait_delete_def by (rule wait_delete_loop_keep, simp)+

subsection \<open>Waiting\<close>

lemma make_wait_ready_sel:
  assumes "state (tcb s (cur c s)) = TS_READY"
  defines "t \<equiv> cur c s"
  shows "tcb (knl_make_wait c tmout s) = (tcb s)(t := (tcb s t)\<lparr>klockwait := False, state := TS_WAIT\<rparr>)"
    "que (knl_make_wait c tmout s) = q_remove t (que s)"
    "rq (knl_make_wait c tmout s) = rq (knl_ready_queue_delete t s)"
    "smp (knl_make_wait c tmout s) = resched_smp c (knl_ready_queue_delete t s)"
  using assms
  by (simp_all add: knl_make_wait_def wait_state_def knl_make_non_ready_def knl_smp_reschedule_all_def
      knl_ready_queue_delete_eq Let_def)

lemma make_wait_susp_sel:
  assumes "state (tcb s (cur c s)) = TS_SUSPEND"
  defines "t \<equiv> cur c s"
  shows "tcb (knl_make_wait c tmout s) = (tcb s)(t := (tcb s t)\<lparr>state := TS_WAITSUS\<rparr>)"
    "que (knl_make_wait c tmout s) = que s"
    "rq (knl_make_wait c tmout s) = rq s" "smp (knl_make_wait c tmout s) = smp s"
  using assms by (simp_all add: knl_make_wait_def wait_state_def Let_def)

lemma make_wait_sel [simp]:
  "ercd (knl_make_wait c tmout s) = ercd s" "fault (knl_make_wait c tmout s) = fault s"
  "ctxtsk (smp (knl_make_wait c tmout s)) = ctxtsk (smp s)"
  "tmr (knl_make_wait c tmout s) =
     knl_timer_insert (TmTsk (cur c s)) tmout (Wait_release_tmout (cur c s)) (tmr s)"
  by (simp_all add: knl_make_wait_def wait_state_def knl_make_non_ready_def knl_smp_reschedule_all_def
      knl_ready_queue_delete_eq Let_def split: tstat.split)

text \<open>
  The caller of a waiting system call is the current task of its core, READY or, when it was suspended
  meanwhile by an interrupt or from the other core, SUSPEND; never already waiting.
\<close>

definition caller_ok :: "nat \<Rightarrow> kstate \<Rightarrow> bool" where
  "caller_ok c s \<longleftrightarrow> c < TK_MAX_CORE \<and> (\<exists>t<NUM_TSKID. ctxtsk (smp s) c = Some t \<and>
     (state (tcb s t) = TS_READY \<or> state (tcb s t) = TS_SUSPEND) \<and> \<not> klockwait (tcb s t))"

lemma caller_okD:
  assumes "caller_ok c s"
  shows "cur c s < NUM_TSKID" "ctxtsk (smp s) c = Some (cur c s)" "\<not> klockwait (tcb s (cur c s))"
    "state (tcb s (cur c s)) = TS_READY \<or> state (tcb s (cur c s)) = TS_SUSPEND" "c < TK_MAX_CORE"
  using assms by (auto simp: caller_ok_def)

lemma kwf_make_wait_in:
  assumes k: "kwf s" and ca: "caller_ok c s"
    and w: "wercd (tcb s (cur c s)) = Some (cur c s)"
    and ring: "wring (tcb s (cur c s)) = Some h"
    and xs: "set xs = insert (cur c s) (set (que s h))" "distinct xs"
    and s': "s' = (knl_make_wait c tmout s)\<lparr>que := (que (knl_make_wait c tmout s))(h := xs)\<rparr>"
  shows "kwf s'"
proof -
  let ?t = "cur c s"
  note ca' = caller_okD[OF ca] and k' = kwfD[OF k]
  have ok: "tcb_ok ?t (tcb s ?t)" using tcbs_okD[OF k'(2) ca'(1)] .
  have nh: "h \<noteq> RdyQ p" "h \<noteq> FreeTcb" "h \<noteq> LockQ j" for p j using wring_kind[OF ring] by auto
  have frh: "?t \<notin> set (que s h)"
    using ring_waiting(2)[OF k _ nh, of ?t] ca'(4) by auto
  have sh: "set xs = insert ?t (set (q_remove ?t (que s) h))"
    using xs(1) by (auto simp: set_q_remove[OF k'(1)])
  show ?thesis
  proof (cases "state (tcb s ?t) = TS_READY")
    case True
    let ?T = "(tcb s ?t)\<lparr>klockwait := False, state := TS_WAIT\<rparr>"
    note sel = make_wait_ready_sel[OF True, of tmout]
    show ?thesis
    proof (rule kwf_leave_ready[OF k ca'(1), of ?T])
      have "at_home ?T h" using ring by (intro at_home_wait) (auto simp: wring_def)
      then show "\<not> needs_home ?T \<and> (q_remove ?t (que s))(h := xs) = q_remove ?t (que s) \<or>
          (\<exists>h' xs'. at_home ?T h' \<and> (\<forall>p. h' \<noteq> RdyQ p) \<and>
             (q_remove ?t (que s))(h := xs) = (q_remove ?t (que s))(h' := xs') \<and>
             set xs' = insert ?t (set (q_remove ?t (que s) h')) \<and> distinct xs')"
        using nh sh xs(2) by blast
      show "tcb_ok ?t ?T" using ok w True by (auto simp: tcb_ok_def)
    qed (simp_all add: s' sel)
  next
    case False
    then have su: "state (tcb s ?t) = TS_SUSPEND" using ca'(4) by simp
    let ?T = "(tcb s ?t)\<lparr>state := TS_WAITSUS\<rparr>"
    note sel = make_wait_susp_sel[OF su, of tmout]
    have nr: "?t \<notin> set (que s q)" for q
      using loc_okD(3)[OF k'(1), of ?t q] su ca'(3) by (cases q) (auto simp: at_home_def)
    have Q: "q_remove ?t (que s) = que s" using nr by (rule q_remove_fresh)
    show ?thesis
    proof (rule kwf_off_ready[OF k ca'(1) nr, of ?T])
      have "at_home ?T h" using ring by (intro at_home_wait) (auto simp: wring_def)
      then show "\<not> needs_home ?T \<and> (que s)(h := xs) = q_remove ?t (que s) \<or>
          (\<exists>h' xs'. at_home ?T h' \<and> (\<forall>p. h' \<noteq> RdyQ p) \<and>
             (que s)(h := xs) = (q_remove ?t (que s))(h' := xs') \<and>
             set xs' = insert ?t (set (q_remove ?t (que s) h')) \<and> distinct xs')"
        using nh sh xs(2) Q by metis
      show "tcb_ok ?t ?T" using ok w su by (auto simp: tcb_ok_def)
    qed (simp_all add: s' sel)
  qed
qed

text \<open>The same for a wait without an object: \<open>tk_slp_tsk\<close> and \<open>tk_dly_tsk\<close>.\<close>

lemma kwf_wait_state_out:
  assumes k: "kwf s" and ca: "caller_ok c s"
    and w: "wercd (tcb s (cur c s)) = Some (cur c s)"
    and ring: "wring (tcb s (cur c s)) = None"
  shows "kwf (wait_state c s)"
proof -
  let ?t = "cur c s"
  note ca' = caller_okD[OF ca] and k' = kwfD[OF k]
  have ok: "tcb_ok ?t (tcb s ?t)" using tcbs_okD[OF k'(2) ca'(1)] .
  show ?thesis
  proof (cases "state (tcb s ?t) = TS_READY")
    case True
    let ?T = "(tcb s ?t)\<lparr>klockwait := False, state := TS_WAIT\<rparr>"
    show ?thesis
      by (rule kwf_leave_ready[OF k ca'(1), of ?T "q_remove ?t (que s)"])
        (use ok w True ring in \<open>simp_all add: tcb_ok_def needs_home_def wring_def wait_state_def
          knl_make_non_ready_def knl_smp_reschedule_all_def knl_ready_queue_delete_eq Let_def\<close>)
  next
    case False
    then have su: "state (tcb s ?t) = TS_SUSPEND" using ca'(4) by simp
    let ?T = "(tcb s ?t)\<lparr>state := TS_WAITSUS\<rparr>"
    have nr: "?t \<notin> set (que s q)" for q
      using loc_okD(3)[OF k'(1), of ?t q] su ca'(3) by (cases q) (auto simp: at_home_def)
    show ?thesis
      by (rule kwf_off_ready[OF k ca'(1) nr, of ?T "q_remove ?t (que s)"])
        (use ok w su ring q_remove_fresh[OF nr] in \<open>simp_all add: tcb_ok_def needs_home_def wring_def
          wait_state_def Let_def\<close>)
  qed
qed

lemma kwf_gcb_make_wait:
  assumes k: "kwf s" and ca: "caller_ok c s"
    and w: "wercd (tcb s (cur c s)) = Some (cur c s)"
    and ring: "wait_ring (wspec (tcb s (cur c s))) (nat (objid - 1)) = Some h"
  shows "kwf (knl_gcb_make_wait c h objid objatr tmout s)"
proof (cases "tmout = TMO_POL")
  case True
  then show ?thesis using k by (simp add: knl_gcb_make_wait_def kwf_set_wercd Let_def)
next
  case False
  let ?t = "cur c s"
  let ?s1 = "set_wercd ?t E_TMOUT s"
  let ?s = "upd_tcb ?t (wid_update (\<lambda>_. objid)) ?s1"
  let ?m = "knl_make_wait c tmout ?s"
  note ca' = caller_okD[OF ca] and k' = kwfD[OF k]
  have ca1: "caller_ok c ?s" using ca by (auto simp: caller_ok_def)
  have k1: "kwf ?s" using k ca'(4)
    by (intro kwf_upd_tcb kwf_set_wercd) (auto simp: tcb_ok_def)
  have ring1: "wring (tcb ?s (cur c ?s)) = Some h" using ring by (simp add: wring_def)
  have nh: "h \<noteq> RdyQ p" "h \<noteq> FreeTcb" "h \<noteq> LockQ j" for p j using wring_kind[OF ring1] by auto
  have fr: "?t \<notin> set (que s h)" using ring_waiting(2)[OF k _ nh, of ?t] ca'(4) by auto
  have qm: "que ?m h = que s h"
  proof (cases "state (tcb s ?t) = TS_READY")
    case True
    then show ?thesis using fr by (subst make_wait_ready_sel) (auto simp: q_remove_def remove1_idem)
  next
    case F: False
    then show ?thesis using ca'(4) by (subst make_wait_susp_sel) auto
  qed
  have *: "kwf (?m\<lparr>que := (que ?m)(h := xs)\<rparr>)"
    if "set xs = insert ?t (set (que s h))" "distinct xs" for xs
    by (rule kwf_make_wait_in[OF k1 ca1 _ ring1 _ that(2) refl]) (use w that(1) in simp_all)
  have d: "distinct (que s h)" using loc_okD(1)[OF k'(1)] .
  show ?thesis
    using False fr d qm *[of "insert_before (\<lambda>u. priority (tcb ?m u) > priority (tcb ?m ?t)) ?t (que ?m h)"]
      *[of "que s h @ [?t]"]
    by (simp add: knl_gcb_make_wait_def knl_queue_insert_tpri_def q_insert_def Let_def)
qed

subsection \<open>Starting, resuming, stopping, requeueing\<close>

lemma not_linked:
  assumes "kwf s" "state (tcb s t) = TS_SUSPEND \<or> state (tcb s t) = TS_DORMANT"
  shows "t \<notin> set (que s q)"
  using loc_okD(3)[OF kwfD(1)[OF assms(1)], of t q] assms(2) by (cases q) (auto simp: at_home_def)

lemma kwf_make_ready:
  assumes k: "kwf s" and t: "t < NUM_TSKID" "state (tcb s t) = TS_SUSPEND \<or> state (tcb s t) = TS_DORMANT"
    and T': "tcb_ok t (T'\<lparr>state := TS_READY\<rparr>)" "\<not> klockwait T'" "assprc T' = assprc (tcb s t)"
  shows "kwf (knl_make_ready c t (s\<lparr>tcb := (tcb s)(t := T')\<rparr>))"
proof -
  have Q: "q_remove t (que s) = que s" by (rule q_remove_fresh) (rule not_linked[OF k t(2)])
  show ?thesis
    using kwf_enter_ready[OF k t(1) not_linked[OF k t(2)], of "T'\<lparr>state := TS_READY\<rparr>" c] T'
    by (simp add: knl_make_ready_def knl_ready_queue_insert_def Let_def Q)
qed

lemma kwf_make_non_ready:
  assumes k: "kwf s" and t: "t < NUM_TSKID"
    and T': "assprc T' = assprc (tcb s t)" "tcb_ok t T'" "\<not> needs_home T'"
  shows "kwf ((knl_make_non_ready c t s)\<lparr>tcb := (tcb s)(t := T')\<rparr>)"
  by (rule kwf_leave_ready[OF k t T'(1,2), of "q_remove t (que s)"])
    (use T'(3) in \<open>simp_all add: knl_make_non_ready_def knl_smp_reschedule_all_def knl_ready_queue_delete_eq\<close>)

lemma make_non_ready_sel:
  "tcb (knl_make_non_ready c t s) = (tcb s)(t := (tcb s t)\<lparr>klockwait := False\<rparr>)"
  "que (knl_make_non_ready c t s) = q_remove t (que s)"
  by (simp_all add: knl_make_non_ready_def knl_smp_reschedule_all_def knl_ready_queue_delete_eq)

lemma kwf_unlink:
  assumes k: "kwf s" and t: "t < NUM_TSKID" "state (tcb s t) \<noteq> TS_READY"
    and T': "assprc T' = assprc (tcb s t)" "tcb_ok t T'" "\<not> needs_home T'"
  shows "kwf (s\<lparr>tcb := (tcb s)(t := T'), que := q_remove t (que s)\<rparr>)"
  by (rule kwf_off_ready[OF k t(1) waiting_not_ready[OF k t(2)] T'(1,2), of "q_remove t (que s)"])
    (use T'(3) in simp_all)

text \<open>Changing the priority of a task that is not READY, and moving it in its wait ring.\<close>

lemma kwf_set_priority:
  assumes k: "kwf s" and t: "t < NUM_TSKID" "state (tcb s t) \<noteq> TS_READY" and p: "p < NUM_TSKPRI"
  shows "kwf (upd_tcb t (priority_update (\<lambda>_. p)) s)"
proof -
  note k' = kwfD[OF k]
  let ?T = "(tcb s t)\<lparr>priority := p\<rparr>"
  have "at_home ?T q" if "at_home (tcb s t) q" for q
    using that t(2) by (cases q) (auto simp: at_home_def wring_def)
  then have "loc_ok ((tcb s)(t := ?T)) (que s)"
    using loc_okD(3)[OF k'(1)] by (intro loc_ok_same[OF k'(1)]) (auto simp: needs_home_def wring_def)
  moreover have "tcbs_ok ((tcb s)(t := ?T))"
    using k'(2) t p by (intro tcbs_ok_upd) (auto simp: tcb_ok_def dest!: tcbs_okD)
  moreover have "smp_aff ((tcb s)(t := ?T)) (smp s)" using k'(5) by (subst smp_aff_assprc) auto
  ultimately show ?thesis using k' by (simp add: kwf_def)
qed

lemma gcb_change_priority_que:
  assumes "kwf s" "t \<in> set (que s q)"
  shows "que (knl_gcb_change_priority q t s) =
    (que s)(q := insert_before (\<lambda>u. priority (tcb s u) > priority (tcb s t)) t (remove1 t (que s q)))"
proof -
  have "t \<notin> set (que s h)" if "h \<noteq> q" for h
    using loc_okD(4)[OF kwfD(1)[OF assms(1)] assms(2), of h] that by blast
  then show ?thesis
    by (auto simp: knl_gcb_change_priority_def knl_queue_insert_tpri_def q_remove_def fun_eq_iff
        remove1_idem)
qed

lemma gcb_change_priority_sel [simp]:
  "tcb (knl_gcb_change_priority q t s) = tcb s" "rq (knl_gcb_change_priority q t s) = rq s"
  "smp (knl_gcb_change_priority q t s) = smp s" "tmr (knl_gcb_change_priority q t s) = tmr s"
  "ercd (knl_gcb_change_priority q t s) = ercd s" "fault (knl_gcb_change_priority q t s) = fault s"
  by (simp_all add: knl_gcb_change_priority_def knl_queue_insert_tpri_def)

lemma kwf_gcb_change_priority:
  assumes k: "kwf s" and t: "t \<in> set (que s q)"
    and q: "\<And>p. q \<noteq> RdyQ p" "q \<noteq> FreeTcb" "\<And>k. q \<noteq> LockQ k"
  shows "kwf (knl_gcb_change_priority q t s)"
proof -
  note k' = kwfD[OF k] and w = ring_waiting[OF k t q]
  let ?xs = "insert_before (\<lambda>u. priority (tcb s u) > priority (tcb s t)) t (remove1 t (que s q))"
  have nr: "t \<notin> set (que s (RdyQ p))" for p using waiting_not_ready[OF k] w(2) by auto
  have set: "set ?xs = insert t (set (q_remove t (que s) q))" "distinct ?xs"
    using loc_okD(1)[OF k'(1), of q] by (auto simp: q_remove_def)
  have upd: "(que s)(q := ?xs) = (q_remove t (que s))(q := ?xs)"
  proof -
    have "t \<notin> set (que s h)" if "h \<noteq> q" for h
      using loc_okD(4)[OF k'(1) t, of h] that by blast
    then show ?thesis by (auto simp: q_remove_def fun_eq_iff remove1_idem)
  qed
  show ?thesis
  proof (rule kwf_off_ready[OF k w(1) nr, of "tcb s t" "(que s)(q := ?xs)"])
    show "tcb_ok t (tcb s t)" using tcbs_okD[OF k'(2) w(1)] .
    have "at_home (tcb s t) q" using loc_okD(3)[OF k'(1) t] .
    then show "\<not> needs_home (tcb s t) \<and> (que s)(q := ?xs) = q_remove t (que s) \<or>
        (\<exists>h xs. at_home (tcb s t) h \<and> (\<forall>p. h \<noteq> RdyQ p) \<and>
           (que s)(q := ?xs) = (q_remove t (que s))(h := xs) \<and>
           set xs = insert t (set (q_remove t (que s) h)) \<and> distinct xs)"
      using q set upd by metis
  qed (simp_all add: gcb_change_priority_que[OF k t])
qed

lemma kwf_rotate:
  assumes "kwf s" shows "kwf (knl_rotate_ready_queue c p s)"
proof -
  note k' = kwfD[OF assms]
  let ?s = "knl_ready_queue_rotate p s"
  have same: "tcb ?s = tcb s" "smp ?s = smp s" "\<And>q. set (que ?s q) = set (que s q)"
    "\<And>q. distinct (que ?s q) = distinct (que s q)"
    by (cases "que s (RdyQ p)"; force simp: knl_ready_queue_rotate_def q_insert_def)+
  have "loc_ok (tcb ?s) (que ?s)" using k'(1) unfolding loc_ok_def same .
  then show ?thesis
    using k' same rq_ok_rotate[OF k'(3) refl, of p]
    unfolding knl_rotate_ready_queue_def by (intro kwf_resched) auto
qed

lemma kwf_rotate_run: "kwf s \<Longrightarrow> kwf (knl_rotate_ready_queue_run c s)"
  using kwf_rotate[of s c "knl_ready_queue_top_priority s"]
  by (simp add: knl_rotate_ready_queue_run_def knl_rotate_ready_queue_def)

text \<open>A priority change of a READY task: out of one ring, into another, and a reschedule.\<close>

lemma kwf_requeue_ready:
  assumes k: "kwf s" and t: "t < NUM_TSKID" "state (tcb s t) = TS_READY" and p: "p < NUM_TSKPRI"
  shows "kwf (knl_reschedule c (fst (knl_ready_queue_insert t
    (upd_tcb t (priority_update (\<lambda>_. p)) (knl_ready_queue_delete t s)))))"
proof -
  note k' = kwfD[OF k]
  let ?T = "(tcb s t)\<lparr>klockwait := False, priority := p\<rparr>"
  let ?r = "rq (knl_ready_queue_delete t s)"
  let ?s = "s\<lparr>tcb := (tcb s)(t := ?T), que := q_insert t (RdyQ p) (q_remove t (que s)),
    rq := rq_mark ?T t ?r\<rparr>"
  have ok: "tcb_ok t ?T" using tcbs_okD[OF k'(2) t(1)] p by (auto simp: tcb_ok_def)
  have "kwf (knl_smp_reschedule_all c ?s)"
  proof (rule kwf_resched)
    have "loc_ok ((tcb s)(t := ?T)) ((q_remove t (que s))(RdyQ p := q_remove t (que s) (RdyQ p) @ [t]))"
      using k'(1) t distinct_q_remove[OF k'(1)]
      by (intro loc_ok_in) (auto simp: at_home_ready set_q_remove[OF k'(1)])
    then show "loc_ok (tcb ?s) (que ?s)" by (simp add: q_insert_def)
    show "tcbs_ok (tcb ?s)" using k'(2) ok by (simp add: tcbs_ok_upd)
    have "rq_ok (q_remove t (que s)) ?r" by (rule leave_ready(4)[OF k])
    then show "rq_ok (que ?s) (rq ?s)"
      using rq_ok_mark[of "q_remove t (que s)" ?r ?T] p by (simp add: q_insert_def)
    show "smp_excl (smp ?s)" using k'(4) by simp
    have "assprc (((tcb s)(t := ?T)) u) = assprc (tcb s u)" for u by simp
    then show "smp_aff (tcb ?s) (smp ?s)" using k'(5) smp_aff_assprc[of "(tcb s)(t := ?T)" "tcb s"] by simp
  qed
  then show ?thesis
    by (simp add: knl_ready_queue_insert_def knl_ready_queue_delete_eq Let_def)
qed

subsection \<open>Releasing several tasks of a wait ring\<close>

text \<open>
  The effect of a loop that releases the tasks \<open>R\<close> of a ring, each with the result \<open>e t\<close>: they leave
  every wait ring and the timer queue, change state and find their result; nothing else changes.
\<close>

definition rel_eff :: "nat list \<Rightarrow> (nat \<Rightarrow> int) \<Rightarrow> kstate \<Rightarrow> kstate \<Rightarrow> bool" where
  "rel_eff R e s s' \<longleftrightarrow> kwf s' \<and>
     tcb s' = (\<lambda>t. if t \<in> set R then released (tcb s t) else tcb s t) \<and>
     (\<forall>h. (\<forall>p. h \<noteq> RdyQ p) \<longrightarrow> que s' h = filter (\<lambda>t. t \<notin> set R) (que s h)) \<and>
     ercd s' = (\<lambda>t. if t \<in> set R then e t else ercd s t) \<and>
     tmr s' = fold (\<lambda>t. knl_timer_delete (TmTsk t)) R (tmr s) \<and>
     fault s' = fault s \<and> ctxtsk (smp s') = ctxtsk (smp s)"

lemma rel_eff_refl: "kwf s \<Longrightarrow> rel_eff [] e s s"
  by (simp add: rel_eff_def)

lemma rel_eff_step:
  assumes k: "kwf s" and t: "t < NUM_TSKID" "in_wait (state (tcb s t))"
    and d: "t \<notin> set R" and r: "rel_eff R e s1 s'"
    and s1: "tcb s1 = tcb (knl_wait_release_ok_ercd c t (e t) s)"
      "que s1 = que (knl_wait_release_ok_ercd c t (e t) s)"
      "ercd s1 = ercd (knl_wait_release_ok_ercd c t (e t) s)"
      "tmr s1 = tmr (knl_wait_release_ok_ercd c t (e t) s)"
      "fault s1 = fault (knl_wait_release_ok_ercd c t (e t) s)"
      "ctxtsk (smp s1) = ctxtsk (smp (knl_wait_release_ok_ercd c t (e t) s))"
  shows "rel_eff (t # R) e s s'"
proof -
  have w: "wercd (tcb s t) = Some t" using tcbs_okD[OF kwfD(2)[OF k] t(1)] t(2) by (auto simp: tcb_ok_def)
  have q1: "que s1 h = filter (\<lambda>u. u \<noteq> t) (que s h)" if "\<forall>p. h \<noteq> RdyQ p" for h
    using that loc_okD(1)[OF kwfD(1)[OF k], of h]
    by (simp add: s1 q_release_other distinct_remove1_removeAll removeAll_filter_not_eq)
      (rule filter_cong, auto)
  have q: "que s' h = filter (\<lambda>u. u \<notin> set (t # R)) (que s h)" if "\<forall>p. h \<noteq> RdyQ p" for h
    using r that q1[OF that] by (simp add: rel_eff_def)
  show ?thesis
    using r d q unfolding rel_eff_def
    by (auto simp: s1 wait_release_ok_ercd_val[OF w] fun_eq_iff)
qed

lemma rel_eff_state:
  assumes "rel_eff R e s s'"
  shows "kwf s'" "ctxtsk (smp s') = ctxtsk (smp s)" "fault s' = fault s"
    "(\<And>p. h \<noteq> RdyQ p) \<Longrightarrow> que s' h = filter (\<lambda>t. t \<notin> set R) (que s h)"
    "tcb s' = (\<lambda>t. if t \<in> set R then released (tcb s t) else tcb s t)"
    "ercd s' = (\<lambda>t. if t \<in> set R then e t else ercd s t)"
    "winfo (tcb s' t) = winfo (tcb s t)" "priority (tcb s' t) = priority (tcb s t)"
    "wspec (tcb s' t) = wspec (tcb s t)" "wid (tcb s' t) = wid (tcb s t)"
  using assms by (simp_all add: rel_eff_def)

text \<open>A deleted wait queue is the case where all of it is released.\<close>

lemma wait_delete_released:
  assumes k: "kwf s" and q: "\<And>p. q \<noteq> RdyQ p" "q \<noteq> FreeTcb" "\<And>k. q \<noteq> LockQ k"
  shows "rel_eff (que s q) (\<lambda>_. E_DLT) s (knl_wait_delete c q s)"
proof -
  have "rel_eff (que s q) (\<lambda>_. E_DLT) s (wait_delete_loop n c q s)" if "length (que s q) = n" for n
    using k that
  proof (induction n arbitrary: s)
    case 0
    then show ?case by (simp add: rel_eff_refl)
  next
    case (Suc n)
    then obtain t ts where Q: "que s q = t # ts" by (cases "que s q") auto
    let ?s = "knl_note_wake_race c t (knl_wait_release c t (set_wercd t E_DLT s))"
    have e: "?s = knl_wait_release_ok_ercd c t E_DLT s" by (simp add: knl_wait_release_ok_ercd_def)
    note w = ring_waiting[OF Suc.prems(1) _ q, of t]
    have w': "t < NUM_TSKID" "in_wait (state (tcb s t))" using w(1,2) Q by simp_all
    have ts: "que ?s q = ts" using q Q by (simp add: q_release_other)
    have "kwf ?s" using Suc.prems(1) w' by (simp add: kwf_note_wake_race kwf_wait_release kwf_set_wercd)
    then have "rel_eff ts (\<lambda>_. E_DLT) ?s (wait_delete_loop n c q ?s)"
      using Suc.IH[of ?s] ts Suc.prems(2) Q by simp
    moreover have "t \<notin> set ts" using loc_okD(1)[OF kwfD(1)[OF Suc.prems(1)], of q] Q by simp
    ultimately show ?case
      using rel_eff_step[OF Suc.prems(1) w', of ts "\<lambda>_. E_DLT" ?s _ c] Q by (simp add: e)
  qed
  then show ?thesis by (simp add: knl_wait_delete_def)
qed

text \<open>Rings that hold none of the released tasks are unchanged.\<close>

lemma rel_eff_other:
  assumes "rel_eff R e s s'" "kwf s" "set R \<subseteq> set (que s h)" "h' \<noteq> h" "\<And>p. h' \<noteq> RdyQ p"
  shows "que s' h' = que s h'"
proof -
  have "t \<notin> set R" if "t \<in> set (que s h')" for t
    using loc_okD(4)[OF kwfD(1)[OF assms(2)] that, of h] assms(3,4) by blast
  then show ?thesis using rel_eff_state(4)[OF assms(1), of h'] assms(5) by (simp add: filter_id_conv)
qed

subsection \<open>What entering a wait changes\<close>

lemma gcb_make_wait_poll:
  "tmout = TMO_POL \<Longrightarrow> knl_gcb_make_wait c h objid objatr tmout s = set_wercd (cur c s) E_TMOUT s"
  by (simp add: knl_gcb_make_wait_def Let_def)

lemma gcb_make_wait_eff:
  assumes k: "kwf s" and ca: "caller_ok c s" and tmo: "tmout \<noteq> TMO_POL"
    and w: "wercd (tcb s (cur c s)) = Some (cur c s)"
    and h: "\<And>p. h \<noteq> RdyQ p"
    and t: "t = cur c s" and s': "s' = knl_gcb_make_wait c h objid objatr tmout s"
  shows "que s' h = (if objatr AND TA_TPRI \<noteq> 0
           then insert_before (\<lambda>u. priority (tcb s u) > priority (tcb s t)) t (remove1 t (que s h))
           else remove1 t (que s h) @ [t])"
    and "\<And>h'. (\<And>p. h' \<noteq> RdyQ p) \<Longrightarrow> h' \<noteq> h \<Longrightarrow> que s' h' = remove1 t (que s h')"
    and "tcb s' = (tcb s)(t := (tcb s t)\<lparr>wid := objid,
           state := (if state (tcb s t) = TS_READY then TS_WAIT else TS_WAITSUS)\<rparr>)"
    and "ercd s' = (ercd s)(t := E_TMOUT)" and "fault s' = fault s"
    and "ctxtsk (smp s') = ctxtsk (smp s)"
    and "tmr s' = knl_timer_insert (TmTsk t) tmout (Wait_release_tmout t) (tmr s)"
proof -
  let ?s = "upd_tcb t (wid_update (\<lambda>_. objid)) (set_wercd t E_TMOUT s)"
  let ?m = "knl_make_wait c tmout ?s"
  note ca' = caller_okD[OF ca, folded t]
  have we: "set_wercd t E_TMOUT s = s\<lparr>ercd := (ercd s)(t := E_TMOUT)\<rparr>"
    using w t by (simp add: set_wercd_some)
  have cu: "cur c ?s = t" by (simp add: t)
  have kl: "(tcb s t)\<lparr>wid := objid, klockwait := False, state := x\<rparr> = (tcb s t)\<lparr>wid := objid, state := x\<rparr>" for x
    using ca'(3) by (cases "tcb s t") simp
  have s'm: "s' = (if objatr AND TA_TPRI \<noteq> 0 then knl_queue_insert_tpri t h ?m else upd_que (q_insert t h) ?m)"
    using tmo by (simp add: s' knl_gcb_make_wait_def t Let_def)
  have tm: "tcb ?m = (tcb s)(t := (tcb s t)\<lparr>wid := objid,
           state := (if state (tcb s t) = TS_READY then TS_WAIT else TS_WAITSUS)\<rparr>)"
  proof (cases "state (tcb s t) = TS_READY")
    case True
    then show ?thesis using make_wait_ready_sel(1)[of ?s c tmout] cu kl by simp
  next
    case False
    then show ?thesis using make_wait_susp_sel(1)[of ?s c tmout] cu ca'(4) by simp
  qed
  have qm: "que ?m h' = remove1 t (que s h')" if "\<forall>p. h' \<noteq> RdyQ p" for h'
  proof (cases "state (tcb s t) = TS_READY")
    case True
    then show ?thesis using make_wait_ready_sel(2)[of ?s c tmout] cu by (simp add: q_remove_def)
  next
    case False
    then have su: "state (tcb s t) = TS_SUSPEND" using ca'(4) by simp
    have "t \<notin> set (que s h')" by (rule not_linked[OF k]) (simp add: su)
    then show ?thesis using make_wait_susp_sel(2)[of ?s c tmout] cu su by (simp add: remove1_idem)
  qed
  have pm: "priority (tcb ?m u) = priority (tcb s u)" for u
    using arg_cong[OF tm, of "\<lambda>f. priority (f u)"] by simp
  show "que s' h = (if objatr AND TA_TPRI \<noteq> 0
           then insert_before (\<lambda>u. priority (tcb s u) > priority (tcb s t)) t (remove1 t (que s h))
           else remove1 t (que s h) @ [t])"
    using qm[of h] h pm by (simp add: s'm knl_queue_insert_tpri_def q_insert_def)
  show "que s' h' = remove1 t (que s h')" if "\<And>p. h' \<noteq> RdyQ p" "h' \<noteq> h" for h'
    using qm[of h'] that by (simp add: s'm knl_queue_insert_tpri_def q_insert_def)
  show "tcb s' = (tcb s)(t := (tcb s t)\<lparr>wid := objid,
           state := (if state (tcb s t) = TS_READY then TS_WAIT else TS_WAITSUS)\<rparr>)"
    using tm by (simp add: s'm knl_queue_insert_tpri_def)
  show "ercd s' = (ercd s)(t := E_TMOUT)" "fault s' = fault s" "ctxtsk (smp s') = ctxtsk (smp s)"
    "tmr s' = knl_timer_insert (TmTsk t) tmout (Wait_release_tmout t) (tmr s)"
    using we by (simp_all add: s'm knl_queue_insert_tpri_def t)
qed

text \<open>The caller is linked in no wait ring.\<close>

lemma caller_not_waiting:
  assumes "kwf s" "caller_ok c s" "\<And>p. h \<noteq> RdyQ p"
  shows "cur c s \<notin> set (que s h)"
proof
  assume m: "cur c s \<in> set (que s h)"
  have "at_home (tcb s (cur c s)) h" using loc_okD(3)[OF kwfD(1)[OF assms(1)] m] .
  then show False using caller_okD[OF assms(2)] assms(3) by (cases h) (auto simp: at_home_def)
qed

text \<open>The state in which a system call enters the wait: the caller's control block is prepared.\<close>

lemma wait_prepared:
  assumes k: "kwf s" and ca: "caller_ok c s" and t: "t = cur c s"
    and T': "T' = (tcb s t)\<lparr>wspec := w, wercd := Some t, winfo := f\<rparr>"
  shows "kwf (s\<lparr>tcb := (tcb s)(t := T')\<rparr>)" "caller_ok c (s\<lparr>tcb := (tcb s)(t := T')\<rparr>)"
proof -
  note ca' = caller_okD[OF ca, folded t]
  show "kwf (s\<lparr>tcb := (tcb s)(t := T')\<rparr>)"
    by (rule kwf_upd_tcb[OF k]) (use ca'(4) in \<open>auto simp: T' tcb_ok_def\<close>)
  show "caller_ok c (s\<lparr>tcb := (tcb s)(t := T')\<rparr>)"
    unfolding caller_ok_def using ca' by (intro conjI exI[of _ t]) (auto simp: T')
qed

lemma obj_wait:
  assumes k: "kwf s" and ca: "caller_ok c s" and t: "t = cur c s"
    and T': "T' = (tcb s t)\<lparr>wspec := w, wercd := Some t, winfo := f\<rparr>"
    and s1: "s1 = s\<lparr>tcb := (tcb s)(t := T')\<rparr>"
    and wr: "wait_ring w (nat (objid - 1)) = Some h"
    and s': "s' = knl_gcb_make_wait c h objid objatr tmout s1"
  shows "kwf s'" and "\<And>h'. (\<And>p. h' \<noteq> RdyQ p) \<Longrightarrow> t \<notin> set (que s h')"
    and "tmout \<noteq> TMO_POL \<Longrightarrow> que s' h = (if objatr AND TA_TPRI \<noteq> 0
           then insert_before (\<lambda>u. priority (tcb s u) > priority (tcb s t)) t (que s h)
           else que s h @ [t])"
    and "tmout \<noteq> TMO_POL \<Longrightarrow> (\<And>p. h' \<noteq> RdyQ p) \<Longrightarrow> h' \<noteq> h \<Longrightarrow> que s' h' = que s h'"
    and "tmout \<noteq> TMO_POL \<Longrightarrow> tcb s' = (tcb s)(t := T'\<lparr>wid := objid,
           state := (if state (tcb s t) = TS_READY then TS_WAIT else TS_WAITSUS)\<rparr>)"
    and "tmout \<noteq> TMO_POL \<Longrightarrow> tmr s' = knl_timer_insert (TmTsk t) tmout (Wait_release_tmout t) (tmr s)"
    and "tmout = TMO_POL \<Longrightarrow> s' = s1\<lparr>ercd := (ercd s)(t := E_TMOUT)\<rparr>"
    and "ercd s' = (ercd s)(t := E_TMOUT)" and "fault s' = fault s" and "ctxtsk (smp s') = ctxtsk (smp s)"
proof -
  have wT: "(tcb s t)\<lparr>wspec := w, wercd := Some t, winfo := f\<rparr> = T'" by (simp add: T')
  note pr = wait_prepared[OF k ca t T', folded s1]
  have nh: "h \<noteq> RdyQ p" for p using wait_ring_kind[OF wr] by auto
  have cu: "t = cur c s1" by (simp add: s1 t)
  have w1: "wercd (tcb s1 (cur c s1)) = Some (cur c s1)" unfolding cu[symmetric] by (simp add: s1 T')
  have ws: "wait_ring (wspec (tcb s1 (cur c s1))) (nat (objid - 1)) = Some h"
    unfolding cu[symmetric] using wr by (simp add: s1 T')
  show "kwf s'" unfolding s' by (rule kwf_gcb_make_wait[OF pr w1 ws])
  show fr: "t \<notin> set (que s h')" if "\<And>p. h' \<noteq> RdyQ p" for h'
    unfolding t by (rule caller_not_waiting[OF k ca that])
  have same: "que s1 = que s" "tmr s1 = tmr s" "ercd s1 = ercd s" "fault s1 = fault s" "smp s1 = smp s"
    "priority (tcb s1 u) = priority (tcb s u)" "tcb s1 t = T'" for u by (auto simp: s1 T')
  have st: "tcb s1 = (tcb s)(t := T')" "state T' = state (tcb s t)"
    "priority T' = priority (tcb s t)" by (simp_all add: s1 T')
  have rm: "remove1 t (que s h') = que s h'" if "\<And>p. h' \<noteq> RdyQ p" for h'
    using fr[OF that] by (simp add: remove1_idem)
  show pol: "s' = s1\<lparr>ercd := (ercd s)(t := E_TMOUT)\<rparr>" if "tmout = TMO_POL"
    using set_wercd_some[OF w1[folded cu], of E_TMOUT]
    unfolding s' gcb_make_wait_poll[OF that] same t[symmetric] .
  { assume tmo: "tmout \<noteq> TMO_POL"
    note ef = gcb_make_wait_eff[OF pr tmo w1 nh cu s', unfolded same]
    show "que s' h = (if objatr AND TA_TPRI \<noteq> 0
           then insert_before (\<lambda>u. priority (tcb s u) > priority (tcb s t)) t (que s h)
           else que s h @ [t])"
      using ef(1) unfolding rm[OF nh] st(3) .
    show "que s' h' = que s h'" if "\<And>p. h' \<noteq> RdyQ p" "h' \<noteq> h"
      using ef(2)[OF that] unfolding rm[OF that(1)] .
    show "tcb s' = (tcb s)(t := T'\<lparr>wid := objid,
           state := (if state (tcb s t) = TS_READY then TS_WAIT else TS_WAITSUS)\<rparr>)"
      using ef(3) by (simp add: st)
    show "tmr s' = knl_timer_insert (TmTsk t) tmout (Wait_release_tmout t) (tmr s)"
      using ef(7) . }
  note np = this
  show "ercd s' = (ercd s)(t := E_TMOUT)" "fault s' = fault s" "ctxtsk (smp s') = ctxtsk (smp s)"
  proof -
    have "ercd s' = (ercd s)(t := E_TMOUT) \<and> fault s' = fault s \<and> ctxtsk (smp s') = ctxtsk (smp s)"
    proof (cases "tmout = TMO_POL")
      case True
      then show ?thesis using pol same by simp
    next
      case False
      then show ?thesis using gcb_make_wait_eff(4-6)[OF pr False w1 nh cu s', unfolded same] by simp
    qed
    then show "ercd s' = (ercd s)(t := E_TMOUT)" "fault s' = fault s" "ctxtsk (smp s') = ctxtsk (smp s)"
      by auto
  qed
qed

lemma sorted_tpri:
  "sorted (map (\<lambda>t. priority (T t)) q) \<Longrightarrow>
   sorted (map (\<lambda>t. priority (T t)) (insert_before (\<lambda>u. priority (T t) < priority (T u)) t q))"
  by (rule sorted_insert_before)

end
