(* ===== verification/Example_State.thy ===== *)
theory Example_State
  imports Sched_Inv
begin

text \<open>
  A concrete kernel state for the closed instances of the properties: task 0 runs on core 0 at internal
  priority 10, task 1 at priority 12 waits at control block 0 of the object kind given by \<open>w\<close> and \<open>h\<close>
  with the wait information \<open>f\<close>, all other tasks are dormant and core 1 is idle.
\<close>

definition ex_winfo :: winfo where
  "ex_winfo = \<lparr>sem_cnt = 1, flg_waiptn = 1, flg_wfmode = 0, flg_p_flgptn = 0x20000000, mbx_ppk_msg = 0x20000000,
     rmbf_msg = 0x20000000, rmbf_p_msgsz = Some 1, smbf_msg = 0x20000000, smbf_msgsz = 4,
     mpl_blksz = 8, mpl_p_blk = 0x20000000, mpf_p_blf = 0x20000000\<rparr>"

definition ex_tcb :: "nat \<Rightarrow> tcb" where
  "ex_tcb t = \<lparr>tskid = int t + 1, exinf = 0, tskatr = 1, task_entry = 0x10000000, sstksz = 1024,
     isysmode = 1, sysmode = 1, ipriority = 10, bpriority = 10, priority = 10, state = TS_DORMANT,
     assprc = 3, klockwait = False, klocked = False, stkfree = False, wspec = Wspec_slp, wid = 0,
     wupcnt = 0, suscnt = 0, wercd = None, winfo = ex_winfo, isstack = 0x20001000, ctx_set = None,
     mtxlist = None\<rparr>"

definition ex_run :: tcb where "ex_run = (ex_tcb 0)\<lparr>state := TS_READY\<rparr>"

definition ex_wait :: "wspec \<Rightarrow> winfo \<Rightarrow> tcb" where
  "ex_wait w f = (ex_tcb 1)\<lparr>state := TS_WAIT, wspec := w, wid := 1, wercd := Some 1, winfo := f,
     priority := 12, bpriority := 12, ipriority := 12\<rparr>"

definition ex_smp :: smp where
  "ex_smp = \<lparr>ctxtsk = (\<lambda>c. if c = 0 then Some 0 else None), schedtsk = (\<lambda>c. if c = 0 then Some 0 else None),
     dispatch_disabled = (\<lambda>_. 0), taskindp = (\<lambda>_. 0), primask = (\<lambda>_. False), pendsv = (\<lambda>_. False),
     online_mask = 3, ipi_pending = (\<lambda>_. 0), doorbell = (\<lambda>_. False), rq_hist = (\<lambda>_. 0), bad_assign = 0,
     bad_assign_task = 0, bad_assign_core = 0, dup_candidate = 0, dup_publish = 0, last_pub = (\<lambda>_. 0),
     pub_count = (\<lambda>_. 0), wake_raced = 0, assign_count = 0, assign_refused = 0,
     context_releases = (\<lambda>_. 0), deferred_reclaims = 0\<rparr>"

definition ex_tmr :: tmr where
  "ex_tmr = \<lparr>current_time = 1000, real_time_ofs = 0,
     tmeb_of = (\<lambda>_. \<lparr>ev_time = 0, callback = None\<rparr>), tmq = (\<lambda>_. []), hdr_active = (\<lambda>_. False),
     timer_diag = \<lparr>ticks = 0, wrong_core_ticks = 0, expired_events = 0, max_expired_per_tick = 0,
       handler_enqueued = (\<lambda>_. 0), handler_executed = (\<lambda>_. 0), callback_max_us = (\<lambda>_. 0),
       callback_detached = (\<lambda>_. 0), callback_reconciled = (\<lambda>_. 0), callback_stale = (\<lambda>_. 0)\<rparr>\<rparr>"

definition ex_state :: "wspec \<Rightarrow> winfo \<Rightarrow> qhd \<Rightarrow> kstate" where
  "ex_state w f h = \<lparr>tcb = ex_tcb(0 := ex_run, 1 := ex_wait w f),
     que = (\<lambda>_. [])(RdyQ 10 := [0], h := [1]),
     rq = \<lparr>top_priority = 10, bitmap = 0x400, klocktsk = None\<rparr>,
     smp = ex_smp, tmr = ex_tmr, ercd = (\<lambda>_. 0),
     sem = (\<lambda>_. \<lparr>semid = 0, sem_exinf = 0, sematr = 0, semcnt = 0, maxsem = 0\<rparr>), free_sem = [0..<NUM_SEMID],
     flg = (\<lambda>_. \<lparr>flgid = 0, flg_exinf = 0, flgatr = 0, flgptn = 0\<rparr>), free_flg = [0..<NUM_FLGID],
     mbx = (\<lambda>_. \<lparr>mbxid = 0, mbx_exinf = 0, mbxatr = 0, mq_head = 0, mq_tail = 0\<rparr>), free_mbx = [0..<NUM_MBXID],
     mtx = (\<lambda>_. \<lparr>mtxid = 0, mtx_exinf = 0, mtxatr = 0, ceilpri = 0, mtxtsk = None, mtx_next = None\<rparr>),
     free_mtx = [0..<NUM_MTXID],
     mbf = (\<lambda>_. \<lparr>mbfid = 0, mbf_exinf = 0, mbfatr = 0, bufsz = 0, maxmsz = 0, frbufsz = 0, mbf_head = 0,
       mbf_tail = 0, buffer = 0\<rparr>), free_mbf = [0..<NUM_MBFID],
     mpf = (\<lambda>_. \<lparr>mpfid = 0, mpf_exinf = 0, mpfatr = 0, mpfcnt = 0, blfsz = 0, mpfsz = 0, frbcnt = 0,
       mempool = 0, unused = 0, freelist = 0, mpf_locked = False\<rparr>), free_mpf = [0..<NUM_MPFID],
     mpl = (\<lambda>_. \<lparr>mplid = 0, mpl_exinf = 0, mplatr = 0, mpl_mempool = 0\<rparr>), free_mpl = [0..<NUM_MPLID],
     mplcb_at = (\<lambda>i. 0x20000100 + 40 * of_nat i),
     cyc = (\<lambda>_. \<lparr>cyc_exinf = 0, cycatr = 0, cychdr = 0, cycstat = 0, cyctim = 0, cyc_assprc = 0,
       cyc_generation = 0\<rparr>), free_cyc = [0..<NUM_CYCID],
     alm = (\<lambda>_. \<lparr>alm_exinf = 0, almatr = 0, almhdr = 0, almstat = 0, alm_assprc = 0, alm_generation = 0\<rparr>),
     free_alm = [0..<NUM_ALMID],
     mem = (\<lambda>_. 0), rcvsz = (\<lambda>_. 0), imacb = 0, lowmem_top = 0, lowmem_limit = 0, fault = False\<rparr>"

lemma ex_state_sel [simp]:
  "tcb (ex_state w f h) = ex_tcb(0 := ex_run, 1 := ex_wait w f)"
  "que (ex_state w f h) = (\<lambda>_. [])(RdyQ 10 := [0], h := [1])"
  "smp (ex_state w f h) = ex_smp"
  by (simp_all add: ex_state_def)

lemma bit_0x400: "p < 32 \<Longrightarrow> bit (0x400 :: UW) p \<longleftrightarrow> p = 10"
  using bit_push_bit_iff[of 10 "1 :: UW" p] bit_1_iff[where 'a = "32 word"]
  by (auto simp: push_bit_eq_mult)

lemma kwf_ex_state:
  assumes "wait_ring w 0 = Some h"
  shows "kwf (ex_state w f h)"
proof -
  note h = wait_ring_kind[OF assms]
  have r: "h \<noteq> RdyQ p" for p using h by auto
  have wr: "wring (ex_wait w f) = Some h" using assms by (simp add: wring_def ex_wait_def)
  have home: "at_home (ex_wait w f) h" by (rule at_home_wait[OF _ wr]) (simp add: ex_wait_def)
  have l: "loc_ok (tcb (ex_state w f h)) (que (ex_state w f h))"
    unfolding loc_ok_def using r[symmetric] r home
    by (auto simp: size_defs at_home_ready ex_run_def ex_tcb_def needs_home_def
        intro: exI[of _ "RdyQ 10"] exI[of _ h])
  have t: "tcbs_ok (tcb (ex_state w f h))"
    by (auto simp: tcbs_ok_def tcb_ok_def ex_run_def ex_wait_def ex_tcb_def size_defs)
  have q: "rq_ok (que (ex_state w f h)) (rq (ex_state w f h))"
    using r by (auto simp: rq_ok_def bit_0x400 size_defs ex_state_def)
  have "smp_excl (smp (ex_state w f h)) \<and> smp_aff (tcb (ex_state w f h)) (smp (ex_state w f h)) \<and>
      sched_ok (que (ex_state w f h)) (smp (ex_state w f h))"
    using r r[symmetric] by (auto simp: smp_excl_def smp_aff_def sched_ok_def less_cores ex_smp_def ex_run_def ex_tcb_def
        intro: exI[of _ 10])
  then show ?thesis using l t q by (simp add: kwf_def)
qed

lemma ex_caller_ok: "caller_ok 0 (ex_state w f h)"
  by (simp add: caller_ok_def ex_smp_def ex_run_def ex_tcb_def size_defs less_cores)

end
