(* ===== verification/Memory_Words.thy ===== *)
theory Memory_Words
  imports Kernel_State
begin

text \<open>
  Words in the byte memory at addresses that do not overlap. \<open>apart k p q\<close>: the two blocks of \<open>k\<close> bytes
  at \<open>p\<close> and \<open>q\<close> are disjoint, also across the end of the address space.
\<close>

definition apart :: "UW \<Rightarrow> UW \<Rightarrow> UW \<Rightarrow> bool" where
  "apart k p q \<longleftrightarrow> k \<le> p - q \<and> k \<le> q - p"

fun all_apart :: "UW \<Rightarrow> UW list \<Rightarrow> bool" where
  "all_apart k [] \<longleftrightarrow> True"
| "all_apart k (x # xs) \<longleftrightarrow> (\<forall>y \<in> set xs. apart k x y) \<and> all_apart k xs"

lemma apart_sym: "apart k p q \<longleftrightarrow> apart k q p"
  by (auto simp: apart_def)

lemma apart_less: "apart k p q \<Longrightarrow> k' \<le> k \<Longrightarrow> apart k' p q"
  unfolding apart_def by (meson order_trans)

lemma apart_ne:
  assumes "apart (k + 1) p q" "i \<le> k" "j \<le> k" "k < k + 1"
  shows "q + i \<noteq> p + j"
proof
  assume e: "q + i = p + j"
  have q: "q = p + j - i" using e by (simp add: eq_diff_eq)
  have p: "p = q + i - j" using e by (simp add: eq_diff_eq)
  have d: "q - p = j - i" "p - q = i - j" by (simp add: q) (simp add: p)
  show False
  proof (cases "i \<le> j")
    case True
    then have "j - i \<le> k" using assms(3) by (meson order_trans word_sub_le)
    then show False using assms(1,4) d(1) unfolding apart_def by (metis leD order_trans)
  next
    case False
    then have "i - j \<le> k" using assms(2) by (meson le_cases order_trans word_sub_le)
    then show False using assms(1,4) d(2) unfolding apart_def by (metis leD order_trans)
  qed
qed

lemma ld32_apart:
  assumes "apart 4 p q" shows "ld32 q (st32 p v m) = ld32 q m"
proof -
  have ne: "q + i \<noteq> p + j" if "i \<le> 3" "j \<le> 3" for i j :: UW
    using apart_ne[of 3 p q i j] assms that by simp
  note n = ne[of 0 0] ne[of 0 1] ne[of 0 2] ne[of 0 3] ne[of 1 0] ne[of 1 1] ne[of 1 2] ne[of 1 3]
    ne[of 2 0] ne[of 2 1] ne[of 2 2] ne[of 2 3] ne[of 3 0] ne[of 3 1] ne[of 3 2] ne[of 3 3]
  show ?thesis using n by (simp add: ld32_def st32_def)
qed

lemma ld32_apart8:
  assumes "apart 8 p q" shows "ld32 (q + 4) (st32 p v m) = ld32 (q + 4) m" "ld32 q (st32 p v m) = ld32 q m"
proof -
  have ne: "q + i \<noteq> p + j" if "i \<le> 7" "j \<le> 7" for i j :: UW
    using apart_ne[of 7 p q i j] assms that by simp
  note n = ne[of 4 0] ne[of 4 1] ne[of 4 2] ne[of 4 3] ne[of 5 0] ne[of 5 1] ne[of 5 2] ne[of 5 3]
    ne[of 6 0] ne[of 6 1] ne[of 6 2] ne[of 6 3] ne[of 7 0] ne[of 7 1] ne[of 7 2] ne[of 7 3]
  show "ld32 (q + 4) (st32 p v m) = ld32 (q + 4) m" using n by (simp add: ld32_def st32_def add.assoc)
  show "ld32 q (st32 p v m) = ld32 q m" by (rule ld32_apart, rule apart_less[OF assms]) simp
qed

text \<open>The second word of a block does not overlap the first.\<close>

lemma ld32_second: "ld32 (p + 4) (st32 p v m) = ld32 (p + 4) m"
  by (simp add: ld32_def st32_def add.assoc)

lemma all_apart_append:
  "all_apart k (xs @ ys) \<longleftrightarrow> all_apart k xs \<and> all_apart k ys \<and> (\<forall>x \<in> set xs. \<forall>y \<in> set ys. apart k x y)"
  by (induction xs) auto

lemma apart_irrefl: "k \<noteq> 0 \<Longrightarrow> \<not> apart k p p"
  by (simp add: apart_def word_gt_0)

lemma all_apart_distinct: "all_apart k xs \<Longrightarrow> k \<noteq> 0 \<Longrightarrow> distinct xs"
  by (induction xs) (auto dest: apart_irrefl)

text \<open>A store outside all the words that a list occupies.\<close>

lemma ld32_st32_if:
  "q = p \<or> apart 4 p q \<Longrightarrow> ld32 q (st32 p v m) = (if q = p then v else ld32 q m)"
  using ld32_apart by auto

end
