(* ===== verification/Wait_Object.thy ===== *)
theory Wait_Object
  imports Sched_Inv
begin

text \<open>
  What the synchronisation objects have in common: a table of control blocks with a queue of free
  ones, an ID that is 0 in a free control block, and wait queues that belong to one control block. The
  locale \<open>wait_object\<close> is the interface under which the object theories prove that an operation on
  one object keeps the invariant of all objects of its kind; its law says that the invariant of an
  object depends only on its control block, its queues and the tasks waiting there.
\<close>

definition tview :: "tcb \<Rightarrow> wspec \<times> winfo \<times> nat" where
  "tview T = (wspec T, winfo T, priority T)"

definition pri_sorted :: "kstate \<Rightarrow> qhd \<Rightarrow> bool" where
  "pri_sorted s h \<longleftrightarrow> sorted (map (\<lambda>t. priority (tcb s t)) (que s h))"

lemma pri_sorted_keep:
  assumes "pri_sorted s h" "que s' h = que s h" "\<And>t. t \<in> set (que s h) \<Longrightarrow> tview (tcb s' t) = tview (tcb s t)"
  shows "pri_sorted s' h"
  using assms(1) unfolding pri_sorted_def assms(2)
  by (rule sorted_map_keep) (use assms(3) in \<open>simp add: tview_def\<close>)

lemma pri_sorted_filter:
  assumes "pri_sorted s h" "que s' h = filter P (que s h)" "\<And>t. tview (tcb s' t) = tview (tcb s t)"
  shows "pri_sorted s' h"
  using sorted_filter[of "\<lambda>t. priority (tcb s t)" "que s h" P] assms
  by (simp add: pri_sorted_def tview_def)

lemma pri_sorted_insert:
  assumes "pri_sorted s h" "que s' h = insert_before (\<lambda>u. priority (tcb s u) > priority (tcb s t)) t (que s h)"
    "\<And>u. priority (tcb s' u) = priority (tcb s u)"
  shows "pri_sorted s' h"
  using sorted_tpri[of "tcb s" "que s h" t] assms by (simp add: pri_sorted_def)

definition table_ok :: "nat \<Rightarrow> (nat \<Rightarrow> int) \<Rightarrow> nat list \<Rightarrow> (nat \<Rightarrow> qhd set) \<Rightarrow> queues \<Rightarrow> bool" where
  "table_ok n ids fr rings Q \<longleftrightarrow> distinct fr \<and> (\<forall>i. i \<in> set fr \<longleftrightarrow> i < n \<and> ids i = 0) \<and>
     (\<forall>i<n. ids i = 0 \<or> ids i = int i + 1) \<and> (\<forall>i. \<forall>h \<in> rings i. Q h \<noteq> [] \<longrightarrow> i < n \<and> ids i \<noteq> 0)"

lemma table_okD:
  assumes "table_ok n ids fr rings Q"
  shows "i < n \<Longrightarrow> ids i \<noteq> 0 \<Longrightarrow> ids i = int i + 1" "h \<in> rings i \<Longrightarrow> Q h \<noteq> [] \<Longrightarrow> i < n \<and> ids i \<noteq> 0"
    "i \<in> set fr \<Longrightarrow> i < n \<and> ids i = 0" "distinct fr"
  using assms unfolding table_ok_def by blast+

lemma table_ok_cong:
  assumes "table_ok n ids fr rings Q" "\<And>i. i < n \<Longrightarrow> ids' i = ids i" "fr' = fr"
    "\<And>i h. h \<in> rings i \<Longrightarrow> Q' h \<noteq> [] \<Longrightarrow> Q h \<noteq> [] \<or> i < n \<and> ids i \<noteq> 0"
  shows "table_ok n ids' fr' rings Q'"
  using assms unfolding table_ok_def by (metis (no_types, lifting))

lemma table_ok_alloc:
  assumes "table_ok n ids (i # rest) rings Q" "ids' i = int i + 1" "\<And>j. j \<noteq> i \<Longrightarrow> ids' j = ids j"
  shows "table_ok n ids' rest rings Q" "i < n" "h \<in> rings i \<Longrightarrow> Q h = []"
proof -
  show *: "i < n" and e: "h \<in> rings i \<Longrightarrow> Q h = []" for h
    using assms(1) unfolding table_ok_def by auto
  show "table_ok n ids' rest rings Q"
    using assms * e unfolding table_ok_def
    by (intro conjI allI impI ballI; (metis distinct.simps(2) list.set_intros(1,2) set_ConsD add_pos_nonneg
        of_nat_0_le_iff zero_less_one less_irrefl add.commute)?)
qed

lemma table_ok_release:
  assumes "table_ok n ids fr rings Q" "i < n" "ids i \<noteq> 0" "ids' i = 0" "\<And>j. j \<noteq> i \<Longrightarrow> ids' j = ids j"
    "\<And>h. h \<in> rings i \<Longrightarrow> Q' h = []" "\<And>j h. j \<noteq> i \<Longrightarrow> h \<in> rings j \<Longrightarrow> Q' h = Q h"
  shows "table_ok n ids' (fr @ [i]) rings Q'"
  unfolding table_ok_def
proof (intro conjI allI impI ballI)
  show "distinct (fr @ [i])" using assms(1,3) by (auto simp: table_ok_def)
  show "j \<in> set (fr @ [i]) \<longleftrightarrow> j < n \<and> ids' j = 0" for j
    using assms(1,2,4) assms(5)[of j] by (cases "j = i") (auto simp: table_ok_def)
  show "ids' j = 0 \<or> ids' j = int j + 1" if "j < n" for j
    using assms(1,4) assms(5)[of j] that by (cases "j = i") (auto simp: table_ok_def)
  show "j < n" "ids' j \<noteq> 0" if "h \<in> rings j" "Q' h \<noteq> []" for j h
    using assms(1,2) assms(5)[of j] assms(6)[of h] assms(7)[of j h] that
    by (cases "j = i"; force simp: table_ok_def)+
qed

text \<open>
  A release of a waiting task as one step of a loop; \<open>s0\<close> and \<open>s1\<close> are the states before and after the
  release, which differ from the loop's by changes of control blocks and memory.
\<close>

lemma rel_eff_ring_step:
  assumes k: "kwf s" and t: "t \<in> set (que s h)" and h: "\<And>p. h \<noteq> RdyQ p" "h \<noteq> FreeTcb" "\<And>k. h \<noteq> LockQ k"
    and R: "t \<notin> set R" "rel_eff R e s1 s'"
    and s0: "tcb s0 = tcb s" "que s0 = que s" "ercd s0 = ercd s" "tmr s0 = tmr s" "fault s0 = fault s"
      "ctxtsk (smp s0) = ctxtsk (smp s)"
    and s1: "tcb s1 = tcb (knl_wait_release_ok_ercd c t (e t) s0)"
      "que s1 = que (knl_wait_release_ok_ercd c t (e t) s0)"
      "ercd s1 = ercd (knl_wait_release_ok_ercd c t (e t) s0)"
      "tmr s1 = tmr (knl_wait_release_ok_ercd c t (e t) s0)"
      "fault s1 = fault (knl_wait_release_ok_ercd c t (e t) s0)"
      "ctxtsk (smp s1) = ctxtsk (smp (knl_wait_release_ok_ercd c t (e t) s0))"
  shows "rel_eff (t # R) e s s'"
proof -
  note w = ring_waiting[OF k t h]
  have w0: "wercd (tcb s0 t) = Some t" using w(4) by (simp add: s0)
  show ?thesis
    by (rule rel_eff_step[OF k w(1,2) R, of c])
      (simp_all add: s1 s0 wait_release_ok_ercd_val[OF w(4)] wait_release_ok_ercd_val[OF w0])
qed

lemma kwf_ring_release:
  assumes "kwf s" "t \<in> set (que s h)" "\<And>p. h \<noteq> RdyQ p" "h \<noteq> FreeTcb" "\<And>k. h \<noteq> LockQ k"
  shows "kwf (knl_wait_release_ok_ercd c t e s)" "kwf (knl_wait_release_ok c t s)"
  using kwf_wait_release_ok[OF assms(1) ring_waiting(1,2)[OF assms]] by auto

lemma not_in_other_ring:
  "kwf s \<Longrightarrow> t \<in> set (que s h) \<Longrightarrow> h' \<noteq> h \<Longrightarrow> t \<notin> set (que s h')"
  using loc_okD(4)[OF kwfD(1)] by blast

lemma distinct_ring: "kwf s \<Longrightarrow> distinct (que s h)"
  using loc_okD(1)[OF kwfD(1)] by blast

definition obj_inv where
  "obj_inv num oid freeq rings good s \<longleftrightarrow>
     table_ok num (oid s) (freeq s) rings (que s) \<and> (\<forall>i<num. oid s i \<noteq> 0 \<longrightarrow> good s i)"

definition obj_inv_but where
  "obj_inv_but k num oid freeq rings good s \<longleftrightarrow>
     table_ok num (oid s) (freeq s) rings (que s) \<and> (\<forall>i<num. i \<noteq> k \<longrightarrow> oid s i \<noteq> 0 \<longrightarrow> good s i)"

locale wait_object =
  fixes num :: nat
    and oid :: "kstate \<Rightarrow> nat \<Rightarrow> int"
    and freeq :: "kstate \<Rightarrow> nat list"
    and rings :: "nat \<Rightarrow> qhd set"
    and cb :: "kstate \<Rightarrow> nat \<Rightarrow> 'cb"
    and good :: "kstate \<Rightarrow> nat \<Rightarrow> bool"
  assumes oid_cb: "cb s' i = cb s i \<Longrightarrow> oid s' i = oid s i"
    and good_local: "good s i \<Longrightarrow> cb s' i = cb s i \<Longrightarrow> (\<And>h. h \<in> rings i \<Longrightarrow> que s' h = que s h) \<Longrightarrow>
      (\<And>h t. h \<in> rings i \<Longrightarrow> t \<in> set (que s h) \<Longrightarrow> tview (tcb s' t) = tview (tcb s t)) \<Longrightarrow> good s' i"
begin

abbreviation inv :: "kstate \<Rightarrow> bool" where "inv \<equiv> obj_inv num oid freeq rings good"
abbreviation inv_but :: "nat \<Rightarrow> kstate \<Rightarrow> bool" where "inv_but k \<equiv> obj_inv_but k num oid freeq rings good"

text \<open>The part of the state that concerns one object of the kind.\<close>

definition same :: "kstate \<Rightarrow> kstate \<Rightarrow> nat \<Rightarrow> bool" where
  "same s s' i \<longleftrightarrow> cb s' i = cb s i \<and>
     (\<forall>h \<in> rings i. que s' h = que s h \<and> (\<forall>t \<in> set (que s h). tview (tcb s' t) = tview (tcb s t)))"

lemma sameD: "same s s' i \<Longrightarrow> oid s' i = oid s i" "same s s' i \<Longrightarrow> good s i \<Longrightarrow> good s' i"
  using oid_cb[of s' i s] good_local[of s i s'] by (auto simp: same_def)

lemma inv_but: "inv s \<Longrightarrow> inv_but k s"
  by (simp add: obj_inv_def obj_inv_but_def)

lemma inv_good: "inv s \<Longrightarrow> i < num \<Longrightarrow> oid s i \<noteq> 0 \<Longrightarrow> good s i"
  by (simp add: obj_inv_def)

lemma inv_oid: "inv s \<Longrightarrow> i < num \<Longrightarrow> oid s i \<noteq> 0 \<Longrightarrow> oid s i = int i + 1"
  unfolding obj_inv_def using table_okD(1) by blast

lemma inv_ring: "inv s \<Longrightarrow> h \<in> rings i \<Longrightarrow> que s h \<noteq> [] \<Longrightarrow> i < num \<and> oid s i \<noteq> 0"
  unfolding obj_inv_def using table_okD(2) by blast

text \<open>An operation on other kinds of objects.\<close>

lemma inv_keep:
  assumes "inv s" "\<And>i. same s s' i" "freeq s' = freeq s"
  shows "inv s'"
  unfolding obj_inv_def
proof (intro conjI allI impI)
  have oid: "oid s' i = oid s i" for i by (rule sameD(1)[OF assms(2)])
  show "table_ok num (oid s') (freeq s') rings (que s')"
  proof (rule table_ok_cong)
    show "table_ok num (oid s) (freeq s) rings (que s)" using assms(1) by (simp add: obj_inv_def)
    show "que s h \<noteq> [] \<or> i < num \<and> oid s i \<noteq> 0" if "h \<in> rings i" "que s' h \<noteq> []" for i h
      using that assms(2)[of i] by (auto simp: same_def)
  qed (use oid assms(3) in auto)
  show "good s' i" if "i < num" "oid s' i \<noteq> 0" for i
    using that assms(1) oid[of i] sameD(2)[OF assms(2)] by (simp add: obj_inv_def)
qed

text \<open>An operation on object \<open>i\<close>.\<close>

lemma inv_upd:
  assumes "inv_but i s" "i < num" "oid s i \<noteq> 0" "oid s' i = oid s i" "freeq s' = freeq s"
    and "\<And>j. j \<noteq> i \<Longrightarrow> same s s' j" and "good s' i"
  shows "inv s'"
  unfolding obj_inv_def
proof (intro conjI allI impI)
  have oid: "oid s' j = oid s j" for j using sameD(1)[OF assms(6)] assms(4) by (cases "j = i") auto
  show "table_ok num (oid s') (freeq s') rings (que s')"
  proof (rule table_ok_cong)
    show "table_ok num (oid s) (freeq s) rings (que s)" using assms(1) by (simp add: obj_inv_but_def)
    show "que s h \<noteq> [] \<or> j < num \<and> oid s j \<noteq> 0" if "h \<in> rings j" "que s' h \<noteq> []" for j h
      using that assms(2,3,6) by (cases "j = i") (auto simp: same_def)
  qed (use oid assms(5) in auto)
  show "good s' j" if "j < num" "oid s' j \<noteq> 0" for j
    using that assms(1,7) sameD(2)[OF assms(6)] oid by (cases "j = i") (auto simp: obj_inv_but_def)
qed

lemma inv_alloc:
  assumes "inv s" "freeq s = i # rest" "freeq s' = rest" "oid s' i = int i + 1"
    and "\<And>j. j \<noteq> i \<Longrightarrow> cb s' j = cb s j" "que s' = que s" "tcb s' = tcb s"
    and "(\<And>h. h \<in> rings i \<Longrightarrow> que s h = []) \<Longrightarrow> good s' i"
  shows "inv s'"
proof -
  have same: "same s s' j" if "j \<noteq> i" for j using assms(5)[OF that] assms(6,7) by (simp add: same_def)
  have t: "table_ok num (oid s) (i # rest) rings (que s)" using assms(1,2) by (simp add: obj_inv_def)
  note a = table_ok_alloc[OF t, of "oid s'", OF assms(4) sameD(1)[OF same]]
  have "good s' j" if "j < num" "oid s' j \<noteq> 0" for j
    using that assms(1,8) a(3) sameD[OF same, of j] by (cases "j = i") (auto simp: obj_inv_def)
  then show ?thesis using a(1) by (simp add: obj_inv_def assms(3,6))
qed

lemma inv_release:
  assumes "inv s" "i < num" "oid s i \<noteq> 0" "freeq s' = freeq s @ [i]" "oid s' i = 0"
    and "\<And>j. j \<noteq> i \<Longrightarrow> same s s' j" "\<And>h. h \<in> rings i \<Longrightarrow> que s' h = []"
  shows "inv s'"
  unfolding obj_inv_def
proof (intro conjI allI impI)
  have t: "table_ok num (oid s) (freeq s) rings (que s)" using assms(1) by (simp add: obj_inv_def)
  show "table_ok num (oid s') (freeq s') rings (que s')"
    unfolding assms(4)
    by (rule table_ok_release[OF t assms(2,3)])
      (use assms(5,7) sameD(1)[OF assms(6)] assms(6) in \<open>auto simp: same_def\<close>)
  show "good s' j" if "j < num" "oid s' j \<noteq> 0" for j
    using that assms(1,5) sameD[OF assms(6), of j] by (cases "j = i") (auto simp: obj_inv_def)
qed

lemma inv_init:
  assumes "freeq s = [0..<num]" "\<And>i. i < num \<Longrightarrow> oid s i = 0" "\<And>i h. h \<in> rings i \<Longrightarrow> que s h = []"
  shows "inv s"
  using assms by (auto simp: obj_inv_def table_ok_def)

text \<open>The two frames of a release and of a wait: both keep what the other waiting tasks show.\<close>

lemma same_released:
  assumes "rel_eff R e s s'" "kwf s" "set R \<subseteq> set (que s h)" "h \<notin> rings j" "\<And>h p. h \<in> rings j \<Longrightarrow> h \<noteq> RdyQ p"
    "cb s' j = cb s j"
  shows "same s s' j"
  unfolding same_def
proof (intro conjI ballI)
  show "que s' h' = que s h'" if "h' \<in> rings j" for h'
    by (rule rel_eff_other[OF assms(1-3)]) (use that assms(4,5) in auto)
  show "tview (tcb s' t) = tview (tcb s t)" for t
    using rel_eff_state(7-9)[OF assms(1)] by (simp add: tview_def)
qed (rule assms(6))

lemma same_wait:
  assumes "cb s' j = cb s j" "\<And>h. h \<in> rings j \<Longrightarrow> que s' h = que s h" "\<And>h. h \<in> rings j \<Longrightarrow> t \<notin> set (que s h)"
    "\<And>u. u \<noteq> t \<Longrightarrow> tcb s' u = tcb s u"
  shows "same s s' j"
  using assms unfolding same_def by metis

end

end
