(* ===== verification/Semaphore.thy ===== *)
theory Semaphore
  imports Sched_Inv Example_State
begin

text \<open>
  \<^verbatim>\<open>kernel/tkernel/semaphore.c\<close>. Control block \<open>i\<close> is the semaphore with the ID \<open>i + 1\<close>, its wait queue
  is the ring \<open>SemQ i\<close>.
\<close>

subsection \<open>Operations\<close>

abbreviation (input) TA_CNT :: UW where "TA_CNT \<equiv> 2"

definition CHK_SEMID :: "int \<Rightarrow> bool" where
  "CHK_SEMID x \<longleftrightarrow> 1 \<le> x \<and> x \<le> int NUM_SEMID"

definition get_semcb :: "int \<Rightarrow> nat" where "get_semcb x = nat (x - 1)"

definition upd_sem :: "nat \<Rightarrow> (semcb \<Rightarrow> semcb) \<Rightarrow> kstate \<Rightarrow> kstate" where
  "upd_sem i f s = s\<lparr>sem := (sem s)(i := f (sem s i))\<rparr>"

definition knl_semaphore_initialize :: "kstate \<Rightarrow> kstate" where
  "knl_semaphore_initialize s =
     fold (\<lambda>i s. let s = upd_sem i (semid_update (\<lambda>_. 0)) s in s\<lparr>free_sem := free_sem s @ [i]\<rparr>)
       [0..<NUM_SEMID] (s\<lparr>free_sem := []\<rparr>)"

record t_csem =
  cs_exinf :: UW
  cs_sematr :: UW
  cs_isemcnt :: int
  cs_maxsem :: int

definition tk_cre_sem :: "nat \<Rightarrow> t_csem \<Rightarrow> kstate \<Rightarrow> kstate \<times> int" where
  "tk_cre_sem c pk s =
     (if cs_sematr pk AND NOT (TA_TPRI OR TA_CNT) \<noteq> 0 then (s, E_RSATR)
      else if \<not> cs_isemcnt pk \<ge> 0 then (s, E_PAR)
      else if \<not> cs_maxsem pk > 0 then (s, E_PAR)
      else if \<not> cs_maxsem pk \<ge> cs_isemcnt pk then (s, E_PAR)
      else
        let (s, ercd) =
          (case free_sem s of
             [] \<Rightarrow> (s, E_LIMIT)
           | i # rest \<Rightarrow>
               (upd_sem i (\<lambda>_. \<lparr>semid = int i + 1, sem_exinf = cs_exinf pk, sematr = cs_sematr pk,
                                semcnt = cs_isemcnt pk, maxsem = cs_maxsem pk\<rparr>)
                  (upd_que (\<lambda>Q. Q(SemQ i := [])) (s\<lparr>free_sem := rest\<rparr>)), int i + 1))
        in (END_CRITICAL_SECTION c s, ercd))"

definition tk_del_sem :: "nat \<Rightarrow> int \<Rightarrow> kstate \<Rightarrow> kstate \<times> int" where
  "tk_del_sem c xid s =
     (if \<not> CHK_SEMID xid then (s, E_ID)
      else
        let i = get_semcb xid;
            (s, ercd) =
              (if semid (sem s i) = 0 then (s, E_NOEXS)
               else let s = knl_wait_delete c (SemQ i) s;
                        s = s\<lparr>free_sem := free_sem s @ [i]\<rparr>
                    in (upd_sem i (semid_update (\<lambda>_. 0)) s, E_OK))
        in (END_CRITICAL_SECTION c s, ercd))"

text \<open>
  The release loop of \<open>tk_sig_sem\<close>. The code fetches the next link before it releases a task, so the
  loop runs over the queue as it was at its start.
\<close>

fun sig_sem_loop :: "nat \<Rightarrow> nat \<Rightarrow> nat list \<Rightarrow> kstate \<Rightarrow> kstate" where
  "sig_sem_loop c i [] s = s"
| "sig_sem_loop c i (t # q) s =
     (if semcnt (sem s i) < sem_cnt (winfo (tcb s t))
      then if sematr (sem s i) AND TA_CNT = 0 then s else sig_sem_loop c i q s
      else let s = knl_wait_release_ok c t s;
               s = upd_sem i (\<lambda>S. S\<lparr>semcnt := semcnt S - sem_cnt (winfo (tcb s t))\<rparr>) s
           in if semcnt (sem s i) \<le> 0 then s else sig_sem_loop c i q s)"

definition tk_sig_sem :: "nat \<Rightarrow> int \<Rightarrow> int \<Rightarrow> kstate \<Rightarrow> kstate \<times> int" where
  "tk_sig_sem c xid cnt s =
     (if \<not> CHK_SEMID xid then (s, E_ID)
      else if \<not> cnt > 0 then (s, E_PAR)
      else
        let i = get_semcb xid;
            (s, ercd) =
              (if semid (sem s i) = 0 then (s, E_NOEXS)
               else if cnt > maxsem (sem s i) - semcnt (sem s i) then (s, E_QOVR)
               else let s = upd_sem i (\<lambda>S. S\<lparr>semcnt := semcnt S + cnt\<rparr>) s
                    in (sig_sem_loop c i (que s (SemQ i)) s, E_OK))
        in (END_CRITICAL_SECTION c s, ercd))"

fun sem_chg_loop :: "nat \<Rightarrow> nat \<Rightarrow> nat list \<Rightarrow> kstate \<Rightarrow> kstate" where
  "sem_chg_loop c i [] s = s"
| "sem_chg_loop c i (t # q) s =
     (if semcnt (sem s i) < sem_cnt (winfo (tcb s t)) then s
      else let s = knl_wait_release_ok c t s
           in sem_chg_loop c i q
                (upd_sem i (\<lambda>S. S\<lparr>semcnt := semcnt S - sem_cnt (winfo (tcb s t))\<rparr>) s))"

definition sem_chg_pri :: "nat \<Rightarrow> nat \<Rightarrow> int \<Rightarrow> kstate \<Rightarrow> kstate" where
  "sem_chg_pri c t oldpri s =
     (let i = get_semcb (wid (tcb s t));
          s = (if oldpri \<ge> 0 then knl_gcb_change_priority (SemQ i) t s else s)
      in if sematr (sem s i) AND TA_CNT \<noteq> 0 then s
         else sem_chg_loop c i (que s (SemQ i)) s)"

definition sem_rel_wai :: "nat \<Rightarrow> nat \<Rightarrow> kstate \<Rightarrow> kstate" where
  "sem_rel_wai c t s = sem_chg_pri c t (- 1) s"

definition wai_sem_cs :: "nat \<Rightarrow> nat \<Rightarrow> int \<Rightarrow> int \<Rightarrow> kstate \<Rightarrow> kstate \<times> sysret" where
  "wai_sem_cs c i cnt tmout s =
     (let t = cur c s; S = sem s i
      in if semid S = 0 then (s, Ret E_NOEXS)
         else if cnt > maxsem S then (s, Ret E_PAR)
         else if (sematr S AND TA_CNT \<noteq> 0 \<or> knl_gcb_top_of_wait_queue (SemQ i) (sematr S) t s = t)
                 \<and> semcnt S \<ge> cnt
         then (upd_sem i (\<lambda>S. S\<lparr>semcnt := semcnt S - cnt\<rparr>) s, Ret E_OK)
         else let s = upd_tcb t (\<lambda>T. T\<lparr>
                        wspec := (if sematr S AND TA_TPRI \<noteq> 0 then Wspec_sem_tpri else Wspec_sem_tfifo),
                        wercd := Some t, winfo := (winfo T)\<lparr>sem_cnt := cnt\<rparr>\<rparr>) s;
                  s = knl_gcb_make_wait c (SemQ i) (semid S) (sematr S) tmout s
              in (s, if tmout = TMO_POL then Ret (ercd s t) else Blocked))"

definition tk_wai_sem :: "nat \<Rightarrow> int \<Rightarrow> int \<Rightarrow> int \<Rightarrow> kstate \<Rightarrow> kstate \<times> sysret" where
  "tk_wai_sem c xid cnt tmout s =
     (if \<not> CHK_SEMID xid then (s, Ret E_ID)
      else if \<not> cnt > 0 then (s, Ret E_PAR)
      else if \<not> tmout \<ge> TMO_FEVR then (s, Ret E_PAR)
      else if in_ddsp c s then (s, Ret E_CTX)
      else let (s, r) = wai_sem_cs c (get_semcb xid) cnt tmout s
           in (END_CRITICAL_SECTION c s, r))"

record t_rsem =
  rs_exinf :: UW
  rs_wtsk :: int
  rs_semcnt :: int

definition tk_ref_sem :: "nat \<Rightarrow> int \<Rightarrow> kstate \<Rightarrow> kstate \<times> int \<times> t_rsem option" where
  "tk_ref_sem c xid s =
     (if \<not> CHK_SEMID xid then (s, E_ID, None)
      else
        let i = get_semcb xid; S = sem s i
        in if semid S = 0 then (END_CRITICAL_SECTION c s, E_NOEXS, None)
           else (END_CRITICAL_SECTION c s, E_OK,
                 Some \<lparr>rs_exinf = sem_exinf S, rs_wtsk = knl_wait_tskid (SemQ i) s, rs_semcnt = semcnt S\<rparr>))"

subsection \<open>The invariant\<close>

text \<open>
  \<open>sem_free\<close>: the free queue holds exactly the unregistered control blocks, and nobody waits there.
  \<open>sem_ok\<close>: the count stays in its bounds, every waiter asks for an amount the semaphore can give, and
  the queue of a \<open>TA_TPRI\<close> semaphore is in priority order. \<open>sem_stable\<close>: nobody who could be served
  is left waiting.
\<close>

abbreviation need :: "kstate \<Rightarrow> nat \<Rightarrow> int" where
  "need s t \<equiv> sem_cnt (winfo (tcb s t))"

definition sem_free :: "kstate \<Rightarrow> bool" where
  "sem_free s \<longleftrightarrow> distinct (free_sem s) \<and>
     (\<forall>i. i \<in> set (free_sem s) \<longleftrightarrow> i < NUM_SEMID \<and> semid (sem s i) = 0) \<and>
     (\<forall>i<NUM_SEMID. semid (sem s i) = 0 \<or> semid (sem s i) = int i + 1) \<and>
     (\<forall>i. que s (SemQ i) \<noteq> [] \<longrightarrow> i < NUM_SEMID \<and> semid (sem s i) \<noteq> 0)"

definition sem_ok :: "kstate \<Rightarrow> nat \<Rightarrow> bool" where
  "sem_ok s i \<longleftrightarrow> 0 \<le> semcnt (sem s i) \<and> semcnt (sem s i) \<le> maxsem (sem s i) \<and>
     (\<forall>t \<in> set (que s (SemQ i)). 0 < need s t \<and> need s t \<le> maxsem (sem s i)) \<and>
     (sematr (sem s i) AND TA_TPRI \<noteq> 0 \<longrightarrow>
        sorted (map (\<lambda>t. priority (tcb s t)) (que s (SemQ i))) \<and>
        (\<forall>t \<in> set (que s (SemQ i)). wspec (tcb s t) = Wspec_sem_tpri))"

definition sem_stable :: "kstate \<Rightarrow> nat \<Rightarrow> bool" where
  "sem_stable s i \<longleftrightarrow>
     (if sematr (sem s i) AND TA_CNT \<noteq> 0
      then \<forall>t \<in> set (que s (SemQ i)). semcnt (sem s i) < need s t
      else que s (SemQ i) = [] \<or> semcnt (sem s i) < need s (hd (que s (SemQ i))))"

definition sem_inv :: "kstate \<Rightarrow> bool" where
  "sem_inv s \<longleftrightarrow> sem_free s \<and>
     (\<forall>i<NUM_SEMID. semid (sem s i) \<noteq> 0 \<longrightarrow> sem_ok s i \<and> sem_stable s i)"

text \<open>The invariant of all the other semaphores, while one is being changed.\<close>

definition sem_inv_but :: "nat \<Rightarrow> kstate \<Rightarrow> bool" where
  "sem_inv_but i s \<longleftrightarrow> sem_free s \<and>
     (\<forall>j<NUM_SEMID. j \<noteq> i \<longrightarrow> semid (sem s j) \<noteq> 0 \<longrightarrow> sem_ok s j \<and> sem_stable s j)"

lemma sem_inv_but: "sem_inv s \<Longrightarrow> sem_inv_but i s"
  by (simp add: sem_inv_def sem_inv_but_def)

subsection \<open>The abstract grant\<close>

text \<open>
  What the loops promise, on the list of the waiting tasks: along the queue, tasks whose need fits
  into the rest of the count are granted; without \<open>TA_CNT\<close> the first that does not fit ends it.
\<close>

fun grant :: "bool \<Rightarrow> (nat \<Rightarrow> int) \<Rightarrow> int \<Rightarrow> nat list \<Rightarrow> nat list \<times> int" where
  "grant cnt nd n [] = ([], n)"
| "grant cnt nd n (t # q) =
     (if n < nd t then (if cnt then grant cnt nd n q else ([], n))
      else let (R, m) = grant cnt nd (n - nd t) q in (t # R, m))"

lemma grant_none: "n \<le> 0 \<Longrightarrow> (\<forall>t \<in> set q. 0 < nd t) \<Longrightarrow> grant cnt nd n q = ([], n)"
  by (induction q) auto

lemma grant_sub: "set (fst (grant cnt nd n q)) \<subseteq> set q"
  by (induction cnt nd n q rule: grant.induct) (auto split: prod.splits)

lemma grant_sum: "snd (grant cnt nd n q) = n - sum_list (map nd (fst (grant cnt nd n q)))"
  by (induction cnt nd n q rule: grant.induct) (auto split: prod.splits)

lemma grant_bounds:
  "0 \<le> n \<Longrightarrow> (\<forall>t \<in> set q. 0 < nd t) \<Longrightarrow> 0 \<le> snd (grant cnt nd n q) \<and> snd (grant cnt nd n q) \<le> n"
proof (induction cnt nd n q rule: grant.induct)
  case (2 cnt nd n t q)
  obtain R m where g: "grant cnt nd (n - nd t) q = (R, m)" by fastforce
  have "0 < nd t" using 2(4) by simp
  then show ?case using 2 g by (cases "n < nd t"; cases cnt) auto
qed simp

lemma grant_distinct: "distinct q \<Longrightarrow> distinct (fst (grant cnt nd n q))"
proof (induction cnt nd n q rule: grant.induct)
  case (2 cnt nd n t q)
  then show ?case using grant_sub[of cnt nd "n - nd t" q] by (auto split: prod.splits)
qed simp

lemma grant_stable_cnt:
  assumes "\<forall>t \<in> set q. 0 < nd t" "0 \<le> n" "t \<in> set q" "t \<notin> set (fst (grant True nd n q))"
  shows "snd (grant True nd n q) < nd t"
  using assms
proof (induction True nd n q rule: grant.induct)
  case (2 nd n u q)
  show ?case
  proof (cases "n < nd u")
    case True
    then show ?thesis using 2 grant_bounds[of n q nd True] by auto
  next
    case False
    then show ?thesis using 2 by (auto split: prod.splits)
  qed
qed simp

lemma grant_stable_fifo:
  "\<exists>rest. q = fst (grant False nd n q) @ rest \<and> (rest = [] \<or> snd (grant False nd n q) < nd (hd rest))"
proof (induction False nd n q rule: grant.induct)
  case (2 nd n u q)
  show ?case
  proof (cases "n < nd u")
    case True
    then show ?thesis by (intro exI[of _ "u # q"]) simp
  next
    case False
    then show ?thesis using 2 by (auto split: prod.splits)
  qed
qed simp

subsection \<open>The loops implement the grant\<close>

lemma upd_sem_sel [simp]:
  "tcb (upd_sem i f s) = tcb s" "que (upd_sem i f s) = que s" "rq (upd_sem i f s) = rq s"
  "smp (upd_sem i f s) = smp s" "tmr (upd_sem i f s) = tmr s" "ercd (upd_sem i f s) = ercd s"
  "fault (upd_sem i f s) = fault s" "free_sem (upd_sem i f s) = free_sem s"
  "sem (upd_sem i f s) = (sem s)(i := f (sem s i))" "kwf (upd_sem i f s) = kwf s"
  by (simp_all add: upd_sem_def)

lemma rel_eff_upd_sem: "rel_eff R e (upd_sem i f s) s' \<longleftrightarrow> rel_eff R e s s'"
  by (simp add: rel_eff_def cong: if_cong)

text \<open>One pass of either loop: a release and the charge on the count.\<close>

lemma sem_release_step:
  fixes s t i q c
  assumes k: "kwf s" and t: "t \<in> set (que s (SemQ i))" "t \<notin> set q" "set q \<subseteq> set (que s (SemQ i))"
  defines "s1 \<equiv> upd_sem i (\<lambda>S. S\<lparr>semcnt := semcnt S - need s t\<rparr>) (knl_wait_release_ok c t s)"
  shows "kwf s1" "set q \<subseteq> set (que s1 (SemQ i))" "need s1 u = need s u"
    "sem s1 = (sem s)(i := (sem s i)\<lparr>semcnt := semcnt (sem s i) - need s t\<rparr>)"
    "free_sem s1 = free_sem s"
    "t \<notin> set R \<Longrightarrow> rel_eff R (\<lambda>_. 0) s1 s' \<Longrightarrow> rel_eff (t # R) (\<lambda>_. 0) s s'"
proof -
  note w = ring_waiting[OF k t(1), simplified]
  show "kwf s1" using kwf_wait_release_ok(2)[OF k w(1)] w(2) by (simp add: s1_def)
  show "set q \<subseteq> set (que s1 (SemQ i))"
    using t loc_okD(1)[OF kwfD(1)[OF k], of "SemQ i"] by (auto simp: s1_def q_release_other)
  show "need s1 u = need s u" by (simp add: s1_def)
  show "sem s1 = (sem s)(i := (sem s i)\<lparr>semcnt := semcnt (sem s i) - need s t\<rparr>)"
    "free_sem s1 = free_sem s" by (simp_all add: s1_def)
  show "rel_eff (t # R) (\<lambda>_. 0) s s'" if "t \<notin> set R" "rel_eff R (\<lambda>_. 0) s1 s'"
    using rel_eff_step[OF k w(1) _ that(1), of "\<lambda>_. 0" s1 s' c] that(2) w(2)
    by (simp add: s1_def wait_release_ok_eq)
qed

lemma sig_sem_loop_grant:
  assumes "kwf s" "set q \<subseteq> set (que s (SemQ i))" "distinct q" "\<forall>t \<in> set q. 0 < need s t"
    and "(R, n) = grant (sematr (sem s i) AND TA_CNT \<noteq> 0) (need s) (semcnt (sem s i)) q"
  shows "rel_eff R (\<lambda>_. 0) s (sig_sem_loop c i q s) \<and>
    sem (sig_sem_loop c i q s) = (sem s)(i := (sem s i)\<lparr>semcnt := n\<rparr>) \<and>
    free_sem (sig_sem_loop c i q s) = free_sem s"
  using assms
proof (induction q arbitrary: s R n)
  case Nil
  then show ?case by (simp add: rel_eff_refl)
next
  case (Cons t q)
  let ?cnt = "sematr (sem s i) AND TA_CNT \<noteq> 0"
  show ?case
  proof (cases "semcnt (sem s i) < need s t")
    case True
    then show ?thesis using Cons by (auto simp: rel_eff_refl)
  next
    case False
    let ?s = "upd_sem i (\<lambda>S. S\<lparr>semcnt := semcnt S - need s t\<rparr>) (knl_wait_release_ok c t s)"
    obtain R' m where g: "grant ?cnt (need s) (semcnt (sem s i) - need s t) q = (R', m)" by fastforce
    then have R: "R = t # R'" "n = m" using Cons.prems(5) False by auto
    note st = sem_release_step[OF Cons.prems(1), where c = c and i = i and q = q and t = t]
    have t: "t \<in> set (que s (SemQ i))" "t \<notin> set q" "set q \<subseteq> set (que s (SemQ i))"
      using Cons.prems(2,3) by auto
    have tR: "t \<notin> set R'" using grant_sub[of ?cnt "need s" "semcnt (sem s i) - need s t" q] g t by auto
    have nd: "need ?s = need s" by (simp add: fun_eq_iff)
    let ?r = "if semcnt (sem ?s i) \<le> 0 then ?s else sig_sem_loop c i q ?s"
    have up: "(sem ?s)(i := (sem ?s i)\<lparr>semcnt := m\<rparr>) = (sem s)(i := (sem s i)\<lparr>semcnt := m\<rparr>)"
      by (rule ext) simp
    have "rel_eff R' (\<lambda>_. 0) ?s ?r \<and> sem ?r = (sem ?s)(i := (sem ?s i)\<lparr>semcnt := m\<rparr>) \<and>
      free_sem ?r = free_sem ?s"
    proof (cases "semcnt (sem ?s i) \<le> 0")
      case True
      then have "R' = []" "m = semcnt (sem s i) - need s t"
        using grant_none[of _ q "need s" ?cnt] g Cons.prems(4) by auto
      then show ?thesis using True st(1)[OF t] by (simp add: rel_eff_refl)
    next
      case False
      have "(R', m) = grant (sematr (sem ?s i) AND TA_CNT \<noteq> 0) (need ?s) (semcnt (sem ?s i)) q"
        using g nd by simp
      then show ?thesis
        using Cons.IH[OF st(1)[OF t] st(2)[OF t]] Cons.prems(3,4) False nd
        by simp (rule ext, simp)
    qed
    moreover have "sig_sem_loop c i (t # q) s = ?r"
      using False
      by (simp only: sig_sem_loop.simps Let_def if_False wait_release_ok_sel fun_upd_same released_sel)
    ultimately show ?thesis using st(5)[OF t] st(6)[OF t tR] R up by simp
  qed
qed

lemma sem_chg_loop_grant:
  assumes "kwf s" "set q \<subseteq> set (que s (SemQ i))" "distinct q"
    and "(R, n) = grant False (need s) (semcnt (sem s i)) q"
  shows "rel_eff R (\<lambda>_. 0) s (sem_chg_loop c i q s) \<and>
    sem (sem_chg_loop c i q s) = (sem s)(i := (sem s i)\<lparr>semcnt := n\<rparr>) \<and>
    free_sem (sem_chg_loop c i q s) = free_sem s"
  using assms
proof (induction q arbitrary: s R n)
  case Nil
  then show ?case by (simp add: rel_eff_refl)
next
  case (Cons t q)
  show ?case
  proof (cases "semcnt (sem s i) < need s t")
    case True
    then show ?thesis using Cons by (auto simp: rel_eff_refl)
  next
    case False
    let ?s = "upd_sem i (\<lambda>S. S\<lparr>semcnt := semcnt S - need s t\<rparr>) (knl_wait_release_ok c t s)"
    obtain R' m where g: "grant False (need s) (semcnt (sem s i) - need s t) q = (R', m)" by fastforce
    then have R: "R = t # R'" "n = m" using Cons.prems(4) False by auto
    note st = sem_release_step[OF Cons.prems(1), where c = c and i = i and q = q and t = t]
    have t: "t \<in> set (que s (SemQ i))" "t \<notin> set q" "set q \<subseteq> set (que s (SemQ i))"
      using Cons.prems(2,3) by auto
    have tR: "t \<notin> set R'" using grant_sub[of False "need s" "semcnt (sem s i) - need s t" q] g t by auto
    have nd: "need ?s = need s" by (simp add: fun_eq_iff)
    have "(R', m) = grant False (need ?s) (semcnt (sem ?s i)) q" using g nd by simp
    then have "rel_eff R' (\<lambda>_. 0) ?s (sem_chg_loop c i q ?s) \<and>
        sem (sem_chg_loop c i q ?s) = (sem ?s)(i := (sem ?s i)\<lparr>semcnt := m\<rparr>) \<and>
        free_sem (sem_chg_loop c i q ?s) = free_sem ?s"
      using Cons.IH[OF st(1)[OF t] st(2)[OF t]] Cons.prems(3)
      by simp (rule ext, simp)
    then show ?thesis using False st(6)[OF t tR] R by (simp add: Let_def)
  qed
qed

subsection \<open>Preservation of the invariant\<close>

lemma sem_keep:
  assumes "que s' (SemQ j) = que s (SemQ j)" "sem s' j = sem s j"
    and "\<And>t. t \<in> set (que s (SemQ j)) \<Longrightarrow> need s' t = need s t \<and> priority (tcb s' t) = priority (tcb s t) \<and>
      wspec (tcb s' t) = wspec (tcb s t)"
  shows "sem_ok s j \<Longrightarrow> sem_ok s' j" "sem_stable s j \<Longrightarrow> sem_stable s' j"
proof -
  have m: "map (\<lambda>t. priority (tcb s' t)) (que s (SemQ j)) = map (\<lambda>t. priority (tcb s t)) (que s (SemQ j))"
    using assms(3) by simp
  show "sem_ok s j \<Longrightarrow> sem_ok s' j"
    unfolding sem_ok_def assms(1,2) m using assms(3) by auto
  show "sem_stable s j \<Longrightarrow> sem_stable s' j"
    using assms by (cases "que s (SemQ j)") (auto simp: sem_stable_def split: if_splits)
qed

lemma sem_inv_end_cs [simp]: "sem_inv (END_CRITICAL_SECTION c s) = sem_inv s"
  by (simp add: sem_inv_def sem_free_def sem_ok_def sem_stable_def)

lemma sem_inv_upd:
  assumes inv: "sem_inv_but i s" and i: "i < NUM_SEMID" "semid (sem s i) \<noteq> 0" "semid (f (sem s i)) = semid (sem s i)"
    and s': "\<And>j. que s' (SemQ j) = (if j = i then xs else que s (SemQ j))"
      "sem s' = (sem s)(i := f (sem s i))" "free_sem s' = free_sem s"
      "\<And>j t. j \<noteq> i \<Longrightarrow> t \<in> set (que s (SemQ j)) \<Longrightarrow>
         need s' t = need s t \<and> priority (tcb s' t) = priority (tcb s t) \<and>
      wspec (tcb s' t) = wspec (tcb s t)"
    and new: "sem_ok s' i" "sem_stable s' i"
  shows "sem_inv s'"
proof -
  have "sem_free s'" using inv i by (auto simp: sem_inv_but_def sem_free_def s'(1-3))
  moreover have "sem_ok s' j \<and> sem_stable s' j" if "j < NUM_SEMID" "semid (sem s' j) \<noteq> 0" for j
  proof (cases "j = i")
    case False
    then have "sem_ok s j" "sem_stable s j" using inv that by (auto simp: sem_inv_but_def s'(2))
    then show ?thesis using sem_keep[of s' j s] s' False by auto
  qed (use new in simp)
  ultimately show ?thesis by (simp add: sem_inv_def)
qed

lemma grant_inv:
  assumes k: "kwf s" and ok: "sem_ok s i"
    and g: "(R, n) = grant (sematr (sem s i) AND TA_CNT \<noteq> 0) (need s) (semcnt (sem s i)) (que s (SemQ i))"
    and r: "rel_eff R (\<lambda>_. 0) s s'" and s': "sem s' = (sem s)(i := (sem s i)\<lparr>semcnt := n\<rparr>)"
  shows "sem_ok s' i" "sem_stable s' i" "\<And>j. j \<noteq> i \<Longrightarrow> que s' (SemQ j) = que s (SemQ j)"
proof -
  let ?q = "que s (SemQ i)" and ?cnt = "sematr (sem s i) AND TA_CNT \<noteq> 0"
  note rs = rel_eff_state[OF r]
  have q': "que s' (SemQ i) = filter (\<lambda>t. t \<notin> set R) ?q" using rs(4)[of "SemQ i"] by simp
  have nd: "\<forall>t \<in> set ?q. 0 < need s t" and c0: "0 \<le> semcnt (sem s i)" using ok by (auto simp: sem_ok_def)
  have sub: "set R \<subseteq> set ?q" using grant_sub[of ?cnt "need s" "semcnt (sem s i)" ?q] g by (metis fst_conv)
  have n: "0 \<le> n" "n \<le> semcnt (sem s i)"
    using grant_bounds[OF c0 nd, of ?cnt] g by (metis snd_conv)+
  have d: "distinct ?q" using loc_okD(1)[OF kwfD(1)[OF k]] .
  show "sem_ok s' i"
    using ok n unfolding sem_ok_def q' s' fun_upd_same
    by (auto simp: rs(7,8,9) intro: sorted_filter)
  show "sem_stable s' i"
  proof (cases ?cnt)
    case True
    then have gT: "(R, n) = grant True (need s) (semcnt (sem s i)) ?q" using g by simp
    have "n < need s t" if "t \<in> set ?q" "t \<notin> set R" for t
      using grant_stable_cnt[OF nd c0 that(1)] that(2) unfolding gT[symmetric] by simp
    then show ?thesis using True by (simp add: sem_stable_def s' q' rs(7))
  next
    case False
    then have gF: "(R, n) = grant False (need s) (semcnt (sem s i)) ?q" using g by simp
    obtain rest where rest: "?q = R @ rest" "rest = [] \<or> n < need s (hd rest)"
      using grant_stable_fifo[of ?q "need s" "semcnt (sem s i)"] unfolding gF[symmetric] by auto
    then have "filter (\<lambda>t. t \<notin> set R) ?q = rest" using d by (auto simp: filter_id_conv)
    then show ?thesis using False rest by (auto simp: sem_stable_def s' q' rs(7))
  qed
  show "que s' (SemQ j) = que s (SemQ j)" if "j \<noteq> i" for j
    by (rule rel_eff_other[OF r k sub]) (use that in auto)
qed

lemma sem_inv_granted:
  assumes k: "kwf s" and inv: "sem_inv_but i s0" and i: "i < NUM_SEMID" "semid (sem s0 i) \<noteq> 0"
    and s: "\<And>j. j \<noteq> i \<Longrightarrow> que s (SemQ j) = que s0 (SemQ j)"
      "sem s = (sem s0)(i := (sem s0 i)\<lparr>semcnt := m\<rparr>)" "free_sem s = free_sem s0"
      "\<And>t. need s t = need s0 t"
      "\<And>j t. j \<noteq> i \<Longrightarrow> t \<in> set (que s (SemQ j)) \<Longrightarrow> priority (tcb s t) = priority (tcb s0 t) \<and>
        wspec (tcb s t) = wspec (tcb s0 t)"
    and ok: "sem_ok s i"
    and g: "(R, n) = grant (sematr (sem s i) AND TA_CNT \<noteq> 0) (need s) (semcnt (sem s i)) (que s (SemQ i))"
    and r: "rel_eff R (\<lambda>_. 0) s s'" and s': "sem s' = (sem s)(i := (sem s i)\<lparr>semcnt := n\<rparr>)"
      "free_sem s' = free_sem s"
  shows "sem_inv s'"
proof (rule sem_inv_upd[OF inv i, of "\<lambda>S. S\<lparr>semcnt := n\<rparr>" s' "que s' (SemQ i)"])
  note gi = grant_inv[OF k ok g r s'(1)] and rs = rel_eff_state[OF r]
  show "sem_ok s' i" "sem_stable s' i" by (rule gi)+
  show "que s' (SemQ j) = (if j = i then que s' (SemQ i) else que s0 (SemQ j))" for j
    using gi(3)[of j] s(1)[of j] by simp
  show "sem s' = (sem s0)(i := (sem s0 i)\<lparr>semcnt := n\<rparr>)" by (rule ext) (simp add: s' s(2))
  show "free_sem s' = free_sem s0" by (simp add: s' s)
  show "need s' t = need s0 t \<and> priority (tcb s' t) = priority (tcb s0 t) \<and>
      wspec (tcb s' t) = wspec (tcb s0 t)"
    if "j \<noteq> i" "t \<in> set (que s0 (SemQ j))" for j t
    using that s(1)[of j] s(4,5) by (simp add: rs(7,8,9))
qed simp

text \<open>The operations.\<close>

lemma sig_sem_effect:
  assumes k: "kwf s" and inv: "sem_inv s" and x: "CHK_SEMID x" "semid (sem s (get_semcb x)) \<noteq> 0"
    and cnt: "0 < cnt" "cnt \<le> maxsem (sem s (get_semcb x)) - semcnt (sem s (get_semcb x))"
    and i: "i = get_semcb x"
    and g: "(R, n) = grant (sematr (sem s i) AND TA_CNT \<noteq> 0) (need s) (semcnt (sem s i) + cnt) (que s (SemQ i))"
  shows "snd (tk_sig_sem c x cnt s) = E_OK"
    "rel_eff R (\<lambda>_. 0) s (fst (tk_sig_sem c x cnt s))"
    "sem (fst (tk_sig_sem c x cnt s)) = (sem s)(i := (sem s i)\<lparr>semcnt := n\<rparr>)"
    "sem_inv (fst (tk_sig_sem c x cnt s))"
proof -
  let ?s0 = "upd_sem i (\<lambda>S. S\<lparr>semcnt := semcnt S + cnt\<rparr>) s"
  let ?s1 = "sig_sem_loop c i (que ?s0 (SemQ i)) ?s0"
  have eq: "tk_sig_sem c x cnt s = (END_CRITICAL_SECTION c ?s1, E_OK)"
    using x cnt by (simp add: tk_sig_sem_def i Let_def)
  have i': "i < NUM_SEMID" using x(1) by (auto simp: i CHK_SEMID_def get_semcb_def)
  have ok: "sem_ok s i" using inv i' x(2) by (simp add: sem_inv_def i)
  have ok0: "sem_ok ?s0 i" using ok cnt by (auto simp: sem_ok_def i)
  have k0: "kwf ?s0" using k by simp
  have d: "distinct (que s (SemQ i))" using loc_okD(1)[OF kwfD(1)[OF k]] .
  have g0: "(R, n) = grant (sematr (sem ?s0 i) AND TA_CNT \<noteq> 0) (need ?s0) (semcnt (sem ?s0 i)) (que ?s0 (SemQ i))"
    using g by simp
  have L: "rel_eff R (\<lambda>_. 0) ?s0 ?s1" "sem ?s1 = (sem ?s0)(i := (sem ?s0 i)\<lparr>semcnt := n\<rparr>)"
    "free_sem ?s1 = free_sem ?s0"
    using sig_sem_loop_grant[OF k0 _ _ _ g0, of c] d ok0 by (auto simp: sem_ok_def)
  show "snd (tk_sig_sem c x cnt s) = E_OK" by (simp add: eq)
  show "rel_eff R (\<lambda>_. 0) s (fst (tk_sig_sem c x cnt s))"
    using L(1) unfolding rel_eff_upd_sem by (simp add: eq rel_eff_def)
  show "sem (fst (tk_sig_sem c x cnt s)) = (sem s)(i := (sem s i)\<lparr>semcnt := n\<rparr>)"
    by (rule ext) (use L(2) in \<open>simp add: eq\<close>)
  show "sem_inv (fst (tk_sig_sem c x cnt s))"
    using sem_inv_granted[OF k0 sem_inv_but[OF inv], of i, OF i' _ _ _ _ _ _ ok0 g0 L] x(2) by (simp add: eq i)
qed

lemma get_semcb_less: "CHK_SEMID x \<Longrightarrow> get_semcb x < NUM_SEMID \<and> int (get_semcb x) + 1 = x"
  by (auto simp: CHK_SEMID_def get_semcb_def)

lemma sig_sem_inv:
  assumes "kwf s" "sem_inv s"
  shows "kwf (fst (tk_sig_sem c x cnt s)) \<and> sem_inv (fst (tk_sig_sem c x cnt s))"
proof (cases "CHK_SEMID x \<and> 0 < cnt \<and> semid (sem s (get_semcb x)) \<noteq> 0 \<and>
    cnt \<le> maxsem (sem s (get_semcb x)) - semcnt (sem s (get_semcb x))")
  case True
  let ?i = "get_semcb x"
  obtain R n where g: "(R, n) = grant (sematr (sem s ?i) AND TA_CNT \<noteq> 0) (need s)
    (semcnt (sem s ?i) + cnt) (que s (SemQ ?i))" by (metis prod.collapse)
  show ?thesis
    using sig_sem_effect(2,4)[OF assms _ _ _ _ refl g, of c] True rel_eff_state(1) by blast
qed (use assms in \<open>auto simp: tk_sig_sem_def Let_def\<close>)

lemma caller_ok_upd [simp]:
  "caller_ok c (upd_sem i f s) = caller_ok c s"
  by (simp add: caller_ok_def)

lemma top_of_wait_queue:
  assumes "kwf s" "caller_ok c s"
  shows "knl_gcb_top_of_wait_queue (SemQ i) atr (cur c s) s = cur c s \<longleftrightarrow>
    que s (SemQ i) = [] \<or> atr AND TA_TPRI \<noteq> 0 \<and>
      priority (tcb s (cur c s)) < priority (tcb s (hd (que s (SemQ i))))"
  using caller_not_waiting[OF assms, of "SemQ i"]
  by (cases "que s (SemQ i)") (auto simp: knl_gcb_top_of_wait_queue_def)

lemma sem_inv_cong:
  assumes "sem_inv s" "\<And>j. que s' (SemQ j) = que s (SemQ j)" "sem s' = sem s" "free_sem s' = free_sem s"
    and "\<And>j t. t \<in> set (que s (SemQ j)) \<Longrightarrow> need s' t = need s t \<and> priority (tcb s' t) = priority (tcb s t) \<and>
      wspec (tcb s' t) = wspec (tcb s t)"
  shows "sem_inv s'"
proof -
  have "sem_free s'" using assms by (simp add: sem_inv_def sem_free_def)
  moreover have "sem_ok s' j \<and> sem_stable s' j" if "j < NUM_SEMID" "semid (sem s' j) \<noteq> 0" for j
    using that assms(1) sem_keep[of s' j s] assms(2,5) by (auto simp: sem_inv_def assms(3))
  ultimately show ?thesis by (simp add: sem_inv_def)
qed

lemma wai_sem_inv:
  assumes k: "kwf s" and inv: "sem_inv s" and ca: "caller_ok c s" and i: "i < NUM_SEMID" and cnt: "0 < cnt"
    and r: "wai_sem_cs c i cnt tmout s = (s', r)"
  shows "kwf s'" "sem_inv s'"
proof -
  let ?t = "cur c s" and ?S = "sem s i"
  let ?take = "(sematr ?S AND TA_CNT \<noteq> 0 \<or> knl_gcb_top_of_wait_queue (SemQ i) (sematr ?S) ?t s = ?t)
                 \<and> semcnt ?S \<ge> cnt"
  have fresh: "?t \<notin> set (que s (SemQ j))" for j by (rule caller_not_waiting[OF k ca]) simp
  consider "semid ?S = 0 \<or> cnt > maxsem ?S"
    | "semid ?S \<noteq> 0" "cnt \<le> maxsem ?S" ?take | "semid ?S \<noteq> 0" "cnt \<le> maxsem ?S" "\<not> ?take" by linarith
  then have "kwf s' \<and> sem_inv s'"
  proof cases
    case 1
    then have "s' = s" using r by (auto simp: wai_sem_cs_def Let_def split: if_splits)
    then show ?thesis using k inv by simp
  next
    case 2
    then have s': "s' = upd_sem i (\<lambda>S. S\<lparr>semcnt := semcnt S - cnt\<rparr>) s"
      using r by (simp add: wai_sem_cs_def Let_def)
    have ok: "sem_ok s i" "sem_stable s i" using inv i 2 by (auto simp: sem_inv_def)
    have "sem_inv s'"
      by (rule sem_inv_upd[OF sem_inv_but[OF inv] i 2(1), of "\<lambda>S. S\<lparr>semcnt := semcnt S - cnt\<rparr>" s' "que s (SemQ i)"])
        (use ok 2 cnt in \<open>auto simp: s' sem_ok_def sem_stable_def split: if_splits\<close>)
    then show ?thesis using k s' by simp
  next
    case 3
    define w where "w = (if sematr ?S AND TA_TPRI \<noteq> 0 then Wspec_sem_tpri else Wspec_sem_tfifo)"
    define f where "f = (winfo (tcb s ?t))\<lparr>sem_cnt := cnt\<rparr>"
    let ?T = "(tcb s ?t)\<lparr>wspec := w, wercd := Some ?t, winfo := f\<rparr>"
    let ?s1 = "s\<lparr>tcb := (tcb s)(?t := ?T)\<rparr>"
    have s': "s' = knl_gcb_make_wait c (SemQ i) (semid ?S) (sematr ?S) tmout ?s1"
      using r 3(1,2) unfolding wai_sem_cs_def Let_def if_not_P[OF 3(3)] by (simp add: w_def f_def)
    have idi: "semid ?S = int i + 1" using inv i 3(1) by (auto simp: sem_inv_def sem_free_def)
    have ok: "sem_ok s i" "sem_stable s i" using inv i 3 by (auto simp: sem_inv_def)
    have wr: "wait_ring w (nat (semid ?S - 1)) = Some (SemQ i)" by (simp add: w_def idi)
    note ow = obj_wait[OF k ca refl refl refl wr s']
    show ?thesis
    proof (cases "tmout = TMO_POL")
      case True
      have "sem_inv s'"
        unfolding ow(7)[OF True] by (rule sem_inv_cong[OF inv]) (use fresh in auto)
      then show ?thesis using ow(1) by simp
    next
      case False
      let ?xs = "if sematr ?S AND TA_TPRI \<noteq> 0
        then insert_before (\<lambda>u. priority (tcb s u) > priority (tcb s ?t)) ?t (que s (SemQ i))
        else que s (SemQ i) @ [?t]"
      have qi: "que s' (SemQ i) = ?xs" using ow(3)[OF False] .
      have qj: "que s' (SemQ j) = que s (SemQ j)" if "j \<noteq> i" for j using ow(4)[OF False, of "SemQ j"] that by simp
      have tc: "need s' u = (if u = ?t then cnt else need s u)"
        "priority (tcb s' u) = priority (tcb s u)"
        "wspec (tcb s' u) = (if u = ?t then w else wspec (tcb s u))" for u
        using ow(5)[OF False] by (auto simp: f_def)
      have se: "sem s' = sem s" "free_sem s' = free_sem s" by (simp_all add: s')
      have set: "set ?xs = insert ?t (set (que s (SemQ i)))" by auto
      have "sem_ok s' i"
        using ok(1) cnt 3(2) fresh[of i] unfolding sem_ok_def qi set se tc w_def
        by (auto intro: sorted_tpri)
      moreover have "sem_stable s' i"
      proof (cases "sematr ?S AND TA_CNT \<noteq> 0")
        case True
        then have "semcnt ?S < cnt" using 3(3) by auto
        then show ?thesis using True ok(2) unfolding sem_stable_def qi set se tc by auto
      next
        case F: False
        have top: "que s (SemQ i) = [] \<or> sematr ?S AND TA_TPRI \<noteq> 0 \<and>
            priority (tcb s ?t) < priority (tcb s (hd (que s (SemQ i)))) \<Longrightarrow> semcnt ?S < cnt"
          using 3(3) top_of_wait_queue[OF k ca, of i "sematr ?S"] by auto
        show ?thesis
          using F ok(2) top fresh[of i]
          by (cases "que s (SemQ i)"; cases "priority (tcb s ?t) < priority (tcb s (hd (que s (SemQ i))))")
            (auto simp: sem_stable_def qi se tc)
      qed
      ultimately have "sem_inv s'"
        by (intro sem_inv_upd[OF sem_inv_but[OF inv] i 3(1), of "\<lambda>S. S" s' ?xs]) (use qi qj se tc fresh in auto)
      then show ?thesis using ow(1) by simp
    qed
  qed
  then show "kwf s'" "sem_inv s'" by auto
qed

text \<open>
  The hooks. \<open>sem_chg_pri\<close> runs when the priority of a waiter has changed, or, through \<open>sem_rel_wai\<close>,
  when a waiter has left the queue: the others are intact and the queue is sorted apart from that one.
\<close>

lemma sem_scan_inv:
  assumes k: "kwf s" and inv: "sem_inv_but i s" and i: "i < NUM_SEMID" "semid (sem s i) \<noteq> 0"
    and ok: "sem_ok s i" and st: "sematr (sem s i) AND TA_CNT \<noteq> 0 \<Longrightarrow> sem_stable s i"
    and s': "s' = (if sematr (sem s i) AND TA_CNT \<noteq> 0 then s else sem_chg_loop c i (que s (SemQ i)) s)"
  shows "kwf s' \<and> sem_inv s'"
proof (cases "sematr (sem s i) AND TA_CNT \<noteq> 0")
  case True
  have "sem_inv s"
    by (rule sem_inv_upd[OF inv i, of "\<lambda>S. S" s "que s (SemQ i)"]) (use ok st[OF True] in auto)
  then show ?thesis using True k s' by simp
next
  case False
  obtain R n where g: "(R, n) = grant False (need s) (semcnt (sem s i)) (que s (SemQ i))"
    by (metis prod.collapse)
  have d: "distinct (que s (SemQ i))" using loc_okD(1)[OF kwfD(1)[OF k]] .
  have eq: "s' = sem_chg_loop c i (que s (SemQ i)) s" using False s' by simp
  have L: "rel_eff R (\<lambda>_. 0) s s'" "sem s' = (sem s)(i := (sem s i)\<lparr>semcnt := n\<rparr>)"
    "free_sem s' = free_sem s"
    using sem_chg_loop_grant[OF k order_refl d g, of c] unfolding eq by auto
  have g': "(R, n) = grant (sematr (sem s i) AND TA_CNT \<noteq> 0) (need s) (semcnt (sem s i)) (que s (SemQ i))"
    using g False by simp
  have "sem_inv s'"
    by (rule sem_inv_granted[OF k inv i, of "semcnt (sem s i)", OF _ _ _ _ _ ok g' L]) auto
  then show ?thesis using rel_eff_state(1)[OF L(1)] by simp
qed

lemma sem_chg_pri_inv:
  assumes k: "kwf s0" and inv: "sem_inv s0" and t: "t \<in> set (que s0 (SemQ i))" and p: "p < NUM_TSKPRI"
    and s: "s = upd_tcb t (priority_update (\<lambda>_. p)) s0" and old: "0 \<le> oldpri"
  shows "kwf (sem_chg_pri c t oldpri s) \<and> sem_inv (sem_chg_pri c t oldpri s)"
proof -
  note w = ring_waiting[OF k t, simplified]
  have i: "i < NUM_SEMID" "semid (sem s0 i) \<noteq> 0" using inv t by (force simp: sem_inv_def sem_free_def)+
  have ws: "get_semcb (wid (tcb s0 t)) = i"
    using w(3) by (cases "wspec (tcb s0 t)") (auto simp: wring_def get_semcb_def)
  have nr: "state (tcb s0 t) \<noteq> TS_READY" using w(2) by auto
  have ks: "kwf s" unfolding s by (rule kwf_set_priority[OF k w(1) nr p])
  have ts: "t \<in> set (que s (SemQ i))" using t by (simp add: s)
  let ?s1 = "knl_gcb_change_priority (SemQ i) t s"
  have k1: "kwf ?s1" by (rule kwf_gcb_change_priority[OF ks ts]) auto
  let ?xs = "insert_before (\<lambda>u. priority (tcb s u) > priority (tcb s t)) t (remove1 t (que s (SemQ i)))"
  note q1 = gcb_change_priority_que[OF ks ts]
  have set: "set ?xs = set (que s0 (SemQ i))"
    using t loc_okD(1)[OF kwfD(1)[OF k], of "SemQ i"] by (auto simp: s)
  have oth: "priority (tcb s u) = priority (tcb s0 u)" if "u \<noteq> t" for u using that by (simp add: s)
  have same: "need s u = need s0 u" "wspec (tcb s u) = wspec (tcb s0 u)" "que s = que s0"
    "sem s = sem s0" "free_sem s = free_sem s0" for u by (simp_all add: s)
  have inv1: "sem_inv_but i ?s1"
  proof -
    have "sem_free ?s1" using inv by (auto simp: sem_inv_def sem_free_def q1 same i)
    moreover have "sem_ok ?s1 j \<and> sem_stable ?s1 j"
      if "j < NUM_SEMID" "j \<noteq> i" "semid (sem ?s1 j) \<noteq> 0" for j
    proof -
      have j: "sem_ok s0 j" "sem_stable s0 j" using that inv by (auto simp: sem_inv_def same)
      have "t \<notin> set (que s0 (SemQ j))" using loc_okD(4)[OF kwfD(1)[OF k] t, of "SemQ j"] that(2) by auto
      then have "priority (tcb s u) = priority (tcb s0 u)" if "u \<in> set (que s0 (SemQ j))" for u
        using that oth by metis
      then show ?thesis
        using j sem_keep[of ?s1 j s0] that(2) same(1,2) by (auto simp: q1 same(3-5))
    qed
    ultimately show ?thesis by (simp add: sem_inv_but_def)
  qed
  have ok0: "sem_ok s0 i" "sem_stable s0 i" using inv i by (auto simp: sem_inv_def)
  have ok1: "sem_ok ?s1 i"
  proof -
    have "sorted (map (\<lambda>u. priority (tcb s u)) ?xs)" if "sematr (sem s0 i) AND TA_TPRI \<noteq> 0"
    proof (rule sorted_tpri)
      have "sorted (map (\<lambda>u. priority (tcb s0 u)) (remove1 t (que s0 (SemQ i))))"
        using ok0 that by (auto simp: sem_ok_def intro: sorted_map_remove1)
      then have "sorted (map (\<lambda>u. priority (tcb s u)) (remove1 t (que s0 (SemQ i))))"
        by (rule sorted_map_keep) (use oth loc_okD(1)[OF kwfD(1)[OF k], of "SemQ i"] in auto)
      then show "sorted (map (\<lambda>u. priority (tcb s u)) (remove1 t (que s (SemQ i))))"
        by (simp add: same(3))
    qed
    then show ?thesis using ok0(1) unfolding sem_ok_def by (simp add: q1 same set[unfolded same(3)] del: set_insert_before)
  qed
  have st1: "sem_stable ?s1 i" if "sematr (sem ?s1 i) AND TA_CNT \<noteq> 0"
    using that ok0(2) unfolding sem_stable_def by (simp add: q1 same set[unfolded same(3)] del: set_insert_before)
  have wid: "get_semcb (wid (tcb s t)) = i" using ws by (simp add: s)
  have "sem_chg_pri c t oldpri s =
      (if sematr (sem ?s1 i) AND TA_CNT \<noteq> 0 then ?s1 else sem_chg_loop c i (que ?s1 (SemQ i)) ?s1)"
    using old by (simp add: sem_chg_pri_def wid Let_def)
  from sem_scan_inv[OF k1 inv1 i(1) _ ok1 st1 this] i(2) show ?thesis by (simp add: same)
qed

lemma sem_rel_wai_inv:
  assumes k: "kwf s" and inv: "sem_inv s0" and t: "t \<in> set (que s0 (SemQ i))"
    and s: "sem s = sem s0" "free_sem s = free_sem s0"
      "\<And>j. que s (SemQ j) = remove1 t (que s0 (SemQ j))" "wid (tcb s t) = int i + 1"
      "\<And>u. u \<noteq> t \<Longrightarrow> need s u = need s0 u \<and> priority (tcb s u) = priority (tcb s0 u) \<and>
         wspec (tcb s u) = wspec (tcb s0 u)"
    and k0: "kwf s0"
  shows "kwf (sem_rel_wai c t s) \<and> sem_inv (sem_rel_wai c t s)"
proof -
  have i: "i < NUM_SEMID" "semid (sem s0 i) \<noteq> 0" using inv t by (force simp: sem_inv_def sem_free_def)+
  have q: "que s (SemQ j) = que s0 (SemQ j)" if "j \<noteq> i" for j
    using loc_okD(4)[OF kwfD(1)[OF k0] t, of "SemQ j"] that s(3)[of j] by (auto intro!: remove1_idem)
  have d: "distinct (que s0 (SemQ i))" using loc_okD(1)[OF kwfD(1)[OF k0]] .
  have tn: "u \<noteq> t" if "u \<in> set (que s (SemQ j))" for u j
    using that s(3)[of j] loc_okD(1)[OF kwfD(1)[OF k0], of "SemQ j"] by auto
  have keep: "need s u = need s0 u" "priority (tcb s u) = priority (tcb s0 u)" "wspec (tcb s u) = wspec (tcb s0 u)"
    if "u \<in> set (que s (SemQ j))" for u j using s(5)[OF tn[OF that]] by auto
  have inv1: "sem_inv_but i s"
  proof -
    have "sem_free s"
      using inv unfolding sem_inv_def sem_free_def s(1,2) using s(3) by (metis remove1.simps(1))
    moreover have "sem_ok s j \<and> sem_stable s j" if "j < NUM_SEMID" "j \<noteq> i" "semid (sem s j) \<noteq> 0" for j
    proof -
      have "sem_ok s0 j" "sem_stable s0 j" using that inv by (auto simp: sem_inv_def s)
      then show ?thesis using sem_keep[of s j s0] keep[of _ j] q[OF that(2)] by (auto simp: s(1))
    qed
    ultimately show ?thesis by (simp add: sem_inv_but_def)
  qed
  have ok0: "sem_ok s0 i" "sem_stable s0 i" using inv i by (auto simp: sem_inv_def)
  have ok1: "sem_ok s i"
  proof -
    have so: "sorted (map (\<lambda>u. priority (tcb s u)) (que s (SemQ i)))"
      if "sematr (sem s0 i) AND TA_TPRI \<noteq> 0"
    proof (rule sorted_map_keep)
      show "sorted (map (\<lambda>u. priority (tcb s0 u)) (que s (SemQ i)))"
        using ok0(1) that by (auto simp: sem_ok_def s(3) intro: sorted_map_remove1)
    qed (use keep(2)[of _ i] in auto)
    show ?thesis
      using so ok0(1) keep(1,3)[of _ i] d unfolding sem_ok_def s(1)
      by (auto simp: s(3))
  qed
  have st1: "sem_stable s i" if "sematr (sem s i) AND TA_CNT \<noteq> 0"
    using that ok0(2) keep(1)[of _ i] d by (auto simp: sem_stable_def s(1,3))
  have "sem_rel_wai c t s =
      (if sematr (sem s i) AND TA_CNT \<noteq> 0 then s else sem_chg_loop c i (que s (SemQ i)) s)"
    using s(4) by (simp add: sem_rel_wai_def sem_chg_pri_def get_semcb_def Let_def)
  from sem_scan_inv[OF k inv1 i(1) _ ok1 st1 this] i(2) show ?thesis by (simp add: s)
qed

subsection \<open>Initialisation, creation, deletion\<close>


lemma sem_initialize_free:
  "k \<le> NUM_SEMID \<Longrightarrow> free_sem s = [] \<Longrightarrow>
   (let s' = fold (\<lambda>i s. let s = upd_sem i (semid_update (\<lambda>_. 0)) s in s\<lparr>free_sem := free_sem s @ [i]\<rparr>) [0..<k] s
    in free_sem s' = [0..<k] \<and> (\<forall>i<k. semid (sem s' i) = 0) \<and> que s' = que s \<and> kwf s' = kwf s)"
proof (induction k)
  case (Suc k)
  then show ?case by (simp add: Let_def less_Suc_eq)
qed simp

lemma semaphore_initialize_inv:
  assumes "\<And>i. que s (SemQ i) = []"
  shows "sem_inv (knl_semaphore_initialize s)"
  using sem_initialize_free[OF order_refl, of "s\<lparr>free_sem := []\<rparr>"] assms
  by (auto simp: sem_inv_def sem_free_def knl_semaphore_initialize_def Let_def)

text \<open>Creation: the free control block becomes an empty semaphore with the requested count.\<close>

lemma cre_sem_inv:
  assumes k: "kwf s" and inv: "sem_inv s"
  shows "kwf (fst (tk_cre_sem c pk s)) \<and> sem_inv (fst (tk_cre_sem c pk s))"
proof (cases "cs_sematr pk AND NOT (TA_TPRI OR TA_CNT) \<noteq> 0 \<or> \<not> cs_isemcnt pk \<ge> 0 \<or> \<not> cs_maxsem pk > 0 \<or>
    \<not> cs_maxsem pk \<ge> cs_isemcnt pk")
  case True
  then show ?thesis using k inv by (auto simp: tk_cre_sem_def)
next
  case False
  show ?thesis
  proof (cases "free_sem s")
    case Nil
    then show ?thesis using False k inv by (simp add: tk_cre_sem_def)
  next
    case (Cons i rest)
    let ?S = "\<lparr>semid = int i + 1, sem_exinf = cs_exinf pk, sematr = cs_sematr pk,
                                semcnt = cs_isemcnt pk, maxsem = cs_maxsem pk\<rparr>"
    let ?s = "upd_sem i (\<lambda>_. ?S) (upd_que (\<lambda>Q. Q(SemQ i := [])) (s\<lparr>free_sem := rest\<rparr>))"
    have i: "i < NUM_SEMID" "semid (sem s i) = 0" "que s (SemQ i) = []"
      using inv Cons by (auto simp: sem_inv_def sem_free_def)
    have q: "(que s)(SemQ i := []) = que s" using i(3) by auto
    have eq: "fst (tk_cre_sem c pk s) = END_CRITICAL_SECTION c ?s"
      using False Cons by (simp add: tk_cre_sem_def Let_def)
    have f: "sem_free ?s"
      using inv Cons i by (auto simp: sem_inv_def sem_free_def q)
    have "sem_ok ?s j \<and> sem_stable ?s j" if "j < NUM_SEMID" "semid (sem ?s j) \<noteq> 0" for j
    proof (cases "j = i")
      case True
      then show ?thesis using False i(3) by (auto simp: sem_ok_def sem_stable_def q)
    next
      case F: False
      then have "sem_ok s j" "sem_stable s j" using inv that by (auto simp: sem_inv_def)
      then show ?thesis using F sem_keep[of ?s j s] by (simp add: q)
    qed
    then have "sem_inv ?s" using f by (simp add: sem_inv_def)
    moreover have "kwf ?s" using k by (simp add: q)
    ultimately show ?thesis by (simp add: eq)
  qed
qed

lemma del_sem_effect:
  assumes k: "kwf s" and inv: "sem_inv s" and x: "CHK_SEMID x" "semid (sem s (get_semcb x)) \<noteq> 0"
  defines "i \<equiv> get_semcb x"
  shows "snd (tk_del_sem c x s) = E_OK"
    "rel_eff (que s (SemQ i)) (\<lambda>_. E_DLT) s (fst (tk_del_sem c x s))"
    "sem (fst (tk_del_sem c x s)) = (sem s)(i := (sem s i)\<lparr>semid := 0\<rparr>)"
    "sem_inv (fst (tk_del_sem c x s))"
proof -
  let ?w = "knl_wait_delete c (SemQ i) s"
  let ?s = "upd_sem i (semid_update (\<lambda>_. 0)) (?w\<lparr>free_sem := free_sem s @ [i]\<rparr>)"
  have eq: "tk_del_sem c x s = (END_CRITICAL_SECTION c ?s, E_OK)"
    using x by (simp add: tk_del_sem_def i_def Let_def)
  have i: "i < NUM_SEMID" using get_semcb_less[OF x(1)] by (simp add: i_def)
  have w: "rel_eff (que s (SemQ i)) (\<lambda>_. E_DLT) s ?w" by (rule wait_delete_released[OF k]) auto
  note ws = rel_eff_state[OF w]
  show "snd (tk_del_sem c x s) = E_OK" by (simp add: eq)
  show "rel_eff (que s (SemQ i)) (\<lambda>_. E_DLT) s (fst (tk_del_sem c x s))"
    using w by (simp add: eq rel_eff_def)
  show "sem (fst (tk_del_sem c x s)) = (sem s)(i := (sem s i)\<lparr>semid := 0\<rparr>)"
    by (rule ext) (simp add: eq)
  have qi: "que ?s (SemQ i) = []" using ws(4)[of "SemQ i"] by simp
  have qj: "que ?s (SemQ j) = que s (SemQ j)" if "j \<noteq> i" for j
    using rel_eff_other[OF w k order_refl, of "SemQ j"] that by simp
  have "sem_free ?s"
    using inv i x(2) qi qj unfolding sem_inv_def sem_free_def
    by (auto simp: i_def)
  moreover have "sem_ok ?s j \<and> sem_stable ?s j" if "j < NUM_SEMID" "semid (sem ?s j) \<noteq> 0" for j
  proof -
    have j: "j \<noteq> i" using that by auto
    then have "sem_ok s j" "sem_stable s j" using inv that by (auto simp: sem_inv_def)
    then show ?thesis using sem_keep[of ?s j s] qj[OF j] j by (simp add: ws(7-9))
  qed
  ultimately have "sem_inv ?s" by (simp add: sem_inv_def)
  then show "sem_inv (fst (tk_del_sem c x s))" by (simp add: eq)
qed


subsection \<open>Properties\<close>

definition ex_sem :: kstate where
  "ex_sem = (ex_state Wspec_sem_tfifo (ex_winfo\<lparr>sem_cnt := 2\<rparr>) (SemQ 0))\<lparr>
     sem := (\<lambda>_. \<lparr>semid = 0, sem_exinf = 0, sematr = 0, semcnt = 0, maxsem = 0\<rparr>)
       (0 := \<lparr>semid = 1, sem_exinf = 0, sematr = 0, semcnt = 1, maxsem = 5\<rparr>),
     free_sem := [1..<NUM_SEMID]\<rparr>"

lemma ex_sem_inv: "kwf ex_sem" "sem_inv ex_sem" "caller_ok 0 ex_sem"
proof -
  show "kwf ex_sem" using kwf_ex_state[of Wspec_sem_tfifo "SemQ 0"] by (simp add: ex_sem_def)
  show "sem_inv ex_sem"
    unfolding sem_inv_def sem_free_def
    by (auto simp: ex_sem_def sem_ok_def sem_stable_def ex_wait_def ex_winfo_def size_defs split: if_splits)
  show "caller_ok 0 ex_sem" using ex_caller_ok by (simp add: ex_sem_def caller_ok_def)
qed

text \<open>
  C21. \<open>tk_sig_sem\<close> implements the abstract grant. On an existing semaphore, with an increment that the
  maximum admits, it returns \<open>E_OK\<close> and releases with \<open>E_OK\<close> exactly the tasks that \<open>grant\<close> picks from
  the wait queue, in that order; the count afterwards is the rest of the grant. No other task's state,
  wait ring or result, and no other semaphore, changes.
\<close>

theorem sig_sem_refines_grant:
  assumes "kwf s" "sem_inv s" "CHK_SEMID x" "i = get_semcb x" "semid (sem s i) \<noteq> 0"
    and "0 < cnt" "cnt \<le> maxsem (sem s i) - semcnt (sem s i)"
    and "(R, n) = grant (sematr (sem s i) AND TA_CNT \<noteq> 0) (\<lambda>t. sem_cnt (winfo (tcb s t)))
           (semcnt (sem s i) + cnt) (que s (SemQ i))"
    and "tk_sig_sem c x cnt s = (s', er)"
  shows "er = E_OK \<and> rel_eff R (\<lambda>_. E_OK) s s' \<and> sem s' = (sem s)(i := (sem s i)\<lparr>semcnt := n\<rparr>)"
  using sig_sem_effect(1-3)[OF assms(1-3) _ assms(6) _ assms(4) assms(8), of c] assms(4,5,7,9) by simp

theorem sig_sem_refines_grant_witness:
  "snd (tk_sig_sem 0 1 1 ex_sem) = E_OK \<and> rel_eff [1] (\<lambda>_. E_OK) ex_sem (fst (tk_sig_sem 0 1 1 ex_sem)) \<and>
   semcnt (sem (fst (tk_sig_sem 0 1 1 ex_sem)) 0) = 0"
proof -
  have "([1], 0) = grant (sematr (sem ex_sem 0) AND TA_CNT \<noteq> 0) (\<lambda>t. sem_cnt (winfo (tcb ex_sem t)))
      (semcnt (sem ex_sem 0) + 1) (que ex_sem (SemQ 0))"
    by (simp add: ex_sem_def ex_wait_def)
  from sig_sem_refines_grant[OF ex_sem_inv(1,2) _ _ _ _ _ this prod.collapse[symmetric], of 1 0]
  show ?thesis by (simp add: CHK_SEMID_def get_semcb_def size_defs ex_sem_def)
qed

text \<open>
  The semaphore operations keep the semaphore invariant: the free queue holds exactly the
  unregistered control blocks, every count stays between 0 and its maximum, the queues of \<open>TA_TPRI\<close>
  semaphores stay sorted, and a task that the count could serve is never left waiting.
\<close>

theorem sem_ops_invariant:
  assumes "kwf s" "sem_inv s"
  shows "sem_inv (fst (tk_cre_sem c pk s)) \<and> sem_inv (fst (tk_del_sem c x s)) \<and>
    sem_inv (fst (tk_sig_sem c x cnt s)) \<and> (caller_ok c s \<longrightarrow> sem_inv (fst (tk_wai_sem c x cnt tmout s)))"
proof -
  have del: "sem_inv (fst (tk_del_sem c x s))"
  proof (cases "CHK_SEMID x \<and> semid (sem s (get_semcb x)) \<noteq> 0")
    case True
    then show ?thesis using del_sem_effect(4)[OF assms] by simp
  qed (use assms in \<open>auto simp: tk_del_sem_def Let_def\<close>)
  have wai: "sem_inv (fst (tk_wai_sem c x cnt tmout s))" if ca: "caller_ok c s"
  proof (cases "CHK_SEMID x \<and> 0 < cnt")
    case True
    then show ?thesis
      using wai_sem_inv(2)[OF assms ca _ _ surjective_pairing, of "get_semcb x" cnt tmout] get_semcb_less[of x] assms
      by (simp add: tk_wai_sem_def split: prod.splits) (metis fst_conv)
  qed (use assms in \<open>auto simp: tk_wai_sem_def\<close>)
  show ?thesis using cre_sem_inv[OF assms] sig_sem_inv[OF assms] del wai by blast
qed

theorem sem_ops_invariant_witness:
  "sem_inv (fst (tk_del_sem 0 1 ex_sem)) \<and> sem_inv (fst (tk_wai_sem 0 1 1 100 ex_sem))"
  using sem_ops_invariant[OF ex_sem_inv(1,2), of 0 undefined 1 1 100] ex_sem_inv(3) by blast

end
