(* ===== verification/Eventflag.thy ===== *)
theory Eventflag
  imports Wait_Object Example_State
begin

text \<open>
  \<^verbatim>\<open>kernel/tkernel/eventflag.c\<close>. Control block \<open>i\<close> is the event flag with the ID \<open>i + 1\<close>, its wait queue
  is the ring \<open>FlgQ i\<close>.
\<close>

subsection \<open>Operations\<close>

abbreviation (input) TA_WMUL :: UW where "TA_WMUL \<equiv> 8"
abbreviation (input) TWF_ORW :: UW where "TWF_ORW \<equiv> 1"
abbreviation (input) TWF_CLR :: UW where "TWF_CLR \<equiv> 0x10"
abbreviation (input) TWF_BITCLR :: UW where "TWF_BITCLR \<equiv> 0x20"

definition CHK_FLGID :: "int \<Rightarrow> bool" where
  "CHK_FLGID x \<longleftrightarrow> 1 \<le> x \<and> x \<le> int NUM_FLGID"

definition get_flgcb :: "int \<Rightarrow> nat" where "get_flgcb x = nat (x - 1)"

definition upd_flg :: "nat \<Rightarrow> (flgcb \<Rightarrow> flgcb) \<Rightarrow> kstate \<Rightarrow> kstate" where
  "upd_flg i f s = s\<lparr>flg := (flg s)(i := f (flg s i))\<rparr>"

definition knl_eventflag_initialize :: "kstate \<Rightarrow> kstate" where
  "knl_eventflag_initialize s =
     fold (\<lambda>i s. let s = upd_flg i (flgid_update (\<lambda>_. 0)) s in s\<lparr>free_flg := free_flg s @ [i]\<rparr>)
       [0..<NUM_FLGID] (s\<lparr>free_flg := []\<rparr>)"

definition knl_eventflag_cond :: "UW \<Rightarrow> UW \<Rightarrow> UW \<Rightarrow> bool" where
  "knl_eventflag_cond ptn waiptn wfmode =
     (if wfmode AND TWF_ORW \<noteq> 0 then ptn AND waiptn \<noteq> 0 else ptn AND waiptn = waiptn)"

record t_cflg =
  cf_exinf :: UW
  cf_flgatr :: UW
  cf_iflgptn :: UW

definition tk_cre_flg :: "nat \<Rightarrow> t_cflg \<Rightarrow> kstate \<Rightarrow> kstate \<times> int" where
  "tk_cre_flg c pk s =
     (if cf_flgatr pk AND NOT (TA_TPRI OR TA_WMUL) \<noteq> 0 then (s, E_RSATR)
      else
        let (s, ercd) =
          (case free_flg s of
             [] \<Rightarrow> (s, E_LIMIT)
           | i # rest \<Rightarrow>
               (upd_flg i (\<lambda>_. \<lparr>flgid = int i + 1, flg_exinf = cf_exinf pk, flgatr = cf_flgatr pk,
                                flgptn = cf_iflgptn pk\<rparr>)
                  (upd_que (\<lambda>Q. Q(FlgQ i := [])) (s\<lparr>free_flg := rest\<rparr>)), int i + 1))
        in (END_CRITICAL_SECTION c s, ercd))"

definition tk_del_flg :: "nat \<Rightarrow> int \<Rightarrow> kstate \<Rightarrow> kstate \<times> int" where
  "tk_del_flg c xid s =
     (if \<not> CHK_FLGID xid then (s, E_ID)
      else
        let i = get_flgcb xid;
            (s, ercd) =
              (if flgid (flg s i) = 0 then (s, E_NOEXS)
               else let s = knl_wait_delete c (FlgQ i) s;
                        s = s\<lparr>free_flg := free_flg s @ [i]\<rparr>
                    in (upd_flg i (flgid_update (\<lambda>_. 0)) s, E_OK))
        in (END_CRITICAL_SECTION c s, ercd))"

fun set_flg_loop :: "nat \<Rightarrow> nat \<Rightarrow> nat list \<Rightarrow> kstate \<Rightarrow> kstate" where
  "set_flg_loop c i [] s = s"
| "set_flg_loop c i (t # q) s =
     (let waiptn = flg_waiptn (winfo (tcb s t)); wfmode = flg_wfmode (winfo (tcb s t))
      in if knl_eventflag_cond (flgptn (flg s i)) waiptn wfmode
         then let s = s\<lparr>mem := st32 (flg_p_flgptn (winfo (tcb s t))) (flgptn (flg s i)) (mem s)\<rparr>;
                  s = knl_wait_release_ok c t s;
                  s = (if wfmode AND TWF_BITCLR \<noteq> 0
                       then upd_flg i (\<lambda>F. F\<lparr>flgptn := flgptn F AND NOT waiptn\<rparr>) s else s)
              in if wfmode AND TWF_BITCLR \<noteq> 0 \<and> flgptn (flg s i) = 0 then s
                 else if wfmode AND TWF_CLR \<noteq> 0 then upd_flg i (flgptn_update (\<lambda>_. 0)) s
                 else set_flg_loop c i q s
         else set_flg_loop c i q s)"

definition tk_set_flg :: "nat \<Rightarrow> int \<Rightarrow> UW \<Rightarrow> kstate \<Rightarrow> kstate \<times> int" where
  "tk_set_flg c xid setptn s =
     (if \<not> CHK_FLGID xid then (s, E_ID)
      else
        let i = get_flgcb xid;
            (s, ercd) =
              (if flgid (flg s i) = 0 then (s, E_NOEXS)
               else let s = upd_flg i (\<lambda>F. F\<lparr>flgptn := flgptn F OR setptn\<rparr>) s
                    in (set_flg_loop c i (que s (FlgQ i)) s, E_OK))
        in (END_CRITICAL_SECTION c s, ercd))"

definition tk_clr_flg :: "nat \<Rightarrow> int \<Rightarrow> UW \<Rightarrow> kstate \<Rightarrow> kstate \<times> int" where
  "tk_clr_flg c xid clrptn s =
     (if \<not> CHK_FLGID xid then (s, E_ID)
      else
        let i = get_flgcb xid;
            (s, ercd) =
              (if flgid (flg s i) = 0 then (s, E_NOEXS)
               else (upd_flg i (\<lambda>F. F\<lparr>flgptn := flgptn F AND clrptn\<rparr>) s, E_OK))
        in (END_CRITICAL_SECTION c s, ercd))"

definition flg_chg_pri :: "nat \<Rightarrow> int \<Rightarrow> kstate \<Rightarrow> kstate" where
  "flg_chg_pri t oldpri s = knl_gcb_change_priority (FlgQ (get_flgcb (wid (tcb s t)))) t s"

definition wai_flg_cs :: "nat \<Rightarrow> nat \<Rightarrow> UW \<Rightarrow> UW \<Rightarrow> UW \<Rightarrow> int \<Rightarrow> kstate \<Rightarrow> kstate \<times> sysret" where
  "wai_flg_cs c i waiptn wfmode p_flgptn tmout s =
     (let t = cur c s; F = flg s i
      in if flgid F = 0 then (s, Ret E_NOEXS)
         else if flgatr F AND TA_WMUL = 0 \<and> que s (FlgQ i) \<noteq> [] then (s, Ret E_OBJ)
         else if knl_eventflag_cond (flgptn F) waiptn wfmode
         then let s = s\<lparr>mem := st32 p_flgptn (flgptn F) (mem s)\<rparr>;
                  s = (if wfmode AND TWF_BITCLR \<noteq> 0
                       then upd_flg i (\<lambda>F. F\<lparr>flgptn := flgptn F AND NOT waiptn\<rparr>) s else s);
                  s = (if wfmode AND TWF_CLR \<noteq> 0 then upd_flg i (flgptn_update (\<lambda>_. 0)) s else s)
              in (s, Ret E_OK)
         else let s = upd_tcb t (\<lambda>T. T\<lparr>
                        wspec := (if flgatr F AND TA_TPRI \<noteq> 0 then Wspec_flg_tpri else Wspec_flg_tfifo),
                        wercd := Some t,
                        winfo := (winfo T)\<lparr>flg_waiptn := waiptn, flg_wfmode := wfmode,
                                           flg_p_flgptn := p_flgptn\<rparr>\<rparr>) s;
                  s = knl_gcb_make_wait c (FlgQ i) (flgid F) (flgatr F) tmout s
              in (s, if tmout = TMO_POL then Ret (ercd s t) else Blocked))"

definition tk_wai_flg ::
  "nat \<Rightarrow> int \<Rightarrow> UW \<Rightarrow> UW \<Rightarrow> UW \<Rightarrow> int \<Rightarrow> kstate \<Rightarrow> kstate \<times> sysret" where
  "tk_wai_flg c xid waiptn wfmode p_flgptn tmout s =
     (if \<not> CHK_FLGID xid then (s, Ret E_ID)
      else if \<not> waiptn \<noteq> 0 then (s, Ret E_PAR)
      else if \<not> wfmode AND NOT (TWF_ORW OR TWF_CLR OR TWF_BITCLR) = 0 then (s, Ret E_PAR)
      else if \<not> tmout \<ge> TMO_FEVR then (s, Ret E_PAR)
      else if in_ddsp c s then (s, Ret E_CTX)
      else let (s, r) = wai_flg_cs c (get_flgcb xid) waiptn wfmode p_flgptn tmout s
           in (END_CRITICAL_SECTION c s, r))"

record t_rflg =
  rf_exinf :: UW
  rf_wtsk :: int
  rf_flgptn :: UW

definition tk_ref_flg :: "nat \<Rightarrow> int \<Rightarrow> kstate \<Rightarrow> kstate \<times> int \<times> t_rflg option" where
  "tk_ref_flg c xid s =
     (if \<not> CHK_FLGID xid then (s, E_ID, None)
      else
        let i = get_flgcb xid; F = flg s i
        in if flgid F = 0 then (END_CRITICAL_SECTION c s, E_NOEXS, None)
           else (END_CRITICAL_SECTION c s, E_OK,
                 Some \<lparr>rf_exinf = flg_exinf F, rf_wtsk = knl_wait_tskid (FlgQ i) s, rf_flgptn = flgptn F\<rparr>))"

subsection \<open>The invariant\<close>

text \<open>
  Nobody whose condition holds is left waiting, without \<open>TA_WMUL\<close> at most one task waits, and the queue
  of a \<open>TA_TPRI\<close> flag is in priority order.
\<close>

definition flg_good :: "kstate \<Rightarrow> nat \<Rightarrow> bool" where
  "flg_good s i \<longleftrightarrow>
     (\<forall>t \<in> set (que s (FlgQ i)). flg_waiptn (winfo (tcb s t)) \<noteq> 0 \<and>
        \<not> knl_eventflag_cond (flgptn (flg s i)) (flg_waiptn (winfo (tcb s t))) (flg_wfmode (winfo (tcb s t)))) \<and>
     (flgatr (flg s i) AND TA_WMUL = 0 \<longrightarrow> length (que s (FlgQ i)) \<le> 1) \<and>
     (flgatr (flg s i) AND TA_TPRI \<noteq> 0 \<longrightarrow> pri_sorted s (FlgQ i) \<and>
        (\<forall>t \<in> set (que s (FlgQ i)). wspec (tcb s t) = Wspec_flg_tpri))"

interpretation flgw: wait_object NUM_FLGID "\<lambda>s i. flgid (flg s i)" free_flg "\<lambda>i. {FlgQ i}" flg flg_good
proof unfold_locales
  fix s s' :: kstate and i
  assume good: "flg_good s i" and cb: "flg s' i = flg s i"
    and q: "\<And>h. h \<in> {FlgQ i} \<Longrightarrow> que s' h = que s h"
    and v: "\<And>h t. h \<in> {FlgQ i} \<Longrightarrow> t \<in> set (que s h) \<Longrightarrow> tview (tcb s' t) = tview (tcb s t)"
  have v': "winfo (tcb s' t) = winfo (tcb s t)" "priority (tcb s' t) = priority (tcb s t)"
    "wspec (tcb s' t) = wspec (tcb s t)" if "t \<in> set (que s (FlgQ i))" for t
    using v[of "FlgQ i" t] that by (simp_all add: tview_def)
  have "pri_sorted s (FlgQ i) \<Longrightarrow> pri_sorted s' (FlgQ i)"
    by (rule pri_sorted_keep[of s]) (use q v in auto)
  then show "flg_good s' i" using good v' q unfolding flg_good_def cb by simp
qed simp

abbreviation flg_inv :: "kstate \<Rightarrow> bool" where "flg_inv \<equiv> flgw.inv"

subsection \<open>The abstract service\<close>

text \<open>
  What setting a flag promises: along the queue, every task whose condition holds on the pattern at that
  moment is served with that pattern, and the pattern is cleared as its wait mode says. The breaks of
  the code are not part of it.
\<close>

definition flg_after :: "UW \<Rightarrow> winfo \<Rightarrow> UW" where
  "flg_after p w = (if flg_wfmode w AND TWF_CLR \<noteq> 0 then 0
     else if flg_wfmode w AND TWF_BITCLR \<noteq> 0 then p AND NOT (flg_waiptn w) else p)"

fun flg_serve :: "(nat \<Rightarrow> winfo) \<Rightarrow> UW \<Rightarrow> nat list \<Rightarrow> (nat \<times> UW) list \<times> UW" where
  "flg_serve W p [] = ([], p)"
| "flg_serve W p (t # q) =
     (if knl_eventflag_cond p (flg_waiptn (W t)) (flg_wfmode (W t))
      then let (R, p') = flg_serve W (flg_after p (W t)) q in ((t, p) # R, p')
      else flg_serve W p q)"

lemma cond_zero: "w \<noteq> 0 \<Longrightarrow> \<not> knl_eventflag_cond 0 w m"
  by (simp add: knl_eventflag_cond_def)

lemma cond_mono:
  assumes "\<not> knl_eventflag_cond p w m" "p' AND p = p'"
  shows "\<not> knl_eventflag_cond p' w m"
proof (cases "m AND TWF_ORW \<noteq> 0")
  case True
  then have "p AND w = 0" using assms(1) by (simp add: knl_eventflag_cond_def)
  then have "p' AND w = 0" using assms(2) by (metis and.assoc and_zero_eq)
  then show ?thesis using True by (simp add: knl_eventflag_cond_def)
next
  case False
  show ?thesis
  proof
    assume "knl_eventflag_cond p' w m"
    then have "p' AND w = w" using False by (simp add: knl_eventflag_cond_def)
    then have "p AND w = w" using assms(2) by (metis and.assoc and.commute)
    then show False using False assms(1) by (simp add: knl_eventflag_cond_def)
  qed
qed

lemma flg_serve_Cons [simp]:
  "fst (flg_serve W p (t # q)) = (if knl_eventflag_cond p (flg_waiptn (W t)) (flg_wfmode (W t))
     then (t, p) # fst (flg_serve W (flg_after p (W t)) q) else fst (flg_serve W p q))"
  "snd (flg_serve W p (t # q)) = (if knl_eventflag_cond p (flg_waiptn (W t)) (flg_wfmode (W t))
     then snd (flg_serve W (flg_after p (W t)) q) else snd (flg_serve W p q))"
  by (simp_all split: prod.splits)

lemma and_ac_sub: "(p AND q) AND (p :: UW) = p AND q"
  by (metis and.assoc and.commute and.idem)

lemma flg_serve_zero: "(\<forall>t \<in> set q. flg_waiptn (W t) \<noteq> 0) \<Longrightarrow> flg_serve W 0 q = ([], 0)"
  by (induction q) (auto simp: cond_zero)

declare flg_serve.simps(2) [simp del]

lemma flg_after_sub: "flg_after p w AND p = flg_after p w"
  by (simp add: flg_after_def and.assoc) (metis and.assoc and.commute and.idem)

lemma flg_serve_sub: "snd (flg_serve W p q) AND p = snd (flg_serve W p q)"
proof (induction q arbitrary: p)
  case (Cons t q)
  show ?case
    using Cons[of p] Cons[of "flg_after p (W t)"] flg_after_sub[of p "W t"]
    by simp (metis and.assoc)
qed simp

lemma flg_serve_mem: "(u, v) \<in> set (fst (flg_serve W p q)) \<Longrightarrow> u \<in> set q"
  by (induction q arbitrary: p) (auto split: if_splits)

lemma flg_serve_set: "fst ` set (fst (flg_serve W p q)) \<subseteq> set q"
  using flg_serve_mem by fastforce

lemma flg_serve_distinct:
  "distinct q \<Longrightarrow> distinct (map fst (fst (flg_serve W p q)))"
  by (induction q arbitrary: p) (auto dest: flg_serve_mem)

lemma flg_serve_rest:
  assumes "t \<in> set q" "t \<notin> fst ` set (fst (flg_serve W p q))"
  shows "\<not> knl_eventflag_cond (snd (flg_serve W p q)) (flg_waiptn (W t)) (flg_wfmode (W t))"
  using assms
proof (induction q arbitrary: p)
  case (Cons u q)
  show ?case
  proof (cases "knl_eventflag_cond p (flg_waiptn (W u)) (flg_wfmode (W u))")
    case True
    then show ?thesis using Cons.IH[of "flg_after p (W u)"] Cons.prems by auto
  next
    case False
    show ?thesis
    proof (cases "t = u")
      case True
      then show ?thesis using cond_mono[OF False flg_serve_sub[of W p q]] False by simp
    next
      case F: False
      then show ?thesis using Cons.IH[of p] Cons.prems False by auto
    qed
  qed
qed simp

subsection \<open>The loop implements the service\<close>

lemma upd_flg_sel [simp]:
  "tcb (upd_flg i f s) = tcb s" "que (upd_flg i f s) = que s" "rq (upd_flg i f s) = rq s"
  "smp (upd_flg i f s) = smp s" "tmr (upd_flg i f s) = tmr s" "ercd (upd_flg i f s) = ercd s"
  "fault (upd_flg i f s) = fault s" "free_flg (upd_flg i f s) = free_flg s" "mem (upd_flg i f s) = mem s"
  "flg (upd_flg i f s) = (flg s)(i := f (flg s i))" "kwf (upd_flg i f s) = kwf s"
  by (simp_all add: upd_flg_def)

lemma rel_eff_upd_flg: "rel_eff R e (upd_flg i f s) s' \<longleftrightarrow> rel_eff R e s s'"
  by (simp add: rel_eff_def cong: if_cong)

lemma set_flg_loop_serve:
  assumes "kwf s" "set q \<subseteq> set (que s (FlgQ i))" "distinct q" "\<forall>t \<in> set q. flg_waiptn (winfo (tcb s t)) \<noteq> 0"
    and "(R, p) = flg_serve (\<lambda>t. winfo (tcb s t)) (flgptn (flg s i)) q"
    and "s' = set_flg_loop c i q s"
  shows "rel_eff (map fst R) (\<lambda>_. 0) s s' \<and> flg s' = (flg s)(i := (flg s i)\<lparr>flgptn := p\<rparr>) \<and>
    free_flg s' = free_flg s \<and>
    mem s' = fold (\<lambda>(t, v). st32 (flg_p_flgptn (winfo (tcb s t))) v) R (mem s)"
  using assms
proof (induction q arbitrary: s R p)
  case Nil
  then show ?case by (simp add: rel_eff_refl)
next
  case (Cons t q)
  let ?W = "\<lambda>t. winfo (tcb s t)" and ?w = "winfo (tcb s t)" and ?v = "flgptn (flg s i)"
  show ?case
  proof (cases "knl_eventflag_cond ?v (flg_waiptn ?w) (flg_wfmode ?w)")
    case False
    then show ?thesis using Cons.IH[of s R p] Cons.prems by (simp add: Let_def flg_serve.simps(2))
  next
    case True
    define s1 where "s1 = knl_wait_release_ok c t (s\<lparr>mem := st32 (flg_p_flgptn ?w) ?v (mem s)\<rparr>)"
    define s2 where "s2 = upd_flg i (\<lambda>F. F\<lparr>flgptn := flg_after ?v ?w\<rparr>) s1"
    define R' where "R' = fst (flg_serve ?W (flg_after ?v ?w) q)"
    have g: "flg_serve ?W (flg_after ?v ?w) q = (R', p)" "R = (t, ?v) # R'"
      using Cons.prems(5) True unfolding R'_def prod_eq_iff by simp_all
    have t: "t \<in> set (que s (FlgQ i))" "t \<notin> set q" using Cons.prems(2,3) by auto
    note w = ring_waiting[OF Cons.prems(1) t(1), simplified]
    have k1: "kwf s1" using kwf_wait_release_ok(2)[of "s\<lparr>mem := st32 (flg_p_flgptn ?w) ?v (mem s)\<rparr>" t c]
        Cons.prems(1) w(1,2) by (simp add: s1_def)
    have fl: "flg s1 = flg s" "free_flg s1 = free_flg s" "mem s1 = st32 (flg_p_flgptn ?w) ?v (mem s)"
      "\<And>u. winfo (tcb s1 u) = ?W u" by (simp_all add: s1_def)
    have "set q \<subseteq> set (que s1 (FlgQ i))"
      using Cons.prems(2) t(2) loc_okD(1)[OF kwfD(1)[OF Cons.prems(1)], of "FlgQ i"]
      by (auto simp: s1_def q_release_other)
    then have sub2: "set q \<subseteq> set (que s2 (FlgQ i))" by (simp add: s2_def)
    have same: "s1\<lparr>flg := flg s\<rparr> = s1" using fl(1) by (cases s1) simp
    have loop: "set_flg_loop c i (t # q) s = (if flg_wfmode ?w AND TWF_BITCLR \<noteq> 0 \<and> ?v AND NOT (flg_waiptn ?w) = 0
        then upd_flg i (\<lambda>F. F\<lparr>flgptn := 0\<rparr>) s1 else if flg_wfmode ?w AND TWF_CLR \<noteq> 0 then s2
        else set_flg_loop c i q s2)"
      using True
      by (simp add: same Let_def s1_def[symmetric] s2_def flg_after_def upd_flg_def fl(1))
    have nz: "\<forall>u \<in> set q. flg_waiptn (?W u) \<noteq> 0" using Cons.prems(4) by simp
    have fl2: "flg s2 = (flg s)(i := (flg s i)\<lparr>flgptn := flg_after ?v ?w\<rparr>)" by (simp add: s2_def fl(1))
    have k2: "kwf s2" using k1 by (simp add: s2_def)
    have rest: "rel_eff (map fst R') (\<lambda>_. 0) s2 s' \<and> flg s' = (flg s2)(i := (flg s2 i)\<lparr>flgptn := p\<rparr>) \<and>
      free_flg s' = free_flg s2 \<and>
      mem s' = fold (\<lambda>(t, v). st32 (flg_p_flgptn (winfo (tcb s2 t))) v) R' (mem s2)"
    proof (cases "flg_wfmode ?w AND TWF_BITCLR \<noteq> 0 \<and> ?v AND NOT (flg_waiptn ?w) = 0 \<or> flg_wfmode ?w AND TWF_CLR \<noteq> 0")
      case True
      then have z: "flg_after ?v ?w = 0" by (auto simp: flg_after_def)
      then have Rp: "R' = []" "p = 0" using g(1) flg_serve_zero[OF nz] by simp_all
      have "s' = s2" using Cons.prems(6) loop True z by (auto simp: s2_def)
      then show ?thesis using k2 Rp z fl2 by (auto simp: rel_eff_refl)
    next
      case False
      then have s': "s' = set_flg_loop c i q s2" using Cons.prems(6) loop by auto
      have W2: "(\<lambda>t. winfo (tcb s2 t)) = ?W" using fl(4) by (simp add: s2_def)
      have v2: "flgptn (flg s2 i) = flg_after ?v ?w" using fl2 by simp
      show ?thesis
        by (rule Cons.IH[OF k2 sub2 _ _ _ s']) (use Cons.prems(3) nz g(1) W2 v2 fl(4) in \<open>simp_all add: s2_def\<close>)
    qed
    have tR: "t \<notin> set (map fst R')"
      using flg_serve_mem[of t _ ?W "flg_after ?v ?w" q] t(2) by (auto simp: R'_def)
    have st: "rel_eff (t # map fst R') (\<lambda>_. 0) s s'"
      by (rule rel_eff_ring_step[OF Cons.prems(1) t(1) _ _ _ tR, of _ s2 _ "s\<lparr>mem := st32 (flg_p_flgptn ?w) ?v (mem s)\<rparr>" c])
        (use rest in \<open>simp_all add: s2_def s1_def wait_release_ok_eq\<close>)
    have "free_flg s2 = free_flg s" "mem s2 = st32 (flg_p_flgptn ?w) ?v (mem s)"
      "\<And>u. winfo (tcb s2 u) = ?W u" using fl by (simp_all add: s2_def)
    moreover have "flg s' = (flg s)(i := (flg s i)\<lparr>flgptn := p\<rparr>)" using rest by (auto simp: fl2 fun_eq_iff)
    ultimately show ?thesis using rest st g(2) by simp
  qed
qed

subsection \<open>Preservation of the invariant\<close>

lemma get_flgcb_less: "CHK_FLGID x \<Longrightarrow> get_flgcb x < NUM_FLGID \<and> int (get_flgcb x) + 1 = x"
  by (auto simp: CHK_FLGID_def get_flgcb_def)

lemma flg_inv_end_cs [simp]: "flg_inv (END_CRITICAL_SECTION c s) = flg_inv s"
  by (simp add: obj_inv_def flg_good_def pri_sorted_def)

lemma set_flg_effect:
  assumes k: "kwf s" and inv: "flg_inv s" and x: "CHK_FLGID x" "flgid (flg s (get_flgcb x)) \<noteq> 0"
    and i: "i = get_flgcb x"
    and g: "(R, p) = flg_serve (\<lambda>t. winfo (tcb s t)) (flgptn (flg s i) OR ptn) (que s (FlgQ i))"
    and s': "s' = fst (tk_set_flg c x ptn s)"
  shows "snd (tk_set_flg c x ptn s) = E_OK" "rel_eff (map fst R) (\<lambda>_. 0) s s'"
    "flg s' = (flg s)(i := (flg s i)\<lparr>flgptn := p\<rparr>)"
    "mem s' = fold (\<lambda>(t, v). st32 (flg_p_flgptn (winfo (tcb s t))) v) R (mem s)"
    "flg_inv s'"
proof -
  let ?s0 = "upd_flg i (\<lambda>F. F\<lparr>flgptn := flgptn F OR ptn\<rparr>) s"
  let ?s1 = "set_flg_loop c i (que s (FlgQ i)) ?s0"
  have eq: "tk_set_flg c x ptn s = (END_CRITICAL_SECTION c ?s1, E_OK)"
    using x by (simp add: tk_set_flg_def i Let_def)
  then have s1: "s' = END_CRITICAL_SECTION c ?s1" using s' by simp
  have iN: "i < NUM_FLGID" using get_flgcb_less[OF x(1)] by (simp add: i)
  have good: "flg_good s i" using flgw.inv_good[OF inv iN] x(2) i by simp
  have nz: "\<forall>t \<in> set (que s (FlgQ i)). flg_waiptn (winfo (tcb s t)) \<noteq> 0" using good by (simp add: flg_good_def)
  have L: "rel_eff (map fst R) (\<lambda>_. 0) ?s0 ?s1 \<and> flg ?s1 = (flg ?s0)(i := (flg ?s0 i)\<lparr>flgptn := p\<rparr>) \<and>
    free_flg ?s1 = free_flg ?s0 \<and> mem ?s1 = fold (\<lambda>(t, v). st32 (flg_p_flgptn (winfo (tcb ?s0 t))) v) R (mem ?s0)"
    by (rule set_flg_loop_serve) (use k nz g distinct_ring[OF k] in simp_all)
  then have r: "rel_eff (map fst R) (\<lambda>_. 0) s ?s1" using rel_eff_upd_flg by blast
  show "snd (tk_set_flg c x ptn s) = E_OK" by (simp add: eq)
  show r': "rel_eff (map fst R) (\<lambda>_. 0) s s'" using r by (simp add: s1 rel_eff_def)
  show f': "flg s' = (flg s)(i := (flg s i)\<lparr>flgptn := p\<rparr>)"
    by (rule ext) (use L in \<open>simp add: s1\<close>)
  show "mem s' = fold (\<lambda>(t, v). st32 (flg_p_flgptn (winfo (tcb s t))) v) R (mem s)" using L by (simp add: s1)
  note rs = rel_eff_state[OF r']
  have sub: "set (map fst R) \<subseteq> set (que s (FlgQ i))"
    using flg_serve_set[of "\<lambda>t. winfo (tcb s t)" "flgptn (flg s i) OR ptn" "que s (FlgQ i)"] g
    by (metis fst_conv set_map)
  have q': "que s' (FlgQ i) = filter (\<lambda>t. t \<notin> set (map fst R)) (que s (FlgQ i))" using rs(4)[of "FlgQ i"] by simp
  have "flg_good s' i"
    unfolding flg_good_def
  proof (intro conjI impI ballI)
    fix t assume t: "t \<in> set (que s' (FlgQ i))"
    show "flg_waiptn (winfo (tcb s' t)) \<noteq> 0" using t nz q' by (simp add: rs(7))
    show "\<not> knl_eventflag_cond (flgptn (flg s' i)) (flg_waiptn (winfo (tcb s' t))) (flg_wfmode (winfo (tcb s' t)))"
      using flg_serve_rest[of t "que s (FlgQ i)" "\<lambda>t. winfo (tcb s t)" "flgptn (flg s i) OR ptn"] t q'
      unfolding g[symmetric] f' rs(7) by simp
  next
    assume "flgatr (flg s' i) AND TA_WMUL = 0"
    then have "length (que s (FlgQ i)) \<le> 1" using good by (simp add: flg_good_def f')
    then show "length (que s' (FlgQ i)) \<le> 1" unfolding q' by (meson length_filter_le order_trans)
  next
    assume a: "flgatr (flg s' i) AND TA_TPRI \<noteq> 0"
    then have o: "pri_sorted s (FlgQ i)" "\<forall>t \<in> set (que s (FlgQ i)). wspec (tcb s t) = Wspec_flg_tpri"
      using good by (simp_all add: flg_good_def f')
    show "pri_sorted s' (FlgQ i)"
      by (rule pri_sorted_filter[OF o(1) q']) (simp add: tview_def rs(7-9))
    show "wspec (tcb s' t) = Wspec_flg_tpri" if "t \<in> set (que s' (FlgQ i))" for t
      using that o(2) q' by (simp add: rs(9))
  qed
  moreover have "flgw.same s s' j" if "j \<noteq> i" for j
    by (rule flgw.same_released[OF r' k sub]) (use that in \<open>auto simp: f'\<close>)
  ultimately show "flg_inv s'"
    using flgw.inv_upd[OF flgw.inv_but[OF inv] iN, of s'] x(2) i L by (simp add: f' s1)
qed

lemma set_flg_inv:
  assumes "kwf s" "flg_inv s"
  shows "kwf (fst (tk_set_flg c x ptn s)) \<and> flg_inv (fst (tk_set_flg c x ptn s))"
proof (cases "CHK_FLGID x \<and> flgid (flg s (get_flgcb x)) \<noteq> 0")
  case True
  from set_flg_effect[OF assms conjunct1[OF True] conjunct2[OF True] refl prod.collapse refl, where c = c and ptn = ptn]
  show ?thesis using rel_eff_state(1) by blast
qed (use assms in \<open>auto simp: tk_set_flg_def Let_def\<close>)

lemma clr_flg_inv:
  assumes "kwf s" "flg_inv s"
  shows "kwf (fst (tk_clr_flg c x ptn s)) \<and> flg_inv (fst (tk_clr_flg c x ptn s))"
proof (cases "CHK_FLGID x \<and> flgid (flg s (get_flgcb x)) \<noteq> 0")
  case True
  define i where "i = get_flgcb x"
  let ?s = "upd_flg i (\<lambda>F. F\<lparr>flgptn := flgptn F AND ptn\<rparr>) s"
  have iN: "i < NUM_FLGID" "flgid (flg s i) \<noteq> 0" using True get_flgcb_less[of x] by (auto simp: i_def)
  have good: "flg_good s i" by (rule flgw.inv_good[OF assms(2) iN])
  have "flg_good ?s i"
    using good cond_mono[OF _ and_ac_sub, of "flgptn (flg s i)" _ _ ptn]
    by (auto simp: flg_good_def pri_sorted_def)
  then have "flg_inv ?s"
    by (intro flgw.inv_upd[OF flgw.inv_but[OF assms(2)] iN]) (auto simp: flgw.same_def)
  then show ?thesis using True assms(1) by (simp add: tk_clr_flg_def i_def Let_def)
qed (use assms in \<open>auto simp: tk_clr_flg_def Let_def\<close>)

lemma wai_flg_inv:
  assumes k: "kwf s" and inv: "flg_inv s" and ca: "caller_ok c s" and i: "i < NUM_FLGID" and w0: "waiptn \<noteq> 0"
    and r: "wai_flg_cs c i waiptn wfmode pp tmout s = (s', r)"
  shows "kwf s'" "flg_inv s'"
proof -
  let ?t = "cur c s" and ?F = "flg s i"
  let ?no = "flgid ?F = 0 \<or> flgatr ?F AND TA_WMUL = 0 \<and> que s (FlgQ i) \<noteq> []"
  consider "?no" | "\<not> ?no" "knl_eventflag_cond (flgptn ?F) waiptn wfmode"
    | "\<not> ?no" "\<not> knl_eventflag_cond (flgptn ?F) waiptn wfmode" by blast
  then have "kwf s' \<and> flg_inv s'"
  proof cases
    case 1
    then have "s' = s" using r by (auto simp: wai_flg_cs_def Let_def split: if_splits)
    then show ?thesis using k inv by simp
  next
    case 2
    define p where "p = (if wfmode AND TWF_CLR \<noteq> 0 then 0 else if wfmode AND TWF_BITCLR \<noteq> 0
      then flgptn ?F AND NOT waiptn else flgptn ?F)"
    have f': "flg s' = (flg s)(i := ?F\<lparr>flgptn := p\<rparr>)" and o: "que s' = que s" "tcb s' = tcb s" "rq s' = rq s"
      "smp s' = smp s" "free_flg s' = free_flg s"
      using r 2 by (auto simp: wai_flg_cs_def Let_def p_def fun_eq_iff upd_flg_def)
    have good: "flg_good s i" using flgw.inv_good[OF inv i] 2 by simp
    have sub: "p AND flgptn ?F = p" by (auto simp: p_def and_ac_sub)
    have "flg_good s' i"
      using good cond_mono[OF _ sub] by (auto simp: flg_good_def pri_sorted_def o f')
    then have "flg_inv s'"
      using 2 by (intro flgw.inv_upd[OF flgw.inv_but[OF inv] i]) (auto simp: flgw.same_def f' o)
    moreover have "kwf s'" using k by (simp add: kwf_def o)
    ultimately show ?thesis by simp
  next
    case 3
    define w where "w = (if flgatr ?F AND TA_TPRI \<noteq> 0 then Wspec_flg_tpri else Wspec_flg_tfifo)"
    define f where "f = (winfo (tcb s ?t))\<lparr>flg_waiptn := waiptn, flg_wfmode := wfmode, flg_p_flgptn := pp\<rparr>"
    let ?T = "(tcb s ?t)\<lparr>wspec := w, wercd := Some ?t, winfo := f\<rparr>"
    let ?s1 = "s\<lparr>tcb := (tcb s)(?t := ?T)\<rparr>"
    have s': "s' = knl_gcb_make_wait c (FlgQ i) (flgid ?F) (flgatr ?F) tmout ?s1"
      using r 3 by (auto simp: wai_flg_cs_def Let_def w_def f_def)
    have idi: "flgid ?F = int i + 1" using flgw.inv_oid[OF inv i] 3 by simp
    have good: "flg_good s i" using flgw.inv_good[OF inv i] 3 by simp
    have wr: "wait_ring w (nat (flgid ?F - 1)) = Some (FlgQ i)" by (simp add: w_def idi)
    note ow = obj_wait[OF k ca refl refl refl wr s']
    have fresh: "?t \<notin> set (que s (FlgQ j))" for j by (rule ow(2)) simp
    show ?thesis
    proof (cases "tmout = TMO_POL")
      case True
      have "flg_inv s'"
        by (rule flgw.inv_keep[OF inv]) (use fresh in \<open>auto simp: ow(7)[OF True] flgw.same_def\<close>)
      then show ?thesis using ow(1) by simp
    next
      case False
      let ?xs = "if flgatr ?F AND TA_TPRI \<noteq> 0
        then insert_before (\<lambda>u. priority (tcb s u) > priority (tcb s ?t)) ?t (que s (FlgQ i))
        else que s (FlgQ i) @ [?t]"
      have qi: "que s' (FlgQ i) = ?xs" using ow(3)[OF False] .
      have tc: "winfo (tcb s' u) = (if u = ?t then f else winfo (tcb s u))"
        "priority (tcb s' u) = priority (tcb s u)"
        "wspec (tcb s' u) = (if u = ?t then w else wspec (tcb s u))" for u
        using ow(5)[OF False] by auto
      have fl: "flg s' = flg s" "free_flg s' = free_flg s" by (simp_all add: s')
      have set: "set ?xs = insert ?t (set (que s (FlgQ i)))" by auto
      have len: "length ?xs = Suc (length (que s (FlgQ i)))" by simp
      have "flg_good s' i"
        unfolding flg_good_def
      proof (intro conjI impI ballI)
        fix u assume u: "u \<in> set (que s' (FlgQ i))"
        then show "flg_waiptn (winfo (tcb s' u)) \<noteq> 0"
          using w0 good unfolding qi set tc by (auto simp: flg_good_def f_def)
        show "\<not> knl_eventflag_cond (flgptn (flg s' i)) (flg_waiptn (winfo (tcb s' u))) (flg_wfmode (winfo (tcb s' u)))"
          using u 3 good unfolding qi set tc fl by (auto simp: flg_good_def f_def)
      next
        assume "flgatr (flg s' i) AND TA_WMUL = 0"
        then show "length (que s' (FlgQ i)) \<le> 1" using 3 unfolding qi len fl by simp
      next
        assume a: "flgatr (flg s' i) AND TA_TPRI \<noteq> 0"
        then have "que s' (FlgQ i) = insert_before (\<lambda>u. priority (tcb s u) > priority (tcb s ?t)) ?t (que s (FlgQ i))"
          unfolding qi fl by simp
        then show "pri_sorted s' (FlgQ i)"
          using pri_sorted_insert[of s "FlgQ i" s' ?t] good a by (simp add: flg_good_def fl tc)
        show "wspec (tcb s' u) = Wspec_flg_tpri" if "u \<in> set (que s' (FlgQ i))" for u
          using that good a unfolding qi set tc fl by (auto simp: flg_good_def w_def)
      qed
      moreover have "flgw.same s s' j" if "j \<noteq> i" for j
        by (rule flgw.same_wait[of _ _ _ ?t]) (use that fresh ow(4,5)[OF False] fl in auto)
      ultimately have "flg_inv s'"
        using 3 by (intro flgw.inv_upd[OF flgw.inv_but[OF inv] i]) (simp_all add: fl)
      then show ?thesis using ow(1) by simp
    qed
  qed
  then show "kwf s'" "flg_inv s'" by auto
qed

lemma cre_flg_inv:
  assumes "kwf s" "flg_inv s"
  shows "kwf (fst (tk_cre_flg c pk s)) \<and> flg_inv (fst (tk_cre_flg c pk s))"
proof (cases "cf_flgatr pk AND NOT (TA_TPRI OR TA_WMUL) \<noteq> 0 \<or> free_flg s = []")
  case True
  then show ?thesis using assms by (auto simp: tk_cre_flg_def)
next
  case False
  then obtain i rest where f: "free_flg s = i # rest" by (cases "free_flg s") auto
  let ?F = "\<lparr>flgid = int i + 1, flg_exinf = cf_exinf pk, flgatr = cf_flgatr pk, flgptn = cf_iflgptn pk\<rparr>"
  let ?s = "upd_flg i (\<lambda>_. ?F) (upd_que (\<lambda>Q. Q(FlgQ i := [])) (s\<lparr>free_flg := rest\<rparr>))"
  have e: "que s (FlgQ i) = []" using flgw.inv_ring[OF assms(2), of "FlgQ i" i] assms(2) f
    by (auto simp: obj_inv_def table_ok_def)
  then have q: "(que s)(FlgQ i := []) = que s" by auto
  have "flg_inv ?s"
    by (rule flgw.inv_alloc[OF assms(2) f]) (auto simp: q flg_good_def pri_sorted_def)
  moreover have "kwf ?s" using assms(1) by (simp add: q)
  ultimately show ?thesis using False f by (simp add: tk_cre_flg_def Let_def)
qed

lemma del_flg_effect:
  assumes k: "kwf s" and inv: "flg_inv s" and x: "CHK_FLGID x" "flgid (flg s (get_flgcb x)) \<noteq> 0"
  defines "i \<equiv> get_flgcb x"
  shows "snd (tk_del_flg c x s) = E_OK" "rel_eff (que s (FlgQ i)) (\<lambda>_. E_DLT) s (fst (tk_del_flg c x s))"
    "flg_inv (fst (tk_del_flg c x s))"
proof -
  let ?w = "knl_wait_delete c (FlgQ i) s"
  let ?s = "upd_flg i (flgid_update (\<lambda>_. 0)) (?w\<lparr>free_flg := free_flg s @ [i]\<rparr>)"
  have eq: "tk_del_flg c x s = (END_CRITICAL_SECTION c ?s, E_OK)"
    using x by (simp add: tk_del_flg_def i_def Let_def)
  have iN: "i < NUM_FLGID" using get_flgcb_less[OF x(1)] by (simp add: i_def)
  have w: "rel_eff (que s (FlgQ i)) (\<lambda>_. E_DLT) s ?w" by (rule wait_delete_released[OF k]) auto
  then have w': "rel_eff (que s (FlgQ i)) (\<lambda>_. E_DLT) s ?s" by (simp add: rel_eff_def)
  show "snd (tk_del_flg c x s) = E_OK" by (simp add: eq)
  show "rel_eff (que s (FlgQ i)) (\<lambda>_. E_DLT) s (fst (tk_del_flg c x s))"
    using w' by (simp add: eq rel_eff_def)
  have "flg_inv ?s"
  proof (rule flgw.inv_release[OF inv iN])
    show "flgw.same s ?s j" if "j \<noteq> i" for j
      by (rule flgw.same_released[OF w' k order_refl]) (use that in auto)
    show "que ?s h = []" if "h \<in> {FlgQ i}" for h using rel_eff_state(4)[OF w', of "FlgQ i"] that by simp
  qed (use x(2) in \<open>auto simp: i_def\<close>)
  then show "flg_inv (fst (tk_del_flg c x s))" by (simp add: eq)
qed

text \<open>A waiter whose priority has changed is moved to its place in the queue.\<close>

lemma flg_chg_pri_inv:
  assumes k: "kwf s0" and inv: "flg_inv s0" and t: "t \<in> set (que s0 (FlgQ i))" and p: "p < NUM_TSKPRI"
    and s: "s = upd_tcb t (priority_update (\<lambda>_. p)) s0"
  shows "kwf (flg_chg_pri t oldpri s) \<and> flg_inv (flg_chg_pri t oldpri s)"
proof -
  note w = ring_waiting[OF k t, simplified]
  have i: "i < NUM_FLGID" "flgid (flg s0 i) \<noteq> 0" using flgw.inv_ring[OF inv, of "FlgQ i" i] t by fastforce+
  have ws: "get_flgcb (wid (tcb s0 t)) = i"
    using w(3) by (cases "wspec (tcb s0 t)") (auto simp: wring_def get_flgcb_def)
  have nr: "state (tcb s0 t) \<noteq> TS_READY" using w(2) by auto
  have ks: "kwf s" unfolding s by (rule kwf_set_priority[OF k w(1) nr p])
  have ts: "t \<in> set (que s (FlgQ i))" using t by (simp add: s)
  let ?s1 = "knl_gcb_change_priority (FlgQ i) t s"
  have eq: "flg_chg_pri t oldpri s = ?s1" using ws by (simp add: flg_chg_pri_def s)
  have k1: "kwf ?s1" by (rule kwf_gcb_change_priority[OF ks ts]) auto
  let ?xs = "insert_before (\<lambda>u. priority (tcb s u) > priority (tcb s t)) t (remove1 t (que s (FlgQ i)))"
  note q1 = gcb_change_priority_que[OF ks ts]
  have d: "distinct (que s0 (FlgQ i))" by (rule distinct_ring[OF k])
  have set: "set ?xs = set (que s0 (FlgQ i))" using t d by (auto simp: s)
  have len: "length ?xs = length (que s0 (FlgQ i))"
    using t by (simp add: s length_remove1) (metis One_nat_def Suc_pred length_pos_if_in_set)
  have same: "winfo (tcb s u) = winfo (tcb s0 u)" "wspec (tcb s u) = wspec (tcb s0 u)" "que s = que s0"
    "flg s = flg s0" "free_flg s = free_flg s0" for u by (simp_all add: s)
  have oth: "priority (tcb s u) = priority (tcb s0 u)" if "u \<noteq> t" for u using that by (simp add: s)
  have good: "flg_good s0 i" by (rule flgw.inv_good[OF inv i])
  have "flg_good ?s1 i"
    unfolding flg_good_def
  proof (intro conjI impI ballI)
    fix u assume "u \<in> set (que ?s1 (FlgQ i))"
    then have u: "u \<in> set (que s0 (FlgQ i))" using set q1 by auto
    show "flg_waiptn (winfo (tcb ?s1 u)) \<noteq> 0"
      "\<not> knl_eventflag_cond (flgptn (flg ?s1 i)) (flg_waiptn (winfo (tcb ?s1 u))) (flg_wfmode (winfo (tcb ?s1 u)))"
      using good u by (auto simp: flg_good_def same)
  next
    assume "flgatr (flg ?s1 i) AND TA_WMUL = 0"
    then show "length (que ?s1 (FlgQ i)) \<le> 1" using good len by (simp add: flg_good_def same q1)
  next
    assume a: "flgatr (flg ?s1 i) AND TA_TPRI \<noteq> 0"
    show "wspec (tcb ?s1 u) = Wspec_flg_tpri" if "u \<in> set (que ?s1 (FlgQ i))" for u
      using that set good a by (auto simp: flg_good_def same q1)
    have "sorted (map (\<lambda>u. priority (tcb s0 u)) (remove1 t (que s0 (FlgQ i))))"
      using good a by (auto simp: flg_good_def pri_sorted_def same intro: sorted_map_remove1)
    then have "sorted (map (\<lambda>u. priority (tcb s u)) (remove1 t (que s (FlgQ i))))"
      unfolding same(3) by (rule sorted_map_keep) (use oth d in auto)
    from sorted_tpri[OF this, of t] show "pri_sorted ?s1 (FlgQ i)"
      by (simp add: pri_sorted_def q1)
  qed
  moreover have "flgw.same s0 ?s1 j" if "j \<noteq> i" for j
  proof (rule flgw.same_wait[of _ _ _ t])
    show "que ?s1 h = que s0 h" if "h \<in> {FlgQ j}" for h using that \<open>j \<noteq> i\<close> q1 by (simp add: same(3))
    show "t \<notin> set (que s0 h)" if "h \<in> {FlgQ j}" for h
      using that \<open>j \<noteq> i\<close> not_in_other_ring[OF k t, of h] by auto
    show "tcb ?s1 u = tcb s0 u" if "u \<noteq> t" for u using that by (simp add: s)
  qed (simp add: same)
  ultimately have "flg_inv ?s1"
    using i by (intro flgw.inv_upd[OF flgw.inv_but[OF inv] i(1)]) (simp_all add: same)
  then show ?thesis using k1 eq by simp
qed

text \<open>A waiter that leaves the queue by a timeout or by force needs no further action.\<close>

lemma flg_leave_inv:
  assumes k: "kwf s0" and inv: "flg_inv s0"
    and s: "flg s = flg s0" "free_flg s = free_flg s0" "\<And>j. que s (FlgQ j) = remove1 t (que s0 (FlgQ j))"
      "\<And>u. u \<noteq> t \<Longrightarrow> tview (tcb s u) = tview (tcb s0 u)"
  shows "flg_inv s"
  unfolding obj_inv_def
proof (intro conjI allI impI)
  show "table_ok NUM_FLGID (\<lambda>i. flgid (flg s i)) (free_flg s) (\<lambda>i. {FlgQ i}) (que s)"
    by (rule table_ok_cong[of _ "\<lambda>i. flgid (flg s0 i)" "free_flg s0" _ "que s0"])
      (use inv s(1-3) in \<open>auto simp: obj_inv_def\<close>)
  fix i assume i: "i < NUM_FLGID" "flgid (flg s i) \<noteq> 0"
  have good: "flg_good s0 i" using flgw.inv_good[OF inv i(1)] i(2) s(1) by simp
  have d: "distinct (que s0 (FlgQ i))" by (rule distinct_ring[OF k])
  have v: "winfo (tcb s u) = winfo (tcb s0 u)" "wspec (tcb s u) = wspec (tcb s0 u)"
    "priority (tcb s u) = priority (tcb s0 u)" "u \<in> set (que s0 (FlgQ i))" if "u \<in> set (que s (FlgQ i))" for u
    using s(4)[of u] that d s(3)[of i] by (auto simp: tview_def)
  have "length (que s (FlgQ i)) \<le> length (que s0 (FlgQ i))" by (simp add: s(3) length_remove1)
  moreover have "pri_sorted s (FlgQ i)" if "pri_sorted s0 (FlgQ i)"
    unfolding pri_sorted_def
    by (rule sorted_map_keep[of "\<lambda>t. priority (tcb s0 t)"])
      (use that v(3) in \<open>auto simp: pri_sorted_def s(3) intro: sorted_map_remove1\<close>)
  ultimately show "flg_good s i" using good v unfolding flg_good_def s(1) by (auto dest: order_trans)
qed

subsection \<open>Properties\<close>

definition ex_flg :: kstate where
  "ex_flg = (ex_state Wspec_flg_tfifo (ex_winfo\<lparr>flg_waiptn := 6, flg_wfmode := TWF_BITCLR\<rparr>) (FlgQ 0))\<lparr>
     flg := (\<lambda>_. \<lparr>flgid = 0, flg_exinf = 0, flgatr = 0, flgptn = 0\<rparr>)
       (0 := \<lparr>flgid = 1, flg_exinf = 0, flgatr = 8, flgptn = 2\<rparr>),
     free_flg := [1..<NUM_FLGID]\<rparr>"

lemma ex_flg_inv: "kwf ex_flg" "flg_inv ex_flg" "caller_ok 0 ex_flg"
proof -
  show "kwf ex_flg" using kwf_ex_state[of Wspec_flg_tfifo "FlgQ 0"] by (simp add: ex_flg_def)
  show "flg_inv ex_flg"
    unfolding obj_inv_def table_ok_def
    by (auto simp: ex_flg_def flg_good_def knl_eventflag_cond_def ex_wait_def ex_winfo_def size_defs split: if_splits)
  show "caller_ok 0 ex_flg" using ex_caller_ok by (simp add: ex_flg_def caller_ok_def)
qed

text \<open>
  C22. \<open>tk_set_flg\<close> implements the abstract service, in which every waiting task is asked in turn: exactly
  the tasks whose condition holds at their turn are released with \<open>E_OK\<close>, each finds the pattern of its
  turn behind its pointer, and the flag keeps the pattern that their wait modes leave. The early exits
  of the loop skip nobody.
\<close>

theorem set_flg_refines_serve:
  assumes "kwf s" "flg_inv s" "CHK_FLGID x" "i = get_flgcb x" "flgid (flg s i) \<noteq> 0"
    and "(R, p) = flg_serve (\<lambda>t. winfo (tcb s t)) (flgptn (flg s i) OR setptn) (que s (FlgQ i))"
    and "tk_set_flg c x setptn s = (s', er)"
  shows "er = E_OK \<and> rel_eff (map fst R) (\<lambda>_. E_OK) s s' \<and> flg s' = (flg s)(i := (flg s i)\<lparr>flgptn := p\<rparr>) \<and>
    mem s' = fold (\<lambda>(t, v). st32 (flg_p_flgptn (winfo (tcb s t))) v) R (mem s)"
  using set_flg_effect(1-4)[OF assms(1-3) _ assms(4,6) refl, of c] assms(4,5,7) by simp

theorem set_flg_refines_serve_witness:
  "snd (tk_set_flg 0 1 5 ex_flg) = E_OK \<and> rel_eff [1] (\<lambda>_. E_OK) ex_flg (fst (tk_set_flg 0 1 5 ex_flg)) \<and>
   flgptn (flg (fst (tk_set_flg 0 1 5 ex_flg)) 0) = 1 \<and>
   ld32 0x20000000 (mem (fst (tk_set_flg 0 1 5 ex_flg))) = 7"
proof -
  have "([(1, 7)], 1) = flg_serve (\<lambda>t. winfo (tcb ex_flg t)) (flgptn (flg ex_flg 0) OR 5) (que ex_flg (FlgQ 0))"
    by (simp add: ex_flg_def ex_wait_def knl_eventflag_cond_def flg_after_def flg_serve.simps(2))
  from set_flg_refines_serve[OF ex_flg_inv(1,2) _ _ _ this prod.collapse[symmetric], of 1 0]
  show ?thesis by (simp add: CHK_FLGID_def get_flgcb_def size_defs ex_flg_def ex_wait_def ex_winfo_def)
qed

text \<open>
  The event flag operations keep the event flag invariant: after each of them nobody whose release
  condition holds is waiting, at most one task waits at a flag without \<open>TA_WMUL\<close>, and the queues of
  \<open>TA_TPRI\<close> flags are in priority order.
\<close>

theorem flg_ops_invariant:
  assumes "kwf s" "flg_inv s"
  shows "flg_inv (fst (tk_cre_flg c pk s)) \<and> flg_inv (fst (tk_del_flg c x s)) \<and>
    flg_inv (fst (tk_set_flg c x ptn s)) \<and> flg_inv (fst (tk_clr_flg c x ptn s)) \<and>
    (caller_ok c s \<longrightarrow> flg_inv (fst (tk_wai_flg c x ptn wfmode pp tmout s)))"
proof -
  have del: "flg_inv (fst (tk_del_flg c x s))"
  proof (cases "CHK_FLGID x \<and> flgid (flg s (get_flgcb x)) \<noteq> 0")
    case True
    then show ?thesis using del_flg_effect(3)[OF assms] by simp
  qed (use assms in \<open>auto simp: tk_del_flg_def Let_def\<close>)
  have wai: "flg_inv (fst (tk_wai_flg c x ptn wfmode pp tmout s))" if ca: "caller_ok c s"
  proof (cases "CHK_FLGID x \<and> ptn \<noteq> 0")
    case True
    then have "flg_inv (fst (wai_flg_cs c (get_flgcb x) ptn wfmode pp tmout s))"
      using wai_flg_inv(2)[OF assms ca _ _ surjective_pairing] get_flgcb_less[of x] by blast
    then show ?thesis using assms(2) by (auto simp: tk_wai_flg_def split: prod.splits)
  qed (use assms in \<open>auto simp: tk_wai_flg_def\<close>)
  show ?thesis using cre_flg_inv[OF assms] set_flg_inv[OF assms] clr_flg_inv[OF assms] del wai by blast
qed

theorem flg_ops_invariant_witness:
  "flg_inv (fst (tk_set_flg 0 1 4 ex_flg)) \<and> flg_inv (fst (tk_wai_flg 0 1 8 0 0x20000000 100 ex_flg))"
  using flg_ops_invariant[OF ex_flg_inv(1,2), where c = 0 and x = 1 and ptn = 4]
    flg_ops_invariant[OF ex_flg_inv(1,2), where c = 0 and x = 1 and ptn = 8] ex_flg_inv(3) by blast

end
