(* ===== verification/Mailbox.thy ===== *)
theory Mailbox
  imports Wait_Object Example_State Memory_Words
begin

text \<open>
  \<^verbatim>\<open>kernel/tkernel/mailbox.c\<close>, \<^verbatim>\<open>mailbox.h\<close>. A mailbox queues the messages themselves: the first word of a
  message is the link to the next one, so the queue lies in the memory of the senders. The model keeps
  the links and the priorities in \<open>mem\<close>, and \<open>msg_list\<close> reads the queue back as a list of addresses.
\<close>

subsection \<open>Operations\<close>

abbreviation (input) TA_MPRI :: UW where "TA_MPRI \<equiv> 2"

definition CHK_MBXID :: "int \<Rightarrow> bool" where
  "CHK_MBXID x \<longleftrightarrow> 1 \<le> x \<and> x \<le> int NUM_MBXID"

definition get_mbxcb :: "int \<Rightarrow> nat" where "get_mbxcb x = nat (x - 1)"

definition upd_mbx :: "nat \<Rightarrow> (mbxcb \<Rightarrow> mbxcb) \<Rightarrow> kstate \<Rightarrow> kstate" where
  "upd_mbx i f s = s\<lparr>mbx := (mbx s)(i := f (mbx s i))\<rparr>"

definition knl_mailbox_initialize :: "kstate \<Rightarrow> kstate" where
  "knl_mailbox_initialize s =
     fold (\<lambda>i s. let s = upd_mbx i (mbxid_update (\<lambda>_. 0)) s in s\<lparr>free_mbx := free_mbx s @ [i]\<rparr>)
       [0..<NUM_MBXID] (s\<lparr>free_mbx := []\<rparr>)"

definition nextmsg :: "(UW \<Rightarrow> UB) \<Rightarrow> UW \<Rightarrow> UW" where
  "nextmsg m p = ld32 p m"

definition msgpri :: "(UW \<Rightarrow> UB) \<Rightarrow> UW \<Rightarrow> int" where
  "msgpri m p = sint (ld32 (p + 4) m)"

record t_cmbx =
  cm_exinf :: UW
  cm_mbxatr :: UW

definition tk_cre_mbx :: "nat \<Rightarrow> t_cmbx \<Rightarrow> kstate \<Rightarrow> kstate \<times> int" where
  "tk_cre_mbx c pk s =
     (if cm_mbxatr pk AND NOT (TA_MPRI OR TA_TPRI) \<noteq> 0 then (s, E_RSATR)
      else
        let (s, ercd) =
          (case free_mbx s of
             [] \<Rightarrow> (s, E_LIMIT)
           | i # rest \<Rightarrow>
               (upd_mbx i (\<lambda>M. M\<lparr>mbxid := int i + 1, mbx_exinf := cm_exinf pk, mbxatr := cm_mbxatr pk,
                                 mq_head := 0\<rparr>)
                  (upd_que (\<lambda>Q. Q(MbxQ i := [])) (s\<lparr>free_mbx := rest\<rparr>)), int i + 1))
        in (END_CRITICAL_SECTION c s, ercd))"

definition tk_del_mbx :: "nat \<Rightarrow> int \<Rightarrow> kstate \<Rightarrow> kstate \<times> int" where
  "tk_del_mbx c xid s =
     (if \<not> CHK_MBXID xid then (s, E_ID)
      else
        let i = get_mbxcb xid;
            (s, ercd) =
              (if mbxid (mbx s i) = 0 then (s, E_NOEXS)
               else let s = knl_wait_delete c (MbxQ i) s;
                        s = s\<lparr>free_mbx := free_mbx s @ [i]\<rparr>
                    in (upd_mbx i (mbxid_update (\<lambda>_. 0)) s, E_OK))
        in (END_CRITICAL_SECTION c s, ercd))"

text \<open>
  The walk of \<open>knl_queue_insert_mpri\<close>: \<open>prev\<close> is the node whose link is read, \<open>None\<close> for the head in the
  control block. On a queue without end the loop does not return.
\<close>

partial_function (option) mpri_walk ::
  "(UW \<Rightarrow> UB) \<Rightarrow> UW \<Rightarrow> UW \<Rightarrow> UW option \<Rightarrow> (UW \<times> UW option) option" where
  "mpri_walk m head pk prev =
     (let msg = (case prev of None \<Rightarrow> head | Some p \<Rightarrow> nextmsg m p)
      in if msg \<noteq> 0 \<and> \<not> msgpri m msg > msgpri m pk then mpri_walk m head pk (Some msg)
         else Some (msg, prev))"

definition knl_queue_insert_mpri :: "nat \<Rightarrow> UW \<Rightarrow> kstate \<Rightarrow> kstate option" where
  "knl_queue_insert_mpri i pk s =
     (case mpri_walk (mem s) (mq_head (mbx s i)) pk None of
        None \<Rightarrow> None
      | Some (msg, prev) \<Rightarrow>
          let s = s\<lparr>mem := st32 pk msg (mem s)\<rparr>
          in Some (case prev of
                     None \<Rightarrow> upd_mbx i (mq_head_update (\<lambda>_. pk)) s
                   | Some p \<Rightarrow> s\<lparr>mem := st32 p pk (mem s)\<rparr>))"

definition snd_mbx_cs :: "nat \<Rightarrow> nat \<Rightarrow> UW \<Rightarrow> kstate \<Rightarrow> (kstate \<times> int) option" where
  "snd_mbx_cs c i pk s =
     (if mbxid (mbx s i) = 0 then Some (s, E_NOEXS)
      else if mbxatr (mbx s i) AND TA_MPRI \<noteq> 0 \<and> msgpri (mem s) pk \<le> 0 then Some (s, E_PAR)
      else case que s (MbxQ i) of
             t # _ \<Rightarrow>
               let s = s\<lparr>mem := st32 (mbx_ppk_msg (winfo (tcb s t))) pk (mem s)\<rparr>
               in Some (knl_wait_release_ok c t s, E_OK)
           | [] \<Rightarrow>
               if mbxatr (mbx s i) AND TA_MPRI \<noteq> 0
               then map_option (\<lambda>s. (s, E_OK)) (knl_queue_insert_mpri i pk s)
               else let s = s\<lparr>mem := st32 pk 0 (mem s)\<rparr>;
                        s = (if mq_head (mbx s i) = 0 then upd_mbx i (mq_head_update (\<lambda>_. pk)) s
                             else s\<lparr>mem := st32 (mq_tail (mbx s i)) pk (mem s)\<rparr>)
                    in Some (upd_mbx i (mq_tail_update (\<lambda>_. pk)) s, E_OK))"

definition tk_snd_mbx :: "nat \<Rightarrow> int \<Rightarrow> UW \<Rightarrow> kstate \<Rightarrow> (kstate \<times> int) option" where
  "tk_snd_mbx c xid pk s =
     (if \<not> CHK_MBXID xid then Some (s, E_ID)
      else map_option (\<lambda>(s, ercd). (END_CRITICAL_SECTION c s, ercd)) (snd_mbx_cs c (get_mbxcb xid) pk s))"

definition mbx_chg_pri :: "nat \<Rightarrow> int \<Rightarrow> kstate \<Rightarrow> kstate" where
  "mbx_chg_pri t oldpri s = knl_gcb_change_priority (MbxQ (get_mbxcb (wid (tcb s t)))) t s"

definition rcv_mbx_cs :: "nat \<Rightarrow> nat \<Rightarrow> UW \<Rightarrow> int \<Rightarrow> kstate \<Rightarrow> kstate \<times> sysret" where
  "rcv_mbx_cs c i ppk tmout s =
     (let t = cur c s; M = mbx s i
      in if mbxid M = 0 then (s, Ret E_NOEXS)
         else if mq_head M \<noteq> 0
         then let s = s\<lparr>mem := st32 ppk (mq_head M) (mem s)\<rparr>
              in (upd_mbx i (mq_head_update (\<lambda>_. nextmsg (mem s) (ld32 ppk (mem s)))) s, Ret E_OK)
         else let s = upd_tcb t (\<lambda>T. T\<lparr>
                        wspec := (if mbxatr M AND TA_TPRI \<noteq> 0 then Wspec_mbx_tpri else Wspec_mbx_tfifo),
                        wercd := Some t, winfo := (winfo T)\<lparr>mbx_ppk_msg := ppk\<rparr>\<rparr>) s;
                  s = knl_gcb_make_wait c (MbxQ i) (mbxid M) (mbxatr M) tmout s
              in (s, if tmout = TMO_POL then Ret (ercd s t) else Blocked))"

definition tk_rcv_mbx :: "nat \<Rightarrow> int \<Rightarrow> UW \<Rightarrow> int \<Rightarrow> kstate \<Rightarrow> kstate \<times> sysret" where
  "tk_rcv_mbx c xid ppk tmout s =
     (if \<not> CHK_MBXID xid then (s, Ret E_ID)
      else if \<not> tmout \<ge> TMO_FEVR then (s, Ret E_PAR)
      else if in_ddsp c s then (s, Ret E_CTX)
      else let (s, r) = rcv_mbx_cs c (get_mbxcb xid) ppk tmout s
           in (END_CRITICAL_SECTION c s, r))"

record t_rmbx =
  rm_exinf :: UW
  rm_wtsk :: int
  rm_pk_msg :: UW

definition tk_ref_mbx :: "nat \<Rightarrow> int \<Rightarrow> kstate \<Rightarrow> kstate \<times> int \<times> t_rmbx option" where
  "tk_ref_mbx c xid s =
     (if \<not> CHK_MBXID xid then (s, E_ID, None)
      else
        let i = get_mbxcb xid; M = mbx s i
        in if mbxid M = 0 then (END_CRITICAL_SECTION c s, E_NOEXS, None)
           else (END_CRITICAL_SECTION c s, E_OK,
                 Some \<lparr>rm_exinf = mbx_exinf M, rm_wtsk = knl_wait_tskid (MbxQ i) s, rm_pk_msg = mq_head M\<rparr>))"

subsection \<open>The message queue as a list\<close>

fun msg_list :: "(UW \<Rightarrow> UB) \<Rightarrow> UW \<Rightarrow> UW list \<Rightarrow> bool" where
  "msg_list m p [] \<longleftrightarrow> p = 0"
| "msg_list m p (x # xs) \<longleftrightarrow> p = x \<and> x \<noteq> 0 \<and> msg_list m (nextmsg m x) xs"

fun msg_seg :: "(UW \<Rightarrow> UB) \<Rightarrow> UW \<Rightarrow> UW list \<Rightarrow> UW \<Rightarrow> bool" where
  "msg_seg m p [] q \<longleftrightarrow> p = q"
| "msg_seg m p (x # xs) q \<longleftrightarrow> p = x \<and> x \<noteq> 0 \<and> msg_seg m (nextmsg m x) xs q"

lemma msg_list_append: "msg_list m p (xs @ ys) \<longleftrightarrow> (\<exists>q. msg_seg m p xs q \<and> msg_list m q ys)"
  by (induction xs arbitrary: p) auto

lemma msg_list_first: "msg_list m p xs \<Longrightarrow> p = hd (xs @ [0])"
  by (cases xs) auto

lemma msg_list_cong:
  "(\<And>x. x \<in> set xs \<Longrightarrow> nextmsg m' x = nextmsg m x) \<Longrightarrow> msg_list m' p xs = msg_list m p xs"
  by (induction xs arbitrary: p) auto

lemma msg_seg_cong:
  "(\<And>x. x \<in> set xs \<Longrightarrow> nextmsg m' x = nextmsg m x) \<Longrightarrow> msg_seg m' p xs q = msg_seg m p xs q"
  by (induction xs arbitrary: p) auto

lemma msg_list_store:
  "(\<And>x. x \<in> set xs \<Longrightarrow> apart 4 p x) \<Longrightarrow> msg_list (st32 p v m) h xs = msg_list m h xs"
  by (rule msg_list_cong) (simp add: nextmsg_def ld32_apart)

lemma msg_seg_store:
  "(\<And>x. x \<in> set xs \<Longrightarrow> apart 4 p x) \<Longrightarrow> msg_seg (st32 p v m) h xs q = msg_seg m h xs q"
  by (rule msg_seg_cong) (simp add: nextmsg_def ld32_apart)

text \<open>Redirecting the link of the last node of a segment.\<close>

lemma msg_seg_redirect:
  assumes "msg_seg m p xs q" "xs \<noteq> []" "all_apart 4 xs"
  shows "msg_seg (st32 (last xs) v m) p xs v"
  using assms
proof (induction xs arbitrary: p)
  case (Cons x xs)
  show ?case
  proof (cases "xs = []")
    case True
    then show ?thesis using Cons.prems by (simp add: nextmsg_def)
  next
    case False
    then have "apart 4 (last xs) x" using Cons.prems(3) by (auto simp: apart_sym[of 4 _ x])
    then show ?thesis using Cons False by (simp add: nextmsg_def ld32_apart)
  qed
qed simp

lemma mpri_walk_list:
  assumes "msg_list m (case prev of None \<Rightarrow> head | Some p \<Rightarrow> nextmsg m p) xs"
  shows "mpri_walk m head pk prev =
    (let P = (\<lambda>x. \<not> msgpri m x > msgpri m pk); ys = takeWhile P xs
     in Some (hd (dropWhile P xs @ [0]), if ys = [] then prev else Some (last ys)))"
  using assms
proof (induction xs arbitrary: prev)
  case Nil
  then show ?case by (subst mpri_walk.simps) simp
next
  case (Cons x xs)
  show ?case
  proof (cases "msgpri m x > msgpri m pk")
    case True
    then show ?thesis using Cons.prems by (subst mpri_walk.simps) simp
  next
    case False
    have "mpri_walk m head pk prev = mpri_walk m head pk (Some x)"
      using Cons.prems False by (subst mpri_walk.simps) simp
    also have "\<dots> = (let P = (\<lambda>x. \<not> msgpri m x > msgpri m pk); ys = takeWhile P xs
       in Some (hd (dropWhile P xs @ [0]), if ys = [] then Some x else Some (last ys)))"
      using Cons.IH[of "Some x"] Cons.prems by simp
    finally show ?thesis using False by (auto simp: Let_def)
  qed
qed

lemma insert_mpri_list:
  assumes l: "msg_list (mem s) (mq_head (mbx s i)) xs" and ap: "all_apart 8 (pk # xs)" and pk: "pk \<noteq> 0"
  shows "\<exists>s'. knl_queue_insert_mpri i pk s = Some s' \<and>
    msg_list (mem s') (mq_head (mbx s' i)) (insert_before (\<lambda>x. msgpri (mem s) x > msgpri (mem s) pk) pk xs) \<and>
    (\<forall>x \<in> set (pk # xs). msgpri (mem s') x = msgpri (mem s) x) \<and>
    mbx s' = (mbx s)(i := (mbx s i)\<lparr>mq_head := mq_head (mbx s' i)\<rparr>) \<and> s' = s\<lparr>mem := mem s', mbx := mbx s'\<rparr>"
proof -
  define P where "P = (\<lambda>x. \<not> msgpri (mem s) x > msgpri (mem s) pk)"
  define ys where "ys = takeWhile P xs"
  define zs where "zs = dropWhile P xs"
  have xs: "xs = ys @ zs" by (simp add: ys_def zs_def)
  have walk: "mpri_walk (mem s) (mq_head (mbx s i)) pk None = Some (hd (zs @ [0]), if ys = [] then None else Some (last ys))"
    using mpri_walk_list[where prev = None and m = "mem s" and head = "mq_head (mbx s i)" and xs = xs and pk = pk] l
    by (simp add: Let_def P_def ys_def zs_def)
  have ins: "insert_before (\<lambda>x. msgpri (mem s) x > msgpri (mem s) pk) pk xs = ys @ pk # zs"
    by (simp add: insert_before_split ys_def zs_def P_def)
  obtain q where q: "msg_seg (mem s) (mq_head (mbx s i)) ys q" "msg_list (mem s) q zs"
    using l unfolding xs msg_list_append by blast
  have hq: "hd (zs @ [0]) = q" using msg_list_first[OF q(2)] by simp
  have ap8: "apart 8 pk x" if "x \<in> set xs" for x using ap that by simp
  have ap4: "apart 4 pk x" if "x \<in> set xs" for x by (rule apart_less[OF ap8[OF that]]) simp
  have pri1: "msgpri (st32 pk v (mem s)) x = msgpri (mem s) x" if "x \<in> set (pk # xs)" for x v
    using that ap8 by (auto simp: msgpri_def ld32_second ld32_apart8)
  let ?m = "st32 pk q (mem s)"
  show ?thesis
  proof (cases "ys = []")
    case True
    have "msg_list ?m pk (pk # zs)"
      using q(2) pk ap4 by (simp add: xs nextmsg_def) (subst msg_list_store, auto)
    then show ?thesis
      using True walk pri1
      by (simp add: knl_queue_insert_mpri_def ins hq upd_mbx_def)
  next
    case False
    let ?l = "last ys"
    have lm: "?l \<in> set xs" using False by (simp add: xs)
    have aa: "all_apart 8 ys" "\<And>z. z \<in> set zs \<Longrightarrow> apart 8 ?l z"
      using ap False by (auto simp: xs all_apart_append)
    have aa4: "all_apart 4 ys"
      using aa(1) apart_less[of 8 _ _ 4] by (induction ys) auto
    have l4: "apart 4 ?l pk" using ap4[OF lm] by (simp add: apart_sym)
    have "msg_seg ?m (mq_head (mbx s i)) ys q"
      by (subst msg_seg_store) (use q(1) ap4 in \<open>auto simp: xs\<close>)
    then have sg: "msg_seg (st32 ?l pk ?m) (mq_head (mbx s i)) ys pk"
      by (rule msg_seg_redirect[OF _ False aa4])
    have "msg_list (st32 ?l pk ?m) q zs"
      by (subst msg_list_store, use aa(2) apart_less[of 8 _ _ 4] in force)
        (subst msg_list_store, use ap4 q(2) in \<open>auto simp: xs\<close>)
    then have "msg_list (st32 ?l pk ?m) pk (pk # zs)" using pk l4 by (simp add: nextmsg_def ld32_apart)
    then have ml: "msg_list (st32 ?l pk ?m) (mq_head (mbx s i)) (ys @ pk # zs)"
      using sg unfolding msg_list_append by blast
    have pri2: "msgpri (st32 ?l pk ?m) x = msgpri (mem s) x" if x: "x \<in> set (pk # xs)" for x
    proof -
      have "x = ?l \<or> apart 8 ?l x"
      proof (cases "x = pk")
        case True
        then show ?thesis using ap8[OF lm] by (simp add: apart_sym)
      next
        case F: False
        have "all_apart 8 (butlast ys @ [?l])" using aa(1) False by simp
        then have "apart 8 ?l y" if "y \<in> set (butlast ys)" for y
          using that unfolding all_apart_append by (auto simp: apart_sym)
        moreover have "x \<in> set (butlast ys) \<or> x = ?l \<or> x \<in> set zs"
          using x F False by (auto simp: xs) (metis Un_iff append_butlast_last_id set_append set_ConsD
              list.set(1) empty_iff)
        ultimately show ?thesis using aa(2) by blast
      qed
      then have "msgpri (st32 ?l pk ?m) x = msgpri ?m x"
        by (auto simp: msgpri_def ld32_second ld32_apart8)
      then show ?thesis using pri1[OF x] by simp
    qed
    show ?thesis
      using False walk ml pri2
      by (simp add: knl_queue_insert_mpri_def ins hq)
  qed
qed

subsection \<open>Sending and receiving on the list\<close>

text \<open>
  \<open>mbx_rep s i xs\<close>: the messages \<open>xs\<close> are queued at mailbox \<open>i\<close>, in priority order in a \<open>TA_MPRI\<close> mailbox;
  the tail pointer is valid in a FIFO one.
\<close>

definition mbx_rep :: "kstate \<Rightarrow> nat \<Rightarrow> UW list \<Rightarrow> bool" where
  "mbx_rep s i xs \<longleftrightarrow> msg_list (mem s) (mq_head (mbx s i)) xs \<and> all_apart 8 xs \<and>
     (if mbxatr (mbx s i) AND TA_MPRI \<noteq> 0 then sorted (map (msgpri (mem s)) xs)
      else xs \<noteq> [] \<longrightarrow> mq_tail (mbx s i) = last xs)"

definition mbx_place :: "kstate \<Rightarrow> nat \<Rightarrow> UW \<Rightarrow> UW list \<Rightarrow> UW list" where
  "mbx_place s i pk xs =
     (if mbxatr (mbx s i) AND TA_MPRI \<noteq> 0
      then takeWhile (\<lambda>x. msgpri (mem s) x \<le> msgpri (mem s) pk) xs @ pk #
           dropWhile (\<lambda>x. msgpri (mem s) x \<le> msgpri (mem s) pk) xs
      else xs @ [pk])"

lemma mbx_place_insert:
  "mbxatr (mbx s i) AND TA_MPRI \<noteq> 0 \<Longrightarrow>
   mbx_place s i pk xs = insert_before (\<lambda>x. msgpri (mem s) x > msgpri (mem s) pk) pk xs"
  by (simp add: mbx_place_def insert_before_split not_less)

lemma upd_mbx_sel [simp]:
  "tcb (upd_mbx i f s) = tcb s" "que (upd_mbx i f s) = que s" "rq (upd_mbx i f s) = rq s"
  "smp (upd_mbx i f s) = smp s" "tmr (upd_mbx i f s) = tmr s" "ercd (upd_mbx i f s) = ercd s"
  "fault (upd_mbx i f s) = fault s" "free_mbx (upd_mbx i f s) = free_mbx s" "mem (upd_mbx i f s) = mem s"
  "mbx (upd_mbx i f s) = (mbx s)(i := f (mbx s i))" "kwf (upd_mbx i f s) = kwf s"
  by (simp_all add: upd_mbx_def)

lemma all_apart_insert: "all_apart k (ys @ x # zs) \<longleftrightarrow> all_apart k (x # ys @ zs)"
  by (auto simp: all_apart_append apart_sym)

lemma snd_mbx_rep:
  assumes rep: "mbx_rep s i xs" and ap: "all_apart 8 (pk # xs)" "pk \<noteq> 0"
    and ex: "mbxid (mbx s i) \<noteq> 0" "que s (MbxQ i) = []"
    and pri: "mbxatr (mbx s i) AND TA_MPRI \<noteq> 0 \<Longrightarrow> msgpri (mem s) pk > 0"
  shows "\<exists>s'. snd_mbx_cs c i pk s = Some (s', E_OK) \<and> mbx_rep s' i (mbx_place s i pk xs) \<and>
    s' = s\<lparr>mem := mem s', mbx := mbx s'\<rparr> \<and> mbxid (mbx s' i) = mbxid (mbx s i) \<and>
    (\<forall>j. j \<noteq> i \<longrightarrow> mbx s' j = mbx s j) \<and> mbxatr (mbx s' i) = mbxatr (mbx s i)"
proof (cases "mbxatr (mbx s i) AND TA_MPRI \<noteq> 0")
  case True
  have l: "msg_list (mem s) (mq_head (mbx s i)) xs" and so: "sorted (map (msgpri (mem s)) xs)"
    using rep True by (simp_all add: mbx_rep_def)
  let ?ys = "insert_before (\<lambda>x. msgpri (mem s) x > msgpri (mem s) pk) pk xs"
  obtain s' where s': "knl_queue_insert_mpri i pk s = Some s'"
    "msg_list (mem s') (mq_head (mbx s' i)) ?ys" "\<forall>x \<in> set (pk # xs). msgpri (mem s') x = msgpri (mem s) x"
    "mbx s' = (mbx s)(i := (mbx s i)\<lparr>mq_head := mq_head (mbx s' i)\<rparr>)" "s' = s\<lparr>mem := mem s', mbx := mbx s'\<rparr>"
    using insert_mpri_list[OF l ap] by blast
  have m: "mbx s' i = (mbx s i)\<lparr>mq_head := mq_head (mbx s' i)\<rparr>" "\<And>j. j \<noteq> i \<Longrightarrow> mbx s' j = mbx s j"
    by (subst s'(4), simp)+
  have at: "mbxatr (mbx s' i) = mbxatr (mbx s i)" "mbxid (mbx s' i) = mbxid (mbx s i)" by (subst m(1), simp)+
  have "sorted (map (msgpri (mem s')) ?ys)"
    by (rule sorted_map_keep[OF sorted_insert_before[OF so]]) (use s'(3) in auto)
  moreover have "all_apart 8 ?ys" using ap(1) by (simp add: insert_before_split all_apart_insert)
  ultimately have "mbx_rep s' i ?ys" using s'(2) True at by (simp add: mbx_rep_def)
  then show ?thesis
    using True pri ex s'(1,5) m(2) at by (auto simp: snd_mbx_cs_def mbx_place_insert)
next
  case False
  have l: "msg_list (mem s) (mq_head (mbx s i)) xs" and tl: "xs \<noteq> [] \<Longrightarrow> mq_tail (mbx s i) = last xs"
    and aa: "all_apart 8 xs"
    using rep False by (simp_all add: mbx_rep_def)
  have ap4: "apart 4 pk x" if "x \<in> set xs" for x
    using ap that apart_less[of 8 pk x 4] by simp
  have aa4: "all_apart 4 xs" using aa apart_less[of 8 _ _ 4] by (induction xs) auto
  have hd0: "mq_head (mbx s i) = 0 \<longleftrightarrow> xs = []" using l by (cases xs) auto
  let ?m = "st32 pk 0 (mem s)"
  have ap': "all_apart 8 (xs @ [pk])" using ap(1) by (simp add: all_apart_insert)
  show ?thesis
  proof (cases "xs = []")
    case True
    then show ?thesis
      using False ex hd0 ap(2) ap'
      by (simp add: snd_mbx_cs_def mbx_place_def mbx_rep_def nextmsg_def upd_mbx_def)
  next
    case F: False
    let ?m' = "st32 (last xs) pk ?m"
    have l0: "msg_list ?m (mq_head (mbx s i)) (xs @ [])"
      using l ap4 by (simp add: msg_list_store)
    then obtain q where q: "msg_seg ?m (mq_head (mbx s i)) xs q" "q = 0"
      unfolding msg_list_append by auto
    have sg: "msg_seg ?m' (mq_head (mbx s i)) xs pk" by (rule msg_seg_redirect[OF q(1) F aa4])
    have "apart 4 (last xs) pk" using ap4[OF last_in_set[OF F]] by (simp add: apart_sym)
    then have "msg_list ?m' pk [pk]" using ap(2) by (simp add: nextmsg_def ld32_apart)
    then have "msg_list ?m' (mq_head (mbx s i)) (xs @ [pk])" using sg unfolding msg_list_append by blast
    then show ?thesis
      using False F ex hd0 tl ap'
      by (simp add: snd_mbx_cs_def mbx_place_def mbx_rep_def upd_mbx_def)
  qed
qed

lemma rcv_mbx_rep:
  assumes rep: "mbx_rep s i (x # xs)" and ap: "\<forall>y \<in> set (x # xs). apart 8 ppk y" and ex: "mbxid (mbx s i) \<noteq> 0"
    and r: "rcv_mbx_cs c i ppk tmout s = (s', r)"
  shows "r = Ret E_OK" "ld32 ppk (mem s') = x" "mbx_rep s' i xs" "que s' = que s" "tcb s' = tcb s"
    "kwf s' = kwf s" "\<And>j. j \<noteq> i \<Longrightarrow> mbx s' j = mbx s j" "free_mbx s' = free_mbx s"
    "mbxid (mbx s' i) = mbxid (mbx s i)"
proof -
  have l: "msg_list (mem s) (mq_head (mbx s i)) (x # xs)" and aa: "all_apart 8 (x # xs)"
    using rep by (simp_all add: mbx_rep_def)
  have h: "mq_head (mbx s i) = x" "x \<noteq> 0" using l by simp_all
  let ?m = "st32 ppk x (mem s)"
  have s': "s' = upd_mbx i (mq_head_update (\<lambda>_. nextmsg ?m x)) (s\<lparr>mem := ?m\<rparr>)" "r = Ret E_OK"
    using r ex h by (simp_all add: rcv_mbx_cs_def Let_def)
  show "r = Ret E_OK" "ld32 ppk (mem s') = x" "que s' = que s" "tcb s' = tcb s" "kwf s' = kwf s"
    "\<And>j. j \<noteq> i \<Longrightarrow> mbx s' j = mbx s j" "free_mbx s' = free_mbx s" "mbxid (mbx s' i) = mbxid (mbx s i)"
    using s' by (simp_all add: upd_mbx_def)
  have ap4: "apart 4 ppk y" if "y \<in> set (x # xs)" for y
    using bspec[OF ap that] by (rule apart_less) simp
  have pri: "msgpri ?m y = msgpri (mem s) y" if "y \<in> set xs" for y
    using ap that by (simp add: msgpri_def ld32_apart8)
  have "msg_list ?m (nextmsg ?m x) xs"
    using l ap4 msg_list_store[of "x # xs" ppk x "mem s" x] by simp
  moreover have "sorted (map (msgpri ?m) xs)" if "sorted (map (msgpri (mem s)) (x # xs))"
    by (rule sorted_map_keep[of "msgpri (mem s)"]) (use that pri in auto)
  ultimately show "mbx_rep s' i xs"
    using rep aa by (cases "mbxatr (mbx s i) AND TA_MPRI \<noteq> 0") (auto simp: mbx_rep_def s'(1))
qed

subsection \<open>The invariant of the waiters\<close>

text \<open>Nobody waits at a mailbox that holds a message.\<close>

definition mbx_good :: "kstate \<Rightarrow> nat \<Rightarrow> bool" where
  "mbx_good s i \<longleftrightarrow> (que s (MbxQ i) \<noteq> [] \<longrightarrow> mq_head (mbx s i) = 0) \<and>
     (mbxatr (mbx s i) AND TA_TPRI \<noteq> 0 \<longrightarrow> pri_sorted s (MbxQ i) \<and>
        (\<forall>t \<in> set (que s (MbxQ i)). wspec (tcb s t) = Wspec_mbx_tpri))"

interpretation mbxw: wait_object NUM_MBXID "\<lambda>s i. mbxid (mbx s i)" free_mbx "\<lambda>i. {MbxQ i}" mbx mbx_good
proof unfold_locales
  fix s s' :: kstate and i
  assume good: "mbx_good s i" and cb: "mbx s' i = mbx s i"
    and q: "\<And>h. h \<in> {MbxQ i} \<Longrightarrow> que s' h = que s h"
    and v: "\<And>h t. h \<in> {MbxQ i} \<Longrightarrow> t \<in> set (que s h) \<Longrightarrow> tview (tcb s' t) = tview (tcb s t)"
  have "wspec (tcb s' t) = wspec (tcb s t)" if "t \<in> set (que s (MbxQ i))" for t
    using v[of "MbxQ i" t] that by (simp add: tview_def)
  moreover have "pri_sorted s (MbxQ i) \<Longrightarrow> pri_sorted s' (MbxQ i)"
    by (rule pri_sorted_keep[of s]) (use q v in auto)
  ultimately show "mbx_good s' i" using good q unfolding mbx_good_def cb by simp
qed simp

abbreviation mbx_inv :: "kstate \<Rightarrow> bool" where "mbx_inv \<equiv> mbxw.inv"

lemma get_mbxcb_less: "CHK_MBXID x \<Longrightarrow> get_mbxcb x < NUM_MBXID \<and> int (get_mbxcb x) + 1 = x"
  by (auto simp: CHK_MBXID_def get_mbxcb_def)

lemma mbx_inv_end_cs [simp]: "mbx_inv (END_CRITICAL_SECTION c s) = mbx_inv s"
  by (simp add: obj_inv_def mbx_good_def pri_sorted_def)

lemma snd_mbx_handoff_effect:
  assumes k: "kwf s" and inv: "mbx_inv s" and ex: "mbxid (mbx s i) \<noteq> 0" and q: "que s (MbxQ i) = t # q"
    and pri: "mbxatr (mbx s i) AND TA_MPRI \<noteq> 0 \<Longrightarrow> msgpri (mem s) pk > 0"
    and s': "snd_mbx_cs c i pk s = Some (s', e)"
  shows "e = E_OK" "rel_eff [t] (\<lambda>_. E_OK) s s'" "mem s' = st32 (mbx_ppk_msg (winfo (tcb s t))) pk (mem s)"
    "mbx s' = mbx s" "mbx_inv s'"
proof -
  let ?s0 = "s\<lparr>mem := st32 (mbx_ppk_msg (winfo (tcb s t))) pk (mem s)\<rparr>"
  have eq: "s' = knl_wait_release_ok c t ?s0" "e = E_OK"
    using s' ex q pri by (auto simp: snd_mbx_cs_def Let_def split: if_splits)
  have t: "t \<in> set (que s (MbxQ i))" using q by simp
  have k': "kwf s'" unfolding eq by (rule kwf_ring_release(2)[of _ _ "MbxQ i"]) (use k q in auto)
  show "e = E_OK" by (rule eq(2))
  show r: "rel_eff [t] (\<lambda>_. E_OK) s s'"
    by (rule rel_eff_ring_step[OF k t _ _ _ _ rel_eff_refl, of s' ?s0 c])
      (use k' in \<open>simp_all add: eq(1) wait_release_ok_eq\<close>)
  show "mem s' = st32 (mbx_ppk_msg (winfo (tcb s t))) pk (mem s)" "mbx s' = mbx s" by (simp_all add: eq(1))
  have f: "free_mbx s' = free_mbx s" "mbx s' = mbx s" by (simp_all add: eq(1))
  note iN = mbxw.inv_ring[OF inv, of "MbxQ i" i]
  note rs = rel_eff_state[OF r]
  have good: "mbx_good s i" by (rule mbxw.inv_good[OF inv]) (use iN q in auto)
  have q': "que s' (MbxQ i) = filter (\<lambda>u. u \<notin> set [t]) (que s (MbxQ i))" using rs(4)[of "MbxQ i"] by simp
  have "pri_sorted s' (MbxQ i)" if "pri_sorted s (MbxQ i)"
    by (rule pri_sorted_filter[OF that q']) (simp add: tview_def rs(7-9))
  then have "mbx_good s' i"
    using good q unfolding mbx_good_def f(2) q' by (auto simp: rs(9))
  moreover have "mbxw.same s s' j" if "j \<noteq> i" for j
    by (rule mbxw.same_released[OF r k, of "MbxQ i"]) (use that q in \<open>auto simp: f\<close>)
  ultimately show "mbx_inv s'"
    using iN q by (intro mbxw.inv_upd[OF mbxw.inv_but[OF inv], of i]) (auto simp: f)
qed

subsection \<open>Properties\<close>

definition ex_mbx :: kstate where
  "ex_mbx = (ex_state Wspec_mbx_tfifo ex_winfo (MbxQ 0))\<lparr>
     mbx := (\<lambda>_. \<lparr>mbxid = 0, mbx_exinf = 0, mbxatr = 0, mq_head = 0, mq_tail = 0\<rparr>)
       (0 := \<lparr>mbxid = 1, mbx_exinf = 0, mbxatr = 0, mq_head = 0, mq_tail = 0\<rparr>,
        1 := \<lparr>mbxid = 2, mbx_exinf = 0, mbxatr = 2, mq_head = 0x20002000, mq_tail = 0\<rparr>),
     free_mbx := [2..<NUM_MBXID],
     mem := (\<lambda>p. if p = 0x20002004 then 3 else if p = 0x20003004 then 2 else 0)\<rparr>"

lemma ex_mbx_inv: "kwf ex_mbx" "mbx_inv ex_mbx" "caller_ok 0 ex_mbx"
proof -
  show "kwf ex_mbx" using kwf_ex_state[of Wspec_mbx_tfifo "MbxQ 0"] by (simp add: ex_mbx_def)
  show "mbx_inv ex_mbx"
    unfolding obj_inv_def table_ok_def
    by (auto simp: ex_mbx_def mbx_good_def pri_sorted_def size_defs split: if_splits)
  show "caller_ok 0 ex_mbx" using ex_caller_ok by (simp add: ex_mbx_def caller_ok_def)
qed

lemma ex_mbx_rep: "mbx_rep ex_mbx 1 [0x20002000]"
  by (simp add: mbx_rep_def ex_mbx_def nextmsg_def ld32_def)

text \<open>
  Sending to a mailbox where nobody waits returns \<open>E_OK\<close>, the walk over the queue ends, and the
  links in memory then represent the old messages with the new one at its place: behind the messages
  of the same or a more urgent priority in a \<open>TA_MPRI\<close> mailbox, at the end in a FIFO one.
\<close>

theorem snd_mbx_places_message:
  assumes "CHK_MBXID x" "i = get_mbxcb x" "mbxid (mbx s i) \<noteq> 0" "que s (MbxQ i) = []"
    and "mbx_rep s i xs" "all_apart 8 (pk # xs)" "pk \<noteq> 0"
    and "mbxatr (mbx s i) AND TA_MPRI = 0 \<or> msgpri (mem s) pk > 0"
  shows "\<exists>s'. tk_snd_mbx c x pk s = Some (s', E_OK) \<and> mbx_rep s' i (mbx_place s i pk xs)"
proof -
  obtain s' where "snd_mbx_cs c i pk s = Some (s', E_OK)" "mbx_rep s' i (mbx_place s i pk xs)"
    using snd_mbx_rep[OF assms(5-7,3,4)] assms(8) by blast
  then show ?thesis using assms(1,2) by (simp add: tk_snd_mbx_def mbx_rep_def)
qed

theorem snd_mbx_places_message_witness:
  "\<exists>s'. tk_snd_mbx 0 2 0x20003000 ex_mbx = Some (s', E_OK) \<and> mbx_rep s' 1 [0x20003000, 0x20002000]"
proof -
  have p: "msgpri (mem ex_mbx) 0x20003000 = 2" "msgpri (mem ex_mbx) 0x20002000 = 3"
    by (simp_all add: msgpri_def ld32_def ex_mbx_def)
  have "mbx_place ex_mbx 1 0x20003000 [0x20002000] = [0x20003000, 0x20002000]"
    using p by (simp add: mbx_place_def) (simp add: ex_mbx_def)
  then show ?thesis
    using snd_mbx_places_message[OF _ _ _ _ ex_mbx_rep, of 2 "0x20003000" 0] p
    by (simp add: CHK_MBXID_def get_mbxcb_def size_defs apart_def) (simp add: ex_mbx_def)
qed

text \<open>
  Receiving from a mailbox that holds messages returns \<open>E_OK\<close> with the address of the first message
  behind the pointer of the caller, and leaves the other messages queued in their order.
\<close>

theorem rcv_mbx_takes_first:
  assumes "CHK_MBXID x" "i = get_mbxcb x" "mbxid (mbx s i) \<noteq> 0" "tmout \<ge> TMO_FEVR" "\<not> in_ddsp c s"
    and "mbx_rep s i (p # xs)" "\<forall>y \<in> set (p # xs). apart 8 ppk y"
    and "tk_rcv_mbx c x ppk tmout s = (s', r)"
  shows "r = Ret E_OK \<and> ld32 ppk (mem s') = p \<and> mbx_rep s' i xs"
proof -
  obtain s1 r1 where r1: "rcv_mbx_cs c i ppk tmout s = (s1, r1)" by fastforce
  have "s' = END_CRITICAL_SECTION c s1" "r = r1"
    using assms r1 by (auto simp: tk_rcv_mbx_def)
  then show ?thesis using rcv_mbx_rep(1-3)[OF assms(6,7,3) r1] by (simp add: mbx_rep_def)
qed

theorem rcv_mbx_takes_first_witness:
  "snd (tk_rcv_mbx 0 2 0x20000000 TMO_FEVR ex_mbx) = Ret E_OK \<and>
   ld32 0x20000000 (mem (fst (tk_rcv_mbx 0 2 0x20000000 TMO_FEVR ex_mbx))) = 0x20002000"
  using rcv_mbx_takes_first[OF _ _ _ _ _ ex_mbx_rep _ prod.collapse[symmetric], of 2 TMO_FEVR 0 "0x20000000"]
  by (simp add: CHK_MBXID_def get_mbxcb_def size_defs apart_def in_ddsp_def in_indp_def knl_isTaskIndependent_def
      ex_mbx_def ex_smp_def)

text \<open>
  A message sent to a mailbox where tasks wait is handed to the first of them: it is released with
  \<open>E_OK\<close> and finds the message behind its pointer; nobody is left waiting at a mailbox with a message.
\<close>

theorem snd_mbx_hands_over:
  assumes "kwf s" "mbx_inv s" "CHK_MBXID x" "i = get_mbxcb x" "mbxid (mbx s i) \<noteq> 0" "que s (MbxQ i) = t # q"
    and "mbxatr (mbx s i) AND TA_MPRI = 0 \<or> msgpri (mem s) pk > 0"
  shows "\<exists>s'. tk_snd_mbx c x pk s = Some (s', E_OK) \<and> rel_eff [t] (\<lambda>_. E_OK) s s' \<and>
    mem s' = st32 (mbx_ppk_msg (winfo (tcb s t))) pk (mem s) \<and> mbx_inv s'"
proof -
  obtain s1 where s1: "snd_mbx_cs c i pk s = Some (s1, E_OK)"
    using assms(5-7) by (auto simp: snd_mbx_cs_def Let_def)
  then show ?thesis
    using snd_mbx_handoff_effect[OF assms(1,2,5,6) _ s1] assms(3,4,7)
    by (auto simp: tk_snd_mbx_def rel_eff_def)
qed

theorem snd_mbx_hands_over_witness:
  "\<exists>s'. tk_snd_mbx 0 1 0x20003000 ex_mbx = Some (s', E_OK) \<and> rel_eff [1] (\<lambda>_. E_OK) ex_mbx s' \<and>
    ld32 0x20000000 (mem s') = 0x20003000"
  using snd_mbx_hands_over[OF ex_mbx_inv(1,2), of 1 0 1 "[]" "0x20003000" 0]
  by (auto simp: CHK_MBXID_def get_mbxcb_def size_defs ex_mbx_def ex_wait_def ex_winfo_def)

end
