(* ===== verification/Tstdlib.thy ===== *)
theory Tstdlib
  imports Memory_Words "HOL-Library.List_Lexorder"
begin

text \<open>
  \<^verbatim>\<open>kernel/tstdlib/string.c\<close> and \<^verbatim>\<open>bitop.c\<close> on the byte memory. Pointers are addresses, a loop that
  runs until it meets a byte of the memory is a \<open>partial_function\<close> (\<open>None\<close> when it does not end).
\<close>

type_synonym memory = "UW \<Rightarrow> UB"

subsection \<open>memset, memcpy\<close>

text \<open>\<open>bytes m p n\<close> is the content of the \<open>n\<close> bytes at \<open>p\<close>.\<close>

definition in_range :: "UW \<Rightarrow> nat \<Rightarrow> UW \<Rightarrow> bool" where
  "in_range p n q \<longleftrightarrow> unat (q - p) < n"

fun fill_bytes :: "nat \<Rightarrow> UW \<Rightarrow> UB \<Rightarrow> memory \<Rightarrow> memory" where
  "fill_bytes 0 cp cval m = m"
| "fill_bytes (Suc n) cp cval m = fill_bytes n (cp + 1) cval (m(cp := cval))"

lemma unat_mod4: "unat (p + 1 :: UW) mod 4 = (unat p + 1) mod 4"
proof -
  have "unat (p + 1) = (unat p + 1) mod 2 ^ 32" by (simp add: unat_word_ariths)
  then show ?thesis by (simp add: mod_mod_cancel)
qed

function fill_align :: "UW \<Rightarrow> int \<Rightarrow> UB \<Rightarrow> memory \<Rightarrow> UW \<times> int \<times> memory" where
  "fill_align cp n cval m =
     (if unat cp mod 4 \<noteq> 0 then fill_align (cp + 1) (n - 1) cval (m(cp := cval)) else (cp, n, m))"
  by pat_completeness auto
termination
proof (relation "measure (\<lambda>(cp, n, cval, m). (4 - unat cp mod 4) mod 4)")
  fix cp :: UW and n :: int and cval :: UB and m :: memory
  assume "unat cp mod 4 \<noteq> 0"
  then have "unat cp mod 4 = 1 \<or> unat cp mod 4 = 2 \<or> unat cp mod 4 = 3" by linarith
  moreover have "unat (cp + 1) mod 4 = (unat cp mod 4 + 1) mod 4" by (simp add: unat_mod4 mod_simps)
  ultimately show "((cp + 1, n - 1, cval, m(cp := cval)), cp, n, cval, m)
      \<in> measure (\<lambda>(cp, n, cval, m). (4 - unat cp mod 4) mod 4)" by auto
qed simp

declare fill_align.simps [simp del]

fun fill_words :: "nat \<Rightarrow> UW \<Rightarrow> UW \<Rightarrow> memory \<Rightarrow> memory" where
  "fill_words 0 lp lval m = m"
| "fill_words (Suc n) lp lval m = fill_words n (lp + 4) lval (st32 lp lval m)"

definition knl_memset :: "UW \<Rightarrow> UW \<Rightarrow> int \<Rightarrow> memory \<Rightarrow> memory" where
  "knl_memset p c n m =
     (let cval = ucast c :: UB
      in if n < 8 then fill_bytes (nat n) p cval m
         else
           let (cp, n, m) = fill_align p n cval m;
               lval = ucast cval OR push_bit 8 (ucast cval) OR push_bit 16 (ucast cval) OR push_bit 24 (ucast cval);
               k = nat (n div 4);
               m = fill_words k cp lval m
           in fill_bytes (nat (n mod 4)) (cp + 4 * of_nat k) cval m)"

fun copy_bytes :: "nat \<Rightarrow> UW \<Rightarrow> UW \<Rightarrow> memory \<Rightarrow> memory" where
  "copy_bytes 0 cdst csrc m = m"
| "copy_bytes (Suc n) cdst csrc m = copy_bytes n (cdst + 1) (csrc + 1) (m(cdst := m csrc))"

definition knl_memcpy :: "UW \<Rightarrow> UW \<Rightarrow> int \<Rightarrow> memory \<Rightarrow> memory" where
  "knl_memcpy dst src n m = copy_bytes (nat n) dst src m"

subsection \<open>Strings\<close>

partial_function (option) strlen_loop :: "memory \<Rightarrow> UW \<Rightarrow> UW option" where
  "strlen_loop m cp = (if m cp \<noteq> 0 then strlen_loop m (cp + 1) else Some cp)"

definition knl_strlen :: "memory \<Rightarrow> UW \<Rightarrow> int option" where
  "knl_strlen m s = map_option (\<lambda>cp. sint (cp - s)) (strlen_loop m s)"

partial_function (option) strcpy_loop :: "UW \<Rightarrow> UW \<Rightarrow> memory \<Rightarrow> memory option" where
  "strcpy_loop cp src m =
     (let m = m(cp := m src) in if m src \<noteq> 0 then strcpy_loop (cp + 1) (src + 1) m else Some m)"

definition knl_strcpy :: "UW \<Rightarrow> UW \<Rightarrow> memory \<Rightarrow> memory option" where
  "knl_strcpy dst src m = strcpy_loop dst src m"

fun strncpy_loop :: "nat \<Rightarrow> UW \<Rightarrow> UW \<Rightarrow> memory \<Rightarrow> memory" where
  "strncpy_loop 0 cp src m = m"
| "strncpy_loop (Suc n) cp src m =
     (let m = m(cp := m src)
      in if m src \<noteq> 0 then strncpy_loop n (cp + 1) (src + 1) m else fill_bytes n (cp + 1) 0 m)"

definition knl_strncpy :: "UW \<Rightarrow> UW \<Rightarrow> int \<Rightarrow> memory \<Rightarrow> memory" where
  "knl_strncpy dst src n m = strncpy_loop (nat n) dst src m"

partial_function (option) knl_strcmp :: "memory \<Rightarrow> UW \<Rightarrow> UW \<Rightarrow> int option" where
  "knl_strcmp m s1 s2 =
     (if m s1 \<noteq> 0
      then let result = uint (m s1) - uint (m s2)
           in if result \<noteq> 0 then Some result else knl_strcmp m (s1 + 1) (s2 + 1)
      else Some (uint (m s1) - uint (m s2)))"

partial_function (option) strcat_loop :: "UW \<Rightarrow> UW \<Rightarrow> memory \<Rightarrow> memory option" where
  "strcat_loop cp src m =
     (if m src \<noteq> 0 then strcat_loop (cp + 1) (src + 1) (m(cp := m src)) else Some (m(cp := 0)))"

definition knl_strcat :: "UW \<Rightarrow> UW \<Rightarrow> memory \<Rightarrow> memory option" where
  "knl_strcat dst src m = Option.bind (strlen_loop m dst) (\<lambda>cp. strcat_loop cp src m)"

subsection \<open>Bit operations\<close>

definition BIT_SET_N :: "int \<Rightarrow> UB" where
  "BIT_SET_N n = push_bit (nat (n AND 7)) 1"

definition knl_bitclr :: "UW \<Rightarrow> int \<Rightarrow> memory \<Rightarrow> memory" where
  "knl_bitclr base offset m =
     (if offset < 0 then m
      else let cp = base + of_int (offset div 8) in m(cp := m cp AND NOT (BIT_SET_N offset)))"

definition knl_bitset :: "UW \<Rightarrow> int \<Rightarrow> memory \<Rightarrow> memory" where
  "knl_bitset base offset m =
     (if offset < 0 then m
      else let cp = base + of_int (offset div 8) in m(cp := m cp OR BIT_SET_N offset))"

text \<open>The inner loop of \<open>knl_bitsearch1\<close>; the mask is a byte, after eight shifts it is 0.\<close>

partial_function (option) bitsearch_byte :: "UB \<Rightarrow> UB \<Rightarrow> int \<Rightarrow> int \<Rightarrow> int option" where
  "bitsearch_byte b msk position width =
     (if b AND msk \<noteq> 0 then Some (if position < width then position else - 1)
      else bitsearch_byte b (push_bit 1 msk) (position + 1) width)"

partial_function (option) bitsearch_loop ::
  "memory \<Rightarrow> UW \<Rightarrow> UB \<Rightarrow> int \<Rightarrow> int \<Rightarrow> int \<Rightarrow> int option" where
  "bitsearch_loop m cp msk position offset width =
     (if position < width
      then if m cp \<noteq> 0 then bitsearch_byte (m cp) msk position width
           else if position \<noteq> 0 then bitsearch_loop m (cp + 1) msk (position + 8) offset width
           else bitsearch_loop m (cp + 1) (BIT_SET_N 0) (8 - (offset AND 7)) offset width
      else Some (- 1))"

definition knl_bitsearch1 :: "memory \<Rightarrow> UW \<Rightarrow> int \<Rightarrow> int \<Rightarrow> int option" where
  "knl_bitsearch1 m base offset width =
     (if offset < 0 \<or> width < 0 then Some (- 1)
      else bitsearch_loop m (base + of_int (offset div 8)) (BIT_SET_N offset) 0 offset width)"

subsection \<open>Correctness of the memory routines\<close>

lemma unat_m1: "unat (- 1 :: UW) = 4294967295"
  by (simp add: unsigned_minus_1_eq_mask mask_eq_exp_minus_1)

lemma uint_pos: "w \<noteq> 0 \<Longrightarrow> 0 < uint w"
  by (metis uint_0_iff uint_ge_0 order_le_less)

lemma unat_step: "q \<noteq> cp \<Longrightarrow> unat (q - (cp + 1) :: UW) = unat (q - cp) - 1"
  using unat_minus_one[of "q - cp"] by (simp add: diff_diff_eq)

lemma fill_bytes_eq: "fill_bytes n cp v m = (\<lambda>q. if in_range cp n q then v else m q)"
proof (induction n arbitrary: cp m)
  case 0
  then show ?case by (simp add: in_range_def)
next
  case (Suc n)
  have "in_range (cp + 1) n q \<or> q = cp \<longleftrightarrow> in_range cp (Suc n) q" for q
  proof (cases "q = cp")
    case False
    then have "unat (q - cp) \<noteq> 0" by (simp add: unat_eq_0)
    then show ?thesis using False unat_step[OF False] by (auto simp: in_range_def)
  qed (simp add: in_range_def)
  then show ?case unfolding fill_bytes.simps Suc[of "cp + 1" "m(cp := v)"] by (auto simp: fun_eq_iff)
qed

lemma fill_bytes_add:
  "fill_bytes (a + b) cp v m = fill_bytes b (cp + of_nat a) v (fill_bytes a cp v m)"
  by (induction a arbitrary: cp m) (simp_all add: add.assoc)

lemma st32_fill:
  fixes v :: UB
  defines "l \<equiv> ucast v OR push_bit 8 (ucast v) OR push_bit 16 (ucast v) OR push_bit 24 (ucast v) :: UW"
  shows "st32 p l m = fill_bytes 4 p v m"
proof -
  have "ucast l = v" "ucast (drop_bit 8 l) = v" "ucast (drop_bit 16 l) = v" "ucast (drop_bit 24 l) = v"
    unfolding l_def by (rule bit_word_eqI, auto simp: bit_simps dest: bit_imp_le_length)+
  then show ?thesis by (simp add: st32_def numeral_eq_Suc add.assoc)
qed

lemma fill_words_eq:
  fixes v :: UB
  shows "fill_words k p (ucast v OR push_bit 8 (ucast v) OR push_bit 16 (ucast v) OR push_bit 24 (ucast v)) m =
    fill_bytes (4 * k) p v m"
proof (induction k arbitrary: p m)
  case (Suc k)
  have "fill_bytes (4 * Suc k) p v m = fill_bytes (4 * k) (p + 4) v (fill_bytes 4 p v m)"
    using fill_bytes_add[of 4 "4 * k" p v m] by simp
  then show ?case using Suc by (simp add: st32_fill)
qed simp

definition align_pad :: "UW \<Rightarrow> nat" where
  "align_pad cp = (4 - unat cp mod 4) mod 4"

lemma align_pad_step: "unat cp mod 4 \<noteq> 0 \<Longrightarrow> align_pad cp = Suc (align_pad (cp + 1))"
proof -
  assume "unat cp mod 4 \<noteq> 0"
  then have "unat cp mod 4 = 1 \<or> unat cp mod 4 = 2 \<or> unat cp mod 4 = 3" by linarith
  moreover have "unat (cp + 1) mod 4 = (unat cp mod 4 + 1) mod 4" by (simp add: unat_mod4 mod_simps)
  ultimately show ?thesis by (auto simp: align_pad_def)
qed

lemma fill_align_eq:
  "fill_align cp n v m = (cp + of_nat (align_pad cp), n - int (align_pad cp), fill_bytes (align_pad cp) cp v m)"
proof (induction cp n v m rule: fill_align.induct)
  case (1 cp n v m)
  show ?case
  proof (cases "unat cp mod 4 = 0")
    case True
    then show ?thesis by (simp add: fill_align.simps align_pad_def)
  next
    case False
    have "fill_align cp n v m = fill_align (cp + 1) (n - 1) v (m(cp := v))"
      using False by (subst fill_align.simps) simp
    then show ?thesis using 1(1)[OF False] align_pad_step[OF False] by (simp add: fun_upd_def)
  qed
qed

lemma memset_fill:
  assumes "0 \<le> n" shows "knl_memset p c n m = fill_bytes (nat n) p (ucast c) m"
proof (cases "n < 8")
  case False
  let ?v = "ucast c :: UB"
  define j where "j = align_pad p"
  have j: "j < 4" "fill_align p n ?v m = (p + of_nat j, n - int j, fill_bytes j p ?v m)"
    by (simp_all add: fill_align_eq j_def align_pad_def)
  define k where "k = nat ((n - int j) div 4)"
  define r where "r = nat ((n - int j) mod 4)"
  have "0 \<le> n - int j" using False j(1) by simp
  then have "int k = (n - int j) div 4" "int r = (n - int j) mod 4" by (simp_all add: k_def r_def)
  then have "int (j + (4 * k + r)) = n" using mult_div_mod_eq[of 4 "n - int j"] by simp
  then have n: "nat n = j + (4 * k + r)" by linarith
  have "(4 * of_nat k :: UW) = of_nat (4 * k)" by simp
  then show ?thesis
    using False j(2) unfolding n fill_bytes_add
    by (simp add: knl_memset_def Let_def fill_words_eq k_def[symmetric] r_def[symmetric] add.assoc)
qed (simp add: knl_memset_def)

lemma copy_bytes_eq:
  assumes "\<And>i. i < n \<Longrightarrow> \<not> in_range dst i (src + of_nat i)" "n \<le> 2 ^ 32"
  shows "copy_bytes n dst src m = (\<lambda>q. if in_range dst n q then m (src + (q - dst)) else m q)"
  using assms
proof (induction n arbitrary: dst src m)
  case 0
  then show ?case by (simp add: in_range_def)
next
  case (Suc n)
  have pre: "\<not> in_range (dst + 1) i (src + 1 + of_nat i)" if "i < n" for i
  proof -
    have a: "\<not> in_range dst (Suc i) (src + of_nat (Suc i))" using Suc.prems(1)[of "Suc i"] that by simp
    have "src + of_nat (Suc i) \<noteq> dst" using a by (auto simp: in_range_def)
    then show ?thesis using a unat_step[of "src + of_nat (Suc i)" dst] by (auto simp: in_range_def add.assoc)
  qed
  have IH: "copy_bytes n (dst + 1) (src + 1) (m(dst := m src)) =
      (\<lambda>q. if in_range (dst + 1) n q then (m(dst := m src)) (src + 1 + (q - (dst + 1))) else (m(dst := m src)) q)"
    by (rule Suc.IH) (use pre Suc.prems(2) in auto)
  have "(if in_range (dst + 1) n q then (m(dst := m src)) (src + 1 + (q - (dst + 1))) else (m(dst := m src)) q) =
      (if in_range dst (Suc n) q then m (src + (q - dst)) else m q)" for q
  proof (cases "q = dst")
    case True
    have "unat (- 1 :: UW) = 2 ^ 32 - 1" by (simp add: unat_m1)
    then have "\<not> in_range (dst + 1) n q" using Suc.prems(2) by (simp add: in_range_def True)
    then show ?thesis by (simp add: True in_range_def)
  next
    case False
    have r: "in_range (dst + 1) n q \<longleftrightarrow> in_range dst (Suc n) q"
    proof -
      have "unat (q - dst) \<noteq> 0" using False by (simp add: unat_eq_0)
      then show ?thesis using unat_step[OF False] by (auto simp: in_range_def)
    qed
    have "src + (q - dst) \<noteq> dst" if "in_range dst (Suc n) q"
    proof -
      have "unat (q - dst) < Suc n" using that by (simp add: in_range_def)
      then have "\<not> in_range dst (unat (q - dst)) (src + of_nat (unat (q - dst)))" by (rule Suc.prems(1))
      then show ?thesis using False by (auto simp: in_range_def unat_gt_0)
    qed
    then show ?thesis using False r by (simp add: algebra_simps)
  qed
  then show ?case by (simp only: copy_bytes.simps IH)
qed

subsection \<open>Correctness of the string routines\<close>

text \<open>\<open>cstr m p xs\<close>: at \<open>p\<close> lies the string \<open>xs\<close> with its terminating zero.\<close>

fun cstr :: "memory \<Rightarrow> UW \<Rightarrow> UB list \<Rightarrow> bool" where
  "cstr m p [] \<longleftrightarrow> m p = 0"
| "cstr m p (x # xs) \<longleftrightarrow> m p = x \<and> x \<noteq> 0 \<and> cstr m (p + 1) xs"

lemma strlen_loop_eq: "cstr m p xs \<Longrightarrow> strlen_loop m p = Some (p + of_nat (length xs))"
proof (induction xs arbitrary: p)
  case Nil
  then show ?case by (subst strlen_loop.simps) simp
next
  case (Cons x xs)
  then show ?case by (subst strlen_loop.simps) (auto simp: add.assoc)
qed

lemma strcmp_eq:
  "cstr m p xs \<Longrightarrow> cstr m q ys \<Longrightarrow>
   \<exists>r. knl_strcmp m p q = Some r \<and> (r = 0 \<longleftrightarrow> xs = ys) \<and> (r < 0 \<longleftrightarrow> xs < ys)"
proof (induction xs arbitrary: p q ys)
  case Nil
  show ?case
    using Nil uint_pos by (subst knl_strcmp.simps) (cases ys, auto simp: Nil_less_Cons uint_0_iff)
next
  case (Cons x xs)
  show ?case
  proof (cases ys)
    case Nil
    then show ?thesis using Cons.prems by (subst knl_strcmp.simps) (auto simp: Let_def uint_pos dest: uint_pos)
  next
    case ys: (Cons y zs)
    show ?thesis
    proof (cases "x = y")
      case True
      have "knl_strcmp m p q = knl_strcmp m (p + 1) (q + 1)"
        using Cons.prems ys True by (subst knl_strcmp.simps) (auto simp: Let_def)
      then show ?thesis using Cons.IH[of "p + 1" "q + 1" zs] Cons.prems ys True by auto
    next
      case False
      have "uint x - uint y \<noteq> 0" using False by (simp add: word_uint_eq_iff)
      then have "knl_strcmp m p q = Some (uint x - uint y)"
        using Cons.prems ys by (subst knl_strcmp.simps) (auto simp: Let_def)
      then show ?thesis using ys False by (auto simp: word_uint_eq_iff word_less_def)
    qed
  qed
qed

lemma strncpy_loop_eq:
  assumes "cstr m src xs" "n \<le> 2 ^ 32"
    "\<And>i. i \<le> length xs \<Longrightarrow> \<not> in_range cp n (src + of_nat i)"
  shows "strncpy_loop n cp src m = (\<lambda>q. if in_range cp n q
    then if unat (q - cp) < length xs then xs ! unat (q - cp) else 0 else m q)"
  using assms
proof (induction n arbitrary: cp src m xs)
  case 0
  then show ?case by (simp add: in_range_def)
next
  case (Suc n)
  have src: "src \<noteq> cp" using Suc.prems(3)[of 0] by (auto simp: in_range_def)
  have last: "\<not> in_range (cp + 1) n cp"
    using Suc.prems(2) unat_m1 by (simp add: in_range_def)
  have r: "in_range (cp + 1) n q \<longleftrightarrow> in_range cp (Suc n) q" "unat (q - (cp + 1)) = unat (q - cp) - 1"
    "0 < unat (q - cp)" if "q \<noteq> cp" for q
  proof -
    have "unat (q - cp) \<noteq> 0" using that by (simp add: unat_eq_0)
    then show "in_range (cp + 1) n q \<longleftrightarrow> in_range cp (Suc n) q" "0 < unat (q - cp)"
      using unat_step[OF that] by (auto simp: in_range_def)
    show "unat (q - (cp + 1)) = unat (q - cp) - 1" by (rule unat_step[OF that])
  qed
  show ?case
  proof (cases xs)
    case Nil
    then have z: "m src = 0" using Suc.prems(1) by simp
    have "(if in_range (cp + 1) n q then 0 else (m(cp := 0)) q) = (if in_range cp (Suc n) q then 0 else m q)" for q
      using r(1)[of q] last by (cases "q = cp") (auto simp: in_range_def)
    then show ?thesis using z src Nil by (auto simp: fill_bytes_eq)
  next
    case (Cons x ys)
    let ?m = "m(cp := m src)"
    have x: "m src = x" "x \<noteq> 0" "cstr m (src + 1) ys" using Suc.prems(1) Cons by auto
    have keep: "cstr ?m a zs" if "cstr m a zs" "\<And>i. i \<le> length zs \<Longrightarrow> a + of_nat i \<noteq> cp" for a zs
      using that
    proof (induction zs arbitrary: a)
      case Nil
      then show ?case using Nil(2)[of 0] by simp
    next
      case (Cons z zs)
      have "cstr ?m (a + 1) zs"
        by (rule Cons.IH) (use Cons.prems(1) Cons.prems(2)[of "Suc _"] in \<open>auto simp: add.assoc\<close>)
      then show ?case using Cons.prems(1) Cons.prems(2)[of 0] by (auto simp: fun_upd_def)
    qed
    have out: "\<not> in_range cp (Suc n) (src + 1 + of_nat i)" if "i \<le> length ys" for i
      using Suc.prems(3)[of "Suc i"] that Cons by (simp add: add.assoc)
    then have ne: "src + 1 + of_nat i \<noteq> cp" if "i \<le> length ys" for i using that by (force simp: in_range_def)
    have IH: "strncpy_loop n (cp + 1) (src + 1) ?m = (\<lambda>q. if in_range (cp + 1) n q
        then if unat (q - (cp + 1)) < length ys then ys ! unat (q - (cp + 1)) else 0 else ?m q)"
    proof (rule Suc.IH)
      show "cstr ?m (src + 1) ys" by (rule keep[OF x(3) ne])
      show "\<not> in_range (cp + 1) n (src + 1 + of_nat i)" if "i \<le> length ys" for i
        using out[OF that] r(1)[OF ne[OF that]] by simp
    qed (use Suc.prems(2) in simp)
    have step: "strncpy_loop (Suc n) cp src m = strncpy_loop n (cp + 1) (src + 1) ?m"
      using x src by (simp add: Let_def)
    have "(if in_range (cp + 1) n q then if unat (q - (cp + 1)) < length ys then ys ! unat (q - (cp + 1)) else 0
        else ?m q) = (if in_range cp (Suc n) q
          then if unat (q - cp) < length xs then xs ! unat (q - cp) else 0 else m q)" for q
    proof (cases "q = cp")
      case True
      then show ?thesis using last x Cons by (simp add: in_range_def)
    next
      case False
      then show ?thesis using r[OF False] Cons by (cases "unat (q - cp)") auto
    qed
    then show ?thesis unfolding step IH by auto
  qed
qed

subsection \<open>Bit strings\<close>

definition bstr :: "memory \<Rightarrow> UW \<Rightarrow> int \<Rightarrow> bool" where
  "bstr m base i = bit (m (base + of_int (i div 8))) (nat (i mod 8))"

lemma and_7: "(n :: int) AND 7 = n mod 8"
  using take_bit_eq_mod[of 3 n] by (simp add: take_bit_eq_mask mask_eq_exp_minus_1)

lemma bit_BIT_SET_N: "bit (BIT_SET_N n) k \<longleftrightarrow> k = nat (n mod 8)"
  by (auto simp: BIT_SET_N_def and_7 bit_simps)

lemma same_byte:
  assumes "0 \<le> i" "i < 2 ^ 31" "0 \<le> k" "k < 2 ^ 31" "base + of_int (i div 8) = base + (of_int (k div 8) :: UW)"
  shows "i div 8 = k div 8"
proof -
  have e: "(of_int (i div 8) :: UW) = of_int (k div 8)" using assms(5) by simp
  have "uint (of_int (i div 8) :: UW) = i div 8" "uint (of_int (k div 8) :: UW) = k div 8"
    using assms(1-4) by (auto simp: uint_word_of_int intro!: mod_pos_pos_trivial)
  then show ?thesis using e by metis
qed

lemma bstr_bitset:
  assumes "0 \<le> i" "i < 2 ^ 31" "0 \<le> k" "k < 2 ^ 31"
  shows "bstr (knl_bitset base k m) base i \<longleftrightarrow> i = k \<or> bstr m base i"
    "bstr (knl_bitclr base k m) base i \<longleftrightarrow> i \<noteq> k \<and> bstr m base i"
proof -
  have b: "nat (i mod 8) < 8" by (simp add: nat_less_iff)
  have "i = k \<longleftrightarrow> i div 8 = k div 8 \<and> nat (i mod 8) = nat (k mod 8)"
    by (metis div_mult_mod_eq eq_nat_nat_iff pos_mod_sign zero_less_numeral)
  then show "bstr (knl_bitset base k m) base i \<longleftrightarrow> i = k \<or> bstr m base i"
    "bstr (knl_bitclr base k m) base i \<longleftrightarrow> i \<noteq> k \<and> bstr m base i"
    using same_byte[OF assms, of base] assms b
    by (auto simp: bstr_def knl_bitset_def knl_bitclr_def Let_def bit_BIT_SET_N bit_or_iff bit_and_iff bit_not_iff)
qed

text \<open>The inner loop of the search returns only when a set bit lies at or above the mask.\<close>

lemma bitsearch_byte_some:
  assumes "bitsearch_byte b msk p w = Some y"
  shows "\<exists>k. b AND push_bit k msk \<noteq> 0"
proof (rule bitsearch_byte.raw_induct[OF _ assms])
  fix rec b msk p w y
  assume IH: "\<And>b msk p w y. rec b msk p w = Some y \<Longrightarrow> \<exists>k. b AND push_bit k msk \<noteq> (0 :: UB)"
    and r: "(if b AND msk \<noteq> 0 then Some (if p < w then p else - 1) else rec b (push_bit 1 msk) (p + 1) w) = Some y"
  show "\<exists>k. b AND push_bit k msk \<noteq> 0"
  proof (cases "b AND msk \<noteq> 0")
    case True
    then show ?thesis by (intro exI[of _ 0]) simp
  next
    case False
    then have "rec b (push_bit 1 msk) (p + 1) w = Some y" using r by presburger
    then obtain k where "b AND push_bit k (push_bit 1 msk) \<noteq> 0" using IH by blast
    then show ?thesis by (intro exI[of _ "Suc k"]) simp
  qed
qed

lemma bitsearch_byte_none:
  assumes "drop_bit (nat (offset AND 7)) b = (0 :: UB)"
  shows "bitsearch_byte b (BIT_SET_N offset) p w = None"
proof (rule ccontr)
  assume "\<not> ?thesis"
  then obtain y where "bitsearch_byte b (BIT_SET_N offset) p w = Some y" by auto
  then obtain k where "b AND push_bit k (BIT_SET_N offset) \<noteq> 0" using bitsearch_byte_some by blast
  then obtain n where n: "bit b n" "bit (push_bit k (BIT_SET_N offset)) n"
    by (auto simp: bit_eq_iff bit_and_iff)
  then have "n = k + nat (offset AND 7)" by (auto simp: bit_push_bit_iff bit_BIT_SET_N and_7)
  then have "bit (drop_bit (nat (offset AND 7)) b) k" using n(1) by (simp add: bit_drop_bit_eq add.commute)
  then show False using assms by simp
qed

subsection \<open>Properties\<close>

text \<open>
  \<open>knl_memset\<close>, with its byte, alignment and word loops, stores the low byte of \<open>c\<close> in exactly the \<open>n\<close>
  bytes from \<open>p\<close> on, for every alignment of \<open>p\<close> and every length.
\<close>

theorem memset_correct:
  "knl_memset p c (int n) m = (\<lambda>q. if unat (q - p) < n then ucast c else m q)"
  by (simp add: memset_fill fill_bytes_eq in_range_def)

text \<open>
  \<open>knl_memcpy\<close> copies \<open>n\<close> bytes when no byte of the source is overwritten before it is read: every byte of
  the destination is the corresponding byte of the source, and nothing else changes.
\<close>

theorem memcpy_correct:
  assumes "\<And>i. i < n \<Longrightarrow> \<not> unat (src + of_nat i - dst) < i" "n < 2 ^ 31"
  shows "knl_memcpy dst src (int n) m = (\<lambda>q. if unat (q - dst) < n then m (src + (q - dst)) else m q)"
  using copy_bytes_eq[of n dst src m] assms by (simp add: knl_memcpy_def in_range_def)

theorem memcpy_correct_witness:
  "knl_memcpy 0x100 0x101 (int 3) (\<lambda>p. ucast p) 0x102 = 3"
proof -
  have "\<not> unat (0x101 + of_nat i - 0x100 :: UW) < i" if "i < 3" for i
  proof -
    have "i = 0 \<or> i = 1 \<or> i = 2" using that by linarith
    then show ?thesis by auto
  qed
  then have "knl_memcpy 0x100 0x101 (int 3) (\<lambda>p. ucast p) = (\<lambda>q. if unat (q - 0x100) < 3
      then ucast (0x101 + (q - 0x100)) else ucast q)"
    by (intro memcpy_correct) auto
  then show ?thesis by (simp only:) simp
qed

text \<open>
  \<open>knl_strcmp\<close> on two terminated strings returns, its result is 0 exactly when they are equal, and negative
  exactly when the first precedes the second in the lexicographic order of unsigned characters.
\<close>

theorem strcmp_correct:
  assumes "cstr m p xs" "cstr m q ys"
  shows "\<exists>r. knl_strcmp m p q = Some r \<and> (r = 0 \<longleftrightarrow> xs = ys) \<and> (r < 0 \<longleftrightarrow> xs < ys)"
  using strcmp_eq[OF assms] .

theorem strcmp_correct_witness:
  "\<exists>r. knl_strcmp ((\<lambda>_. 0)(0x100 := 65, 0x200 := 65, 0x201 := 200)) 0x100 0x200 = Some r \<and> r < 0"
  using strcmp_correct[of "(\<lambda>_. 0)(0x100 := 65, 0x200 := 65, 0x201 := 200)" "0x100" "[65]" "0x200" "[65, 200]"]
  by auto

text \<open>
  \<open>knl_strncpy\<close> fills exactly the \<open>n\<close> bytes of the destination: the characters of the source as far as
  they fit, then zeros; a source of \<open>n\<close> or more characters is cut off without a terminator.
\<close>

theorem strncpy_correct:
  assumes "cstr m src xs" "n < 2 ^ 31" "\<And>i. i \<le> length xs \<Longrightarrow> \<not> unat (src + of_nat i - dst) < n"
  shows "knl_strncpy dst src (int n) m = (\<lambda>q. if unat (q - dst) < n
    then if unat (q - dst) < length xs then xs ! unat (q - dst) else 0 else m q)"
  using strncpy_loop_eq[of m src xs n dst] assms by (simp add: knl_strncpy_def in_range_def)

theorem strncpy_correct_witness:
  "knl_strncpy 0x200 0x100 4 ((\<lambda>_. 7)(0x100 := 65, 0x101 := 0)) 0x203 = 0 \<and>
   knl_strncpy 0x200 0x100 4 ((\<lambda>_. 7)(0x100 := 65, 0x101 := 0)) 0x204 = 7"
proof -
  have "\<not> unat (0x100 + of_nat i - 0x200 :: UW) < 4" if "i \<le> length [65 :: UB]" for i
  proof -
    have "i = 0 \<or> i = 1" using that by (simp, linarith)
    then show ?thesis by auto
  qed
  from strncpy_correct[where xs = "[65]", OF _ _ this, of "(\<lambda>_. 7)(0x100 := 65, 0x101 := 0)"]
  show ?thesis by simp
qed

text \<open>
  \<open>knl_bitset\<close> and \<open>knl_bitclr\<close> set and clear exactly the addressed bit of a bit string that runs over byte
  boundaries.
\<close>

theorem bitset_bitclr_correct:
  assumes "0 \<le> i" "i < 2 ^ 31" "0 \<le> k" "k < 2 ^ 31"
  shows "(bstr (knl_bitset base k m) base i \<longleftrightarrow> i = k \<or> bstr m base i) \<and>
    (bstr (knl_bitclr base k m) base i \<longleftrightarrow> i \<noteq> k \<and> bstr m base i)"
  using bstr_bitset[OF assms] by blast

theorem bitset_bitclr_correct_witness:
  "bstr (knl_bitset 0x100 13 (\<lambda>_. 0)) 0x100 13 \<and> \<not> bstr (knl_bitclr 0x100 13 (\<lambda>_. 255)) 0x100 13"
  using bitset_bitclr_correct[of 13 13] by simp

text \<open>
  \<open>knl_bitsearch1\<close> does not return when the byte of the start offset has a set bit below the offset but none
  at or above it: the inner loop shifts its mask out of the byte and runs on without end.
\<close>

theorem bitsearch1_diverges:
  assumes "0 \<le> offset" "0 < width" "m (base + of_int (offset div 8)) \<noteq> 0"
    and "drop_bit (nat (offset AND 7)) (m (base + of_int (offset div 8))) = 0"
  shows "knl_bitsearch1 m base offset width = None"
  using assms bitsearch_byte_none[OF assms(4)]
  by (simp add: knl_bitsearch1_def bitsearch_loop.simps[of m _ _ 0])

theorem bitsearch1_diverges_witness:
  "knl_bitsearch1 ((\<lambda>_. 0)(0x100 := 1, 0x101 := 1)) 0x100 4 16 = None"
  by (rule bitsearch1_diverges) simp_all

end
