(* ===== verification/Imalloc.thy ===== *)
theory Imalloc
  imports Task_Ctl Tstdlib Queue "HOL-Library.Monad_Syntax" "HOL-Library.Signed_Division"
begin

text \<open>
  \<^verbatim>\<open>kernel/tkernel/memory.c\<close>, \<^verbatim>\<open>memory.h\<close>: the kernel's dynamic memory. The allocator keeps its lists inside
  the memory it manages: every area begins with an AreaQue node, a free area continues with a FreeQue
  node and a node for areas of the same siz. All of it is words of the byte memory; a \<open>QUEUE\<close> is eight
  bytes, \<open>next\<close> and then \<open>prev\<close>, and the lowest bit of an AreaQue \<open>prev\<close> says that the area is in use.
\<close>

subsection \<open>QUEUE nodes in memory (queue.h)\<close>

definition lnk_next :: "memory \<Rightarrow> UW \<Rightarrow> UW" where "lnk_next m q = ld32 q m"
definition lnk_prev :: "memory \<Rightarrow> UW \<Rightarrow> UW" where "lnk_prev m q = ld32 (q + 4) m"
definition set_next :: "UW \<Rightarrow> UW \<Rightarrow> memory \<Rightarrow> memory" where "set_next q v m = st32 q v m"
definition set_prev :: "UW \<Rightarrow> UW \<Rightarrow> memory \<Rightarrow> memory" where "set_prev q v m = st32 (q + 4) v m"

definition mQueInit :: "UW \<Rightarrow> memory \<Rightarrow> memory" where
  "mQueInit q m = set_prev q q (set_next q q m)"

definition mQueInsert :: "UW \<Rightarrow> UW \<Rightarrow> memory \<Rightarrow> memory" where
  "mQueInsert entry q m =
     (let m = set_prev entry (lnk_prev m q) m;
          m = set_next entry q m;
          m = set_next (lnk_prev m q) entry m
      in set_prev q entry m)"

definition mQueRemove :: "UW \<Rightarrow> memory \<Rightarrow> memory" where
  "mQueRemove entry m =
     (if lnk_next m entry \<noteq> entry
      then let m = set_next (lnk_prev m entry) (lnk_next m entry) m
           in set_prev (lnk_next m entry) (lnk_prev m entry) m
      else m)"

subsection \<open>Areas (memory.h)\<close>

abbreviation (input) AREA_USE :: UW where "AREA_USE \<equiv> 1"
abbreviation (input) AREA_MASK :: UW where "AREA_MASK \<equiv> 1"
abbreviation (input) MIN_FRAGMENT :: int where "MIN_FRAGMENT \<equiv> 16"

text \<open>\<open>IMACB\<close>: \<open>memsz\<close>, then the heads of the two queues.\<close>

definition im_areaque :: "UW \<Rightarrow> UW" where "im_areaque ic = ic + 4"
definition im_freeque :: "UW \<Rightarrow> UW" where "im_freeque ic = ic + 12"
definition im_memsz :: "memory \<Rightarrow> UW \<Rightarrow> int" where "im_memsz m ic = sint (ld32 ic m)"

definition ROUND8 :: "UW \<Rightarrow> UW" where "ROUND8 sz = (sz + 7) AND NOT 7"

definition roundSize :: "int \<Rightarrow> int" where
  "roundSize sz = (let sz = (if sz < MIN_FRAGMENT then MIN_FRAGMENT else sz) in sint (ROUND8 (word_of_int sz)))"

definition setAreaFlag :: "UW \<Rightarrow> UW \<Rightarrow> memory \<Rightarrow> memory" where
  "setAreaFlag q f m = set_prev q (lnk_prev m q OR f) m"

definition clrAreaFlag :: "UW \<Rightarrow> UW \<Rightarrow> memory \<Rightarrow> memory" where
  "clrAreaFlag q f m = set_prev q (lnk_prev m q AND NOT f) m"

definition chkAreaFlag :: "UW \<Rightarrow> UW \<Rightarrow> memory \<Rightarrow> bool" where
  "chkAreaFlag q f m \<longleftrightarrow> lnk_prev m q AND f \<noteq> 0"

definition area_Mask :: "UW \<Rightarrow> UW" where "area_Mask x = x AND NOT AREA_MASK"

definition assign_prev :: "UW \<Rightarrow> UW \<Rightarrow> memory \<Rightarrow> memory" where
  "assign_prev q y m = set_prev q ((lnk_prev m q AND AREA_MASK) OR y) m"

definition AreaSize :: "memory \<Rightarrow> UW \<Rightarrow> int" where "AreaSize m aq = sint (lnk_next m aq - (aq + 8))"
definition FreeSize :: "memory \<Rightarrow> UW \<Rightarrow> int" where "FreeSize m fq = sint (lnk_prev m (fq + 8))"

subsection \<open>Free areas\<close>

partial_function (option) search_larger :: "memory \<Rightarrow> UW \<Rightarrow> int \<Rightarrow> UW \<Rightarrow> int \<Rightarrow> UW option" where
  "search_larger m fque blksz q fsz =
     (let q = lnk_prev m q
      in if q \<noteq> fque
         then let fsz = FreeSize m q
              in if fsz \<le> blksz then Some (if fsz < blksz then lnk_next m q else q)
                 else search_larger m fque blksz q fsz
         else Some (if fsz \<ge> blksz then lnk_next m q else q))"

partial_function (option) search_smaller :: "memory \<Rightarrow> UW \<Rightarrow> int \<Rightarrow> UW \<Rightarrow> UW option" where
  "search_smaller m fque blksz q =
     (let q = lnk_next m q
      in if q \<noteq> fque \<and> \<not> FreeSize m q \<ge> blksz then search_smaller m fque blksz q else Some q)"

definition knl_searchFreeArea :: "memory \<Rightarrow> UW \<Rightarrow> int \<Rightarrow> UW option" where
  "knl_searchFreeArea m ic blksz =
     (let fque = im_freeque ic
      in if blksz > im_memsz m ic sdiv 4 then search_larger m fque blksz fque 0
         else search_smaller m fque blksz fque)"

definition knl_appendFreeArea :: "UW \<Rightarrow> UW \<Rightarrow> memory \<Rightarrow> memory option" where
  "knl_appendFreeArea ic aq m =
     (let siz = AreaSize m aq
      in do {
        fq \<leftarrow> knl_searchFreeArea m ic siz;
        let m = clrAreaFlag aq AREA_USE m;
        Some (if fq \<noteq> im_freeque ic \<and> FreeSize m fq = siz
              then let m = set_next (aq + 16) (lnk_next m (fq + 8)) m;
                       m = set_next (fq + 8) (aq + 16) m;
                       m = set_prev (aq + 16) (fq + 8) m;
                       m = (if lnk_next m (aq + 16) \<noteq> 0 then set_prev (lnk_next m (aq + 16)) (aq + 16) m else m)
                   in set_next (aq + 8) 0 m
              else let m = mQueInsert (aq + 8) fq m;
                       m = set_next (aq + 16) 0 m
                   in set_prev (aq + 16) (word_of_int siz) m)
      })"

definition knl_removeFreeQue :: "UW \<Rightarrow> memory \<Rightarrow> memory" where
  "knl_removeFreeQue fq m =
     (if lnk_next m fq = 0
      then let m = set_next (lnk_prev m (fq + 8)) (lnk_next m (fq + 8)) m
           in if lnk_next m (fq + 8) \<noteq> 0 then set_prev (lnk_next m (fq + 8)) (lnk_prev m (fq + 8)) m else m
      else let m = (if lnk_next m (fq + 8) \<noteq> 0
                    then let m = mQueInsert (lnk_next m (fq + 8) - 8) fq m
                         in set_prev (lnk_next m (fq + 8)) (lnk_prev m (fq + 8)) m
                    else m)
           in mQueRemove fq m)"

definition knl_insertAreaQue :: "UW \<Rightarrow> UW \<Rightarrow> memory \<Rightarrow> memory" where
  "knl_insertAreaQue q ent m =
     (let m = set_prev ent q m;
          m = set_next ent (lnk_next m q) m;
          m = assign_prev (lnk_next m q) ent m
      in set_next q ent m)"

definition knl_removeAreaQue :: "UW \<Rightarrow> memory \<Rightarrow> memory" where
  "knl_removeAreaQue aq m =
     (let m = set_next (area_Mask (lnk_prev m aq)) (lnk_next m aq) m
      in assign_prev (lnk_next m aq) (area_Mask (lnk_prev m aq)) m)"

subsection \<open>Allocation\<close>

text \<open>
  The body of \<open>knl_Imalloc\<close> between the bounds of its critical section, for the siz already adjusted: it
  returns the address of the area, 0 when there is none. \<open>siz\<close> is the value of the signed variable.
\<close>

definition imalloc_area :: "UW \<Rightarrow> int \<Rightarrow> memory \<Rightarrow> (memory \<times> UW) option" where
  "imalloc_area ic siz m = do {
     q \<leftarrow> knl_searchFreeArea m ic siz;
     if q = im_freeque ic then Some (m, 0)
     else do {
       let m = knl_removeFreeQue q m;
       let aq = q - 8;
       m \<leftarrow> (if (word_of_int (FreeSize m q - siz) :: UW) \<ge> word_of_int (MIN_FRAGMENT + 8)
             then let aq2 = aq + 8 + word_of_int siz
                  in knl_appendFreeArea ic aq2 (knl_insertAreaQue aq aq2 m)
             else Some m);
       Some (setAreaFlag aq AREA_USE m, q)
     }
   }"

definition imalloc_size :: "int \<Rightarrow> int" where
  "imalloc_size siz =
     (if (word_of_int siz :: UW) < word_of_int MIN_FRAGMENT then MIN_FRAGMENT
      else sint (ROUND8 (word_of_int siz)))"

definition knl_Imalloc :: "nat \<Rightarrow> int \<Rightarrow> kstate \<Rightarrow> (kstate \<times> UW) option" where
  "knl_Imalloc c siz s =
     (if siz \<le> 0 then Some (s, 0)
      else do {
        (m, q) \<leftarrow> imalloc_area (imacb s) (imalloc_size siz) (mem s);
        Some (END_CRITICAL_SECTION c (s\<lparr>mem := m\<rparr>), q)
      })"

definition ifree_area :: "UW \<Rightarrow> UW \<Rightarrow> memory \<Rightarrow> memory option" where
  "ifree_area ic ptr m =
     (let aq = ptr - 8;
          m = clrAreaFlag aq AREA_USE m;
          m = (if \<not> chkAreaFlag (lnk_next m aq) AREA_USE m
               then let m = knl_removeFreeQue (lnk_next m aq + 8) m
                    in knl_removeAreaQue (lnk_next m aq) m
               else m);
          (aq, m) = (if \<not> chkAreaFlag (lnk_prev m aq) AREA_USE m
                     then let aq = lnk_prev m aq;
                              m = knl_removeFreeQue (aq + 8) m
                          in (aq, knl_removeAreaQue (lnk_next m aq) m)
                     else (aq, m))
      in knl_appendFreeArea ic aq m)"

definition knl_Ifree :: "nat \<Rightarrow> UW \<Rightarrow> kstate \<Rightarrow> kstate option" where
  "knl_Ifree c ptr s = do {
     m \<leftarrow> ifree_area (imacb s) ptr (mem s);
     Some (END_CRITICAL_SECTION c (s\<lparr>mem := m\<rparr>))
   }"

definition knl_Icalloc :: "nat \<Rightarrow> int \<Rightarrow> int \<Rightarrow> kstate \<Rightarrow> (kstate \<times> UW) option" where
  "knl_Icalloc c nmemb siz s =
     (let sz = sint (word_of_int (nmemb * siz) :: UW)
      in do {
        (s, p) \<leftarrow> knl_Imalloc c sz s;
        Some (if p = 0 then (s, 0) else (s\<lparr>mem := knl_memset p 0 sz (mem s)\<rparr>, p))
      })"

definition knl_Irealloc :: "nat \<Rightarrow> UW \<Rightarrow> int \<Rightarrow> kstate \<Rightarrow> (kstate \<times> UW) option" where
  "knl_Irealloc c ptr siz s = do {
     (s, newptr) \<leftarrow> (if siz \<noteq> 0 then knl_Imalloc c siz s else Some (s, 0));
     if siz \<noteq> 0 \<and> newptr = 0 then Some (s, 0)
     else if ptr \<noteq> 0
     then do {
       let s = (if newptr \<noteq> 0
                then let oldsz = AreaSize (mem s) (ptr - 8)
                     in s\<lparr>mem := knl_memcpy newptr ptr (if siz > oldsz then oldsz else siz) (mem s)\<rparr>
                else s);
       s \<leftarrow> knl_Ifree c ptr s;
       Some (s, newptr)
     }
     else Some (s, newptr)
   }"

definition knl_init_Imalloc :: "kstate \<Rightarrow> kstate option" where
  "knl_init_Imalloc s =
     (let top = (lowmem_top s + 3) AND NOT 3;
          im = top;
          top = top + 20;
          top = (top + 7) AND NOT 7;
          memsz = lowmem_limit s - top - 16;
          m = st32 im memsz (mem s);
          m = mQueInit (im_areaque im) m;
          m = mQueInit (im_freeque im) m;
          e = top + memsz + 8;
          m = knl_insertAreaQue (im_areaque im) e m;
          m = knl_insertAreaQue (im_areaque im) top m;
          m = setAreaFlag e AREA_USE m;
          m = setAreaFlag (im_areaque im) AREA_USE m
      in do {
        m \<leftarrow> knl_appendFreeArea im top m;
        Some (s\<lparr>mem := m, imacb := im, lowmem_top := lowmem_limit s\<rparr>)
      })"

subsection \<open>The search\<close>

text \<open>
  The FreeQue of sizes is a ring in the sense of theory \<open>Queue\<close>, read through \<open>mem_qheap\<close>; the sizes on it
  increase strictly, because areas of one size hang below one node.
\<close>

definition mem_qheap :: "memory \<Rightarrow> UW qheap" where
  "mem_qheap m = \<lparr>qnext = lnk_next m, qprev = lnk_prev m\<rparr>"

lemma mem_qheap_sel [simp]: "qnext (mem_qheap m) = lnk_next m" "qprev (mem_qheap m) = lnk_prev m"
  by (simp_all add: mem_qheap_def)

definition best_fit :: "memory \<Rightarrow> UW \<Rightarrow> int \<Rightarrow> UW list \<Rightarrow> UW" where
  "best_fit m h b qs = (case find (\<lambda>q. FreeSize m q \<ge> b) qs of Some q \<Rightarrow> q | None \<Rightarrow> h)"

lemma search_smaller_eq:
  "chain (mem_qheap m) (q # zs @ [h]) \<Longrightarrow> h \<notin> set zs \<Longrightarrow>
   search_smaller m h b q = Some (best_fit m h b zs)"
proof (induction zs arbitrary: q)
  case Nil
  then show ?case by (subst search_smaller.simps) (simp add: best_fit_def)
next
  case (Cons z zs)
  then show ?case by (subst search_smaller.simps) (auto simp: Let_def best_fit_def)
qed

lemma find_none_less: "(\<forall>y \<in> set ys. \<not> P y) \<Longrightarrow> find P (ys @ rest) = find P rest"
  by (induction ys) auto

lemma search_larger_eq:
  assumes "chain (mem_qheap m) (h # ys @ [q])" "h \<notin> set ys" "sorted_wrt (<) (map (FreeSize m) (ys @ rest))"
    and "q = hd (rest @ [h])" "rest = [] \<and> f < b \<or> rest \<noteq> [] \<and> b < FreeSize m (hd rest) \<and> f = FreeSize m (hd rest)"
    and "lnk_next m h = hd (ys @ rest @ [h])"
  shows "search_larger m h b q f = Some (best_fit m h b (ys @ rest))"
  using assms
proof (induction ys arbitrary: q f rest rule: rev_induct)
  case Nil
  then have "lnk_prev m q = h" by simp
  then show ?case using Nil by (subst search_larger.simps) (cases rest, auto simp: best_fit_def)
next
  case (snoc y ys)
  have c: "chain (mem_qheap m) (h # ys @ [y])" "lnk_prev m q = y" "lnk_next m y = q"
    using snoc.prems(1) chain_append[of "mem_qheap m" "h # ys" y "[q]"] by auto
  have yh: "y \<noteq> h" "h \<notin> set ys" using snoc.prems(2) by auto
  have so: "\<forall>x \<in> set ys. FreeSize m x < FreeSize m y" using snoc.prems(3) by (auto simp: sorted_wrt_append)
  show ?case
  proof (cases "FreeSize m y \<le> b")
    case False
    have "search_larger m h b q f = search_larger m h b y (FreeSize m y)"
      using c(2) yh False by (subst search_larger.simps) (simp add: Let_def)
    also have "\<dots> = Some (best_fit m h b (ys @ y # rest))"
      by (rule snoc.IH) (use c(1) yh(2) snoc.prems(3,6) False in auto)
    finally show ?thesis by simp
  next
    case True
    have r: "search_larger m h b q f = Some (if FreeSize m y < b then lnk_next m y else y)"
      using c(2) yh True by (subst search_larger.simps) (simp add: Let_def)
    show ?thesis
    proof (cases "FreeSize m y < b")
      case True
      have "best_fit m h b ((ys @ [y]) @ rest) = best_fit m h b rest"
        unfolding best_fit_def by (subst find_none_less) (use so True in auto)
      also have "\<dots> = q" using snoc.prems(4,5) by (cases rest) (auto simp: best_fit_def)
      finally show ?thesis using r True c(3) by simp
    next
      case F: False
      have "find (\<lambda>q. FreeSize m q \<ge> b) (ys @ y # rest) = Some y"
        by (subst find_none_less) (use so True F in auto)
      then show ?thesis using r F by (simp add: best_fit_def)
    qed
  qed
qed

lemma search_best_fit:
  assumes "ring (mem_qheap m) (im_freeque ic) qs" "sorted_wrt (<) (map (FreeSize m) qs)" "0 \<le> im_memsz m ic"
  shows "knl_searchFreeArea m ic b = Some (best_fit m (im_freeque ic) b qs)"
proof -
  let ?h = "im_freeque ic"
  have c: "chain (mem_qheap m) (?h # qs @ [?h])" "?h \<notin> set qs" using assms(1) by (auto simp: ring_def)
  have n: "lnk_next m ?h = hd (qs @ [?h])" using ring_first[OF assms(1)] by simp
  show ?thesis
  proof (cases "b > im_memsz m ic sdiv 4")
    case True
    moreover have "0 \<le> im_memsz m ic sdiv 4" using assms(3) by (auto simp: signed_divide_int_def sgn_if)
    ultimately have "0 < b" by simp
    have "search_larger m ?h b ?h 0 = Some (best_fit m ?h b (qs @ []))"
      by (rule search_larger_eq) (use c assms(2) n \<open>0 < b\<close> in auto)
    then show ?thesis using True by (simp add: knl_searchFreeArea_def Let_def)
  next
    case False
    then show ?thesis using search_smaller_eq[OF c] by (simp add: knl_searchFreeArea_def Let_def)
  qed
qed

subsection \<open>The size of a request\<close>

lemma ROUND8_small:
  assumes "0 < n" "n \<le> 0x7FFFFFF8"
  shows "sint (ROUND8 (word_of_int n)) = (n + 7) div 8 * 8"
proof -
  have "ROUND8 (word_of_int n) = word_of_int ((n + 7) AND NOT 7)"
    by (simp add: ROUND8_def of_int_and_eq of_int_not_eq)
  moreover have "(n + 7) AND NOT 7 = (n + 7) div 8 * 8"
  proof -
    have m: "(7 :: int) = mask 3" by (simp add: mask_eq_exp_minus_1)
    have "(n + 7) AND NOT (mask 3) = push_bit 3 (drop_bit 3 (n + 7))"
      by (rule bit_eqI) (auto simp: bit_simps)
    then show ?thesis by (simp add: m[symmetric] push_bit_eq_mult drop_bit_eq_div)
  qed
  ultimately have "ROUND8 (word_of_int n) = word_of_int ((n + 7) div 8 * 8)" by metis
  then have "sint (ROUND8 (word_of_int n)) = signed_take_bit 31 ((n + 7) div 8 * 8)"
    using sint_sbintrunc'[of "(n + 7) div 8 * 8", where 'a = 32] by (simp only:) simp
  also have "\<dots> = (n + 7) div 8 * 8"
    by (rule signed_take_bit_int_eq_self) (use assms in auto)
  finally show ?thesis .
qed

lemma imalloc_size_ok:
  assumes "0 < n" "n \<le> 0x7FFFFFF8"
  shows "n \<le> imalloc_size n" "imalloc_size n < n + 16" "16 \<le> imalloc_size n" "imalloc_size n mod 8 = 0"
proof -
  have u: "(word_of_int n :: UW) < word_of_int 16 \<longleftrightarrow> n < 16"
    using assms by (simp add: word_less_def uint_word_of_int)
  have "n \<le> imalloc_size n \<and> imalloc_size n < n + 16 \<and> 16 \<le> imalloc_size n \<and> imalloc_size n mod 8 = 0"
  proof (cases "n < 16")
    case True
    then show ?thesis using u assms by (simp add: imalloc_size_def)
  next
    case False
    then have "imalloc_size n = (n + 7) div 8 * 8"
      using u ROUND8_small[OF assms] by (simp add: imalloc_size_def)
    then show ?thesis using False by simp presburger
  qed
  then show "n \<le> imalloc_size n" "imalloc_size n < n + 16" "16 \<le> imalloc_size n" "imalloc_size n mod 8 = 0"
    by blast+
qed

lemma imalloc_size_wraps:
  assumes "0x7FFFFFF8 < n" "n \<le> 0x7FFFFFFF"
  shows "imalloc_size n = - (2 ^ 31)"
proof -
  have "n = 0x7FFFFFF9 \<or> n = 0x7FFFFFFA \<or> n = 0x7FFFFFFB \<or> n = 0x7FFFFFFC \<or> n = 0x7FFFFFFD \<or>
      n = 0x7FFFFFFE \<or> n = 0x7FFFFFFF" using assms by linarith
  then show ?thesis by (elim disjE) (simp_all add: imalloc_size_def ROUND8_def)
qed

subsection \<open>Properties\<close>

definition ex_heap :: memory where
  "ex_heap = (\<lambda>p. if p = 0x1000 then 64
     else if p = 0x100D \<or> p = 0x1011 then 0x20
     else if p = 0x2000 \<or> p = 0x2004 then 0x0C else if p = 0x2001 \<or> p = 0x2005 then 0x10
     else if p = 0x200C then 40 else 0)"

lemma ex_heap_ring:
  "ring (mem_qheap ex_heap) (im_freeque 0x1000) [0x2000]" "sorted_wrt (<) (map (FreeSize ex_heap) [0x2000])"
  "0 \<le> im_memsz ex_heap 0x1000" "FreeSize ex_heap 0x2000 = 40"
  by (simp_all add: ring_def im_freeque_def lnk_next_def lnk_prev_def ex_heap_def ld32_def im_memsz_def FreeSize_def)

text \<open>
  C31. \<open>knl_searchFreeArea\<close>, which runs from the small end for small requests and from the large end for others,
  returns in both directions the smallest free area that is large enough, and the queue head when there
  is none.
\<close>

theorem searchFreeArea_best_fit:
  assumes "ring (mem_qheap m) (im_freeque ic) qs" "sorted_wrt (<) (map (FreeSize m) qs)" "0 \<le> im_memsz m ic"
  shows "knl_searchFreeArea m ic b =
    Some (case find (\<lambda>q. FreeSize m q \<ge> b) qs of Some q \<Rightarrow> q | None \<Rightarrow> im_freeque ic)"
  using search_best_fit[OF assms] by (simp add: best_fit_def)

theorem searchFreeArea_best_fit_witness:
  "knl_searchFreeArea ex_heap 0x1000 40 = Some 0x2000 \<and> knl_searchFreeArea ex_heap 0x1000 48 = Some 0x100C"
  using searchFreeArea_best_fit[OF ex_heap_ring(1-3)] ex_heap_ring(4) by (simp add: im_freeque_def)

text \<open>
  C39. A request of up to \<open>MAX_ALLOCATE\<close> bytes is rounded up to a multiple of eight of at least 16 and by less
  than 16. Above, the rounding wraps to a negative size, and the search then returns the first area of
  a non-empty free queue, whatever its size, instead of refusing the request.
\<close>

theorem imalloc_size_bounds:
  assumes "0 < n" "n \<le> 0x7FFFFFFF"
  shows "if n \<le> 0x7FFFFFF8
    then n \<le> imalloc_size n \<and> imalloc_size n < n + 16 \<and> 16 \<le> imalloc_size n \<and> imalloc_size n mod 8 = 0
    else \<forall>m ic. im_memsz m ic \<ge> 0 \<longrightarrow>
           knl_searchFreeArea m ic (imalloc_size n) = Some (lnk_next m (im_freeque ic))"
proof (cases "n \<le> 0x7FFFFFF8")
  case False
  have "knl_searchFreeArea m ic (imalloc_size n) = Some (lnk_next m (im_freeque ic))"
    if "im_memsz m ic \<ge> 0" for m ic
  proof -
    have "0 \<le> im_memsz m ic sdiv 4" using that by (auto simp: signed_divide_int_def sgn_if)
    moreover have "FreeSize m q \<ge> - (2 ^ 31)" for q
      using sint_greater_eq[of "lnk_prev m (q + 8)"] by (simp add: FreeSize_def)
    ultimately show ?thesis
      using imalloc_size_wraps[of n] False assms(2)
      by (subst knl_searchFreeArea_def, subst search_smaller.simps) (auto simp: Let_def)
  qed
  then show ?thesis using False by simp
qed (use imalloc_size_ok[OF assms(1)] in simp)

theorem imalloc_size_bounds_witness:
  "knl_searchFreeArea ex_heap 0x1000 (imalloc_size 0x7FFFFFFC) = Some 0x2000 \<and> imalloc_size 20 = 24"
  using imalloc_size_bounds[of "0x7FFFFFFC"] imalloc_size_bounds[of 20] ex_heap_ring(1,3) ring_first[OF ex_heap_ring(1)]
  by (auto simp: imalloc_size_def ROUND8_def)

end
