(* ===== verification/Msgbuf.thy ===== *)
theory Msgbuf
  imports Wait_Object Example_State Imalloc
begin

text \<open>
  \<^verbatim>\<open>kernel/tkernel/messagebuf.c\<close>, \<^verbatim>\<open>messagebuf.h\<close>. A message buffer is a ring of \<open>bufsz\<close> bytes in memory; a
  message is a header word with its length and the data, which may wrap around the end, rounded up to
  words. \<open>SmbfQ i\<close> is the send queue of control block \<open>i\<close>, \<open>RmbfQ i\<close> its receive queue.
\<close>

subsection \<open>The ring buffer\<close>

abbreviation (input) TA_USERBUF :: UW where "TA_USERBUF \<equiv> 0x20"
abbreviation (input) HEADERSZ :: int where "HEADERSZ \<equiv> 4"

definition ROUNDSZ :: "int \<Rightarrow> UW" where
  "ROUNDSZ sz = (word_of_int sz + 3) AND NOT 3"

definition CHK_MBFID :: "int \<Rightarrow> bool" where
  "CHK_MBFID x \<longleftrightarrow> 1 \<le> x \<and> x \<le> int NUM_MBFID"

definition get_mbfcb :: "int \<Rightarrow> nat" where "get_mbfcb x = nat (x - 1)"

definition upd_mbf :: "nat \<Rightarrow> (mbfcb \<Rightarrow> mbfcb) \<Rightarrow> kstate \<Rightarrow> kstate" where
  "upd_mbf i f s = s\<lparr>mbf := (mbf s)(i := f (mbf s i))\<rparr>"

definition knl_mbf_free :: "mbfcb \<Rightarrow> int \<Rightarrow> bool" where
  "knl_mbf_free B msgsz \<longleftrightarrow> 4 + word_of_int msgsz \<le> (word_of_int (frbufsz B) :: UW)"

definition knl_mbf_empty :: "mbfcb \<Rightarrow> bool" where
  "knl_mbf_empty B \<longleftrightarrow> frbufsz B = bufsz B"

definition knl_messagebuffer_initialize :: "kstate \<Rightarrow> kstate" where
  "knl_messagebuffer_initialize s =
     fold (\<lambda>i s. let s = upd_mbf i (mbfid_update (\<lambda>_. 0)) s in s\<lparr>free_mbf := free_mbf s @ [i]\<rparr>)
       [0..<NUM_MBFID] (s\<lparr>free_mbf := []\<rparr>)"

definition knl_msg_to_mbf :: "nat \<Rightarrow> UW \<Rightarrow> int \<Rightarrow> kstate \<Rightarrow> kstate" where
  "knl_msg_to_mbf i msg msgsz s =
     (let tail = mbf_tail (mbf s i); buf = buffer (mbf s i); bsz = bufsz (mbf s i);
          s = upd_mbf i (\<lambda>B. B\<lparr>frbufsz := frbufsz B - sint (4 + ROUNDSZ msgsz)\<rparr>) s;
          m = st32 (buf + word_of_int tail) (word_of_int msgsz) (mem s);
          tail = tail + HEADERSZ;
          tail = (if tail \<ge> bsz then 0 else tail);
          remsz = bsz - tail;
          (m, msg, msgsz, tail) =
            (if remsz < msgsz
             then (knl_memcpy (buf + word_of_int tail) msg remsz m, msg + word_of_int remsz, msgsz - remsz, 0)
             else (m, msg, msgsz, tail));
          m = knl_memcpy (buf + word_of_int tail) msg msgsz m;
          tail = tail + sint (ROUNDSZ msgsz);
          tail = (if tail \<ge> bsz then 0 else tail)
      in upd_mbf i (mbf_tail_update (\<lambda>_. tail)) (s\<lparr>mem := m\<rparr>))"

definition knl_mbf_to_msg :: "nat \<Rightarrow> UW \<Rightarrow> kstate \<Rightarrow> kstate \<times> int" where
  "knl_mbf_to_msg i msg s =
     (let head = mbf_head (mbf s i); buf = buffer (mbf s i); bsz = bufsz (mbf s i);
          actsz = sint (ld32 (buf + word_of_int head) (mem s)); msgsz = actsz;
          s = upd_mbf i (\<lambda>B. B\<lparr>frbufsz := frbufsz B + sint (4 + ROUNDSZ msgsz)\<rparr>) s;
          head = head + HEADERSZ;
          head = (if head \<ge> bsz then 0 else head);
          remsz = bsz - head;
          (m, msg, msgsz, head) =
            (if remsz < msgsz
             then (knl_memcpy msg (buf + word_of_int head) remsz (mem s), msg + word_of_int remsz, msgsz - remsz, 0)
             else (mem s, msg, msgsz, head));
          m = knl_memcpy msg (buf + word_of_int head) msgsz m;
          head = head + sint (ROUNDSZ msgsz);
          head = (if head \<ge> bsz then 0 else head)
      in (upd_mbf i (mbf_head_update (\<lambda>_. head)) (s\<lparr>mem := m\<rparr>), actsz))"

subsection \<open>Operations\<close>

text \<open>
  \<open>knl_mbf_wakeup\<close>: every pass takes the head out of the send queue, so its initial length bounds the
  passes.
\<close>

primrec mbf_wakeup_loop :: "nat \<Rightarrow> nat \<Rightarrow> nat \<Rightarrow> kstate \<Rightarrow> kstate" where
  "mbf_wakeup_loop 0 c i s = s"
| "mbf_wakeup_loop (Suc n) c i s =
     (case que s (SmbfQ i) of
        [] \<Rightarrow> s
      | u # _ \<Rightarrow>
          let msgsz = smbf_msgsz (winfo (tcb s u))
          in if \<not> knl_mbf_free (mbf s i) msgsz then s
             else mbf_wakeup_loop n c i
                    (knl_wait_release_ok c u (knl_msg_to_mbf i (smbf_msg (winfo (tcb s u))) msgsz s)))"

definition knl_mbf_wakeup :: "nat \<Rightarrow> nat \<Rightarrow> kstate \<Rightarrow> kstate" where
  "knl_mbf_wakeup c i s = mbf_wakeup_loop (length (que s (SmbfQ i))) c i s"

record t_cmbf =
  cb_exinf :: UW
  cb_mbfatr :: UW
  cb_bufsz :: int
  cb_maxmsz :: int
  cb_bufptr :: UW

definition cre_mbf_cs :: "nat \<Rightarrow> t_cmbf \<Rightarrow> int \<Rightarrow> UW \<Rightarrow> kstate \<Rightarrow> kstate \<times> int" where
  "cre_mbf_cs c pk bsz msgbuf s =
     (let (s, ercd) =
        (case free_mbf s of
           [] \<Rightarrow> (s, E_LIMIT)
         | i # rest \<Rightarrow>
             (upd_mbf i (\<lambda>B. B\<lparr>mbfid := int i + 1, mbf_exinf := cb_exinf pk, mbfatr := cb_mbfatr pk,
                               buffer := msgbuf, bufsz := bsz, frbufsz := bsz, maxmsz := cb_maxmsz pk,
                               mbf_head := 0, mbf_tail := 0\<rparr>)
                (upd_que (\<lambda>Q. Q(SmbfQ i := [], RmbfQ i := [])) (s\<lparr>free_mbf := rest\<rparr>)), int i + 1))
      in (END_CRITICAL_SECTION c s, ercd))"

definition tk_cre_mbf :: "nat \<Rightarrow> t_cmbf \<Rightarrow> kstate \<Rightarrow> (kstate \<times> int) option" where
  "tk_cre_mbf c pk s =
     (if cb_mbfatr pk AND NOT (TA_TPRI OR TA_USERBUF) \<noteq> 0 then Some (s, E_RSATR)
      else if \<not> cb_bufsz pk \<ge> 0 then Some (s, E_PAR)
      else if \<not> cb_maxmsz pk > 0 then Some (s, E_PAR)
      else
        let bsz = sint (ROUNDSZ (cb_bufsz pk))
        in if bsz > 0 \<and> cb_mbfatr pk AND TA_USERBUF \<noteq> 0 \<and> bsz \<noteq> cb_bufsz pk then Some (s, E_PAR)
           else do {
             (s, msgbuf) \<leftarrow> (if bsz > 0
                             then if cb_mbfatr pk AND TA_USERBUF \<noteq> 0 then Some (s, cb_bufptr pk)
                                  else knl_Imalloc c bsz s
                             else Some (s, 0));
             if bsz > 0 \<and> cb_mbfatr pk AND TA_USERBUF = 0 \<and> msgbuf = 0 then Some (s, E_NOMEM)
             else let (s, ercd) = cre_mbf_cs c pk bsz msgbuf s
                  in if ercd < E_OK \<and> msgbuf \<noteq> 0 \<and> cb_mbfatr pk AND TA_USERBUF = 0
                     then do { s \<leftarrow> knl_Ifree c msgbuf s; Some (s, ercd) }
                     else Some (s, ercd)
           })"

definition del_mbf_cs :: "nat \<Rightarrow> nat \<Rightarrow> kstate \<Rightarrow> kstate \<times> UW \<times> int" where
  "del_mbf_cs c i s =
     (if mbfid (mbf s i) = 0 then (END_CRITICAL_SECTION c s, 0, E_NOEXS)
      else let msgbuf = buffer (mbf s i);
               s = knl_wait_delete c (RmbfQ i) s;
               s = knl_wait_delete c (SmbfQ i) s;
               s = s\<lparr>free_mbf := free_mbf s @ [i]\<rparr>;
               s = upd_mbf i (mbfid_update (\<lambda>_. 0)) s
           in (END_CRITICAL_SECTION c s, msgbuf, E_OK))"

definition tk_del_mbf :: "nat \<Rightarrow> int \<Rightarrow> kstate \<Rightarrow> (kstate \<times> int) option" where
  "tk_del_mbf c xid s =
     (if \<not> CHK_MBFID xid then Some (s, E_ID)
      else
        let i = get_mbfcb xid; (s, msgbuf, ercd) = del_mbf_cs c i s
        in if msgbuf \<noteq> 0 \<and> mbfatr (mbf s i) AND TA_USERBUF = 0
           then do { s \<leftarrow> knl_Ifree c msgbuf s; Some (s, ercd) }
           else Some (s, ercd))"

definition knl_mbf_chg_pri :: "nat \<Rightarrow> nat \<Rightarrow> int \<Rightarrow> kstate \<Rightarrow> kstate" where
  "knl_mbf_chg_pri c t oldpri s =
     (let i = get_mbfcb (wid (tcb s t));
          s = (if oldpri \<ge> 0 then knl_gcb_change_priority (SmbfQ i) t s else s)
      in knl_mbf_wakeup c i s)"

definition knl_mbf_rel_wai :: "nat \<Rightarrow> nat \<Rightarrow> kstate \<Rightarrow> kstate" where
  "knl_mbf_rel_wai c t s = knl_mbf_chg_pri c t (- 1) s"

definition snd_mbf_cs :: "nat \<Rightarrow> nat \<Rightarrow> UW \<Rightarrow> int \<Rightarrow> int \<Rightarrow> kstate \<Rightarrow> kstate \<times> sysret" where
  "snd_mbf_cs c i msg msgsz tmout s =
     (let t = cur c s; B = mbf s i
      in if mbfid B = 0 then (s, Ret E_NOEXS)
         else if msgsz > maxmsz B then (s, Ret E_PAR)
         else case que s (RmbfQ i) of
                r # _ \<Rightarrow>
                  let s = s\<lparr>mem := knl_memcpy (rmbf_msg (winfo (tcb s r))) msg msgsz (mem s)\<rparr>;
                      s = (case rmbf_p_msgsz (winfo (tcb s r)) of
                             Some u \<Rightarrow> s\<lparr>rcvsz := (rcvsz s)(u := msgsz)\<rparr> | None \<Rightarrow> s\<lparr>fault := True\<rparr>)
                  in (knl_wait_release_ok c r s, Ret E_OK)
              | [] \<Rightarrow>
                  if (in_indp c s \<or> knl_gcb_top_of_wait_queue (SmbfQ i) (mbfatr B) t s = t) \<and> knl_mbf_free B msgsz
                  then (knl_msg_to_mbf i msg msgsz s, Ret E_OK)
                  else if tmout \<noteq> TMO_POL
                  then let s = upd_tcb t (\<lambda>T. T\<lparr>
                             wspec := (if mbfatr B AND TA_TPRI \<noteq> 0 then Wspec_smbf_tpri else Wspec_smbf_tfifo),
                             wercd := Some t, winfo := (winfo T)\<lparr>smbf_msg := msg, smbf_msgsz := msgsz\<rparr>\<rparr>) s
                       in (knl_gcb_make_wait c (SmbfQ i) (mbfid B) (mbfatr B) tmout s, Blocked)
                  else (s, Ret E_TMOUT))"

definition tk_snd_mbf :: "nat \<Rightarrow> int \<Rightarrow> UW \<Rightarrow> int \<Rightarrow> int \<Rightarrow> kstate \<Rightarrow> kstate \<times> sysret" where
  "tk_snd_mbf c xid msg msgsz tmout s =
     (if \<not> CHK_MBFID xid then (s, Ret E_ID)
      else if \<not> msgsz > 0 then (s, Ret E_PAR)
      else if \<not> tmout \<ge> TMO_FEVR then (s, Ret E_PAR)
      else if tmout \<noteq> TMO_POL \<and> in_ddsp c s then (s, Ret E_CTX)
      else let (s, r) = snd_mbf_cs c (get_mbfcb xid) msg msgsz tmout s
           in (END_CRITICAL_SECTION c s, r))"

text \<open>
  A task that waits to receive finds the size in its local \<open>rcvsz\<close>; its call returns \<open>rcv_mbf_value\<close> when
  it has been released. The local \<open>ercd\<close> is \<open>E_TMOUT\<close> from the start of the wait.
\<close>

definition rcv_mbf_value :: "kstate \<Rightarrow> nat \<Rightarrow> int" where
  "rcv_mbf_value s t = (if ercd s t < E_OK then ercd s t else rcvsz s t)"

definition rcv_mbf_cs :: "nat \<Rightarrow> nat \<Rightarrow> UW \<Rightarrow> int \<Rightarrow> kstate \<Rightarrow> kstate \<times> sysret" where
  "rcv_mbf_cs c i msg tmout s =
     (let t = cur c s; B = mbf s i
      in if mbfid B = 0 then (s, Ret E_NOEXS)
         else if \<not> knl_mbf_empty B
         then let (s, n) = knl_mbf_to_msg i msg s in (knl_mbf_wakeup c i s, Ret n)
         else case que s (SmbfQ i) of
                r # _ \<Rightarrow>
                  let n = smbf_msgsz (winfo (tcb s r));
                      s = s\<lparr>mem := knl_memcpy msg (smbf_msg (winfo (tcb s r))) n (mem s)\<rparr>;
                      s = knl_wait_release_ok c r s
                  in (knl_mbf_wakeup c i s, Ret n)
              | [] \<Rightarrow>
                  if tmout \<noteq> TMO_POL
                  then let s = s\<lparr>ercd := (ercd s)(t := E_TMOUT)\<rparr>;
                           s = upd_tcb t (\<lambda>T. T\<lparr>wspec := Wspec_rmbf, wid := int i + 1, wercd := Some t,
                                 winfo := (winfo T)\<lparr>rmbf_msg := msg, rmbf_p_msgsz := Some t\<rparr>\<rparr>) s;
                           s = knl_make_wait c tmout s
                       in (upd_que (q_insert t (RmbfQ i)) s, Blocked)
                  else (s, Ret E_TMOUT))"

definition tk_rcv_mbf :: "nat \<Rightarrow> int \<Rightarrow> UW \<Rightarrow> int \<Rightarrow> kstate \<Rightarrow> kstate \<times> sysret" where
  "tk_rcv_mbf c xid msg tmout s =
     (if \<not> CHK_MBFID xid then (s, Ret E_ID)
      else if \<not> tmout \<ge> TMO_FEVR then (s, Ret E_PAR)
      else if in_ddsp c s then (s, Ret E_CTX)
      else let (s, r) = rcv_mbf_cs c (get_mbfcb xid) msg tmout s
           in (END_CRITICAL_SECTION c s, r))"

record t_rmbf =
  rb_exinf :: UW
  rb_wtsk :: int
  rb_stsk :: int
  rb_msgsz :: int
  rb_frbufsz :: int
  rb_maxmsz :: int

definition tk_ref_mbf :: "nat \<Rightarrow> int \<Rightarrow> kstate \<Rightarrow> kstate \<times> int \<times> t_rmbf option" where
  "tk_ref_mbf c xid s =
     (if \<not> CHK_MBFID xid then (s, E_ID, None)
      else
        let i = get_mbfcb xid; B = mbf s i
        in if mbfid B = 0 then (END_CRITICAL_SECTION c s, E_NOEXS, None)
           else (END_CRITICAL_SECTION c s, E_OK,
                 Some \<lparr>rb_exinf = mbf_exinf B, rb_wtsk = knl_wait_tskid (RmbfQ i) s,
                       rb_stsk = knl_wait_tskid (SmbfQ i) s,
                       rb_msgsz = (if \<not> knl_mbf_empty B then sint (ld32 (buffer B + word_of_int (mbf_head B)) (mem s))
                                   else case que s (SmbfQ i) of r # _ \<Rightarrow> smbf_msgsz (winfo (tcb s r)) | [] \<Rightarrow> 0),
                       rb_frbufsz = frbufsz B, rb_maxmsz = maxmsz B\<rparr>))"

subsection \<open>Copies into and out of a ring of bytes\<close>

lemma in_range_idx:
  assumes "k < n" "off + l \<le> n" "n < 2 ^ 31"
  shows "in_range (B + of_nat off) l (B + of_nat k) \<longleftrightarrow> off \<le> k \<and> k < off + l"
proof
  assume r: "in_range (B + of_nat off) l (B + of_nat k)"
  define d where "d = unat (of_nat k - of_nat off :: UW)"
  have d: "d < l" using r by (simp add: in_range_def d_def)
  have "(of_nat k :: UW) = of_nat (off + d)" by (simp add: d_def)
  then have "unat (of_nat k :: UW) = unat (of_nat (off + d) :: UW)" by (rule arg_cong)
  then have "k = off + d" using assms d by (simp only: unat_of_nat take_bit_nat_eq_self_iff) (simp add: take_bit_nat_eq_self)
  then show "off \<le> k \<and> k < off + l" using d by simp
next
  assume k: "off \<le> k \<and> k < off + l"
  have e: "(B + of_nat k) - (B + of_nat off) = (of_nat (k - off) :: UW)" using k by (simp add: of_nat_diff)
  have "unat (of_nat (k - off) :: UW) = k - off" using assms by (simp only: unat_of_nat take_bit_nat_eq_self_iff) simp
  then show "in_range (B + of_nat off) l (B + of_nat k)"
    unfolding in_range_def e using k by linarith
qed

lemma in_range_sub: "in_range (B + of_nat off) l q \<Longrightarrow> off + l \<le> n \<Longrightarrow> n < 2 ^ 31 \<Longrightarrow> in_range B n q"
proof -
  assume a: "in_range (B + of_nat off) l q" "off + l \<le> n" "n < 2 ^ 31"
  define d where "d = unat (q - (B + of_nat off))"
  have d: "d < l" using a(1) by (simp add: in_range_def d_def)
  have "q = B + of_nat (off + d)" by (simp add: d_def)
  moreover have "off + d < n" using d a(2) by simp
  ultimately show ?thesis using in_range_idx[of "off + d" n 0 n B] a(3) by simp
qed

text \<open>A copy into the buffer \<open>[B, B + n)\<close> from outside of it, and a copy out of it.\<close>

lemma copy_in:
  assumes "off + l \<le> n" "n < 2 ^ 31" "\<And>i. i < l \<Longrightarrow> \<not> in_range B n (src + of_nat i)"
  shows "k < n \<Longrightarrow> copy_bytes l (B + of_nat off) src m (B + of_nat k) =
      (if off \<le> k \<and> k < off + l then m (src + of_nat (k - off)) else m (B + of_nat k))"
    and "\<not> in_range B n q \<Longrightarrow> copy_bytes l (B + of_nat off) src m q = m q"
proof -
  have c: "copy_bytes l (B + of_nat off) src m = (\<lambda>q. if in_range (B + of_nat off) l q
      then m (src + (q - (B + of_nat off))) else m q)"
  proof (rule copy_bytes_eq)
    show "\<not> in_range (B + of_nat off) i (src + of_nat i)" if "i < l" for i
      using in_range_sub[of B off i "src + of_nat i" n] assms that by fastforce
  qed (use assms in simp)
  show "copy_bytes l (B + of_nat off) src m (B + of_nat k) =
      (if off \<le> k \<and> k < off + l then m (src + of_nat (k - off)) else m (B + of_nat k))" if "k < n"
    unfolding c using in_range_idx[OF that assms(1,2), of B] by (auto simp: of_nat_diff)
  show "copy_bytes l (B + of_nat off) src m q = m q" if "\<not> in_range B n q"
    unfolding c using in_range_sub[of B off l q n] that assms by auto
qed

definition ring_write :: "UW \<Rightarrow> nat \<Rightarrow> nat \<Rightarrow> nat \<Rightarrow> UW \<Rightarrow> memory \<Rightarrow> memory" where
  "ring_write B n p l src m =
     (if n - p < l then copy_bytes (l - (n - p)) B (src + of_nat (n - p)) (copy_bytes (n - p) (B + of_nat p) src m)
      else copy_bytes l (B + of_nat p) src m)"

definition ring_read :: "UW \<Rightarrow> nat \<Rightarrow> nat \<Rightarrow> nat \<Rightarrow> UW \<Rightarrow> memory \<Rightarrow> memory" where
  "ring_read B n p l dst m =
     (if n - p < l then copy_bytes (l - (n - p)) (dst + of_nat (n - p)) B (copy_bytes (n - p) dst (B + of_nat p) m)
      else copy_bytes l dst (B + of_nat p) m)"

lemma ring_dist: "(k::nat) < n \<Longrightarrow> p < n \<Longrightarrow> (k + n - p) mod n = (if p \<le> k then k - p else k + n - p)"
proof (cases "p \<le> k")
  case True
  assume "k < n"
  moreover have "k + n - p = (k - p) + n" using True by simp
  ultimately show ?thesis using True by (simp only: mod_add_self2) simp
qed simp

lemma ring_write_at:
  assumes "p < n" "l \<le> n" "n < 2 ^ 31" "\<And>i. i < l \<Longrightarrow> \<not> in_range B n (src + of_nat i)"
  shows "k < n \<Longrightarrow> ring_write B n p l src m (B + of_nat k) =
      (if (k + n - p) mod n < l then m (src + of_nat ((k + n - p) mod n)) else m (B + of_nat k))"
    and "\<not> in_range B n q \<Longrightarrow> ring_write B n p l src m q = m q"
proof -
  have f: "k < n \<Longrightarrow> copy_bytes l' (B + of_nat p) src m (B + of_nat k) =
      (if p \<le> k \<and> k < p + l' then m (src + of_nat (k - p)) else m (B + of_nat k))"
    "\<not> in_range B n q \<Longrightarrow> copy_bytes l' (B + of_nat p) src m q = m q"
    if "l' \<le> l" "p + l' \<le> n" for k q l'
    using copy_in(1)[where off = p and l = l' and n = n and B = B and src = src and k = k and m = m]
      copy_in(2)[where off = p and l = l' and n = n and B = B and src = src and q = q and m = m] that assms by auto
  let ?r = "n - p"
  let ?m = "copy_bytes ?r (B + of_nat p) src m"
  have g: "k < n \<Longrightarrow> copy_bytes (l - ?r) B (src + of_nat ?r) ?m (B + of_nat k) =
      (if k < l - ?r then ?m (src + of_nat (?r + k)) else ?m (B + of_nat k))"
    "\<not> in_range B n q \<Longrightarrow> copy_bytes (l - ?r) B (src + of_nat ?r) ?m q = ?m q" if "?r < l" for k q
  proof -
    have s: "\<not> in_range B n (src + of_nat ?r + of_nat i)" if "i < l - ?r" for i
      using assms(4)[of "?r + i"] that by (simp add: add.assoc)
    show "k < n \<Longrightarrow> copy_bytes (l - ?r) B (src + of_nat ?r) ?m (B + of_nat k) =
      (if k < l - ?r then ?m (src + of_nat (?r + k)) else ?m (B + of_nat k))"
      "\<not> in_range B n q \<Longrightarrow> copy_bytes (l - ?r) B (src + of_nat ?r) ?m q = ?m q"
      using copy_in(1)[where off = 0 and l = "l - ?r" and n = n and B = B and src = "src + of_nat ?r" and k = k and m = ?m]
        copy_in(2)[where off = 0 and l = "l - ?r" and n = n and B = B and src = "src + of_nat ?r" and q = q and m = ?m]
        assms(2,3) s by (auto simp: add.assoc)
  qed
  show "ring_write B n p l src m (B + of_nat k) =
      (if (k + n - p) mod n < l then m (src + of_nat ((k + n - p) mod n)) else m (B + of_nat k))" if "k < n"
  proof (cases "?r < l")
    case True
    have sm: "?m (src + of_nat (?r + k)) = m (src + of_nat (?r + k))" if "k < l - ?r"
      using f(2)[of ?r "src + of_nat (?r + k)"] True assms(1) assms(4)[of "?r + k"] that by simp
    show ?thesis
      using True g(1)[OF True that] f(1)[of ?r k] sm that assms(1,2)
      by (auto simp: ring_write_def ring_dist[OF that assms(1)] add.commute)
  next
    case False
    then show ?thesis
      using f(1)[of l k] that assms(1,2) by (auto simp: ring_write_def ring_dist[OF that assms(1)])
  qed
  show "ring_write B n p l src m q = m q" if "\<not> in_range B n q"
    using f(2)[of l q] f(2)[of ?r q] g(2)[of q] that assms(1) by (auto simp: ring_write_def)
qed

subsection \<open>The messages in the ring\<close>

text \<open>
  \<open>mbf_msgs f d xs\<close>: from distance \<open>d\<close> on, the bytes \<open>f\<close> hold the messages \<open>xs\<close>, each one a header
  word with its length, the data, and padding up to a word. \<open>mbf_rep\<close> places this sequence in the ring
  of a message buffer, from the head on.
\<close>

definition hdr :: "(nat \<Rightarrow> UB) \<Rightarrow> nat \<Rightarrow> UW" where
  "hdr f d = ld32 0 (\<lambda>q. f (d + unat q))"

definition r4 :: "nat \<Rightarrow> nat" where "r4 l = (l + 3) div 4 * 4"

abbreviation msz :: "UB list \<Rightarrow> nat" where "msz x \<equiv> 4 + r4 (length x)"

abbreviation total :: "UB list list \<Rightarrow> nat" where "total xs \<equiv> sum_list (map msz xs)"

fun mbf_msgs :: "(nat \<Rightarrow> UB) \<Rightarrow> nat \<Rightarrow> UB list list \<Rightarrow> bool" where
  "mbf_msgs f d [] \<longleftrightarrow> True"
| "mbf_msgs f d (x # xs) \<longleftrightarrow>
     hdr f d = of_nat (length x) \<and> (\<forall>j < length x. f (d + 4 + j) = x ! j) \<and> mbf_msgs f (d + msz x) xs"

definition ringb :: "memory \<Rightarrow> UW \<Rightarrow> nat \<Rightarrow> nat \<Rightarrow> nat \<Rightarrow> UB" where
  "ringb m B n h d = m (B + of_nat ((h + d) mod n))"

definition mbf_rep :: "memory \<Rightarrow> mbfcb \<Rightarrow> UB list list \<Rightarrow> bool" where
  "mbf_rep m B xs \<longleftrightarrow>
     (let n = nat (bufsz B); h = nat (mbf_head B)
      in 0 < bufsz B \<and> bufsz B < 2 ^ 31 \<and> 4 dvd n \<and> 0 \<le> mbf_head B \<and> mbf_head B < bufsz B \<and> 4 dvd h \<and>
         total xs \<le> n \<and> frbufsz B = bufsz B - int (total xs) \<and> mbf_tail B = int ((h + total xs) mod n) \<and>
         mbf_msgs (ringb m (buffer B) n h) 0 xs)"

lemma r4_props [simp]: "4 dvd r4 l" "l \<le> r4 l" "r4 l < l + 4"
  unfolding r4_def by simp linarith+

lemma total_dvd [simp]: "4 dvd total xs"
  by (induction xs) (auto intro: dvd_add)

lemma hdr_cong: "(\<And>j. j < 4 \<Longrightarrow> f (d + j) = g (e + j)) \<Longrightarrow> hdr f d = hdr g e"
proof -
  assume a: "\<And>j. j < 4 \<Longrightarrow> f (d + j) = g (e + j)"
  show ?thesis using a[of 0] a[of 1] a[of 2] a[of 3] by (simp add: hdr_def ld32_def)
qed

lemma mbf_msgs_cong:
  "mbf_msgs f d xs \<Longrightarrow> (\<And>e. d \<le> e \<Longrightarrow> e < d + total xs \<Longrightarrow> f e = g (k + e)) \<Longrightarrow> mbf_msgs g (k + d) xs"
proof (induction xs arbitrary: d)
  case (Cons x xs)
  have "hdr g (k + d) = hdr f d" by (rule hdr_cong) (use Cons.prems(2)[of "d + _"] in \<open>simp add: add.assoc\<close>)
  moreover have "g (k + d + 4 + j) = x ! j" if "j < length x" for j
    using Cons.prems(1) Cons.prems(2)[of "d + 4 + j"] that r4_props(2)[of "length x"] by (simp add: add.assoc)
  moreover have "mbf_msgs g (k + (d + msz x)) xs"
    using Cons.prems by (intro Cons.IH) (auto simp: add.assoc)
  ultimately show ?case using Cons.prems(1) by (simp add: add.assoc)
qed simp

lemma mbf_msgs_shift: "mbf_msgs f (k + d) xs \<Longrightarrow> mbf_msgs (\<lambda>e. f (k + e)) d xs"
proof (induction xs arbitrary: d)
  case (Cons x xs)
  have "hdr (\<lambda>e. f (k + e)) d = hdr f (k + d)" by (simp add: hdr_def add.assoc)
  then show ?case using Cons by (simp add: add.assoc)
qed simp

lemma mbf_msgs_append: "mbf_msgs f d (xs @ ys) \<longleftrightarrow> mbf_msgs f d xs \<and> mbf_msgs f (d + total xs) ys"
  by (induction xs arbitrary: d) (simp_all add: add.assoc)

lemma sint_small: "0 \<le> k \<Longrightarrow> k < 2 ^ 31 \<Longrightarrow> sint (word_of_int k :: UW) = k"
  using sint_sbintrunc'[of k, where 'a = 32] by (simp add: signed_take_bit_int_eq_self)

lemma ROUNDSZ_nat:
  assumes "4 + r4 l < 2 ^ 31"
  shows "sint (ROUNDSZ (int l)) = int (r4 l)" "sint (4 + ROUNDSZ (int l)) = 4 + int (r4 l)"
proof -
  have "ROUNDSZ (int l) = word_of_int ((int l + 3) AND NOT 3)"
    by (simp add: ROUNDSZ_def of_int_and_eq of_int_not_eq)
  moreover have "(int l + 3) AND NOT 3 = int (r4 l)"
  proof -
    have m: "(3 :: int) = mask 2" by (simp add: mask_eq_exp_minus_1)
    have "(int l + 3) AND NOT (mask 2) = push_bit 2 (drop_bit 2 (int l + 3))"
      by (rule bit_eqI) (auto simp: bit_simps le_Suc_ex not_less simp flip: add_2_eq_Suc)
    then show ?thesis by (simp add: m[symmetric] push_bit_eq_mult drop_bit_eq_div r4_def)
  qed
  ultimately have r: "ROUNDSZ (int l) = word_of_int (int (r4 l))" by metis
  show "sint (ROUNDSZ (int l)) = int (r4 l)" "sint (4 + ROUNDSZ (int l)) = 4 + int (r4 l)"
    using sint_small[of "int (r4 l)"] sint_small[of "4 + int (r4 l)"] assms by (simp_all add: r)
qed

text \<open>Distances in the ring.\<close>

lemma mod_less_twice: "k < 2 * n \<Longrightarrow> k mod n = (if k < n then k else k - (n::nat))"
  by (simp add: le_mod_geq)

lemma dist_cases:
  assumes "a < (n::nat)" "d < n" "e \<le> n" "x = (if a + d < n then a + d else a + d - n)"
    and "y = (if a + e < n then a + e else a + e - n)"
  shows "(if y \<le> x then x - y else x + n - y) = (if e \<le> d then d - e else d + n - e)"
proof (cases "a + d < n")
  case True
  then have x: "x = a + d" using assms(4) by simp
  show ?thesis
  proof (cases "a + e < n")
    case True
    then show ?thesis unfolding x using assms(5) by simp
  next
    case False
    then have y: "y = a + e - n" using assms(5) by simp
    then have "y \<le> x" "\<not> e \<le> d" using False \<open>a + d < n\<close> assms(1-3) x by linarith+
    then show ?thesis unfolding x y using False by simp
  qed
next
  case f: False
  then have x: "x = a + d - n" using assms(4) by simp
  show ?thesis
  proof (cases "a + e < n")
    case True
    then have y: "y = a + e" using assms(5) by simp
    then have "\<not> y \<le> x" "e \<le> d" using f True assms(1-3) x by linarith+
    then show ?thesis unfolding x y using f by simp
  next
    case False
    then have y: "y = a + e - n" using assms(5) by simp
    then have "y \<le> x \<longleftrightarrow> e \<le> d" using f False x by linarith
    then show ?thesis unfolding x y using f False by simp
  qed
qed

lemma mod_dist:
  assumes "e \<le> n" "d < (n::nat)"
  shows "((h + d) mod n + n - (h + e) mod n) mod n = (if e \<le> d then d - e else d + n - e)"
proof -
  define a where "a = h mod n"
  have a: "a < n" using assms by (simp add: a_def)
  have m: "(h + k) mod n = (if a + k < n then a + k else a + k - n)" if "k \<le> n" for k
    using mod_less_twice[of "a + k" n] that a by (simp add: a_def mod_add_left_eq)
  have l: "(h + e) mod n < n" using assms by simp
  have "((h + d) mod n + n - (h + e) mod n) mod n =
      (if (h + e) mod n \<le> (h + d) mod n then (h + d) mod n - (h + e) mod n else (h + d) mod n + n - (h + e) mod n)"
    by (rule ring_dist) (use assms l in auto)
  also have "\<dots> = (if e \<le> d then d - e else d + n - e)"
    by (rule dist_cases[OF a assms(2,1) m m]) (use assms in simp_all)
  finally show ?thesis .
qed

lemma mod_step: "(4::nat) dvd n \<Longrightarrow> 4 dvd k \<Longrightarrow> 0 < n \<Longrightarrow> j < 4 \<Longrightarrow> (k + j) mod n = k mod n + j"
proof -
  assume a: "4 dvd n" "4 dvd k" "0 < n" "j < (4::nat)"
  have "4 dvd k mod n" using a by (simp add: dvd_mod)
  then have "k mod n + 4 \<le> n" using mod_less_divisor[OF a(3), of k] a(1) by (elim dvdE) auto
  then have "(k mod n + j) mod n = k mod n + j" using a(4) by simp
  then show ?thesis by (simp add: mod_add_left_eq)
qed

lemma hdr_ringb:
  assumes "4 dvd n" "4 dvd h + d" "0 < n"
  shows "hdr (ringb m B n h) d = ld32 (B + of_nat ((h + d) mod n)) m"
proof -
  have e: "(h + (d + j)) mod n = (h + d) mod n + j" if "j < 4" for j
    using mod_step[OF assms that] by (simp add: add.assoc)
  have f: "m (B + of_nat ((h + (d + j)) mod n)) = m (B + of_nat ((h + d) mod n) + of_nat j)" if "j < 4" for j
    by (simp add: e[OF that] add.assoc)
  show ?thesis
    using f[of 1] f[of 2] f[of 3] by (simp add: hdr_def ringb_def ld32_def)
qed

lemma wrap_add:
  assumes "t < n" "4 dvd n" "4 dvd t"
  shows "(if int t + 4 \<ge> int n then 0 else int t + 4) = int ((t + 4) mod n)"
proof -
  have "t + 4 \<le> n" using assms by (elim dvdE) auto
  then show ?thesis by (cases "t + 4 = n") auto
qed

lemma wrap_tail:
  assumes "p < n" "l \<le> n" "4 dvd n" "4 dvd p" "r4 l \<le> n"
  shows "n - p < l \<Longrightarrow> (if int (r4 (l - (n - p))) \<ge> int n then 0 else int (r4 (l - (n - p)))) = int ((p + r4 l) mod n)"
    and "\<not> n - p < l \<Longrightarrow> (if int p + int (r4 l) \<ge> int n then 0 else int p + int (r4 l)) = int ((p + r4 l) mod n)"
proof -
  assume w: "n - p < l"
  have d: "4 dvd n - p" using assms by simp
  then obtain q where q: "n - p = 4 * q" by (elim dvdE)
  obtain l' where l': "l = 4 * q + l'" using w q by (metis le_Suc_ex less_imp_le)
  have "r4 l = r4 (l - (n - p)) + (n - p)" unfolding q l' r4_def by (simp add: add.assoc)
  then have r: "p + r4 l = r4 (l - (n - p)) + n" using assms(1) by simp
  then have "r4 (l - (n - p)) < n" using assms(1,5) by simp
  then show "(if int (r4 (l - (n - p))) \<ge> int n then 0 else int (r4 (l - (n - p)))) = int ((p + r4 l) mod n)"
    unfolding r by simp
next
  assume w: "\<not> n - p < l"
  have "r4 l \<le> n - p"
  proof -
    have "4 dvd n - p" using assms by simp
    then show ?thesis using w unfolding r4_def by (elim dvdE) auto
  qed
  then show "(if int p + int (r4 l) \<ge> int n then 0 else int p + int (r4 l)) = int ((p + r4 l) mod n)"
    using assms(1) by (cases "p + r4 l = n") auto
qed

subsection \<open>Storing and taking a message\<close>

lemma memcpy_nat: "knl_memcpy dst src (int n) m = copy_bytes n dst src m"
  by (simp add: knl_memcpy_def)

lemma msg_to_mbf_eq:
  assumes "mbf s i = B" "bufsz B = int n" "mbf_tail B = int t" "t < n" "4 dvd n" "4 dvd t" "4 + r4 l \<le> n" "n < 2 ^ 31"
  shows "knl_msg_to_mbf i msg (int l) s =
    upd_mbf i (\<lambda>B. B\<lparr>frbufsz := frbufsz B - int (4 + r4 l), mbf_tail := int ((t + 4 + r4 l) mod n)\<rparr>)
      (s\<lparr>mem := ring_write (buffer B) n ((t + 4) mod n) l msg (st32 (buffer B + of_nat t) (of_nat l) (mem s))\<rparr>)"
proof -
  define p where "p = (t + 4) mod n"
  have p: "p < n" "4 dvd p" using assms by (auto simp: p_def dvd_mod)
  have l: "l \<le> n" "r4 l \<le> n" "4 + r4 l < 2 ^ 31" using assms(7,8) r4_props(2)[of l] by linarith+
  note w = wrap_add[OF assms(4-6), folded p_def] and t = wrap_tail[OF p(1) l(1) assms(5) p(2) l(2)]
  have e: "(t + 4 + r4 l) mod n = (p + r4 l) mod n" by (simp add: p_def mod_add_left_eq)
  have r: "sint (ROUNDSZ (int k)) = int (r4 k)" if "k \<le> l" for k
    by (rule ROUNDSZ_nat) (use that l(3) in \<open>auto simp: r4_def intro: le_less_trans[OF _ l(3), unfolded r4_def]\<close>)
  have c: "int n - int p < int l \<longleftrightarrow> n - p < l" using p(1) by linarith
  have d: "int n - int p = int (n - p)" using p(1) by (simp add: of_nat_diff)
  have u: "knl_msg_to_mbf i msg (int l) s =
    (let s = upd_mbf i (\<lambda>B. B\<lparr>frbufsz := frbufsz B - int (4 + r4 l)\<rparr>) s;
         m = st32 (buffer B + of_nat t) (of_nat l) (mem s);
         (m, msg, msgsz, tail) =
            (if n - p < l
             then (copy_bytes (n - p) (buffer B + of_nat p) msg m, msg + of_nat (n - p), int l - int (n - p), 0)
             else (m, msg, int l, int p));
         m = knl_memcpy (buffer B + word_of_int tail) msg msgsz m;
         tail = tail + sint (ROUNDSZ msgsz);
         tail = (if tail \<ge> int n then 0 else tail)
     in upd_mbf i (mbf_tail_update (\<lambda>_. tail)) (s\<lparr>mem := m\<rparr>))"
    unfolding knl_msg_to_mbf_def Let_def assms(1-3) w c d memcpy_nat ROUNDSZ_nat(2)[OF l(3)]
    by (simp only: of_int_of_nat_eq of_nat_add of_nat_numeral of_nat_less_iff)
  show ?thesis
  proof (cases "n - p < l")
    case True
    have k: "int l - int (n - p) = int (l - (n - p))" using True by (simp add: of_nat_diff)
    show ?thesis
      unfolding u e ring_write_def p_def[symmetric] if_P[OF True] Let_def prod.case k memcpy_nat r[OF diff_le_self] add_0
        t(1)[OF True] by (simp add: upd_mbf_def fun_eq_iff)
  next
    case False
    show ?thesis
      unfolding u e ring_write_def p_def[symmetric] if_not_P[OF False] Let_def prod.case memcpy_nat r[OF order_refl]
        t(2)[OF False] by (simp add: upd_mbf_def fun_eq_iff)
  qed
qed

lemma mbf_to_msg_eq:
  assumes "mbf s i = B" "bufsz B = int n" "mbf_head B = int t" "t < n" "4 dvd n" "4 dvd t" "4 + r4 l \<le> n" "n < 2 ^ 31"
    and "ld32 (buffer B + of_nat t) (mem s) = of_nat l"
  shows "knl_mbf_to_msg i msg s =
    (upd_mbf i (\<lambda>B. B\<lparr>frbufsz := frbufsz B + int (4 + r4 l), mbf_head := int ((t + 4 + r4 l) mod n)\<rparr>)
      (s\<lparr>mem := ring_read (buffer B) n ((t + 4) mod n) l msg (mem s)\<rparr>), int l)"
proof -
  define p where "p = (t + 4) mod n"
  have p: "p < n" "4 dvd p" using assms by (auto simp: p_def dvd_mod)
  have l: "l \<le> n" "r4 l \<le> n" "4 + r4 l < 2 ^ 31" using assms(7,8) r4_props(2)[of l] by linarith+
  note w = wrap_add[OF assms(4-6), folded p_def] and t = wrap_tail[OF p(1) l(1) assms(5) p(2) l(2)]
  have e: "(t + 4 + r4 l) mod n = (p + r4 l) mod n" by (simp add: p_def mod_add_left_eq)
  have r: "sint (ROUNDSZ (int k)) = int (r4 k)" if "k \<le> l" for k
    by (rule ROUNDSZ_nat) (use that l(3) in \<open>auto simp: r4_def intro: le_less_trans[OF _ l(3), unfolded r4_def]\<close>)
  have c: "int n - int p < int l \<longleftrightarrow> n - p < l" using p(1) by linarith
  have d: "int n - int p = int (n - p)" using p(1) by (simp add: of_nat_diff)
  have a: "sint (word_of_nat l :: UW) = int l"
    using sint_small[of "int l"] le_less_trans[OF r4_props(2) less_trans[OF _ l(3)], of l] by simp
  have u: "knl_mbf_to_msg i msg s =
    (let s = upd_mbf i (\<lambda>B. B\<lparr>frbufsz := frbufsz B + int (4 + r4 l)\<rparr>) s;
         (m, msg, msgsz, head) =
            (if n - p < l
             then (copy_bytes (n - p) msg (buffer B + of_nat p) (mem s), msg + of_nat (n - p), int l - int (n - p), 0)
             else (mem s, msg, int l, int p));
         m = knl_memcpy msg (buffer B + word_of_int head) msgsz m;
         head = head + sint (ROUNDSZ msgsz);
         head = (if head \<ge> int n then 0 else head)
     in (upd_mbf i (mbf_head_update (\<lambda>_. head)) (s\<lparr>mem := m\<rparr>), int l))"
    unfolding knl_mbf_to_msg_def Let_def assms(1-3) of_int_of_nat_eq assms(9) a w c d memcpy_nat ROUNDSZ_nat(2)[OF l(3)]
    by (simp only: of_int_of_nat_eq of_nat_add of_nat_numeral of_nat_less_iff)
  have m: "mem (upd_mbf i f s) = mem s" for f by (simp add: upd_mbf_def)
  show ?thesis
  proof (cases "n - p < l")
    case True
    have k: "int l - int (n - p) = int (l - (n - p))" using True by (simp add: of_nat_diff)
    show ?thesis
      unfolding u e ring_read_def p_def[symmetric] if_P[OF True] Let_def prod.case k memcpy_nat r[OF diff_le_self] add_0
        t(1)[OF True] m by (simp add: upd_mbf_def fun_eq_iff)
  next
    case False
    show ?thesis
      unfolding u e ring_read_def p_def[symmetric] if_not_P[OF False] Let_def prod.case memcpy_nat r[OF order_refl]
        t(2)[OF False] m by (simp add: upd_mbf_def fun_eq_iff)
  qed
qed

text \<open>Copies out of the ring to a block that does not meet it.\<close>

lemma copy_out:
  assumes "\<And>k. k < n \<Longrightarrow> \<not> in_range dst l (B + of_nat k)" "off + l' \<le> n" "o' + l' \<le> l" "l < 2 ^ 31"
  shows "j < l \<Longrightarrow> copy_bytes l' (dst + of_nat o') (B + of_nat off) m (dst + of_nat j) =
      (if o' \<le> j \<and> j < o' + l' then m (B + of_nat (off + (j - o'))) else m (dst + of_nat j))"
    and "\<not> in_range dst l q \<Longrightarrow> copy_bytes l' (dst + of_nat o') (B + of_nat off) m q = m q"
proof -
  have c: "copy_bytes l' (dst + of_nat o') (B + of_nat off) m = (\<lambda>q. if in_range (dst + of_nat o') l' q
      then m (B + of_nat off + (q - (dst + of_nat o'))) else m q)"
  proof (rule copy_bytes_eq)
    show "\<not> in_range (dst + of_nat o') i (B + of_nat off + of_nat i)" if "i < l'" for i
    proof
      assume "in_range (dst + of_nat o') i (B + of_nat off + of_nat i)"
      then have "in_range dst l (B + of_nat (off + i))"
        using in_range_sub[of dst o' i _ l] assms(3,4) that by (simp add: add.assoc)
      then show False using assms(1)[of "off + i"] assms(2) that by simp
    qed
  qed (use assms in simp)
  show "copy_bytes l' (dst + of_nat o') (B + of_nat off) m (dst + of_nat j) =
      (if o' \<le> j \<and> j < o' + l' then m (B + of_nat (off + (j - o'))) else m (dst + of_nat j))" if "j < l"
    unfolding c using in_range_idx[OF that assms(3,4), of dst] by (auto simp: of_nat_diff algebra_simps)
  show "copy_bytes l' (dst + of_nat o') (B + of_nat off) m q = m q" if "\<not> in_range dst l q"
    unfolding c using in_range_sub[of dst o' l' q l] that assms by auto
qed

lemma ring_read_at:
  assumes "\<And>k. k < n \<Longrightarrow> \<not> in_range dst l (B + of_nat k)" "p < n" "l \<le> n" "n < 2 ^ 31"
  shows "j < l \<Longrightarrow> ring_read B n p l dst m (dst + of_nat j) = m (B + of_nat ((p + j) mod n))"
    and "\<not> in_range dst l q \<Longrightarrow> ring_read B n p l dst m q = m q"
proof -
  define r where "r = n - p"
  have l: "l < 2 ^ 31" and rn: "p + r = n" using assms by (simp_all add: r_def)
  have o: "\<not> in_range dst l (B + of_nat k)" if "k < n" for k using assms(1)[OF that] .
  let ?m = "copy_bytes r dst (B + of_nat p) m"
  have a: "k < l \<Longrightarrow> ?m (dst + of_nat k) = (if k < r then m (B + of_nat (p + k)) else m (dst + of_nat k))"
    "\<not> in_range dst l q \<Longrightarrow> ?m q = m q" if "r < l" for k q
    using copy_out(1)[where off = p and l' = r and o' = 0 and j = k and m = m, OF o _ _ l] that rn
      copy_out(2)[where off = p and l' = r and o' = 0 and q = q and m = m, OF o _ _ l] by simp_all
  have b: "k < l \<Longrightarrow> copy_bytes (l - r) (dst + of_nat r) B m' (dst + of_nat k) =
      (if r \<le> k then m' (B + of_nat (k - r)) else m' (dst + of_nat k))"
    "\<not> in_range dst l q \<Longrightarrow> copy_bytes (l - r) (dst + of_nat r) B m' q = m' q" if "r < l" for k q m'
    using copy_out(1)[where off = 0 and l' = "l - r" and o' = r and j = k and m = m', OF o _ _ l] that assms(3)
      copy_out(2)[where off = 0 and l' = "l - r" and o' = r and q = q and m = m', OF o _ _ l] by simp_all
  have w: "k < l \<Longrightarrow> copy_bytes l dst (B + of_nat p) m (dst + of_nat k) = m (B + of_nat (p + k))"
    "\<not> in_range dst l q \<Longrightarrow> copy_bytes l dst (B + of_nat p) m q = m q" if "\<not> r < l" for k q
    using copy_out(1)[where off = p and l' = l and o' = 0 and j = k and m = m, OF o _ _ l] that rn
      copy_out(2)[where off = p and l' = l and o' = 0 and q = q and m = m, OF o _ _ l] by simp_all
  show "ring_read B n p l dst m (dst + of_nat j) = m (B + of_nat ((p + j) mod n))" if "j < l"
  proof (cases "j < r")
    case True
    then have k: "(p + j) mod n = p + j" using rn by simp
    show ?thesis unfolding ring_read_def r_def[symmetric] k using True a(1) b(1) w(1) that by simp
  next
    case False
    then have k: "(p + j) mod n = j - r" using mod_less_twice[of "p + j" n] that assms(2,3) rn by auto
    have "r < l" "j - r < n" using False that assms(3) by simp_all
    then show ?thesis
      unfolding ring_read_def r_def[symmetric] k using False a(2)[OF _ o[of "j - r"]] b(1) that by simp
  qed
  show "ring_read B n p l dst m q = m q" if "\<not> in_range dst l q"
    unfolding ring_read_def r_def[symmetric] using a(2) b(2) w(2) that by simp
qed

lemma st32_other: "\<not> in_range p 4 q \<Longrightarrow> st32 p v m q = m q"
  by (auto simp: st32_def in_range_def)

lemma r4_le: "4 dvd k \<Longrightarrow> l \<le> k \<Longrightarrow> r4 l \<le> k"
  unfolding r4_def by (elim dvdE) simp

lemma unat_nat: "k < 2 ^ 32 \<Longrightarrow> unat (of_nat k :: UW) = k"
  by (simp only: unat_of_nat take_bit_nat_eq_self_iff) simp

lemma mbf_free_iff:
  assumes "frbufsz B = int k" "k < 2 ^ 31" "l < 2 ^ 31" "4 dvd k"
  shows "knl_mbf_free B (int l) \<longleftrightarrow> 4 + r4 l \<le> k"
proof -
  have "knl_mbf_free B (int l) \<longleftrightarrow> 4 + l \<le> k"
  proof -
    have "unat (4 + of_nat l :: UW) = 4 + l"
      using assms(3) unat_nat[of "4 + l"] by simp
    moreover have "unat (of_nat k :: UW) = k" using assms(2) unat_nat[of k] by simp
    ultimately show ?thesis by (simp add: knl_mbf_free_def assms(1) word_le_nat_alt)
  qed
  also have "\<dots> \<longleftrightarrow> 4 + r4 l \<le> k"
  proof
    assume a: "4 + l \<le> k"
    then have "r4 l \<le> k - 4" using assms(4) by (intro r4_le) (auto intro: dvd_diff_nat)
    then show "4 + r4 l \<le> k" using a by simp
  qed (use r4_props(2)[of l] in linarith)
  finally show ?thesis .
qed

lemma mbf_rep_cases:
  assumes "mbf_rep m B xs"
  obtains n h where "bufsz B = int n" "mbf_head B = int h" "h < n" "4 dvd n" "4 dvd h" "n < 2 ^ 31" "total xs \<le> n"
    "frbufsz B = int (n - total xs)" "mbf_tail B = int ((h + total xs) mod n)" "mbf_msgs (ringb m (buffer B) n h) 0 xs"
  using assms that[of "nat (bufsz B)" "nat (mbf_head B)"] by (simp add: mbf_rep_def Let_def of_nat_diff nat_less_iff)

lemma mbf_repI:
  assumes "bufsz B = int n" "mbf_head B = int h" "h < n" "4 dvd n" "4 dvd h" "n < 2 ^ 31" "total xs \<le> n"
    "frbufsz B = int (n - total xs)" "mbf_tail B = int ((h + total xs) mod n)" "mbf_msgs (ringb m (buffer B) n h) 0 xs"
  shows "mbf_rep m B xs"
  using assms by (simp add: mbf_rep_def Let_def of_nat_diff)

lemma msg_to_mbf_rep:
  assumes "mbf_rep (mem s) (mbf s i) xs" "l < 2 ^ 31" "knl_mbf_free (mbf s i) (int l)"
    and "\<And>j. j < l \<Longrightarrow> \<not> in_range (buffer (mbf s i)) (nat (bufsz (mbf s i))) (msg + of_nat j)"
  defines "s' \<equiv> knl_msg_to_mbf i msg (int l) s"
  shows "mbf_rep (mem s') (mbf s' i) (xs @ [map (\<lambda>j. mem s (msg + of_nat j)) [0..<l]])"
    and "\<not> in_range (buffer (mbf s i)) (nat (bufsz (mbf s i))) q \<Longrightarrow> mem s' q = mem s q"
proof -
  let ?B = "mbf s i" and ?b = "buffer (mbf s i)"
  obtain n h where r: "bufsz ?B = int n" "mbf_head ?B = int h" "h < n" "4 dvd n" "4 dvd h" "n < 2 ^ 31" "total xs \<le> n"
    "frbufsz ?B = int (n - total xs)" "mbf_tail ?B = int ((h + total xs) mod n)"
    "mbf_msgs (ringb (mem s) ?b n h) 0 xs"
    by (rule mbf_rep_cases[OF assms(1)])
  define T where "T = total xs"
  have T4: "4 dvd T" unfolding T_def by (rule total_dvd)
  note r = r[folded T_def]
  have fr: "4 + r4 l \<le> n - T"
    using mbf_free_iff[OF r(8) _ assms(2)] assms(3) r(4,6) T4 by (simp add: dvd_diff_nat)
  have l4: "4 + l \<le> n - T" using fr r4_props(2)[of l] by linarith
  define t where "t = (h + T) mod n"
  define p where "p = (t + 4) mod n"
  have n0: "0 < n" using r(3) by simp
  have t: "t < n" "4 dvd t" using n0 r(4,5) T4 by (auto simp: t_def dvd_mod)
  have pe: "p = (h + (T + 4)) mod n" by (simp add: p_def t_def mod_add_left_eq add.assoc)
  have t4: "t + 4 \<le> n" using t r(4) by (elim dvdE) auto
  have msg: "\<not> in_range ?b n (msg + of_nat j)" if "j < l" for j using assms(4)[OF that] r(1) by simp
  let ?m0 = "st32 (?b + of_nat t) (of_nat l) (mem s)"
  let ?m1 = "ring_write ?b n p l msg ?m0"
  have eq: "s' = upd_mbf i (\<lambda>B. B\<lparr>frbufsz := frbufsz B - int (4 + r4 l), mbf_tail := int ((t + 4 + r4 l) mod n)\<rparr>)
      (s\<lparr>mem := ?m1\<rparr>)"
    unfolding s'_def p_def
    by (rule msg_to_mbf_eq[OF refl r(1) r(9)[folded t_def] t(1) r(4) t(2) _ r(6)]) (use fr in linarith)
  have ln: "l \<le> n" using fr r4_props(2)[of l] by linarith
  have pn: "p < n" using n0 by (simp add: p_def)
  note rw = ring_write_at[OF pn ln r(6) msg, where m = ?m0]
  have m0: "?m0 q = mem s q" if "\<not> in_range ?b n q" for q
    by (rule st32_other) (use in_range_sub[of ?b t 4 q n] that t4 r(6) in blast)
  show out: "mem s' q = mem s q" if "\<not> in_range ?b (nat (bufsz ?B)) q" for q
    using rw(2)[of q] m0[of q] that r(1) by (simp add: eq upd_mbf_def)
  have byte: "ringb ?m1 ?b n h d =
      (if T + 4 \<le> d \<and> d < T + 4 + l then mem s (msg + of_nat (d - (T + 4))) else ringb ?m0 ?b n h d)" if "d < n" for d
  proof -
    have "((h + d) mod n + n - p) mod n = (if T + 4 \<le> d then d - (T + 4) else d + n - (T + 4))"
      unfolding pe by (rule mod_dist) (use fr that in auto)
    note k = this rw(1)[of "(h + d) mod n"]
    show ?thesis
    proof (cases "T + 4 \<le> d \<and> d < T + 4 + l")
      case True
      then have "d - (T + 4) < l" by linarith
      then show ?thesis
        using k m0[OF msg[of "d - (T + 4)"]] True n0 unfolding ringb_def by (simp del: of_nat_diff of_nat_add)
    next
      case False
      then have "\<not> (if T + 4 \<le> d then d - (T + 4) else d + n - (T + 4)) < l"
      proof (cases "T + 4 \<le> d")
        case True
        then show ?thesis using False unfolding if_P[OF True] by linarith
      next
        case f: False
        then show ?thesis using l4 unfolding if_not_P[OF f] by linarith
      qed
      then show ?thesis using k n0 unfolding ringb_def if_not_P[OF False] by simp
    qed
  qed
  have old: "ringb ?m0 ?b n h d = ringb (mem s) ?b n h d" if "d < T" for d
  proof -
    have "((h + d) mod n + n - t) mod n = d + n - T"
      using mod_dist[of T n d h] that fr by (simp add: t_def)
    then have "(h + d) mod n < t \<or> t + 4 \<le> (h + d) mod n"
      using ring_dist[of "(h + d) mod n" n t] n0 t(1) fr by (simp split: if_splits)
    then show ?thesis unfolding ringb_def
      using st32_other[of "?b + of_nat t" "?b + of_nat ((h + d) mod n)"] in_range_idx[of "(h + d) mod n" n t 4 ?b] n0 t4 r(6)
      by auto
  qed
  have "mbf_rep ?m1 (?B\<lparr>frbufsz := frbufsz ?B - int (4 + r4 l), mbf_tail := int ((t + 4 + r4 l) mod n)\<rparr>)
      (xs @ [map (\<lambda>j. mem s (msg + of_nat j)) [0..<l]])"
  proof (rule mbf_repI[of _ n h])
    have "mbf_msgs (ringb ?m1 ?b n h) (0 + 0) xs"
      by (rule mbf_msgs_cong[OF r(10)]) (use byte old fr in \<open>auto simp: T_def\<close>)
    moreover have "hdr (ringb ?m1 ?b n h) T = of_nat l"
    proof -
      have "hdr (ringb ?m1 ?b n h) T = hdr (ringb ?m0 ?b n h) T"
        by (rule hdr_cong) (use byte fr in auto)
      also have "\<dots> = of_nat l" using hdr_ringb[OF r(4) dvd_add[OF r(5) T4] n0] by (simp add: t_def)
      finally show ?thesis .
    qed
    moreover have "ringb ?m1 ?b n h (T + 4 + j) = mem s (msg + of_nat j)" if "j < l" for j
      using byte[of "T + 4 + j"] that l4 by simp
    ultimately show "mbf_msgs (ringb ?m1 (buffer (?B\<lparr>frbufsz := frbufsz ?B - int (4 + r4 l), mbf_tail := int ((t + 4 + r4 l) mod n)\<rparr>)) n h)
        0 (xs @ [map (\<lambda>j. mem s (msg + of_nat j)) [0..<l]])"
      by (simp add: mbf_msgs_append T_def)
    show "mbf_tail (?B\<lparr>frbufsz := frbufsz ?B - int (4 + r4 l), mbf_tail := int ((t + 4 + r4 l) mod n)\<rparr>) =
        int ((h + total (xs @ [map (\<lambda>j. mem s (msg + of_nat j)) [0..<l]])) mod n)"
      by (simp add: T_def t_def mod_add_left_eq add.assoc flip: T_def)
  qed (use r fr in \<open>auto simp: T_def of_nat_diff\<close>)
  then show "mbf_rep (mem s') (mbf s' i) (xs @ [map (\<lambda>j. mem s (msg + of_nat j)) [0..<l]])"
    by (simp add: eq upd_mbf_def)
qed

lemma mbf_to_msg_rep:
  assumes "mbf_rep (mem s) (mbf s i) (x # xs)"
    and "\<And>k. k < nat (bufsz (mbf s i)) \<Longrightarrow> \<not> in_range msg (length x) (buffer (mbf s i) + of_nat k)"
    and "knl_mbf_to_msg i msg s = (s', r)"
  shows "r = int (length x)" "map (\<lambda>j. mem s' (msg + of_nat j)) [0..<length x] = x"
    and "mbf_rep (mem s') (mbf s' i) xs" "\<not> in_range msg (length x) q \<Longrightarrow> mem s' q = mem s q"
proof -
  let ?B = "mbf s i" and ?b = "buffer (mbf s i)" and ?l = "length x"
  obtain n h where r: "bufsz ?B = int n" "mbf_head ?B = int h" "h < n" "4 dvd n" "4 dvd h" "n < 2 ^ 31"
    "total (x # xs) \<le> n" "frbufsz ?B = int (n - total (x # xs))" "mbf_tail ?B = int ((h + total (x # xs)) mod n)"
    "mbf_msgs (ringb (mem s) ?b n h) 0 (x # xs)"
    by (rule mbf_rep_cases[OF assms(1)])
  have n0: "0 < n" using r(3) by simp
  have fr: "4 + r4 ?l \<le> n" "4 + r4 ?l + total xs \<le> n" using r(7) by simp_all
  have l: "4 + ?l \<le> n" using fr(1) r4_props(2)[of ?l] by linarith
  define p where "p = (h + 4) mod n"
  have pn: "p < n" using n0 by (simp add: p_def)
  have hd: "ld32 (?b + of_nat h) (mem s) = of_nat ?l"
    using r(10) hdr_ringb[OF r(4), where h = h and d = 0 and B = ?b and m = "mem s"] r(3,5) n0 by simp
  let ?m = "ring_read ?b n p ?l msg (mem s)"
  have eq: "s' = upd_mbf i (\<lambda>B. B\<lparr>frbufsz := frbufsz B + int (4 + r4 ?l), mbf_head := int ((h + 4 + r4 ?l) mod n)\<rparr>)
      (s\<lparr>mem := ?m\<rparr>)" "r = int ?l"
    using mbf_to_msg_eq[OF refl r(1,2,3,4,5) fr(1) r(6) hd, of msg] assms(3) by (simp_all add: p_def)
  show "r = int ?l" by (rule eq(2))
  have dst: "\<not> in_range msg ?l (?b + of_nat k)" if "k < n" for k using assms(2)[of k] that r(1) by simp
  have ln: "?l \<le> n" using l by simp
  note rd = ring_read_at[OF dst pn ln r(6), where m = "mem s"]
  show "mem s' q = mem s q" if "\<not> in_range msg ?l q" for q
    using rd(2)[OF _ that] by (simp add: eq upd_mbf_def)
  have at: "mem s' (msg + of_nat j) = x ! j" if "j < ?l" for j
  proof -
    have "(p + j) mod n = (h + (4 + j)) mod n" by (simp add: p_def mod_add_left_eq add.assoc)
    then show ?thesis using rd(1)[OF _ that] r(10) that by (simp add: eq upd_mbf_def ringb_def add.assoc)
  qed
  then show "map (\<lambda>j. mem s' (msg + of_nat j)) [0..<?l] = x" by (intro nth_equalityI) simp_all
  let ?h = "(h + 4 + r4 ?l) mod n"
  have same: "ringb (mem s) ?b n h (4 + r4 ?l + d) = ringb ?m ?b n ?h d" for d
  proof -
    have "(?h + d) mod n = (h + (4 + r4 ?l + d)) mod n" by (simp add: mod_add_left_eq add.assoc)
    then show ?thesis using rd(2)[OF _ dst] n0 by (simp add: ringb_def)
  qed
  have "mbf_rep ?m (?B\<lparr>frbufsz := frbufsz ?B + int (4 + r4 ?l), mbf_head := int ?h\<rparr>) xs"
  proof (rule mbf_repI[of _ n ?h])
    have "mbf_msgs (\<lambda>d. ringb (mem s) ?b n h (4 + r4 ?l + d)) 0 xs"
      using r(10) mbf_msgs_shift[of _ "4 + r4 ?l" 0] by simp
    then show "mbf_msgs (ringb ?m (buffer (?B\<lparr>frbufsz := frbufsz ?B + int (4 + r4 ?l), mbf_head := int ?h\<rparr>)) n ?h) 0 xs"
      by (simp add: same)
    show "4 dvd ?h" using r(4,5) by (simp add: dvd_mod)
    show "mbf_tail (?B\<lparr>frbufsz := frbufsz ?B + int (4 + r4 ?l), mbf_head := int ?h\<rparr>) = int ((?h + total xs) mod n)"
      using r(9) by (simp add: mod_add_left_eq add.assoc)
  qed (use r n0 in \<open>auto simp: of_nat_diff\<close>)
  then show "mbf_rep (mem s') (mbf s' i) xs" by (simp add: eq upd_mbf_def)
qed

subsection \<open>The waiting senders\<close>

text \<open>
  What \<open>knl_mbf_wakeup\<close> promises: along the send queue, messages are accepted as long as the next one
  fits into the free bytes.
\<close>

fun mbf_accept :: "(nat \<Rightarrow> nat) \<Rightarrow> nat \<Rightarrow> nat list \<Rightarrow> nat list" where
  "mbf_accept len f [] = []"
| "mbf_accept len f (t # q) =
     (if 4 + r4 (len t) \<le> f then t # mbf_accept len (f - (4 + r4 (len t))) q else [])"

definition smsg :: "kstate \<Rightarrow> nat \<Rightarrow> UB list" where
  "smsg s t = map (\<lambda>j. mem s (smbf_msg (winfo (tcb s t)) + of_nat j)) [0..<nat (smbf_msgsz (winfo (tcb s t)))]"

abbreviation slen :: "kstate \<Rightarrow> nat \<Rightarrow> nat" where
  "slen s t \<equiv> nat (smbf_msgsz (winfo (tcb s t)))"

definition outside :: "mbfcb \<Rightarrow> UW \<Rightarrow> nat \<Rightarrow> bool" where
  "outside B p l \<longleftrightarrow> (\<forall>j < l. \<not> in_range (buffer B) (nat (bufsz B)) (p + of_nat j))"

definition senders_ok :: "kstate \<Rightarrow> nat \<Rightarrow> nat list \<Rightarrow> bool" where
  "senders_ok s i q \<longleftrightarrow> (\<forall>t \<in> set q. 0 \<le> smbf_msgsz (winfo (tcb s t)) \<and> smbf_msgsz (winfo (tcb s t)) < 2 ^ 31 \<and>
     outside (mbf s i) (smbf_msg (winfo (tcb s t))) (slen s t))"

lemma smsg_length [simp]: "length (smsg s t) = slen s t"
  by (simp add: smsg_def)

lemma mbf_accept_sub: "set (mbf_accept len f q) \<subseteq> set q"
  by (induction len f q rule: mbf_accept.induct) auto

lemma mbf_free_rep:
  assumes "mbf_rep m B xs" "0 \<le> sz" "sz < 2 ^ 31"
  shows "knl_mbf_free B sz \<longleftrightarrow> 4 + r4 (nat sz) \<le> nat (bufsz B) - total xs"
proof -
  obtain n h where r: "bufsz B = int n" "4 dvd n" "n < 2 ^ 31" "frbufsz B = int (n - total xs)"
    by (rule mbf_rep_cases[OF assms(1)])
  show ?thesis
    using mbf_free_iff[OF r(4), of "nat sz"] r(1-3) assms(2,3) by (simp add: nat_less_iff dvd_diff_nat)
qed

lemma upd_mbf_sel [simp]:
  "tcb (upd_mbf i f s) = tcb s" "que (upd_mbf i f s) = que s" "rq (upd_mbf i f s) = rq s"
  "smp (upd_mbf i f s) = smp s" "tmr (upd_mbf i f s) = tmr s" "ercd (upd_mbf i f s) = ercd s"
  "fault (upd_mbf i f s) = fault s" "free_mbf (upd_mbf i f s) = free_mbf s" "mem (upd_mbf i f s) = mem s"
  "mbf (upd_mbf i f s) = (mbf s)(i := f (mbf s i))" "kwf (upd_mbf i f s) = kwf s"
  by (simp_all add: upd_mbf_def)

lemma msg_to_mbf_sel [simp]:
  "tcb (knl_msg_to_mbf i msg l s) = tcb s" "que (knl_msg_to_mbf i msg l s) = que s"
  "rq (knl_msg_to_mbf i msg l s) = rq s" "smp (knl_msg_to_mbf i msg l s) = smp s"
  "tmr (knl_msg_to_mbf i msg l s) = tmr s" "ercd (knl_msg_to_mbf i msg l s) = ercd s"
  "fault (knl_msg_to_mbf i msg l s) = fault s" "kwf (knl_msg_to_mbf i msg l s) = kwf s"
  "free_mbf (knl_msg_to_mbf i msg l s) = free_mbf s"
  "buffer (mbf (knl_msg_to_mbf i msg l s) i) = buffer (mbf s i)"
  "bufsz (mbf (knl_msg_to_mbf i msg l s) i) = bufsz (mbf s i)"
  by (auto simp: knl_msg_to_mbf_def Let_def split: prod.splits)

lemma mbf_wakeup_accept:
  assumes "kwf s" "mbf_rep (mem s) (mbf s i) xs" "que s (SmbfQ i) = q" "length q = n" "senders_ok s i q"
    and "R = mbf_accept (slen s) (nat (bufsz (mbf s i)) - total xs) q" "s' = mbf_wakeup_loop n c i s"
  shows "rel_eff R (\<lambda>_. 0) s s' \<and> mbf_rep (mem s') (mbf s' i) (xs @ map (smsg s) R) \<and>
    (\<forall>a. \<not> in_range (buffer (mbf s i)) (nat (bufsz (mbf s i))) a \<longrightarrow> mem s' a = mem s a)"
  using assms
proof (induction n arbitrary: s xs q R)
  case 0
  then show ?case by (simp add: rel_eff_refl)
next
  case (Suc n)
  then obtain t q' where q: "q = t # q'" by (cases q) auto
  let ?w = "winfo (tcb s t)"
  have t: "t \<in> set (que s (SmbfQ i))" "t \<notin> set q'"
    using Suc.prems(3) distinct_ring[OF Suc.prems(1), of "SmbfQ i"] q by auto
  have ok: "0 \<le> smbf_msgsz ?w" "smbf_msgsz ?w < 2 ^ 31" "outside (mbf s i) (smbf_msg ?w) (slen s t)"
    using Suc.prems(5) q by (simp_all add: senders_ok_def)
  note free = mbf_free_rep[OF Suc.prems(2) ok(1,2)]
  show ?case
  proof (cases "knl_mbf_free (mbf s i) (smbf_msgsz ?w)")
    case False
    then show ?thesis using Suc.prems q free by (simp add: Let_def rel_eff_refl)
  next
    case True
    define s0 where "s0 = knl_msg_to_mbf i (smbf_msg ?w) (smbf_msgsz ?w) s"
    define s1 where "s1 = knl_wait_release_ok c t s0"
    have l: "smbf_msgsz ?w = int (slen s t)" using ok(1) by simp
    have rep0: "mbf_rep (mem s0) (mbf s0 i) (xs @ [smsg s t])"
      "\<not> in_range (buffer (mbf s i)) (nat (bufsz (mbf s i))) a \<Longrightarrow> mem s0 a = mem s a" for a
      unfolding s0_def smsg_def
      using msg_to_mbf_rep(1)[OF Suc.prems(2), of "slen s t" "smbf_msg ?w"]
        msg_to_mbf_rep(2)[OF Suc.prems(2), of "slen s t" "smbf_msg ?w" a] True ok l
      by (simp_all add: outside_def nat_less_iff)
    have fr: "tcb s0 = tcb s" "que s0 = que s" "mem s1 = mem s0" "mbf s1 = mbf s0" "winfo (tcb s1 u) = winfo (tcb s u)"
      "buffer (mbf s0 i) = buffer (mbf s i)" "bufsz (mbf s0 i) = bufsz (mbf s i)" for u
      by (simp_all add: s1_def s0_def)
    have k1: "kwf s1"
      unfolding s1_def by (rule kwf_ring_release(2)[of _ _ "SmbfQ i"]) (use Suc.prems(1) t(1) in \<open>simp_all add: s0_def\<close>)
    have q1: "que s1 (SmbfQ i) = q'" using Suc.prems(3) q by (simp add: s1_def s0_def q_release_other)
    have sm: "smsg s1 u = smsg s u" if "u \<in> set q" for u
      unfolding smsg_def fr(3,5)
      using rep0(2) Suc.prems(5) that by (auto simp: senders_ok_def outside_def)
    have R: "R = t # mbf_accept (slen s) (nat (bufsz (mbf s i)) - total (xs @ [smsg s t])) q'"
      using Suc.prems(6) True free by (simp add: q diff_diff_eq)
    have "rel_eff (tl R) (\<lambda>_. 0) s1 s' \<and> mbf_rep (mem s') (mbf s' i) ((xs @ [smsg s t]) @ map (smsg s1) (tl R)) \<and>
      (\<forall>a. \<not> in_range (buffer (mbf s1 i)) (nat (bufsz (mbf s1 i))) a \<longrightarrow> mem s' a = mem s1 a)"
    proof (rule Suc.IH[OF k1 _ q1])
      show "senders_ok s1 i q'"
        using Suc.prems(5) by (simp add: senders_ok_def q fr outside_def)
      show "tl R = mbf_accept (slen s1) (nat (bufsz (mbf s1 i)) - total (xs @ [smsg s t])) q'"
        by (simp add: R fr)
      show "s' = mbf_wakeup_loop n c i s1"
        using Suc.prems(3,7) True by (simp add: q Let_def s1_def s0_def)
    qed (use rep0(1) Suc.prems(4) q in \<open>simp_all add: fr\<close>)
    moreover have "map (smsg s1) (tl R) = map (smsg s) (tl R)"
      using sm mbf_accept_sub by (fastforce simp: R q)
    moreover have "t \<notin> set (tl R)" using t(2) mbf_accept_sub by (fastforce simp: R)
    then have "rel_eff (t # tl R) (\<lambda>_. 0) s s'" if "rel_eff (tl R) (\<lambda>_. 0) s1 s'"
      using rel_eff_ring_step[OF Suc.prems(1) t(1) _ _ _ _ that, of s0 c]
      by (simp add: s1_def s0_def wait_release_ok_eq)
    moreover have "mem s' a = mem s a" if "\<not> in_range (buffer (mbf s i)) (nat (bufsz (mbf s i))) a" "mem s' a = mem s1 a" for a
      using rep0(2) that by (simp add: fr)
    ultimately show ?thesis by (simp add: R fr del: map_eq_conv)
  qed
qed

lemma mbf_to_msg_sel [simp]:
  "tcb (fst (knl_mbf_to_msg i msg s)) = tcb s" "que (fst (knl_mbf_to_msg i msg s)) = que s"
  "rq (fst (knl_mbf_to_msg i msg s)) = rq s" "smp (fst (knl_mbf_to_msg i msg s)) = smp s"
  "tmr (fst (knl_mbf_to_msg i msg s)) = tmr s" "ercd (fst (knl_mbf_to_msg i msg s)) = ercd s"
  "fault (fst (knl_mbf_to_msg i msg s)) = fault s" "kwf (fst (knl_mbf_to_msg i msg s)) = kwf s"
  "buffer (mbf (fst (knl_mbf_to_msg i msg s)) i) = buffer (mbf s i)"
  "bufsz (mbf (fst (knl_mbf_to_msg i msg s)) i) = bufsz (mbf s i)"
  by (auto simp: knl_mbf_to_msg_def Let_def split: prod.splits)

lemma in_range_ex:
  assumes "n < 2 ^ 32" shows "in_range b n q \<longleftrightarrow> (\<exists>k < n. q = b + of_nat k)"
proof
  assume "in_range b n q"
  then show "\<exists>k < n. q = b + of_nat k" by (intro exI[of _ "unat (q - b)"]) (simp add: in_range_def)
next
  assume "\<exists>k < n. q = b + of_nat k"
  then show "in_range b n q" using assms unat_nat by (auto simp: in_range_def)
qed

lemma outside_sym:
  assumes "l < 2 ^ 31" "bufsz B < 2 ^ 31"
  shows "outside B p l \<longleftrightarrow> (\<forall>k < nat (bufsz B). \<not> in_range p l (buffer B + of_nat k))"
proof -
  have n: "nat (bufsz B) < 2 ^ 32" "l < 2 ^ 32" using assms by (simp_all add: nat_less_iff)
  show ?thesis unfolding outside_def in_range_ex[OF n(1)] in_range_ex[OF n(2)] by metis
qed

lemma rcv_mbf_fifo:
  assumes "kwf s" "mbf_rep (mem s) (mbf s i) (x # xs)" "mbfid (mbf s i) \<noteq> 0" "senders_ok s i (que s (SmbfQ i))"
    and "outside (mbf s i) msg (length x)"
    and "\<forall>t \<in> set (que s (SmbfQ i)). \<forall>j < slen s t. \<not> in_range msg (length x) (smbf_msg (winfo (tcb s t)) + of_nat j)"
    and R: "R = mbf_accept (slen s) (nat (bufsz (mbf s i)) - total xs) (que s (SmbfQ i))"
    and r: "rcv_mbf_cs c i msg tmout s = (s', r)"
  shows "r = Ret (int (length x))" "map (\<lambda>j. mem s' (msg + of_nat j)) [0..<length x] = x"
    "rel_eff R (\<lambda>_. 0) s s'" "mbf_rep (mem s') (mbf s' i) (xs @ map (smsg s) R)"
proof -
  obtain n h where b: "bufsz (mbf s i) = int n" "n < 2 ^ 31" "total (x # xs) \<le> n" "frbufsz (mbf s i) = int (n - total (x # xs))"
    by (rule mbf_rep_cases[OF assms(2)])
  have l: "length x < 2 ^ 31" using b(2,3) le_trans[OF r4_props(2), of "length x" n] by simp
  have out: "outside (mbf s i) msg (length x)" "\<not> in_range msg (length x) (buffer (mbf s i) + of_nat k)"
    if "k < nat (bufsz (mbf s i))" for k
    using assms(5) outside_sym[OF l] b(1,2) that by simp_all
  obtain s1 r1 where s1: "knl_mbf_to_msg i msg s = (s1, r1)" by fastforce
  note t = mbf_to_msg_rep[OF assms(2) out(2) s1]
  have sel: "tcb s1 = tcb s" "que s1 = que s" "kwf s1" "smp s1 = smp s" "tmr s1 = tmr s" "ercd s1 = ercd s" "fault s1 = fault s"
    "buffer (mbf s1 i) = buffer (mbf s i)" "bufsz (mbf s1 i) = bufsz (mbf s i)"
    using mbf_to_msg_sel[of i msg s] s1 assms(1) by simp_all
  have sm: "smsg s1 u = smsg s u" if "u \<in> set (que s (SmbfQ i))" for u
    using t(4) assms(6) that by (auto simp: smsg_def sel)
  have "knl_mbf_empty (mbf s i) = False" using b by (simp add: knl_mbf_empty_def)
  then have s': "s' = knl_mbf_wakeup c i s1" "r = Ret r1" using r s1 assms(3) by (auto simp: rcv_mbf_cs_def Let_def)
  have "R = mbf_accept (slen s1) (nat (bufsz (mbf s1 i)) - total xs) (que s1 (SmbfQ i))" by (simp add: R sel)
  moreover have "senders_ok s1 i (que s1 (SmbfQ i))" using assms(4) by (simp add: senders_ok_def outside_def sel)
  ultimately have w: "rel_eff R (\<lambda>_. 0) s1 s'" "mbf_rep (mem s') (mbf s' i) (xs @ map (smsg s1) R)"
    "\<And>a. \<not> in_range (buffer (mbf s i)) (nat (bufsz (mbf s i))) a \<Longrightarrow> mem s' a = mem s1 a"
    using mbf_wakeup_accept[OF sel(3) t(3) refl refl] s' by (simp_all add: knl_mbf_wakeup_def sel)
  show "r = Ret (int (length x))" using t(1) s' by simp
  have "mem s' (msg + of_nat j) = mem s1 (msg + of_nat j)" if "j < length x" for j
    using w(3) assms(5) that by (simp add: outside_def)
  then show "map (\<lambda>j. mem s' (msg + of_nat j)) [0..<length x] = x" using t(2) by (metis (no_types, lifting) atLeastLessThan_iff map_cong atLeastLessThan_upt)
  show "rel_eff R (\<lambda>_. 0) s s'" using w(1) by (simp add: rel_eff_def sel cong: if_cong)
  have "map (smsg s1) R = map (smsg s) R" using sm mbf_accept_sub by (fastforce simp: R)
  then show "mbf_rep (mem s') (mbf s' i) (xs @ map (smsg s) R)" using w(2) by (simp only:)
qed

subsection \<open>Properties\<close>

definition ex_mbf :: kstate where
  "ex_mbf = (ex_state Wspec_smbf_tfifo ex_winfo (SmbfQ 0))\<lparr>
     mbf := (\<lambda>_. \<lparr>mbfid = 0, mbf_exinf = 0, mbfatr = 0, bufsz = 0, maxmsz = 0, frbufsz = 0, mbf_head = 0,
         mbf_tail = 0, buffer = 0\<rparr>)
       (0 := \<lparr>mbfid = 1, mbf_exinf = 0, mbfatr = 0, bufsz = 16, maxmsz = 8, frbufsz = 4, mbf_head = 8,
         mbf_tail = 4, buffer = 0x20001000\<rparr>,
        1 := \<lparr>mbfid = 2, mbf_exinf = 0, mbfatr = 0, bufsz = 16, maxmsz = 8, frbufsz = 16, mbf_head = 8,
         mbf_tail = 8, buffer = 0x20002000\<rparr>),
     free_mbf := [2..<NUM_MBFID],
     mem := (\<lambda>p. if p = 0x20001008 then 5 else if p = 0x2000100C then 7 else if p = 0x20001000 then 9 else 0)\<rparr>"

lemma all_less:
  "(\<forall>j < 3. P j) \<longleftrightarrow> P 0 \<and> P 1 \<and> P (2 :: nat)"
  "(\<forall>j < 4. P j) \<longleftrightarrow> P 0 \<and> P 1 \<and> P 2 \<and> P (3 :: nat)"
  "(\<forall>j < Suc (Suc (Suc (Suc (Suc 0)))). P j) \<longleftrightarrow> P 0 \<and> P 1 \<and> P 2 \<and> P 3 \<and> P (4 :: nat)"
  by (auto simp: numeral_eq_Suc less_Suc_eq)

lemma ex_mbf_sel [simp]:
  "mbf ex_mbf 0 = \<lparr>mbfid = 1, mbf_exinf = 0, mbfatr = 0, bufsz = 16, maxmsz = 8, frbufsz = 4, mbf_head = 8,
     mbf_tail = 4, buffer = 0x20001000\<rparr>"
  "mbf ex_mbf (Suc 0) = \<lparr>mbfid = 2, mbf_exinf = 0, mbfatr = 0, bufsz = 16, maxmsz = 8, frbufsz = 16, mbf_head = 8,
     mbf_tail = 8, buffer = 0x20002000\<rparr>"
  "mem ex_mbf = (\<lambda>p. if p = 0x20001008 then 5 else if p = 0x2000100C then 7 else if p = 0x20001000 then 9 else 0)"
  "que ex_mbf = (\<lambda>_. [])(RdyQ 10 := [0], SmbfQ 0 := [1])" "smp ex_mbf = ex_smp" "winfo (tcb ex_mbf (Suc 0)) = ex_winfo"
  by (simp_all add: ex_mbf_def ex_wait_def)

lemma ex_mbf_rep: "mbf_rep (mem ex_mbf) (mbf ex_mbf 0) [[7, 0, 0, 0, 9]]" "mbf_rep (mem ex_mbf) (mbf ex_mbf 1) []"
proof -
  have m: "mbf_msgs (ringb (mem ex_mbf) 0x20001000 16 8) 0 [[7, 0, 0, 0, 9]]"
    unfolding mbf_msgs.simps list.size All_less_Suc add_0_right add_Suc_right
    by (simp add: hdr_def ringb_def ld32_def)
  then show "mbf_rep (mem ex_mbf) (mbf ex_mbf 0) [[7, 0, 0, 0, 9]]"
    by (simp add: mbf_rep_def r4_def)
  show "mbf_rep (mem ex_mbf) (mbf ex_mbf 1) []" by (simp add: mbf_rep_def)
qed

lemma kwf_ex_mbf: "kwf ex_mbf" "senders_ok ex_mbf 0 (que ex_mbf (SmbfQ 0))"
proof -
  show "kwf ex_mbf" using kwf_ex_state[of Wspec_smbf_tfifo "SmbfQ 0"] by (simp add: ex_mbf_def)
  show "senders_ok ex_mbf 0 (que ex_mbf (SmbfQ 0))"
    by (simp add: senders_ok_def outside_def in_range_def ex_winfo_def all_less)
qed

text \<open>
  C23. A message buffer is a first-in-first-out queue of messages: a receive call on a buffer that
  represents \<open>x # xs\<close> returns the length of \<open>x\<close>, leaves exactly its bytes at the caller's address, and
  then the waiting senders whose messages fit into the free bytes, in queue order and as long as the
  next one fits, are released with \<open>E_OK\<close> and their messages are behind \<open>xs\<close> in the buffer. The caller's
  block must not meet the buffer or the messages of the senders.
\<close>

theorem rcv_mbf_takes_first:
  assumes "kwf s" "CHK_MBFID y" "i = get_mbfcb y" "mbfid (mbf s i) \<noteq> 0" "tmout \<ge> TMO_FEVR" "\<not> in_ddsp c s"
    and "mbf_rep (mem s) (mbf s i) (x # xs)" "senders_ok s i (que s (SmbfQ i))" "outside (mbf s i) msg (length x)"
    and "\<forall>t \<in> set (que s (SmbfQ i)). \<forall>j < slen s t. \<not> in_range msg (length x) (smbf_msg (winfo (tcb s t)) + of_nat j)"
    and "R = mbf_accept (slen s) (nat (bufsz (mbf s i)) - total xs) (que s (SmbfQ i))"
    and "tk_rcv_mbf c y msg tmout s = (s', r)"
  shows "r = Ret (int (length x)) \<and> map (\<lambda>j. mem s' (msg + of_nat j)) [0..<length x] = x \<and>
    rel_eff R (\<lambda>_. E_OK) s s' \<and> mbf_rep (mem s') (mbf s' i) (xs @ map (smsg s) R)"
proof -
  obtain s1 r1 where r1: "rcv_mbf_cs c i msg tmout s = (s1, r1)" by fastforce
  have "s' = END_CRITICAL_SECTION c s1" "r = r1"
    using assms(2,3,5,6,12) r1 by (auto simp: tk_rcv_mbf_def)
  then show ?thesis using rcv_mbf_fifo[OF assms(1,7,4,8,9,10,11) r1] by (simp add: rel_eff_def)
qed

theorem rcv_mbf_takes_first_witness:
  "snd (tk_rcv_mbf 0 1 0x20003000 TMO_FEVR ex_mbf) = Ret 5 \<and>
   mem (fst (tk_rcv_mbf 0 1 0x20003000 TMO_FEVR ex_mbf)) 0x20003004 = 9 \<and>
   rel_eff [1] (\<lambda>_. E_OK) ex_mbf (fst (tk_rcv_mbf 0 1 0x20003000 TMO_FEVR ex_mbf))"
proof -
  have a: "mbf_accept (slen ex_mbf) (nat (bufsz (mbf ex_mbf 0)) - total []) (que ex_mbf (SmbfQ 0)) = [1]"
    by (simp add: ex_winfo_def r4_def)
  show ?thesis
    using rcv_mbf_takes_first[OF kwf_ex_mbf(1) _ _ _ _ _ ex_mbf_rep(1) kwf_ex_mbf(2) _ _ a[symmetric] prod.collapse[symmetric],
        of 1 TMO_FEVR 0 "0x20003000"]
    by (simp add: CHK_MBFID_def get_mbfcb_def size_defs in_ddsp_def in_indp_def knl_isTaskIndependent_def
        outside_def in_range_def all_less upt_rec ex_smp_def ex_winfo_def)
qed

text \<open>
  C24. A send call that does not have to wait appends, whatever its timeout: when no receiver waits, the caller is a
  handler or would be the first of the waiting senders (there is none, or the buffer orders them by priority
  and the caller's is higher), and the message fits, it returns \<open>E_OK\<close> and the buffer represents the old messages followed
  by the bytes of the new one; the memory outside the buffer, the tasks and the queues are not changed. When the message does not fit, a
  polling call returns \<open>E_TMOUT\<close> and changes nothing, and any other is blocked with the buffer unchanged.
  A call with a timeout other than \<open>TMO_POL\<close> is made where waiting is allowed: elsewhere it is refused with \<open>E_CTX\<close>.
\<close>

theorem snd_mbf_appends:
  assumes "CHK_MBFID y" "i = get_mbfcb y" "mbfid (mbf s i) \<noteq> 0" "0 < sz" "sz \<le> maxmsz (mbf s i)" "sz < 2 ^ 31"
    and "que s (RmbfQ i) = []" "in_indp c s \<or> knl_gcb_top_of_wait_queue (SmbfQ i) (mbfatr (mbf s i)) (cur c s) s = cur c s"
    and "TMO_FEVR \<le> tmout" "tmout = TMO_POL \<or> \<not> in_ddsp c s"
    and "mbf_rep (mem s) (mbf s i) xs" "outside (mbf s i) msg (nat sz)"
    and "tk_snd_mbf c y msg sz tmout s = (s', r)"
  shows "if 4 + r4 (nat sz) \<le> nat (bufsz (mbf s i)) - total xs
    then r = Ret E_OK \<and> mbf_rep (mem s') (mbf s' i) (xs @ [map (\<lambda>j. mem s (msg + of_nat j)) [0..<nat sz]]) \<and>
      (\<forall>a. \<not> in_range (buffer (mbf s i)) (nat (bufsz (mbf s i))) a \<longrightarrow> mem s' a = mem s a) \<and> tcb s' = tcb s \<and> que s' = que s
    else if tmout = TMO_POL then r = Ret E_TMOUT \<and> s' = END_CRITICAL_SECTION c s
    else r = Blocked \<and> mbf s' = mbf s \<and> mem s' = mem s"
proof -
  have f: "knl_mbf_free (mbf s i) sz \<longleftrightarrow> 4 + r4 (nat sz) \<le> nat (bufsz (mbf s i)) - total xs"
    using mbf_free_rep[OF assms(11)] assms(4,6) by simp
  note st = msg_to_mbf_rep[OF assms(11), of "nat sz" msg]
  show ?thesis
    using assms(1-5,7-10,13) f st assms(6,12)
    by (auto simp: tk_snd_mbf_def snd_mbf_cs_def Let_def outside_def nat_less_iff)
qed

theorem snd_mbf_appends_witness:
  "snd (tk_snd_mbf 0 2 0x20003000 3 50 ex_mbf) = Ret E_OK \<and>
   mbf_rep (mem (fst (tk_snd_mbf 0 2 0x20003000 3 50 ex_mbf))) (mbf (fst (tk_snd_mbf 0 2 0x20003000 3 50 ex_mbf)) 1)
     [[0, 0, 0]]"
  using snd_mbf_appends[OF _ _ _ _ _ _ _ _ _ _ ex_mbf_rep(2) _ prod.collapse[symmetric], of 2 3 0 50 "0x20003000"]
  by (simp add: CHK_MBFID_def get_mbfcb_def size_defs outside_def in_range_def all_less upt_rec r4_def in_ddsp_def in_indp_def
    knl_isTaskIndependent_def ex_smp_def knl_gcb_top_of_wait_queue_def)

end
