(* ===== verification/Klock.thy ===== *)
theory Klock
  imports Sched_Inv
begin

text \<open>
  \<^verbatim>\<open>kernel/tkernel/klock.c\<close>, \<^verbatim>\<open>klock.h\<close>: the lock inside a control block. Only the fixed-size memory pools
  have one; \<open>mpf_locked\<close> is \<open>wtskq.next \<noteq> NULL\<close> and \<open>LockQ i\<close> the queue of the tasks that wait for the lock
  of pool \<open>i\<close>. A task in it stays READY but is out of the ready queue (\<open>klockwait\<close>).
\<close>

definition upd_mpf :: "nat \<Rightarrow> (mpfcb \<Rightarrow> mpfcb) \<Rightarrow> kstate \<Rightarrow> kstate" where
  "upd_mpf i f s = s\<lparr>mpf := (mpf s)(i := f (mpf s i))\<rparr>"

definition knl_InitOBJLOCK :: "nat \<Rightarrow> kstate \<Rightarrow> kstate" where
  "knl_InitOBJLOCK i s = upd_mpf i (mpf_locked_update (\<lambda>_. False)) s"

definition knl_isLockedOBJ :: "nat \<Rightarrow> kstate \<Rightarrow> bool" where
  "knl_isLockedOBJ i s \<longleftrightarrow> mpf_locked (mpf s i)"

text \<open>
  One pass of the retry loop of \<open>knl_LockOBJ\<close>. The result says whether the loop ends with the lock held;
  otherwise the task has been queued and makes the next pass when it runs again.
\<close>

definition knl_LockOBJ :: "nat \<Rightarrow> nat \<Rightarrow> kstate \<Rightarrow> kstate \<times> bool" where
  "knl_LockOBJ c i s =
     (let t = cur c s; klckd = klocked (tcb s t);
          (s, klckd) =
            (if klckd then (s, klckd)
             else if \<not> mpf_locked (mpf s i)
             then let s = upd_que (\<lambda>Q. Q(LockQ i := [])) (upd_mpf i (mpf_locked_update (\<lambda>_. True)) s);
                      s = upd_tcb t (klocked_update (\<lambda>_. True)) s
                  in (s\<lparr>rq := (rq s)\<lparr>klocktsk := Some t\<rparr>\<rparr>, True)
             else let s = knl_ready_queue_delete t s;
                      s = upd_tcb t (klockwait_update (\<lambda>_. True)) s;
                      s = upd_que (q_insert t (LockQ i)) s
                  in (knl_reschedule c s, False))
      in (END_CRITICAL_SECTION c s, klckd))"

definition unlock_obj :: "nat \<Rightarrow> nat \<Rightarrow> kstate \<Rightarrow> kstate" where
  "unlock_obj c i s =
     (let s = upd_tcb (cur c s) (klocked_update (\<lambda>_. False)) s;
          s = s\<lparr>rq := (rq s)\<lparr>klocktsk := None\<rparr>\<rparr>;
          s = (case que s (LockQ i) of
                 [] \<Rightarrow> upd_mpf i (mpf_locked_update (\<lambda>_. False)) s
               | t # ts \<Rightarrow>
                   let s = upd_que (\<lambda>Q. Q(LockQ i := ts)) s;
                       s = upd_tcb t (\<lambda>T. T\<lparr>klockwait := False, klocked := True\<rparr>) s
                   in knl_ready_queue_insert_top t s)
      in knl_reschedule c s)"

definition knl_UnlockOBJ :: "nat \<Rightarrow> nat \<Rightarrow> kstate \<Rightarrow> kstate" where
  "knl_UnlockOBJ c i s = END_CRITICAL_SECTION c (unlock_obj c i s)"

end
