(* ===== verification/Mempfix.thy ===== *)
theory Mempfix
  imports Klock Wait_Object Example_State Imalloc
begin

text \<open>
  \<^verbatim>\<open>kernel/tkernel/mempfix.c\<close>, \<^verbatim>\<open>mempfix.h\<close>. The control block of a pool has its own lock: a call first
  locks it and then runs the rest, which is the \<open>_locked\<close> definition. A call that must wait for the lock
  ends here with \<open>MLock\<close>; the rest runs when the lock has been handed to the task. \<open>MWait\<close> is a call that
  waits for a block.
\<close>

datatype mpf_ret = MRet int | MWait | MLock

definition CHK_MPFID :: "int \<Rightarrow> bool" where
  "CHK_MPFID x \<longleftrightarrow> 1 \<le> x \<and> x \<le> int NUM_MPFID"

definition get_mpfcb :: "int \<Rightarrow> nat" where "get_mpfcb x = nat (x - 1)"

definition MINSZ :: "int \<Rightarrow> UW" where
  "MINSZ sz = (word_of_int sz + 3) AND NOT 3"

definition knl_mempool_end :: "mpfcb \<Rightarrow> UW" where
  "knl_mempool_end B = mempool B + word_of_int (mpfsz B)"

definition knl_fix_memorypool_initialize :: "kstate \<Rightarrow> kstate" where
  "knl_fix_memorypool_initialize s =
     fold (\<lambda>i s. let s = upd_mpf i (mpfid_update (\<lambda>_. 0)) s;
                     s = knl_InitOBJLOCK i s
                 in s\<lparr>free_mpf := free_mpf s @ [i]\<rparr>)
       [0..<NUM_MPFID] (s\<lparr>free_mpf := []\<rparr>)"

record t_cmpf =
  cp_exinf :: UW
  cp_mpfatr :: UW
  cp_mpfcnt :: int
  cp_blfsz :: int
  cp_bufptr :: UW

definition cre_mpf_locked :: "nat \<Rightarrow> nat \<Rightarrow> t_cmpf \<Rightarrow> int \<Rightarrow> int \<Rightarrow> UW \<Rightarrow> kstate \<Rightarrow> kstate \<times> mpf_ret" where
  "cre_mpf_locked c i pk bsz psz pool s =
     (let s = upd_que (\<lambda>Q. Q(MpfQ i := [])) s;
          s = upd_mpf i (\<lambda>B. B\<lparr>mpf_exinf := cp_exinf pk, mpfatr := cp_mpfatr pk, mpfcnt := cp_mpfcnt pk,
                               frbcnt := cp_mpfcnt pk, blfsz := bsz, mpfsz := psz, unused := pool, mempool := pool,
                               freelist := 0, mpfid := int i + 1\<rparr>) s
      in (knl_UnlockOBJ c i s, MRet (int i + 1)))"

text \<open>\<open>blfsz * mpfcnt\<close> is a product of two 32-bit signed integers, here with the wrap-around of the target.\<close>

definition mpf_size :: "int \<Rightarrow> int \<Rightarrow> int" where
  "mpf_size bsz cnt = sint (word_of_int (bsz * cnt) :: UW)"

definition tk_cre_mpf :: "nat \<Rightarrow> t_cmpf \<Rightarrow> kstate \<Rightarrow> (kstate \<times> mpf_ret) option" where
  "tk_cre_mpf c pk s =
     (if cp_mpfatr pk AND NOT (TA_TPRI OR 0x300 OR 0x20) \<noteq> 0 then Some (s, MRet E_RSATR)
      else if \<not> cp_mpfcnt pk > 0 then Some (s, MRet E_PAR)
      else if \<not> cp_blfsz pk > 0 then Some (s, MRet E_PAR)
      else if in_ddsp c s then Some (s, MRet E_CTX)
      else
        let bsz = sint (MINSZ (cp_blfsz pk)); psz = mpf_size bsz (cp_mpfcnt pk);
            userbuf = cp_mpfatr pk AND 0x20 \<noteq> 0
        in if userbuf \<and> bsz \<noteq> cp_blfsz pk then Some (s, MRet E_PAR)
           else do {
             (s, pool) \<leftarrow> (if userbuf then Some (s, cp_bufptr pk) else knl_Imalloc c psz s);
             if \<not> userbuf \<and> pool = 0 then Some (s, MRet E_NOMEM)
             else case free_mpf s of
               [] \<Rightarrow> do {
                 s \<leftarrow> (if userbuf then Some s else knl_Ifree c pool s);
                 Some (s, MRet E_LIMIT)
               }
             | i # rest \<Rightarrow>
                 let (s, got) = knl_LockOBJ c i (s\<lparr>free_mpf := rest\<rparr>)
                 in Some (if got then cre_mpf_locked c i pk bsz psz pool s else (s, MLock))
           })"

definition del_mpf_locked :: "nat \<Rightarrow> nat \<Rightarrow> kstate \<Rightarrow> (kstate \<times> mpf_ret) option" where
  "del_mpf_locked c i s =
     (let (s, pool, memattr, ercd) =
        (if mpfid (mpf s i) = 0 then (s, 0, 0, E_NOEXS)
         else let pool = mempool (mpf s i); memattr = mpfatr (mpf s i);
                  s = knl_wait_delete c (MpfQ i) s;
                  s = s\<lparr>free_mpf := free_mpf s @ [i]\<rparr>
              in (upd_mpf i (mpfid_update (\<lambda>_. 0)) s, pool, memattr, E_OK));
          s = knl_UnlockOBJ c i s
      in do {
        s \<leftarrow> (if pool \<noteq> 0 \<and> memattr AND 0x20 = 0 then knl_Ifree c pool s else Some s);
        Some (s, MRet ercd)
      })"

definition tk_del_mpf :: "nat \<Rightarrow> int \<Rightarrow> kstate \<Rightarrow> (kstate \<times> mpf_ret) option" where
  "tk_del_mpf c xid s =
     (if \<not> CHK_MPFID xid then Some (s, MRet E_ID)
      else if in_ddsp c s then Some (s, MRet E_CTX)
      else let (s, got) = knl_LockOBJ c (get_mpfcb xid) s
           in if got then del_mpf_locked c (get_mpfcb xid) s else Some (s, MLock))"

definition knl_mpf_chg_pri :: "nat \<Rightarrow> int \<Rightarrow> kstate \<Rightarrow> kstate" where
  "knl_mpf_chg_pri t oldpri s = knl_gcb_change_priority (MpfQ (get_mpfcb (wid (tcb s t)))) t s"

definition get_mpf_locked :: "nat \<Rightarrow> nat \<Rightarrow> UW \<Rightarrow> int \<Rightarrow> kstate \<Rightarrow> kstate \<times> mpf_ret" where
  "get_mpf_locked c i p_blf tmout s =
     (let B = mpf s i; t = cur c s
      in if mpfid B = 0 then (knl_UnlockOBJ c i s, MRet E_NOEXS)
         else if frbcnt B \<le> 0
         then let s = upd_tcb t (\<lambda>T. T\<lparr>wspec := (if mpfatr B AND TA_TPRI \<noteq> 0 then Wspec_mpf_tpri else Wspec_mpf_tfifo),
                                      wercd := Some t, winfo := (winfo T)\<lparr>mpf_p_blf := p_blf\<rparr>\<rparr>) s;
                  s = knl_gcb_make_wait c (MpfQ i) (mpfid B) (mpfatr B) tmout s;
                  s = unlock_obj c i s
              in (END_CRITICAL_SECTION c s, if tmout = TMO_POL then MRet E_TMOUT else MWait)
         else let (blk, s) =
                (if freelist B \<noteq> 0
                 then (freelist B, upd_mpf i (freelist_update (\<lambda>_. ld32 (freelist B) (mem s))) s)
                 else (unused B, upd_mpf i (unused_update (\<lambda>u. u + word_of_int (blfsz B))) s));
                  s = s\<lparr>mem := st32 p_blf blk (mem s)\<rparr>;
                  s = upd_mpf i (frbcnt_update (\<lambda>n. n - 1)) s
              in (knl_UnlockOBJ c i s, MRet E_OK))"

definition tk_get_mpf :: "nat \<Rightarrow> int \<Rightarrow> UW \<Rightarrow> int \<Rightarrow> kstate \<Rightarrow> kstate \<times> mpf_ret" where
  "tk_get_mpf c xid p_blf tmout s =
     (if \<not> CHK_MPFID xid then (s, MRet E_ID)
      else if \<not> tmout \<ge> TMO_FEVR then (s, MRet E_PAR)
      else if in_ddsp c s then (s, MRet E_CTX)
      else let (s, got) = knl_LockOBJ c (get_mpfcb xid) s
           in if got then get_mpf_locked c (get_mpfcb xid) p_blf tmout s else (s, MLock))"

text \<open>The pointer difference in the check of the address is signed, as is the remainder.\<close>

definition rel_mpf_bad :: "mpfcb \<Rightarrow> UW \<Rightarrow> bool" where
  "rel_mpf_bad B blf \<longleftrightarrow> blf < mempool B \<or> blf \<ge> knl_mempool_end B \<or> sint (blf - mempool B) smod blfsz B \<noteq> 0"

definition rel_mpf_locked :: "nat \<Rightarrow> nat \<Rightarrow> UW \<Rightarrow> kstate \<Rightarrow> kstate \<times> mpf_ret" where
  "rel_mpf_locked c i blf s =
     (let B = mpf s i
      in if mpfid B = 0 then (knl_UnlockOBJ c i s, MRet E_NOEXS)
         else if rel_mpf_bad B blf then (knl_UnlockOBJ c i s, MRet E_PAR)
         else let s = (case que s (MpfQ i) of
                         t # _ \<Rightarrow>
                           knl_wait_release_ok c t (s\<lparr>mem := st32 (mpf_p_blf (winfo (tcb s t))) blf (mem s)\<rparr>)
                       | [] \<Rightarrow>
                           let s = s\<lparr>mem := st32 blf (freelist B) (mem s)\<rparr>
                           in upd_mpf i (\<lambda>B. B\<lparr>freelist := blf, frbcnt := frbcnt B + 1\<rparr>) s)
              in (knl_UnlockOBJ c i s, MRet E_OK))"

definition tk_rel_mpf :: "nat \<Rightarrow> int \<Rightarrow> UW \<Rightarrow> kstate \<Rightarrow> kstate \<times> mpf_ret" where
  "tk_rel_mpf c xid blf s =
     (if \<not> CHK_MPFID xid then (s, MRet E_ID)
      else if in_ddsp c s then (s, MRet E_CTX)
      else let (s, got) = knl_LockOBJ c (get_mpfcb xid) s
           in if got then rel_mpf_locked c (get_mpfcb xid) blf s else (s, MLock))"

record t_rmpf =
  rp_exinf :: UW
  rp_wtsk :: int
  rp_frbcnt :: int

definition ref_mpf_locked :: "nat \<Rightarrow> nat \<Rightarrow> kstate \<Rightarrow> kstate \<times> mpf_ret \<times> t_rmpf option" where
  "ref_mpf_locked c i s =
     (let B = mpf s i
      in if mpfid B = 0 then (knl_UnlockOBJ c i s, MRet E_NOEXS, None)
         else (knl_UnlockOBJ c i s, MRet E_OK,
               Some \<lparr>rp_exinf = mpf_exinf B, rp_wtsk = knl_wait_tskid (MpfQ i) s, rp_frbcnt = frbcnt B\<rparr>))"

definition tk_ref_mpf :: "nat \<Rightarrow> int \<Rightarrow> kstate \<Rightarrow> kstate \<times> mpf_ret \<times> t_rmpf option" where
  "tk_ref_mpf c xid s =
     (if \<not> CHK_MPFID xid then (s, MRet E_ID, None)
      else if in_ddsp c s then (s, MRet E_CTX, None)
      else let (s, got) = knl_LockOBJ c (get_mpfcb xid) s
           in if got then ref_mpf_locked c (get_mpfcb xid) s else (s, MLock, None))"

end
