(* ===== verification/Mempool.thy ===== *)
theory Mempool
  imports Wait_Object Example_State Imalloc
begin

text \<open>
  \<^verbatim>\<open>kernel/tkernel/mempool.c\<close>, \<^verbatim>\<open>mempool.h\<close>: variable-size memory pools, on the area lists of
  \<^verbatim>\<open>memory.h\<close>. The members of the control block from \<open>mplsz\<close> on are used as an \<open>IMACB\<close> and lie in memory at
  \<open>mplcb_at s i\<close>; \<open>areaque_end\<close> follows them. The first and the last area of a pool have their AreaQue
  node in the control block, so that they begin and end with the pool.
\<close>

subsection \<open>Areas of a pool\<close>

abbreviation (input) MAX_ALLOCATE :: int where "MAX_ALLOCATE \<equiv> 0x7FFFFFF8"

definition CHK_MPLID :: "int \<Rightarrow> bool" where
  "CHK_MPLID x \<longleftrightarrow> 1 \<le> x \<and> x \<le> int NUM_MPLID"

definition get_mplcb :: "int \<Rightarrow> nat" where "get_mplcb x = nat (x - 1)"

definition upd_mpl :: "nat \<Rightarrow> (mplcb \<Rightarrow> mplcb) \<Rightarrow> kstate \<Rightarrow> kstate" where
  "upd_mpl i f s = s\<lparr>mpl := (mpl s)(i := f (mpl s i))\<rparr>"

definition mpl_areaque_end :: "UW \<Rightarrow> UW" where "mpl_areaque_end ic = ic + 20"

definition knl_MaxFreeSize :: "memory \<Rightarrow> UW \<Rightarrow> int" where
  "knl_MaxFreeSize m ic =
     (if lnk_next m (im_freeque ic) = im_freeque ic then 0 else FreeSize m (lnk_prev m (im_freeque ic)))"

definition knl_memorypool_initialize :: "kstate \<Rightarrow> kstate" where
  "knl_memorypool_initialize s =
     fold (\<lambda>i s. let s = upd_mpl i (mplid_update (\<lambda>_. 0)) s in s\<lparr>free_mpl := free_mpl s @ [i]\<rparr>)
       [0..<NUM_MPLID] (s\<lparr>free_mpl := []\<rparr>)"

definition knl_appendFreeAreaBound :: "UW \<Rightarrow> UW \<Rightarrow> UW \<Rightarrow> memory \<Rightarrow> memory option" where
  "knl_appendFreeAreaBound ic pool aq m =
     (let t = (if aq = im_areaque ic then pool else aq + 8);
          e = (if lnk_next m aq = mpl_areaque_end ic then pool + word_of_int (im_memsz m ic) else lnk_next m aq);
          siz = sint (e - t)
      in do {
        fq \<leftarrow> knl_searchFreeArea m ic siz;
        let m = clrAreaFlag aq AREA_USE m;
        Some (if fq \<noteq> im_freeque ic \<and> FreeSize m fq = siz
              then let m = set_next (t + 8) (lnk_next m (fq + 8)) m;
                       m = set_next (fq + 8) (t + 8) m;
                       m = set_prev (t + 8) (fq + 8) m;
                       m = (if lnk_next m (t + 8) \<noteq> 0 then set_prev (lnk_next m (t + 8)) (t + 8) m else m)
                   in set_next t 0 m
              else let m = mQueInsert t fq m;
                       m = set_next (t + 8) 0 m
                   in set_prev (t + 8) (word_of_int siz) m)
      })"

definition knl_get_blk :: "UW \<Rightarrow> UW \<Rightarrow> int \<Rightarrow> memory \<Rightarrow> (memory \<times> UW) option" where
  "knl_get_blk ic pool blksz m = do {
     q \<leftarrow> knl_searchFreeArea m ic blksz;
     if q = im_freeque ic then Some (m, 0)
     else do {
       let m = knl_removeFreeQue q m;
       let aq = (if q = pool then im_areaque ic else q - 8);
       m \<leftarrow> (if (word_of_int (FreeSize m q) - word_of_int blksz :: UW) \<ge> word_of_int (MIN_FRAGMENT + 8)
             then let aq2 = q + word_of_int blksz;
                      m = knl_insertAreaQue aq aq2 m
                  in if lnk_next m aq2 = mpl_areaque_end ic then knl_appendFreeAreaBound ic pool aq2 m
                     else knl_appendFreeArea ic aq2 m
             else Some m);
       Some (setAreaFlag aq AREA_USE m, q)
     }
   }"

definition knl_rel_blk :: "UW \<Rightarrow> UW \<Rightarrow> UW \<Rightarrow> memory \<Rightarrow> (memory \<times> int) option" where
  "knl_rel_blk ic pool blk m =
     (let aq = (if blk = pool then im_areaque ic else blk - 8)
      in if \<not> chkAreaFlag aq AREA_USE m then Some (m, E_PAR)
         else let m = clrAreaFlag aq AREA_USE m;
                  m = (if \<not> chkAreaFlag (lnk_next m aq) AREA_USE m
                       then let m = knl_removeFreeQue (lnk_next m aq + 8) m
                            in knl_removeAreaQue (lnk_next m aq) m
                       else m);
                  (aq, m) = (if \<not> chkAreaFlag (lnk_prev m aq) AREA_USE m
                             then let aq = lnk_prev m aq;
                                      fq = (if aq = im_areaque ic then pool else aq + 8);
                                      m = knl_removeFreeQue fq m
                                  in (aq, knl_removeAreaQue (lnk_next m aq) m)
                             else (aq, m))
              in do {
                m \<leftarrow> (if aq = im_areaque ic \<or> lnk_next m aq = mpl_areaque_end ic
                      then knl_appendFreeAreaBound ic pool aq m
                      else knl_appendFreeArea ic aq m);
                Some (m, E_OK)
              })"

definition init_mempool :: "UW \<Rightarrow> UW \<Rightarrow> memory \<Rightarrow> memory option" where
  "init_mempool ic pool m =
     (let m = mQueInit (im_areaque ic) m;
          m = mQueInit (im_freeque ic) m;
          m = knl_insertAreaQue (im_areaque ic) (mpl_areaque_end ic) m;
          m = setAreaFlag (mpl_areaque_end ic) AREA_USE m
      in knl_appendFreeAreaBound ic pool (im_areaque ic) m)"

subsection \<open>Operations\<close>

text \<open>Every pass of the wakeup takes the head out of the wait queue.\<close>

primrec mpl_wakeup_loop :: "nat \<Rightarrow> nat \<Rightarrow> nat \<Rightarrow> kstate \<Rightarrow> kstate option" where
  "mpl_wakeup_loop 0 c i s = Some s"
| "mpl_wakeup_loop (Suc n) c i s =
     (case que s (MplQ i) of
        [] \<Rightarrow> Some s
      | u # _ \<Rightarrow>
          let blksz = mpl_blksz (winfo (tcb s u))
          in if blksz > knl_MaxFreeSize (mem s) (mplcb_at s i) then Some s
             else do {
               (m, blk) \<leftarrow> knl_get_blk (mplcb_at s i) (mpl_mempool (mpl s i)) blksz (mem s);
               mpl_wakeup_loop n c i
                 (knl_wait_release_ok c u (s\<lparr>mem := st32 (mpl_p_blk (winfo (tcb s u))) blk m\<rparr>))
             })"

definition knl_mpl_wakeup :: "nat \<Rightarrow> nat \<Rightarrow> kstate \<Rightarrow> kstate option" where
  "knl_mpl_wakeup c i s = mpl_wakeup_loop (length (que s (MplQ i))) c i s"

record t_cmpl =
  cl_exinf :: UW
  cl_mplatr :: UW
  cl_mplsz :: int
  cl_bufptr :: UW

definition cre_mpl_cs :: "nat \<Rightarrow> t_cmpl \<Rightarrow> int \<Rightarrow> UW \<Rightarrow> kstate \<Rightarrow> (kstate \<times> int) option" where
  "cre_mpl_cs c pk sz pool s = do {
     (s, ercd) \<leftarrow>
       (case free_mpl s of
          [] \<Rightarrow> Some (s, E_LIMIT)
        | i # rest \<Rightarrow> do {
            let s = upd_que (\<lambda>Q. Q(MplQ i := [])) (s\<lparr>free_mpl := rest\<rparr>);
            let s = upd_mpl i (\<lambda>B. B\<lparr>mplid := int i + 1, mpl_exinf := cl_exinf pk, mplatr := cl_mplatr pk,
                                    mpl_mempool := pool\<rparr>) s;
            m \<leftarrow> init_mempool (mplcb_at s i) pool (st32 (mplcb_at s i) (word_of_int sz) (mem s));
            Some (s\<lparr>mem := m\<rparr>, int i + 1)
          });
     Some (END_CRITICAL_SECTION c s, ercd)
   }"

definition tk_cre_mpl :: "nat \<Rightarrow> t_cmpl \<Rightarrow> kstate \<Rightarrow> (kstate \<times> int) option" where
  "tk_cre_mpl c pk s =
     (if cl_mplatr pk AND NOT (TA_TPRI OR 0x300 OR 0x20) \<noteq> 0 then Some (s, E_RSATR)
      else if \<not> (cl_mplsz pk > 0 \<and> cl_mplsz pk \<le> MAX_ALLOCATE) then Some (s, E_PAR)
      else if in_ddsp c s then Some (s, E_CTX)
      else
        let sz = roundSize (cl_mplsz pk); userbuf = cl_mplatr pk AND 0x20 \<noteq> 0
        in if userbuf \<and> sz \<noteq> cl_mplsz pk then Some (s, E_PAR)
           else do {
             (s, pool) \<leftarrow> (if userbuf then Some (s, cl_bufptr pk) else knl_Imalloc c sz s);
             if \<not> userbuf \<and> pool = 0 then Some (s, E_NOMEM)
             else do {
               (s, ercd) \<leftarrow> cre_mpl_cs c pk sz pool s;
               s \<leftarrow> (if ercd < E_OK \<and> \<not> userbuf then knl_Ifree c pool s else Some s);
               Some (s, ercd)
             }
           })"

definition del_mpl_cs :: "nat \<Rightarrow> nat \<Rightarrow> kstate \<Rightarrow> kstate \<times> UW \<times> UW \<times> int" where
  "del_mpl_cs c i s =
     (if mplid (mpl s i) = 0 then (END_CRITICAL_SECTION c s, 0, 0, E_NOEXS)
      else let pool = mpl_mempool (mpl s i); memattr = mplatr (mpl s i);
               s = knl_wait_delete c (MplQ i) s;
               s = s\<lparr>free_mpl := free_mpl s @ [i]\<rparr>;
               s = upd_mpl i (mplid_update (\<lambda>_. 0)) s
           in (END_CRITICAL_SECTION c s, pool, memattr, E_OK))"

definition tk_del_mpl :: "nat \<Rightarrow> int \<Rightarrow> kstate \<Rightarrow> (kstate \<times> int) option" where
  "tk_del_mpl c xid s =
     (if \<not> CHK_MPLID xid then Some (s, E_ID)
      else if in_ddsp c s then Some (s, E_CTX)
      else let (s, pool, memattr, ercd) = del_mpl_cs c (get_mplcb xid) s
           in do {
             s \<leftarrow> (if ercd = E_OK \<and> memattr AND 0x20 = 0 then knl_Ifree c pool s else Some s);
             Some (s, ercd)
           })"

definition mpl_chg_pri :: "nat \<Rightarrow> nat \<Rightarrow> int \<Rightarrow> kstate \<Rightarrow> kstate option" where
  "mpl_chg_pri c t oldpri s =
     (let i = get_mplcb (wid (tcb s t));
          s = (if oldpri \<ge> 0 then knl_gcb_change_priority (MplQ i) t s else s)
      in knl_mpl_wakeup c i s)"

definition mpl_rel_wai :: "nat \<Rightarrow> nat \<Rightarrow> kstate \<Rightarrow> kstate option" where
  "mpl_rel_wai c t s = mpl_chg_pri c t (- 1) s"

definition get_mpl_cs :: "nat \<Rightarrow> nat \<Rightarrow> int \<Rightarrow> UW \<Rightarrow> int \<Rightarrow> kstate \<Rightarrow> (kstate \<times> sysret) option" where
  "get_mpl_cs c i blksz p_blk tmout s =
     (let B = mpl s i; t = cur c s; ic = mplcb_at s i
      in if mplid B = 0 then Some (s, Ret E_NOEXS)
         else if blksz > im_memsz (mem s) ic then Some (s, Ret E_PAR)
         else do {
           (m, blk) \<leftarrow> (if knl_gcb_top_of_wait_queue (MplQ i) (mplatr B) t s = t
                        then knl_get_blk ic (mpl_mempool B) blksz (mem s) else Some (mem s, 0));
           Some (if blk \<noteq> 0 then (s\<lparr>mem := st32 p_blk blk m\<rparr>, Ret E_OK)
                 else let s = upd_tcb t (\<lambda>T. T\<lparr>
                            wspec := (if mplatr B AND TA_TPRI \<noteq> 0 then Wspec_mpl_tpri else Wspec_mpl_tfifo),
                            wercd := Some t, winfo := (winfo T)\<lparr>mpl_blksz := blksz, mpl_p_blk := p_blk\<rparr>\<rparr>) (s\<lparr>mem := m\<rparr>)
                      in (knl_gcb_make_wait c (MplQ i) (mplid B) (mplatr B) tmout s,
                          if tmout = TMO_POL then Ret E_TMOUT else Blocked))
         })"

definition tk_get_mpl :: "nat \<Rightarrow> int \<Rightarrow> int \<Rightarrow> UW \<Rightarrow> int \<Rightarrow> kstate \<Rightarrow> (kstate \<times> sysret) option" where
  "tk_get_mpl c xid blksz p_blk tmout s =
     (if \<not> CHK_MPLID xid then Some (s, Ret E_ID)
      else if \<not> (blksz > 0 \<and> blksz \<le> MAX_ALLOCATE) then Some (s, Ret E_PAR)
      else if \<not> tmout \<ge> TMO_FEVR then Some (s, Ret E_PAR)
      else if in_ddsp c s then Some (s, Ret E_CTX)
      else do {
        (s, r) \<leftarrow> get_mpl_cs c (get_mplcb xid) (roundSize blksz) p_blk tmout s;
        Some (END_CRITICAL_SECTION c s, r)
      })"

definition rel_mpl_cs :: "nat \<Rightarrow> nat \<Rightarrow> UW \<Rightarrow> kstate \<Rightarrow> (kstate \<times> int) option" where
  "rel_mpl_cs c i blk s =
     (let B = mpl s i; ic = mplcb_at s i
      in if mplid B = 0 then Some (s, E_NOEXS)
         else if blk < mpl_mempool B \<or> blk > mpl_mempool B + word_of_int (im_memsz (mem s) ic) then Some (s, E_PAR)
         else do {
           (m, ercd) \<leftarrow> knl_rel_blk ic (mpl_mempool B) blk (mem s);
           if ercd < E_OK then Some (s\<lparr>mem := m\<rparr>, ercd)
           else do {
             s \<leftarrow> knl_mpl_wakeup c i (s\<lparr>mem := m\<rparr>);
             Some (s, ercd)
           }
         })"

definition tk_rel_mpl :: "nat \<Rightarrow> int \<Rightarrow> UW \<Rightarrow> kstate \<Rightarrow> (kstate \<times> int) option" where
  "tk_rel_mpl c xid blk s =
     (if \<not> CHK_MPLID xid then Some (s, E_ID)
      else if in_ddsp c s then Some (s, E_CTX)
      else do {
        (s, ercd) \<leftarrow> rel_mpl_cs c (get_mplcb xid) blk s;
        Some (END_CRITICAL_SECTION c s, ercd)
      })"

text \<open>The two loops of \<open>tk_ref_mpl\<close>; the sums are 32-bit.\<close>

partial_function (option) ref_same :: "memory \<Rightarrow> int \<Rightarrow> UW \<Rightarrow> UW \<Rightarrow> UW option" where
  "ref_same m blksz q frsz =
     (if q = 0 then Some frsz else ref_same m blksz (lnk_next m q) (frsz + word_of_int blksz))"

partial_function (option) ref_free :: "memory \<Rightarrow> UW \<Rightarrow> UW \<Rightarrow> UW \<Rightarrow> UW option" where
  "ref_free m h fq frsz =
     (if fq = h then Some frsz
      else do {
        let blksz = FreeSize m fq;
        frsz \<leftarrow> ref_same m blksz (lnk_next m (fq + 8)) (frsz + word_of_int blksz);
        ref_free m h (lnk_next m fq) frsz
      })"

record t_rmpl =
  rl_exinf :: UW
  rl_wtsk :: int
  rl_frsz :: int
  rl_maxsz :: int

definition tk_ref_mpl :: "nat \<Rightarrow> int \<Rightarrow> kstate \<Rightarrow> (kstate \<times> int \<times> t_rmpl option) option" where
  "tk_ref_mpl c xid s =
     (if \<not> CHK_MPLID xid then Some (s, E_ID, None)
      else if in_ddsp c s then Some (s, E_CTX, None)
      else
        let i = get_mplcb xid; B = mpl s i; ic = mplcb_at s i; h = im_freeque ic
        in if mplid B = 0 then Some (END_CRITICAL_SECTION c s, E_NOEXS, None)
           else do {
             frsz \<leftarrow> ref_free (mem s) h (lnk_next (mem s) h) 0;
             Some (END_CRITICAL_SECTION c s, E_OK,
                   Some \<lparr>rl_exinf = mpl_exinf B, rl_wtsk = knl_wait_tskid (MplQ i) s, rl_frsz = sint frsz,
                         rl_maxsz = knl_MaxFreeSize (mem s) ic\<rparr>)
           })"

end
