(* ===== verification/Mutex.thy ===== *)
theory Mutex
  imports Semaphore Eventflag Mailbox Msgbuf Mempfix Mempool
begin

text \<open>
  \<^verbatim>\<open>kernel/tkernel/mutex.c\<close>, \<^verbatim>\<open>mutex.h\<close>, with the operations that reach every kind of object through the
  hooks of the wait specifications: \<open>knl_change_task_priority\<close> of \<^verbatim>\<open>task.c\<close>, and \<open>knl_wait_release_ng\<close> and
  \<open>knl_wait_release_tmout\<close> of \<^verbatim>\<open>wait.c\<close>. A change of a priority can raise or reset the priority of the
  owner of the mutex that the task waits for, and so on along the chain of owners; the definitions carry
  fuel for this recursion and for the walks along a list of locked mutexes, and an exhausted fuel or a
  NULL owner sets \<open>fault\<close>.
\<close>

subsection \<open>Wait specifications\<close>

text \<open>The members of the constant \<open>WSPEC\<close> objects.\<close>

primrec tskwait :: "wspec \<Rightarrow> UW" where
  "tskwait Wspec_slp = 1"
| "tskwait Wspec_dly = 2"
| "tskwait Wspec_sem_tfifo = 4"
| "tskwait Wspec_sem_tpri = 4"
| "tskwait Wspec_flg_tfifo = 8"
| "tskwait Wspec_flg_tpri = 8"
| "tskwait Wspec_mbx_tfifo = 0x40"
| "tskwait Wspec_mbx_tpri = 0x40"
| "tskwait Wspec_mtx_tfifo = 0x80"
| "tskwait Wspec_mtx_tpri = 0x80"
| "tskwait Wspec_mtx_inherit = 0x80"
| "tskwait Wspec_smbf_tfifo = 0x100"
| "tskwait Wspec_smbf_tpri = 0x100"
| "tskwait Wspec_rmbf = 0x200"
| "tskwait Wspec_mpl_tfifo = 0x4000"
| "tskwait Wspec_mpl_tpri = 0x4000"
| "tskwait Wspec_mpf_tfifo = 0x2000"
| "tskwait Wspec_mpf_tpri = 0x2000"

primrec chg_pri_hook :: "wspec \<Rightarrow> chg_pri_hook option" where
  "chg_pri_hook Wspec_slp = None"
| "chg_pri_hook Wspec_dly = None"
| "chg_pri_hook Wspec_sem_tfifo = None"
| "chg_pri_hook Wspec_sem_tpri = Some Sem_chg_pri"
| "chg_pri_hook Wspec_flg_tfifo = None"
| "chg_pri_hook Wspec_flg_tpri = Some Flg_chg_pri"
| "chg_pri_hook Wspec_mbx_tfifo = None"
| "chg_pri_hook Wspec_mbx_tpri = Some Mbx_chg_pri"
| "chg_pri_hook Wspec_mtx_tfifo = None"
| "chg_pri_hook Wspec_mtx_tpri = Some Mtx_chg_pri"
| "chg_pri_hook Wspec_mtx_inherit = Some Mtx_chg_pri"
| "chg_pri_hook Wspec_smbf_tfifo = None"
| "chg_pri_hook Wspec_smbf_tpri = Some Mbf_chg_pri"
| "chg_pri_hook Wspec_rmbf = None"
| "chg_pri_hook Wspec_mpl_tfifo = None"
| "chg_pri_hook Wspec_mpl_tpri = Some Mpl_chg_pri"
| "chg_pri_hook Wspec_mpf_tfifo = None"
| "chg_pri_hook Wspec_mpf_tpri = Some Mpf_chg_pri"

primrec rel_wai_hook :: "wspec \<Rightarrow> rel_wai_hook option" where
  "rel_wai_hook Wspec_slp = None"
| "rel_wai_hook Wspec_dly = None"
| "rel_wai_hook Wspec_sem_tfifo = Some Sem_rel_wai"
| "rel_wai_hook Wspec_sem_tpri = Some Sem_rel_wai"
| "rel_wai_hook Wspec_flg_tfifo = None"
| "rel_wai_hook Wspec_flg_tpri = None"
| "rel_wai_hook Wspec_mbx_tfifo = None"
| "rel_wai_hook Wspec_mbx_tpri = None"
| "rel_wai_hook Wspec_mtx_tfifo = None"
| "rel_wai_hook Wspec_mtx_tpri = None"
| "rel_wai_hook Wspec_mtx_inherit = Some Mtx_rel_wai"
| "rel_wai_hook Wspec_smbf_tfifo = Some Mbf_rel_wai"
| "rel_wai_hook Wspec_smbf_tpri = Some Mbf_rel_wai"
| "rel_wai_hook Wspec_rmbf = None"
| "rel_wai_hook Wspec_mpl_tfifo = Some Mpl_rel_wai"
| "rel_wai_hook Wspec_mpl_tpri = Some Mpl_rel_wai"
| "rel_wai_hook Wspec_mpf_tfifo = None"
| "rel_wai_hook Wspec_mpf_tpri = None"

subsection \<open>Mutex control blocks\<close>

abbreviation (input) TA_INHERIT :: UW where "TA_INHERIT \<equiv> 2"
abbreviation (input) TA_CEILING :: UW where "TA_CEILING \<equiv> 3"

definition CHK_MTXID :: "int \<Rightarrow> bool" where
  "CHK_MTXID x \<longleftrightarrow> 1 \<le> x \<and> x \<le> int NUM_MTXID"

definition CHK_PRI :: "int \<Rightarrow> bool" where
  "CHK_PRI p \<longleftrightarrow> MIN_TSKPRI \<le> p \<and> p \<le> int NUM_TSKPRI"

definition get_mtxcb :: "int \<Rightarrow> nat" where "get_mtxcb x = nat (x - 1)"

definition upd_mtx :: "nat \<Rightarrow> (mtxcb \<Rightarrow> mtxcb) \<Rightarrow> kstate \<Rightarrow> kstate" where
  "upd_mtx i f s = s\<lparr>mtx := (mtx s)(i := f (mtx s i))\<rparr>"

definition mtx_waited :: "nat \<Rightarrow> kstate \<Rightarrow> bool" where
  "mtx_waited i s \<longleftrightarrow> que s (MtxQ i) \<noteq> []"

definition mtx_head_pri :: "nat \<Rightarrow> kstate \<Rightarrow> nat" where
  "mtx_head_pri i s = priority (tcb s (hd (que s (MtxQ i))))"

definition knl_mutex_initialize :: "kstate \<Rightarrow> kstate" where
  "knl_mutex_initialize s =
     fold (\<lambda>i s. let s = upd_mtx i (mtxid_update (\<lambda>_. 0)) s in s\<lparr>free_mtx := free_mtx s @ [i]\<rparr>)
       [0..<NUM_MTXID] (s\<lparr>free_mtx := []\<rparr>)"

text \<open>
  The pointer \<open>prev\<close> of \<open>knl_release_mutex\<close> points to the \<open>mtxlist\<close> member of the TCB (\<open>None\<close>) or of a
  mutex (\<open>Some m\<close>). The loop unlinks \<open>relmtxcb\<close> and computes the priority that the task is left with.
\<close>

definition get_prev :: "nat \<Rightarrow> nat option \<Rightarrow> kstate \<Rightarrow> nat option" where
  "get_prev t p s = (case p of None \<Rightarrow> mtxlist (tcb s t) | Some m \<Rightarrow> mtx_next (mtx s m))"

definition set_prev_list :: "nat \<Rightarrow> nat option \<Rightarrow> nat option \<Rightarrow> kstate \<Rightarrow> kstate" where
  "set_prev_list t p v s =
     (case p of None \<Rightarrow> upd_tcb t (mtxlist_update (\<lambda>_. v)) s | Some m \<Rightarrow> upd_mtx m (mtx_next_update (\<lambda>_. v)) s)"

definition mtx_pri :: "nat \<Rightarrow> nat \<Rightarrow> kstate \<Rightarrow> nat" where
  "mtx_pri m pri s =
     (if mtxatr (mtx s m) AND TA_CEILING = TA_CEILING then ceilpri (mtx s m)
      else if mtxatr (mtx s m) AND TA_CEILING = TA_INHERIT
      then if mtx_waited m s then mtx_head_pri m s else pri
      else pri)"

primrec release_loop ::
  "nat \<Rightarrow> nat \<Rightarrow> nat option \<Rightarrow> nat option \<Rightarrow> nat \<Rightarrow> nat \<Rightarrow> kstate \<Rightarrow> kstate \<times> nat" where
  "release_loop 0 t rel p newpri pri s = (s\<lparr>fault := True\<rparr>, newpri)"
| "release_loop (Suc n) t rel p newpri pri s =
     (case get_prev t p s of
        None \<Rightarrow> (s, newpri)
      | Some m \<Rightarrow>
          if rel = Some m
          then release_loop n t rel p newpri pri (set_prev_list t p (mtx_next (mtx s m)) s)
          else let pri = mtx_pri m pri s;
                   newpri = (if newpri > pri then pri else newpri)
               in release_loop n t rel (Some m) newpri pri s)"

text \<open>A list of locked mutexes has at most \<open>NUM_MTXID\<close> members; the last pass finds its end.\<close>

abbreviation (input) MTX_FUEL :: nat where "MTX_FUEL \<equiv> Suc NUM_MTXID"

definition release_mutex :: "(nat \<Rightarrow> nat \<Rightarrow> kstate \<Rightarrow> kstate) \<Rightarrow> nat \<Rightarrow> nat option \<Rightarrow> kstate \<Rightarrow> kstate" where
  "release_mutex chg t rel s =
     (let p = bpriority (tcb s t); (s, newpri) = release_loop MTX_FUEL t rel None p p s
      in if newpri \<noteq> priority (tcb s t) then chg t newpri s else s)"

subsection \<open>Change of a task priority, and the hooks\<close>

definition mtx_chg_pri :: "(nat \<Rightarrow> nat \<Rightarrow> kstate \<Rightarrow> kstate) \<Rightarrow> nat \<Rightarrow> int \<Rightarrow> kstate \<Rightarrow> kstate" where
  "mtx_chg_pri chg t oldpri s =
     (let i = get_mtxcb (wid (tcb s t));
          s = knl_gcb_change_priority (MtxQ i) t s
      in if mtxatr (mtx s i) AND TA_CEILING = TA_INHERIT
         then case mtxtsk (mtx s i) of
                None \<Rightarrow> s\<lparr>fault := True\<rparr>
              | Some u \<Rightarrow>
                  if priority (tcb s u) > priority (tcb s t) then chg u (priority (tcb s t)) s
                  else if int (priority (tcb s u)) = oldpri then release_mutex chg u None s
                  else s
         else s)"

text \<open>A hook of the memory pools that does not return is a fault.\<close>

definition returned :: "kstate \<Rightarrow> kstate option \<Rightarrow> kstate" where
  "returned s r = (case r of Some s' \<Rightarrow> s' | None \<Rightarrow> s\<lparr>fault := True\<rparr>)"

definition call_chg_pri ::
  "(nat \<Rightarrow> nat \<Rightarrow> kstate \<Rightarrow> kstate) \<Rightarrow> nat \<Rightarrow> chg_pri_hook \<Rightarrow> nat \<Rightarrow> int \<Rightarrow> kstate \<Rightarrow> kstate" where
  "call_chg_pri chg c h t oldpri s =
     (case h of
        Sem_chg_pri \<Rightarrow> sem_chg_pri c t oldpri s
      | Flg_chg_pri \<Rightarrow> flg_chg_pri t oldpri s
      | Mbx_chg_pri \<Rightarrow> mbx_chg_pri t oldpri s
      | Mtx_chg_pri \<Rightarrow> mtx_chg_pri chg t oldpri s
      | Mbf_chg_pri \<Rightarrow> knl_mbf_chg_pri c t oldpri s
      | Mpl_chg_pri \<Rightarrow> returned s (mpl_chg_pri c t oldpri s)
      | Mpf_chg_pri \<Rightarrow> knl_mpf_chg_pri t oldpri s)"

primrec change_task_priority :: "nat \<Rightarrow> nat \<Rightarrow> nat \<Rightarrow> nat \<Rightarrow> kstate \<Rightarrow> kstate" where
  "change_task_priority 0 c t pri s = s\<lparr>fault := True\<rparr>"
| "change_task_priority (Suc n) c t pri s =
     (if state (tcb s t) = TS_READY
      then let s = knl_ready_queue_delete t s;
               s = upd_tcb t (priority_update (\<lambda>_. pri)) s;
               s = fst (knl_ready_queue_insert t s)
           in knl_reschedule c s
      else let oldpri = priority (tcb s t);
               s = upd_tcb t (priority_update (\<lambda>_. pri)) s
           in case chg_pri_hook (wspec (tcb s t)) of
                Some h \<Rightarrow> if in_wait (state (tcb s t)) then call_chg_pri (change_task_priority n c) c h t (int oldpri) s else s
              | None \<Rightarrow> s)"

text \<open>
  The bound on the recursion. A chain of changes passes through every task at most once with falling and at most once with
  rising priorities, so \<open>2 * NUM_TSKID + 2\<close> levels are enough: \<open>change_priority_returns\<close> in theory \<open>Mutex_Props\<close>.
  The bound chosen here is above that.
\<close>

definition CHG_FUEL :: nat where "CHG_FUEL = NUM_TSKID * NUM_TSKPRI + NUM_TSKID + 2"

definition knl_change_task_priority :: "nat \<Rightarrow> nat \<Rightarrow> nat \<Rightarrow> kstate \<Rightarrow> kstate" where
  "knl_change_task_priority c t pri s = change_task_priority CHG_FUEL c t pri s"

definition knl_release_mutex :: "nat \<Rightarrow> nat \<Rightarrow> nat option \<Rightarrow> kstate \<Rightarrow> kstate" where
  "knl_release_mutex c t rel s = release_mutex (knl_change_task_priority c) t rel s"

definition mtx_rel_wai :: "nat \<Rightarrow> nat \<Rightarrow> kstate \<Rightarrow> kstate" where
  "mtx_rel_wai c t s =
     (case mtxtsk (mtx s (get_mtxcb (wid (tcb s t)))) of
        None \<Rightarrow> s\<lparr>fault := True\<rparr>
      | Some u \<Rightarrow> if priority (tcb s u) = priority (tcb s t) then knl_release_mutex c u None s else s)"

definition call_rel_wai :: "nat \<Rightarrow> nat \<Rightarrow> kstate \<Rightarrow> kstate" where
  "call_rel_wai c t s =
     (case rel_wai_hook (wspec (tcb s t)) of
        None \<Rightarrow> s
      | Some Sem_rel_wai \<Rightarrow> sem_rel_wai c t s
      | Some Mtx_rel_wai \<Rightarrow> mtx_rel_wai c t s
      | Some Mbf_rel_wai \<Rightarrow> knl_mbf_rel_wai c t s
      | Some Mpl_rel_wai \<Rightarrow> returned s (mpl_rel_wai c t s))"

definition knl_wait_release_ng :: "nat \<Rightarrow> nat \<Rightarrow> int \<Rightarrow> kstate \<Rightarrow> kstate" where
  "knl_wait_release_ng c t e s =
     (let s = set_wercd t e s;
          s = knl_wait_release c t s;
          s = call_rel_wai c t s
      in knl_note_wake_race c t s)"

definition knl_wait_release_tmout :: "nat \<Rightarrow> nat \<Rightarrow> kstate \<Rightarrow> kstate" where
  "knl_wait_release_tmout c t s =
     (let s = upd_que (q_remove t) s;
          s = knl_make_non_wait c t s
      in call_rel_wai c t s)"

subsection \<open>The mutexes of a task\<close>

text \<open>The new owner of a mutex: the head of its queue, or nobody.\<close>

definition give_mutex :: "nat \<Rightarrow> nat \<Rightarrow> kstate \<Rightarrow> kstate" where
  "give_mutex c m s =
     (case que s (MtxQ m) of
        [] \<Rightarrow> upd_mtx m (mtxtsk_update (\<lambda>_. None)) s
      | u # _ \<Rightarrow>
          let s = knl_wait_release_ok c u s;
              s = upd_mtx m (\<lambda>M. M\<lparr>mtxtsk := Some u, mtx_next := mtxlist (tcb s u)\<rparr>) s;
              s = upd_tcb u (mtxlist_update (\<lambda>_. Some m)) s
          in if mtxatr (mtx s m) AND TA_CEILING = TA_CEILING \<and> priority (tcb s u) > ceilpri (mtx s m)
             then knl_change_task_priority c u (ceilpri (mtx s m)) s else s)"

primrec signal_all_loop :: "nat \<Rightarrow> nat \<Rightarrow> nat option \<Rightarrow> kstate \<Rightarrow> kstate" where
  "signal_all_loop 0 c nxt s = s\<lparr>fault := True\<rparr>"
| "signal_all_loop (Suc n) c nxt s =
     (case nxt of
        None \<Rightarrow> s
      | Some m \<Rightarrow> let nxt = mtx_next (mtx s m) in signal_all_loop n c nxt (give_mutex c m s))"

definition knl_signal_all_mutex :: "nat \<Rightarrow> nat \<Rightarrow> kstate \<Rightarrow> kstate" where
  "knl_signal_all_mutex c t s = signal_all_loop MTX_FUEL c (mtxlist (tcb s t)) s"

primrec chg_pri_loop :: "nat \<Rightarrow> nat option \<Rightarrow> nat \<Rightarrow> nat \<Rightarrow> nat \<Rightarrow> kstate \<Rightarrow> (nat \<times> nat) option" where
  "chg_pri_loop 0 nxt hi_pri low_pri pri s = None"
| "chg_pri_loop (Suc n) nxt hi_pri low_pri pri s =
     (case nxt of
        None \<Rightarrow> Some (hi_pri, low_pri)
      | Some m \<Rightarrow>
          let low_pri = (if mtxatr (mtx s m) AND TA_CEILING = TA_CEILING \<and> ceilpri (mtx s m) > low_pri
                         then ceilpri (mtx s m) else low_pri);
              pri = mtx_pri m pri s;
              hi_pri = (if pri < hi_pri then pri else hi_pri)
          in chg_pri_loop n (mtx_next (mtx s m)) hi_pri low_pri pri s)"

definition knl_chg_pri_mutex :: "nat \<Rightarrow> nat \<Rightarrow> kstate \<Rightarrow> int option" where
  "knl_chg_pri_mutex t pri s =
     (let T = tcb s t;
          low_pri = int_priority MIN_TSKPRI;
          low_pri = (if in_wait (state T) \<and> tskwait (wspec T) AND 0x80 \<noteq> 0
                     then let M = mtx s (get_mtxcb (wid T))
                          in if mtxatr M AND TA_CEILING = TA_CEILING \<and> ceilpri M > low_pri then ceilpri M else low_pri
                     else low_pri)
      in case chg_pri_loop MTX_FUEL (mtxlist T) pri low_pri pri s of
           None \<Rightarrow> None
         | Some (hi_pri, low_pri) \<Rightarrow> Some (if pri < low_pri then E_ILUSE else int hi_pri))"

subsection \<open>System calls\<close>

record t_cmtx =
  cx_exinf :: UW
  cx_mtxatr :: UW
  cx_ceilpri :: int

definition tk_cre_mtx :: "nat \<Rightarrow> t_cmtx \<Rightarrow> kstate \<Rightarrow> kstate \<times> int" where
  "tk_cre_mtx c pk s =
     (if cx_mtxatr pk AND NOT TA_CEILING \<noteq> 0 then (s, E_RSATR)
      else if cx_mtxatr pk AND TA_CEILING = TA_CEILING \<and> \<not> CHK_PRI (cx_ceilpri pk) then (s, E_PAR)
      else
        let cpri = (if cx_mtxatr pk AND TA_CEILING = TA_CEILING then int_priority (cx_ceilpri pk) else 0);
            (s, e) =
              (case free_mtx s of
                 [] \<Rightarrow> (s, E_LIMIT)
               | i # rest \<Rightarrow>
                   (upd_mtx i (\<lambda>M. M\<lparr>mtxid := int i + 1, mtx_exinf := cx_exinf pk, mtxatr := cx_mtxatr pk,
                                     ceilpri := cpri, mtxtsk := None, mtx_next := None\<rparr>)
                      (upd_que (\<lambda>Q. Q(MtxQ i := [])) (s\<lparr>free_mtx := rest\<rparr>)), int i + 1))
        in (END_CRITICAL_SECTION c s, e))"

definition tk_del_mtx :: "nat \<Rightarrow> int \<Rightarrow> kstate \<Rightarrow> kstate \<times> int" where
  "tk_del_mtx c xid s =
     (if \<not> CHK_MTXID xid then (s, E_ID)
      else
        let i = get_mtxcb xid
        in if mtxid (mtx s i) = 0 then (END_CRITICAL_SECTION c s, E_NOEXS)
           else let s = (case mtxtsk (mtx s i) of None \<Rightarrow> s | Some u \<Rightarrow> knl_release_mutex c u (Some i) s);
                    s = knl_wait_delete c (MtxQ i) s;
                    s = s\<lparr>free_mtx := free_mtx s @ [i]\<rparr>;
                    s = upd_mtx i (mtxid_update (\<lambda>_. 0)) s
                in (END_CRITICAL_SECTION c s, E_OK))"

definition loc_mtx_cs :: "nat \<Rightarrow> nat \<Rightarrow> int \<Rightarrow> kstate \<Rightarrow> kstate \<times> sysret" where
  "loc_mtx_cs c i tmout s =
     (let t = cur c s; M = mtx s i; atr = mtxatr M AND TA_CEILING
      in if mtxid M = 0 then (s, Ret E_NOEXS)
         else if mtxtsk M = Some t then (s, Ret E_ILUSE)
         else if atr = TA_CEILING \<and> bpriority (tcb s t) < ceilpri M then (s, Ret E_ILUSE)
         else case mtxtsk M of
                None \<Rightarrow>
                  let s = upd_mtx i (\<lambda>M. M\<lparr>mtxtsk := Some t, mtx_next := mtxlist (tcb s t)\<rparr>) s;
                      s = upd_tcb t (mtxlist_update (\<lambda>_. Some i)) s
                  in (if atr = TA_CEILING \<and> priority (tcb s t) > ceilpri M
                      then knl_change_task_priority c t (ceilpri M) s else s, Ret E_OK)
              | Some u \<Rightarrow>
                  if tmout = TMO_POL then (s, Ret E_TMOUT)
                  else
                    let s = (if atr = TA_INHERIT \<and> priority (tcb s u) > priority (tcb s t)
                             then knl_change_task_priority c u (priority (tcb s t)) s else s);
                        s = upd_tcb t (\<lambda>T. T\<lparr>
                              wspec := (if atr = 0 then Wspec_mtx_tfifo
                                        else if atr = TA_INHERIT then Wspec_mtx_inherit else Wspec_mtx_tpri),
                              wercd := Some t, wid := mtxid M\<rparr>) s;
                        s = s\<lparr>ercd := (ercd s)(t := E_TMOUT)\<rparr>;
                        s = knl_make_wait c tmout s
                    in (if atr = 0 then upd_que (q_insert t (MtxQ i)) s else knl_queue_insert_tpri t (MtxQ i) s, Blocked))"

definition tk_loc_mtx :: "nat \<Rightarrow> int \<Rightarrow> int \<Rightarrow> kstate \<Rightarrow> kstate \<times> sysret" where
  "tk_loc_mtx c xid tmout s =
     (if \<not> CHK_MTXID xid then (s, Ret E_ID)
      else if \<not> tmout \<ge> TMO_FEVR then (s, Ret E_PAR)
      else if in_ddsp c s then (s, Ret E_CTX)
      else let (s, r) = loc_mtx_cs c (get_mtxcb xid) tmout s
           in (END_CRITICAL_SECTION c s, r))"

definition unl_mtx_cs :: "nat \<Rightarrow> nat \<Rightarrow> kstate \<Rightarrow> kstate \<times> int" where
  "unl_mtx_cs c i s =
     (if mtxid (mtx s i) = 0 then (s, E_NOEXS)
      else if mtxtsk (mtx s i) \<noteq> Some (cur c s) then (s, E_ILUSE)
      else (give_mutex c i (knl_release_mutex c (cur c s) (Some i) s), E_OK))"

definition tk_unl_mtx :: "nat \<Rightarrow> int \<Rightarrow> kstate \<Rightarrow> kstate \<times> int" where
  "tk_unl_mtx c xid s =
     (if \<not> CHK_MTXID xid then (s, E_ID)
      else if in_indp c s then (s, E_CTX)
      else let (s, r) = unl_mtx_cs c (get_mtxcb xid) s
           in (END_CRITICAL_SECTION c s, r))"

record t_rmtx =
  rx_exinf :: UW
  rx_htsk :: int
  rx_wtsk :: int

definition tk_ref_mtx :: "nat \<Rightarrow> int \<Rightarrow> kstate \<Rightarrow> kstate \<times> int \<times> t_rmtx option" where
  "tk_ref_mtx c xid s =
     (if \<not> CHK_MTXID xid then (s, E_ID, None)
      else
        let i = get_mtxcb xid; M = mtx s i
        in if mtxid M = 0 then (END_CRITICAL_SECTION c s, E_NOEXS, None)
           else (END_CRITICAL_SECTION c s, E_OK,
                 Some \<lparr>rx_exinf = mtx_exinf M, rx_htsk = (case mtxtsk M of Some u \<Rightarrow> tskid (tcb s u) | None \<Rightarrow> 0),
                       rx_wtsk = knl_wait_tskid (MtxQ i) s\<rparr>))"

end
