(* ===== verification/Time_Calls.thy ===== *)
theory Time_Calls
  imports Mutex "HOL-Library.Multiset"
begin

text \<open>
  \<^verbatim>\<open>kernel/tkernel/time_calls.c\<close>, \<^verbatim>\<open>time_calls.h\<close> and the interrupt side of \<^verbatim>\<open>timer.c\<close>, \<^verbatim>\<open>timer.h\<close>: the
  system time, the cyclic and alarm handlers, their queues per core and the timer interrupt. The event
  block of cyclic handler \<open>i\<close> is \<open>TmCyc i\<close>, that of alarm handler \<open>i\<close> is \<open>TmAlm i\<close>; a handler is
  unregistered when its address is 0.
\<close>

subsection \<open>System time\<close>

record systim =
  tim_hi :: int
  tim_lo :: UW

definition knl_toLSYSTIM :: "systim \<Rightarrow> LSYSTIM" where
  "knl_toLSYSTIM t = push_bit 32 (word_of_int (tim_hi t)) OR ucast (tim_lo t)"

definition knl_toSYSTIM :: "LSYSTIM \<Rightarrow> systim" where
  "knl_toSYSTIM t = \<lparr>tim_hi = sint (ucast (signed_drop_bit 32 t) :: UW), tim_lo = ucast t\<rparr>"

abbreviation (input) DIFF_TRON_UTC :: LSYSTIM where "DIFF_TRON_UTC \<equiv> 473385600000"

abbreviation upd_tmr :: "(tmr \<Rightarrow> tmr) \<Rightarrow> kstate \<Rightarrow> kstate" where
  "upd_tmr f s \<equiv> s\<lparr>tmr := f (tmr s)\<rparr>"

definition tk_set_utc :: "nat \<Rightarrow> systim \<Rightarrow> kstate \<Rightarrow> kstate \<times> int" where
  "tk_set_utc c pk s =
     (if \<not> tim_hi pk \<ge> 0 then (s, E_PAR)
      else (END_CRITICAL_SECTION c
              (upd_tmr (\<lambda>m. m\<lparr>real_time_ofs := knl_toLSYSTIM pk - current_time m\<rparr>) s), E_OK))"

definition tk_get_utc :: "nat \<Rightarrow> kstate \<Rightarrow> kstate \<times> int \<times> systim" where
  "tk_get_utc c s =
     (let tim = knl_toSYSTIM (current_time (tmr s) + real_time_ofs (tmr s))
      in (END_CRITICAL_SECTION c s, E_OK, tim))"

definition tk_set_tim :: "nat \<Rightarrow> systim \<Rightarrow> kstate \<Rightarrow> kstate \<times> int" where
  "tk_set_tim c pk s =
     (if \<not> tim_hi pk \<ge> 0 then (s, E_PAR)
      else let utc_time = knl_toLSYSTIM pk + DIFF_TRON_UTC
           in (END_CRITICAL_SECTION c
                 (upd_tmr (\<lambda>m. m\<lparr>real_time_ofs := utc_time - current_time m\<rparr>) s), E_OK))"

definition tk_get_tim :: "nat \<Rightarrow> kstate \<Rightarrow> kstate \<times> int \<times> systim" where
  "tk_get_tim c s =
     (let utc_time = current_time (tmr s) + real_time_ofs (tmr s)
      in (END_CRITICAL_SECTION c s, E_OK, knl_toSYSTIM (utc_time - DIFF_TRON_UTC)))"

definition tk_get_otm :: "nat \<Rightarrow> kstate \<Rightarrow> kstate \<times> int \<times> systim" where
  "tk_get_otm c s = (END_CRITICAL_SECTION c s, E_OK, knl_toSYSTIM (current_time (tmr s)))"

subsection \<open>Control blocks\<close>

abbreviation (input) TA_STA :: UW where "TA_STA \<equiv> 2"
abbreviation (input) TA_PHS :: UW where "TA_PHS \<equiv> 4"
abbreviation (input) TA_ASSPRC :: UW where "TA_ASSPRC \<equiv> 0x10000"
abbreviation (input) TP_PRC2 :: UW where "TP_PRC2 \<equiv> 2"
abbreviation (input) TCYC_STA :: UW where "TCYC_STA \<equiv> 1"
abbreviation (input) TALM_STA :: UW where "TALM_STA \<equiv> 1"
abbreviation (input) TICK :: UW where "TICK \<equiv> 10"

definition CHK_CYCID :: "int \<Rightarrow> bool" where "CHK_CYCID x \<longleftrightarrow> 1 \<le> x \<and> x \<le> int NUM_CYCID"
definition CHK_ALMID :: "int \<Rightarrow> bool" where "CHK_ALMID x \<longleftrightarrow> 1 \<le> x \<and> x \<le> int NUM_ALMID"
definition CHK_RELTIM :: "UW \<Rightarrow> bool" where "CHK_RELTIM t \<longleftrightarrow> \<not> t \<ge> 0x80000000"

definition get_cyccb :: "int \<Rightarrow> nat" where "get_cyccb x = nat (x - 1)"
definition get_almcb :: "int \<Rightarrow> nat" where "get_almcb x = nat (x - 1)"

definition upd_cyc :: "nat \<Rightarrow> (cyccb \<Rightarrow> cyccb) \<Rightarrow> kstate \<Rightarrow> kstate" where
  "upd_cyc i f s = s\<lparr>cyc := (cyc s)(i := f (cyc s i))\<rparr>"

definition upd_alm :: "nat \<Rightarrow> (almcb \<Rightarrow> almcb) \<Rightarrow> kstate \<Rightarrow> kstate" where
  "upd_alm i f s = s\<lparr>alm := (alm s)(i := f (alm s i))\<rparr>"

definition evtime :: "tmeb_ref \<Rightarrow> kstate \<Rightarrow> UW" where
  "evtime ev s = ev_time (tmeb_of (tmr s) ev)"

definition cur_tim :: "kstate \<Rightarrow> UW" where "cur_tim s = lltoul (current_time (tmr s))"

definition cyc_next :: "UW \<Rightarrow> UW \<Rightarrow> UW \<Rightarrow> UW" where
  "cyc_next curtim evtim period =
     (let tm = evtim + period
      in if knl_abstim_reached curtim tm then ((curtim - evtim) div period + 1) * period + evtim else tm)"

definition knl_cyc_next_time :: "nat \<Rightarrow> kstate \<Rightarrow> UW" where
  "knl_cyc_next_time i s = cyc_next (cur_tim s) (evtime (TmCyc i) s) (cyctim (cyc s i))"

definition knl_cyc_timer_insert :: "nat \<Rightarrow> UW \<Rightarrow> kstate \<Rightarrow> kstate" where
  "knl_cyc_timer_insert i tm s = upd_tmr (knl_timer_insert_abs (TmCyc i) tm (Distribute_cychdr i)) s"

definition knl_alm_timer_insert :: "nat \<Rightarrow> UW \<Rightarrow> kstate \<Rightarrow> kstate" where
  "knl_alm_timer_insert i reltim s =
     (let tm = cur_tim s + reltim + TICK
      in upd_tmr (knl_timer_insert_abs (TmAlm i) tm (Distribute_almhdr i)) s)"

definition knl_cyclichandler_initialize :: "kstate \<Rightarrow> kstate" where
  "knl_cyclichandler_initialize s =
     fold (\<lambda>i s. let s = upd_cyc i (\<lambda>B. B\<lparr>cychdr := 0, cyc_generation := 0\<rparr>) s
                 in s\<lparr>free_cyc := free_cyc s @ [i]\<rparr>)
       [0..<NUM_CYCID] (s\<lparr>free_cyc := []\<rparr>)"

definition knl_alarmhandler_initialize :: "kstate \<Rightarrow> kstate" where
  "knl_alarmhandler_initialize s =
     fold (\<lambda>i s. let s = upd_alm i (\<lambda>B. B\<lparr>almhdr := 0, alm_generation := 0\<rparr>) s
                 in s\<lparr>free_alm := free_alm s @ [i]\<rparr>)
       [0..<NUM_ALMID] (s\<lparr>free_alm := []\<rparr>)"

definition knl_timehandler_initialize :: "kstate \<Rightarrow> kstate" where
  "knl_timehandler_initialize s =
     fold (\<lambda>core. upd_tmr (\<lambda>m. m\<lparr>hdr_active := (hdr_active m)(core := False), tmq := (tmq m)(HdrQ core := [])\<rparr>))
       [0..<TK_MAX_CORE] s"

subsection \<open>Running a user handler\<close>

text \<open>
  A user handler is not part of the kernel. \<open>user_hdr e c f x s\<close> is the kernel state when the handler at
  address \<open>f\<close>, called with \<open>x\<close> on core \<open>c\<close>, returns and the kernel lock has been taken again: the handler
  runs with the lock suspended, so it covers what the handler and, meanwhile, the other core do.
  \<open>elapsed_us e s\<close> is the time that the hardware clock reports for a callback. All callers hold the kernel
  lock, so \<open>knl_kernel_lock_suspend\<close> succeeds (theory \<open>Smp_Lock\<close>) and the second, lock-free path
  at the end of the two routines is not taken.
\<close>

record thenv =
  user_hdr :: "nat \<Rightarrow> UW \<Rightarrow> UW \<Rightarrow> kstate \<Rightarrow> kstate"
  elapsed_us :: "kstate \<Rightarrow> UW"

definition upd_diag :: "(tdiag \<Rightarrow> tdiag) \<Rightarrow> kstate \<Rightarrow> kstate" where
  "upd_diag f = upd_tmr (\<lambda>m. m\<lparr>timer_diag := f (timer_diag m)\<rparr>)"

definition inc_at :: "nat \<Rightarrow> (nat \<Rightarrow> UW) \<Rightarrow> nat \<Rightarrow> UW" where "inc_at c f = f(c := f c + 1)"

definition knl_call_cychdr :: "thenv \<Rightarrow> nat \<Rightarrow> nat \<Rightarrow> kstate \<Rightarrow> kstate" where
  "knl_call_cychdr e c i s =
     (let handler = cychdr (cyc s i); x = cyc_exinf (cyc s i); generation = cyc_generation (cyc s i);
          s = knl_cyc_timer_insert i (knl_cyc_next_time i s) s;
          s = user_hdr e c handler x s;
          s = upd_diag (callback_detached_update (inc_at c)) s
      in if cyc_generation (cyc s i) = generation \<and> cychdr (cyc s i) = handler
         then upd_diag (callback_reconciled_update (inc_at c)) s
         else upd_diag (callback_stale_update (inc_at c)) s)"

definition knl_call_almhdr :: "thenv \<Rightarrow> nat \<Rightarrow> nat \<Rightarrow> kstate \<Rightarrow> kstate" where
  "knl_call_almhdr e c i s =
     (let handler = almhdr (alm s i); x = alm_exinf (alm s i); generation = alm_generation (alm s i);
          s = upd_alm i (almstat_update (\<lambda>w. w AND NOT TALM_STA)) s;
          s = user_hdr e c handler x s;
          s = upd_diag (callback_detached_update (inc_at c)) s
      in if alm_generation (alm s i) = generation \<and> almhdr (alm s i) = handler
         then upd_diag (callback_reconciled_update (inc_at c)) s
         else upd_diag (callback_stale_update (inc_at c)) s)"

text \<open>
  \<open>queue_timehandler\<close> is \<open>knl_enqueue_timehandler\<close> up to the decision whether the queue must be run on the
  executing core; a request to the other core is sent here.
\<close>

definition queue_timehandler :: "nat \<Rightarrow> nat \<Rightarrow> tmeb_ref \<Rightarrow> cback \<Rightarrow> kstate \<Rightarrow> kstate \<times> bool" where
  "queue_timehandler c core ev cb s =
     (let s = upd_tmr (upd_tmeb ev (\<lambda>e. e\<lparr>callback := Some cb\<rparr>)) s;
          s = upd_tmr (\<lambda>m. m\<lparr>tmq := (tmq m)(HdrQ core := tmq m (HdrQ core) @ [ev])\<rparr>) s;
          s = upd_diag (handler_enqueued_update (inc_at core)) s
      in if \<not> hdr_active (tmr s) core
         then let s = upd_tmr (\<lambda>m. m\<lparr>hdr_active := (hdr_active m)(core := True)\<rparr>) s
              in if core = c then (s, True)
                 else (s\<lparr>smp := knl_ipi_send core 8 (smp s)\<rparr>, False)
         else (s, False))"

definition cyc_core :: "UW \<Rightarrow> nat" where
  "cyc_core prc = (if prc \<noteq> 0 \<and> prc AND TP_PRC2 \<noteq> 0 then 1 else 0)"

text \<open>
  The loop over a handler queue. A callback that is not a user handler is a routine of the kernel; it can
  reach this loop again for an event queued on an idle core, hence the nested call.
\<close>

definition run_callback ::
  "(kstate \<Rightarrow> kstate option) \<Rightarrow> thenv \<Rightarrow> nat \<Rightarrow> cback \<Rightarrow> kstate \<Rightarrow> kstate option" where
  "run_callback exec e c cb s =
     (case cb of
        Wait_release_tmout t \<Rightarrow> Some (knl_wait_release_tmout c t s)
      | Call_cychdr i \<Rightarrow> Some (knl_call_cychdr e c i s)
      | Call_almhdr i \<Rightarrow> Some (knl_call_almhdr e c i s)
      | Distribute_cychdr i \<Rightarrow>
          (let (s, run) = queue_timehandler c (cyc_core (cyc_assprc (cyc s i))) (TmCyc i) (Call_cychdr i) s
           in if run then exec s else Some s)
      | Distribute_almhdr i \<Rightarrow>
          (let (s, run) = queue_timehandler c (cyc_core (alm_assprc (alm s i))) (TmAlm i) (Call_almhdr i) s
           in if run then exec s else Some s))"

lemma run_callback_mono [partial_function_mono]:
  "mono_option (\<lambda>f. run_callback (\<lambda>s. f (e, c, s)) e c cb s)"
  unfolding run_callback_def by (cases cb; simp add: case_prod_unfold Let_def) (intro partial_function_mono)+

partial_function (option) timehandler_execute :: "thenv \<times> nat \<times> kstate \<Rightarrow> kstate option" where
  "timehandler_execute a =
     (case a of (e, c, s) \<Rightarrow>
      (case tmq (tmr s) (HdrQ c) of
        [] \<Rightarrow> Some (upd_tmr (\<lambda>m. m\<lparr>hdr_active := (hdr_active m)(c := False)\<rparr>) s)
      | ev # _ \<Rightarrow>
          let s = upd_tmr (knl_timer_delete ev) s
          in (case callback (tmeb_of (tmr s) ev) of
               None \<Rightarrow> Some (s\<lparr>fault := True\<rparr>)
             | Some cb \<Rightarrow> do {
                 s \<leftarrow> run_callback (\<lambda>s. timehandler_execute (e, c, s)) e c cb s;
                 let s = upd_diag (handler_executed_update (inc_at c)) s;
                 let s = (if elapsed_us e s > callback_max_us (timer_diag (tmr s)) c
                          then upd_diag (callback_max_us_update (\<lambda>f. f(c := elapsed_us e s))) s else s);
                 timehandler_execute (e, c, s)
               })))"

definition knl_timehandler_execute :: "thenv \<Rightarrow> nat \<Rightarrow> kstate \<Rightarrow> kstate option" where
  "knl_timehandler_execute e c s = timehandler_execute (e, c, s)"

definition knl_enqueue_timehandler :: "thenv \<Rightarrow> nat \<Rightarrow> nat \<Rightarrow> tmeb_ref \<Rightarrow> cback \<Rightarrow> kstate \<Rightarrow> kstate option" where
  "knl_enqueue_timehandler e c core ev cb s =
     (let (s, run) = queue_timehandler c core ev cb s
      in if run then knl_timehandler_execute e c s else Some s)"

definition knl_timehandler_ipi :: "thenv \<Rightarrow> nat \<Rightarrow> kstate \<Rightarrow> kstate option" where
  "knl_timehandler_ipi e c s = map_option (END_CRITICAL_SECTION c) (knl_timehandler_execute e c s)"

definition knl_distribute_cychdr :: "thenv \<Rightarrow> nat \<Rightarrow> nat \<Rightarrow> kstate \<Rightarrow> kstate option" where
  "knl_distribute_cychdr e c i s =
     knl_enqueue_timehandler e c (cyc_core (cyc_assprc (cyc s i))) (TmCyc i) (Call_cychdr i) s"

definition knl_distribute_almhdr :: "thenv \<Rightarrow> nat \<Rightarrow> nat \<Rightarrow> kstate \<Rightarrow> kstate option" where
  "knl_distribute_almhdr e c i s =
     knl_enqueue_timehandler e c (cyc_core (alm_assprc (alm s i))) (TmAlm i) (Call_almhdr i) s"

definition knl_EnterTaskIndependent :: "nat \<Rightarrow> kstate \<Rightarrow> kstate" where
  "knl_EnterTaskIndependent c s = s\<lparr>smp := (smp s)\<lparr>taskindp := (taskindp (smp s))(c := taskindp (smp s) c + 1)\<rparr>\<rparr>"

definition knl_LeaveTaskIndependent :: "nat \<Rightarrow> kstate \<Rightarrow> kstate" where
  "knl_LeaveTaskIndependent c s = s\<lparr>smp := (smp s)\<lparr>taskindp := (taskindp (smp s))(c := taskindp (smp s) c - 1)\<rparr>\<rparr>"

definition remote_core :: "UW \<Rightarrow> nat" where "remote_core prc = (if prc AND TP_PRC2 \<noteq> 0 then 1 else 0)"

definition knl_immediate_call_cychdr :: "thenv \<Rightarrow> nat \<Rightarrow> nat \<Rightarrow> kstate \<Rightarrow> kstate option" where
  "knl_immediate_call_cychdr e c i s =
     (let prc = cyc_assprc (cyc s i)
      in if prc \<noteq> 0 \<and> prc AND core_bit c = 0
         then knl_enqueue_timehandler e c (remote_core prc) (TmCyc i) (Call_cychdr i) s
         else Some (knl_LeaveTaskIndependent c (knl_call_cychdr e c i (knl_EnterTaskIndependent c s))))"

definition knl_immediate_call_almhdr :: "thenv \<Rightarrow> nat \<Rightarrow> nat \<Rightarrow> kstate \<Rightarrow> kstate option" where
  "knl_immediate_call_almhdr e c i s =
     (let s = upd_alm i (almstat_update (\<lambda>w. w AND NOT TALM_STA)) s;
          prc = alm_assprc (alm s i)
      in if prc \<noteq> 0 \<and> prc AND core_bit c = 0
         then let s = upd_alm i (almstat_update (\<lambda>w. w OR TALM_STA)) s
              in knl_enqueue_timehandler e c (remote_core prc) (TmAlm i) (Call_almhdr i) s
         else Some (knl_LeaveTaskIndependent c (knl_call_almhdr e c i (knl_EnterTaskIndependent c s))))"

subsection \<open>The timer interrupt (timer.c)\<close>

definition knl_timer_startup :: "kstate \<Rightarrow> kstate" where
  "knl_timer_startup s =
     knl_timehandler_initialize (upd_tmr (\<lambda>m. m\<lparr>current_time := 0, real_time_ofs := 0, tmq := (tmq m)(TimerQ := []),
       timer_diag := \<lparr>ticks = 0, wrong_core_ticks = 0, expired_events = 0, max_expired_per_tick = 0,
         handler_enqueued = (\<lambda>core. if core < TK_MAX_CORE then 0 else handler_enqueued (timer_diag m) core),
         handler_executed = (\<lambda>core. if core < TK_MAX_CORE then 0 else handler_executed (timer_diag m) core),
         callback_max_us = (\<lambda>core. if core < TK_MAX_CORE then 0 else callback_max_us (timer_diag m) core),
         callback_detached = (\<lambda>core. if core < TK_MAX_CORE then 0 else callback_detached (timer_diag m) core),
         callback_reconciled = (\<lambda>core. if core < TK_MAX_CORE then 0 else callback_reconciled (timer_diag m) core),
         callback_stale = (\<lambda>core. if core < TK_MAX_CORE then 0 else callback_stale (timer_diag m) core)\<rparr>\<rparr>) s)"

text \<open>The loop that executes the events whose time has come; it counts them.\<close>

partial_function (option) expire_loop :: "thenv \<Rightarrow> nat \<Rightarrow> UW \<Rightarrow> UW \<Rightarrow> kstate \<Rightarrow> (kstate \<times> UW) option" where
  "expire_loop e c tim expired s =
     (case tmq (tmr s) TimerQ of
        [] \<Rightarrow> Some (s, expired)
      | ev # _ \<Rightarrow>
          if \<not> knl_abstim_reached tim (evtime ev s) then Some (s, expired)
          else let s = upd_tmr (knl_timer_delete ev) s; expired = expired + 1
               in do {
                 s \<leftarrow> (case callback (tmeb_of (tmr s) ev) of
                        None \<Rightarrow> Some s
                      | Some cb \<Rightarrow> run_callback (knl_timehandler_execute e c) e c cb s);
                 expire_loop e c tim expired s
               })"

definition knl_timer_handler :: "thenv \<Rightarrow> nat \<Rightarrow> kstate \<Rightarrow> kstate option" where
  "knl_timer_handler e c s =
     (if c \<noteq> 0 then Some (upd_diag (wrong_core_ticks_update (\<lambda>n. n + 1)) s)
      else do {
        let s = upd_tmr (current_time_update (\<lambda>t. t + 10)) s;
        let tim = cur_tim s;
        let s = upd_diag (ticks_update (\<lambda>n. n + 1)) s;
        (s, expired) \<leftarrow> expire_loop e c tim 0 s;
        let s = upd_diag (expired_events_update (\<lambda>n. n + expired)) s;
        let s = (if expired > max_expired_per_tick (timer_diag (tmr s))
                 then upd_diag (max_expired_per_tick_update (\<lambda>_. expired)) s else s);
        Some (END_CRITICAL_SECTION c s)
      })"

definition knl_timer_get_diag :: "nat \<Rightarrow> kstate \<Rightarrow> kstate \<times> tdiag" where
  "knl_timer_get_diag c s = (END_CRITICAL_SECTION c s, timer_diag (tmr s))"

subsection \<open>Cyclic handlers\<close>

record t_ccyc =
  cc_exinf :: UW
  cc_cycatr :: UW
  cc_cychdr :: UW
  cc_cyctim :: UW
  cc_cycphs :: UW
  cc_assprc :: UW

text \<open>The processor mask of a handler with \<open>TA_ASSPRC\<close> names exactly one core.\<close>

definition one_core :: "UW \<Rightarrow> bool" where
  "one_core prc \<longleftrightarrow> prc \<noteq> 0 \<and> prc AND NOT ALL_CORE_BIT = 0 \<and> prc AND (prc - 1) = 0"

definition cre_cyc_cs :: "thenv \<Rightarrow> nat \<Rightarrow> t_ccyc \<Rightarrow> kstate \<Rightarrow> (kstate \<times> int) option" where
  "cre_cyc_cs e c pk s =
     (case free_cyc s of
        [] \<Rightarrow> Some (s, E_LIMIT)
      | i # rest \<Rightarrow>
          let s = s\<lparr>free_cyc := rest\<rparr>;
              s = upd_cyc i (\<lambda>B. B\<lparr>cyc_exinf := cc_exinf pk, cycatr := cc_cycatr pk, cychdr := cc_cychdr pk,
                    cyctim := cc_cyctim pk, cyc_assprc := (if cc_cycatr pk AND TA_ASSPRC \<noteq> 0 then cc_assprc pk else 0),
                    cyc_generation := cyc_generation B + 1\<rparr>) s;
              tm = cur_tim s + cc_cycphs pk + TICK
          in if cc_cycatr pk AND TA_STA \<noteq> 0
             then let s = upd_cyc i (cycstat_update (\<lambda>_. TCYC_STA)) s
                  in do {
                    s \<leftarrow> (if cc_cycphs pk = 0
                          then knl_immediate_call_cychdr e c i (upd_tmr (upd_tmeb (TmCyc i) (ev_time_update (\<lambda>_. tm))) s)
                          else Some (knl_cyc_timer_insert i tm s));
                    Some (s, int i + 1)
                  }
             else let s = upd_cyc i (cycstat_update (\<lambda>_. 0)) s
                  in Some (upd_tmr (upd_tmeb (TmCyc i) (ev_time_update (\<lambda>_. tm))) s, int i + 1))"

definition tk_cre_cyc :: "thenv \<Rightarrow> nat \<Rightarrow> t_ccyc \<Rightarrow> kstate \<Rightarrow> (kstate \<times> int) option" where
  "tk_cre_cyc e c pk s =
     (if cc_cycatr pk AND NOT (1 OR TA_STA OR TA_PHS OR TA_ASSPRC) \<noteq> 0 then Some (s, E_RSATR)
      else if cc_cychdr pk = 0 then Some (s, E_PAR)
      else if \<not> cc_cyctim pk > 0 then Some (s, E_PAR)
      else if \<not> CHK_RELTIM (cc_cyctim pk) then Some (s, E_PAR)
      else if cc_cycatr pk AND TA_ASSPRC \<noteq> 0 \<and> \<not> one_core (cc_assprc pk) then Some (s, E_PAR)
      else do {
        (s, ercd) \<leftarrow> cre_cyc_cs e c pk s;
        Some (END_CRITICAL_SECTION c s, ercd)
      })"

definition tk_del_cyc :: "nat \<Rightarrow> int \<Rightarrow> kstate \<Rightarrow> kstate \<times> int" where
  "tk_del_cyc c xid s =
     (if \<not> CHK_CYCID xid then (s, E_ID)
      else let i = get_cyccb xid
           in if cychdr (cyc s i) = 0 then (END_CRITICAL_SECTION c s, E_NOEXS)
              else let s = (if cycstat (cyc s i) AND TCYC_STA \<noteq> 0
                            then upd_tmr (knl_timer_delete (TmCyc i)) s else s);
                       s = s\<lparr>free_cyc := free_cyc s @ [i]\<rparr>;
                       s = upd_cyc i (\<lambda>B. B\<lparr>cyc_generation := cyc_generation B + 1, cychdr := 0\<rparr>) s
                   in (END_CRITICAL_SECTION c s, E_OK))"

definition sta_cyc_cs :: "nat \<Rightarrow> kstate \<Rightarrow> kstate" where
  "sta_cyc_cs i s =
     (let B = cyc s i; curtim = cur_tim s;
          s = (if cycatr B AND TA_PHS \<noteq> 0
               then if cycstat B AND TCYC_STA = 0
                    then let tm = evtime (TmCyc i) s;
                             tm = (if knl_abstim_reached curtim tm then knl_cyc_next_time i s else tm)
                         in knl_cyc_timer_insert i tm s
                    else s
               else let s = (if cycstat B AND TCYC_STA \<noteq> 0 then upd_tmr (knl_timer_delete (TmCyc i)) s else s);
                        tm = curtim + cyctim B + TICK
                    in knl_cyc_timer_insert i tm s)
      in upd_cyc i (cycstat_update (\<lambda>w. w OR TCYC_STA)) s)"

definition tk_sta_cyc :: "nat \<Rightarrow> int \<Rightarrow> kstate \<Rightarrow> kstate \<times> int" where
  "tk_sta_cyc c xid s =
     (if \<not> CHK_CYCID xid then (s, E_ID)
      else let i = get_cyccb xid
           in if cychdr (cyc s i) = 0 then (END_CRITICAL_SECTION c s, E_NOEXS)
              else (END_CRITICAL_SECTION c (sta_cyc_cs i s), E_OK))"

definition tk_stp_cyc :: "nat \<Rightarrow> int \<Rightarrow> kstate \<Rightarrow> kstate \<times> int" where
  "tk_stp_cyc c xid s =
     (if \<not> CHK_CYCID xid then (s, E_ID)
      else let i = get_cyccb xid
           in if cychdr (cyc s i) = 0 then (END_CRITICAL_SECTION c s, E_NOEXS)
              else let s = (if cycstat (cyc s i) AND TCYC_STA \<noteq> 0
                            then upd_tmr (knl_timer_delete (TmCyc i)) s else s);
                       s = upd_cyc i (cycstat_update (\<lambda>w. w AND NOT TCYC_STA)) s
                   in (END_CRITICAL_SECTION c s, E_OK))"

record t_rcyc =
  rc_exinf :: UW
  rc_lfttim :: UW
  rc_cycstat :: UW

definition left_time :: "UW \<Rightarrow> UW \<Rightarrow> UW" where
  "left_time curtim tm = (if knl_abstim_reached (curtim + TICK) tm then 0 else tm - (curtim + TICK))"

definition tk_ref_cyc :: "nat \<Rightarrow> int \<Rightarrow> kstate \<Rightarrow> kstate \<times> int \<times> t_rcyc option" where
  "tk_ref_cyc c xid s =
     (if \<not> CHK_CYCID xid then (s, E_ID, None)
      else let i = get_cyccb xid; B = cyc s i
           in if cychdr B = 0 then (END_CRITICAL_SECTION c s, E_NOEXS, None)
              else let tm = evtime (TmCyc i) s; curtim = cur_tim s;
                       tm = (if cycstat B AND TCYC_STA = 0 \<and> knl_abstim_reached curtim tm
                             then knl_cyc_next_time i s else tm)
                   in (END_CRITICAL_SECTION c s, E_OK,
                       Some \<lparr>rc_exinf = cyc_exinf B, rc_lfttim = left_time curtim tm, rc_cycstat = cycstat B\<rparr>))"

subsection \<open>Alarm handlers\<close>

record t_calm =
  ca_exinf :: UW
  ca_almatr :: UW
  ca_almhdr :: UW
  ca_assprc :: UW

definition tk_cre_alm :: "nat \<Rightarrow> t_calm \<Rightarrow> kstate \<Rightarrow> kstate \<times> int" where
  "tk_cre_alm c pk s =
     (if ca_almatr pk AND NOT (1 OR TA_ASSPRC) \<noteq> 0 then (s, E_RSATR)
      else if ca_almhdr pk = 0 then (s, E_PAR)
      else if ca_almatr pk AND TA_ASSPRC \<noteq> 0 \<and> \<not> one_core (ca_assprc pk) then (s, E_PAR)
      else case free_alm s of
        [] \<Rightarrow> (END_CRITICAL_SECTION c s, E_LIMIT)
      | i # rest \<Rightarrow>
          let s = s\<lparr>free_alm := rest\<rparr>;
              s = upd_alm i (\<lambda>B. B\<lparr>alm_exinf := ca_exinf pk, almatr := ca_almatr pk, almhdr := ca_almhdr pk,
                    almstat := 0, alm_assprc := (if ca_almatr pk AND TA_ASSPRC \<noteq> 0 then ca_assprc pk else 0),
                    alm_generation := alm_generation B + 1\<rparr>) s
          in (END_CRITICAL_SECTION c s, int i + 1))"

definition tk_del_alm :: "nat \<Rightarrow> int \<Rightarrow> kstate \<Rightarrow> kstate \<times> int" where
  "tk_del_alm c xid s =
     (if \<not> CHK_ALMID xid then (s, E_ID)
      else let i = get_almcb xid
           in if almhdr (alm s i) = 0 then (END_CRITICAL_SECTION c s, E_NOEXS)
              else let s = (if almstat (alm s i) AND TALM_STA \<noteq> 0
                            then upd_tmr (knl_timer_delete (TmAlm i)) s else s);
                       s = s\<lparr>free_alm := free_alm s @ [i]\<rparr>;
                       s = upd_alm i (\<lambda>B. B\<lparr>alm_generation := alm_generation B + 1, almhdr := 0\<rparr>) s
                   in (END_CRITICAL_SECTION c s, E_OK))"

definition sta_alm_cs :: "thenv \<Rightarrow> nat \<Rightarrow> nat \<Rightarrow> UW \<Rightarrow> kstate \<Rightarrow> kstate option" where
  "sta_alm_cs e c i almtim s =
     (let s = (if almstat (alm s i) AND TALM_STA \<noteq> 0 then upd_tmr (knl_timer_delete (TmAlm i)) s else s)
      in if almtim > 0
         then Some (upd_alm i (almstat_update (\<lambda>w. w OR TALM_STA)) (knl_alm_timer_insert i almtim s))
         else knl_immediate_call_almhdr e c i s)"

definition tk_sta_alm :: "thenv \<Rightarrow> nat \<Rightarrow> int \<Rightarrow> UW \<Rightarrow> kstate \<Rightarrow> (kstate \<times> int) option" where
  "tk_sta_alm e c xid almtim s =
     (if \<not> CHK_ALMID xid then Some (s, E_ID)
      else if \<not> CHK_RELTIM almtim then Some (s, E_PAR)
      else let i = get_almcb xid
           in if almhdr (alm s i) = 0 then Some (END_CRITICAL_SECTION c s, E_NOEXS)
              else do {
                s \<leftarrow> sta_alm_cs e c i almtim s;
                Some (END_CRITICAL_SECTION c s, E_OK)
              })"

definition tk_stp_alm :: "nat \<Rightarrow> int \<Rightarrow> kstate \<Rightarrow> kstate \<times> int" where
  "tk_stp_alm c xid s =
     (if \<not> CHK_ALMID xid then (s, E_ID)
      else let i = get_almcb xid
           in if almhdr (alm s i) = 0 then (END_CRITICAL_SECTION c s, E_NOEXS)
              else let s = (if almstat (alm s i) AND TALM_STA \<noteq> 0
                            then upd_alm i (almstat_update (\<lambda>w. w AND NOT TALM_STA))
                                   (upd_tmr (knl_timer_delete (TmAlm i)) s)
                            else s)
                   in (END_CRITICAL_SECTION c s, E_OK))"

record t_ralm =
  ra_exinf :: UW
  ra_lfttim :: UW
  ra_almstat :: UW

definition tk_ref_alm :: "nat \<Rightarrow> int \<Rightarrow> kstate \<Rightarrow> kstate \<times> int \<times> t_ralm option" where
  "tk_ref_alm c xid s =
     (if \<not> CHK_ALMID xid then (s, E_ID, None)
      else let i = get_almcb xid; B = alm s i
           in if almhdr B = 0 then (END_CRITICAL_SECTION c s, E_NOEXS, None)
              else let tm = (if almstat B AND TALM_STA \<noteq> 0 then left_time (cur_tim s) (evtime (TmAlm i) s) else 0)
                   in (END_CRITICAL_SECTION c s, E_OK,
                       Some \<lparr>ra_exinf = alm_exinf B, ra_lfttim = tm, ra_almstat = almstat B\<rparr>))"

subsection \<open>The system time\<close>

lemma toSYSTIM_toLSYSTIM:
  assumes "0 \<le> tim_hi t" "tim_hi t \<le> INT_MAX"
  shows "knl_toSYSTIM (knl_toLSYSTIM t) = t"
proof -
  let ?x = "knl_toLSYSTIM t"
  have lo: "ucast ?x = tim_lo t"
    by (rule bit_word_eqI) (auto simp: knl_toLSYSTIM_def bit_simps)
  have "(ucast (signed_drop_bit 32 ?x) :: UW) = word_of_int (tim_hi t)"
    by (rule bit_word_eqI) (auto simp: knl_toLSYSTIM_def bit_simps bit_signed_drop_bit_iff dest: bit_imp_le_length)
  then have "sint (ucast (signed_drop_bit 32 ?x) :: UW) = tim_hi t"
    using assms by (simp add: sint_sbintrunc' signed_take_bit_int_eq_self)
  then show ?thesis using lo by (simp add: knl_toSYSTIM_def)
qed

text \<open>
  A time that was set is read back exactly, in both epochs, for every date the call accepts; setting it
  changes neither the operating time nor any pending event.
\<close>

theorem set_time_roundtrip:
  assumes "0 \<le> tim_hi pk" "tim_hi pk \<le> INT_MAX"
  shows "snd (snd (tk_get_utc c' (fst (tk_set_utc c pk s)))) = pk \<and>
    snd (snd (tk_get_tim c' (fst (tk_set_tim c pk s)))) = pk \<and>
    snd (tk_set_utc c pk s) = E_OK \<and> snd (tk_set_tim c pk s) = E_OK \<and>
    current_time (tmr (fst (tk_set_utc c pk s))) = current_time (tmr s) \<and>
    tmq (tmr (fst (tk_set_utc c pk s))) = tmq (tmr s)"
  using assms toSYSTIM_toLSYSTIM[OF assms]
  by (simp add: tk_get_utc_def tk_set_utc_def tk_get_tim_def tk_set_tim_def Let_def END_CRITICAL_SECTION_def)

theorem set_time_roundtrip_witness:
  "snd (snd (tk_get_utc 0 (fst (tk_set_utc 0 \<lparr>tim_hi = 405, tim_lo = 0x12345678\<rparr>
     (ex_state Wspec_slp ex_winfo (SemQ 0)))))) = \<lparr>tim_hi = 405, tim_lo = 0x12345678\<rparr>"
  using set_time_roundtrip[of "\<lparr>tim_hi = 405, tim_lo = 0x12345678\<rparr>" 0 0 "ex_state Wspec_slp ex_winfo (SemQ 0)"]
  by simp

subsection \<open>The next time of a cyclic handler\<close>

lemma unat_neg_of_nat:
  assumes "0 < r" "r < 2 ^ 32"
  shows "unat (- word_of_nat r :: UW) = 2 ^ 32 - r"
proof -
  have "word_of_nat (2 ^ 32 - r) + word_of_nat r = (word_of_nat (2 ^ 32) :: UW)"
    using assms(2) by (simp flip: of_nat_add)
  also have "\<dots> = 0" by simp
  finally have "- word_of_nat r = (word_of_nat (2 ^ 32 - r) :: UW)" by (metis add_eq_0_iff2)
  then show ?thesis using assms by (simp only: unat_of_nat) simp
qed

text \<open>
  The next start of a cyclic handler whose time has come lies a whole number of periods after the
  last one, later than the current time and at most one period later, for every period that
  \<open>tk_cre_cyc\<close> accepts; late processing therefore drops periods and does not shift the phase.
\<close>

theorem cyc_next_in_future:
  assumes "period > 0" "CHK_RELTIM period" "knl_abstim_reached curtim evtim"
  shows "\<exists>k\<ge>1. cyc_next curtim evtim period = evtim + word_of_nat k * period \<and>
    \<not> knl_abstim_reached curtim (cyc_next curtim evtim period) \<and>
    unat (cyc_next curtim evtim period - curtim) \<le> unat period"
proof -
  define d c where "d = unat (curtim - evtim)" and "c = unat period"
  have c: "0 < c" "c < 2 ^ 31" using assms(1,2)
    by (auto simp: c_def CHK_RELTIM_def word_le_nat_alt word_less_nat_alt unat_gt_0)
  have d: "d < 2 ^ 31" using assms(3) by (auto simp: d_def knl_abstim_reached_def word_le_nat_alt)
  have cur: "curtim = evtim + word_of_nat d" by (simp add: d_def)
  have per: "period = word_of_nat c" by (simp add: c_def)
  have key: "cyc_next curtim evtim period = evtim + word_of_nat (d div c + 1) * period" 
  proof (cases "c \<le> d")
    case True
    have "curtim - (evtim + period) = word_of_nat (d - c)" using True by (simp add: cur per)
    moreover have "unat (word_of_nat (d - c) :: UW) = d - c" using d by (simp add: unat_of_nat)
    ultimately have "knl_abstim_reached curtim (evtim + period)"
      using d by (simp add: knl_abstim_reached_def word_le_nat_alt)
    moreover have "(curtim - evtim) div period = word_of_nat (d div c)"
      by (simp add: word_arith_nat_div d_def c_def)
    ultimately show ?thesis by (simp add: cyc_next_def Let_def algebra_simps)
  next
    case False
    have "curtim - (evtim + period) = - word_of_nat (c - d)" using False by (simp add: cur per)
    moreover have "unat (- word_of_nat (c - d) :: UW) = 2 ^ 32 - (c - d)"
      using False c by (intro unat_neg_of_nat) simp_all
    ultimately have "\<not> knl_abstim_reached curtim (evtim + period)"
      using c False by (simp add: knl_abstim_reached_def word_le_nat_alt)
    then show ?thesis using False by (simp add: cyc_next_def Let_def)
  qed
  define r where "r = (d div c + 1) * c - d"
  have le: "d < (d div c + 1) * c" "(d div c + 1) * c \<le> d + c"
    using c(1) by (simp_all add: dividend_less_div_times div_times_less_eq_dividend)
  have diff: "cyc_next curtim evtim period - curtim = word_of_nat r"
  proof -
    have "cyc_next curtim evtim period - curtim = word_of_nat (d div c + 1) * period - word_of_nat d"
      by (simp only: key) (simp add: cur)
    also have "\<dots> = word_of_nat ((d div c + 1) * c) - word_of_nat d" by (simp only: per of_nat_mult)
    also have "\<dots> = word_of_nat r" using le(1) by (simp only: r_def) (simp add: of_nat_diff del: of_nat_mult of_nat_add)
    finally show ?thesis .
  qed
  have r: "0 < r" "r \<le> c" using le unfolding r_def by linarith+
  have u: "unat (word_of_nat r :: UW) = r" using r c by (simp add: unat_of_nat)
  have "curtim - cyc_next curtim evtim period = - word_of_nat r" using diff by (metis minus_diff_eq)
  moreover have "unat (- word_of_nat r :: UW) = 2 ^ 32 - r"
    using r c by (intro unat_neg_of_nat) simp_all
  ultimately have "\<not> knl_abstim_reached curtim (cyc_next curtim evtim period)"
    using r c by (simp add: knl_abstim_reached_def word_le_nat_alt)
  then show ?thesis using key diff u r c
    by (intro exI[of _ "d div c + 1"]) (simp add: c_def)
qed

theorem cyc_next_in_future_witness:
  "\<exists>k\<ge>1. cyc_next 1000 105 100 = 105 + word_of_nat k * (100 :: UW) \<and>
    \<not> knl_abstim_reached 1000 (cyc_next 1000 105 100) \<and> unat (cyc_next 1000 105 100 - 1000) \<le> unat (100 :: UW)"
  by (rule cyc_next_in_future) (simp_all add: CHK_RELTIM_def knl_abstim_reached_def)

subsection \<open>The order of the timer queue\<close>

text \<open>
  \<open>due m e\<close> is the key by which the queue is ordered: the time from \<open>2 ^ 31 - 1\<close> ms before the current time
  to the event. An event with key \<open>2 ^ 31 - 1\<close> or less is due.
\<close>

definition due :: "tmr \<Rightarrow> tmeb_ref \<Rightarrow> UW" where
  "due m e = ev_time (tmeb_of m e) - (lltoul (current_time m) - 0x7FFFFFFF)"

lemma due_reached: "knl_abstim_reached (lltoul (current_time m)) (ev_time (tmeb_of m e)) \<longleftrightarrow> due m e \<le> 0x7FFFFFFF"
proof -
  let ?x = "lltoul (current_time m) - ev_time (tmeb_of m e)"
  have d: "due m e = 0x7FFFFFFF - ?x" by (simp add: due_def algebra_simps)
  have "?x \<le> 0x7FFFFFFF \<longleftrightarrow> 0x7FFFFFFF - ?x \<le> 0x7FFFFFFF" by uint_arith
  then show ?thesis by (simp add: d knl_abstim_reached_def)
qed

lemma enqueue_sorted:
  assumes "sorted (map (due m) (tmq m TimerQ))"
  shows "sorted (map (due (knl_enqueue_tmeb ev m)) (tmq (knl_enqueue_tmeb ev m) TimerQ))"
  using sorted_insert_before[OF assms, of ev]
  by (simp add: knl_enqueue_tmeb_def Let_def due_def[abs_def])

text \<open>
  A timeout of \<open>tmout\<close> ms, up to \<open>2 ^ 31 - 10\<close>, is queued behind every event that is due earlier and
  in front of every event that is due later; the queue stays ordered, and the event is due \<open>tmout\<close> plus
  one timer period after now, not earlier.
\<close>

theorem timer_insert_ordered:
  fixes ev tmout cb m
  defines "m' \<equiv> knl_timer_insert ev tmout cb m"
  assumes "0 \<le> tmout" "tmout < 0x7FFFFFF7" "sorted (map (due m) (tmq m TimerQ))" "ev \<notin> set (tmq m TimerQ)"
  shows "sorted (map (due m') (tmq m' TimerQ)) \<and> mset (tmq m' TimerQ) = add_mset ev (mset (tmq m TimerQ)) \<and>
    due m' ev = 0x7FFFFFFF + (word_of_int tmout + 10) \<and> unat (due m' ev) = 0x7FFFFFFF + (nat tmout + 10) \<and>
    (\<forall>e. e \<noteq> ev \<longrightarrow> due m' e = due m e)"
proof -
  let ?m1 = "upd_tmeb ev (\<lambda>e. e\<lparr>callback := Some cb\<rparr>) m"
  let ?m2 = "upd_tmeb ev (\<lambda>e. e\<lparr>ev_time := lltoul (current_time ?m1) + of_int tmout + 10\<rparr>) ?m1"
  have m': "m' = knl_enqueue_tmeb ev ?m2" using assms(2) by (simp add: m'_def knl_timer_insert_def Let_def)
  have other: "due ?m2 e = due m e" if "e \<noteq> ev" for e using that by (simp add: due_def upd_tmeb_def)
  have q: "tmq ?m2 TimerQ = tmq m TimerQ" by (simp add: upd_tmeb_def)
  have "sorted (map (due ?m2) (tmq m TimerQ))"
  proof (rule sorted_map_keep[OF assms(4)])
    fix x assume "x \<in> set (tmq m TimerQ)"
    then show "due ?m2 x = due m x" using assms(5) by (intro other) auto
  qed
  then have "sorted (map (due ?m2) (tmq ?m2 TimerQ))" using q by simp
  then have srt: "sorted (map (due m') (tmq m' TimerQ))" unfolding m' by (rule enqueue_sorted)
  have ms: "mset (insert_before P x xs) = add_mset x (mset xs)" for P and x :: tmeb_ref and xs
    by (induction xs) auto
  have key: "due m' ev = 0x7FFFFFFF + (word_of_int tmout + 10)"
    by (simp add: m' knl_enqueue_tmeb_def Let_def due_def upd_tmeb_def)
  have "due m' ev = word_of_nat (0x7FFFFFFF + (nat tmout + 10))"
    using assms(2) unfolding key by (simp add: of_nat_nat)
  moreover have "0x7FFFFFFF + (nat tmout + 10) < 2 ^ LENGTH(32)" using assms(2,3) by auto
  ultimately have "unat (due m' ev) = 0x7FFFFFFF + (nat tmout + 10)" by (simp only: unat_of_nat) simp
  moreover have "due m' e = due m e" if "e \<noteq> ev" for e
    using other[OF that] by (simp add: m' knl_enqueue_tmeb_def Let_def due_def)
  ultimately show ?thesis
    using srt key q by (simp add: m' knl_enqueue_tmeb_def Let_def ms)
qed

text \<open>An instance: one event pending.\<close>

text \<open>Handlers that return at once, for the instances.\<close>

definition ex_env :: thenv where
  "ex_env = \<lparr>user_hdr = (\<lambda>c f x s. s), elapsed_us = (\<lambda>s. 0)\<rparr>"

definition ex_timer :: tmr where
  "ex_timer = knl_timer_insert (TmTsk 1) 20 (Wait_release_tmout 1) ex_tmr"

lemma ex_timer_sel:
  "tmq ex_timer TimerQ = [TmTsk 1]" "current_time ex_timer = 1000" "tmeb_of ex_timer (TmTsk (Suc 0)) = \<lparr>ev_time = 1030, callback = Some (Wait_release_tmout 1)\<rparr>"
  by (simp_all add: ex_timer_def knl_timer_insert_def knl_enqueue_tmeb_def upd_tmeb_def ex_tmr_def Let_def lltoul_def)

theorem timer_insert_ordered_witness:
  "sorted (map (due (knl_timer_insert (TmTsk 0) 5 (Wait_release_tmout 0) ex_timer))
     (tmq (knl_timer_insert (TmTsk 0) 5 (Wait_release_tmout 0) ex_timer) TimerQ)) \<and>
   mset (tmq (knl_timer_insert (TmTsk 0) 5 (Wait_release_tmout 0) ex_timer) TimerQ) = {#TmTsk 0, TmTsk 1#}"
  using timer_insert_ordered[of 5 ex_timer "TmTsk 0" "Wait_release_tmout 0"] by (simp add: ex_timer_sel)

text \<open>
  C20. The 9 longest timeouts, \<open>2 ^ 31 - 9\<close> to \<open>2 ^ 31 - 1\<close> ms, wrap in the key of the queue: the event is put
  at the head of the queue, in front of events that are due earlier. From the next tick on, until the long
  timeout itself elapses, the timer interrupt finds that head not reached and expires nothing, so every
  event already queued is held up for up to \<open>tmout\<close> ms.
\<close>

theorem long_timeout_starves_queue:
  fixes s t tmout cb
  defines "s1 \<equiv> upd_tmr (knl_timer_insert (TmTsk t) tmout cb) s"
  assumes q: "tmq (tmr s) TimerQ = e1 # rest" "9 \<le> due (tmr s) e1" "e1 \<noteq> TmTsk t"
    and big: "0x7FFFFFF7 \<le> tmout" "tmout \<le> 0x7FFFFFFF"
  shows "tmq (tmr s1) TimerQ = TmTsk t # e1 # rest \<and>
    (\<forall>d. 10 \<le> d \<and> d < nat tmout + 10 \<longrightarrow>
       expire_loop e c (cur_tim s + word_of_nat d) n s1 = Some (s1, n))"
proof -
  let ?x = "lltoul (current_time (tmr s))"
  define m where "m = (tmr s)\<lparr>tmeb_of := (tmeb_of (tmr s))(TmTsk t := (tmeb_of (tmr s) (TmTsk t))\<lparr>callback := Some cb, ev_time := ?x + of_int tmout + 10\<rparr>)\<rparr>"
  have m1: "tmr s1 = knl_enqueue_tmeb (TmTsk t) m"
    using big by (simp add: s1_def knl_timer_insert_def Let_def upd_tmeb_def m_def)
  define k where "k = nat (tmout - 0x7FFFFFF7)"
  have k: "tmout = 0x7FFFFFF7 + int k" "k \<le> 8" using big by (auto simp: k_def)
  have "due m (TmTsk t) = word_of_nat k" by (simp add: due_def m_def k(1))
  then have "unat (due m (TmTsk t)) < 9" using k(2) by (simp add: unat_of_nat)
  moreover have "due m e1 = due (tmr s) e1" using q(3) by (simp add: due_def m_def)
  ultimately have "due m (TmTsk t) < due m e1" using q(2) by (simp add: word_le_nat_alt word_less_nat_alt)
  then have q1: "tmq (tmr s1) TimerQ = TmTsk t # e1 # rest"
    by (simp add: m1 knl_enqueue_tmeb_def Let_def due_def) (simp add: m_def q(1))
  have "expire_loop e c (cur_tim s + word_of_nat d) n s1 = Some (s1, n)"
    if d: "10 \<le> d" "d < nat tmout + 10" for d
  proof -
    let ?r = "nat tmout + 10 - d"
    have t: "evtime (TmTsk t) s1 = ?x + word_of_nat (nat tmout + 10)"
      using big by (simp add: evtime_def m1 knl_enqueue_tmeb_def Let_def m_def of_nat_nat)
    have "cur_tim s + word_of_nat d - evtime (TmTsk t) s1 = word_of_nat d - word_of_nat (d + ?r)"
      using d by (simp add: t cur_tim_def)
    also have "\<dots> = - word_of_nat ?r" by simp
    finally have df: "cur_tim s + word_of_nat d - evtime (TmTsk t) s1 = - word_of_nat ?r" .
    have "unat (- word_of_nat ?r :: UW) = 2 ^ 32 - ?r" using d big by (intro unat_neg_of_nat) auto
    moreover have "?r \<le> 0x7FFFFFFF" using d big by auto
    moreover have "\<not> 2 ^ 32 - x \<le> 0x7FFFFFFF" if "x \<le> 0x7FFFFFFF" for x :: nat using that by simp
    ultimately have "\<not> unat (- word_of_nat ?r :: UW) \<le> 0x7FFFFFFF" by metis
    then have "\<not> knl_abstim_reached (cur_tim s + word_of_nat d) (evtime (TmTsk t) s1)"
      unfolding knl_abstim_reached_def df by (simp add: word_le_nat_alt)
    then show ?thesis using q1 by (subst expire_loop.simps) simp
  qed
  then show ?thesis using q1 by blast
qed

theorem long_timeout_starves_queue_witness:
  "let s = (ex_state Wspec_slp ex_winfo (SemQ 0))\<lparr>tmr := ex_timer\<rparr>;
       s1 = upd_tmr (knl_timer_insert (TmTsk 0) 0x7FFFFFFF (Wait_release_tmout 0)) s
   in tmq (tmr s1) TimerQ = [TmTsk 0, TmTsk 1] \<and> knl_abstim_reached 100000 (evtime (TmTsk 1) s1) \<and>
      expire_loop ex_env 0 100000 0 s1 = Some (s1, 0)"
proof -
  let ?s = "(ex_state Wspec_slp ex_winfo (SemQ 0))\<lparr>tmr := ex_timer\<rparr>"
  have d: "9 \<le> due (tmr ?s) (TmTsk 1)" by (simp add: due_def ex_timer_sel lltoul_def)
  have "cur_tim ?s + word_of_nat 99000 = 100000" by (simp add: cur_tim_def ex_timer_sel lltoul_def)
  moreover have "evtime (TmTsk 1) (upd_tmr (knl_timer_insert (TmTsk 0) 0x7FFFFFFF (Wait_release_tmout 0)) ?s) = 1030"
    by (simp add: evtime_def knl_timer_insert_def knl_enqueue_tmeb_def upd_tmeb_def Let_def ex_timer_sel)
  moreover have "tmq (tmr ?s) TimerQ = TmTsk 1 # []" by (simp add: ex_timer_sel)
  note long_timeout_starves_queue[OF this d, where t = 0 and tmout = "0x7FFFFFFF" and cb = "Wait_release_tmout 0"
      and e = ex_env and c = 0 and n = 0]
  ultimately show ?thesis
    unfolding Let_def by (auto simp: knl_abstim_reached_def dest: spec[of _ 99000])
qed

subsection \<open>The timer interrupt\<close>

lemma expire_step:
  assumes "tmq (tmr s) TimerQ = ev # rest" "knl_abstim_reached tim (evtime ev s)"
    "callback (tmeb_of (tmr s) ev) = Some cb"
    "run_callback (knl_timehandler_execute e c) e c cb (upd_tmr (knl_timer_delete ev) s) = Some s1"
  shows "expire_loop e c tim n s = expire_loop e c tim (n + 1) s1"
proof -
  have "callback (tmeb_of (tmr (upd_tmr (knl_timer_delete ev) s)) ev) = Some cb"
    using assms(3) by (simp add: knl_timer_delete_def)
  then show ?thesis
    using assms(1,2,4) by (subst expire_loop.simps) (simp add: Let_def del: kstate.simps)
qed

lemma expire_stop:
  assumes "tmq (tmr s) TimerQ \<noteq> [] \<Longrightarrow> \<not> knl_abstim_reached tim (evtime (hd (tmq (tmr s) TimerQ)) s)"
  shows "expire_loop e c tim n s = Some (s, n)"
  using assms by (cases "tmq (tmr s) TimerQ"; subst expire_loop.simps) simp_all

text \<open>A timeout of a wait without a release hook is a release with the result \<open>E_TMOUT\<close> left by the call.\<close>

lemma wait_release_tmout_eq:
  assumes "rel_wai_hook (wspec (tcb s t)) = None" "\<forall>h. distinct (tmq (tmr s) h)"
  shows "knl_wait_release_tmout c t (upd_tmr (knl_timer_delete (TmTsk t)) s) = knl_wait_release c t s"
proof -
  let ?s = "upd_que (q_remove t) (upd_tmr (knl_timer_delete (TmTsk t)) s)"
  have "?s = s\<lparr>tmr := knl_timer_delete (TmTsk t) (tmr s), que := q_remove t (que s)\<rparr>" by simp
  moreover have "wspec (tcb (knl_make_non_wait c t ?s) t) = wspec (tcb s t)"
    by (simp add: knl_make_non_wait_def knl_make_ready_def knl_smp_reschedule_all_def knl_ready_queue_insert_def Let_def)
  ultimately show ?thesis
    using assms by (simp add: knl_wait_release_tmout_def knl_wait_release_def call_rel_wai_def Let_def)
qed

lemma expire_timeouts:
  assumes "kwf s" "\<forall>h. distinct (tmq (tmr s) h)" "tmq (tmr s) TimerQ = map TmTsk ts @ rest"
    and "\<forall>t\<in>set ts. t < NUM_TSKID \<and> in_wait (state (tcb s t)) \<and> rel_wai_hook (wspec (tcb s t)) = None \<and>
           callback (tmeb_of (tmr s) (TmTsk t)) = Some (Wait_release_tmout t) \<and> knl_abstim_reached tim (evtime (TmTsk t) s)"
    and "rest \<noteq> [] \<Longrightarrow> \<not> knl_abstim_reached tim (evtime (hd rest) s)"
  shows "\<exists>s'. expire_loop e c tim n s = Some (s', n + word_of_nat (length ts)) \<and> kwf s' \<and>
    tmq (tmr s') TimerQ = rest \<and> (\<forall>t. tcb s' t = (if t \<in> set ts then released (tcb s t) else tcb s t)) \<and>
    ercd s' = ercd s \<and> current_time (tmr s') = current_time (tmr s) \<and> timer_diag (tmr s') = timer_diag (tmr s)"
  using assms
proof (induction ts arbitrary: s n)
  case Nil
  then show ?case using expire_stop[of s tim e c n] by (intro exI[of _ s]) simp
next
  case (Cons t ts)
  let ?s1 = "knl_wait_release c t s"
  have t: "t < NUM_TSKID" "in_wait (state (tcb s t))" "rel_wai_hook (wspec (tcb s t)) = None"
    "callback (tmeb_of (tmr s) (TmTsk t)) = Some (Wait_release_tmout t)" "knl_abstim_reached tim (evtime (TmTsk t) s)"
    using Cons.prems(4) by simp_all
  have dt: "t \<notin> set ts" "TmTsk t \<notin> set rest"
    using Cons.prems(2,3) by (auto dest: spec[of _ TimerQ])
  have k: "kwf ?s1" by (rule kwf_wait_release[OF Cons.prems(1) t(1,2)])
  have tm: "tmr ?s1 = knl_timer_delete (TmTsk t) (tmr s)" by simp
  have q: "tmq (tmr ?s1) TimerQ = map TmTsk ts @ rest"
    unfolding tm by (simp add: knl_timer_delete_def Cons.prems(3))
  have d: "\<forall>h. distinct (tmq (tmr ?s1) h)" unfolding tm using Cons.prems(2) by (simp add: knl_timer_delete_def)
  have ev: "tmeb_of (tmr ?s1) = tmeb_of (tmr s)" "evtime x ?s1 = evtime x s" for x
    unfolding tm evtime_def by (simp_all add: knl_timer_delete_def)
  have tcb1: "tcb ?s1 = (tcb s)(t := released (tcb s t))" by simp
  have step: "expire_loop e c tim n s = expire_loop e c tim (n + 1) ?s1"
    by (rule expire_step[where cb = "Wait_release_tmout t" and ev = "TmTsk t" and rest = "map TmTsk ts @ rest"])
      (use Cons.prems(3) t wait_release_tmout_eq[OF t(3) Cons.prems(2), of c] in \<open>simp_all add: run_callback_def\<close>)
  have "\<exists>s'. expire_loop e c tim (n + 1) ?s1 = Some (s', n + 1 + word_of_nat (length ts)) \<and> kwf s' \<and>
    tmq (tmr s') TimerQ = rest \<and> (\<forall>u. tcb s' u = (if u \<in> set ts then released (tcb ?s1 u) else tcb ?s1 u)) \<and>
    ercd s' = ercd ?s1 \<and> current_time (tmr s') = current_time (tmr ?s1) \<and> timer_diag (tmr s') = timer_diag (tmr ?s1)"
  proof (rule Cons.IH[OF k d q])
    show "\<forall>u\<in>set ts. u < NUM_TSKID \<and> in_wait (state (tcb ?s1 u)) \<and> rel_wai_hook (wspec (tcb ?s1 u)) = None \<and>
           callback (tmeb_of (tmr ?s1) (TmTsk u)) = Some (Wait_release_tmout u) \<and> knl_abstim_reached tim (evtime (TmTsk u) ?s1)"
      using Cons.prems(4) dt(1) unfolding ev tcb1 by auto
    show "rest \<noteq> [] \<Longrightarrow> \<not> knl_abstim_reached tim (evtime (hd rest) ?s1)" using Cons.prems(5) unfolding ev .
  qed
  then show ?case unfolding step tcb1
    using dt(1) by (auto simp: knl_timer_delete_def add.assoc)
qed

lemma lltoul_add10: "lltoul (x + 10) = lltoul x + 10"
  unfolding lltoul_def
proof transfer
  fix x :: int
  have "take_bit 32 (take_bit 64 x + 10) = take_bit 32 (take_bit 32 (take_bit 64 x) + 10)"
    by (simp add: take_bit_eq_mod mod_simps)
  then show "take_bit LENGTH(32) (take_bit LENGTH(64) (x + 10)) = take_bit LENGTH(32) (take_bit LENGTH(64) x + 10)"
    by (simp add: take_bit_take_bit) (simp add: take_bit_eq_mod mod_simps)
qed

text \<open>
  C19. A timer interrupt on core 0 comes to an end and releases exactly the tasks whose timeout has been
  reached, when these stand at the front of the queue and wait for something without a release hook: they
  leave their wait with the result that the call left there (\<open>E_TMOUT\<close>, or \<open>E_OK\<close> of a delay), the other
  events stay queued, every other task is unchanged, the clock advances by one period and the kernel
  stays sound.
\<close>

theorem timer_tick_releases_due:
  assumes "kwf s" "\<forall>h. distinct (tmq (tmr s) h)" "tmq (tmr s) TimerQ = map TmTsk ts @ rest"
    and "\<forall>t\<in>set ts. t < NUM_TSKID \<and> in_wait (state (tcb s t)) \<and> rel_wai_hook (wspec (tcb s t)) = None \<and>
           callback (tmeb_of (tmr s) (TmTsk t)) = Some (Wait_release_tmout t) \<and>
           knl_abstim_reached (cur_tim s + 10) (evtime (TmTsk t) s)"
    and "rest = [] \<or> \<not> knl_abstim_reached (cur_tim s + 10) (evtime (hd rest) s)"
  shows "\<exists>s'. knl_timer_handler e 0 s = Some s' \<and> kwf s' \<and> tmq (tmr s') TimerQ = rest \<and>
    (\<forall>t. tcb s' t = (if t \<in> set ts then released (tcb s t) else tcb s t)) \<and> ercd s' = ercd s \<and>
    current_time (tmr s') = current_time (tmr s) + 10 \<and> ticks (timer_diag (tmr s')) = ticks (timer_diag (tmr s)) + 1"
proof -
  define s0 where "s0 = upd_diag (ticks_update (\<lambda>n. n + 1)) (upd_tmr (current_time_update (\<lambda>t. t + 10)) s)"
  have ct: "cur_tim (upd_tmr (current_time_update (\<lambda>t. t + 10)) s) = cur_tim s + 10"
    by (simp add: cur_tim_def lltoul_add10)
  have f: "kwf s0" "tcb s0 = tcb s" "ercd s0 = ercd s" "tmq (tmr s0) = tmq (tmr s)" "tmeb_of (tmr s0) = tmeb_of (tmr s)"
    "evtime x s0 = evtime x s" "current_time (tmr s0) = current_time (tmr s) + 10"
    "ticks (timer_diag (tmr s0)) = ticks (timer_diag (tmr s)) + 1" for x
    using assms(1) by (simp_all add: s0_def upd_diag_def evtime_def)
  have "\<exists>s1. expire_loop e 0 (cur_tim s + 10) 0 s0 = Some (s1, 0 + word_of_nat (length ts)) \<and> kwf s1 \<and>
    tmq (tmr s1) TimerQ = rest \<and> (\<forall>t. tcb s1 t = (if t \<in> set ts then released (tcb s0 t) else tcb s0 t)) \<and>
    ercd s1 = ercd s0 \<and> current_time (tmr s1) = current_time (tmr s0) \<and> timer_diag (tmr s1) = timer_diag (tmr s0)"
    by (rule expire_timeouts) (use assms f in auto)
  then obtain s1 where s1: "expire_loop e 0 (cur_tim s + 10) 0 s0 = Some (s1, 0 + word_of_nat (length ts))"
    "kwf s1" "tmq (tmr s1) TimerQ = rest" "\<forall>t. tcb s1 t = (if t \<in> set ts then released (tcb s t) else tcb s t)"
    "ercd s1 = ercd s" "current_time (tmr s1) = current_time (tmr s) + 10"
    "ticks (timer_diag (tmr s1)) = ticks (timer_diag (tmr s)) + 1"
    using f by auto
  define k :: UW where "k = 0 + word_of_nat (length ts)"
  define s2 where "s2 = upd_diag (expired_events_update (\<lambda>n. n + k)) s1"
  define s3 where "s3 = (if k > max_expired_per_tick (timer_diag (tmr s2))
       then upd_diag (max_expired_per_tick_update (\<lambda>_. k)) s2 else s2)"
  have h: "knl_timer_handler e 0 s = Some (END_CRITICAL_SECTION 0 s3)"
    using s1(1) by (simp add: knl_timer_handler_def Let_def ct s2_def s3_def k_def s0_def del: add_0)
  have g: "kwf s3" "tcb s3 = tcb s1" "ercd s3 = ercd s1" "tmq (tmr s3) = tmq (tmr s1)" 
    "current_time (tmr s3) = current_time (tmr s1)" "ticks (timer_diag (tmr s3)) = ticks (timer_diag (tmr s1))"
    using s1(2) by (simp_all add: s3_def s2_def upd_diag_def)
  show ?thesis
    by (rule exI[of _ "END_CRITICAL_SECTION 0 s3"]) (use h g s1 in simp)
qed

theorem timer_tick_releases_due_witness:
  "let s = (ex_state Wspec_flg_tfifo ex_winfo (FlgQ 0))\<lparr>tmr := ex_timer\<lparr>current_time := 1025\<rparr>\<rparr>
   in \<exists>s'. knl_timer_handler ex_env 0 s = Some s' \<and> kwf s' \<and> tmq (tmr s') TimerQ = [] \<and> state (tcb s' 1) = TS_READY"
proof -
  let ?s = "(ex_state Wspec_flg_tfifo ex_winfo (FlgQ 0))\<lparr>tmr := ex_timer\<lparr>current_time := 1025\<rparr>\<rparr>"
  have k: "kwf ?s" using kwf_ex_state[of Wspec_flg_tfifo "FlgQ 0" ex_winfo] by simp
  have q: "tmq (tmr ?s) h = (if h = TimerQ then [TmTsk 1] else [])" for h
    by (simp add: ex_timer_def knl_timer_insert_def knl_enqueue_tmeb_def upd_tmeb_def ex_tmr_def Let_def)
  have d: "\<forall>h. distinct (tmq (tmr ?s) h)" unfolding q by simp
  have due: "\<forall>t\<in>set [1]. t < NUM_TSKID \<and> in_wait (state (tcb ?s t)) \<and> rel_wai_hook (wspec (tcb ?s t)) = None \<and>
      callback (tmeb_of (tmr ?s) (TmTsk t)) = Some (Wait_release_tmout t) \<and>
      knl_abstim_reached (cur_tim ?s + 10) (evtime (TmTsk t) ?s)"
    by (simp add: ex_timer_sel cur_tim_def lltoul_def evtime_def knl_abstim_reached_def ex_wait_def size_defs)
  have w: "state (released (tcb ?s 1)) = TS_READY" by (simp add: released_def ex_wait_def)
  obtain s' where "knl_timer_handler ex_env 0 ?s = Some s'" "kwf s'" "tmq (tmr s') TimerQ = []" "tcb s' 1 = released (tcb ?s 1)"
    using timer_tick_releases_due[OF k d _ due, of "[]" ex_env] q[of TimerQ] by (auto simp del: fun_upd_apply)
  then show ?thesis unfolding Let_def using w by metis
qed

end
