(* ===== verification/Sched_Props.thy ===== *)
theory Sched_Props
  imports Example_State
begin

text \<open>
  What the scheduler promises, stated on the whole kernel state: exclusive use of a task by one core,
  service in the order of priority, release of a waiting task, and the exactness of the ready queue.
\<close>

subsection \<open>The reschedule\<close>

text \<open>
  C16. After a reschedule on any core of a sound state no task is selected for two cores, none is selected
  for a core while the other core runs it, a task is selected only for a core of its affinity mask, and the
  three defensive filters of the publication have not fired.
\<close>

theorem reschedule_exclusive:
  fixes self s
  defines "s' \<equiv> knl_smp_reschedule_all self s"
  assumes "kwf s"
  shows "(\<forall>c d t. c < TK_MAX_CORE \<longrightarrow> d < TK_MAX_CORE \<longrightarrow> schedtsk (smp s') c = Some t \<longrightarrow>
            (schedtsk (smp s') d = Some t \<longrightarrow> c = d) \<and> (ctxtsk (smp s') d = Some t \<longrightarrow> c = d) \<and>
            bit (assprc (tcb s' t)) c) \<and>
         bad_assign (smp s') = bad_assign (smp s) \<and> dup_publish (smp s') = dup_publish (smp s) \<and>
         dup_candidate (smp s') = dup_candidate (smp s)"
proof -
  note k = kwfD[OF assms(2)]
  have d: "distinct (ready_list s)" by (rule distinct_ready_list[OF k(1)])
  have ex: "smp_excl (resched_smp self s)" by (rule resched_excl[OF k(4,5) d])
  have af: "smp_aff (tcb s) (resched_smp self s)" by (rule resched_aff[OF k(4,5) d])
  show ?thesis
    using resched_counters[OF k(4,5) d, of self] smp_exclD[OF ex] af
    unfolding s'_def knl_smp_reschedule_all_def smp_aff_def by (simp; metis)
qed

theorem reschedule_exclusive_witness:
  "let s' = knl_smp_reschedule_all 0 (ex_state Wspec_sem_tfifo ex_winfo (SemQ 0))
   in (\<forall>c d t. c < TK_MAX_CORE \<longrightarrow> d < TK_MAX_CORE \<longrightarrow> schedtsk (smp s') c = Some t \<longrightarrow>
            (schedtsk (smp s') d = Some t \<longrightarrow> c = d) \<and> (ctxtsk (smp s') d = Some t \<longrightarrow> c = d) \<and>
            bit (assprc (tcb s' t)) c) \<and> bad_assign (smp s') = 0"
  unfolding Let_def
  using reschedule_exclusive[OF kwf_ex_state[of Wspec_sem_tfifo "SemQ 0" ex_winfo], of 0]
  by (simp add: ex_smp_def)

text \<open>
  C17. A READY task that a reschedule leaves without a core is outranked on every core it could take: the
  task selected there holds an object lock and this one does not, or both agree in that and its priority
  is at least as high.
\<close>

theorem unselected_outranked:
  assumes "kwf s" "t < NUM_TSKID" "state (tcb s t) = TS_READY" "\<not> klockwait (tcb s t)"
    and "bit (knl_task_core_mask s t) c"
    and "\<forall>d<TK_MAX_CORE. schedtsk (smp (knl_smp_reschedule_all self s)) d \<noteq> Some t"
  shows "\<exists>u. schedtsk (smp (knl_smp_reschedule_all self s)) c = Some u \<and> u \<noteq> t \<and>
    (klocked (tcb s u) \<and> \<not> klocked (tcb s t) \<or>
     (klocked (tcb s u) \<longleftrightarrow> klocked (tcb s t)) \<and> priority (tcb s u) \<le> priority (tcb s t))"
proof -
  note k = kwfD[OF assms(1)]
  have d: "distinct (ready_list s)" by (rule distinct_ready_list[OF k(1)])
  have t: "t \<in> set (ready_list s)" using ready_list_iff[OF k(1,2)] assms(2-4) by blast
  have p: "priority (tcb s u) = p" if "u \<in> set (que s (RdyQ p))" for p u
    using loc_okD(3)[OF k(1) that] by (simp add: at_home_ready)
  have out: "schedtsk (resched_smp self s) d \<noteq> Some t" if "d < TK_MAX_CORE" for d
    using assms(6) that by (simp add: knl_smp_reschedule_all_def)
  obtain u where u: "schedtsk (resched_smp self s) c = Some u" "precedes (scan_order s) u t"
    using resched_outranked[OF k(4,5) d t assms(5) out] by blast
  have "u \<noteq> t" using u(1) out core_mask_range[OF assms(5)] by auto
  then show ?thesis
    using u precedes_scan_order[OF p u(2)] by (auto simp: knl_smp_reschedule_all_def)
qed

definition ex_two :: "kstate" where
  "ex_two = (ex_state Wspec_sem_tfifo ex_winfo (SemQ 0))
     \<lparr>smp := ex_smp\<lparr>online_mask := 1\<rparr>,
      tcb := ex_tcb(0 := ex_run, 1 := ex_wait Wspec_sem_tfifo ex_winfo, 2 := (ex_tcb 2)\<lparr>state := TS_READY, priority := 10\<rparr>),
      que := (\<lambda>_. [])(RdyQ 10 := [0, 2], SemQ 0 := [1])\<rparr>"

lemma kwf_ex_two: "kwf ex_two"
proof -
  let ?s = "(ex_state Wspec_sem_tfifo ex_winfo (SemQ 0))\<lparr>smp := ex_smp\<lparr>online_mask := 1\<rparr>\<rparr>"
  have b: "smp_excl (smp ?s)" "smp_aff (tcb ?s) (smp ?s)"
    using kwfD(4,5)[OF kwf_ex_state[of Wspec_sem_tfifo "SemQ 0" ex_winfo]]
    by (simp_all add: smp_excl_def smp_aff_def)
  have l: "loc_ok (tcb ex_two) (que ex_two)"
    unfolding loc_ok_def
    by (auto simp: ex_two_def size_defs at_home_def ex_run_def ex_wait_def ex_tcb_def wring_def needs_home_def
        intro: exI[of _ "RdyQ 10"] exI[of _ "SemQ 0"])
  moreover have "tcbs_ok (tcb ex_two)"
    by (auto simp: ex_two_def tcbs_ok_def tcb_ok_def ex_run_def ex_wait_def ex_tcb_def size_defs)
  moreover have "rq_ok (que ex_two) (rq ex_two)"
    by (auto simp: ex_two_def rq_ok_def bit_0x400 size_defs ex_state_def)
  moreover have "smp_excl (smp ex_two)" using b(1) by (simp add: ex_two_def)
  moreover have "smp_aff (tcb ex_two) (smp ex_two)"
    by (auto simp: ex_two_def smp_aff_def ex_smp_def ex_run_def ex_tcb_def less_cores)
  moreover have "sched_ok (que ex_two) (smp ex_two)"
    by (auto simp: ex_two_def sched_ok_def ex_smp_def less_cores intro: exI[of _ 10])
  ultimately show ?thesis by (simp add: kwf_def)
qed


lemma ex_two_resched: "schedtsk (smp (knl_smp_reschedule_all 0 ex_two)) = (\<lambda>d. if d = 0 then Some 0 else None)"
proof -
  have rl: "ready_list ex_two = [0, 2]"
    by (simp add: ready_list_def ex_two_def NUM_TSKPRI_def upt_rec)
  have mk: "knl_task_core_mask ex_two 0 = 1" "knl_task_core_mask ex_two 2 = 1"
    by (simp_all add: knl_task_core_mask_def ex_two_def ex_smp_def ex_tcb_def ex_run_def)
  have kl: "\<not> klocked (tcb ex_two 0)" "\<not> klocked (tcb ex_two 2)"
    by (simp_all add: ex_two_def ex_tcb_def ex_run_def)
  have ch: "chosen ex_two = [(0, 1)]"
    by (simp add: chosen_def scan_order_def rl mk kl feasible_def TK_MAX_CORE_def)
  have se: "selection ex_two = (\<lambda>d. if d = 0 then Some 0 else None)"
    by (auto simp: selection_def ch knl_assign_cores_def fun_eq_iff)
  note k = kwfD[OF kwf_ex_two]
  show ?thesis
    using schedtsk_resched[OF k(4,5) distinct_ready_list[OF k(1)], of 0]
    unfolding knl_smp_reschedule_all_def se
    by (simp add: fun_eq_iff less_cores) (simp add: ex_two_def ex_smp_def)
qed


theorem unselected_outranked_witness:
  "\<exists>u. schedtsk (smp (knl_smp_reschedule_all 0 ex_two)) 0 = Some u \<and> u \<noteq> 2 \<and>
    (klocked (tcb ex_two u) \<and> \<not> klocked (tcb ex_two 2) \<or>
     (klocked (tcb ex_two u) \<longleftrightarrow> klocked (tcb ex_two 2)) \<and> priority (tcb ex_two u) \<le> priority (tcb ex_two 2))"
  by (rule unselected_outranked[OF kwf_ex_two])
    (simp_all add: ex_two_resched, simp_all add: ex_two_def ex_tcb_def size_defs knl_task_core_mask_def ex_smp_def)

subsection \<open>Release of a waiting task\<close>

text \<open>
  C18. Of a task released from a wait: when both cores are online and open for dispatching, its affinity
  mask names one of them, and every READY task has a lower priority and no object lock, then the release
  itself selects the task for a core.
\<close>

theorem released_task_selected:
  assumes k: "kwf s" and t: "t < NUM_TSKID" "state (tcb s t) = TS_WAIT"
    and on: "\<forall>c<TK_MAX_CORE. bit (online_mask (smp s)) c \<and> dispatch_disabled (smp s) c < 2"
    and af: "c0 < TK_MAX_CORE" "bit (assprc (tcb s t)) c0"
    and hi: "\<forall>u\<in>set (ready_list s). \<not> klocked (tcb s u) \<and> priority (tcb s t) < priority (tcb s u)"
  shows "\<exists>d<TK_MAX_CORE. schedtsk (smp (knl_wait_release_ok c t s)) d = Some t"
proof -
  let ?s1 = "(set_wercd t E_OK s)\<lparr>tmr := knl_timer_delete (TmTsk t) (tmr s), que := q_remove t (que s)\<rparr>"
  define s0 where "s0 = fst (knl_ready_queue_insert t (upd_tcb t (state_update (\<lambda>_. TS_READY)) ?s1))"
  define f where "f = knl_wait_release_ok c t s"
  have rf: "tcb f = (tcb s)(t := released (tcb s t))" by (simp add: f_def)
  have w: "in_wait (state (tcb s t))" using t(2) by simp
  have kf: "kwf f" unfolding f_def by (rule kwf_wait_release_ok(2)[OF k t(1) w])
  have fe: "f = knl_note_wake_race c t (knl_smp_reschedule_all c s0)"
    using t(2) by (simp add: f_def s0_def knl_wait_release_ok_def knl_wait_release_def knl_make_non_wait_def knl_make_ready_def)
  have s0: "smp s0 = smp s" "tcb s0 = tcb f" "que s0 = que f"
    using t(2) by (simp_all add: f_def s0_def knl_ready_queue_insert_def Let_def released_def q_release_def)
  have sch: "schedtsk (smp f) = schedtsk (resched_smp c s0)"
    unfolding fe by (simp add: knl_note_wake_race_def knl_smp_reschedule_all_def split: option.split)
  have ex: "smp_excl (smp s0)" using kwfD(4)[OF k] by (simp only: s0)
  have "assprc (tcb f u) = assprc (tcb s u)" for u by (simp add: rf)
  then have aff: "smp_aff (tcb s0) (smp s0)"
    using kwfD(5)[OF k] smp_aff_assprc[of "tcb f" "tcb s"] by (simp only: s0)
  have rl: "ready_list s0 = ready_list f" by (rule ready_list_cong) (simp only: s0)
  have d: "distinct (ready_list s0)" unfolding rl by (rule distinct_ready_list[OF kwfD(1)[OF kf]])
  have mem: "u \<in> set (ready_list s0) \<longleftrightarrow> u = t \<or> u \<in> set (ready_list s)" for u
    unfolding rl ready_list_iff[OF kwfD(1,2)[OF kf]] ready_list_iff[OF kwfD(1,2)[OF k]]
    using t tcbs_okD[OF kwfD(2)[OF k] t(1)] by (auto simp: rf released_def tcb_ok_def)
  have mk: "\<exists>b. bit (knl_task_core_mask s0 t) b"
  proof -
    have o: "bit (online_mask (smp s)) 0" "bit (online_mask (smp s)) 1" "dispatch_disabled (smp s) 0 < 2"
      "dispatch_disabled (smp s) 1 < 2" using on by (auto simp: less_cores)
    have a: "bit (assprc (tcb s0 t)) 0 \<or> bit (assprc (tcb s0 t)) 1" using af by (auto simp: s0 rf less_cores)
    have b0: "bit (knl_task_core_mask s0 t) 0 \<or> bit (knl_task_core_mask s0 t) 1"
      using o a by (simp add: knl_task_core_mask_def Let_def s0(1) bit_simps bit_1_iff split: option.split)
    then show ?thesis by blast
  qed
  show ?thesis
  proof (rule ccontr)
    assume "\<not> ?thesis"
    then have out: "schedtsk (resched_smp c s0) b \<noteq> Some t" if "b < TK_MAX_CORE" for b
      using that by (auto simp: sch f_def[symmetric])
    obtain b where b: "bit (knl_task_core_mask s0 t) b" using mk by blast
    obtain u where u: "schedtsk (resched_smp c s0) b = Some u" "precedes (scan_order s0) u t"
      using resched_outranked[OF ex aff d _ b out] mem by blast
    have "u \<noteq> t" using u(1) out core_mask_range[OF b] by auto
    moreover have "u \<in> set (ready_list s0)"
      using u(2) set_scan_order[of s0] by (force simp: precedes_def)
    ultimately have lo: "\<not> klocked (tcb s u) \<and> priority (tcb s t) < priority (tcb s u)" "u \<noteq> t"
      using mem hi by auto
    have "priority (tcb s0 v) = p" if "v \<in> set (que s0 (RdyQ p))" for p v
      using loc_okD(3)[OF kwfD(1)[OF kf], of v "RdyQ p"] that by (simp add: at_home_ready s0)
    from precedes_scan_order[OF this u(2)] show False using lo by (simp add: s0 rf)
  qed
qed

text \<open>An instance: task 1 waits with priority 5, above the running task's 10.\<close>

definition ex_high :: kstate where
  "ex_high = upd_tcb 1 (priority_update (\<lambda>_. 5)) (ex_state Wspec_sem_tfifo ex_winfo (SemQ 0))"

lemma kwf_ex_high: "kwf ex_high"
  unfolding ex_high_def
  by (rule kwf_set_priority[OF kwf_ex_state]) (simp_all add: size_defs ex_wait_def)

theorem released_task_selected_witness:
  "\<exists>d<TK_MAX_CORE. schedtsk (smp (knl_wait_release_ok 0 1 ex_high)) d = Some 1"
proof (rule released_task_selected[OF kwf_ex_high, where ?c0.0 = 0])
  have "ready_list ex_high = [0]"
    by (simp add: ready_list_def ex_high_def NUM_TSKPRI_def upt_rec)
  then show "\<forall>u\<in>set (ready_list ex_high). \<not> klocked (tcb ex_high u) \<and> priority (tcb ex_high 1) < priority (tcb ex_high u)"
    by (simp add: ex_high_def ex_run_def ex_tcb_def ex_wait_def)
qed (simp_all add: ex_high_def ex_wait_def ex_tcb_def ex_smp_def size_defs less_cores)


subsection \<open>Deleting an object\<close>

text \<open>
  C25. Deleting the wait queue of an object (the step every \<open>tk_del_\<close> call makes) leaves the queue empty and
  the kernel sound, and every task that waited in it is out of the wait, has no timeout pending, and finds
  \<open>E_DLT\<close> as the result of its call; the control blocks and results of all other tasks are unchanged.
\<close>

theorem wait_delete_errors:
  fixes c s h
  defines "s' \<equiv> knl_wait_delete c h s"
  assumes "kwf s" "wait_ring w i = Some h" "distinct (tmq (tmr s) TimerQ)"
  shows "kwf s' \<and> que s' h = [] \<and>
    (\<forall>t. if t \<in> set (que s h)
         then ercd s' t = E_DLT \<and> TmTsk t \<notin> set (tmq (tmr s') TimerQ) \<and>
              state (tcb s' t) = (if state (tcb s t) = TS_WAIT then TS_READY else TS_SUSPEND)
         else ercd s' t = ercd s t \<and> tcb s' t = tcb s t)"
proof -
  have h: "h \<noteq> RdyQ p" "h \<noteq> FreeTcb" "h \<noteq> LockQ k" for p k using wait_ring_kind[OF assms(3)] by auto
  have eff: "rel_eff (que s h) (\<lambda>_. E_DLT) s s'"
    unfolding s'_def by (rule wait_delete_released[OF assms(2)]) (use h in auto)
  have del: "tmq (fold (\<lambda>t. knl_timer_delete (TmTsk t)) R m) TimerQ = filter (\<lambda>e. e \<notin> TmTsk ` set R) (tmq m TimerQ)"
    if "distinct (tmq m TimerQ)" for R m
    using that
  proof (induction R arbitrary: m)
    case (Cons t R)
    then have "distinct (tmq (knl_timer_delete (TmTsk t) m) TimerQ)" by (simp add: knl_timer_delete_def)
    from Cons.IH[OF this] show ?case using Cons.prems
      by (simp add: knl_timer_delete_def distinct_remove1_removeAll removeAll_filter_not_eq)
        (rule filter_cong, auto)
  qed simp
  have q: "que s' h = []" using rel_eff_state(4)[OF eff, of h] h by simp
  have tm: "tmq (tmr s') TimerQ = filter (\<lambda>e. e \<notin> TmTsk ` set (que s h)) (tmq (tmr s) TimerQ)"
    using eff del[OF assms(4)] by (simp add: rel_eff_def)
  show ?thesis
    using q rel_eff_state(1,5,6)[OF eff] by (simp add: tm released_def)
qed

theorem wait_delete_errors_witness:
  "let s' = knl_wait_delete 0 (SemQ 0) (ex_state Wspec_sem_tfifo ex_winfo (SemQ 0))
   in kwf s' \<and> que s' (SemQ 0) = [] \<and> ercd s' 1 = E_DLT \<and> state (tcb s' 1) = TS_READY"
proof -
  have k: "kwf (ex_state Wspec_sem_tfifo ex_winfo (SemQ 0))" by (rule kwf_ex_state) simp
  have d: "distinct (tmq (tmr (ex_state Wspec_sem_tfifo ex_winfo (SemQ 0))) TimerQ)"
    by (simp add: ex_state_def ex_tmr_def)
  have m: "1 \<in> set (que (ex_state Wspec_sem_tfifo ex_winfo (SemQ 0)) (SemQ 0))"
    "state (tcb (ex_state Wspec_sem_tfifo ex_winfo (SemQ 0)) 1) = TS_WAIT"
    by (simp_all add: ex_wait_def)
  show ?thesis
    using wait_delete_errors[OF k _ d, of Wspec_sem_tfifo 0 "SemQ 0" 0] m
    unfolding Let_def by (metis wait_ring.simps(3))
qed

subsection \<open>The ready queue\<close>

text \<open>
  With no lock holder recorded, the head that the ready queue reports is a READY task of the highest
  priority present, and it reports none only when no task is in the queue; with one recorded it is that task.
\<close>

theorem ready_queue_top_highest:
  assumes "kwf s"
  shows "case klocktsk (rq s) of
     Some t \<Rightarrow> knl_ready_queue_top s = Some t
   | None \<Rightarrow> (case knl_ready_queue_top s of
        None \<Rightarrow> ready_list s = []
      | Some t \<Rightarrow> t \<in> set (ready_list s) \<and> priority (tcb s t) = knl_ready_queue_top_priority s \<and>
                 (\<forall>u\<in>set (ready_list s). priority (tcb s t) \<le> priority (tcb s u)))"
proof (cases "klocktsk (rq s)")
  case None
  note k = kwfD[OF assms]
  have pri: "priority (tcb s u) = p" if "u \<in> set (que s (RdyQ p))" for p u
    using loc_okD(3)[OF k(1) that] by (simp add: at_home_ready)
  have mem: "u \<in> set (ready_list s) \<longleftrightarrow> (\<exists>p<NUM_TSKPRI. u \<in> set (que s (RdyQ p)))" for u
    by (auto simp: ready_list_def)
  let ?p = "top_priority (rq s)"
  show ?thesis
  proof (cases "?p = NUM_TSKPRI")
    case True
    then have "ready_list s = []" using k(3) by (auto simp: ready_list_def rq_ok_def)
    then show ?thesis using None True by (simp add: knl_ready_queue_top_def)
  next
    case False
    then have p: "?p < NUM_TSKPRI" "que s (RdyQ ?p) \<noteq> []" using k(3) by (auto simp: rq_ok_def)
    then have hd: "hd (que s (RdyQ ?p)) \<in> set (que s (RdyQ ?p))" by simp
    have "?p \<le> priority (tcb s u)" if "u \<in> set (ready_list s)" for u
      using that rq_ok_top_least[OF k(3)] pri unfolding mem by (metis empty_iff list.set(1))
    then show ?thesis
      using None False mem[of "hd (que s (RdyQ ?p))"] hd p(1) pri[OF hd]
      by (auto simp: knl_ready_queue_top_def knl_ready_queue_top_priority_def)
  qed
qed (simp add: knl_ready_queue_top_def)

theorem ready_queue_top_highest_witness:
  "let s = ex_state Wspec_sem_tfifo ex_winfo (SemQ 0)
   in case knl_ready_queue_top s of
        None \<Rightarrow> ready_list s = []
      | Some t \<Rightarrow> t \<in> set (ready_list s) \<and> priority (tcb s t) = knl_ready_queue_top_priority s \<and>
                 (\<forall>u\<in>set (ready_list s). priority (tcb s t) \<le> priority (tcb s u))"
proof -
  have "klocktsk (rq (ex_state Wspec_sem_tfifo ex_winfo (SemQ 0))) = None" by (simp add: ex_state_def)
  then show ?thesis
    using ready_queue_top_highest[OF kwf_ex_state[of Wspec_sem_tfifo "SemQ 0" ex_winfo]]
    unfolding Let_def by simp
qed

end
