(* ===== verification/Task_Manage.thy ===== *)
theory Task_Manage
  imports Time_Calls
begin

text \<open>
  \<^verbatim>\<open>kernel/tkernel/task_manage.c\<close>, \<^verbatim>\<open>task_sync.c\<close>, the placement calls of \<^verbatim>\<open>smp_dispatch.c\<close> and the dispatcher
  \<^verbatim>\<open>dispatch.S\<close>, \<^verbatim>\<open>cpu_cntl.c\<close>: the life of a task from its creation to the reclaiming of its control block.
\<close>

subsection \<open>Checks of the task argument (check.h)\<close>

definition CHK_TSKID :: "int \<Rightarrow> bool" where
  "CHK_TSKID x \<longleftrightarrow> 1 \<le> x \<and> x \<le> int NUM_TSKID"

definition get_tcb :: "int \<Rightarrow> nat" where "get_tcb x = nat (x - 1)"

definition get_tcb_self :: "nat \<Rightarrow> int \<Rightarrow> kstate \<Rightarrow> nat" where
  "get_tcb_self c x s = (if x = TSK_SELF then cur c s else get_tcb x)"

definition CHECK_TSKID :: "nat \<Rightarrow> int \<Rightarrow> kstate \<Rightarrow> int" where
  "CHECK_TSKID c x s =
     (if \<not> in_indp c s \<and> x = TSK_SELF then E_OBJ else if \<not> CHK_TSKID x then E_ID else E_OK)"

definition CHECK_TSKID_SELF :: "nat \<Rightarrow> int \<Rightarrow> kstate \<Rightarrow> bool" where
  "CHECK_TSKID_SELF c x s \<longleftrightarrow> \<not> in_indp c s \<and> x = TSK_SELF \<or> CHK_TSKID x"

definition CHECK_NONSELF :: "nat \<Rightarrow> int \<Rightarrow> kstate \<Rightarrow> bool" where
  "CHECK_NONSELF c x s \<longleftrightarrow> \<not> (\<not> in_indp c s \<and> x = tskid (tcb s (cur c s)))"

text \<open>
  The frame that every call on another task shares: the two checks, then the body, which runs between
  \<open>BEGIN_CRITICAL_SECTION\<close> and \<open>END_CRITICAL_SECTION\<close>.
\<close>

definition on_task :: "nat \<Rightarrow> int \<Rightarrow> (nat \<Rightarrow> kstate \<Rightarrow> kstate \<times> int) \<Rightarrow> kstate \<Rightarrow> kstate \<times> int" where
  "on_task c x body s =
     (if CHECK_TSKID c x s \<noteq> E_OK then (s, CHECK_TSKID c x s)
      else if \<not> CHECK_NONSELF c x s then (s, E_OBJ)
      else let (s, e) = body (get_tcb x) s in (END_CRITICAL_SECTION c s, e))"

definition state_error :: "tstat \<Rightarrow> int" where
  "state_error st = (if st = TS_NONEXIST then E_NOEXS else E_OBJ)"

subsection \<open>Creation and deletion\<close>

record t_ctsk =
  ct_exinf :: UW
  ct_tskatr :: UW
  ct_task :: UW
  ct_itskpri :: int
  ct_stksz :: int
  ct_bufptr :: UW
  ct_assprc :: UW

abbreviation (input) MIN_SYS_STACK_SIZE :: int where "MIN_SYS_STACK_SIZE \<equiv> 128"

text \<open>The arithmetic on the stack size is that of 32-bit signed integers.\<close>

definition w32 :: "int \<Rightarrow> int" where "w32 x = sint (word_of_int x :: UW)"

definition sys_stack_size :: "int \<Rightarrow> int" where
  "sys_stack_size stksz = (let sz = w32 (stksz + MIN_SYS_STACK_SIZE) in w32 (sz + 7) sdiv 8 * 8)"

definition knl_setup_context :: "nat \<Rightarrow> kstate \<Rightarrow> kstate" where
  "knl_setup_context t = upd_tcb t (ctx_set_update (\<lambda>_. Some 0))"

definition knl_setup_stacd :: "nat \<Rightarrow> int \<Rightarrow> kstate \<Rightarrow> kstate" where
  "knl_setup_stacd t stacd = upd_tcb t (ctx_set_update (\<lambda>_. Some stacd))"

definition task_assprc :: "UW \<Rightarrow> UW \<Rightarrow> UW" where
  "task_assprc atr prc = (if atr AND TA_ASSPRC \<noteq> 0 \<and> prc AND ALL_CORE_BIT \<noteq> 0 then prc AND ALL_CORE_BIT else ALL_CORE_BIT)"

definition cre_tsk_cs :: "t_ctsk \<Rightarrow> int \<Rightarrow> UW \<Rightarrow> kstate \<Rightarrow> kstate \<times> int" where
  "cre_tsk_cs pk stksz stack s =
     (case que s FreeTcb of
        [] \<Rightarrow> (s, E_LIMIT)
      | t # rest \<Rightarrow>
          let s = upd_que (\<lambda>Q. Q(FreeTcb := rest)) s;
              s = upd_tcb t (\<lambda>T. T\<lparr>exinf := ct_exinf pk, tskatr := ct_tskatr pk,
                    assprc := task_assprc (ct_tskatr pk) (ct_assprc pk), task_entry := ct_task pk,
                    ipriority := int_priority (ct_itskpri pk), sstksz := stksz,
                    isstack := stack + word_of_int stksz, isysmode := 1, sysmode := 1\<rparr>) s;
              s = knl_make_dormant t s;
              s = knl_setup_context t s
          in (s, tskid (tcb s t)))"

definition tk_cre_tsk :: "nat \<Rightarrow> t_ctsk \<Rightarrow> kstate \<Rightarrow> (kstate \<times> int) option" where
  "tk_cre_tsk c pk s =
     (let userbuf = ct_tskatr pk AND 0x20 \<noteq> 0
      in if ct_tskatr pk AND NOT (1 OR 0x300 OR 0x20 OR TA_ASSPRC) \<noteq> 0 then Some (s, E_RSATR)
         else if \<not> ct_stksz pk \<ge> 0 then Some (s, E_PAR)
         else if \<not> CHK_PRI (ct_itskpri pk) then Some (s, E_PAR)
         else if userbuf \<and> \<not> ct_stksz pk \<ge> MIN_SYS_STACK_SIZE then Some (s, E_PAR)
         else
           let stksz = (if userbuf then ct_stksz pk else sys_stack_size (ct_stksz pk))
           in do {
             (s, stack) \<leftarrow> (if userbuf then Some (s, ct_bufptr pk) else knl_Imalloc c stksz s);
             if \<not> userbuf \<and> stack = 0 then Some (s, E_NOMEM)
             else do {
               let (s, e) = cre_tsk_cs pk stksz stack s;
               let s = END_CRITICAL_SECTION c s;
               s \<leftarrow> (if e < E_OK \<and> \<not> userbuf then knl_Ifree c stack s else Some s);
               Some (s, e)
             }
           })"

text \<open>
  \<open>knl_del_tsk\<close> runs inside a critical section, so the critical section of \<open>knl_Ifree\<close> is a nested one.
\<close>

definition knl_del_tsk :: "nat \<Rightarrow> kstate \<Rightarrow> kstate option" where
  "knl_del_tsk t s = do {
     let T = tcb s t;
     m \<leftarrow> (if tskatr T AND 0x20 = 0 then ifree_area (imacb s) (isstack T - word_of_int (sstksz T)) (mem s)
           else Some (mem s));
     Some (upd_tcb t (state_update (\<lambda>_. TS_NONEXIST)) (upd_que (q_insert t FreeTcb) (s\<lparr>mem := m\<rparr>)))
   }"

definition knl_smp_dispatch_release :: "nat \<Rightarrow> nat \<Rightarrow> kstate \<Rightarrow> kstate option" where
  "knl_smp_dispatch_release c t s =
     (let s = s\<lparr>smp := (smp s)\<lparr>context_releases := inc_at c (context_releases (smp s))\<rparr>\<rparr>
      in if stkfree (tcb s t) \<and> \<not> knl_is_ctxtsk t s
         then do {
           s \<leftarrow> knl_del_tsk t (upd_tcb t (stkfree_update (\<lambda>_. False)) s);
           Some (s\<lparr>smp := (smp s)\<lparr>deferred_reclaims := deferred_reclaims (smp s) + 1\<rparr>\<rparr>)
         }
         else Some s)"

definition del_tsk_cs :: "nat \<Rightarrow> kstate \<Rightarrow> (kstate \<times> int) option" where
  "del_tsk_cs t s =
     (let st = state (tcb s t)
      in if st \<noteq> TS_DORMANT then Some (s, state_error st)
         else if knl_is_ctxtsk t s
         then Some (upd_tcb t (\<lambda>T. T\<lparr>stkfree := True, state := TS_NONEXIST\<rparr>) s, E_OK)
         else do { s \<leftarrow> knl_del_tsk t s; Some (s, E_OK) })"

definition tk_del_tsk :: "nat \<Rightarrow> int \<Rightarrow> kstate \<Rightarrow> (kstate \<times> int) option" where
  "tk_del_tsk c x s =
     (if CHECK_TSKID c x s \<noteq> E_OK then Some (s, CHECK_TSKID c x s)
      else if \<not> CHECK_NONSELF c x s then Some (s, E_OBJ)
      else do {
        (s, e) \<leftarrow> del_tsk_cs (get_tcb x) s;
        Some (END_CRITICAL_SECTION c s, e)
      })"

subsection \<open>Start and end\<close>

definition sta_tsk_cs :: "nat \<Rightarrow> int \<Rightarrow> nat \<Rightarrow> kstate \<Rightarrow> kstate \<times> int" where
  "sta_tsk_cs c stacd t s =
     (let st = state (tcb s t)
      in if st \<noteq> TS_DORMANT then (s, state_error st)
         else if knl_is_ctxtsk t s then (s, E_OBJ)
         else (knl_make_ready c t (knl_setup_stacd t stacd (knl_setup_context t s)), E_OK))"

definition tk_sta_tsk :: "nat \<Rightarrow> int \<Rightarrow> int \<Rightarrow> kstate \<Rightarrow> kstate \<times> int" where
  "tk_sta_tsk c x stacd s = on_task c x (sta_tsk_cs c stacd) s"

definition knl_ter_tsk :: "nat \<Rightarrow> nat \<Rightarrow> kstate \<Rightarrow> kstate" where
  "knl_ter_tsk c t s =
     (let st = state (tcb s t);
          s = (if st = TS_READY then knl_make_non_ready c t s
               else if in_wait st then call_rel_wai c t (knl_wait_cancel t s)
               else s)
      in knl_signal_all_mutex c t s)"

text \<open>\<open>knl_force_dispatch\<close> abandons the kernel lock, pends the dispatcher and does not return.\<close>

definition knl_force_dispatch :: "nat \<Rightarrow> kstate \<Rightarrow> kstate" where
  "knl_force_dispatch c s = s\<lparr>smp := (smp s)\<lparr>
     dispatch_disabled := (dispatch_disabled (smp s))(c := DDS_DISABLE_IMPLICIT),
     pendsv := (pendsv (smp s))(c := True), primask := (primask (smp s))(c := False)\<rparr>\<rparr>"

text \<open>\<open>tk_ext_tsk\<close> stops in an endless loop (\<open>None\<close>) when a handler calls it.\<close>

definition tk_ext_tsk :: "nat \<Rightarrow> kstate \<Rightarrow> kstate option" where
  "tk_ext_tsk c s =
     (if in_indp c s then None
      else Some (knl_force_dispatch c (knl_make_dormant (cur c s) (knl_ter_tsk c (cur c s) s))))"

definition tk_exd_tsk :: "nat \<Rightarrow> kstate \<Rightarrow> kstate" where
  "tk_exd_tsk c s =
     (if in_indp c s then s
      else let s = knl_ter_tsk c (cur c s) s
           in knl_force_dispatch c (upd_tcb (cur c s) (\<lambda>T. T\<lparr>stkfree := True, state := TS_NONEXIST\<rparr>) s))"

definition ter_tsk_cs :: "nat \<Rightarrow> nat \<Rightarrow> kstate \<Rightarrow> kstate \<times> int" where
  "ter_tsk_cs c t s =
     (let st = state (tcb s t)
      in if \<not> knl_task_alive st then (s, state_error st)
         else if klocked (tcb s t) then (s, E_OBJ)
         else let core = knl_ctxtsk_core t s;
                  s = (if core \<ge> 0
                       then s\<lparr>smp := (smp s)\<lparr>dispatch_disabled :=
                              (dispatch_disabled (smp s))(nat core := DDS_ENABLE)\<rparr>\<rparr>
                       else s)
              in (knl_make_dormant t (knl_ter_tsk c t s), E_OK))"

definition tk_ter_tsk :: "nat \<Rightarrow> int \<Rightarrow> kstate \<Rightarrow> kstate \<times> int" where
  "tk_ter_tsk c x s = on_task c x (ter_tsk_cs c) s"

subsection \<open>Priority and reference\<close>

definition chg_pri_cs :: "nat \<Rightarrow> nat \<Rightarrow> int \<Rightarrow> kstate \<Rightarrow> (kstate \<times> int) option" where
  "chg_pri_cs c t tskpri s =
     (if state (tcb s t) = TS_NONEXIST then Some (s, E_NOEXS)
      else let pri = (if tskpri = TPRI_INI then ipriority (tcb s t) else int_priority tskpri)
           in do {
             e \<leftarrow> knl_chg_pri_mutex t pri s;
             Some (if e < E_OK then (s, e)
                   else let s = upd_tcb t (bpriority_update (\<lambda>_. pri)) s
                        in (knl_change_task_priority c t (nat e) s, E_OK))
           })"

definition tk_chg_pri :: "nat \<Rightarrow> int \<Rightarrow> int \<Rightarrow> kstate \<Rightarrow> (kstate \<times> int) option" where
  "tk_chg_pri c x tskpri s =
     (if \<not> CHECK_TSKID_SELF c x s then Some (s, E_ID)
      else if tskpri \<noteq> TPRI_INI \<and> \<not> CHK_PRI tskpri then Some (s, E_PAR)
      else do {
        (s, e) \<leftarrow> chg_pri_cs c (get_tcb_self c x s) tskpri s;
        Some (END_CRITICAL_SECTION c s, e)
      })"

definition tk_rot_rdq :: "nat \<Rightarrow> int \<Rightarrow> kstate \<Rightarrow> kstate \<times> int" where
  "tk_rot_rdq c tskpri s =
     (if tskpri \<noteq> TPRI_RUN \<and> \<not> CHK_PRI tskpri then (s, E_PAR)
      else let s = (if tskpri = TPRI_RUN
                    then if in_indp c s then knl_rotate_ready_queue_run c s
                         else knl_rotate_ready_queue c (priority (tcb s (cur c s))) s
                    else knl_rotate_ready_queue c (int_priority tskpri) s)
           in (END_CRITICAL_SECTION c s, E_OK))"

definition tk_get_tid :: "nat \<Rightarrow> kstate \<Rightarrow> int" where
  "tk_get_tid c s = (case ctxtsk (smp s) c of None \<Rightarrow> 0 | Some t \<Rightarrow> tskid (tcb s t))"

record t_rtsk =
  rt_exinf :: UW
  rt_tskpri :: int
  rt_tskbpri :: int
  rt_tskstat :: UW
  rt_tskwait :: UW
  rt_wid :: int
  rt_wupcnt :: int
  rt_suscnt :: int

definition ref_tsk_cs :: "nat \<Rightarrow> kstate \<Rightarrow> int \<times> t_rtsk" where
  "ref_tsk_cs t s =
     (let T = tcb s t; st = state T;
          zero = \<lparr>rt_exinf = 0, rt_tskpri = 0, rt_tskbpri = 0, rt_tskstat = 0, rt_tskwait = 0, rt_wid = 0,
                  rt_wupcnt = 0, rt_suscnt = 0\<rparr>
      in if st = TS_NONEXIST then (E_NOEXS, zero)
         else (E_OK, \<lparr>rt_exinf = exinf T, rt_tskpri = ext_tskpri (priority T), rt_tskbpri = ext_tskpri (bpriority T),
                rt_tskstat = (if st = TS_READY \<and> knl_is_ctxtsk t s then 1 else push_bit 1 (tstat_code st)),
                rt_tskwait = (if in_wait st then tskwait (wspec T) else 0),
                rt_wid = (if in_wait st then wid T else 0), rt_wupcnt = wupcnt T, rt_suscnt = suscnt T\<rparr>))"

definition tk_ref_tsk :: "nat \<Rightarrow> int \<Rightarrow> kstate \<Rightarrow> kstate \<times> int \<times> t_rtsk option" where
  "tk_ref_tsk c x s =
     (if \<not> CHECK_TSKID_SELF c x s then (s, E_ID, None)
      else let (e, r) = ref_tsk_cs (get_tcb_self c x s) s
           in (END_CRITICAL_SECTION c s, e, Some r))"

definition rel_wai_cs :: "nat \<Rightarrow> nat \<Rightarrow> kstate \<Rightarrow> kstate \<times> int" where
  "rel_wai_cs c t s =
     (let st = state (tcb s t)
      in if \<not> in_wait st then (s, state_error st) else (knl_wait_release_ng c t E_RLWAI s, E_OK))"

definition tk_rel_wai :: "nat \<Rightarrow> int \<Rightarrow> kstate \<Rightarrow> kstate \<times> int" where
  "tk_rel_wai c x s =
     (if CHECK_TSKID c x s \<noteq> E_OK then (s, CHECK_TSKID c x s)
      else let (s, e) = rel_wai_cs c (get_tcb x) s in (END_CRITICAL_SECTION c s, e))"

end
