(* ===== verification/Task_Sync.thy ===== *)
theory Task_Sync
  imports Task_Manage
begin

text \<open>
  \<^verbatim>\<open>kernel/tkernel/task_sync.c\<close>, the explicit placement of \<^verbatim>\<open>smp_dispatch.c\<close>, and the dispatcher
  \<^verbatim>\<open>dispatch.S\<close>.
\<close>

subsection \<open>Suspension\<close>

definition sus_tsk_cs :: "nat \<Rightarrow> nat \<Rightarrow> kstate \<Rightarrow> kstate \<times> int" where
  "sus_tsk_cs c t s =
     (let st = state (tcb s t); core = knl_ctxtsk_core t s
      in if \<not> knl_task_alive st then (s, state_error st)
         else if klocked (tcb s t) then (s, E_OBJ)
         else if core \<ge> 0 \<and> dispatch_disabled (smp s) (nat core) \<ge> DDS_DISABLE then (s, E_CTX)
         else if suscnt (tcb s t) = INT_MAX then (s, E_QOVR)
         else let s = upd_tcb t (suscnt_update (\<lambda>n. n + 1)) s
              in (case st of
                    TS_READY \<Rightarrow> upd_tcb t (state_update (\<lambda>_. TS_SUSPEND)) (knl_make_non_ready c t s)
                  | TS_WAIT \<Rightarrow> upd_tcb t (state_update (\<lambda>_. TS_WAITSUS)) s
                  | _ \<Rightarrow> s, E_OK))"

definition tk_sus_tsk :: "nat \<Rightarrow> int \<Rightarrow> kstate \<Rightarrow> kstate \<times> int" where
  "tk_sus_tsk c x s = on_task c x (sus_tsk_cs c) s"

definition rsm_tsk_cs :: "nat \<Rightarrow> nat \<Rightarrow> kstate \<Rightarrow> kstate \<times> int" where
  "rsm_tsk_cs c t s =
     (case state (tcb s t) of
        TS_NONEXIST \<Rightarrow> (s, E_NOEXS)
      | TS_SUSPEND \<Rightarrow>
          let s = upd_tcb t (suscnt_update (\<lambda>n. n - 1)) s
          in (if suscnt (tcb s t) = 0 then knl_make_ready c t s else s, E_OK)
      | TS_WAITSUS \<Rightarrow>
          let s = upd_tcb t (suscnt_update (\<lambda>n. n - 1)) s
          in (if suscnt (tcb s t) = 0 then upd_tcb t (state_update (\<lambda>_. TS_WAIT)) s else s, E_OK)
      | _ \<Rightarrow> (s, E_OBJ))"

definition tk_rsm_tsk :: "nat \<Rightarrow> int \<Rightarrow> kstate \<Rightarrow> kstate \<times> int" where
  "tk_rsm_tsk c x s = on_task c x (rsm_tsk_cs c) s"

definition frsm_tsk_cs :: "nat \<Rightarrow> nat \<Rightarrow> kstate \<Rightarrow> kstate \<times> int" where
  "frsm_tsk_cs c t s =
     (case state (tcb s t) of
        TS_NONEXIST \<Rightarrow> (s, E_NOEXS)
      | TS_SUSPEND \<Rightarrow> (knl_make_ready c t (upd_tcb t (suscnt_update (\<lambda>_. 0)) s), E_OK)
      | TS_WAITSUS \<Rightarrow> (upd_tcb t (\<lambda>T. T\<lparr>suscnt := 0, state := TS_WAIT\<rparr>) s, E_OK)
      | _ \<Rightarrow> (s, E_OBJ))"

definition tk_frsm_tsk :: "nat \<Rightarrow> int \<Rightarrow> kstate \<Rightarrow> kstate \<times> int" where
  "tk_frsm_tsk c x s = on_task c x (frsm_tsk_cs c) s"

subsection \<open>Sleep, wakeup and delay\<close>

definition slp_tsk_cs :: "nat \<Rightarrow> int \<Rightarrow> kstate \<Rightarrow> kstate \<times> sysret" where
  "slp_tsk_cs c tmout s =
     (let t = cur c s
      in if wupcnt (tcb s t) > 0 then (upd_tcb t (wupcnt_update (\<lambda>n. n - 1)) s, Ret E_OK)
         else if tmout \<noteq> TMO_POL
         then let s = s\<lparr>ercd := (ercd s)(t := E_TMOUT)\<rparr>;
                  s = upd_tcb t (\<lambda>T. T\<lparr>wspec := Wspec_slp, wid := 0, wercd := Some t\<rparr>) s
              in (knl_make_wait c tmout s, Blocked)
         else (s, Ret E_TMOUT))"

definition tk_slp_tsk :: "nat \<Rightarrow> int \<Rightarrow> kstate \<Rightarrow> kstate \<times> sysret" where
  "tk_slp_tsk c tmout s =
     (if \<not> tmout \<ge> TMO_FEVR then (s, Ret E_PAR)
      else if in_ddsp c s then (s, Ret E_CTX)
      else let (s, r) = slp_tsk_cs c tmout s in (END_CRITICAL_SECTION c s, r))"

definition wup_tsk_cs :: "nat \<Rightarrow> nat \<Rightarrow> kstate \<Rightarrow> kstate \<times> int" where
  "wup_tsk_cs c t s =
     (let T = tcb s t; st = state T
      in if \<not> knl_task_alive st then (s, state_error st)
         else if in_wait st \<and> wspec T = Wspec_slp then (knl_wait_release_ok c t s, E_OK)
         else if wupcnt T = INT_MAX then (s, E_QOVR)
         else (upd_tcb t (wupcnt_update (\<lambda>n. n + 1)) s, E_OK))"

definition tk_wup_tsk :: "nat \<Rightarrow> int \<Rightarrow> kstate \<Rightarrow> kstate \<times> int" where
  "tk_wup_tsk c x s = on_task c x (wup_tsk_cs c) s"

definition tk_can_wup :: "nat \<Rightarrow> int \<Rightarrow> kstate \<Rightarrow> kstate \<times> int" where
  "tk_can_wup c x s =
     (if \<not> CHECK_TSKID_SELF c x s then (s, E_ID)
      else let t = get_tcb_self c x s;
               (s, e) = (case state (tcb s t) of
                           TS_NONEXIST \<Rightarrow> (s, E_NOEXS)
                         | TS_DORMANT \<Rightarrow> (s, E_OBJ)
                         | _ \<Rightarrow> (upd_tcb t (wupcnt_update (\<lambda>_. 0)) s, wupcnt (tcb s t)))
           in (END_CRITICAL_SECTION c s, e))"

definition dly_tsk_cs :: "nat \<Rightarrow> UW \<Rightarrow> kstate \<Rightarrow> kstate" where
  "dly_tsk_cs c dlytim s =
     (let t = cur c s;
          s = s\<lparr>ercd := (ercd s)(t := E_OK)\<rparr>;
          s = upd_tcb t (\<lambda>T. T\<lparr>wspec := Wspec_dly, wid := 0, wercd := Some t\<rparr>) s
      in knl_make_wait_reltim c dlytim s)"

definition tk_dly_tsk :: "nat \<Rightarrow> UW \<Rightarrow> kstate \<Rightarrow> kstate \<times> sysret" where
  "tk_dly_tsk c dlytim s =
     (if \<not> CHK_RELTIM dlytim then (s, Ret E_PAR)
      else if in_ddsp c s then (s, Ret E_CTX)
      else if dlytim > 0 then (END_CRITICAL_SECTION c (dly_tsk_cs c dlytim s), Blocked)
      else (s, Ret E_OK))"

subsection \<open>Explicit placement (smp\_dispatch.c)\<close>

definition assign_task_cs :: "nat \<Rightarrow> nat \<Rightarrow> nat \<Rightarrow> kstate \<Rightarrow> kstate \<times> int" where
  "assign_task_cs c t core s =
     (let other = (if core = 0 then 1 else 0)
      in if state (tcb s t) \<noteq> TS_READY
         then (s\<lparr>smp := (smp s)\<lparr>assign_refused := assign_refused (smp s) + 1\<rparr>\<rparr>, E_OBJ)
         else if other < TK_MAX_CORE \<and> ctxtsk (smp s) other = Some t
         then (s\<lparr>smp := (smp s)\<lparr>assign_refused := assign_refused (smp s) + 1\<rparr>\<rparr>, E_OBJ)
         else let s = knl_ready_queue_delete t s;
                  s = (if other < TK_MAX_CORE \<and> schedtsk (smp s) other = Some t
                       then s\<lparr>smp := (smp s)\<lparr>schedtsk := (schedtsk (smp s))(other := knl_ready_queue_top s)\<rparr>\<rparr> else s);
                  s = s\<lparr>smp := (smp s)\<lparr>schedtsk := (schedtsk (smp s))(core := Some t),
                         assign_count := assign_count (smp s) + 1\<rparr>\<rparr>
              in (s\<lparr>smp := knl_smp_dispatch_request c core (smp s)\<rparr>, E_OK))"

definition knl_smp_assign_task :: "nat \<Rightarrow> int \<Rightarrow> nat \<Rightarrow> kstate \<Rightarrow> kstate \<times> int" where
  "knl_smp_assign_task c x core s =
     (if core \<ge> TK_MAX_CORE then (s, E_PAR)
      else if x < 1 \<or> x > int NUM_TSKID then (s, E_ID)
      else let (s, e) = assign_task_cs c (get_tcb x) core s in (END_CRITICAL_SECTION c s, e))"

definition knl_smp_dispatch_audit :: "nat \<Rightarrow> kstate \<Rightarrow> kstate \<times> nat" where
  "knl_smp_dispatch_audit c s =
     (END_CRITICAL_SECTION c s,
      length (filter (\<lambda>(i, j). ctxtsk (smp s) i \<noteq> None \<and> ctxtsk (smp s) i = ctxtsk (smp s) j)
        (concat (map (\<lambda>i. map (Pair i) [i + 1..<TK_MAX_CORE]) [0..<TK_MAX_CORE]))))"

definition knl_smp_task_assprc :: "int \<Rightarrow> kstate \<Rightarrow> UW" where
  "knl_smp_task_assprc x s = (if x < 1 \<or> x > int NUM_TSKID then 0 else assprc (tcb s (get_tcb x)))"

definition knl_smp_running_task :: "nat \<Rightarrow> kstate \<Rightarrow> int" where
  "knl_smp_running_task core s =
     (if core \<ge> TK_MAX_CORE then 0 else case ctxtsk (smp s) core of None \<Rightarrow> 0 | Some t \<Rightarrow> tskid (tcb s t))"

subsection \<open>The dispatcher\<close>

text \<open>
  The exception handler of core \<open>c\<close>, in the three parts between which the other core can run: it saves the
  context of the outgoing task and gives it up, it loads the selected task, and it makes that task
  current. The kernel lock is held only inside \<open>knl_smp_dispatch_release\<close>.
\<close>

definition dispatch_save :: "nat \<Rightarrow> kstate \<Rightarrow> kstate option" where
  "dispatch_save c s =
     (let s = s\<lparr>smp := (smp s)\<lparr>pendsv := (pendsv (smp s))(c := False),
             dispatch_disabled := (dispatch_disabled (smp s))(c := DDS_DISABLE_IMPLICIT)\<rparr>\<rparr>
      in case ctxtsk (smp s) c of
           None \<Rightarrow> Some s
         | Some t \<Rightarrow> knl_smp_dispatch_release c t (s\<lparr>smp := (smp s)\<lparr>ctxtsk := (ctxtsk (smp s))(c := None)\<rparr>\<rparr>))"

definition dispatch_load :: "nat \<Rightarrow> kstate \<Rightarrow> nat" where
  "dispatch_load c s = (case schedtsk (smp s) c of Some t \<Rightarrow> t | None \<Rightarrow> idletsk c)"

definition dispatch_store :: "nat \<Rightarrow> nat \<Rightarrow> kstate \<Rightarrow> kstate" where
  "dispatch_store c t s = s\<lparr>smp := (smp s)\<lparr>ctxtsk := (ctxtsk (smp s))(c := Some t),
     dispatch_disabled := (dispatch_disabled (smp s))(c := DDS_ENABLE), primask := (primask (smp s))(c := False)\<rparr>\<rparr>"

definition knl_dispatch_entry :: "nat \<Rightarrow> kstate \<Rightarrow> kstate option" where
  "knl_dispatch_entry c s = do {
     s \<leftarrow> dispatch_save c s;
     Some (dispatch_store c (dispatch_load c s) s)
   }"

end
