(* ===== verification/Mutex_Props.thy ===== *)
theory Mutex_Props
  imports Task_Sync Sched_Props
begin

text \<open>
  Changes of priorities, and the mutexes: the kernel invariant survives \<open>knl_change_task_priority\<close> and every
  hook that it calls, and its recursion along the owners of mutexes ends.
\<close>

subsection \<open>Effect of a hook\<close>

text \<open>\<open>woken s s'\<close>: some waiting tasks have been released or moved in their queue, and nothing else about the tasks and mutexes changed.\<close>

definition woken :: "kstate \<Rightarrow> kstate \<Rightarrow> bool" where
  "woken s s' \<longleftrightarrow> kwf s' \<and> mtx s' = mtx s \<and> fault s' = fault s \<and>
     (\<forall>t. tcb s' t = tcb s t \<or> in_wait (state (tcb s t)) \<and> tcb s' t = released (tcb s t))"

lemma woken_refl: "kwf s \<Longrightarrow> woken s s"
  by (simp add: woken_def)

lemma woken_trans: "woken s s1 \<Longrightarrow> woken s1 s2 \<Longrightarrow> woken s s2"
  unfolding woken_def by (metis released_sel(12))

lemma woken_kwf: "woken s s' \<Longrightarrow> kwf s'"
  by (simp add: woken_def)

lemma woken_mtx: "woken s s' \<Longrightarrow> mtx s' = mtx s"
  by (simp add: woken_def)

lemma woken_keep:
  assumes "woken s s'"
  shows "priority (tcb s' t) = priority (tcb s t)" "bpriority (tcb s' t) = bpriority (tcb s t)"
    "mtxlist (tcb s' t) = mtxlist (tcb s t)" "wspec (tcb s' t) = wspec (tcb s t)" "wid (tcb s' t) = wid (tcb s t)"
    "\<not> in_wait (state (tcb s t)) \<Longrightarrow> tcb s' t = tcb s t"
    "state (tcb s' t) = TS_NONEXIST \<longleftrightarrow> state (tcb s t) = TS_NONEXIST"
proof -
  have "tcb s' t = tcb s t \<or> in_wait (state (tcb s t)) \<and> tcb s' t = released (tcb s t)"
    using assms by (simp add: woken_def)
  moreover have "state (released (tcb s t)) \<noteq> TS_NONEXIST" by (simp add: released_def)
  moreover have "in_wait (state (tcb s t)) \<Longrightarrow> state (tcb s t) \<noteq> TS_NONEXIST" by auto
  ultimately show "priority (tcb s' t) = priority (tcb s t)" "bpriority (tcb s' t) = bpriority (tcb s t)"
    "mtxlist (tcb s' t) = mtxlist (tcb s t)" "wspec (tcb s' t) = wspec (tcb s t)" "wid (tcb s' t) = wid (tcb s t)"
    "\<not> in_wait (state (tcb s t)) \<Longrightarrow> tcb s' t = tcb s t"
    "state (tcb s' t) = TS_NONEXIST \<longleftrightarrow> state (tcb s t) = TS_NONEXIST"
    by (metis released_sel)+
qed

text \<open>Fields that neither the invariant nor the effect reads.\<close>

lemma woken_cong:
  assumes "woken s s1" "kwf s2" "tcb s2 = tcb s1" "mtx s2 = mtx s1" "fault s2 = fault s1"
  shows "woken s s2"
  using assms by (simp add: woken_def)

lemma woken_release:
  assumes "kwf s" "t < NUM_TSKID" "in_wait (state (tcb s t))"
  shows "woken s (knl_wait_release_ok c t s)"
proof -
  have "wercd (tcb s t) = Some t" using tcbs_okD[OF kwfD(2)[OF assms(1)] assms(2)] assms(3) by (auto simp: tcb_ok_def)
  then show ?thesis
    using kwf_wait_release_ok(2)[OF assms, of c] assms(3) by (simp add: woken_def wait_release_ok_ercd_val wait_release_ok_eq)
qed

lemma woken_release_ring:
  assumes "kwf s" "t \<in> set (que s q)" "\<And>p. q \<noteq> RdyQ p" "q \<noteq> FreeTcb" "\<And>k. q \<noteq> LockQ k"
  shows "woken s (knl_wait_release_ok c t s)"
  using woken_release[OF assms(1) ring_waiting(1,2)[OF assms]] .

lemma woken_requeue:
  assumes "kwf s" "t \<in> set (que s q)" "\<And>p. q \<noteq> RdyQ p" "q \<noteq> FreeTcb" "\<And>k. q \<noteq> LockQ k"
  shows "woken s (knl_gcb_change_priority q t s)"
  using kwf_gcb_change_priority[OF assms] by (simp add: woken_def)

text \<open>The ring of a waiting task.\<close>

lemma waiting_in_ring:
  assumes "kwf s" "t < NUM_TSKID" "in_wait (state (tcb s t))" "wring (tcb s t) = Some q"
  shows "t \<in> set (que s q)"
proof -
  have "needs_home (tcb s t)" using assms by (simp add: needs_home_def)
  then obtain h where h: "t \<in> set (que s h)" using kwfD(1)[OF assms(1)] assms(2) by (auto simp: loc_ok_def)
  have "at_home (tcb s t) h" using loc_okD(3)[OF kwfD(1)[OF assms(1)] h] .
  then have "h = q" using assms(3,4) by (cases h) (auto simp: at_home_def)
  then show ?thesis using h by simp
qed

subsection \<open>The hooks\<close>

lemma woken_sem_chg_loop:
  assumes "kwf s" "distinct q" "\<forall>u\<in>set q. u < NUM_TSKID \<and> in_wait (state (tcb s u))"
  shows "woken s (sem_chg_loop c i q s)"
  using assms
proof (induction q arbitrary: s)
  case (Cons u q)
  let ?s = "knl_wait_release_ok c u s"
  let ?s' = "upd_sem i (\<lambda>S. S\<lparr>semcnt := semcnt S - sem_cnt (winfo (tcb ?s u))\<rparr>) ?s"
  have w: "woken s ?s" using Cons.prems by (intro woken_release) auto
  then have w': "woken s ?s'" by (rule woken_cong) (use w in \<open>simp_all add: upd_sem_def woken_def\<close>)
  have "woken ?s' (sem_chg_loop c i q ?s')"
    by (rule Cons.IH) (use Cons.prems w' in \<open>auto simp: woken_def upd_sem_def\<close>)
  from woken_trans[OF w' this] woken_refl[OF Cons.prems(1)] show ?case by (simp add: Let_def)
qed (simp add: woken_refl)

lemma woken_ring_members:
  assumes "kwf s" "\<And>p. q \<noteq> RdyQ p" "q \<noteq> FreeTcb" "\<And>k. q \<noteq> LockQ k"
  shows "distinct (que s q)" "\<forall>u\<in>set (que s q). u < NUM_TSKID \<and> in_wait (state (tcb s u))"
  using loc_okD(1)[OF kwfD(1)[OF assms(1)]] ring_waiting(1,2)[OF assms(1) _ assms(2-)] by auto

lemma woken_sem_chg_pri:
  assumes "kwf s" "0 \<le> oldpri \<Longrightarrow> t \<in> set (que s (SemQ (get_semcb (wid (tcb s t)))))"
  shows "woken s (sem_chg_pri c t oldpri s)"
proof -
  let ?i = "get_semcb (wid (tcb s t))"
  let ?s = "if oldpri \<ge> 0 then knl_gcb_change_priority (SemQ ?i) t s else s"
  have w: "woken s ?s" using woken_requeue[OF assms(1), of t "SemQ ?i"] assms by (simp add: woken_refl)
  note k = woken_kwf[OF w]
  have "woken ?s (sem_chg_loop c ?i (que ?s (SemQ ?i)) ?s)"
    by (rule woken_sem_chg_loop[OF k]) (use woken_ring_members[OF k, of "SemQ ?i"] in auto)
  from woken_trans[OF w this] w show ?thesis by (simp add: sem_chg_pri_def Let_def)
qed

lemma woken_mbf_wakeup_loop: "kwf s \<Longrightarrow> woken s (mbf_wakeup_loop n c i s)"
proof (induction n arbitrary: s)
  case (Suc n)
  show ?case
  proof (cases "que s (SmbfQ i)")
    case (Cons u q)
    let ?w = "winfo (tcb s u)"
    let ?s = "knl_msg_to_mbf i (smbf_msg ?w) (smbf_msgsz ?w) s"
    have f: "tcb ?s = tcb s" "que ?s = que s" "mtx ?s = mtx s" "kwf ?s" "fault ?s = fault s"
      using Suc.prems by (simp_all add: knl_msg_to_mbf_def upd_mbf_def Let_def split: prod.splits)
    have "woken ?s (knl_wait_release_ok c u ?s)"
      by (rule woken_release_ring[OF f(4), of u "SmbfQ i"]) (use f Cons in auto)
    then have w: "woken s (knl_wait_release_ok c u ?s)" using f by (simp add: woken_def)
    from woken_trans[OF w Suc.IH[OF woken_kwf[OF w]]] woken_refl[OF Suc.prems] Cons show ?thesis
      by (simp add: Let_def)
  qed (simp add: woken_refl Suc.prems)
qed (simp add: woken_refl)

lemma woken_mbf_chg_pri:
  assumes "kwf s" "0 \<le> oldpri \<Longrightarrow> t \<in> set (que s (SmbfQ (get_mbfcb (wid (tcb s t)))))"
  shows "woken s (knl_mbf_chg_pri c t oldpri s)"
proof -
  let ?i = "get_mbfcb (wid (tcb s t))"
  let ?s = "if oldpri \<ge> 0 then knl_gcb_change_priority (SmbfQ ?i) t s else s"
  have w: "woken s ?s" using woken_requeue[OF assms(1), of t "SmbfQ ?i"] assms by (simp add: woken_refl)
  from woken_trans[OF w woken_mbf_wakeup_loop[OF woken_kwf[OF w]]] show ?thesis
    by (simp add: knl_mbf_chg_pri_def knl_mbf_wakeup_def Let_def)
qed

lemma woken_mpl_wakeup_loop: "kwf s \<Longrightarrow> mpl_wakeup_loop n c i s = Some s' \<Longrightarrow> woken s s'"
proof (induction n arbitrary: s)
  case (Suc n)
  show ?case
  proof (cases "que s (MplQ i)")
    case (Cons u q)
    show ?thesis
    proof (cases "mpl_blksz (winfo (tcb s u)) > knl_MaxFreeSize (mem s) (mplcb_at s i)")
      case False
      then obtain m blk where g: "knl_get_blk (mplcb_at s i) (mpl_mempool (mpl s i)) (mpl_blksz (winfo (tcb s u))) (mem s) = Some (m, blk)"
        "mpl_wakeup_loop n c i (knl_wait_release_ok c u (s\<lparr>mem := st32 (mpl_p_blk (winfo (tcb s u))) blk m\<rparr>)) = Some s'"
        using Suc.prems(2) Cons by (auto simp: Let_def bind_eq_Some_conv)
      let ?s = "s\<lparr>mem := st32 (mpl_p_blk (winfo (tcb s u))) blk m\<rparr>"
      have "woken ?s (knl_wait_release_ok c u ?s)"
        by (rule woken_release_ring[of ?s u "MplQ i"]) (use Suc.prems Cons in auto)
      then have w: "woken s (knl_wait_release_ok c u ?s)" by (simp add: woken_def)
      from woken_trans[OF w Suc.IH[OF woken_kwf[OF w] g(2)]] show ?thesis .
    qed (use Suc.prems Cons in \<open>simp add: woken_refl\<close>)
  qed (use Suc.prems in \<open>simp add: woken_refl\<close>)
qed (simp add: woken_refl)

lemma woken_mpl_chg_pri:
  assumes "kwf s" "0 \<le> oldpri \<Longrightarrow> t \<in> set (que s (MplQ (get_mplcb (wid (tcb s t)))))"
  shows "returned s (mpl_chg_pri c t oldpri s) = s\<lparr>fault := True\<rparr> \<or> woken s (returned s (mpl_chg_pri c t oldpri s))"
proof -
  let ?i = "get_mplcb (wid (tcb s t))"
  let ?s = "if oldpri \<ge> 0 then knl_gcb_change_priority (MplQ ?i) t s else s"
  have w: "woken s ?s" using woken_requeue[OF assms(1), of t "MplQ ?i"] assms by (simp add: woken_refl)
  have "woken s s'" if "mpl_wakeup_loop n c ?i ?s = Some s'" for n s'
    using woken_trans[OF w woken_mpl_wakeup_loop[OF woken_kwf[OF w] that]] .
  then show ?thesis
    by (cases "mpl_chg_pri c t oldpri s") (auto simp: returned_def mpl_chg_pri_def knl_mpl_wakeup_def Let_def)
qed

subsection \<open>Changes of priorities keep the invariant\<close>

text \<open>
  \<open>mtx_ok\<close>: owners exist and ceilings are in range. \<open>repri s s'\<close>: priorities have changed and waiting tasks have
  been released or moved.
\<close>

definition mtx_ok :: "kstate \<Rightarrow> bool" where
  "mtx_ok s \<longleftrightarrow> (\<forall>m. ceilpri (mtx s m) < NUM_TSKPRI \<and>
     (\<forall>u. mtxtsk (mtx s m) = Some u \<longrightarrow> u < NUM_TSKID \<and> state (tcb s u) \<noteq> TS_NONEXIST))"

definition repri :: "kstate \<Rightarrow> kstate \<Rightarrow> bool" where
  "repri s s' \<longleftrightarrow> kwf s' \<and> mtx s' = mtx s \<and>
     (\<forall>t. wspec (tcb s' t) = wspec (tcb s t) \<and> wid (tcb s' t) = wid (tcb s t) \<and>
        bpriority (tcb s' t) = bpriority (tcb s t) \<and> mtxlist (tcb s' t) = mtxlist (tcb s t) \<and>
        (\<not> in_wait (state (tcb s t)) \<longrightarrow> state (tcb s' t) = state (tcb s t)) \<and>
        (state (tcb s' t) = TS_NONEXIST \<longleftrightarrow> state (tcb s t) = TS_NONEXIST))"

lemma repri_refl: "kwf s \<Longrightarrow> repri s s"
  by (simp add: repri_def)

lemma repri_trans: "repri s s1 \<Longrightarrow> repri s1 s2 \<Longrightarrow> repri s s2"
  unfolding repri_def by (metis tstat.distinct)

lemma repri_kwf: "repri s s' \<Longrightarrow> kwf s'"
  by (simp add: repri_def)

lemma repri_mtx_ok: "repri s s' \<Longrightarrow> mtx_ok s \<Longrightarrow> mtx_ok s'"
  by (simp add: repri_def mtx_ok_def)

lemma woken_repri: "woken s s' \<Longrightarrow> repri s s'"
  using woken_keep[of s s'] by (auto simp: repri_def woken_kwf woken_mtx)

lemma repri_fault: "kwf s \<Longrightarrow> repri s (s\<lparr>fault := b\<rparr>)"
  by (simp add: repri_def)

lemma requeue_ready_tcb:
  "tcb (knl_reschedule c (fst (knl_ready_queue_insert t
      (upd_tcb t (priority_update (\<lambda>_. p)) (knl_ready_queue_delete t s))))) =
    (tcb s)(t := (tcb s t)\<lparr>klockwait := False, priority := p\<rparr>)"
  "mtx (knl_reschedule c (fst (knl_ready_queue_insert t
      (upd_tcb t (priority_update (\<lambda>_. p)) (knl_ready_queue_delete t s))))) = mtx s"
  "fault (knl_reschedule c (fst (knl_ready_queue_insert t
      (upd_tcb t (priority_update (\<lambda>_. p)) (knl_ready_queue_delete t s))))) = fault s"
  by (simp_all add: knl_ready_queue_insert_def knl_ready_queue_delete_eq knl_smp_reschedule_all_def Let_def)

lemma mtx_pri_less:
  assumes "kwf s" "mtx_ok s" "pri < NUM_TSKPRI"
  shows "mtx_pri m pri s < NUM_TSKPRI"
proof -
  have "mtx_head_pri m s < NUM_TSKPRI" if "mtx_waited m s"
    using that ring_waiting(5)[OF assms(1), of "hd (que s (MtxQ m))" "MtxQ m"]
    by (simp add: mtx_waited_def mtx_head_pri_def)
  then show ?thesis using assms(2,3) by (simp add: mtx_pri_def mtx_ok_def)
qed

text \<open>A pass over the list of mutexes that releases none only reads.\<close>

lemma release_loop_None:
  "\<exists>b np. release_loop n t None p newpri pri s = (s\<lparr>fault := b\<rparr>, np) \<and> (b \<longrightarrow> True) \<and>
     (kwf s \<longrightarrow> mtx_ok s \<longrightarrow> newpri < NUM_TSKPRI \<longrightarrow> pri < NUM_TSKPRI \<longrightarrow> np < NUM_TSKPRI)"
proof (induction n arbitrary: p newpri pri)
  case 0
  show ?case by (rule exI[of _ True]) simp
next
  case (Suc n)
  show ?case
  proof (cases "get_prev t p s")
    case None
    then show ?thesis by (intro exI[of _ "fault s"]) simp
  next
    case (Some m)
    let ?pri = "mtx_pri m pri s"
    obtain b np where "release_loop n t None (Some m) (if newpri > ?pri then ?pri else newpri) ?pri s = (s\<lparr>fault := b\<rparr>, np)"
      "kwf s \<longrightarrow> mtx_ok s \<longrightarrow> (if newpri > ?pri then ?pri else newpri) < NUM_TSKPRI \<longrightarrow> ?pri < NUM_TSKPRI \<longrightarrow> np < NUM_TSKPRI"
      using Suc.IH[of "Some m" "if newpri > ?pri then ?pri else newpri" ?pri] by blast
    then show ?thesis using Some mtx_pri_less[of s pri m] by (auto simp: Let_def)
  qed
qed

lemma repri_release_mutex_None:
  assumes k: "kwf s" and m: "mtx_ok s" and t: "t < NUM_TSKID" "state (tcb s t) \<noteq> TS_NONEXIST"
    and chg: "\<And>p s'. kwf s' \<Longrightarrow> mtx_ok s' \<Longrightarrow> p < NUM_TSKPRI \<Longrightarrow> repri s' (chg t p s')"
  shows "repri s (release_mutex chg t None s)"
proof -
  have b: "bpriority (tcb s t) < NUM_TSKPRI" using tcbs_okD[OF kwfD(2)[OF k] t(1)] t(2) by (simp add: tcb_ok_def)
  obtain f np where r: "release_loop MTX_FUEL t None None (bpriority (tcb s t)) (bpriority (tcb s t)) s = (s\<lparr>fault := f\<rparr>, np)"
    "np < NUM_TSKPRI"
    using release_loop_None[of MTX_FUEL t None "bpriority (tcb s t)" "bpriority (tcb s t)" s] k m b by blast
  have w: "repri s (s\<lparr>fault := f\<rparr>)" using k by (simp add: repri_def)
  have "repri (s\<lparr>fault := f\<rparr>) (chg t np (s\<lparr>fault := f\<rparr>))"
    by (rule chg) (use k m r in \<open>simp_all add: mtx_ok_def\<close>)
  from repri_trans[OF w this] w show ?thesis by (simp add: release_mutex_def r del: release_loop.simps)
qed


text \<open>A task that the hook finds waiting, its priority already changed.\<close>

lemma hook_in_ring:
  assumes "kwf s" "t < NUM_TSKID" "in_wait (state (tcb s t))" "wait_ring (wspec (tcb s t)) (nat (wid (tcb s t) - 1)) = Some q"
  shows "t \<in> set (que s q)"
  by (rule waiting_in_ring[OF assms(1-3)]) (simp add: wring_def assms(4))

lemma repri_call_chg_pri:
  assumes k: "kwf s" and m: "mtx_ok s" and t: "t < NUM_TSKID" "in_wait (state (tcb s t))"
    and h: "chg_pri_hook (wspec (tcb s t)) = Some h" and old: "0 \<le> oldpri"
    and chg: "\<And>u p s'. kwf s' \<Longrightarrow> mtx_ok s' \<Longrightarrow> u < NUM_TSKID \<Longrightarrow> p < NUM_TSKPRI \<Longrightarrow> repri s' (chg u p s')"
  shows "repri s (call_chg_pri chg c h t oldpri s)"
proof -
  note ring = hook_in_ring[OF k t]
  have mtx: "repri s (mtx_chg_pri chg t oldpri s)" if "t \<in> set (que s (MtxQ (get_mtxcb (wid (tcb s t)))))"
  proof -
    let ?i = "get_mtxcb (wid (tcb s t))"
    let ?s = "knl_gcb_change_priority (MtxQ ?i) t s"
    have w: "woken s ?s" by (rule woken_requeue[OF k that]) auto
    have m': "mtx_ok ?s" using m w by (simp add: mtx_ok_def woken_mtx)
    have p: "priority (tcb s t) < NUM_TSKPRI"
      using tcbs_okD[OF kwfD(2)[OF k] t(1)] t(2) by (auto simp: tcb_ok_def)
    have own: "u < NUM_TSKID \<and> state (tcb ?s u) \<noteq> TS_NONEXIST" if "mtxtsk (mtx ?s ?i) = Some u" for u
      using m' that by (auto simp: mtx_ok_def)
    have "repri ?s (mtx_chg_pri chg t oldpri s)"
    proof (cases "mtxtsk (mtx ?s ?i)")
      case None
      then show ?thesis using woken_kwf[OF w] by (simp add: mtx_chg_pri_def Let_def repri_def)
    next
      case (Some u)
      note o = own[OF Some]
      have "repri ?s (chg u (priority (tcb s t)) ?s)" using chg[OF woken_kwf[OF w] m' _ p] o by blast
      moreover have "repri ?s (release_mutex chg u None ?s)"
        by (rule repri_release_mutex_None[OF woken_kwf[OF w] m']) (use o chg in auto)
      ultimately show ?thesis using Some repri_refl[OF woken_kwf[OF w]] by (simp add: mtx_chg_pri_def Let_def)
    qed
    from repri_trans[OF woken_repri[OF w] this] show ?thesis .
  qed
  have mpl: "repri s (returned s (mpl_chg_pri c t oldpri s))" if "t \<in> set (que s (MplQ (get_mplcb (wid (tcb s t)))))"
    using woken_mpl_chg_pri[OF k that, where oldpri = oldpri and c = c] repri_fault[OF k] woken_repri by auto
  have gcb: "repri s (knl_gcb_change_priority q t s)" if "t \<in> set (que s q)" "\<And>p. q \<noteq> RdyQ p" "q \<noteq> FreeTcb" "\<And>k. q \<noteq> LockQ k" for q
    using woken_repri[OF woken_requeue[OF k that]] .
  show ?thesis
    using h ring old woken_repri[OF woken_sem_chg_pri[OF k, of oldpri t c]] woken_repri[OF woken_mbf_chg_pri[OF k, of oldpri t c]]
      mpl gcb mtx
    by (cases "wspec (tcb s t)")
      (auto simp: call_chg_pri_def flg_chg_pri_def mbx_chg_pri_def knl_mpf_chg_pri_def get_semcb_def get_flgcb_def
        get_mbxcb_def get_mtxcb_def get_mbfcb_def get_mplcb_def get_mpfcb_def)
qed

lemma repri_change_task_priority:
  assumes "kwf s" "mtx_ok s" "t < NUM_TSKID" "pri < NUM_TSKPRI"
  shows "repri s (change_task_priority n c t pri s)"
  using assms
proof (induction n arbitrary: s t pri)
  case 0
  then show ?case by (simp add: repri_def)
next
  case (Suc n)
  show ?case
  proof (cases "state (tcb s t) = TS_READY")
    case True
    from kwf_requeue_ready[OF Suc.prems(1,3) True Suc.prems(4), of c] requeue_ready_tcb[where c = c and t = t and p = pri and s = s] True show ?thesis
      by (simp add: repri_def Let_def)
  next
    case False
    let ?s = "upd_tcb t (priority_update (\<lambda>_. pri)) s"
    have k: "kwf ?s" by (rule kwf_set_priority[OF Suc.prems(1,3) False Suc.prems(4)])
    have r: "repri s ?s" using k by (auto simp: repri_def)
    have m: "mtx_ok ?s" by (rule repri_mtx_ok[OF r Suc.prems(2)])
    have "repri ?s (call_chg_pri (change_task_priority n c) c h t (int (priority (tcb s t))) ?s)"
      if "chg_pri_hook (wspec (tcb ?s t)) = Some h" "in_wait (state (tcb ?s t))" for h
      by (rule repri_call_chg_pri[OF k m Suc.prems(3) that(2,1)]) (use Suc.IH in auto)
    then show ?thesis using False r repri_trans[OF r] by (auto simp: Let_def split: option.split)
  qed
qed

lemmas repri_chg_pri = repri_change_task_priority[where n = CHG_FUEL, folded knl_change_task_priority_def]


subsection \<open>The recursion ends\<close>

text \<open>
  What the recursion relies on. \<open>chains_ok\<close>: a mutex that a task waits for is owned, and the lists of locked mutexes are not
  longer than the number of mutexes. \<open>pools_serve\<close>: the hook of a variable-size pool serves the tasks that wait for the pool, which walks
  the rings in the pool's memory; for every order in which the tasks that now wait can be served, each search of the pool for a block
  returns. A pool for which nobody waits is not walked.
\<close>

primrec mtx_list_within :: "nat \<Rightarrow> nat option \<Rightarrow> kstate \<Rightarrow> bool" where
  "mtx_list_within 0 nxt s \<longleftrightarrow> nxt = None"
| "mtx_list_within (Suc n) nxt s \<longleftrightarrow> (case nxt of None \<Rightarrow> True | Some m \<Rightarrow> mtx_list_within n (mtx_next (mtx s m)) s)"

definition chains_ok :: "kstate \<Rightarrow> bool" where
  "chains_ok s \<longleftrightarrow>
     (\<forall>u<NUM_TSKID. mtx_list_within NUM_MTXID (mtxlist (tcb s u)) s \<and>
        (wspec (tcb s u) \<in> {Wspec_mtx_tpri, Wspec_mtx_inherit} \<longrightarrow> in_wait (state (tcb s u)) \<longrightarrow>
           mtxtsk (mtx s (get_mtxcb (wid (tcb s u)))) \<noteq> None))"

primrec pool_serves :: "kstate \<Rightarrow> nat \<Rightarrow> nat list \<Rightarrow> memory \<Rightarrow> bool" where
  "pool_serves s i [] m \<longleftrightarrow> True"
| "pool_serves s i (u # us) m \<longleftrightarrow>
     (mpl_blksz (winfo (tcb s u)) > knl_MaxFreeSize m (mplcb_at s i) \<or>
      (case knl_get_blk (mplcb_at s i) (mpl_mempool (mpl s i)) (mpl_blksz (winfo (tcb s u))) m of
         None \<Rightarrow> False
       | Some (m', blk) \<Rightarrow> pool_serves s i us (st32 (mpl_p_blk (winfo (tcb s u))) blk m')))"

definition pools_serve :: "kstate \<Rightarrow> bool" where
  "pools_serve s \<longleftrightarrow> (\<forall>i us. distinct us \<longrightarrow> set us \<subseteq> set (que s (MplQ i)) \<longrightarrow> pool_serves s i us (mem s))"

lemma pool_serves_cong:
  assumes "mplcb_at s' = mplcb_at s" "mpl s' = mpl s" "\<And>u. winfo (tcb s' u) = winfo (tcb s u)"
  shows "pool_serves s' i us m = pool_serves s i us m"
  by (induction us arbitrary: m) (auto simp: assms split: option.split)

lemma pools_serve_keep:
  assumes "pools_serve s" "mplcb_at s' = mplcb_at s" "mpl s' = mpl s" "mem s' = mem s" "\<And>u. winfo (tcb s' u) = winfo (tcb s u)"
    "\<And>i. set (que s' (MplQ i)) \<subseteq> set (que s (MplQ i))"
  shows "pools_serve s'"
  using assms(1,6) unfolding pools_serve_def pool_serves_cong[OF assms(2,3,5)] assms(4) by blast

lemma mpl_wakeup_returns:
  assumes "kwf s'" "pool_serves s i (que s' (MplQ i)) (mem s')" "mplcb_at s' = mplcb_at s" "mpl s' = mpl s"
    "\<And>u. winfo (tcb s' u) = winfo (tcb s u)"
  shows "knl_mpl_wakeup c i s' \<noteq> None"
proof -
  have "mpl_wakeup_loop (length us) c i s' \<noteq> None" if "que s' (MplQ i) = us" for us
    using assms that
  proof (induction us arbitrary: s')
    case (Cons u us)
    show ?case
    proof (cases "mpl_blksz (winfo (tcb s u)) > knl_MaxFreeSize (mem s') (mplcb_at s i)")
      case True
      then show ?thesis using Cons.prems by simp
    next
      case False
      then obtain m blk where g: "knl_get_blk (mplcb_at s i) (mpl_mempool (mpl s i)) (mpl_blksz (winfo (tcb s u))) (mem s') = Some (m, blk)"
        "pool_serves s i us (st32 (mpl_p_blk (winfo (tcb s u))) blk m)"
        using Cons.prems(2,6) by (auto split: option.splits)
      let ?s1 = "s'\<lparr>mem := st32 (mpl_p_blk (winfo (tcb s u))) blk m\<rparr>"
      let ?s2 = "knl_wait_release_ok c u ?s1"
      have r: "u \<in> set (que ?s1 (MplQ i))" using Cons.prems(6) by simp
      have k1: "kwf ?s1" using Cons.prems(1) by simp
      have "kwf ?s2" by (rule woken_kwf[OF woken_release_ring[OF k1 r]]) auto
      moreover have q: "que ?s2 (MplQ i) = us" using Cons.prems(6) by (simp add: q_release_other)
      moreover have "winfo (tcb ?s2 v) = winfo (tcb s v)" for v using Cons.prems(5) by simp
      ultimately have "mpl_wakeup_loop (length us) c i ?s2 \<noteq> None"
        using Cons.prems(3,4) g(2) by (intro Cons.IH) simp_all
      then show ?thesis using False Cons.prems(3-6) g(1) by simp
    qed
  qed simp
  then show ?thesis by (simp add: knl_mpl_wakeup_def)
qed

lemma mtx_list_within_cong: "mtx s' = mtx s \<Longrightarrow> mtx_list_within n nxt s' = mtx_list_within n nxt s"
  by (induction n arbitrary: nxt) (auto split: option.split)

lemma release_loop_ends:
  assumes "mtx_list_within n (get_prev t p s) s"
  shows "\<exists>np. release_loop (Suc n) t None p newpri pri s = (s, np)"
  using assms
proof (induction n arbitrary: p newpri pri)
  case (Suc n)
  show ?case
  proof (cases "get_prev t p s")
    case (Some m)
    then have "mtx_list_within n (get_prev t (Some m) s) s" using Suc.prems by (simp add: get_prev_def)
    from Suc.IH[OF this] show ?thesis using Some by (subst release_loop.simps) (simp add: Let_def del: release_loop.simps)
  qed simp
qed simp

text \<open>
  The measure. A raise to \<open>new\<close> can go on only through tasks of a lower priority than \<open>new\<close>, and makes each
  of them one of priority \<open>new\<close>. A lowering from \<open>old\<close> goes on through tasks that have exactly the priority
  \<open>old\<close>, and takes each of them away from it, until it turns into a raise. So a chain ends even where tasks wait
  for each other in a circle.
\<close>

definition chg_need :: "nat \<Rightarrow> nat \<Rightarrow> kstate \<Rightarrow> nat" where
  "chg_need t new s =
     (let old = priority (tcb s t)
      in if new < old then card {u. u < NUM_TSKID \<and> priority (tcb s u) > new}
         else if new > old then card {u. u < NUM_TSKID \<and> priority (tcb s u) = old} + NUM_TSKID
         else 2 * NUM_TSKID + 1)"

lemma card_tasks: "card {u. u < NUM_TSKID \<and> P u} \<le> NUM_TSKID"
  using card_mono[of "{..<NUM_TSKID}" "{u. u < NUM_TSKID \<and> P u}"] by auto

lemma card_tasks_less:
  assumes "\<And>u. Q u \<Longrightarrow> P u" "t < NUM_TSKID" "P t" "\<not> Q t"
  shows "card {u. u < NUM_TSKID \<and> Q u} < card {u. u < NUM_TSKID \<and> P u}"
  by (rule psubset_card_mono) (use assms in auto)

lemma chg_need_next:
  assumes t: "t < NUM_TSKID" and s1: "priority (tcb s1 t) = new" "\<And>u. u \<noteq> t \<Longrightarrow> priority (tcb s1 u) = priority (tcb s u)"
  shows "priority (tcb s1 u) > new \<Longrightarrow> chg_need u new s1 < chg_need t new s"
    and "\<not> priority (tcb s1 u) > new \<Longrightarrow> priority (tcb s1 u) = priority (tcb s t) \<Longrightarrow> new' \<noteq> priority (tcb s1 u) \<Longrightarrow>
      chg_need u new' s1 < chg_need t new s"
proof -
  let ?old = "priority (tcb s t)"
  have N: "NUM_TSKID > 0" by (simp add: size_defs)
  have c1: "card {u. u < NUM_TSKID \<and> priority (tcb s1 u) > new} < card {u. u < NUM_TSKID \<and> priority (tcb s u) > new}"
    if "new < ?old"
    by (rule card_tasks_less[OF _ t]) (use s1 that in \<open>metis less_irrefl\<close>)+
  have c2: "card {u. u < NUM_TSKID \<and> priority (tcb s1 u) = ?old} < card {u. u < NUM_TSKID \<and> priority (tcb s u) = ?old}"
    if "new \<noteq> ?old"
    by (rule card_tasks_less[OF _ t]) (use s1 that in metis)+
  note le = card_tasks[of "\<lambda>u. priority (tcb s1 u) > p" for p] card_tasks[of "\<lambda>u. priority (tcb s1 u) = p" for p]
  show "chg_need u new s1 < chg_need t new s" if u: "priority (tcb s1 u) > new"
  proof (cases new ?old rule: linorder_cases)
    case less
    then show ?thesis using u c1 by (simp add: chg_need_def)
  next
    case equal
    then show ?thesis using u le(1)[of new] by (simp add: chg_need_def)
  next
    case greater
    then show ?thesis using u c2 le(1)[of new] by (simp add: chg_need_def)
  qed
  show "chg_need u new' s1 < chg_need t new s"
    if u: "\<not> priority (tcb s1 u) > new" "priority (tcb s1 u) = ?old" "new' \<noteq> priority (tcb s1 u)"
  proof (cases "new = ?old")
    case True
    then show ?thesis using u le(1)[of new'] le(2)[of ?old] by (auto simp: chg_need_def Let_def)
  next
    case False
    then have "?old < new" using u by simp
    then show ?thesis using u c2[OF False] le(1)[of new'] by (auto simp: chg_need_def Let_def)
  qed
qed


lemma mpl_chg_pri_no_fault:
  assumes k: "kwf s" and p: "pools_serve s" and f: "\<not> fault s" and t: "0 \<le> oldpri \<Longrightarrow> t \<in> set (que s (MplQ (get_mplcb (wid (tcb s t)))))"
  shows "\<not> fault (returned s (mpl_chg_pri c t oldpri s))"
proof -
  let ?i = "get_mplcb (wid (tcb s t))"
  let ?s = "if oldpri \<ge> 0 then knl_gcb_change_priority (MplQ ?i) t s else s"
  have w: "woken s ?s" using woken_requeue[OF k, of t "MplQ ?i"] t by (simp add: woken_refl k)
  have q: "set (que ?s (MplQ ?i)) \<subseteq> set (que s (MplQ ?i))"
    using t loc_okD(1)[OF kwfD(1)[OF k], of "MplQ ?i"] by (auto simp: gcb_change_priority_que[OF k])
  have "distinct (que ?s (MplQ ?i))" using loc_okD(1)[OF kwfD(1)[OF woken_kwf[OF w]]] .
  then have "pool_serves s ?i (que ?s (MplQ ?i)) (mem s)" using p q unfolding pools_serve_def by blast
  moreover have "mem ?s = mem s" by simp
  ultimately have "pool_serves s ?i (que ?s (MplQ ?i)) (mem ?s)" by metis
  from mpl_wakeup_returns[OF woken_kwf[OF w] this] obtain s' where s': "knl_mpl_wakeup c ?i ?s = Some s'" by fastforce
  then have "woken ?s s'" using woken_mpl_wakeup_loop[OF woken_kwf[OF w]] by (simp add: knl_mpl_wakeup_def)
  then have "fault s' = fault s" using w by (simp add: woken_def)
  then show ?thesis using s' f by (simp add: mpl_chg_pri_def returned_def Let_def)
qed

lemma change_task_priority_ends:
  assumes "kwf s" "mtx_ok s" "chains_ok s" "\<not> fault s" "t < NUM_TSKID" "pri < NUM_TSKPRI" "chg_need t pri s < n" "pools_serve s"
  shows "\<not> fault (change_task_priority n c t pri s)"
  using assms
proof (induction n arbitrary: s t pri)
  case (Suc n)
  show ?case
  proof (cases "state (tcb s t) = TS_READY")
    case True
    then show ?thesis using Suc.prems(4) by (simp add: requeue_ready_tcb Let_def)
  next
    case False
    let ?s = "upd_tcb t (priority_update (\<lambda>_. pri)) s" and ?old = "priority (tcb s t)" and ?w = "wspec (tcb s t)"
    have k: "kwf ?s" by (rule kwf_set_priority[OF Suc.prems(1,5) False Suc.prems(6)])
    have m: "mtx_ok ?s" using Suc.prems(2) by (simp add: mtx_ok_def)
    show ?thesis
    proof (cases "in_wait (state (tcb s t)) \<and> chg_pri_hook ?w = Some Mtx_chg_pri")
      case True
      then have w: "?w \<in> {Wspec_mtx_tpri, Wspec_mtx_inherit}" by (cases ?w) auto
      let ?i = "get_mtxcb (wid (tcb s t))"
      let ?s1 = "knl_gcb_change_priority (MtxQ ?i) t ?s"
      have r: "t \<in> set (que ?s (MtxQ ?i))"
        by (rule hook_in_ring[OF k Suc.prems(5)]) (use True w in \<open>auto simp: get_mtxcb_def\<close>)
      have w1: "woken ?s ?s1" by (rule woken_requeue[OF k r]) auto
      have k1: "kwf ?s1" "mtx_ok ?s1" "\<not> fault ?s1" using woken_kwf[OF w1] m Suc.prems(4) by (simp_all add: mtx_ok_def woken_mtx[OF w1])
      have c1: "chains_ok ?s1"
        using Suc.prems(3) by (auto simp: chains_ok_def mtx_list_within_cong[OF woken_mtx[OF w1]] mtx_list_within_cong[of ?s s])
      have p1: "pools_serve ?s1"
        by (rule pools_serve_keep[OF Suc.prems(8)]) (simp_all add: gcb_change_priority_que[OF k r])
      obtain u where u: "mtxtsk (mtx ?s1 ?i) = Some u" "u < NUM_TSKID"
        using Suc.prems(2,3,5) w True woken_mtx[OF w1] by (auto simp: chains_ok_def mtx_ok_def)
      have q1: "priority (tcb ?s1 t) = pri" "priority (tcb ?s1 v) = priority (tcb s v)" if "v \<noteq> t" for v
        using that by simp_all
      have up: "\<not> fault (change_task_priority n c u pri ?s1)" if "priority (tcb ?s1 u) > pri"
        by (rule Suc.IH[OF k1(1,2) c1 k1(3) u(2) Suc.prems(6)])
          (use chg_need_next(1)[OF Suc.prems(5), of ?s1 pri s u] that Suc.prems(7) p1 in simp_all)
      have down: "\<not> fault (release_mutex (change_task_priority n c) u None ?s1)"
        if v: "\<not> priority (tcb ?s1 u) > pri" "priority (tcb ?s1 u) = ?old"
      proof -
        have st: "state (tcb ?s1 u) \<noteq> TS_NONEXIST" using k1(2) u by (auto simp: mtx_ok_def)
        have b: "bpriority (tcb ?s1 u) < NUM_TSKPRI"
          using tcbs_okD[OF kwfD(2)[OF k1(1)] u(2)] st by (simp add: tcb_ok_def)
        have "mtx_list_within NUM_MTXID (get_prev u None ?s1) ?s1" using c1 u(2) by (simp add: chains_ok_def get_prev_def)
        from release_loop_ends[OF this] obtain np where np:
          "release_loop MTX_FUEL u None None (bpriority (tcb ?s1 u)) (bpriority (tcb ?s1 u)) ?s1 = (?s1, np)" by blast
        have lt: "np < NUM_TSKPRI"
          using release_loop_None[of MTX_FUEL u None "bpriority (tcb ?s1 u)" "bpriority (tcb ?s1 u)" ?s1] np k1 b
          by (metis prod.inject)
        have "\<not> fault (change_task_priority n c u np ?s1)" if "np \<noteq> priority (tcb ?s1 u)"
          by (rule Suc.IH[OF k1(1,2) c1 k1(3) u(2) lt])
            (use chg_need_next(2)[OF Suc.prems(5), of ?s1 pri s u np] v that Suc.prems(7) p1 in simp_all)
        moreover have "release_mutex (change_task_priority n c) u None ?s1 =
            (if np \<noteq> priority (tcb ?s1 u) then change_task_priority n c u np ?s1 else ?s1)"
          unfolding release_mutex_def Let_def np by (simp only: case_prod_conv)
        ultimately show ?thesis using k1(3) by (simp only: split: if_split) blast
      qed
      have "call_chg_pri (change_task_priority n c) c Mtx_chg_pri t (int ?old) ?s =
          mtx_chg_pri (change_task_priority n c) t (int ?old) ?s" by (simp add: call_chg_pri_def)
      moreover have "\<not> fault (mtx_chg_pri (change_task_priority n c) t (int ?old) ?s)"
        using up down u k1(3) by (simp add: mtx_chg_pri_def Let_def)
      ultimately show ?thesis using False True by (simp add: Let_def)
    next
      case other: False
      have mpl: "\<not> fault (returned ?s (mpl_chg_pri c t (int ?old) ?s))" if "t \<in> set (que ?s (MplQ (get_mplcb (wid (tcb s t)))))"
        by (rule mpl_chg_pri_no_fault[OF k]) (use that Suc.prems(4) pools_serve_keep[OF Suc.prems(8), of ?s] in simp_all)
      have ring: "t \<in> set (que ?s q)" if "in_wait (state (tcb s t))" "wait_ring ?w (nat (wid (tcb s t) - 1)) = Some q" for q
        by (rule hook_in_ring[OF k Suc.prems(5)]) (use that in auto)
      have "\<not> fault (call_chg_pri (change_task_priority n c) c h t (int ?old) ?s)"
        if "chg_pri_hook ?w = Some h" "in_wait (state (tcb s t))" for h
        using that mpl other ring[OF that(2)] woken_sem_chg_pri[OF k, of "int ?old" t c] woken_mbf_chg_pri[OF k, of "int ?old" t c]
          woken_requeue[OF k] Suc.prems(4)
        by (cases ?w)
          (auto simp: call_chg_pri_def flg_chg_pri_def mbx_chg_pri_def knl_mpf_chg_pri_def get_semcb_def get_mbfcb_def get_mplcb_def woken_def)
      then show ?thesis using False Suc.prems(4) by (auto simp: Let_def split: option.split)
    qed
  qed
qed simp

lemma repri_chains_ok: "repri s s' \<Longrightarrow> chains_ok s \<Longrightarrow> chains_ok s'"
  using mtx_list_within_cong[of s' s] unfolding repri_def chains_ok_def by metis

lemma chg_need_fuel: "chg_need t pri s < CHG_FUEL"
  using card_tasks[of "\<lambda>u. priority (tcb s u) > pri"] card_tasks[of "\<lambda>u. priority (tcb s u) = priority (tcb s t)"]
  by (simp add: chg_need_def Let_def CHG_FUEL_def size_defs)


lemmas chg_pri_ends = change_task_priority_ends[where n = CHG_FUEL, OF _ _ _ _ _ _ chg_need_fuel, folded knl_change_task_priority_def]

subsection \<open>An owner and a waiter\<close>

text \<open>
  Task 0 runs on core 0 and holds mutex 1, which inherits priorities; task 1, of a lower priority, waits for it.
\<close>

definition ex_mtx :: kstate where
  "ex_mtx = upd_tcb 0 (mtxlist_update (\<lambda>_. Some 0))
     ((ex_state Wspec_mtx_inherit ex_winfo (MtxQ 0))\<lparr>mtx := (\<lambda>_. \<lparr>mtxid = 0, mtx_exinf = 0, mtxatr = 0, ceilpri = 0, mtxtsk = None,
        mtx_next = None\<rparr>)(0 := \<lparr>mtxid = 1, mtx_exinf = 0, mtxatr = 2, ceilpri = 0, mtxtsk = Some 0, mtx_next = None\<rparr>)\<rparr>)"

lemma ex_mtx_sel:
  "tcb ex_mtx = ex_tcb(0 := ex_run\<lparr>mtxlist := Some 0\<rparr>, 1 := ex_wait Wspec_mtx_inherit ex_winfo)"
  "que ex_mtx = (\<lambda>_. [])(RdyQ 10 := [0], MtxQ 0 := [1])" "fault ex_mtx = False" "smp ex_mtx = ex_smp"
  "mtx ex_mtx m = (if m = 0 then \<lparr>mtxid = 1, mtx_exinf = 0, mtxatr = 2, ceilpri = 0, mtxtsk = Some 0, mtx_next = None\<rparr>
     else \<lparr>mtxid = 0, mtx_exinf = 0, mtxatr = 0, ceilpri = 0, mtxtsk = None, mtx_next = None\<rparr>)"
  by (auto simp: ex_mtx_def ex_state_def fun_eq_iff)

lemma ex_mtx_ok: "kwf ex_mtx" "mtx_ok ex_mtx" "chains_ok ex_mtx" "caller_ok 0 ex_mtx" "pools_serve ex_mtx"
proof -
  show "pools_serve ex_mtx" by (simp add: pools_serve_def ex_mtx_sel)
  let ?s = "(ex_state Wspec_mtx_inherit ex_winfo (MtxQ 0))\<lparr>mtx := mtx ex_mtx\<rparr>"
  have k: "kwf ?s" using kwf_ex_state[of Wspec_mtx_inherit "MtxQ 0" ex_winfo] by simp
  have "kwf (?s\<lparr>tcb := (tcb ?s)(0 := (tcb ?s 0)\<lparr>mtxlist := Some 0\<rparr>)\<rparr>)"
    by (rule kwf_upd_tcb[OF k]) (auto simp: tcb_ok_def)
  moreover have "?s\<lparr>tcb := (tcb ?s)(0 := (tcb ?s 0)\<lparr>mtxlist := Some 0\<rparr>)\<rparr> = ex_mtx" by (simp add: ex_mtx_def)
  ultimately show "kwf ex_mtx" by metis
  show "mtx_ok ex_mtx" by (simp add: mtx_ok_def ex_mtx_sel ex_run_def size_defs)
  show "caller_ok 0 ex_mtx" by (simp add: caller_ok_def ex_mtx_sel ex_smp_def ex_run_def ex_tcb_def size_defs less_cores)
  have "mtx_list_within NUM_MTXID (mtxlist (tcb ex_mtx u)) ex_mtx" for u
    by (simp add: ex_mtx_sel size_defs eval_nat_numeral ex_run_def ex_wait_def ex_tcb_def)
  then show "chains_ok ex_mtx"
    by (auto simp: chains_ok_def ex_mtx_sel ex_run_def ex_wait_def ex_tcb_def get_mtxcb_def)
qed

text \<open>
  C4. A change of a task's priority completes. The hypotheses, beside the kernel invariant: owners exist and ceilings are in range (\<open>mtx_ok\<close>); no list of
  locked mutexes is longer than the number of mutexes, and a mutex for which a task waits by priority or with inheritance has an owner (\<open>chains_ok\<close>);
  the searches of a variable-size pool for the tasks that wait for it return (\<open>pools_serve\<close>; it holds where nobody waits for such a
  pool). Then the recursion of \<open>knl_change_task_priority\<close> along the owners of mutexes, through \<open>mtx_chg_pri\<close> and \<open>knl_release_mutex\<close>, stops within the fuel of the
  model, even where tasks wait for each other in a circle, no walk leaves its list, and the kernel invariant, \<open>mtx_ok\<close> and \<open>chains_ok\<close> hold again.
\<close>
theorem change_priority_returns:
  assumes "kwf s" "mtx_ok s" "chains_ok s" "pools_serve s" "\<not> fault s" "t < NUM_TSKID" "pri < NUM_TSKPRI"
  shows "\<not> fault (knl_change_task_priority c t pri s) \<and> kwf (knl_change_task_priority c t pri s) \<and>
    mtx_ok (knl_change_task_priority c t pri s) \<and> chains_ok (knl_change_task_priority c t pri s)"
  using chg_pri_ends[OF assms(1-3,5-7,4)] repri_chg_pri[OF assms(1,2,6,7)] repri_kwf repri_mtx_ok[OF _ assms(2)] repri_chains_ok[OF _ assms(3)]
  by blast

theorem change_priority_returns_witness:
  "\<not> fault (knl_change_task_priority 0 1 5 ex_mtx) \<and> kwf (knl_change_task_priority 0 1 5 ex_mtx)"
  using change_priority_returns[OF ex_mtx_ok(1-3,5), of 1 5] by (simp add: ex_mtx_sel size_defs)

text \<open>The parts of one step of the recursion, for a waiter whose mutex has a READY owner.\<close>

lemma chg_ready:
  assumes "state (tcb s t) = TS_READY"
  shows "tcb (change_task_priority (Suc n) c t pri s) = (tcb s)(t := (tcb s t)\<lparr>klockwait := False, priority := pri\<rparr>)"
    "mtx (change_task_priority (Suc n) c t pri s) = mtx s"
  using assms by (simp_all add: requeue_ready_tcb Let_def)

text \<open>
  C6. Priority inheritance: when the priority of a task that waits for a \<open>TA_INHERIT\<close> mutex is raised above that of
  the owner, and the owner is ready or running, then the owner gets the same priority at once. No
  other task changes, the mutex keeps its owner, and the same tasks wait for it.
\<close>
theorem priority_inherited:
  assumes k: "kwf s" and t: "t < NUM_TSKID" "in_wait (state (tcb s t))" "wspec (tcb s t) = Wspec_mtx_inherit"
    and m: "i = get_mtxcb (wid (tcb s t))" "mtxatr (mtx s i) AND TA_CEILING = TA_INHERIT"
    and u: "mtxtsk (mtx s i) = Some u" "u \<noteq> t" "state (tcb s u) = TS_READY" "pri < priority (tcb s u)"
    and pri: "pri < NUM_TSKPRI" and s': "s' = knl_change_task_priority c t pri s"
  shows "priority (tcb s' t) = pri \<and> priority (tcb s' u) = pri \<and>
    (\<forall>v. v \<noteq> t \<longrightarrow> v \<noteq> u \<longrightarrow> tcb s' v = tcb s v) \<and> mtx s' = mtx s \<and>
    (\<forall>v. bpriority (tcb s' v) = bpriority (tcb s v)) \<and> set (que s' (MtxQ i)) = set (que s (MtxQ i))"
proof -
  have nr: "state (tcb s t) \<noteq> TS_READY" using t(2) by auto
  let ?s = "upd_tcb t (priority_update (\<lambda>_. pri)) s"
  define s1 where "s1 = knl_gcb_change_priority (MtxQ i) t ?s"
  have k1: "kwf ?s" by (rule kwf_set_priority[OF k t(1) nr pri])
  have r: "t \<in> set (que ?s (MtxQ i))"
    by (rule hook_in_ring[OF k1 t(1)]) (use t m in \<open>auto simp: get_mtxcb_def\<close>)
  have w: "woken ?s s1" unfolding s1_def by (rule woken_requeue[OF k1 r]) auto
  have f: "tcb s1 = (tcb s)(t := (tcb s t)\<lparr>priority := pri\<rparr>)" "mtx s1 = mtx s" using woken_mtx[OF w] by (simp_all add: s1_def)
  have q: "set (que s1 (MtxQ i)) = set (que s (MtxQ i))"
    using r loc_okD(1)[OF kwfD(1)[OF k], of "MtxQ i"] by (auto simp: s1_def gcb_change_priority_que[OF k1 r])
  have sp: "s' = change_task_priority (CHG_FUEL - 1) c u pri s1"
  proof -
    have "CHG_FUEL = Suc (CHG_FUEL - 1)" by (simp add: CHG_FUEL_def)
    then have "s' = change_task_priority (Suc (CHG_FUEL - 1)) c t pri s" by (simp add: s' knl_change_task_priority_def)
    also have "\<dots> = mtx_chg_pri (change_task_priority (CHG_FUEL - 1) c) t (int (priority (tcb s t))) ?s"
      using nr t by (simp add: Let_def call_chg_pri_def)
    also have "\<dots> = change_task_priority (CHG_FUEL - 1) c u pri s1"
      using m u f by (simp add: mtx_chg_pri_def s1_def Let_def)
    finally show ?thesis .
  qed
  have "CHG_FUEL - 1 = Suc (CHG_FUEL - 2)" by (simp add: CHG_FUEL_def)
  then have s2: "s' = change_task_priority (Suc (CHG_FUEL - 2)) c u pri s1" using sp by simp
  have ru: "state (tcb s1 u) = TS_READY" using u f by simp
  have "que s' (MtxQ i) = remove1 u (que s1 (MtxQ i))"
    using ru by (simp add: s2 Let_def knl_ready_queue_insert_def knl_ready_queue_delete_eq knl_smp_reschedule_all_def
        q_insert_def q_remove_def)
  moreover have "u \<notin> set (que s1 (MtxQ i))"
    using ring_waiting(2)[OF woken_kwf[OF w], of u "MtxQ i"] ru by auto
  ultimately have "que s' (MtxQ i) = que s1 (MtxQ i)" by (simp add: remove1_idem)
  then show ?thesis
    using chg_ready[OF ru, of "CHG_FUEL - 2" c pri, folded s2] f q u by auto
qed

theorem priority_inherited_witness:
  "priority (tcb (knl_change_task_priority 0 1 5 ex_mtx) 0) = 5"
  using priority_inherited[OF ex_mtx_ok(1), of 1 0 0 5 _ 0]
  by (simp add: ex_mtx_sel ex_run_def ex_wait_def ex_tcb_def get_mtxcb_def size_defs)


subsection \<open>Unlocking\<close>

text \<open>The list of mutexes that a task holds, and the priority that a held mutex demands of its owner.\<close>

primrec mlist :: "nat list \<Rightarrow> nat option \<Rightarrow> kstate \<Rightarrow> bool" where
  "mlist [] nxt s \<longleftrightarrow> nxt = None"
| "mlist (m # ms) nxt s \<longleftrightarrow> nxt = Some m \<and> mlist ms (mtx_next (mtx s m)) s"

definition demand :: "nat \<Rightarrow> kstate \<Rightarrow> nat \<Rightarrow> nat" where
  "demand m s p =
     (if mtxatr (mtx s m) AND TA_CEILING = TA_CEILING then min p (ceilpri (mtx s m))
      else if mtxatr (mtx s m) AND TA_CEILING = TA_INHERIT \<and> que s (MtxQ m) \<noteq> []
      then min p (priority (tcb s (hd (que s (MtxQ m)))))
      else p)"

definition relink :: "nat \<Rightarrow> nat option \<Rightarrow> (nat \<Rightarrow> nat option) \<Rightarrow> kstate \<Rightarrow> kstate" where
  "relink t L N s = s\<lparr>tcb := (tcb s)(t := (tcb s t)\<lparr>mtxlist := L\<rparr>), mtx := (\<lambda>m. (mtx s m)\<lparr>mtx_next := N m\<rparr>)\<rparr>"

lemma relink_sel [simp]:
  "tcb (relink t L N s) = (tcb s)(t := (tcb s t)\<lparr>mtxlist := L\<rparr>)" "mtx (relink t L N s) m = (mtx s m)\<lparr>mtx_next := N m\<rparr>"
  "que (relink t L N s) = que s" "fault (relink t L N s) = fault s"
  by (simp_all add: relink_def)

lemma relink_relink [simp]: "relink t L N (relink t L' N' s) = relink t L N s"
  by (simp add: relink_def)

lemma relink_same: "relink t (mtxlist (tcb s t)) (\<lambda>m. mtx_next (mtx s m)) s = s"
  by (simp add: relink_def)

lemma kwf_relink: "kwf s \<Longrightarrow> kwf (relink t L N s)"
  unfolding relink_def using kwf_upd_tcb[of s "(tcb s t)\<lparr>mtxlist := L\<rparr>" t] kwf_frame(9)
  by (auto simp: tcb_ok_def)

lemma set_prev_list_relink:
  "set_prev_list t p v s =
     relink t (if p = None then v else mtxlist (tcb s t)) (\<lambda>m. if p = Some m then v else mtx_next (mtx s m)) s"
  by (cases p) (auto simp: set_prev_list_def relink_def upd_mtx_def fun_eq_iff)

lemma demand_relink [simp]: "demand m (relink t L N s) = demand m s"
  by (auto simp: demand_def fun_eq_iff)

lemma demand_mtx_pri:
  "newpri \<le> pri \<Longrightarrow> (if newpri > mtx_pri m pri s then mtx_pri m pri s else newpri) = demand m s newpri"
  by (auto simp: mtx_pri_def demand_def mtx_waited_def mtx_head_pri_def min_def)

lemma demand_le: "demand m s p \<le> p" and demand_le_mtx_pri: "newpri \<le> pri \<Longrightarrow> demand m s newpri \<le> mtx_pri m pri s"
  by (auto simp: mtx_pri_def demand_def mtx_waited_def mtx_head_pri_def)

lemma mlist_cong:
  "(\<And>m. m \<in> set ms \<Longrightarrow> mtx_next (mtx s' m) = mtx_next (mtx s m)) \<Longrightarrow> mlist ms nxt s' = mlist ms nxt s"
  by (induction ms arbitrary: nxt) auto

lemma release_loop_spec:
  assumes "mlist ms (get_prev t p s) s" "distinct ms" "\<And>q. p = Some q \<Longrightarrow> q \<notin> set ms" "length ms \<le> n" "newpri \<le> pri"
  shows "\<exists>L N. release_loop (Suc n) t rel p newpri pri s =
      (relink t L N s, fold (\<lambda>m. demand m s) (filter (\<lambda>m. rel \<noteq> Some m) ms) newpri) \<and>
    mlist (filter (\<lambda>m. rel \<noteq> Some m) ms) (get_prev t p (relink t L N s)) (relink t L N s) \<and>
    (p \<noteq> None \<longrightarrow> L = mtxlist (tcb s t)) \<and> (\<forall>m. m \<notin> set ms \<longrightarrow> p \<noteq> Some m \<longrightarrow> N m = mtx_next (mtx s m))"
  using assms
proof (induction ms arbitrary: n p newpri pri s)
  case Nil
  then have "release_loop (Suc n) t rel p newpri pri s = (s, newpri)" by simp
  then show ?case using Nil by (intro exI[of _ "mtxlist (tcb s t)"] exI[of _ "\<lambda>m. mtx_next (mtx s m)"]) (simp add: relink_same)
next
  case (Cons m ms)
  obtain n' where n: "n = Suc n'" "length ms \<le> n'" using Cons.prems(4) by (cases n) auto
  have g: "get_prev t p s = Some m" "mlist ms (mtx_next (mtx s m)) s" using Cons.prems(1) by simp_all
  show ?case
  proof (cases "rel = Some m")
    case True
    let ?v = "mtx_next (mtx s m)"
    define s1 where "s1 = set_prev_list t p ?v s"
    let ?L = "if p = None then ?v else mtxlist (tcb s t)" and ?N = "\<lambda>m. if p = Some m then ?v else mtx_next (mtx s m)"
    have s1: "s1 = relink t ?L ?N s" by (simp add: s1_def set_prev_list_relink)
    have gp: "get_prev t p s1 = ?v" by (cases p) (simp_all add: s1 get_prev_def)
    have "mlist ms (get_prev t p s1) s1"
      unfolding gp using g(2) Cons.prems(3) by (subst mlist_cong[of _ s1 s]) (auto simp: s1)
    from Cons.IH[OF this _ _ n(2) Cons.prems(5)] Cons.prems obtain L N where r:
      "release_loop (Suc n') t rel p newpri pri s1 =
        (relink t L N s1, fold (\<lambda>m. demand m s1) (filter (\<lambda>m. rel \<noteq> Some m) ms) newpri)"
      "mlist (filter (\<lambda>m. rel \<noteq> Some m) ms) (get_prev t p (relink t L N s1)) (relink t L N s1)"
      "p \<noteq> None \<longrightarrow> L = mtxlist (tcb s1 t)" "\<forall>m. m \<notin> set ms \<longrightarrow> p \<noteq> Some m \<longrightarrow> N m = mtx_next (mtx s1 m)"
      by auto
    have "release_loop (Suc n) t rel p newpri pri s = release_loop (Suc n') t rel p newpri pri s1"
      using g(1) True by (subst release_loop.simps) (simp add: n s1_def del: release_loop.simps)
    moreover have "relink t L N s1 = relink t L N s" by (simp add: s1)
    ultimately show ?thesis using r True by (intro exI[of _ L] exI[of _ N]) (auto simp: s1)
  next
    case False
    let ?np = "if newpri > mtx_pri m pri s then mtx_pri m pri s else newpri"
    have np: "?np = demand m s newpri" by (rule demand_mtx_pri[OF Cons.prems(5)])
    have a: "mlist ms (get_prev t (Some m) s) s" using g(2) by (simp add: get_prev_def)
    have b: "distinct ms" "\<And>q. Some m = Some q \<Longrightarrow> q \<notin> set ms" using Cons.prems(2) by auto
    obtain L N where r:
      "release_loop (Suc n') t rel (Some m) (demand m s newpri) (mtx_pri m pri s) s =
        (relink t L N s, fold (\<lambda>m. demand m s) (filter (\<lambda>m. rel \<noteq> Some m) ms) (demand m s newpri))"
      "mlist (filter (\<lambda>m. rel \<noteq> Some m) ms) (get_prev t (Some m) (relink t L N s)) (relink t L N s)"
      "L = mtxlist (tcb s t)" "\<forall>m'. m' \<notin> set ms \<longrightarrow> m \<noteq> m' \<longrightarrow> N m' = mtx_next (mtx s m')"
      using Cons.IH[OF a b n(2) demand_le_mtx_pri[OF Cons.prems(5), of m s]] by (auto simp del: release_loop.simps)
    have "get_prev t p (relink t L N s) = Some m"
      using g(1) r(3,4) Cons.prems(3) by (cases p) (auto simp: get_prev_def)
    moreover have "release_loop (Suc n) t rel p newpri pri s =
        release_loop (Suc n') t rel (Some m) (demand m s newpri) (mtx_pri m pri s) s"
      using g(1) False np by (subst release_loop.simps) (simp add: n Let_def del: release_loop.simps)
    ultimately show ?thesis using r False by (intro exI[of _ L] exI[of _ N]) (auto simp: get_prev_def)
  qed
qed


text \<open>A change of the priority of a task that does not wait concerns that task alone.\<close>

lemma chg_not_waiting:
  assumes k: "kwf s" and t: "t < NUM_TSKID" "\<not> in_wait (state (tcb s t))" and p: "pri < NUM_TSKPRI"
    and s': "s' = knl_change_task_priority c t pri s"
  shows "kwf s'" "tcb s' = (tcb s)(t := (tcb s t)\<lparr>klockwait := klockwait (tcb s t) \<and> state (tcb s t) \<noteq> TS_READY, priority := pri\<rparr>)"
    "mtx s' = mtx s" "fault s' = fault s" "ercd s' = ercd s" "que s' (MtxQ i) = que s (MtxQ i)"
proof -
  have n: "CHG_FUEL = Suc (CHG_FUEL - 1)" by (simp add: CHG_FUEL_def)
  have s1: "s' = change_task_priority (Suc (CHG_FUEL - 1)) c t pri s" using s' n by (simp add: knl_change_task_priority_def)
  have q: "t \<notin> set (que s (MtxQ i))" using ring_waiting(2)[OF k, of t "MtxQ i"] t(2) by auto
  have "kwf s' \<and> tcb s' = (tcb s)(t := (tcb s t)\<lparr>klockwait := klockwait (tcb s t) \<and> state (tcb s t) \<noteq> TS_READY, priority := pri\<rparr>) \<and>
    mtx s' = mtx s \<and> fault s' = fault s \<and> ercd s' = ercd s \<and> que s' (MtxQ i) = que s (MtxQ i)"
  proof (cases "state (tcb s t) = TS_READY")
    case True
    then show ?thesis
      using kwf_requeue_ready[OF k t(1) True p, of c] chg_ready[OF True, of "CHG_FUEL - 1" c pri, folded s1] q
      by (simp add: s1 Let_def knl_ready_queue_insert_def knl_ready_queue_delete_eq knl_smp_reschedule_all_def
          q_insert_def q_remove_def remove1_idem)
  next
    case False
    have "s' = upd_tcb t (priority_update (\<lambda>_. pri)) s"
      using False t(2) by (auto simp: s1 Let_def split: option.split)
    then show ?thesis using kwf_set_priority[OF k t(1) False p] False by (auto simp: fun_eq_iff)
  qed
  then show "kwf s'" "tcb s' = (tcb s)(t := (tcb s t)\<lparr>klockwait := klockwait (tcb s t) \<and> state (tcb s t) \<noteq> TS_READY, priority := pri\<rparr>)"
    "mtx s' = mtx s" "fault s' = fault s" "ercd s' = ercd s" "que s' (MtxQ i) = que s (MtxQ i)" by blast+
qed

text \<open>What \<open>knl_release_mutex\<close> leaves of the list and of the priority of a task that does not wait.\<close>

lemma release_mutex_eff:
  assumes k: "kwf s" and m: "mtx_ok s" and t: "t < NUM_TSKID" "state (tcb s t) \<noteq> TS_NONEXIST" "\<not> in_wait (state (tcb s t))"
    and l: "mlist ms (mtxlist (tcb s t)) s" "distinct ms" "length ms \<le> NUM_MTXID"
    and s': "s' = knl_release_mutex c t (Some i) s"
  shows "kwf s'" "mtx_ok s'" "priority (tcb s' t) = fold (\<lambda>m. demand m s) (filter (\<lambda>m. m \<noteq> i) ms) (bpriority (tcb s t))"
    "mlist (filter (\<lambda>m. m \<noteq> i) ms) (mtxlist (tcb s' t)) s'" "\<And>u. u \<noteq> t \<Longrightarrow> tcb s' u = tcb s u"
    "state (tcb s' t) = state (tcb s t)" "bpriority (tcb s' t) = bpriority (tcb s t)"
    "\<And>j. que s' (MtxQ j) = que s (MtxQ j)" "\<And>j. \<exists>x. mtx s' j = (mtx s j)\<lparr>mtx_next := x\<rparr>" "fault s' = fault s" "ercd s' = ercd s"
proof -
  let ?b = "bpriority (tcb s t)" and ?ms = "filter (\<lambda>m. Some i \<noteq> Some m) ms"
  have fl: "?ms = filter (\<lambda>m. m \<noteq> i) ms" by (auto intro: filter_cong)
  have b: "?b < NUM_TSKPRI" using tcbs_okD[OF kwfD(2)[OF k] t(1)] t(2) by (simp add: tcb_ok_def)
  have "mlist ms (get_prev t None s) s" using l(1) by (simp add: get_prev_def)
  from release_loop_spec[OF this l(2) _ l(3) order_refl, of "Some i" ?b] obtain L N where r:
    "release_loop MTX_FUEL t (Some i) None ?b ?b s = (relink t L N s, fold (\<lambda>m. demand m s) ?ms ?b)"
    "mlist ?ms (get_prev t None (relink t L N s)) (relink t L N s)"
    by (auto simp del: release_loop.simps)
  let ?np = "fold (\<lambda>m. demand m s) ?ms ?b"
  define s1 where "s1 = relink t L N s"
  have np: "?np < NUM_TSKPRI"
  proof -
    have "fold (\<lambda>m. demand m s) xs p \<le> p" for xs p
      by (induction xs arbitrary: p) (auto intro: order_trans demand_le)
    from order_le_less_trans[OF this b] show ?thesis .
  qed
  have s2: "s' = (if ?np \<noteq> priority (tcb s1 t) then knl_change_task_priority c t ?np s1 else s1)"
    unfolding s' knl_release_mutex_def release_mutex_def Let_def r(1) s1_def by (simp only: case_prod_conv)
  have f: "kwf s1" "\<not> in_wait (state (tcb s1 t))" using kwf_relink[OF k] t by (simp_all add: s1_def)
  note chg = chg_not_waiting[OF f(1) t(1) f(2) np refl, of c]
  show "kwf s'" using chg(1) f(1) by (simp add: s2)
  have mt: "mtx s' = mtx s1" using chg(3) by (simp add: s2)
  have tc: "tcb s' u = tcb s1 u" if "u \<noteq> t" for u using chg(2) that by (simp add: s2)
  have ts: "mtxlist (tcb s' t) = mtxlist (tcb s1 t)" "state (tcb s' t) = state (tcb s1 t)" "bpriority (tcb s' t) = bpriority (tcb s1 t)"
    "priority (tcb s' t) = ?np" using chg(2) by (simp_all add: s2)
  show "mtx_ok s'"
    using m t(2) tc ts(2) unfolding mtx_ok_def mt s1_def
    by (simp add: s1_def) (metis fun_upd_other relink_sel(1))
  show "priority (tcb s' t) = fold (\<lambda>m. demand m s) (filter (\<lambda>m. m \<noteq> i) ms) ?b" using ts(4) fl by simp
  show "mlist (filter (\<lambda>m. m \<noteq> i) ms) (mtxlist (tcb s' t)) s'"
    using r(2)[unfolded fl] mlist_cong[of "filter (\<lambda>m. m \<noteq> i) ms" s' s1] by (simp add: mt ts(1) s1_def get_prev_def)
  show "tcb s' u = tcb s u" if "u \<noteq> t" for u using tc[OF that] that by (simp add: s1_def)
  show "state (tcb s' t) = state (tcb s t)" "bpriority (tcb s' t) = bpriority (tcb s t)" using ts by (simp_all add: s1_def)
  show "que s' (MtxQ j) = que s (MtxQ j)" for j using chg(6)[of j] by (simp add: s2 s1_def)
  show "\<exists>x. mtx s' j = (mtx s j)\<lparr>mtx_next := x\<rparr>" for j unfolding mt s1_def by auto
  show "fault s' = fault s" "ercd s' = ercd s" using chg(4,5) by (simp_all add: s2 s1_def relink_def)
qed


text \<open>
  C5. Unlocking gives the mutex to the first waiter: when the owner unlocks a mutex for which tasks wait, the task at
  the head of the queue, and no other, becomes the owner and has its wait ended with \<open>E_OK\<close>, the mutex is the first in its
  list, the rest of the queue stays, and the former owner keeps exactly its other mutexes, at the best of its base priority and what these
  demand (a ceiling, or the first waiter of an inheriting mutex).
\<close>
theorem unlock_hands_over:
  assumes k: "kwf s" and m: "mtx_ok s" and t: "t = cur c s" "t < NUM_TSKID" "state (tcb s t) = TS_READY"
    and l: "mlist ms (mtxlist (tcb s t)) s" "distinct ms" "length ms \<le> NUM_MTXID"
    and i: "mtxid (mtx s i) \<noteq> 0" "mtxtsk (mtx s i) = Some t" "que s (MtxQ i) = u # q"
    and r: "unl_mtx_cs c i s = (s', e)"
  shows "e = E_OK \<and> kwf s' \<and> mtxtsk (mtx s' i) = Some u \<and> mtx_next (mtx s' i) = mtxlist (tcb s u) \<and>
    mtxlist (tcb s' u) = Some i \<and> state (tcb s' u) = state (released (tcb s u)) \<and> ercd s' u = E_OK \<and>
    que s' (MtxQ i) = q \<and> mlist (filter (\<lambda>m. m \<noteq> i) ms) (mtxlist (tcb s' t)) s' \<and>
    priority (tcb s' t) = fold (\<lambda>m. demand m s) (filter (\<lambda>m. m \<noteq> i) ms) (bpriority (tcb s t))"
proof -
  define s1 where "s1 = knl_release_mutex c t (Some i) s"
  have st: "state (tcb s t) \<noteq> TS_NONEXIST" "\<not> in_wait (state (tcb s t))" using t(3) by simp_all
  note R = release_mutex_eff[OF k m t(2) st l s1_def]
  note w = ring_waiting[OF k, of u "MtxQ i", simplified]
  have w': "u < NUM_TSKID" "in_wait (state (tcb s u))" "wercd (tcb s u) = Some u" using w i(3) by simp_all
  have ut: "u \<noteq> t" using w'(2) t(3) by auto
  have tu: "tcb s1 u = tcb s u" by (rule R(5)[OF ut])
  have g: "(s', e) = (give_mutex c i s1, E_OK)" using r i t(1) by (simp add: unl_mtx_cs_def s1_def)
  define s2 where "s2 = knl_wait_release_ok c u s1"
  define s3 where "s3 = upd_tcb u (mtxlist_update (\<lambda>_. Some i))
     (upd_mtx i (\<lambda>M. M\<lparr>mtxtsk := Some u, mtx_next := mtxlist (tcb s2 u)\<rparr>) s2)"
  define cond where "cond \<longleftrightarrow> mtxatr (mtx s3 i) AND TA_CEILING = TA_CEILING \<and> priority (tcb s3 u) > ceilpri (mtx s3 i)"
  have s': "s' = (if cond then knl_change_task_priority c u (ceilpri (mtx s3 i)) s3 else s3)"
    using g R(8)[of i] i(3) by (simp add: give_mutex_def s2_def s3_def cond_def Let_def)
  have k2: "kwf s2" unfolding s2_def using R(1) w' tu by (intro kwf_wait_release_ok) simp_all
  have k3: "kwf s3"
  proof -
    have "kwf (s2\<lparr>tcb := (tcb s2)(u := (tcb s2 u)\<lparr>mtxlist := Some i\<rparr>)\<rparr>)"
      by (rule kwf_upd_tcb[OF k2]) (auto simp: tcb_ok_def)
    then show ?thesis using kwf_frame(9) by (simp add: s3_def upd_mtx_def kwf_def)
  qed
  have f3: "tcb s3 u = (released (tcb s u))\<lparr>mtxlist := Some i\<rparr>" "tcb s3 t = tcb s1 t"
    "mtxtsk (mtx s3 i) = Some u" "mtx_next (mtx s3 i) = mtxlist (tcb s u)" "que s3 (MtxQ i) = q"
    "ceilpri (mtx s3 i) = ceilpri (mtx s1 i)" "ercd s3 u = E_OK"
    "\<And>j. j \<noteq> i \<Longrightarrow> mtx s3 j = mtx s1 j"
    using ut tu R(8)[of i] i(3) w'(3)
    by (simp_all add: s3_def s2_def upd_mtx_def q_release_other wait_release_ok_eq wait_release_ok_ercd_val)
  have nw: "\<not> in_wait (state (tcb s3 u))" using released_sel(12)[of "tcb s u"] by (simp add: f3)
  have cp: "ceilpri (mtx s3 i) < NUM_TSKPRI" using R(2) by (simp add: f3 mtx_ok_def)
  note C = chg_not_waiting[OF k3 w'(1) nw cp refl, of c]
  have e4: "kwf s'" "tcb s' t = tcb s3 t" "state (tcb s' u) = state (tcb s3 u)" "mtxlist (tcb s' u) = mtxlist (tcb s3 u)"
    "mtx s' = mtx s3" "que s' (MtxQ i) = que s3 (MtxQ i)" "ercd s' = ercd s3"
    using C k3 ut by (auto simp: s')
  have "mlist (filter (\<lambda>m. m \<noteq> i) ms) (mtxlist (tcb s' t)) s'"
    using R(4) mlist_cong[of "filter (\<lambda>m. m \<noteq> i) ms" s' s1] f3(8) by (simp add: e4 f3(2))
  then show ?thesis using g e4 f3 R(3) by simp
qed

theorem unlock_hands_over_witness:
  "mtxtsk (mtx (fst (unl_mtx_cs 0 0 ex_mtx)) 0) = Some 1 \<and> que (fst (unl_mtx_cs 0 0 ex_mtx)) (MtxQ 0) = []"
proof -
  have "mlist [0] (mtxlist (tcb ex_mtx 0)) ex_mtx" by (simp add: ex_mtx_sel)
  from unlock_hands_over[OF ex_mtx_ok(1,2) _ _ _ this _ _ _ _ _ prod.collapse[symmetric], of 0 0 1 "[]"] show ?thesis
    by (simp add: ex_mtx_sel ex_smp_def ex_run_def ex_tcb_def size_defs)
qed


subsection \<open>Locking\<close>

text \<open>
  C8. Locking a free mutex: a task whose base priority is above the ceiling is refused with \<open>E_ILUSE\<close> and nothing
  changes. Otherwise the call returns \<open>E_OK\<close>, the caller is the owner, the mutex is the first in the caller's list, and the
  caller runs at least at the ceiling priority until it unlocks.
\<close>
theorem lock_free_mutex:
  assumes k: "kwf s" and m: "mtx_ok s" and ca: "caller_ok c s" and t: "t = cur c s"
    and i: "mtxid (mtx s i) \<noteq> 0" "mtxtsk (mtx s i) = None"
    and l: "mlist ms (mtxlist (tcb s t)) s" "i \<notin> set ms" and r: "loc_mtx_cs c i tmout s = (s', e)"
    and cl: "cl \<longleftrightarrow> mtxatr (mtx s i) AND TA_CEILING = TA_CEILING"
  shows "if cl \<and> bpriority (tcb s t) < ceilpri (mtx s i) then s' = s \<and> e = Ret E_ILUSE
    else e = Ret E_OK \<and> kwf s' \<and> mtxtsk (mtx s' i) = Some t \<and> mlist (i # ms) (mtxlist (tcb s' t)) s' \<and>
      priority (tcb s' t) = (if cl then min (priority (tcb s t)) (ceilpri (mtx s i)) else priority (tcb s t)) \<and>
      (\<forall>u. u \<noteq> t \<longrightarrow> tcb s' u = tcb s u)"
proof (cases "cl \<and> bpriority (tcb s t) < ceilpri (mtx s i)")
  case True
  then show ?thesis using r i t cl by (simp add: loc_mtx_cs_def Let_def)
next
  case False
  note c = caller_okD[OF ca]
  define s1 where "s1 = upd_tcb t (mtxlist_update (\<lambda>_. Some i))
     (upd_mtx i (\<lambda>M. M\<lparr>mtxtsk := Some t, mtx_next := mtxlist (tcb s t)\<rparr>) s)"
  have s': "s' = (if cl \<and> priority (tcb s t) > ceilpri (mtx s i) then knl_change_task_priority c t (ceilpri (mtx s i)) s1 else s1)"
      "e = Ret E_OK"
    using r i False t by (auto simp: loc_mtx_cs_def s1_def upd_mtx_def Let_def cl)
  have "kwf (s\<lparr>tcb := (tcb s)(t := (tcb s t)\<lparr>mtxlist := Some i\<rparr>)\<rparr>)"
    by (rule kwf_upd_tcb[OF k]) (auto simp: tcb_ok_def)
  then have k1: "kwf s1" by (simp add: s1_def upd_mtx_def kwf_def)
  have f: "mtxtsk (mtx s1 i) = Some t" "mtx_next (mtx s1 i) = mtxlist (tcb s t)" "\<And>j. j \<noteq> i \<Longrightarrow> mtx s1 j = mtx s j"
    "tcb s1 = (tcb s)(t := (tcb s t)\<lparr>mtxlist := Some i\<rparr>)" by (simp_all add: s1_def upd_mtx_def)
  have tn: "t < NUM_TSKID" "\<not> in_wait (state (tcb s1 t))" using c t by (auto simp: f)
  have cp: "ceilpri (mtx s i) < NUM_TSKPRI" using m by (simp add: mtx_ok_def)
  note C = chg_not_waiting[OF k1 tn cp refl, of c]
  have e4: "kwf s'" "mtx s' = mtx s1" "mtxlist (tcb s' t) = Some i" "\<And>u. u \<noteq> t \<Longrightarrow> tcb s' u = tcb s u"
    "priority (tcb s' t) = (if cl then min (priority (tcb s t)) (ceilpri (mtx s i)) else priority (tcb s t))"
    using C k1 by (auto simp: s' f min_def)
  have "mlist ms (mtxlist (tcb s t)) s'"
  proof -
    have "mtx s' j = mtx s j" if "j \<in> set ms" for j using f(3)[of j] l(2) that by (auto simp: e4(2))
    then show ?thesis using l(1) mlist_cong[of ms s' s] by simp
  qed
  then show ?thesis using False e4 f s'(2) by simp
qed

definition ex_ceil :: kstate where
  "ex_ceil = (ex_state Wspec_sem_tfifo ex_winfo (SemQ 0))\<lparr>mtx := (\<lambda>_. \<lparr>mtxid = 1, mtx_exinf = 0, mtxatr = 3, ceilpri = 4, mtxtsk = None,
     mtx_next = None\<rparr>)\<rparr>"


theorem lock_free_mutex_witness:
  "let s' = fst (loc_mtx_cs 0 2 (- 1) ex_ceil) in mtxtsk (mtx s' 2) = Some 0 \<and> priority (tcb s' 0) = 4"
proof -
  have k: "kwf ex_ceil" using kwf_ex_state[of Wspec_sem_tfifo "SemQ 0" ex_winfo] by (simp add: ex_ceil_def)
  have m: "mtx_ok ex_ceil" by (simp add: mtx_ok_def ex_ceil_def size_defs)
  have ca: "caller_ok 0 ex_ceil" using ex_caller_ok by (simp add: ex_ceil_def caller_ok_def)
  have l: "mlist [] (mtxlist (tcb ex_ceil (cur 0 ex_ceil))) ex_ceil" by (simp add: ex_ceil_def ex_smp_def ex_run_def ex_tcb_def)
  show ?thesis
    using lock_free_mutex[OF k m ca refl _ _ l _ prod.collapse[symmetric] refl, of 2 "- 1"]
    by (simp add: ex_ceil_def ex_smp_def ex_run_def ex_tcb_def Let_def)
qed

end
