(* ===== verification/Task_Frame.thy ===== *)
theory Task_Frame
  imports Mutex_Props
begin

text \<open>
  What the scheduler reads of a task control block. A change of any other member commutes with every reschedule, with
  the ready-queue operations and with the release of another task.
\<close>

definition quiet :: "(tcb \<Rightarrow> tcb) \<Rightarrow> bool" where
  "quiet f \<longleftrightarrow> (\<forall>T. priority (f T) = priority T \<and> klocked (f T) = klocked T \<and> assprc (f T) = assprc T \<and>
     tskid (f T) = tskid T \<and> klockwait (f T) = klockwait T \<and> f (T\<lparr>klockwait := False\<rparr>) = (f T)\<lparr>klockwait := False\<rparr>)"

lemma quietD [simp]:
  assumes "quiet f"
  shows "priority (f T) = priority T" "klocked (f T) = klocked T" "assprc (f T) = assprc T" "tskid (f T) = tskid T"
    "klockwait (f T) = klockwait T" "f (T\<lparr>klockwait := False\<rparr>) = (f T)\<lparr>klockwait := False\<rparr>"
  using assms by (simp_all add: quiet_def)

lemma quiet_updates:
  "quiet (state_update a)" "quiet (suscnt_update b)" "quiet (wupcnt_update b)" "quiet (ctx_set_update d)" "quiet (mtxlist_update e)"
  unfolding quiet_def by simp_all

lemma quiet_comp: "quiet f \<Longrightarrow> quiet g \<Longrightarrow> quiet (\<lambda>T. f (g T))"
  unfolding quiet_def by (simp only: simp_thms)

lemma scan_ring_cong:
  assumes "smp s' = smp s" "\<And>u. klocked (tcb s' u) = klocked (tcb s u) \<and> assprc (tcb s' u) = assprc (tcb s u)"
  shows "scan_ring s' kl q a = scan_ring s kl q a"
proof -
  have m: "knl_task_core_mask s' = knl_task_core_mask s"
    using assms by (auto simp: knl_task_core_mask_def fun_eq_iff Let_def split: option.split)
  have "scan_ring s' kl q (cs, m) = scan_ring s kl q (cs, m)" for cs m
    by (induction q arbitrary: cs m) (simp_all add: assms(2) m Let_def split: prod.split)
  then show ?thesis by (cases a) simp
qed

lemma resched_smp_cong:
  assumes "smp s' = smp s" "que s' = que s"
    "\<And>u. klocked (tcb s' u) = klocked (tcb s u) \<and> assprc (tcb s' u) = assprc (tcb s u) \<and> tskid (tcb s' u) = tskid (tcb s u)"
  shows "resched_smp c s' = resched_smp c s"
proof -
  have sr: "scan_ring s' kl q a = scan_ring s kl q a" for kl q a by (rule scan_ring_cong) (use assms in auto)
  have "scan_ring s' = scan_ring s" by (intro ext sr)
  then have "knl_ready_queue_assign s' = knl_ready_queue_assign s"
    unfolding knl_ready_queue_assign_def scan_queue_def knl_assign_cores_def assms(1,2) by simp
  moreover have "drop_illegal (tcb s') = drop_illegal (tcb s)" "publish (tcb s') = publish (tcb s)"
    using assms(3) by (auto simp: drop_illegal_def publish_def fun_eq_iff split: option.split)
  ultimately show ?thesis by (simp add: resched_smp_def)
qed

lemma resched_quiet:
  assumes "quiet f"
  shows "knl_smp_reschedule_all c (upd_tcb t f s) = upd_tcb t f (knl_smp_reschedule_all c s)"
proof -
  have "resched_smp c (upd_tcb t f s) = resched_smp c s"
    by (rule resched_smp_cong) (use assms in auto)
  then show ?thesis by (simp add: knl_smp_reschedule_all_def)
qed

lemma ready_delete_quiet:
  assumes "quiet f"
  shows "knl_ready_queue_delete u (upd_tcb t f s) = upd_tcb t f (knl_ready_queue_delete u s)"
proof -
  have p: "priority (tcb (upd_tcb t f s) u) = priority (tcb s u)" "klockwait (tcb (upd_tcb t f s) u) = klockwait (tcb s u)"
    using assms by simp_all
  have r: "rq_unmark u (upd_tcb t f s) = rq_unmark u s"
    unfolding rq_unmark_def knl_ready_queue_delete_def p using assms by (cases "t = u") (simp_all add: Let_def)
  show ?thesis
    unfolding knl_ready_queue_delete_eq r using assms by (cases "t = u") (simp_all add: fun_upd_twist)
qed

lemma make_non_ready_quiet:
  assumes "quiet f"
  shows "knl_make_non_ready c u (upd_tcb t f s) = upd_tcb t f (knl_make_non_ready c u s)"
  unfolding knl_make_non_ready_def ready_delete_quiet[OF assms] resched_quiet[OF assms] ..

lemma ready_insert_quiet:
  assumes "quiet f"
  shows "fst (knl_ready_queue_insert u (upd_tcb t f s)) = upd_tcb t f (fst (knl_ready_queue_insert u s))"
  using assms by (auto simp: knl_ready_queue_insert_def rq_mark_def Let_def)

lemma upd_tcb_twist: "t \<noteq> u \<Longrightarrow> upd_tcb t f (upd_tcb u g s) = upd_tcb u g (upd_tcb t f s)"
  by (simp add: fun_upd_twist)

lemma make_ready_quiet:
  assumes "quiet f" "t \<noteq> u"
  shows "knl_make_ready c u (upd_tcb t f s) = upd_tcb t f (knl_make_ready c u s)"
  unfolding knl_make_ready_def upd_tcb_twist[OF assms(2)[symmetric]] ready_insert_quiet[OF assms(1)] resched_quiet[OF assms(1)] ..

lemma wait_release_quiet:
  assumes "quiet f" "t \<noteq> u"
  shows "knl_wait_release c u (upd_tcb t f s) = upd_tcb t f (knl_wait_release c u s)"
proof -
  let ?s = "s\<lparr>tmr := knl_timer_delete (TmTsk u) (tmr s), que := q_remove u (que s)\<rparr>"
  have "knl_wait_release c u (upd_tcb t f s) = knl_make_non_wait c u (upd_tcb t f ?s)"
    unfolding knl_wait_release_def by (rule arg_cong[where f = "knl_make_non_wait c u"]) simp
  also have "\<dots> = upd_tcb t f (knl_make_non_wait c u ?s)"
    using make_ready_quiet[OF assms, of c ?s] assms(2) by (auto simp: knl_make_non_wait_def fun_upd_twist)
  finally show ?thesis by (simp add: knl_wait_release_def)
qed

lemma set_wercd_quiet: "t \<noteq> u \<Longrightarrow> set_wercd u e (upd_tcb t f s) = upd_tcb t f (set_wercd u e s)"
  by (simp add: set_wercd_def split: option.split)

lemma note_wake_race_quiet: "knl_note_wake_race c u (upd_tcb t f s) = upd_tcb t f (knl_note_wake_race c u s)"
proof -
  have "find (\<lambda>core. core \<noteq> c \<and> ctxtsk (smp (upd_tcb t f s)) core = Some u) [0..<TK_MAX_CORE] =
      find (\<lambda>core. core \<noteq> c \<and> ctxtsk (smp s) core = Some u) [0..<TK_MAX_CORE]" by simp
  then show ?thesis
    by (cases "find (\<lambda>core. core \<noteq> c \<and> ctxtsk (smp s) core = Some u) [0..<TK_MAX_CORE]")
      (simp_all add: knl_note_wake_race_def del: upt_conv_Cons)
qed

lemma wait_release_ok_quiet:
  assumes "quiet f" "t \<noteq> u"
  shows "knl_wait_release_ok c u (upd_tcb t f s) = upd_tcb t f (knl_wait_release_ok c u s)"
  unfolding knl_wait_release_ok_def set_wercd_quiet[OF assms(2)] wait_release_quiet[OF assms] note_wake_race_quiet ..

end
