(* ===== verification/Task_Props.thy ===== *)
theory Task_Props
  imports Task_Frame
begin

text \<open>
  What the task calls guarantee: the kernel invariant, the counting of suspensions and of wakeup requests, and the life of
  a control block.
\<close>

subsection \<open>The calls that keep the invariant\<close>

lemma get_tcb_less: "CHECK_TSKID c x s = E_OK \<Longrightarrow> get_tcb x < NUM_TSKID"
  by (auto simp: CHECK_TSKID_def CHK_TSKID_def get_tcb_def size_defs split: if_splits)

lemma on_task_kwf:
  assumes "kwf s" "\<And>t. t < NUM_TSKID \<Longrightarrow> kwf (fst (body t s))"
  shows "kwf (fst (on_task c x body s))"
  using assms(1) assms(2)[of "get_tcb x"] get_tcb_less[of c x s] by (simp add: on_task_def case_prod_unfold Let_def)

lemma kwf_upd_plain:
  assumes "kwf s"
    and "state (f (tcb s t)) = state (tcb s t)" "klockwait (f (tcb s t)) = klockwait (tcb s t)" "stkfree (f (tcb s t)) = stkfree (tcb s t)"
      "priority (f (tcb s t)) = priority (tcb s t)" "assprc (f (tcb s t)) = assprc (tcb s t)"
      "wspec (f (tcb s t)) = wspec (tcb s t)" "wid (f (tcb s t)) = wid (tcb s t)"
    and "t < NUM_TSKID \<Longrightarrow> tcb_ok t (tcb s t) \<Longrightarrow> tcb_ok t (f (tcb s t))"
  shows "kwf (upd_tcb t f s)"
  by (rule kwf_upd_tcb[OF assms(1)]) (use assms in auto)

text \<open>A waiting task stays where it is when it is suspended or resumed.\<close>

lemma kwf_wait_susp:
  assumes k: "kwf s" and w: "in_wait (state (tcb s t))" "in_wait (state T')"
    and T': "wspec T' = wspec (tcb s t)" "wid T' = wid (tcb s t)" "assprc T' = assprc (tcb s t)" "tcb_ok t T'"
  shows "kwf (s\<lparr>tcb := (tcb s)(t := T')\<rparr>)"
proof -
  note k' = kwfD[OF k]
  have ah: "at_home T' q \<longleftrightarrow> at_home (tcb s t) q" for q
    using w T' by (cases q) (auto simp: at_home_def wring_def)
  have "loc_ok ((tcb s)(t := T')) (que s)"
    using k'(1) ah w T' loc_okD(3)[OF k'(1)] by (intro loc_ok_same) (auto simp: needs_home_def wring_def)
  moreover have "tcbs_ok ((tcb s)(t := T'))" using k'(2) T'(4) by (intro tcbs_ok_upd) auto
  moreover have "smp_aff ((tcb s)(t := T')) (smp s)" using k'(5) T'(3) by (subst smp_aff_assprc) auto
  ultimately show ?thesis using k' by (simp add: kwf_def)
qed

lemma sus_ready_eq:
  "upd_tcb t (state_update (\<lambda>_. TS_SUSPEND)) (knl_make_non_ready c t (upd_tcb t f s)) =
     (knl_make_non_ready c t s)\<lparr>tcb := (tcb s)(t := (f ((tcb s t)\<lparr>klockwait := False\<rparr>))\<lparr>state := TS_SUSPEND\<rparr>)\<rparr>"
  if "quiet f"
  unfolding make_non_ready_quiet[OF that] using that by (simp add: make_non_ready_sel)

lemma kwf_sus_tsk:
  assumes k: "kwf s" and t: "t < NUM_TSKID"
  shows "kwf (fst (sus_tsk_cs c t s))"
proof (cases "fst (sus_tsk_cs c t s) = s")
  case False
  note ok = tcbs_okD[OF kwfD(2)[OF k] t]
  have a: "knl_task_alive (state (tcb s t))" "suscnt (tcb s t) \<noteq> INT_MAX"
    using False by (auto simp: sus_tsk_cs_def Let_def split: if_splits)
  let ?f = "suscnt_update (\<lambda>n. n + 1)"
  have e: "fst (sus_tsk_cs c t s) =
      (case state (tcb s t) of
         TS_READY \<Rightarrow> upd_tcb t (state_update (\<lambda>_. TS_SUSPEND)) (knl_make_non_ready c t (upd_tcb t ?f s))
       | TS_WAIT \<Rightarrow> upd_tcb t (state_update (\<lambda>_. TS_WAITSUS)) (upd_tcb t ?f s)
       | _ \<Rightarrow> upd_tcb t ?f s)"
    using False by (auto simp: sus_tsk_cs_def Let_def split: if_splits tstat.splits)
  show ?thesis
  proof (cases "state (tcb s t)")
    case TS_READY
    let ?T = "(?f ((tcb s t)\<lparr>klockwait := False\<rparr>))\<lparr>state := TS_SUSPEND\<rparr>"
    have "kwf ((knl_make_non_ready c t s)\<lparr>tcb := (tcb s)(t := ?T)\<rparr>)"
      by (rule kwf_make_non_ready[OF k t]) (use ok a TS_READY in \<open>simp_all add: tcb_ok_def needs_home_def\<close>)
    then show ?thesis unfolding e TS_READY tstat.case sus_ready_eq[OF quiet_updates(2)] .
  next
    case TS_WAIT
    have "kwf (s\<lparr>tcb := (tcb s)(t := (?f (tcb s t))\<lparr>state := TS_WAITSUS\<rparr>)\<rparr>)"
      by (rule kwf_wait_susp[OF k]) (use ok a TS_WAIT in \<open>simp_all add: tcb_ok_def\<close>)
    then show ?thesis unfolding e TS_WAIT by simp
  next
    case TS_SUSPEND
    have "kwf (upd_tcb t ?f s)" by (rule kwf_upd_plain[OF k]) (use ok a TS_SUSPEND in \<open>auto simp: tcb_ok_def\<close>)
    then show ?thesis unfolding e TS_SUSPEND by simp
  next
    case TS_WAITSUS
    have "kwf (upd_tcb t ?f s)" by (rule kwf_upd_plain[OF k]) (use ok a TS_WAITSUS in \<open>auto simp: tcb_ok_def\<close>)
    then show ?thesis unfolding e TS_WAITSUS by simp
  qed (use a in simp_all)
qed (use k in simp)

lemma kwf_rsm_tsk:
  assumes k: "kwf s" and t: "t < NUM_TSKID"
  shows "kwf (fst (rsm_tsk_cs c t s))" "kwf (fst (frsm_tsk_cs c t s))"
proof -
  note ok = tcbs_okD[OF kwfD(2)[OF k] t]
  have plain: "kwf (upd_tcb t (suscnt_update (\<lambda>n. n - 1)) s)"
    if "in_suspend (state (tcb s t))" "suscnt (tcb s t) \<noteq> 1"
    by (rule kwf_upd_plain[OF k]) (use ok that in \<open>auto simp: tcb_ok_def\<close>)
  have ready: "kwf (knl_make_ready c t (s\<lparr>tcb := (tcb s)(t := (tcb s t)\<lparr>suscnt := 0\<rparr>)\<rparr>))"
    if "state (tcb s t) = TS_SUSPEND"
    by (rule kwf_make_ready[OF k t]) (use ok that in \<open>auto simp: tcb_ok_def\<close>)
  have wait: "kwf (s\<lparr>tcb := (tcb s)(t := (tcb s t)\<lparr>suscnt := 0, state := TS_WAIT\<rparr>)\<rparr>)"
    if "state (tcb s t) = TS_WAITSUS"
    by (rule kwf_wait_susp[OF k]) (use ok that in \<open>auto simp: tcb_ok_def\<close>)
  have s1: "suscnt_update (\<lambda>n. n - 1) (tcb s t) = suscnt_update (\<lambda>_. 0) (tcb s t)" if "suscnt (tcb s t) = 1"
    using that by (cases "tcb s t") simp
  show "kwf (fst (rsm_tsk_cs c t s))"
  proof (cases "state (tcb s t)")
    case TS_SUSPEND
    then show ?thesis using plain ready[OF TS_SUSPEND] by (cases "suscnt (tcb s t) = 1") (simp_all add: rsm_tsk_cs_def Let_def s1)
  next
    case TS_WAITSUS
    then show ?thesis using plain wait[OF TS_WAITSUS] by (cases "suscnt (tcb s t) = 1") (simp_all add: rsm_tsk_cs_def Let_def s1)
  qed (use k in \<open>simp_all add: rsm_tsk_cs_def\<close>)
  show "kwf (fst (frsm_tsk_cs c t s))"
    using ready wait k by (cases "state (tcb s t)") (simp_all add: frsm_tsk_cs_def)
qed

lemma kwf_wup_tsk:
  assumes k: "kwf s" and t: "t < NUM_TSKID"
  shows "kwf (fst (wup_tsk_cs c t s))"
proof -
  have "kwf (upd_tcb t (wupcnt_update (\<lambda>n. n + 1)) s)" if "wupcnt (tcb s t) \<noteq> INT_MAX"
    by (rule kwf_upd_plain[OF k]) (use that in \<open>auto simp: tcb_ok_def\<close>)
  then show ?thesis using k kwf_wait_release_ok(2)[OF k t, of c] by (simp add: wup_tsk_cs_def Let_def)
qed


text \<open>The caller goes to sleep or delays itself: it waits in no queue.\<close>

lemma kwf_self_wait:
  assumes k: "kwf s" and ca: "caller_ok c s" and w: "w = Wspec_slp \<or> w = Wspec_dly" and t: "t = cur c s"
  shows "kwf (wait_state c (upd_tcb t (\<lambda>T. T\<lparr>wspec := w, wid := 0, wercd := Some t\<rparr>) (s\<lparr>ercd := e\<rparr>)))"
proof -
  note c = caller_okD[OF ca]
  let ?s = "upd_tcb t (\<lambda>T. T\<lparr>wspec := w, wid := 0, wercd := Some t\<rparr>) (s\<lparr>ercd := e\<rparr>)"
  have "kwf ((s\<lparr>ercd := e\<rparr>)\<lparr>tcb := (tcb (s\<lparr>ercd := e\<rparr>))(t := (tcb s t)\<lparr>wspec := w, wid := 0, wercd := Some t\<rparr>)\<rparr>)"
    by (rule kwf_upd_tcb) (use k c(4) t in \<open>auto simp: tcb_ok_def\<close>)
  then have k1: "kwf ?s" by simp
  have ca1: "caller_ok c ?s" using ca t by (auto simp: caller_ok_def)
  show ?thesis
    by (rule kwf_wait_state_out[OF k1 ca1]) (use t w in \<open>auto simp: wring_def\<close>)
qed

lemma kwf_slp_tsk:
  assumes "kwf s" "caller_ok c s"
  shows "kwf (fst (slp_tsk_cs c tmout s))"
proof -
  let ?t = "cur c s"
  have "kwf (upd_tcb ?t (wupcnt_update (\<lambda>n. n - 1)) s)" if "wupcnt (tcb s ?t) > 0"
    by (rule kwf_upd_plain[OF assms(1)]) (use that in \<open>auto simp: tcb_ok_def\<close>)
  then show ?thesis
    using assms(1) kwf_self_wait[OF assms, of Wspec_slp ?t "(ercd s)(?t := E_TMOUT)"]
    by (simp add: slp_tsk_cs_def knl_make_wait_def Let_def)
qed

lemma kwf_dly_tsk:
  assumes "kwf s" "caller_ok c s"
  shows "kwf (dly_tsk_cs c dlytim s)"
  using kwf_self_wait[OF assms, of Wspec_dly "cur c s" "(ercd s)(cur c s := E_OK)"]
  by (simp add: dly_tsk_cs_def knl_make_wait_reltim_def Let_def)

lemma kwf_sta_tsk:
  assumes k: "kwf s" and t: "t < NUM_TSKID"
  shows "kwf (fst (sta_tsk_cs c stacd t s))"
proof -
  have "kwf (knl_make_ready c t (s\<lparr>tcb := (tcb s)(t := (tcb s t)\<lparr>ctx_set := Some stacd\<rparr>)\<rparr>))" if d: "state (tcb s t) = TS_DORMANT"
    by (rule kwf_make_ready[OF k t]) (use tcbs_okD[OF kwfD(2)[OF k] t] d in \<open>auto simp: tcb_ok_def\<close>)
  then show ?thesis
    using k by (simp add: sta_tsk_cs_def knl_setup_context_def knl_setup_stacd_def Let_def)
qed

lemma chg_pri_loop_less:
  "chg_pri_loop n nxt hi0 lo0 p0 s = Some (hi, lo) \<Longrightarrow> hi0 < NUM_TSKPRI \<Longrightarrow> hi < NUM_TSKPRI"
  by (induction n arbitrary: nxt hi0 lo0 p0) (auto simp: Let_def split: option.splits if_splits)

lemma chg_pri_mutex_less:
  assumes "knl_chg_pri_mutex t pri s = Some e" "\<not> e < E_OK" "pri < NUM_TSKPRI"
  shows "nat e < NUM_TSKPRI"
proof -
  obtain low hi lo where "chg_pri_loop MTX_FUEL (mtxlist (tcb s t)) pri low pri s = Some (hi, lo)" "e = E_ILUSE \<or> e = int hi"
    using assms(1) unfolding knl_chg_pri_mutex_def Let_def
    by (auto simp del: chg_pri_loop.simps split: option.split_asm prod.split_asm)
  from chg_pri_loop_less[OF this(1) assms(3)] this(2) assms(2) show ?thesis by auto
qed


subsection \<open>Releasing a wait with the hook of its object\<close>

lemma repri_call_rel_wai:
  assumes k: "kwf s" and m: "mtx_ok s"
  shows "repri s (call_rel_wai c t s)"
proof -
  have sem: "repri s (sem_rel_wai c t s)" unfolding sem_rel_wai_def
    by (rule woken_repri[OF woken_sem_chg_pri[OF k]]) simp
  have mbf: "repri s (knl_mbf_rel_wai c t s)" unfolding knl_mbf_rel_wai_def
    by (rule woken_repri[OF woken_mbf_chg_pri[OF k]]) simp
  have mpl: "repri s (returned s (mpl_rel_wai c t s))"
    using woken_mpl_chg_pri[OF k, of "- 1" t c] repri_fault[OF k] woken_repri unfolding mpl_rel_wai_def by auto
  have mtx: "repri s (mtx_rel_wai c t s)"
  proof (cases "mtxtsk (mtx s (get_mtxcb (wid (tcb s t))))")
    case None
    then show ?thesis using repri_fault[OF k] by (simp add: mtx_rel_wai_def)
  next
    case (Some u)
    then have u: "u < NUM_TSKID" "state (tcb s u) \<noteq> TS_NONEXIST" using m by (auto simp: mtx_ok_def)
    have "repri s (release_mutex (knl_change_task_priority c) u None s)"
      using repri_release_mutex_None[OF k m u] repri_chg_pri[OF _ _ u(1)] by blast
    then show ?thesis using Some repri_refl[OF k] by (simp add: mtx_rel_wai_def knl_release_mutex_def)
  qed
  show ?thesis
    using sem mbf mpl mtx repri_refl[OF k]
    by (auto simp: call_rel_wai_def split: option.split rel_wai_hook.split)
qed


subsection \<open>Together\<close>

lemma get_tcb_self_less:
  assumes "caller_ok c s" "CHECK_TSKID_SELF c x s"
  shows "get_tcb_self c x s < NUM_TSKID"
  using assms(2) caller_okD(1)[OF assms(1)]
  by (auto simp: CHECK_TSKID_SELF_def get_tcb_self_def CHK_TSKID_def get_tcb_def size_defs)

text \<open>
  \<open>task_inv\<close>: the scheduler invariant together with what the walks along mutexes rely on, and no walk has left its list so far.
  \<open>tame\<close>: a step that touches no mutex, and after which no other task waits for one.
\<close>

definition task_inv :: "kstate \<Rightarrow> bool" where
  "task_inv s \<longleftrightarrow> kwf s \<and> mtx_ok s \<and> chains_ok s \<and> \<not> fault s"

definition tame :: "kstate \<Rightarrow> kstate \<Rightarrow> bool" where
  "tame s s' \<longleftrightarrow> mtx s' = mtx s \<and> fault s' = fault s \<and>
     (\<forall>t. mtxlist (tcb s' t) = mtxlist (tcb s t) \<and> (state (tcb s' t) = TS_NONEXIST \<longleftrightarrow> state (tcb s t) = TS_NONEXIST) \<and>
        (in_wait (state (tcb s' t)) \<and> wspec (tcb s' t) \<in> {Wspec_mtx_tpri, Wspec_mtx_inherit} \<longrightarrow>
           in_wait (state (tcb s t)) \<and> wspec (tcb s t) = wspec (tcb s' t) \<and> wid (tcb s' t) = wid (tcb s t)))"

lemma tame_refl [simp]: "tame s s"
  by (simp add: tame_def)

lemma tame_end [simp]: "tame s (END_CRITICAL_SECTION c s') = tame s s'"
  by (simp add: tame_def)

lemma tame_inv: "task_inv s \<Longrightarrow> tame s s' \<Longrightarrow> kwf s' \<Longrightarrow> task_inv s'"
proof -
  assume i: "task_inv s" and t: "tame s s'" and k: "kwf s'"
  have m: "mtx s' = mtx s" using t by (simp add: tame_def)
  have "mtx_ok s'" using i t unfolding task_inv_def mtx_ok_def tame_def by metis
  moreover have "chains_ok s'"
    using i t mtx_list_within_cong[OF m] unfolding task_inv_def chains_ok_def tame_def by metis
  ultimately show ?thesis using i t k by (simp add: task_inv_def tame_def)
qed

lemma woken_tame:
  assumes w: "woken s s'"
  shows "tame s s'"
  unfolding tame_def
proof (intro conjI allI impI)
  show "mtx s' = mtx s" by (rule woken_mtx[OF w])
  show "fault s' = fault s" using w by (simp add: woken_def)
  fix t
  show "mtxlist (tcb s' t) = mtxlist (tcb s t)" by (rule woken_keep(3)[OF w])
  show "state (tcb s' t) = TS_NONEXIST \<longleftrightarrow> state (tcb s t) = TS_NONEXIST" by (rule woken_keep(7)[OF w])
  show "wspec (tcb s t) = wspec (tcb s' t)" "wid (tcb s' t) = wid (tcb s t)" using woken_keep(4,5)[OF w, of t] by simp_all
  assume "in_wait (state (tcb s' t)) \<and> wspec (tcb s' t) \<in> {Wspec_mtx_tpri, Wspec_mtx_inherit}"
  then show "in_wait (state (tcb s t))" using woken_keep(6)[OF w, of t] by metis
qed

lemmas tame_code = tame_def knl_make_ready_def knl_make_non_ready_def knl_smp_reschedule_all_def knl_ready_queue_delete_eq
  knl_ready_queue_insert_def Let_def

lemma tame_cs:
  "tame s (fst (sus_tsk_cs c t s))" "tame s (fst (rsm_tsk_cs c t s))" "tame s (fst (frsm_tsk_cs c t s))"
  "tame s (fst (sta_tsk_cs c stacd t s))"
proof -
  show "tame s (fst (sus_tsk_cs c t s))"
    by (cases "state (tcb s t)") (simp_all add: sus_tsk_cs_def tame_code)
  show "tame s (fst (rsm_tsk_cs c t s))" "tame s (fst (frsm_tsk_cs c t s))"
    by (cases "state (tcb s t)"; simp add: rsm_tsk_cs_def frsm_tsk_cs_def tame_code)+
  show "tame s (fst (sta_tsk_cs c stacd t s))"
    by (simp add: sta_tsk_cs_def knl_setup_context_def knl_setup_stacd_def tame_code)
qed

lemma tame_wup:
  assumes "kwf s" "t < NUM_TSKID"
  shows "tame s (fst (wup_tsk_cs c t s))"
proof -
  have "tame s (knl_wait_release_ok c t s)" if "in_wait (state (tcb s t))" by (rule woken_tame[OF woken_release[OF assms that]])
  moreover have "tame s (upd_tcb t (wupcnt_update (\<lambda>n. n + 1)) s)" by (simp add: tame_def)
  ultimately show ?thesis by (simp add: wup_tsk_cs_def Let_def)
qed

lemma tame_wait:
  assumes "caller_ok c s" "w = Wspec_slp \<or> w = Wspec_dly" "t = cur c s"
  shows "tame s (wait_state c (upd_tcb t (\<lambda>T. T\<lparr>wspec := w, wid := 0, wercd := Some t\<rparr>) (s\<lparr>ercd := e\<rparr>)))"
  unfolding tame_def
proof (intro conjI allI)
  let ?s' = "wait_state c (upd_tcb t (\<lambda>T. T\<lparr>wspec := w, wid := 0, wercd := Some t\<rparr>) (s\<lparr>ercd := e\<rparr>))"
  have st: "state (tcb s t) = TS_READY \<or> state (tcb s t) = TS_SUSPEND" using caller_okD(4)[OF assms(1)] assms(3) by simp
  then obtain T where s': "tcb ?s' = (tcb s)(t := T)" "fault ?s' = fault s" "wspec T = w" "mtxlist T = mtxlist (tcb s t)" "state T \<noteq> TS_NONEXIST"
    using assms(3)
    by (elim disjE) (simp_all add: wait_state_def knl_make_non_ready_def knl_smp_reschedule_all_def knl_ready_queue_delete_eq Let_def)
  show "mtx ?s' = mtx s" by simp
  show "fault ?s' = fault s" by (rule s'(2))
  fix u
  show "mtxlist (tcb ?s' u) = mtxlist (tcb s u)" "state (tcb ?s' u) = TS_NONEXIST \<longleftrightarrow> state (tcb s u) = TS_NONEXIST"
    "in_wait (state (tcb ?s' u)) \<and> wspec (tcb ?s' u) \<in> {Wspec_mtx_tpri, Wspec_mtx_inherit} \<longrightarrow>
       in_wait (state (tcb s u)) \<and> wspec (tcb s u) = wspec (tcb ?s' u) \<and> wid (tcb ?s' u) = wid (tcb s u)"
    unfolding s'(1) using st s'(3-5) assms(2) by auto
qed

lemma tame_self:
  assumes "caller_ok c s"
  shows "tame s (fst (slp_tsk_cs c tmout s))" "tame s (dly_tsk_cs c d s)"
proof -
  have x: "tame s (s'\<lparr>tmr := m\<rparr>) = tame s s'" for s' m by (simp add: tame_def)
  show "tame s (fst (slp_tsk_cs c tmout s))"
    using tame_wait[OF assms, of Wspec_slp "cur c s" "(ercd s)(cur c s := E_TMOUT)"]
    by (simp add: slp_tsk_cs_def knl_make_wait_def Let_def x) (simp add: tame_def)
  show "tame s (dly_tsk_cs c d s)"
    using tame_wait[OF assms, of Wspec_dly "cur c s" "(ercd s)(cur c s := E_OK)"]
    by (simp add: dly_tsk_cs_def knl_make_wait_reltim_def Let_def x)
qed

lemma tame_rotate: "tame s (knl_rotate_ready_queue c p s)" "tame s (knl_rotate_ready_queue_run c s)"
  by (simp_all add: knl_rotate_ready_queue_def knl_rotate_ready_queue_run_def knl_ready_queue_rotate_def tame_code split: list.split)

lemma tame_on_task:
  assumes "\<And>t. t < NUM_TSKID \<Longrightarrow> tame s (fst (body t s))"
  shows "tame s (fst (on_task c x body s))"
  using assms[of "get_tcb x"] get_tcb_less[of c x s] by (simp add: on_task_def case_prod_unfold Let_def)

subsection \<open>The calls that follow the owners of mutexes\<close>

lemma chg_pri_loop_returns:
  "mtx_list_within n nxt s \<Longrightarrow> \<exists>r. chg_pri_loop (Suc n) nxt hi lo p s = Some r"
proof (induction n arbitrary: nxt hi lo p)
  case (Suc n)
  then show ?case by (cases nxt) (auto simp: Let_def simp del: chg_pri_loop.simps, auto simp: chg_pri_loop.simps(2)[of "Suc n"] Let_def simp del: chg_pri_loop.simps)
qed simp

lemma task_inv_repri: "repri s s' \<Longrightarrow> task_inv s \<Longrightarrow> \<not> fault s' \<Longrightarrow> task_inv s'"
  using repri_kwf repri_mtx_ok repri_chains_ok by (auto simp: task_inv_def)

lemma chg_pri_cs_returns:
  assumes i: "task_inv s" and q: "pools_serve s" and t: "t < NUM_TSKID" and p: "tskpri = TPRI_INI \<or> CHK_PRI tskpri"
  shows "\<exists>s' e. chg_pri_cs c t tskpri s = Some (s', e) \<and> task_inv s'"
proof (cases "state (tcb s t) = TS_NONEXIST")
  case False
  have k: "kwf s" "mtx_ok s" "chains_ok s" "\<not> fault s" using i by (simp_all add: task_inv_def)
  note ok = tcbs_okD[OF kwfD(2)[OF k(1)] t]
  let ?pri = "if tskpri = TPRI_INI then ipriority (tcb s t) else int_priority tskpri"
  let ?s1 = "upd_tcb t (bpriority_update (\<lambda>_. ?pri)) s"
  have pri: "?pri < NUM_TSKPRI"
    using ok False p by (auto simp: tcb_ok_def CHK_PRI_def int_priority_def size_defs)
  have "mtx_list_within NUM_MTXID (mtxlist (tcb s t)) s" using k(3) t by (simp add: chains_ok_def)
  from chg_pri_loop_returns[OF this] have l: "\<exists>r. chg_pri_loop MTX_FUEL (mtxlist (tcb s t)) ?pri lo ?pri s = Some r" for lo .
  obtain e' where e': "knl_chg_pri_mutex t ?pri s = Some e'"
    unfolding knl_chg_pri_mutex_def Let_def
    using l[of "if in_wait (state (tcb s t)) \<and> tskwait (wspec (tcb s t)) AND 0x80 \<noteq> 0
                     then if mtxatr (mtx s (get_mtxcb (wid (tcb s t)))) AND TA_CEILING = TA_CEILING \<and> ceilpri (mtx s (get_mtxcb (wid (tcb s t)))) > int_priority MIN_TSKPRI then ceilpri (mtx s (get_mtxcb (wid (tcb s t)))) else int_priority MIN_TSKPRI
                     else int_priority MIN_TSKPRI"]
    by (auto simp del: chg_pri_loop.simps)
  have k1: "kwf ?s1" by (rule kwf_upd_plain[OF k(1)]) (use pri in \<open>auto simp: tcb_ok_def\<close>)
  have m1: "mtx_ok ?s1" using k(2) by (simp add: mtx_ok_def)
  have c1: "chains_ok ?s1" using k(3) mtx_list_within_cong[of ?s1 s] by (auto simp: chains_ok_def)
  have q1: "pools_serve ?s1" by (rule pools_serve_keep[OF q]) simp_all
  have i1: "task_inv ?s1" using k1 m1 c1 k(4) by (simp add: task_inv_def)
  have "task_inv (knl_change_task_priority c t (nat e') ?s1)" if "\<not> e' < E_OK"
  proof -
    note pe = chg_pri_mutex_less[OF e' that pri]
    show ?thesis
      by (rule task_inv_repri[OF repri_chg_pri[OF k1 m1 t pe] i1 chg_pri_ends[OF k1 m1 c1 _ t pe q1]]) (use k(4) in simp)
  qed
  then show ?thesis using e' i False by (auto simp: chg_pri_cs_def Let_def)
qed (use i in \<open>simp add: chg_pri_cs_def\<close>)

lemma call_rel_wai_no_fault:
  assumes k: "kwf s" and m: "mtx_ok s" and c: "chains_ok s" and q: "pools_serve s" and f: "\<not> fault s"
    and o: "wspec (tcb s t) = Wspec_mtx_inherit \<Longrightarrow> mtxtsk (mtx s (get_mtxcb (wid (tcb s t)))) \<noteq> None"
  shows "\<not> fault (call_rel_wai c' t s)"
proof -
  have sem: "\<not> fault (sem_rel_wai c' t s)" unfolding sem_rel_wai_def
    using woken_sem_chg_pri[OF k, of "- 1" t c'] f by (simp add: woken_def)
  have mbf: "\<not> fault (knl_mbf_rel_wai c' t s)" unfolding knl_mbf_rel_wai_def
    using woken_mbf_chg_pri[OF k, of "- 1" t c'] f by (simp add: woken_def)
  have mpl: "\<not> fault (returned s (mpl_rel_wai c' t s))" unfolding mpl_rel_wai_def
    by (rule mpl_chg_pri_no_fault[OF k q f]) simp
  have mtx: "\<not> fault (mtx_rel_wai c' t s)" if w: "wspec (tcb s t) = Wspec_mtx_inherit"
  proof -
    obtain u where u: "mtxtsk (mtx s (get_mtxcb (wid (tcb s t)))) = Some u" using o[OF w] by blast
    then have ul: "u < NUM_TSKID" "state (tcb s u) \<noteq> TS_NONEXIST" using m by (auto simp: mtx_ok_def)
    have b: "bpriority (tcb s u) < NUM_TSKPRI" using tcbs_okD[OF kwfD(2)[OF k] ul(1)] ul(2) by (simp add: tcb_ok_def)
    have "mtx_list_within NUM_MTXID (get_prev u None s) s" using c ul(1) by (simp add: chains_ok_def get_prev_def)
    from release_loop_ends[OF this] obtain np where np:
      "release_loop MTX_FUEL u None None (bpriority (tcb s u)) (bpriority (tcb s u)) s = (s, np)" by blast
    have lt: "np < NUM_TSKPRI"
      using release_loop_None[of MTX_FUEL u None "bpriority (tcb s u)" "bpriority (tcb s u)" s] np k m b by (metis prod.inject)
    have "knl_release_mutex c' u None s = (if np \<noteq> priority (tcb s u) then knl_change_task_priority c' u np s else s)"
      unfolding knl_release_mutex_def release_mutex_def Let_def np by (simp only: case_prod_conv)
    then have "\<not> fault (knl_release_mutex c' u None s)" using chg_pri_ends[OF k m c f ul(1) lt q, of c'] f by simp
    then show ?thesis using u f by (simp add: mtx_rel_wai_def)
  qed
  show ?thesis using sem mbf mpl mtx f by (cases "wspec (tcb s t)") (simp_all add: call_rel_wai_def)
qed

lemma task_inv_rel_wai:
  assumes i: "task_inv s" and q: "pools_serve s" and t: "t < NUM_TSKID"
  shows "task_inv (fst (rel_wai_cs c t s))"
proof (cases "in_wait (state (tcb s t))")
  case True
  have k: "kwf s" "mtx_ok s" "chains_ok s" "\<not> fault s" using i by (simp_all add: task_inv_def)
  have "wercd (tcb s t) = Some t" using tcbs_okD[OF kwfD(2)[OF k(1)] t] True by (auto simp: tcb_ok_def)
  then have e: "set_wercd t E_RLWAI s = s\<lparr>ercd := (ercd s)(t := E_RLWAI)\<rparr>" by (simp add: set_wercd_def)
  let ?s = "knl_wait_release c t (set_wercd t E_RLWAI s)"
  have k1: "kwf ?s" by (rule kwf_wait_release) (use k t True in \<open>simp_all add: kwf_set_wercd\<close>)
  have tm: "tame s ?s" using True by (auto simp: tame_def e released_def)
  have i1: "task_inv ?s" by (rule tame_inv[OF i tm k1])
  have q1: "pools_serve ?s"
    by (rule pools_serve_keep[OF q]) (auto simp: e q_release_other dest: set_remove1_subset[THEN subsetD])
  have o: "mtxtsk (mtx ?s (get_mtxcb (wid (tcb ?s t)))) \<noteq> None" if "wspec (tcb ?s t) = Wspec_mtx_inherit"
    using k(3) t True that by (auto simp: chains_ok_def e)
  have i1': "mtx_ok ?s" "chains_ok ?s" "\<not> fault ?s" using i1 by (simp_all add: task_inv_def)
  have "task_inv (call_rel_wai c t ?s)"
    by (rule task_inv_repri[OF repri_call_rel_wai[OF k1 i1'(1)] i1 call_rel_wai_no_fault[OF k1 i1'(1,2) q1 i1'(3) o]])
  then have "task_inv (knl_wait_release_ng c t E_RLWAI s)"
    by (simp add: knl_wait_release_ng_def Let_def task_inv_def mtx_ok_def kwf_note_wake_race chains_ok_def
        mtx_list_within_cong[of "knl_note_wake_race c t (call_rel_wai c t ?s)" "call_rel_wai c t ?s"])
  then show ?thesis using i True by (simp add: rel_wai_cs_def Let_def)
qed (use i in \<open>simp add: rel_wai_cs_def Let_def\<close>)

lemma task_inv_end [simp]: "task_inv s \<Longrightarrow> task_inv (END_CRITICAL_SECTION c s)"
  by (rule tame_inv[OF _ tame_end[THEN iffD2, OF tame_refl]]) (simp_all add: task_inv_def)

text \<open>
  C1. The invariant of the scheduler survives every call that suspends, resumes, delays, wakes, starts or releases a task or changes
  its priority, with every argument and on every path through the call: each control block stays linked exactly
  where the task's state says, the ready queue's bitmap and top priority stay exact, suspension counts and states agree,
  no task is current or selected on two cores, the owners of mutexes exist, no list of locked mutexes is longer than the number of mutexes, mutexes that are waited for
  are owned, and no walk along mutexes leaves its list (\<open>fault\<close> stays clear). \<open>tk_chg_pri\<close> returns.
  The hypotheses: the invariant holds before the call; the core's current task exists and is ready or suspended (\<open>caller_ok\<close>, which the calls
  that make the caller wait rely on); and the searches of a variable-size pool for the tasks
  that wait for it return (\<open>pools_serve\<close>, relied on by \<open>tk_chg_pri\<close> and \<open>tk_rel_wai\<close>, which serve the pool's other waiters).
\<close>
theorem task_calls_keep_invariant:
  assumes "task_inv s" "caller_ok c s" "pools_serve s"
  shows "task_inv (fst (tk_sus_tsk c x s)) \<and> task_inv (fst (tk_rsm_tsk c x s)) \<and> task_inv (fst (tk_frsm_tsk c x s)) \<and>
    task_inv (fst (tk_slp_tsk c tmout s)) \<and> task_inv (fst (tk_wup_tsk c x s)) \<and> task_inv (fst (tk_can_wup c x s)) \<and>
    task_inv (fst (tk_dly_tsk c dlytim s)) \<and> task_inv (fst (tk_sta_tsk c x stacd s)) \<and> task_inv (fst (tk_rot_rdq c tskpri s)) \<and>
    task_inv (fst (tk_rel_wai c x s)) \<and> (\<exists>s' e. tk_chg_pri c x tskpri s = Some (s', e) \<and> task_inv s')"
proof (intro conjI)
  note i = assms(1) and ca = assms(2)
  have k: "kwf s" using i by (simp add: task_inv_def)
  show "task_inv (fst (tk_sus_tsk c x s))" "task_inv (fst (tk_rsm_tsk c x s))" "task_inv (fst (tk_frsm_tsk c x s))"
    "task_inv (fst (tk_wup_tsk c x s))" "task_inv (fst (tk_sta_tsk c x stacd s))"
    unfolding tk_sus_tsk_def tk_rsm_tsk_def tk_frsm_tsk_def tk_wup_tsk_def tk_sta_tsk_def
    by (rule tame_inv[OF i tame_on_task on_task_kwf[OF k]];
        simp add: kwf_sus_tsk kwf_rsm_tsk kwf_wup_tsk kwf_sta_tsk k tame_cs tame_wup)+
  have slp: "task_inv (fst (slp_tsk_cs c tmout s))" by (rule tame_inv[OF i tame_self(1)[OF ca] kwf_slp_tsk[OF k ca]])
  then show "task_inv (fst (tk_slp_tsk c tmout s))"
    using i by (simp add: tk_slp_tsk_def case_prod_unfold Let_def)
  have "task_inv (dly_tsk_cs c dlytim s)" by (rule tame_inv[OF i tame_self(2)[OF ca] kwf_dly_tsk[OF k ca]])
  then show "task_inv (fst (tk_dly_tsk c dlytim s))" using i by (simp add: tk_dly_tsk_def)
  have "kwf (upd_tcb t (wupcnt_update (\<lambda>_. 0)) s)" for t by (rule kwf_upd_plain[OF k]) (auto simp: tcb_ok_def)
  then have "task_inv (upd_tcb t (wupcnt_update (\<lambda>_. 0)) s)" for t by (rule tame_inv[OF i, rotated]) (simp add: tame_def)
  then show "task_inv (fst (tk_can_wup c x s))"
    using i by (simp add: tk_can_wup_def Let_def split: tstat.split)
  have "task_inv (knl_rotate_ready_queue c p s)" "task_inv (knl_rotate_ready_queue_run c s)" for p
    by (rule tame_inv[OF i tame_rotate(1) kwf_rotate[OF k]], rule tame_inv[OF i tame_rotate(2) kwf_rotate_run[OF k]])
  then show "task_inv (fst (tk_rot_rdq c tskpri s))" using i by (simp add: tk_rot_rdq_def)
  show "task_inv (fst (tk_rel_wai c x s))"
    using i task_inv_rel_wai[OF i assms(3) get_tcb_less] by (simp add: tk_rel_wai_def case_prod_unfold Let_def)
  show "\<exists>s' e. tk_chg_pri c x tskpri s = Some (s', e) \<and> task_inv s'"
  proof (cases "CHECK_TSKID_SELF c x s \<and> (tskpri = TPRI_INI \<or> CHK_PRI tskpri)")
    case True
    then obtain s1 e where "chg_pri_cs c (get_tcb_self c x s) tskpri s = Some (s1, e)" "task_inv s1"
      using chg_pri_cs_returns[OF i assms(3) get_tcb_self_less[OF ca]] by blast
    then show ?thesis using True by (auto simp: tk_chg_pri_def)
  qed (use i in \<open>auto simp: tk_chg_pri_def\<close>)
qed

theorem task_calls_keep_invariant_witness:
  "task_inv (fst (tk_sus_tsk 0 2 ex_mtx)) \<and> task_inv (fst (tk_rel_wai 0 2 ex_mtx)) \<and> task_inv (fst (tk_slp_tsk 0 100 ex_mtx)) \<and>
   tk_chg_pri 0 2 5 ex_mtx \<noteq> None"
proof -
  have "task_inv ex_mtx" using ex_mtx_ok by (simp add: task_inv_def ex_mtx_sel)
  from task_calls_keep_invariant[OF this ex_mtx_ok(4,5), of 2 100 0 0 5] show ?thesis by auto
qed


subsection \<open>Suspending and resuming\<close>

text \<open>
  C10. Resuming undoes suspending. For a task that waits or is suspended already, \<open>tk_rsm_tsk\<close> after a successful
  \<open>tk_sus_tsk\<close> restores the kernel state exactly. A ready task leaves every ready queue while it is suspended, and comes back ready,
  with its old control block, at the end of the queue of its priority. The task must not be one that is queued on an object lock
  (\<open>klockwait\<close>): suspending such a task takes it out of the queue of the lock and clears that flag.
\<close>
theorem suspend_resume_roundtrip:
  assumes k: "kwf s" and t: "t < NUM_TSKID" and sus: "sus_tsk_cs c t s = (s1, E_OK)" and rsm: "rsm_tsk_cs c t s1 = (s2, e)"
    and kw: "\<not> klockwait (tcb s t)"
  shows "e = E_OK \<and> suscnt (tcb s1 t) = suscnt (tcb s t) + 1 \<and> in_suspend (state (tcb s1 t)) \<and> (\<forall>p. t \<notin> set (que s1 (RdyQ p))) \<and>
    tcb s2 = tcb s \<and>
    (if state (tcb s t) = TS_READY
     then que s2 (RdyQ (priority (tcb s t))) = remove1 t (que s (RdyQ (priority (tcb s t)))) @ [t]
     else s2 = s)"
proof -
  note ok = tcbs_okD[OF kwfD(2)[OF k] t]
  let ?f = "suscnt_update (\<lambda>n. n + 1)"
  have a: "knl_task_alive (state (tcb s t))" "suscnt (tcb s t) \<noteq> INT_MAX" and
    s1: "s1 = (case state (tcb s t) of
         TS_READY \<Rightarrow> upd_tcb t (state_update (\<lambda>_. TS_SUSPEND)) (knl_make_non_ready c t (upd_tcb t ?f s))
       | TS_WAIT \<Rightarrow> upd_tcb t (state_update (\<lambda>_. TS_WAITSUS)) (upd_tcb t ?f s)
       | _ \<Rightarrow> upd_tcb t ?f s)"
    using sus by (auto simp: sus_tsk_cs_def state_error_def Let_def split: if_splits tstat.splits)
  have rst: "(tcb s t)\<lparr>suscnt := suscnt (tcb s t)\<rparr> = tcb s t" by simp
  have same: "s\<lparr>tcb := (tcb s)(t := tcb s t)\<rparr> = s" by simp
  show ?thesis
  proof (cases "state (tcb s t) = TS_READY")
    case False
    have nr: "t \<notin> set (que s (RdyQ p))" for p by (rule waiting_not_ready[OF k False])
    consider "state (tcb s t) = TS_WAIT" | "state (tcb s t) = TS_SUSPEND" | "state (tcb s t) = TS_WAITSUS"
      using a False by (cases "state (tcb s t)") auto
    then show ?thesis
    proof cases
      case 1
      then have "suscnt (tcb s t) = 0" using ok by (simp add: tcb_ok_def)
      then have z: "(tcb s t)\<lparr>suscnt := 0, state := TS_WAIT\<rparr> = tcb s t" using 1 by (cases "tcb s t") simp
      have "s1 = s\<lparr>tcb := (tcb s)(t := (tcb s t)\<lparr>suscnt := 1, state := TS_WAITSUS\<rparr>)\<rparr>"
        using 1 \<open>suscnt (tcb s t) = 0\<close> unfolding s1 by (cases "tcb s t") simp
      then show ?thesis using rsm 1 z nr \<open>suscnt (tcb s t) = 0\<close> by (auto simp: rsm_tsk_cs_def Let_def comp_def)
    next
      case 2
      then have p: "suscnt (tcb s t) > 0" using ok by (simp add: tcb_ok_def)
      have "s1 = s\<lparr>tcb := (tcb s)(t := (tcb s t)\<lparr>suscnt := suscnt (tcb s t) + 1\<rparr>)\<rparr>"
        using 2 unfolding s1 by (cases "tcb s t") simp
      then show ?thesis using rsm 2 p nr rst by (auto simp: rsm_tsk_cs_def Let_def comp_def)
    next
      case 3
      then have p: "suscnt (tcb s t) > 0" using ok by (simp add: tcb_ok_def)
      have "s1 = s\<lparr>tcb := (tcb s)(t := (tcb s t)\<lparr>suscnt := suscnt (tcb s t) + 1\<rparr>)\<rparr>"
        using 3 unfolding s1 by (cases "tcb s t") simp
      then show ?thesis using rsm 3 p nr rst by (auto simp: rsm_tsk_cs_def Let_def comp_def)
    qed
  next
    case True
    have z: "suscnt (tcb s t) = 0" using ok True by (simp add: tcb_ok_def)
    let ?T = "(?f ((tcb s t)\<lparr>klockwait := False\<rparr>))\<lparr>state := TS_SUSPEND\<rparr>"
    have e1: "s1 = (knl_make_non_ready c t s)\<lparr>tcb := (tcb s)(t := ?T)\<rparr>"
      using True s1 sus_ready_eq[OF quiet_updates(2), where t = t and c = c and s = s] by simp
    have T: "?T = (tcb s t)\<lparr>suscnt := 1, state := TS_SUSPEND\<rparr>" using z kw by (cases "tcb s t") simp
    have q1: "que s1 = q_remove t (que s)" "tcb s1 = (tcb s)(t := (tcb s t)\<lparr>suscnt := 1, state := TS_SUSPEND\<rparr>)"
      unfolding e1 T by (simp_all add: make_non_ready_sel)
    have "t \<notin> set (que s1 q)" for q using set_q_remove[OF kwfD(1)[OF k]] q1(1) by auto
    moreover have "(tcb s t)\<lparr>suscnt := 0, state := TS_READY\<rparr> = tcb s t" using True z by (cases "tcb s t") simp
    ultimately show ?thesis
      using rsm q1 True z
      by (auto simp: rsm_tsk_cs_def knl_make_ready_def knl_ready_queue_insert_def knl_smp_reschedule_all_def
          q_insert_def q_remove_def Let_def remove1_idem)
  qed
qed

theorem suspend_resume_roundtrip_witness:
  "fst (rsm_tsk_cs 0 1 (fst (sus_tsk_cs 0 1 ex_mtx))) = ex_mtx"
proof -
  have "sus_tsk_cs 0 1 ex_mtx = (fst (sus_tsk_cs 0 1 ex_mtx), E_OK)"
    by (simp add: sus_tsk_cs_def ex_mtx_sel ex_wait_def ex_tcb_def ex_smp_def knl_ctxtsk_core_def Let_def)
  from suspend_resume_roundtrip[OF ex_mtx_ok(1) _ this prod.collapse[symmetric]] show ?thesis
    by (simp add: ex_mtx_sel ex_wait_def ex_tcb_def size_defs)
qed

subsection \<open>Wakeup requests\<close>

text \<open>
  C9. A wakeup is never lost. When the target sleeps, \<open>tk_wup_tsk\<close> ends its wait with \<open>E_OK\<close>. When it does anything else, the request is
  counted, and the next \<open>tk_slp_tsk\<close> of that task, on any core, consumes it and returns \<open>E_OK\<close> at once: the two
  calls together leave the kernel state as it was. Only a full counter refuses a request, with \<open>E_QOVR\<close>.
\<close>
theorem wakeup_not_lost:
  assumes k: "kwf s" and t: "t < NUM_TSKID" "knl_task_alive (state (tcb s t))" and w: "wup_tsk_cs c t s = (s1, e)"
  shows "if in_wait (state (tcb s t)) \<and> wspec (tcb s t) = Wspec_slp
     then e = E_OK \<and> ercd s1 t = E_OK \<and> tcb s1 t = released (tcb s t) \<and> wupcnt (tcb s1 t) = wupcnt (tcb s t)
     else if wupcnt (tcb s t) = INT_MAX then e = E_QOVR \<and> s1 = s
     else e = E_OK \<and> wupcnt (tcb s1 t) = wupcnt (tcb s t) + 1 \<and>
       (\<forall>d. cur d s = t \<longrightarrow> slp_tsk_cs d tmout s1 = (s, Ret E_OK))"
proof (cases "in_wait (state (tcb s t)) \<and> wspec (tcb s t) = Wspec_slp")
  case True
  have we: "wercd (tcb s t) = Some t" using tcbs_okD[OF kwfD(2)[OF k] t(1)] True by (auto simp: tcb_ok_def)
  have "s1 = knl_wait_release_ok c t s" "e = E_OK" using w t True by (auto simp: wup_tsk_cs_def Let_def)
  then show ?thesis using True by (simp add: wait_release_ok_ercd_val[OF we] wait_release_ok_eq) (simp add: released_def)
next
  case False
  note cnt = tcbs_okD[OF kwfD(2)[OF k] t(1)]
  have "0 \<le> wupcnt (tcb s t)" using cnt t(2) by (auto simp: tcb_ok_def)
  moreover have u: "wupcnt_update (\<lambda>n. n) T = T" for T :: tcb by (cases T) simp
  ultimately show ?thesis
    using w t False by (auto simp: wup_tsk_cs_def slp_tsk_cs_def Let_def comp_def u)
qed

theorem wakeup_not_lost_witness:
  "slp_tsk_cs 0 100 (fst (wup_tsk_cs 1 0 ex_mtx)) = (ex_mtx, Ret E_OK)"
  using wakeup_not_lost[OF ex_mtx_ok(1) _ _ prod.collapse[symmetric], of 0 1 100]
  by (simp add: ex_mtx_sel ex_run_def ex_tcb_def ex_smp_def size_defs)


subsection \<open>Reclaiming a control block\<close>

lemma is_ctxtsk_iff: "knl_is_ctxtsk t s \<longleftrightarrow> (\<exists>d<TK_MAX_CORE. ctxtsk (smp s) d = Some t)"
proof -
  have "(\<exists>d<TK_MAX_CORE. P d) \<longleftrightarrow> P 0 \<or> P 1" for P by (auto simp: less_cores)
  then show ?thesis by (auto simp: knl_is_ctxtsk_def)
qed

text \<open>
  C7. The control block and the stack of a deleted task are not reused while a core still runs on them. When \<open>tk_del_tsk\<close> deletes a
  dormant task that is still the current task of a core, neither enters a free list: the task only becomes non-existent and is marked. It is the
  dispatcher of that core that, after it has left the task's context, puts the control block on the free list and
  returns the stack, once. A task that no core runs is reclaimed at once.
\<close>
theorem reclaim_waits_for_dispatch:
  assumes k: "kwf s" and t: "t < NUM_TSKID" "state (tcb s t) = TS_DORMANT" and del: "del_tsk_cs t s = Some (s1, e)"
  shows "e = E_OK \<and> state (tcb s1 t) = TS_NONEXIST \<and>
    (if \<exists>d<TK_MAX_CORE. ctxtsk (smp s) d = Some t
     then que s1 = que s \<and> mem s1 = mem s \<and> stkfree (tcb s1 t) \<and>
       (\<forall>d s2. d < TK_MAX_CORE \<longrightarrow> ctxtsk (smp s) d = Some t \<longrightarrow> dispatch_save d s1 = Some s2 \<longrightarrow>
          que s2 FreeTcb = que s FreeTcb @ [t] \<and> \<not> stkfree (tcb s2 t) \<and> (\<forall>c<TK_MAX_CORE. ctxtsk (smp s2) c \<noteq> Some t) \<and>
          (if tskatr (tcb s t) AND 0x20 = 0
           then ifree_area (imacb s) (isstack (tcb s t) - word_of_int (sstksz (tcb s t))) (mem s) = Some (mem s2)
           else mem s2 = mem s))
     else que s1 FreeTcb = que s FreeTcb @ [t])"
proof -
  have nf: "t \<notin> set (que s q)" for q by (rule not_linked[OF k]) (simp add: t)
  have ins: "q_insert t FreeTcb (que s) FreeTcb = que s FreeTcb @ [t]" by (simp add: q_insert_def)
  show ?thesis
  proof (cases "\<exists>d<TK_MAX_CORE. ctxtsk (smp s) d = Some t")
    case True
    then have s1: "s1 = upd_tcb t (\<lambda>T. T\<lparr>stkfree := True, state := TS_NONEXIST\<rparr>) s" "e = E_OK"
      using del t by (auto simp: del_tsk_cs_def Let_def is_ctxtsk_iff)
    have last: "\<not> (\<exists>c<TK_MAX_CORE. c \<noteq> d \<and> ctxtsk (smp s) c = Some t)" if "d < TK_MAX_CORE" "ctxtsk (smp s) d = Some t" for d
      using kwfD(4)[OF k] that by (auto simp: smp_excl_def)
    have d: "que s2 FreeTcb = que s FreeTcb @ [t] \<and> \<not> stkfree (tcb s2 t) \<and> (\<forall>c<TK_MAX_CORE. ctxtsk (smp s2) c \<noteq> Some t) \<and>
        (if tskatr (tcb s t) AND 0x20 = 0
         then ifree_area (imacb s) (isstack (tcb s t) - word_of_int (sstksz (tcb s t))) (mem s) = Some (mem s2)
         else mem s2 = mem s)"
      if "d < TK_MAX_CORE" "ctxtsk (smp s) d = Some t" "dispatch_save d s1 = Some s2" for d s2
      using that(2,3) last[OF that(1,2)] s1(1) ins
      by (auto simp: dispatch_save_def knl_smp_dispatch_release_def knl_del_tsk_def is_ctxtsk_iff Let_def bind_eq_Some_conv
          split: if_splits)
    show ?thesis using True s1 d by simp
  next
    case False
    then have "\<not> knl_is_ctxtsk t s" by (simp add: is_ctxtsk_iff)
    then have "knl_del_tsk t s = Some s1" "e = E_OK"
      using del t by (auto simp: del_tsk_cs_def Let_def bind_eq_Some_conv)
    then show ?thesis using False ins by (auto simp: knl_del_tsk_def Let_def bind_eq_Some_conv)
  qed
qed

text \<open>A terminated task, with a stack of its own, that core 1 has not left yet.\<close>

definition ex_left :: kstate where
  "ex_left = (let s = ex_state Wspec_sem_tfifo ex_winfo (SemQ 0)
     in upd_tcb 3 (tskatr_update (\<lambda>_. 0x21)) (s\<lparr>smp := (smp s)\<lparr>ctxtsk := (ctxtsk (smp s))(1 := Some 3)\<rparr>\<rparr>))"

lemma kwf_ex_left: "kwf ex_left"
proof -
  let ?s = "ex_state Wspec_sem_tfifo ex_winfo (SemQ 0)"
  let ?s1 = "?s\<lparr>smp := (smp ?s)\<lparr>ctxtsk := (ctxtsk (smp ?s))(1 := Some 3)\<rparr>\<rparr>"
  note k = kwfD[OF kwf_ex_state[of Wspec_sem_tfifo "SemQ 0" ex_winfo]]
  have "kwf ?s1"
    using k by (auto simp: kwf_def smp_excl_def smp_aff_def sched_ok_def less_cores ex_smp_def ex_run_def ex_tcb_def)
  then have "kwf (upd_tcb 3 (tskatr_update (\<lambda>_. 0x21)) ?s1)"
    by (rule kwf_upd_plain) (auto simp: tcb_ok_def)
  then show ?thesis by (simp add: ex_left_def Let_def)
qed

theorem reclaim_waits_for_dispatch_witness:
  "\<exists>s1 s2. del_tsk_cs 3 ex_left = Some (s1, E_OK) \<and> que s1 FreeTcb = [] \<and> dispatch_save 1 s1 = Some s2 \<and> que s2 FreeTcb = [3]"
proof -
  have f: "state (tcb ex_left 3) = TS_DORMANT" "ctxtsk (smp ex_left) 1 = Some 3" "que ex_left FreeTcb = []" "3 < NUM_TSKID"
    "tskatr (tcb ex_left 3) AND 0x20 \<noteq> 0"
    by (simp_all add: ex_left_def ex_tcb_def size_defs Let_def)
  have c: "knl_is_ctxtsk 3 ex_left" using f(2) by (auto simp: is_ctxtsk_iff less_cores)
  obtain s1 where s1: "del_tsk_cs 3 ex_left = Some (s1, E_OK)" "s1 = upd_tcb 3 (\<lambda>T. T\<lparr>stkfree := True, state := TS_NONEXIST\<rparr>) ex_left"
    using c f(1) by (auto simp: del_tsk_cs_def Let_def)
  have "dispatch_save 1 s1 \<noteq> None"
    using f by (simp add: s1(2) dispatch_save_def knl_smp_dispatch_release_def knl_del_tsk_def Let_def)
  then obtain s2 where s2: "dispatch_save 1 s1 = Some s2" by blast
  have "que s1 FreeTcb = []" using f(3) by (simp add: s1(2))
  moreover have "que s2 FreeTcb = [3]"
  proof -
    have ex: "\<exists>d<TK_MAX_CORE. ctxtsk (smp ex_left) d = Some 3" using c by (simp add: is_ctxtsk_iff)
    note R = reclaim_waits_for_dispatch[OF kwf_ex_left f(4,1) s1(1), unfolded if_P[OF ex], THEN conjunct2, THEN conjunct2,
        THEN conjunct2, THEN conjunct2, THEN conjunct2, rule_format, OF _ f(2) s2]
    then show ?thesis using f(3) by (simp add: less_cores)
  qed
  ultimately show ?thesis using s1(1) s2 by blast
qed

end
