(* ===== verification/Dispatch_Props.thy ===== *)
theory Dispatch_Props
  imports Task_Props
begin

text \<open>
  The dispatcher: run as one step it keeps the invariant; between its load and its store, where it does not hold
  the kernel lock, the other core can take the task that it has loaded.
\<close>

lemma del_tsk_sel:
  assumes "knl_del_tsk t s = Some s'"
  shows "tcb s' = (tcb s)(t := (tcb s t)\<lparr>state := TS_NONEXIST\<rparr>)" "que s' = q_insert t FreeTcb (que s)" "rq s' = rq s" "smp s' = smp s"
  using assms by (auto simp: knl_del_tsk_def Let_def bind_eq_Some_conv split: if_splits)

text \<open>Reclaiming an unlinked control block, with or without the mark of a deferred reclaim.\<close>

lemma kwf_reclaim:
  assumes k: "kwf s" and t: "t < NUM_TSKID" "\<And>q. t \<notin> set (que s q)"
    and f: "f = (\<lambda>T. T) \<or> f = stkfree_update (\<lambda>_. False)" and r: "knl_del_tsk t (upd_tcb t f s) = Some s'"
  shows "kwf s'"
proof -
  note d = del_tsk_sel[OF r]
  let ?T = "(f (tcb s t))\<lparr>state := TS_NONEXIST\<rparr>"
  have Q: "q_remove t (que s) = que s" using t(2) by (rule q_remove_fresh)
  have ah: "at_home ?T FreeTcb" by (simp add: at_home_def)
  have "set (que s FreeTcb @ [t]) = insert t (set (q_remove t (que s) FreeTcb))" "distinct (que s FreeTcb @ [t])"
    using t(2) loc_okD(1)[OF kwfD(1)[OF k]] by (auto simp: Q)
  with ah have dest: "\<exists>h xs. at_home ?T h \<and> (\<forall>p. h \<noteq> RdyQ p) \<and> que s' = (q_remove t (que s))(h := xs) \<and>
      set xs = insert t (set (q_remove t (que s) h)) \<and> distinct xs"
    by (intro exI[of _ FreeTcb] exI[of _ "que s FreeTcb @ [t]"]) (simp add: d Q q_insert_def)
  show ?thesis
    by (rule kwf_off_ready[OF k t(1) t(2), of ?T "que s'"])
      (use f tcbs_okD[OF kwfD(2)[OF k] t(1)] dest d in \<open>auto simp: tcb_ok_def\<close>)
qed

lemma smp_excl_upd:
  assumes e: "smp_excl m" and m': "ctxtsk m' = (ctxtsk m)(c := x)" "schedtsk m' = schedtsk m"
    and x: "\<And>d t. d < TK_MAX_CORE \<Longrightarrow> d \<noteq> c \<Longrightarrow> x = Some t \<Longrightarrow> ctxtsk m d \<noteq> Some t \<and> schedtsk m d \<noteq> Some t"
  shows "smp_excl m'"
  unfolding smp_excl_def
proof (intro allI impI)
  fix a b t assume ab: "a < TK_MAX_CORE" "b < TK_MAX_CORE" "a \<noteq> b"
  note h = e[unfolded smp_excl_def, rule_format, OF ab, of t]
  show "\<not> (ctxtsk m' a = Some t \<and> ctxtsk m' b = Some t) \<and> \<not> (schedtsk m' a = Some t \<and> schedtsk m' b = Some t) \<and>
      \<not> (ctxtsk m' a = Some t \<and> schedtsk m' b = Some t)"
    using h x[of a t] x[of b t] ab by (cases "a = c"; cases "b = c") (auto simp: m')
qed

lemma smp_aff_upd:
  assumes "smp_aff T m" "ctxtsk m' = (ctxtsk m)(c := x)" "schedtsk m' = schedtsk m" "\<And>t. x = Some t \<Longrightarrow> bit (assprc (T t)) c"
  shows "smp_aff T m'"
  unfolding smp_aff_def
proof (intro allI impI)
  fix a t assume a: "a < TK_MAX_CORE" "ctxtsk m' a = Some t \<or> schedtsk m' a = Some t"
  then show "bit (assprc (T t)) a"
    using assms(1)[unfolded smp_aff_def, rule_format, OF a(1), of t] assms(4)[of t] by (cases "a = c") (auto simp: assms(2,3))
qed

text \<open>The first part of the dispatcher: the core gives up its task.\<close>

lemma dispatch_save_eff:
  assumes k: "kwf s" and r: "dispatch_save c s = Some s1"
    and old: "\<forall>t. ctxtsk (smp s) c = Some t \<longrightarrow> stkfree (tcb s t) \<longrightarrow> t < NUM_TSKID \<and> (\<forall>q. t \<notin> set (que s q))"
  shows "kwf s1" "ctxtsk (smp s1) = (ctxtsk (smp s))(c := None)" "schedtsk (smp s1) = schedtsk (smp s)"
    "online_mask (smp s1) = online_mask (smp s)" "assprc (tcb s1 u) = assprc (tcb s u)"
proof -
  have kn: "kwf (s\<lparr>smp := m\<rparr>)" if "ctxtsk m = (ctxtsk (smp s))(c := None)" "schedtsk m = schedtsk (smp s)" "online_mask m = online_mask (smp s)" for m
    using kwfD[OF k] smp_excl_upd[OF kwfD(4)[OF k] that(1,2)] smp_aff_upd[OF kwfD(5)[OF k] that(1,2)] that
    by (simp add: kwf_def sched_ok_def)
  define m where "m = (smp s)\<lparr>pendsv := (pendsv (smp s))(c := False), dispatch_disabled := (dispatch_disabled (smp s))(c := DDS_DISABLE_IMPLICIT),
    ctxtsk := (ctxtsk (smp s))(c := None)\<rparr>"
  have "kwf s1 \<and> ctxtsk (smp s1) = (ctxtsk (smp s))(c := None) \<and> schedtsk (smp s1) = schedtsk (smp s) \<and>
      online_mask (smp s1) = online_mask (smp s) \<and> (\<forall>u. assprc (tcb s1 u) = assprc (tcb s u))"
  proof (cases "ctxtsk (smp s) c")
    case None
    then have "(ctxtsk (smp s))(c := None) = ctxtsk (smp s)" by auto
    moreover have "s1 = s\<lparr>smp := (smp s)\<lparr>pendsv := (pendsv (smp s))(c := False),
        dispatch_disabled := (dispatch_disabled (smp s))(c := DDS_DISABLE_IMPLICIT)\<rparr>\<rparr>"
      using r None by (simp add: dispatch_save_def Let_def)
    ultimately show ?thesis using kn[of "smp s1"] by simp
  next
    case (Some t)
    define s0 where "s0 = s\<lparr>smp := m\<lparr>context_releases := inc_at c (context_releases m)\<rparr>\<rparr>"
    have k0: "kwf s0" unfolding s0_def by (rule kn) (simp_all add: m_def)
    have "knl_smp_dispatch_release c t (s\<lparr>smp := m\<rparr>) = Some s1"
      using r Some by (simp add: dispatch_save_def m_def Let_def)
    note rel = this[unfolded knl_smp_dispatch_release_def]
    show ?thesis
    proof (cases "stkfree (tcb s t) \<and> \<not> knl_is_ctxtsk t s0")
      case False
      then have "s1 = s0" using rel by (auto simp: s0_def Let_def)
      then show ?thesis using k0 by (simp add: s0_def m_def)
    next
      case True
      then obtain s2 where s2: "knl_del_tsk t (upd_tcb t (stkfree_update (\<lambda>_. False)) s0) = Some s2"
        "s1 = s2\<lparr>smp := (smp s2)\<lparr>deferred_reclaims := deferred_reclaims (smp s2) + 1\<rparr>\<rparr>"
        using rel by (auto simp: s0_def Let_def bind_eq_Some_conv)
      note o = old[rule_format, OF Some conjunct1[OF True]]
      have "kwf s2" by (rule kwf_reclaim[where s = s0 and t = t and f = "stkfree_update (\<lambda>_. False)", OF k0 _ _ _ s2(1)]) (use o in \<open>auto simp: s0_def\<close>)
      then have "kwf s1" unfolding s2(2) by (rule kwf_smp_cong) simp_all
      then show ?thesis using del_tsk_sel[OF s2(1)] by (simp add: s2(2)) (simp add: s0_def m_def)
    qed
  qed
  then show "kwf s1" "ctxtsk (smp s1) = (ctxtsk (smp s))(c := None)" "schedtsk (smp s1) = schedtsk (smp s)"
    "online_mask (smp s1) = online_mask (smp s)" "assprc (tcb s1 u) = assprc (tcb s u)" by blast+
qed

text \<open>
  C3. The dispatcher, when nothing comes between its parts, makes the selected task current, or the idle task of
  its core when none is selected, and keeps the invariant: the task it makes current is current on no other core.
\<close>
theorem dispatch_keeps_exclusive:
  assumes k: "kwf s" and c: "c < TK_MAX_CORE"
    and old: "\<forall>t. ctxtsk (smp s) c = Some t \<longrightarrow> stkfree (tcb s t) \<longrightarrow> t < NUM_TSKID \<and> (\<forall>q. t \<notin> set (que s q))"
    and idle: "schedtsk (smp s) c = None \<Longrightarrow> (\<forall>d. bit (assprc (tcb s (idletsk c))) d \<longleftrightarrow> d = c)"
    and r: "knl_dispatch_entry c s = Some s'"
  shows "kwf s' \<and> ctxtsk (smp s') c = Some (case schedtsk (smp s) c of Some t \<Rightarrow> t | None \<Rightarrow> idletsk c) \<and>
    (\<forall>d<TK_MAX_CORE. d \<noteq> c \<longrightarrow> ctxtsk (smp s') d = ctxtsk (smp s) d \<and> ctxtsk (smp s') d \<noteq> ctxtsk (smp s') c)"
proof -
  obtain s1 where s1: "dispatch_save c s = Some s1" "s' = dispatch_store c (dispatch_load c s1) s1"
    using r by (auto simp: knl_dispatch_entry_def bind_eq_Some_conv)
  note S = dispatch_save_eff[OF k s1(1) old]
  note k1 = kwfD[OF S(1)]
  let ?t = "case schedtsk (smp s) c of Some t \<Rightarrow> t | None \<Rightarrow> idletsk c"
  have t: "dispatch_load c s1 = ?t" by (simp add: dispatch_load_def S)
  have aff: "bit (assprc (tcb s1 ?t)) c"
    using k1(5)[unfolded smp_aff_def, rule_format, OF c] idle S(3,5) by (simp split: option.split)
  have ex: "ctxtsk (smp s1) d \<noteq> Some ?t \<and> schedtsk (smp s1) d \<noteq> Some ?t" if d: "d < TK_MAX_CORE" "d \<noteq> c" for d
  proof (cases "schedtsk (smp s) c")
    case None
    then have "\<not> bit (assprc (tcb s1 ?t)) d" using idle S(5) d(2) by simp
    then show ?thesis using k1(5)[unfolded smp_aff_def, rule_format, OF d(1), of ?t] by blast
  next
    case (Some t)
    then show ?thesis using k1(4)[unfolded smp_excl_def, rule_format, OF d(1) c d(2), of t] S(3) by simp
  qed
  have st: "s' = dispatch_store c ?t s1" using s1(2) t by simp
  have "smp_excl (smp s')"
    by (rule smp_excl_upd[OF k1(4), of _ c "Some ?t"]) (use ex in \<open>simp_all add: st dispatch_store_def\<close>)
  moreover have "smp_aff (tcb s') (smp s')"
  proof -
    have "smp_aff (tcb s1) (smp s')"
      by (rule smp_aff_upd[OF k1(5), of _ c "Some ?t"]) (use aff in \<open>simp_all add: st dispatch_store_def\<close>)
    then show ?thesis by (simp add: st dispatch_store_def)
  qed
  moreover have "sched_ok (que s') (smp s')" using k1(6) by (simp add: st dispatch_store_def sched_ok_def)
  ultimately have "kwf s'" using k1 by (simp add: kwf_def) (simp add: st dispatch_store_def)
  moreover have "ctxtsk (smp s') c = Some ?t" "\<And>d. d \<noteq> c \<Longrightarrow> ctxtsk (smp s') d = ctxtsk (smp s1) d"
    by (simp_all add: st dispatch_store_def)
  ultimately show ?thesis using ex S(2) by auto
qed


theorem dispatch_keeps_exclusive_witness:
  "\<exists>s'. knl_dispatch_entry 0 ex_mtx = Some s' \<and> kwf s' \<and> ctxtsk (smp s') 0 = Some 0"
proof -
  have "ctxtsk (smp ex_mtx) 0 = Some 0" "schedtsk (smp ex_mtx) 0 = Some 0" "\<not> stkfree (tcb ex_mtx 0)"
    by (simp_all add: ex_mtx_sel ex_smp_def ex_run_def ex_tcb_def)
  note f = this
  have "knl_dispatch_entry 0 ex_mtx \<noteq> None"
    using f by (simp add: knl_dispatch_entry_def dispatch_save_def knl_smp_dispatch_release_def Let_def)
  then obtain s' where s': "knl_dispatch_entry 0 ex_mtx = Some s'" by blast
  show ?thesis
    using dispatch_keeps_exclusive[OF ex_mtx_ok(1) _ _ _ s'] f s' by (simp add: less_cores)
qed


subsection \<open>The window of the dispatcher\<close>

text \<open>
  Task 0 (priority 10) runs on core 0. Task 1 (priority 5) sleeps. Core 1 is in its dispatcher: it has given up its old task and task 2
  (priority 11) is selected for it.
\<close>

definition ex_race :: kstate where
  "ex_race = (ex_state Wspec_slp ex_winfo (SemQ 0))
     \<lparr>tcb := ex_tcb(0 := ex_run, 1 := (ex_wait Wspec_slp ex_winfo)\<lparr>priority := 5\<rparr>, 2 := (ex_tcb 2)\<lparr>state := TS_READY, priority := 11\<rparr>),
      que := (\<lambda>_. [])(RdyQ 10 := [0], RdyQ 11 := [2]),
      rq := \<lparr>top_priority = 10, bitmap = 0xC00, klocktsk = None\<rparr>,
      smp := ex_smp\<lparr>schedtsk := (\<lambda>c. if c = 0 then Some 0 else if c = 1 then Some 2 else None)\<rparr>\<rparr>"

lemma kwf_ex_race: "kwf ex_race"
proof -
  have q: "que ex_race q = (if q = RdyQ 10 then [0] else if q = RdyQ 11 then [2] else [])" for q by (simp add: ex_race_def)
  have T: "tcb ex_race t = (if t = 0 then ex_run else if t = 1 then (ex_wait Wspec_slp ex_winfo)\<lparr>priority := 5\<rparr>
      else if t = 2 then (ex_tcb 2)\<lparr>state := TS_READY, priority := 11\<rparr> else ex_tcb t)" for t by (simp add: ex_race_def)
  have h: "t = 0 \<or> t = 2" if "needs_home (tcb ex_race t)" for t
    using that by (auto simp: T needs_home_def ex_wait_def ex_tcb_def wring_def split: if_splits)
  have l: "loc_ok (tcb ex_race) (que ex_race)"
    unfolding loc_ok_def
  proof (intro conjI allI impI)
    show "distinct (que ex_race q)" for q by (simp add: q)
    show "t < NUM_TSKID" "at_home (tcb ex_race t) q" if "t \<in> set (que ex_race q)" for t q
      using that by (auto simp: q T size_defs at_home_def ex_run_def ex_tcb_def split: if_splits)
    show "p = p'" if "t \<in> set (que ex_race p)" "t \<in> set (que ex_race p')" for t p p'
      using that by (auto simp: q split: if_splits)
    show "\<exists>p. t \<in> set (que ex_race p)" if "needs_home (tcb ex_race t)" for t
    proof -
      have "0 \<in> set (que ex_race (RdyQ 10))" "2 \<in> set (que ex_race (RdyQ 11))" by (simp_all add: q)
      then show ?thesis using h[OF that] by blast
    qed
  qed
  have b: "bit (0xC00 :: UW) p \<longleftrightarrow> p = 10 \<or> p = 11" if "p < 32" for p
  proof -
    have e: "(0xC00 :: UW) = push_bit 10 1 OR push_bit 11 1" by (simp add: push_bit_eq_mult)
    show ?thesis unfolding e bit_or_iff bit_push_bit_iff bit_1_iff using that by auto
  qed
  have "tcbs_ok (tcb ex_race)"
    by (auto simp: ex_race_def tcbs_ok_def tcb_ok_def ex_run_def ex_wait_def ex_tcb_def size_defs)
  moreover have "rq_ok (que ex_race) (rq ex_race)"
    using b by (auto simp: ex_race_def rq_ok_def size_defs)
  moreover have "smp_excl (smp ex_race)"
    by (auto simp: ex_race_def smp_excl_def ex_smp_def less_cores)
  moreover have "smp_aff (tcb ex_race) (smp ex_race)"
    by (auto simp: ex_race_def smp_aff_def ex_smp_def ex_run_def ex_tcb_def less_cores)
  moreover have "sched_ok (que ex_race) (smp ex_race)"
  proof -
    have "0 \<in> set (que ex_race (RdyQ 10))" "2 \<in> set (que ex_race (RdyQ 11))" by (simp_all add: q)
    moreover have "t = 0 \<or> t = 2" if "schedtsk (smp ex_race) c = Some t" for c t
      using that by (auto simp: ex_race_def split: if_splits)
    ultimately show ?thesis unfolding sched_ok_def by blast
  qed
  ultimately show ?thesis using l by (simp add: kwf_def)
qed

text \<open>A wakeup, up to its reschedule.\<close>

lemma wup_resched:
  assumes "state (tcb s t) = TS_WAIT" "wspec (tcb s t) = Wspec_slp" "wercd (tcb s t) = Some t"
  shows "schedtsk (smp (fst (wup_tsk_cs c t s))) =
      schedtsk (resched_smp c (s\<lparr>tcb := (tcb s)(t := (tcb s t)\<lparr>state := TS_READY\<rparr>), que := q_insert t (RdyQ (priority (tcb s t))) (q_remove t (que s))\<rparr>))"
    "ipi_pending (smp (fst (wup_tsk_cs c t s))) =
      ipi_pending (resched_smp c (s\<lparr>tcb := (tcb s)(t := (tcb s t)\<lparr>state := TS_READY\<rparr>), que := q_insert t (RdyQ (priority (tcb s t))) (q_remove t (que s))\<rparr>))"
    "ctxtsk (smp (fst (wup_tsk_cs c t s))) = ctxtsk (smp s)" "online_mask (smp (fst (wup_tsk_cs c t s))) = online_mask (smp s)"
    "dispatch_disabled (smp (fst (wup_tsk_cs c t s))) = dispatch_disabled (smp s)"
    "tcb (fst (wup_tsk_cs c t s)) = (tcb s)(t := (tcb s t)\<lparr>state := TS_READY\<rparr>)"
    "que (fst (wup_tsk_cs c t s)) = q_insert t (RdyQ (priority (tcb s t))) (q_remove t (que s))"
proof -
  let ?X = "s\<lparr>tcb := (tcb s)(t := (tcb s t)\<lparr>state := TS_READY\<rparr>), que := q_insert t (RdyQ (priority (tcb s t))) (q_remove t (que s))\<rparr>"
  have e: "fst (wup_tsk_cs c t s) = knl_wait_release_ok c t s" using assms by (simp add: wup_tsk_cs_def Let_def)
  have n: "schedtsk (smp (knl_note_wake_race c t s')) = schedtsk (smp s')" "online_mask (smp (knl_note_wake_race c t s')) = online_mask (smp s')"
    "dispatch_disabled (smp (knl_note_wake_race c t s')) = dispatch_disabled (smp s')"
    "ipi_pending (smp (knl_note_wake_race c t s')) = ipi_pending (smp s')" for s'
    by (simp_all add: knl_note_wake_race_def split: option.split)
  define Y where "Y = fst (knl_ready_queue_insert t (upd_tcb t (state_update (\<lambda>_. TS_READY))
     (s\<lparr>ercd := (ercd s)(t := E_OK), tmr := knl_timer_delete (TmTsk t) (tmr s), que := q_remove t (que s)\<rparr>)))"
  have w: "knl_wait_release c t (set_wercd t E_OK s) = knl_smp_reschedule_all c Y"
    using assms by (simp add: knl_wait_release_def knl_make_non_wait_def knl_make_ready_def set_wercd_some Y_def)
  have "resched_smp c Y = resched_smp c ?X"
    by (rule resched_smp_cong) (auto simp: Y_def knl_ready_queue_insert_def Let_def)
  then show "schedtsk (smp (fst (wup_tsk_cs c t s))) = schedtsk (resched_smp c ?X)"
    "ipi_pending (smp (fst (wup_tsk_cs c t s))) = ipi_pending (resched_smp c ?X)"
    unfolding e knl_wait_release_ok_def n w by (simp_all add: knl_smp_reschedule_all_def)
  have y: "smp Y = smp s" by (simp add: Y_def knl_ready_queue_insert_def Let_def)
  show "ctxtsk (smp (fst (wup_tsk_cs c t s))) = ctxtsk (smp s)" unfolding e by simp
  show "online_mask (smp (fst (wup_tsk_cs c t s))) = online_mask (smp s)" "dispatch_disabled (smp (fst (wup_tsk_cs c t s))) = dispatch_disabled (smp s)"
    unfolding e knl_wait_release_ok_def n w by (simp_all add: knl_smp_reschedule_all_def y)
  show "tcb (fst (wup_tsk_cs c t s)) = (tcb s)(t := (tcb s t)\<lparr>state := TS_READY\<rparr>)"
    "que (fst (wup_tsk_cs c t s)) = q_insert t (RdyQ (priority (tcb s t))) (q_remove t (que s))"
    unfolding e using assms(1) by (simp_all add: released_def q_release_def)
qed

lemma race_step1:
  defines "s1 \<equiv> fst (wup_tsk_cs 0 1 ex_race)"
  shows "kwf s1" "schedtsk (smp s1) 0 = Some 0" "schedtsk (smp s1) 1 = Some 1" "ctxtsk (smp s1) = ctxtsk (smp ex_race)"
    "tcb s1 = (tcb ex_race)(1 := (tcb ex_race 1)\<lparr>state := TS_READY\<rparr>)"
    "que s1 = (que ex_race)(RdyQ 5 := [1])" "online_mask (smp s1) = 3" "dispatch_disabled (smp s1) = (\<lambda>_. 0)"
proof -
  have t1: "state (tcb ex_race 1) = TS_WAIT" "wspec (tcb ex_race 1) = Wspec_slp" "wercd (tcb ex_race 1) = Some 1" "priority (tcb ex_race 1) = 5"
    by (simp_all add: ex_race_def ex_wait_def ex_tcb_def)
  show k1: "kwf s1" unfolding s1_def by (rule kwf_wup_tsk[OF kwf_ex_race]) (simp add: size_defs)
  note w = wup_resched[OF t1(1-3), of 0, folded s1_def]
  have q: "q_insert 1 (RdyQ 5) (q_remove 1 (que ex_race)) = (que ex_race)(RdyQ 5 := [1])"
    by (auto simp: ex_race_def q_insert_def q_remove_def fun_eq_iff)
  define X where "X = ex_race\<lparr>tcb := (tcb ex_race)(1 := (tcb ex_race 1)\<lparr>state := TS_READY\<rparr>), que := (que ex_race)(RdyQ 5 := [1])\<rparr>"
  have X: "que X = (que ex_race)(RdyQ 5 := [1])" "smp X = smp ex_race" "tcb X = tcb s1" using w(6) by (simp_all add: X_def)
  have rl: "ready_list X = [1, 0, 2]"
    by (simp add: ready_list_def X(1,2) ex_race_def NUM_TSKPRI_def upt_rec)
  have as: "assprc (tcb X t) = 3" "\<not> klocked (tcb X t)" for t by (simp_all add: X_def ex_race_def ex_tcb_def ex_run_def ex_wait_def)
  have mk: "knl_task_core_mask X 1 = 3" "knl_task_core_mask X 0 = 1" "knl_task_core_mask X 2 = 2"
    by (simp_all add: knl_task_core_mask_def X(1,2) as) (simp_all add: ex_race_def ex_smp_def)
  have ch: "chosen X = [(1, 3), (0, 1)]"
    using mk by (simp add: chosen_def scan_order_def rl as feasible_def TK_MAX_CORE_def)
  have se: "selection X 0 = Some 0" "selection X 1 = Some 1"
    by (simp_all add: selection_def ch knl_assign_cores_def)
  have d: "distinct (ready_list X)" by (simp add: rl)
  have ex: "smp_excl (smp X)" using kwfD(4)[OF kwf_ex_race] by (simp add: X(2))
  have "assprc (tcb X t) = assprc (tcb ex_race t)" for t by (simp add: X_def)
  then have af: "smp_aff (tcb X) (smp X)" using kwfD(5)[OF kwf_ex_race] smp_aff_assprc[of "tcb X" "tcb ex_race"] by (simp add: X(2))
  have on: "online_mask (smp X) = 3" by (simp add: X(2) ex_race_def ex_smp_def)
  show "schedtsk (smp s1) 0 = Some 0" "schedtsk (smp s1) 1 = Some 1"
    unfolding w(1)[unfolded t1(4) q, folded X_def] schedtsk_resched[OF ex af d] using se on by (simp_all add: less_cores)
  show "ctxtsk (smp s1) = ctxtsk (smp ex_race)" "tcb s1 = (tcb ex_race)(1 := (tcb ex_race 1)\<lparr>state := TS_READY\<rparr>)"
    "que s1 = (que ex_race)(RdyQ 5 := [1])" "online_mask (smp s1) = 3" "dispatch_disabled (smp s1) = (\<lambda>_. 0)"
    using w(3-7) q t1(4) by (simp_all) (simp_all add: ex_race_def ex_smp_def)
qed


lemma race_step2:
  defines "s2 \<equiv> fst (slp_tsk_cs 0 (- 1) (fst (wup_tsk_cs 0 1 ex_race)))"
  shows "schedtsk (smp s2) 0 = Some 2" "ctxtsk (smp s2) = ctxtsk (smp ex_race)" "\<not> stkfree (tcb s2 0)"
proof -
  define s1 where "s1 = fst (wup_tsk_cs 0 1 ex_race)"
  note S = race_step1[folded s1_def]
  have c: "cur 0 s1 = 0" "wupcnt (tcb s1 0) = 0" "state (tcb s1 0) = TS_READY"
    by (simp_all add: S) (simp_all add: ex_race_def ex_smp_def ex_run_def ex_tcb_def)
  let ?T = "(tcb s1 0)\<lparr>wspec := Wspec_slp, wid := 0, wercd := Some 0\<rparr>"
  let ?s = "s1\<lparr>ercd := (ercd s1)(0 := E_TMOUT), tcb := (tcb s1)(0 := ?T)\<rparr>"
  define Y where "Y = knl_ready_queue_delete 0 ?s"
  have s2': "s2 = fst (slp_tsk_cs 0 (- 1) s1)" by (simp only: s2_def s1_def)
  have s2: "tcb s2 0 = ((tcb Y 0)\<lparr>state := TS_WAIT\<rparr>)" "smp s2 = resched_smp 0 Y"
    using c by (simp_all add: s2' slp_tsk_cs_def knl_make_wait_def wait_state_def knl_make_non_ready_def
        knl_smp_reschedule_all_def Y_def Let_def)
  define X where "X = s1\<lparr>que := q_remove 0 (que s1)\<rparr>"
  have XY: "resched_smp 0 Y = resched_smp 0 X"
    by (rule resched_smp_cong) (auto simp: Y_def X_def knl_ready_queue_delete_eq)
  have X: "smp X = smp s1" "que X = q_remove 0 (que s1)" "tcb X = tcb s1" by (simp_all add: X_def)
  have rl: "ready_list X = [1, 2]"
    by (simp add: ready_list_def X q_remove_def S ex_race_def NUM_TSKPRI_def upt_rec)
  have as: "assprc (tcb X t) = 3" "\<not> klocked (tcb X t)" for t
    by (simp_all add: X S) (simp_all add: ex_race_def ex_tcb_def ex_run_def ex_wait_def)
  have ctx: "ctxtsk (smp s1) = (\<lambda>c. if c = 0 then Some 0 else None)" by (simp add: S ex_race_def ex_smp_def)
  have mk: "knl_task_core_mask X 1 = 2" "knl_task_core_mask X 2 = 3"
    using S(2,3,7,8) by (simp_all add: knl_task_core_mask_def as X(1) ctx)
  have ch: "chosen X = [(1, 2), (2, 3)]"
    using mk by (simp add: chosen_def scan_order_def rl as feasible_def TK_MAX_CORE_def)
  have se: "selection X 0 = Some 2"
    by (simp add: selection_def ch knl_assign_cores_def ctx X(1))
  have d: "distinct (ready_list X)" by (simp add: rl)
  have "schedtsk (resched_smp 0 X) 0 = Some 2"
    using schedtsk_resched[of X 0 0] kwfD(4,5)[OF S(1)] d se S(7) by (simp add: X less_cores)
  then show "schedtsk (smp s2) 0 = Some 2" by (simp add: s2 XY)
  show "ctxtsk (smp s2) = ctxtsk (smp ex_race)" by (simp add: s2 XY X S)
  show "\<not> stkfree (tcb s2 0)" by (simp add: s2 Y_def knl_ready_queue_delete_eq S) (simp add: ex_race_def ex_run_def ex_tcb_def)
qed

text \<open>
  C11. Between its load of the selected task and its store of the current task the dispatcher holds no lock, and the store does not
  look again. From a state that satisfies the invariant: core 1 loads the task selected for it, task 2; before its store, core 0
  wakes a task of a higher priority, goes to sleep, is given task 2 by the reschedule, and dispatches it. When core 1
  goes on with its store, the same task is current on both cores.
\<close>
theorem dispatch_window_race:
  "kwf ex_race \<and>
   (let t = dispatch_load 1 ex_race; s1 = fst (wup_tsk_cs 0 1 ex_race); s2 = fst (slp_tsk_cs 0 (- 1) s1)
    in \<exists>s3. knl_dispatch_entry 0 s2 = Some s3 \<and> ctxtsk (smp (dispatch_store 1 t s3)) 0 = Some 2 \<and>
         ctxtsk (smp (dispatch_store 1 t s3)) 1 = Some 2)"
proof -
  define s2 where "s2 = fst (slp_tsk_cs 0 (- 1) (fst (wup_tsk_cs 0 1 ex_race)))"
  note S = race_step2[folded s2_def]
  have c0: "ctxtsk (smp s2) 0 = Some 0" by (simp add: S(2) ex_race_def ex_smp_def)
  have ld: "dispatch_load 1 ex_race = 2" by (simp add: dispatch_load_def ex_race_def)
  obtain s1' where s1': "dispatch_save 0 s2 = Some s1'" "schedtsk (smp s1') = schedtsk (smp s2)"
    using c0 S(3) by (simp add: dispatch_save_def knl_smp_dispatch_release_def Let_def)
  then have "knl_dispatch_entry 0 s2 = Some (dispatch_store 0 2 s1')"
    using S(1) by (simp add: knl_dispatch_entry_def dispatch_load_def)
  then show ?thesis
    unfolding Let_def s2_def[symmetric] ld using kwf_ex_race by (simp add: dispatch_store_def)
qed

end
