(* ===== verification/Smp_Lock.thy ===== *)
theory Smp_Lock
  imports Prelude
begin

text \<open>
  \<^verbatim>\<open>kernel/tkernel/smp_lock.c\<close>: the recursive big kernel lock, one step per access to a word that both
  processors share. Each core has a program counter in the lock's code; the two cores are interleaved
  by the step relation \<open>lk_step\<close>, over which mutual exclusion is an invariant. The interrupt mask and
  the SIO spinlocks are the hardware's, the microsecond timer is read from outside: every step gets
  the value that \<open>knl_arch_time_us\<close> returns in it. Statistics counters wrap like the words they are.
\<close>

subsection \<open>State\<close>

text \<open>
  What the final part of a release does after the lock word is cleared: \<open>knl_kernel_lock_leave\<close>
  restores the interrupt mask, \<open>abandon\<close> and \<open>suspend\<close> do not, and \<open>leave\<close> called for a context that
  was terminated while it waited goes on to the forced dispatch.
\<close>

datatype drop_kind = ByLeave | ByAbandon | BySuspend UW | ByDead

text \<open>
  The program counter of a core. \<open>r\<close> is the depth that \<open>knl_kernel_lock_resume\<close> re-establishes after
  the lock is entered (0 for a plain enter), \<open>saved\<close>, \<open>start\<close> and \<open>contended\<close> are the locals of
  \<open>knl_kernel_lock_enter\<close>. \<open>Out r\<close> is outside the lock's code, with the result \<open>r\<close> of the last call.
\<close>

datatype lock_pc =
    Out UW
  | Ent_Entry UW
  | Ent_Own UW bool
  | Ent_Test UW bool UW bool
  | Ent_Claim UW bool UW bool
  | Ent_Recheck UW bool UW bool
  | Ent_Set UW bool UW bool
  | Ent_Won UW bool UW bool
  | Ent_Give UW bool UW bool
  | Ent_Record UW bool UW bool
  | Res_Depth UW
  | Lv_Entry drop_kind
  | Ab_Entry
  | Sus_Entry
  | Res_Entry UW
  | Drop_Claim drop_kind
  | Drop_Clear drop_kind
  | Drop_Give drop_kind
  | Dead_Dispatch

record lock_stats =
  acquisitions :: UW
  contentions :: UW
  recursions :: UW
  max_depth :: UW
  max_hold_us :: UW
  max_wait_us :: UW
  detached_sections :: UW
  illegal_suspends :: UW
  illegal_unlocks :: UW
  dead_ctxtsk_dispatches :: UW

text \<open>
  \<open>hwlock n\<close> is the core that has claimed SIO spinlock \<open>n\<close>, \<open>masked c\<close> the interrupt mask of core \<open>c\<close>,
  and \<open>dead c\<close> holds when the running task of core \<open>c\<close> has been terminated by the other core (its
  state is dormant or non-existent, and the core is in its task part).
\<close>

record lkst =
  lock_word :: UW
  lock_depth :: "nat \<Rightarrow> UW"
  lock_primask :: "nat \<Rightarrow> bool"
  acquired_us :: "nat \<Rightarrow> UW"
  stats :: lock_stats
  hwlock :: "nat \<Rightarrow> nat option"
  masked :: "nat \<Rightarrow> bool"
  dead :: "nat \<Rightarrow> bool"
  pc :: "nat \<Rightarrow> lock_pc"

abbreviation (input) SPINLOCK_KERNEL :: nat where "SPINLOCK_KERNEL \<equiv> 0"
abbreviation (input) SPINLOCK_ATOMIC :: nat where "SPINLOCK_ATOMIC \<equiv> 1"

definition lock_token :: "nat \<Rightarrow> UW" where "lock_token self = of_nat self + 1"

definition knl_kernel_lock_is_held :: "nat \<Rightarrow> lkst \<Rightarrow> bool" where
  "knl_kernel_lock_is_held self s \<longleftrightarrow> lock_word s = lock_token self"

abbreviation upd_stats :: "(lock_stats \<Rightarrow> lock_stats) \<Rightarrow> lkst \<Rightarrow> lkst" where
  "upd_stats f s \<equiv> s\<lparr>stats := f (stats s)\<rparr>"

definition goto :: "nat \<Rightarrow> lock_pc \<Rightarrow> lkst \<Rightarrow> lkst" where
  "goto c p s = s\<lparr>pc := (pc s)(c := p)\<rparr>"

definition set_depth :: "nat \<Rightarrow> UW \<Rightarrow> lkst \<Rightarrow> lkst" where
  "set_depth c d s = s\<lparr>lock_depth := (lock_depth s)(c := d)\<rparr>"

definition set_primask :: "nat \<Rightarrow> bool \<Rightarrow> lkst \<Rightarrow> lkst" where
  "set_primask c m s = s\<lparr>masked := (masked s)(c := m)\<rparr>"

definition disint :: "nat \<Rightarrow> lkst \<Rightarrow> lkst" where
  "disint c s = set_primask c True s"

definition note_depth :: "UW \<Rightarrow> lock_stats \<Rightarrow> lock_stats" where
  "note_depth d q = (if d > max_depth q then q\<lparr>max_depth := d\<rparr> else q)"

definition note_hold :: "UW \<Rightarrow> lock_stats \<Rightarrow> lock_stats" where
  "note_hold held q = (if held > max_hold_us q then q\<lparr>max_hold_us := held\<rparr> else q)"

definition note_wait :: "UW \<Rightarrow> lock_stats \<Rightarrow> lock_stats" where
  "note_wait waited q = (if waited > max_wait_us q then q\<lparr>max_wait_us := waited\<rparr> else q)"

subsection \<open>The SIO spinlocks (smp_atomic.c)\<close>

text \<open>
  A read of \<open>SPINLOCK(n)\<close> claims the lock when nobody has it; \<open>knl_arch_hwlock_claim\<close> reads until it
  does. One read is one step: \<open>None\<close> when the lock is busy and the loop goes round again.
\<close>

definition knl_arch_hwlock_claim :: "nat \<Rightarrow> nat \<Rightarrow> (nat \<Rightarrow> nat option) \<Rightarrow> (nat \<Rightarrow> nat option) option" where
  "knl_arch_hwlock_claim c n h = (if h n = None then Some (h(n := Some c)) else None)"

definition knl_arch_hwlock_release :: "nat \<Rightarrow> (nat \<Rightarrow> nat option) \<Rightarrow> (nat \<Rightarrow> nat option)" where
  "knl_arch_hwlock_release n h = h(n := None)"

definition claim_then :: "nat \<Rightarrow> lock_pc \<Rightarrow> lkst \<Rightarrow> lkst" where
  "claim_then c p s = (case knl_arch_hwlock_claim c SPINLOCK_KERNEL (hwlock s) of
     None \<Rightarrow> s | Some h \<Rightarrow> goto c p (s\<lparr>hwlock := h\<rparr>))"

definition give_then :: "nat \<Rightarrow> lock_pc \<Rightarrow> lkst \<Rightarrow> lkst" where
  "give_then c p s = goto c p (s\<lparr>hwlock := knl_arch_hwlock_release SPINLOCK_KERNEL (hwlock s)\<rparr>)"

subsection \<open>Entering\<close>

text \<open>After \<open>disint\<close>: a core that owns the lock word only counts, the others start to wait.\<close>

definition enter_own :: "nat \<Rightarrow> UW \<Rightarrow> UW \<Rightarrow> bool \<Rightarrow> lkst \<Rightarrow> lkst" where
  "enter_own c now r saved s =
     (if lock_word s = lock_token c
      then let d = lock_depth s c + 1;
               s = upd_stats (\<lambda>q. (note_depth d q)\<lparr>recursions := recursions q + 1\<rparr>) (set_depth c d s)
           in goto c (Res_Depth r) (set_primask c saved s)
      else goto c (Ent_Test r saved now False) s)"

text \<open>The bookkeeping of the winner, and the check for a context that was terminated meanwhile.\<close>

definition enter_record :: "nat \<Rightarrow> UW \<Rightarrow> UW \<Rightarrow> bool \<Rightarrow> UW \<Rightarrow> bool \<Rightarrow> lkst \<Rightarrow> lkst" where
  "enter_record c now r saved start contended s =
     (let s = upd_stats (note_wait (now - start)) s;
          s = (set_depth c 1 s)\<lparr>lock_primask := (lock_primask s)(c := saved), acquired_us := (acquired_us s)(c := now)\<rparr>;
          s = upd_stats (\<lambda>q. q\<lparr>acquisitions := acquisitions q + 1\<rparr>) s;
          s = (if contended then upd_stats (\<lambda>q. q\<lparr>contentions := contentions q + 1\<rparr>) s else s);
          s = upd_stats (note_depth 1) s
      in if dead s c
         then goto c (Lv_Entry ByDead)
                (upd_stats (\<lambda>q. q\<lparr>dead_ctxtsk_dispatches := dead_ctxtsk_dispatches q + 1\<rparr>) s)
         else goto c (Res_Depth r) s)"

text \<open>
  One step of \<open>knl_kernel_lock_enter\<close>: the read of the lock word in front of the claim, the claim, the
  second read under the SIO spinlock, the write, the release of the spinlock, the bookkeeping.
\<close>

fun knl_kernel_lock_enter :: "nat \<Rightarrow> UW \<Rightarrow> lock_pc \<Rightarrow> lkst \<Rightarrow> lkst" where
  "knl_kernel_lock_enter c now (Ent_Entry r) s = goto c (Ent_Own r (masked s c)) (disint c s)"
| "knl_kernel_lock_enter c now (Ent_Own r saved) s = enter_own c now r saved s"
| "knl_kernel_lock_enter c now (Ent_Test r saved start contended) s =
     (if lock_word s = 0 then goto c (Ent_Claim r saved start contended) s
      else goto c (Ent_Test r saved start True) s)"
| "knl_kernel_lock_enter c now (Ent_Claim r saved start contended) s =
     claim_then c (Ent_Recheck r saved start contended) s"
| "knl_kernel_lock_enter c now (Ent_Recheck r saved start contended) s =
     goto c (if lock_word s = 0 then Ent_Set r saved start contended else Ent_Give r saved start contended) s"
| "knl_kernel_lock_enter c now (Ent_Set r saved start contended) s =
     goto c (Ent_Won r saved start contended) (s\<lparr>lock_word := lock_token c\<rparr>)"
| "knl_kernel_lock_enter c now (Ent_Won r saved start contended) s =
     give_then c (Ent_Record r saved start contended) s"
| "knl_kernel_lock_enter c now (Ent_Give r saved start contended) s =
     give_then c (Ent_Test r saved start True) s"
| "knl_kernel_lock_enter c now (Ent_Record r saved start contended) s = enter_record c now r saved start contended s"
| "knl_kernel_lock_enter c now _ s = s"

subsection \<open>Leaving, abandoning, suspending and resuming\<close>

text \<open>\<open>k\<close> says who called \<open>knl_kernel_lock_leave\<close>: \<open>ByDead\<close> the check at the end of \<open>enter\<close>, \<open>ByLeave\<close> any other code.\<close>

definition lv_return :: "drop_kind \<Rightarrow> lock_pc" where
  "lv_return k = (if k = ByDead then Dead_Dispatch else Out 0)"

definition knl_kernel_lock_leave :: "nat \<Rightarrow> UW \<Rightarrow> drop_kind \<Rightarrow> lkst \<Rightarrow> lkst" where
  "knl_kernel_lock_leave c now k s =
     (if lock_word s \<noteq> lock_token c \<or> lock_depth s c = 0
      then goto c (lv_return k) (upd_stats (\<lambda>q. q\<lparr>illegal_unlocks := illegal_unlocks q + 1\<rparr>) s)
      else let s = set_depth c (lock_depth s c - 1) s
           in if lock_depth s c > 0 then goto c (lv_return k) s
              else goto c (Drop_Claim k) (upd_stats (note_hold (now - acquired_us s c)) s))"

definition knl_kernel_lock_abandon :: "nat \<Rightarrow> lkst \<Rightarrow> lkst" where
  "knl_kernel_lock_abandon c s =
     (if lock_word s \<noteq> lock_token c then goto c (Out 0) s
      else goto c (Drop_Claim ByAbandon) (set_depth c 0 s))"

definition knl_kernel_lock_suspend :: "nat \<Rightarrow> UW \<Rightarrow> lkst \<Rightarrow> lkst" where
  "knl_kernel_lock_suspend c now s =
     (let depth = lock_depth s c
      in if depth = 0 \<or> lock_word s \<noteq> lock_token c
         then goto c (Out 0) (upd_stats (\<lambda>q. q\<lparr>illegal_suspends := illegal_suspends q + 1\<rparr>) s)
         else let s = upd_stats (note_hold (now - acquired_us s c)) s;
                  s = upd_stats (\<lambda>q. q\<lparr>detached_sections := detached_sections q + 1\<rparr>) (set_depth c 0 s)
              in goto c (Drop_Claim (BySuspend depth)) s)"

definition knl_kernel_lock_resume :: "nat \<Rightarrow> UW \<Rightarrow> lkst \<Rightarrow> lkst" where
  "knl_kernel_lock_resume c r s =
     (if r = 0 \<or> knl_kernel_lock_is_held c s
      then goto c (Out 0) (upd_stats (\<lambda>q. q\<lparr>illegal_suspends := illegal_suspends q + 1\<rparr>) s)
      else goto c (Ent_Entry r) s)"

text \<open>The last lines of \<open>knl_kernel_lock_resume\<close>, after the lock has been entered.\<close>

definition resume_depth :: "nat \<Rightarrow> UW \<Rightarrow> lkst \<Rightarrow> lkst" where
  "resume_depth c r s =
     goto c (Out 0)
       (if r > 1 \<and> knl_kernel_lock_is_held c s then upd_stats (note_depth r) (set_depth c r s) else s)"

text \<open>The three steps in which the lock word is cleared, common to all releases.\<close>

fun drop_step :: "nat \<Rightarrow> lock_pc \<Rightarrow> lkst \<Rightarrow> lkst" where
  "drop_step c (Drop_Claim k) s = claim_then c (Drop_Clear k) s"
| "drop_step c (Drop_Clear k) s = goto c (Drop_Give k) (s\<lparr>lock_word := 0\<rparr>)"
| "drop_step c (Drop_Give ByLeave) s = set_primask c (lock_primask s c) (give_then c (Out 0) s)"
| "drop_step c (Drop_Give ByAbandon) s = give_then c (Out 0) s"
| "drop_step c (Drop_Give (BySuspend d)) s = give_then c (Out d) s"
| "drop_step c (Drop_Give ByDead) s = set_primask c (lock_primask s c) (give_then c Dead_Dispatch s)"
| "drop_step c _ s = s"

subsection \<open>One step of a core\<close>

definition lock_step :: "nat \<Rightarrow> UW \<Rightarrow> lkst \<Rightarrow> lkst" where
  "lock_step c now s =
     (case pc s c of
        Out _ \<Rightarrow> s
      | Lv_Entry k \<Rightarrow> knl_kernel_lock_leave c now k s
      | Ab_Entry \<Rightarrow> knl_kernel_lock_abandon c s
      | Sus_Entry \<Rightarrow> knl_kernel_lock_suspend c now s
      | Res_Entry r \<Rightarrow> knl_kernel_lock_resume c r s
      | Res_Depth r \<Rightarrow> resume_depth c r s
      | Drop_Claim k \<Rightarrow> drop_step c (pc s c) s
      | Drop_Clear k \<Rightarrow> drop_step c (pc s c) s
      | Drop_Give k \<Rightarrow> drop_step c (pc s c) s
      | Dead_Dispatch \<Rightarrow> s
      | p \<Rightarrow> knl_kernel_lock_enter c now p s)"

definition knl_kernel_lock_reset_stats :: "lkst \<Rightarrow> lkst" where
  "knl_kernel_lock_reset_stats s = s\<lparr>stats := \<lparr>acquisitions = 0, contentions = 0, recursions = 0, max_depth = 0,
     max_hold_us = 0, max_wait_us = 0, detached_sections = 0, illegal_suspends = 0, illegal_unlocks = 0,
     dead_ctxtsk_dispatches = 0\<rparr>\<rparr>"

record lock_diag = lock_stats +
  diag_owner :: UW
  diag_depth :: "UW list"

definition knl_kernel_lock_audit :: "lkst \<Rightarrow> lock_diag" where
  "knl_kernel_lock_audit s = lock_stats.extend (stats s)
     (lock_diag.fields (lock_word s) (map (lock_depth s) [0..<TK_MAX_CORE]))"

subsection \<open>Two cores\<close>

text \<open>
  A core outside the lock's code may call it (\<open>call\<close>), a core inside takes its next step at any time
  (\<open>run\<close>), a core in a section may terminate the running task of the other core (\<open>kill\<close>), the
  dispatcher replaces a terminated context (\<open>redispatch\<close>), and code that holds no lock masks and
  unmasks its interrupts (\<open>mask\<close>).
\<close>

datatype lock_call = CEnter | CLeave | CAbandon | CSuspend | CResume UW

primrec entry_pc :: "lock_call \<Rightarrow> lock_pc" where
  "entry_pc CEnter = Ent_Entry 0"
| "entry_pc CLeave = Lv_Entry ByLeave"
| "entry_pc CAbandon = Ab_Entry"
| "entry_pc CSuspend = Sus_Entry"
| "entry_pc (CResume r) = Res_Entry r"

definition is_out :: "lock_pc \<Rightarrow> bool" where "is_out p = (case p of Out _ \<Rightarrow> True | _ \<Rightarrow> False)"

definition in_section :: "nat \<Rightarrow> lkst \<Rightarrow> bool" where
  "in_section c s \<longleftrightarrow> is_out (pc s c) \<and> lock_depth s c \<noteq> 0"

definition call_lock :: "nat \<Rightarrow> lock_call \<Rightarrow> lkst \<Rightarrow> lkst" where
  "call_lock c k s = goto c (entry_pc k) s"

inductive lk_step :: "lkst \<Rightarrow> lkst \<Rightarrow> bool" where
  call: "c < TK_MAX_CORE \<Longrightarrow> is_out (pc s c) \<Longrightarrow> lk_step s (call_lock c k s)"
| run: "c < TK_MAX_CORE \<Longrightarrow> lk_step s (lock_step c now s)"
| kill: "c < TK_MAX_CORE \<Longrightarrow> in_section c s \<Longrightarrow> lk_step s (s\<lparr>dead := d\<rparr>)"
| redispatch: "c < TK_MAX_CORE \<Longrightarrow> pc s c = Dead_Dispatch \<Longrightarrow>
    lk_step s (goto c (Out 0) (set_primask c False (s\<lparr>dead := (dead s)(c := False)\<rparr>)))"
| mask: "c < TK_MAX_CORE \<Longrightarrow> is_out (pc s c) \<Longrightarrow> lock_depth s c = 0 \<Longrightarrow> lk_step s (set_primask c m s)"

definition lock_init :: lkst where
  "lock_init = \<lparr>lock_word = 0, lock_depth = (\<lambda>_. 0), lock_primask = (\<lambda>_. False), acquired_us = (\<lambda>_. 0),
     stats = \<lparr>acquisitions = 0, contentions = 0, recursions = 0, max_depth = 0, max_hold_us = 0, max_wait_us = 0,
       detached_sections = 0, illegal_suspends = 0, illegal_unlocks = 0, dead_ctxtsk_dispatches = 0\<rparr>,
     hwlock = (\<lambda>_. None), masked = (\<lambda>_. False), dead = (\<lambda>_. False), pc = (\<lambda>_. Out 0)\<rparr>"

inductive lk_reach :: "lkst \<Rightarrow> bool" where
  start: "lk_reach lock_init"
| step: "lk_reach s \<Longrightarrow> lk_step s t \<Longrightarrow> lk_reach t"

subsection \<open>The invariant\<close>

text \<open>
  \<open>owns p\<close>: the core has written its token and not yet cleared it; \<open>spins p\<close>: it holds the SIO
  spinlock; \<open>flat p\<close>: its recursion depth is zero although it is inside the lock's code.
\<close>

fun owns :: "lock_pc \<Rightarrow> bool" where
  "owns (Ent_Won _ _ _ _) = True"
| "owns (Ent_Record _ _ _ _) = True"
| "owns (Drop_Claim _) = True"
| "owns (Drop_Clear _) = True"
| "owns _ = False"

fun writes :: "lock_pc \<Rightarrow> bool" where
  "writes (Ent_Set _ _ _ _) = True"
| "writes _ = False"

fun spins :: "lock_pc \<Rightarrow> bool" where
  "spins (Ent_Recheck _ _ _ _) = True"
| "spins (Ent_Set _ _ _ _) = True"
| "spins (Ent_Won _ _ _ _) = True"
| "spins (Ent_Give _ _ _ _) = True"
| "spins (Drop_Clear _) = True"
| "spins (Drop_Give _) = True"
| "spins _ = False"

fun flat :: "lock_pc \<Rightarrow> bool" where
  "flat (Ent_Test _ _ _ _) = True"
| "flat (Ent_Claim _ _ _ _) = True"
| "flat (Ent_Recheck _ _ _ _) = True"
| "flat (Ent_Set _ _ _ _) = True"
| "flat (Ent_Won _ _ _ _) = True"
| "flat (Ent_Give _ _ _ _) = True"
| "flat (Ent_Record _ _ _ _) = True"
| "flat (Drop_Claim _) = True"
| "flat (Drop_Clear _) = True"
| "flat (Drop_Give _) = True"
| "flat _ = False"

definition core_ok :: "nat \<Rightarrow> lkst \<Rightarrow> bool" where
  "core_ok c s \<longleftrightarrow> (lock_depth s c \<noteq> 0 \<longrightarrow> lock_word s = lock_token c) \<and>
     (owns (pc s c) \<longrightarrow> lock_word s = lock_token c) \<and> (writes (pc s c) \<longrightarrow> lock_word s = 0) \<and>
     (spins (pc s c) \<longleftrightarrow> hwlock s SPINLOCK_KERNEL = Some c) \<and> (flat (pc s c) \<longrightarrow> lock_depth s c = 0)"

definition lk_ok :: "lkst \<Rightarrow> bool" where
  "lk_ok s \<longleftrightarrow> (\<forall>c<TK_MAX_CORE. core_ok c s)"

lemma lock_token_inj: "c < TK_MAX_CORE \<Longrightarrow> d < TK_MAX_CORE \<Longrightarrow> lock_token c = lock_token d \<longleftrightarrow> c = d"
  by (auto simp: lock_token_def TK_MAX_CORE_def less_2_cases_iff)

lemma lock_token_not_0 [simp]: "c < TK_MAX_CORE \<Longrightarrow> lock_token c \<noteq> 0"
  by (auto simp: lock_token_def TK_MAX_CORE_def less_2_cases_iff)

lemmas lk_prims = goto_def set_depth_def set_primask_def disint_def claim_then_def give_then_def
  knl_arch_hwlock_claim_def knl_arch_hwlock_release_def

lemmas lk_code = enter_own_def enter_record_def knl_kernel_lock_leave_def knl_kernel_lock_abandon_def
  knl_kernel_lock_suspend_def knl_kernel_lock_resume_def resume_depth_def knl_kernel_lock_is_held_def lv_return_def

text \<open>A step of core \<open>c\<close> keeps what the invariant says of \<open>c\<close> itself.\<close>

lemma lock_step_own_core:
  assumes "core_ok c s" "c < TK_MAX_CORE"
  shows "core_ok c (lock_step c now s)"
proof (cases "pc s c")
  case (Drop_Give k)
  with assms show ?thesis by (cases k) (auto simp: lock_step_def lk_prims core_ok_def split: option.splits)
qed (use assms in \<open>auto simp: word_gt_0 lock_step_def lk_prims lk_code core_ok_def Let_def split: option.splits if_splits\<close>)

text \<open>What it does to the words that the other core reads.\<close>

lemma lock_step_shared:
  assumes "core_ok c s" "c < TK_MAX_CORE"
  shows "lock_word (lock_step c now s) = lock_word s \<or>
     hwlock s SPINLOCK_KERNEL = Some c \<and> (lock_word s = 0 \<and> lock_word (lock_step c now s) = lock_token c \<or>
       lock_word s = lock_token c \<and> lock_word (lock_step c now s) = 0)"
proof (cases "pc s c")
  case (Drop_Give k)
  with assms show ?thesis by (cases k) (auto simp: lock_step_def lk_prims core_ok_def split: option.splits)
qed (use assms in \<open>auto simp: word_gt_0 lock_step_def lk_prims lk_code core_ok_def Let_def split: option.splits if_splits\<close>)

text \<open>A step of \<open>c\<close> leaves the other core's program counter and depth alone, and the spinlock unless it is free or its own.\<close>

lemma drop_step_frame:
  assumes "d \<noteq> c"
  shows "pc (drop_step c p s) d = pc s d \<and> lock_depth (drop_step c p s) d = lock_depth s d"
  using assms by (induction c p s rule: drop_step.induct) (auto simp: lk_prims split: option.splits)

lemma lock_step_frame_conj:
  assumes "d \<noteq> c"
  shows "pc (lock_step c now s) d = pc s d \<and> lock_depth (lock_step c now s) d = lock_depth s d"
proof (cases "\<exists>k. pc s c = Drop_Claim k \<or> pc s c = Drop_Clear k \<or> pc s c = Drop_Give k")
  case True
  then have "lock_step c now s = drop_step c (pc s c) s" by (auto simp: lock_step_def)
  then show ?thesis using drop_step_frame[OF assms] by simp
next
  case False
  then show ?thesis using assms
    by (cases "pc s c") (simp_all add: lock_step_def lk_prims lk_code Let_def)
qed

lemmas lock_step_frame = lock_step_frame_conj[THEN conjunct1] lock_step_frame_conj[THEN conjunct2]

definition hw_move :: "nat \<Rightarrow> lock_pc \<Rightarrow> (nat \<Rightarrow> nat option) \<Rightarrow> (nat \<Rightarrow> nat option) \<Rightarrow> bool" where
  "hw_move c p h h' \<longleftrightarrow> h' = h \<or> h 0 = None \<and> h' = h(0 := Some c) \<or> spins p \<and> h' = h(0 := None)"

lemma hw_move_simps [simp]:
  "hw_move c p h h" "h 0 = None \<Longrightarrow> hw_move c p h (h(0 \<mapsto> c))" "spins p \<Longrightarrow> hw_move c p h (h(0 := None))"
  by (simp_all add: hw_move_def)

lemma drop_step_hwlock: "hw_move c p (hwlock s) (hwlock (drop_step c p s))"
proof (cases p)
  case (Drop_Give k)
  then show ?thesis by (cases k) (simp_all add: lk_prims)
qed (simp_all add: lk_prims)

lemma enter_record_hwlock: "hwlock (enter_record c now r saved start contended s) = hwlock s"
  by (simp add: enter_record_def lk_prims Let_def)

lemma enter_step_hwlock: "hw_move c p (hwlock s) (hwlock (knl_kernel_lock_enter c now p s))"
  by (cases p) (simp_all add: lk_prims enter_own_def enter_record_hwlock Let_def)

lemma lock_step_hwlock: "hw_move c (pc s c) (hwlock s) (hwlock (lock_step c now s))"
proof -
  have lv: "hwlock (knl_kernel_lock_leave c now k s) = hwlock s" for k
    by (simp add: knl_kernel_lock_leave_def lk_prims Let_def)
  have ab: "hwlock (knl_kernel_lock_abandon c s) = hwlock s"
    by (simp add: knl_kernel_lock_abandon_def lk_prims)
  have su: "hwlock (knl_kernel_lock_suspend c now s) = hwlock s"
    by (simp add: knl_kernel_lock_suspend_def lk_prims Let_def)
  have re: "hwlock (knl_kernel_lock_resume c r s) = hwlock s" "hwlock (resume_depth c r s) = hwlock s" for r
    by (simp_all add: knl_kernel_lock_resume_def resume_depth_def lk_prims)
  show ?thesis
    by (cases "pc s c") (simp_all add: lock_step_def lv ab su re drop_step_hwlock enter_step_hwlock
      del: drop_step.simps knl_kernel_lock_enter.simps)
qed

lemma lock_step_other_core:
  assumes "core_ok c s" "core_ok d s" "c < TK_MAX_CORE" "d < TK_MAX_CORE" "d \<noteq> c"
  shows "core_ok d (lock_step c now s)"
proof -
  let ?t = "lock_step c now s"
  note sh = lock_step_shared[OF assms(1,3), of now] and fr = lock_step_frame[OF assms(5), of now s]
  have hw: "hwlock ?t 0 = Some d \<longleftrightarrow> hwlock s 0 = Some d"
  proof -
    have sp: "spins (pc s c) \<Longrightarrow> hwlock s 0 = Some c" using assms(1) by (simp add: core_ok_def)
    from lock_step_hwlock[of c s now] show ?thesis
      unfolding hw_move_def using assms(5) sp by (elim disjE conjE) simp_all
  qed
  have wd: "lock_word s = lock_token d \<longrightarrow> lock_word ?t = lock_token d"
    using sh assms by (auto simp: lock_token_inj)
  have "writes (pc s d) \<longrightarrow> lock_word ?t = 0"
  proof
    assume w: "writes (pc s d)"
    then have "hwlock s 0 = Some d" using assms(2) by (cases "pc s d") (auto simp: core_ok_def)
    then show "lock_word ?t = 0" using sh w assms by (auto simp: core_ok_def)
  qed
  then show ?thesis using assms(2) hw wd fr by (auto simp: core_ok_def)
qed

lemma lock_step_ok:
  assumes "lk_ok s" "c < TK_MAX_CORE"
  shows "lk_ok (lock_step c now s)"
  unfolding lk_ok_def
proof (intro allI impI)
  fix d assume "d < TK_MAX_CORE"
  then show "core_ok d (lock_step c now s)"
    using assms lock_step_own_core lock_step_other_core by (cases "d = c") (auto simp: lk_ok_def)
qed

lemma core_ok_cong:
  "core_ok c s \<Longrightarrow> lock_word t = lock_word s \<Longrightarrow> lock_depth t c = lock_depth s c \<Longrightarrow> hwlock t = hwlock s \<Longrightarrow>
   owns (pc t c) = owns (pc s c) \<Longrightarrow> writes (pc t c) = writes (pc s c) \<Longrightarrow> spins (pc t c) = spins (pc s c) \<Longrightarrow>
   flat (pc t c) = flat (pc s c) \<Longrightarrow> core_ok c t"
  by (simp add: core_ok_def)

lemma entry_pc_flags [simp]:
  "\<not> owns (entry_pc k)" "\<not> writes (entry_pc k)" "\<not> spins (entry_pc k)" "\<not> flat (entry_pc k)"
  by (cases k; simp)+

lemma is_out_flags [simp]:
  "is_out p \<Longrightarrow> \<not> owns p" "is_out p \<Longrightarrow> \<not> writes p" "is_out p \<Longrightarrow> \<not> spins p" "is_out p \<Longrightarrow> \<not> flat p"
  by (cases p; simp add: is_out_def)+

lemma lk_step_ok: "lk_step s t \<Longrightarrow> lk_ok s \<Longrightarrow> lk_ok t"
proof (induction rule: lk_step.induct)
  case (run c s now)
  then show ?case by (simp add: lock_step_ok)
next
  case (call c s k)
  then show ?case by (auto simp: lk_ok_def core_ok_def call_lock_def goto_def)
next
  case (redispatch c s)
  then show ?case by (auto simp: lk_ok_def core_ok_def goto_def set_primask_def)
qed (auto simp: lk_ok_def core_ok_def set_primask_def)

lemma lock_init_ok: "lk_ok lock_init"
  by (simp add: lk_ok_def core_ok_def lock_init_def)

lemma lk_reach_ok: "lk_reach s \<Longrightarrow> lk_ok s"
  by (induction rule: lk_reach.induct) (simp add: lock_init_ok, blast intro: lk_step_ok)

end
