(* ===== verification/Lock_Props.thy ===== *)
theory Lock_Props
  imports Smp_Lock
begin

text \<open>
  What the kernel lock promises: one core at a time in a section, balanced nesting, the round trip of \<open>knl_kernel_lock_suspend\<close> and
  \<open>knl_kernel_lock_resume\<close>, and the fate of a context that was terminated while it waited.
\<close>

subsection \<open>Runs of one core\<close>

definition lock_run :: "nat \<Rightarrow> UW list \<Rightarrow> lkst \<Rightarrow> lkst" where
  "lock_run c ts s = fold (lock_step c) ts s"

lemma lock_run_Nil [simp]: "lock_run c [] s = s"
  by (simp add: lock_run_def)

lemma lock_run_Cons [simp]: "lock_run c (t # ts) s = lock_run c ts (lock_step c t s)"
  by (simp add: lock_run_def)

lemma lock_run_append: "lock_run c (ts @ us) s = lock_run c us (lock_run c ts s)"
  by (simp add: lock_run_def)

lemma lk_reach_run: "c < TK_MAX_CORE \<Longrightarrow> lk_reach s \<Longrightarrow> lk_reach (lock_run c ts s)"
  by (induction ts arbitrary: s) (auto intro: lk_reach.step lk_step.run)

lemma lk_reach_call: "c < TK_MAX_CORE \<Longrightarrow> is_out (pc s c) \<Longrightarrow> lk_reach s \<Longrightarrow> lk_reach (call_lock c k s)"
  by (blast intro: lk_reach.step lk_step.call)

lemma less_cores_0 [simp]: "0 < TK_MAX_CORE" and less_cores_1 [simp]: "Suc 0 < TK_MAX_CORE"
  by (simp_all add: TK_MAX_CORE_def)

text \<open>The lock as it is when nobody holds it and nobody is about to take it.\<close>

definition lock_free :: "lkst \<Rightarrow> bool" where
  "lock_free s \<longleftrightarrow> lock_word s = 0 \<and> hwlock s 0 = None"

lemma lock_token_pos: "c < TK_MAX_CORE \<Longrightarrow> 0 \<noteq> lock_token c"
  using lock_token_not_0 by metis

lemma enter_uncontended:
  assumes "lock_free s" "c < TK_MAX_CORE" "\<not> dead s c" "length ts = 8"
  shows "let s' = lock_run c ts (goto c (Ent_Entry r) s)
    in pc s' c = Res_Depth r \<and> lock_word s' = lock_token c \<and> lock_depth s' = (lock_depth s)(c := 1) \<and>
       masked s' = (masked s)(c := True) \<and> lock_primask s' = (lock_primask s)(c := masked s c) \<and>
       hwlock s' = hwlock s \<and> dead s' = dead s"
proof -
  obtain a b d e f g h i where ts: "ts = [a, b, d, e, f, g, h, i]"
    using assms(4) by (auto simp: length_Suc_conv numeral_eq_Suc)
  show ?thesis using assms(1-3) lock_token_pos[OF assms(2)]
    by (simp add: ts lock_free_def lock_step_def lk_prims enter_own_def enter_record_def Let_def fun_upd_idem)
qed

subsection \<open>Whole calls\<close>

text \<open>
  A call that is not disturbed takes at most nine steps; a core outside the lock's code does not move,
  so nine steps run every call to its end.
\<close>

definition do_call :: "nat \<Rightarrow> lock_call \<Rightarrow> UW list \<Rightarrow> lkst \<Rightarrow> lkst" where
  "do_call c k ts s = lock_run c ts (call_lock c k s)"

lemma lock_run_out: "is_out (pc s c) \<Longrightarrow> lock_run c ts s = s"
  by (induction ts arbitrary: s) (auto simp: lock_step_def is_out_def split: lock_pc.splits)

lemma nine: "length ts = 9 \<Longrightarrow> \<exists>a b d e f g h i j. ts = [a, b, d, e, f, g, h, i, j]"
  by (auto simp: length_Suc_conv numeral_eq_Suc)

text \<open>What a core sees of the lock: the word, its depth, its interrupt mask, the mask saved, the spinlocks, where it is.\<close>

definition view :: "nat \<Rightarrow> lkst \<Rightarrow> UW \<times> UW \<times> bool \<times> bool \<times> (nat \<Rightarrow> nat option) \<times> lock_pc" where
  "view c s = (lock_word s, lock_depth s c, masked s c, lock_primask s c, hwlock s, pc s c)"

lemma enter_first:
  assumes "lock_free s" "c < TK_MAX_CORE" "\<not> dead s c" "length ts = 9"
  shows "view c (do_call c CEnter ts s) = (lock_token c, 1, True, masked s c, hwlock s, Out 0)"
proof -
  obtain us t where ts: "ts = us @ [t]" "length us = 8"
    using assms(4) by (cases ts rule: rev_cases) auto
  show ?thesis using enter_uncontended[OF assms(1-3) ts(2), of 0]
    by (simp add: ts do_call_def call_lock_def lock_run_append Let_def view_def)
      (simp add: lock_step_def resume_depth_def lk_prims)
qed

lemma enter_again:
  assumes "lock_word s = lock_token c" "length ts = 9"
  shows "view c (do_call c CEnter ts s) = (lock_token c, lock_depth s c + 1, masked s c, lock_primask s c, hwlock s, Out 0)"
proof -
  obtain a b d e f g h i j where ts: "ts = [a, b, d, e, f, g, h, i, j]" using nine[OF assms(2)] by blast
  show ?thesis using assms(1)
    by (simp add: ts do_call_def call_lock_def lock_step_def lk_prims enter_own_def resume_depth_def view_def Let_def)
qed

lemma leave_inner:
  assumes "lock_word s = lock_token c" "lock_depth s c > 1" "length ts = 9"
  shows "view c (do_call c CLeave ts s) = (lock_token c, lock_depth s c - 1, masked s c, lock_primask s c, hwlock s, Out 0)"
proof -
  obtain a b d e f g h i j where ts: "ts = [a, b, d, e, f, g, h, i, j]" using nine[OF assms(3)] by blast
  have "lock_depth s c \<noteq> 0" "0 < lock_depth s c - 1" using assms(2) by (auto simp: word_gt_0)
  then show ?thesis using assms(1)
    by (simp add: ts do_call_def call_lock_def lock_step_def lk_prims knl_kernel_lock_leave_def lv_return_def view_def Let_def)
qed

lemma leave_last:
  assumes "lock_word s = lock_token c" "lock_depth s c = 1" "hwlock s 0 = None" "length ts = 9"
  shows "view c (do_call c CLeave ts s) = (0, 0, lock_primask s c, lock_primask s c, hwlock s, Out 0)"
proof -
  obtain a b d e f g h i j where ts: "ts = [a, b, d, e, f, g, h, i, j]" using nine[OF assms(4)] by blast
  show ?thesis using assms(1-3)
    by (simp add: ts do_call_def call_lock_def lock_step_def lk_prims knl_kernel_lock_leave_def lv_return_def view_def Let_def
      fun_upd_idem)
qed

lemma suspend_eff:
  assumes "lock_word s = lock_token c" "lock_depth s c = d" "d \<noteq> 0" "hwlock s 0 = None" "length ts = 9"
  shows "view c (do_call c CSuspend ts s) = (0, 0, masked s c, lock_primask s c, hwlock s, Out d)"
proof -
  obtain a b d e f g h i j where ts: "ts = [a, b, d, e, f, g, h, i, j]" using nine[OF assms(5)] by blast
  show ?thesis using assms(1-4)
    by (simp add: ts do_call_def call_lock_def lock_step_def lk_prims knl_kernel_lock_suspend_def view_def Let_def
      fun_upd_idem)
qed

lemma resume_eff:
  assumes "lock_free s" "c < TK_MAX_CORE" "\<not> dead s c" "d \<noteq> 0" "length ts = 10"
  shows "view c (do_call c (CResume d) ts s) = (lock_token c, d, True, masked s c, hwlock s, Out 0)"
proof -
  obtain t vs where ts0: "ts = t # vs" "length vs = 9" using assms(5) by (cases ts) auto
  obtain us u where ts: "vs = us @ [u]" "length us = 8" using ts0(2) by (cases vs rule: rev_cases) auto
  have "lock_step c t (call_lock c (CResume d) s) = goto c (Ent_Entry d) s"
    using assms lock_token_pos[OF assms(2)]
    by (simp add: call_lock_def lock_step_def knl_kernel_lock_resume_def knl_kernel_lock_is_held_def goto_def lock_free_def)
  moreover have "d > 1 \<or> d = 1" using assms(4) by (metis linorder_neqE word_gt_0 word_le_def word_less_1)
  ultimately show ?thesis using enter_uncontended[OF assms(1-3) ts(2), of d]
    by (simp add: ts ts0 do_call_def lock_run_append Let_def view_def)
      (auto simp: lock_step_def resume_depth_def lk_prims knl_kernel_lock_is_held_def)
qed

subsection \<open>Nesting\<close>

definition nested :: "nat \<Rightarrow> lock_call \<Rightarrow> UW list list \<Rightarrow> lkst \<Rightarrow> lkst" where
  "nested c k tss s = fold (do_call c k) tss s"

lemma nested_enter:
  "lock_word s = lock_token c \<Longrightarrow> pc s c = Out 0 \<Longrightarrow> \<forall>ts\<in>set tss. length ts = 9 \<Longrightarrow>
   view c (nested c CEnter tss s) =
     (lock_token c, lock_depth s c + of_nat (length tss), masked s c, lock_primask s c, hwlock s, Out 0)"
proof (induction tss arbitrary: s)
  case (Cons ts tss)
  have "view c (do_call c CEnter ts s) = (lock_token c, lock_depth s c + 1, masked s c, lock_primask s c, hwlock s, Out 0)"
    using Cons.prems by (intro enter_again) auto
  then show ?case using Cons by (simp add: nested_def view_def)
qed (simp add: nested_def view_def)

lemma nested_leave:
  "lock_word s = lock_token c \<Longrightarrow> pc s c = Out 0 \<Longrightarrow> hwlock s 0 = None \<Longrightarrow> \<forall>ts\<in>set tss. length ts = 9 \<Longrightarrow>
   lock_depth s c = of_nat (length tss) \<Longrightarrow> length tss < 2 ^ 32 \<Longrightarrow> tss \<noteq> [] \<Longrightarrow>
   view c (nested c CLeave tss s) = (0, 0, lock_primask s c, lock_primask s c, hwlock s, Out 0)"
proof (induction tss arbitrary: s)
  case (Cons ts tss)
  show ?case
  proof (cases "tss = []")
    case True
    with Cons.prems show ?thesis using leave_last[of s c ts] by (simp add: nested_def)
  next
    case False
    have "1 < unat (of_nat (length (ts # tss)) :: UW)"
      using Cons.prems(6) False by (cases tss) (simp_all add: unat_of_nat del: of_nat_Suc)
    then have "lock_depth s c > 1" using Cons.prems(5) by (simp add: word_less_nat_alt del: of_nat_Suc)
    then have "view c (do_call c CLeave ts s) =
        (lock_token c, lock_depth s c - 1, masked s c, lock_primask s c, hwlock s, Out 0)"
      using Cons.prems by (intro leave_inner) auto
    moreover from this have "view c (nested c CLeave tss (do_call c CLeave ts s)) =
        (0, 0, lock_primask (do_call c CLeave ts s) c, lock_primask (do_call c CLeave ts s) c, hwlock (do_call c CLeave ts s), Out 0)"
      using Cons.prems False by (intro Cons.IH) (auto simp: view_def)
    ultimately show ?thesis by (simp add: nested_def view_def)
  qed
qed simp

text \<open>
  The kernel lock nests: a core that enters it up to 2^32 - 1 times and leaves it as often ends with the lock
  free, its depth zero and its interrupt mask as it was before, and in between it holds the lock at that depth with
  interrupts masked, whatever the timer shows.
\<close>
theorem enter_leave_roundtrip:
  assumes "lock_free s" "c < TK_MAX_CORE" "\<not> dead s c" "pc s c = Out 0" "0 < length tss" "length tss < 2 ^ 32"
    and "length uss = length tss" "\<forall>ts \<in> set tss \<union> set uss. length ts = 9"
  shows "let s1 = nested c CEnter tss s; s2 = nested c CLeave uss s1
    in lock_word s1 = lock_token c \<and> lock_depth s1 c = of_nat (length tss) \<and> masked s1 c \<and>
       lock_free s2 \<and> lock_depth s2 c = 0 \<and> masked s2 c = masked s c \<and> pc s2 c = Out 0"
proof -
  obtain ts tss' where tss: "tss = ts # tss'" using assms(5) by (cases tss) auto
  let ?s0 = "do_call c CEnter ts s"
  let ?s1 = "nested c CEnter tss s"
  have v0: "view c ?s0 = (lock_token c, 1, True, masked s c, hwlock s, Out 0)"
    using assms by (intro enter_first) (auto simp: tss)
  have "view c (nested c CEnter tss' ?s0) =
      (lock_token c, lock_depth ?s0 c + of_nat (length tss'), masked ?s0 c, lock_primask ?s0 c, hwlock ?s0, Out 0)"
    using v0 assms by (intro nested_enter) (auto simp: view_def tss)
  then have v1: "view c ?s1 = (lock_token c, of_nat (length tss), True, masked s c, hwlock s, Out 0)"
    using v0 by (simp add: tss nested_def view_def)
  have "view c (nested c CLeave uss ?s1) = (0, 0, lock_primask ?s1 c, lock_primask ?s1 c, hwlock ?s1, Out 0)"
    using v1 assms by (intro nested_leave) (auto simp: view_def lock_free_def)
  then show ?thesis using v1 assms(1) by (simp add: view_def lock_free_def Let_def)
qed

theorem enter_leave_roundtrip_witness:
  "lock_free (nested 1 CLeave [replicate 9 5, replicate 9 6] (nested 1 CEnter [replicate 9 3, replicate 9 4] lock_init))"
  using enter_leave_roundtrip[of lock_init 1 "[replicate 9 3, replicate 9 4]" "[replicate 9 5, replicate 9 6]"]
  by (simp add: lock_init_def lock_free_def Let_def)

text \<open>
  Taking the lock out of a nested section for a user callback and back again: \<open>knl_kernel_lock_suspend\<close> frees the lock
  with interrupts still masked and returns the depth, \<open>knl_kernel_lock_resume\<close> with that depth takes it again at the
  same depth. The interrupt mask that the outermost enter had saved is not part of the token: it is lost, and
  the final leave restores the mask of the moment of the resume instead.
\<close>
theorem suspend_resume_depth:
  assumes "lock_word s = lock_token c" "lock_depth s c = d" "d \<noteq> 0" "hwlock s 0 = None" "c < TK_MAX_CORE" "masked s c"
    and "length ts = 9" "length us = 10" "\<not> dead (do_call c CSuspend ts s) c"
  shows "let s1 = do_call c CSuspend ts s; s2 = do_call c (CResume d) us s1
    in lock_free s1 \<and> lock_depth s1 c = 0 \<and> pc s1 c = Out d \<and> masked s1 c \<and>
       lock_word s2 = lock_token c \<and> lock_depth s2 c = d \<and> masked s2 c \<and> lock_primask s2 c"
proof -
  let ?s1 = "do_call c CSuspend ts s"
  have v1: "view c ?s1 = (0, 0, masked s c, lock_primask s c, hwlock s, Out d)"
    using assms by (intro suspend_eff) auto
  then have "view c (do_call c (CResume d) us ?s1) = (lock_token c, d, True, masked ?s1 c, hwlock ?s1, Out 0)"
    using assms by (intro resume_eff) (auto simp: view_def lock_free_def)
  then show ?thesis using v1 assms by (simp add: view_def lock_free_def Let_def)
qed

theorem suspend_resume_depth_witness:
  "lock_depth (do_call 0 (CResume 2) (replicate 10 9) (do_call 0 CSuspend (replicate 9 7)
     (nested 0 CEnter [replicate 9 3, replicate 9 4] lock_init))) 0 = 2"
proof -
  let ?s = "nested 0 CEnter [replicate 9 3, replicate 9 4] lock_init"
  have "lock_word ?s = lock_token 0 \<and> lock_depth ?s 0 = 2 \<and> hwlock ?s 0 = None \<and> masked ?s 0 \<and> \<not> dead (do_call 0 CSuspend (replicate 9 7) ?s) 0"
    by code_simp
  then show ?thesis
    using suspend_resume_depth[of ?s 0 2 "replicate 9 7" "replicate 10 9"] by (simp add: Let_def)
qed

subsection \<open>Mutual exclusion\<close>

lemma sections_exclusive:
  assumes "lk_ok s" "c < TK_MAX_CORE" "d < TK_MAX_CORE" "lock_depth s c \<noteq> 0" "lock_depth s d \<noteq> 0"
  shows "c = d"
proof -
  have "core_ok c s" "core_ok d s" using assms(1-3) by (simp_all add: lk_ok_def)
  then have "lock_word s = lock_token c" "lock_word s = lock_token d"
    using assms(4,5) by (simp_all add: core_ok_def)
  then show ?thesis using lock_token_inj[OF assms(2,3)] by simp
qed

text \<open>
  C2. Mutual exclusion: in every state that two cores can reach by calling the lock's operations in any order, legal or
  not, with their steps interleaved in any way and tasks terminated at any time from a section, at most one
  core is in a section, the lock word is that core's token, and the SIO spinlock is held by at most one core, only
  while that core is between its claim and its release.
\<close>
theorem kernel_lock_exclusive:
  assumes "lk_reach s" "c < TK_MAX_CORE" "d < TK_MAX_CORE"
  shows "(in_section c s \<longrightarrow> lock_word s = lock_token c) \<and> (in_section c s \<and> in_section d s \<longrightarrow> c = d) \<and>
    (owns (pc s c) \<and> in_section d s \<longrightarrow> c = d) \<and> (spins (pc s c) \<and> spins (pc s d) \<longrightarrow> c = d) \<and>
    (spins (pc s c) \<longleftrightarrow> hwlock s SPINLOCK_KERNEL = Some c)"
proof -
  note ok = lk_reach_ok[OF assms(1)]
  have C: "core_ok c s" "core_ok d s" using ok assms(2,3) by (auto simp: lk_ok_def)
  have 1: "in_section c s \<longrightarrow> lock_word s = lock_token c" using C(1) by (simp add: core_ok_def in_section_def)
  have 2: "in_section c s \<and> in_section d s \<longrightarrow> c = d"
    using sections_exclusive[OF ok assms(2,3)] by (simp add: in_section_def)
  have 3: "owns (pc s c) \<and> in_section d s \<longrightarrow> c = d"
    using C lock_token_inj[OF assms(2,3)] by (auto simp: core_ok_def in_section_def)
  have 4: "spins (pc s c) \<and> spins (pc s d) \<longrightarrow> c = d" using C by (auto simp: core_ok_def)
  have 5: "spins (pc s c) \<longleftrightarrow> hwlock s SPINLOCK_KERNEL = Some c" using C(1) by (simp add: core_ok_def)
  from 1 2 3 4 5 show ?thesis by blast
qed

text \<open>A reachable state: core 1 is in a section while core 0 waits for the lock.\<close>

definition ex_contended :: lkst where
  "ex_contended = lock_run 0 [1, 2, 3, 4] (call_lock 0 CEnter (do_call 1 CEnter (replicate 9 7) lock_init))"

lemma ex_contended_reach: "lk_reach ex_contended"
proof -
  have "lk_reach (do_call 1 CEnter (replicate 9 7) lock_init)"
    unfolding do_call_def
    by (intro lk_reach_run lk_reach_call lk_reach.start) (simp_all add: lock_init_def is_out_def TK_MAX_CORE_def)
  then show ?thesis unfolding ex_contended_def
    by (intro lk_reach_run lk_reach_call) (simp_all, code_simp)
qed

lemma ex_contended_facts: "in_section 1 ex_contended" "pc ex_contended 0 = Ent_Test 0 False 2 True" "lock_word ex_contended = 2"
  by code_simp+

theorem kernel_lock_exclusive_witness: "in_section 1 ex_contended \<and> \<not> in_section 0 ex_contended"
  using kernel_lock_exclusive[OF ex_contended_reach, of 0 1] ex_contended_facts(1) by (simp add: TK_MAX_CORE_def)

lemma enter_record_dead:
  assumes "dead s c"
  shows "let s' = enter_record c now r saved start contended s in
    pc s' c = Lv_Entry ByDead \<and> lock_word s' = lock_word s \<and> lock_depth s' c = 1 \<and> lock_primask s' c = saved \<and>
    hwlock s' = hwlock s \<and> dead_ctxtsk_dispatches (stats s') = dead_ctxtsk_dispatches (stats s) + 1"
  using assms by (simp add: enter_record_def lk_prims Let_def note_depth_def note_wait_def)

subsection \<open>A context terminated while it waits\<close>

text \<open>
  \<open>waits\<close>: the core is inside \<open>knl_kernel_lock_enter\<close>, has seen that the lock is not its own and has not yet looked whether its
  task is still alive. \<open>doomed\<close>: the positions that such a core can get to when the task is dead. \<open>dead_rank\<close> counts
  the steps that are left to the dispatcher once the core has found the lock free under the SIO spinlock.
\<close>

fun waits :: "lock_pc \<Rightarrow> bool" where
  "waits (Ent_Test _ _ _ _) = True"
| "waits (Ent_Claim _ _ _ _) = True"
| "waits (Ent_Recheck _ _ _ _) = True"
| "waits (Ent_Set _ _ _ _) = True"
| "waits (Ent_Won _ _ _ _) = True"
| "waits (Ent_Give _ _ _ _) = True"
| "waits (Ent_Record _ _ _ _) = True"
| "waits _ = False"

fun saved_of :: "lock_pc \<Rightarrow> bool" where
  "saved_of (Ent_Test _ m _ _) = m"
| "saved_of (Ent_Claim _ m _ _) = m"
| "saved_of (Ent_Recheck _ m _ _) = m"
| "saved_of (Ent_Set _ m _ _) = m"
| "saved_of (Ent_Won _ m _ _) = m"
| "saved_of (Ent_Give _ m _ _) = m"
| "saved_of (Ent_Record _ m _ _) = m"
| "saved_of _ = False"

fun dead_rank :: "lock_pc \<Rightarrow> nat" where
  "dead_rank (Ent_Set _ _ _ _) = 7"
| "dead_rank (Ent_Won _ _ _ _) = 6"
| "dead_rank (Ent_Record _ _ _ _) = 5"
| "dead_rank (Lv_Entry _) = 4"
| "dead_rank (Drop_Claim _) = 3"
| "dead_rank (Drop_Clear _) = 2"
| "dead_rank (Drop_Give _) = 1"
| "dead_rank Dead_Dispatch = 0"
| "dead_rank _ = 8"

definition doomed :: "lock_pc \<Rightarrow> bool" where
  "doomed p \<longleftrightarrow> waits p \<or> p \<in> {Lv_Entry ByDead, Drop_Claim ByDead, Drop_Clear ByDead, Drop_Give ByDead, Dead_Dispatch}"

text \<open>Any steps of both cores after which the task of \<open>c\<close> is still dead.\<close>

inductive dead_run :: "nat \<Rightarrow> lkst \<Rightarrow> lkst \<Rightarrow> bool" for c s where
  none: "dead_run c s s"
| more: "dead_run c s t \<Longrightarrow> lk_step t u \<Longrightarrow> dead u c \<Longrightarrow> dead_run c s u"

definition doom_ok :: "nat \<Rightarrow> bool \<Rightarrow> lkst \<Rightarrow> bool" where
  "doom_ok c m s \<longleftrightarrow> doomed (pc s c) \<and> (waits (pc s c) \<longrightarrow> saved_of (pc s c) = m) \<and>
     (pc s c = Lv_Entry ByDead \<longrightarrow> lock_depth s c = 1) \<and>
     (\<not> waits (pc s c) \<and> pc s c \<noteq> Dead_Dispatch \<longrightarrow> lock_primask s c = m) \<and>
     (pc s c = Drop_Give ByDead \<or> pc s c = Dead_Dispatch \<longrightarrow> lock_word s \<noteq> lock_token c) \<and>
     (pc s c = Dead_Dispatch \<longrightarrow> lock_depth s c = 0 \<and> masked s c = m)"

lemma doomed_not_out: "doomed p \<Longrightarrow> \<not> is_out p"
  by (auto simp: doomed_def is_out_def split: lock_pc.splits)

lemma lock_step_mask_frame:
  assumes "d \<noteq> c"
  shows "lock_primask (lock_step c now s) d = lock_primask s d \<and> masked (lock_step c now s) d = masked s d"
proof (cases "pc s c")
  case (Drop_Give k)
  then show ?thesis using assms by (cases k) (simp_all add: lock_step_def lk_prims)
qed (use assms in \<open>simp_all add: lock_step_def lk_prims lk_code Let_def\<close>)

lemma doomed_kind: "doomed (Lv_Entry k) \<longleftrightarrow> k = ByDead" "doomed (Drop_Claim k) \<longleftrightarrow> k = ByDead" "doomed (Drop_Clear k) \<longleftrightarrow> k = ByDead"
  "doomed (Drop_Give k) \<longleftrightarrow> k = ByDead" "waits p \<Longrightarrow> doomed p" "doomed Dead_Dispatch" "\<not> doomed (Out r)" "\<not> doomed (Ent_Entry r)" "\<not> doomed (Ent_Own r m)"
  "\<not> doomed (Res_Depth r)" "\<not> doomed Ab_Entry" "\<not> doomed Sus_Entry" "\<not> doomed (Res_Entry r)"
  by (auto simp: doomed_def)

lemmas doom_code = doom_ok_def doomed_kind lock_step_def lk_prims lv_return_def

lemma doom_own_step:
  assumes "doom_ok c m s" "core_ok c s" "dead s c" "c < TK_MAX_CORE"
  shows "doom_ok c m (lock_step c now s)"
proof (cases "pc s c")
  case (Lv_Entry k)
  then have "k = ByDead" "lock_depth s c = 1" "lock_word s = lock_token c" using assms(1,2) by (auto simp: doom_ok_def doomed_kind core_ok_def)
  then show ?thesis using assms(1) Lv_Entry by (simp add: doom_code knl_kernel_lock_leave_def Let_def)
next
  case (Ent_Record r sv st ct)
  then show ?thesis using assms(1,3) by (simp add: doom_code enter_record_def Let_def)
next
  case (Drop_Claim k)
  then show ?thesis using assms(1,2) by (simp add: doom_code)
next
  case (Drop_Clear k)
  then show ?thesis using assms(1) lock_token_pos[OF assms(4)] by (simp add: doom_code)
next
  case (Drop_Give k)
  then show ?thesis using assms(1,2) by (simp add: doom_code core_ok_def)
qed (use assms(1,2) in \<open>simp_all add: doom_code\<close>)

lemma doom_other_step:
  assumes "doom_ok c m s" "core_ok d s" "c < TK_MAX_CORE" "d < TK_MAX_CORE" "c \<noteq> d"
  shows "doom_ok c m (lock_step d now s)"
  using assms lock_step_shared[OF assms(2,4), of now] lock_step_frame[OF assms(5), of now s] lock_step_mask_frame[OF assms(5), of now s]
    lock_token_pos[OF assms(3)]
  by (auto simp: doom_ok_def lock_token_inj)

lemma doom_step:
  assumes "lk_step s t" "doom_ok c m s" "lk_ok s" "dead s c" "dead t c" "c < TK_MAX_CORE"
  shows "doom_ok c m t"
  using assms(1)
proof (cases rule: lk_step.cases)
  case (run d now)
  have "core_ok c s" "core_ok d s" using assms(3,6) run(2) by (auto simp: lk_ok_def)
  then show ?thesis using doom_own_step[OF assms(2) _ assms(4,6)] doom_other_step[OF assms(2) _ assms(6) run(2)] run(1)
    by (cases "c = d") auto
next
  case (call d k)
  then show ?thesis using assms(2) doomed_not_out[of "pc s d"] by (auto simp: doom_ok_def call_lock_def goto_def)
next
  case (kill d e)
  then show ?thesis using assms(2) by (simp add: doom_ok_def)
next
  case (redispatch d)
  then show ?thesis using assms(2,5) by (cases "c = d") (auto simp: doom_ok_def goto_def set_primask_def)
next
  case (mask d e)
  then show ?thesis using assms(2) doomed_not_out[of "pc s d"] by (cases "c = d") (auto simp: doom_ok_def set_primask_def)
qed

lemma dead_run_keeps:
  assumes "dead_run c s u" "lk_reach s" "c < TK_MAX_CORE" "waits (pc s c)" "dead s c"
  shows "doom_ok c (saved_of (pc s c)) u \<and> lk_ok u \<and> dead u c"
  using assms(1)
proof (induction rule: dead_run.induct)
  case none
  have "waits (pc s c) \<Longrightarrow> pc s c \<noteq> Dead_Dispatch \<and> pc s c \<noteq> Drop_Give ByDead \<and> pc s c \<noteq> Lv_Entry ByDead" by auto
  then show ?case using assms(4,5) lk_reach_ok[OF assms(2)] by (auto simp: doom_ok_def doomed_def)
next
  case (more t u)
  then show ?case using doom_step[OF more(2) _ _ _ more(3) assms(3)] lk_step_ok[OF more(2)] by blast
qed

lemma doom_progress:
  assumes "doom_ok c m u" "core_ok c u" "dead u c" "0 < dead_rank (pc u c)" "dead_rank (pc u c) < 8"
  shows "Suc (dead_rank (pc (lock_step c now u) c)) = dead_rank (pc u c) \<or>
    pc u c = Drop_Claim ByDead \<and> lock_step c now u = u \<and> (\<exists>d. d \<noteq> c \<and> hwlock u SPINLOCK_KERNEL = Some d)"
proof (cases "pc u c")
  case (Lv_Entry k)
  then have "k = ByDead" "lock_depth u c = 1" "lock_word u = lock_token c" using assms(1,2) by (auto simp: doom_ok_def doomed_kind core_ok_def)
  then show ?thesis using Lv_Entry by (simp add: doom_code knl_kernel_lock_leave_def Let_def)
next
  case (Ent_Record r sv st ct)
  then show ?thesis using assms(3) by (simp add: doom_code enter_record_def Let_def)
next
  case (Drop_Claim k)
  then show ?thesis using assms(1,2) by (auto simp: doom_code core_ok_def)
qed (use assms in \<open>simp_all add: doom_code\<close>)

lemma other_step_pc:
  assumes "lk_step u v" "doomed (pc u c)" "dead v c"
  shows "pc v c = pc u c \<or> (\<exists>now. v = lock_step c now u)"
  using assms(1)
proof (cases rule: lk_step.cases)
  case (run d now)
  then show ?thesis using lock_step_frame(1)[of c d now u] by (cases "c = d") auto
next
  case (call d k)
  then show ?thesis using assms(2) doomed_not_out[of "pc u d"] by (cases "c = d") (auto simp: call_lock_def goto_def)
next
  case (redispatch d)
  then show ?thesis using assms(3) by (cases "c = d") (auto simp: goto_def set_primask_def)
qed (auto simp: set_primask_def)

text \<open>
  C8. A task that is terminated by the other core while it waits for the lock never enters a section. Take any reachable state in which core \<open>c\<close>
  waits inside \<open>knl_kernel_lock_enter\<close> and its task is dead, and any interleaving of steps of both cores from there during which the
  dispatcher does not replace the task and nobody revives it. In every state \<open>u\<close> on the way: the core is not in a section but still
  waiting, or giving the lock back, or at the forced dispatch; at the dispatch it has depth zero, the lock word is not its token, the SIO spinlock is not its own and
  its interrupt mask is the one from before the enter; a step of the other core does not move it; and once it has
  found the lock free under the SIO spinlock (\<open>dead_rank\<close> below 8), each step of its own brings it one closer to the dispatch, except the one that claims the SIO spinlock
  for the release while the other core holds it, which is repeated. The step in which it has won the lock and sees that its task is dead counts the event.
\<close>
theorem dead_context_dispatched:
  assumes "lk_reach s" "c < TK_MAX_CORE" "waits (pc s c)" "dead s c" "dead_run c s u"
  shows "doomed (pc u c) \<and> \<not> in_section c u \<and>
    (pc u c = Dead_Dispatch \<longrightarrow> lock_depth u c = 0 \<and> lock_word u \<noteq> lock_token c \<and> hwlock u SPINLOCK_KERNEL \<noteq> Some c \<and>
       masked u c = saved_of (pc s c)) \<and>
    (\<forall>v. lk_step u v \<and> dead v c \<longrightarrow> pc v c = pc u c \<or> (\<exists>now. v = lock_step c now u)) \<and>
    (0 < dead_rank (pc u c) \<and> dead_rank (pc u c) < 8 \<longrightarrow>
      (\<forall>now. Suc (dead_rank (pc (lock_step c now u) c)) = dead_rank (pc u c) \<or>
        pc u c = Drop_Claim ByDead \<and> lock_step c now u = u \<and> (\<exists>d. d \<noteq> c \<and> hwlock u SPINLOCK_KERNEL = Some d))) \<and>
    (\<forall>now r m st ct. pc u c = Ent_Record r m st ct \<longrightarrow>
      dead_ctxtsk_dispatches (stats (lock_step c now u)) = dead_ctxtsk_dispatches (stats u) + 1)"
proof -
  have k: "doom_ok c (saved_of (pc s c)) u" "lk_ok u" "dead u c" using dead_run_keeps[OF assms(5,1-4)] by simp_all
  have ok: "core_ok c u" using k(2) assms(2) by (simp add: lk_ok_def)
  have d: "doomed (pc u c)" using k(1) by (simp add: doom_ok_def)
  have a: "\<not> in_section c u" using doomed_not_out[OF d] by (simp add: in_section_def)
  have b: "pc u c = Dead_Dispatch \<longrightarrow> lock_depth u c = 0 \<and> lock_word u \<noteq> lock_token c \<and> hwlock u 0 \<noteq> Some c \<and> masked u c = saved_of (pc s c)"
    using k(1) ok by (auto simp: doom_ok_def core_ok_def)
  have e: "dead_ctxtsk_dispatches (stats (lock_step c now u)) = dead_ctxtsk_dispatches (stats u) + 1"
    if "pc u c = Ent_Record r m st ct" for now r m st ct
    using enter_record_dead[OF k(3), of now r m st ct] that by (simp add: lock_step_def Let_def)
  show ?thesis using d a b other_step_pc[OF _ d] doom_progress[OF k(1) ok k(3)] e by blast
qed

text \<open>Core 1 leaves its section after terminating the task of core 0, which then runs.\<close>

definition ex_killed :: lkst where
  "ex_killed = lock_run 0 [11, 12, 13, 14, 15] (do_call 1 CLeave (replicate 9 9) (ex_contended\<lparr>dead := (\<lambda>c. c = 0)\<rparr>))"

lemma dead_run_alone: "c < TK_MAX_CORE \<Longrightarrow> (\<And>n. n \<le> length ts \<Longrightarrow> dead (lock_run c (take n ts) s) c) \<Longrightarrow> dead_run c s (lock_run c ts s)"
proof (induction ts rule: rev_induct)
  case (snoc t ts)
  have "dead (lock_run c (take n ts) s) c" if "n \<le> length ts" for n using snoc(3)[of n] that by simp
  then have "dead_run c s (lock_run c ts s)" using snoc by blast
  moreover have "dead (lock_run c (ts @ [t]) s) c" using snoc(3)[of "Suc (length ts)"] by simp
  ultimately show ?case using snoc(2) by (auto simp: lock_run_append intro: dead_run.more lk_step.run)
qed (simp add: dead_run.none)

lemma ex_killed_reach: "lk_reach ex_killed"
proof -
  have "lk_reach (ex_contended\<lparr>dead := (\<lambda>c. c = 0)\<rparr>)"
    by (rule lk_reach.step[OF ex_contended_reach]) (rule lk_step.kill[OF less_cores_1], use ex_contended_facts(1) in simp)
  then show ?thesis unfolding ex_killed_def do_call_def
    by (intro lk_reach_run lk_reach_call) (simp_all, code_simp)
qed

theorem dead_context_dispatched_witness:
  "pc (lock_run 0 (replicate 5 21) ex_killed) 0 = Dead_Dispatch \<and> lock_word (lock_run 0 (replicate 5 21) ex_killed) \<noteq> lock_token 0"
proof -
  let ?u = "lock_run 0 (replicate 5 21) ex_killed"
  have w: "waits (pc ex_killed 0)" "dead ex_killed 0" "pc ?u 0 = Dead_Dispatch" by code_simp+
  have "\<forall>n \<in> {0, 1, 2, 3, 4, 5}. dead (lock_run 0 (take n (replicate 5 21)) ex_killed) 0" by code_simp
  moreover have "n \<in> {0, 1, 2, 3, 4, 5}" if "n \<le> length (replicate 5 (21 :: UW))" for n :: nat using that by auto
  ultimately have "dead (lock_run 0 (take n (replicate 5 21)) ex_killed) 0" if "n \<le> length (replicate 5 (21 :: UW))" for n using that by blast
  from dead_run_alone[OF less_cores_0 this] have "dead_run 0 ex_killed ?u" .
  from dead_context_dispatched[OF ex_killed_reach less_cores_0 w(1,2) this] show ?thesis using w(3) by blast
qed

end
