(* ===== verification/Smp_Atomic.thy ===== *)
theory Smp_Atomic
  imports Memory_Words "HOL-Library.Monad_Syntax"
begin

text \<open>
  \<^verbatim>\<open>sysdepend/cpu/rp2040/smp_atomic.c\<close> and the public SMP utility calls at the end of
  \<^verbatim>\<open>kernel/tkernel/smp_lock.c\<close>. The processor has no exclusive access instruction, so each atomic
  operation is a read and a write under SIO spinlock 1 with interrupts masked. Pointers are addresses
  in the byte memory. A loop that spins while nothing else moves does not return: the value is \<open>None\<close>.
\<close>

subsection \<open>State and primitives\<close>

record atst =
  amem :: "UW \<Rightarrow> UB"
  aspin :: "nat \<Rightarrow> nat option"
  amask :: "nat \<Rightarrow> bool"

abbreviation (input) ATOMIC_SPIN :: nat where "ATOMIC_SPIN \<equiv> 1"

definition ATOMIC_ENTER :: "nat \<Rightarrow> atst \<Rightarrow> (bool \<times> atst) option" where
  "ATOMIC_ENTER c s =
     (let saved = amask s c; s = s\<lparr>amask := (amask s)(c := True)\<rparr>
      in if aspin s ATOMIC_SPIN = None then Some (saved, s\<lparr>aspin := (aspin s)(ATOMIC_SPIN := Some c)\<rparr>) else None)"

definition ATOMIC_LEAVE :: "nat \<Rightarrow> bool \<Rightarrow> atst \<Rightarrow> atst" where
  "ATOMIC_LEAVE c saved s = s\<lparr>aspin := (aspin s)(ATOMIC_SPIN := None), amask := (amask s)(c := saved)\<rparr>"

definition knl_arch_atomic_load :: "UW \<Rightarrow> atst \<Rightarrow> UW" where
  "knl_arch_atomic_load a s = ld32 a (amem s)"

definition knl_arch_atomic_store :: "UW \<Rightarrow> UW \<Rightarrow> atst \<Rightarrow> atst" where
  "knl_arch_atomic_store a v s = s\<lparr>amem := st32 a v (amem s)\<rparr>"

definition knl_arch_atomic_fetch_add :: "nat \<Rightarrow> UW \<Rightarrow> UW \<Rightarrow> atst \<Rightarrow> (UW \<times> atst) option" where
  "knl_arch_atomic_fetch_add c a value s = do {
     (saved, s) \<leftarrow> ATOMIC_ENTER c s;
     let old = ld32 a (amem s);
     let s = s\<lparr>amem := st32 a (old + value) (amem s)\<rparr>;
     Some (old, ATOMIC_LEAVE c saved s)
   }"

definition knl_arch_atomic_xchg :: "nat \<Rightarrow> UW \<Rightarrow> UW \<Rightarrow> atst \<Rightarrow> (UW \<times> atst) option" where
  "knl_arch_atomic_xchg c a value s = do {
     (saved, s) \<leftarrow> ATOMIC_ENTER c s;
     let old = ld32 a (amem s);
     let s = s\<lparr>amem := st32 a value (amem s)\<rparr>;
     Some (old, ATOMIC_LEAVE c saved s)
   }"

definition knl_arch_atomic_cmpxchg :: "nat \<Rightarrow> UW \<Rightarrow> UW \<Rightarrow> UW \<Rightarrow> atst \<Rightarrow> (bool \<times> atst) option" where
  "knl_arch_atomic_cmpxchg c a expected desired s = do {
     (saved, s) \<leftarrow> ATOMIC_ENTER c s;
     let ok = (ld32 a (amem s) = expected);
     let s = (if ok then s\<lparr>amem := st32 a desired (amem s)\<rparr> else s);
     Some (ok, ATOMIC_LEAVE c saved s)
   }"

definition knl_arch_atomic_cmpxchg_val :: "nat \<Rightarrow> UW \<Rightarrow> UW \<Rightarrow> UW \<Rightarrow> atst \<Rightarrow> (UW \<times> atst) option" where
  "knl_arch_atomic_cmpxchg_val c a expected desired s = do {
     (saved, s) \<leftarrow> ATOMIC_ENTER c s;
     let old = ld32 a (amem s);
     let s = (if old = expected then s\<lparr>amem := st32 a desired (amem s)\<rparr> else s);
     Some (old, ATOMIC_LEAVE c saved s)
   }"

definition knl_arch_atomic_bitset :: "nat \<Rightarrow> UW \<Rightarrow> UW \<Rightarrow> atst \<Rightarrow> (UW \<times> atst) option" where
  "knl_arch_atomic_bitset c a ptn s = do {
     (saved, s) \<leftarrow> ATOMIC_ENTER c s;
     let old = ld32 a (amem s);
     let s = s\<lparr>amem := st32 a (old OR ptn) (amem s)\<rparr>;
     Some (old, ATOMIC_LEAVE c saved s)
   }"

definition knl_arch_atomic_bitclr :: "nat \<Rightarrow> UW \<Rightarrow> UW \<Rightarrow> atst \<Rightarrow> (UW \<times> atst) option" where
  "knl_arch_atomic_bitclr c a ptn s = do {
     (saved, s) \<leftarrow> ATOMIC_ENTER c s;
     let old = ld32 a (amem s);
     let s = s\<lparr>amem := st32 a (old AND NOT ptn) (amem s)\<rparr>;
     Some (old, ATOMIC_LEAVE c saved s)
   }"

definition knl_arch_atomic_take :: "nat \<Rightarrow> UW \<Rightarrow> atst \<Rightarrow> (UW \<times> atst) option" where
  "knl_arch_atomic_take c a s = knl_arch_atomic_xchg c a 0 s"

subsection \<open>Spinlocks of the applications\<close>

definition InitSpinLock :: "UW \<Rightarrow> atst \<Rightarrow> ER \<times> atst" where
  "InitSpinLock l s = (if l = 0 then (E_PAR, s) else (E_OK, knl_arch_atomic_store l 0 s))"

text \<open>The loop around the compare-and-exchange; \<open>None\<close> when it goes round for ever.\<close>

partial_function (option) spin_wait :: "nat \<Rightarrow> UW \<Rightarrow> atst \<Rightarrow> atst option" where
  "spin_wait c l s = do {
     (ok, s) \<leftarrow> knl_arch_atomic_cmpxchg c l 0 1 s;
     if ok then Some s else spin_wait c l s
   }"

definition SpinLock :: "nat \<Rightarrow> UW \<Rightarrow> atst \<Rightarrow> (ER \<times> atst) option" where
  "SpinLock c l s = (if l = 0 then Some (E_PAR, s) else map_option (Pair E_OK) (spin_wait c l s))"

definition SpinTryLock :: "nat \<Rightarrow> UW \<Rightarrow> atst \<Rightarrow> (ER \<times> atst) option" where
  "SpinTryLock c l s =
     (if l = 0 then Some (E_PAR, s)
      else map_option (\<lambda>(ok, s). (if ok then E_OK else E_BUSY, s)) (knl_arch_atomic_cmpxchg c l 0 1 s))"

definition SpinUnlock :: "UW \<Rightarrow> atst \<Rightarrow> ER \<times> atst" where
  "SpinUnlock l s = (if l = 0 then (E_PAR, s) else (E_OK, knl_arch_atomic_store l 0 s))"

text \<open>The interrupt-preserving variants: \<open>p\<close> says whether the caller's \<open>intsts\<close> pointer is not NULL.\<close>

definition ISpinLock :: "nat \<Rightarrow> UW \<Rightarrow> bool \<Rightarrow> atst \<Rightarrow> (ER \<times> bool option \<times> atst) option" where
  "ISpinLock c l p s =
     (if l = 0 \<or> \<not> p then Some (E_PAR, None, s)
      else let intsts = amask s c; s = s\<lparr>amask := (amask s)(c := True)\<rparr>
           in map_option (\<lambda>s. (E_OK, Some intsts, s)) (spin_wait c l s))"

definition ISpinTryLock :: "nat \<Rightarrow> UW \<Rightarrow> bool \<Rightarrow> atst \<Rightarrow> (ER \<times> bool option \<times> atst) option" where
  "ISpinTryLock c l p s =
     (if l = 0 \<or> \<not> p then Some (E_PAR, None, s)
      else let saved = amask s c; s = s\<lparr>amask := (amask s)(c := True)\<rparr>
           in map_option (\<lambda>(ok, s). if ok then (E_OK, Some saved, s)
                 else (E_BUSY, None, s\<lparr>amask := (amask s)(c := saved)\<rparr>)) (knl_arch_atomic_cmpxchg c l 0 1 s))"

definition ISpinUnlock :: "nat \<Rightarrow> UW \<Rightarrow> bool \<Rightarrow> atst \<Rightarrow> ER \<times> atst" where
  "ISpinUnlock c l intsts s =
     (if l = 0 then (E_PAR, s)
      else let s = knl_arch_atomic_store l 0 s in (E_OK, s\<lparr>amask := (amask s)(c := intsts)\<rparr>))"

subsection \<open>Public atomics\<close>

definition atomic_inc :: "nat \<Rightarrow> UW \<Rightarrow> atst \<Rightarrow> (UW \<times> atst) option" where
  "atomic_inc c a s = map_option (\<lambda>(old, s). (old + 1, s)) (knl_arch_atomic_fetch_add c a 1 s)"

definition atomic_dec :: "nat \<Rightarrow> UW \<Rightarrow> atst \<Rightarrow> (UW \<times> atst) option" where
  "atomic_dec c a s = map_option (\<lambda>(old, s). (old - 1, s)) (knl_arch_atomic_fetch_add c a (- 1) s)"

definition atomic_add :: "nat \<Rightarrow> UW \<Rightarrow> UW \<Rightarrow> atst \<Rightarrow> (UW \<times> atst) option" where
  "atomic_add c a val s = map_option (\<lambda>(old, s). (old + val, s)) (knl_arch_atomic_fetch_add c a val s)"

definition atomic_sub :: "nat \<Rightarrow> UW \<Rightarrow> UW \<Rightarrow> atst \<Rightarrow> (UW \<times> atst) option" where
  "atomic_sub c a val s = map_option (\<lambda>(old, s). (old - val, s)) (knl_arch_atomic_fetch_add c a (- val) s)"

definition atomic_xchg :: "nat \<Rightarrow> UW \<Rightarrow> UW \<Rightarrow> atst \<Rightarrow> (UW \<times> atst) option" where
  "atomic_xchg c a val s = knl_arch_atomic_xchg c a val s"

definition atomic_cmpxchg :: "nat \<Rightarrow> UW \<Rightarrow> UW \<Rightarrow> UW \<Rightarrow> atst \<Rightarrow> (UW \<times> atst) option" where
  "atomic_cmpxchg c a val cmp s = knl_arch_atomic_cmpxchg_val c a cmp val s"

definition atomic_bitset :: "nat \<Rightarrow> UW \<Rightarrow> UW \<Rightarrow> atst \<Rightarrow> (UW \<times> atst) option" where
  "atomic_bitset c a setptn s = knl_arch_atomic_bitset c a setptn s"

definition atomic_bitclr :: "nat \<Rightarrow> UW \<Rightarrow> UW \<Rightarrow> atst \<Rightarrow> (UW \<times> atst) option" where
  "atomic_bitclr c a clrptn s = knl_arch_atomic_bitclr c a clrptn s"

subsection \<open>Sequential behaviour\<close>

lemma atomic_enter_free: "aspin s ATOMIC_SPIN = None \<Longrightarrow>
  ATOMIC_ENTER c s = Some (amask s c, s\<lparr>amask := (amask s)(c := True), aspin := (aspin s)(ATOMIC_SPIN := Some c)\<rparr>)"
  by (simp add: ATOMIC_ENTER_def Let_def)

lemma atomic_leave_restores: "aspin s ATOMIC_SPIN = None \<Longrightarrow> ATOMIC_LEAVE c (amask s c)
    (s\<lparr>amem := m, amask := (amask s)(c := True), aspin := (aspin s)(ATOMIC_SPIN := Some c)\<rparr>) = s\<lparr>amem := m\<rparr>"
  "aspin s ATOMIC_SPIN = None \<Longrightarrow> ATOMIC_LEAVE c (amask s c)
    (s\<lparr>amask := (amask s)(c := True), aspin := (aspin s)(ATOMIC_SPIN := Some c)\<rparr>) = s"
  by (simp_all add: ATOMIC_LEAVE_def fun_upd_idem)

lemmas atomic_seq = atomic_enter_free atomic_leave_restores

lemma cmpxchg_free: "aspin s 1 = None \<Longrightarrow> knl_arch_atomic_cmpxchg c l e d s =
    Some (ld32 l (amem s) = e, if ld32 l (amem s) = e then s\<lparr>amem := st32 l d (amem s)\<rparr> else s)"
  by (simp add: knl_arch_atomic_cmpxchg_def ATOMIC_ENTER_def ATOMIC_LEAVE_def Let_def fun_upd_idem)

lemma spin_wait_free: "aspin s 1 = None \<Longrightarrow> ld32 l (amem s) = 0 \<Longrightarrow>
    spin_wait c l s = Some (s\<lparr>amem := st32 l 1 (amem s)\<rparr>)"
  by (subst spin_wait.simps) (simp add: cmpxchg_free)

lemma spin_wait_taken:
  assumes "spin_wait c l s = Some s'" "aspin s 1 = None"
  shows "ld32 l (amem s) = 0"
  using assms
proof (induction rule: spin_wait.raw_induct[rotated, consumes 1])
  case (1 f c l s s')
  show ?case
  proof (rule ccontr)
    assume n: "ld32 l (amem s) \<noteq> 0"
    then have "f c l s = Some s'" using 1(2,3) by (simp add: cmpxchg_free)
    then show False using 1(1) 1(3) n by blast
  qed
qed

lemma spin_wait_held: "aspin s 1 = None \<Longrightarrow> ld32 l (amem s) \<noteq> 0 \<Longrightarrow> spin_wait c l s = None"
  using spin_wait_taken by (metis not_None_eq)

text \<open>
  C37. The application spinlocks, as seen by a core that nothing interrupts: \<open>SpinLock\<close> takes a lock that is free and never
  returns on one that is taken, \<open>SpinTryLock\<close> answers \<open>E_BUSY\<close> then and changes nothing, \<open>SpinUnlock\<close> frees the
  lock, and the interrupt mask is left alone; \<open>ISpinLock\<close> masks interrupts and hands out the previous mask,
  with which \<open>ISpinUnlock\<close> restores it, and a failed \<open>ISpinTryLock\<close> restores it itself.
\<close>
theorem spinlock_protocol:
  assumes "aspin s 1 = None" "l \<noteq> 0" "ld32 l (amem s) = 0"
  shows "\<exists>s1. SpinLock c l s = Some (E_OK, s1) \<and> SpinTryLock c l s = Some (E_OK, s1) \<and> ld32 l (amem s1) = 1 \<and> amask s1 = amask s \<and>
    SpinLock d l s1 = None \<and> SpinTryLock d l s1 = Some (E_BUSY, s1) \<and> ISpinLock d l True s1 = None \<and>
    ISpinTryLock d l True s1 = Some (E_BUSY, None, s1) \<and>
    (\<exists>s2. SpinUnlock l s1 = (E_OK, s2) \<and> ld32 l (amem s2) = 0 \<and> amask s2 = amask s) \<and>
    (\<exists>s3 s4. ISpinLock c l True s = Some (E_OK, Some (amask s c), s3) \<and> amask s3 = (amask s)(c := True) \<and> ld32 l (amem s3) = 1 \<and>
       ISpinUnlock c l (amask s c) s3 = (E_OK, s4) \<and> amask s4 = amask s \<and> ld32 l (amem s4) = 0)"
proof -
  let ?s1 = "s\<lparr>amem := st32 l 1 (amem s)\<rparr>"
  let ?s3 = "s\<lparr>amask := (amask s)(c := True), amem := st32 l 1 (amem s)\<rparr>"
  have L: "SpinLock c l s = Some (E_OK, ?s1)" "SpinTryLock c l s = Some (E_OK, ?s1)"
    using assms by (simp_all add: SpinLock_def SpinTryLock_def spin_wait_free cmpxchg_free)
  have H: "SpinLock d l ?s1 = None" "SpinTryLock d l ?s1 = Some (E_BUSY, ?s1)" "ISpinLock d l True ?s1 = None"
    using assms by (simp_all add: SpinLock_def SpinTryLock_def ISpinLock_def spin_wait_held cmpxchg_free Let_def)
  have T: "ISpinTryLock d l True ?s1 = Some (E_BUSY, None, ?s1)"
    using assms by (simp add: ISpinTryLock_def cmpxchg_free Let_def)
  have I: "ISpinLock c l True s = Some (E_OK, Some (amask s c), ?s3)"
    using assms by (simp add: ISpinLock_def spin_wait_free Let_def)
  show ?thesis
    by (rule exI[of _ ?s1]) (use assms(2) in \<open>simp add: L H T I SpinUnlock_def ISpinUnlock_def knl_arch_atomic_store_def Let_def\<close>)
qed

definition ex_atomic :: atst where
  "ex_atomic = \<lparr>amem = (\<lambda>_. 0), aspin = (\<lambda>_. None), amask = (\<lambda>_. False)\<rparr>"

theorem spinlock_protocol_witness:
  "\<exists>s1. SpinLock 0 0x20001000 ex_atomic = Some (E_OK, s1) \<and> SpinLock 1 0x20001000 s1 = None"
  using spinlock_protocol[of ex_atomic "0x20001000" 0 1] by (auto simp: ex_atomic_def ld32_def)

subsection \<open>Two cores: no update is lost\<close>

text \<open>
  The read-modify-write operations by the value they compute from the old one, and the steps of a core inside
  \<open>ATOMIC_ENTER\<close> \<dots> \<open>ATOMIC_LEAVE\<close>: mask, claim, read, write, release. \<open>alog\<close> lists the writes with the
  value that each operation returns, in the order of the writes.
\<close>

datatype rmw = Fetch_add UW | Xchg UW | Cmpxchg UW UW | Bitset UW | Bitclr UW

fun rmw_apply :: "rmw \<Rightarrow> UW \<Rightarrow> UW" where
  "rmw_apply (Fetch_add v) old = old + v"
| "rmw_apply (Xchg v) old = v"
| "rmw_apply (Cmpxchg e d) old = (if old = e then d else old)"
| "rmw_apply (Bitset m) old = old OR m"
| "rmw_apply (Bitclr m) old = old AND NOT m"

datatype at_pc = A_Out | A_Claim rmw bool | A_Read rmw bool | A_Write rmw bool UW | A_Give bool

record atsys =
  aword :: UW
  ahold :: "nat option"
  ami :: "nat \<Rightarrow> bool"
  apc :: "nat \<Rightarrow> at_pc"
  alog :: "(rmw \<times> UW) list"

fun at_move :: "nat \<Rightarrow> at_pc \<Rightarrow> atsys \<Rightarrow> atsys" where
  "at_move c A_Out s = s"
| "at_move c (A_Claim r saved) s =
     (if ahold s = None then s\<lparr>ahold := Some c, apc := (apc s)(c := A_Read r saved)\<rparr> else s)"
| "at_move c (A_Read r saved) s = s\<lparr>apc := (apc s)(c := A_Write r saved (aword s))\<rparr>"
| "at_move c (A_Write r saved old) s =
     s\<lparr>aword := rmw_apply r old, apc := (apc s)(c := A_Give saved), alog := alog s @ [(r, old)]\<rparr>"
| "at_move c (A_Give saved) s = s\<lparr>ahold := None, ami := (ami s)(c := saved), apc := (apc s)(c := A_Out)\<rparr>"

inductive at_step :: "atsys \<Rightarrow> atsys \<Rightarrow> bool" where
  enter: "apc s c = A_Out \<Longrightarrow> at_step s (s\<lparr>ami := (ami s)(c := True), apc := (apc s)(c := A_Claim r (ami s c))\<rparr>)"
| move: "at_step s (at_move c (apc s c) s)"

inductive at_reach :: "UW \<Rightarrow> atsys \<Rightarrow> bool" for w where
  start: "at_reach w \<lparr>aword = w, ahold = None, ami = m, apc = (\<lambda>_. A_Out), alog = []\<rparr>"
| step: "at_reach w s \<Longrightarrow> at_step s t \<Longrightarrow> at_reach w t"

fun at_holds :: "at_pc \<Rightarrow> bool" where
  "at_holds A_Out = False"
| "at_holds (A_Claim _ _) = False"
| "at_holds _ = True"

definition log_value :: "UW \<Rightarrow> (rmw \<times> UW) list \<Rightarrow> UW" where
  "log_value w L = fold (\<lambda>(r, _). rmw_apply r) L w"

definition at_ok :: "UW \<Rightarrow> atsys \<Rightarrow> bool" where
  "at_ok w s \<longleftrightarrow> (\<forall>c. at_holds (apc s c) \<longleftrightarrow> ahold s = Some c) \<and>
     (\<forall>c r saved old. apc s c = A_Write r saved old \<longrightarrow> aword s = old) \<and>
     aword s = log_value w (alog s) \<and> (\<forall>i<length (alog s). snd (alog s ! i) = log_value w (take i (alog s)))"

lemma at_ok_move:
  assumes ok: "at_ok w s"
  shows "at_ok w (at_move c (apc s c) s)"
proof (cases "apc s c")
  case (A_Claim r saved)
  then show ?thesis using ok by (auto simp: at_ok_def)
next
  case (A_Read r saved)
  then show ?thesis using ok by (auto simp: at_ok_def)
next
  case (A_Write r saved old)
  have h: "ahold s = Some c" "aword s = old" using ok A_Write by (auto simp: at_ok_def)
  have o: "apc s d \<noteq> A_Write r' sv v" if "d \<noteq> c" for d r' sv v
    using ok that h(1) unfolding at_ok_def by (metis at_holds.simps(4) option.inject)
  have L: "log_value w (alog s @ [(r, old)]) = rmw_apply r old" using ok h by (simp add: at_ok_def log_value_def)
  show ?thesis using ok h L o A_Write by (auto simp: at_ok_def nth_append less_Suc_eq)
next
  case (A_Give saved)
  have h: "ahold s = Some c" using ok A_Give by (auto simp: at_ok_def)
  show ?thesis using ok A_Give h by (auto simp: at_ok_def)
qed (use ok in simp)

lemma at_reach_ok: "at_reach w s \<Longrightarrow> at_ok w s"
proof (induction rule: at_reach.induct)
  case (step s t)
  from step.hyps(2) show ?case
  proof (cases rule: at_step.cases)
    case (enter c r)
    then have "ahold s \<noteq> Some c" using step.IH unfolding at_ok_def by (metis at_holds.simps(1))
    then show ?thesis using step.IH enter by (auto simp: at_ok_def)
  qed (simp add: at_ok_move step.IH)
qed (simp add: at_ok_def log_value_def)

text \<open>
  No update is lost: whatever the interleaving of atomic operations on a word by any number of cores, the word
  always holds the initial value with the operations applied one after the other in the order of their writes, and
  each operation returns the value that the ones before it had left.
\<close>
theorem atomics_linearise:
  assumes "at_reach w s"
  shows "aword s = log_value w (alog s) \<and> (\<forall>i<length (alog s). snd (alog s ! i) = log_value w (take i (alog s)))"
  using at_reach_ok[OF assms] by (simp add: at_ok_def)

lemma at_reach_moves: "at_reach w s \<Longrightarrow> at_reach w (fold (\<lambda>c s. at_move c (apc s c) s) cs s)"
  by (induction cs arbitrary: s) (auto intro: at_reach.step at_step.move)

theorem atomics_linearise_witness:
  "\<exists>s. at_reach 5 s \<and> alog s = [(Fetch_add 1, 5), (Fetch_add 2, 6)] \<and> log_value 5 (alog s) = 8 \<and> aword s = 8"
proof -
  let ?s0 = "\<lparr>aword = 5, ahold = None, ami = (\<lambda>_. False), apc = (\<lambda>_. A_Out), alog = []\<rparr>"
  let ?s1 = "?s0\<lparr>ami := (ami ?s0)(0 := True), apc := (apc ?s0)(0 := A_Claim (Fetch_add 1) (ami ?s0 0))\<rparr>"
  let ?s2 = "?s1\<lparr>ami := (ami ?s1)(1 := True), apc := (apc ?s1)(1 := A_Claim (Fetch_add 2) (ami ?s1 1))\<rparr>"
  let ?s = "fold (\<lambda>c s. at_move c (apc s c) s) [0, 1, 0, 1, 0, 1, 0, 1, 1, 1, 1] ?s2"
  have "at_reach 5 ?s1" by (rule at_reach.step[OF at_reach.start at_step.enter]) simp
  then have "at_reach 5 ?s2" by (rule at_reach.step[OF _ at_step.enter]) simp
  then have r: "at_reach 5 ?s" by (rule at_reach_moves)
  have "alog ?s = [(Fetch_add 1, 5), (Fetch_add 2, 6)]" by simp
  then show ?thesis using atomics_linearise[OF r] r by (intro exI[of _ ?s] conjI) (simp_all add: log_value_def)
qed

end
