(* ===== verification/Smp_Ipi.thy ===== *)
theory Smp_Ipi
  imports Time_Calls
begin

text \<open>
  \<^verbatim>\<open>sysdepend/cpu/rp2040/smp_rp2040.c\<close>: the inter-processor interrupts over the SIO mailboxes, and the
  launch of core 1. The mailbox of a core holds up to eight unread words; its two sticky error flags are
  \<open>wof\<close> (a full mailbox of the other core was written) and \<open>roe\<close> (an empty one was read). The registers
  of the interrupt controller are only used to mask and unmask the mailbox interrupt, and are left out.
\<close>

subsection \<open>Mailboxes\<close>

record fifost =
  rx :: "nat \<Rightarrow> UW list"
  wof :: "nat \<Rightarrow> bool"
  roe :: "nat \<Rightarrow> bool"
  fifo_errors :: UW
  fifo_wof :: "nat \<Rightarrow> UW"
  fifo_roe :: "nat \<Rightarrow> UW"
  ping_recv :: UW
  pong_recv :: UW
  shared_word :: UW

definition FIFO_DEPTH :: nat where "FIFO_DEPTH = 8"

definition fifo_vld :: "nat \<Rightarrow> fifost \<Rightarrow> bool" where "fifo_vld c f \<longleftrightarrow> rx f c \<noteq> []"
definition fifo_rdy :: "nat \<Rightarrow> fifost \<Rightarrow> bool" where "fifo_rdy core f \<longleftrightarrow> length (rx f core) < FIFO_DEPTH"

definition fifo_pop :: "nat \<Rightarrow> fifost \<Rightarrow> UW option \<times> fifost" where
  "fifo_pop c f = (if \<not> fifo_vld c f then (None, f) else (Some (hd (rx f c)), f\<lparr>rx := (rx f)(c := tl (rx f c))\<rparr>))"

definition clear_flags :: "nat \<Rightarrow> fifost \<Rightarrow> fifost" where
  "clear_flags c f = f\<lparr>wof := (wof f)(c := False), roe := (roe f)(c := False)\<rparr>"

function pop_all :: "nat \<Rightarrow> fifost \<Rightarrow> fifost" where
  "pop_all c f = (case fifo_pop c f of (None, f) \<Rightarrow> f | (Some _, f) \<Rightarrow> pop_all c f)"
  by pat_completeness auto
termination
  by (relation "measure (\<lambda>(c, f). length (rx f c))")
    (auto simp: fifo_pop_def fifo_vld_def split: if_splits)

declare pop_all.simps [simp del]

definition fifo_drain :: "nat \<Rightarrow> fifost \<Rightarrow> fifost" where
  "fifo_drain c f = clear_flags c (pop_all c f)"

definition fifo_check_errors :: "nat \<Rightarrow> fifost \<Rightarrow> fifost" where
  "fifo_check_errors self f =
     (if \<not> wof f self \<and> \<not> roe f self then f
      else let f = (if wof f self then f\<lparr>fifo_wof := (fifo_wof f)(self := fifo_wof f self + 1)\<rparr> else f);
               f = (if roe f self then f\<lparr>fifo_roe := (fifo_roe f)(self := fifo_roe f self + 1)\<rparr> else f);
               f = f\<lparr>fifo_errors := fifo_errors f + 1\<rparr>
           in clear_flags self f)"

subsection \<open>Sending and taking\<close>

text \<open>
  The pending mask and whether the mailbox holds a doorbell are in the kernel state; \<open>knl_ipi_send_hw\<close> is
  \<open>knl_ipi_send\<close> on the mailbox itself: a doorbell goes in only when there is room.
\<close>

definition knl_ipi_send_hw :: "nat \<Rightarrow> UW \<Rightarrow> smp \<times> fifost \<Rightarrow> smp \<times> fifost" where
  "knl_ipi_send_hw core reasons = (\<lambda>(m, f).
     if core \<ge> TK_MAX_CORE then (m, f)
     else let m = m\<lparr>ipi_pending := (ipi_pending m)(core := ipi_pending m core OR reasons)\<rparr>;
              f = (if fifo_rdy core f then f\<lparr>rx := (rx f)(core := rx f core @ [0])\<rparr> else f)
          in (m, f))"

definition knl_ipi_take_hw :: "nat \<Rightarrow> smp \<times> fifost \<Rightarrow> UW \<times> smp \<times> fifost" where
  "knl_ipi_take_hw c = (\<lambda>(m, f).
     let f = fifo_check_errors c (pop_all c f)
     in (ipi_pending m c, m\<lparr>ipi_pending := (ipi_pending m)(c := 0)\<rparr>, f))"

text \<open>The same on the kernel state, in which a mailbox is one flag.\<close>

definition knl_ipi_take :: "nat \<Rightarrow> smp \<Rightarrow> UW \<times> smp" where
  "knl_ipi_take c m =
     (ipi_pending m c, m\<lparr>ipi_pending := (ipi_pending m)(c := 0), doorbell := (doorbell m)(c := False)\<rparr>)"

definition fifo_abs :: "smp \<times> fifost \<Rightarrow> smp" where
  "fifo_abs = (\<lambda>(m, f). m\<lparr>doorbell := (\<lambda>c. rx f c \<noteq> [])\<rparr>)"

lemma pop_all_eq: "pop_all c f = f\<lparr>rx := (rx f)(c := [])\<rparr>"
proof (induction c f rule: pop_all.induct)
  case (1 c f)
  show ?case
  proof (cases "rx f c")
    case Nil
    then show ?thesis by (subst pop_all.simps) (simp add: fifo_pop_def fifo_vld_def fun_upd_idem)
  next
    case (Cons v vs)
    then have "fifo_pop c f = (Some v, f\<lparr>rx := (rx f)(c := vs)\<rparr>)" by (simp add: fifo_pop_def fifo_vld_def)
    then have "pop_all c f = pop_all c (f\<lparr>rx := (rx f)(c := vs)\<rparr>)" by (subst pop_all.simps) simp
    also have "\<dots> = f\<lparr>rx := (rx f)(c := vs)\<rparr>\<lparr>rx := (rx (f\<lparr>rx := (rx f)(c := vs)\<rparr>))(c := [])\<rparr>"
      by (rule 1[OF sym refl]) fact
    finally show ?thesis by simp (simp add: fun_upd_def)
  qed
qed

lemma check_errors_rx [simp]: "rx (fifo_check_errors c f) = rx f"
  by (simp add: fifo_check_errors_def clear_flags_def Let_def)

text \<open>
  Reasons do not get lost in the mailbox. On the hardware's eight-word mailboxes, sending and taking implement the
  operations on a flag and a mask that the rest of the kernel is modelled with: a full mailbox already holds a
  doorbell, so dropping the word of another send is not observable, and a take empties the mailbox of its own core only.
\<close>
theorem ipi_refines_mask:
  "fifo_abs (knl_ipi_send_hw core reasons x) = knl_ipi_send core reasons (fifo_abs x) \<and>
   (case knl_ipi_take_hw c x of (r, y) \<Rightarrow> (r, fifo_abs y)) = knl_ipi_take c (fifo_abs x)"
proof -
  obtain m f where x: "x = (m, f)" by (cases x)
  have "(\<lambda>c. rx f c \<noteq> [])(core := True) = (\<lambda>c. rx f c \<noteq> [])" if "\<not> length (rx f core) < 8"
    using that by (intro fun_upd_idem) auto
  then have "fifo_abs (knl_ipi_send_hw core reasons x) = knl_ipi_send core reasons (fifo_abs x)"
    by (auto simp: x fifo_abs_def knl_ipi_send_hw_def knl_ipi_send_def fifo_rdy_def FIFO_DEPTH_def Let_def fun_eq_iff)
  moreover have "(case knl_ipi_take_hw c x of (r, y) \<Rightarrow> (r, fifo_abs y)) = knl_ipi_take c (fifo_abs x)"
    by (auto simp: x fifo_abs_def knl_ipi_take_hw_def knl_ipi_take_def pop_all_eq Let_def fun_eq_iff)
  ultimately show ?thesis ..
qed

subsection \<open>The handlers\<close>

abbreviation (input) KNL_IPI_PING :: UW where "KNL_IPI_PING \<equiv> 2"
abbreviation (input) KNL_IPI_PONG :: UW where "KNL_IPI_PONG \<equiv> 4"
abbreviation (input) KNL_IPI_TIME_HANDLER :: UW where "KNL_IPI_TIME_HANDLER \<equiv> 8"

abbreviation upd_smp :: "(smp \<Rightarrow> smp) \<Rightarrow> kstate \<Rightarrow> kstate" where
  "upd_smp f s \<equiv> s\<lparr>smp := f (smp s)\<rparr>"

definition ipi_common :: "thenv \<Rightarrow> nat \<Rightarrow> UW \<Rightarrow> kstate \<Rightarrow> kstate option" where
  "ipi_common e c reasons s =
     (let s = (if reasons AND KNL_IPI_RESCHEDULE \<noteq> 0 then upd_smp (knl_dispatch c) s else s)
      in if reasons AND KNL_IPI_TIME_HANDLER \<noteq> 0 then knl_timehandler_ipi e c s else Some s)"

definition knl_smp_core0_ipi :: "thenv \<Rightarrow> kstate \<times> fifost \<Rightarrow> (kstate \<times> fifost) option" where
  "knl_smp_core0_ipi e = (\<lambda>(s, f).
     let (reasons, m) = knl_ipi_take 0 (smp s); s = s\<lparr>smp := m\<rparr>; f = fifo_check_errors 0 (pop_all 0 f);
         f = (if reasons AND KNL_IPI_PONG \<noteq> 0 then f\<lparr>pong_recv := pong_recv f + 1\<rparr> else f)
     in map_option (\<lambda>s. (s, f)) (ipi_common e 0 reasons s))"

definition knl_smp_core1_ipi :: "thenv \<Rightarrow> kstate \<times> fifost \<Rightarrow> (kstate \<times> fifost) option" where
  "knl_smp_core1_ipi e = (\<lambda>(s, f).
     let (reasons, m) = knl_ipi_take 1 (smp s); s = s\<lparr>smp := m\<rparr>; f = fifo_check_errors 1 (pop_all 1 f);
         (s, f) = (if reasons AND KNL_IPI_PING \<noteq> 0
                   then (upd_smp (knl_ipi_send 0 KNL_IPI_PONG) s,
                         f\<lparr>ping_recv := ping_recv f + 1, shared_word := ping_recv f + 1,
                           rx := (rx f)(0 := if fifo_rdy 0 f then rx f 0 @ [0] else rx f 0)\<rparr>)
                   else (s, f))
     in map_option (\<lambda>s. (s, f)) (ipi_common e 1 reasons s))"

definition core_ipi :: "thenv \<Rightarrow> nat \<Rightarrow> kstate \<times> fifost \<Rightarrow> (kstate \<times> fifost) option" where
  "core_ipi e c = (if c = 0 then knl_smp_core0_ipi e else knl_smp_core1_ipi e)"

lemma or_and_bit0: "((w :: UW) OR 1) AND 1 \<noteq> 0"
proof
  assume "(w OR 1) AND 1 = 0"
  then have "bit ((w OR 1) AND 1) 0 = bit (0 :: UW) 0" by simp
  then show False by (simp add: bit_simps)
qed

text \<open>
  C37. A remote dispatch request arrives: after \<open>knl_smp_dispatch_request\<close> for a core, that core has its dispatch exception
  pending, at once when it is the calling core, and otherwise as soon as its mailbox handler has run, whatever reasons were
  sent to it before and after, as long as no detached timer handler is asked for as well.
\<close>
theorem dispatch_request_arrives:
  assumes "core < TK_MAX_CORE" "c < TK_MAX_CORE"
    and "core \<noteq> c \<Longrightarrow> smp s = knl_ipi_send core later (knl_smp_dispatch_request c core m)"
    and "core = c \<Longrightarrow> smp s = knl_smp_dispatch_request c core m"
    and "(ipi_pending m core OR later) AND KNL_IPI_TIME_HANDLER = 0"
  shows "if core = c then pendsv (smp s) core
    else \<exists>s' f'. core_ipi e core (s, f) = Some (s', f') \<and> pendsv (smp s') core \<and> ipi_pending (smp s') core = 0 \<and> \<not> doorbell (smp s') core"
proof (cases "core = c")
  case True
  then show ?thesis using assms(4) by (simp add: knl_smp_dispatch_request_def knl_dispatch_def)
next
  case False
  let ?r = "ipi_pending m core OR 1 OR later"
  have S: "ipi_pending (smp s) core = ?r"
    using assms(1) assms(3)[OF False] False by (simp add: knl_smp_dispatch_request_def knl_ipi_send_def or.assoc)
  have r1: "?r AND 1 \<noteq> 0"
    using or_and_bit0[of "ipi_pending m core OR later"] by (simp add: ac_simps)
  have r8: "?r AND 8 = 0"
    using assms(5) by (simp add: bit.conj_disj_distrib2 or_eq_0_iff)
  consider "core = 0" | "core = 1" using assms(1) by (auto simp: TK_MAX_CORE_def less_2_cases_iff)
  then show ?thesis
  proof cases
    case 1
    then show ?thesis using False S r1 r8
      by (simp add: core_ipi_def knl_smp_core0_ipi_def knl_ipi_take_def ipi_common_def knl_dispatch_def Let_def)
  next
    case 2
    then show ?thesis using False S r1 r8
      by (simp add: core_ipi_def knl_smp_core1_ipi_def knl_ipi_take_def ipi_common_def knl_dispatch_def knl_ipi_send_def Let_def)
  qed
qed

definition ex_fifo :: fifost where
  "ex_fifo = \<lparr>rx = (\<lambda>_. [0]), wof = (\<lambda>_. False), roe = (\<lambda>c. c = 1), fifo_errors = 0, fifo_wof = (\<lambda>_. 0), fifo_roe = (\<lambda>_. 0),
     ping_recv = 0, pong_recv = 0, shared_word = 0\<rparr>"

definition ex_ipi :: kstate where
  "ex_ipi = upd_smp (\<lambda>m. knl_ipi_send 1 4 (knl_smp_dispatch_request 0 1 m)) (ex_state Wspec_slp ex_winfo (SemQ 0))"

theorem dispatch_request_arrives_witness:
  "\<exists>s' f'. core_ipi ex_env 1 (ex_ipi, ex_fifo) = Some (s', f') \<and> pendsv (smp s') 1"
  using dispatch_request_arrives[of 1 0 ex_ipi 4 "smp (ex_state Wspec_slp ex_winfo (SemQ 0))" ex_env ex_fifo]
  by (auto simp: TK_MAX_CORE_def ex_ipi_def ex_state_def ex_smp_def)

subsection \<open>Launching core 1\<close>

text \<open>
  Core 1 waits in the boot ROM, which is not part of the program: it is the record \<open>bootrom\<close> of what its mailbox shows.
  In attempt \<open>n\<close>, \<open>room n i\<close> is the ready bit at poll \<open>i\<close> and \<open>echo n w i\<close> the word that poll \<open>i\<close> finds after \<open>w\<close> was sent;
  \<open>ready i\<close> says whether poll \<open>i\<close> of the last loop sees the flag that core 1 sets when it has started. The
  polling loops are bounded by the counts of the code.
\<close>

record bootrom =
  room :: "nat \<Rightarrow> nat \<Rightarrow> bool"
  echo :: "nat \<Rightarrow> UW \<Rightarrow> nat \<Rightarrow> UW option"
  ready :: "nat \<Rightarrow> bool"

record launchst =
  sent :: "UW list"
  echoed :: "UW list"
  launch_seq :: nat
  launch_attempts :: nat
  launch_errors :: UW
  launch_online :: UW

fun poll :: "nat \<Rightarrow> nat \<Rightarrow> (nat \<Rightarrow> 'a option) \<Rightarrow> 'a option" where
  "poll 0 i p = None"
| "poll (Suc n) i p = (case p i of None \<Rightarrow> poll n (Suc i) p | Some v \<Rightarrow> Some v)"

definition fifo_push :: "UW \<Rightarrow> (nat \<Rightarrow> bool) \<Rightarrow> launchst \<Rightarrow> bool \<times> launchst" where
  "fifo_push value rdy L =
     (case poll 1000000 0 (\<lambda>spin. if rdy spin then Some () else None) of
        Some _ \<Rightarrow> (True, L\<lparr>sent := sent L @ [value]\<rparr>)
      | None \<Rightarrow> (False, L\<lparr>launch_errors := launch_errors L + 1\<rparr>))"

function launch_loop :: "bootrom \<Rightarrow> UW list \<Rightarrow> nat \<Rightarrow> nat \<Rightarrow> launchst \<Rightarrow> bool \<times> launchst" where
  "launch_loop B cmd attempts sq L =
     (if \<not> sq < 6 then (True, L)
      else if attempts + 1 > 100 then (False, L)
      else let n = attempts + 1; w = cmd ! sq; (ok, L) = fifo_push w (room B n) L
           in if \<not> ok then (False, L)
              else case poll 1000000 0 (echo B n w) of
                     None \<Rightarrow> (False, L)
                   | Some value \<Rightarrow>
                       let sq = (if w = value then sq + 1 else 0)
                       in launch_loop B cmd n sq
                            (L\<lparr>echoed := echoed L @ [value], launch_seq := max sq (launch_seq L), launch_attempts := n\<rparr>))"
  by pat_completeness auto
termination
  by (relation "measure (\<lambda>(B, cmd, attempts, sq, L). 101 - attempts)") auto

declare launch_loop.simps [simp del]

definition knl_smp_launch_core1 :: "bootrom \<Rightarrow> UW \<Rightarrow> UW \<Rightarrow> UW \<Rightarrow> launchst \<Rightarrow> bool \<times> launchst" where
  "knl_smp_launch_core1 B vtor sp entry L =
     (let cmd = [0, 0, 1, vtor, sp, entry OR 1]; (ok, L) = launch_loop B cmd 0 0 L
      in if \<not> ok then (False, L)
         else case poll 10000000 0 (\<lambda>spin. if ready B spin then Some () else None) of
                Some _ \<Rightarrow> (True, L\<lparr>launch_online := ALL_CORE_BIT\<rparr>)
              | None \<Rightarrow> (False, L))"

text \<open>The words of the trace that the boot ROM has acknowledged in a row when the loop stands at \<open>sq\<close>.\<close>

definition acked :: "UW list \<Rightarrow> nat \<Rightarrow> launchst \<Rightarrow> bool" where
  "acked cmd sq L \<longleftrightarrow> (\<exists>A E. sent L = A @ take sq cmd \<and> echoed L = E @ take sq cmd)"

lemma launch_loop_spec:
  assumes "launch_loop B cmd attempts sq L = (ok, L')" "acked cmd sq L" "sq \<le> 6" "length cmd = 6" "length (sent L) \<le> attempts"
    "attempts \<le> 100"
  shows "(ok \<longrightarrow> acked cmd 6 L') \<and> length (sent L') \<le> 100 \<and> launch_online L' = launch_online L"
  using assms
proof (induction B cmd attempts sq L rule: launch_loop.induct)
  case (1 B cmd attempts sq L)
  show ?case
  proof (cases "sq < 6 \<and> attempts + 1 \<le> 100")
    case False
    then show ?thesis using 1(2-) by (subst (asm) (1) launch_loop.simps) (auto split: if_splits)
  next
    case True
    let ?n = "attempts + 1" and ?w = "cmd ! sq"
    obtain p L1 where p: "fifo_push ?w (room B ?n) L = (p, L1)" by (cases "fifo_push ?w (room B ?n) L")
    show ?thesis
    proof (cases "p \<and> poll 1000000 0 (echo B ?n ?w) \<noteq> None")
      case False
      then have "L' = L1 \<and> \<not> ok"
        using 1(2) True p by (subst (asm) (1) launch_loop.simps) (auto simp: Let_def split: if_splits)
      moreover have "length (sent L1) \<le> 100" "launch_online L1 = launch_online L"
        using p True 1(6) by (auto simp: fifo_push_def split: option.splits)
      ultimately show ?thesis by simp
    next
      case pt: True
      then obtain v where v: "poll 1000000 0 (echo B ?n ?w) = Some v" by auto
      have s1: "sent L1 = sent L @ [?w]" "echoed L1 = echoed L" "launch_online L1 = launch_online L"
        using p pt by (auto simp: fifo_push_def split: option.splits)
      let ?sq = "if ?w = v then sq + 1 else 0"
      let ?L2 = "L1\<lparr>echoed := echoed L1 @ [v], launch_seq := max ?sq (launch_seq L1), launch_attempts := ?n\<rparr>"
      have r: "launch_loop B cmd ?n ?sq ?L2 = (ok, L')"
        using 1(2) True p pt v by (subst (asm) (1) launch_loop.simps) (auto simp: Let_def)
      have a: "acked cmd ?sq ?L2"
      proof (cases "?w = v")
        case True
        obtain A E where "sent L = A @ take sq cmd" "echoed L = E @ take sq cmd" using 1(3) by (auto simp: acked_def)
        moreover have "take (sq + 1) cmd = take sq cmd @ [?w]"
          using \<open>sq < 6 \<and> _\<close> 1(5) by (simp add: take_Suc_conv_app_nth)
        ultimately show ?thesis using True s1 by (auto simp: acked_def)
      qed (auto simp: acked_def)
      have "(ok \<longrightarrow> acked cmd 6 L') \<and> length (sent L') \<le> 100 \<and> launch_online L' = launch_online ?L2"
        by (rule 1(1)[OF _ _ refl refl p[symmetric] _ _ v refl r a]) (use True pt 1(4-) s1 in auto)
      then show ?thesis using s1(3) by simp
    qed
  qed
qed

text \<open>
  The launch of core 1 ends after at most 100 words, whatever the boot ROM answers. When it reports success, the last six
  words sent are the launch sequence in its order, each acknowledged by its own echo with nothing in between, and only then
  is core 1 put into the mask of processors that the scheduler may use; otherwise the mask is as it was.
\<close>
theorem launch_handshake:
  assumes "knl_smp_launch_core1 B vtor sp entry L = (ok, L')" "sent L = []"
  shows "length (sent L') \<le> 100 \<and>
    (ok \<longrightarrow> (\<exists>A E. sent L' = A @ [0, 0, 1, vtor, sp, entry OR 1] \<and> echoed L' = E @ [0, 0, 1, vtor, sp, entry OR 1]) \<and>
       launch_online L' = ALL_CORE_BIT) \<and> (\<not> ok \<longrightarrow> launch_online L' = launch_online L)"
proof -
  let ?cmd = "[0, 0, 1, vtor, sp, entry OR 1]"
  obtain k L1 where r: "launch_loop B ?cmd 0 0 L = (k, L1)" by (cases "launch_loop B ?cmd 0 0 L")
  have "acked ?cmd 0 L" by (auto simp: acked_def)
  then have S: "(k \<longrightarrow> acked ?cmd 6 L1) \<and> length (sent L1) \<le> 100 \<and> launch_online L1 = launch_online L"
    using launch_loop_spec[OF r] assms(2) by simp
  then show ?thesis using assms(1) r
    by (auto simp: knl_smp_launch_core1_def acked_def split: if_splits option.splits)
qed

text \<open>A boot ROM that swallows the first word and then echoes what it gets.\<close>

definition ex_rom :: bootrom where
  "ex_rom = \<lparr>room = (\<lambda>n i. True), echo = (\<lambda>n w i. if i = 0 then None else Some (if n = 1 then 7 else w)), ready = (\<lambda>i. i = 2)\<rparr>"

definition ex_launch :: launchst where
  "ex_launch = \<lparr>sent = [], echoed = [], launch_seq = 0, launch_attempts = 0, launch_errors = 0, launch_online = 1\<rparr>"

lemma poll_now: "p i = Some v \<Longrightarrow> n \<noteq> 0 \<Longrightarrow> poll n i p = Some v"
  by (cases n) simp_all

lemma poll_later: "p i = None \<Longrightarrow> n \<noteq> 0 \<Longrightarrow> poll n i p = poll (n - 1) (Suc i) p"
  by (cases n) simp_all

lemma ex_rom_run:
  "knl_smp_launch_core1 ex_rom 0x20000000 0x20042000 0x10000400 ex_launch =
     (True, \<lparr>sent = [0, 0, 0, 1, 0x20000000, 0x20042000, 0x10000401], echoed = [7, 0, 0, 1, 0x20000000, 0x20042000, 0x10000401],
        launch_seq = 6, launch_attempts = 7, launch_errors = 0, launch_online = 3\<rparr>)"
  by (simp add: knl_smp_launch_core1_def launch_loop.simps fifo_push_def poll_now poll_later ex_rom_def ex_launch_def Let_def)

theorem launch_handshake_witness:
  "length (sent (snd (knl_smp_launch_core1 ex_rom 0x20000000 0x20042000 0x10000400 ex_launch))) \<le> 100 \<and>
   fst (knl_smp_launch_core1 ex_rom 0x20000000 0x20042000 0x10000400 ex_launch) \<and>
   launch_online (snd (knl_smp_launch_core1 ex_rom 0x20000000 0x20042000 0x10000400 ex_launch)) = 3"
proof -
  have "sent ex_launch = []" by (simp add: ex_launch_def)
  from launch_handshake[OF ex_rom_run this] show ?thesis by (simp add: ex_rom_run)
qed

end
