(* ===== verification/Fastlock.thy ===== *)
theory Fastlock
  imports Semaphore Eventflag
begin

text \<open>
  \<^verbatim>\<open>lib/libtk/fastlock.c\<close> and \<^verbatim>\<open>lib/libtk/fastmlock.c\<close>: the lock on a counter with a semaphore behind it, and
  the 32 locks on a bit pattern with an event flag behind it. The counter of the first is changed by the
  public atomics; the words of the second are read and written with only the interrupts of the own core
  masked, so the two cores interleave between the read and the write. Both locks are therefore given twice: as the function that
  a call computes when nothing comes in between (\<open>Lock\<close>, \<open>MLockTmo\<close>), and as a program counter that goes from one access of a shared
  word, or one kernel call, to the next (\<open>lock_code\<close>, \<open>mlock_code\<close>), of which the function is the undisturbed run. What the locks promise is
  stated over the program counters, in theory \<open>Fastlock_Props\<close>.
\<close>

subsection \<open>FastLock\<close>

text \<open>\<open>SetOBJNAME\<close> stores four characters in the extended information.\<close>

abbreviation (input) OBJNAME_FLOC :: UW where "OBJNAME_FLOC \<equiv> 0x434F4C46"
abbreviation (input) OBJNAME_MLOC :: UW where "OBJNAME_MLOC \<equiv> 0x434F4C4D"

record fastlock =
  fl_cnt :: UW
  fl_id :: int
  fl_name :: UW

definition Inc :: "fastlock \<Rightarrow> int \<times> fastlock" where
  "Inc l = (let c = fl_cnt l + 1 in (sint c, l\<lparr>fl_cnt := c\<rparr>))"

text \<open>\<open>atomic_dec\<close> returns the new value; the algorithm tests the old one.\<close>

definition Dec :: "fastlock \<Rightarrow> int \<times> fastlock" where
  "Dec l = (let c = fl_cnt l - 1 in (sint c + 1, l\<lparr>fl_cnt := c\<rparr>))"

definition Lock :: "nat \<Rightarrow> fastlock \<Rightarrow> kstate \<Rightarrow> fastlock \<times> kstate \<times> sysret" where
  "Lock c l s =
     (let (n, l) = Inc l
      in if n > 0 then let (s, r) = tk_wai_sem c (fl_id l) 1 TMO_FEVR s in (l, s, r) else (l, s, Ret E_OK))"

definition Unlock :: "nat \<Rightarrow> fastlock \<Rightarrow> kstate \<Rightarrow> fastlock \<times> kstate" where
  "Unlock c l s =
     (let (n, l) = Dec l
      in if n > 0 then (l, fst (tk_sig_sem c (fl_id l) 1 s)) else (l, s))"

text \<open>
  A task on its way through \<open>Lock\<close> and \<open>Unlock\<close>: \<open>F_Call\<close> in front of \<open>tk_wai_sem\<close>, \<open>F_Wait\<close> blocked inside it, \<open>F_In\<close> between the two
  calls, \<open>F_Sig\<close> in front of \<open>tk_sig_sem\<close>. The result of \<open>tk_wai_sem\<close> is not looked at.
\<close>

datatype fl_pc = F_Out | F_Call | F_Wait | F_In | F_Sig

primrec lock_code :: "nat \<Rightarrow> fl_pc \<Rightarrow> fastlock \<Rightarrow> kstate \<Rightarrow> fastlock \<times> kstate \<times> fl_pc" where
  "lock_code c F_Out l s = (let (n, l) = Inc l in (l, s, if n > 0 then F_Call else F_In))"
| "lock_code c F_Call l s =
     (case tk_wai_sem c (fl_id l) 1 TMO_FEVR s of (s, r) \<Rightarrow> (l, s, case r of Ret _ \<Rightarrow> F_In | Blocked \<Rightarrow> F_Wait))"
| "lock_code c F_Wait l s = (l, s, F_In)"
| "lock_code c F_In l s = (let (n, l) = Dec l in (l, s, if n > 0 then F_Sig else F_Out))"
| "lock_code c F_Sig l s = (l, fst (tk_sig_sem c (fl_id l) 1 s), F_Out)"

lemma Lock_code:
  "Lock c l s = (l', s', r) \<Longrightarrow>
     (case lock_code c F_Out l s of (l1, s1, p) \<Rightarrow> if p = F_In then (l1, s1, p) else lock_code c p l1 s1) =
       (l', s', case r of Ret _ \<Rightarrow> F_In | Blocked \<Rightarrow> F_Wait)"
  by (auto simp: Lock_def split: prod.splits if_splits sysret.splits)

lemma Unlock_code:
  "Unlock c l s = (l', s') \<Longrightarrow>
     (case lock_code c F_In l s of (l1, s1, p) \<Rightarrow> if p = F_Out then (l1, s1, p) else lock_code c p l1 s1) = (l', s', F_Out)"
  by (auto simp: Unlock_def split: prod.splits if_splits)

definition CreateLock :: "nat \<Rightarrow> UW \<Rightarrow> fastlock \<Rightarrow> kstate \<Rightarrow> fastlock \<times> kstate \<times> int" where
  "CreateLock c nm l s =
     (let csem = \<lparr>cs_exinf = OBJNAME_FLOC, cs_sematr = TA_TPRI, cs_isemcnt = 0, cs_maxsem = 1\<rparr>;
          (s, ercd) = tk_cre_sem c csem s
      in if ercd < E_OK then (l, s, ercd) else (l\<lparr>fl_id := ercd, fl_cnt := - 1, fl_name := nm\<rparr>, s, E_OK))"

definition DeleteLock :: "nat \<Rightarrow> fastlock \<Rightarrow> kstate \<Rightarrow> fastlock \<times> kstate" where
  "DeleteLock c l s = (let s = (if fl_id l > 0 then fst (tk_del_sem c (fl_id l) s) else s) in (l\<lparr>fl_id := 0\<rparr>, s))"

subsection \<open>FastMLock\<close>

record fastmlock =
  ml_flg :: UW
  ml_wai :: UW
  ml_id :: int
  ml_name :: UW

definition INC :: "fastmlock \<Rightarrow> fastmlock" where "INC l = l\<lparr>ml_wai := ml_wai l + 1\<rparr>"
definition DEC :: "fastmlock \<Rightarrow> fastmlock" where "DEC l = l\<lparr>ml_wai := ml_wai l - 1\<rparr>"

text \<open>The two statements of \<open>BTS\<close>: the test reads the word, the update reads it again and writes it.\<close>

definition bts_test :: "nat \<Rightarrow> fastmlock \<Rightarrow> UW" where "bts_test no l = ml_flg l AND push_bit no 1"

definition bts_store :: "nat \<Rightarrow> UW \<Rightarrow> fastmlock \<Rightarrow> fastmlock" where "bts_store no v l = l\<lparr>ml_flg := v OR push_bit no 1\<rparr>"

definition BTS :: "nat \<Rightarrow> fastmlock \<Rightarrow> bool \<times> fastmlock" where
  "BTS no l = (let b = bts_test no l; v = ml_flg l in (b \<noteq> 0, bts_store no v l))"

definition BR :: "nat \<Rightarrow> fastmlock \<Rightarrow> fastmlock" where
  "BR no l = l\<lparr>ml_flg := ml_flg l AND NOT (push_bit no 1)\<rparr>"

text \<open>
  One pass of the loop of \<open>MLockTmo\<close>: it ends the call, or it waits, and the task that wakes up with \<open>E_OK\<close> makes the
  next pass. \<open>p\<close> is the address of the local variable \<open>flg\<close>.
\<close>

datatype mpass = Pass_End ER | Pass_Wait | Pass_Again

definition mlock_pass :: "nat \<Rightarrow> nat \<Rightarrow> UW \<Rightarrow> int \<Rightarrow> fastmlock \<Rightarrow> kstate \<Rightarrow> fastmlock \<times> kstate \<times> mpass" where
  "mlock_pass c no p tmo l s =
     (let (b, l) = BTS no l
      in if \<not> b then (DEC l, s, Pass_End E_OK)
         else case tk_wai_flg c (ml_id l) (push_bit no 1) (TWF_ORW OR TWF_BITCLR) p tmo s of
                (s, Ret e) \<Rightarrow> if e < E_OK then (DEC l, s, Pass_End e) else (l, s, Pass_Again)
              | (s, Blocked) \<Rightarrow> (l, s, Pass_Wait))"

definition MLockTmo :: "nat \<Rightarrow> nat \<Rightarrow> UW \<Rightarrow> int \<Rightarrow> fastmlock \<Rightarrow> kstate \<Rightarrow> fastmlock \<times> kstate \<times> mpass" where
  "MLockTmo c no p tmo l s = mlock_pass c no p tmo (INC l) s"

definition MLock :: "nat \<Rightarrow> nat \<Rightarrow> UW \<Rightarrow> fastmlock \<Rightarrow> kstate \<Rightarrow> fastmlock \<times> kstate \<times> mpass" where
  "MLock c no p l s = MLockTmo c no p TMO_FEVR l s"

definition MUnlock :: "nat \<Rightarrow> nat \<Rightarrow> fastmlock \<Rightarrow> kstate \<Rightarrow> fastmlock \<times> kstate \<times> int" where
  "MUnlock c no l s =
     (let l = BR no l
      in if ml_wai l = 0 then (l, s, E_OK) else let (s, e) = tk_set_flg c (ml_id l) (push_bit no 1) s in (l, s, e))"

text \<open>
  The same code, one access of a shared word or one kernel call at a time. A value read and not yet written back is carried in the program
  counter: \<open>ML_IncSt v\<close> and \<open>ML_DecSt e v\<close> between the load and the store of \<open>INC\<close> and \<open>DEC\<close>, \<open>ML_Ld b\<close> between the two statements of \<open>BTS\<close>, with the
  bit \<open>b\<close> that the first found, \<open>ML_St b v\<close> between the load and the store of the second, \<open>MU_St v\<close> inside \<open>BR\<close>. \<open>ML_Blocked\<close> is a task that waits in
  \<open>tk_wai_flg\<close>; with \<open>mlock_woken\<close> it goes on with the result of that call. \<open>ML_Ret e\<close> is the return of either call.
\<close>

datatype ml_pc = ML_Inc | ML_IncSt UW | ML_Test | ML_Ld UW | ML_St UW UW | ML_Wai | ML_Blocked | ML_Dec ER | ML_DecSt ER UW | ML_Ret ER
  | MU_Br | MU_St UW | MU_Wai

definition mlock_woken :: "ER \<Rightarrow> ml_pc" where "mlock_woken e = (if e < E_OK then ML_Dec e else ML_Test)"

primrec mlock_code :: "nat \<Rightarrow> nat \<Rightarrow> UW \<Rightarrow> int \<Rightarrow> ml_pc \<Rightarrow> fastmlock \<Rightarrow> kstate \<Rightarrow> fastmlock \<times> kstate \<times> ml_pc" where
  "mlock_code c no p tmo ML_Inc l s = (l, s, ML_IncSt (ml_wai l))"
| "mlock_code c no p tmo (ML_IncSt v) l s = (l\<lparr>ml_wai := v + 1\<rparr>, s, ML_Test)"
| "mlock_code c no p tmo ML_Test l s = (l, s, ML_Ld (bts_test no l))"
| "mlock_code c no p tmo (ML_Ld b) l s = (l, s, ML_St b (ml_flg l))"
| "mlock_code c no p tmo (ML_St b v) l s = (bts_store no v l, s, if b = 0 then ML_Dec E_OK else ML_Wai)"
| "mlock_code c no p tmo ML_Wai l s =
     (case tk_wai_flg c (ml_id l) (push_bit no 1) (TWF_ORW OR TWF_BITCLR) p tmo s of
        (s, Ret e) \<Rightarrow> (l, s, mlock_woken e)
      | (s, Blocked) \<Rightarrow> (l, s, ML_Blocked))"
| "mlock_code c no p tmo ML_Blocked l s = (l, s, ML_Blocked)"
| "mlock_code c no p tmo (ML_Dec e) l s = (l, s, ML_DecSt e (ml_wai l))"
| "mlock_code c no p tmo (ML_DecSt e v) l s = (l\<lparr>ml_wai := v - 1\<rparr>, s, ML_Ret e)"
| "mlock_code c no p tmo (ML_Ret e) l s = (l, s, ML_Ret e)"
| "mlock_code c no p tmo MU_Br l s = (l, s, MU_St (ml_flg l))"
| "mlock_code c no p tmo (MU_St v) l s = (l\<lparr>ml_flg := v AND NOT (push_bit no 1)\<rparr>, s, MU_Wai)"
| "mlock_code c no p tmo MU_Wai l s =
     (if ml_wai l = 0 then (l, s, ML_Ret E_OK)
      else let (s, e) = tk_set_flg c (ml_id l) (push_bit no 1) s in (l, s, ML_Ret e))"

text \<open>The undisturbed run: at most eight steps to the return, to the wait or to the next pass of the loop.\<close>

definition mlock_next :: "nat \<Rightarrow> nat \<Rightarrow> UW \<Rightarrow> int \<Rightarrow> fastmlock \<times> kstate \<times> ml_pc \<Rightarrow> fastmlock \<times> kstate \<times> ml_pc" where
  "mlock_next c no p tmo x = (case x of (l, s, q) \<Rightarrow> mlock_code c no p tmo q l s)"

lemma mlock_next_eq [simp]: "mlock_next c no p tmo (l, s, q) = mlock_code c no p tmo q l s"
  by (simp add: mlock_next_def)

lemma MLockTmo_code:
  assumes "MLockTmo c no p tmo l s = (l', s', r)"
  shows "\<exists>n \<le> 8. (mlock_next c no p tmo ^^ n) (l, s, ML_Inc) =
    (l', s', case r of Pass_End e \<Rightarrow> ML_Ret e | Pass_Wait \<Rightarrow> ML_Blocked | Pass_Again \<Rightarrow> ML_Test)"
proof -
  define X where "X = INC l"
  have 1: "(mlock_next c no p tmo ^^ 5) (l, s, ML_Inc) =
      (bts_store no (ml_flg X) X, s, if bts_test no X = 0 then ML_Dec E_OK else ML_Wai)"
    by (simp add: numeral_eq_Suc X_def INC_def)
  have dec: "(mlock_next c no p tmo ^^ 2) (l1, s1, ML_Dec e) = (DEC l1, s1, ML_Ret e)" for l1 s1 e
    by (simp add: numeral_eq_Suc DEC_def)
  show ?thesis
  proof (cases "bts_test no X = 0")
    case True
    then have "(mlock_next c no p tmo ^^ (2 + 5)) (l, s, ML_Inc) = (DEC (bts_store no (ml_flg X) X), s, ML_Ret E_OK)"
      unfolding funpow_add comp_def by (simp only: 1 simp_thms if_True dec)
    moreover have "(l', s', r) = (DEC (bts_store no (ml_flg X) X), s, Pass_End E_OK)"
      using assms True by (simp add: MLockTmo_def mlock_pass_def BTS_def Let_def X_def[symmetric])
    ultimately show ?thesis by (intro exI[of _ "2 + 5"]) simp
  next
    case False
    let ?w = "tk_wai_flg c (ml_id X) (push_bit no 1) (TWF_ORW OR TWF_BITCLR) p tmo s"
    have i: "ml_id (bts_store no v X) = ml_id X" for v by (simp add: bts_store_def)
    have 6: "(mlock_next c no p tmo ^^ 6) (l, s, ML_Inc) =
        (case ?w of (s, Ret e) \<Rightarrow> (bts_store no (ml_flg X) X, s, mlock_woken e) | (s, Blocked) \<Rightarrow> (bts_store no (ml_flg X) X, s, ML_Blocked))"
      using funpow_add[of 1 5 "mlock_next c no p tmo"] False 1 i by simp
    obtain s2 x where w: "?w = (s2, x)" by fastforce
    have r: "(l', s', r) = (case x of Ret e \<Rightarrow> if e < E_OK then (DEC (bts_store no (ml_flg X) X), s2, Pass_End e) else (bts_store no (ml_flg X) X, s2, Pass_Again)
        | Blocked \<Rightarrow> (bts_store no (ml_flg X) X, s2, Pass_Wait))"
      using assms False w i by (simp add: MLockTmo_def mlock_pass_def BTS_def Let_def X_def[symmetric] split: sysret.splits if_splits)
    show ?thesis
    proof (cases "\<exists>e. x = Ret e \<and> e < E_OK")
      case True
      then obtain e where e: "x = Ret e" "e < E_OK" by blast
      have "(mlock_next c no p tmo ^^ (2 + 6)) (l, s, ML_Inc) = (DEC (bts_store no (ml_flg X) X), s2, ML_Ret e)"
        unfolding funpow_add using 6 w e by (simp add: mlock_woken_def dec)
      then show ?thesis using r e by (intro exI[of _ 8]) simp
    next
      case F: False
      then show ?thesis using r 6 w by (intro exI[of _ 6]) (auto simp: mlock_woken_def split: sysret.splits)
    qed
  qed
qed

lemma MUnlock_code:
  assumes "MUnlock c no l s = (l', s', e)"
  shows "(mlock_next c no p tmo ^^ 3) (l, s, MU_Br) = (l', s', ML_Ret e)"
  using assms by (auto simp: numeral_eq_Suc MUnlock_def BR_def Let_def split: if_splits prod.splits)

definition CreateMLock :: "nat \<Rightarrow> UW \<Rightarrow> fastmlock \<Rightarrow> kstate \<Rightarrow> fastmlock \<times> kstate \<times> int" where
  "CreateMLock c nm l s =
     (let cflg = \<lparr>cf_exinf = OBJNAME_MLOC, cf_flgatr = TA_TPRI OR TA_WMUL, cf_iflgptn = 0\<rparr>;
          (s, ercd) = tk_cre_flg c cflg s; l = l\<lparr>ml_id := ercd\<rparr>
      in if ercd < E_OK then (l, s, ercd) else (l\<lparr>ml_wai := 0, ml_flg := 0, ml_name := nm\<rparr>, s, E_OK))"

definition DeleteMLock :: "nat \<Rightarrow> fastmlock \<Rightarrow> kstate \<Rightarrow> fastmlock \<times> kstate \<times> int" where
  "DeleteMLock c l s =
     (if ml_id l \<le> 0 then (l, s, E_PAR)
      else let (s, ercd) = tk_del_flg c (ml_id l) s
           in if ercd < E_OK then (l, s, ercd) else (l\<lparr>ml_id := 0\<rparr>, s, E_OK))"

end
