(* ===== verification/Fastlock_Props.thy ===== *)
theory Fastlock_Props
  imports Fastlock Dispatch_Props "HOL-Library.Multiset"
begin

text \<open>
  What the locks of \<^verbatim>\<open>lib/libtk\<close> promise on two cores: the fast lock excludes as long as nobody interferes with the waits on its
  semaphore, the multi lock does not.
\<close>

subsection \<open>The semaphore behind a fast lock\<close>

text \<open>A task that runs on core \<open>c\<close>, in its task part and with dispatching enabled.\<close>

definition on_core :: "nat \<Rightarrow> nat \<Rightarrow> kstate \<Rightarrow> bool" where
  "on_core t c k \<longleftrightarrow> caller_ok c k \<and> cur c k = t \<and> \<not> in_ddsp c k"

definition lock_sem :: "int \<Rightarrow> kstate \<Rightarrow> bool" where
  "lock_sem x k \<longleftrightarrow> kwf k \<and> sem_inv k \<and> CHK_SEMID x \<and> semid (sem k (get_semcb x)) \<noteq> 0 \<and> maxsem (sem k (get_semcb x)) = 1 \<and>
     sematr (sem k (get_semcb x)) AND TA_CNT = 0"

lemma lock_semD:
  assumes "lock_sem x k"
  defines "i \<equiv> get_semcb x"
  shows "0 \<le> semcnt (sem k i)" "semcnt (sem k i) \<le> 1" "u \<in> set (que k (SemQ i)) \<Longrightarrow> need k u = 1"
    "0 < semcnt (sem k i) \<Longrightarrow> que k (SemQ i) = []" "distinct (que k (SemQ i))" "u \<in> set (que k (SemQ i)) \<Longrightarrow> u < NUM_TSKID"
proof -
  have i: "i < NUM_SEMID" "semid (sem k i) \<noteq> 0" using assms(1) get_semcb_less[of x] by (simp_all add: lock_sem_def i_def)
  moreover have "sem_inv k" using assms(1) by (simp add: lock_sem_def)
  ultimately have ok: "sem_ok k i" "sem_stable k i" by (auto simp: sem_inv_def)
  have k: "kwf k" "maxsem (sem k i) = 1" "sematr (sem k i) AND TA_CNT = 0" using assms by (simp_all add: lock_sem_def)
  show "0 \<le> semcnt (sem k i)" "semcnt (sem k i) \<le> 1" using ok(1) k(2) by (simp_all add: sem_ok_def)
  show n: "need k u = 1" if "u \<in> set (que k (SemQ i))" for u
  proof -
    have "0 < need k u" "need k u \<le> 1" using ok(1) k(2) that by (auto simp: sem_ok_def)
    then show ?thesis by simp
  qed
  show "que k (SemQ i) = []" if "0 < semcnt (sem k i)"
  proof (rule ccontr)
    assume q: "que k (SemQ i) \<noteq> []"
    then have "semcnt (sem k i) < need k (hd (que k (SemQ i)))" using ok(2) k(3) by (simp add: sem_stable_def)
    then show False using n[of "hd (que k (SemQ i))"] q that by simp
  qed
  show "distinct (que k (SemQ i))" by (rule distinct_ring[OF k(1)])
  show "u < NUM_TSKID" if "u \<in> set (que k (SemQ i))" using loc_okD(2)[OF kwfD(1)[OF k(1)] that] .
qed

lemma lock_wait_eff:
  assumes s: "lock_sem x k" and o: "on_core t c k" and r: "tk_wai_sem c x 1 TMO_FEVR k = (k', r)"
  defines "i \<equiv> get_semcb x"
  shows "t \<notin> set (que k (SemQ i)) \<and> lock_sem x k' \<and>
    (if 0 < semcnt (sem k i) then r = Ret E_OK \<and> semcnt (sem k' i) = semcnt (sem k i) - 1 \<and> que k' (SemQ i) = []
     else r = Blocked \<and> semcnt (sem k' i) = 0 \<and> set (que k' (SemQ i)) = insert t (set (que k (SemQ i))) \<and>
       length (que k' (SemQ i)) = Suc (length (que k (SemQ i))))"
proof -
  have d: "kwf k" "sem_inv k" "CHK_SEMID x" "semid (sem k i) \<noteq> 0" "maxsem (sem k i) = 1" "sematr (sem k i) AND TA_CNT = 0"
    using s by (simp_all add: lock_sem_def i_def)
  note D = lock_semD[OF s, folded i_def]
  have ca: "caller_ok c k" "cur c k = t" "\<not> in_ddsp c k" using o by (simp_all add: on_core_def)
  have i: "i < NUM_SEMID" using get_semcb_less[OF d(3)] by (simp add: i_def)
  have fresh: "t \<notin> set (que k (SemQ i))" using caller_not_waiting[OF d(1) ca(1), of "SemQ i"] ca(2) by simp
  obtain k1 r1 where w: "wai_sem_cs c i 1 TMO_FEVR k = (k1, r1)" by fastforce
  then have k': "k' = END_CRITICAL_SECTION c k1" "r = r1" using r d(3) ca(3) by (auto simp: tk_wai_sem_def i_def)
  note inv = wai_sem_inv[OF d(1,2) ca(1) i _ w]
  have sel: "kwf k' \<and> sem_inv k' \<and> sem k' = sem k1 \<and> que k' = que k1" using inv by (simp add: k')
  show ?thesis
  proof (cases "0 < semcnt (sem k i)")
    case True
    then have q: "que k (SemQ i) = []" using D(4) by simp
    then have "knl_gcb_top_of_wait_queue (SemQ i) (sematr (sem k i)) (cur c k) k = cur c k"
      by (simp add: knl_gcb_top_of_wait_queue_def)
    then have e: "k1 = upd_sem i (\<lambda>S. S\<lparr>semcnt := semcnt S - 1\<rparr>) k" "r1 = Ret E_OK"
      using w d(4,5) True by (auto simp: wai_sem_cs_def Let_def)
    then show ?thesis using sel d q fresh True k' by (simp add: lock_sem_def i_def)
  next
    case False
    then have z: "semcnt (sem k i) = 0" using D(1) by simp
    let ?S = "sem k i"
    define w' where "w' = (if sematr ?S AND TA_TPRI \<noteq> 0 then Wspec_sem_tpri else Wspec_sem_tfifo)"
    define f where "f = (winfo (tcb k t))\<lparr>sem_cnt := 1\<rparr>"
    let ?k0 = "k\<lparr>tcb := (tcb k)(t := (tcb k t)\<lparr>wspec := w', wercd := Some t, winfo := f\<rparr>)\<rparr>"
    have e: "k1 = knl_gcb_make_wait c (SemQ i) (semid ?S) (sematr ?S) TMO_FEVR ?k0" "r1 = Blocked"
      using w d(4,5) z ca(2) by (auto simp: wai_sem_cs_def Let_def w'_def f_def)
    have "semid ?S = int i + 1" using d(2,4) i by (auto simp: sem_inv_def sem_free_def)
    then have wr: "wait_ring w' (nat (semid ?S - 1)) = Some (SemQ i)" by (simp add: w'_def)
    note ow = obj_wait[OF d(1) ca(1) ca(2)[symmetric] refl refl wr e(1)]
    have "que k1 (SemQ i) = (if sematr ?S AND TA_TPRI \<noteq> 0
        then insert_before (\<lambda>u. priority (tcb k u) > priority (tcb k t)) t (que k (SemQ i)) else que k (SemQ i) @ [t])"
      using ow(3) by simp
    then have q: "set (que k1 (SemQ i)) = insert t (set (que k (SemQ i)))" by auto
    have "distinct (que k1 (SemQ i))" using distinct_ring[of k1 "SemQ i"] inv(1) by simp
    then have "length (que k1 (SemQ i)) = card (insert t (set (que k (SemQ i))))" using q distinct_card by metis
    also have "\<dots> = Suc (length (que k (SemQ i)))" using fresh distinct_card[OF D(5)] by simp
    finally have l: "length (que k1 (SemQ i)) = Suc (length (que k (SemQ i)))" .
    have "sem k1 = sem k" by (simp add: e(1))
    then show ?thesis using sel d fresh z k' e(2) q l by (simp add: lock_sem_def i_def)
  qed
qed

lemma unlock_signal_eff:
  assumes s: "lock_sem x k" and z: "semcnt (sem k (get_semcb x)) = 0" and k': "k' = fst (tk_sig_sem c x 1 k)"
  defines "i \<equiv> get_semcb x"
  shows "lock_sem x k' \<and>
    (if que k (SemQ i) = [] then semcnt (sem k' i) = 1 \<and> que k' (SemQ i) = []
     else semcnt (sem k' i) = 0 \<and> que k' (SemQ i) = tl (que k (SemQ i)))"
proof -
  have d: "kwf k" "sem_inv k" "CHK_SEMID x" "semid (sem k i) \<noteq> 0" "maxsem (sem k i) = 1" "sematr (sem k i) AND TA_CNT = 0"
    using s by (simp_all add: lock_sem_def i_def)
  note D = lock_semD[OF s, folded i_def]
  let ?Q = "que k (SemQ i)"
  define R where "R = (case ?Q of [] \<Rightarrow> [] | u # _ \<Rightarrow> [u])"
  define n :: int where "n = (if ?Q = [] then 1 else 0)"
  have g: "(R, n) = grant (sematr (sem k i) AND TA_CNT \<noteq> 0) (need k) (semcnt (sem k i) + 1) ?Q"
  proof (cases ?Q)
    case (Cons u q)
    have "need k u = 1" "\<forall>v \<in> set q. 0 < need k v" using D(3) Cons by auto
    then show ?thesis using z Cons grant_none[of 0 q "need k" False] by (simp add: R_def n_def i_def d(6)[unfolded i_def])
  qed (simp add: R_def n_def z[folded i_def])
  have b: "1 \<le> maxsem (sem k (get_semcb x)) - semcnt (sem k (get_semcb x))" using z d(5) by (simp add: i_def)
  note E = sig_sem_effect[OF d(1-3) d(4)[unfolded i_def] _ b i_def[THEN meta_eq_to_obj_eq] g, of c, folded k']
  have q: "que k' (SemQ i) = filter (\<lambda>t. t \<notin> set R) ?Q" using rel_eff_state(4)[OF E(2), of "SemQ i"] by simp
  have "que k' (SemQ i) = tl ?Q"
  proof (cases ?Q)
    case (Cons u q')
    then have "u \<notin> set q'" using D(5) by simp
    then have "filter (\<lambda>t. t \<noteq> u) q' = q'" by (auto simp: filter_id_conv)
    then show ?thesis using q Cons by (simp add: R_def)
  qed (simp add: q)
  then show ?thesis using E(3,4) rel_eff_state(1)[OF E(2)] d by (auto simp: lock_sem_def n_def i_def)
qed

subsection \<open>Any number of tasks in a fast lock\<close>

text \<open>
  Every task is at a place of the code of \<open>Lock\<close> and \<open>Unlock\<close>, which it calls in turn, on whatever core runs it. A task that is not blocked takes the next step
  of the code (\<open>code\<close>); one whose wait has ended, and which is therefore no longer in the semaphore's queue, returns from it (\<open>woken\<close>). Between these
  steps the kernel does anything (\<open>others\<close>) that keeps its invariants, does not touch the lock's semaphore, and neither
  ends nor starts a wait on it: the queue may be reordered when priorities change.
\<close>

record flsys =
  flk :: fastlock
  fk :: kstate
  fpcs :: "fl_pc list"

abbreviation flq :: "flsys \<Rightarrow> nat list" where "flq s \<equiv> que (fk s) (SemQ (get_semcb (fl_id (flk s))))"
abbreviation flsem :: "flsys \<Rightarrow> semcb" where "flsem s \<equiv> sem (fk s) (get_semcb (fl_id (flk s)))"

inductive fl_step :: "flsys \<Rightarrow> flsys \<Rightarrow> bool" where
  code: "t < NUM_TSKID \<Longrightarrow> fpcs s ! t \<noteq> F_Wait \<Longrightarrow> on_core t c (fk s) \<Longrightarrow> lock_code c (fpcs s ! t) (flk s) (fk s) = (l, k, p) \<Longrightarrow>
    fl_step s \<lparr>flk = l, fk = k, fpcs = (fpcs s)[t := p]\<rparr>"
| woken: "t < NUM_TSKID \<Longrightarrow> fpcs s ! t = F_Wait \<Longrightarrow> t \<notin> set (flq s) \<Longrightarrow> lock_code c F_Wait (flk s) (fk s) = (l, k, p) \<Longrightarrow>
    fl_step s \<lparr>flk = l, fk = k, fpcs = (fpcs s)[t := p]\<rparr>"
| others: "kwf k \<Longrightarrow> sem_inv k \<Longrightarrow> i = get_semcb (fl_id (flk s)) \<Longrightarrow> sem k i = sem (fk s) i \<Longrightarrow>
    set (que k (SemQ i)) = set (que (fk s) (SemQ i)) \<Longrightarrow> fl_step s (s\<lparr>fk := k\<rparr>)"

inductive fl_reach :: "flsys \<Rightarrow> bool" where
  start: "kwf k \<Longrightarrow> sem_inv k \<Longrightarrow> CreateLock c nm l k = (l', k', E_OK) \<Longrightarrow>
    fl_reach \<lparr>flk = l', fk = k', fpcs = replicate NUM_TSKID F_Out\<rparr>"
| step: "fl_reach s \<Longrightarrow> fl_step s t \<Longrightarrow> fl_reach t"

text \<open>
  \<open>users\<close> counts the tasks that are in the lock or want it. The tasks in the lock or about to signal, those whose wait has been granted
  and the count of the semaphore are together the one permission that exists while there are users.
\<close>

definition at_pc :: "fl_pc \<Rightarrow> flsys \<Rightarrow> nat" where "at_pc p s = count (mset (fpcs s)) p"
definition users :: "flsys \<Rightarrow> nat" where "users s = at_pc F_Call s + at_pc F_Wait s + at_pc F_In s"

definition fl_ok :: "flsys \<Rightarrow> bool" where
  "fl_ok s \<longleftrightarrow> length (fpcs s) = NUM_TSKID \<and> lock_sem (fl_id (flk s)) (fk s) \<and> fl_cnt (flk s) = of_int (int (users s) - 1) \<and>
     (\<forall>u \<in> set (flq s). fpcs s ! u = F_Wait) \<and>
     int (at_pc F_In s + at_pc F_Sig s + at_pc F_Wait s) + semcnt (flsem s) = int (length (flq s)) + (if users s = 0 then 0 else 1)"

lemma at_pc_upd:
  assumes "i < length (fpcs s)" "fpcs s ! i = p" "p \<noteq> q"
  shows "at_pc r \<lparr>flk = l, fk = k, fpcs = (fpcs s)[i := q]\<rparr> = (if r = q then at_pc r s + 1 else if r = p then at_pc r s - 1 else at_pc r s)"
    "at_pc p s > 0"
  using assms by (auto simp: at_pc_def mset_update)

lemma count_positions: "count (mset xs) p = card {i. i < length xs \<and> xs ! i = p}"
proof -
  have "count (mset xs) p = length (filter (\<lambda>x. x = p) xs)"
    by (induction xs) auto
  then show ?thesis by (simp add: length_filter_conv_card)
qed

lemma at_pc_bounds: "users s + at_pc F_Sig s \<le> length (fpcs s)"
proof -
  have f: "filter_mset (\<lambda>x. x = p) (mset (fpcs s)) = replicate_mset (at_pc p s) p" for p
    by (simp add: at_pc_def filter_eq_replicate_mset)
  have "replicate_mset (at_pc F_Call s) F_Call + replicate_mset (at_pc F_Wait s) F_Wait + replicate_mset (at_pc F_In s) F_In +
      replicate_mset (at_pc F_Sig s) F_Sig \<subseteq># mset (fpcs s)"
    by (intro mset_subset_eqI) (auto simp: at_pc_def)
  from size_mset_mono[OF this] show ?thesis by (simp add: users_def)
qed

lemma flq_waits:
  assumes "lock_sem (fl_id (flk s)) (fk s)" "\<forall>u \<in> set (flq s). fpcs s ! u = F_Wait" "length (fpcs s) = NUM_TSKID"
  shows "length (flq s) \<le> at_pc F_Wait s"
proof -
  have "length (flq s) = card (set (flq s))" using lock_semD(5)[OF assms(1)] by (simp add: distinct_card)
  also have "\<dots> \<le> card {i. i < length (fpcs s) \<and> fpcs s ! i = F_Wait}"
    using assms(2,3) lock_semD(6)[OF assms(1)] by (intro card_mono) auto
  finally show ?thesis by (simp add: at_pc_def count_positions)
qed

lemma sint_of_count:
  assumes "- 1 \<le> k" "k < 2 ^ 31"
  shows "sint (of_int k :: UW) = k"
proof -
  have "sint (word_of_int k :: UW) = signed_take_bit 31 k" by (simp add: sint_sbintrunc')
  also have "\<dots> = k" using assms by (intro signed_take_bit_int_eq_self) auto
  finally show ?thesis by simp
qed

lemma create_lock_ok:
  assumes "kwf k" "sem_inv k" "CreateLock c nm l k = (l', k', E_OK)"
  shows "lock_sem (fl_id l') k' \<and> fl_cnt l' = - 1 \<and> semcnt (sem k' (get_semcb (fl_id l'))) = 0 \<and> que k' (SemQ (get_semcb (fl_id l'))) = []"
proof -
  let ?pk = "\<lparr>cs_exinf = OBJNAME_FLOC, cs_sematr = TA_TPRI, cs_isemcnt = 0, cs_maxsem = 1\<rparr>"
  have inv: "kwf (fst (tk_cre_sem c ?pk k))" "sem_inv (fst (tk_cre_sem c ?pk k))" using cre_sem_inv[OF assms(1,2), of c ?pk] by simp_all
  have E: "(E_LIMIT :: int) < 0" by simp
  have F: "free_sem k \<noteq> []"
  proof
    assume "free_sem k = []"
    then have "snd (tk_cre_sem c ?pk k) = E_LIMIT" by (simp add: tk_cre_sem_def)
    then show False using assms(3) by (auto simp: CreateLock_def case_prod_unfold Let_def split: if_splits)
  qed
  then obtain i rest where f: "free_sem k = i # rest" by (cases "free_sem k") auto
  have i: "i < NUM_SEMID" "semid (sem k i) = 0" "que k (SemQ i) = []" using assms(2) f by (auto simp: sem_inv_def sem_free_def)
  let ?k1 = "upd_sem i (\<lambda>_. \<lparr>semid = int i + 1, sem_exinf = OBJNAME_FLOC, sematr = TA_TPRI, semcnt = 0, maxsem = 1\<rparr>)
                  (upd_que (\<lambda>Q. Q(SemQ i := [])) (k\<lparr>free_sem := rest\<rparr>))"
  have cr: "tk_cre_sem c ?pk k = (END_CRITICAL_SECTION c ?k1, int i + 1)" by (simp add: tk_cre_sem_def f Let_def)
  have l: "l' = l\<lparr>fl_id := int i + 1, fl_cnt := - 1, fl_name := nm\<rparr>" "k' = END_CRITICAL_SECTION c ?k1"
    using assms(3) cr by (auto simp: CreateLock_def Let_def)
  show ?thesis using inv i(1) cr by (simp add: l lock_sem_def CHK_SEMID_def get_semcb_def)
qed

lemma fl_start_ok:
  assumes "kwf k" "sem_inv k" "CreateLock c nm l k = (l', k', E_OK)"
  shows "fl_ok \<lparr>flk = l', fk = k', fpcs = replicate NUM_TSKID F_Out\<rparr>"
  using create_lock_ok[OF assms] by (simp add: fl_ok_def users_def at_pc_def)

text \<open>What a step of the code does to the counts.\<close>

lemma fl_code_ok:
  assumes ok: "fl_ok s" and t: "t < NUM_TSKID" "fpcs s ! t \<noteq> F_Wait" and o: "on_core t c (fk s)"
    and r: "lock_code c (fpcs s ! t) (flk s) (fk s) = (l, k, p)"
  shows "fl_ok \<lparr>flk = l, fk = k, fpcs = (fpcs s)[t := p]\<rparr>"
proof -
  let ?u = "\<lparr>flk = l, fk = k, fpcs = (fpcs s)[t := p]\<rparr>" and ?i = "get_semcb (fl_id (flk s))"
  have len: "length (fpcs s) = NUM_TSKID" and ls: "lock_sem (fl_id (flk s)) (fk s)" and cn: "fl_cnt (flk s) = of_int (int (users s) - 1)"
    and wq: "\<forall>u \<in> set (flq s). fpcs s ! u = F_Wait"
    and ps: "int (at_pc F_In s + at_pc F_Sig s + at_pc F_Wait s) + semcnt (flsem s) = int (length (flq s)) + (if users s = 0 then 0 else 1)"
    using ok by (simp_all add: fl_ok_def)
  have tl: "t < length (fpcs s)" using t(1) len by simp
  have U: "users s \<le> NUM_TSKID" using at_pc_bounds[of s] len by simp
  have Wl: "length (flq s) \<le> at_pc F_Wait s" by (rule flq_waits[OF ls wq len])
  have wq': "fpcs ?u ! u = F_Wait" if "u \<in> set (flq s)" for u
    using wq that t(2) by (cases "u = t") auto
  note D = lock_semD[OF ls]
  note P1 = at_pc_upd(1)[OF tl refl, where q = p and l = l and k = k] and P2 = at_pc_upd(2)[OF tl refl, where q = p]
  show ?thesis
  proof (cases "fpcs s ! t")
    case F_Out
    have l: "l = (flk s)\<lparr>fl_cnt := fl_cnt (flk s) + 1\<rparr>" "k = fk s" "p = (if sint (fl_cnt (flk s) + 1) > 0 then F_Call else F_In)"
      using r by (simp_all add: F_Out Inc_def Let_def)
    have c: "fl_cnt l = of_int (int (users s))" using cn by (simp add: l)
    have "sint (fl_cnt (flk s) + 1) = int (users s)" using sint_of_count[of "int (users s)"] U cn by (simp add: size_defs)
    then have p: "p = (if users s = 0 then F_In else F_Call)" by (simp add: l(3))
    have Q: "at_pc r ?u = (if r = p then at_pc r s + 1 else if r = F_Out then at_pc r s - 1 else at_pc r s)" for r
      using P1[where r = r] p F_Out by auto
    have "users ?u = users s + 1" using Q p by (simp add: users_def)
    then show ?thesis using ls c len wq' ps Q p by (auto simp: fl_ok_def l(1,2) users_def)
  next
    case F_Call
    obtain x where w: "tk_wai_sem c (fl_id (flk s)) 1 TMO_FEVR (fk s) = (k, x)" and l: "l = flk s" "p = (case x of Ret _ \<Rightarrow> F_In | Blocked \<Rightarrow> F_Wait)"
      using r F_Call by (auto split: prod.splits)
    note E = lock_wait_eff[OF ls o w]
    have u0: "users s \<noteq> 0" using P2 F_Call l(2) by (auto simp: users_def split: sysret.splits)
    show ?thesis
    proof (cases "0 < semcnt (flsem s)")
      case True
      then have x: "p = F_In" "semcnt (sem k ?i) = semcnt (flsem s) - 1" "que k (SemQ ?i) = []" "lock_sem (fl_id (flk s)) k" "flq s = []"
        using E l(2) D(4) by auto
      have Q: "at_pc r ?u = (if r = F_In then at_pc r s + 1 else if r = F_Call then at_pc r s - 1 else at_pc r s)" for r
        using P1[where r = r] x(1) F_Call by simp
      have "users ?u = users s" using Q P2 F_Call x(1) by (simp add: users_def)
      then show ?thesis using cn len ps Q x u0 by (simp add: fl_ok_def l(1))
    next
      case False
      then have x: "p = F_Wait" "semcnt (sem k ?i) = 0" "set (que k (SemQ ?i)) = insert t (set (flq s))"
        "length (que k (SemQ ?i)) = Suc (length (flq s))" "lock_sem (fl_id (flk s)) k"
        using E l(2) by auto
      have z: "semcnt (flsem s) = 0" using False D(1) by simp
      have Q: "at_pc r ?u = (if r = F_Wait then at_pc r s + 1 else if r = F_Call then at_pc r s - 1 else at_pc r s)" for r
        using P1[where r = r] x(1) F_Call by simp
      have us: "users ?u = users s" using Q P2 F_Call x(1) by (simp add: users_def)
      have "\<forall>u \<in> set (que k (SemQ ?i)). fpcs ?u ! u = F_Wait" using wq' x(1,3) tl by auto
      then show ?thesis using cn len ps Q x z u0 us by (simp add: fl_ok_def l(1))
    qed
  next
    case F_In
    have l: "l = (flk s)\<lparr>fl_cnt := fl_cnt (flk s) - 1\<rparr>" "k = fk s" "p = (if sint (fl_cnt (flk s) - 1) + 1 > 0 then F_Sig else F_Out)"
      using r by (simp_all add: F_In Dec_def Let_def)
    have i: "at_pc F_In s > 0" using P2 F_In l(3) by (auto split: if_splits)
    have c: "fl_cnt l = of_int (int (users s) - 2)" using cn by (simp add: l)
    have u1: "users s \<ge> 1" using i by (simp add: users_def)
    then have "sint (of_int (int (users s) - 2) :: UW) = int (users s) - 2"
      using U by (intro sint_of_count) (simp_all add: size_defs)
    moreover have "fl_cnt (flk s) - 1 = of_int (int (users s) - 2)" using cn by simp
    ultimately have "sint (fl_cnt (flk s) - 1) = int (users s) - 2" by (simp only:)
    then have p: "p = (if users s = 1 then F_Out else F_Sig)" using u1 by (auto simp: l(3))
    have Q: "at_pc r ?u = (if r = p then at_pc r s + 1 else if r = F_In then at_pc r s - 1 else at_pc r s)" for r
      using P1[where r = r] p F_In by auto
    have us: "users ?u = users s - 1" using Q p i by (simp add: users_def)
    have u0: "users s \<noteq> 0" using i by (simp add: users_def)
    show ?thesis
    proof (cases "users s = 1")
      case True
      then have "at_pc F_Wait s = 0" "at_pc F_In s = 1" using i by (simp_all add: users_def)
      moreover from this have "at_pc F_Sig s = 0" "semcnt (flsem s) = 0" using ps True D(1) Wl by auto
      ultimately show ?thesis using ls c len wq' ps Q p us True Wl by (simp add: fl_ok_def l(1,2))
    next
      case False
      then show ?thesis using ls c len wq' ps Q p us i u0 by (simp add: fl_ok_def l(1,2) of_nat_diff)
    qed
  next
    case F_Sig
    have l: "l = flk s" "k = fst (tk_sig_sem c (fl_id (flk s)) 1 (fk s))" "p = F_Out" using r unfolding F_Sig by auto
    have g: "at_pc F_Sig s > 0" using P2 F_Sig l(3) by simp
    have z: "semcnt (flsem s) = 0" using ps g Wl D(1) by (auto split: if_splits)
    note E = unlock_signal_eff[OF ls z l(2)]
    have Q: "at_pc r ?u = (if r = F_Out then at_pc r s + 1 else if r = F_Sig then at_pc r s - 1 else at_pc r s)" for r
      using P1[where r = r] l(3) F_Sig by simp
    have us: "users ?u = users s" using Q by (simp add: users_def)
    show ?thesis
    proof (cases "flq s = []")
      case True
      then have x: "lock_sem (fl_id (flk s)) k" "semcnt (sem k ?i) = 1" "que k (SemQ ?i) = []" using E by auto
      show ?thesis using cn len ps Q x z us g True by (simp add: fl_ok_def l(1))
    next
      case False
      then have x: "lock_sem (fl_id (flk s)) k" "semcnt (sem k ?i) = 0" "que k (SemQ ?i) = tl (flq s)" using E by auto
      have q: "Suc (length (que k (SemQ ?i))) = length (flq s)" using False x(3) by (cases "flq s") simp_all
      have "\<forall>u \<in> set (que k (SemQ ?i)). fpcs ?u ! u = F_Wait" using wq' x(3) False by (auto dest: list.set_sel(2))
      then show ?thesis using cn len ps Q x(1,2) z us g q by (simp add: fl_ok_def l(1))
    qed
  qed (use t(2) in simp)
qed

lemma fl_step_ok:
  assumes "fl_step s u" "fl_ok s"
  shows "fl_ok u"
  using assms(1)
proof (cases rule: fl_step.cases)
  case (code t c l k p)
  then show ?thesis using fl_code_ok[OF assms(2)] by simp
next
  case (woken t c l k p)
  have l: "l = flk s" "k = fk s" "p = F_In" using woken(5) by simp_all
  have len: "length (fpcs s) = NUM_TSKID" using assms(2) by (simp add: fl_ok_def)
  have "t < length (fpcs s)" using woken(2) len by simp
  note P = at_pc_upd(1)[OF this woken(3), where q = F_In and l = l and k = k, simplified]
    and P2 = at_pc_upd(2)[OF this woken(3), where q = F_In, simplified]
  have us: "users u = users s" using P P2 by (simp add: woken(1) l users_def)
  have "\<forall>v \<in> set (flq s). (fpcs s)[t := F_In] ! v = F_Wait"
  proof
    fix v assume "v \<in> set (flq s)"
    then have "v \<noteq> t" "fpcs s ! v = F_Wait" using woken(4) assms(2) by (auto simp: fl_ok_def)
    then show "(fpcs s)[t := F_In] ! v = F_Wait" by simp
  qed
  then show ?thesis using assms(2) P P2 us len by (simp add: fl_ok_def woken(1) l)
next
  case (others k i)
  have at: "at_pc q u = at_pc q s" for q by (simp add: others(1) at_pc_def)
  have len: "length (que k (SemQ i)) = length (que (fk s) (SemQ i))"
    using distinct_card[OF distinct_ring[OF others(2), of "SemQ i"]] others(6) lock_semD(5)[of "fl_id (flk s)" "fk s"] assms(2) others(4)
    by (simp add: fl_ok_def distinct_card)
  have "lock_sem (fl_id (flk s)) k" using assms(2) others by (auto simp: fl_ok_def lock_sem_def)
  then show ?thesis using assms(2) others(4-6) at len by (simp add: fl_ok_def others(1) users_def)
qed

lemma fl_reach_ok: "fl_reach s \<Longrightarrow> fl_ok s"
  by (induction rule: fl_reach.induct) (blast intro: fl_start_ok fl_step_ok)+

lemma at_pc_unique:
  assumes "at_pc p s \<le> 1" "i < length (fpcs s)" "j < length (fpcs s)" "fpcs s ! i = p" "fpcs s ! j = p"
  shows "i = j"
proof -
  have "card {i. i < length (fpcs s) \<and> fpcs s ! i = p} \<le> 1" using assms(1) by (simp add: at_pc_def count_positions)
  then show ?thesis using assms(2-) card_le_Suc0_iff_eq[of "{i. i < length (fpcs s) \<and> fpcs s ! i = p}"] by auto
qed

lemma at_pc_member: "p \<in> set (fpcs s) \<longleftrightarrow> at_pc p s > 0"
  by (simp add: at_pc_def)

text \<open>
  C35. FastLock excludes. After \<open>CreateLock\<close> has returned \<open>E_OK\<close>, let the tasks of the system call \<open>Lock\<close> and \<open>Unlock\<close> in turn on both cores, with their steps
  (\<open>Inc\<close>, \<open>tk_wai_sem\<close>, \<open>Dec\<close>, \<open>tk_sig_sem\<close>) and any other activity of the kernel interleaved in any way. Then at most one task is between \<open>Lock\<close> and \<open>Unlock\<close>, and the
  lock is not lost: while a task waits in the semaphore's queue or is about to call \<open>tk_wai_sem\<close>, some task is in the lock or about to signal, or has been granted its
  wait, or the semaphore is signalled.
  Assumed, because \<open>Lock\<close> ignores the result of its wait: the calls are made by tasks where waiting is allowed, and the other activity leaves
  the semaphore alone; in particular nobody ends one of these waits with \<open>tk_rel_wai\<close>, terminates a waiting task or deletes the semaphore.
\<close>
theorem fastlock_exclusive:
  assumes "fl_reach s" "i < NUM_TSKID" "j < NUM_TSKID"
  shows "(fpcs s ! i = F_In \<and> fpcs s ! j = F_In \<longrightarrow> i = j) \<and>
    (i \<in> set (flq s) \<or> fpcs s ! i = F_Call \<longrightarrow>
      F_In \<in> set (fpcs s) \<or> F_Sig \<in> set (fpcs s) \<or> (\<exists>t<NUM_TSKID. fpcs s ! t = F_Wait \<and> t \<notin> set (flq s)) \<or> semcnt (flsem s) > 0)"
proof -
  have ok: "length (fpcs s) = NUM_TSKID" "lock_sem (fl_id (flk s)) (fk s)" "\<forall>u \<in> set (flq s). fpcs s ! u = F_Wait"
    "int (at_pc F_In s + at_pc F_Sig s + at_pc F_Wait s) + semcnt (flsem s) = int (length (flq s)) + (if users s = 0 then 0 else 1)"
    using fl_reach_ok[OF assms(1)] by (simp_all add: fl_ok_def)
  have w: "length (flq s) \<le> at_pc F_Wait s" by (rule flq_waits[OF ok(2,3,1)])
  have "at_pc F_In s \<le> 1" using ok(4) w lock_semD(1)[OF ok(2)] by (auto split: if_splits)
  then have 1: "fpcs s ! i = F_In \<and> fpcs s ! j = F_In \<longrightarrow> i = j" using at_pc_unique[of F_In s i j] assms(2,3) ok(1) by auto
  have 2: "F_In \<in> set (fpcs s) \<or> F_Sig \<in> set (fpcs s) \<or> (\<exists>t<NUM_TSKID. fpcs s ! t = F_Wait \<and> t \<notin> set (flq s)) \<or> semcnt (flsem s) > 0"
    if "i \<in> set (flq s) \<or> fpcs s ! i = F_Call"
  proof (rule ccontr)
    assume n: "\<not> ?thesis"
    have "fpcs s ! i = F_Wait \<or> fpcs s ! i = F_Call" using that ok(3) by auto
    moreover have "fpcs s ! i \<in> set (fpcs s)" using assms(2) ok(1) by simp
    ultimately have "at_pc F_Wait s > 0 \<or> at_pc F_Call s > 0" by (auto simp: at_pc_member[symmetric])
    then have "users s \<noteq> 0" by (auto simp: users_def)
    moreover have "at_pc F_In s = 0" "at_pc F_Sig s = 0" using n by (simp_all add: at_pc_member)
    moreover have "{t. t < length (fpcs s) \<and> fpcs s ! t = F_Wait} \<subseteq> set (flq s)" using n ok(1) by auto
    then have "at_pc F_Wait s \<le> length (flq s)"
      unfolding at_pc_def count_positions using card_mono[of "set (flq s)"] card_length[of "flq s"] by (meson List.finite_set le_trans)
    ultimately show False using ok(4) n by auto
  qed
  show ?thesis using 1 2 by blast
qed

text \<open>Task 0 on core 0 has the lock, task 2 on core 1 waits for it.\<close>

definition ex_two :: kstate where
  "ex_two = ex_race\<lparr>smp := (smp ex_race)\<lparr>ctxtsk := (ctxtsk (smp ex_race))(1 := Some 2)\<rparr>\<rparr>"

lemma ex_two_ok: "kwf ex_two" "sem_inv ex_two" "on_core 0 0 ex_two" "on_core 2 1 ex_two"
proof -
  show "kwf ex_two"
    using kwfD[OF kwf_ex_race] by (auto simp: ex_two_def kwf_def smp_excl_def smp_aff_def sched_ok_def less_cores ex_race_def ex_smp_def ex_tcb_def ex_run_def)
  show "sem_inv ex_two" by (auto simp: sem_inv_def sem_free_def ex_two_def ex_race_def ex_state_def)
  show "on_core 0 0 ex_two" "on_core 2 1 ex_two"
    by (simp_all add: on_core_def caller_ok_def ex_two_def ex_race_def ex_smp_def ex_run_def ex_tcb_def in_ddsp_def in_indp_def
        knl_isTaskIndependent_def size_defs less_cores)
qed

definition ex_fl :: fastlock where "ex_fl = \<lparr>fl_cnt = 0, fl_id = 0, fl_name = 0\<rparr>"

lemma ex_locked: "\<exists>s. fl_reach s \<and> fpcs s ! 0 = F_In \<and> fpcs s ! 2 = F_Wait \<and> 2 \<in> set (flq s)"
proof -
  obtain l k where cr: "CreateLock 0 0 ex_fl ex_two = (l, k, E_OK)" "smp k = smp ex_two" "tcb k = tcb ex_two" "fl_cnt l = - 1"
    by (simp add: CreateLock_def tk_cre_sem_def ex_two_def ex_race_def ex_state_def size_defs Let_def upt_rec
        END_CRITICAL_SECTION_def end_cs_def ex_smp_def)
  have o: "on_core 0 0 k" "on_core 2 1 k"
    using ex_two_ok(3,4) cr by (simp_all add: on_core_def caller_ok_def in_ddsp_def in_indp_def knl_isTaskIndependent_def)
  let ?s0 = "\<lparr>flk = l, fk = k, fpcs = replicate NUM_TSKID F_Out\<rparr>"
  have r0: "fl_reach ?s0" by (rule fl_reach.start[OF ex_two_ok(1,2) cr(1)])
  define s1 where "s1 = \<lparr>flk = l\<lparr>fl_cnt := 0\<rparr>, fk = k, fpcs = (replicate NUM_TSKID F_Out)[0 := F_In]\<rparr>"
  have "fl_step ?s0 s1"
    using fl_step.code[of 0 ?s0 0 "l\<lparr>fl_cnt := 0\<rparr>" k F_In] o(1) cr(4) by (simp add: s1_def Inc_def size_defs)
  then have r1: "fl_reach s1" by (rule fl_reach.step[OF r0])
  define s2 where "s2 = \<lparr>flk = l\<lparr>fl_cnt := 1\<rparr>, fk = k, fpcs = (fpcs s1)[2 := F_Call]\<rparr>"
  have "fl_step s1 s2"
    using fl_step.code[of 2 s1 1 "l\<lparr>fl_cnt := 1\<rparr>" k F_Call] o(2) by (simp add: s1_def s2_def Inc_def size_defs)
  then have r2: "fl_reach s2" by (rule fl_reach.step[OF r1])
  have f2: "fpcs s2 ! 2 = F_Call" "flk s2 = l\<lparr>fl_cnt := 1\<rparr>" "fk s2 = k" "fpcs s2 ! 0 = F_In" "length (fpcs s2) = NUM_TSKID"
    by (simp_all add: s2_def s1_def size_defs)
  obtain k3 r where w: "tk_wai_sem 1 (fl_id l) 1 TMO_FEVR k = (k3, r)" by fastforce
  have ls: "lock_sem (fl_id l) k" "semcnt (sem k (get_semcb (fl_id l))) = 0" using create_lock_ok[OF ex_two_ok(1,2) cr(1)] by simp_all
  have x: "r = Blocked" "2 \<in> set (que k3 (SemQ (get_semcb (fl_id l))))" using lock_wait_eff[OF ls(1) o(2) w] ls(2) by simp_all
  define s3 where "s3 = \<lparr>flk = l\<lparr>fl_cnt := 1\<rparr>, fk = k3, fpcs = (fpcs s2)[2 := F_Wait]\<rparr>"
  have "fl_step s2 s3"
    using fl_step.code[of 2 s2 1 "l\<lparr>fl_cnt := 1\<rparr>" k3 F_Wait] o(2) f2 w x(1) by (simp add: s3_def size_defs)
  then have "fl_reach s3" by (rule fl_reach.step[OF r2])
  moreover have "fpcs s3 ! 0 = F_In" "fpcs s3 ! 2 = F_Wait" "2 \<in> set (flq s3)" using f2 x(2) by (simp_all add: s3_def size_defs)
  ultimately show ?thesis by blast
qed

theorem fastlock_exclusive_witness: "\<exists>s. fl_reach s \<and> fpcs s ! 0 = F_In \<and> 2 \<in> set (flq s) \<and> \<not> (fpcs s ! 0 = F_In \<and> fpcs s ! 1 = F_In)"
proof -
  obtain s where s: "fl_reach s" "fpcs s ! 0 = F_In" "2 \<in> set (flq s)" using ex_locked by blast
  show ?thesis using fastlock_exclusive[OF s(1), of 0 1] s by (intro exI[of _ s]) (simp add: size_defs)
qed

subsection \<open>The multi lock on two cores\<close>

text \<open>Two cores that run the code of the multi lock, in the order in which the list names them.\<close>

type_synonym mlsys = "fastmlock \<times> kstate \<times> (nat \<Rightarrow> ml_pc)"

definition mlock_core :: "nat \<Rightarrow> UW \<Rightarrow> int \<Rightarrow> nat \<Rightarrow> mlsys \<Rightarrow> mlsys" where
  "mlock_core no p tmo c x = (case x of (l, s, P) \<Rightarrow> case mlock_code c no p tmo (P c) l s of (l, s, q) \<Rightarrow> (l, s, P(c := q)))"

definition mlock_run :: "nat \<Rightarrow> UW \<Rightarrow> int \<Rightarrow> nat list \<Rightarrow> mlsys \<Rightarrow> mlsys" where
  "mlock_run no p tmo cs x = fold (mlock_core no p tmo) cs x"

definition both_in :: "nat \<Rightarrow> nat \<Rightarrow> nat \<Rightarrow> fastmlock \<Rightarrow> kstate \<Rightarrow> UW \<Rightarrow> int \<Rightarrow> bool" where
  "both_in c d no l s p tmo \<longleftrightarrow> (\<exists>cs l'. set cs = {c, d} \<and>
     (\<exists>P. mlock_run no p tmo cs (l, s, (\<lambda>_. ML_Inc)) = (l', s, P) \<and> P c = ML_Ret E_OK \<and> P d = ML_Ret E_OK))"

lemma mlock_core_simps:
  "mlock_core no p tmo c (l, s, P) = (case mlock_code c no p tmo (P c) l s of (l, s, q) \<Rightarrow> (l, s, P(c := q)))"
  by (simp add: mlock_core_def)

text \<open>
  C34. FastMLock does not exclude across the cores. Whatever lock (number below 32) two cores \<open>c\<close> and \<open>d\<close> want, and whatever else is locked: when it is free, there is an
  interleaving of the accesses of two calls of \<open>MLockTmo\<close> in which both return \<open>E_OK\<close> without having waited, with no unlock in
  between, because both read the bit before either writes it. This is the lock of the device manager (\<open>LockDM\<close>) and of its registrations (\<open>LockREG\<close>).
  What holds is exclusion between calls that do not overlap: when one call has returned \<open>E_OK\<close>, another one that starts then and is not disturbed comes to the wait in
  \<open>tk_wai_flg\<close>, until \<open>MUnlock\<close> has cleared the bit.
\<close>
theorem mlock_not_exclusive:
  assumes "no < 32" "\<not> bit (ml_flg l) no" "c \<noteq> d"
  shows "both_in c d no l s p tmo \<and>
    (let (l1, s1, q1) = (mlock_next c no p tmo ^^ 7) (l, s, ML_Inc);
         (l2, s2, q2) = (mlock_next d no p tmo ^^ 5) (l1, s1, ML_Inc);
         (l3, s3, q3) = (mlock_next c no p tmo ^^ 2) (l1, s1, MU_Br);
         (l4, s4, q4) = (mlock_next d no p tmo ^^ 7) (l3, s3, ML_Inc)
     in q1 = ML_Ret E_OK \<and> q2 = ML_Wai \<and> q4 = ML_Ret E_OK)"
proof
  have b: "v AND push_bit no 1 = 0 \<longleftrightarrow> \<not> bit v no" for v :: UW
  proof -
    have i: "bit (v AND push_bit no 1) n \<longleftrightarrow> bit v n \<and> n = no" for n
      unfolding bit_and_iff bit_push_bit_iff bit_1_iff using assms(1) by auto
    show ?thesis
    proof
      assume z: "v AND push_bit no 1 = 0"
      have "\<not> bit (v AND push_bit no 1) no" unfolding z by simp
      then show "\<not> bit v no" unfolding i by simp
    next
      assume "\<not> bit v no"
      then show "v AND push_bit no 1 = 0" by (intro bit_eqI) (simp only: i bit_0_eq bot_fun_def bot_bool_def, blast)
    qed
  qed
  have z: "ml_flg l AND push_bit no 1 = 0" using b assms(2) by simp
  let ?cs = "[c, c, d, d, c, d, c, d, c, d, c, d, c, d]"
  obtain l' P where r: "mlock_run no p tmo ?cs (l, s, (\<lambda>_. ML_Inc)) = (l', s, P)" "P c = ML_Ret E_OK" "P d = ML_Ret E_OK"
    using assms(3) z by (simp add: mlock_run_def mlock_core_simps bts_test_def bts_store_def fun_upd_twist)
  have "set ?cs = {c, d}" by auto
  then show "both_in c d no l s p tmo" unfolding both_in_def using r by blast
  have s1: "(v OR push_bit no 1) AND push_bit no 1 \<noteq> 0" for v :: UW
    unfolding b bit_or_iff bit_push_bit_iff bit_1_iff using assms(1) by auto
  have s2: "(v AND NOT (push_bit no 1)) AND push_bit no 1 = 0" for v :: UW
    unfolding b bit_and_iff bit_not_iff bit_push_bit_iff bit_1_iff using assms(1) by auto
  show "let (l1, s1, q1) = (mlock_next c no p tmo ^^ 7) (l, s, ML_Inc);
         (l2, s2, q2) = (mlock_next d no p tmo ^^ 5) (l1, s1, ML_Inc);
         (l3, s3, q3) = (mlock_next c no p tmo ^^ 2) (l1, s1, MU_Br);
         (l4, s4, q4) = (mlock_next d no p tmo ^^ 7) (l3, s3, ML_Inc)
     in q1 = ML_Ret E_OK \<and> q2 = ML_Wai \<and> q4 = ML_Ret E_OK"
    using z s1[of "ml_flg l"] s2 by (simp add: numeral_eq_Suc bts_test_def bts_store_def)
qed

definition ex_ml :: fastmlock where "ex_ml = \<lparr>ml_flg = 0x2, ml_wai = 0, ml_id = 1, ml_name = 0\<rparr>"

theorem mlock_not_exclusive_witness: "both_in 0 1 0 ex_ml ex_two 0x20000000 TMO_FEVR"
  using mlock_not_exclusive[of 0 ex_ml 0 1 ex_two "0x20000000" TMO_FEVR] by (simp add: ex_ml_def)

end
