(* ===== verification/Device.thy ===== *)
theory Device
  imports Task_Manage Fastlock
begin

text \<open>
  \<^verbatim>\<open>kernel/tkernel/device.c\<close> with the control blocks of \<^verbatim>\<open>sysmgr.h\<close>: registration of device drivers and the
  names of devices. A C string is the list of its bytes up to the terminator. The functions of a driver are
  addresses; what a driver does is a parameter of the model. What the code does between
  \<open>LockDM\<close> and \<open>UnlockDM\<close> is one definition here. The lock keeps two tasks of one core apart and not two tasks on the two cores
  (\<open>mlock_not_exclusive\<close> of \<open>Fastlock_Props\<close>); the theory \<open>Device_Run\<close> says what depends on it.
\<close>

subsection \<open>Control blocks (sysmgr.h, syscall.h)\<close>

definition MAX_REGDEV :: nat where "MAX_REGDEV = 8"
definition MAX_OPNDEV :: nat where "MAX_OPNDEV = 16"
definition MAX_REQDEV :: nat where "MAX_REQDEV = 16"
definition L_DEVNM :: nat where "L_DEVNM = 8"
definition MAX_UNIT :: int where "MAX_UNIT = 255"

abbreviation (input) E_OACV :: ER where "E_OACV \<equiv> - 27"

record t_ddev =
  dd_exinf :: UW
  drvatr :: UW
  devatr :: UW
  nsub :: int
  dd_blksz :: int
  openfn :: UW
  closefn :: UW
  execfn :: UW
  waitfn :: UW
  abortfn :: UW
  eventfn :: UW

record devcb =
  devnm :: "UB list"
  ddev :: t_ddev
  openq :: "nat list"

text \<open>\<open>waireqlst\<close> is the first request of the list that a task waits for; the list is linked by \<open>dr_next\<close>.\<close>

record opncb =
  resid :: int
  od_dev :: nat
  unitno :: int
  omode :: UW
  requestq :: "nat list"
  waitone :: "16 word"
  waireqlst :: "nat option"
  nwaireq :: int
  abort_tskid :: int
  abort_cnt :: int
  abort_semid :: int

record t_devreq =
  dr_next :: "nat option"
  dr_devid :: int
  dr_cmd :: int
  dr_abort :: bool
  dr_start :: int
  dr_size :: int
  dr_buf :: UW
  dr_asize :: int
  dr_error :: int

record reqcb =
  rq_opn :: "nat option"
  rq_tskid :: int
  req :: t_devreq

record t_idev = evtmbfid :: int

text \<open>\<open>res_openq\<close> is \<open>None\<close> as long as the resource control block has not been initialised (its queue pointer is NULL).\<close>

record devst =
  dev :: "nat \<Rightarrow> devcb"
  used_dev :: "nat list"
  free_dev :: "nat list"
  opn :: "nat \<Rightarrow> opncb"
  free_opn :: "nat list"
  res_openq :: "nat list option"
  dissus :: int
  dis_sus_cnt :: int
  rqs :: "nat \<Rightarrow> reqcb"
  free_req :: "nat list"
  idev :: t_idev
  dmlock :: fastmlock
  kst :: kstate

abbreviation upd_dev :: "nat \<Rightarrow> (devcb \<Rightarrow> devcb) \<Rightarrow> devst \<Rightarrow> devst" where
  "upd_dev d f s \<equiv> s\<lparr>dev := (dev s)(d := f (dev s d))\<rparr>"

abbreviation upd_opn :: "nat \<Rightarrow> (opncb \<Rightarrow> opncb) \<Rightarrow> devst \<Rightarrow> devst" where
  "upd_opn p f s \<equiv> s\<lparr>opn := (opn s)(p := f (opn s p))\<rparr>"

abbreviation upd_req :: "nat \<Rightarrow> (reqcb \<Rightarrow> reqcb) \<Rightarrow> devst \<Rightarrow> devst" where
  "upd_req r f s \<equiv> s\<lparr>rqs := (rqs s)(r := f (rqs s r))\<rparr>"

definition DID :: "nat \<Rightarrow> int" where "DID d = (int d + 1) * 256"
definition DEVID :: "nat \<Rightarrow> int \<Rightarrow> int" where "DEVID d unit = DID d + unit"
definition DEVCB :: "int \<Rightarrow> nat" where "DEVCB devid = nat (devid div 256 - 1)"
definition UNITNO :: "int \<Rightarrow> int" where "UNITNO devid = devid mod 256"

definition knl_check_devid :: "int \<Rightarrow> ER" where
  "knl_check_devid devid = (let n = devid div 256 in if n < 1 \<or> n > int MAX_REGDEV then E_ID else E_OK)"

subsection \<open>Names of devices\<close>

definition is_digit :: "UB \<Rightarrow> bool" where "is_digit c \<longleftrightarrow> c \<ge> 0x30 \<and> c \<le> 0x39"

text \<open>The two loops of \<open>knl_phydevnm\<close>: the name up to the first digit, and the number behind it.\<close>

fun phy_copy :: "UB list \<Rightarrow> UB list \<times> UB list" where
  "phy_copy [] = ([], [])"
| "phy_copy (c # cs) = (if is_digit c then ([], c # cs) else let (p, r) = phy_copy cs in (c # p, r))"

fun unit_loop :: "UW \<Rightarrow> UB list \<Rightarrow> UW" where
  "unit_loop n [] = n"
| "unit_loop n (c # cs) = unit_loop (n * 10 + (ucast c - 0x30)) cs"

definition knl_phydevnm :: "UB list \<Rightarrow> UB list \<times> int" where
  "knl_phydevnm ldevnm =
     (let (pdevnm, rest) = phy_copy ldevnm
      in (pdevnm, if rest \<noteq> [] then sint (unit_loop 0 rest + 1) else 0))"

text \<open>The digits of the unit number, from the last to the first; the buffer of the code has room for eleven.\<close>

function digits_loop :: "nat \<Rightarrow> UB list \<Rightarrow> UB list" where
  "digits_loop n cp =
     (let cp = (0x30 + of_nat (n mod 10)) # cp; n = n div 10 in if n \<noteq> 0 then digits_loop n cp else cp)"
  by pat_completeness auto
termination by (relation "measure fst") auto

declare digits_loop.simps [simp del]

definition logdevnm :: "UB list \<Rightarrow> int \<Rightarrow> UB list" where
  "logdevnm pdevnm unit = (if unit > 0 then pdevnm @ digits_loop (nat (unit - 1)) [] else pdevnm)"

subsection \<open>Registration\<close>

definition knl_searchDevCB :: "UB list \<Rightarrow> devst \<Rightarrow> nat option" where
  "knl_searchDevCB nm s = find (\<lambda>d. devnm (dev s d) = nm) (used_dev s)"

definition newDevCB :: "UB list \<Rightarrow> devst \<Rightarrow> nat option \<times> devst" where
  "newDevCB nm s =
     (case free_dev s of
        [] \<Rightarrow> (None, s)
      | d # rest \<Rightarrow>
          (Some d, (upd_dev d (\<lambda>D. D\<lparr>devnm := nm, openq := []\<rparr>) s)\<lparr>free_dev := rest, used_dev := used_dev s @ [d]\<rparr>))"

definition delDevCB :: "nat \<Rightarrow> devst \<Rightarrow> devst" where
  "delDevCB d s =
     (upd_dev d (\<lambda>D. D\<lparr>devnm := []\<rparr>) s)\<lparr>used_dev := remove1 d (used_dev s), free_dev := free_dev s @ [d]\<rparr>"

definition unit_digits :: "int \<Rightarrow> nat" where
  "unit_digits n = (if n > 0 then 1 else 0) + (if n > 10 then 1 else 0) + (if n > 100 then 1 else 0)"

definition def_dev_err :: "UB list \<Rightarrow> t_ddev option \<Rightarrow> bool" where
  "def_dev_err nm pk \<longleftrightarrow>
     (let len = length nm
      in len = 0 \<or> len > L_DEVNM \<or>
         (case pk of None \<Rightarrow> False
          | Some dd \<Rightarrow> nsub dd < 0 \<or> nsub dd > MAX_UNIT \<or> len + unit_digits (nsub dd) > L_DEVNM))"

text \<open>The result is the device ID or an error; the initial information goes out when the caller asks for it.\<close>

definition find_or_new :: "UB list \<Rightarrow> bool \<Rightarrow> devst \<Rightarrow> ER + nat \<times> devst" where
  "find_or_new nm unregister s =
     (case knl_searchDevCB nm s of
        Some d \<Rightarrow> Inr (d, s)
      | None \<Rightarrow>
          (if unregister then Inl E_NOEXS
           else (case newDevCB nm s of (None, _) \<Rightarrow> Inl E_LIMIT | (Some d, s) \<Rightarrow> Inr (d, s))))"

definition tk_def_dev :: "UB list \<Rightarrow> t_ddev option \<Rightarrow> bool \<Rightarrow> devst \<Rightarrow> devst \<times> int \<times> t_idev option" where
  "tk_def_dev nm pk want s =
     (if def_dev_err nm pk then (s, E_PAR, None)
      else (case find_or_new nm (pk = None) s of
              Inl er \<Rightarrow> (s, er, None)
            | Inr (d, s) \<Rightarrow>
                (case pk of
                   Some dd \<Rightarrow> (upd_dev d (\<lambda>D. D\<lparr>ddev := dd\<rparr>) s, DID d, if want then Some (idev s) else None)
                 | None \<Rightarrow> (if openq (dev s d) \<noteq> [] then (s, E_BUSY, None) else (delDevCB d s, DID d, None)))))"

definition tk_ref_idv :: "devst \<Rightarrow> int \<times> t_idev" where
  "tk_ref_idv s = (E_OK, idev s)"

definition tk_get_dev :: "int \<Rightarrow> devst \<Rightarrow> int \<times> UB list option" where
  "tk_get_dev devid s =
     (if knl_check_devid devid < E_OK then (knl_check_devid devid, None)
      else let d = DEVCB devid
           in if devnm (dev s d) = [] \<or> UNITNO devid > nsub (ddev (dev s d)) then (E_NOEXS, None)
              else (DID d, Some (logdevnm (devnm (dev s d)) (UNITNO devid))))"

record t_rdev =
  rd_devatr :: UW
  rd_blksz :: int
  rd_nsub :: int
  rd_subno :: int

definition rdev_of :: "nat \<Rightarrow> int \<Rightarrow> devst \<Rightarrow> t_rdev" where
  "rdev_of d unit s = \<lparr>rd_devatr = devatr (ddev (dev s d)), rd_blksz = dd_blksz (ddev (dev s d)),
     rd_nsub = nsub (ddev (dev s d)), rd_subno = unit\<rparr>"

text \<open>
  \<open>tk_ref_dev\<close> and \<open>tk_opn_dev\<close> copy the physical name into an array of \<open>L_DEVNM + 1\<close> bytes on their stack without a check:
  \<open>None\<close> when the name and its terminator do not fit and the copy runs over the end of the array.
\<close>

definition local_phydevnm :: "UB list \<Rightarrow> (UB list \<times> int) option" where
  "local_phydevnm nm = (let (p, u) = knl_phydevnm nm in if length p + 1 > L_DEVNM + 1 then None else Some (p, u))"

definition tk_ref_dev :: "UB list \<Rightarrow> devst \<Rightarrow> (int \<times> t_rdev option) option" where
  "tk_ref_dev nm s =
     map_option (\<lambda>(pdevnm, unit). case knl_searchDevCB pdevnm s of
         None \<Rightarrow> (E_NOEXS, None)
       | Some d \<Rightarrow> if unit > nsub (ddev (dev s d)) then (E_NOEXS, None) else (DEVID d unit, Some (rdev_of d unit s)))
       (local_phydevnm nm)"

record t_ldev =
  ld_devatr :: UW
  ld_blksz :: int
  ld_nsub :: int
  ld_devnm :: "UB list"

definition ldev_of :: "nat \<Rightarrow> devst \<Rightarrow> t_ldev" where
  "ldev_of d s = \<lparr>ld_devatr = devatr (ddev (dev s d)), ld_blksz = dd_blksz (ddev (dev s d)), ld_nsub = nsub (ddev (dev s d)),
     ld_devnm = take L_DEVNM (devnm (dev s d))\<rparr>"

text \<open>The loop over the registered devices; \<open>start + ndev\<close> is computed in 32 bits.\<close>

fun lst_loop :: "nat list \<Rightarrow> int \<Rightarrow> int \<Rightarrow> int \<Rightarrow> devst \<Rightarrow> t_ldev list \<times> int" where
  "lst_loop [] n start fin s = ([], n)"
| "lst_loop (d # q) n start fin s =
     (let (L, m) = lst_loop q (n + 1) start fin s
      in (if n \<ge> start \<and> n < fin then ldev_of d s # L else L, m))"

definition tk_lst_dev :: "int \<Rightarrow> int \<Rightarrow> devst \<Rightarrow> int \<times> t_ldev list" where
  "tk_lst_dev start ndev s =
     (if start < 0 \<or> ndev < 0 then (E_PAR, [])
      else let fin = sint (of_int (start + ndev) :: UW); (L, n) = lst_loop (used_dev s) 0 start fin s
           in if start \<ge> n then (E_NOEXS, L) else (n - start, L))"

subsection \<open>Calling a driver\<close>

text \<open>
  A driver is not part of the kernel. Each member of \<open>denv\<close> gives, for the address of a driver function and its arguments, the
  state in which it returns and its result; the other tasks run meanwhile. \<open>abort_wait\<close> is the state in which the wait for the
  completion of an abort returns. Requests are passed as the indices of their control blocks.
\<close>

record denv =
  drv_open :: "UW \<Rightarrow> int \<Rightarrow> UW \<Rightarrow> UW \<Rightarrow> devst \<Rightarrow> devst \<times> ER"
  drv_close :: "UW \<Rightarrow> int \<Rightarrow> UW \<Rightarrow> UW \<Rightarrow> devst \<Rightarrow> devst \<times> ER"
  drv_exec :: "UW \<Rightarrow> nat \<Rightarrow> int \<Rightarrow> UW \<Rightarrow> devst \<Rightarrow> devst \<times> ER"
  drv_wait :: "UW \<Rightarrow> nat \<Rightarrow> int \<Rightarrow> int \<Rightarrow> UW \<Rightarrow> devst \<Rightarrow> devst \<times> int"
  drv_abort :: "UW \<Rightarrow> int \<Rightarrow> nat \<Rightarrow> int \<Rightarrow> UW \<Rightarrow> devst \<Rightarrow> devst \<times> ER"
  drv_event :: "UW \<Rightarrow> int \<Rightarrow> UW \<Rightarrow> UW \<Rightarrow> devst \<Rightarrow> devst \<times> int"
  abort_wait :: "int \<Rightarrow> devst \<Rightarrow> devst"

text \<open>Around the call the task is at a raised system mode; \<open>t\<close> is the calling task, wherever it runs when the driver returns.\<close>

definition drv_call :: "nat \<Rightarrow> (devst \<Rightarrow> devst \<times> 'r) \<Rightarrow> devst \<Rightarrow> devst \<times> 'r" where
  "drv_call c f s =
     (let t = cur c (kst s);
          s = s\<lparr>kst := upd_tcb t (\<lambda>T. T\<lparr>sysmode := sysmode T + 1\<rparr>) (kst s)\<rparr>;
          (s, r) = f s
      in (s\<lparr>kst := upd_tcb t (\<lambda>T. T\<lparr>sysmode := sysmode T - 1\<rparr>) (kst s)\<rparr>, r))"

definition tk_evt_dev :: "denv \<Rightarrow> nat \<Rightarrow> int \<Rightarrow> int \<Rightarrow> UW \<Rightarrow> devst \<Rightarrow> devst \<times> int" where
  "tk_evt_dev e c devid evttyp evtinf s =
     (if knl_check_devid devid < E_OK then (s, knl_check_devid devid)
      else if evttyp < 0 then (s, E_PAR)
      else let d = DEVCB devid
           in if devnm (dev s d) = [] \<or> UNITNO devid > nsub (ddev (dev s d)) then (s, E_NOEXS)
              else drv_call c (drv_event e (eventfn (ddev (dev s d))) evttyp evtinf (dd_exinf (ddev (dev s d)))) s)"

subsection \<open>Initialization\<close>

definition initDevCB :: "devst \<Rightarrow> devst" where
  "initDevCB s = fold (\<lambda>d s. (upd_dev d (\<lambda>D. D\<lparr>devnm := []\<rparr>) s)\<lparr>free_dev := free_dev s @ [d]\<rparr>) [0..<MAX_REGDEV]
     (s\<lparr>used_dev := [], free_dev := []\<rparr>)"

text \<open>The configuration uses no message buffer for device events.\<close>

definition initIDev :: "devst \<Rightarrow> devst \<times> ER" where
  "initIDev s = (s\<lparr>idev := \<lparr>evtmbfid = E_OK\<rparr>\<rparr>, E_OK)"

definition delIDev :: "devst \<Rightarrow> devst \<times> ER" where
  "delIDev s = (s, E_OK)"

end
