(* ===== verification/Device_Io.thy ===== *)
theory Device_Io
  imports Device "HOL-Library.Monad_Syntax"
begin

text \<open>
  \<^verbatim>\<open>kernel/tkernel/deviceio.c\<close>: opening and closing devices, requests and their completion, suspension. Open
  control block \<open>p\<close> has the descriptor \<open>p + 1\<close>, request control block \<open>r\<close> the request ID \<open>r + 1\<close>. The
  loops that call a driver until a queue is empty may not end, depending on the driver: their value is then \<open>None\<close>.
\<close>

subsection \<open>Control blocks\<close>

abbreviation (input) TD_READ :: UW where "TD_READ \<equiv> 1"
abbreviation (input) TD_WRITE :: UW where "TD_WRITE \<equiv> 2"
abbreviation (input) TD_UPDATE :: UW where "TD_UPDATE \<equiv> 3"
abbreviation (input) TD_EXCL :: UW where "TD_EXCL \<equiv> 0x100"
abbreviation (input) TD_WEXCL :: UW where "TD_WEXCL \<equiv> 0x200"
abbreviation (input) TD_REXCL :: UW where "TD_REXCL \<equiv> 0x400"
abbreviation (input) TD_EJECT :: UW where "TD_EJECT \<equiv> 1"
abbreviation (input) TDA_OPENREQ :: UW where "TDA_OPENREQ \<equiv> 1"
abbreviation (input) TDC_READ :: int where "TDC_READ \<equiv> 1"
abbreviation (input) TDC_WRITE :: int where "TDC_WRITE \<equiv> 2"

definition DD :: "nat \<Rightarrow> int" where "DD p = int p + 1"
definition OPNCB :: "int \<Rightarrow> nat" where "OPNCB dd = nat (dd - 1)"
definition REQID :: "nat \<Rightarrow> int" where "REQID r = int r + 1"
definition REQCB :: "int \<Rightarrow> nat" where "REQCB reqid = nat (reqid - 1)"

text \<open>\<open>knl_GetResCB\<close> always returns the one resource control block.\<close>

definition knl_GetResCB :: "devst \<Rightarrow> devst" where
  "knl_GetResCB s = (if res_openq s = None then s\<lparr>res_openq := Some []\<rparr> else s)"

definition upd_resq :: "(nat list \<Rightarrow> nat list) \<Rightarrow> devst \<Rightarrow> devst" where
  "upd_resq f s = s\<lparr>res_openq := map_option f (res_openq s)\<rparr>"

definition knl_check_devdesc :: "int \<Rightarrow> UW \<Rightarrow> devst \<Rightarrow> ER + nat" where
  "knl_check_devdesc dd mode s =
     (if dd < 1 \<or> dd > int MAX_OPNDEV then Inl E_ID
      else if resid (opn s (OPNCB dd)) = 0 then Inl E_ID
      else if mode \<noteq> 0 \<and> omode (opn s (OPNCB dd)) AND mode = 0 then Inl E_OACV
      else Inr (OPNCB dd))"

definition tk_oref_dev :: "int \<Rightarrow> devst \<Rightarrow> int \<times> t_rdev option" where
  "tk_oref_dev dd s =
     (case knl_check_devdesc dd 0 s of
        Inl er \<Rightarrow> (er, None)
      | Inr p \<Rightarrow> (DEVID (od_dev (opn s p)) (unitno (opn s p)), Some (rdev_of (od_dev (opn s p)) (unitno (opn s p)) s)))"

definition knl_delOpnCB :: "nat \<Rightarrow> bool \<Rightarrow> devst \<Rightarrow> devst" where
  "knl_delOpnCB p free s =
     (let s = upd_dev (od_dev (opn s p)) (\<lambda>D. D\<lparr>openq := remove1 p (openq D)\<rparr>) s;
          s = upd_resq (remove1 p) s;
          s = (if free then s\<lparr>free_opn := free_opn s @ [p]\<rparr> else s)
      in upd_opn p (\<lambda>P. P\<lparr>resid := 0\<rparr>) s)"

definition knl_delReqCB :: "nat \<Rightarrow> devst \<Rightarrow> devst" where
  "knl_delReqCB r s =
     (let s = (case rq_opn (rqs s r) of
                 None \<Rightarrow> s | Some p \<Rightarrow> upd_opn p (\<lambda>P. P\<lparr>requestq := remove1 r (requestq P)\<rparr>) s);
          s = s\<lparr>free_req := free_req s @ [r]\<rparr>
      in upd_req r (\<lambda>R. R\<lparr>rq_opn := None\<rparr>) s)"

definition knl_chkopen :: "nat \<Rightarrow> int \<Rightarrow> devst \<Rightarrow> bool" where
  "knl_chkopen d unit s \<longleftrightarrow> (\<exists>p\<in>set (openq (dev s d)). unitno (opn s p) = unit)"

definition newOpnCB :: "nat \<Rightarrow> int \<Rightarrow> UW \<Rightarrow> devst \<Rightarrow> nat option \<times> devst" where
  "newOpnCB d unit md s =
     (case free_opn s of
        [] \<Rightarrow> (None, s)
      | p # rest \<Rightarrow>
          (let s = s\<lparr>free_opn := rest\<rparr>;
               s = upd_dev d (\<lambda>D. D\<lparr>openq := openq D @ [p]\<rparr>) s;
               s = upd_resq (\<lambda>q. q @ [p]) s;
               s = upd_opn p (\<lambda>P. P\<lparr>od_dev := d, unitno := unit, omode := md, requestq := [], waitone := 0, nwaireq := 0,
                     abort_tskid := 0, resid := 0\<rparr>) s
           in (Some p, s)))"

text \<open>The counters of the loop of \<open>chkopenmode\<close> are compared with 0 only.\<close>

definition overlaps :: "int \<Rightarrow> int \<Rightarrow> bool" where
  "overlaps u v \<longleftrightarrow> u = 0 \<or> v = 0 \<or> v = u"

definition open_count :: "nat \<Rightarrow> int \<Rightarrow> UW \<Rightarrow> devst \<Rightarrow> nat" where
  "open_count d unit m s =
     length (filter (\<lambda>p. overlaps unit (unitno (opn s p)) \<and> omode (opn s p) AND m \<noteq> 0) (openq (dev s d)))"

definition chkopenmode :: "nat \<Rightarrow> int \<Rightarrow> UW \<Rightarrow> devst \<Rightarrow> ER" where
  "chkopenmode d unit md s =
     (let rd = open_count d unit TD_READ s; wr = open_count d unit TD_WRITE s;
          rexcl = open_count d unit (TD_EXCL OR TD_REXCL) s; wexcl = open_count d unit (TD_EXCL OR TD_WEXCL) s
      in if md AND TD_UPDATE = 0 then E_PAR
         else if md AND (TD_EXCL OR TD_REXCL) \<noteq> 0 \<and> rd > 0 then E_BUSY
         else if md AND (TD_EXCL OR TD_WEXCL) \<noteq> 0 \<and> wr > 0 then E_BUSY
         else if md AND TD_READ \<noteq> 0 \<and> rexcl > 0 then E_BUSY
         else if md AND TD_WRITE \<noteq> 0 \<and> wexcl > 0 then E_BUSY
         else E_OK)"

subsection \<open>Opening\<close>

definition knl_pk_csem_DM :: t_csem where
  "knl_pk_csem_DM = \<lparr>cs_exinf = 0, cs_sematr = 0, cs_isemcnt = 0, cs_maxsem = 1\<rparr>"

definition del_abort_sem :: "nat \<Rightarrow> nat \<Rightarrow> devst \<Rightarrow> devst" where
  "del_abort_sem c p s = s\<lparr>kst := fst (tk_del_sem c (abort_semid (opn s p)) (kst s))\<rparr>"

text \<open>
  \<open>tk_opn_dev\<close> up to the driver call, between \<open>LockDM\<close> and \<open>UnlockDM\<close>, in two parts: \<open>opn_check\<close> looks at the device and the descriptors
  that are open and decides whether the driver has to be called, \<open>opn_take\<close> takes and fills the new open control block. The lock does not exclude the other core
  (theory \<open>Fastlock_Props\<close>), so between the two parts another opener can come in (theory \<open>Device_Run\<close>).
\<close>

definition opn_check :: "UB list \<Rightarrow> int \<Rightarrow> UW \<Rightarrow> devst \<Rightarrow> ER + nat \<times> bool" where
  "opn_check pdevnm unit md s =
     (case knl_searchDevCB pdevnm s of
        None \<Rightarrow> Inl E_NOEXS
      | Some d \<Rightarrow>
          (if unit > nsub (ddev (dev s d)) then Inl E_NOEXS
           else if chkopenmode d unit md s < E_OK then Inl (chkopenmode d unit md s)
           else Inr (d, openfn (ddev (dev s d)) \<noteq> 0 \<and> \<not> (knl_chkopen d unit s \<and> drvatr (ddev (dev s d)) AND TDA_OPENREQ = 0))))"

definition opn_take :: "nat \<Rightarrow> nat \<Rightarrow> int \<Rightarrow> UW \<Rightarrow> bool \<Rightarrow> devst \<Rightarrow> devst \<times> (ER + nat \<times> bool)" where
  "opn_take c d unit md drv s =
     (case newOpnCB d unit md s of
        (None, s) \<Rightarrow> (s, Inl E_LIMIT)
      | (Some p, s) \<Rightarrow>
          (let (k, semid) = tk_cre_sem c knl_pk_csem_DM (kst s); s = s\<lparr>kst := k\<rparr>
           in if semid < E_OK then (knl_delOpnCB p True s, Inl E_SYS)
              else (upd_opn p (\<lambda>P. P\<lparr>abort_semid := semid\<rparr>) s, Inr (p, drv))))"

text \<open>The result is the new open control block and whether the driver has to be called, or an error.\<close>

definition opn_begin :: "nat \<Rightarrow> UB list \<Rightarrow> int \<Rightarrow> UW \<Rightarrow> devst \<Rightarrow> devst \<times> (ER + nat \<times> bool)" where
  "opn_begin c pdevnm unit md s =
     (let s = knl_GetResCB s
      in case opn_check pdevnm unit md s of
           Inl er \<Rightarrow> (s, Inl er)
         | Inr (d, drv) \<Rightarrow> opn_take c d unit md drv s)"

text \<open>\<open>opn_end\<close> is the part after the driver call, which returned \<open>er\<close>; it is between \<open>LockDM\<close> and \<open>UnlockDM\<close> too.\<close>

definition opn_end :: "nat \<Rightarrow> nat \<Rightarrow> ER \<Rightarrow> devst \<Rightarrow> devst \<times> int" where
  "opn_end c p er s =
     (if er < E_OK then (knl_delOpnCB p True (del_abort_sem c p s), er)
      else (upd_opn p (\<lambda>P. P\<lparr>resid := 1\<rparr>) s, DD p))"

definition tk_opn_dev :: "denv \<Rightarrow> nat \<Rightarrow> UB list \<Rightarrow> UW \<Rightarrow> devst \<Rightarrow> (devst \<times> int) option" where
  "tk_opn_dev e c nm md s = do {
     (pdevnm, unit) \<leftarrow> local_phydevnm nm;
     let (s, r) = opn_begin c pdevnm unit md s;
     (case r of
        Inl er \<Rightarrow> Some (s, er)
      | Inr (p, drv) \<Rightarrow>
          (let d = od_dev (opn s p); D = ddev (dev s d);
               (s, er) = (if drv then drv_call c (drv_open e (openfn D) (DEVID d unit) md (dd_exinf D)) s else (s, E_OK))
           in Some (opn_end c p er s)))
   }"

subsection \<open>Closing\<close>

definition abort_one :: "denv \<Rightarrow> nat \<Rightarrow> nat \<Rightarrow> nat \<Rightarrow> int \<Rightarrow> devst \<Rightarrow> devst" where
  "abort_one e c p r nreq s =
     (let D = ddev (dev s (od_dev (opn s p)));
          (s, _) = drv_call c (drv_abort e (abortfn D) (rq_tskid (rqs s r)) r nreq (dd_exinf D)) s
      in upd_opn p (\<lambda>P. P\<lparr>abort_cnt := abort_cnt P + 1\<rparr>) s)"

fun abort_each :: "denv \<Rightarrow> nat \<Rightarrow> nat \<Rightarrow> nat list \<Rightarrow> devst \<Rightarrow> devst" where
  "abort_each e c p [] s = s"
| "abort_each e c p (r # q) s =
     abort_each e c p q
       (if rq_tskid (rqs s r) = 0 then s
        else abort_one e c p r 1 (upd_req r (\<lambda>R. R\<lparr>req := (req R)\<lparr>dr_abort := True\<rparr>\<rparr>) s))"

text \<open>\<open>abort_allrequest\<close> up to the wait: requests that the driver executes or waits for are aborted.\<close>

definition abort_begin :: "denv \<Rightarrow> nat \<Rightarrow> nat \<Rightarrow> devst \<Rightarrow> devst" where
  "abort_begin e c p s =
     (let s = upd_opn p (\<lambda>P. P\<lparr>abort_tskid := tk_get_tid c (kst s), abort_cnt := 0\<rparr>) s
      in if nwaireq (opn s p) > 0 then abort_one e c p (the (waireqlst (opn s p))) (nwaireq (opn s p)) s
         else abort_each e c p (requestq (opn s p)) s)"

partial_function (option) drain_requests :: "denv \<Rightarrow> nat \<Rightarrow> nat \<Rightarrow> devst \<Rightarrow> devst option" where
  "drain_requests e c p s =
     (case requestq (opn s p) of
        [] \<Rightarrow> Some s
      | r # q \<Rightarrow>
          (let D = ddev (dev s (od_dev (opn s p)));
               s = upd_req r (\<lambda>R. R\<lparr>req := (req R)\<lparr>dr_abort := True\<rparr>\<rparr>) s;
               (s, _) = drv_call c (drv_wait e (waitfn D) r 1 TMO_FEVR (dd_exinf D)) s
           in drain_requests e c p (knl_delReqCB r s)))"

definition abort_allrequest :: "denv \<Rightarrow> nat \<Rightarrow> nat \<Rightarrow> devst \<Rightarrow> devst option" where
  "abort_allrequest e c p s =
     (let s = abort_begin e c p s;
          s = (if abort_cnt (opn s p) > 0 then abort_wait e (abort_semid (opn s p)) s else s)
      in drain_requests e c p (upd_opn p (\<lambda>P. P\<lparr>abort_tskid := 0\<rparr>) s))"

text \<open>
  \<open>knl_close_device\<close> between the abort and the driver call (\<open>close_delete\<close>, with the option and whether the driver is called as
  results), and behind the driver call (\<open>close_free\<close>); each of the two is between \<open>LockDM\<close> and \<open>UnlockDM\<close>.
\<close>

definition close_delete :: "nat \<Rightarrow> nat \<Rightarrow> UW \<Rightarrow> devst \<Rightarrow> devst \<times> UW \<times> bool" where
  "close_delete c p opt s =
     (let d = od_dev (opn s p); unit = unitno (opn s p); D = ddev (dev s d);
          s = knl_delOpnCB p False (del_abort_sem c p s);
          still = knl_chkopen d unit s
      in (s, if still then opt AND NOT TD_EJECT else opt, closefn D \<noteq> 0 \<and> \<not> (still \<and> drvatr D AND TDA_OPENREQ = 0)))"

definition close_free :: "nat \<Rightarrow> devst \<Rightarrow> devst" where
  "close_free p s = s\<lparr>free_opn := free_opn s @ [p]\<rparr>"

definition knl_close_device :: "denv \<Rightarrow> nat \<Rightarrow> nat \<Rightarrow> UW \<Rightarrow> devst \<Rightarrow> (devst \<times> int) option" where
  "knl_close_device e c p opt s = do {
     s \<leftarrow> abort_allrequest e c p s;
     let d = od_dev (opn s p);
     let unit = unitno (opn s p);
     let D = ddev (dev s d);
     let (s, opt, drv) = close_delete c p opt s;
     let (s, er) = (if drv then drv_call c (drv_close e (closefn D) (DEVID d unit) opt (dd_exinf D)) s else (s, E_OK));
     Some (close_free p s, er)
   }"

definition cls_begin :: "int \<Rightarrow> devst \<Rightarrow> devst \<times> (ER + nat)" where
  "cls_begin dd s =
     (case knl_check_devdesc dd 0 s of Inl er \<Rightarrow> (s, Inl er) | Inr p \<Rightarrow> (upd_opn p (\<lambda>P. P\<lparr>resid := 0\<rparr>) s, Inr p))"

definition tk_cls_dev :: "denv \<Rightarrow> nat \<Rightarrow> int \<Rightarrow> UW \<Rightarrow> devst \<Rightarrow> (devst \<times> int) option" where
  "tk_cls_dev e c dd opt s =
     (case cls_begin dd s of (s, Inl er) \<Rightarrow> Some (s, er) | (s, Inr p) \<Rightarrow> knl_close_device e c p opt s)"

subsection \<open>Requests\<close>

definition newReqCB :: "nat \<Rightarrow> devst \<Rightarrow> nat option \<times> devst" where
  "newReqCB p s =
     (case free_req s of
        [] \<Rightarrow> (None, s)
      | r # rest \<Rightarrow>
          (let s = upd_opn p (\<lambda>P. P\<lparr>requestq := requestq P @ [r]\<rparr>) (s\<lparr>free_req := rest\<rparr>)
           in (Some r, upd_req r (\<lambda>R. R\<lparr>rq_opn := Some p\<rparr>) s)))"

definition request_mode :: "int \<Rightarrow> int \<Rightarrow> UW" where
  "request_mode start cmd =
     (if start \<le> - 0x00010000 \<and> start \<ge> - 0x7fffffff then 0 else if cmd = TDC_READ then TD_READ else TD_WRITE)"

text \<open>
  \<open>knl_request\<close> up to the driver call, and the part after it, each between \<open>LockDM\<close> and \<open>UnlockDM\<close>. They are steps only as far as that lock excludes, which
  it does on one core and not across the cores.
\<close>

definition req_begin :: "nat \<Rightarrow> int \<Rightarrow> int \<Rightarrow> UW \<Rightarrow> int \<Rightarrow> int \<Rightarrow> devst \<Rightarrow> devst \<times> (ER + nat)" where
  "req_begin c dd start buf sz cmd s =
     (case knl_check_devdesc dd (request_mode start cmd) s of
        Inl er \<Rightarrow> (s, Inl er)
      | Inr p \<Rightarrow>
          (case newReqCB p s of
             (None, s) \<Rightarrow> (s, Inl E_LIMIT)
           | (Some r, s) \<Rightarrow>
               (upd_req r (\<lambda>R. R\<lparr>req := \<lparr>dr_next = None, dr_devid = DEVID (od_dev (opn s p)) (unitno (opn s p)), dr_cmd = cmd,
                     dr_abort = False, dr_start = start, dr_size = sz, dr_buf = buf, dr_asize = 0, dr_error = 0\<rparr>,
                     rq_tskid := tk_get_tid c (kst s)\<rparr>) s, Inr r)))"

text \<open>A task that waits in \<open>abort_allrequest\<close> is told when the last aborted call has returned.\<close>

definition note_abort :: "nat \<Rightarrow> nat \<Rightarrow> devst \<Rightarrow> devst" where
  "note_abort c p s =
     (if abort_tskid (opn s p) > 0
      then let s = upd_opn p (\<lambda>P. P\<lparr>abort_cnt := abort_cnt P - 1\<rparr>) s
           in if abort_cnt (opn s p) = 0 then s\<lparr>kst := fst (tk_sig_sem c (abort_semid (opn s p)) 1 (kst s))\<rparr> else s
      else s)"

definition req_end :: "nat \<Rightarrow> nat \<Rightarrow> nat \<Rightarrow> ER \<Rightarrow> devst \<Rightarrow> devst \<times> int" where
  "req_end c p r er s =
     (let s = note_abort c p (upd_req r (\<lambda>R. R\<lparr>rq_tskid := 0\<rparr>) s)
      in if er < E_OK then (knl_delReqCB r s, er) else (s, REQID r))"

definition knl_request :: "denv \<Rightarrow> nat \<Rightarrow> int \<Rightarrow> int \<Rightarrow> UW \<Rightarrow> int \<Rightarrow> int \<Rightarrow> int \<Rightarrow> devst \<Rightarrow> devst \<times> int" where
  "knl_request e c dd start buf sz tmout cmd s =
     (case req_begin c dd start buf sz cmd s of
        (s, Inl er) \<Rightarrow> (s, er)
      | (s, Inr r) \<Rightarrow>
          (let p = OPNCB dd; D = ddev (dev s (od_dev (opn s p)));
               (s, er) = drv_call c (drv_exec e (execfn D) r tmout (dd_exinf D)) s
           in req_end c p r er s))"

definition tk_rea_dev :: "denv \<Rightarrow> nat \<Rightarrow> int \<Rightarrow> int \<Rightarrow> UW \<Rightarrow> int \<Rightarrow> int \<Rightarrow> devst \<Rightarrow> devst \<times> int" where
  "tk_rea_dev e c dd start buf sz tmout s = knl_request e c dd start buf sz tmout TDC_READ s"

definition tk_wri_dev :: "denv \<Rightarrow> nat \<Rightarrow> int \<Rightarrow> int \<Rightarrow> UW \<Rightarrow> int \<Rightarrow> int \<Rightarrow> devst \<Rightarrow> devst \<times> int" where
  "tk_wri_dev e c dd start buf sz tmout s = knl_request e c dd start buf sz tmout TDC_WRITE s"

subsection \<open>Waiting for completion\<close>

definition knl_check_reqid :: "int \<Rightarrow> nat \<Rightarrow> devst \<Rightarrow> nat option" where
  "knl_check_reqid rid p s =
     (if rid < 1 \<or> rid > int MAX_REQDEV then None
      else if rq_opn (rqs s (REQCB rid)) \<noteq> Some p then None else Some (REQCB rid))"

text \<open>The list that a task waits for: all requests of the descriptor, linked in the order of the queue.\<close>

fun link_requests :: "int \<Rightarrow> nat list \<Rightarrow> devst \<Rightarrow> devst" where
  "link_requests tid [] s = s"
| "link_requests tid (r # q) s =
     link_requests tid q
       (upd_req r (\<lambda>R. R\<lparr>rq_tskid := tid, req := (req R)\<lparr>dr_next := (case q of [] \<Rightarrow> None | r' # _ \<Rightarrow> Some r')\<rparr>\<rparr>) s)"

definition wai_begin :: "nat \<Rightarrow> int \<Rightarrow> int \<Rightarrow> devst \<Rightarrow> devst \<times> (ER + nat \<times> nat \<times> int)" where
  "wai_begin c dd rid s =
     (let tid = tk_get_tid c (kst s)
      in case knl_check_devdesc dd 0 s of
           Inl er \<Rightarrow> (s, Inl er)
         | Inr p \<Rightarrow>
             (if rid = 0
              then if nwaireq (opn s p) > 0 \<or> waitone (opn s p) > 0 then (s, Inl E_OBJ)
                   else (case requestq (opn s p) of
                           [] \<Rightarrow> (s, Inl E_NOEXS)
                         | r # q \<Rightarrow>
                             (let n = int (length (r # q))
                              in (upd_opn p (\<lambda>P. P\<lparr>waireqlst := Some r, nwaireq := n\<rparr>) (link_requests tid (r # q) s),
                                  Inr (p, r, n))))
              else (case knl_check_reqid rid p s of
                      None \<Rightarrow> (s, Inl E_ID)
                    | Some r \<Rightarrow>
                        (if nwaireq (opn s p) > 0 \<or> rq_tskid (rqs s r) > 0 then (s, Inl E_OBJ)
                         else (upd_opn p (\<lambda>P. P\<lparr>waitone := waitone P + 1\<rparr>)
                                 (upd_req r (\<lambda>R. R\<lparr>rq_tskid := tid, req := (req R)\<lparr>dr_next := None\<rparr>\<rparr>) s), Inr (p, r, 1))))))"

text \<open>
  The loop over the list after the driver has returned the index \<open>reqno\<close> of the completed request: the result of that
  request, and the mark of every request of the list taken back. A driver that has unlinked the list behind the index it returns
  makes the code free a request control block that does not exist: \<open>fault\<close>.
\<close>

partial_function (option) wai_results ::
  "nat option \<Rightarrow> int \<Rightarrow> (nat \<times> int \<times> int) option \<Rightarrow> devst \<Rightarrow> (devst \<times> (nat \<times> int \<times> int) option) option" where
  "wai_results devreq reqno out s =
     (case devreq of
        None \<Rightarrow> Some (s, out)
      | Some r \<Rightarrow>
          (let out = (if reqno = 0 then Some (r, dr_asize (req (rqs s r)), dr_error (req (rqs s r))) else out)
           in wai_results (dr_next (req (rqs s r))) (reqno - 1) out (upd_req r (\<lambda>R. R\<lparr>rq_tskid := 0\<rparr>) s)))"

definition wai_end :: "nat \<Rightarrow> nat \<Rightarrow> nat \<Rightarrow> int \<Rightarrow> int \<Rightarrow> int \<Rightarrow> devst \<Rightarrow> (devst \<times> int \<times> (int \<times> int) option) option" where
  "wai_end c p r nreq rid reqno s = do {
     let er = (if reqno \<ge> nreq then E_SYS else if reqno < E_OK then reqno else E_OK);
     let s = upd_opn p (\<lambda>P. if rid = 0 then P\<lparr>nwaireq := 0\<rparr> else P\<lparr>waitone := waitone P - 1\<rparr>) s;
     let s = note_abort c p s;
     (s, out) \<leftarrow> wai_results (Some r) reqno None s;
     let res = map_option snd out;
     let rid = (case out of Some (q, _) \<Rightarrow> REQID q | None \<Rightarrow> rid);
     let s = (if rid < 1 \<and> er \<ge> E_OK then s\<lparr>kst := (kst s)\<lparr>fault := True\<rparr>\<rparr> else s);
     Some (if er < E_OK then (s, er, res) else (knl_delReqCB (REQCB rid) s, rid, res))
   }"

definition tk_wai_dev :: "denv \<Rightarrow> nat \<Rightarrow> int \<Rightarrow> int \<Rightarrow> int \<Rightarrow> devst \<Rightarrow> (devst \<times> int \<times> (int \<times> int) option) option" where
  "tk_wai_dev e c dd rid tmout s =
     (case wai_begin c dd rid s of
        (s, Inl er) \<Rightarrow> Some (s, er, None)
      | (s, Inr (p, r, nreq)) \<Rightarrow>
          (let D = ddev (dev s (od_dev (opn s p)));
               (s, reqno) = drv_call c (drv_wait e (waitfn D) r nreq tmout (dd_exinf D)) s
           in wai_end c p r nreq rid reqno s))"

text \<open>The synchronous calls: the result is the request's own error, the size goes out when the wait stored one.\<close>

definition sync_call :: "denv \<Rightarrow> nat \<Rightarrow> int \<Rightarrow> devst \<times> int \<Rightarrow> (devst \<times> int \<times> int option) option" where
  "sync_call e c dd = (\<lambda>(s, rid).
     if rid < E_OK then Some (s, rid, None)
     else map_option (\<lambda>(s, er, res). (s, if er < E_OK then er else (case res of Some (_, ioer) \<Rightarrow> ioer | None \<Rightarrow> 0),
            map_option fst res)) (tk_wai_dev e c dd rid TMO_FEVR s))"

definition tk_srea_dev :: "denv \<Rightarrow> nat \<Rightarrow> int \<Rightarrow> int \<Rightarrow> UW \<Rightarrow> int \<Rightarrow> devst \<Rightarrow> (devst \<times> int \<times> int option) option" where
  "tk_srea_dev e c dd start buf sz s = sync_call e c dd (tk_rea_dev e c dd start buf sz TMO_FEVR s)"

definition tk_swri_dev :: "denv \<Rightarrow> nat \<Rightarrow> int \<Rightarrow> int \<Rightarrow> UW \<Rightarrow> int \<Rightarrow> devst \<Rightarrow> (devst \<times> int \<times> int option) option" where
  "tk_swri_dev e c dd start buf sz s = sync_call e c dd (tk_wri_dev e c dd start buf sz TMO_FEVR s)"

subsection \<open>Suspension\<close>

abbreviation (input) TD_SUSPEND :: UW where "TD_SUSPEND \<equiv> 1"
abbreviation (input) TD_DISSUS :: UW where "TD_DISSUS \<equiv> 2"
abbreviation (input) TD_ENASUS :: UW where "TD_ENASUS \<equiv> 3"
abbreviation (input) TD_CHECK :: UW where "TD_CHECK \<equiv> 4"
abbreviation (input) TD_FORCE :: UW where "TD_FORCE \<equiv> 0x8000"
abbreviation (input) TD_DEVTYPE :: UW where "TD_DEVTYPE \<equiv> 0xF0"
abbreviation (input) TDK_DISK :: UW where "TDK_DISK \<equiv> 0x10"
abbreviation (input) TDV_SUSPEND :: int where "TDV_SUSPEND \<equiv> - 1"
abbreviation (input) TDV_RESUME :: int where "TDV_RESUME \<equiv> - 2"
abbreviation (input) MAX_DISSUS :: int where "MAX_DISSUS \<equiv> INT_MAX"

text \<open>The loop over the registered devices, which the registration lock keeps unchanged; the last result counts.\<close>

fun event_loop :: "denv \<Rightarrow> nat \<Rightarrow> int \<Rightarrow> bool \<Rightarrow> nat list \<Rightarrow> ER \<Rightarrow> devst \<Rightarrow> devst \<times> ER" where
  "event_loop e c evttyp disk [] er s = (s, er)"
| "event_loop e c evttyp disk (d # q) er s =
     (let D = ddev (dev s d)
      in if disk \<noteq> (devatr D AND TD_DEVTYPE = TDK_DISK) then event_loop e c evttyp disk q er s
         else let (s, er) = drv_call c (drv_event e (eventfn D) evttyp 0 (dd_exinf D)) s
              in event_loop e c evttyp disk q er s)"

definition sendevt_alldevice :: "denv \<Rightarrow> nat \<Rightarrow> int \<Rightarrow> bool \<Rightarrow> devst \<Rightarrow> devst \<times> ER" where
  "sendevt_alldevice e c evttyp disk s = event_loop e c evttyp disk (used_dev s) E_OK s"

definition do_suspend :: "denv \<Rightarrow> nat \<Rightarrow> devst \<Rightarrow> devst \<times> ER" where
  "do_suspend e c s =
     (let (s, _) = sendevt_alldevice e c TDV_SUSPEND False s;
          (s, _) = sendevt_alldevice e c TDV_SUSPEND True s;
          (s, _) = sendevt_alldevice e c TDV_RESUME True s
      in sendevt_alldevice e c TDV_RESUME False s)"

definition sus_mode :: "UW \<Rightarrow> devst \<Rightarrow> devst \<times> ER \<times> bool" where
  "sus_mode mode s =
     (let m = mode AND 0xF
      in if m = TD_SUSPEND then (if dis_sus_cnt s > 0 \<and> mode AND TD_FORCE = 0 then (s, E_BUSY, False) else (s, E_OK, True))
         else if m = TD_DISSUS
         then (if dis_sus_cnt s \<ge> MAX_DISSUS then (s, E_QOVR, False)
               else (s\<lparr>dis_sus_cnt := dis_sus_cnt s + 1, dissus := dissus s + 1\<rparr>, E_OK, False))
         else if m = TD_ENASUS
         then (if dissus s > 0 then (s\<lparr>dis_sus_cnt := dis_sus_cnt s - 1, dissus := dissus s - 1\<rparr>, E_OK, False)
               else (s, E_OK, False))
         else if m = TD_CHECK then (s, E_OK, False)
         else (s, E_PAR, False))"

definition tk_sus_dev :: "denv \<Rightarrow> nat \<Rightarrow> UW \<Rightarrow> devst \<Rightarrow> devst \<times> int" where
  "tk_sus_dev e c mode s =
     (let (s, er, suspend) = sus_mode mode (knl_GetResCB s)
      in if er < E_OK then (s, er)
         else if \<not> suspend then (s, dis_sus_cnt s)
         else let (s, er) = do_suspend e c s in if er < E_OK then (s, er) else (s, dis_sus_cnt s))"

subsection \<open>Start and end\<close>

definition knl_devmgr_startup :: "devst \<Rightarrow> devst" where
  "knl_devmgr_startup s = s\<lparr>res_openq := Some [], dissus := 0\<rparr>"

partial_function (option) close_all :: "denv \<Rightarrow> nat \<Rightarrow> devst \<Rightarrow> devst option" where
  "close_all e c s =
     (case the (res_openq s) of
        [] \<Rightarrow> Some s
      | p # _ \<Rightarrow> do {
          (s, _) \<leftarrow> knl_close_device e c p 0 (upd_opn p (\<lambda>P. P\<lparr>resid := 0\<rparr>) s);
          close_all e c s
        })"

definition knl_devmgr_cleanup :: "denv \<Rightarrow> nat \<Rightarrow> devst \<Rightarrow> devst option" where
  "knl_devmgr_cleanup e c s =
     (if res_openq s = None then Some s
      else close_all e c (s\<lparr>dis_sus_cnt := dis_sus_cnt s - dissus s, dissus := 0\<rparr>))"

definition knl_initDevIO :: "devst \<Rightarrow> devst" where
  "knl_initDevIO s =
     (let s = fold (\<lambda>p s. (upd_opn p (\<lambda>P. P\<lparr>resid := 0\<rparr>) s)\<lparr>free_opn := free_opn s @ [p]\<rparr>) [0..<MAX_OPNDEV] (s\<lparr>free_opn := []\<rparr>)
      in fold (\<lambda>r s. (upd_req r (\<lambda>R. R\<lparr>rq_opn := None\<rparr>) s)\<lparr>free_req := free_req s @ [r]\<rparr>) [0..<MAX_REQDEV] (s\<lparr>free_req := []\<rparr>))"

text \<open>The name of the lock is a pointer to a string constant; its four characters stand for it.\<close>

abbreviation (input) OBJNAME_DMLOCK :: UW where "OBJNAME_DMLOCK \<equiv> 0x6B4C4D44"

definition knl_finish_devmgr :: "denv \<Rightarrow> nat \<Rightarrow> devst \<Rightarrow> (devst \<times> int) option" where
  "knl_finish_devmgr e c s = do {
     s \<leftarrow> knl_devmgr_cleanup e c s;
     let (s, _) = delIDev s;
     let (l, k, _) = DeleteMLock c (dmlock s) (kst s);
     Some (s\<lparr>dmlock := l, kst := k\<rparr>, E_OK)
   }"

definition knl_initialize_devmgr :: "denv \<Rightarrow> nat \<Rightarrow> devst \<Rightarrow> (devst \<times> int) option" where
  "knl_initialize_devmgr e c s =
     (let (l, k, er) = CreateMLock c OBJNAME_DMLOCK (dmlock s) (kst s); s = s\<lparr>dmlock := l, kst := k\<rparr>
      in if er < E_OK then map_option (\<lambda>(s, _). (s, er)) (knl_finish_devmgr e c s)
         else let s = knl_initDevIO (initDevCB s); (s, _) = initIDev s
              in Some (knl_devmgr_startup s, E_OK))"

end
