(* ===== verification/Device_Props.thy ===== *)
theory Device_Props
  imports Device_Io
begin

text \<open>
  Properties of the device manager: names, open modes, the control blocks of open devices and of requests.
\<close>

subsection \<open>Names\<close>

lemma is_digit_chr: "n < 10 \<Longrightarrow> is_digit (0x30 + of_nat n)"
proof -
  assume "n < 10"
  then have "unat (0x30 + of_nat n :: UB) = 48 + n" by (simp add: unat_word_ariths unat_of_nat)
  then show ?thesis using \<open>n < 10\<close> by (simp add: is_digit_def word_le_nat_alt)
qed

lemma digit_value: "n < 10 \<Longrightarrow> ucast (0x30 + of_nat n :: UB) - 0x30 = (of_nat n :: UW)"
proof -
  assume n: "n < 10"
  then have "unat (0x30 + of_nat n :: UB) = 48 + n" by (simp add: unat_word_ariths unat_of_nat)
  then have "(ucast (0x30 + of_nat n :: UB) :: UW) = of_nat (48 + n)"
    by (metis of_nat_unat)
  then show ?thesis by simp
qed

lemma phy_copy_append: "\<forall>c\<in>set p. \<not> is_digit c \<Longrightarrow> phy_copy (p @ r) = (let (q, t) = phy_copy r in (p @ q, t))"
  by (induction p) (auto simp: case_prod_unfold Let_def)

lemma phy_copy_no_digit: "\<forall>c\<in>set (fst (phy_copy nm)). \<not> is_digit c"
  by (induction nm) (auto simp: case_prod_unfold Let_def)

lemma digits_loop_step:
  "digits_loop n cp = (if n div 10 = 0 then (0x30 + of_nat (n mod 10)) # cp
     else digits_loop (n div 10) ((0x30 + of_nat (n mod 10)) # cp))"
  by (subst digits_loop.simps) (simp add: Let_def)

lemma digits_loop_acc: "digits_loop n cp = digits_loop n [] @ cp"
proof (induction n arbitrary: cp rule: less_induct)
  case (less n)
  show ?case
  proof (cases "n div 10 = 0")
    case True
    then show ?thesis by (subst (1 2) digits_loop_step) simp
  next
    case False
    then have l: "n div 10 < n" by (cases "n = 0") auto
    let ?d = "0x30 + of_nat (n mod 10) :: UB"
    have "digits_loop n xs = digits_loop (n div 10) [] @ ?d # xs" for xs
      using False less[OF l, of "?d # xs"] by (subst digits_loop_step) simp
    then show ?thesis by simp
  qed
qed

lemma digits_loop_snoc: "n div 10 \<noteq> 0 \<Longrightarrow> digits_loop n [] = digits_loop (n div 10) [] @ [0x30 + of_nat (n mod 10)]"
  by (subst digits_loop_step) (simp, rule digits_loop_acc)

lemma unit_loop_append: "unit_loop n (xs @ ys) = unit_loop (unit_loop n xs) ys"
  by (induction xs arbitrary: n) auto

lemma unit_loop_digits: "unit_loop 0 (digits_loop n []) = of_nat n"
proof (induction n rule: less_induct)
  case (less n)
  show ?case
  proof (cases "n div 10 = 0")
    case True
    then have "n < 10" by (simp add: div_eq_0_iff)
    then show ?thesis using True digit_value[of n] by (subst digits_loop_step) simp
  next
    case False
    then have "n div 10 < n" by (cases "n = 0") auto
    from less[OF this] have "unit_loop 0 (digits_loop n []) = of_nat (n div 10) * 10 + of_nat (n mod 10)"
      using digit_value[of "n mod 10"] by (simp add: digits_loop_snoc[OF False] unit_loop_append)
    also have "\<dots> = of_nat (n div 10 * 10 + n mod 10)" by (simp only: of_nat_add of_nat_mult) simp
    finally show ?thesis by simp
  qed
qed

lemma digits_loop_hd: "\<exists>d ds. digits_loop n [] = d # ds \<and> is_digit d"
proof (induction n rule: less_induct)
  case (less n)
  show ?case
  proof (cases "n div 10 = 0")
    case True
    then show ?thesis using is_digit_chr[of "n mod 10"] by (subst digits_loop_step) simp
  next
    case False
    then have "n div 10 < n" by (cases "n = 0") auto
    from less[OF this] show ?thesis by (auto simp: digits_loop_snoc[OF False])
  qed
qed

lemma digits_loop_length: "n < 10 ^ Suc k \<Longrightarrow> length (digits_loop n []) \<le> Suc k"
proof (induction k arbitrary: n)
  case 0
  then show ?case by (subst digits_loop_step) simp
next
  case (Suc k)
  then have "n div 10 < 10 ^ Suc k" by (simp add: less_mult_imp_div_less)
  from Suc.IH[OF this] show ?case
    by (cases "n div 10 = 0") (subst digits_loop_step, simp, simp add: digits_loop_snoc)
qed

text \<open>
  Device names: a physical name without digits and a unit number make a logical name from which \<open>knl_phydevnm\<close> gets the
  same name and number back, for every unit number that an \<open>INT\<close> holds, and for a device that \<open>tk_def_dev\<close> accepts
  the logical name of each of its subunits fits in the \<open>L_DEVNM\<close> characters of a device name.
\<close>
theorem device_name_roundtrip:
  assumes "\<forall>c\<in>set nm. \<not> is_digit c" "0 \<le> u" "u < 2 ^ 31"
  shows "knl_phydevnm (logdevnm nm u) = (nm, u) \<and>
    (\<not> def_dev_err nm (Some dd) \<and> u \<le> nsub dd \<longrightarrow> length (logdevnm nm u) \<le> L_DEVNM)"
proof
  show "knl_phydevnm (logdevnm nm u) = (nm, u)"
  proof (cases "u > 0")
    case False
    then show ?thesis using assms phy_copy_append[OF assms(1), of "[]"] by (simp add: logdevnm_def knl_phydevnm_def)
  next
    case True
    let ?k = "nat (u - 1)"
    obtain d ds where ds: "digits_loop ?k [] = d # ds" "is_digit d" using digits_loop_hd by blast
    have "sint (unit_loop 0 (digits_loop ?k []) + 1) = u"
    proof -
      have "(of_nat ?k + 1 :: UW) = of_int u" using True by simp
      moreover have "sint (of_int u :: UW) = u" by (rule sint_small) (use assms in auto)
      ultimately show ?thesis by (simp add: unit_loop_digits)
    qed
    then show ?thesis using True phy_copy_append[OF assms(1), of "d # ds"] ds by (simp add: logdevnm_def knl_phydevnm_def)
  qed
  show "\<not> def_dev_err nm (Some dd) \<and> u \<le> nsub dd \<longrightarrow> length (logdevnm nm u) \<le> L_DEVNM"
  proof
    assume a: "\<not> def_dev_err nm (Some dd) \<and> u \<le> nsub dd"
    let ?k = "nat (u - 1)"
    have n: "length nm + unit_digits (nsub dd) \<le> L_DEVNM" "nsub dd \<le> 255"
      using a by (auto simp: def_dev_err_def MAX_UNIT_def Let_def)
    have "length (digits_loop ?k []) \<le> unit_digits (nsub dd)" if "u > 0"
    proof -
      consider "nsub dd \<le> 10" | "10 < nsub dd" "nsub dd \<le> 100" | "100 < nsub dd" by linarith
      then show ?thesis
      proof cases
        case 1
        then have "?k < 10" using a that by linarith
        then have "?k < 10 ^ Suc 0" by simp
        from digits_loop_length[OF this] show ?thesis using a that by (simp add: unit_digits_def)
      next
        case 2
        then have "?k < 100" using a that by linarith
        then have "?k < 10 ^ Suc 1" by simp
        from digits_loop_length[OF this] show ?thesis using 2 by (simp add: unit_digits_def)
      next
        case 3
        then have "?k < 1000" using a that n(2) by linarith
        then have "?k < 10 ^ Suc 2" by simp
        from digits_loop_length[OF this] show ?thesis using 3 by (simp add: unit_digits_def)
      qed
    qed
    then show "length (logdevnm nm u) \<le> L_DEVNM" using n by (auto simp: logdevnm_def)
  qed
qed

theorem device_name_roundtrip_witness:
  "knl_phydevnm (logdevnm [0x73, 0x64] 13) = ([0x73, 0x64], 13) \<and> logdevnm [0x73, 0x64] 13 = [0x73, 0x64, 0x31, 0x32]"
proof -
  have "\<forall>c\<in>set [0x73, 0x64]. \<not> is_digit c" by (simp add: is_digit_def)
  from device_name_roundtrip[OF this, of 13] show ?thesis by (simp add: logdevnm_def digits_loop_step)
qed

text \<open>
  C36. What the names are not checked for. A name of more than \<open>L_DEVNM\<close> characters before its first digit makes \<open>tk_opn_dev\<close> and
  \<open>tk_ref_dev\<close> write behind the array on their stack. A device whose registered name has a digit in it is found by no name
  at all. A unit number that does not fit an \<open>INT\<close> wraps: the number 2^32 - 1 names the physical device, and 2^31 gives a
  negative number, which passes the comparison with the number of subunits of every device.
\<close>
theorem device_names_unchecked:
  assumes "\<forall>c\<in>set p. \<not> is_digit c" "length p > L_DEVNM" "\<exists>c\<in>set q. is_digit c" "devnm (dev s d) = q"
  shows "tk_opn_dev e c (p @ r) md s = None \<and> tk_ref_dev (p @ r) s = None \<and>
    (\<forall>nm. knl_searchDevCB (fst (knl_phydevnm nm)) s \<noteq> Some d) \<and>
    knl_phydevnm (p @ [0x34, 0x32, 0x39, 0x34, 0x39, 0x36, 0x37, 0x32, 0x39, 0x35]) = (p, 0) \<and>
    knl_phydevnm (p @ [0x32, 0x31, 0x34, 0x37, 0x34, 0x38, 0x33, 0x36, 0x34, 0x38]) = (p, - 2147483647)"
proof -
  have ph: "phy_copy (p @ r) = (let (w, t) = phy_copy r in (p @ w, t))" for r by (rule phy_copy_append[OF assms(1)])
  have "local_phydevnm (p @ r) = None"
    using assms(2) by (simp add: ph local_phydevnm_def knl_phydevnm_def case_prod_unfold Let_def)
  then have 1: "tk_opn_dev e c (p @ r) md s = None" "tk_ref_dev (p @ r) s = None"
    by (simp_all add: tk_opn_dev_def tk_ref_dev_def)
  have 2: "knl_searchDevCB (fst (knl_phydevnm nm)) s \<noteq> Some d" for nm
  proof
    assume "knl_searchDevCB (fst (knl_phydevnm nm)) s = Some d"
    then have "devnm (dev s d) = fst (phy_copy nm)"
      by (auto simp: knl_searchDevCB_def find_Some_iff knl_phydevnm_def case_prod_unfold Let_def)
    then show False using assms(3,4) phy_copy_no_digit[of nm] by auto
  qed
  have 3: "knl_phydevnm (p @ [0x34, 0x32, 0x39, 0x34, 0x39, 0x36, 0x37, 0x32, 0x39, 0x35]) = (p, 0)"
    "knl_phydevnm (p @ [0x32, 0x31, 0x34, 0x37, 0x34, 0x38, 0x33, 0x36, 0x34, 0x38]) = (p, - 2147483647)"
    by (simp_all add: ph knl_phydevnm_def is_digit_def)
  show ?thesis using 1 2 3 by blast
qed

definition ex_ddev :: t_ddev where
  "ex_ddev = \<lparr>dd_exinf = 0, drvatr = 0, devatr = 0x10, nsub = 2, dd_blksz = 512, openfn = 0x10001000, closefn = 0x10001100,
     execfn = 0x10001200, waitfn = 0x10001300, abortfn = 0x10001400, eventfn = 0x10001500\<rparr>"

text \<open>One device with the name \<open>q\<close> is registered, nothing is open.\<close>

definition ex_dev :: "UB list \<Rightarrow> devst" where
  "ex_dev q = \<lparr>dev = (\<lambda>d. \<lparr>devnm = if d = 0 then q else [], ddev = ex_ddev, openq = []\<rparr>), used_dev = [0],
     free_dev = [1..<MAX_REGDEV],
     opn = (\<lambda>_. \<lparr>resid = 0, od_dev = 0, unitno = 0, omode = 0, requestq = [], waitone = 0, waireqlst = None, nwaireq = 0,
       abort_tskid = 0, abort_cnt = 0, abort_semid = 0\<rparr>),
     free_opn = [0..<MAX_OPNDEV], res_openq = Some [], dissus = 0, dis_sus_cnt = 0,
     rqs = (\<lambda>_. \<lparr>rq_opn = None, rq_tskid = 0, req = \<lparr>dr_next = None, dr_devid = 0, dr_cmd = 0, dr_abort = False, dr_start = 0,
       dr_size = 0, dr_buf = 0, dr_asize = 0, dr_error = 0\<rparr>\<rparr>),
     free_req = [0..<MAX_REQDEV], idev = \<lparr>evtmbfid = 0\<rparr>, dmlock = \<lparr>ml_flg = 0, ml_wai = 0, ml_id = 1, ml_name = 0\<rparr>,
     kst = ex_state Wspec_slp ex_winfo (SemQ 1)\<rparr>"

definition ex_denv :: denv where
  "ex_denv = \<lparr>drv_open = (\<lambda>f i m x s. (s, - 17)), drv_close = (\<lambda>f i m x s. (s, 0)), drv_exec = (\<lambda>f r t x s. (s, 0)),
     drv_wait = (\<lambda>f r n t x s. (s, 0)), drv_abort = (\<lambda>f t r n x s. (s, 0)), drv_event = (\<lambda>f v i x s. (s, 0)),
     abort_wait = (\<lambda>i s. s)\<rparr>"

theorem device_names_unchecked_witness:
  "tk_opn_dev ex_denv 0 (replicate 9 0x61 @ [0x30]) 1 (ex_dev [0x73, 0x31]) = None \<and>
   knl_searchDevCB (fst (knl_phydevnm [0x73, 0x31])) (ex_dev [0x73, 0x31]) \<noteq> Some 0"
proof -
  have "\<forall>c\<in>set (replicate 9 0x61). \<not> is_digit c" "\<exists>c\<in>set [0x73, 0x31]. is_digit c" by (simp_all add: is_digit_def)
  then show ?thesis
    using device_names_unchecked[of "replicate 9 0x61" "[0x73, 0x31]" "ex_dev [0x73, 0x31]" 0 ex_denv 0 "[0x30]" 1]
    by (simp add: ex_dev_def L_DEVNM_def)
qed

subsection \<open>Open modes\<close>

text \<open>
  Every open control block in the queue of a device belongs to that device, is there once and is not free.
\<close>

definition opn_wf :: "devst \<Rightarrow> bool" where
  "opn_wf s \<longleftrightarrow> distinct (free_opn s) \<and> (\<forall>d. distinct (openq (dev s d))) \<and>
     (\<forall>d. \<forall>p\<in>set (openq (dev s d)). od_dev (opn s p) = d \<and> p \<notin> set (free_opn s))"

definition excl_ok :: "opncb \<Rightarrow> opncb \<Rightarrow> bool" where
  "excl_ok P Q \<longleftrightarrow> (overlaps (unitno P) (unitno Q) \<longrightarrow>
     \<not> (omode P AND (TD_EXCL OR TD_REXCL) \<noteq> 0 \<and> omode Q AND TD_READ \<noteq> 0) \<and>
     \<not> (omode P AND (TD_EXCL OR TD_WEXCL) \<noteq> 0 \<and> omode Q AND TD_WRITE \<noteq> 0))"

definition modes_ok :: "devst \<Rightarrow> bool" where
  "modes_ok s \<longleftrightarrow> (\<forall>d. \<forall>p\<in>set (openq (dev s d)). \<forall>q\<in>set (openq (dev s d)). p \<noteq> q \<longrightarrow> excl_ok (opn s p) (opn s q))"

lemma open_count_0: "open_count d unit m s = 0 \<longleftrightarrow>
    (\<forall>p\<in>set (openq (dev s d)). overlaps unit (unitno (opn s p)) \<longrightarrow> omode (opn s p) AND m = 0)"
  by (auto simp: open_count_def filter_empty_conv)

lemma overlaps_sym: "overlaps u v = overlaps v u"
  by (auto simp: overlaps_def)

lemma chkopenmode_excl:
  assumes "\<not> chkopenmode d unit md s < E_OK" "q \<in> set (openq (dev s d))" "unitno P = unit" "omode P = md"
  shows "excl_ok P (opn s q) \<and> excl_ok (opn s q) P"
proof -
  have c: "md AND (TD_EXCL OR TD_REXCL) = 0 \<or> open_count d unit TD_READ s = 0"
    "md AND (TD_EXCL OR TD_WEXCL) = 0 \<or> open_count d unit TD_WRITE s = 0"
    "md AND TD_READ = 0 \<or> open_count d unit (TD_EXCL OR TD_REXCL) s = 0"
    "md AND TD_WRITE = 0 \<or> open_count d unit (TD_EXCL OR TD_WEXCL) s = 0"
    using assms(1) by (auto simp: chkopenmode_def Let_def split: if_splits)
  show ?thesis using c assms(2-4) unfolding excl_ok_def open_count_0 overlaps_sym[of "unitno (opn s q)"] by blast
qed

lemma newOpnCB_ok:
  assumes "opn_wf s" "modes_ok s" "\<not> chkopenmode d unit md s < E_OK" "newOpnCB d unit md s = (Some p, s')"
  shows "opn_wf s' \<and> modes_ok s'"
proof -
  obtain rest where f: "free_opn s = p # rest"
    using assms(4) by (auto simp: newOpnCB_def Let_def split: list.splits)
  let ?P = "(opn s p)\<lparr>od_dev := d, unitno := unit, omode := md, requestq := [], waitone := 0, nwaireq := 0,
    abort_tskid := 0, resid := 0\<rparr>"
  have s': "free_opn s' = rest" "opn s' = (opn s)(p := ?P)"
    "dev s' = (dev s)(d := (dev s d)\<lparr>openq := openq (dev s d) @ [p]\<rparr>)"
    using assms(4) f by (auto simp: newOpnCB_def upd_resq_def Let_def)
  have np: "p \<notin> set (openq (dev s e))" for e using assms(1) f by (auto simp: opn_wf_def)
  have w: "opn_wf s'" using assms(1) f np by (auto simp: opn_wf_def s')
  have m: "excl_ok (opn s' x) (opn s' y)"
    if xy: "x \<in> set (openq (dev s' e))" "y \<in> set (openq (dev s' e))" "x \<noteq> y" for e x y
  proof (cases "x = p \<or> y = p")
    case True
    then have "e = d" using xy np by (auto simp: s' split: if_splits)
    then obtain q where q: "q \<in> set (openq (dev s d))" "q \<noteq> p" "x = p \<and> y = q \<or> x = q \<and> y = p"
      using xy True by (auto simp: s')
    then show ?thesis using chkopenmode_excl[OF assms(3) q(1), of ?P] by (auto simp: s')
  next
    case False
    then have "x \<in> set (openq (dev s e))" "y \<in> set (openq (dev s e))" using xy by (auto simp: s' split: if_splits)
    then show ?thesis using assms(2) xy(3) False by (simp add: modes_ok_def s')
  qed
  show ?thesis using w m by (simp add: modes_ok_def)
qed

lemma newOpnCB_None: "newOpnCB d unit md s = (None, s') \<Longrightarrow> s' = s"
  by (auto simp: newOpnCB_def Let_def split: list.splits)

lemma opn_begin_cases:
  assumes "opn_begin c nm unit md s = (s', r)"
  shows "s' = knl_GetResCB s \<or>
    (\<exists>d p s1 k. \<not> chkopenmode d unit md (knl_GetResCB s) < E_OK \<and> newOpnCB d unit md (knl_GetResCB s) = (Some p, s1) \<and>
       s' = knl_delOpnCB p True (s1\<lparr>kst := k\<rparr>)) \<or>
    (\<exists>d p s1 k i. \<not> chkopenmode d unit md (knl_GetResCB s) < E_OK \<and> newOpnCB d unit md (knl_GetResCB s) = (Some p, s1) \<and>
       s' = upd_opn p (\<lambda>P. P\<lparr>abort_semid := i\<rparr>) (s1\<lparr>kst := k\<rparr>))"
proof (cases "knl_searchDevCB nm (knl_GetResCB s)")
  case None
  then show ?thesis using assms by (simp add: opn_begin_def opn_check_def opn_take_def Let_def)
next
  case (Some d)
  show ?thesis
  proof (cases "unit > nsub (ddev (dev (knl_GetResCB s) d)) \<or> chkopenmode d unit md (knl_GetResCB s) < E_OK")
    case True
    then show ?thesis using assms Some by (intro disjI1) (auto simp: opn_begin_def opn_check_def opn_take_def Let_def split: if_splits)
  next
    case False
    obtain o1 s1 where n: "newOpnCB d unit md (knl_GetResCB s) = (o1, s1)" by fastforce
    show ?thesis
    proof (cases o1)
      case None
      then show ?thesis using assms Some False n newOpnCB_None[of d unit md] by (simp add: opn_begin_def opn_check_def opn_take_def Let_def)
    next
      case (Some p)
      obtain k i where "tk_cre_sem c knl_pk_csem_DM (kst s1) = (k, i)" by fastforce
      then have "s' = knl_delOpnCB p True (s1\<lparr>kst := k\<rparr>) \<or> s' = upd_opn p (\<lambda>P. P\<lparr>abort_semid := i\<rparr>) (s1\<lparr>kst := k\<rparr>)"
        using assms \<open>knl_searchDevCB _ _ = _\<close> False n Some by (auto simp: opn_begin_def opn_check_def opn_take_def Let_def split: if_splits)
      then show ?thesis using False n Some by blast
    qed
  qed
qed

lemma opn_ok_cong:
  assumes "opn_wf s \<and> modes_ok s" "free_opn t = free_opn s" "\<And>d. openq (dev t d) = openq (dev s d)"
    "\<And>p. od_dev (opn t p) = od_dev (opn s p)" "\<And>p. unitno (opn t p) = unitno (opn s p)" "\<And>p. omode (opn t p) = omode (opn s p)"
  shows "opn_wf t \<and> modes_ok t"
  using assms by (simp add: opn_wf_def modes_ok_def excl_ok_def)

lemma delOpnCB_ok:
  assumes "opn_wf s" "modes_ok s" "p \<in> set (openq (dev s d))"
  shows "opn_wf (knl_delOpnCB p free s) \<and> modes_ok (knl_delOpnCB p free s)"
proof -
  let ?t = "knl_delOpnCB p free s"
  have d: "od_dev (opn s p) = d" "p \<notin> set (free_opn s)" using assms by (auto simp: opn_wf_def)
  have q: "openq (dev ?t e) = (if e = d then remove1 p (openq (dev s d)) else openq (dev s e))" for e
    by (simp add: knl_delOpnCB_def upd_resq_def d Let_def)
  have f: "free_opn ?t = (if free then free_opn s @ [p] else free_opn s)"
    by (simp add: knl_delOpnCB_def upd_resq_def Let_def)
  have o: "od_dev (opn ?t x) = od_dev (opn s x)" "unitno (opn ?t x) = unitno (opn s x)" "omode (opn ?t x) = omode (opn s x)" for x
    by (simp_all add: knl_delOpnCB_def upd_resq_def Let_def)
  have di: "distinct (openq (dev s d))" using assms(1) by (simp add: opn_wf_def)
  have sub: "set (openq (dev ?t e)) \<subseteq> set (openq (dev s e)) - {p}" for e
  proof (cases "e = d")
    case False
    then have "p \<notin> set (openq (dev s e))" using assms(1) d by (auto simp: opn_wf_def)
    then show ?thesis by (simp add: q False)
  qed (simp add: q di)
  have "opn_wf ?t"
    unfolding opn_wf_def
  proof (intro conjI allI ballI)
    show "distinct (free_opn ?t)" using assms(1) d by (auto simp: f opn_wf_def)
    fix e show "distinct (openq (dev ?t e))" using assms(1) by (simp add: q opn_wf_def distinct_remove1)
    fix x assume "x \<in> set (openq (dev ?t e))"
    then have "x \<in> set (openq (dev s e))" "x \<noteq> p" using sub by auto
    then show "od_dev (opn ?t x) = e" "x \<notin> set (free_opn ?t)" using assms(1) by (auto simp: o f opn_wf_def)
  qed
  moreover have "modes_ok ?t"
    using assms(2) sub unfolding modes_ok_def excl_ok_def o by blast
  ultimately show ?thesis ..
qed

text \<open>Descriptor 1 is open for reading on unit 1, with other readers excluded.\<close>

definition ex_open :: devst where
  "ex_open = (ex_dev [0x73, 0x64])\<lparr>dev := (dev (ex_dev [0x73, 0x64]))(0 := \<lparr>devnm = [0x73, 0x64], ddev = ex_ddev, openq = [0]\<rparr>),
     opn := (opn (ex_dev []))(0 := (opn (ex_dev []) 0)\<lparr>resid := 1, unitno := 1, omode := 0x401\<rparr>),
     free_opn := [1..<MAX_OPNDEV], res_openq := Some [0]\<rparr>"

subsection \<open>A second opener during a failing first open\<close>

lemma opn_begin_Inr:
  assumes "opn_begin c nm unit md s = (s', Inr (p, drv))" "res_openq s \<noteq> None" "knl_searchDevCB nm s = Some d"
  shows "\<exists>s1 k i. newOpnCB d unit md s = (Some p, s1) \<and> s' = upd_opn p (\<lambda>P. P\<lparr>abort_semid := i\<rparr>) (s1\<lparr>kst := k\<rparr>) \<and>
    drv = (openfn (ddev (dev s d)) \<noteq> 0 \<and> \<not> (knl_chkopen d unit s \<and> drvatr (ddev (dev s d)) AND TDA_OPENREQ = 0))"
proof -
  have g: "knl_GetResCB s = s" using assms(2) by (simp add: knl_GetResCB_def)
  obtain o1 s1 where n: "newOpnCB d unit md s = (o1, s1)" by fastforce
  obtain k i where k: "tk_cre_sem c knl_pk_csem_DM (kst s1) = (k, i)" by fastforce
  show ?thesis using assms(1,3) n k
    by (cases o1) (auto simp: opn_begin_def opn_check_def opn_take_def g Let_def split: if_splits)
qed

lemma newOpnCB_eff:
  assumes "newOpnCB d unit md s = (Some p, s')"
  shows "free_opn s = p # free_opn s'" "opn s' = (opn s)(p := (opn s p)\<lparr>od_dev := d, unitno := unit, omode := md, requestq := [],
      waitone := 0, nwaireq := 0, abort_tskid := 0, resid := 0\<rparr>)"
    "dev s' = (dev s)(d := (dev s d)\<lparr>openq := openq (dev s d) @ [p]\<rparr>)" "used_dev s' = used_dev s"
    "res_openq s' = map_option (\<lambda>q. q @ [p]) (res_openq s)"
  using assms by (auto simp: newOpnCB_def upd_resq_def Let_def split: list.splits)

text \<open>
  Opening is not atomic: while the driver's open function of the first opener runs, the descriptor is already in the device's
  queue, so a second opener of the same unit is not sent to the driver and gets a valid descriptor at once; when the
  first call of the driver then fails, that descriptor stays valid on a device whose driver was never opened.
\<close>
theorem second_open_skips_driver:
  assumes s: "knl_searchDevCB nm s = Some d" "res_openq s \<noteq> None" "openq (dev s d) = []" "p1 \<noteq> p2" "p2 < MAX_OPNDEV"
    and drv: "drvatr (ddev (dev s d)) AND TDA_OPENREQ = 0" "openfn (ddev (dev s d)) \<noteq> 0"
    and er: "er < E_OK"
    and b1: "opn_begin c nm unit m s = (s1, Inr (p1, drv1))" and b2: "opn_begin c' nm unit m s1 = (s2, Inr (p2, drv2))"
  shows "drv1 \<and> \<not> drv2 \<and>
    (let s3 = fst (opn_end c' p2 E_OK s2); s4 = fst (opn_end c p1 er s3)
     in knl_check_devdesc (DD p2) 0 s4 = Inr p2 \<and> openq (dev s4 d) = [p2])"
proof -
  obtain n1 k1 i1 where n1: "newOpnCB d unit m s = (Some p1, n1)" "s1 = upd_opn p1 (\<lambda>P. P\<lparr>abort_semid := i1\<rparr>) (n1\<lparr>kst := k1\<rparr>)"
    "drv1 = (openfn (ddev (dev s d)) \<noteq> 0 \<and> \<not> (knl_chkopen d unit s \<and> drvatr (ddev (dev s d)) AND TDA_OPENREQ = 0))"
    using opn_begin_Inr[OF b1 s(2,1)] by blast
  note e1 = newOpnCB_eff[OF n1(1)]
  have s1: "dev s1 = (dev s)(d := (dev s d)\<lparr>openq := [p1]\<rparr>)" "res_openq s1 \<noteq> None" "unitno (opn s1 p1) = unit"
    "od_dev (opn s1 p1) = d" "used_dev s1 = used_dev s"
    using s(2,3) by (simp_all add: n1(2) e1)
  have se: "knl_searchDevCB nm s1 = Some d"
  proof -
    have "devnm (dev s1 x) = devnm (dev s x)" for x by (simp add: s1)
    then show ?thesis using s(1) by (simp add: knl_searchDevCB_def s1(5))
  qed
  obtain n2 k2 i2 where n2: "newOpnCB d unit m s1 = (Some p2, n2)" "s2 = upd_opn p2 (\<lambda>P. P\<lparr>abort_semid := i2\<rparr>) (n2\<lparr>kst := k2\<rparr>)"
    "drv2 = (openfn (ddev (dev s1 d)) \<noteq> 0 \<and> \<not> (knl_chkopen d unit s1 \<and> drvatr (ddev (dev s1 d)) AND TDA_OPENREQ = 0))"
    using opn_begin_Inr[OF b2 s1(2) se] by blast
  note e2 = newOpnCB_eff[OF n2(1)]
  have s2: "openq (dev s2 d) = [p1, p2]" "od_dev (opn s2 p1) = d" using s(4) s1 by (simp_all add: n2(2) e2)
  define s3 where "s3 = upd_opn p2 (\<lambda>P. P\<lparr>resid := 1\<rparr>) s2"
  define s4 where "s4 = knl_delOpnCB p1 True (del_abort_sem c p1 s3)"
  have "openq (dev s4 d) = [p2]" "resid (opn s4 p2) = 1"
    using s(4) s2 by (simp_all add: s4_def s3_def knl_delOpnCB_def del_abort_sem_def upd_resq_def Let_def)
  then have "knl_check_devdesc (DD p2) 0 s4 = Inr p2 \<and> openq (dev s4 d) = [p2]"
    using s(5) by (simp add: knl_check_devdesc_def DD_def OPNCB_def)
  moreover have "\<not> drv2" "drv1" using drv s(3) by (simp_all add: n2(3) n1(3) s1 knl_chkopen_def)
  ultimately show ?thesis using er by (simp add: opn_end_def s3_def s4_def Let_def)
qed

lemma cre_sem_DM: "tk_cre_sem c knl_pk_csem_DM k = (case free_sem k of
     [] \<Rightarrow> (END_CRITICAL_SECTION c k, E_LIMIT)
   | i # rest \<Rightarrow> (END_CRITICAL_SECTION c (upd_sem i (\<lambda>_. \<lparr>semid = int i + 1, sem_exinf = 0, sematr = 0, semcnt = 0, maxsem = 1\<rparr>)
        (upd_que (\<lambda>Q. Q(SemQ i := [])) (k\<lparr>free_sem := rest\<rparr>))), int i + 1))"
  by (simp add: tk_cre_sem_def knl_pk_csem_DM_def Let_def split: list.split)

lemma opn_begin_ok:
  assumes "res_openq s \<noteq> None" "knl_searchDevCB nm s = Some d" "unit \<le> nsub (ddev (dev s d))" "\<not> chkopenmode d unit md s < E_OK"
    "newOpnCB d unit md s = (Some p, s1)" "free_sem (kst s1) = i # rest"
  shows "opn_begin c nm unit md s =
     (upd_opn p (\<lambda>P. P\<lparr>abort_semid := int i + 1\<rparr>) (s1\<lparr>kst := fst (tk_cre_sem c knl_pk_csem_DM (kst s1))\<rparr>),
      Inr (p, openfn (ddev (dev s d)) \<noteq> 0 \<and> \<not> (knl_chkopen d unit s \<and> drvatr (ddev (dev s d)) AND TDA_OPENREQ = 0)))"
proof -
  have g: "knl_GetResCB s = s" using assms(1) by (simp add: knl_GetResCB_def)
  show ?thesis using assms(2-) by (simp add: opn_begin_def opn_check_def opn_take_def g cre_sem_DM Let_def)
qed

theorem second_open_skips_driver_witness:
  "\<exists>s1 s2. opn_begin 0 [0x73] 0 1 (ex_dev [0x73]) = (s1, Inr (0, True)) \<and> opn_begin 1 [0x73] 0 1 s1 = (s2, Inr (1, False)) \<and>
     knl_check_devdesc (DD 1) 0 (fst (opn_end 0 0 E_PAR (fst (opn_end 1 1 E_OK s2)))) = Inr 1"
proof -
  let ?s = "ex_dev [0x73]"
  have u: "[0..<MAX_OPNDEV] = 0 # 1 # [2..<MAX_OPNDEV]" "[0..<NUM_SEMID] = 0 # 1 # [2..<NUM_SEMID]"
    by (simp_all add: MAX_OPNDEV_def NUM_SEMID_def upt_rec)
  obtain n1 where n1: "newOpnCB 0 0 1 ?s = (Some 0, n1)" by (simp add: newOpnCB_def ex_dev_def u Let_def)
  note e1 = newOpnCB_eff[OF n1]
  have k1: "kst n1 = kst ?s" using n1 by (auto simp: newOpnCB_def upd_resq_def ex_dev_def u Let_def)
  have f: "free_sem (kst ?s) = 0 # 1 # [2..<NUM_SEMID]" by (simp add: ex_dev_def ex_state_def u)
  define s1 where "s1 = upd_opn 0 (\<lambda>P. P\<lparr>abort_semid := int 0 + 1\<rparr>) (n1\<lparr>kst := fst (tk_cre_sem 0 knl_pk_csem_DM (kst n1))\<rparr>)"
  have b1: "opn_begin 0 [0x73] 0 1 ?s = (s1, Inr (0, True))"
  proof -
    have "openfn (ddev (dev ?s 0)) \<noteq> 0 \<and> \<not> (knl_chkopen 0 0 ?s \<and> drvatr (ddev (dev ?s 0)) AND 1 = 0)"
      by (simp add: ex_dev_def ex_ddev_def knl_chkopen_def)
    then show ?thesis
      using opn_begin_ok[of ?s "[0x73]" 0 0 1 0 n1 0 "1 # [2..<NUM_SEMID]" 0] n1 k1 f
      by (simp add: s1_def ex_dev_def ex_ddev_def knl_searchDevCB_def chkopenmode_def open_count_def Let_def)
  qed
  have r1: "res_openq s1 \<noteq> None" "used_dev s1 = [0]" "devnm (dev s1 0) = [0x73]" "ddev (dev s1 0) = ex_ddev" "openq (dev s1 0) = [0]"
    "opn s1 0 = (opn ?s 0)\<lparr>omode := 1, abort_semid := 1\<rparr>" "free_opn s1 = 1 # [2..<MAX_OPNDEV]"
    using e1 by (simp_all add: s1_def ex_dev_def u)
  have r2: "free_sem (kst s1) = 1 # [2..<NUM_SEMID]"
    by (simp add: s1_def k1 f cre_sem_DM END_CRITICAL_SECTION_def upd_sem_def)
  obtain n2 where n2: "newOpnCB 0 0 1 s1 = (Some 1, n2)" by (simp add: newOpnCB_def r1 Let_def)
  have k2: "kst n2 = kst s1" using n2 by (auto simp: newOpnCB_def upd_resq_def r1 Let_def)
  have "\<exists>s2. opn_begin 1 [0x73] 0 1 s1 = (s2, Inr (1, False))"
    using opn_begin_ok[of s1 "[0x73]" 0 0 1 1 n2 1 "[2..<NUM_SEMID]" 1] n2 k2 r1 r2
    by (simp add: knl_searchDevCB_def chkopenmode_def open_count_def knl_chkopen_def ex_dev_def ex_ddev_def Let_def)
  then obtain s2 where b2: "opn_begin 1 [0x73] 0 1 s1 = (s2, Inr (1, False))" by blast
  show ?thesis
    using second_open_skips_driver[OF _ _ _ _ _ _ _ _ b1 b2, of 0 E_PAR] b1 b2
    by (auto simp: ex_dev_def ex_ddev_def knl_searchDevCB_def MAX_OPNDEV_def Let_def)
qed

subsection \<open>Requests\<close>

text \<open>Every request control block is free, once, or in the queue of the one open descriptor it names, once.\<close>

definition req_wf :: "devst \<Rightarrow> bool" where
  "req_wf s \<longleftrightarrow> distinct (free_req s) \<and> (\<forall>r\<in>set (free_req s). rq_opn (rqs s r) = None) \<and>
     (\<forall>p. distinct (requestq (opn s p))) \<and> (\<forall>p r. r \<in> set (requestq (opn s p)) \<longleftrightarrow> rq_opn (rqs s r) = Some p) \<and>
     (\<forall>r<MAX_REQDEV. rq_opn (rqs s r) = None \<longrightarrow> r \<in> set (free_req s))"

lemma req_wf_cong:
  "req_wf s \<Longrightarrow> free_req t = free_req s \<Longrightarrow> (\<And>r. rq_opn (rqs t r) = rq_opn (rqs s r)) \<Longrightarrow>
   (\<And>p. requestq (opn t p) = requestq (opn s p)) \<Longrightarrow> req_wf t"
  by (simp add: req_wf_def)

lemma newReqCB_ok:
  assumes "req_wf s" "newReqCB p s = (Some r, s')"
  shows "req_wf s' \<and> r \<in> set (free_req s) \<and> requestq (opn s' p) = requestq (opn s p) @ [r] \<and> rq_opn (rqs s' r) = Some p"
proof -
  obtain rest where f: "free_req s = r # rest" using assms(2) by (auto simp: newReqCB_def Let_def split: list.splits)
  have s': "free_req s' = rest" "rqs s' = (rqs s)(r := (rqs s r)\<lparr>rq_opn := Some p\<rparr>)"
    "opn s' = (opn s)(p := (opn s p)\<lparr>requestq := requestq (opn s p) @ [r]\<rparr>)"
    using assms(2) f by (auto simp: newReqCB_def Let_def)
  have r: "rq_opn (rqs s r) = None" "r \<notin> set rest" using assms(1) f by (auto simp: req_wf_def)
  have n: "r \<notin> set (requestq (opn s q))" for q using assms(1) r(1) by (auto simp: req_wf_def)
  have "req_wf s'"
    unfolding req_wf_def
  proof (intro conjI allI ballI impI)
    show "distinct (free_req s')" using assms(1) f by (simp add: s' req_wf_def)
    show "rq_opn (rqs s' x) = None" if "x \<in> set (free_req s')" for x
      using assms(1) f r that by (auto simp: s' req_wf_def)
    show "distinct (requestq (opn s' q))" for q using assms(1) n by (auto simp: s' req_wf_def)
    have m: "(x \<in> set (requestq (opn s q))) = (rq_opn (rqs s x) = Some q)" for q x using assms(1) by (simp add: req_wf_def)
    show "(x \<in> set (requestq (opn s' q))) = (rq_opn (rqs s' x) = Some q)" for q x
      using n[of q] m[of x q] by (cases "q = p"; cases "x = r") (simp_all add: s')
    show "x \<in> set (free_req s')" if "x < MAX_REQDEV" "rq_opn (rqs s' x) = None" for x
    proof (cases "x = r")
      case False
      then have "rq_opn (rqs s x) = None" using that by (simp add: s')
      then have "x \<in> set (free_req s)" using assms(1) that(1) by (simp add: req_wf_def)
      then show ?thesis using f False by (simp add: s')
    qed (use that s' in simp)
  qed
  then show ?thesis using f by (simp add: s')
qed

lemma delReqCB_ok:
  assumes "req_wf s" "rq_opn (rqs s r) = Some p"
  shows "req_wf (knl_delReqCB r s) \<and> r \<in> set (free_req (knl_delReqCB r s)) \<and> r \<notin> set (requestq (opn (knl_delReqCB r s) p))"
proof -
  let ?t = "knl_delReqCB r s"
  have t: "free_req ?t = free_req s @ [r]" "rqs ?t = (rqs s)(r := (rqs s r)\<lparr>rq_opn := None\<rparr>)"
    "opn ?t = (opn s)(p := (opn s p)\<lparr>requestq := remove1 r (requestq (opn s p))\<rparr>)"
    using assms(2) by (simp_all add: knl_delReqCB_def Let_def)
  have nf: "r \<notin> set (free_req s)" using assms by (auto simp: req_wf_def)
  have d: "distinct (requestq (opn s p))" using assms(1) by (simp add: req_wf_def)
  have q: "r \<in> set (requestq (opn s q)) \<longleftrightarrow> q = p" for q using assms by (auto simp: req_wf_def)
  have "req_wf ?t"
    unfolding req_wf_def
  proof (intro conjI allI ballI impI)
    show "distinct (free_req ?t)" using assms(1) nf by (simp add: t req_wf_def)
    show "rq_opn (rqs ?t x) = None" if "x \<in> set (free_req ?t)" for x
      using assms(1) that by (auto simp: t req_wf_def)
    show "distinct (requestq (opn ?t x))" for x using assms(1) by (simp add: t req_wf_def distinct_remove1)
    have m: "(x \<in> set (requestq (opn s y))) = (rq_opn (rqs s x) = Some y)" for y x using assms(1) by (simp add: req_wf_def)
    show "(x \<in> set (requestq (opn ?t y))) = (rq_opn (rqs ?t x) = Some y)" for y x
      using d q[of y] m[of x y] by (cases "y = p"; cases "x = r") (auto simp: t in_set_remove1)
    show "x \<in> set (free_req ?t)" if "x < MAX_REQDEV" "rq_opn (rqs ?t x) = None" for x
    proof (cases "x = r")
      case False
      then have "rq_opn (rqs s x) = None" using that(2) by (simp add: t)
      then show ?thesis using assms(1) that(1) by (simp add: t req_wf_def)
    qed (simp add: t)
  qed
  then show ?thesis using d by (simp add: t)
qed

lemma note_abort_frame [simp]:
  "rqs (note_abort c p s) = rqs s" "free_req (note_abort c p s) = free_req s"
  "requestq (opn (note_abort c p s) q) = requestq (opn s q)"
  by (auto simp: note_abort_def Let_def)

lemma wai_results_one:
  assumes "dr_next (req (rqs s r)) = None"
  shows "wai_results (Some r) k out s =
    Some (upd_req r (\<lambda>R. R\<lparr>rq_tskid := 0\<rparr>) s, if k = 0 then Some (r, dr_asize (req (rqs s r)), dr_error (req (rqs s r))) else out)"
  using assms by (subst wai_results.simps) (subst wai_results.simps, simp)

end
