(* ===== verification/Device_Run.thy ===== *)
theory Device_Run
  imports Device_Props
begin

text \<open>
  Any number of tasks that open and close devices, and any number that make requests, on two cores: what holds in every state that they
  reach when \<open>LockDM\<close> excludes, and what happens when it does not.
\<close>

subsection \<open>Tasks that open and close devices\<close>

text \<open>
  Where a task is: in no call, between the two parts of \<open>opn_begin\<close> (still in the lock), in the driver's open function or about to end the call
  (\<open>D_Open\<close>), after the first part of \<open>tk_cls_dev\<close> (\<open>D_Abort\<close>), in the driver's close function or about to free the control block (\<open>D_Close\<close>).
\<close>

datatype dm_pc = D_Out | D_Take nat int UW bool | D_Open nat | D_Abort nat UW | D_Close nat

record dmsys =
  dst :: devst
  dpcs :: "nat \<Rightarrow> dm_pc"

text \<open>Nobody but \<open>t\<close> is between the two parts of \<open>opn_begin\<close>, the only section of the lock that is more than one step here.\<close>

definition dm_free :: "nat \<Rightarrow> dmsys \<Rightarrow> bool" where
  "dm_free t s \<longleftrightarrow> (\<forall>u d unit md drv. u \<noteq> t \<longrightarrow> dpcs s u \<noteq> D_Take d unit md drv)"

definition same_open :: "devst \<Rightarrow> devst \<Rightarrow> bool" where
  "same_open s t \<longleftrightarrow> free_opn t = free_opn s \<and> used_dev t = used_dev s \<and> free_dev t = free_dev s \<and>
     (\<forall>d. openq (dev t d) = openq (dev s d)) \<and>
     (\<forall>p. od_dev (opn t p) = od_dev (opn s p) \<and> unitno (opn t p) = unitno (opn s p) \<and> omode (opn t p) = omode (opn s p) \<and>
        resid (opn t p) = resid (opn s p))"

abbreviation "at s t x p \<equiv> s\<lparr>dst := x, dpcs := (dpcs s)(t := p)\<rparr>"

text \<open>
  A step of task \<open>t\<close>, on whatever core \<open>c\<close> it runs. With \<open>excl\<close> the lock excludes: what starts with \<open>LockDM\<close> waits for the task that is in it. Drivers
  return what they like. The step \<open>others\<close> is everything that does not open, close or register: driver functions, requests, aborts.
\<close>

inductive dm_step :: "bool \<Rightarrow> dmsys \<Rightarrow> dmsys \<Rightarrow> bool" for excl where
  opn_none: "dpcs s t = D_Out \<Longrightarrow> (excl \<Longrightarrow> dm_free t s) \<Longrightarrow> opn_check nm unit md (knl_GetResCB (dst s)) = Inl er \<Longrightarrow>
    dm_step excl s (s\<lparr>dst := knl_GetResCB (dst s)\<rparr>)"
| opn_checked: "dpcs s t = D_Out \<Longrightarrow> (excl \<Longrightarrow> dm_free t s) \<Longrightarrow> opn_check nm unit md (knl_GetResCB (dst s)) = Inr (d, drv) \<Longrightarrow>
    dm_step excl s (at s t (knl_GetResCB (dst s)) (D_Take d unit md drv))"
| opn_taken: "dpcs s t = D_Take d unit md drv \<Longrightarrow> opn_take c d unit md drv (dst s) = (x, Inr (p, drv')) \<Longrightarrow>
    dm_step excl s (at s t x (D_Open p))"
| opn_failed: "dpcs s t = D_Take d unit md drv \<Longrightarrow> opn_take c d unit md drv (dst s) = (x, Inl er) \<Longrightarrow>
    dm_step excl s (at s t x D_Out)"
| opened: "dpcs s t = D_Open p \<Longrightarrow> (excl \<Longrightarrow> dm_free t s) \<Longrightarrow> dm_step excl s (at s t (fst (opn_end c p er (dst s))) D_Out)"
| cls: "dpcs s t = D_Out \<Longrightarrow> (excl \<Longrightarrow> dm_free t s) \<Longrightarrow> cls_begin dd (dst s) = (x, Inr p) \<Longrightarrow> dm_step excl s (at s t x (D_Abort p opt))"
| cls_deleted: "dpcs s t = D_Abort p opt \<Longrightarrow> (excl \<Longrightarrow> dm_free t s) \<Longrightarrow>
    dm_step excl s (at s t (fst (close_delete c p opt (dst s))) (D_Close p))"
| cls_freed: "dpcs s t = D_Close p \<Longrightarrow> (excl \<Longrightarrow> dm_free t s) \<Longrightarrow> dm_step excl s (at s t (close_free p (dst s)) D_Out)"
| defined: "dpcs s t = D_Out \<Longrightarrow> (excl \<Longrightarrow> dm_free t s) \<Longrightarrow> dm_step excl s (s\<lparr>dst := fst (tk_def_dev nm pk want (dst s))\<rparr>)"
| others: "same_open (dst s) x \<Longrightarrow> dm_step excl s (s\<lparr>dst := x\<rparr>)"

text \<open>The start is \<open>knl_initialize_devmgr\<close> on control blocks of which none is in a queue.\<close>

inductive dm_reach :: "bool \<Rightarrow> dmsys \<Rightarrow> bool" for excl where
  start: "\<forall>d. openq (dev s d) = [] \<Longrightarrow> knl_initialize_devmgr e c s = Some (x, E_OK) \<Longrightarrow> dm_reach excl \<lparr>dst = x, dpcs = (\<lambda>_. D_Out)\<rparr>"
| step: "dm_reach excl s \<Longrightarrow> dm_step excl s t \<Longrightarrow> dm_reach excl t"

text \<open>The control block that a task has in its hands.\<close>

fun in_hand :: "dm_pc \<Rightarrow> nat option" where
  "in_hand (D_Open p) = Some p" | "in_hand (D_Abort p opt) = Some p" | "in_hand (D_Close p) = Some p" | "in_hand _ = None"

definition queued :: "nat \<Rightarrow> devst \<Rightarrow> bool" where
  "queued p x \<longleftrightarrow> p \<in> set (openq (dev x (od_dev (opn x p))))"

text \<open>A block is in nobody's hands and not queued, hence free, or as the place of its holder says.\<close>

definition hand_ok :: "devst \<Rightarrow> dm_pc \<Rightarrow> bool" where
  "hand_ok x pc = (case pc of
     D_Open p \<Rightarrow> queued p x \<and> resid (opn x p) = 0
   | D_Abort p opt \<Rightarrow> queued p x \<and> resid (opn x p) = 0
   | D_Close p \<Rightarrow> p \<notin> set (free_opn x) \<and> (\<forall>d. p \<notin> set (openq (dev x d))) \<and> resid (opn x p) = 0
   | D_Take d unit md drv \<Rightarrow> d \<in> set (used_dev x) \<and> \<not> chkopenmode d unit md x < E_OK
   | D_Out \<Rightarrow> True)"

definition dm_data :: "devst \<Rightarrow> bool" where
  "dm_data x \<longleftrightarrow> opn_wf x \<and> modes_ok x \<and> (\<forall>d\<in>set (free_dev x). openq (dev x d) = []) \<and> distinct (used_dev x @ free_dev x) \<and>
     (\<forall>p<MAX_OPNDEV. resid (opn x p) \<noteq> 0 \<longrightarrow> queued p x)"

definition dm_ok :: "dmsys \<Rightarrow> bool" where
  "dm_ok s \<longleftrightarrow> dm_data (dst s) \<and> (\<forall>t. hand_ok (dst s) (dpcs s t)) \<and>
     (\<forall>t u p. t \<noteq> u \<longrightarrow> in_hand (dpcs s t) = Some p \<longrightarrow> in_hand (dpcs s u) \<noteq> Some p) \<and>
     (\<forall>t d unit md drv. dpcs s t = D_Take d unit md drv \<longrightarrow> dm_free t s)"

lemma chkopenmode_cong: "same_open x y \<Longrightarrow> chkopenmode d unit md y = chkopenmode d unit md x"
  by (simp add: chkopenmode_def open_count_def same_open_def Let_def)

lemma same_open_data: "dm_data x \<Longrightarrow> same_open x y \<Longrightarrow> dm_data y"
  by (simp add: dm_data_def same_open_def opn_wf_def modes_ok_def excl_ok_def queued_def)

lemma same_open_hand: "hand_ok x pc \<Longrightarrow> same_open x y \<Longrightarrow> hand_ok y pc"
  by (cases pc) (auto simp: hand_ok_def chkopenmode_cong, auto simp: same_open_def queued_def)

lemma GetRes_same: "same_open x (knl_GetResCB x)"
  by (simp add: same_open_def knl_GetResCB_def)

text \<open>
  What is left to show for a step: the data, the place of the task itself, and the places of the others, which are not between the parts of \<open>opn_begin\<close> as far as the lock
  excludes, so that only their control blocks count.
\<close>

lemma dm_okI:
  assumes ok: "dm_ok s" and f: "dm_free t s"
    and x: "dm_data x" "hand_ok x pc"
    and other: "\<And>u. u \<noteq> t \<Longrightarrow> hand_ok (dst s) (dpcs s u) \<Longrightarrow> \<forall>d unit md drv. dpcs s u \<noteq> D_Take d unit md drv \<Longrightarrow>
       hand_ok x (dpcs s u)"
    and hand: "\<And>u p. u \<noteq> t \<Longrightarrow> in_hand pc = Some p \<Longrightarrow> in_hand (dpcs s u) \<noteq> Some p"
  shows "dm_ok (at s t x pc)"
proof -
  have nt: "dpcs s u \<noteq> D_Take d unit md drv" if "u \<noteq> t" for u d unit md drv using f that by (auto simp: dm_free_def)
  have h: "hand_ok (dst s) (dpcs s u)" for u using ok by (simp add: dm_ok_def)
  have "dm_free v (at s t x pc)" if "dpcs (at s t x pc) v = D_Take d unit md drv" for v d unit md drv
    using that nt by (auto simp: dm_free_def split: if_splits)
  moreover have "in_hand (dpcs s v) = Some p \<Longrightarrow> u \<noteq> v \<Longrightarrow> in_hand (dpcs s u) \<noteq> Some p" for u v p using ok unfolding dm_ok_def by blast
  ultimately show ?thesis
    unfolding dm_ok_def using x other h nt hand by (auto split: if_splits)
qed

text \<open>The place of a task depends on the block in its hands only.\<close>

definition same_block :: "nat \<Rightarrow> devst \<Rightarrow> devst \<Rightarrow> bool" where
  "same_block q x y \<longleftrightarrow> (q \<in> set (free_opn y) \<longleftrightarrow> q \<in> set (free_opn x)) \<and> od_dev (opn y q) = od_dev (opn x q) \<and>
     resid (opn y q) = resid (opn x q) \<and> (\<forall>d. q \<in> set (openq (dev y d)) \<longleftrightarrow> q \<in> set (openq (dev x d)))"

lemma same_block_hand:
  "hand_ok x pc \<Longrightarrow> \<forall>d unit md drv. pc \<noteq> D_Take d unit md drv \<Longrightarrow> (\<And>q. in_hand pc = Some q \<Longrightarrow> same_block q x y) \<Longrightarrow> hand_ok y pc"
  by (cases pc; simp add: hand_ok_def same_block_def queued_def; blast)

lemma hand_not_free: "dm_data x \<Longrightarrow> hand_ok x pc \<Longrightarrow> in_hand pc = Some q \<Longrightarrow> q \<notin> set (free_opn x)"
  by (cases pc) (auto simp: hand_ok_def queued_def dm_data_def opn_wf_def)

lemma same_open_kst: "same_open x (x\<lparr>kst := k\<rparr>)" "same_open x (upd_opn p (abort_semid_update f) x)"
  by (simp_all add: same_open_def)

lemma same_open_trans: "same_open x y \<Longrightarrow> same_open y z \<Longrightarrow> same_open x z"
  by (simp add: same_open_def)

lemma take_block:
  assumes x: "dm_data x" "d \<in> set (used_dev x)" "\<not> chkopenmode d unit md x < E_OK" "newOpnCB d unit md x = (Some p, y)"
  shows "dm_data y \<and> p \<in> set (free_opn x) \<and> queued p y \<and> resid (opn y p) = 0 \<and> p \<notin> set (free_opn y) \<and> (\<forall>q. q \<noteq> p \<longrightarrow> same_block q x y)"
proof -
  note e = newOpnCB_eff[OF x(4)]
  have w: "opn_wf x" "modes_ok x" using x(1) by (simp_all add: dm_data_def)
  have fr: "free_dev y = free_dev x" using x(4) by (auto simp: newOpnCB_def upd_resq_def Let_def split: list.splits)
  have d: "d \<notin> set (free_dev x)" using x(1,2) by (auto simp: dm_data_def)
  have p: "p \<notin> set (openq (dev x b))" for b using w(1) e(1) by (auto simp: opn_wf_def)
  have "p \<notin> set (free_opn y)" using w(1) e(1) by (auto simp: opn_wf_def)
  moreover have b: "same_block q x y" if "q \<noteq> p" for q using that e by (auto simp: same_block_def)
  moreover have q: "queued p y" "resid (opn y p) = 0" by (simp_all add: queued_def e)
  moreover have "dm_data y"
  proof -
    have "queued q y" if "q < MAX_OPNDEV" "resid (opn y q) \<noteq> 0" for q
    proof (cases "q = p")
      case False
      then have "queued q x" using x(1) that b by (auto simp: dm_data_def same_block_def)
      then show ?thesis using b[OF False] by (simp add: queued_def same_block_def)
    qed (use q in simp)
    moreover have "\<forall>b\<in>set (free_dev y). openq (dev y b) = []" using x(1) d by (auto simp: dm_data_def fr e(3))
    ultimately show ?thesis using newOpnCB_ok[OF w x(3,4)] x(1) fr e(4) by (auto simp: dm_data_def)
  qed
  ultimately show ?thesis using e(1) by simp
qed

lemma del_block:
  fixes free :: bool
  assumes x: "dm_data x" "queued p x"
  defines "y \<equiv> knl_delOpnCB p free x"
  shows "dm_data y \<and> resid (opn y p) = 0 \<and> (p \<in> set (free_opn y) \<longleftrightarrow> free) \<and> (\<forall>d. p \<notin> set (openq (dev y d))) \<and>
    (\<forall>q. q \<noteq> p \<longrightarrow> same_block q x y)"
proof -
  have w: "opn_wf x" "modes_ok x" using x(1) by (simp_all add: dm_data_def)
  have nf: "p \<notin> set (free_opn x)" using w(1) x(2) by (auto simp: opn_wf_def queued_def)
  have e: "dev y = (dev x)(od_dev (opn x p) := (dev x (od_dev (opn x p)))\<lparr>openq := remove1 p (openq (dev x (od_dev (opn x p))))\<rparr>)"
    "free_opn y = (if free then free_opn x @ [p] else free_opn x)" "opn y = (opn x)(p := (opn x p)\<lparr>resid := 0\<rparr>)"
    "used_dev y = used_dev x" "free_dev y = free_dev x"
    by (simp_all add: y_def knl_delOpnCB_def upd_resq_def Let_def)
  have di: "distinct (openq (dev x d))" for d using w(1) by (simp add: opn_wf_def)
  have o: "p \<in> set (openq (dev x d)) \<Longrightarrow> d = od_dev (opn x p)" for d using w(1) by (auto simp: opn_wf_def)
  have np: "p \<notin> set (openq (dev y d))" for d using di[of "od_dev (opn x p)"] o[of d] by (auto simp: e(1))
  have b: "same_block q x y" if "q \<noteq> p" for q using that by (auto simp: same_block_def e in_set_remove1)
  have "dm_data y"
  proof -
    have "queued q y" if "q < MAX_OPNDEV" "resid (opn y q) \<noteq> 0" for q
    proof -
      have q: "q \<noteq> p" using that(2) by (auto simp: e(3))
      then have "queued q x" using x(1) that b[OF q] by (auto simp: dm_data_def same_block_def)
      then show ?thesis using b[OF q] by (simp add: queued_def same_block_def)
    qed
    moreover have "\<forall>d\<in>set (free_dev y). openq (dev y d) = []" using x(1) by (auto simp: dm_data_def e)
    moreover have "opn_wf y \<and> modes_ok y" unfolding y_def using delOpnCB_ok[OF w] x(2) by (auto simp: queued_def)
    ultimately show ?thesis using x(1) e(4,5) by (auto simp: dm_data_def)
  qed
  then show ?thesis using b np nf by (simp add: e)
qed

subsection \<open>Every step of a lock that excludes\<close>

lemma dm_ok_frame:
  assumes ok: "dm_ok s" and f: "dm_free t s" and x: "dm_data x" "hand_ok x pc"
    and b: "\<And>q. q \<notin> set (free_opn (dst s)) \<Longrightarrow> (\<forall>r. in_hand (dpcs s t) = Some r \<longrightarrow> q \<noteq> r) \<Longrightarrow> resid (opn (dst s) q) = 0 \<Longrightarrow>
       same_block q (dst s) x"
    and h: "\<And>p. in_hand pc = Some p \<Longrightarrow> in_hand (dpcs s t) = Some p \<or> p \<in> set (free_opn (dst s))
        \<or> resid (opn (dst s) p) \<noteq> 0"
  shows "dm_ok (at s t x pc)"
proof (rule dm_okI[OF ok f x])
  have d: "dm_data (dst s)" and hk: "hand_ok (dst s) (dpcs s u)" for u using ok by (simp_all add: dm_ok_def)
  have other: "in_hand (dpcs s u) \<noteq> Some r" if "u \<noteq> t" "in_hand (dpcs s t) = Some r" for u r
    using ok that unfolding dm_ok_def by metis
  fix u assume u: "u \<noteq> t"
  show "hand_ok x (dpcs s u)" if "hand_ok (dst s) (dpcs s u)" "\<forall>d unit md drv. dpcs s u \<noteq> D_Take d unit md drv"
  proof (rule same_block_hand[OF that])
    fix q assume q: "in_hand (dpcs s u) = Some q"
    have "\<forall>r. in_hand (dpcs s t) = Some r \<longrightarrow> q \<noteq> r" using q other[OF u] by auto
    moreover have "resid (opn (dst s) q) = 0" using that(1) q by (cases "dpcs s u") (auto simp: hand_ok_def)
    ultimately show "same_block q (dst s) x" by (rule b[OF hand_not_free[OF d that(1) q]])
  qed
  fix p assume "in_hand pc = Some p"
  moreover have "p \<notin> set (free_opn (dst s)) \<and> resid (opn (dst s) p) = 0" if "in_hand (dpcs s u) = Some p"
    using hand_not_free[OF d hk that] hk[of u] that by (cases "dpcs s u") (auto simp: hand_ok_def)
  ultimately show "in_hand (dpcs s u) \<noteq> Some p" using h[of p] other[OF u] by blast
qed

lemma same_open_block: "same_open x y \<Longrightarrow> same_block q x y"
  by (simp add: same_open_def same_block_def)

lemma same_block_trans: "same_block q x y \<Longrightarrow> same_block q y z \<Longrightarrow> same_block q x z"
  by (simp add: same_block_def)

lemma opn_check_Inr:
  "opn_check nm unit md x = Inr (d, drv) \<Longrightarrow> d \<in> set (used_dev x) \<and> \<not> chkopenmode d unit md x < E_OK"
  by (auto simp: opn_check_def knl_searchDevCB_def find_Some_iff split: option.splits if_splits)

lemma check_ok:
  assumes "dm_ok s" "dm_free t s" "dpcs s t = D_Out" "opn_check nm unit md (knl_GetResCB (dst s)) = Inr (d, drv)"
  shows "dm_ok (at s t (knl_GetResCB (dst s)) (D_Take d unit md drv))"
proof -
  have x: "dm_data (knl_GetResCB (dst s))" using assms(1) same_open_data[OF _ GetRes_same] by (simp add: dm_ok_def)
  have h: "hand_ok (knl_GetResCB (dst s)) (D_Take d unit md drv)" using opn_check_Inr[OF assms(4)] by (simp add: hand_ok_def)
  show ?thesis using dm_ok_frame[OF assms(1,2) x h] same_open_block[OF GetRes_same] by simp
qed

lemma take_ok:
  assumes ok: "dm_ok s" and pc: "dpcs s t = D_Take d unit md drv" and r: "opn_take c d unit md drv (dst s) = (x, r)"
  shows "dm_ok (at s t x (case r of Inl _ \<Rightarrow> D_Out | Inr (p, _) \<Rightarrow> D_Open p))"
proof -
  have f: "dm_free t s" using ok pc unfolding dm_ok_def by blast
  have D: "dm_data (dst s)" "d \<in> set (used_dev (dst s))" "\<not> chkopenmode d unit md (dst s) < E_OK"
  proof -
    have "hand_ok (dst s) (dpcs s t)" using ok by (simp add: dm_ok_def)
    then show "d \<in> set (used_dev (dst s))" "\<not> chkopenmode d unit md (dst s) < E_OK" by (simp_all add: pc hand_ok_def)
  qed (use ok in \<open>simp add: dm_ok_def\<close>)
  obtain o1 y where n: "newOpnCB d unit md (dst s) = (o1, y)" by fastforce
  show ?thesis
  proof (cases o1)
    case None
    then have "x = dst s" "r = Inl E_LIMIT" using r n newOpnCB_None[of d unit md "dst s"] by (auto simp: opn_take_def)
    then show ?thesis using dm_ok_frame[OF ok f, of "dst s" D_Out] D(1) by (simp add: hand_ok_def same_block_def)
  next
    case (Some p)
    note T = take_block[OF D n[unfolded Some]]
    obtain k semid where k: "tk_cre_sem c knl_pk_csem_DM (kst y) = (k, semid)" by fastforce
    note K = same_open_kst(1)[of y k]
    have yk: "dm_data (y\<lparr>kst := k\<rparr>)" using same_open_data T K by blast
    have b: "same_block q (dst s) (y\<lparr>kst := k\<rparr>)" if "q \<notin> set (free_opn (dst s))" for q
      using T that same_block_trans[OF _ same_open_block[OF K]] by metis
    show ?thesis
    proof (cases "semid < E_OK")
      case True
      then have e: "x = knl_delOpnCB p True (y\<lparr>kst := k\<rparr>)" "r = Inl E_SYS" using r n Some k by (simp_all add: opn_take_def)
      have q: "queued p (y\<lparr>kst := k\<rparr>)" using T by (simp add: queued_def)
      note X = del_block[OF yk q, of True, folded e(1)]
      have "same_block q (dst s) x" if "q \<notin> set (free_opn (dst s))" for q
      proof -
        have "q \<noteq> p" using T that by metis
        then show ?thesis using X same_block_trans[OF b[OF that]] by blast
      qed
      then show ?thesis using dm_ok_frame[OF ok f, of x D_Out] X e(2) by (simp add: hand_ok_def)
    next
      case False
      then have e: "x = upd_opn p (\<lambda>P. P\<lparr>abort_semid := semid\<rparr>) (y\<lparr>kst := k\<rparr>)" "r = Inr (p, drv)"
        using r n Some k by (simp_all add: opn_take_def)
      have K': "same_open (y\<lparr>kst := k\<rparr>) x" by (simp add: e same_open_def)
      have x: "dm_data x" using same_open_data[OF yk K'] .
      have h: "hand_ok x (D_Open p)" using T by (simp add: hand_ok_def queued_def e)
      have "same_block q (dst s) x" if "q \<notin> set (free_opn (dst s))" for q
        using same_block_trans[OF b[OF that] same_open_block[OF K']] .
      then show ?thesis using dm_ok_frame[OF ok f x h] T e(2) by simp
    qed
  qed
qed

lemma opened_ok:
  assumes ok: "dm_ok s" and f: "dm_free t s" and pc: "dpcs s t = D_Open p"
  shows "dm_ok (at s t (fst (opn_end c p er (dst s))) D_Out)"
proof -
  have D: "dm_data (dst s)" "queued p (dst s)"
  proof -
    have "hand_ok (dst s) (dpcs s t)" using ok by (simp add: dm_ok_def)
    then show "queued p (dst s)" by (simp add: pc hand_ok_def)
  qed (use ok in \<open>simp add: dm_ok_def\<close>)
  let ?x = "fst (opn_end c p er (dst s))"
  have "dm_data ?x \<and> (\<forall>q. q \<noteq> p \<longrightarrow> same_block q (dst s) ?x)"
  proof (cases "er < E_OK")
    case True
    let ?y = "del_abort_sem c p (dst s)"
    have K: "same_open (dst s) ?y" by (simp add: same_open_def del_abort_sem_def)
    have "queued p ?y" using D by (simp add: queued_def del_abort_sem_def)
    note X = del_block[OF same_open_data[OF D(1) K] this, of True]
    have "?x = knl_delOpnCB p True ?y" using True by (simp add: opn_end_def)
    then show ?thesis using X same_block_trans[OF same_open_block[OF K]] by simp
  next
    case False
    then have e: "?x = upd_opn p (\<lambda>P. P\<lparr>resid := 1\<rparr>) (dst s)" by (simp add: opn_end_def)
    have w: "opn_wf ?x \<and> modes_ok ?x" by (rule opn_ok_cong[of "dst s"]) (use D(1) in \<open>simp_all add: e dm_data_def\<close>)
    have "queued q ?x" if "q < MAX_OPNDEV" "resid (opn ?x q) \<noteq> 0" for q
      using D that by (cases "q = p") (simp_all add: e queued_def dm_data_def)
    then have "dm_data ?x" using D(1) w by (simp add: dm_data_def e)
    then show ?thesis by (auto simp: e same_block_def)
  qed
  then show ?thesis using dm_ok_frame[OF ok f, of ?x D_Out] pc by (simp add: hand_ok_def)
qed

lemma cls_ok:
  assumes ok: "dm_ok s" and f: "dm_free t s" and r: "cls_begin dd (dst s) = (x, Inr p)"
  shows "dm_ok (at s t x (D_Abort p opt))"
proof -
  have D: "dm_data (dst s)" using ok by (simp add: dm_ok_def)
  have p: "p < MAX_OPNDEV" "resid (opn (dst s) p) \<noteq> 0" "x = upd_opn p (\<lambda>P. P\<lparr>resid := 0\<rparr>) (dst s)"
    using r by (auto simp: cls_begin_def knl_check_devdesc_def OPNCB_def split: sum.splits if_splits)
  then have q: "queued p x" using D by (simp add: dm_data_def queued_def)
  have w: "opn_wf x \<and> modes_ok x" by (rule opn_ok_cong[of "dst s"]) (use D in \<open>simp_all add: p dm_data_def\<close>)
  have "queued q x" if "q < MAX_OPNDEV" "resid (opn x q) \<noteq> 0" for q
    using D that by (cases "q = p") (simp_all add: p queued_def dm_data_def)
  then have x: "dm_data x" using D w by (simp add: dm_data_def p)
  have h: "hand_ok x (D_Abort p opt)" using q by (simp add: hand_ok_def p)
  have "same_block q (dst s) x" if "resid (opn (dst s) q) = 0" for q using that p by (auto simp: same_block_def)
  then show ?thesis using dm_ok_frame[OF ok f x h] p(2) by simp
qed

lemma deleted_ok:
  assumes ok: "dm_ok s" and f: "dm_free t s" and pc: "dpcs s t = D_Abort p opt"
  shows "dm_ok (at s t (fst (close_delete c p opt (dst s))) (D_Close p))"
proof -
  have "hand_ok (dst s) (dpcs s t)" using ok by (simp add: dm_ok_def)
  then have D: "dm_data (dst s)" "queued p (dst s)" using ok by (simp_all add: pc hand_ok_def dm_ok_def)
  let ?y = "del_abort_sem c p (dst s)"
  define x where "x = knl_delOpnCB p False ?y"
  have K: "same_open (dst s) ?y" by (simp add: same_open_def del_abort_sem_def)
  have "queued p ?y" using D by (simp add: queued_def del_abort_sem_def)
  note X = del_block[OF same_open_data[OF D(1) K] this, of False, folded x_def]
  have e: "fst (close_delete c p opt (dst s)) = x" by (simp add: close_delete_def x_def Let_def)
  have h: "hand_ok x (D_Close p)" using X by (simp add: hand_ok_def)
  have "same_block q (dst s) x" if "q \<noteq> p" for q using X that same_block_trans[OF same_open_block[OF K]] by blast
  then show ?thesis using dm_ok_frame[OF ok f _ h] X pc by (simp add: e)
qed

lemma freed_ok:
  assumes ok: "dm_ok s" and f: "dm_free t s" and pc: "dpcs s t = D_Close p"
  shows "dm_ok (at s t (close_free p (dst s)) D_Out)"
proof -
  have "hand_ok (dst s) (dpcs s t)" using ok by (simp add: dm_ok_def)
  then have D: "dm_data (dst s)" "p \<notin> set (free_opn (dst s))" "\<And>d. p \<notin> set (openq (dev (dst s) d))"
    using ok by (simp_all add: pc hand_ok_def dm_ok_def)
  have w: "opn_wf (close_free p (dst s))" using D by (auto simp: dm_data_def opn_wf_def close_free_def)
  have "modes_ok (close_free p (dst s))" using D(1) by (simp add: dm_data_def modes_ok_def close_free_def)
  then have x: "dm_data (close_free p (dst s))" using D(1) w by (simp add: dm_data_def queued_def close_free_def)
  show ?thesis using dm_ok_frame[OF ok f x, of D_Out] pc by (simp add: hand_ok_def same_block_def close_free_def)
qed

text \<open>Registration moves device control blocks, of which the free ones have no open descriptors.\<close>

lemma def_dev_keeps:
  assumes "\<forall>d\<in>set (free_dev x). openq (dev x d) = []" "distinct (used_dev x @ free_dev x)" "tk_def_dev nm pk want x = (y, r)"
  shows "free_opn y = free_opn x \<and> opn y = opn x \<and> (\<forall>d. openq (dev y d) = openq (dev x d)) \<and>
    (\<forall>d\<in>set (free_dev y). openq (dev y d) = []) \<and> distinct (used_dev y @ free_dev y)"
proof -
  have found: "d \<in> set (used_dev x)" if "knl_searchDevCB nm x = Some d" for d
    using that by (auto simp: knl_searchDevCB_def find_Some_iff)
  show ?thesis
  proof (cases "knl_searchDevCB nm x")
    case (Some d)
    then show ?thesis using assms found[OF Some]
      by (auto simp: tk_def_dev_def find_or_new_def delDevCB_def distinct_remove1 split: if_splits option.splits)
  next
    case None
    then show ?thesis using assms
      by (auto simp: tk_def_dev_def find_or_new_def newDevCB_def split: if_splits option.splits list.splits)
  qed
qed

lemma defined_ok:
  assumes ok: "dm_ok s" and f: "dm_free t s" and pc: "dpcs s t = D_Out"
  shows "dm_ok (at s t (fst (tk_def_dev nm pk want (dst s))) D_Out)"
proof -
  obtain x r where x: "tk_def_dev nm pk want (dst s) = (x, r)" by (metis surj_pair)
  have D: "dm_data (dst s)" using ok by (simp add: dm_ok_def)
  note K = def_dev_keeps[OF _ _ x]
  have k: "free_opn x = free_opn (dst s)" "opn x = opn (dst s)" "\<And>d. openq (dev x d) = openq (dev (dst s) d)"
    "\<forall>d\<in>set (free_dev x). openq (dev x d) = []" "distinct (used_dev x @ free_dev x)"
    using K D unfolding dm_data_def by blast+
  have w: "opn_wf x \<and> modes_ok x" by (rule opn_ok_cong[of "dst s"]) (use D k in \<open>simp_all add: dm_data_def\<close>)
  have "dm_data x" using D w k unfolding dm_data_def queued_def by auto
  then show ?thesis using dm_ok_frame[OF ok f, of x D_Out] x k by (simp add: hand_ok_def same_block_def)
qed

lemma others_ok: "dm_ok s \<Longrightarrow> same_open (dst s) x \<Longrightarrow> dm_ok (s\<lparr>dst := x\<rparr>)"
  using same_open_data[of "dst s" x] same_open_hand[of "dst s" _ x] by (auto simp: dm_ok_def dm_free_def)

lemma dm_step_ok:
  assumes "dm_step True s s'" "dm_ok s"
  shows "dm_ok s'"
  using assms
proof cases
  case (opn_none t nm unit md er)
  then show ?thesis using others_ok[OF assms(2) GetRes_same] by simp
next
  case (opn_taken t d unit md drv c x p drv')
  then show ?thesis using take_ok[OF assms(2)] by fastforce
next
  case (opn_failed t d unit md drv c x er)
  then show ?thesis using take_ok[OF assms(2)] by fastforce
next
  case (defined t nm pk want)
  have "s\<lparr>dst := fst (tk_def_dev nm pk want (dst s))\<rparr> = at s t (fst (tk_def_dev nm pk want (dst s))) D_Out"
    using defined(2) by (cases s) auto
  moreover have "dm_ok (at s t (fst (tk_def_dev nm pk want (dst s))) D_Out)" by (rule defined_ok[OF assms(2) _ defined(2)]) (use defined(3) in simp)
  ultimately show ?thesis by (simp only: defined(1))
qed (use assms(2) in \<open>auto intro: check_ok opened_ok cls_ok deleted_ok freed_ok others_ok\<close>)

lemma init_dev: "initDevCB s =
    s\<lparr>dev := (\<lambda>d. if d < MAX_REGDEV then (dev s d)\<lparr>devnm := []\<rparr> else dev s d), used_dev := [], free_dev := [0..<MAX_REGDEV]\<rparr>"
proof -
  have "fold (\<lambda>d s. (upd_dev d (\<lambda>D. D\<lparr>devnm := []\<rparr>) s)\<lparr>free_dev := free_dev s @ [d]\<rparr>) [0..<n] s =
      s\<lparr>dev := (\<lambda>d. if d < n then (dev s d)\<lparr>devnm := []\<rparr> else dev s d), free_dev := free_dev s @ [0..<n]\<rparr>" for n s
    by (induction n) (auto simp: fun_eq_iff)
  then show ?thesis by (cases s) (auto simp: initDevCB_def fun_eq_iff)
qed

lemma init_opn: "fold (\<lambda>p s. (upd_opn p (\<lambda>P. P\<lparr>resid := 0\<rparr>) s)\<lparr>free_opn := free_opn s @ [p]\<rparr>) [0..<n] s =
    s\<lparr>opn := (\<lambda>p. if p < n then (opn s p)\<lparr>resid := 0\<rparr> else opn s p), free_opn := free_opn s @ [0..<n]\<rparr>"
  by (induction n) (auto simp: fun_eq_iff)

lemma init_req: "fold (\<lambda>r s. (upd_req r (\<lambda>R. R\<lparr>rq_opn := None\<rparr>) s)\<lparr>free_req := free_req s @ [r]\<rparr>) [0..<n] s =
    s\<lparr>rqs := (\<lambda>r. if r < n then (rqs s r)\<lparr>rq_opn := None\<rparr> else rqs s r), free_req := free_req s @ [0..<n]\<rparr>"
  by (induction n) (auto simp: fun_eq_iff)

lemma initialize_devmgr_eff:
  assumes "knl_initialize_devmgr e c s = Some (x, E_OK)"
  shows "free_opn x = [0..<MAX_OPNDEV]" "used_dev x = []" "free_dev x = [0..<MAX_REGDEV]" "openq (dev x d) = openq (dev s d)"
    "p < MAX_OPNDEV \<Longrightarrow> resid (opn x p) = 0" "free_req x = [0..<MAX_REQDEV]"
    "rq_opn (rqs x r) = (if r < MAX_REQDEV then None else rq_opn (rqs s r))" "requestq (opn x p) = requestq (opn s p)"
proof -
  obtain l k er where m: "CreateMLock c OBJNAME_DMLOCK (dmlock s) (kst s) = (l, k, er)" by (metis surj_pair)
  let ?i = "knl_devmgr_startup ((knl_initDevIO (initDevCB (s\<lparr>dmlock := l, kst := k\<rparr>)))\<lparr>idev := \<lparr>evtmbfid = E_OK\<rparr>\<rparr>)"
  have x: "x = ?i" using assms m by (auto simp: knl_initialize_devmgr_def initIDev_def Let_def split: if_splits)
  show "free_opn x = [0..<MAX_OPNDEV]" "used_dev x = []" "free_dev x = [0..<MAX_REGDEV]" "openq (dev x d) = openq (dev s d)"
    "p < MAX_OPNDEV \<Longrightarrow> resid (opn x p) = 0" "free_req x = [0..<MAX_REQDEV]"
    "rq_opn (rqs x r) = (if r < MAX_REQDEV then None else rq_opn (rqs s r))" "requestq (opn x p) = requestq (opn s p)"
    by (simp_all add: x knl_devmgr_startup_def knl_initDevIO_def init_dev init_opn init_req Let_def)
qed

lemma dm_start_ok:
  assumes "\<forall>d. openq (dev s d) = []" "knl_initialize_devmgr e c s = Some (x, E_OK)"
  shows "dm_ok \<lparr>dst = x, dpcs = (\<lambda>_. D_Out)\<rparr>"
  using assms(1) initialize_devmgr_eff[OF assms(2)]
  by (simp add: dm_ok_def dm_data_def hand_ok_def opn_wf_def modes_ok_def)

lemma dm_reach_ok: "dm_reach True s \<Longrightarrow> dm_ok s"
  by (induction rule: dm_reach.induct) (auto intro: dm_start_ok dm_step_ok)

subsection \<open>Exclusive opening\<close>

text \<open>An example: device 0 is registered, then tasks open it.\<close>

definition ex_boot :: devst where
  "ex_boot = the (map_option fst (knl_initialize_devmgr ex_denv 0 (ex_dev [])))"

definition ex_reg :: devst where
  "ex_reg = fst (tk_def_dev [0x73] (Some ex_ddev) False ex_boot)"

lemma ex_boot_eff:
  "knl_initialize_devmgr ex_denv 0 (ex_dev []) = Some (ex_boot, E_OK)" "devnm (dev ex_boot d) = []" "res_openq ex_boot = Some []"
  "free_sem (kst ex_boot) = [0..<NUM_SEMID]"
proof -
  let ?k = "ex_state Wspec_slp ex_winfo (SemQ 1)"
  have "[0..<NUM_FLGID] = 0 # [1..<NUM_FLGID]" by (simp add: size_defs upt_rec)
  then obtain l k where m: "CreateMLock 0 OBJNAME_DMLOCK (dmlock (ex_dev [])) (kst (ex_dev [])) = (l, k, E_OK)"
    "free_sem k = [0..<NUM_SEMID]"
    by (simp add: CreateMLock_def tk_cre_flg_def ex_dev_def ex_state_def upd_flg_def Let_def)
  have "knl_initialize_devmgr ex_denv 0 (ex_dev []) = Some (knl_devmgr_startup ((knl_initDevIO (initDevCB
      ((ex_dev [])\<lparr>dmlock := l, kst := k\<rparr>)))\<lparr>idev := \<lparr>evtmbfid = E_OK\<rparr>\<rparr>), E_OK)"
    using m(1) by (simp add: knl_initialize_devmgr_def initIDev_def Let_def)
  then show "knl_initialize_devmgr ex_denv 0 (ex_dev []) = Some (ex_boot, E_OK)" "devnm (dev ex_boot d) = []"
    "res_openq ex_boot = Some []" "free_sem (kst ex_boot) = [0..<NUM_SEMID]"
    using m(2) by (simp_all add: ex_boot_def knl_devmgr_startup_def knl_initDevIO_def init_dev init_opn init_req ex_dev_def Let_def)
qed

lemma ex_reg_eff:
  "dev ex_reg 0 = \<lparr>devnm = [0x73], ddev = ex_ddev, openq = []\<rparr>" "used_dev ex_reg = [0]" "opn ex_reg = opn ex_boot"
  "free_opn ex_reg = free_opn ex_boot" "res_openq ex_reg = Some []" "kst ex_reg = kst ex_boot"
proof -
  note B = initialize_devmgr_eff[OF ex_boot_eff(1)]
  have "[0..<MAX_REGDEV] = 0 # [1..<MAX_REGDEV]" by (simp add: MAX_REGDEV_def upt_rec)
  then show "dev ex_reg 0 = \<lparr>devnm = [0x73], ddev = ex_ddev, openq = []\<rparr>" "used_dev ex_reg = [0]" "opn ex_reg = opn ex_boot"
    "free_opn ex_reg = free_opn ex_boot" "res_openq ex_reg = Some []" "kst ex_reg = kst ex_boot"
    using B(2,3) ex_boot_eff(3)
    by (simp_all add: ex_reg_def tk_def_dev_def def_dev_err_def unit_digits_def find_or_new_def knl_searchDevCB_def newDevCB_def
        ex_ddev_def L_DEVNM_def MAX_UNIT_def)
qed

lemma ex_reg_reach: "dm_reach excl \<lparr>dst = ex_reg, dpcs = (\<lambda>_. D_Out)\<rparr>"
proof -
  have "dm_reach excl \<lparr>dst = ex_boot, dpcs = (\<lambda>_. D_Out)\<rparr>"
    by (rule dm_reach.start[OF _ ex_boot_eff(1)]) (simp add: ex_dev_def)
  from dm_reach.step[OF this dm_step.defined[of _ 0 excl "[0x73]" "Some ex_ddev" False]]
  show ?thesis by (simp add: ex_reg_def dm_free_def)
qed

lemma opn_take_ok:
  assumes "free_opn s = p # q" "free_sem (kst s) = i # rest"
  shows "\<exists>x. opn_take c d unit md drv s = (x, Inr (p, drv)) \<and> free_opn x = q \<and> free_sem (kst x) = rest \<and>
    openq (dev x d) = openq (dev s d) @ [p] \<and> od_dev (opn x p) = d \<and> unitno (opn x p) = unit \<and> omode (opn x p) = md \<and>
    (\<forall>r. r \<noteq> p \<longrightarrow> opn x r = opn s r)"
  using assms by (auto simp: opn_take_def newOpnCB_def cre_sem_DM upd_resq_def Let_def)

lemma ex_check: "\<exists>drv. opn_check [0x73] 0 0x101 (knl_GetResCB ex_reg) = Inr (0, drv)" "knl_GetResCB ex_reg = ex_reg"
proof -
  show g: "knl_GetResCB ex_reg = ex_reg" by (simp add: knl_GetResCB_def ex_reg_eff)
  show "\<exists>drv. opn_check [0x73] 0 0x101 (knl_GetResCB ex_reg) = Inr (0, drv)"
    unfolding g opn_check_def knl_searchDevCB_def chkopenmode_def open_count_def by (simp add: ex_reg_eff ex_ddev_def Let_def)
qed

lemma ex_lists: "free_opn ex_reg = 0 # 1 # [2..<MAX_OPNDEV]" "free_sem (kst ex_reg) = 0 # 1 # [2..<NUM_SEMID]"
  using initialize_devmgr_eff(1)[OF ex_boot_eff(1)]
  by (simp_all add: ex_reg_eff ex_boot_eff size_defs MAX_OPNDEV_def upt_rec)

lemma out_again [simp]: "(\<lambda>_. D_Out)(t := D_Out) = (\<lambda>_. D_Out)"
  by auto

lemma ex_first:
  "\<exists>x drv. dm_reach excl \<lparr>dst = x, dpcs = (\<lambda>_. D_Out)(0 := D_Open 0)\<rparr> \<and> opn_take 0 0 0 0x101 drv ex_reg = (x, Inr (0, drv))"
proof -
  obtain drv where k: "opn_check [0x73] 0 0x101 (knl_GetResCB ex_reg) = Inr (0, drv)" using ex_check(1) by blast
  obtain x where x: "opn_take 0 0 0 0x101 drv ex_reg = (x, Inr (0, drv))" using opn_take_ok[OF ex_lists, of 0 0 0 "0x101" drv] by blast
  let ?s0 = "\<lparr>dst = ex_reg, dpcs = (\<lambda>_. D_Out)\<rparr>" and ?s1 = "\<lparr>dst = ex_reg, dpcs = (\<lambda>_. D_Out)(0 := D_Take 0 0 0x101 drv)\<rparr>"
  have "dm_reach excl ?s1"
    using dm_reach.step[OF ex_reg_reach dm_step.opn_checked[of ?s0 0 excl "[0x73]" 0 "0x101" 0 drv]] k ex_check(2) by (simp add: dm_free_def)
  from dm_reach.step[OF this dm_step.opn_taken[of ?s1 0 0 0 "0x101" drv 0 x 0 drv]] x show ?thesis by auto
qed

lemma ex_opened: "\<exists>s. dm_reach excl s \<and> knl_check_devdesc 1 0 (dst s) = Inr 0 \<and> omode (opn (dst s) 0) = 0x101"
proof -
  obtain x drv where x: "dm_reach excl \<lparr>dst = x, dpcs = (\<lambda>_. D_Out)(0 := D_Open 0)\<rparr>" "opn_take 0 0 0 0x101 drv ex_reg = (x, Inr (0, drv))"
    using ex_first by blast
  have "omode (opn x 0) = 0x101" using opn_take_ok[OF ex_lists, of 0 0 0 "0x101" drv] x(2) by auto
  with dm_reach.step[OF x(1) dm_step.opened[of _ 0 0 excl 0 E_OK]] show ?thesis
    by (intro exI[of _ "\<lparr>dst = fst (opn_end 0 0 E_OK x), dpcs = \<lambda>_. D_Out\<rparr>"])
       (simp add: dm_free_def opn_end_def knl_check_devdesc_def OPNCB_def MAX_OPNDEV_def)
qed

text \<open>Without exclusion both tasks look at the device before either has taken its block.\<close>

lemma ex_both:
  "\<exists>s. dm_reach False s \<and> knl_check_devdesc 1 0 (dst s) = Inr 0 \<and> knl_check_devdesc 2 0 (dst s) = Inr 1 \<and>
     (\<forall>p\<in>{0, 1}. od_dev (opn (dst s) p) = 0 \<and> unitno (opn (dst s) p) = 0 \<and> omode (opn (dst s) p) = 0x101)"
proof -
  obtain drv where k: "opn_check [0x73] 0 0x101 (knl_GetResCB ex_reg) = Inr (0, drv)" using ex_check(1) by blast
  obtain x where x: "opn_take 0 0 0 0x101 drv ex_reg = (x, Inr (0, drv))" "free_opn x = 1 # [2..<MAX_OPNDEV]"
    "free_sem (kst x) = 1 # [2..<NUM_SEMID]" "od_dev (opn x 0) = 0 \<and> unitno (opn x 0) = 0 \<and> omode (opn x 0) = 0x101"
    using opn_take_ok[OF ex_lists, of 0 0 0 "0x101" drv] by blast
  obtain y where y: "opn_take 1 0 0 0x101 drv x = (y, Inr (1, drv))" "od_dev (opn y 1) = 0 \<and> unitno (opn y 1) = 0 \<and> omode (opn y 1) = 0x101"
    "opn y 0 = opn x 0"
    using opn_take_ok[OF x(2,3), of 1 0 0 "0x101" drv] by auto
  let ?T = "D_Take 0 0 0x101 drv"
  let ?s0 = "\<lparr>dst = ex_reg, dpcs = (\<lambda>_. D_Out)\<rparr>" and ?s1 = "\<lparr>dst = ex_reg, dpcs = (\<lambda>_. D_Out)(0 := ?T)\<rparr>"
  let ?s2 = "\<lparr>dst = ex_reg, dpcs = (\<lambda>_. D_Out)(0 := ?T, 1 := ?T)\<rparr>" and ?s3 = "\<lparr>dst = x, dpcs = (\<lambda>_. D_Out)(0 := D_Open 0, 1 := ?T)\<rparr>"
  let ?s4 = "\<lparr>dst = y, dpcs = (\<lambda>_. D_Out)(0 := D_Open 0, 1 := D_Open 1)\<rparr>"
  let ?z = "fst (opn_end 0 0 E_OK y)"
  let ?s5 = "\<lparr>dst = ?z, dpcs = (\<lambda>_. D_Out)(1 := D_Open 1)\<rparr>" and ?s6 = "\<lparr>dst = fst (opn_end 1 1 E_OK ?z), dpcs = (\<lambda>_. D_Out)\<rparr>"
  have "dm_reach False ?s1"
    using dm_reach.step[OF ex_reg_reach dm_step.opn_checked[of ?s0 0 False "[0x73]" 0 "0x101" 0 drv]] k ex_check(2) by simp
  then have "dm_reach False ?s2"
    using dm_reach.step[OF _ dm_step.opn_checked[of ?s1 1 False "[0x73]" 0 "0x101" 0 drv]] k ex_check(2) by simp
  then have "dm_reach False ?s3"
    using dm_reach.step[OF _ dm_step.opn_taken[of ?s2 0 0 0 "0x101" drv 0 x 0 drv False]] x(1) by (simp add: fun_upd_twist)
  then have "dm_reach False ?s4"
    using dm_reach.step[OF _ dm_step.opn_taken[of ?s3 1 0 0 "0x101" drv 1 y 1 drv False]] y(1) by simp
  then have "dm_reach False ?s5"
    using dm_reach.step[OF _ dm_step.opened[of ?s4 0 0 False 0 E_OK]] by (simp add: fun_upd_twist)
  then have "dm_reach False ?s6"
    using dm_reach.step[OF _ dm_step.opened[of ?s5 1 1 False 1 E_OK]] by simp
  then show ?thesis using x(4) y(2,3)
    by (intro exI[of _ ?s6]) (simp add: opn_end_def knl_check_devdesc_def OPNCB_def MAX_OPNDEV_def)
qed

text \<open>
  C32. Exclusive opening. Any number of tasks, on both cores, open devices (with or without success), close descriptors and register and unregister
  devices, in any interleaving, from the initialization of the device manager on; the drivers return what they like. Provided that \<open>LockDM\<close> excludes, in every state that is reached
  each open control block is in one queue at most, and no two descriptors on overlapping units of a device (the physical device overlaps all its units) conflict:
  when one excludes readers the other is not open for reading, when one excludes writers the other is not open for writing. On the two cores \<open>LockDM\<close> does not exclude
  (\<open>mlock_not_exclusive\<close>: two calls can both get the free lock), and without exclusion two tasks are given a descriptor each for the same unit although both open it exclusively.
  The requests, which descriptors being closed wait for, and the end of the device manager, which closes descriptors that tasks may still be opening, are not part of these runs.
\<close>
theorem open_modes_exclusive:
  assumes "dm_reach True s"
  shows "opn_wf (dst s) \<and> modes_ok (dst s) \<and>
    (\<forall>dd dd' p q. knl_check_devdesc dd 0 (dst s) = Inr p \<and> knl_check_devdesc dd' 0 (dst s) = Inr q \<and> p \<noteq> q \<and>
       od_dev (opn (dst s) p) = od_dev (opn (dst s) q) \<longrightarrow> excl_ok (opn (dst s) p) (opn (dst s) q)) \<and>
    (\<exists>x p q. dm_reach False x \<and> knl_check_devdesc (DD p) 0 (dst x) = Inr p \<and> knl_check_devdesc (DD q) 0 (dst x) = Inr q \<and> p \<noteq> q \<and>
       od_dev (opn (dst x) p) = od_dev (opn (dst x) q) \<and> unitno (opn (dst x) p) = unitno (opn (dst x) q) \<and>
       omode (opn (dst x) p) AND TD_EXCL \<noteq> 0 \<and> omode (opn (dst x) q) AND TD_EXCL \<noteq> 0)"
proof (intro conjI allI impI)
  have D: "dm_data (dst s)" using dm_reach_ok[OF assms] by (simp add: dm_ok_def)
  then show "opn_wf (dst s)" "modes_ok (dst s)" by (simp_all add: dm_data_def)
  have v: "queued p (dst s)" if "knl_check_devdesc dd 0 (dst s) = Inr p" for dd p
    using that D by (auto simp: knl_check_devdesc_def OPNCB_def dm_data_def split: if_splits)
  fix dd dd' p q
  assume a: "knl_check_devdesc dd 0 (dst s) = Inr p \<and> knl_check_devdesc dd' 0 (dst s) = Inr q \<and> p \<noteq> q \<and>
      od_dev (opn (dst s) p) = od_dev (opn (dst s) q)"
  then have "queued p (dst s)" "queued q (dst s)" using v by auto
  then show "excl_ok (opn (dst s) p) (opn (dst s) q)" using a D unfolding queued_def dm_data_def modes_ok_def by metis
next
  obtain x where x: "dm_reach False x" "knl_check_devdesc 1 0 (dst x) = Inr 0" "knl_check_devdesc 2 0 (dst x) = Inr 1"
    "\<forall>p\<in>{0, 1}. od_dev (opn (dst x) p) = 0 \<and> unitno (opn (dst x) p) = 0 \<and> omode (opn (dst x) p) = 0x101"
    using ex_both by blast
  then show "\<exists>x p q. dm_reach False x \<and> knl_check_devdesc (DD p) 0 (dst x) = Inr p \<and> knl_check_devdesc (DD q) 0 (dst x) = Inr q \<and> p \<noteq> q \<and>
       od_dev (opn (dst x) p) = od_dev (opn (dst x) q) \<and> unitno (opn (dst x) p) = unitno (opn (dst x) q) \<and>
       omode (opn (dst x) p) AND TD_EXCL \<noteq> 0 \<and> omode (opn (dst x) q) AND TD_EXCL \<noteq> 0"
    by (intro exI[of _ x] exI[of _ 0] exI[of _ 1]) (simp add: DD_def)
qed

theorem open_modes_exclusive_witness: "\<exists>s. dm_reach True s \<and> knl_check_devdesc 1 0 (dst s) = Inr 0 \<and> opn_wf (dst s) \<and> modes_ok (dst s)"
proof -
  obtain s where s: "dm_reach True s" "knl_check_devdesc 1 0 (dst s) = Inr 0" using ex_opened by blast
  then show ?thesis using open_modes_exclusive[OF s(1)] by blast
qed

subsection \<open>Tasks that make requests\<close>

text \<open>
  Where a task is: in no call, in the driver with a new request, in the driver waiting for the request. Each step is a part of the code between \<open>LockDM\<close> and \<open>UnlockDM\<close>, so
  these are the interleavings when the lock excludes.
\<close>

datatype rq_pc = R_Out | R_Exec nat nat | R_Wait nat nat

record rqsys =
  rst :: devst
  rpcs :: "nat \<Rightarrow> rq_pc"

text \<open>What drivers and calls that make no request leave alone; a driver sets the size and the error of a request.\<close>

definition same_req :: "devst \<Rightarrow> devst \<Rightarrow> bool" where
  "same_req s t \<longleftrightarrow> free_req t = free_req s \<and> (\<forall>p. requestq (opn t p) = requestq (opn s p)) \<and>
     (\<forall>r. rq_opn (rqs t r) = rq_opn (rqs s r) \<and> rq_tskid (rqs t r) = rq_tskid (rqs s r) \<and> dr_next (req (rqs t r)) = dr_next (req (rqs s r)))"

inductive rq_step :: "rqsys \<Rightarrow> rqsys \<Rightarrow> bool" where
  refused: "rpcs s t = R_Out \<Longrightarrow> req_begin c dd start buf sz cmd (rst s) = (x, Inl er) \<Longrightarrow> rq_step s (s\<lparr>rst := x\<rparr>)"
| requested: "rpcs s t = R_Out \<Longrightarrow> tk_get_tid c (kst (rst s)) > 0 \<Longrightarrow> req_begin c dd start buf sz cmd (rst s) = (x, Inr r) \<Longrightarrow>
    rq_step s \<lparr>rst = x, rpcs = (rpcs s)(t := R_Exec (OPNCB dd) r)\<rparr>"
| executed: "rpcs s t = R_Exec p r \<Longrightarrow> rq_step s \<lparr>rst = fst (req_end c p r er (rst s)), rpcs = (rpcs s)(t := R_Out)\<rparr>"
| no_wait: "rpcs s t = R_Out \<Longrightarrow> rid \<noteq> 0 \<Longrightarrow> wai_begin c dd rid (rst s) = (x, Inl er) \<Longrightarrow> rq_step s (s\<lparr>rst := x\<rparr>)"
| waiting: "rpcs s t = R_Out \<Longrightarrow> rid \<noteq> 0 \<Longrightarrow> tk_get_tid c (kst (rst s)) > 0 \<Longrightarrow> wai_begin c dd rid (rst s) = (x, Inr (p, r, n)) \<Longrightarrow>
    rq_step s \<lparr>rst = x, rpcs = (rpcs s)(t := R_Wait p r)\<rparr>"
| waited: "rpcs s t = R_Wait p r \<Longrightarrow> wai_end c p r 1 (REQID r) reqno (rst s) = Some (x, v, res) \<Longrightarrow>
    rq_step s \<lparr>rst = x, rpcs = (rpcs s)(t := R_Out)\<rparr>"
| others: "same_req (rst s) x \<Longrightarrow> rq_step s (s\<lparr>rst := x\<rparr>)"

inductive rq_reach :: "rqsys \<Rightarrow> bool" where
  start: "\<forall>p. requestq (opn s p) = [] \<Longrightarrow> \<forall>r. rq_opn (rqs s r) = None \<Longrightarrow> knl_initialize_devmgr e c s = Some (x, E_OK) \<Longrightarrow>
    rq_reach \<lparr>rst = x, rpcs = (\<lambda>_. R_Out)\<rparr>"
| step: "rq_reach s \<Longrightarrow> rq_step s t \<Longrightarrow> rq_reach t"

fun uses :: "rq_pc \<Rightarrow> nat option" where
  "uses (R_Exec p r) = Some r" | "uses (R_Wait p r) = Some r" | "uses R_Out = None"

text \<open>The request that a task uses is in the queue of the descriptor it named, marked with the ID of a task, and used by no other task.\<close>

definition use_ok :: "devst \<Rightarrow> rq_pc \<Rightarrow> bool" where
  "use_ok x pc = (case pc of
     R_Exec p r \<Rightarrow> rq_opn (rqs x r) = Some p \<and> rq_tskid (rqs x r) > 0
   | R_Wait p r \<Rightarrow> rq_opn (rqs x r) = Some p \<and> rq_tskid (rqs x r) > 0 \<and> dr_next (req (rqs x r)) = None
   | R_Out \<Rightarrow> True)"

definition reqs_ok :: "rqsys \<Rightarrow> bool" where
  "reqs_ok s \<longleftrightarrow> req_wf (rst s) \<and> (\<forall>t. use_ok (rst s) (rpcs s t)) \<and>
     (\<forall>t u r. t \<noteq> u \<longrightarrow> uses (rpcs s t) = Some r \<longrightarrow> uses (rpcs s u) \<noteq> Some r)"

lemma reqs_okI:
  assumes ok: "reqs_ok s" and x: "req_wf x" "use_ok x pc"
    and same: "\<And>r. (\<forall>q. uses (rpcs s t) = Some q \<longrightarrow> r \<noteq> q) \<Longrightarrow> rq_opn (rqs (rst s) r) \<noteq> None \<Longrightarrow> rq_tskid (rqs (rst s) r) > 0 \<Longrightarrow>
      rqs x r = rqs (rst s) r"
    and mine: "\<And>r. uses pc = Some r \<Longrightarrow> rq_opn (rqs (rst s) r) = None \<or> rq_tskid (rqs (rst s) r) \<le> 0"
  shows "reqs_ok \<lparr>rst = x, rpcs = (rpcs s)(t := pc)\<rparr>"
proof -
  have u: "rq_opn (rqs (rst s) r) \<noteq> None \<and> rq_tskid (rqs (rst s) r) > 0" if "uses (rpcs s v) = Some r" for v r
  proof -
    have "use_ok (rst s) (rpcs s v)" using ok by (simp add: reqs_ok_def)
    then show ?thesis using that by (cases "rpcs s v") (auto simp: use_ok_def)
  qed
  have o: "use_ok x (rpcs s v)" if "v \<noteq> t" for v
  proof (cases "uses (rpcs s v)")
    case (Some r)
    have "uses (rpcs s t) = Some q \<longrightarrow> r \<noteq> q" for q using ok that Some unfolding reqs_ok_def by metis
    then have e: "rqs x r = rqs (rst s) r" using same[of r] u[OF Some] by blast
    have "use_ok (rst s) (rpcs s v)" using ok by (simp add: reqs_ok_def)
    then show ?thesis using Some e by (cases "rpcs s v") (auto simp: use_ok_def)
  next
    case None
    then show ?thesis by (cases "rpcs s v") (auto simp: use_ok_def)
  qed
  have m: "uses (rpcs s v) \<noteq> Some r" if "uses pc = Some r" for v r using u[of v r] mine[OF that] by auto
  have d: "uses (rpcs s v) = Some r \<Longrightarrow> v \<noteq> w \<Longrightarrow> uses (rpcs s w) \<noteq> Some r" for v w r using ok unfolding reqs_ok_def by blast
  show ?thesis
    unfolding reqs_ok_def using x o m d by (auto split: if_splits)
qed

lemma req_begin_ok:
  assumes "req_wf s" "req_begin c dd start buf sz cmd s = (s', Inr r)"
  shows "req_wf s' \<and> r \<in> set (free_req s) \<and> rq_opn (rqs s r) = None \<and> requestq (opn s' (OPNCB dd)) = requestq (opn s (OPNCB dd)) @ [r] \<and>
    rq_opn (rqs s' r) = Some (OPNCB dd) \<and> rq_tskid (rqs s' r) = tk_get_tid c (kst s) \<and> (\<forall>q. q \<noteq> r \<longrightarrow> rqs s' q = rqs s q)"
proof -
  obtain s1 where s1: "newReqCB (OPNCB dd) s = (Some r, s1)"
    and s': "free_req s' = free_req s1" "opn s' = opn s1" "\<And>x. rq_opn (rqs s' x) = rq_opn (rqs s1 x)" "\<And>x. x \<noteq> r \<Longrightarrow> rqs s' x = rqs s1 x"
      "rq_tskid (rqs s' r) = tk_get_tid c (kst s1)"
    using assms(2) by (auto simp: req_begin_def knl_check_devdesc_def split: sum.splits prod.splits option.splits if_splits)
  have s1': "kst s1 = kst s" "\<And>x. x \<noteq> r \<Longrightarrow> rqs s1 x = rqs s x"
    using s1 by (auto simp: newReqCB_def Let_def split: list.splits)
  note k = newReqCB_ok[OF assms(1) s1]
  then have "req_wf s'" using req_wf_cong[of s1 s'] s' by simp
  moreover have "rq_opn (rqs s r) = None" using assms(1) k by (simp add: req_wf_def)
  ultimately show ?thesis using k s' s1' by simp
qed

lemma req_end_ok:
  assumes "req_wf s" "rq_opn (rqs s r) = Some p"
  shows "req_wf (fst (req_end c p r er s)) \<and> (\<forall>q. q \<noteq> r \<longrightarrow> rqs (fst (req_end c p r er s)) q = rqs s q) \<and>
    (er < E_OK \<longrightarrow> r \<in> set (free_req (fst (req_end c p r er s))) \<and> snd (req_end c p r er s) = er) \<and>
    (\<not> er < E_OK \<longrightarrow> r \<in> set (requestq (opn (fst (req_end c p r er s)) p)) \<and> rq_tskid (rqs (fst (req_end c p r er s)) r) = 0 \<and>
       snd (req_end c p r er s) = REQID r)"
proof -
  let ?s = "note_abort c p (upd_req r (\<lambda>R. R\<lparr>rq_tskid := 0\<rparr>) s)"
  have w: "req_wf ?s" by (rule req_wf_cong[OF assms(1)]) simp_all
  have r': "rq_opn (rqs ?s r) = Some p" using assms(2) by simp
  have q: "r \<in> set (requestq (opn s p))" using assms by (simp add: req_wf_def)
  have d: "rqs (knl_delReqCB r ?s) = (rqs ?s)(r := (rqs ?s r)\<lparr>rq_opn := None\<rparr>)" using r' by (simp add: knl_delReqCB_def Let_def)
  show ?thesis using w delReqCB_ok[OF w r'] q d by (simp add: req_end_def Let_def)
qed

lemma wai_begin_ok:
  assumes "req_wf s" "rid \<noteq> 0" "wai_begin c dd rid s = (s', Inr (p, r, n))"
  shows "req_wf s' \<and> n = 1 \<and> rid = REQID r \<and> rq_opn (rqs s r) = Some p \<and> rq_tskid (rqs s r) \<le> 0 \<and> rq_opn (rqs s' r) = Some p \<and>
    rq_tskid (rqs s' r) = tk_get_tid c (kst s) \<and> dr_next (req (rqs s' r)) = None \<and> (\<forall>q. q \<noteq> r \<longrightarrow> rqs s' q = rqs s q)"
proof -
  obtain q where q: "knl_check_devdesc dd 0 s = Inr q" using assms(2,3) by (auto simp: wai_begin_def Let_def split: sum.splits)
  obtain x where x: "knl_check_reqid rid q s = Some x" using assms(2,3) q by (auto simp: wai_begin_def Let_def split: option.splits)
  have e: "rid = REQID x" "rq_opn (rqs s x) = Some q"
    using x by (auto simp: knl_check_reqid_def REQCB_def REQID_def split: if_splits)
  have g: "\<not> (nwaireq (opn s q) > 0 \<or> rq_tskid (rqs s x) > 0)" using assms(2,3) q x by (auto simp: wai_begin_def Let_def split: if_splits)
  then have s': "p = q" "r = x" "n = 1"
    "s' = upd_opn q (\<lambda>P. P\<lparr>waitone := waitone P + 1\<rparr>)
       (upd_req x (\<lambda>R. R\<lparr>rq_tskid := tk_get_tid c (kst s), req := (req R)\<lparr>dr_next := None\<rparr>\<rparr>) s)"
    using assms(2,3) q x by (auto simp: wai_begin_def Let_def)
  have "req_wf s'" by (rule req_wf_cong[OF assms(1)]) (simp_all add: s'(4))
  then show ?thesis using e g by (simp add: s')
qed

lemma wai_end_ok:
  fixes reqno :: int
  assumes "req_wf s" "rq_opn (rqs s r) = Some p" "dr_next (req (rqs s r)) = None"
  shows "\<exists>s' v res. wai_end c p r 1 (REQID r) reqno s = Some (s', v, res) \<and> req_wf s' \<and> (\<forall>q. q \<noteq> r \<longrightarrow> rqs s' q = rqs s q) \<and>
      (reqno = 0 \<longrightarrow> v = REQID r \<and> res = Some (dr_asize (req (rqs s r)), dr_error (req (rqs s r))) \<and> r \<in> set (free_req s')) \<and>
      (reqno \<noteq> 0 \<longrightarrow> v = (if reqno < 0 then reqno else E_SYS) \<and> res = None \<and> r \<in> set (requestq (opn s' p)) \<and> rq_tskid (rqs s' r) = 0)"
proof -
  define s0 where "s0 = note_abort c p (upd_opn p (\<lambda>P. P\<lparr>waitone := waitone P - 1\<rparr>) s)"
  have s0: "rqs s0 = rqs s" "free_req s0 = free_req s" "\<And>q. requestq (opn s0 q) = requestq (opn s q)"
    by (simp_all add: s0_def)
  define s1 where "s1 = upd_req r (\<lambda>R. R\<lparr>rq_tskid := 0\<rparr>) s0"
  let ?out = "if reqno = 0 then Some (r, dr_asize (req (rqs s r)), dr_error (req (rqs s r))) else None"
  have n0: "REQID r \<noteq> 0" "REQCB (REQID r) = r" "\<not> REQID r < 1" by (simp_all add: REQID_def REQCB_def)
  have e: "wai_results (Some r) reqno None s0 = Some (s1, ?out)"
    using wai_results_one[of s0 r reqno None] assms(3) by (simp add: s0 s1_def)
  have w: "req_wf s1" by (rule req_wf_cong[OF assms(1)]) (simp_all add: s0 s1_def)
  have r': "rq_opn (rqs s1 r) = Some p" "rq_tskid (rqs s1 r) = 0" using assms(2) by (simp_all add: s0 s1_def)
  have q: "r \<in> set (requestq (opn s1 p))" using assms(1,2) by (simp add: req_wf_def s0 s1_def)
  have o: "rqs s1 q = rqs s q" if "q \<noteq> r" for q using that by (simp add: s0 s1_def)
  have d: "rqs (knl_delReqCB r s1) = (rqs s1)(r := (rqs s1 r)\<lparr>rq_opn := None\<rparr>)" using r' by (simp add: knl_delReqCB_def Let_def)
  have n: "note_abort c p (upd_opn p (\<lambda>P. if REQID r = 0 then P\<lparr>nwaireq := 0\<rparr> else P\<lparr>waitone := waitone P - 1\<rparr>) s) = s0"
    using n0 by (simp add: s0_def)
  show ?thesis
  proof (cases "reqno = 0")
    case True
    then have "wai_end c p r 1 (REQID r) reqno s =
        Some (knl_delReqCB r s1, REQID r, Some (dr_asize (req (rqs s r)), dr_error (req (rqs s r))))"
      using n0 unfolding wai_end_def Let_def n e by simp
    then show ?thesis using True delReqCB_ok[OF w r'(1)] o d by simp
  next
    case False
    then have "wai_end c p r 1 (REQID r) reqno s = Some (s1, if reqno < 0 then reqno else E_SYS, None)"
      using n0 unfolding wai_end_def Let_def n e by auto
    then show ?thesis using False w q r' o by simp
  qed
qed

lemma rq_step_ok:
  assumes "rq_step s s'" "reqs_ok s"
  shows "reqs_ok s'"
proof -
  have w: "req_wf (rst s)" and u: "use_ok (rst s) (rpcs s t)" for t using assms(2) by (simp_all add: reqs_ok_def)
  show ?thesis
    using assms(1)
  proof cases
    case (refused t c dd start buf sz cmd x er)
    then have "x = rst s"
      by (auto simp: req_begin_def newReqCB_def Let_def split: sum.splits prod.splits option.splits list.splits)
    then show ?thesis using refused assms(2) by simp
  next
    case (requested t c dd start buf sz cmd x r)
    note R = req_begin_ok[OF w requested(4)]
    have "use_ok x (R_Exec (OPNCB dd) r)" using R requested(3) by (simp add: use_ok_def)
    then show ?thesis unfolding requested(1)
    proof (rule reqs_okI[OF assms(2) conjunct1[OF R]])
      fix q assume "rq_opn (rqs (rst s) q) \<noteq> None"
      then have "q \<noteq> r" using R by auto
      then show "rqs x q = rqs (rst s) q" using R by blast
    qed (use R in auto)
  next
    case (executed t p r c er)
    have r: "rq_opn (rqs (rst s) r) = Some p" using u[of t] executed(2) by (simp add: use_ok_def)
    note R = req_end_ok[OF w r, of c er]
    have "use_ok (fst (req_end c p r er (rst s))) R_Out" by (simp add: use_ok_def)
    then show ?thesis using executed reqs_okI[OF assms(2) conjunct1[OF R], of R_Out t] R by simp
  next
    case (no_wait t rid c dd x er)
    then have "x = rst s" by (auto simp: wai_begin_def Let_def split: sum.splits option.splits if_splits)
    then show ?thesis using no_wait assms(2) by simp
  next
    case (waiting t rid c dd x p r n)
    note R = wai_begin_ok[OF w waiting(3,5)]
    have "use_ok x (R_Wait p r)" using R waiting(4) by (simp add: use_ok_def)
    then show ?thesis unfolding waiting(1)
    proof (rule reqs_okI[OF assms(2) conjunct1[OF R]])
      fix q assume "rq_tskid (rqs (rst s) q) > 0"
      then have "q \<noteq> r" using R by auto
      then show "rqs x q = rqs (rst s) q" using R by blast
    qed (use R in auto)
  next
    case (waited t p r c reqno x v res)
    have r: "rq_opn (rqs (rst s) r) = Some p" "dr_next (req (rqs (rst s) r)) = None" using u[of t] waited(2) by (simp_all add: use_ok_def)
    have x: "req_wf x" "\<And>q. q \<noteq> r \<Longrightarrow> rqs x q = rqs (rst s) q" using wai_end_ok[OF w r, of c reqno] waited(3) by auto
    have "use_ok x R_Out" by (simp add: use_ok_def)
    then show ?thesis using waited reqs_okI[OF assms(2) x(1), of R_Out t] x(2) by simp
  next
    case (others x)
    have "req_wf x" by (rule req_wf_cong[OF w]) (use others in \<open>simp_all add: same_req_def\<close>)
    moreover have "use_ok x (rpcs s t)" for t
      using u[of t] others(2) by (cases "rpcs s t") (simp_all add: use_ok_def same_req_def)
    ultimately show ?thesis using others assms(2) by (simp add: reqs_ok_def)
  qed
qed

lemma rq_reach_ok: "rq_reach s \<Longrightarrow> reqs_ok s"
proof (induction rule: rq_reach.induct)
  case (start s e c x)
  note E = initialize_devmgr_eff[OF start(3)]
  have "req_wf x" using start(1,2) by (auto simp: req_wf_def E)
  then show ?case by (simp add: reqs_ok_def use_ok_def)
qed (rule rq_step_ok)

text \<open>
  C33. The life of a request. \<open>knl_request\<close> takes a free request block and puts it at the end of the descriptor's queue; when the
  driver refuses the request, the block is free again at once, otherwise it stays in the queue with no task at it. \<open>tk_wai_dev\<close> for the request delivers its size and error and frees
  its block when the driver reports it complete; when the driver returns an error, such as a timeout, that error is
  returned and the request stays in the queue, so that it can be waited for again. In every state that any number of tasks reach from the initialization on with new requests and waits for
  single requests, whatever the drivers return, no block is lost, in two queues or used by two tasks. This
  assumes that \<open>LockDM\<close> excludes: each part of the code between \<open>LockDM\<close> and \<open>UnlockDM\<close> is one step. Between tasks of one core it does, across the two cores it does not (\<open>mlock_not_exclusive\<close>).
  It also assumes that no descriptor is closed meanwhile and that no task waits for any of the requests of a descriptor (ID 0), and that drivers leave the link of a request that a task waits for alone.
\<close>
theorem request_life:
  assumes "req_wf s"
  shows "(\<forall>s' r. req_begin c dd start buf sz cmd s = (s', Inr r) \<longrightarrow>
      req_wf s' \<and> r \<in> set (free_req s) \<and> requestq (opn s' (OPNCB dd)) = requestq (opn s (OPNCB dd)) @ [r]) \<and>
    (\<forall>r p. rq_opn (rqs s r) = Some p \<longrightarrow> req_wf (fst (req_end c p r er s)) \<and>
       (er < E_OK \<longrightarrow> r \<in> set (free_req (fst (req_end c p r er s))) \<and> snd (req_end c p r er s) = er) \<and>
       (\<not> er < E_OK \<longrightarrow> r \<in> set (requestq (opn (fst (req_end c p r er s)) p)) \<and> rq_tskid (rqs (fst (req_end c p r er s)) r) = 0 \<and>
          snd (req_end c p r er s) = REQID r)) \<and>
    (\<forall>r p (reqno :: int). rq_opn (rqs s r) = Some p \<and> dr_next (req (rqs s r)) = None \<longrightarrow>
       (\<exists>s' v res. wai_end c p r 1 (REQID r) reqno s = Some (s', v, res) \<and> req_wf s' \<and>
          (reqno = 0 \<longrightarrow> v = REQID r \<and> res = Some (dr_asize (req (rqs s r)), dr_error (req (rqs s r))) \<and> r \<in> set (free_req s')) \<and>
          (reqno \<noteq> 0 \<longrightarrow> v = (if reqno < 0 then reqno else E_SYS) \<and> res = None \<and> r \<in> set (requestq (opn s' p)) \<and> rq_tskid (rqs s' r) = 0))) \<and>
    (\<forall>x. rq_reach x \<longrightarrow> req_wf (rst x) \<and>
       (\<forall>t u r. t \<noteq> u \<and> uses (rpcs x t) = Some r \<longrightarrow> uses (rpcs x u) \<noteq> Some r \<and> r \<notin> set (free_req (rst x))))"
proof (intro conjI allI impI)
  show "req_wf s'" "r \<in> set (free_req s)" "requestq (opn s' (OPNCB dd)) = requestq (opn s (OPNCB dd)) @ [r]"
    if "req_begin c dd start buf sz cmd s = (s', Inr r)" for s' r
    using req_begin_ok[OF assms that] by simp_all
  fix r p assume r: "rq_opn (rqs s r) = Some p"
  show "req_wf (fst (req_end c p r er s))" using req_end_ok[OF assms r] by simp
  show "r \<in> set (free_req (fst (req_end c p r er s)))" "snd (req_end c p r er s) = er" if "er < E_OK"
    using req_end_ok[OF assms r] that by simp_all
  show "r \<in> set (requestq (opn (fst (req_end c p r er s)) p))" "rq_tskid (rqs (fst (req_end c p r er s)) r) = 0"
    "snd (req_end c p r er s) = REQID r" if "\<not> er < E_OK"
    using req_end_ok[OF assms r] that by simp_all
next
  fix r p and reqno :: int
  assume "rq_opn (rqs s r) = Some p \<and> dr_next (req (rqs s r)) = None"
  then show "\<exists>s' v res. wai_end c p r 1 (REQID r) reqno s = Some (s', v, res) \<and> req_wf s' \<and>
          (reqno = 0 \<longrightarrow> v = REQID r \<and> res = Some (dr_asize (req (rqs s r)), dr_error (req (rqs s r))) \<and> r \<in> set (free_req s')) \<and>
          (reqno \<noteq> 0 \<longrightarrow> v = (if reqno < 0 then reqno else E_SYS) \<and> res = None \<and> r \<in> set (requestq (opn s' p)) \<and> rq_tskid (rqs s' r) = 0)"
    using wai_end_ok[OF assms, of r p c reqno] by blast
next
  fix x assume x: "rq_reach x"
  have ok: "reqs_ok x" by (rule rq_reach_ok[OF x])
  then show w: "req_wf (rst x)" by (simp add: reqs_ok_def)
  fix t u r assume a: "t \<noteq> u \<and> uses (rpcs x t) = Some r"
  then show "uses (rpcs x u) \<noteq> Some r" using ok unfolding reqs_ok_def by blast
  have "use_ok (rst x) (rpcs x t)" using ok by (simp add: reqs_ok_def)
  then show "r \<notin> set (free_req (rst x))" using w a by (cases "rpcs x t") (auto simp: use_ok_def req_wf_def)
qed

text \<open>Request 0 is in the queue of descriptor 1.\<close>

definition ex_req :: devst where
  "ex_req = ex_open\<lparr>opn := (opn ex_open)(0 := (opn ex_open 0)\<lparr>requestq := [0]\<rparr>),
     rqs := (rqs ex_open)(0 := (rqs ex_open 0)\<lparr>rq_opn := Some 0, rq_tskid := 1, req := (req (rqs ex_open 0))\<lparr>dr_asize := 7\<rparr>\<rparr>),
     free_req := [1..<MAX_REQDEV]\<rparr>"

theorem request_life_witness:
  "\<exists>s'. wai_end 0 0 0 1 1 0 ex_req = Some (s', 1, Some (7, 0)) \<and> 0 \<in> set (free_req s')"
proof -
  have w: "req_wf ex_req"
    by (auto simp: req_wf_def ex_req_def ex_open_def ex_dev_def)
  have r: "rq_opn (rqs ex_req 0) = Some 0" "req (rqs ex_req 0) = (req (rqs ex_open 0))\<lparr>dr_asize := 7\<rparr>" "REQID 0 = 1"
    "req (rqs ex_open 0) = \<lparr>dr_next = None, dr_devid = 0, dr_cmd = 0, dr_abort = False, dr_start = 0,
       dr_size = 0, dr_buf = 0, dr_asize = 0, dr_error = 0\<rparr>"
    by (simp_all add: ex_req_def REQID_def ex_open_def ex_dev_def)
  show ?thesis
    using request_life[OF w, of 0 0 0 0 0 0 0, THEN conjunct2, THEN conjunct2, THEN conjunct1, rule_format, of 0 0 0] r by auto
qed

end
