(* ===== verification/Cpu_Calls.thy ===== *)
theory Cpu_Calls
  imports Task_Sync Smp_Ipi
begin

text \<open>
  \<^verbatim>\<open>kernel/tkernel/cpuctl.c\<close>, \<^verbatim>\<open>int.c\<close>, \<^verbatim>\<open>misc_calls.c\<close>, the register access and stack painting of \<^verbatim>\<open>armv6m/cpu_cntl.c\<close>, the
  stack frames of \<^verbatim>\<open>armv6m/cpu_task.h\<close>, the interrupt handlers of \<^verbatim>\<open>armv6m/interrupt.c\<close>, and the interrupt controller
  calls of \<^verbatim>\<open>lib/libtk\<close>. The calls of \<^verbatim>\<open>cpuctl.c\<close> for coprocessors and for the debugger are compiled out.
\<close>

subsection \<open>Dispatch control (cpuctl.c)\<close>

definition tk_dis_dsp :: "nat \<Rightarrow> kstate \<Rightarrow> kstate \<times> int" where
  "tk_dis_dsp c s =
     (if in_loc c s then (s, E_CTX)
      else (upd_smp (\<lambda>m. m\<lparr>dispatch_disabled := (dispatch_disabled m)(c := DDS_DISABLE)\<rparr>) s, E_OK))"

definition tk_ena_dsp :: "nat \<Rightarrow> kstate \<Rightarrow> kstate \<times> int" where
  "tk_ena_dsp c s =
     (if in_loc c s then (s, E_CTX)
      else let s = upd_smp (\<lambda>m. m\<lparr>dispatch_disabled := (dispatch_disabled m)(c := DDS_ENABLE)\<rparr>) s
           in (if ctxtsk (smp s) c \<noteq> schedtsk (smp s) c then upd_smp (knl_dispatch c) s else s, E_OK))"

subsection \<open>Stack frames and registers (cpu\_task.h, cpu\_cntl.c)\<close>

text \<open>
  A task that does not run has its registers in an \<open>SStackFrame\<close> of 68 bytes at its saved stack pointer; the members are
  given by their addresses. \<open>ssp\<close> is the member \<open>tskctxb.ssp\<close> of the control blocks, in the calls below beside the kernel state.
\<close>

definition SStackFrame_size :: UW where "SStackFrame_size = 68"
definition f_exp_ret :: "UW \<Rightarrow> UW" where "f_exp_ret p = p"
definition f_r4 :: "UW \<Rightarrow> nat \<Rightarrow> UW" where "f_r4 p i = p + 4 + 4 * of_nat i"
definition f_r0 :: "UW \<Rightarrow> nat \<Rightarrow> UW" where "f_r0 p i = p + 36 + 4 * of_nat i"
definition f_ip :: "UW \<Rightarrow> UW" where "f_ip p = p + 52"
definition f_lr :: "UW \<Rightarrow> UW" where "f_lr p = p + 56"
definition f_pc :: "UW \<Rightarrow> UW" where "f_pc p = p + 60"
definition f_xpsr :: "UW \<Rightarrow> UW" where "f_xpsr p = p + 64"

type_synonym frames = "nat \<Rightarrow> UW"

abbreviation upd_mem :: "((UW \<Rightarrow> UB) \<Rightarrow> UW \<Rightarrow> UB) \<Rightarrow> kstate \<Rightarrow> kstate" where
  "upd_mem f s \<equiv> s\<lparr>mem := f (mem s)\<rparr>"

definition setup_frame :: "nat \<Rightarrow> frames \<times> kstate \<Rightarrow> frames \<times> kstate" where
  "setup_frame t = (\<lambda>(ssp, s).
     let p = isstack (tcb s t) - SStackFrame_size;
         s = upd_mem (st32 (f_exp_ret p) 0xFFFFFFF9) s;
         s = upd_mem (st32 (f_lr p) 0) s;
         s = upd_mem (st32 (f_xpsr p) 0x01000000) s;
         s = upd_mem (st32 (f_pc p) (task_entry (tcb s t) AND NOT 1)) s
     in (ssp(t := p), s))"

definition setup_frame_stacd :: "nat \<Rightarrow> int \<Rightarrow> frames \<times> kstate \<Rightarrow> frames \<times> kstate" where
  "setup_frame_stacd t stacd = (\<lambda>(ssp, s).
     (ssp, upd_mem (st32 (f_r0 (ssp t) 1) (exinf (tcb s t))) (upd_mem (st32 (f_r0 (ssp t) 0) (word_of_int stacd)) s)))"

record t_regs =
  rg_r :: "nat \<Rightarrow> UW"
  rg_lr :: UW

record t_eit =
  ei_pc :: UW
  ei_xpsr :: UW
  ei_taskmode :: UW

record t_cregs =
  cr_ssp :: UW

fun put_words :: "(nat \<Rightarrow> UW) \<Rightarrow> (nat \<Rightarrow> UW) \<Rightarrow> nat list \<Rightarrow> (UW \<Rightarrow> UB) \<Rightarrow> UW \<Rightarrow> UB" where
  "put_words a v [] m = m"
| "put_words a v (i # q) m = put_words a v q (st32 (a i) (v i) m)"

definition knl_set_reg ::
  "nat \<Rightarrow> t_regs option \<Rightarrow> t_eit option \<Rightarrow> t_cregs option \<Rightarrow> frames \<times> kstate \<Rightarrow> frames \<times> kstate" where
  "knl_set_reg t regs eit cregs = (\<lambda>(ssp, s).
     let p = (case cregs of Some k \<Rightarrow> cr_ssp k | None \<Rightarrow> ssp t);
         s = (case regs of None \<Rightarrow> s
              | Some R \<Rightarrow> upd_mem (put_words (\<lambda>i. f_r4 p (i - 4)) (rg_r R) [4..<12]) (upd_mem (put_words (f_r0 p) (rg_r R) [0..<4]) s));
         s = (case eit of None \<Rightarrow> s | Some E \<Rightarrow> upd_mem (st32 (f_pc p) (ei_pc E)) s)
     in (case cregs of None \<Rightarrow> ssp | Some k \<Rightarrow> ssp(t := cr_ssp k), s))"

type_synonym regbufs = "t_regs option \<times> t_eit option \<times> t_cregs option"

definition knl_get_reg :: "nat \<Rightarrow> regbufs \<Rightarrow> frames \<times> kstate \<Rightarrow> regbufs" where
  "knl_get_reg t = (\<lambda>(regs, eit, cregs) (ssp, s).
     let p = ssp t
     in (map_option (\<lambda>R. R\<lparr>rg_r := (\<lambda>i. if i < 4 then ld32 (f_r0 p i) (mem s) else if i < 12 then ld32 (f_r4 p (i - 4)) (mem s)
             else if i = 12 then ld32 (f_ip p) (mem s) else rg_r R i), rg_lr := ld32 (f_lr p) (mem s)\<rparr>) regs,
         map_option (\<lambda>E. E\<lparr>ei_pc := ld32 (f_pc p) (mem s), ei_taskmode := 0\<rparr>) eit,
         map_option (\<lambda>K. K\<lparr>cr_ssp := p\<rparr>) cregs))"

text \<open>The checks of both calls, and the state they refuse: a task that does not exist, or that a core still runs.\<close>

definition reg_check :: "nat \<Rightarrow> int \<Rightarrow> kstate \<Rightarrow> ER" where
  "reg_check c x s =
     (if in_indp c s then E_CTX
      else if CHECK_TSKID c x s \<noteq> E_OK then CHECK_TSKID c x s
      else if \<not> CHECK_NONSELF c x s then E_OBJ else E_OK)"

definition reg_error :: "nat \<Rightarrow> kstate \<Rightarrow> ER" where
  "reg_error t s = (if state (tcb s t) = TS_NONEXIST then E_NOEXS else if knl_is_ctxtsk t s then E_OBJ else E_OK)"

definition tk_set_reg ::
  "nat \<Rightarrow> int \<Rightarrow> t_regs option \<Rightarrow> t_eit option \<Rightarrow> t_cregs option \<Rightarrow> frames \<times> kstate \<Rightarrow> (frames \<times> kstate) \<times> int" where
  "tk_set_reg c x regs eit cregs = (\<lambda>(ssp, s).
     if reg_check c x s \<noteq> E_OK then ((ssp, s), reg_check c x s)
     else let t = get_tcb x; er = reg_error t s;
              (ssp, s) = (if er = E_OK then knl_set_reg t regs eit cregs (ssp, s) else (ssp, s))
          in ((ssp, END_CRITICAL_SECTION c s), er))"

definition tk_get_reg :: "nat \<Rightarrow> int \<Rightarrow> regbufs \<Rightarrow> frames \<times> kstate \<Rightarrow> kstate \<times> int \<times> regbufs" where
  "tk_get_reg c x b = (\<lambda>(ssp, s).
     if reg_check c x s \<noteq> E_OK then (s, reg_check c x s, b)
     else let t = get_tcb x; er = reg_error t s
          in (END_CRITICAL_SECTION c s, er, if er = E_OK then knl_get_reg t b (ssp, s) else b))"

text \<open>The stacks on which the dispatcher runs, one for each core, as words; \<open>knl_tmp_stack_used\<close> looks for the first word that has changed.\<close>

definition TMP_STACK_SIZE :: nat where "TMP_STACK_SIZE = 1024"
definition TMP_STACK_PAINT :: UW where "TMP_STACK_PAINT = 0xA5A5A5A5"

definition knl_tmp_stack_paint :: "(nat \<Rightarrow> nat \<Rightarrow> UW) \<Rightarrow> nat \<Rightarrow> nat \<Rightarrow> UW" where
  "knl_tmp_stack_paint st = (\<lambda>core i. if core < TK_MAX_CORE \<and> i < TMP_STACK_SIZE div 4 then TMP_STACK_PAINT else st core i)"

fun painted :: "(nat \<Rightarrow> UW) \<Rightarrow> nat \<Rightarrow> nat \<Rightarrow> nat" where
  "painted p i 0 = i"
| "painted p i (Suc n) = (if p i \<noteq> TMP_STACK_PAINT then i else painted p (Suc i) n)"

definition knl_tmp_stack_used :: "nat \<Rightarrow> (nat \<Rightarrow> nat \<Rightarrow> UW) \<Rightarrow> nat" where
  "knl_tmp_stack_used core st =
     (if core \<ge> TK_MAX_CORE then 0 else TMP_STACK_SIZE - painted (st core) 0 (TMP_STACK_SIZE div 4) * 4)"

subsection \<open>Interrupt handlers (int.c, interrupt.c)\<close>

text \<open>
  \<open>exchdr n\<close> is entry \<open>N_SYSVEC + n\<close> of the vector table \<open>exchdr_tbl\<close>, \<open>inthdr_tbl\<close> the table of handlers in a high-level
  language. Functions of the program are addresses too; \<open>hll\<close> and \<open>dflt\<close> are the ones of \<open>knl_hll_inthdr\<close> and \<open>Default_Handler\<close>.
\<close>

abbreviation (input) N_INTVEC :: UW where "N_INTVEC \<equiv> 32"
abbreviation (input) TA_ASM :: UW where "TA_ASM \<equiv> 0"
abbreviation (input) TA_HLNG :: UW where "TA_HLNG \<equiv> 1"

record intst =
  exchdr :: "UW \<Rightarrow> UW"
  inthdr_tbl :: "UW \<Rightarrow> UW"
  hll :: UW
  dflt :: UW

record t_dint =
  di_intatr :: UW
  di_inthdr :: UW

definition knl_define_inthdr :: "UW \<Rightarrow> UW \<Rightarrow> UW \<Rightarrow> intst \<Rightarrow> intst \<times> ER" where
  "knl_define_inthdr intno intatr inthdr v =
     (let (v, inthdr) =
        (if inthdr \<noteq> 0
         then (if intatr AND TA_HLNG \<noteq> 0 then (v\<lparr>inthdr_tbl := (inthdr_tbl v)(intno := inthdr)\<rparr>, hll v) else (v, inthdr))
         else (v, dflt v))
      in (v\<lparr>exchdr := (exchdr v)(intno := inthdr)\<rparr>, E_OK))"

definition tk_def_int :: "nat \<Rightarrow> UW \<Rightarrow> t_dint option \<Rightarrow> intst \<times> kstate \<Rightarrow> (intst \<times> kstate) \<times> int" where
  "tk_def_int c intno pk = (\<lambda>(v, s).
     if \<not> intno < N_INTVEC then ((v, s), E_PAR)
     else if (case pk of None \<Rightarrow> False | Some d \<Rightarrow> di_intatr d AND NOT (TA_HLNG OR TA_ASM) \<noteq> 0) then ((v, s), E_RSATR)
     else let (atr, hdr) = (case pk of None \<Rightarrow> (0, 0) | Some d \<Rightarrow> (di_intatr d, di_inthdr d));
              (v, er) = knl_define_inthdr intno atr hdr v
          in ((v, END_CRITICAL_SECTION c s), er))"

text \<open>\<open>run\<close> is what the handler at an address does with the number of the interrupt it is called with.\<close>

definition knl_hll_inthdr :: "(UW \<Rightarrow> UW \<Rightarrow> kstate \<Rightarrow> kstate) \<Rightarrow> nat \<Rightarrow> UW \<Rightarrow> intst \<Rightarrow> kstate \<Rightarrow> kstate" where
  "knl_hll_inthdr run c ipsr v s =
     (let s = knl_EnterTaskIndependent c s; intno = ipsr - 16; s = run (inthdr_tbl v intno) intno s
      in knl_LeaveTaskIndependent c s)"

definition take_interrupt :: "(UW \<Rightarrow> UW \<Rightarrow> kstate \<Rightarrow> kstate) \<Rightarrow> nat \<Rightarrow> UW \<Rightarrow> intst \<Rightarrow> kstate \<Rightarrow> kstate" where
  "take_interrupt run c intno v s =
     (if exchdr v intno = hll v then knl_hll_inthdr run c (intno + 16) v s else run (exchdr v intno) intno s)"

definition knl_systim_inthdr :: "thenv \<Rightarrow> nat \<Rightarrow> kstate \<Rightarrow> kstate option" where
  "knl_systim_inthdr e c s =
     map_option (knl_LeaveTaskIndependent c) (knl_timer_handler e c (knl_EnterTaskIndependent c s))"

subsection \<open>Interrupt controller (libtk)\<close>

text \<open>
  The controller of one core: the enabled and the pending interrupts as words, the priorities as bytes. Writing a word
  to the set and clear registers changes the bits that are set in it.
\<close>

record nvic =
  nv_en :: UW
  nv_pend :: UW
  nv_ipr :: "UW \<Rightarrow> UB"

definition EnableInt_nvic :: "UW \<Rightarrow> UW \<Rightarrow> nvic \<Rightarrow> nvic" where
  "EnableInt_nvic intno level v =
     (let v = v\<lparr>nv_ipr := (nv_ipr v)(intno := ucast (push_bit 6 level))\<rparr>
      in v\<lparr>nv_en := nv_en v OR push_bit (unat intno mod 32) 1\<rparr>)"

definition DisableInt_nvic :: "UW \<Rightarrow> nvic \<Rightarrow> nvic" where
  "DisableInt_nvic intno v = v\<lparr>nv_en := nv_en v AND NOT (push_bit (unat intno mod 32) 1)\<rparr>"

definition ClearInt_nvic :: "UW \<Rightarrow> nvic \<Rightarrow> nvic" where
  "ClearInt_nvic intno v = v\<lparr>nv_pend := nv_pend v AND NOT (push_bit (unat intno mod 32) 1)\<rparr>"

definition CheckInt_nvic :: "UW \<Rightarrow> nvic \<Rightarrow> bool" where
  "CheckInt_nvic intno v \<longleftrightarrow> nv_pend v AND push_bit (unat intno mod 32) 1 \<noteq> 0"

definition EnableInt :: "UW \<Rightarrow> UW \<Rightarrow> nvic \<Rightarrow> nvic" where
  "EnableInt intno level v = (if intno \<le> N_INTVEC - 1 then EnableInt_nvic intno level v else v)"

definition DisableInt :: "UW \<Rightarrow> nvic \<Rightarrow> nvic" where
  "DisableInt intno v = (if intno \<le> N_INTVEC - 1 then DisableInt_nvic intno v else v)"

definition ClearInt :: "UW \<Rightarrow> nvic \<Rightarrow> nvic" where
  "ClearInt intno v = (if intno \<le> N_INTVEC - 1 then ClearInt_nvic intno v else v)"

definition CheckInt :: "UW \<Rightarrow> nvic \<Rightarrow> bool" where
  "CheckInt intno v \<longleftrightarrow> intno \<le> N_INTVEC - 1 \<and> CheckInt_nvic intno v"

text \<open>The priority of the mailbox interrupt is set by reading and writing a whole word (smp\_rp2040.c).\<close>

definition knl_set_irq_priority :: "UW \<Rightarrow> UW \<Rightarrow> nvic \<Rightarrow> nvic" where
  "knl_set_irq_priority irq prio v =
     (let reg = irq div 4 * 4; sh = unat (irq mod 4 * 8); w = ld32 reg (nv_ipr v);
          w = w AND NOT (push_bit sh 0xFF); w = w OR push_bit sh (push_bit 6 (prio AND 3))
      in v\<lparr>nv_ipr := st32 reg w (nv_ipr v)\<rparr>)"

subsection \<open>References (misc\_calls.c)\<close>

definition tk_get_prc :: "nat \<Rightarrow> int" where "tk_get_prc c = int c + 1"

definition in_qtsk :: "nat \<Rightarrow> kstate \<Rightarrow> bool" where
  "in_qtsk c s \<longleftrightarrow> sysmode (tcb s (cur c s)) > isysmode (tcb s (cur c s))"

record t_rsys =
  sysstat :: UW
  runtskid :: int
  schedtskid :: int

definition tk_ref_sys :: "nat \<Rightarrow> kstate \<Rightarrow> t_rsys \<times> int" where
  "tk_ref_sys c s =
     (let st = (if in_indp c s then 4
                else let st = (if in_qtsk c s then 8 else 0);
                         st = (if in_loc c s then st OR 2 else st)
                     in (if in_ddsp c s then st OR 1 else st));
          idof = (\<lambda>o'. case o' of None \<Rightarrow> 0 | Some t \<Rightarrow> tskid (tcb s t))
      in (\<lparr>sysstat = st, runtskid = idof (ctxtsk (smp s) c), schedtskid = idof (schedtsk (smp s) c)\<rparr>, E_OK))"

record t_rver =
  maker :: UW
  prid :: UW
  spver :: UW
  prver :: UW
  prno :: "UW list"

definition tk_ref_ver :: "t_rver \<times> int" where
  "tk_ref_ver = (\<lparr>maker = 0, prid = 0, spver = 0x6000 OR push_bit 8 3 OR 0, prver = 3, prno = [0, 0, 0, 0]\<rparr>, E_OK)"

end
