(* ===== verification/Cpu_Props.thy ===== *)
theory Cpu_Props
  imports Cpu_Calls Dispatch_Props
begin

text \<open>
  What the calls of \<^verbatim>\<open>cpuctl.c\<close> and \<^verbatim>\<open>int.c\<close> promise: a core whose task has disabled dispatching keeps that task, with the
  window in which it does not; the registers of a task that does not run; the interrupt that reaches its handler.
\<close>

subsection \<open>The requests of a reschedule\<close>

lemma publish_ipi:
  "ipi_pending (publish T c sel e m) d =
     (if d = e \<and> e \<noteq> c \<and> e < TK_MAX_CORE \<and> bit (online_mask m) e \<and> schedtsk m e \<noteq> sel e
      then ipi_pending m d OR 1 else ipi_pending m d)"
  using core_bit_and[of e "online_mask m"]
  by (cases "e < TK_MAX_CORE") (auto simp: publish_def Let_def knl_smp_dispatch_request_def knl_ipi_send_def)

lemma publish_pendsv: "pendsv (publish T c sel e m) = pendsv m"
  by (auto simp: publish_def Let_def knl_smp_dispatch_request_def knl_ipi_send_def)

lemma resched_ipi:
  assumes "smp_excl (smp s)" "smp_aff (tcb s) (smp s)" "distinct (ready_list s)" "d < TK_MAX_CORE" "bit (online_mask (smp s)) d"
  shows "ipi_pending (resched_smp c s) d =
    (if d \<noteq> c \<and> schedtsk (resched_smp c s) d \<noteq> schedtsk (smp s) d then ipi_pending (smp s) d OR 1 else ipi_pending (smp s) d)"
proof -
  obtain h where h: "resched_smp c s = fold (publish (tcb s) c (selection s)) [0..<TK_MAX_CORE] ((smp s)\<lparr>rq_hist := h\<rparr>)"
    using resched_eq[OF assms(1-3)] by blast
  have sch: "schedtsk (resched_smp c s) d = selection s d" using schedtsk_resched[OF assms(1-3)] assms(4,5) by simp
  have "d = 0 \<or> d = 1" using assms(4) by (auto simp: less_cores)
  then show ?thesis unfolding sch using assms(4,5) by (auto simp: h publish_ipi less_cores)
qed

lemma resched_notify:
  assumes "kwf s" "d < TK_MAX_CORE" "bit (online_mask (smp s)) d"
  shows "ipi_pending (smp (knl_smp_reschedule_all c s)) d =
      (if d \<noteq> c \<and> schedtsk (smp (knl_smp_reschedule_all c s)) d \<noteq> schedtsk (smp s) d
       then ipi_pending (smp s) d OR 1 else ipi_pending (smp s) d) \<and>
    pendsv (smp (knl_smp_reschedule_all c s)) = pendsv (smp s)"
proof -
  note k = kwfD[OF assms(1)]
  show ?thesis
    using resched_ipi[OF k(4,5) distinct_ready_list[OF k(1)] assms(2,3), of c] by (simp add: knl_smp_reschedule_all_def)
qed

text \<open>
  No published choice goes unnoticed and none is announced in vain: a reschedule sends another online core a dispatch
  request exactly when it has changed the task selected for it, and never pends the dispatch exception itself.
\<close>
theorem reschedule_notifies:
  assumes "kwf s" "d < TK_MAX_CORE" "bit (online_mask (smp s)) d"
  shows "ipi_pending (smp (knl_smp_reschedule_all c s)) d =
      (if d \<noteq> c \<and> schedtsk (smp (knl_smp_reschedule_all c s)) d \<noteq> schedtsk (smp s) d
       then ipi_pending (smp s) d OR 1 else ipi_pending (smp s) d) \<and>
    pendsv (smp (knl_smp_reschedule_all c s)) = pendsv (smp s)"
  by (rule resched_notify[OF assms])

text \<open>Core 1 makes room on core 0 for task 1, which may run nowhere else.\<close>

definition ex_pinned :: kstate where
  "ex_pinned = upd_tcb 1 (\<lambda>T. T\<lparr>assprc := 1\<rparr>) ex_race"

lemma ex_pinned_sel:
  "que ex_pinned = que ex_race" "smp ex_pinned = smp ex_race" "rq ex_pinned = rq ex_race"
  "tcb ex_pinned = (tcb ex_race)(1 := (tcb ex_race 1)\<lparr>assprc := 1\<rparr>)"
  by (simp_all add: ex_pinned_def)

lemma kwf_ex_pinned: "kwf ex_pinned"
proof -
  note k = kwfD[OF kwf_ex_race]
  have ah: "at_home ((tcb ex_race 1)\<lparr>assprc := 1\<rparr>) q \<longleftrightarrow> at_home (tcb ex_race 1) q" for q
    by (cases q) (auto simp: at_home_def wring_def)
  have "loc_ok (tcb ex_pinned) (que ex_pinned)"
    unfolding ex_pinned_sel using k(1) ah loc_okD(3)[OF k(1)]
    by (intro loc_ok_same) (auto simp: needs_home_def wring_def)
  moreover have "tcbs_ok (tcb ex_pinned)"
    unfolding ex_pinned_sel using k(2) by (intro tcbs_ok_upd) (auto simp: tcb_ok_def dest: tcbs_okD)
  moreover have "smp_aff (tcb ex_pinned) (smp ex_pinned)"
  proof -
    have "ctxtsk (smp ex_race) c \<noteq> Some 1" "schedtsk (smp ex_race) c \<noteq> Some 1" for c
      by (auto simp: ex_race_def ex_smp_def split: if_splits)
    then show ?thesis using k(5) by (auto simp: ex_pinned_sel smp_aff_def)
  qed
  ultimately show ?thesis using k unfolding kwf_def ex_pinned_sel by blast
qed

lemma pinned_step:
  defines "s1 \<equiv> fst (wup_tsk_cs 1 1 ex_pinned)"
  shows "kwf s1" "schedtsk (smp s1) 0 = Some 1" "ctxtsk (smp s1) 0 = Some 0" "ipi_pending (smp s1) 0 = 1" "\<not> in_loc 0 s1"
    "\<not> stkfree (tcb s1 0)"
proof -
  have T: "tcb ex_pinned t = (if t = 0 then ex_run else if t = 1 then (ex_wait Wspec_slp ex_winfo)\<lparr>priority := 5, assprc := 1\<rparr>
      else if t = 2 then (ex_tcb 2)\<lparr>state := TS_READY, priority := 11\<rparr> else ex_tcb t)" for t
    by (simp add: ex_pinned_sel ex_race_def)
  have t1: "state (tcb ex_pinned 1) = TS_WAIT" "wspec (tcb ex_pinned 1) = Wspec_slp" "wercd (tcb ex_pinned 1) = Some 1" "priority (tcb ex_pinned 1) = 5"
    by (simp_all add: T ex_wait_def)
  show "kwf s1" unfolding s1_def by (rule kwf_wup_tsk[OF kwf_ex_pinned]) (simp add: size_defs)
  note w = wup_resched[OF t1(1-3), of 1, folded s1_def]
  have q: "q_insert 1 (RdyQ 5) (q_remove 1 (que ex_pinned)) = (que ex_race)(RdyQ 5 := [1])"
    by (auto simp: ex_pinned_sel ex_race_def q_insert_def q_remove_def fun_eq_iff)
  define X where "X = ex_pinned\<lparr>tcb := (tcb ex_pinned)(1 := (tcb ex_pinned 1)\<lparr>state := TS_READY\<rparr>), que := (que ex_race)(RdyQ 5 := [1])\<rparr>"
  have X: "que X = (que ex_race)(RdyQ 5 := [1])" "smp X = smp ex_race" "tcb X = tcb s1" using w(6) by (simp_all add: X_def ex_pinned_sel)
  have rl: "ready_list X = [1, 0, 2]"
    by (simp add: ready_list_def X(1,2) ex_race_def NUM_TSKPRI_def upt_rec)
  have as: "assprc (tcb X t) = (if t = 1 then 1 else 3)" "\<not> klocked (tcb X t)" for t
    by (auto simp: X_def T ex_tcb_def ex_run_def ex_wait_def)
  have mk: "knl_task_core_mask X 1 = 1" "knl_task_core_mask X 0 = 1" "knl_task_core_mask X 2 = 2"
    by (simp_all add: knl_task_core_mask_def X(1,2) as) (simp_all add: ex_race_def ex_smp_def)
  have ch: "chosen X = [(1, 1), (2, 2)]"
    using mk by (simp add: chosen_def scan_order_def rl as feasible_def TK_MAX_CORE_def)
  have se: "selection X 0 = Some 1" by (simp add: selection_def ch knl_assign_cores_def)
  have d: "distinct (ready_list X)" by (simp add: rl)
  have ex: "smp_excl (smp X)" using kwfD(4)[OF kwf_ex_race] by (simp add: X(2))
  have "assprc (tcb X t) = assprc (tcb ex_pinned t)" for t by (simp add: X_def)
  then have af: "smp_aff (tcb X) (smp X)"
    using kwfD(5)[OF kwf_ex_pinned] smp_aff_assprc[of "tcb X" "tcb ex_pinned"] by (simp add: X(2) ex_pinned_sel(2))
  have on: "online_mask (smp X) = 3" "schedtsk (smp X) 0 = Some 0" "ipi_pending (smp X) 0 = 0" by (simp_all add: X(2) ex_race_def ex_smp_def)
  show S: "schedtsk (smp s1) 0 = Some 1"
    unfolding w(1)[unfolded t1(4) q, folded X_def] schedtsk_resched[OF ex af d] using se on by (simp add: less_cores)
  show "ipi_pending (smp s1) 0 = 1"
    unfolding w(2)[unfolded t1(4) q, folded X_def]
    using resched_ipi[OF ex af d, of 0 1] S[unfolded w(1)[unfolded t1(4) q, folded X_def]] on by (simp add: less_cores)
  show c: "ctxtsk (smp s1) 0 = Some 0" using w(3) by (simp add: ex_pinned_sel ex_race_def ex_smp_def)
  have "fst (wup_tsk_cs 1 1 ex_pinned) = knl_wait_release_ok 1 1 ex_pinned" using t1 by (simp add: wup_tsk_cs_def Let_def)
  then have "taskindp (smp s1) = taskindp (smp ex_pinned) \<and> primask (smp s1) = primask (smp ex_pinned)"
    using t1 by (simp add: s1_def knl_wait_release_ok_def knl_note_wake_race_def knl_wait_release_def knl_make_non_wait_def
        knl_make_ready_def set_wercd_some knl_smp_reschedule_all_def knl_ready_queue_insert_def Let_def split: option.split)
  then show "\<not> in_loc 0 s1"
    using c by (simp add: in_loc_def in_indp_def knl_isTaskIndependent_def ex_pinned_sel ex_race_def ex_smp_def)
  show "\<not> stkfree (tcb s1 0)" using w(6) by (simp add: T ex_run_def ex_tcb_def)
qed

theorem reschedule_notifies_witness:
  "let s = fst (wup_tsk_cs 1 1 ex_pinned) in kwf s \<and> pendsv (smp (knl_smp_reschedule_all 1 s)) = pendsv (smp s)"
  using reschedule_notifies[OF pinned_step(1), of 0 1] pinned_step(1) wup_resched(4)[of ex_pinned 1 1]
  by (simp add: ex_pinned_sel ex_race_def ex_smp_def ex_wait_def less_cores)

subsection \<open>Dispatch disabled\<close>

text \<open>
  C14. While a core's task has disabled dispatching and is the one selected, it stays selected on that core through every
  reschedule by any core, whatever tasks of higher priority become ready; no dispatch request is sent to the core, and the end of a
  critical section on it pends nothing.
\<close>
theorem dispatch_disabled_keeps_task:
  assumes k: "kwf s" and c: "c < TK_MAX_CORE" "bit (online_mask (smp s)) c" and dd: "dispatch_disabled (smp s) c \<ge> DDS_DISABLE"
    and t: "ctxtsk (smp s) c = Some t" "schedtsk (smp s) c = Some t" "t \<in> set (que s (RdyQ p))" "p < NUM_TSKPRI"
  shows "schedtsk (smp (knl_smp_reschedule_all self s)) c = Some t \<and>
    ipi_pending (smp (knl_smp_reschedule_all self s)) c = ipi_pending (smp s) c \<and>
    pendsv (smp (END_CRITICAL_SECTION c s)) = pendsv (smp s)"
proof -
  note K = kwfD[OF k]
  have dis: "distinct (ready_list s)" by (rule distinct_ready_list[OF K(1)])
  have rl: "t \<in> set (ready_list s)" using t(3,4) by (auto simp: ready_list_def)
  have cs: "c = 0 \<or> c = 1" using c(1) by (auto simp: less_cores)
  have other: "ctxtsk (smp s) d \<noteq> Some t" if "d < TK_MAX_CORE" "d \<noteq> c" for d
    using smp_exclD(1)[OF K(4) that(1) c(1), of t] t(1) that(2) by auto
  have mt: "bit (knl_task_core_mask s t) c"
    using cs t(1) c(2) other[of 0] by (auto simp: knl_task_core_mask_def Let_def less_cores bit_simps bit_1_iff)
  have only: "u = t" if u: "bit (knl_task_core_mask s u) c" for u
  proof (rule ccontr)
    assume "u \<noteq> t"
    have "ctxtsk (smp s) d \<noteq> Some u" if "d < TK_MAX_CORE" for d
      using core_mask_ctx[OF K(4) _ that u] t(1) \<open>u \<noteq> t\<close> by auto
    moreover have "schedtsk (smp s) d \<noteq> Some u" if "d < TK_MAX_CORE" for d
      using core_mask_sched[OF K(4) _ that u] t(2) \<open>u \<noteq> t\<close> by auto
    ultimately have "\<not> bit (knl_task_core_mask s u) c"
      using cs dd by (auto simp: knl_task_core_mask_def Let_def less_cores bit_simps bit_1_iff)
    then show False using u by simp
  qed
  have sch: "schedtsk (resched_smp self s) c = Some t"
  proof (rule ccontr)
    assume n: "schedtsk (resched_smp self s) c \<noteq> Some t"
    have out: "schedtsk (resched_smp self s) d \<noteq> Some t" if "d < TK_MAX_CORE" for d
    proof
      assume a: "schedtsk (resched_smp self s) d = Some t"
      then have dc: "d \<noteq> c" using n by auto
      show False
      proof (cases "bit (online_mask (smp s)) d")
        case True
        then have "bit (knl_task_core_mask s t) d"
          using a selectionD(3) that by (simp add: schedtsk_resched[OF K(4,5) dis])
        then show False using core_mask_ctx[OF K(4) t(1) c(1)] dc by simp
      next
        case False
        then have "schedtsk (smp s) d = Some t" using a by (simp add: schedtsk_resched[OF K(4,5) dis])
        then show False using smp_exclD(2)[OF K(4) that c(1), of t] t(2) dc by auto
      qed
    qed
    obtain u where u: "schedtsk (resched_smp self s) c = Some u"
      using resched_outranked[OF K(4,5) dis rl mt out] by blast
    then have "bit (knl_task_core_mask s u) c" using selectionD(3) c by (simp add: schedtsk_resched[OF K(4,5) dis])
    then show False using only u n by simp
  qed
  show ?thesis
    using resched_notify[OF k c, of self] sch t(2) dd
    by (simp add: knl_smp_reschedule_all_def END_CRITICAL_SECTION_def end_cs_def)
qed

text \<open>Task 0 of the example has disabled dispatching on core 0 before task 1 is woken.\<close>

definition ex_disabled :: kstate where
  "ex_disabled = upd_smp (\<lambda>m. m\<lparr>dispatch_disabled := (dispatch_disabled m)(0 := DDS_DISABLE)\<rparr>) ex_pinned"

theorem dispatch_disabled_keeps_task_witness:
  "schedtsk (smp (knl_smp_reschedule_all 1 ex_disabled)) 0 = Some 0"
proof -
  have "smp_excl (smp ex_disabled) \<and> smp_aff (tcb ex_disabled) (smp ex_disabled) \<and> sched_ok (que ex_disabled) (smp ex_disabled)"
    using kwfD(4-6)[OF kwf_ex_pinned] by (simp add: ex_disabled_def smp_excl_def smp_aff_def sched_ok_def)
  then have k: "kwf ex_disabled" using kwf_ex_pinned by (simp add: kwf_def ex_disabled_def)
  have "bit (online_mask (smp ex_disabled)) 0" "dispatch_disabled (smp ex_disabled) 0 \<ge> DDS_DISABLE"
    "ctxtsk (smp ex_disabled) 0 = Some 0" "schedtsk (smp ex_disabled) 0 = Some 0" "0 \<in> set (que ex_disabled (RdyQ 10))"
    by (simp_all add: ex_disabled_def ex_pinned_sel ex_race_def ex_smp_def)
  then show ?thesis using dispatch_disabled_keeps_task[OF k, of 0 0 10 1] by (simp add: size_defs less_cores)
qed

text \<open>
  C15. The window of \<open>tk_dis_dsp\<close>. It sets the flag without the kernel lock and does not look whether another core has selected a
  different task already: core 1 wakes a task that may only run on core 0 and sends the request; before the mailbox interrupt is
  taken, the running task of core 0 disables dispatching and gets \<open>E_OK\<close>; the handler of the interrupt pends
  the dispatcher all the same, which switches to the other task and clears the flag.
\<close>
theorem dis_dsp_overtaken:
  "kwf ex_pinned \<and>
   (let (s, er) = tk_dis_dsp 0 (fst (wup_tsk_cs 1 1 ex_pinned))
    in er = E_OK \<and> ctxtsk (smp s) 0 = Some 0 \<and> dispatch_disabled (smp s) 0 = DDS_DISABLE \<and>
       (\<exists>s1 f s2. core_ipi ex_env 0 (s, ex_fifo) = Some (s1, f) \<and> pendsv (smp s1) 0 \<and> knl_dispatch_entry 0 s1 = Some s2 \<and>
          ctxtsk (smp s2) 0 = Some 1 \<and> dispatch_disabled (smp s2) 0 = DDS_ENABLE))"
proof -
  define s where "s = fst (wup_tsk_cs 1 1 ex_pinned)"
  note S = pinned_step[folded s_def]
  let ?d = "upd_smp (\<lambda>m. m\<lparr>dispatch_disabled := (dispatch_disabled m)(0 := DDS_DISABLE)\<rparr>) s"
  have d: "tk_dis_dsp 0 s = (?d, E_OK)" using S(5) by (simp add: tk_dis_dsp_def)
  obtain s1 f where i: "core_ipi ex_env 0 (?d, ex_fifo) = Some (s1, f)" "pendsv (smp s1) 0" "ctxtsk (smp s1) = ctxtsk (smp s)"
      "schedtsk (smp s1) = schedtsk (smp s)" "tcb s1 = tcb s"
    using S(4) by (simp add: core_ipi_def knl_smp_core0_ipi_def knl_ipi_take_def ipi_common_def knl_dispatch_def Let_def)
  obtain s2 where "knl_dispatch_entry 0 s1 = Some s2" "ctxtsk (smp s2) 0 = Some 1" "dispatch_disabled (smp s2) 0 = DDS_ENABLE"
    using i S(2,3,6)
    by (simp add: knl_dispatch_entry_def dispatch_save_def dispatch_load_def dispatch_store_def knl_smp_dispatch_release_def Let_def)
  then show ?thesis unfolding s_def[symmetric] d using i(1,2) S(3) kwf_ex_pinned by auto
qed

subsection \<open>Registers of a task that does not run\<close>

text \<open>The 17 words of a stack frame.\<close>

definition fw :: "UW \<Rightarrow> nat \<Rightarrow> UW" where "fw p k = p + 4 * of_nat k"

lemma frame_fields:
  "f_exp_ret p = fw p 0" "f_r4 p i = fw p (Suc i)" "f_r0 p i = fw p (9 + i)" "f_ip p = fw p 13" "f_lr p = fw p 14"
  "f_pc p = fw p 15" "f_xpsr p = fw p 16"
  by (simp_all add: fw_def f_exp_ret_def f_r4_def f_r0_def f_ip_def f_lr_def f_pc_def f_xpsr_def algebra_simps)

lemma unat_small: "n < 100 \<Longrightarrow> unat (of_nat n :: UW) = n"
  by (simp add: unat_of_nat)

lemma fw_apart:
  assumes "i < 17" "j < 17" "i \<noteq> j" shows "apart 4 (fw p i) (fw p j)"
proof -
  have *: "4 \<le> (of_nat (4 * d) :: UW) \<and> 4 \<le> - (of_nat (4 * d) :: UW)" if "0 < d" "d < 17" for d
    unfolding word_le_nat_alt using that unat_small[of "4 * d"] unat_neg_of_nat[of "4 * d"] by (simp del: of_nat_mult)
  have d: "fw p a - fw p b = of_nat (4 * (a - b))" "fw p b - fw p a = - of_nat (4 * (a - b))" if "b < a" for a b
    using that by (simp_all add: fw_def of_nat_diff algebra_simps)
  show ?thesis
  proof (cases "i < j")
    case True
    then show ?thesis unfolding apart_def d[OF True] using *[of "j - i"] assms by simp
  next
    case False
    then have "j < i" using assms by simp
    then show ?thesis unfolding apart_def d[OF \<open>j < i\<close>] using *[of "i - j"] assms by simp
  qed
qed

lemma ld_fw: "i < 17 \<Longrightarrow> j < 17 \<Longrightarrow> ld32 (fw p i) (st32 (fw p j) v m) = (if i = j then v else ld32 (fw p i) m)"
  using fw_apart[of j i p] by (auto simp: ld32_apart)

lemma ld_put_words:
  assumes "distinct (map g q)" "\<And>k. k \<in> set q \<Longrightarrow> g k < 17" "i < 17"
  shows "ld32 (fw p i) (put_words (\<lambda>k. fw p (g k)) v q m) =
    (case find (\<lambda>k. g k = i) q of Some k \<Rightarrow> v k | None \<Rightarrow> ld32 (fw p i) m)"
  using assms
proof (induction q arbitrary: m)
  case (Cons k q)
  have "\<forall>x\<in>set q. g x \<noteq> g k" using Cons.prems(1) by (simp add: image_iff) metis
  then have "find (\<lambda>k. g k = i) q = None" if "g k = i" using that by (auto simp: find_None_iff)
  then show ?case using Cons by (auto simp: ld_fw split: option.splits)
qed simp

text \<open>What \<open>tk_sta_tsk\<close> does to the frame.\<close>

definition start_frame :: "nat \<Rightarrow> int \<Rightarrow> frames \<times> kstate \<Rightarrow> frames \<times> kstate" where
  "start_frame t stacd x = setup_frame_stacd t stacd (setup_frame t x)"

text \<open>
  C0. Starting a task puts it at its entry. The frame that \<open>knl_setup_context\<close> and \<open>knl_setup_stacd\<close> build ends at the initial
  stack pointer; restored by the dispatcher it is the address of the task function without the Thumb bit, with the start code and the
  extended information as the arguments and no return address; memory outside the frame keeps its contents.
\<close>
theorem task_starts_at_entry:
  "(case knl_get_reg t (Some R0, Some E0, Some K0) (start_frame t stacd (ssp, s)) of (Some R, Some E, Some K) \<Rightarrow>
      ei_pc E = task_entry (tcb s t) AND NOT 1 \<and> rg_r R 0 = word_of_int stacd \<and> rg_r R 1 = exinf (tcb s t) \<and> rg_lr R = 0 \<and>
      cr_ssp K + SStackFrame_size = isstack (tcb s t) \<and> ld32 (cr_ssp K) (mem (snd (start_frame t stacd (ssp, s)))) = 0xFFFFFFF9
    | _ \<Rightarrow> False) \<and>
    (\<forall>a. a - (isstack (tcb s t) - SStackFrame_size) \<ge> SStackFrame_size \<longrightarrow> mem (snd (start_frame t stacd (ssp, s))) a = mem s a)"
proof -
  define p where "p = isstack (tcb s t) - SStackFrame_size"
  define m where "m = mem (snd (start_frame t stacd (ssp, s)))"
  have m: "m = st32 (fw p 10) (exinf (tcb s t)) (st32 (fw p 9) (word_of_int stacd) (st32 (fw p 15) (task_entry (tcb s t) AND NOT 1)
      (st32 (fw p 16) 0x01000000 (st32 (fw p 14) 0 (st32 (fw p 0) 0xFFFFFFF9 (mem s))))))"
    by (simp add: m_def start_frame_def setup_frame_stacd_def setup_frame_def frame_fields p_def Let_def)
  have p: "fst (start_frame t stacd (ssp, s)) t = p" by (simp add: start_frame_def setup_frame_stacd_def setup_frame_def p_def Let_def)
  have out: "st32 (fw p k) v f a = f a" if "SStackFrame_size \<le> a - p" "k < 17" for a k v f
  proof -
    have ne: "a \<noteq> fw p k + of_nat j" if "j < 4" for j
    proof
      assume "a = fw p k + of_nat j"
      then have "a - p = of_nat (4 * k + j)" by (simp add: fw_def)
      then have "unat (a - p) = 4 * k + j" using unat_small[of "4 * k + j"] \<open>k < 17\<close> that by (simp del: of_nat_mult of_nat_add)
      then show False using \<open>SStackFrame_size \<le> a - p\<close> \<open>k < 17\<close> that by (simp add: word_le_nat_alt SStackFrame_size_def)
    qed
    show ?thesis using ne[of 0] ne[of 1] ne[of 2] ne[of 3] by (simp add: st32_def)
  qed
  have "p + SStackFrame_size = isstack (tcb s t)" by (simp add: p_def)
  moreover have "ld32 (fw p 0) m = 0xFFFFFFF9" by (simp add: m ld_fw)
  then have "ld32 p m = 0xFFFFFFF9" by (simp add: fw_def)
  moreover have "\<forall>a. SStackFrame_size \<le> a - p \<longrightarrow> m a = mem s a" by (simp add: m out)
  moreover have "ld32 (fw p 15) m = task_entry (tcb s t) AND NOT 1" "ld32 (fw p 9) m = word_of_int stacd"
    "ld32 (fw p 10) m = exinf (tcb s t)" "ld32 (fw p 14) m = 0"
    by (simp_all add: m ld_fw)
  ultimately show ?thesis
    using p by (simp add: knl_get_reg_def case_prod_unfold Let_def m_def[symmetric] frame_fields p_def[symmetric])
qed

theorem task_starts_at_entry_witness:
  "mem (snd (start_frame 2 7 (\<lambda>_. 0, ex_pinned))) 0x20001000 = mem ex_pinned 0x20001000"
proof -
  have "isstack (tcb ex_pinned 2) = 0x20001000" by (simp add: ex_pinned_sel ex_race_def ex_tcb_def)
  then show ?thesis
    using task_starts_at_entry[where t = 2 and stacd = 7 and ssp = "\<lambda>_. 0" and s = ex_pinned, THEN conjunct2, rule_format, of "0x20001000"] by (simp add: SStackFrame_size_def)
qed

text \<open>
  Reading back what was written. After a successful \<open>tk_set_reg\<close> the same task can call \<open>tk_get_reg\<close>, and gets the general
  registers 0 to 11 and the program counter that were set, at the stack pointer that was set. Registers 12 and 14, which the packet has
  room for as well, are not set: they come out as they were in the frame; the status register is neither set nor read.
\<close>
theorem registers_roundtrip:
  assumes "tk_set_reg c x (Some R) (Some E) K (ssp, s) = ((ssp', s'), E_OK)"
  shows "\<exists>s'' R' E' K'. tk_get_reg c x (Some R0, Some E0, Some K0) (ssp', s') = (s'', E_OK, Some R', Some E', Some K') \<and>
    (\<forall>i<12. rg_r R' i = rg_r R i) \<and> ei_pc E' = ei_pc E \<and> cr_ssp K' = (case K of None \<Rightarrow> ssp (get_tcb x) | Some k \<Rightarrow> cr_ssp k) \<and>
    rg_r R' 12 = ld32 (f_ip (cr_ssp K')) (mem s) \<and> rg_lr R' = ld32 (f_lr (cr_ssp K')) (mem s) \<and> ei_xpsr E' = ei_xpsr E0"
proof -
  let ?t = "get_tcb x"
  define p where "p = (case K of None \<Rightarrow> ssp ?t | Some k \<Rightarrow> cr_ssp k)"
  have ok: "reg_check c x s = E_OK" "reg_error ?t s = E_OK"
    using assms by (auto simp: tk_set_reg_def Let_def split: if_splits prod.splits)
  define A B :: "nat list" where "A = [4..<12]" and "B = [0..<4]"
  define m where "m = st32 (fw p 15) (ei_pc E) (put_words (\<lambda>k. fw p (Suc (k - 4))) (rg_r R) A
    (put_words (\<lambda>k. fw p (9 + k)) (rg_r R) B (mem s)))"
  have eta: "f_r0 q = (\<lambda>k. fw q (9 + k))" for q by (simp add: frame_fields fun_eq_iff)
  have e: "s' = END_CRITICAL_SECTION c (s\<lparr>mem := m\<rparr>)" "ssp' ?t = p"
    using assms ok by (auto simp: tk_set_reg_def knl_set_reg_def m_def A_def B_def p_def Let_def frame_fields(2,6) eta split: option.splits)
  have s': "smp s' = end_cs c (smp s)" "tcb s' = tcb s" "mem s' = m" by (simp_all add: e END_CRITICAL_SECTION_def)
  have "in_indp c s' = in_indp c s" by (simp add: in_indp_def knl_isTaskIndependent_def s')
  then have "CHECK_TSKID c x s' = CHECK_TSKID c x s" "CHECK_NONSELF c x s' = CHECK_NONSELF c x s" "in_indp c s' = in_indp c s"
    "knl_is_ctxtsk ?t s' = knl_is_ctxtsk ?t s"
    by (simp_all add: CHECK_TSKID_def CHECK_NONSELF_def knl_is_ctxtsk_def s')
  then have "reg_check c x s' = reg_check c x s" "reg_error ?t s' = reg_error ?t s" by (simp_all add: reg_check_def reg_error_def s'(2))
  then have ok': "reg_check c x s' = E_OK" "reg_error ?t s' = E_OK" using ok by simp_all
  have f: "find (\<lambda>k. Suc (k - 4) = i) A = (if 0 < i \<and> i < 9 then Some (i + 3) else None)"
    "find (\<lambda>k. 9 + k = i) B = (if 9 \<le> i \<and> i < 13 then Some (i - 9) else None)" for i :: nat
    by (auto simp: A_def B_def upt_rec)
  have d: "distinct (map (\<lambda>k. Suc (k - 4)) A)" "distinct (map (\<lambda>k. 9 + k) B)"
    by (simp_all add: A_def B_def upt_rec)
  have b: "k \<in> set A \<Longrightarrow> Suc (k - 4) < 17" "k \<in> set B \<Longrightarrow> 9 + k < 17" for k by (auto simp: A_def B_def)
  have rd: "ld32 (fw p i) m = (if i = 15 then ei_pc E else if 0 < i \<and> i < 9 then rg_r R (i + 3)
      else if 9 \<le> i \<and> i < 13 then rg_r R (i - 9) else ld32 (fw p i) (mem s))" if "i < 17" for i
    unfolding m_def using that b by (simp add: ld_fw ld_put_words[OF d(1)] ld_put_words[OF d(2)] f f(2)[of 0, simplified])
  let ?b = "(Some R0, Some E0, Some K0)"
  have "tk_get_reg c x ?b (ssp', s') = (END_CRITICAL_SECTION c s', E_OK, knl_get_reg ?t ?b (ssp', s'))"
    using ok' by (simp add: tk_get_reg_def)
  moreover obtain R' E' K' where g: "knl_get_reg ?t ?b (ssp', s') = (Some R', Some E', Some K')"
    by (simp add: knl_get_reg_def Let_def)
  moreover have "rg_r R' i = rg_r R i" if "i < 12" for i
    using g that by (auto simp: knl_get_reg_def e(2) s' frame_fields rd)
  moreover have "ei_pc E' = ei_pc E" "ei_xpsr E' = ei_xpsr E0" "cr_ssp K' = p" "rg_r R' 12 = ld32 (f_ip p) (mem s)" "rg_lr R' = ld32 (f_lr p) (mem s)"
    using g by (auto simp: knl_get_reg_def e(2) s' frame_fields rd)
  ultimately show ?thesis by (auto simp: p_def)
qed

theorem registers_roundtrip_witness:
  "\<exists>x b s R' E' K'. tk_get_reg 0 4 b x = (s, E_OK, Some R', Some E', Some K') \<and> rg_r R' 5 = 5 \<and> ei_pc E' = 0x10000200 \<and> cr_ssp K' = 0x20000800"
proof -
  have "reg_check 0 4 ex_pinned = E_OK" "reg_error (get_tcb 4) ex_pinned = E_OK"
    by (simp_all add: reg_check_def reg_error_def in_indp_def knl_isTaskIndependent_def CHECK_TSKID_def CHK_TSKID_def get_tcb_def
        CHECK_NONSELF_def knl_is_ctxtsk_def ex_pinned_sel ex_race_def ex_smp_def ex_run_def ex_tcb_def size_defs)
  then obtain ssp' s' where
    "tk_set_reg 0 4 (Some \<lparr>rg_r = of_nat, rg_lr = 0\<rparr>) (Some \<lparr>ei_pc = 0x10000200, ei_xpsr = 0, ei_taskmode = 0\<rparr>) (Some \<lparr>cr_ssp = 0x20000800\<rparr>)
      (\<lambda>_. 0, ex_pinned) = ((ssp', s'), E_OK)"
    by (auto simp: tk_set_reg_def Let_def case_prod_unfold)
  from registers_roundtrip[OF this] show ?thesis by fastforce
qed

subsection \<open>Interrupt handlers\<close>

text \<open>
  Defining an interrupt handler. A defined number accepts a handler in either language and nothing else changes: from then on that interrupt
  runs the handler with its number, one written in C in the task-independent part with the nesting count restored
  afterwards; taking the definition back installs the default handler again.
\<close>
theorem interrupt_reaches_handler:
  assumes "n < N_INTVEC" "atr = TA_HLNG \<or> atr = TA_ASM" "h \<noteq> 0" "h \<noteq> hll v"
    and d: "tk_def_int c n (Some \<lparr>di_intatr = atr, di_inthdr = h\<rparr>) (v, s) = ((v', s'), er)"
  shows "er = E_OK \<and>
    take_interrupt run c n v' t = (if atr = TA_HLNG then knl_LeaveTaskIndependent c (run h n (knl_EnterTaskIndependent c t)) else run h n t) \<and>
    (\<forall>k. k \<noteq> n \<longrightarrow> take_interrupt run c k v' = take_interrupt run c k v) \<and>
    (\<exists>s''. tk_def_int c n None (v', s') = ((v'\<lparr>exchdr := (exchdr v)(n := dflt v)\<rparr>, s''), E_OK))"
proof -
  have a: "atr AND NOT (TA_HLNG OR TA_ASM) = 0" "(atr AND TA_HLNG \<noteq> 0) = (atr = TA_HLNG)" using assms(2) by auto
  have v': "v' = (if atr = TA_HLNG then v\<lparr>inthdr_tbl := (inthdr_tbl v)(n := h), exchdr := (exchdr v)(n := hll v)\<rparr>
      else v\<lparr>exchdr := (exchdr v)(n := h)\<rparr>)" "er = E_OK"
    using d a assms(1,3) by (auto simp: tk_def_int_def knl_define_inthdr_def Let_def)
  have "take_interrupt run c k v' = take_interrupt run c k v" if "k \<noteq> n" for k
    using that by (auto simp: take_interrupt_def v' knl_hll_inthdr_def fun_eq_iff)
  moreover have "tk_def_int c n None (v', s') = ((v'\<lparr>exchdr := (exchdr v)(n := dflt v)\<rparr>, END_CRITICAL_SECTION c s'), E_OK)"
    using assms(1) by (simp add: tk_def_int_def knl_define_inthdr_def v')
  ultimately show ?thesis using v'(2) assms(4) by (auto simp: take_interrupt_def knl_hll_inthdr_def v')
qed

definition ex_int :: intst where
  "ex_int = \<lparr>exchdr = (\<lambda>_. 0x10000100), inthdr_tbl = (\<lambda>_. 0), hll = 0x10000200, dflt = 0x10000100\<rparr>"

theorem interrupt_reaches_handler_witness:
  "take_interrupt (\<lambda>h n s. s\<lparr>lowmem_top := h\<rparr>) 0 15
     (fst (fst (tk_def_int 0 15 (Some \<lparr>di_intatr = TA_HLNG, di_inthdr = 0x10004000\<rparr>) (ex_int, ex_pinned)))) ex_pinned =
   knl_LeaveTaskIndependent 0 ((knl_EnterTaskIndependent 0 ex_pinned)\<lparr>lowmem_top := 0x10004000\<rparr>)"
  using interrupt_reaches_handler[where n = 15 and atr = TA_HLNG and h = "0x10004000" and v = ex_int and c = 0 and s = ex_pinned and run = "\<lambda>h n s. s\<lparr>lowmem_top := h\<rparr>" and t = ex_pinned]
  by (simp add: ex_int_def tk_def_int_def knl_define_inthdr_def)

end
