(* ===== verification/Boot.thy ===== *)
theory Boot
  imports Cpu_Calls Time_Calls Task_Props Semaphore Eventflag Mailbox Msgbuf Mempfix Mempool Device_Io
begin

text \<open>
  The start of the system: \<^verbatim>\<open>armv6m/reset_hdl.c\<close>, \<^verbatim>\<open>kernel/sysinit/sysinit.c\<close>, \<^verbatim>\<open>kernel/tkernel/tkinit.c\<close> and
  \<^verbatim>\<open>kernel/inittask/inittask.c\<close>. The messages on the console and the calls of the board that only write registers have no effect on
  the modelled state.
\<close>

subsection \<open>Reset (reset\_hdl.c)\<close>

text \<open>The addresses that the linker gives to the sections and tables.\<close>

record linkmap =
  vector_tbl :: UW
  exchdr_at :: UW
  data_org :: UW
  data_start :: UW
  data_end :: UW
  bss_start :: UW
  bss_end :: UW

abbreviation (input) INTERNAL_RAM_START :: UW where "INTERNAL_RAM_START \<equiv> 0x20000000"
abbreviation (input) INTERNAL_RAM_END :: UW where "INTERNAL_RAM_END \<equiv> 0x20040000"
abbreviation (input) SYSTEMAREA_TOP :: UW where "SYSTEMAREA_TOP \<equiv> 0"
abbreviation (input) SYSTEMAREA_END :: UW where "SYSTEMAREA_END \<equiv> 0"
abbreviation (input) EXC_STACK_SIZE :: UW where "EXC_STACK_SIZE \<equiv> 2048"
abbreviation (input) N_SYSVEC :: nat where "N_SYSVEC \<equiv> 16"

fun load_vectors :: "nat \<Rightarrow> UW \<Rightarrow> UW \<Rightarrow> memory \<Rightarrow> memory" where
  "load_vectors 0 dst src m = m"
| "load_vectors (Suc n) dst src m = load_vectors n (dst + 4) (src + 4) (st32 dst (ld32 src m) m)"

text \<open>The loop ends when the destination meets \<open>end\<close>, so it does not end when the section is no whole number of words.\<close>

partial_function (option) load_data :: "UW \<Rightarrow> UW \<Rightarrow> UW \<Rightarrow> memory \<Rightarrow> memory option" where
  "load_data dst e src m =
     (if dst = e then Some m else load_data (dst + 4) e (src + 4) (st32 dst (ld32 src m) m))"

fun clear_bss :: "nat \<Rightarrow> UW \<Rightarrow> memory \<Rightarrow> memory" where
  "clear_bss 0 dst m = m"
| "clear_bss (Suc n) dst m = clear_bss n (dst + 4) (st32 dst 0 m)"

definition lowmem_bounds :: "linkmap \<Rightarrow> UW \<times> UW" where
  "lowmem_bounds L =
     (let lo = (if INTERNAL_RAM_START > SYSTEMAREA_TOP then INTERNAL_RAM_START else SYSTEMAREA_TOP);
          lo = (if lo < bss_end L then bss_end L else lo);
          limit = (if SYSTEMAREA_END \<noteq> 0 \<and> INTERNAL_RAM_END > SYSTEMAREA_END then SYSTEMAREA_END - EXC_STACK_SIZE
                   else INTERNAL_RAM_END - EXC_STACK_SIZE)
      in (lo, limit))"

definition Reset_Handler :: "linkmap \<Rightarrow> kstate \<Rightarrow> kstate option" where
  "Reset_Handler L s = do {
     let m = load_vectors (N_SYSVEC + unat N_INTVEC) (exchdr_at L) (vector_tbl L) (mem s);
     m \<leftarrow> load_data (data_start L) (data_end L) (data_org L) m;
     let m = clear_bss (unat ((bss_end L - bss_start L) div 4)) (bss_start L) m;
     let (lo, limit) = lowmem_bounds L;
     Some (s\<lparr>mem := m, lowmem_top := lo, lowmem_limit := limit\<rparr>)
   }"

subsection \<open>Kernel objects (tkinit.c)\<close>

definition knl_init_object :: "kstate \<Rightarrow> kstate \<times> ER" where
  "knl_init_object s =
     (let s = knl_task_initialize s;
          s = knl_semaphore_initialize s;
          s = knl_eventflag_initialize s;
          s = knl_mailbox_initialize s;
          s = knl_messagebuffer_initialize s;
          s = knl_mutex_initialize s;
          s = knl_memorypool_initialize s;
          s = knl_fix_memorypool_initialize s;
          s = knl_cyclichandler_initialize s;
          s = knl_alarmhandler_initialize s
      in (s, E_OK))"

subsection \<open>Main (sysinit.c)\<close>

text \<open>The parameters of the initial task; the address of its function is the linker's.\<close>

definition knl_init_ctsk :: "UW \<Rightarrow> t_ctsk" where
  "knl_init_ctsk entry = \<lparr>ct_exinf = 0, ct_tskatr = TA_HLNG, ct_task = entry, ct_itskpri = 1, ct_stksz = 1024,
     ct_bufptr = 0, ct_assprc = 0\<rparr>"

text \<open>
  Without an error \<open>main\<close> ends in \<open>knl_force_dispatch\<close>, and the core goes on with the dispatcher; after an error it stops in an endless loop.
  The first statement takes the kernel lock, so the interrupts of the core are masked up to the end.
\<close>

datatype booted = Dispatching kstate | Stopped kstate

definition knl_init_device :: "kstate \<Rightarrow> kstate \<times> ER" where "knl_init_device s = (s, E_OK)"
definition knl_init_interrupt :: "kstate \<Rightarrow> kstate \<times> ER" where "knl_init_interrupt s = (s, E_OK)"

definition start_initial_task :: "UW \<Rightarrow> kstate \<Rightarrow> booted option" where
  "start_initial_task entry s = do {
     (s, ercd) \<leftarrow> tk_cre_tsk 0 (knl_init_ctsk entry) s;
     Some (if ercd \<ge> E_OK
           then let (s, ercd) = tk_sta_tsk 0 ercd 0 s
                in if ercd \<ge> E_OK then Dispatching (knl_force_dispatch 0 s) else Stopped s
           else Stopped s)
   }"

definition sysinit_main :: "UW \<Rightarrow> kstate \<Rightarrow> booted option" where
  "sysinit_main entry s = do {
     let s = upd_smp (\<lambda>m. m\<lparr>primask := (primask m)(0 := True)\<rparr>) s;
     s \<leftarrow> knl_init_Imalloc s;
     let (s, ercd) = knl_init_device s;
     if ercd < E_OK then Some (Stopped s) else do {
     let (s, ercd) = knl_init_interrupt s;
     if ercd < E_OK then Some (Stopped s) else do {
     let (s, ercd) = knl_init_object s;
     if ercd < E_OK then Some (Stopped s) else
       start_initial_task entry (knl_timer_startup s)
   }}}"

subsection \<open>Initial task (inittask.c)\<close>

text \<open>
  \<open>start_system\<close> starts the device manager and then the devices (\<open>knl_start_device\<close>, an argument, since what it does depends on the
  drivers that are linked). \<open>usermain\<close> is the application's. When it returns, the system is shut down: the result
  is the argument of \<open>shutdown_system\<close>, which does not return.
\<close>

definition start_system :: "denv \<Rightarrow> (devst \<Rightarrow> devst \<times> int) \<Rightarrow> nat \<Rightarrow> devst \<Rightarrow> (devst \<times> int) option" where
  "start_system e start_device c d = do {
     (d, ercd) \<leftarrow> knl_initialize_devmgr e c d;
     Some (if ercd < E_OK then (d, ercd) else start_device d)
   }"

definition init_task_main ::
  "denv \<Rightarrow> (devst \<Rightarrow> devst \<times> int) \<Rightarrow> (devst \<Rightarrow> devst \<times> int) \<Rightarrow> nat \<Rightarrow> devst \<Rightarrow> (devst \<times> int) option" where
  "init_task_main e start_device usermain c d = do {
     let fin = 1;
     (d, ercd) \<leftarrow> start_system e start_device c d;
     Some (if ercd \<ge> E_OK then (if fin > 0 then usermain d else (d, fin)) else (d, fin))
   }"

abbreviation (input) E_NOSPT :: ER where "E_NOSPT \<equiv> -9"

definition knl_restart_hw :: "int \<Rightarrow> ER" where
  "knl_restart_hw mode = (if mode = -1 \<or> mode = -2 \<or> mode = -3 then E_NOSPT else E_PAR)"

end
