(* ===== verification/Boot_Props.thy ===== *)
theory Boot_Props
  imports Boot Cpu_Props Memory_Words
begin

text \<open>
  What the start of the system establishes: the image of the program in memory, the invariants of the kernel objects, and the
  initial task on core 0.
\<close>

subsection \<open>Reset\<close>

lemma unat_plus: "unat (a :: UW) + k < 2 ^ 32 \<Longrightarrow> unat (a + of_nat k) = unat a + k"
  by (simp add: unat_word_ariths unat_of_nat mod_add_right_eq)

lemma unat_plus4: "unat (a :: UW) + 4 < 2 ^ 32 \<Longrightarrow> unat (a + 4) = unat a + 4"
  using unat_plus[of a 4] by simp

lemma apart_unat:
  assumes "unat q + 4 \<le> unat p \<or> unat p + 4 \<le> unat q" "unat p + 4 \<le> 2 ^ 32" "unat q + 4 \<le> 2 ^ 32"
  shows "apart 4 p q"
proof -
  have "4 \<le> p - q \<and> 4 \<le> q - p" if "unat q + 4 \<le> unat p" "unat p + 4 \<le> 2 ^ 32" for p q :: UW
  proof -
    have le: "q \<le> p" "q \<noteq> p" using that by (auto simp: word_le_nat_alt)
    then have a: "unat (p - q) = unat p - unat q" by (simp add: unat_sub)
    have "4 \<le> q - p"
    proof (rule ccontr)
      assume "\<not> 4 \<le> q - p"
      then have j: "unat (q - p) < 4" by (simp add: word_le_nat_alt)
      have "q = p + of_nat (unat (q - p))" by simp
      then have "unat q = unat p + unat (q - p)" using unat_plus[of p "unat (q - p)"] j that(2) by simp
      then show False using that(1) by simp
    qed
    then show ?thesis using a that by (simp add: word_le_nat_alt)
  qed
  then show ?thesis using assms unfolding apart_def by blast
qed

lemma ld_st_unat:
  assumes "unat q + 4 \<le> unat p \<or> unat p + 4 \<le> unat q" "unat p + 4 \<le> 2 ^ 31" "unat q + 4 \<le> 2 ^ 31"
  shows "ld32 q (st32 p v m) = ld32 q m"
  by (rule ld32_apart, rule apart_unat) (use assms in auto)

lemma load_outside:
  assumes "unat q + 4 \<le> unat dst \<or> unat dst + 4 * n \<le> unat q" "unat dst + 4 * n \<le> 2 ^ 31" "unat q + 4 \<le> 2 ^ 31"
  shows "ld32 q (load_vectors n dst src m) = ld32 q m"
  using assms
proof (induction n arbitrary: dst src m)
  case (Suc n)
  have u: "unat (dst + 4) = unat dst + 4" using Suc.prems(2) by (simp add: unat_plus4)
  have d: "unat q + 4 \<le> unat (dst + 4) \<or> unat (dst + 4) + 4 * n \<le> unat q" using Suc.prems(1) u by auto
  have "ld32 q (load_vectors (Suc n) dst src m) = ld32 q (st32 dst (ld32 src m) m)"
    using Suc.IH[OF d] Suc.prems by (simp add: u)
  also have "\<dots> = ld32 q m" by (rule ld_st_unat) (use Suc.prems in auto)
  finally show ?case .
qed simp

lemma load_copies:
  assumes "unat src + 4 * n \<le> unat dst" "unat dst + 4 * n \<le> 2 ^ 31" "i < n"
  shows "ld32 (dst + 4 * of_nat i) (load_vectors n dst src m) = ld32 (src + 4 * of_nat i) m"
  using assms
proof (induction n arbitrary: dst src m i)
  case (Suc n)
  have u: "unat (dst + 4) = unat dst + 4" "unat (src + 4) = unat src + 4" using Suc.prems(1,2) by (simp_all add: unat_plus4)
  show ?case
  proof (cases i)
    case 0
    then show ?thesis using load_outside[of dst "dst + 4" n] Suc.prems by (simp add: u)
  next
    case (Suc j)
    have a: "dst + 4 * of_nat i = dst + 4 + 4 * of_nat j" "src + 4 * of_nat i = src + 4 + 4 * of_nat j" by (simp_all add: Suc)
    have "unat (src + 4 + of_nat (4 * j)) = unat (src + 4) + 4 * j"
      by (rule unat_plus) (use Suc.prems \<open>i = Suc j\<close> u in auto)
    then have s: "unat (src + 4 + 4 * of_nat j) = unat src + 4 + 4 * j" using u by simp
    have "ld32 (dst + 4 * of_nat i) (load_vectors (Suc n) dst src m) = ld32 (src + 4 * of_nat i) (st32 dst (ld32 src m) m)"
      unfolding a using Suc.IH[of "src + 4" "dst + 4" j] Suc.prems \<open>i = Suc j\<close> by (simp add: u)
    also have "\<dots> = ld32 (src + 4 * of_nat i) m"
      unfolding a by (rule ld_st_unat) (use Suc.prems \<open>i = Suc j\<close> s in auto)
    finally show ?thesis .
  qed
qed simp

lemma load_data_words: "4 * n < 2 ^ 32 \<Longrightarrow> load_data dst (dst + of_nat (4 * n)) src m = Some (load_vectors n dst src m)"
proof (induction n arbitrary: dst src m)
  case (Suc n)
  have "unat (0 + of_nat (4 * Suc n) :: UW) = unat (0 :: UW) + 4 * Suc n" by (rule unat_plus) (use Suc.prems in simp)
  then have "(of_nat (4 * Suc n) :: UW) \<noteq> 0" by (metis add_0 nat.distinct(1) mult_eq_0_iff unat_0 zero_neq_numeral)
  then have "dst \<noteq> dst + of_nat (4 * Suc n)" by simp
  moreover have e: "dst + of_nat (4 * Suc n) = dst + 4 + of_nat (4 * n)" by simp
  ultimately show ?case using Suc.prems Suc.IH[of "dst + 4" "src + 4"]
    by (subst load_data.simps) (simp del: of_nat_mult of_nat_Suc mult_Suc_right add: e)
qed (subst load_data.simps, simp)

lemma clear_outside:
  assumes "unat q + 4 \<le> unat dst \<or> unat dst + 4 * n \<le> unat q" "unat dst + 4 * n \<le> 2 ^ 31" "unat q + 4 \<le> 2 ^ 31"
  shows "ld32 q (clear_bss n dst m) = ld32 q m"
  using assms
proof (induction n arbitrary: dst m)
  case (Suc n)
  have u: "unat (dst + 4) = unat dst + 4" using Suc.prems(2) by (simp add: unat_plus4)
  have d: "unat q + 4 \<le> unat (dst + 4) \<or> unat (dst + 4) + 4 * n \<le> unat q" using Suc.prems(1) u by auto
  have "ld32 q (clear_bss (Suc n) dst m) = ld32 q (st32 dst 0 m)" using Suc.IH[OF d] Suc.prems by (simp add: u)
  also have "\<dots> = ld32 q m" by (rule ld_st_unat) (use Suc.prems in auto)
  finally show ?case .
qed simp

lemma clear_clears:
  assumes "unat dst + 4 * n \<le> 2 ^ 31" "i < n"
  shows "ld32 (dst + 4 * of_nat i) (clear_bss n dst m) = 0"
  using assms
proof (induction n arbitrary: dst m i)
  case (Suc n)
  have u: "unat (dst + 4) = unat dst + 4" using Suc.prems(1) by (simp add: unat_plus4)
  show ?case
  proof (cases i)
    case 0
    then show ?thesis using clear_outside[of dst "dst + 4" n] Suc.prems by (simp add: u)
  next
    case (Suc j)
    then show ?thesis using Suc.IH[of "dst + 4" j] Suc.prems u by (simp add: algebra_simps)
  qed
qed simp

text \<open>
  What the linker script guarantees: the tables and the initial data in ROM below the RAM, and in RAM the vector table, \<open>.data\<close> of \<open>n\<close>
  words and \<open>.bss\<close> of \<open>k\<close> words, in this order.
\<close>

definition linked :: "linkmap \<Rightarrow> nat \<Rightarrow> nat \<Rightarrow> bool" where
  "linked L n k \<longleftrightarrow>
     unat (vector_tbl L) + 192 \<le> 0x20000000 \<and> unat (data_org L) + 4 * n \<le> 0x20000000 \<and>
     0x20000000 \<le> unat (exchdr_at L) \<and> unat (exchdr_at L) + 192 \<le> unat (data_start L) \<and>
     data_end L = data_start L + of_nat (4 * n) \<and> unat (data_start L) + 4 * n \<le> unat (bss_start L) \<and>
     bss_end L = bss_start L + of_nat (4 * k) \<and> unat (bss_start L) + 4 * k \<le> 0x2003F800"

text \<open>
  The start from reset puts the image of the program into memory and returns: the vector table in RAM is that of the ROM, every word
  of \<open>.data\<close> its initial value, every word of \<open>.bss\<close> zero, and the system memory that the allocator gets begins behind \<open>.bss\<close> and ends below the
  exception stack.
\<close>
theorem reset_loads_image:
  assumes "linked L n k"
  shows "\<exists>s'. Reset_Handler L s = Some s' \<and>
    (\<forall>i<48. ld32 (exchdr_at L + 4 * of_nat i) (mem s') = ld32 (vector_tbl L + 4 * of_nat i) (mem s)) \<and>
    (\<forall>i<n. ld32 (data_start L + 4 * of_nat i) (mem s') = ld32 (data_org L + 4 * of_nat i) (mem s)) \<and>
    (\<forall>i<k. ld32 (bss_start L + 4 * of_nat i) (mem s') = 0) \<and>
    lowmem_top s' = bss_end L \<and> unat (lowmem_top s') \<le> unat (lowmem_limit s') \<and> unat (lowmem_limit s') + 2048 = 0x20040000"
proof -
  note l = assms[unfolded linked_def]
  define m1 where "m1 = load_vectors 48 (exchdr_at L) (vector_tbl L) (mem s)"
  define m2 where "m2 = load_vectors n (data_start L) (data_org L) m1"
  define m3 where "m3 = clear_bss k (bss_start L) m2"
  have b: "unat (bss_end L) = unat (bss_start L) + 4 * k" using l by (simp add: unat_plus del: of_nat_mult)
  have d: "bss_end L - bss_start L = of_nat (4 * k)" using l by simp
  then have "unat ((bss_end L - bss_start L) div 4) = k"
    using l unat_plus[of 0 "4 * k"] by (simp add: unat_div del: of_nat_mult)
  moreover have "load_data (data_start L) (data_end L) (data_org L) m1 = Some m2"
    using load_data_words[of n "data_start L" "data_org L" m1] l by (simp add: m2_def)
  moreover have "lowmem_bounds L = (bss_end L, 0x2003F800)"
    using l b by (auto simp: lowmem_bounds_def word_less_nat_alt word_le_nat_alt)
  ultimately have r: "Reset_Handler L s = Some (s\<lparr>mem := m3, lowmem_top := bss_end L, lowmem_limit := 0x2003F800\<rparr>)"
    by (simp add: Reset_Handler_def m1_def m3_def)
  have at: "unat (a + 4 * of_nat i) = unat a + 4 * i" if "unat a + 4 * i < 2 ^ 31" for a :: UW and i
    using unat_plus[of a "4 * i"] that by simp
  have "ld32 (exchdr_at L + 4 * of_nat i) m3 = ld32 (vector_tbl L + 4 * of_nat i) (mem s)" if "i < 48" for i
  proof -
    have u: "unat (exchdr_at L + 4 * of_nat i) = unat (exchdr_at L) + 4 * i" using l that by (intro at) simp
    have "ld32 (exchdr_at L + 4 * of_nat i) m3 = ld32 (exchdr_at L + 4 * of_nat i) m2"
      unfolding m3_def by (rule clear_outside) (use l that u in auto)
    also have "\<dots> = ld32 (exchdr_at L + 4 * of_nat i) m1" unfolding m2_def by (rule load_outside) (use l that u in auto)
    also have "\<dots> = ld32 (vector_tbl L + 4 * of_nat i) (mem s)" unfolding m1_def by (rule load_copies) (use l that in auto)
    finally show ?thesis .
  qed
  moreover have "ld32 (data_start L + 4 * of_nat i) m3 = ld32 (data_org L + 4 * of_nat i) (mem s)" if "i < n" for i
  proof -
    have u: "unat (data_start L + 4 * of_nat i) = unat (data_start L) + 4 * i" "unat (data_org L + 4 * of_nat i) = unat (data_org L) + 4 * i"
      using l that by (auto intro!: at)
    have "ld32 (data_start L + 4 * of_nat i) m3 = ld32 (data_start L + 4 * of_nat i) m2"
      unfolding m3_def by (rule clear_outside) (use l that u in auto)
    also have "\<dots> = ld32 (data_org L + 4 * of_nat i) m1" unfolding m2_def by (rule load_copies) (use l that in auto)
    also have "\<dots> = ld32 (data_org L + 4 * of_nat i) (mem s)" unfolding m1_def by (rule load_outside) (use l that u in auto)
    finally show ?thesis .
  qed
  moreover have "ld32 (bss_start L + 4 * of_nat i) m3 = 0" if "i < k" for i
    unfolding m3_def by (rule clear_clears) (use l that in auto)
  ultimately show ?thesis using l b r by auto
qed

definition ex_link :: linkmap where
  "ex_link = \<lparr>vector_tbl = 0x10000100, exchdr_at = 0x20000000, data_org = 0x10008000, data_start = 0x200000C0,
     data_end = 0x20000100, bss_start = 0x20000100, bss_end = 0x20004100\<rparr>"

theorem reset_loads_image_witness:
  "\<exists>s'. Reset_Handler ex_link ex_race = Some s' \<and> lowmem_top s' = 0x20004100 \<and> ld32 0x20000110 (mem s') = 0"
proof -
  have "linked ex_link 16 4096" by (simp add: linked_def ex_link_def)
  from reset_loads_image[OF this, of ex_race] obtain s' where s: "Reset_Handler ex_link ex_race = Some s'"
    "\<forall>i<4096. ld32 (bss_start ex_link + 4 * of_nat i) (mem s') = 0" "lowmem_top s' = bss_end ex_link" by blast
  then show ?thesis using s(2)[rule_format, of 4] by (simp add: ex_link_def)
qed

subsection \<open>The tables of the kernel objects\<close>

text \<open>All initialisation loops have one shape: they reset an entry of the table and append its number to the free queue.\<close>

lemma fold_table:
  assumes "\<And>i T F. i < n \<Longrightarrow> f i (st T F) = st (T(i := h i (T i))) (F @ [i])"
  shows "fold f [0..<n] (st T F) = st (\<lambda>i. if i < n then h i (T i) else T i) (F @ [0..<n])"
proof -
  have "k \<le> n \<Longrightarrow> fold f [0..<k] (st T F) = st (\<lambda>i. if i < k then h i (T i) else T i) (F @ [0..<k])" for k
  proof (induction k)
    case (Suc k)
    have "(\<lambda>i. if i < k then h i (T i) else T i)(k := h k (T k)) = (\<lambda>i. if i < Suc k then h i (T i) else T i)" by (auto simp: less_Suc_eq)
    then show ?case using Suc assms[of k] by simp
  qed simp
  then show ?thesis by simp
qed

lemma semaphore_initialized:
  "knl_semaphore_initialize s = s\<lparr>sem := (\<lambda>i. if i < NUM_SEMID then (sem s i)\<lparr>semid := 0\<rparr> else sem s i), free_sem := [0..<NUM_SEMID]\<rparr>"
  unfolding knl_semaphore_initialize_def
  using fold_table[where st = "\<lambda>T F. s\<lparr>sem := T, free_sem := F\<rparr>" and h = "\<lambda>_. semid_update (\<lambda>_. 0)" and T = "sem s" and F = "[]" and n = NUM_SEMID
      and f = "\<lambda>i s. let s = upd_sem i (semid_update (\<lambda>_. 0)) s in s\<lparr>free_sem := free_sem s @ [i]\<rparr>"]
  by (simp add: upd_sem_def)

lemma eventflag_initialized:
  "knl_eventflag_initialize s = s\<lparr>flg := (\<lambda>i. if i < NUM_FLGID then (flg s i)\<lparr>flgid := 0\<rparr> else flg s i), free_flg := [0..<NUM_FLGID]\<rparr>"
  unfolding knl_eventflag_initialize_def
  using fold_table[where st = "\<lambda>T F. s\<lparr>flg := T, free_flg := F\<rparr>" and h = "\<lambda>_. flgid_update (\<lambda>_. 0)" and T = "flg s" and F = "[]" and n = NUM_FLGID
      and f = "\<lambda>i s. let s = upd_flg i (flgid_update (\<lambda>_. 0)) s in s\<lparr>free_flg := free_flg s @ [i]\<rparr>"]
  by (simp add: upd_flg_def)

lemma mailbox_initialized:
  "knl_mailbox_initialize s = s\<lparr>mbx := (\<lambda>i. if i < NUM_MBXID then (mbx s i)\<lparr>mbxid := 0\<rparr> else mbx s i), free_mbx := [0..<NUM_MBXID]\<rparr>"
  unfolding knl_mailbox_initialize_def
  using fold_table[where st = "\<lambda>T F. s\<lparr>mbx := T, free_mbx := F\<rparr>" and h = "\<lambda>_. mbxid_update (\<lambda>_. 0)" and T = "mbx s" and F = "[]" and n = NUM_MBXID
      and f = "\<lambda>i s. let s = upd_mbx i (mbxid_update (\<lambda>_. 0)) s in s\<lparr>free_mbx := free_mbx s @ [i]\<rparr>"]
  by (simp add: upd_mbx_def)

lemma messagebuffer_initialized:
  "knl_messagebuffer_initialize s = s\<lparr>mbf := (\<lambda>i. if i < NUM_MBFID then (mbf s i)\<lparr>mbfid := 0\<rparr> else mbf s i), free_mbf := [0..<NUM_MBFID]\<rparr>"
  unfolding knl_messagebuffer_initialize_def
  using fold_table[where st = "\<lambda>T F. s\<lparr>mbf := T, free_mbf := F\<rparr>" and h = "\<lambda>_. mbfid_update (\<lambda>_. 0)" and T = "mbf s" and F = "[]" and n = NUM_MBFID
      and f = "\<lambda>i s. let s = upd_mbf i (mbfid_update (\<lambda>_. 0)) s in s\<lparr>free_mbf := free_mbf s @ [i]\<rparr>"]
  by (simp add: upd_mbf_def)

lemma mutex_initialized:
  "knl_mutex_initialize s = s\<lparr>mtx := (\<lambda>i. if i < NUM_MTXID then (mtx s i)\<lparr>mtxid := 0\<rparr> else mtx s i), free_mtx := [0..<NUM_MTXID]\<rparr>"
  unfolding knl_mutex_initialize_def
  using fold_table[where st = "\<lambda>T F. s\<lparr>mtx := T, free_mtx := F\<rparr>" and h = "\<lambda>_. mtxid_update (\<lambda>_. 0)" and T = "mtx s" and F = "[]" and n = NUM_MTXID
      and f = "\<lambda>i s. let s = upd_mtx i (mtxid_update (\<lambda>_. 0)) s in s\<lparr>free_mtx := free_mtx s @ [i]\<rparr>"]
  by (simp add: upd_mtx_def)

lemma memorypool_initialized:
  "knl_memorypool_initialize s = s\<lparr>mpl := (\<lambda>i. if i < NUM_MPLID then (mpl s i)\<lparr>mplid := 0\<rparr> else mpl s i), free_mpl := [0..<NUM_MPLID]\<rparr>"
  unfolding knl_memorypool_initialize_def
  using fold_table[where st = "\<lambda>T F. s\<lparr>mpl := T, free_mpl := F\<rparr>" and h = "\<lambda>_. mplid_update (\<lambda>_. 0)" and T = "mpl s" and F = "[]" and n = NUM_MPLID
      and f = "\<lambda>i s. let s = upd_mpl i (mplid_update (\<lambda>_. 0)) s in s\<lparr>free_mpl := free_mpl s @ [i]\<rparr>"]
  by (simp add: upd_mpl_def)

lemma fix_memorypool_initialized:
  "knl_fix_memorypool_initialize s =
     s\<lparr>mpf := (\<lambda>i. if i < NUM_MPFID then (mpf s i)\<lparr>mpfid := 0, mpf_locked := False\<rparr> else mpf s i), free_mpf := [0..<NUM_MPFID]\<rparr>"
  unfolding knl_fix_memorypool_initialize_def
  using fold_table[where st = "\<lambda>T F. s\<lparr>mpf := T, free_mpf := F\<rparr>" and h = "\<lambda>_ B. B\<lparr>mpfid := 0, mpf_locked := False\<rparr>" and T = "mpf s" and F = "[]"
      and n = NUM_MPFID and f = "\<lambda>i s. let s = upd_mpf i (mpfid_update (\<lambda>_. 0)) s; s = knl_InitOBJLOCK i s in s\<lparr>free_mpf := free_mpf s @ [i]\<rparr>"]
  by (simp add: upd_mpf_def knl_InitOBJLOCK_def)

lemma cyclic_initialized:
  "knl_cyclichandler_initialize s =
     s\<lparr>cyc := (\<lambda>i. if i < NUM_CYCID then (cyc s i)\<lparr>cychdr := 0, cyc_generation := 0\<rparr> else cyc s i), free_cyc := [0..<NUM_CYCID]\<rparr>"
  unfolding knl_cyclichandler_initialize_def
  using fold_table[where st = "\<lambda>T F. s\<lparr>cyc := T, free_cyc := F\<rparr>" and h = "\<lambda>_ B. B\<lparr>cychdr := 0, cyc_generation := 0\<rparr>" and T = "cyc s" and F = "[]"
      and n = NUM_CYCID and f = "\<lambda>i s. let s = upd_cyc i (\<lambda>B. B\<lparr>cychdr := 0, cyc_generation := 0\<rparr>) s in s\<lparr>free_cyc := free_cyc s @ [i]\<rparr>"]
  by (simp add: upd_cyc_def)

lemma alarm_initialized:
  "knl_alarmhandler_initialize s =
     s\<lparr>alm := (\<lambda>i. if i < NUM_ALMID then (alm s i)\<lparr>almhdr := 0, alm_generation := 0\<rparr> else alm s i), free_alm := [0..<NUM_ALMID]\<rparr>"
  unfolding knl_alarmhandler_initialize_def
  using fold_table[where st = "\<lambda>T F. s\<lparr>alm := T, free_alm := F\<rparr>" and h = "\<lambda>_ B. B\<lparr>almhdr := 0, alm_generation := 0\<rparr>" and T = "alm s" and F = "[]"
      and n = NUM_ALMID and f = "\<lambda>i s. let s = upd_alm i (\<lambda>B. B\<lparr>almhdr := 0, alm_generation := 0\<rparr>) s in s\<lparr>free_alm := free_alm s @ [i]\<rparr>"]
  by (simp add: upd_alm_def)

lemmas initialized = semaphore_initialized eventflag_initialized mailbox_initialized messagebuffer_initialized mutex_initialized
  memorypool_initialized fix_memorypool_initialized cyclic_initialized alarm_initialized

definition no_waiter :: "kstate \<Rightarrow> bool" where
  "no_waiter s \<longleftrightarrow> (\<forall>q. q \<noteq> FreeTcb \<longrightarrow> (\<forall>p<NUM_TSKPRI. q \<noteq> RdyQ p) \<longrightarrow> que s q = [])"

lemma tasks_initialized:
  assumes "no_waiter s"
  defines "s' \<equiv> knl_task_initialize s"
  shows "que s' = (\<lambda>_. [])(FreeTcb := [0..<NUM_TSKID])"
    and "t < NUM_TSKID \<Longrightarrow> tcb s' t = (tcb s t)\<lparr>tskid := int t + 1, state := TS_NONEXIST\<rparr>"
    and "rq s' = \<lparr>top_priority = NUM_TSKPRI, bitmap = 0, klocktsk = None\<rparr>"
    and "c < TK_MAX_CORE \<Longrightarrow> ctxtsk (smp s') c = None" "c < TK_MAX_CORE \<Longrightarrow> schedtsk (smp s') c = None"
    and "c < TK_MAX_CORE \<Longrightarrow> dispatch_disabled (smp s') c = DDS_ENABLE" "online_mask (smp s') = online_mask (smp s)"
      "primask (smp s') = primask (smp s)" "taskindp (smp s') = taskindp (smp s)"
    and "mem s' = mem s" "imacb s' = imacb s" "state (tcb s' (idletsk c)) = TS_READY \<or> \<not> c < TK_MAX_CORE"
proof -
  define s1 where "s1 = s\<lparr>smp := (smp s)\<lparr>
           ctxtsk := (\<lambda>c. if c < TK_MAX_CORE then None else ctxtsk (smp s) c),
           schedtsk := (\<lambda>c. if c < TK_MAX_CORE then None else schedtsk (smp s) c),
           dispatch_disabled := (\<lambda>c. if c < TK_MAX_CORE then DDS_ENABLE else dispatch_disabled (smp s) c)\<rparr>\<rparr>"
  define s2 where "s2 = knl_ready_queue_initialize s1"
  define s3 where "s3 = s2\<lparr>tcb := (\<lambda>i. if i < NUM_TSKID then (tcb s2 i)\<lparr>tskid := int i + 1, state := TS_NONEXIST\<rparr> else tcb s2 i),
    que := (que s2)(FreeTcb := [0..<NUM_TSKID])\<rparr>"
  have "s' = knl_idle_initialize s3"
    unfolding s'_def knl_task_initialize_def Let_def s1_def[symmetric] s2_def[symmetric] s3_def
    using fold_table[where st = "\<lambda>T F. s2\<lparr>tcb := T, que := (que s2)(FreeTcb := F)\<rparr>" and h = "\<lambda>i T. T\<lparr>tskid := int i + 1, state := TS_NONEXIST\<rparr>"
        and T = "tcb s2" and F = "[]" and n = NUM_TSKID
        and f = "\<lambda>i s. upd_que (q_insert i FreeTcb) (upd_tcb i (\<lambda>T. T\<lparr>tskid := int i + 1, state := TS_NONEXIST\<rparr>) s)"]
    by (simp add: q_insert_def)
  moreover have "que s2 = (\<lambda>_. [])(FreeTcb := que s FreeTcb)"
    using assms(1) by (auto simp: no_waiter_def s2_def s1_def knl_ready_queue_initialize_def fun_eq_iff split: qhd.split)
  ultimately show "que s' = (\<lambda>_. [])(FreeTcb := [0..<NUM_TSKID])"
    "t < NUM_TSKID \<Longrightarrow> tcb s' t = (tcb s t)\<lparr>tskid := int t + 1, state := TS_NONEXIST\<rparr>"
    "rq s' = \<lparr>top_priority = NUM_TSKPRI, bitmap = 0, klocktsk = None\<rparr>"
    "c < TK_MAX_CORE \<Longrightarrow> ctxtsk (smp s') c = None" "c < TK_MAX_CORE \<Longrightarrow> schedtsk (smp s') c = None"
    "c < TK_MAX_CORE \<Longrightarrow> dispatch_disabled (smp s') c = DDS_ENABLE" "online_mask (smp s') = online_mask (smp s)"
    "primask (smp s') = primask (smp s)" "taskindp (smp s') = taskindp (smp s)"
    "mem s' = mem s" "imacb s' = imacb s" "state (tcb s' (idletsk c)) = TS_READY \<or> \<not> c < TK_MAX_CORE"
    by (auto simp: knl_idle_initialize_def TK_MAX_CORE_def knl_make_dormant_def idletsk_def s3_def s2_def s1_def knl_ready_queue_initialize_def
        Let_def less_Suc_eq numeral_2_eq_2)
qed

lemma kwf_tasks_initialized:
  assumes "no_waiter s" shows "kwf (knl_task_initialize s)"
proof -
  note t = tasks_initialized[OF assms]
  have "loc_ok (tcb (knl_task_initialize s)) (que (knl_task_initialize s))"
    by (auto simp: loc_ok_def t(1,2) at_home_def split: if_splits)
  moreover have "tcbs_ok (tcb (knl_task_initialize s))" by (simp add: tcbs_ok_def tcb_ok_def t(2))
  moreover have "rq_ok (que (knl_task_initialize s)) (rq (knl_task_initialize s))" by (simp add: rq_ok_def t(1,3))
  moreover have "smp_excl (smp (knl_task_initialize s)) \<and> smp_aff (tcb (knl_task_initialize s)) (smp (knl_task_initialize s)) \<and>
      sched_ok (que (knl_task_initialize s)) (smp (knl_task_initialize s))"
    by (simp add: smp_excl_def smp_aff_def sched_ok_def t(4,5))
  ultimately show ?thesis by (simp add: kwf_def)
qed

lemma init_object_sel:
  "snd (knl_init_object s) = E_OK" "que (fst (knl_init_object s)) = que (knl_task_initialize s)"
  "tcb (fst (knl_init_object s)) = tcb (knl_task_initialize s)" "rq (fst (knl_init_object s)) = rq (knl_task_initialize s)"
  "smp (fst (knl_init_object s)) = smp (knl_task_initialize s)" "mem (fst (knl_init_object s)) = mem (knl_task_initialize s)"
  "imacb (fst (knl_init_object s)) = imacb (knl_task_initialize s)" "kwf (fst (knl_init_object s)) = kwf (knl_task_initialize s)"
  "free_sem (fst (knl_init_object s)) = [0..<NUM_SEMID]" "free_flg (fst (knl_init_object s)) = [0..<NUM_FLGID]"
  "free_mbx (fst (knl_init_object s)) = [0..<NUM_MBXID]" "free_mbf (fst (knl_init_object s)) = [0..<NUM_MBFID]"
  "free_mtx (fst (knl_init_object s)) = [0..<NUM_MTXID]" "free_mpl (fst (knl_init_object s)) = [0..<NUM_MPLID]"
  "free_mpf (fst (knl_init_object s)) = [0..<NUM_MPFID]" "free_cyc (fst (knl_init_object s)) = [0..<NUM_CYCID]"
  "free_alm (fst (knl_init_object s)) = [0..<NUM_ALMID]"
  "i < NUM_SEMID \<Longrightarrow> semid (sem (fst (knl_init_object s)) i) = 0" "i < NUM_FLGID \<Longrightarrow> flgid (flg (fst (knl_init_object s)) i) = 0"
  "i < NUM_MTXID \<Longrightarrow> mtxid (mtx (fst (knl_init_object s)) i) = 0" "i < NUM_MPFID \<Longrightarrow> \<not> mpf_locked (mpf (fst (knl_init_object s)) i)"
  "i < NUM_MBXID \<Longrightarrow> mbxid (mbx (fst (knl_init_object s)) i) = 0" "i < NUM_MBFID \<Longrightarrow> mbfid (mbf (fst (knl_init_object s)) i) = 0"
  "i < NUM_MPLID \<Longrightarrow> mplid (mpl (fst (knl_init_object s)) i) = 0" "i < NUM_MPFID \<Longrightarrow> mpfid (mpf (fst (knl_init_object s)) i) = 0"
  "i < NUM_CYCID \<Longrightarrow> cychdr (cyc (fst (knl_init_object s)) i) = 0 \<and> cyc_generation (cyc (fst (knl_init_object s)) i) = 0"
  "i < NUM_ALMID \<Longrightarrow> almhdr (alm (fst (knl_init_object s)) i) = 0 \<and> alm_generation (alm (fst (knl_init_object s)) i) = 0"
  by (simp_all add: knl_init_object_def initialized Let_def)

text \<open>
  C13. The tables after the start. Whatever the memory held, as long as no task waits anywhere, \<open>knl_init_object\<close> establishes the invariant of the
  scheduler and that of the semaphores: all tasks are free and do not exist, the ready queue is empty, no core has a current or a selected task, and for
  every kind of object (semaphore, event flag, mailbox, message buffer, mutex, both kinds of pool, cyclic and alarm handler) the free queue holds all
  the control blocks in order and none of them is in existence: its ID is zero, and that of a time event handler is the zero handler address.
\<close>
theorem objects_initialized:
  assumes "no_waiter s"
  shows "case knl_init_object s of (s', er) \<Rightarrow> er = E_OK \<and> kwf s' \<and> sem_inv s' \<and>
    que s' = (\<lambda>_. [])(FreeTcb := [0..<NUM_TSKID]) \<and> ready_list s' = [] \<and> knl_ready_queue_top s' = None \<and>
    free_sem s' = [0..<NUM_SEMID] \<and> free_flg s' = [0..<NUM_FLGID] \<and> free_mbx s' = [0..<NUM_MBXID] \<and> free_mbf s' = [0..<NUM_MBFID] \<and>
    free_mtx s' = [0..<NUM_MTXID] \<and> free_mpl s' = [0..<NUM_MPLID] \<and> free_mpf s' = [0..<NUM_MPFID] \<and>
    free_cyc s' = [0..<NUM_CYCID] \<and> free_alm s' = [0..<NUM_ALMID] \<and>
    (\<forall>t<NUM_TSKID. state (tcb s' t) = TS_NONEXIST) \<and>
    (\<forall>i<NUM_SEMID. semid (sem s' i) = 0) \<and> (\<forall>i<NUM_FLGID. flgid (flg s' i) = 0) \<and> (\<forall>i<NUM_MBXID. mbxid (mbx s' i) = 0) \<and>
    (\<forall>i<NUM_MBFID. mbfid (mbf s' i) = 0) \<and> (\<forall>i<NUM_MTXID. mtxid (mtx s' i) = 0) \<and> (\<forall>i<NUM_MPLID. mplid (mpl s' i) = 0) \<and>
    (\<forall>i<NUM_MPFID. mpfid (mpf s' i) = 0 \<and> \<not> mpf_locked (mpf s' i)) \<and>
    (\<forall>i<NUM_CYCID. cychdr (cyc s' i) = 0 \<and> cyc_generation (cyc s' i) = 0) \<and> (\<forall>i<NUM_ALMID. almhdr (alm s' i) = 0 \<and> alm_generation (alm s' i) = 0) \<and>
    (\<forall>c<TK_MAX_CORE. ctxtsk (smp s') c = None \<and> schedtsk (smp s') c = None)"
proof -
  note t = tasks_initialized[OF assms]
  have "sem_inv (fst (knl_init_object s))" by (auto simp: sem_inv_def sem_free_def init_object_sel t(1))
  moreover have "ready_list (fst (knl_init_object s)) = []" by (simp add: ready_list_def init_object_sel t(1))
  moreover have "knl_ready_queue_top (fst (knl_init_object s)) = None" by (simp add: knl_ready_queue_top_def init_object_sel t(3))
  ultimately show ?thesis
    using t(4,5) by (simp add: case_prod_unfold init_object_sel kwf_tasks_initialized[OF assms] t(1,2))
qed

text \<open>A memory with left-overs in the ring of priority 5.\<close>

definition ex_boot :: kstate where
  "ex_boot = ex_race\<lparr>que := (\<lambda>_. [])(RdyQ 5 := [3, 3]), smp := (smp ex_race)\<lparr>online_mask := 1\<rparr>,
     lowmem_top := 0x20004100, lowmem_limit := 0x2003F800\<rparr>"

lemma ex_boot_clean: "no_waiter ex_boot"
  by (simp add: no_waiter_def ex_boot_def NUM_TSKPRI_def)

theorem objects_initialized_witness: "kwf (fst (knl_init_object ex_boot)) \<and> sem_inv (fst (knl_init_object ex_boot))"
  using objects_initialized[OF ex_boot_clean] by (simp add: case_prod_unfold)

subsection \<open>The initial task\<close>

lemma timer_startup_sel:
  "que (knl_timer_startup s) = que s" "tcb (knl_timer_startup s) = tcb s" "rq (knl_timer_startup s) = rq s"
  "smp (knl_timer_startup s) = smp s" "mem (knl_timer_startup s) = mem s" "imacb (knl_timer_startup s) = imacb s"
  "kwf (knl_timer_startup s) = kwf s" "current_time (tmr (knl_timer_startup s)) = 0" "tmq (tmr (knl_timer_startup s)) TimerQ = []"
  by (simp_all add: knl_timer_startup_def knl_timehandler_initialize_def TK_MAX_CORE_def numeral_2_eq_2)

lemma end_cs_masked: "primask (smp s) c \<Longrightarrow> END_CRITICAL_SECTION c s = s"
  by (simp add: END_CRITICAL_SECTION_def end_cs_def)

definition initial_tcb :: "UW \<Rightarrow> UW \<Rightarrow> tcb \<Rightarrow> tcb" where
  "initial_tcb entry q T = T\<lparr>exinf := 0, tskatr := 1, assprc := 3, task_entry := entry, ipriority := 0, sstksz := 1152,
     isstack := q + 1152, isysmode := 1, state := TS_DORMANT, priority := 0, bpriority := 0, sysmode := 1, wupcnt := 0, suscnt := 0,
     klockwait := False, klocked := False, stkfree := False, wercd := None, mtxlist := None, ctx_set := Some 0\<rparr>"

lemma initial_created:
  assumes p: "primask (smp s) 0" and m: "imalloc_area (imacb s) 1152 (mem s) = Some (m, q)" "q \<noteq> 0"
    and f: "que s FreeTcb = 0 # rest" "tskid (tcb s 0) = 1"
  shows "tk_cre_tsk 0 (knl_init_ctsk entry) s =
    Some (s\<lparr>mem := m, que := (que s)(FreeTcb := rest), tcb := (tcb s)(0 := initial_tcb entry q (tcb s 0))\<rparr>, 1)"
proof -
  have sz: "sys_stack_size 1024 = 1152" by (simp add: sys_stack_size_def w32_def Let_def signed_divide_int_def)
  have "imalloc_size 1152 = 1152" by (simp add: imalloc_size_def ROUND8_def)
  then have i: "knl_Imalloc 0 1152 s = Some (s\<lparr>mem := m\<rparr>, q)" using m by (simp add: knl_Imalloc_def end_cs_masked p)
  define s' where "s' = s\<lparr>mem := m, que := (que s)(FreeTcb := rest), tcb := (tcb s)(0 := initial_tcb entry q (tcb s 0))\<rparr>"
  have "cre_tsk_cs (knl_init_ctsk entry) 1152 q (s\<lparr>mem := m\<rparr>) = (s', 1)"
    using f by (simp add: cre_tsk_cs_def knl_init_ctsk_def s'_def initial_tcb_def task_assprc_def
        int_priority_def knl_make_dormant_def knl_setup_context_def Let_def)
  moreover have "END_CRITICAL_SECTION 0 s' = s'" by (rule end_cs_masked) (simp add: s'_def p)
  ultimately show ?thesis
    by (simp add: tk_cre_tsk_def Let_def i m(2) sz s'_def[symmetric])
      (simp add: knl_init_ctsk_def sz i m(2) CHK_PRI_def NUM_TSKPRI_def)
qed

lemma initial_started:
  assumes k: "kwf s" and d: "state (tcb s 0) = TS_DORMANT" "tskid (tcb s 0) = 1" "priority (tcb s 0) = 0" "assprc (tcb s 0) = 3"
      "\<not> klocked (tcb s 0)" "\<not> klockwait (tcb s 0)"
    and q: "\<And>p. que s (RdyQ p) = []" and m: "primask (smp s) 0" "online_mask (smp s) = 1"
    and n: "\<And>c. c < TK_MAX_CORE \<Longrightarrow> ctxtsk (smp s) c = None \<and> schedtsk (smp s) c = None \<and> dispatch_disabled (smp s) c = DDS_ENABLE"
  obtains s' where "tk_sta_tsk 0 1 0 s = (s', E_OK)" "kwf s'" "tcb s' = (tcb s)(0 := (tcb s 0)\<lparr>ctx_set := Some 0, state := TS_READY\<rparr>)"
    "que s' = (que s)(RdyQ 0 := [0])" "schedtsk (smp s') 0 = Some 0" "ctxtsk (smp s') = ctxtsk (smp s)" "tmr s' = tmr s"
proof -
  define X where "X = fst (knl_ready_queue_insert 0 (s\<lparr>tcb := (tcb s)(0 := (tcb s 0)\<lparr>ctx_set := Some 0, state := TS_READY\<rparr>)\<rparr>))"
  define s' where "s' = knl_smp_reschedule_all 0 X"
  have X: "que X = (que s)(RdyQ 0 := [0])" "smp X = smp s" "tcb X = (tcb s)(0 := (tcb s 0)\<lparr>ctx_set := Some 0, state := TS_READY\<rparr>)" "tmr X = tmr s"
    using d q by (simp_all add: X_def knl_ready_queue_insert_def q_insert_def Let_def)
  have indp: "in_indp 0 s" using n[of 0] by (simp add: in_indp_def less_cores)
  have "ctxtsk (smp s) 0 = None" "ctxtsk (smp s) 1 = None" using n[of 0] n[of 1] by (simp_all add: less_cores)
  then have nc: "\<not> knl_is_ctxtsk 0 s" by (simp add: knl_is_ctxtsk_def TK_MAX_CORE_def upt_rec)
  have st: "sta_tsk_cs 0 0 0 s = (s', E_OK)"
    using d(1) nc by (simp add: sta_tsk_cs_def knl_make_ready_def knl_setup_stacd_def knl_setup_context_def s'_def X_def Let_def)
  have t0: "(0 :: nat) < NUM_TSKID" by (simp add: size_defs)
  have kw: "kwf s'" using kwf_sta_tsk[OF k t0, of 0 0] st by simp
  note K = kwfD[OF k]
  have rl: "ready_list X = [0]"
    using q by (simp add: ready_list_def X(1) NUM_TSKPRI_def upt_rec)
  have mk: "knl_task_core_mask X 0 = 1"
    using n[of 0] n[of 1] d by (simp add: knl_task_core_mask_def X m(2) Let_def less_cores)
  have ch: "chosen X = [(0, 1)]" using mk d(5) by (simp add: chosen_def scan_order_def rl X(3) feasible_def TK_MAX_CORE_def)
  have se: "selection X 0 = Some 0" by (simp add: selection_def ch assign_eval_one)
  have "assprc (tcb X t) = assprc (tcb s t)" for t by (simp add: X(3))
  then have af: "smp_aff (tcb X) (smp X)" using K(5) smp_aff_assprc[of "tcb X" "tcb s"] by (simp add: X(2))
  have ex: "smp_excl (smp X)" using K(4) by (simp add: X(2))
  have dr: "distinct (ready_list X)" by (simp add: rl)
  have r: "schedtsk (smp s') 0 = Some 0" "ctxtsk (smp s') = ctxtsk (smp s)" "primask (smp s') = primask (smp s)"
    unfolding s'_def knl_smp_reschedule_all_def
    using schedtsk_resched[OF ex af dr, of 0] se m(2) by (simp_all add: X(2) less_cores)
  have "END_CRITICAL_SECTION 0 s' = s'" by (rule end_cs_masked) (simp add: r(3) m(1))
  then have "tk_sta_tsk 0 1 0 s = (s', E_OK)"
    using indp st by (simp add: tk_sta_tsk_def on_task_def CHECK_TSKID_def CHK_TSKID_def CHECK_NONSELF_def get_tcb_def size_defs)
  then show ?thesis
    by (rule that) (use kw r X in \<open>simp_all add: s'_def knl_smp_reschedule_all_def\<close>)
qed

text \<open>
  C12. The system starts. From a memory in which no task waits, and with the area for the stack found, \<open>main\<close> creates the initial task, starts it and
  hands core 0 to the dispatcher: the invariant of the scheduler holds, the initial task is the only one that is ready, with the highest
  priority and on core 0, no timer event is pending, and the dispatcher then runs it with dispatching and interrupts enabled.
\<close>
theorem boot_runs_initial_task:
  assumes w: "no_waiter s" and on: "online_mask (smp s) = 1"
    and heap: "knl_init_Imalloc s = Some s1" "imalloc_area (imacb s1) 1152 (mem s1) = Some (m, q)" "q \<noteq> 0"
  shows "\<exists>s' s''. sysinit_main entry s = Some (Dispatching s') \<and> kwf s' \<and> ready_list s' = [0] \<and>
    state (tcb s' 0) = TS_READY \<and> priority (tcb s' 0) = 0 \<and> task_entry (tcb s' 0) = entry \<and> isstack (tcb s' 0) = q + 1152 \<and>
    tmq (tmr s') TimerQ = [] \<and> current_time (tmr s') = 0 \<and>
    knl_dispatch_entry 0 s' = Some s'' \<and> ctxtsk (smp s'') 0 = Some 0 \<and> \<not> primask (smp s'') 0 \<and> dispatch_disabled (smp s'') 0 = DDS_ENABLE"
proof -
  define s2 where "s2 = s1\<lparr>smp := (smp s)\<lparr>primask := (primask (smp s))(0 := True)\<rparr>\<rparr>"
  have s1: "que s1 = que s" "smp s1 = smp s"
    using heap(1) by (auto simp: knl_init_Imalloc_def Let_def bind_eq_Some_conv)
  have i2: "knl_init_Imalloc (upd_smp (\<lambda>m. m\<lparr>primask := (primask m)(0 := True)\<rparr>) s) = Some s2"
    using heap(1) by (auto simp: knl_init_Imalloc_def Let_def bind_eq_Some_conv s2_def)
  have w2: "no_waiter s2" using w by (simp add: no_waiter_def s2_def s1)
  note t = tasks_initialized[OF w2]
  define s4 where "s4 = knl_timer_startup (fst (knl_init_object s2))"
  have s4: "que s4 = (\<lambda>_. [])(FreeTcb := [0..<NUM_TSKID])" "mem s4 = mem s1" "imacb s4 = imacb s1" "kwf s4"
    "primask (smp s4) 0" "online_mask (smp s4) = 1" "tskid (tcb s4 0) = 1" "tmq (tmr s4) TimerQ = []" "current_time (tmr s4) = 0"
    "\<And>c. c < TK_MAX_CORE \<Longrightarrow> ctxtsk (smp s4) c = None \<and> schedtsk (smp s4) c = None \<and> dispatch_disabled (smp s4) c = DDS_ENABLE"
    using kwf_tasks_initialized[OF w2] on
    by (simp_all add: s4_def timer_startup_sel init_object_sel t(1,2,4-11) size_defs) (simp_all add: s2_def)
  have f: "que s4 FreeTcb = 0 # [1..<NUM_TSKID]" by (simp add: s4(1) upt_rec size_defs)
  define s5 where "s5 = s4\<lparr>mem := m, que := (que s4)(FreeTcb := [1..<NUM_TSKID]), tcb := (tcb s4)(0 := initial_tcb entry q (tcb s4 0))\<rparr>"
  have cre: "tk_cre_tsk 0 (knl_init_ctsk entry) s4 = Some (s5, 1)"
    unfolding s5_def by (rule initial_created[OF s4(5) _ heap(3) f s4(7)]) (simp add: s4 heap(2))
  have k5: "kwf s5"
  proof -
    note k = kwfD[OF s4(4)]
    have Q: "q_remove 0 (que s4) = que s5" by (auto simp: q_remove_def s5_def s4(1) f[unfolded s4(1), simplified] fun_eq_iff)
    have "loc_ok (tcb s5) (que s5)"
      using loc_ok_out[OF k(1), of "initial_tcb entry q (tcb s4 0)" 0] Q by (simp add: s5_def needs_home_def initial_tcb_def)
    moreover have "tcbs_ok (tcb s5)"
      using k(2) s4(7) by (simp add: s5_def initial_tcb_def) (intro tcbs_ok_upd, auto simp: tcb_ok_def NUM_TSKPRI_def)
    moreover have "smp_excl (smp s5) \<and> smp_aff (tcb s5) (smp s5) \<and> sched_ok (que s5) (smp s5)"
      using s4(10) by (simp add: s5_def smp_excl_def smp_aff_def sched_ok_def)
    moreover have "rq_ok (que s5) (rq s5)" using k(3) by (simp add: s5_def rq_ok_def)
    ultimately show ?thesis by (simp add: kwf_def)
  qed
  obtain s6 where s6: "tk_sta_tsk 0 1 0 s5 = (s6, E_OK)" "kwf s6" "tcb s6 = (tcb s5)(0 := (tcb s5 0)\<lparr>ctx_set := Some 0, state := TS_READY\<rparr>)"
    "que s6 = (que s5)(RdyQ 0 := [0])" "schedtsk (smp s6) 0 = Some 0" "ctxtsk (smp s6) = ctxtsk (smp s5)" "tmr s6 = tmr s5"
    by (rule initial_started[OF k5]) (use s4 in \<open>auto simp: s5_def initial_tcb_def\<close>)
  define s' where "s' = knl_force_dispatch 0 s6"
  have main: "sysinit_main entry s = Some (Dispatching s')"
    using s6(1) cre i2
    by (simp add: sysinit_main_def knl_init_device_def knl_init_interrupt_def case_prod_unfold init_object_sel start_initial_task_def
        s4_def[symmetric] s'_def)
  have f': "kwf s'" "ready_list s' = [0]" "tcb s' = tcb s6" "tmr s' = tmr s4" "ctxtsk (smp s') 0 = None" "schedtsk (smp s') 0 = Some 0"
    using kwfD[OF s6(2)] s6(4-7) s4(10)[of 0]
    by (simp_all add: s'_def knl_force_dispatch_def kwf_def smp_excl_def smp_aff_def sched_ok_def s5_def s4(1) ready_list_def NUM_TSKPRI_def upt_rec less_cores)
  then obtain s'' where "knl_dispatch_entry 0 s' = Some s''" "ctxtsk (smp s'') 0 = Some 0" "\<not> primask (smp s'') 0" "dispatch_disabled (smp s'') 0 = DDS_ENABLE"
    by (simp add: knl_dispatch_entry_def dispatch_save_def dispatch_load_def dispatch_store_def Let_def)
  then show ?thesis using main f' s4(8,9) by (simp add: s6(3) s5_def initial_tcb_def)
qed

text \<open>The kernel memory after \<open>knl_init_Imalloc\<close> in the example: one free area of 0x3B6D0 bytes.\<close>

lemmas queue_words = lnk_next_def lnk_prev_def set_next_def set_prev_def mQueInit_def mQueInsert_def mQueRemove_def im_areaque_def im_freeque_def
  im_memsz_def setAreaFlag_def clrAreaFlag_def area_Mask_def assign_prev_def AreaSize_def FreeSize_def Let_def

lemmas word_eval = queue_words ld32_st32_if apart_def knl_insertAreaQue_def

lemma ex_boot_init:
  "\<exists>s1. knl_init_Imalloc ex_boot = Some s1 \<and> imacb s1 = 0x20004100 \<and> ld32 0x20004100 (mem s1) = 0x3B6D8 \<and>
     ld32 0x2000410C (mem s1) = 0x20004120 \<and> ld32 0x20004110 (mem s1) = 0x20004120 \<and> ld32 0x20004118 (mem s1) = 0x2003F7F8 \<and>
     ld32 0x20004120 (mem s1) = 0x2000410C \<and> ld32 0x20004124 (mem s1) = 0x2000410C \<and> ld32 0x20004128 (mem s1) = 0 \<and>
     ld32 0x2000412C (mem s1) = 0x3B6D8"
proof -
  define m0 where "m0 = mem ex_boot"
  define m1 where "m1 = mQueInit 0x20004104 (st32 0x20004100 0x3B6D8 m0)"
  define m2 where "m2 = mQueInit 0x2000410C m1"
  define m3 where "m3 = knl_insertAreaQue 0x20004104 0x2003F7F8 m2"
  define m4 where "m4 = knl_insertAreaQue 0x20004104 0x20004118 m3"
  define m5 where "m5 = setAreaFlag 0x2003F7F8 1 m4"
  define m6 where "m6 = setAreaFlag 0x20004104 1 m5"
  have e1: "ld32 0x20004100 m1 = 0x3B6D8" "ld32 0x20004104 m1 = 0x20004104" "ld32 0x20004108 m1 = 0x20004104"
    by (simp_all add: m1_def word_eval)
  have e2: "ld32 0x20004100 m2 = 0x3B6D8" "ld32 0x20004104 m2 = 0x20004104" "ld32 0x20004108 m2 = 0x20004104"
    "ld32 0x2000410C m2 = 0x2000410C" "ld32 0x20004110 m2 = 0x2000410C"
    by (simp_all add: m2_def word_eval e1)
  have e3: "ld32 0x20004100 m3 = 0x3B6D8" "ld32 0x20004104 m3 = 0x2003F7F8" "ld32 0x20004108 m3 = 0x2003F7F8"
    "ld32 0x2000410C m3 = 0x2000410C" "ld32 0x20004110 m3 = 0x2000410C"
    "ld32 0x2003F7F8 m3 = 0x20004104" "ld32 0x2003F7FC m3 = 0x20004104"
    by (simp_all add: m3_def word_eval e2)
  have e4: "ld32 0x20004100 m4 = 0x3B6D8" "ld32 0x20004104 m4 = 0x20004118"
    "ld32 0x2000410C m4 = 0x2000410C" "ld32 0x20004110 m4 = 0x2000410C"
    "ld32 0x20004118 m4 = 0x2003F7F8" "ld32 0x2000411C m4 = 0x20004104"
    by (simp_all add: m4_def word_eval e3)
  have e5: "ld32 0x20004100 m5 = 0x3B6D8" "ld32 0x2000410C m5 = 0x2000410C" "ld32 0x20004110 m5 = 0x2000410C"
    "ld32 0x20004118 m5 = 0x2003F7F8" "ld32 0x2000411C m5 = 0x20004104"
    by (simp_all add: m5_def word_eval e4)
  have e6: "ld32 0x20004100 m6 = 0x3B6D8" "ld32 0x2000410C m6 = 0x2000410C" "ld32 0x20004110 m6 = 0x2000410C"
    "ld32 0x20004118 m6 = 0x2003F7F8" "ld32 0x2000411C m6 = 0x20004104"
    by (simp_all add: m6_def word_eval e5)
  define m7 where "m7 = clrAreaFlag 0x20004118 1 m6"
  define m8 where "m8 = mQueInsert 0x20004120 0x2000410C m7"
  define m9 where "m9 = set_prev 0x20004128 0x3B6D8 (set_next 0x20004128 0 m8)"
  have e7: "ld32 0x20004100 m7 = 0x3B6D8" "ld32 0x2000410C m7 = 0x2000410C" "ld32 0x20004110 m7 = 0x2000410C" "ld32 0x20004118 m7 = 0x2003F7F8"
    by (simp_all add: m7_def word_eval e6)
  have e8: "ld32 0x20004100 m8 = 0x3B6D8" "ld32 0x2000410C m8 = 0x20004120" "ld32 0x20004110 m8 = 0x20004120" "ld32 0x20004118 m8 = 0x2003F7F8"
    "ld32 0x20004120 m8 = 0x2000410C" "ld32 0x20004124 m8 = 0x2000410C"
    by (simp_all add: m8_def word_eval e7)
  have e9: "ld32 0x20004100 m9 = 0x3B6D8" "ld32 0x2000410C m9 = 0x20004120" "ld32 0x20004110 m9 = 0x20004120" "ld32 0x20004118 m9 = 0x2003F7F8"
    "ld32 0x20004120 m9 = 0x2000410C" "ld32 0x20004124 m9 = 0x2000410C" "ld32 0x20004128 m9 = 0" "ld32 0x2000412C m9 = 0x3B6D8"
    by (simp_all add: m9_def word_eval e8)
  have "knl_searchFreeArea m6 0x20004100 0x3B6D8 = Some 0x2000410C"
    using e6 by (simp add: knl_searchFreeArea_def queue_words search_larger.simps signed_divide_int_def)
  then have "knl_appendFreeArea 0x20004100 0x20004118 m6 = Some m9"
    using e6(4) by (simp add: knl_appendFreeArea_def AreaSize_def lnk_next_def im_freeque_def m9_def m8_def m7_def)
  moreover have "lowmem_top ex_boot = 0x20004100" "lowmem_limit ex_boot = 0x2003F800" by (simp_all add: ex_boot_def)
  ultimately have "knl_init_Imalloc ex_boot = Some (ex_boot\<lparr>mem := m9, imacb := 0x20004100, lowmem_top := 0x2003F800\<rparr>)"
    by (simp add: knl_init_Imalloc_def m6_def m5_def m4_def m3_def m2_def m1_def m0_def im_areaque_def im_freeque_def Let_def)
  then show ?thesis using e9 by simp
qed

lemma ex_boot_alloc:
  assumes "ld32 0x20004100 m = 0x3B6D8" "ld32 0x2000410C m = 0x20004120" "ld32 0x20004110 m = 0x20004120" "ld32 0x20004118 m = 0x2003F7F8"
    "ld32 0x20004120 m = 0x2000410C" "ld32 0x20004124 m = 0x2000410C" "ld32 0x20004128 m = 0" "ld32 0x2000412C m = 0x3B6D8"
  shows "\<exists>m'. imalloc_area 0x20004100 1152 m = Some (m', 0x20004120)"
proof -
  define m1 where "m1 = knl_removeFreeQue 0x20004120 m"
  define m2 where "m2 = knl_insertAreaQue 0x20004118 0x200045A0 m1"
  have e1: "ld32 0x20004100 m1 = 0x3B6D8" "ld32 0x2000410C m1 = 0x2000410C" "ld32 0x20004110 m1 = 0x2000410C" "ld32 0x20004118 m1 = 0x2003F7F8"
    "ld32 0x2000412C m1 = 0x3B6D8"
    by (simp_all add: m1_def word_eval assms knl_removeFreeQue_def)
  have e2: "ld32 0x20004100 m2 = 0x3B6D8" "ld32 0x2000410C m2 = 0x2000410C" "ld32 0x20004110 m2 = 0x2000410C" "ld32 0x200045A0 m2 = 0x2003F7F8"
    by (simp_all add: m2_def word_eval e1)
  have "knl_searchFreeArea m 0x20004100 1152 = Some 0x20004120"
    using assms by (simp add: knl_searchFreeArea_def queue_words search_smaller.simps signed_divide_int_def)
  moreover have "knl_searchFreeArea m2 0x20004100 0x3B250 = Some 0x2000410C"
    using e2 by (simp add: knl_searchFreeArea_def queue_words search_larger.simps signed_divide_int_def)
  then obtain m3 where "knl_appendFreeArea 0x20004100 0x200045A0 m2 = Some m3"
    using e2 by (auto simp: knl_appendFreeArea_def AreaSize_def lnk_next_def im_freeque_def)
  ultimately show ?thesis
    using e1(5) by (simp add: imalloc_area_def im_freeque_def m1_def[symmetric] m2_def[symmetric] FreeSize_def lnk_prev_def Let_def)
qed

theorem boot_runs_initial_task_witness:
  "\<exists>s' s''. sysinit_main 0x10000401 ex_boot = Some (Dispatching s') \<and> knl_dispatch_entry 0 s' = Some s'' \<and> ctxtsk (smp s'') 0 = Some 0"
proof -
  obtain s1 where s1: "knl_init_Imalloc ex_boot = Some s1" "imacb s1 = 0x20004100" "ld32 0x20004100 (mem s1) = 0x3B6D8"
     "ld32 0x2000410C (mem s1) = 0x20004120" "ld32 0x20004110 (mem s1) = 0x20004120" "ld32 0x20004118 (mem s1) = 0x2003F7F8"
     "ld32 0x20004120 (mem s1) = 0x2000410C" "ld32 0x20004124 (mem s1) = 0x2000410C" "ld32 0x20004128 (mem s1) = 0"
     "ld32 0x2000412C (mem s1) = 0x3B6D8" using ex_boot_init by blast
  obtain m' where m': "imalloc_area (imacb s1) 1152 (mem s1) = Some (m', 0x20004120)" using ex_boot_alloc[OF s1(3-10)] s1(2) by auto
  have "online_mask (smp ex_boot) = 1" by (simp add: ex_boot_def)
  from boot_runs_initial_task[OF ex_boot_clean this s1(1) m', of "0x10000401"] show ?thesis by auto
qed

end
