(* ===== verification/Tm_Printf.thy ===== *)
theory Tm_Printf
  imports Prelude "HOL-Library.Monad_Syntax" "HOL-Library.Char_ord"
begin

text \<open>
  \<^verbatim>\<open>lib/libtm/libtm_printf.c\<close> and the character output of \<^verbatim>\<open>libtm.c\<close>. A C string is the list of its characters without
  the terminator; reading at the end gives \<open>NUL\<close>. Type \<open>H\<close> is an integer that \<open>h16\<close> brings into the range of 16 bits. Output goes through a function
  \<open>ostr\<close> on a sink, as in the code. \<open>TM_OUTBUF_SZ\<close> is 0. The lock around \<open>tm_printf\<close> belongs to the USB console and is not part of this.
\<close>

definition h16 :: "int \<Rightarrow> int" where "h16 x = sint (word_of_int x :: 16 word)"

abbreviation (input) NUL :: char where "NUL \<equiv> CHR 0x00"
abbreviation (input) F_LEFT :: UB where "F_LEFT \<equiv> 1"
abbreviation (input) F_PLUS :: UB where "F_PLUS \<equiv> 2"
abbreviation (input) F_SPACE :: UB where "F_SPACE \<equiv> 4"
abbreviation (input) F_PREFIX :: UB where "F_PREFIX \<equiv> 8"
abbreviation (input) F_ZERO :: UB where "F_ZERO \<equiv> 16"
abbreviation (input) MAX_DIGITS :: nat where "MAX_DIGITS \<equiv> 14"

subsection \<open>Integers\<close>

definition digits :: string where "digits = ''0123456789abcdef0123456789ABCDEF''"

text \<open>The list is the part of the buffer from \<open>ep\<close> up to its end.\<close>

partial_function (option) outint_loop :: "UW \<Rightarrow> UW \<Rightarrow> UW \<Rightarrow> string \<Rightarrow> (UW \<times> string) option" where
  "outint_loop val base caps ep =
     (if val \<ge> base then outint_loop (val div base) base caps (digits ! unat (val mod base + caps) # ep) else Some (val, ep))"

definition outint :: "UW \<Rightarrow> UB \<Rightarrow> string option" where
  "outint val base =
     (let caps = drop_bit 2 (base AND 0x40); base = base AND 0x3F
      in do {
        (val, ep) \<leftarrow> outint_loop val (ucast base) (ucast caps) [];
        Some (digits ! unat (val + ucast caps) # ep)
      })"

subsection \<open>Parsing a conversion\<close>

text \<open>The arguments: a word, or a pointer to a string. \<open>None\<close> stands for reading an argument that is not there or is of the other kind.\<close>

datatype va = VInt UW | VStr string

fun va_int :: "va list \<Rightarrow> (UW \<times> va list) option" where
  "va_int (VInt v # ap) = Some (v, ap)"
| "va_int _ = None"

fun va_str :: "va list \<Rightarrow> (string \<times> va list) option" where
  "va_str (VStr s # ap) = Some (s, ap)"
| "va_str _ = None"

definition getc :: "string \<Rightarrow> char \<times> string" where
  "getc fmt = (case fmt of [] \<Rightarrow> (NUL, []) | c # fmt \<Rightarrow> (c, fmt))"

fun get_flags :: "string \<Rightarrow> UB \<Rightarrow> char \<times> string \<times> UB" where
  "get_flags [] fl = (NUL, [], fl)"
| "get_flags (c # fmt) fl =
     (if c = CHR ''-'' then get_flags fmt (fl OR F_LEFT)
      else if c = CHR ''+'' then get_flags fmt (fl OR F_PLUS)
      else if c = CHR '' '' then get_flags fmt (fl OR F_SPACE)
      else if c = CHR ''#'' then get_flags fmt (fl OR F_PREFIX)
      else if c = CHR ''0'' then get_flags fmt (fl OR F_ZERO)
      else (c, fmt, fl))"

definition digit_step :: "int \<Rightarrow> char \<Rightarrow> int" where
  "digit_step w c = h16 (w * 10 + of_char c - 48)"

definition is_dig :: "char \<Rightarrow> bool" where "is_dig c \<longleftrightarrow> (48 :: nat) \<le> of_char c \<and> of_char c \<le> (57 :: nat)"

fun get_num :: "char \<Rightarrow> string \<Rightarrow> int \<Rightarrow> int \<times> char \<times> string" where
  "get_num c [] w = (if is_dig c then (digit_step w c, NUL, []) else (w, c, []))"
| "get_num c (d # fmt) w = (if is_dig c then get_num d fmt (digit_step w c) else (w, c, d # fmt))"

definition get_width :: "char \<Rightarrow> string \<Rightarrow> UB \<Rightarrow> va list \<Rightarrow> (int \<times> UB \<times> char \<times> string \<times> va list) option" where
  "get_width c fmt fl ap =
     (if c = CHR ''*''
      then do {
        (v, ap) \<leftarrow> va_int ap;
        let wid = h16 (sint v);
        let (wid, fl) = (if wid < 0 then (h16 (- wid), fl OR F_LEFT) else (wid, fl));
        let (c, fmt) = getc fmt;
        Some (wid, fl, c, fmt, ap)
      }
      else let (wid, c, fmt) = get_num c fmt 0 in Some (wid, fl, c, fmt, ap))"

definition get_prec :: "char \<Rightarrow> string \<Rightarrow> UB \<Rightarrow> va list \<Rightarrow> (int \<times> UB \<times> char \<times> string \<times> va list) option" where
  "get_prec c fmt fl ap =
     (if c = CHR ''.''
      then do {
        let (c, fmt) = getc fmt;
        (prec, c, fmt, ap) \<leftarrow>
          (if c = CHR ''*''
           then do {
             (v, ap) \<leftarrow> va_int ap;
             let prec = h16 (sint v);
             let prec = (if prec < 0 then 0 else prec);
             let (c, fmt) = getc fmt;
             Some (prec, c, fmt, ap)
           }
           else let (prec, c, fmt) = get_num c fmt 0 in Some (prec, c, fmt, ap));
        Some (prec, fl AND NOT F_ZERO, c, fmt, ap)
      }
      else Some (-1, fl, c, fmt, ap))"

definition get_qual :: "char \<Rightarrow> string \<Rightarrow> char \<times> char \<times> string" where
  "get_qual c fmt = (if c = CHR ''h'' \<or> c = CHR ''l'' then let (c', fmt) = getc fmt in (c, c', fmt) else (NUL, c, fmt))"

subsection \<open>Items\<close>

text \<open>The integer conversions: the value with its sign, and the base with the marks for the prefix (0x80) and capitals (0x40).\<close>

definition int_arg :: "char \<Rightarrow> char \<Rightarrow> UW \<Rightarrow> UW" where
  "int_arg c qual v =
     (if qual = CHR ''h'' then (if c = CHR ''i'' \<or> c = CHR ''d'' then scast (ucast v :: 16 word) else ucast (ucast v :: 16 word)) else v)"

definition int_sign :: "UB \<Rightarrow> UW \<Rightarrow> int \<Rightarrow> UW \<times> char \<times> int" where
  "int_sign fl v wid =
     (if sint v < 0 then (- v, CHR ''-'', h16 (wid - 1))
      else if fl AND F_PLUS \<noteq> 0 then (v, CHR ''+'', h16 (wid - 1))
      else if fl AND F_SPACE \<noteq> 0 then (v, CHR '' '', h16 (wid - 1))
      else (v, NUL, wid))"

definition int_base :: "char \<Rightarrow> UB \<Rightarrow> UW \<Rightarrow> int \<Rightarrow> UB \<times> int" where
  "int_base c fl v wid =
     (let base = 10 :: UB;
          base = (if c = CHR ''X'' then base + 0x40 else base);
          base = (if c = CHR ''X'' \<or> c = CHR ''x'' then base + 8 else base);
          base = base - 2
      in if fl AND F_PREFIX \<noteq> 0 \<and> v \<noteq> 0
         then (base OR 0x80, h16 (wid - (if base = 8 then 1 else 2))) else (base, wid))"

definition int_item :: "char \<Rightarrow> char \<Rightarrow> UB \<Rightarrow> int \<Rightarrow> int \<Rightarrow> UW \<Rightarrow> (char \<times> UB \<times> int \<times> string) option" where
  "int_item c qual fl wid prec v =
     (let v = int_arg c qual v;
          (v, sign, wid) = (if c = CHR ''i'' \<or> c = CHR ''d'' then int_sign fl v wid else (v, NUL, wid));
          (base, wid) = (if c = CHR ''X'' \<or> c = CHR ''x'' \<or> c = CHR ''o'' then int_base c fl v wid else (10, wid))
      in do {
        cbs \<leftarrow> (if v = 0 \<and> prec = 0 then Some [] else outint v base);
        Some (sign, base, wid, cbs)
      })"

text \<open>The loop of the conversion of strings; \<open>prec\<close> is left as the loop leaves it.\<close>

fun str_prec :: "string \<Rightarrow> int \<Rightarrow> string \<times> int" where
  "str_prec [] prec = ([], prec - 1)"
| "str_prec (c # s) prec =
     (let prec = prec - 1 in if prec \<ge> 0 then let (t, prec) = str_prec s prec in (c # t, prec) else ([], prec))"

datatype item = Item char UB int int string | ItemEnd | NoItem

definition get_item :: "char \<Rightarrow> char \<Rightarrow> UB \<Rightarrow> int \<Rightarrow> int \<Rightarrow> va list \<Rightarrow> (item \<times> va list) option" where
  "get_item c qual fl wid prec ap =
     (if c \<in> {CHR ''i'', CHR ''d'', CHR ''u'', CHR ''X'', CHR ''x'', CHR ''o''}
      then do {
        (v, ap) \<leftarrow> va_int ap;
        (sign, base, wid, cbs) \<leftarrow> int_item c qual fl wid prec v;
        Some (Item sign base wid prec cbs, ap)
      }
      else if c = CHR ''p''
      then do {
        (v, ap) \<leftarrow> va_int ap;
        let (base, wid) = (if v \<noteq> 0 then (16 OR 0x80, h16 (wid - 2)) else (10, wid));
        cbs \<leftarrow> outint v base;
        Some (Item NUL base wid prec cbs, ap)
      }
      else if c = CHR ''s''
      then do {
        (s, ap) \<leftarrow> va_str ap;
        let (cbs, prec) = (if prec < 0 then (s, prec) else str_prec s prec);
        Some (Item NUL 10 wid prec cbs, ap)
      }
      else if c = CHR ''c''
      then do {
        (v, ap) \<leftarrow> va_int ap;
        Some (Item NUL 10 wid 0 [char_of (unat (ucast v :: UB))], ap)
      }
      else Some (if c = NUL then ItemEnd else NoItem, ap))"

subsection \<open>Output\<close>

text \<open>\<open>while ( --n >= 0 ) ostr(str)\<close>, with what is left in \<open>n\<close>.\<close>

function pad :: "(string \<Rightarrow> 'p \<Rightarrow> 'p) \<Rightarrow> string \<Rightarrow> int \<Rightarrow> 'p \<Rightarrow> 'p \<times> int" where
  "pad ostr str n par = (let n = h16 (n - 1) in if n \<ge> 0 then pad ostr str n (ostr str par) else (par, n))"
  by pat_completeness auto

lemma h16_id: "- 32768 \<le> x \<Longrightarrow> x < 32768 \<Longrightarrow> h16 x = x"
  by (simp add: h16_def signed_take_bit_int_eq_self sint_sbintrunc')

lemma h16_le: "0 \<le> x \<Longrightarrow> h16 x \<le> x"
  using signed_take_bit_int_less_eq_self_iff[of 15 x] by (simp add: h16_def sint_sbintrunc')

lemma h16_range: "- 32768 \<le> h16 x" "h16 x < 32768"
  using sint_ge[of "word_of_int x :: 16 word"] sint_lt[of "word_of_int x :: 16 word"] by (simp_all add: h16_def)

termination pad
proof (relation "measure (\<lambda>(ostr, str, n, par). if n < 0 then 40000 else nat n)")
  fix ostr :: "string \<Rightarrow> 'p \<Rightarrow> 'p" and str n par x assume x: "x = h16 (n - 1)" "0 \<le> x"
  have "n < 0 \<or> n = 0 \<or> 0 < n" by arith
  then show "((ostr, str, x, ostr str par), (ostr, str, n, par)) \<in> measure (\<lambda>(ostr, str, n, par). if n < 0 then 40000 else nat n)"
    using x h16_range[of "n - 1"] h16_le[of "n - 1"] h16_id[of "-1"] by auto
qed simp

declare pad.simps [simp del]

definition put_item :: "(string \<Rightarrow> 'p \<Rightarrow> 'p) \<Rightarrow> UB \<Rightarrow> char \<Rightarrow> UB \<Rightarrow> int \<Rightarrow> int \<Rightarrow> string \<Rightarrow> 'p \<Rightarrow> 'p" where
  "put_item ostr fl sign base wid prec cbs par =
     (let n = h16 (int (length cbs));
          prec = h16 (prec - n);
          n = (if prec > 0 then h16 (n + prec) else n);
          wid = h16 (wid - n);
          (par, wid) = (if fl AND (F_LEFT OR F_ZERO) = 0 then pad ostr '' '' wid par else (par, wid));
          par = (if sign \<noteq> NUL then ostr [sign] par else par);
          par = (if base AND 0x80 \<noteq> 0
                 then let par = ostr ''0'' par
                      in if base AND 0x10 \<noteq> 0 then ostr (if base AND 0x40 \<noteq> 0 then ''X'' else ''x'') par else par
                 else par);
          (n, wid) = (if prec \<le> 0 \<and> fl AND (F_LEFT OR F_ZERO) = F_ZERO then (wid, 0) else (prec, wid));
          par = fst (pad ostr ''0'' n par);
          par = ostr cbs par
      in fst (pad ostr '' '' wid par))"

text \<open>From the character behind the percent sign up to the conversion character.\<close>

definition get_spec :: "string \<Rightarrow> va list \<Rightarrow> (char \<times> char \<times> UB \<times> int \<times> int \<times> string \<times> va list) option" where
  "get_spec fmt ap = do {
     let (c, fmt, fl) = get_flags fmt 0;
     (wid, fl, c, fmt, ap) \<leftarrow> get_width c fmt fl ap;
     (prec, fl, c, fmt, ap) \<leftarrow> get_prec c fmt fl ap;
     let (qual, c, fmt) = get_qual c fmt;
     Some (c, qual, fl, wid, prec, fmt, ap)
   }"

lemma get_flags_len: "length (fst (snd (get_flags fmt fl))) \<le> length fmt"
  by (induction fmt fl rule: get_flags.induct) auto

lemma getc_len: "length (snd (getc fmt)) \<le> length fmt"
  by (simp add: getc_def split: list.split)

lemma get_num_len: "length (snd (snd (get_num c fmt w))) \<le> length fmt"
  by (induction c fmt w rule: get_num.induct) auto

lemma get_width_len: "get_width c fmt fl ap = Some (wid, fl', c', fmt', ap') \<Longrightarrow> length fmt' \<le> length fmt"
  using getc_len[of fmt] get_num_len[of c fmt 0]
  by (auto simp: get_width_def bind_eq_Some_conv Let_def case_prod_unfold split: if_splits)

lemma get_prec_len: "get_prec c fmt fl ap = Some (prec, fl', c', fmt', ap') \<Longrightarrow> length fmt' \<le> length fmt"
  using getc_len[of fmt] getc_len[of "snd (getc fmt)"] get_num_len[of "fst (getc fmt)" "snd (getc fmt)" 0]
  by (auto simp: get_prec_def bind_eq_Some_conv Let_def case_prod_unfold split: if_splits)

lemma get_spec_len:
  assumes "get_spec fmt ap = Some (c, qual, fl, wid, prec, fmt', ap')" shows "length fmt' \<le> length fmt"
proof -
  define g where "g = get_flags fmt 0"
  obtain c1 c2 fm1 fm2 fl1 fl2 ap1 where
    w: "get_width (fst g) (fst (snd g)) (snd (snd g)) ap = Some (wid, fl1, c1, fm1, ap1)" and
    p: "get_prec c1 fm1 fl1 ap1 = Some (prec, fl2, c2, fm2, ap')" and q: "get_qual c2 fm2 = (qual, c, fmt')"
    using assms by (auto simp: get_spec_def g_def bind_eq_Some_conv Let_def case_prod_unfold prod_eq_iff)
  have "length fmt' \<le> length fm2" using q getc_len[of fm2] by (auto simp: get_qual_def case_prod_unfold split: if_splits)
  then show ?thesis using get_width_len[OF w] get_prec_len[OF p] get_flags_len[of fmt 0] by (simp add: g_def)
qed

text \<open>The main loop. \<open>fms\<close> is the fixed text that has been read and not yet been put out.\<close>

definition flush :: "(string \<Rightarrow> 'p \<Rightarrow> 'p) \<Rightarrow> string option \<Rightarrow> 'p \<Rightarrow> 'p" where
  "flush ostr fms par = (case fms of None \<Rightarrow> par | Some s \<Rightarrow> ostr s par)"

function tm_vsprintf :: "(string \<Rightarrow> 'p \<Rightarrow> 'p) \<Rightarrow> string \<Rightarrow> va list \<Rightarrow> string option \<Rightarrow> 'p \<Rightarrow> 'p option" where
  "tm_vsprintf ostr [] ap fms par = Some (flush ostr fms par)"
| "tm_vsprintf ostr (c # fmt) ap fms par =
     (if c \<noteq> CHR ''%'' then tm_vsprintf ostr fmt ap (Some (case fms of None \<Rightarrow> [c] | Some s \<Rightarrow> s @ [c])) par
      else let par = flush ostr fms par
           in case get_spec fmt ap of
                None \<Rightarrow> None
              | Some (c, qual, fl, wid, prec, fmt', ap) \<Rightarrow>
                  (case get_item c qual fl wid prec ap of
                     None \<Rightarrow> None
                   | Some (ItemEnd, ap) \<Rightarrow> tm_vsprintf ostr fmt' ap None par
                   | Some (NoItem, ap) \<Rightarrow> tm_vsprintf ostr fmt' ap (Some [c]) par
                   | Some (Item sign base wid prec cbs, ap) \<Rightarrow>
                       tm_vsprintf ostr fmt' ap None (put_item ostr fl sign base wid prec cbs par)))"
  by pat_completeness auto
termination
  by (relation "measure (\<lambda>(ostr, fmt, ap, fms, par). length fmt)") (auto dest!: get_spec_len)

declare tm_vsprintf.simps(2) [simp del]

subsection \<open>Sinks\<close>

text \<open>The console gets a carriage return before every line feed. The total length is a variable of type \<open>H\<close>.\<close>

definition tm_putchar :: "char \<Rightarrow> string \<Rightarrow> string" where
  "tm_putchar c con = con @ (if c = CHR 0x0A then [CHR 0x0D] else []) @ [c]"

definition out_cons :: "string \<Rightarrow> int \<times> string \<Rightarrow> int \<times> string" where
  "out_cons str = (\<lambda>(len, con). (h16 (len + int (length str)), fold tm_putchar str con))"

definition tm_printf :: "string \<Rightarrow> va list \<Rightarrow> string \<Rightarrow> (int \<times> string) option" where
  "tm_printf fmt ap con = tm_vsprintf out_cons fmt ap None (0, con)"

text \<open>The buffer of \<open>tm_sprintf\<close> lies in memory.\<close>

definition st8 :: "UW \<Rightarrow> char \<Rightarrow> (UW \<Rightarrow> UB) \<Rightarrow> UW \<Rightarrow> UB" where "st8 p c m = m(p := of_nat (of_char c))"

fun put_bytes :: "string \<Rightarrow> UW \<Rightarrow> (UW \<Rightarrow> UB) \<Rightarrow> UW \<times> (UW \<Rightarrow> UB)" where
  "put_bytes [] p m = (p, m)"
| "put_bytes (c # s) p m = put_bytes s (p + 1) (st8 p c m)"

definition out_buf :: "string \<Rightarrow> int \<times> UW \<times> (UW \<Rightarrow> UB) \<Rightarrow> int \<times> UW \<times> (UW \<Rightarrow> UB)" where
  "out_buf str = (\<lambda>(len, bufp, m). (h16 (len + int (length str)), put_bytes str bufp m))"

definition tm_sprintf :: "UW \<Rightarrow> string \<Rightarrow> va list \<Rightarrow> (UW \<Rightarrow> UB) \<Rightarrow> (int \<times> (UW \<Rightarrow> UB)) option" where
  "tm_sprintf str fmt ap m = do {
     (len, bufp, m) \<leftarrow> tm_vsprintf out_buf fmt ap None (0, str, m);
     Some (len, st8 (str + word_of_int len) NUL m)
   }"

end
