(* ===== verification/Printf_Props.thy ===== *)
theory Printf_Props
  imports Tm_Printf
begin

text \<open>
  What formatted output promises: the text does not depend on the sink, numbers are written in full, and two defects.
\<close>

subsection \<open>Digits\<close>

text \<open>The digits of a number in a base, the most significant first, as the reference for \<open>outint\<close>.\<close>

function digs :: "nat \<Rightarrow> nat \<Rightarrow> nat list" where
  "digs b n = (if b < 2 \<or> n < b then [n] else digs b (n div b) @ [n mod b])"
  by pat_completeness auto
termination by (relation "measure snd") (auto intro: div_less_dividend)

declare digs.simps [simp del]

definition undigs :: "nat \<Rightarrow> nat list \<Rightarrow> nat" where "undigs b ds = foldl (\<lambda>a d. a * b + d) 0 ds"

lemma undigs_digs: "2 \<le> b \<Longrightarrow> undigs b (digs b n) = n"
proof (induction b n rule: digs.induct)
  case (1 b n)
  then show ?case by (subst digs.simps) (auto simp: undigs_def)
qed

lemma digs_less: "2 \<le> b \<Longrightarrow> d \<in> set (digs b n) \<Longrightarrow> d < b"
proof (induction b n rule: digs.induct)
  case (1 b n)
  then show ?case using digs.simps[of b n] by (auto split: if_splits)
qed

lemma length_digs: "2 \<le> b \<Longrightarrow> n < b ^ k \<Longrightarrow> 0 < k \<Longrightarrow> length (digs b n) \<le> k"
proof (induction b n arbitrary: k rule: digs.induct)
  case (1 b n)
  show ?case
  proof (cases "n < b")
    case True
    then show ?thesis using 1 by (subst digs.simps) simp
  next
    case False
    then obtain j where j: "k = Suc j" "0 < j" using 1 by (cases k; cases "k - 1") auto
    have "n div b < b ^ j" using 1 j by (simp add: div_less_iff_less_mult mult.commute)
    then have "length (digs b (n div b)) \<le> j" using 1 j False by simp
    then show ?thesis using False 1 j by (subst digs.simps) simp
  qed
qed

lemma digs_ne: "digs b n \<noteq> []"
  by (subst digs.simps) simp

lemma outint_loop_digs:
  assumes "2 \<le> unat base" "unat base + unat caps \<le> 32"
  shows "\<exists>v ep'. outint_loop val base caps ep = Some (v, ep') \<and>
    digits ! unat (v + caps) # ep' = map (\<lambda>d. digits ! (d + unat caps)) (digs (unat base) (unat val)) @ ep"
proof (induction "unat val" arbitrary: val ep rule: less_induct)
  case less
  have small: "unat (x + caps) = unat x + unat caps" if "x < base" for x
  proof -
    have "unat x + unat caps < 2 ^ 32" using that assms by (simp add: word_less_nat_alt)
    then show ?thesis by (simp add: unat_word_ariths)
  qed
  have b0: "0 < base" using assms(1) by (auto simp: word_less_nat_alt)
  show ?case
  proof (cases "base \<le> val")
    case False
    then have "unat val < unat base" by (simp add: word_le_nat_alt)
    then show ?thesis using False small[of val] by (subst outint_loop.simps, subst digs.simps) simp
  next
    case True
    let ?v = "val div base" and ?c = "digits ! unat (val mod base + caps)"
    have "unat ?v < unat val" using True assms(1) b0
      by (simp add: unat_div word_le_nat_alt word_less_nat_alt)
    from less[OF this, of "?c # ep"] obtain v ep' where r: "outint_loop ?v base caps (?c # ep) = Some (v, ep')"
      "digits ! unat (v + caps) # ep' = map (\<lambda>d. digits ! (d + unat caps)) (digs (unat base) (unat ?v)) @ ?c # ep" by blast
    have m: "val mod base < base" using b0 by (simp add: word_mod_less_divisor)
    have "digs (unat base) (unat val) = digs (unat base) (unat ?v) @ [unat (val mod base)]"
      using True assms(1) by (subst digs.simps) (simp add: word_le_nat_alt unat_div unat_mod)
    then show ?thesis using r True small[OF m] by (subst outint_loop.simps) simp
  qed
qed

lemma outint_digs:
  assumes "b \<in> {8, 10, 16, 0x50}"
  shows "outint v b = Some (map (\<lambda>d. digits ! (d + unat (drop_bit 2 (b AND 0x40)))) (digs (unat (b AND 0x3F)) (unat v)))"
    "outint v (b OR 0x80) = outint v b"
proof -
  define bs cp where "bs = b AND 0x3F" and "cp = drop_bit 2 (b AND 0x40)"
  have "2 \<le> unat bs" "unat bs + unat cp \<le> 32" "unat (ucast bs :: UW) = unat bs" "unat (ucast cp :: UW) = unat cp"
    using assms by (auto simp: bs_def cp_def)
  then show "outint v b = Some (map (\<lambda>d. digits ! (d + unat (drop_bit 2 (b AND 0x40)))) (digs (unat (b AND 0x3F)) (unat v)))"
    using outint_loop_digs[of "ucast bs" "ucast cp" v "[]"]
    unfolding outint_def Let_def bs_def[symmetric] cp_def[symmetric] by auto
  show "outint v (b OR 0x80) = outint v b" using assms by (auto simp: outint_def)
qed

text \<open>
  Numbers are written in full and without overrun. In each of the four bases that the conversions use, with or without the mark for the prefix, \<open>outint\<close>
  returns and leaves at most eleven characters in its buffer of fourteen; they are digits of the base that stand for the value.
\<close>
theorem outint_digits_fit:
  assumes "b \<in> {8, 10, 16, 0x50}" "b' = b \<or> b' = b OR 0x80"
  shows "\<exists>ds. outint v b' = Some (map (\<lambda>d. digits ! (d + unat (drop_bit 2 (b AND 0x40)))) ds) \<and>
    ds \<noteq> [] \<and> length ds \<le> 11 \<and> length ds \<le> MAX_DIGITS \<and> (\<forall>d \<in> set ds. d < unat (b AND 0x3F)) \<and> undigs (unat (b AND 0x3F)) ds = unat v"
proof -
  let ?b = "unat (b AND 0x3F)"
  have b: "8 \<le> ?b" using assms(1) by auto
  then have b2: "2 \<le> ?b" by simp
  have "unat v < 2 ^ 32" by (rule order.strict_trans2[OF unsigned_less]) simp
  also have "(2 :: nat) ^ 32 \<le> 8 ^ 11" by simp
  also have "(8 :: nat) ^ 11 \<le> ?b ^ 11" using b by (rule power_mono) simp
  finally have "length (digs ?b (unat v)) \<le> 11" using length_digs[OF b2, of "unat v" 11] by simp
  then show ?thesis
    using assms(2) outint_digs[OF assms(1), of v] undigs_digs[OF b2] digs_less[OF b2] digs_ne by (intro exI[of _ "digs ?b (unat v)"]) auto
qed

theorem outint_digits_fit_witness:
  "\<exists>ds. outint 0xBEEF 0xD0 = Some (map (\<lambda>d. digits ! (d + 16)) ds) \<and> undigs 16 ds = 0xBEEF"
  using outint_digits_fit[of "0x50" "0xD0" "0xBEEF"] by auto

subsection \<open>Text and sinks\<close>

definition out_text :: "string \<Rightarrow> string \<Rightarrow> string" where "out_text str t = t @ str"

definition printf_text :: "string \<Rightarrow> va list \<Rightarrow> string option" where
  "printf_text fmt ap = tm_vsprintf out_text fmt ap None []"

lemma pad_hom:
  assumes "\<And>s p. h (o1 s p) = o2 s (h p)"
  shows "pad o2 str n (h p) = (h (fst (pad o1 str n p)), snd (pad o1 str n p))"
  using assms
proof (induction o1 str n p rule: pad.induct)
  case (1 ostr str n par)
  then show ?case using pad.simps[of o2 str n "h par"] pad.simps[of ostr str n par] by (auto simp: Let_def)
qed

lemma put_item_hom:
  assumes h: "\<And>s p. h (o1 s p) = o2 s (h p)"
  shows "put_item o2 fl sign base wid prec cbs (h p) = h (put_item o1 fl sign base wid prec cbs p)"
proof -
  note pd = pad_hom[where h = h and ?o1.0 = o1 and ?o2.0 = o2, OF h]
  show ?thesis by (simp add: put_item_def Let_def case_prod_unfold pd h[symmetric])
qed

lemma vsprintf_hom:
  assumes h: "\<And>s p. h (o1 s p) = o2 s (h p)"
  shows "tm_vsprintf o2 fmt ap fms (h p) = map_option h (tm_vsprintf o1 fmt ap fms p)"
  using h
proof (induction o1 fmt ap fms p rule: tm_vsprintf.induct)
  case (1 o1 ap fms p)
  then show ?case by (simp add: flush_def split: option.split)
next
  case (2 o1 c fmt ap fms p)
  have fl: "flush o2 fms (h p) = h (flush o1 fms p)" using 2(5) by (simp add: flush_def split: option.split)
  note pi = put_item_hom[where h = h and ?o1.0 = o1 and ?o2.0 = o2, OF 2(5)]
  show ?case
  proof (cases "c \<noteq> CHR ''%''")
    case True
    then show ?thesis using 2(1)[OF True 2(5)] by (simp add: tm_vsprintf.simps(2))
  next
    case False
    show ?thesis
    proof (cases "get_spec fmt ap")
      case None
      then show ?thesis using False by (simp add: tm_vsprintf.simps(2) fl)
    next
      case (Some a)
      obtain c' qual fl wid prec fmt' ap' where a: "a = (c', qual, fl, wid, prec, fmt', ap')" by (metis prod_cases7)
      show ?thesis
      proof (cases "get_item c' qual fl wid prec ap'")
        case None
        then show ?thesis using False Some a by (simp add: tm_vsprintf.simps(2))
      next
        case (Some b)
        obtain i ap2 where b: "b = (i, ap2)" by (cases b) auto
        note sm = \<open>get_spec fmt ap = Some a\<close>[unfolded a]
        note ih = 2(2-4)[OF False refl sm refl refl refl refl refl refl Some[unfolded b] refl _ 2(5)]
        show ?thesis
          using False sm Some ih by (cases i) (auto simp: tm_vsprintf.simps(2) b pi \<open>flush o2 fms (h p) = h (flush o1 fms p)\<close>)
      qed
    qed
  qed
qed

definition crlf :: "char \<Rightarrow> string" where "crlf c = (if c = CHR 0x0A then [CHR 0x0D, c] else [c])"

lemma putchars: "fold tm_putchar t con = con @ concat (map crlf t)"
  by (induction t arbitrary: con) (auto simp: tm_putchar_def crlf_def)

lemma h16_plus: "h16 (h16 a + b) = h16 (a + b)"
proof -
  have "(word_of_int (sint (word_of_int a :: 16 word) + b) :: 16 word) = word_of_int (a + b)" by simp
  then show ?thesis unfolding h16_def by metis
qed

lemma put_bytes_append: "put_bytes (s @ t) p m = put_bytes t (fst (put_bytes s p m)) (snd (put_bytes s p m))"
  by (induction s p m rule: put_bytes.induct) auto

lemma printf_sprintf_text:
  "tm_printf fmt ap con = map_option (\<lambda>t. (h16 (int (length t)), con @ concat (map crlf t))) (printf_text fmt ap) \<and>
   tm_sprintf p fmt ap m = map_option (\<lambda>t. (h16 (int (length t)), st8 (p + word_of_int (h16 (int (length t)))) NUL (snd (put_bytes t p m))))
     (printf_text fmt ap)"
proof
  define hc where "hc = (\<lambda>t. (h16 (int (length t)), fold tm_putchar t con))"
  have "hc (out_text s t) = out_cons s (hc t)" for s t by (simp add: hc_def out_text_def out_cons_def h16_plus)
  from vsprintf_hom[where h = hc and ?o1.0 = out_text and ?o2.0 = out_cons and fmt = fmt and ap = ap and fms = None and p = "[]", OF this]
  show "tm_printf fmt ap con = map_option (\<lambda>t. (h16 (int (length t)), con @ concat (map crlf t))) (printf_text fmt ap)"
    by (simp add: tm_printf_def printf_text_def hc_def putchars h16_id)
  define hb where "hb = (\<lambda>t. (h16 (int (length t)), put_bytes t p m))"
  have "hb (out_text s t) = out_buf s (hb t)" for s t
    by (simp add: hb_def out_text_def out_buf_def h16_plus put_bytes_append case_prod_unfold)
  from vsprintf_hom[where h = hb and ?o1.0 = out_text and ?o2.0 = out_buf and fmt = fmt and ap = ap and fms = None and p = "[]", OF this]
  show "tm_sprintf p fmt ap m = map_option (\<lambda>t. (h16 (int (length t)), st8 (p + word_of_int (h16 (int (length t)))) NUL (snd (put_bytes t p m))))
     (printf_text fmt ap)"
    by (auto simp: tm_sprintf_def printf_text_def hb_def h16_id case_prod_unfold map_option_case split: option.split)
qed


subsection \<open>Decimal conversion\<close>

definition ext_text :: "string option \<Rightarrow> string \<Rightarrow> string option" where
  "ext_text fms a = (if a = [] then fms else Some ((case fms of None \<Rightarrow> [] | Some s \<Rightarrow> s) @ a))"

lemma vsprintf_plain:
  "CHR ''%'' \<notin> set a \<Longrightarrow> tm_vsprintf ostr (a @ rest) ap fms par = tm_vsprintf ostr rest ap (ext_text fms a) par"
  by (induction a arbitrary: fms) (auto simp: ext_text_def tm_vsprintf.simps(2) split: option.splits)

lemma pad_neg: "- 32768 < n \<Longrightarrow> n \<le> 0 \<Longrightarrow> pad ostr str n par = (par, n - 1)"
  by (subst pad.simps) (simp add: h16_id)

definition read_dec :: "string \<Rightarrow> int" where
  "read_dec s = (let val = foldl (\<lambda>a c. a * 10 + (of_char c - 48)) 0 in if s \<noteq> [] \<and> hd s = CHR ''-'' then - val (tl s) else val s)"

definition dec_text :: "UW \<Rightarrow> string" where
  "dec_text v = (if sint v < 0 then ''-'' else []) @ map (\<lambda>d. digits ! d) (digs 10 (unat (if sint v < 0 then - v else v)))"

lemma digit_char: "d < 10 \<Longrightarrow> (of_char (digits ! d) :: int) = int d + 48" "d < 10 \<Longrightarrow> digits ! d \<noteq> CHR ''-''"
proof -
  assume "d < 10"
  then have "d = 0 \<or> d = 1 \<or> d = 2 \<or> d = 3 \<or> d = 4 \<or> d = 5 \<or> d = 6 \<or> d = 7 \<or> d = 8 \<or> d = 9" by auto
  then show "(of_char (digits ! d) :: int) = int d + 48" "digits ! d \<noteq> CHR ''-''" by (auto simp: digits_def)
qed

lemma read_digits:
  assumes "\<forall>d \<in> set ds. d < 10"
  shows "foldl (\<lambda>a c. a * 10 + (of_char c - 48)) (int x) (map (\<lambda>d. digits ! d) ds) = int (foldl (\<lambda>a d. a * 10 + d) x ds)"
  using assms
proof (induction ds arbitrary: x)
  case (Cons a ds)
  then show ?case using Cons.IH[of "x * 10 + a"] by (simp add: digit_char(1))
qed simp

lemma uint_nonneg: "0 \<le> sint (v :: UW) \<Longrightarrow> uint v = sint v"
proof -
  assume n: "0 \<le> sint v"
  have "uint v = uint (word_of_int (sint v) :: UW)" by simp
  also have "\<dots> = sint v mod 2 ^ 32" by (simp only: uint_word_of_int) simp
  also have "\<dots> = sint v" using n sint_lt[of v] by simp
  finally show ?thesis .
qed

lemma uint_minus_neg: "sint (v :: UW) < 0 \<Longrightarrow> uint (- v) = - sint v"
proof -
  assume n: "sint v < 0"
  have "uint (- v) = uint (word_of_int (- sint v) :: UW)" by simp
  also have "\<dots> = (- sint v) mod 2 ^ 32" by (simp only: uint_word_of_int) simp
  also have "\<dots> = - sint v" using n sint_ge[of v] by simp
  finally show ?thesis .
qed

lemma read_dec_text: "read_dec (dec_text v) = sint v"
proof -
  have d: "d \<in> set (digs 10 n) \<Longrightarrow> d < 10" for d n by (rule digs_less) simp_all
  have f: "foldl (\<lambda>a c. a * 10 + (of_char c - 48)) 0 (map (\<lambda>d. digits ! d) (digs 10 n)) = int n" for n
    using read_digits[of "digs 10 n" 0] d undigs_digs[of 10 n] by (auto simp: undigs_def)
  have h: "hd (map (\<lambda>d. digits ! d) (digs 10 n)) \<noteq> CHR ''-''" for n
    using digs_ne[of 10 n] d[of "hd (digs 10 n)" n] digit_char(2) by (simp add: hd_map)
  show ?thesis
  proof (cases "sint v < 0")
    case True
    then show ?thesis using uint_minus_neg[OF True] by (simp add: read_dec_def dec_text_def f)
  next
    case False
    then have "uint v = sint v" by (simp add: uint_nonneg)
    then show ?thesis using False h by (simp add: read_dec_def dec_text_def f Let_def)
  qed
qed

lemma spec_plain: "get_spec (CHR ''d'' # rest) ap = Some (CHR ''d'', NUL, 0, 0, - 1, rest, ap)"
  by (cases rest) (simp_all add: get_spec_def get_width_def get_prec_def get_qual_def is_dig_def)

lemma put_simple:
  assumes "length cbs < 100" "0 \<le> k" "k \<le> 1"
  shows "put_item out_text 0 sign 10 (- k) (- 1) cbs t = t @ (if sign \<noteq> NUL then [sign] else []) @ cbs"
proof -
  define n where "n = int (length cbs)"
  have n: "0 \<le> n" "n < 100" using assms(1) by (simp_all add: n_def)
  have e: "h16 n = n" "h16 (- 1 - n) = - 1 - n" "h16 (- k - n) = - k - n" using n assms(2,3) by (simp_all add: h16_id)
  show ?thesis unfolding put_item_def n_def[symmetric] e
    using n assms(2,3) by (simp add: Let_def e pad_neg out_text_def)
qed

text \<open>
  C38. Decimal numbers can be read back. \<open>%d\<close> between fixed texts puts a text of at most eleven characters between them, and reading it as a signed decimal number
  gives the argument, the most negative number included.
\<close>
theorem decimal_roundtrip:
  assumes "CHR ''%'' \<notin> set a" "CHR ''%'' \<notin> set b"
  shows "\<exists>t. printf_text (a @ ''%d'' @ b) (VInt v # ap) = Some (a @ t @ b) \<and> read_dec t = sint v \<and> length t \<le> 11"
proof -
  define ds where "ds = digs 10 (unat (if sint v < 0 then - v else v))"
  have lt: "unat w < 10 ^ 10" for w :: UW by (rule order.strict_trans2[OF unsigned_less]) simp
  then have l: "length ds \<le> 10" unfolding ds_def by (intro length_digs lt) simp_all
  have o: "outint w 10 = Some (map (\<lambda>d. digits ! d) (digs 10 (unat w)))" for w using outint_digs(1)[of 10 w] by simp
  have i: "get_item CHR ''d'' NUL 0 0 (- 1) (VInt v # ap) =
      Some (Item (if sint v < 0 then CHR ''-'' else NUL) 10 (if sint v < 0 then - 1 else 0) (- 1) (map (\<lambda>d. digits ! d) ds), ap)"
    by (simp add: get_item_def int_item_def int_arg_def int_sign_def o ds_def h16_id Let_def)
  let ?fms = "ext_text None a"
  have p: "put_item out_text 0 (if sint v < 0 then CHR ''-'' else NUL) 10 (if sint v < 0 then - 1 else 0) (- 1) (map (\<lambda>d. digits ! d) ds) t =
      t @ dec_text v" for t
    using put_simple[of "map (\<lambda>d. digits ! d) ds" 1 "CHR ''-''" t] put_simple[of "map (\<lambda>d. digits ! d) ds" 0 NUL t] l
    by (cases "sint v < 0") (simp_all add: dec_text_def ds_def)
  have "printf_text (a @ ''%d'' @ b) (VInt v # ap) = tm_vsprintf out_text b ap None (flush out_text ?fms [] @ dec_text v)"
    unfolding printf_text_def vsprintf_plain[OF assms(1)] by (simp add: tm_vsprintf.simps(2) spec_plain i p)
  also have "\<dots> = Some (a @ dec_text v @ b)"
    using vsprintf_plain[OF assms(2), of out_text "[]" ap None] by (simp add: flush_def ext_text_def out_text_def)
  finally show ?thesis using read_dec_text[of v] l by (intro exI[of _ "dec_text v"], cases "sint v < 0") (simp_all add: dec_text_def ds_def)
qed

theorem decimal_roundtrip_witness:
  "\<exists>t. printf_text ''x=%d;'' [VInt 0x80000000] = Some (''x='' @ t @ '';'') \<and> read_dec t = - 2147483648"
  using decimal_roundtrip[of "''x=''" "'';''" "0x80000000" "[]"] by auto

subsection \<open>Two limits of the conversions\<close>

lemma pad_pos: "0 \<le> n \<Longrightarrow> n < 32768 \<Longrightarrow> pad out_text [c] n t = (t @ replicate (nat n) c, - 1)"
proof (induction "nat n" arbitrary: n t)
  case 0
  then show ?case by (simp add: pad_neg)
next
  case (Suc k)
  have "n \<noteq> 0" using Suc(2) by auto
  then have "pad out_text [c] n t = pad out_text [c] (n - 1) (t @ [c])"
    using Suc(2) Suc(3,4) by (subst pad.simps) (simp add: h16_id out_text_def Let_def)
  also have "\<dots> = (t @ [c] @ replicate (nat (n - 1)) c, - 1)" using Suc by (subst Suc(1)) auto
  finally show ?case using Suc(2) by (cases "nat n") (auto simp: nat_diff_distrib')
qed

lemma str_prec_take: "0 \<le> P \<Longrightarrow> str_prec s P = (take (nat P) s, if int (length s) < P then P - 1 - int (length s) else - 1)"
proof (induction s arbitrary: P)
  case (Cons c s)
  show ?case
  proof (cases "P = 0")
    case False
    then have "nat P = Suc (nat (P - 1))" using Cons(2) by simp
    then show ?thesis using False Cons(1)[of "P - 1"] Cons(2) by (simp add: Let_def)
  qed simp
qed simp

lemma spec_prec_star: "get_spec ''.*s'' (VInt v # ap) =
    Some (CHR ''s'', NUL, 0, 0, (if h16 (sint v) < 0 then 0 else h16 (sint v)), [], ap)"
  by (simp add: get_spec_def get_width_def get_prec_def get_qual_def getc_def is_dig_def)

text \<open>
  The precision of a string does more than bound it. \<open>%.*s\<close> with a precision \<open>P\<close> puts out at most \<open>P\<close> characters of the string, but what the loop leaves in
  \<open>prec\<close> is taken for the precision of a number afterwards: when the string is shorter than half of it, \<open>P - 1 - 2 * length s\<close> zeros come first.
\<close>
theorem string_precision_zeros:
  assumes "0 \<le> P" "P < 32767"
  shows "printf_text ''%.*s'' [VInt (word_of_int P), VStr s] =
    Some (replicate (nat (P - 1 - 2 * int (length s))) CHR ''0'' @ take (nat P) s)"
proof -
  define cbs where "cbs = take (nat P) s"
  define n where "n = int (length cbs)"
  define pr where "pr = (if int (length s) < P then P - 1 - int (length s) else - 1)"
  have n: "0 \<le> n" "n \<le> P" "int (length s) < P \<Longrightarrow> n = int (length s)" using assms by (auto simp: n_def cbs_def)
  have v: "h16 (sint (word_of_int P :: UW)) = P"
  proof -
    have "sint (word_of_int P :: UW) = P" using assms by (simp add: sint_sbintrunc' signed_take_bit_int_eq_self)
    then show ?thesis using assms by (simp add: h16_id)
  qed
  have i: "get_item CHR ''s'' NUL 0 0 P [VStr s] = Some (Item NUL 10 0 pr cbs, [])"
    using str_prec_take[OF assms(1), of s] assms(1) by (simp add: get_item_def cbs_def pr_def)
  have e: "h16 n = n" "h16 (pr - n) = pr - n" using n assms by (auto simp: h16_id pr_def)
  define m where "m = (if pr - n > 0 then n + (pr - n) else n)"
  have m: "0 \<le> m" "m < 32767" "h16 (n + (pr - n)) = (n + (pr - n))" "h16 (- m) = - m"
    using n assms by (auto simp: m_def pr_def h16_id)
  have p: "put_item out_text 0 NUL 10 0 pr cbs [] = replicate (nat (pr - n)) CHR ''0'' @ cbs"
  proof (cases "pr - n > 0")
    case True
    then have "pr - n < 32768" "pr < 32767" using n assms by (auto simp: pr_def)
    then show ?thesis unfolding put_item_def n_def[symmetric] e
      using True m by (simp add: Let_def e pad_neg pad_pos m_def out_text_def)
  next
    case False
    then have "pr - n \<le> 0" "- 32768 < pr - n" "m = n" using n assms by (auto simp: pr_def m_def)
    then show ?thesis unfolding put_item_def n_def[symmetric] e
      using m by (simp add: Let_def e pad_neg out_text_def)
  qed
  have "pr - n = P - 1 - 2 * int (length s) \<or> (pr - n \<le> 0 \<and> P - 1 - 2 * int (length s) \<le> 0)"
    using n by (auto simp: pr_def)
  then have z: "nat (pr - n) = nat (P - 1 - 2 * int (length s))" by auto
  have "printf_text ''%.*s'' [VInt (word_of_int P), VStr s] = Some (put_item out_text 0 NUL 10 0 pr cbs [])"
    using assms by (simp add: printf_text_def tm_vsprintf.simps(2) spec_prec_star v i flush_def)
  then show ?thesis by (simp only: p z) (simp add: cbs_def)
qed

theorem string_precision_zeros_witness:
  "printf_text ''%.*s'' [VInt 5, VStr ''a''] = Some ''00a''"
  using string_precision_zeros[of 5 "''a''"] by (simp add: numeral_2_eq_2)

lemma put_bytes_other:
  "(\<forall>i < length s. q \<noteq> p + of_nat i) \<Longrightarrow> snd (put_bytes s p m) q = m q"
proof (induction s p m rule: put_bytes.induct)
  case (2 c s p m)
  have "\<forall>i < length s. q \<noteq> p + 1 + of_nat i"
  proof (intro allI impI)
    fix i assume "i < length s"
    then show "q \<noteq> p + 1 + of_nat i" using 2(2)[rule_format, of "Suc i"] by (simp add: add.assoc add.left_commute)
  qed
  moreover have "q \<noteq> p" using 2(2)[rule_format, of 0] by simp
  ultimately show ?case using 2(1) by (simp add: st8_def fun_upd_def)
qed simp

text \<open>
  Long texts are not terminated. When the text of \<open>tm_sprintf\<close> has from 32768 to 65535 characters, its length wraps to a negative number: that is the result, the
  terminator is written \<open>65536 - length\<close> bytes in front of the buffer, and the byte behind the text keeps what it held.
\<close>
theorem sprintf_terminator_misplaced:
  assumes "CHR ''%'' \<notin> set s" "32768 \<le> length s" "length s < 65536"
  shows "\<exists>m'. tm_sprintf p s [] m = Some (int (length s) - 65536, m') \<and>
    m' (p - of_nat (65536 - length s)) = 0 \<and> m' (p + of_nat (length s)) = m (p + of_nat (length s))"
proof -
  have t: "printf_text s [] = Some s"
    using vsprintf_plain[OF assms(1), of out_text "[]" "[]" None "[]"] assms(2)
    by (auto simp: printf_text_def ext_text_def flush_def out_text_def split: if_splits)
  have sz: "(65536 :: 16 word) = 0" by simp
  have "h16 (int (length s)) = h16 (int (length s) - 65536)"
    by (simp add: h16_def sz)
  also have "\<dots> = int (length s) - 65536" using assms by (intro h16_id) auto
  finally have h: "h16 (int (length s)) = int (length s) - 65536" .
  have w: "(word_of_int (int (length s) - 65536) :: UW) = - of_nat (65536 - length s)"
    using assms(3) by (simp add: of_nat_diff)
  have d: "p + of_nat (length s) \<noteq> p + of_nat i" if "i < length s" for i
  proof
    assume "p + of_nat (length s) = p + of_nat i"
    then have "unat (of_nat (length s) :: UW) = unat (of_nat i :: UW)" by simp
    then show False using that assms(3) by (simp add: unsigned_of_nat take_bit_nat_eq_self)
  qed
  have g: "p - of_nat (65536 - length s) \<noteq> p + of_nat (length s)"
  proof
    assume "p - of_nat (65536 - length s) = p + of_nat (length s)"
    then have "(of_nat (length s) + of_nat (65536 - length s) :: UW) = 0" by (simp add: algebra_simps)
    then have "(of_nat 65536 :: UW) = 0" using assms(3) by (simp flip: of_nat_add)
    then show False by simp
  qed
  have "tm_sprintf p s [] m = Some (int (length s) - 65536, st8 (p + word_of_int (int (length s) - 65536)) NUL (snd (put_bytes s p m)))"
    using conjunct2[OF printf_sprintf_text[where p = p and fmt = s and ap = "[]" and m = m and con = "[]"]] by (simp only: t h option.map)
  then have "tm_sprintf p s [] m = Some (int (length s) - 65536, st8 (p - of_nat (65536 - length s)) NUL (snd (put_bytes s p m)))"
    unfolding w by simp
  moreover have "snd (put_bytes s p m) (p + of_nat (length s)) = m (p + of_nat (length s))"
    using put_bytes_other[of s "p + of_nat (length s)" p m] d by blast
  ultimately show ?thesis using g by (simp add: st8_def)
qed

theorem sprintf_terminator_misplaced_witness:
  "\<exists>m'. tm_sprintf 0x20010000 (replicate 40000 CHR ''A'') [] (\<lambda>a. 0xFF) = Some (- 25536, m') \<and>
    m' (0x20010000 - 25536) = 0 \<and> m' (0x20010000 + 40000) = 0xFF"
  using sprintf_terminator_misplaced[of "replicate 40000 CHR ''A''" "0x20010000" "\<lambda>a. 0xFF"] by simp

end
