(* ===== verification/Msdi.thy ===== *)
theory Msdi
  imports Device_Io Imalloc
begin

text \<open>
  \<^verbatim>\<open>device/common/drvif/msdrvif.c\<close>: the layer between the device manager and a simple driver. Every call of a driver function runs under
  the lock of the device. The functions of the driver are addresses, and \<open>mdenv\<close> says what they do; \<open>md_wait\<close> is the state in which
  the wait for the lock returns. \<open>Kmalloc\<close> and \<open>Kfree\<close> (\<^verbatim>\<open>lib/libtk/kmalloc.c\<close>) are the kernel's allocator.
\<close>

record t_dmsdi =
  dm_exinf :: UW
  dm_devnm :: "UB list"
  dm_drvatr :: UW
  dm_devatr :: UW
  dm_nsub :: int
  dm_blksz :: int
  dm_openfn :: UW
  dm_closefn :: UW
  dm_readfn :: UW
  dm_writefn :: UW
  dm_eventfn :: UW

record t_msdi =
  mi_devid :: int
  mi_lock :: fastlock
  mi_dmsdi :: t_dmsdi

record msst =
  msdis :: "UW \<Rightarrow> t_msdi"
  mdev :: devst

record mdenv =
  md_open :: "UW \<Rightarrow> int \<Rightarrow> UW \<Rightarrow> UW \<Rightarrow> msst \<Rightarrow> msst \<times> ER"
  md_close :: "UW \<Rightarrow> int \<Rightarrow> UW \<Rightarrow> UW \<Rightarrow> msst \<Rightarrow> msst \<times> ER"
  md_exec :: "UW \<Rightarrow> nat \<Rightarrow> UW \<Rightarrow> msst \<Rightarrow> msst \<times> int"
  md_event :: "UW \<Rightarrow> int \<Rightarrow> UW \<Rightarrow> UW \<Rightarrow> msst \<Rightarrow> msst \<times> int"
  md_wait :: "UW \<Rightarrow> msst \<Rightarrow> msst"

abbreviation (input) E_NOSPT_MSDI :: ER where "E_NOSPT_MSDI \<equiv> - 9"
abbreviation (input) TDC_READ :: int where "TDC_READ \<equiv> 1"

definition Kmalloc :: "nat \<Rightarrow> int \<Rightarrow> kstate \<Rightarrow> (kstate \<times> UW) option" where "Kmalloc c siz = knl_Imalloc c siz"
definition Kcalloc :: "nat \<Rightarrow> int \<Rightarrow> int \<Rightarrow> kstate \<Rightarrow> (kstate \<times> UW) option" where "Kcalloc c n siz = knl_Icalloc c n siz"
definition Kfree :: "nat \<Rightarrow> UW \<Rightarrow> kstate \<Rightarrow> kstate option" where "Kfree c p = knl_Ifree c p"

definition upd_msdi :: "UW \<Rightarrow> (t_msdi \<Rightarrow> t_msdi) \<Rightarrow> msst \<Rightarrow> msst" where
  "upd_msdi m f s = s\<lparr>msdis := (msdis s)(m := f (msdis s m))\<rparr>"

definition set_kst :: "kstate \<Rightarrow> msst \<Rightarrow> msst" where "set_kst k s = s\<lparr>mdev := (mdev s)\<lparr>kst := k\<rparr>\<rparr>"

subsection \<open>Calls of the driver\<close>

definition LockMSDI :: "mdenv \<Rightarrow> nat \<Rightarrow> UW \<Rightarrow> msst \<Rightarrow> msst" where
  "LockMSDI e c m s =
     (let (l, k, r) = Lock c (mi_lock (msdis s m)) (kst (mdev s));
          s = set_kst k (upd_msdi m (\<lambda>M. M\<lparr>mi_lock := l\<rparr>) s)
      in case r of Ret _ \<Rightarrow> s | Blocked \<Rightarrow> md_wait e m s)"

definition UnlockMSDI :: "nat \<Rightarrow> UW \<Rightarrow> msst \<Rightarrow> msst" where
  "UnlockMSDI c m s =
     (let (l, k) = Unlock c (mi_lock (msdis s m)) (kst (mdev s)) in set_kst k (upd_msdi m (\<lambda>M. M\<lparr>mi_lock := l\<rparr>) s))"

definition under_lock :: "mdenv \<Rightarrow> nat \<Rightarrow> UW \<Rightarrow> (msst \<Rightarrow> msst \<times> 'r) \<Rightarrow> msst \<Rightarrow> msst \<times> 'r" where
  "under_lock e c m f s = (let s = LockMSDI e c m s; (s, r) = f s in (UnlockMSDI c m s, r))"

definition msdi_openfn :: "mdenv \<Rightarrow> nat \<Rightarrow> int \<Rightarrow> UW \<Rightarrow> UW \<Rightarrow> msst \<Rightarrow> msst \<times> ER" where
  "msdi_openfn e c devid om m s =
     (let fp = dm_openfn (mi_dmsdi (msdis s m))
      in if fp = 0 then (s, E_OK) else under_lock e c m (md_open e fp devid om m) s)"

definition msdi_closefn :: "mdenv \<Rightarrow> nat \<Rightarrow> int \<Rightarrow> UW \<Rightarrow> UW \<Rightarrow> msst \<Rightarrow> msst \<times> ER" where
  "msdi_closefn e c devid option m s =
     (let fp = dm_closefn (mi_dmsdi (msdis s m))
      in if fp = 0 then (s, E_OK) else under_lock e c m (md_close e fp devid option m) s)"

text \<open>The request is given by the index of its control block.\<close>

definition msdi_execfn :: "mdenv \<Rightarrow> nat \<Rightarrow> nat \<Rightarrow> UW \<Rightarrow> msst \<Rightarrow> msst \<times> ER" where
  "msdi_execfn e c r m s =
     (let D = mi_dmsdi (msdis s m); R = req (rqs (mdev s) r);
          fp = (if dr_cmd R = TDC_READ then dm_readfn D else dm_writefn D)
      in if fp = 0 then (s, E_NOSPT_MSDI)
         else if dr_start R \<ge> 0 \<and> dm_blksz D \<le> 0 then (s, E_NOSPT_MSDI)
         else let (s, err) = under_lock e c m (md_exec e fp r m) s
              in (s\<lparr>mdev := upd_req r (\<lambda>Q. Q\<lparr>req := (req Q)\<lparr>dr_error := err\<rparr>\<rparr>) (mdev s)\<rparr>, E_OK))"

definition msdi_waitfn :: "int \<Rightarrow> int" where "msdi_waitfn nreq = 0"
definition msdi_abortfn :: "int \<Rightarrow> ER" where "msdi_abortfn nreq = E_OK"

definition msdi_eventfn :: "mdenv \<Rightarrow> nat \<Rightarrow> int \<Rightarrow> UW \<Rightarrow> UW \<Rightarrow> msst \<Rightarrow> msst \<times> int" where
  "msdi_eventfn e c evttyp evtinf m s =
     (let fp = dm_eventfn (mi_dmsdi (msdis s m))
      in if fp = 0 then (s, E_OK) else under_lock e c m (md_event e fp evttyp evtinf m) s)"

subsection \<open>Registration\<close>

text \<open>\<open>F\<close> holds the addresses of the six functions of this layer, \<open>nm\<close> is the address of the name in the caller's \<open>dmsdi\<close>.\<close>

definition sizeof_T_MSDI :: int where "sizeof_T_MSDI = 68"

definition msdi_ddev :: "t_ddev \<Rightarrow> UW \<Rightarrow> t_dmsdi \<Rightarrow> t_ddev" where
  "msdi_ddev F m dm = F\<lparr>dd_exinf := m, drvatr := dm_drvatr dm, devatr := dm_devatr dm, nsub := dm_nsub dm, dd_blksz := dm_blksz dm\<rparr>"

definition msdi_def_dev :: "t_ddev \<Rightarrow> nat \<Rightarrow> UW \<Rightarrow> t_dmsdi \<Rightarrow> msst \<Rightarrow> (msst \<times> ER \<times> t_idev option \<times> UW) option" where
  "msdi_def_dev F c nm dm s = do {
     (k, m) \<leftarrow> Kmalloc c sizeof_T_MSDI (kst (mdev s));
     let s = set_kst k s;
     (if m = 0 then Some (s, E_NOMEM, None, 0)
      else let s = upd_msdi m (\<lambda>M. M\<lparr>mi_dmsdi := dm\<rparr>) s;
               (l, k, err) = CreateLock c nm (mi_lock (msdis s m)) (kst (mdev s));
               s = set_kst k (upd_msdi m (\<lambda>M. M\<lparr>mi_lock := l\<rparr>) s)
           in if err < E_OK then map_option (\<lambda>k. (set_kst k s, err, None, 0)) (Kfree c m (kst (mdev s)))
              else let (v, err, idv) = tk_def_dev (dm_devnm dm) (Some (msdi_ddev F m dm)) True (mdev s);
                       s = s\<lparr>mdev := v\<rparr>
                   in if err < E_OK
                      then let (l, k) = DeleteLock c (mi_lock (msdis s m)) (kst (mdev s));
                               s = set_kst k (upd_msdi m (\<lambda>M. M\<lparr>mi_lock := l\<rparr>) s)
                           in map_option (\<lambda>k. (set_kst k s, err, None, 0)) (Kfree c m (kst (mdev s)))
                      else Some (upd_msdi m (\<lambda>M. M\<lparr>mi_devid := err\<rparr>) s, E_OK, idv, m))
   }"

definition msdi_del_dev :: "nat \<Rightarrow> UW \<Rightarrow> msst \<Rightarrow> (msst \<times> ER) option" where
  "msdi_del_dev c m s =
     (let (v, err, idv) = tk_def_dev (dm_devnm (mi_dmsdi (msdis s m))) None False (mdev s);
          s = s\<lparr>mdev := v\<rparr>
      in if err > E_OK
         then let (l, k) = DeleteLock c (mi_lock (msdis s m)) (kst (mdev s));
                  s = set_kst k (upd_msdi m (\<lambda>M. M\<lparr>mi_lock := l\<rparr>) s)
              in map_option (\<lambda>k. (set_kst k s, E_OK)) (Kfree c m (kst (mdev s)))
         else Some (s, err))"

end
