(* ===== verification/Serial.thy ===== *)
theory Serial
  imports Device Cpu_Calls Imalloc
begin

text \<open>
  The serial driver: \<^verbatim>\<open>device/ser/ser.h\<close>, the interface of \<^verbatim>\<open>ser.c\<close> to the interrupt side, and
  \<^verbatim>\<open>sysdepend/rp2040/ser_rp2040.c\<close>. A ring buffer lies between a task and the interrupt handler of the UART. The parts of the code under
  the lock of the buffer (interrupts masked, spinlock taken) are one step each. Of a UART the model has the registers that the
  driver writes, the words written to the data register in their order, and what reading the status registers and the data register
  gives; the latter is the hardware's and changes between the steps.
\<close>

subsection \<open>Data\<close>

definition DEVCONF_SER_BUFFSIZE :: nat where "DEVCONF_SER_BUFFSIZE = 50"
abbreviation (input) SER_SIZE :: UW where "SER_SIZE \<equiv> of_nat DEVCONF_SER_BUFFSIZE"

record t_ser_buff =
  sb_top :: UW
  sb_tail :: UW
  wait_flgid :: int
  sb_data :: "UB list"

record t_ser_dcb =
  sd_unit :: nat
  sd_omode :: UW
  sd_evtmbfid :: int
  com_mode :: UW
  com_speed :: UW
  com_error :: UW
  snd_tmo :: int
  rcv_tmo :: int
  intno_rcv :: UW
  intno_snd :: UW
  int_pri :: UW
  snd_buff :: t_ser_buff
  rcv_buff :: t_ser_buff

record t_dev_ser_lldevcb =
  ll_mode :: UW
  ll_speed :: UW

record uart =
  u_cr :: UW
  u_imsc :: UW
  u_lcr_h :: UW
  u_ibrd :: UW
  u_fbrd :: UW
  u_icr :: UW
  u_dr :: "UW list"
  u_fr :: UW
  u_mis :: UW
  u_rx :: UW

text \<open>\<open>knl\<close> is the kernel with its device manager, \<open>nvics\<close> the interrupt controller of each core.\<close>

record serst =
  dev_ser_cb :: "nat \<Rightarrow> t_ser_dcb"
  ll_devcb :: "nat \<Rightarrow> t_dev_ser_lldevcb"
  uarts :: "nat \<Rightarrow> uart"
  nvics :: "nat \<Rightarrow> nvic"
  ints :: intst
  knl :: devst

definition upd_dcb :: "nat \<Rightarrow> (t_ser_dcb \<Rightarrow> t_ser_dcb) \<Rightarrow> serst \<Rightarrow> serst" where
  "upd_dcb u f s = s\<lparr>dev_ser_cb := (dev_ser_cb s)(u := f (dev_ser_cb s u))\<rparr>"

definition upd_uart :: "nat \<Rightarrow> (uart \<Rightarrow> uart) \<Rightarrow> serst \<Rightarrow> serst" where
  "upd_uart u f s = s\<lparr>uarts := (uarts s)(u := f (uarts s u))\<rparr>"

definition upd_knl :: "(kstate \<Rightarrow> kstate) \<Rightarrow> serst \<Rightarrow> serst" where
  "upd_knl f s = s\<lparr>knl := (knl s)\<lparr>kst := f (kst (knl s))\<rparr>\<rparr>"

definition ser_clear_int :: "nat \<Rightarrow> UW \<Rightarrow> serst \<Rightarrow> serst" where
  "ser_clear_int c intno s = s\<lparr>nvics := (nvics s)(c := ClearInt intno (nvics s c))\<rparr>"

text \<open>The lock: the mask of the own core; the spinlock is free at the start of every step.\<close>

definition set_mask :: "nat \<Rightarrow> bool \<Rightarrow> serst \<Rightarrow> serst" where
  "set_mask c m = upd_knl (\<lambda>k. k\<lparr>smp := (smp k)\<lparr>primask := (primask (smp k))(c := m)\<rparr>\<rparr>)"

definition dev_ser_buf_lock :: "nat \<Rightarrow> serst \<Rightarrow> bool \<times> serst" where
  "dev_ser_buf_lock c s = (primask (smp (kst (knl s))) c, set_mask c True s)"

definition dev_ser_buf_unlock :: "nat \<Rightarrow> bool \<Rightarrow> serst \<Rightarrow> serst" where
  "dev_ser_buf_unlock c intsts s = set_mask c intsts s"

definition buff_init :: "nat \<Rightarrow> t_ser_buff \<Rightarrow> kstate \<Rightarrow> t_ser_buff \<times> kstate" where
  "buff_init c b k = (b\<lparr>sb_top := 0, sb_tail := 0\<rparr>, fst (tk_clr_flg c (wait_flgid b) 0 k))"

subsection \<open>Interface to the interrupt side (ser.c)\<close>

definition dev_ser_get_snddat :: "nat \<Rightarrow> nat \<Rightarrow> serst \<Rightarrow> serst \<times> UW option" where
  "dev_ser_get_snddat c u s =
     (let b = snd_buff (dev_ser_cb s u)
      in if sb_top b \<noteq> sb_tail b
         then let data = ucast (sb_data b ! unat (sb_tail b));
                  tail = sb_tail b + 1;
                  tail = (if tail \<ge> SER_SIZE then 0 else tail);
                  s = upd_dcb u (\<lambda>D. D\<lparr>snd_buff := (snd_buff D)\<lparr>sb_tail := tail\<rparr>\<rparr>) s
              in (upd_knl (\<lambda>k. fst (tk_set_flg c (wait_flgid b) 1 k)) s, Some data)
         else (s, None))"

definition dev_ser_notify_err :: "nat \<Rightarrow> UW \<Rightarrow> serst \<Rightarrow> serst" where
  "dev_ser_notify_err u err = upd_dcb u (\<lambda>d. d\<lparr>com_error := com_error d OR err\<rparr>)"

abbreviation (input) DEV_SER_ERR_ROVR :: UW where "DEV_SER_ERR_ROVR \<equiv> 0x80"

definition dev_ser_notify_rcv :: "nat \<Rightarrow> nat \<Rightarrow> UW \<Rightarrow> serst \<Rightarrow> serst" where
  "dev_ser_notify_rcv c u data s =
     (let b = rcv_buff (dev_ser_cb s u);
          nxt = sb_top b + 1;
          nxt = (if nxt \<ge> SER_SIZE then 0 else nxt);
          s = (if nxt \<noteq> sb_tail b
               then upd_dcb u (\<lambda>D. D\<lparr>rcv_buff := (rcv_buff D)\<lparr>sb_data := (sb_data (rcv_buff D))[unat (sb_top (rcv_buff D)) := ucast data], sb_top := nxt\<rparr>\<rparr>) s
               else dev_ser_notify_err u DEV_SER_ERR_ROVR s)
      in upd_knl (\<lambda>k. fst (tk_set_flg c (wait_flgid b) 1 k)) s)"

subsection \<open>The UART (ser\_rp2040.c)\<close>

abbreviation (input) INTNO_UART0 :: UW where "INTNO_UART0 \<equiv> 20"
abbreviation (input) INTNO_UART1 :: UW where "INTNO_UART1 \<equiv> 21"
abbreviation (input) UART_MIS_BE :: UW where "UART_MIS_BE \<equiv> 0x200"
abbreviation (input) UART_MIS_TX :: UW where "UART_MIS_TX \<equiv> 0x20"
abbreviation (input) UART_MIS_RX :: UW where "UART_MIS_RX \<equiv> 0x10"
abbreviation (input) UART_IMSC_BEIM :: UW where "UART_IMSC_BEIM \<equiv> 0x200"
abbreviation (input) UART_IMSC_TXIM :: UW where "UART_IMSC_TXIM \<equiv> 0x20"
abbreviation (input) UART_IMSC_RXIM :: UW where "UART_IMSC_RXIM \<equiv> 0x10"
abbreviation (input) UART_DR_ERR :: UW where "UART_DR_ERR \<equiv> 0xF00"
abbreviation (input) UART_DR_DATA :: UW where "UART_DR_DATA \<equiv> 0xFF"
abbreviation (input) UART_FR_TXFF :: UW where "UART_FR_TXFF \<equiv> 0x20"
abbreviation (input) UART_LCR_H_BRK :: UW where "UART_LCR_H_BRK \<equiv> 1"
abbreviation (input) DEV_SER_ERR_BE :: UW where "DEV_SER_ERR_BE \<equiv> 4"

text \<open>The two tables of constants of a unit.\<close>

definition ll_devdat :: "nat \<Rightarrow> UW \<times> UW" where
  "ll_devdat u = (if u = 0 then (INTNO_UART0, 2) else (INTNO_UART1, 2))"

definition rx_part :: "nat \<Rightarrow> nat \<Rightarrow> serst \<Rightarrow> serst" where
  "rx_part c u s =
     (let data = u_rx (uarts s u)
      in if data AND UART_DR_ERR \<noteq> 0 then dev_ser_notify_err u (drop_bit 8 data AND 0x0F) s
         else dev_ser_notify_rcv c u (data AND UART_DR_DATA) s)"

definition tx_part :: "nat \<Rightarrow> nat \<Rightarrow> serst \<Rightarrow> serst" where
  "tx_part c u s =
     (case dev_ser_get_snddat c u s of
        (s, Some data) \<Rightarrow> upd_uart u (\<lambda>U. U\<lparr>u_dr := u_dr U @ [data]\<rparr>) s
      | (s, None) \<Rightarrow> upd_uart u (\<lambda>U. U\<lparr>u_imsc := u_imsc U AND NOT UART_IMSC_TXIM\<rparr>) s)"

definition usart_inthdr :: "nat \<Rightarrow> UW \<Rightarrow> serst \<Rightarrow> serst" where
  "usart_inthdr c intno s =
     (if intno \<noteq> INTNO_UART0 \<and> intno \<noteq> INTNO_UART1 then ser_clear_int c intno s
      else
        let u = (if intno = INTNO_UART0 then 0 else 1);
            (intsts, s) = dev_ser_buf_lock c s;
            mis = u_mis (uarts s u);
            s = upd_uart u (\<lambda>U. U\<lparr>u_icr := - 1\<rparr>) s;
            s = ser_clear_int c intno s;
            s = (if mis AND UART_MIS_RX \<noteq> 0 then rx_part c u s else s);
            s = (if mis AND UART_MIS_TX \<noteq> 0 then tx_part c u s else s);
            s = (if mis AND UART_MIS_BE \<noteq> 0 then dev_ser_notify_err u DEV_SER_ERR_BE s else s)
        in dev_ser_buf_unlock c intsts s)"

text \<open>The baud rate registers; there is no value for a speed of 0, by which the code divides.\<close>

definition CLK_PERI_FREQ :: UW where "CLK_PERI_FREQ = 125000000"

definition baud_regs :: "UW \<Rightarrow> (UW \<times> UW) option" where
  "baud_regs speed =
     (if speed = 0 then None
      else let rdiv = 8 * CLK_PERI_FREQ div speed;
               ibrd = drop_bit 7 rdiv
           in Some (if ibrd = 0 then (1, 0)
                    else if ibrd \<ge> 65535 then (65535, 0)
                    else (ibrd, ((rdiv AND 0x7f) + 1) div 2)))"

definition start_com :: "nat \<Rightarrow> UW \<Rightarrow> UW \<Rightarrow> serst \<Rightarrow> serst option" where
  "start_com u mode speed s =
     (case baud_regs speed of
        None \<Rightarrow> None
      | Some (ibrd, fbrd) \<Rightarrow>
          Some (upd_uart u (\<lambda>U. U\<lparr>u_ibrd := ibrd, u_fbrd := fbrd, u_lcr_h := mode, u_cr := 0x301\<rparr>) s))"

text \<open>Unit 0 is used by the monitor and stays enabled.\<close>

definition stop_com :: "nat \<Rightarrow> serst \<Rightarrow> serst" where
  "stop_com u = upd_uart u (\<lambda>U. U\<lparr>u_cr := (if u \<noteq> 0 then 0x300 else 0x301)\<rparr>)"

definition send_data :: "nat \<Rightarrow> UW \<Rightarrow> serst \<Rightarrow> serst \<times> ER" where
  "send_data u parm s =
     (if u_fr (uarts s u) AND UART_FR_TXFF \<noteq> 0 then (s, E_BUSY)
      else (upd_uart u (\<lambda>U. U\<lparr>u_dr := u_dr U @ [parm], u_imsc := u_imsc U OR UART_IMSC_TXIM\<rparr>) s, E_OK))"

datatype t_lld_ser_cmd = LLD_SER_MODE | LLD_SER_SPEED | LLD_SER_START | LLD_SER_STOP | LLD_SER_SEND | LLD_SER_BREAK | LLD_SER_INTCTL

definition dev_ser_llctl :: "nat \<Rightarrow> nat \<Rightarrow> t_lld_ser_cmd \<Rightarrow> UW \<Rightarrow> serst \<Rightarrow> (serst \<times> ER) option" where
  "dev_ser_llctl c u cmd parm s =
     (case cmd of
        LLD_SER_MODE \<Rightarrow> Some (s\<lparr>ll_devcb := (ll_devcb s)(u := (ll_devcb s u)\<lparr>ll_mode := parm\<rparr>)\<rparr>, E_OK)
      | LLD_SER_SPEED \<Rightarrow> Some (s\<lparr>ll_devcb := (ll_devcb s)(u := (ll_devcb s u)\<lparr>ll_speed := parm\<rparr>)\<rparr>, E_OK)
      | LLD_SER_START \<Rightarrow>
          (let s = upd_uart u (\<lambda>U. U\<lparr>u_cr := 0x300, u_imsc := UART_IMSC_RXIM OR UART_IMSC_BEIM, u_icr := 0\<rparr>) s;
               s = ser_clear_int c (fst (ll_devdat u)) s
           in map_option (\<lambda>s. (s, E_OK)) (start_com u (ll_mode (ll_devcb s u)) (ll_speed (ll_devcb s u)) s))
      | LLD_SER_STOP \<Rightarrow> Some (stop_com u (upd_uart u (\<lambda>U. U\<lparr>u_imsc := 0\<rparr>) s), E_OK)
      | LLD_SER_SEND \<Rightarrow> Some (send_data u parm s)
      | LLD_SER_BREAK \<Rightarrow>
          Some (upd_uart u (\<lambda>U. U\<lparr>u_lcr_h := (if parm \<noteq> 0 then u_lcr_h U OR UART_LCR_H_BRK else u_lcr_h U AND NOT UART_LCR_H_BRK)\<rparr>) s, E_OK)
      | LLD_SER_INTCTL \<Rightarrow> Some (s, E_OK))"

definition cre_wait_flg :: "nat \<Rightarrow> serst \<Rightarrow> serst \<times> int" where
  "cre_wait_flg c s =
     (let (k, fid) = tk_cre_flg c \<lparr>cf_exinf = 0, cf_flgatr = 0, cf_iflgptn = 0\<rparr> (kst (knl s))
      in (upd_knl (\<lambda>_. k) s, fid))"

text \<open>\<open>ih\<close> is the address of \<open>usart_inthdr\<close>; the lock of the buffer is initialised to free.\<close>

definition dev_ser_llinit :: "nat \<Rightarrow> UW \<Rightarrow> nat \<Rightarrow> serst \<Rightarrow> serst \<times> ER" where
  "dev_ser_llinit c ih d s =
     (let u = sd_unit (dev_ser_cb s d);
          (s, sid) = cre_wait_flg c s;
          s = upd_dcb d (\<lambda>D. D\<lparr>snd_buff := (snd_buff D)\<lparr>wait_flgid := sid\<rparr>\<rparr>) s
      in if sid < E_OK then (s, sid)
         else
           let (s, rid) = cre_wait_flg c s;
               s = upd_dcb d (\<lambda>D. D\<lparr>rcv_buff := (rcv_buff D)\<lparr>wait_flgid := rid\<rparr>\<rparr>) s
           in if rid < E_OK then (upd_knl (\<lambda>k. fst (tk_del_flg c sid k)) s, rid)
              else
                let s = stop_com u s;
                    (intno, pri) = ll_devdat u;
                    s = upd_dcb d (\<lambda>D. D\<lparr>intno_rcv := intno, intno_snd := intno, int_pri := pri\<rparr>) s;
                    ((v, k), err) = tk_def_int c intno (Some \<lparr>di_intatr = TA_HLNG, di_inthdr = ih\<rparr>) (ints s, kst (knl s));
                    s = upd_knl (\<lambda>_. k) (s\<lparr>ints := v\<rparr>)
                in if err = E_OK
                   then let s = ser_clear_int c intno s in (s\<lparr>nvics := (nvics s)(c := EnableInt intno pri (nvics s c))\<rparr>, err)
                   else (upd_knl (\<lambda>k. fst (tk_del_flg c sid (fst (tk_del_flg c rid k)))) s, err))"

end
