(* ===== verification/Serial_Io.thy ===== *)
theory Serial_Io
  imports Serial
begin

text \<open>
  \<^verbatim>\<open>device/ser/ser.c\<close>: attributes, reading and writing, opening and closing. A call that reads or writes data is a small machine: one step is one
  pass of its loop under the lock of the buffer, the call that waits, or the return from the wait. Between the steps anything may
  happen to the rest of the system, the interrupt handler included.
\<close>

subsection \<open>Attributes\<close>

abbreviation (input) TDN_EVENT :: int where "TDN_EVENT \<equiv> - 1"
abbreviation (input) TDN_SER_MODE :: int where "TDN_SER_MODE \<equiv> - 100"
abbreviation (input) TDN_SER_SPEED :: int where "TDN_SER_SPEED \<equiv> - 101"
abbreviation (input) TDN_SER_SNDTMO :: int where "TDN_SER_SNDTMO \<equiv> - 102"
abbreviation (input) TDN_SER_RCVTMO :: int where "TDN_SER_RCVTMO \<equiv> - 103"
abbreviation (input) TDN_SER_COMERR :: int where "TDN_SER_COMERR \<equiv> - 104"
abbreviation (input) TDN_SER_BREAK :: int where "TDN_SER_BREAK \<equiv> - 105"

definition get_word :: "UW \<Rightarrow> serst \<Rightarrow> UW" where "get_word p s = ld32 p (mem (kst (knl s)))"

definition put_word :: "UW \<Rightarrow> UW \<Rightarrow> serst \<Rightarrow> serst" where "put_word p v = upd_knl (\<lambda>k. k\<lparr>mem := st32 p v (mem k)\<rparr>)"

definition set_atr_size :: "t_devreq \<Rightarrow> t_devreq \<times> ER" where
  "set_atr_size r =
     (if dr_start r \<in> {TDN_EVENT, TDN_SER_MODE, TDN_SER_SPEED, TDN_SER_COMERR, TDN_SER_SNDTMO, TDN_SER_RCVTMO}
      then (r\<lparr>dr_asize := 4\<rparr>, E_OK) else (r, E_PAR))"

definition read_atr :: "nat \<Rightarrow> nat \<Rightarrow> t_devreq \<Rightarrow> serst \<Rightarrow> serst \<times> t_devreq \<times> ER" where
  "read_atr c d r s =
     (let (r, err) = set_atr_size r; D = dev_ser_cb s d; st = dr_start r
      in if err \<noteq> E_OK then (s, r, err)
         else if dr_size r = 0 then (s, r, err)
         else if st = TDN_EVENT then (put_word (dr_buf r) (word_of_int (sd_evtmbfid D)) s, r, err)
         else if st = TDN_SER_MODE then (put_word (dr_buf r) (com_mode D) s, r, err)
         else if st = TDN_SER_SPEED then (put_word (dr_buf r) (com_speed D) s, r, err)
         else if st = TDN_SER_SNDTMO then (put_word (dr_buf r) (word_of_int (snd_tmo D)) s, r, err)
         else if st = TDN_SER_RCVTMO then (put_word (dr_buf r) (word_of_int (rcv_tmo D)) s, r, err)
         else if st = TDN_SER_COMERR
         then let (imask, s) = dev_ser_buf_lock c s;
                  s = put_word (dr_buf r) (com_error (dev_ser_cb s d)) s;
                  s = upd_dcb d (\<lambda>D. D\<lparr>com_error := 0\<rparr>) s
              in (dev_ser_buf_unlock c imask s, r, err)
         else (s, r, E_PAR))"

definition write_atr :: "nat \<Rightarrow> nat \<Rightarrow> t_devreq \<Rightarrow> serst \<Rightarrow> (serst \<times> t_devreq \<times> ER) option" where
  "write_atr c d r s =
     (let (r, err) = set_atr_size r; v = get_word (dr_buf r) s; u = sd_unit (dev_ser_cb s d); st = dr_start r;
          ctl = (\<lambda>cmd s. map_option (\<lambda>(s, err). (s, r, err)) (dev_ser_llctl c u cmd v s))
      in if err \<noteq> E_OK then Some (s, r, err)
         else if dr_size r = 0 then Some (s, r, err)
         else if st = TDN_EVENT then Some (upd_dcb d (\<lambda>D. D\<lparr>sd_evtmbfid := sint v\<rparr>) s, r, err)
         else if st = TDN_SER_MODE then ctl LLD_SER_MODE (upd_dcb d (\<lambda>D. D\<lparr>com_mode := v\<rparr>) s)
         else if st = TDN_SER_SPEED then ctl LLD_SER_SPEED (upd_dcb d (\<lambda>D. D\<lparr>com_speed := v\<rparr>) s)
         else if st = TDN_SER_SNDTMO then Some (upd_dcb d (\<lambda>D. D\<lparr>snd_tmo := sint v\<rparr>) s, r, err)
         else if st = TDN_SER_RCVTMO then Some (upd_dcb d (\<lambda>D. D\<lparr>rcv_tmo := sint v\<rparr>) s, r, err)
         else if st = TDN_SER_BREAK then ctl LLD_SER_BREAK s
         else Some (s, r, E_PAR))"

subsection \<open>Reading and writing\<close>

text \<open>
  The local variables of a call and where it stands: before a pass of the loop, before the wait, waiting, returned. \<open>io_rest\<close>
  counts what is still to transfer, \<open>io_pd\<close> is the address of the next byte of the caller, \<open>io_tail\<close> the reader's copy of the tail.
\<close>

datatype iopc = P_Loop | P_Wait | P_Woken | P_Done

record iost =
  io_pc :: iopc
  io_tail :: UW
  io_pd :: UW
  io_rest :: int
  io_err :: ER

definition after_wait :: "ER \<Rightarrow> iost \<Rightarrow> iost" where
  "after_wait er l = l\<lparr>io_err := er, io_pc := (if er \<noteq> E_OK then P_Done else P_Loop)\<rparr>"

definition wait_step :: "nat \<Rightarrow> int \<Rightarrow> int \<Rightarrow> UW \<Rightarrow> iost \<Rightarrow> serst \<Rightarrow> iost \<times> serst" where
  "wait_step c fid tmo p l s =
     (case tk_wai_flg c fid 1 (TWF_ORW OR TWF_BITCLR) p tmo (kst (knl s)) of
        (k, Ret er) \<Rightarrow> (after_wait er l, upd_knl (\<lambda>_. k) s)
      | (k, Blocked) \<Rightarrow> (l\<lparr>io_pc := P_Woken\<rparr>, upd_knl (\<lambda>_. k) s))"

definition no_data :: "nat \<Rightarrow> int \<Rightarrow> serst \<Rightarrow> serst" where
  "no_data c fid = upd_knl (\<lambda>k. fst (tk_clr_flg c fid 0 k))"

definition wrap_inc :: "UW \<Rightarrow> UW" where
  "wrap_inc i = (let i = i + 1 in if i \<ge> SER_SIZE then 0 else i)"

definition read_pass :: "nat \<Rightarrow> nat \<Rightarrow> iost \<Rightarrow> serst \<Rightarrow> iost \<times> serst" where
  "read_pass c d l s =
     (let (intsts, s) = dev_ser_buf_lock c s; b = rcv_buff (dev_ser_cb s d)
      in if sb_top b \<noteq> io_tail l
         then let v = sb_data b ! unat (io_tail l); tail = wrap_inc (io_tail l);
                  s = upd_knl (\<lambda>k. k\<lparr>mem := (mem k)(io_pd l := v)\<rparr>) s;
                  s = upd_dcb d (\<lambda>D. D\<lparr>rcv_buff := (rcv_buff D)\<lparr>sb_tail := tail\<rparr>\<rparr>) s
              in (l\<lparr>io_tail := tail, io_pd := io_pd l + 1, io_rest := io_rest l - 1\<rparr>, dev_ser_buf_unlock c intsts s)
         else (l\<lparr>io_pc := P_Wait\<rparr>, dev_ser_buf_unlock c intsts (no_data c (wait_flgid b) s)))"

text \<open>\<open>t\<close> is the calling task, \<open>p\<close> the address of its local variable \<open>flgptn\<close>.\<close>

definition read_step :: "nat \<Rightarrow> UW \<Rightarrow> nat \<Rightarrow> nat \<Rightarrow> iost \<Rightarrow> serst \<Rightarrow> iost \<times> serst" where
  "read_step t p d c l s =
     (case io_pc l of
        P_Loop \<Rightarrow> if io_rest l = 0 then (l\<lparr>io_pc := P_Done\<rparr>, s) else read_pass c d l s
      | P_Wait \<Rightarrow> let D = dev_ser_cb s d in wait_step c (wait_flgid (rcv_buff D)) (rcv_tmo D) p l s
      | P_Woken \<Rightarrow> (after_wait (ercd (kst (knl s)) t) l, s)
      | P_Done \<Rightarrow> (l, s))"

definition write_pass :: "nat \<Rightarrow> nat \<Rightarrow> iost \<Rightarrow> serst \<Rightarrow> iost \<times> serst" where
  "write_pass c d l s =
     (let nxt = wrap_inc (sb_top (snd_buff (dev_ser_cb s d)));
          (intsts, s) = dev_ser_buf_lock c s;
          D = dev_ser_cb s d; b = snd_buff D; v = mem (kst (knl s)) (io_pd l)
      in if nxt \<noteq> sb_tail b
         then let (s, sent) = (if sb_top b = sb_tail b
                               then let (s, err) = send_data (sd_unit D) (ucast v) s in (s, err = E_OK) else (s, False));
                  s = (if sent then s
                       else upd_dcb d (\<lambda>D. D\<lparr>snd_buff := (snd_buff D)\<lparr>sb_data := (sb_data (snd_buff D))[unat (sb_top (snd_buff D)) := v], sb_top := nxt\<rparr>\<rparr>) s)
              in (l\<lparr>io_pd := io_pd l + 1, io_rest := io_rest l - 1\<rparr>, dev_ser_buf_unlock c intsts s)
         else (l\<lparr>io_pc := P_Wait\<rparr>, dev_ser_buf_unlock c intsts (no_data c (wait_flgid b) s)))"

definition write_step :: "nat \<Rightarrow> UW \<Rightarrow> nat \<Rightarrow> nat \<Rightarrow> iost \<Rightarrow> serst \<Rightarrow> iost \<times> serst" where
  "write_step t p d c l s =
     (case io_pc l of
        P_Loop \<Rightarrow> if io_rest l = 0 then (l\<lparr>io_pc := P_Done\<rparr>, s) else write_pass c d l s
      | P_Wait \<Rightarrow> let D = dev_ser_cb s d in wait_step c (wait_flgid (snd_buff D)) (snd_tmo D) p l s
      | P_Woken \<Rightarrow> (after_wait (ercd (kst (knl s)) t) l, s)
      | P_Done \<Rightarrow> (l, s))"

text \<open>
  A run: before every step, what happens meanwhile, and the core on which the step is made. The result is \<open>None\<close> when the
  call has not returned after these steps.
\<close>

fun io_run :: "(nat \<Rightarrow> iost \<Rightarrow> serst \<Rightarrow> iost \<times> serst) \<Rightarrow> ((serst \<Rightarrow> serst) \<times> nat) list \<Rightarrow> iost \<Rightarrow> serst \<Rightarrow> iost \<times> serst" where
  "io_run f [] l s = (l, s)"
| "io_run f ((e, c) # E) l s =
     (if io_pc l = P_Done then (l, s) else let (l, s) = f c l (e s) in io_run f E l s)"

definition io_call :: "(nat \<Rightarrow> iost \<Rightarrow> serst \<Rightarrow> iost \<times> serst) \<Rightarrow> ((serst \<Rightarrow> serst) \<times> nat) list \<Rightarrow> UW \<Rightarrow> t_devreq \<Rightarrow> serst \<Rightarrow> (serst \<times> t_devreq \<times> ER) option" where
  "io_call f E tail r s =
     (let (l, s) = io_run f E \<lparr>io_pc = P_Loop, io_tail = tail, io_pd = dr_buf r, io_rest = dr_size r, io_err = E_OK\<rparr> s
      in if io_pc l = P_Done then Some (s, r\<lparr>dr_asize := dr_size r - io_rest l\<rparr>, io_err l) else None)"

definition buff_count :: "t_ser_buff \<Rightarrow> int" where
  "buff_count b = (let n = sint (sb_top b - sb_tail b) in if n < 0 then n + int DEVCONF_SER_BUFFSIZE else n)"

definition read_data :: "nat \<Rightarrow> UW \<Rightarrow> nat \<Rightarrow> ((serst \<Rightarrow> serst) \<times> nat) list \<Rightarrow> t_devreq \<Rightarrow> serst \<Rightarrow> (serst \<times> t_devreq \<times> ER) option" where
  "read_data t p d E r s =
     (let b = rcv_buff (dev_ser_cb s d)
      in if dr_size r \<noteq> 0 then io_call (read_step t p d) E (sb_tail b) r s
         else Some (s, r\<lparr>dr_asize := buff_count b\<rparr>, E_OK))"

definition write_data :: "nat \<Rightarrow> UW \<Rightarrow> nat \<Rightarrow> ((serst \<Rightarrow> serst) \<times> nat) list \<Rightarrow> t_devreq \<Rightarrow> serst \<Rightarrow> (serst \<times> t_devreq \<times> ER) option" where
  "write_data t p d E r s =
     (if dr_size r \<noteq> 0 then io_call (write_step t p d) E 0 r s
      else Some (s, r\<lparr>dr_asize := int DEVCONF_SER_BUFFSIZE - buff_count (snd_buff (dev_ser_cb s d))\<rparr>, E_OK))"

subsection \<open>Functions of the driver\<close>

abbreviation (input) TD_READ :: UW where "TD_READ \<equiv> 1"
abbreviation (input) TD_WRITE :: UW where "TD_WRITE \<equiv> 2"
abbreviation (input) E_NOSPT' :: ER where "E_NOSPT' \<equiv> - 9"

definition init_buff :: "nat \<Rightarrow> ((t_ser_buff \<Rightarrow> t_ser_buff) \<Rightarrow> t_ser_dcb \<Rightarrow> t_ser_dcb) \<Rightarrow> (t_ser_dcb \<Rightarrow> t_ser_buff) \<Rightarrow> nat \<Rightarrow> serst \<Rightarrow> serst" where
  "init_buff c upd sel d s =
     (let (b, k) = buff_init c (sel (dev_ser_cb s d)) (kst (knl s)) in upd_dcb d (upd (\<lambda>_. b)) (upd_knl (\<lambda>_. k) s))"

definition dev_ser_openfn :: "nat \<Rightarrow> UW \<Rightarrow> nat \<Rightarrow> serst \<Rightarrow> (serst \<times> ER) option" where
  "dev_ser_openfn c om d s =
     (let s = upd_dcb d (\<lambda>D. D\<lparr>sd_omode := om\<rparr>) s;
          s = init_buff c snd_buff_update snd_buff d s;
          s = init_buff c rcv_buff_update rcv_buff d s
      in dev_ser_llctl c (sd_unit (dev_ser_cb s d)) LLD_SER_START 0 s)"

definition dev_ser_closefn :: "nat \<Rightarrow> nat \<Rightarrow> serst \<Rightarrow> (serst \<times> ER) option" where
  "dev_ser_closefn c d s = dev_ser_llctl c (sd_unit (dev_ser_cb s d)) LLD_SER_STOP 0 s"

definition dev_ser_readfn :: "nat \<Rightarrow> nat \<Rightarrow> UW \<Rightarrow> nat \<Rightarrow> ((serst \<Rightarrow> serst) \<times> nat) list \<Rightarrow> t_devreq \<Rightarrow> serst \<Rightarrow> (serst \<times> t_devreq \<times> ER) option" where
  "dev_ser_readfn c t p d E r s =
     (if dr_start r \<ge> 0
      then if sd_omode (dev_ser_cb s d) AND TD_READ \<noteq> 0 then read_data t p d E r s else Some (s, r, E_OACV)
      else Some (read_atr c d r s))"

definition dev_ser_writefn :: "nat \<Rightarrow> nat \<Rightarrow> UW \<Rightarrow> nat \<Rightarrow> ((serst \<Rightarrow> serst) \<times> nat) list \<Rightarrow> t_devreq \<Rightarrow> serst \<Rightarrow> (serst \<times> t_devreq \<times> ER) option" where
  "dev_ser_writefn c t p d E r s =
     (if dr_start r \<ge> 0
      then if sd_omode (dev_ser_cb s d) AND TD_WRITE \<noteq> 0 then write_data t p d E r s else Some (s, r, E_OACV)
      else write_atr c d r s)"

definition dev_ser_eventfn :: "int \<Rightarrow> UW \<Rightarrow> ER" where "dev_ser_eventfn evttyp evtinf = E_NOSPT'"

end
