(* ===== verification/Serial_Init.thy ===== *)
theory Serial_Init
  imports Serial_Io Msdi
begin

text \<open>\<^verbatim>\<open>dev_init_ser\<close> of \<^verbatim>\<open>device/ser/ser.c\<close>: the control block of a unit, its registration and the initialisation of its UART.\<close>

definition sizeof_T_SER_DCB :: int where "sizeof_T_SER_DCB = 172"
definition DEV_SER_UNITNM :: nat where "DEV_SER_UNITNM = 2"
definition DEVCNF_SER_SPEED :: UW where "DEVCNF_SER_SPEED = 115200"
definition DEVCNF_SER_MODE :: UW where "DEVCNF_SER_MODE = 0x60"

text \<open>The name: \<open>ser\<close> and a letter for the unit. \<open>fns\<close> has the addresses of the functions of the driver.\<close>

definition ser_dmsdi :: "t_dmsdi \<Rightarrow> UW \<Rightarrow> nat \<Rightarrow> t_dmsdi" where
  "ser_dmsdi fns p u = fns\<lparr>dm_exinf := p, dm_drvatr := 0, dm_devatr := 0, dm_nsub := 0, dm_blksz := 1,
     dm_devnm := [0x73, 0x65, 0x72, 0x61 + of_nat u]\<rparr>"

definition with_msdi :: "(UW \<Rightarrow> t_msdi) \<Rightarrow> serst \<Rightarrow> msst" where "with_msdi M s = \<lparr>msdis = M, mdev = knl s\<rparr>"

definition Kfree_ser :: "nat \<Rightarrow> UW \<Rightarrow> (UW \<Rightarrow> t_msdi) \<times> serst \<Rightarrow> ER \<Rightarrow> (((UW \<Rightarrow> t_msdi) \<times> serst) \<times> ER) option" where
  "Kfree_ser c p = (\<lambda>(M, s) err. map_option (\<lambda>k. ((M, upd_knl (\<lambda>_. k) s), err)) (Kfree c p (kst (knl s))))"

definition dev_init_ser :: "t_ddev \<Rightarrow> t_dmsdi \<Rightarrow> UW \<Rightarrow> UW \<Rightarrow> nat \<Rightarrow> nat \<Rightarrow> (UW \<Rightarrow> t_msdi) \<times> serst \<Rightarrow> (((UW \<Rightarrow> t_msdi) \<times> serst) \<times> ER) option" where
  "dev_init_ser F fns ih nm c u = (\<lambda>(M, s).
     if u \<ge> DEV_SER_UNITNM then Some ((M, s), E_PAR)
     else do {
       (k, p) \<leftarrow> Kmalloc c sizeof_T_SER_DCB (kst (knl s));
       let s = upd_knl (\<lambda>_. k) s;
       (if p = 0 then Some ((M, s), E_NOMEM)
        else do {
          (ms, err, idv, m) \<leftarrow> msdi_def_dev F c nm (ser_dmsdi fns p u) (with_msdi M s);
          let M = msdis ms;
          let s = s\<lparr>knl := mdev ms\<rparr>;
          (case idv of
             None \<Rightarrow> Kfree_ser c p (M, s) err
           | Some iv \<Rightarrow> do {
               let s = upd_dcb u (\<lambda>D. D\<lparr>sd_unit := u, sd_evtmbfid := evtmbfid iv\<rparr>) s;
               let (s, err) = dev_ser_llinit c ih u s;
               (if err \<noteq> E_OK
                then do {
                  (ms, er) \<leftarrow> msdi_del_dev c m (with_msdi M s);
                  Kfree_ser c p (msdis ms, s\<lparr>knl := mdev ms\<rparr>) err
                }
                else do {
                  let s = upd_dcb u (\<lambda>D. D\<lparr>com_speed := DEVCNF_SER_SPEED\<rparr>) s;
                  (s, er) \<leftarrow> dev_ser_llctl c u LLD_SER_SPEED DEVCNF_SER_SPEED s;
                  let s = upd_dcb u (\<lambda>D. D\<lparr>com_mode := DEVCNF_SER_MODE\<rparr>) s;
                  (s, er) \<leftarrow> dev_ser_llctl c u LLD_SER_MODE DEVCNF_SER_MODE s;
                  Some ((M, upd_dcb u (\<lambda>D. D\<lparr>snd_tmo := TMO_FEVR, rcv_tmo := TMO_FEVR\<rparr>) s), E_OK)
                })
             })
        })
     })"

end
