(* ===== verification/Serial_Props.thy ===== *)
theory Serial_Props
  imports Serial_Io Device_Props "HOL-Library.Sublist"
begin

text \<open>
  The serial driver: the ring buffer is a queue of at most 49 bytes, what the UART receives is read in its order and what is written is
  sent in its order under any interleaving with the interrupt handler, and a reader is not left waiting.
\<close>

subsection \<open>The interface of a bounded queue\<close>

locale bounded_fifo =
  fixes good :: "'b \<Rightarrow> bool" and elems :: "'b \<Rightarrow> 'e list" and cap :: nat
    and put :: "'e \<Rightarrow> 'b \<Rightarrow> 'b option" and get :: "'b \<Rightarrow> ('e \<times> 'b) option"
  assumes put_None: "good b \<Longrightarrow> put v b = None \<longleftrightarrow> length (elems b) = cap"
    and put_Some: "good b \<Longrightarrow> put v b = Some b' \<Longrightarrow> good b' \<and> elems b' = elems b @ [v]"
    and get_None: "good b \<Longrightarrow> get b = None \<longleftrightarrow> elems b = []"
    and get_Some: "good b \<Longrightarrow> get b = Some (v, b') \<Longrightarrow> good b' \<and> elems b = v # elems b'"
begin

lemma put_room: "good b \<Longrightarrow> length (elems b) \<noteq> cap \<Longrightarrow> \<exists>b'. put v b = Some b' \<and> good b' \<and> elems b' = elems b @ [v]"
  using put_None[of b v] put_Some[of b v] by fastforce

lemma get_some: "good b \<Longrightarrow> elems b = v # vs \<Longrightarrow> \<exists>b'. get b = Some (v, b') \<and> good b' \<and> elems b' = vs"
  using get_None[of b] get_Some[of b] by fastforce

end

subsection \<open>The ring\<close>

abbreviation (input) B where "B \<equiv> DEVCONF_SER_BUFFSIZE"

definition buff_ok :: "t_ser_buff \<Rightarrow> bool" where
  "buff_ok b \<longleftrightarrow> unat (sb_top b) < B \<and> unat (sb_tail b) < B \<and> length (sb_data b) = B"

definition count :: "t_ser_buff \<Rightarrow> nat" where
  "count b = (unat (sb_top b) + B - unat (sb_tail b)) mod B"

definition stored :: "t_ser_buff \<Rightarrow> UB list" where
  "stored b = map (\<lambda>i. sb_data b ! ((unat (sb_tail b) + i) mod B)) [0..<count b]"

definition ring_put :: "UB \<Rightarrow> t_ser_buff \<Rightarrow> t_ser_buff option" where
  "ring_put v b = (if wrap_inc (sb_top b) = sb_tail b then None
     else Some (b\<lparr>sb_data := (sb_data b)[unat (sb_top b) := v], sb_top := wrap_inc (sb_top b)\<rparr>))"

definition ring_get :: "t_ser_buff \<Rightarrow> (UB \<times> t_ser_buff) option" where
  "ring_get b = (if sb_top b = sb_tail b then None
     else Some (sb_data b ! unat (sb_tail b), b\<lparr>sb_tail := wrap_inc (sb_tail b)\<rparr>))"

lemma size_50: "B = 50" "unat SER_SIZE = 50" "SER_SIZE = 50"
  by (simp_all add: DEVCONF_SER_BUFFSIZE_def)

lemma unat_wrap: "unat i < B \<Longrightarrow> unat (wrap_inc i) = (unat i + 1) mod B"
proof -
  assume i: "unat i < B"
  have "unat (i + 1) = unat i + 1" using i by (simp add: size_50 unat_word_ariths)
  then show ?thesis using i by (auto simp: wrap_inc_def Let_def size_50 word_le_nat_alt mod_Suc)
qed

lemma mod_cases: "a < B \<Longrightarrow> b < B \<Longrightarrow> (a + B - b) mod B = (if b \<le> a then a - b else a + B - b)"
  by (auto simp: mod_if)

lemma count_alt: "buff_ok b \<Longrightarrow> count b =
    (if unat (sb_tail b) \<le> unat (sb_top b) then unat (sb_top b) - unat (sb_tail b) else unat (sb_top b) + B - unat (sb_tail b))"
  by (simp add: buff_ok_def count_def mod_cases)

lemma count_less: "count b < B"
  by (simp add: count_def size_50)

lemma count_put:
  assumes "buff_ok b" "wrap_inc (sb_top b) \<noteq> sb_tail b"
  shows "count (b\<lparr>sb_data := xs, sb_top := wrap_inc (sb_top b)\<rparr>) = Suc (count b)"
proof -
  have "unat (wrap_inc (sb_top b)) \<noteq> unat (sb_tail b)" using assms(2) word_unat_eq_iff by blast
  then show ?thesis using assms(1) unat_wrap[of "sb_top b"]
    by (auto simp: count_def buff_ok_def size_50 mod_if split: if_splits)
qed

lemma count_get:
  assumes "buff_ok b" "sb_top b \<noteq> sb_tail b"
  shows "count b = Suc (count (b\<lparr>sb_tail := wrap_inc (sb_tail b)\<rparr>))"
proof -
  have "unat (sb_top b) \<noteq> unat (sb_tail b)" using assms(2) word_unat_eq_iff by blast
  then show ?thesis using assms(1) unat_wrap[of "sb_tail b"]
    by (auto simp: count_def buff_ok_def size_50 mod_if split: if_splits)
qed

lemma top_count: "buff_ok b \<Longrightarrow> (unat (sb_tail b) + count b) mod B = unat (sb_top b)"
  by (auto simp: count_alt buff_ok_def mod_if)

lemma stored_put:
  assumes ok: "buff_ok b" and ne: "wrap_inc (sb_top b) \<noteq> sb_tail b"
  shows "stored (b\<lparr>sb_data := (sb_data b)[unat (sb_top b) := v], sb_top := wrap_inc (sb_top b)\<rparr>) = stored b @ [v]"
proof -
  let ?b = "b\<lparr>sb_data := (sb_data b)[unat (sb_top b) := v], sb_top := wrap_inc (sb_top b)\<rparr>" and ?t = "unat (sb_tail b)"
  have c: "count ?b = Suc (count b)" by (rule count_put[OF ok ne])
  then have lt: "Suc (count b) < B" using count_less[of ?b] by simp
  have old: "(sb_data b)[unat (sb_top b) := v] ! ((?t + i) mod B) = sb_data b ! ((?t + i) mod B)" if "i < count b" for i
  proof -
    have "(?t + i) mod B \<noteq> (?t + count b) mod B"
      using that lt ok by (auto simp: buff_ok_def mod_if)
    then show ?thesis using top_count[OF ok] by simp
  qed
  have new: "(sb_data b)[unat (sb_top b) := v] ! ((?t + count b) mod B) = v"
    using ok unfolding top_count[OF ok] by (simp add: buff_ok_def)
  show ?thesis unfolding stored_def c using old new by simp
qed

lemma stored_get:
  assumes ok: "buff_ok b" and ne: "sb_top b \<noteq> sb_tail b"
  shows "stored b = sb_data b ! unat (sb_tail b) # stored (b\<lparr>sb_tail := wrap_inc (sb_tail b)\<rparr>)"
proof -
  have t: "unat (sb_tail b) < B" using ok by (simp add: buff_ok_def)
  show ?thesis unfolding stored_def count_get[OF ok ne]
    using t by (simp add: upt_conv_Cons map_Suc_upt[symmetric] unat_wrap del: upt_Suc) (simp add: mod_simps)
qed

lemma stored_Nil: "buff_ok b \<Longrightarrow> stored b = [] \<longleftrightarrow> sb_top b = sb_tail b"
  by (auto simp: stored_def count_alt buff_ok_def word_unat_eq_iff split: if_splits)

lemma stored_full: "buff_ok b \<Longrightarrow> length (stored b) = 49 \<longleftrightarrow> wrap_inc (sb_top b) = sb_tail b"
  using unat_wrap[of "sb_top b"] by (auto simp: stored_def count_alt buff_ok_def word_unat_eq_iff size_50 mod_if split: if_splits)

interpretation ser_ring: bounded_fifo buff_ok stored 49 ring_put ring_get
proof unfold_locales
  fix b v assume "buff_ok b"
  then show "ring_put v b = None \<longleftrightarrow> length (stored b) = 49" by (simp add: ring_put_def stored_full)
next
  fix b v b' assume "buff_ok b" "ring_put v b = Some b'"
  then show "buff_ok b' \<and> stored b' = stored b @ [v]"
    using stored_put[of b v] unat_wrap[of "sb_top b"] by (auto simp: ring_put_def buff_ok_def size_50 split: if_splits)
next
  fix b assume "buff_ok b"
  then show "ring_get b = None \<longleftrightarrow> stored b = []" by (simp add: ring_get_def stored_Nil)
next
  fix b v b' assume "buff_ok b" "ring_get b = Some (v, b')"
  then show "buff_ok b' \<and> stored b = v # stored b'"
    using stored_get[of b] unat_wrap[of "sb_tail b"] by (auto simp: ring_get_def buff_ok_def size_50 split: if_splits)
qed

lemma buff_count: "buff_ok b \<Longrightarrow> buff_count b = int (length (stored b))"
proof -
  assume ok: "buff_ok b"
  define T t where "T = unat (sb_top b)" and "t = unat (sb_tail b)"
  have lt: "T < 50" "t < 50" using ok by (simp_all add: buff_ok_def T_def t_def size_50)
  have w: "sb_top b - sb_tail b = word_of_int (int T - int t)" by (simp add: T_def t_def)
  have "sint (word_of_int x :: UW) = x" if "- 50 < x" "x < 50" for x
    using that by (simp add: sint_sbintrunc' signed_take_bit_int_eq_self)
  from this[of "int T - int t"] have "sint (sb_top b - sb_tail b) = int T - int t" unfolding w using lt by simp
  then show ?thesis using lt count_alt[OF ok] by (simp add: buff_count_def stored_def T_def[symmetric] t_def[symmetric] size_50)
qed

subsection \<open>The operations of the code on the rings\<close>

abbreviation (input) rcv where "rcv d s \<equiv> rcv_buff (dev_ser_cb s d)"
abbreviation (input) snd' where "snd' d s \<equiv> snd_buff (dev_ser_cb s d)"

lemma upd_sel [simp]:
  "dev_ser_cb (upd_knl f s) = dev_ser_cb s" "uarts (upd_knl f s) = uarts s" "ll_devcb (upd_knl f s) = ll_devcb s"
  "kst (knl (upd_knl f s)) = f (kst (knl s))"
  "dev_ser_cb (upd_uart u g s) = dev_ser_cb s" "knl (upd_uart u g s) = knl s" "ll_devcb (upd_uart u g s) = ll_devcb s"
  "uarts (upd_uart u g s) = (uarts s)(u := g (uarts s u))"
  "uarts (upd_dcb d h s) = uarts s" "knl (upd_dcb d h s) = knl s" "ll_devcb (upd_dcb d h s) = ll_devcb s"
  "dev_ser_cb (upd_dcb d h s) = (dev_ser_cb s)(d := h (dev_ser_cb s d))"
  "dev_ser_cb (ser_clear_int c i s) = dev_ser_cb s" "uarts (ser_clear_int c i s) = uarts s" "knl (ser_clear_int c i s) = knl s"
  by (simp_all add: upd_knl_def upd_uart_def upd_dcb_def ser_clear_int_def)

lemma mask_sel [simp]:
  "dev_ser_cb (set_mask c m s) = dev_ser_cb s" "uarts (set_mask c m s) = uarts s"
  "mem (kst (knl (set_mask c m s))) = mem (kst (knl s))"
  "dev_ser_cb (snd (dev_ser_buf_lock c s)) = dev_ser_cb s" "uarts (snd (dev_ser_buf_lock c s)) = uarts s"
  "mem (kst (knl (snd (dev_ser_buf_lock c s)))) = mem (kst (knl s))"
  "dev_ser_cb (dev_ser_buf_unlock c m s) = dev_ser_cb s" "uarts (dev_ser_buf_unlock c m s) = uarts s"
  "mem (kst (knl (dev_ser_buf_unlock c m s))) = mem (kst (knl s))"
  by (simp_all add: set_mask_def dev_ser_buf_lock_def dev_ser_buf_unlock_def)

lemma get_snddat_ring:
  "dev_ser_get_snddat c u s =
    (case ring_get (snd' u s) of
       None \<Rightarrow> (s, None)
     | Some (v, b) \<Rightarrow> (upd_knl (\<lambda>k. fst (tk_set_flg c (wait_flgid (snd' u s)) 1 k)) (upd_dcb u (snd_buff_update (\<lambda>_. b)) s), Some (ucast v)))"
  by (simp add: dev_ser_get_snddat_def ring_get_def wrap_inc_def Let_def upd_dcb_def)

lemma notify_rcv_ring:
  "dev_ser_cb (dev_ser_notify_rcv c u v s) =
    (case ring_put (ucast v) (rcv u s) of
       None \<Rightarrow> (dev_ser_cb s)(u := (dev_ser_cb s u)\<lparr>com_error := com_error (dev_ser_cb s u) OR DEV_SER_ERR_ROVR\<rparr>)
     | Some b \<Rightarrow> (dev_ser_cb s)(u := (dev_ser_cb s u)\<lparr>rcv_buff := b\<rparr>))"
  "uarts (dev_ser_notify_rcv c u v s) = uarts s"
  by (simp_all add: dev_ser_notify_rcv_def dev_ser_notify_err_def ring_put_def wrap_inc_def Let_def)

subsection \<open>What the interrupt handler does\<close>

definition marked :: "nat \<Rightarrow> serst \<Rightarrow> bool" where "marked d s \<longleftrightarrow> com_error (dev_ser_cb s d) AND DEV_SER_ERR_ROVR \<noteq> 0"

text \<open>The byte that a call of the handler takes from the data register of unit \<open>d\<close>.\<close>

definition got :: "nat \<Rightarrow> UW \<Rightarrow> serst \<Rightarrow> UB list" where
  "got d intno s =
     (if (intno = INTNO_UART0 \<and> d = 0 \<or> intno = INTNO_UART1 \<and> d = 1) \<and> u_mis (uarts s d) AND UART_MIS_RX \<noteq> 0 \<and>
         u_rx (uarts s d) AND UART_DR_ERR = 0
      then [ucast (u_rx (uarts s d) AND UART_DR_DATA)] else [])"

definition rcv_eff :: "nat \<Rightarrow> UB list \<Rightarrow> serst \<Rightarrow> serst \<Rightarrow> bool" where
  "rcv_eff d vs s s' \<longleftrightarrow> buff_ok (rcv d s') \<and> sb_tail (rcv d s') = sb_tail (rcv d s) \<and> (marked d s \<longrightarrow> marked d s') \<and>
     (\<exists>acc. subseq acc vs \<and> (acc = vs \<or> marked d s') \<and> stored (rcv d s') = stored (rcv d s) @ acc)"

definition snd_eff :: "nat \<Rightarrow> serst \<Rightarrow> serst \<Rightarrow> bool" where
  "snd_eff d s s' \<longleftrightarrow> buff_ok (snd' d s') \<and> sd_unit (dev_ser_cb s' d) = sd_unit (dev_ser_cb s d) \<and>
     u_dr (uarts s' d) @ map ucast (stored (snd' d s')) = u_dr (uarts s d) @ map ucast (stored (snd' d s))"

lemma and_or_mono: "(a :: UW) AND m \<noteq> 0 \<Longrightarrow> (a OR b) AND m \<noteq> 0"
  by (metis bit.conj_disj_distrib2 or_eq_0_iff)

lemma rcv_eff_refl: "buff_ok (rcv d s) \<Longrightarrow> dev_ser_cb s' d = dev_ser_cb s d \<Longrightarrow> rcv_eff d [] s s'"
  by (auto simp: rcv_eff_def marked_def)

lemma rcv_eff_same:
  "buff_ok (rcv d s) \<Longrightarrow> rcv d s' = rcv d s \<Longrightarrow> (marked d s \<Longrightarrow> marked d s') \<Longrightarrow> rcv_eff d [] s s'"
  by (auto simp: rcv_eff_def)

lemma rcv_eff_trans:
  assumes "rcv_eff d xs s s1" "rcv_eff d ys s1 s2"
  shows "rcv_eff d (xs @ ys) s s2"
proof -
  obtain a b where "subseq a xs" "a = xs \<or> marked d s1" "stored (rcv d s1) = stored (rcv d s) @ a"
    "subseq b ys" "b = ys \<or> marked d s2" "stored (rcv d s2) = stored (rcv d s1) @ b"
    using assms unfolding rcv_eff_def by blast
  then show ?thesis using assms unfolding rcv_eff_def by (auto intro!: exI[of _ "a @ b"] list_emb_append_mono)
qed

lemma snd_eff_refl: "buff_ok (snd' d s) \<Longrightarrow> snd' d s' = snd' d s \<Longrightarrow> sd_unit (dev_ser_cb s' d) = sd_unit (dev_ser_cb s d) \<Longrightarrow>
    u_dr (uarts s' d) = u_dr (uarts s d) \<Longrightarrow> snd_eff d s s'"
  by (simp add: snd_eff_def)

lemma snd_eff_trans: "snd_eff d s s1 \<Longrightarrow> snd_eff d s1 s2 \<Longrightarrow> snd_eff d s s2"
  by (simp add: snd_eff_def)

lemma notify_err_eff:
  "buff_ok (rcv d s) \<Longrightarrow> rcv_eff d [] s (dev_ser_notify_err u e s)"
  "buff_ok (snd' d s) \<Longrightarrow> snd_eff d s (dev_ser_notify_err u e s)"
  by (auto simp: dev_ser_notify_err_def marked_def and_or_mono intro!: rcv_eff_same snd_eff_refl)

lemma notify_rcv_eff:
  assumes "buff_ok (rcv d s)"
  shows "rcv_eff d (if u = d then [ucast v] else []) s (dev_ser_notify_rcv c u v s)"
proof (cases "u = d")
  case False
  then show ?thesis using assms by (auto simp: notify_rcv_ring(1) intro!: rcv_eff_refl split: option.split)
next
  case True
  show ?thesis
  proof (cases "ring_put (ucast v) (rcv d s)")
    case None
    have "(x OR 0x80) AND (0x80 :: UW) \<noteq> 0" for x :: UW
      using and_or_mono[of "0x80" "0x80" x] by (simp add: or.commute)
    then show ?thesis using None True assms by (auto simp: rcv_eff_def notify_rcv_ring(1) marked_def intro!: exI[of _ "[]"])
  next
    case (Some b)
    then show ?thesis using True ser_ring.put_Some[OF assms Some] Some
      by (auto simp: rcv_eff_def notify_rcv_ring(1) marked_def ring_put_def split: if_splits)
  qed
qed

lemma notify_rcv_snd: "buff_ok (snd' d s) \<Longrightarrow> snd_eff d s (dev_ser_notify_rcv c u v s)"
  by (rule snd_eff_refl) (auto simp: notify_rcv_ring split: option.split)

lemma tx_part_eff:
  "buff_ok (rcv d s) \<Longrightarrow> rcv_eff d [] s (tx_part c u s)"
  "buff_ok (snd' d s) \<Longrightarrow> snd_eff d s (tx_part c u s)"
proof -
  show "buff_ok (rcv d s) \<Longrightarrow> rcv_eff d [] s (tx_part c u s)"
    by (rule rcv_eff_same) (auto simp: tx_part_def get_snddat_ring marked_def split: option.split)
  assume ok: "buff_ok (snd' d s)"
  show "snd_eff d s (tx_part c u s)"
  proof (cases "ring_get (snd' u s)")
    case None
    then show ?thesis using ok by (intro snd_eff_refl) (auto simp: tx_part_def get_snddat_ring)
  next
    case (Some a)
    then obtain v b where a: "ring_get (snd' u s) = Some (v, b)" by (cases a) auto
    then show ?thesis using ok ser_ring.get_Some[of "snd' d s" v b] by (cases "u = d") (auto simp: tx_part_def get_snddat_ring snd_eff_def)
  qed
qed

lemma inthdr_eff:
  "buff_ok (rcv d s) \<Longrightarrow> rcv_eff d (got d intno s) s (usart_inthdr c intno s)"
  "buff_ok (snd' d s) \<Longrightarrow> snd_eff d s (usart_inthdr c intno s)"
proof -
  define u :: nat where "u = (if intno = INTNO_UART0 then 0 else 1)"
  define s0 where "s0 = ser_clear_int c intno (upd_uart u (\<lambda>U. U\<lparr>u_icr := - 1\<rparr>) (snd (dev_ser_buf_lock c s)))"
  define s1 where "s1 = (if u_mis (uarts s u) AND UART_MIS_RX \<noteq> 0 then rx_part c u s0 else s0)"
  define s2 where "s2 = (if u_mis (uarts s u) AND UART_MIS_TX \<noteq> 0 then tx_part c u s1 else s1)"
  define s3 where "s3 = (if u_mis (uarts s u) AND UART_MIS_BE \<noteq> 0 then dev_ser_notify_err u DEV_SER_ERR_BE s2 else s2)"
  have hd: "usart_inthdr c intno s = (if intno \<noteq> INTNO_UART0 \<and> intno \<noteq> INTNO_UART1 then ser_clear_int c intno s
      else dev_ser_buf_unlock c (fst (dev_ser_buf_lock c s)) s3)"
    unfolding usart_inthdr_def s3_def s2_def s1_def s0_def u_def Let_def case_prod_unfold mask_sel by (rule refl)
  have cb0: "dev_ser_cb s0 = dev_ser_cb s" "u_rx (uarts s0 u) = u_rx (uarts s u)" "u_dr (uarts s0 d) = u_dr (uarts s d)"
    by (simp_all add: s0_def)
  show "rcv_eff d (got d intno s) s (usart_inthdr c intno s)" if ok: "buff_ok (rcv d s)"
  proof (cases "intno \<noteq> INTNO_UART0 \<and> intno \<noteq> INTNO_UART1")
    case True
    then show ?thesis using ok by (auto simp: hd got_def intro!: rcv_eff_refl)
  next
    case False
    then have g: "got d intno s = (if u = d \<and> u_mis (uarts s u) AND UART_MIS_RX \<noteq> 0 \<and> u_rx (uarts s u) AND UART_DR_ERR = 0
        then [ucast (u_rx (uarts s u) AND UART_DR_DATA)] else [])"
      by (auto simp: got_def u_def)
    have "rcv_eff d [] s s0" using ok cb0 by (intro rcv_eff_refl) simp_all
    moreover have ok0: "buff_ok (rcv d s0)" using ok cb0 by simp
    have "rcv_eff d (got d intno s) s0 s1"
      using notify_rcv_eff[OF ok0, of u _ c] notify_err_eff(1)[OF ok0] rcv_eff_refl[OF ok0 refl]
      unfolding g s1_def rx_part_def cb0(2) Let_def by (cases "u = d") simp_all
    moreover from this have ok1: "buff_ok (rcv d s1)" by (simp add: rcv_eff_def)
    then have "rcv_eff d [] s1 s2" using tx_part_eff(1) rcv_eff_refl by (simp add: s2_def)
    moreover from this have ok2: "buff_ok (rcv d s2)" by (simp add: rcv_eff_def)
    then have "rcv_eff d [] s2 s3" using notify_err_eff(1) rcv_eff_refl by (simp add: s3_def)
    ultimately have "rcv_eff d ([] @ got d intno s @ [] @ []) s s3" by (intro rcv_eff_trans)
    then have e: "rcv_eff d (got d intno s) s s3" by simp
    then have "rcv_eff d [] s3 (dev_ser_buf_unlock c (fst (dev_ser_buf_lock c s)) s3)" by (intro rcv_eff_refl) (simp_all add: rcv_eff_def)
    from rcv_eff_trans[OF e this] show ?thesis using False by (auto simp: hd)
  qed
  show "snd_eff d s (usart_inthdr c intno s)" if ok: "buff_ok (snd' d s)"
  proof (cases "intno \<noteq> INTNO_UART0 \<and> intno \<noteq> INTNO_UART1")
    case True
    then show ?thesis using ok by (auto simp: hd intro!: snd_eff_refl)
  next
    case False
    have a: "snd_eff d s s0" using ok cb0 by (intro snd_eff_refl) simp_all
    then have b: "snd_eff d s0 s1"
      using notify_rcv_snd notify_err_eff(2) snd_eff_refl[of s0 d s0] by (auto simp: s1_def rx_part_def Let_def snd_eff_def)
    then have c: "snd_eff d s1 s2" using tx_part_eff(2)[of s1 d] snd_eff_refl[of s1 d s1] by (auto simp: s2_def snd_eff_def)
    then have e: "snd_eff d s2 s3" using notify_err_eff(2)[of s2 d] snd_eff_refl[of s2 d s2] by (auto simp: s3_def snd_eff_def)
    then have "snd_eff d s3 (dev_ser_buf_unlock c (fst (dev_ser_buf_lock c s)) s3)" by (intro snd_eff_refl) (simp_all add: snd_eff_def)
    from snd_eff_trans[OF a snd_eff_trans[OF b snd_eff_trans[OF c snd_eff_trans[OF e this]]]] show ?thesis using False by (auto simp: hd)
  qed
qed

subsection \<open>Reading\<close>

text \<open>The bytes that a step hands over to the caller.\<close>

definition taken :: "iost \<Rightarrow> iost \<Rightarrow> serst \<Rightarrow> UB list" where
  "taken l l' s' = (if io_rest l' = io_rest l then [] else [mem (kst (knl s')) (io_pd l)])"

text \<open>
  The runs of a call that reads, with the bytes that arrived and those handed over so far. Between its steps the handler of any interrupt
  runs, or anything else that leaves the ring of received bytes and the error word alone.
\<close>

inductive rcv_run :: "nat \<Rightarrow> UW \<Rightarrow> nat \<Rightarrow> iost \<Rightarrow> serst \<Rightarrow> iost \<Rightarrow> serst \<Rightarrow> UB list \<Rightarrow> UB list \<Rightarrow> bool"
  for t p d l0 s0 where
  rcv_start: "rcv_run t p d l0 s0 l0 s0 [] []"
| rcv_int: "rcv_run t p d l0 s0 l s arr del \<Longrightarrow> rcv_run t p d l0 s0 l (usart_inthdr c intno s) (arr @ got d intno s) del"
| rcv_other: "rcv_run t p d l0 s0 l s arr del \<Longrightarrow> rcv d s' = rcv d s \<Longrightarrow> com_error (dev_ser_cb s' d) = com_error (dev_ser_cb s d) \<Longrightarrow>
    rcv_run t p d l0 s0 l s' arr del"
| rcv_task: "rcv_run t p d l0 s0 l s arr del \<Longrightarrow> (l', s') = read_step t p d c l s \<Longrightarrow>
    rcv_run t p d l0 s0 l' s' arr (del @ taken l l' s')"

lemma wait_step_frame:
  "dev_ser_cb (snd (wait_step c f tmo p l s)) = dev_ser_cb s" "uarts (snd (wait_step c f tmo p l s)) = uarts s"
  "io_tail (fst (wait_step c f tmo p l s)) = io_tail l" "io_rest (fst (wait_step c f tmo p l s)) = io_rest l"
  by (simp_all add: wait_step_def after_wait_def split: prod.split sysret.split)

lemma read_pass_ring:
  assumes "io_tail l = sb_tail (rcv d s)"
  shows "read_pass c d l s =
    (let (m, s) = dev_ser_buf_lock c s
     in case ring_get (rcv d s) of
          None \<Rightarrow> (l\<lparr>io_pc := P_Wait\<rparr>, dev_ser_buf_unlock c m (no_data c (wait_flgid (rcv d s)) s))
        | Some (v, b) \<Rightarrow>
            (l\<lparr>io_tail := sb_tail b, io_pd := io_pd l + 1, io_rest := io_rest l - 1\<rparr>,
             dev_ser_buf_unlock c m (upd_dcb d (\<lambda>D. D\<lparr>rcv_buff := b\<rparr>) (upd_knl (\<lambda>k. k\<lparr>mem := (mem k)(io_pd l := v)\<rparr>) s))))"
  using assms by (simp add: read_pass_def ring_get_def case_prod_unfold Let_def upd_dcb_def)

lemma read_step_eff:
  assumes ok: "buff_ok (rcv d s)" and tail: "io_tail l = sb_tail (rcv d s)" and st: "(l', s') = read_step t p d c l s"
  shows "buff_ok (rcv d s') \<and> io_tail l' = sb_tail (rcv d s') \<and> com_error (dev_ser_cb s' d) = com_error (dev_ser_cb s d) \<and>
    stored (rcv d s) = taken l l' s' @ stored (rcv d s') \<and> io_rest l' = io_rest l - int (length (taken l l' s'))"
proof (cases "io_pc l = P_Loop \<and> io_rest l \<noteq> 0")
  case True
  then have st: "(l', s') = read_pass c d l s" using st by (simp add: read_step_def)
  define m s1 where "m = fst (dev_ser_buf_lock c s)" and "s1 = snd (dev_ser_buf_lock c s)"
  have s1: "dev_ser_cb s1 = dev_ser_cb s" by (simp add: s1_def)
  note rp = st[unfolded read_pass_ring[OF tail], folded m_def s1_def, unfolded Let_def case_prod_unfold, folded m_def s1_def]
  show ?thesis
  proof (cases "ring_get (rcv d s)")
    case None
    then show ?thesis using rp s1 ok tail by (simp add: taken_def no_data_def)
  next
    case (Some a)
    obtain v b where a: "ring_get (rcv d s) = Some (v, b)" using Some by (cases a) auto
    then have "l' = l\<lparr>io_tail := sb_tail b, io_pd := io_pd l + 1, io_rest := io_rest l - 1\<rparr>" "dev_ser_cb s' d = (dev_ser_cb s d)\<lparr>rcv_buff := b\<rparr>"
      "mem (kst (knl s')) (io_pd l) = v" using rp s1 by simp_all
    then show ?thesis using ser_ring.get_Some[OF ok a] by (simp add: taken_def)
  qed
next
  case False
  then have "dev_ser_cb s' = dev_ser_cb s \<and> io_tail l' = io_tail l \<and> io_rest l' = io_rest l"
    using st wait_step_frame by (cases "io_pc l") (auto simp: read_step_def after_wait_def Let_def prod_eq_iff)
  then show ?thesis using ok tail by (simp add: taken_def)
qed

text \<open>
  C26. Received data arrives in order and is lost only with a mark. In every run of a call that reads, under any interleaving with the
  interrupt handler, what was in the ring at its start, followed by the bytes that the UART received meanwhile (all of them, or the overflow mark is
  set in the error word), is exactly what the call has handed over, in that order, followed by what is in the ring; and the call has counted what it handed over.
\<close>
theorem received_in_order:
  assumes "rcv_run t p d l0 s0 l s arr del" "buff_ok (rcv d s0)" "io_tail l0 = sb_tail (rcv d s0)"
  shows "\<exists>acc. subseq acc arr \<and> (acc = arr \<or> marked d s) \<and> stored (rcv d s0) @ acc = del @ stored (rcv d s) \<and>
    length (stored (rcv d s)) < DEVCONF_SER_BUFFSIZE \<and> io_rest l = io_rest l0 - int (length del)"
proof -
  from assms have "buff_ok (rcv d s) \<and> io_tail l = sb_tail (rcv d s) \<and> io_rest l = io_rest l0 - int (length del) \<and>
    (\<exists>acc. subseq acc arr \<and> (acc = arr \<or> marked d s) \<and> stored (rcv d s0) @ acc = del @ stored (rcv d s))"
  proof (induction rule: rcv_run.induct)
    case (rcv_int l s arr del c intno)
    then have "rcv_eff d (got d intno s) s (usart_inthdr c intno s)" by (simp add: inthdr_eff(1))
    then obtain b where b: "subseq b (got d intno s)" "b = got d intno s \<or> marked d (usart_inthdr c intno s)"
      "stored (rcv d (usart_inthdr c intno s)) = stored (rcv d s) @ b" "marked d s \<longrightarrow> marked d (usart_inthdr c intno s)"
      "buff_ok (rcv d (usart_inthdr c intno s))" "sb_tail (rcv d (usart_inthdr c intno s)) = sb_tail (rcv d s)"
      unfolding rcv_eff_def by blast
    obtain a where "subseq a arr" "a = arr \<or> marked d s" "stored (rcv d s0) @ a = del @ stored (rcv d s)" using rcv_int by blast
    then show ?case using b rcv_int by (auto intro!: exI[of _ "a @ b"] list_emb_append_mono)
  next
    case (rcv_task l s arr del l' s' c)
    then have "buff_ok (rcv d s)" "io_tail l = sb_tail (rcv d s)" by simp_all
    from read_step_eff[OF this rcv_task(2)] show ?case using rcv_task by (auto simp: marked_def)
  qed (auto simp: marked_def)
  then show ?thesis using count_less[of "rcv d s"] by (auto simp: stored_def)
qed

subsection \<open>Writing\<close>

definition given :: "iost \<Rightarrow> iost \<Rightarrow> serst \<Rightarrow> UB list" where
  "given l l' s = (if io_rest l' = io_rest l then [] else [mem (kst (knl s)) (io_pd l)])"

inductive snd_run :: "nat \<Rightarrow> UW \<Rightarrow> nat \<Rightarrow> iost \<Rightarrow> serst \<Rightarrow> iost \<Rightarrow> serst \<Rightarrow> UB list \<Rightarrow> bool"
  for t p d l0 s0 where
  snd_start: "snd_run t p d l0 s0 l0 s0 []"
| snd_int: "snd_run t p d l0 s0 l s wr \<Longrightarrow> snd_run t p d l0 s0 l (usart_inthdr c intno s) wr"
| snd_other: "snd_run t p d l0 s0 l s wr \<Longrightarrow> snd' d s' = snd' d s \<Longrightarrow> u_dr (uarts s' d) = u_dr (uarts s d) \<Longrightarrow>
    sd_unit (dev_ser_cb s' d) = sd_unit (dev_ser_cb s d) \<Longrightarrow> snd_run t p d l0 s0 l s' wr"
| snd_task: "snd_run t p d l0 s0 l s wr \<Longrightarrow> (l', s') = write_step t p d c l s \<Longrightarrow> snd_run t p d l0 s0 l' s' (wr @ given l l' s)"

lemma write_step_eff:
  assumes ok: "buff_ok (snd' d s)" and un: "sd_unit (dev_ser_cb s d) = d" and st: "(l', s') = write_step t p d c l s"
  shows "buff_ok (snd' d s') \<and> sd_unit (dev_ser_cb s' d) = d \<and> io_rest l' = io_rest l - int (length (given l l' s)) \<and>
    u_dr (uarts s' d) @ map ucast (stored (snd' d s')) = u_dr (uarts s d) @ map ucast (stored (snd' d s)) @ map ucast (given l l' s)"
proof (cases "io_pc l = P_Loop \<and> io_rest l \<noteq> 0")
  case True
  then have st: "(l', s') = write_pass c d l s" using st by (simp add: write_step_def)
  define v where "v = mem (kst (knl s)) (io_pd l)"
  show ?thesis
  proof (cases "ring_put v (snd' d s)")
    case None
    then show ?thesis using st ok un by (simp add: write_pass_def ring_put_def case_prod_unfold Let_def given_def no_data_def split: if_splits)
  next
    case (Some b)
    note put = ser_ring.put_Some[OF ok Some]
    have ne: "wrap_inc (sb_top (snd' d s)) \<noteq> sb_tail (snd' d s)" using Some by (auto simp: ring_put_def)
    have b: "b = (snd' d s)\<lparr>sb_data := (sb_data (snd' d s))[unat (sb_top (snd' d s)) := v], sb_top := wrap_inc (sb_top (snd' d s))\<rparr>"
      using Some ne by (simp add: ring_put_def)
    have l': "l' = l\<lparr>io_pd := io_pd l + 1, io_rest := io_rest l - 1\<rparr>" using st ne by (simp add: write_pass_def case_prod_unfold Let_def)
    then have g: "given l l' s = [v]" by (simp add: given_def v_def)
    show ?thesis
    proof (cases "sb_top (snd' d s) = sb_tail (snd' d s) \<and> u_fr (uarts s d) AND UART_FR_TXFF = 0")
      case True
      then have "dev_ser_cb s' = dev_ser_cb s" "u_dr (uarts s' d) = u_dr (uarts s d) @ [ucast v]" "stored (snd' d s) = []"
        using st ne un ok stored_Nil[OF ok] by (simp_all add: write_pass_def case_prod_unfold Let_def send_data_def v_def)
      then show ?thesis using ok un g l' by simp
    next
      case False
      then have "dev_ser_cb s' d = (dev_ser_cb s d)\<lparr>snd_buff := b\<rparr>" "u_dr (uarts s' d) = u_dr (uarts s d)"
        using st ne un by (auto simp: write_pass_def case_prod_unfold Let_def send_data_def v_def b)
      then show ?thesis using put un g l' by simp
    qed
  qed
next
  case False
  then have "dev_ser_cb s' = dev_ser_cb s \<and> uarts s' = uarts s \<and> io_rest l' = io_rest l"
    using st wait_step_frame by (cases "io_pc l") (auto simp: write_step_def after_wait_def Let_def prod_eq_iff)
  then show ?thesis using ok un by (simp add: given_def)
qed

text \<open>
  C27. What is written is sent in order. In every run of a call that writes, under any interleaving with the interrupt handler, the bytes that
  have gone to the data register of the UART followed by the ring are what they were at its start, followed by the bytes that
  the call has accepted: none is lost, doubled or overtaken by one that goes to the UART directly.
\<close>
theorem sent_in_order:
  assumes "snd_run t p d l0 s0 l s wr" "buff_ok (snd' d s0)" "sd_unit (dev_ser_cb s0 d) = d"
  shows "u_dr (uarts s d) @ map ucast (stored (snd' d s)) = u_dr (uarts s0 d) @ map ucast (stored (snd' d s0)) @ map ucast wr \<and>
    io_rest l = io_rest l0 - int (length wr)"
proof -
  from assms have "buff_ok (snd' d s) \<and> sd_unit (dev_ser_cb s d) = d \<and> io_rest l = io_rest l0 - int (length wr) \<and>
    u_dr (uarts s d) @ map ucast (stored (snd' d s)) = u_dr (uarts s0 d) @ map ucast (stored (snd' d s0)) @ map ucast wr"
  proof (induction rule: snd_run.induct)
    case (snd_int l s wr c intno)
    then have "snd_eff d s (usart_inthdr c intno s)" by (simp add: inthdr_eff(2))
    then show ?case using snd_int by (simp add: snd_eff_def)
  next
    case (snd_task l s wr l' s' c)
    then have "buff_ok (snd' d s)" "sd_unit (dev_ser_cb s d) = d" by simp_all
    from write_step_eff[OF this snd_task(2)] show ?case using snd_task by simp
  qed auto
  then show ?thesis by blast
qed

subsection \<open>A reader is not left waiting\<close>

lemma clr_flg_eq:
  "CHK_FLGID f \<Longrightarrow> flgid (flg k (get_flgcb f)) \<noteq> 0 \<Longrightarrow>
   fst (tk_clr_flg c f 0 k) = END_CRITICAL_SECTION c (upd_flg (get_flgcb f) (\<lambda>F. F\<lparr>flgptn := 0\<rparr>) k)"
  by (simp add: tk_clr_flg_def Let_def)

lemma set_flg_eq:
  "CHK_FLGID f \<Longrightarrow> flgid (flg k (get_flgcb f)) \<noteq> 0 \<Longrightarrow> que k (FlgQ (get_flgcb f)) = [] \<Longrightarrow>
   fst (tk_set_flg c f 1 k) = END_CRITICAL_SECTION c (upd_flg (get_flgcb f) (\<lambda>F. F\<lparr>flgptn := flgptn F OR 1\<rparr>) k)"
  by (simp add: tk_set_flg_def Let_def)

lemma wai_flg_ready:
  assumes "CHK_FLGID f" "flgid (flg k (get_flgcb f)) \<noteq> 0" "que k (FlgQ (get_flgcb f)) = []" "flgptn (flg k (get_flgcb f)) AND 1 \<noteq> 0"
    "- 1 \<le> tmo" "\<not> in_ddsp c k"
  shows "snd (tk_wai_flg c f 1 (TWF_ORW OR TWF_BITCLR) p tmo k) = Ret E_OK"
  using assms by (simp add: tk_wai_flg_def wai_flg_cs_def knl_eventflag_cond_def Let_def case_prod_unfold)

definition flag_free :: "int \<Rightarrow> kstate \<Rightarrow> bool" where
  "flag_free f k \<longleftrightarrow> CHK_FLGID f \<and> flgid (flg k (get_flgcb f)) \<noteq> 0 \<and> que k (FlgQ (get_flgcb f)) = []"

lemma mask_knl: "kst (knl (set_mask c m s)) = (kst (knl s))\<lparr>smp := (smp (kst (knl s)))\<lparr>primask := (primask (smp (kst (knl s))))(c := m)\<rparr>\<rparr>"
  by (simp add: set_mask_def)

lemma no_data_flag:
  assumes f: "flag_free f (kst (knl s))" and m: "m = fst (dev_ser_buf_lock c s)"
  defines "s1 \<equiv> dev_ser_buf_unlock c m (no_data c f (snd (dev_ser_buf_lock c s)))"
  shows "flag_free f (kst (knl s1)) \<and> (\<forall>c'. in_ddsp c' (kst (knl s1)) = in_ddsp c' (kst (knl s)))"
proof -
  define k0 where "k0 = kst (knl (snd (dev_ser_buf_lock c s)))"
  have k0: "k0 = (kst (knl s))\<lparr>smp := (smp (kst (knl s)))\<lparr>primask := (primask (smp (kst (knl s))))(c := True)\<rparr>\<rparr>"
    by (simp add: k0_def dev_ser_buf_lock_def mask_knl)
  have f0: "CHK_FLGID f" "flgid (flg k0 (get_flgcb f)) \<noteq> 0" using f by (simp_all add: flag_free_def k0)
  have n: "kst (knl (no_data c f (snd (dev_ser_buf_lock c s)))) = END_CRITICAL_SECTION c (upd_flg (get_flgcb f) (\<lambda>F. F\<lparr>flgptn := 0\<rparr>) k0)"
    unfolding no_data_def upd_sel k0_def[symmetric] by (rule clr_flg_eq[OF f0])
  have k1: "kst (knl s1) = (END_CRITICAL_SECTION c (upd_flg (get_flgcb f) (\<lambda>F. F\<lparr>flgptn := 0\<rparr>) k0))
      \<lparr>smp := (end_cs c (smp k0))\<lparr>primask := primask (smp (kst (knl s)))\<rparr>\<rparr>"
    unfolding s1_def dev_ser_buf_unlock_def mask_knl n using k0 m by (simp add: END_CRITICAL_SECTION_def dev_ser_buf_lock_def)
  show ?thesis using f by (simp add: k1 flag_free_def k0 END_CRITICAL_SECTION_def in_ddsp_def in_indp_def knl_isTaskIndependent_def)
qed

lemma notify_flag:
  fixes c :: nat and v :: UW
  assumes f: "flag_free f (kst (knl s))" and fid: "f = wait_flgid (rcv u s)"
  defines "s1 \<equiv> dev_ser_notify_rcv c u v s"
  shows "flag_free f (kst (knl s1)) \<and> flgptn (flg (kst (knl s1)) (get_flgcb f)) AND 1 \<noteq> 0 \<and> (\<forall>c'. in_ddsp c' (kst (knl s1)) = in_ddsp c' (kst (knl s)))"
proof -
  let ?k = "kst (knl s)"
  have f': "CHK_FLGID f" "flgid (flg ?k (get_flgcb f)) \<noteq> 0" "que ?k (FlgQ (get_flgcb f)) = []" using f by (simp_all add: flag_free_def)
  have "kst (knl s1) = fst (tk_set_flg c f 1 ?k)"
    by (simp add: s1_def dev_ser_notify_rcv_def dev_ser_notify_err_def fid Let_def)
  then have k1: "kst (knl s1) = END_CRITICAL_SECTION c (upd_flg (get_flgcb f) (\<lambda>F. F\<lparr>flgptn := flgptn F OR 1\<rparr>) ?k)"
    using set_flg_eq[OF f'] by simp
  have "(x OR 1) AND (1 :: UW) \<noteq> 0" for x using and_or_mono[of 1 1 x] by (simp add: or.commute)
  then show ?thesis using f by (simp add: k1 flag_free_def END_CRITICAL_SECTION_def in_ddsp_def in_indp_def knl_isTaskIndependent_def)
qed

text \<open>
  C28. A reader is not left waiting. When a reader finds the ring empty and a byte is received before it gets to the call that waits, that call
  returns at once without an error, and the next pass hands over the byte: the flag is cleared under the lock under which the ring was found empty.
\<close>
theorem reader_not_left_waiting:
  assumes "buff_ok (rcv d s)" "io_tail l = sb_tail (rcv d s)" "flag_free (wait_flgid (rcv d s)) (kst (knl s))"
    and "- 1 \<le> rcv_tmo (dev_ser_cb s d)" "\<not> in_ddsp c3 (kst (knl s))"
    and "io_pc l = P_Loop" "(l1, s1) = read_step t p d c1 l s" "io_pc l1 = P_Wait"
    and "s2 = dev_ser_notify_rcv c2 d v s1" "(l3, s3) = read_step t p d c3 l1 s2" "(l4, s4) = read_step t p d c4 l3 s3"
  shows "io_pc l3 = P_Loop \<and> io_err l3 = E_OK \<and> taken l3 l4 s4 = [ucast v]"
proof -
  let ?f = "wait_flgid (rcv d s)"
  define m where "m = fst (dev_ser_buf_lock c1 s)"
  have rest: "io_rest l \<noteq> 0" using assms(6-8) by (auto simp: read_step_def)
  then have rp: "(l1, s1) = read_pass c1 d l s" using assms(6,7) by (simp add: read_step_def)
  have em: "ring_get (rcv d s) = None"
    using rp assms(6,8) unfolding read_pass_ring[OF assms(2)] by (auto simp: case_prod_unfold Let_def split: option.splits)
  then have 1: "l1 = l\<lparr>io_pc := P_Wait\<rparr>" "s1 = dev_ser_buf_unlock c1 m (no_data c1 ?f (snd (dev_ser_buf_lock c1 s)))"
    using rp unfolding read_pass_ring[OF assms(2)] m_def by (simp_all add: case_prod_unfold Let_def)
  then have cb1: "dev_ser_cb s1 = dev_ser_cb s" by (simp add: no_data_def)
  from no_data_flag[OF assms(3) m_def] have k1: "flag_free ?f (kst (knl s1))" "in_ddsp c3 (kst (knl s1)) = in_ddsp c3 (kst (knl s))"
    by (simp_all add: 1(2))
  from notify_flag[where c = c2 and v = v, OF k1(1), of d] have k2: "flag_free ?f (kst (knl s2))" "flgptn (flg (kst (knl s2)) (get_flgcb ?f)) AND 1 \<noteq> 0"
    "in_ddsp c3 (kst (knl s2)) = in_ddsp c3 (kst (knl s))" using cb1 k1(2) by (simp_all add: assms(9))
  have s0: "stored (rcv d s) = []" using em ser_ring.get_None[OF assms(1)] by simp
  then obtain b where b: "ring_put (ucast v) (rcv d s) = Some b" "buff_ok b" "stored b = [ucast v]"
    using ser_ring.put_room[OF assms(1), of "ucast v"] by auto
  then have cb2: "dev_ser_cb s2 d = (dev_ser_cb s d)\<lparr>rcv_buff := b\<rparr>" and bf: "wait_flgid b = ?f" "sb_tail b = sb_tail (rcv d s)"
    using cb1 by (auto simp: assms(9) notify_rcv_ring(1) ring_put_def split: if_splits)
  have "snd (tk_wai_flg c3 ?f 1 (TWF_ORW OR TWF_BITCLR) p (rcv_tmo (dev_ser_cb s d)) (kst (knl s2))) = Ret E_OK"
    using k2 assms(4,5) by (intro wai_flg_ready) (simp_all add: flag_free_def)
  then have "l3 = after_wait E_OK l1" "dev_ser_cb s3 = dev_ser_cb s2"
    using assms(10) 1(1) cb2 bf(1) by (auto simp: read_step_def wait_step_def Let_def prod_eq_iff split: prod.splits sysret.splits)
  then have 3: "l3 = l\<lparr>io_pc := P_Loop, io_err := E_OK\<rparr>" "rcv d s3 = b" using 1(1) cb2 by (simp_all add: after_wait_def)
  have 4: "buff_ok (rcv d s3)" "io_tail l3 = sb_tail (rcv d s3)" using 3 b bf assms(2) by simp_all
  have "io_rest l4 \<noteq> io_rest l3"
  proof -
    obtain w b' where w: "ring_get (rcv d s3) = Some (w, b')" using ser_ring.get_some[OF 4(1), of "ucast v" "[]"] b 3 by auto
    have "(l4, s4) = read_pass c4 d l3 s3" using assms(11) 3 rest by (simp add: read_step_def)
    then show ?thesis unfolding read_pass_ring[OF 4(2)] using w by (simp add: case_prod_unfold Let_def)
  qed
  then have "taken l3 l4 s4 \<noteq> []" by (simp add: taken_def)
  moreover have "[ucast v] = taken l3 l4 s4 @ stored (rcv d s4)" using read_step_eff[OF 4 assms(11)] 3 b by simp
  ultimately have "taken l3 l4 s4 = [ucast v]" by (auto simp: Cons_eq_append_conv)
  then show ?thesis using 3 by simp
qed

subsection \<open>Baud rate, attributes and free space\<close>

text \<open>
  The divisor of the baud rate. A speed of 0 has no divisor: the code divides by it. For speeds from 120 to 7812500 bit/s the integer and the fractional
  part of the divisor together are half the quotient, rounded up, and the integer part is in its range; the fractional part is 64, which does not
  fit into its register of six bits, exactly when the quotient leaves 127 modulo 128.
\<close>
theorem baud_rate_divisor:
  assumes "120 \<le> speed" "speed \<le> 7812500"
  shows "baud_regs 0 = None \<and> (\<exists>ibrd fbrd. baud_regs speed = Some (ibrd, fbrd) \<and> 1 \<le> unat ibrd \<and> unat ibrd < 65535 \<and>
    64 * unat ibrd + unat fbrd = (1000000000 div unat speed + 1) div 2 \<and> unat fbrd \<le> 64 \<and>
    (unat fbrd = 64 \<longleftrightarrow> 1000000000 div unat speed mod 128 = 127))"
proof -
  define r where "r = 8 * CLK_PERI_FREQ div speed"
  define n where "n = 1000000000 div unat speed"
  have s: "120 \<le> unat speed" "unat speed \<le> 7812500" using assms by (simp_all add: word_le_nat_alt)
  have rn: "unat r = n" by (simp add: r_def n_def unat_div CLK_PERI_FREQ_def)
  have n: "128 \<le> n" "n \<le> 8333333"
    using s div_le_mono2[of 120 "unat speed" 1000000000] div_le_mono2[of "unat speed" 7812500 1000000000] by (simp_all add: n_def)
  define ib fb where "ib = drop_bit 7 r" and "fb = ((r AND 0x7f) + 1) div 2"
  have ib: "unat ib = n div 128" by (simp add: ib_def unat_drop_bit_eq drop_bit_eq_div unat_div rn)
  have m: "unat (r AND 0x7f) = n mod 128"
  proof -
    have "r AND 0x7f = take_bit 7 r" by (simp add: take_bit_eq_mask mask_eq_exp_minus_1)
    then show ?thesis by (simp add: unat_mod take_bit_eq_mod rn)
  qed
  have "unat ((r AND 0x7f) + 1) = n mod 128 + 1" by (simp add: unat_word_ariths m)
  then have fb: "unat fb = (n mod 128 + 1) div 2" by (simp add: fb_def unat_div)
  have "speed \<noteq> 0" "ib \<noteq> 0" "\<not> ib \<ge> 65535" using s n ib by (auto simp: word_le_nat_alt)
  then have "baud_regs speed = Some (ib, fb)" by (simp add: baud_regs_def Let_def r_def ib_def fb_def)
  moreover have "(128 * q + k + 1) div 2 = 64 * q + (k + 1) div 2" for q k :: nat by presburger
  from this[of "n div 128" "n mod 128"] have "64 * (n div 128) + (n mod 128 + 1) div 2 = (n + 1) div 2" by simp
  moreover have "(k + 1) div 2 \<le> 64 \<and> ((k + 1) div 2 = 64 \<longleftrightarrow> k = 127)" if "k < 128" for k :: nat using that by presburger
  from this[of "n mod 128"] have "(n mod 128 + 1) div 2 \<le> 64" "(n mod 128 + 1) div 2 = 64 \<longleftrightarrow> n mod 128 = 127" by simp_all
  ultimately show ?thesis using n unfolding n_def[symmetric]
    by (intro conjI exI[of _ ib] exI[of _ fb]) (auto simp: ib fb baud_regs_def)
qed

theorem baud_rate_divisor_witness:
  "baud_regs 115200 = Some (67, 52) \<and> (\<exists>ibrd fbrd. baud_regs 3921568 = Some (ibrd, fbrd) \<and> unat fbrd = 64)"
  using baud_rate_divisor[of "115200"] baud_rate_divisor[of "3921568"] by (auto simp: baud_regs_def CLK_PERI_FREQ_def)

lemma put_get_word [simp]: "get_word q (put_word q v s) = v"
  by (simp add: get_word_def put_word_def)

text \<open>
  Attributes. What is written to the attributes for the event buffer, the mode, the speed and the two timeouts is what is read from them afterwards. Sending a break,
  which the driver's interface lists as an attribute that can be written, is refused as a wrong parameter.
\<close>
theorem attributes_roundtrip:
  assumes "dr_start r \<in> {TDN_EVENT, TDN_SER_MODE, TDN_SER_SPEED, TDN_SER_SNDTMO, TDN_SER_RCVTMO}" "dr_size r \<noteq> 0"
    and "dr_start r' = dr_start r" "dr_size r' \<noteq> 0" "dr_start q = TDN_SER_BREAK"
  shows "\<exists>s1 s2. dev_ser_writefn c t p d E r s = Some (s1, r\<lparr>dr_asize := 4\<rparr>, E_OK) \<and>
    dev_ser_readfn c t p d E r' s1 = Some (s2, r'\<lparr>dr_asize := 4\<rparr>, E_OK) \<and> get_word (dr_buf r') s2 = get_word (dr_buf r) s \<and>
    dev_ser_writefn c t p d E q s = Some (s, q, E_PAR)"
proof -
  have "\<not> 0 \<le> dr_start r" "\<not> 0 \<le> dr_start r'" using assms by auto
  then show ?thesis using assms
    by (auto simp: dev_ser_writefn_def dev_ser_readfn_def write_atr_def read_atr_def set_atr_size_def Let_def dev_ser_llctl_def)
qed

text \<open>
  The free space is overstated. With 49 bytes in the ring, which is all it takes, asking for the number of writable bytes gives 1,
  and writing one byte then has to wait.
\<close>
theorem write_room_overstated:
  assumes "buff_ok (snd' d s)" "length (stored (snd' d s)) = 49" "dr_size r = 0" "io_pc l = P_Loop" "io_rest l = 1"
  shows "write_data t p d E r s = Some (s, r\<lparr>dr_asize := 1\<rparr>, E_OK) \<and>
    io_pc (fst (write_step t p d c l s)) = P_Wait \<and> io_rest (fst (write_step t p d c l s)) = 1"
proof -
  have "wrap_inc (sb_top (snd' d s)) = sb_tail (snd' d s)" using assms(1,2) by (simp add: stored_full)
  then show ?thesis using assms buff_count[OF assms(1)]
    by (simp add: write_data_def size_50 write_step_def write_pass_def case_prod_unfold Let_def)
qed

text \<open>
  Opening makes the state that the other theorems start from: both rings are sound and empty, and the UART runs with the divisor of the configured speed,
  with only the interrupts for reception and break enabled.
\<close>
theorem open_starts_communication:
  assumes "length (sb_data (snd' d s)) = B" "length (sb_data (rcv d s)) = B" "sd_unit (dev_ser_cb s d) = d"
    and "baud_regs (ll_speed (ll_devcb s d)) = Some (ib, fb)"
  shows "\<exists>s'. dev_ser_openfn c om d s = Some (s', E_OK) \<and> buff_ok (snd' d s') \<and> buff_ok (rcv d s') \<and>
    stored (snd' d s') = [] \<and> stored (rcv d s') = [] \<and> sd_unit (dev_ser_cb s' d) = d \<and>
    u_cr (uarts s' d) = 0x301 \<and> u_imsc (uarts s' d) = 0x210 \<and> u_ibrd (uarts s' d) = ib \<and> u_fbrd (uarts s' d) = fb \<and>
    u_lcr_h (uarts s' d) = ll_mode (ll_devcb s d)"
proof -
  have ll: "ll_devcb (ser_clear_int c i x) = ll_devcb x" for i x by (simp add: ser_clear_int_def)
  have e: "buff_ok b \<and> stored b = []" if "sb_top b = 0" "sb_tail b = 0" "length (sb_data b) = B" for b
    using that by (simp add: buff_ok_def size_50 stored_def count_def)
  show ?thesis using assms
    by (simp add: dev_ser_openfn_def init_buff_def buff_init_def dev_ser_llctl_def start_com_def case_prod_unfold Let_def ll e)
qed

subsection \<open>A concrete driver\<close>

definition ex_ring :: "nat \<Rightarrow> int \<Rightarrow> t_ser_buff" where
  "ex_ring n f = \<lparr>sb_top = of_nat n, sb_tail = 0, wait_flgid = f, sb_data = 0x30 # replicate 49 0\<rparr>"

definition ex_ser :: "nat \<Rightarrow> nat \<Rightarrow> serst" where
  "ex_ser n m = \<lparr>dev_ser_cb = (\<lambda>u. \<lparr>sd_unit = u, sd_omode = 3, sd_evtmbfid = 0, com_mode = 0x60, com_speed = 115200, com_error = 0,
       snd_tmo = TMO_FEVR, rcv_tmo = TMO_FEVR, intno_rcv = 20, intno_snd = 20, int_pri = 2, snd_buff = ex_ring n 1, rcv_buff = ex_ring m 2\<rparr>),
     ll_devcb = (\<lambda>_. \<lparr>ll_mode = 0x60, ll_speed = 115200\<rparr>),
     uarts = (\<lambda>_. \<lparr>u_cr = 0x301, u_imsc = 0x210, u_lcr_h = 0x60, u_ibrd = 67, u_fbrd = 52, u_icr = 0, u_dr = [], u_fr = 0, u_mis = 0x10, u_rx = 0x41\<rparr>),
     nvics = (\<lambda>_. \<lparr>nv_en = 0, nv_pend = 0, nv_ipr = (\<lambda>_. 0)\<rparr>), ints = \<lparr>exchdr = (\<lambda>_. 0), inthdr_tbl = (\<lambda>_. 0), hll = 1, dflt = 2\<rparr>,
     knl = (ex_dev [0x73])\<lparr>kst := (kst (ex_dev [0x73]))\<lparr>flg := (\<lambda>i. \<lparr>flgid = int i + 1, flg_exinf = 0, flgatr = 0, flgptn = 0\<rparr>)\<rparr>\<rparr>\<rparr>"

definition ex_io :: "int \<Rightarrow> iost" where
  "ex_io n = \<lparr>io_pc = P_Loop, io_tail = 0, io_pd = 0x20001000, io_rest = n, io_err = E_OK\<rparr>"

definition ex_req :: "int \<Rightarrow> int \<Rightarrow> t_devreq" where
  "ex_req st n = \<lparr>dr_next = None, dr_devid = 0x101, dr_cmd = 1, dr_abort = False, dr_start = st, dr_size = n, dr_buf = 0x20001000, dr_asize = 0, dr_error = 0\<rparr>"

lemma ex_ser_sel [simp]:
  "snd' d (ex_ser n m) = ex_ring n 1" "rcv d (ex_ser n m) = ex_ring m 2" "sd_unit (dev_ser_cb (ex_ser n m) d) = d"
  "rcv_tmo (dev_ser_cb (ex_ser n m) d) = - 1" "u_dr (uarts (ex_ser n m) d) = []" "u_mis (uarts (ex_ser n m) d) = 0x10" "u_rx (uarts (ex_ser n m) d) = 0x41"
  "u_fr (uarts (ex_ser n m) d) = 0" "wait_flgid (ex_ring n f) = f" "sb_tail (ex_ring n f) = 0" "io_tail (ex_io k) = 0" "io_pc (ex_io k) = P_Loop" "io_rest (ex_io k) = k"
  "io_pd (ex_io k) = 0x20001000"
  by (simp_all add: ex_ser_def ex_ring_def ex_io_def)

lemma ex_ring_ok: "n < 50 \<Longrightarrow> buff_ok (ex_ring n f) \<and> length (stored (ex_ring n f)) = n"
  by (simp add: buff_ok_def ex_ring_def size_50 stored_def count_def unsigned_of_nat take_bit_nat_eq_self)

lemma ex_ring_one: "stored (ex_ring (Suc 0) f) = [0x30]" "stored (ex_ring 0 f) = []"
  by (simp_all add: stored_def count_def ex_ring_def size_50)

theorem received_in_order_witness:
  "\<exists>acc. subseq acc [0x41] \<and> (acc = [0x41] \<or> marked 0 (usart_inthdr 0 20 (ex_ser 0 1))) \<and> 0x30 # acc = stored (rcv 0 (usart_inthdr 0 20 (ex_ser 0 1)))"
proof -
  have g: "got 0 20 (ex_ser 0 1) = [0x41]" by (simp add: got_def)
  have "rcv_run 0 0 0 (ex_io 2) (ex_ser 0 1) (ex_io 2) (usart_inthdr 0 20 (ex_ser 0 1)) ([] @ got 0 20 (ex_ser 0 1)) []"
    by (rule rcv_int[OF rcv_start])
  from received_in_order[OF this] show ?thesis using ex_ring_ok[of 1 2] g by (auto simp: ex_ring_one)
qed

theorem sent_in_order_witness:
  "let s' = snd (write_step 0 0 0 0 (ex_io 2) (ex_ser 1 0)); v = mem (kst (knl (ex_ser 1 0))) 0x20001000
   in u_dr (uarts s' 0) @ map ucast (stored (snd' 0 s')) = [0x30, ucast v]"
proof -
  let ?w = "write_step 0 0 0 0 (ex_io 2) (ex_ser 1 0)"
  have "wrap_inc 1 \<noteq> 0" by (simp add: wrap_inc_def size_50)
  then have l: "io_rest (fst ?w) = 1" by (simp add: write_step_def write_pass_def case_prod_unfold Let_def ex_ring_def)
  have "snd_run 0 0 0 (ex_io 2) (ex_ser 1 0) (fst ?w) (snd ?w) ([] @ given (ex_io 2) (fst ?w) (ex_ser 1 0))"
    by (rule snd_task[OF snd_start]) simp
  from sent_in_order[OF this] show ?thesis using ex_ring_ok[of 1 1] l by (simp add: given_def ex_ring_one Let_def)
qed

theorem reader_not_left_waiting_witness:
  "let (l1, s1) = read_step 0 0 0 0 (ex_io 1) (ex_ser 0 0); s2 = dev_ser_notify_rcv 0 0 0x41 s1;
       (l3, s3) = read_step 0 0 0 0 l1 s2; (l4, s4) = read_step 0 0 0 0 l3 s3
   in io_pc l3 = P_Loop \<and> taken l3 l4 s4 = [0x41]"
proof -
  have "flag_free 2 (kst (knl (ex_ser 0 0)))"
    by (simp add: flag_free_def CHK_FLGID_def size_defs ex_ser_def ex_dev_def ex_state_def get_flgcb_def)
  moreover have "\<not> in_ddsp 0 (kst (knl (ex_ser 0 0)))"
    by (simp add: in_ddsp_def in_indp_def knl_isTaskIndependent_def ex_ser_def ex_dev_def ex_state_def ex_smp_def)
  moreover have "io_pc (fst (read_step 0 0 0 0 (ex_io 1) (ex_ser 0 0))) = P_Wait"
    by (simp add: read_step_def read_pass_def case_prod_unfold Let_def ex_ring_def)
  ultimately show ?thesis
    using reader_not_left_waiting[of "ex_ser 0 0" 0 "ex_io 1" 0 _ _ 0 0 0 _ 0 "0x41" _ _ _ _ 0, OF _ _ _ _ _ _ prod.collapse _ refl prod.collapse prod.collapse]
      ex_ring_ok[of 0 2] by (simp add: case_prod_unfold Let_def)
qed

theorem attributes_roundtrip_witness:
  "\<exists>s1 s2. dev_ser_writefn 0 0 0 0 [] (ex_req (- 101) 4) (ex_ser 0 0) = Some (s1, (ex_req (- 101) 4)\<lparr>dr_asize := 4\<rparr>, 0) \<and>
    get_word 0x20001000 s2 = get_word 0x20001000 (ex_ser 0 0)"
  using attributes_roundtrip[of "ex_req (- 101) 4" "ex_req (- 101) 4" "ex_req (- 105) 4" 0 0 0 0 "[]" "ex_ser 0 0"] by (auto simp: ex_req_def)

theorem write_room_overstated_witness:
  "write_data 0 0 0 [] (ex_req 0 0) (ex_ser 49 0) = Some (ex_ser 49 0, (ex_req 0 0)\<lparr>dr_asize := 1\<rparr>, 0) \<and>
   io_pc (fst (write_step 0 0 0 0 (ex_io 1) (ex_ser 49 0))) = P_Wait"
  using write_room_overstated[of "ex_ser 49 0" 0 "ex_req 0 0" "ex_io 1" 0 0 "[]" 0] ex_ring_ok[of 49 1] by (simp add: ex_req_def)

end
