(* ===== verification/I2c.thy ===== *)
theory I2c
  imports Device_Io Cpu_Calls Msdi
begin

text \<open>
  The I2C driver: \<^verbatim>\<open>device/i2c/i2c.c\<close> and \<^verbatim>\<open>sysdepend/rp2040/i2c_rp2040.c\<close>. A transfer is a state machine that the calling task starts and the
  interrupt handler carries on, byte by byte. Of a controller the model has the registers that the driver writes, the commands written
  to the data register in their order, and, as inputs, what reading the status and the data register gives.
\<close>

subsection \<open>Data\<close>

datatype i2c_sts = I2C_STS_START | I2C_STS_STOP | I2C_STS_SEND | I2C_STS_RECV

record t_i2c_lldcb =
  done_flgid :: int
  i2c_state :: i2c_sts
  i2c_sadr :: UW
  ioerr :: ER
  err_reason :: UW
  sdat_num :: UW
  rdat_num :: UW
  sbuf :: UW
  rbuf :: UW

record i2c_regs =
  i_con :: UW
  i_tar :: UW
  i_mask :: UW
  i_enable :: UW
  i_rx_tl :: UW
  i_tx_tl :: UW
  i_dma_cr :: UW
  i_hcnt :: UW
  i_lcnt :: UW
  i_spklen :: UW
  i_hold :: UW
  i_cmds :: "UW list"
  i_stat :: UW
  i_data :: UW

record t_i2c_dcb =
  id_unit :: nat
  id_omode :: UW
  id_evtmbfid :: int

text \<open>The registers for the reset of the modules and for the pins; \<open>reset_done\<close> is what reading that register gives.\<close>

record board_regs =
  reset_reg :: UW
  reset_done :: UW
  gpio_ctrl :: "nat \<Rightarrow> UW"
  gpio_pad :: "nat \<Rightarrow> UW"

record i2cst =
  dev_i2c_cb :: "nat \<Rightarrow> t_i2c_dcb"
  i2c_ll :: "nat \<Rightarrow> t_i2c_lldcb"
  i2cs :: "nat \<Rightarrow> i2c_regs"
  i2c_nvics :: "nat \<Rightarrow> nvic"
  i2c_ints :: intst
  i2c_board :: board_regs
  i2c_knl :: devst

definition upd_ll :: "nat \<Rightarrow> (t_i2c_lldcb \<Rightarrow> t_i2c_lldcb) \<Rightarrow> i2cst \<Rightarrow> i2cst" where
  "upd_ll u f s = s\<lparr>i2c_ll := (i2c_ll s)(u := f (i2c_ll s u))\<rparr>"

definition upd_i2c :: "nat \<Rightarrow> (i2c_regs \<Rightarrow> i2c_regs) \<Rightarrow> i2cst \<Rightarrow> i2cst" where
  "upd_i2c u f s = s\<lparr>i2cs := (i2cs s)(u := f (i2cs s u))\<rparr>"

definition i2c_kst :: "i2cst \<Rightarrow> kstate" where "i2c_kst s = kst (i2c_knl s)"

definition upd_i2ck :: "(kstate \<Rightarrow> kstate) \<Rightarrow> i2cst \<Rightarrow> i2cst" where
  "upd_i2ck f s = s\<lparr>i2c_knl := (i2c_knl s)\<lparr>kst := f (kst (i2c_knl s))\<rparr>\<rparr>"

definition i2c_clear_int :: "nat \<Rightarrow> UW \<Rightarrow> i2cst \<Rightarrow> i2cst" where
  "i2c_clear_int c intno s = s\<lparr>i2c_nvics := (i2c_nvics s)(c := ClearInt intno (i2c_nvics s c))\<rparr>"

text \<open>The lock of a unit: the mask of the own core; the spinlock is free at the start of every step.\<close>

definition i2c_set_mask :: "nat \<Rightarrow> bool \<Rightarrow> i2cst \<Rightarrow> i2cst" where
  "i2c_set_mask c m = upd_i2ck (\<lambda>k. k\<lparr>smp := (smp k)\<lparr>primask := (primask (smp k))(c := m)\<rparr>\<rparr>)"

definition I2C_LOCK :: "nat \<Rightarrow> i2cst \<Rightarrow> bool \<times> i2cst" where "I2C_LOCK c s = (primask (smp (i2c_kst s)) c, i2c_set_mask c True s)"
definition I2C_UNLOCK :: "nat \<Rightarrow> bool \<Rightarrow> i2cst \<Rightarrow> i2cst" where "I2C_UNLOCK c sts s = i2c_set_mask c sts s"

subsection \<open>The interrupt handler\<close>

abbreviation (input) INTNO_I2C0 :: UW where "INTNO_I2C0 \<equiv> 23"
abbreviation (input) INTNO_I2C1 :: UW where "INTNO_I2C1 \<equiv> 24"
abbreviation (input) I2C_INT_ERROR :: UW where "I2C_INT_ERROR \<equiv> 0x4B"
abbreviation (input) I2C_INT_TX_EMPTY :: UW where "I2C_INT_TX_EMPTY \<equiv> 0x10"
abbreviation (input) I2C_INT_RX_FULL :: UW where "I2C_INT_RX_FULL \<equiv> 4"
abbreviation (input) I2C_DATA_CMD_RESTART :: UW where "I2C_DATA_CMD_RESTART \<equiv> 0x400"
abbreviation (input) I2C_DATA_CMD_STOP :: UW where "I2C_DATA_CMD_STOP \<equiv> 0x200"
abbreviation (input) I2C_DATA_CMD_CMD_READ :: UW where "I2C_DATA_CMD_CMD_READ \<equiv> 0x100"
abbreviation (input) I2C_DATA_CMD_DAT :: UW where "I2C_DATA_CMD_DAT \<equiv> 0xFF"
abbreviation (input) E_IO :: ER where "E_IO \<equiv> - 57"

definition out_cmd :: "nat \<Rightarrow> UW \<Rightarrow> i2cst \<Rightarrow> i2cst" where
  "out_cmd u v = upd_i2c u (\<lambda>R. R\<lparr>i_cmds := i_cmds R @ [v]\<rparr>)"

definition clr_mask :: "nat \<Rightarrow> UW \<Rightarrow> i2cst \<Rightarrow> i2cst" where
  "clr_mask u b = upd_i2c u (\<lambda>R. R\<lparr>i_mask := i_mask R AND NOT b\<rparr>)"

text \<open>The case of a transfer that sends: the state, and whether the task is woken up.\<close>

definition hdr_send :: "nat \<Rightarrow> i2cst \<Rightarrow> i2cst \<times> bool" where
  "hdr_send u s =
     (let p = i2c_ll s u; cmd = ucast (mem (i2c_kst s) (sbuf p)) AND I2C_DATA_CMD_DAT; n = sdat_num p - 1;
          s = upd_ll u (\<lambda>P. P\<lparr>sbuf := sbuf P + 1, sdat_num := n\<rparr>) s
      in if n \<noteq> 0 then (out_cmd u cmd s, False)
         else let s = clr_mask u I2C_INT_TX_EMPTY s
              in if rdat_num p \<noteq> 0
                 then (out_cmd u (cmd OR I2C_DATA_CMD_RESTART) (upd_ll u (\<lambda>P. P\<lparr>i2c_state := I2C_STS_START\<rparr>) s), True)
                 else (out_cmd u (cmd OR I2C_DATA_CMD_STOP) (upd_ll u (\<lambda>P. P\<lparr>i2c_state := I2C_STS_STOP\<rparr>) s), True))"

definition hdr_recv :: "nat \<Rightarrow> i2cst \<Rightarrow> i2cst \<times> bool" where
  "hdr_recv u s =
     (let p = i2c_ll s u; v = ucast (i_data (i2cs s u) AND I2C_DATA_CMD_DAT); n = rdat_num p - 1;
          s = upd_i2ck (\<lambda>k. k\<lparr>mem := (mem k)(rbuf p := v)\<rparr>) s;
          s = upd_ll u (\<lambda>P. P\<lparr>rbuf := rbuf P + 1, rdat_num := n\<rparr>) s
      in if n \<noteq> 0 then (out_cmd u I2C_DATA_CMD_CMD_READ s, False)
         else (upd_ll u (\<lambda>P. P\<lparr>i2c_state := I2C_STS_STOP\<rparr>) (clr_mask u I2C_INT_RX_FULL s), True))"

definition hdr_abort :: "nat \<Rightarrow> UW \<Rightarrow> i2cst \<Rightarrow> i2cst \<times> bool" where
  "hdr_abort u sts s =
     (upd_ll u (\<lambda>P. P\<lparr>ioerr := E_IO, err_reason := sts, i2c_state := I2C_STS_STOP\<rparr>) (upd_i2c u (\<lambda>R. R\<lparr>i_mask := 0\<rparr>) s), True)"

definition i2c_inthdr :: "nat \<Rightarrow> UW \<Rightarrow> i2cst \<Rightarrow> i2cst" where
  "i2c_inthdr c intno s =
     (if intno \<noteq> INTNO_I2C0 \<and> intno \<noteq> INTNO_I2C1 then i2c_clear_int c intno s
      else
        let u = (if intno = INTNO_I2C0 then 0 else 1);
            (intsts, s) = I2C_LOCK c s;
            sts = i_stat (i2cs s u);
            st = i2c_state (i2c_ll s u);
            (s, wup) =
              (if sts AND I2C_INT_ERROR = 0 \<and> st = I2C_STS_SEND \<and> sts AND I2C_INT_TX_EMPTY \<noteq> 0 then hdr_send u s
               else if sts AND I2C_INT_ERROR = 0 \<and> st = I2C_STS_RECV \<and> sts AND I2C_INT_RX_FULL \<noteq> 0 then hdr_recv u s
               else hdr_abort u sts s);
            s = i2c_clear_int c intno s;
            s = (if wup
                 then upd_i2ck (\<lambda>k. fst (tk_set_flg c (done_flgid (i2c_ll s u)) 1 k)) (upd_i2c u (\<lambda>R. R\<lparr>i_mask := 0\<rparr>) s) else s)
        in I2C_UNLOCK c intsts s)"

subsection \<open>The task\<close>

text \<open>
  Where the task stands in \<open>i2c_trans\<close>: before the test of the loop, at the test of the error behind the locked part, before the wait, waiting, returned.
\<close>

datatype i2cpc = T_Loop | T_Check | T_Wait | T_Woken | T_Done ER

definition trans_start :: "nat \<Rightarrow> i2cst \<Rightarrow> i2cst" where
  "trans_start u s =
     upd_i2c u (\<lambda>R. R\<lparr>i_tar := i2c_sadr (i2c_ll s u) AND 0x7F, i_mask := 0, i_enable := 1\<rparr>) (upd_ll u (\<lambda>P. P\<lparr>ioerr := E_OK\<rparr>) s)"

definition trans_locked :: "nat \<Rightarrow> nat \<Rightarrow> i2cst \<Rightarrow> i2cst" where
  "trans_locked c u s =
     (let (imask, s) = I2C_LOCK c s;
          s = upd_i2ck (\<lambda>k. fst (tk_clr_flg c (done_flgid (i2c_ll s u)) 0 k)) s;
          p = i2c_ll s u;
          s = (if sdat_num p > 0
               then upd_ll u (\<lambda>P. P\<lparr>i2c_state := I2C_STS_SEND\<rparr>)
                      (upd_i2c u (\<lambda>R. R\<lparr>i_mask := i_mask R OR (I2C_INT_TX_EMPTY OR I2C_INT_ERROR)\<rparr>) s)
               else let cmd = (if rdat_num p > 1 then I2C_DATA_CMD_CMD_READ else I2C_DATA_CMD_CMD_READ OR I2C_DATA_CMD_STOP)
                    in upd_ll u (\<lambda>P. P\<lparr>i2c_state := I2C_STS_RECV\<rparr>)
                         (out_cmd u cmd (upd_i2c u (\<lambda>R. R\<lparr>i_mask := i_mask R OR (I2C_INT_RX_FULL OR I2C_INT_ERROR)\<rparr>) s)))
      in I2C_UNLOCK c imask s)"

definition trans_end :: "nat \<Rightarrow> ER \<Rightarrow> i2cst \<Rightarrow> i2cpc \<times> ER \<times> i2cst" where
  "trans_end u err s = (T_Done err, err, upd_i2c u (\<lambda>R. R\<lparr>i_enable := 0\<rparr>) s)"

definition trans_waited :: "nat \<Rightarrow> nat \<Rightarrow> ER \<Rightarrow> i2cst \<Rightarrow> i2cpc \<times> ER \<times> i2cst" where
  "trans_waited c u err s =
     (if err < E_OK
      then let (imask, s) = I2C_LOCK c s;
               s = upd_ll u (\<lambda>P. P\<lparr>i2c_state := I2C_STS_STOP\<rparr>) (upd_i2c u (\<lambda>R. R\<lparr>i_mask := 0\<rparr>) s)
           in trans_end u err (I2C_UNLOCK c imask s)
      else (T_Loop, ioerr (i2c_ll s u), s))"

definition I2C_TMO :: int where "I2C_TMO = 1000"

text \<open>\<open>t\<close> is the calling task, \<open>p\<close> the address of its local variable \<open>flgptn\<close>.\<close>

definition trans_step :: "nat \<Rightarrow> UW \<Rightarrow> nat \<Rightarrow> nat \<Rightarrow> i2cpc \<times> ER \<times> i2cst \<Rightarrow> i2cpc \<times> ER \<times> i2cst" where
  "trans_step t p u c = (\<lambda>(pc, err, s).
     case pc of
       T_Loop \<Rightarrow> if i2c_state (i2c_ll s u) = I2C_STS_STOP then trans_end u err s else (T_Check, err, trans_locked c u s)
     | T_Check \<Rightarrow> if ioerr (i2c_ll s u) \<noteq> E_OK then trans_end u (ioerr (i2c_ll s u)) s else (T_Wait, err, s)
     | T_Wait \<Rightarrow>
         (case tk_wai_flg c (done_flgid (i2c_ll s u)) 1 (TWF_ORW OR TWF_BITCLR) p I2C_TMO (i2c_kst s) of
            (k, Ret er) \<Rightarrow> trans_waited c u er (upd_i2ck (\<lambda>_. k) s)
          | (k, Blocked) \<Rightarrow> (T_Woken, err, upd_i2ck (\<lambda>_. k) s))
     | T_Woken \<Rightarrow> trans_waited c u (ercd (i2c_kst s) t) s
     | T_Done e \<Rightarrow> (pc, err, s))"

text \<open>A run: before every step of the task, what happens meanwhile, and the core of the step.\<close>

fun i2c_run :: "nat \<Rightarrow> UW \<Rightarrow> nat \<Rightarrow> ((i2cst \<Rightarrow> i2cst) \<times> nat) list \<Rightarrow> i2cpc \<times> ER \<times> i2cst \<Rightarrow> i2cpc \<times> ER \<times> i2cst" where
  "i2c_run t p u [] x = x"
| "i2c_run t p u ((e, c) # E) (pc, err, s) =
     (case pc of T_Done _ \<Rightarrow> (pc, err, s) | _ \<Rightarrow> i2c_run t p u E (trans_step t p u c (pc, err, e s)))"

definition i2c_trans :: "nat \<Rightarrow> UW \<Rightarrow> nat \<Rightarrow> ((i2cst \<Rightarrow> i2cst) \<times> nat) list \<Rightarrow> i2cst \<Rightarrow> (i2cst \<times> ER) option" where
  "i2c_trans t p u E s =
     (case i2c_run t p u E (T_Loop, E_OK, trans_start u s) of (T_Done err, _, s) \<Rightarrow> Some (s, err) | _ \<Rightarrow> None)"

definition set_com_start :: "nat \<Rightarrow> UW \<Rightarrow> UW \<Rightarrow> UW \<Rightarrow> UW \<Rightarrow> UW \<Rightarrow> i2cst \<Rightarrow> i2cst" where
  "set_com_start u sadr sn rn sb rb = upd_ll u (\<lambda>P. P\<lparr>i2c_state := I2C_STS_START, i2c_sadr := sadr, sdat_num := sn, rdat_num := rn, sbuf := sb, rbuf := rb\<rparr>)"

subsection \<open>Low-level control\<close>

definition i2c_ld :: "UW \<Rightarrow> i2cst \<Rightarrow> UW" where "i2c_ld p s = ld32 p (mem (i2c_kst s))"

datatype t_lld_i2c_cmd = LLD_I2C_OPEN | LLD_I2C_CLOSE | LLD_I2C_READ | LLD_I2C_WRITE | LLD_I2C_EXEC

text \<open>The structure \<open>T_I2C_EXEC\<close> at \<open>pp\<close>: the address, and size and buffer of what is sent and of what is received.\<close>

definition dev_i2c_llctl :: "nat \<Rightarrow> UW \<Rightarrow> ((i2cst \<Rightarrow> i2cst) \<times> nat) list \<Rightarrow> nat \<Rightarrow> t_lld_i2c_cmd \<Rightarrow> UW \<Rightarrow> UW \<Rightarrow> UW \<Rightarrow> i2cst \<Rightarrow> (i2cst \<times> int) option" where
  "dev_i2c_llctl t p E u cmd p1 p2 pp s =
     (let trans = (\<lambda>res s. map_option (\<lambda>(s, err). (s, if err \<ge> E_OK then sint (res s) else err)) (i2c_trans t p u E s))
      in case cmd of
        LLD_I2C_OPEN \<Rightarrow>
          Some (upd_i2c u (\<lambda>R. R\<lparr>i_enable := 0, i_con := 0x165, i_rx_tl := 0, i_tx_tl := 0, i_dma_cr := 3,
                  i_hcnt := 126, i_lcnt := 187, i_spklen := 187 div 16, i_hold := 38\<rparr>) s, E_OK)
      | LLD_I2C_CLOSE \<Rightarrow> Some (upd_i2c u (\<lambda>R. R\<lparr>i_mask := 0, i_enable := 0\<rparr>) s, E_OK)
      | LLD_I2C_READ \<Rightarrow> trans (\<lambda>s. p2 - rdat_num (i2c_ll s u)) (set_com_start u p1 0 p2 0 pp s)
      | LLD_I2C_WRITE \<Rightarrow> trans (\<lambda>s. p2 - sdat_num (i2c_ll s u)) (set_com_start u p1 p2 0 pp 0 s)
      | LLD_I2C_EXEC \<Rightarrow>
          trans (\<lambda>s. i2c_ld (pp + 4) s + i2c_ld (pp + 12) s)
            (set_com_start u (i2c_ld pp s) (i2c_ld (pp + 4) s) (i2c_ld (pp + 12) s) (i2c_ld (pp + 8) s) (i2c_ld (pp + 16) s) s))"

text \<open>Reset and pins of a unit. The code waits for the end of the reset; there is no value when the register does not show it.\<close>

definition i2c_module_init :: "UW \<Rightarrow> nat \<Rightarrow> nat \<Rightarrow> i2cst \<Rightarrow> i2cst option" where
  "i2c_module_init m p q s =
     (let R = i2c_board s; R = R\<lparr>reset_reg := (reset_reg R OR m) AND NOT m\<rparr>
      in if reset_done R AND m = 0 then None
         else Some (s\<lparr>i2c_board := R\<lparr>gpio_ctrl := (gpio_ctrl R)(p := 3, q := 3), gpio_pad := (gpio_pad R)(p := 0x5A, q := 0x5A)\<rparr>\<rparr>))"

definition i2c_define_int :: "nat \<Rightarrow> UW \<Rightarrow> nat \<Rightarrow> int \<Rightarrow> i2cst \<Rightarrow> i2cst \<times> ER" where
  "i2c_define_int c ih u fid s =
     (let s = upd_i2c u (\<lambda>R. R\<lparr>i_enable := 0\<rparr>) s;
          intno = (if u = 0 then INTNO_I2C0 else INTNO_I2C1);
          ((v, k), err) = tk_def_int c intno (Some \<lparr>di_intatr = TA_HLNG, di_inthdr = ih\<rparr>) (i2c_ints s, i2c_kst s);
          s = upd_i2ck (\<lambda>_. k) (s\<lparr>i2c_ints := v\<rparr>)
      in if err = E_OK
         then let s = i2c_clear_int c intno s in (s\<lparr>i2c_nvics := (i2c_nvics s)(c := EnableInt intno 2 (i2c_nvics s c))\<rparr>, err)
         else (upd_i2ck (\<lambda>k. fst (tk_del_flg c fid k)) s, err))"

definition dev_i2c_llinit :: "nat \<Rightarrow> UW \<Rightarrow> nat \<Rightarrow> i2cst \<Rightarrow> (i2cst \<times> ER) option" where
  "dev_i2c_llinit c ih d s =
     (let u = id_unit (dev_i2c_cb s d);
          (k, fid) = tk_cre_flg c \<lparr>cf_exinf = 0, cf_flgatr = 0, cf_iflgptn = 0\<rparr> (i2c_kst s);
          s = upd_ll u (\<lambda>P. P\<lparr>done_flgid := fid\<rparr>) (upd_i2ck (\<lambda>_. k) s)
      in if fid < E_OK then Some (s, fid)
         else if u \<noteq> 0 \<and> u \<noteq> 1 then Some (upd_i2ck (\<lambda>k. fst (tk_del_flg c fid k)) s, E_PAR)
         else map_option (i2c_define_int c ih u fid) (if u = 0 then i2c_module_init 8 8 9 s else i2c_module_init 0x10 6 7 s))"

end
