(* ===== verification/I2c_Io.thy ===== *)
theory I2c_Io
  imports I2c
begin

text \<open>\<^verbatim>\<open>device/i2c/i2c.c\<close>: attributes, reading and writing, opening and closing, initialisation, and the access to registers of a device on the bus.\<close>

abbreviation (input) TDN_EVENT_I2C :: int where "TDN_EVENT_I2C \<equiv> - 1"
abbreviation (input) TDN_I2C_EXEC :: int where "TDN_I2C_EXEC \<equiv> - 100"

definition DEVCNF_I2C_MAX_SDATSZ :: int where "DEVCNF_I2C_MAX_SDATSZ = 100"
definition DEVCNF_I2C_MAX_RDATSZ :: int where "DEVCNF_I2C_MAX_RDATSZ = 100"
definition sizeof_T_I2C_EXEC :: int where "sizeof_T_I2C_EXEC = 20"

definition i2c_put_word :: "UW \<Rightarrow> UW \<Rightarrow> i2cst \<Rightarrow> i2cst" where "i2c_put_word p v = upd_i2ck (\<lambda>k. k\<lparr>mem := st32 p v (mem k)\<rparr>)"

definition i2c_read_atr :: "nat \<Rightarrow> t_devreq \<Rightarrow> i2cst \<Rightarrow> i2cst \<times> t_devreq \<times> ER" where
  "i2c_read_atr d r s =
     (if dr_start r = TDN_EVENT_I2C
      then if dr_size r \<ge> 4 then (i2c_put_word (dr_buf r) (word_of_int (id_evtmbfid (dev_i2c_cb s d))) s, r\<lparr>dr_asize := 4\<rparr>, E_OK)
           else if dr_size r \<noteq> 0 then (s, r, E_PAR) else (s, r\<lparr>dr_asize := 4\<rparr>, E_OK)
      else (s, r, E_PAR))"

text \<open>The result of a transfer: the number of bytes, or an error.\<close>

definition i2c_result :: "int \<Rightarrow> t_devreq \<Rightarrow> i2cst \<times> int \<Rightarrow> i2cst \<times> t_devreq \<times> ER" where
  "i2c_result n r = (\<lambda>(s, rtn). if rtn > 0 then (s, r\<lparr>dr_asize := n\<rparr>, E_OK) else (s, r, rtn))"

definition i2c_write_atr :: "nat \<Rightarrow> UW \<Rightarrow> nat \<Rightarrow> ((i2cst \<Rightarrow> i2cst) \<times> nat) list \<Rightarrow> t_devreq \<Rightarrow> i2cst \<Rightarrow> (i2cst \<times> t_devreq \<times> ER) option" where
  "i2c_write_atr t p d E r s =
     (let b = dr_buf r
      in if dr_start r = TDN_EVENT_I2C
         then if dr_size r \<ge> 4
              then Some (s\<lparr>dev_i2c_cb := (dev_i2c_cb s)(d := (dev_i2c_cb s d)\<lparr>id_evtmbfid := sint (i2c_ld b s)\<rparr>)\<rparr>, r\<lparr>dr_asize := 4\<rparr>, E_OK)
              else Some (if dr_size r \<noteq> 0 then (s, r, E_PAR) else (s, r\<lparr>dr_asize := 4\<rparr>, E_OK))
         else if dr_start r = TDN_I2C_EXEC
         then if dr_size r \<ge> sizeof_T_I2C_EXEC
              then let sn = sint (i2c_ld (b + 4) s); rn = sint (i2c_ld (b + 12) s)
                   in if sn \<le> 0 \<or> sn > DEVCNF_I2C_MAX_SDATSZ then Some (s, r, E_PAR)
                      else if rn \<le> 0 \<or> rn > DEVCNF_I2C_MAX_RDATSZ then Some (s, r, E_PAR)
                      else map_option (i2c_result sizeof_T_I2C_EXEC r)
                             (dev_i2c_llctl t p E (id_unit (dev_i2c_cb s d)) LLD_I2C_EXEC (word_of_int (dr_start r)) (word_of_int (dr_size r)) b s)
              else Some (if dr_size r = 0 then (s, r\<lparr>dr_asize := sizeof_T_I2C_EXEC\<rparr>, E_OK) else (s, r, E_PAR))
         else Some (s, r, E_PAR))"

definition i2c_transfer ::
  "t_lld_i2c_cmd \<Rightarrow> int \<Rightarrow> nat \<Rightarrow> UW \<Rightarrow> nat \<Rightarrow> ((i2cst \<Rightarrow> i2cst) \<times> nat) list \<Rightarrow> t_devreq \<Rightarrow> i2cst \<Rightarrow> (i2cst \<times> t_devreq \<times> ER) option" where
  "i2c_transfer cmd mx t p d E r s =
     (if dr_size r \<le> 0 \<or> dr_size r > mx then Some (s, r, E_PAR)
      else if dr_size r \<noteq> 0
      then map_option (\<lambda>(s, rtn). i2c_result rtn r (s, rtn))
             (dev_i2c_llctl t p E (id_unit (dev_i2c_cb s d)) cmd (word_of_int (dr_start r)) (word_of_int (dr_size r)) (dr_buf r) s)
      else Some (s, r\<lparr>dr_asize := dr_size r\<rparr>, E_OK))"

definition i2c_read_data :: "nat \<Rightarrow> UW \<Rightarrow> nat \<Rightarrow> ((i2cst \<Rightarrow> i2cst) \<times> nat) list \<Rightarrow> t_devreq \<Rightarrow> i2cst \<Rightarrow> (i2cst \<times> t_devreq \<times> ER) option" where
  "i2c_read_data = i2c_transfer LLD_I2C_READ DEVCNF_I2C_MAX_RDATSZ"

definition i2c_write_data :: "nat \<Rightarrow> UW \<Rightarrow> nat \<Rightarrow> ((i2cst \<Rightarrow> i2cst) \<times> nat) list \<Rightarrow> t_devreq \<Rightarrow> i2cst \<Rightarrow> (i2cst \<times> t_devreq \<times> ER) option" where
  "i2c_write_data = i2c_transfer LLD_I2C_WRITE DEVCNF_I2C_MAX_SDATSZ"

definition dev_i2c_openfn :: "UW \<Rightarrow> nat \<Rightarrow> i2cst \<Rightarrow> (i2cst \<times> ER) option" where
  "dev_i2c_openfn om d s =
     (let s = s\<lparr>dev_i2c_cb := (dev_i2c_cb s)(d := (dev_i2c_cb s d)\<lparr>id_omode := om\<rparr>)\<rparr>
      in dev_i2c_llctl 0 0 [] (id_unit (dev_i2c_cb s d)) LLD_I2C_OPEN 0 0 0 s)"

definition dev_i2c_closefn :: "nat \<Rightarrow> i2cst \<Rightarrow> (i2cst \<times> ER) option" where
  "dev_i2c_closefn d s = dev_i2c_llctl 0 0 [] (id_unit (dev_i2c_cb s d)) LLD_I2C_CLOSE 0 0 0 s"

definition dev_i2c_readfn :: "nat \<Rightarrow> UW \<Rightarrow> nat \<Rightarrow> ((i2cst \<Rightarrow> i2cst) \<times> nat) list \<Rightarrow> t_devreq \<Rightarrow> i2cst \<Rightarrow> (i2cst \<times> t_devreq \<times> ER) option" where
  "dev_i2c_readfn t p d E r s = (if dr_start r \<ge> 0 then i2c_read_data t p d E r s else Some (i2c_read_atr d r s))"

definition dev_i2c_writefn :: "nat \<Rightarrow> UW \<Rightarrow> nat \<Rightarrow> ((i2cst \<Rightarrow> i2cst) \<times> nat) list \<Rightarrow> t_devreq \<Rightarrow> i2cst \<Rightarrow> (i2cst \<times> t_devreq \<times> ER) option" where
  "dev_i2c_writefn t p d E r s = (if dr_start r \<ge> 0 then i2c_write_data t p d E r s else i2c_write_atr t p d E r s)"

definition dev_i2c_eventfn :: "int \<Rightarrow> UW \<Rightarrow> ER" where "dev_i2c_eventfn evttyp evtinf = E_NOSPT_MSDI"

subsection \<open>Initialisation\<close>

definition sizeof_T_I2C_DCB :: int where "sizeof_T_I2C_DCB = 12"
definition DEV_I2C_UNITNM :: nat where "DEV_I2C_UNITNM = 2"

definition i2c_dmsdi :: "t_dmsdi \<Rightarrow> UW \<Rightarrow> nat \<Rightarrow> t_dmsdi" where
  "i2c_dmsdi fns p u = fns\<lparr>dm_exinf := p, dm_drvatr := 0, dm_devatr := 0, dm_nsub := 0, dm_blksz := 1,
     dm_devnm := [0x69, 0x69, 0x63, 0x61 + of_nat u]\<rparr>"

definition i2c_Kfree :: "nat \<Rightarrow> UW \<Rightarrow> (UW \<Rightarrow> t_msdi) \<times> i2cst \<Rightarrow> ER \<Rightarrow> (((UW \<Rightarrow> t_msdi) \<times> i2cst) \<times> ER) option" where
  "i2c_Kfree c p = (\<lambda>(M, s) err. map_option (\<lambda>k. ((M, upd_i2ck (\<lambda>_. k) s), err)) (Kfree c p (i2c_kst s)))"

definition dev_init_i2c :: "t_ddev \<Rightarrow> t_dmsdi \<Rightarrow> UW \<Rightarrow> UW \<Rightarrow> nat \<Rightarrow> nat \<Rightarrow> (UW \<Rightarrow> t_msdi) \<times> i2cst \<Rightarrow> (((UW \<Rightarrow> t_msdi) \<times> i2cst) \<times> ER) option" where
  "dev_init_i2c F fns ih nm c u = (\<lambda>(M, s).
     if u \<ge> DEV_I2C_UNITNM then Some ((M, s), E_PAR)
     else do {
       (k, p) \<leftarrow> Kmalloc c sizeof_T_I2C_DCB (i2c_kst s);
       let s = upd_i2ck (\<lambda>_. k) s;
       (if p = 0 then Some ((M, s), E_NOMEM)
        else do {
          (ms, err, idv, m) \<leftarrow> msdi_def_dev F c nm (i2c_dmsdi fns p u) \<lparr>msdis = M, mdev = i2c_knl s\<rparr>;
          let M = msdis ms;
          let s = s\<lparr>i2c_knl := mdev ms\<rparr>;
          (case idv of
             None \<Rightarrow> i2c_Kfree c p (M, s) err
           | Some iv \<Rightarrow> do {
               let s = s\<lparr>dev_i2c_cb := (dev_i2c_cb s)(u := (dev_i2c_cb s u)\<lparr>id_unit := u, id_evtmbfid := evtmbfid iv\<rparr>)\<rparr>;
               (s, err) \<leftarrow> dev_i2c_llinit c ih u s;
               (if err \<noteq> E_OK
                then do {
                  (ms, er) \<leftarrow> msdi_del_dev c m \<lparr>msdis = M, mdev = i2c_knl s\<rparr>;
                  i2c_Kfree c p (msdis ms, s\<lparr>i2c_knl := mdev ms\<rparr>) err
                }
                else Some ((M, s), E_OK))
             })
        })
     })"

subsection \<open>Register access\<close>

text \<open>\<open>ex\<close>, \<open>ra\<close> and \<open>sd\<close> are the addresses of the local variables \<open>exec\<close>, \<open>radr\<close> and \<open>snd_data\<close> on the stack of the caller.\<close>

definition st_words :: "UW \<Rightarrow> UW list \<Rightarrow> (UW \<Rightarrow> UB) \<Rightarrow> UW \<Rightarrow> UB" where
  "st_words p vs m = snd (fold (\<lambda>v (p, m). (p + 4, st32 p v m)) vs (p, m))"

definition i2c_read_reg :: "denv \<Rightarrow> nat \<Rightarrow> int \<Rightarrow> UW \<Rightarrow> UW \<Rightarrow> UW \<Rightarrow> UW \<Rightarrow> UW \<Rightarrow> devst \<Rightarrow> (devst \<times> ER) option" where
  "i2c_read_reg e c dd sadr radr data ex ra s =
     (let m = st_words ex [sadr, 1, ra, 1, data] (st32 ra radr (mem (kst s)));
          s = s\<lparr>kst := (kst s)\<lparr>mem := m\<rparr>\<rparr>
      in map_option (\<lambda>(s, err, asz). (s, err)) (tk_swri_dev e c dd TDN_I2C_EXEC ex sizeof_T_I2C_EXEC s))"

definition i2c_write_reg :: "denv \<Rightarrow> nat \<Rightarrow> int \<Rightarrow> UW \<Rightarrow> UW \<Rightarrow> UB \<Rightarrow> UW \<Rightarrow> devst \<Rightarrow> (devst \<times> ER) option" where
  "i2c_write_reg e c dd sadr radr data sd s =
     (let s = s\<lparr>kst := (kst s)\<lparr>mem := (mem (kst s))(sd := ucast radr, sd + 1 := data)\<rparr>\<rparr>
      in map_option (\<lambda>(s, err, asz). (s, err)) (tk_swri_dev e c dd (sint sadr) sd 2 s))"

end
