(* ===== verification/I2c_Props.thy ===== *)
theory I2c_Props
  imports I2c_Io Serial_Props
begin

text \<open>
  The I2C driver: what a transfer puts on the bus, and how an error ends it.
\<close>

subsection \<open>Frames\<close>

lemma i2c_sel [simp]:
  "i2c_ll (upd_ll u f s) = (i2c_ll s)(u := f (i2c_ll s u))" "i2cs (upd_ll u f s) = i2cs s" "i2c_knl (upd_ll u f s) = i2c_knl s"
  "i2c_ll (upd_i2c u g s) = i2c_ll s" "i2cs (upd_i2c u g s) = (i2cs s)(u := g (i2cs s u))" "i2c_knl (upd_i2c u g s) = i2c_knl s"
  "i2c_ll (upd_i2ck h s) = i2c_ll s" "i2cs (upd_i2ck h s) = i2cs s" "i2c_kst (upd_i2ck h s) = h (i2c_kst s)"
  "i2c_kst (upd_ll u f s) = i2c_kst s" "i2c_kst (upd_i2c u g s) = i2c_kst s"
  "i2c_ll (i2c_clear_int c i s) = i2c_ll s" "i2cs (i2c_clear_int c i s) = i2cs s" "i2c_kst (i2c_clear_int c i s) = i2c_kst s"
  by (simp_all add: upd_ll_def upd_i2c_def upd_i2ck_def i2c_clear_int_def i2c_kst_def)

lemma i2c_lock_sel [simp]:
  "i2c_ll (snd (I2C_LOCK c s)) = i2c_ll s" "i2cs (snd (I2C_LOCK c s)) = i2cs s" "mem (i2c_kst (snd (I2C_LOCK c s))) = mem (i2c_kst s)"
  "i2c_ll (I2C_UNLOCK c m s) = i2c_ll s" "i2cs (I2C_UNLOCK c m s) = i2cs s" "mem (i2c_kst (I2C_UNLOCK c m s)) = mem (i2c_kst s)"
  by (simp_all add: I2C_LOCK_def I2C_UNLOCK_def i2c_set_mask_def)

definition intno_of :: "nat \<Rightarrow> UW" where "intno_of u = (if u = 0 then INTNO_I2C0 else INTNO_I2C1)"

text \<open>The handler of a unit, in the three cases.\<close>

definition hdr_wup :: "nat \<Rightarrow> UW \<Rightarrow> nat \<Rightarrow> i2cst \<times> bool \<Rightarrow> i2cst" where
  "hdr_wup c intno u = (\<lambda>(s, wup).
     if wup then upd_i2ck (\<lambda>k. fst (tk_set_flg c (done_flgid (i2c_ll s u)) 1 k)) (upd_i2c u (\<lambda>R. R\<lparr>i_mask := 0\<rparr>) (i2c_clear_int c intno s))
     else i2c_clear_int c intno s)"

lemma i2c_inthdr_unit:
  assumes "u < 2"
  shows "i2c_inthdr c (intno_of u) s =
    (let s1 = snd (I2C_LOCK c s); sts = i_stat (i2cs s u); st = i2c_state (i2c_ll s u)
     in I2C_UNLOCK c (fst (I2C_LOCK c s)) (hdr_wup c (intno_of u) u
       (if sts AND I2C_INT_ERROR = 0 \<and> st = I2C_STS_SEND \<and> sts AND I2C_INT_TX_EMPTY \<noteq> 0 then hdr_send u s1
        else if sts AND I2C_INT_ERROR = 0 \<and> st = I2C_STS_RECV \<and> sts AND I2C_INT_RX_FULL \<noteq> 0 then hdr_recv u s1
        else hdr_abort u sts s1)))"
proof -
  have u: "(if intno_of u = INTNO_I2C0 then 0 else 1) = u" "\<not> (intno_of u \<noteq> INTNO_I2C0 \<and> intno_of u \<noteq> INTNO_I2C1)"
    using assms by (auto simp: intno_of_def)
  show ?thesis unfolding i2c_inthdr_def if_not_P[OF u(2)] u(1) Let_def case_prod_unfold hdr_wup_def
    by (simp cong: if_cong)
qed

lemma hdr_wup_sel [simp]:
  "i2c_ll (hdr_wup c i u x) = i2c_ll (fst x)" "i_cmds (i2cs (hdr_wup c i u x) u) = i_cmds (i2cs (fst x) u)"
  "i_stat (i2cs (hdr_wup c i u x) u) = i_stat (i2cs (fst x) u)" "\<not> snd x \<Longrightarrow> i2c_kst (hdr_wup c i u x) = i2c_kst (fst x)"
  by (simp_all add: hdr_wup_def case_prod_unfold)

subsection \<open>Sending\<close>

fun bytes_at :: "(UW \<Rightarrow> UB) \<Rightarrow> UW \<Rightarrow> UB list \<Rightarrow> bool" where
  "bytes_at m p [] = True"
| "bytes_at m p (b # bs) \<longleftrightarrow> m p = b \<and> bytes_at m (p + 1) bs"

text \<open>The commands for a list of bytes: the last one carries the flag.\<close>

fun tx_cmds :: "UW \<Rightarrow> UB list \<Rightarrow> UW list" where
  "tx_cmds fl [] = []"
| "tx_cmds fl [b] = [ucast b OR fl]"
| "tx_cmds fl (b # c # bs) = ucast b # tx_cmds fl (c # bs)"

lemma byte_and: "ucast (b :: UB) AND (0xFF :: UW) = ucast b"
proof -
  have m: "(0xFF :: UW) = mask 8" by (simp add: mask_eq_exp_minus_1)
  have "bit b n \<Longrightarrow> n < 8" for n using bit_imp_le_length[of b n] by simp
  then show ?thesis unfolding m by (intro bit_word_eqI) (auto simp only: bit_and_iff bit_unsigned_iff bit_mask_iff)
qed

text \<open>
  What is sent. With a transfer in the state of sending and \<open>n\<close> bytes to go, \<open>n\<close> interrupts for an empty buffer write exactly these bytes to the controller, in their order.
  The last one, and no other, carries the stop condition when nothing is to be received, and the restart condition when something is; then the transfer has left the state.
\<close>
theorem i2c_sends_in_order:
  assumes "u < 2" "i2c_state (i2c_ll s u) = I2C_STS_SEND" "unat (sdat_num (i2c_ll s u)) = length bs" "bs \<noteq> []"
    and "bytes_at (mem (i2c_kst s)) (sbuf (i2c_ll s u)) bs" "i_stat (i2cs s u) = I2C_INT_TX_EMPTY" "length cs = length bs"
  shows "let s' = fold (\<lambda>c. i2c_inthdr c (intno_of u)) cs s; rcv = rdat_num (i2c_ll s u) \<noteq> 0
    in i_cmds (i2cs s' u) = i_cmds (i2cs s u) @ tx_cmds (if rcv then I2C_DATA_CMD_RESTART else I2C_DATA_CMD_STOP) bs \<and>
       sdat_num (i2c_ll s' u) = 0 \<and> i2c_state (i2c_ll s' u) = (if rcv then I2C_STS_START else I2C_STS_STOP) \<and>
       rdat_num (i2c_ll s' u) = rdat_num (i2c_ll s u) \<and> ioerr (i2c_ll s' u) = ioerr (i2c_ll s u)"
  using assms(2-7)
proof (induction bs arbitrary: s cs)
  case (Cons b bs)
  obtain c cs' where cs: "cs = c # cs'" "length cs' = length bs" using Cons.prems by (cases cs) auto
  define n where "n = sdat_num (i2c_ll s u) - 1"
  have n: "unat n = length bs" using Cons.prems by (simp add: n_def unat_sub_if')
  then have n0: "n = 0 \<longleftrightarrow> bs = []" by (metis length_0_conv unat_eq_0)
  have b: "mem (i2c_kst s) (sbuf (i2c_ll s u)) = b" using Cons.prems by simp
  let ?s = "i2c_inthdr c (intno_of u) s"
  have h: "?s = I2C_UNLOCK c (fst (I2C_LOCK c s)) (hdr_wup c (intno_of u) u (hdr_send u (snd (I2C_LOCK c s))))"
    using Cons.prems by (simp add: i2c_inthdr_unit[OF assms(1)])
  show ?case
  proof (cases "bs = []")
    case True
    then have "sdat_num (i2c_ll s u) = 1" using n0 by (simp add: n_def)
    then show ?thesis using True cs b by (auto simp: h hdr_send_def Let_def out_cmd_def clr_mask_def byte_and)
  next
    case False
    then have n1: "n \<noteq> 0" using n0 by simp
    have "hdr_send u (snd (I2C_LOCK c s)) =
        (out_cmd u (ucast b) (upd_ll u (\<lambda>P. P\<lparr>sbuf := sbuf P + 1, sdat_num := n\<rparr>) (snd (I2C_LOCK c s))), False)"
      unfolding hdr_send_def Let_def i2c_lock_sel n_def[symmetric] if_P[OF n1] b byte_and by (rule refl)
    then have p: "i2c_ll ?s u = (i2c_ll s u)\<lparr>sbuf := sbuf (i2c_ll s u) + 1, sdat_num := n\<rparr>" "mem (i2c_kst ?s) = mem (i2c_kst s)"
      "i_cmds (i2cs ?s u) = i_cmds (i2cs s u) @ [ucast b]" "i_stat (i2cs ?s u) = i_stat (i2cs s u)"
      by (simp_all add: h out_cmd_def)
    have "tx_cmds fl (b # bs) = ucast b # tx_cmds fl bs" for fl using False by (cases bs) auto
    then show ?thesis using Cons.IH[of ?s cs'] Cons.prems False n cs p by (simp add: Let_def)
  qed
qed simp

subsection \<open>Receiving\<close>

definition rx_irq :: "nat \<Rightarrow> nat \<times> UW \<Rightarrow> i2cst \<Rightarrow> i2cst" where
  "rx_irq u = (\<lambda>(c, d) s. i2c_inthdr c (intno_of u) (upd_i2c u (\<lambda>R. R\<lparr>i_data := d\<rparr>) s))"

lemma i2c_receives:
  assumes "u < 2" "i2c_state (i2c_ll s u) = I2C_STS_RECV" "unat (rdat_num (i2c_ll s u)) = length ds" "ds \<noteq> []" "i_stat (i2cs s u) = I2C_INT_RX_FULL"
  shows "let s' = fold (rx_irq u) ds s
    in i_cmds (i2cs s' u) = i_cmds (i2cs s u) @ replicate (length ds - 1) I2C_DATA_CMD_CMD_READ \<and>
       rdat_num (i2c_ll s' u) = 0 \<and> i2c_state (i2c_ll s' u) = I2C_STS_STOP \<and> ioerr (i2c_ll s' u) = ioerr (i2c_ll s u)"
  using assms(2-5)
proof (induction ds arbitrary: s)
  case (Cons a ds)
  obtain c d where a: "a = (c, d)" by (cases a)
  define s0 where "s0 = upd_i2c u (\<lambda>R. R\<lparr>i_data := d\<rparr>) s"
  define n where "n = rdat_num (i2c_ll s u) - 1"
  have n: "unat n = length ds" using Cons.prems by (simp add: n_def unat_sub_if')
  then have n0: "n = 0 \<longleftrightarrow> ds = []" by (metis length_0_conv unat_eq_0)
  let ?s = "rx_irq u a s"
  have h: "?s = I2C_UNLOCK c (fst (I2C_LOCK c s0)) (hdr_wup c (intno_of u) u (hdr_recv u (snd (I2C_LOCK c s0))))"
    using Cons.prems by (simp add: rx_irq_def a s0_def i2c_inthdr_unit[OF assms(1)])
  have s0: "i2c_ll s0 = i2c_ll s" "i_cmds (i2cs s0 u) = i_cmds (i2cs s u)" "i_stat (i2cs s0 u) = i_stat (i2cs s u)" by (simp_all add: s0_def)
  show ?case
  proof (cases "ds = []")
    case True
    then have "rdat_num (i2c_ll s u) = 1" using n0 by (simp add: n_def)
    then show ?thesis using True by (simp add: h hdr_recv_def Let_def clr_mask_def s0)
  next
    case False
    then have n1: "n \<noteq> 0" using n0 by simp
    let ?v = "ucast (i_data (i2cs s0 u) AND I2C_DATA_CMD_DAT) :: UB" and ?p = "rbuf (i2c_ll s u)"
    have "hdr_recv u (snd (I2C_LOCK c s0)) =
        (out_cmd u I2C_DATA_CMD_CMD_READ (upd_ll u (\<lambda>P. P\<lparr>rbuf := rbuf P + 1, rdat_num := n\<rparr>)
          (upd_i2ck (\<lambda>k. k\<lparr>mem := (mem k)(?p := ?v)\<rparr>) (snd (I2C_LOCK c s0)))), False)"
      unfolding hdr_recv_def Let_def i2c_lock_sel s0 n_def[symmetric] if_P[OF n1] by (rule refl)
    then have p: "i2c_ll ?s u = (i2c_ll s u)\<lparr>rbuf := rbuf (i2c_ll s u) + 1, rdat_num := n\<rparr>"
      "i_cmds (i2cs ?s u) = i_cmds (i2cs s u) @ [I2C_DATA_CMD_CMD_READ]" "i_stat (i2cs ?s u) = i_stat (i2cs s u)"
      by (simp_all add: h out_cmd_def s0)
    obtain k where "length ds = Suc k" using False by (cases ds) auto
    then show ?thesis using Cons.IH[of ?s] Cons.prems False n p by (simp add: Let_def)
  qed
qed simp

text \<open>
  C30. Longer reads have no stop condition. A transfer that receives one byte asks for it with the stop condition. One that receives more asks for every byte, the
  last one included, without it: on the bus the transfer is never ended, although the driver takes it to be complete.
\<close>
theorem i2c_long_read_without_stop:
  assumes "u < 2" "sdat_num (i2c_ll s u) = 0" "unat (rdat_num (i2c_ll s u)) = length ds" "ds \<noteq> []" "i_stat (i2cs s u) = I2C_INT_RX_FULL"
  shows "let s' = fold (rx_irq u) ds (trans_locked c u s)
    in i_cmds (i2cs s' u) = i_cmds (i2cs s u) @
         (if length ds = 1 then [I2C_DATA_CMD_CMD_READ OR I2C_DATA_CMD_STOP] else replicate (length ds) I2C_DATA_CMD_CMD_READ) \<and>
       rdat_num (i2c_ll s' u) = 0 \<and> i2c_state (i2c_ll s' u) = I2C_STS_STOP \<and> ioerr (i2c_ll s' u) = ioerr (i2c_ll s u)"
proof -
  let ?s = "trans_locked c u s"
  have "rdat_num (i2c_ll s u) > 1 \<longleftrightarrow> length ds \<noteq> 1" using assms(3,4) by (cases ds) (auto simp: word_less_nat_alt)
  then have "i2c_ll ?s u = (i2c_ll s u)\<lparr>i2c_state := I2C_STS_RECV\<rparr>" "i_stat (i2cs ?s u) = i_stat (i2cs s u)"
    "i_cmds (i2cs ?s u) = i_cmds (i2cs s u) @ [if length ds = 1 then I2C_DATA_CMD_CMD_READ OR I2C_DATA_CMD_STOP else I2C_DATA_CMD_CMD_READ]"
    using assms(2) by (auto simp: trans_locked_def case_prod_unfold Let_def out_cmd_def)
  moreover have "length ds \<noteq> 1 \<Longrightarrow> replicate (length ds) x = x # replicate (length ds - 1) x" for x :: UW using assms(4) by (cases ds) auto
  ultimately show ?thesis using i2c_receives[OF assms(1), of ?s ds] assms(3-5) by (simp add: Let_def)
qed

subsection \<open>Errors\<close>

lemma i2c_flag_set:
  fixes c :: nat
  assumes "flag_free f (i2c_kst s)" "f = done_flgid (i2c_ll s u)" "u < 2" "i_stat (i2cs s u) AND I2C_INT_ERROR \<noteq> 0"
  defines "s' \<equiv> i2c_inthdr c (intno_of u) s"
  shows "flag_free f (i2c_kst s') \<and> flgptn (flg (i2c_kst s') (get_flgcb f)) AND 1 \<noteq> 0 \<and> (\<forall>c'. in_ddsp c' (i2c_kst s') = in_ddsp c' (i2c_kst s))"
proof -
  define k0 where "k0 = i2c_kst (snd (I2C_LOCK c s))"
  have k0: "k0 = (i2c_kst s)\<lparr>smp := (smp (i2c_kst s))\<lparr>primask := (primask (smp (i2c_kst s)))(c := True)\<rparr>\<rparr>"
    by (simp add: k0_def I2C_LOCK_def i2c_set_mask_def)
  have f0: "CHK_FLGID f" "flgid (flg k0 (get_flgcb f)) \<noteq> 0" "que k0 (FlgQ (get_flgcb f)) = []" using assms(1) by (simp_all add: flag_free_def k0)
  have "s' = I2C_UNLOCK c (fst (I2C_LOCK c s)) (hdr_wup c (intno_of u) u (hdr_abort u (i_stat (i2cs s u)) (snd (I2C_LOCK c s))))"
    using assms(4) by (simp add: s'_def i2c_inthdr_unit[OF assms(3)] Let_def)
  moreover have "i2c_kst (hdr_wup c (intno_of u) u (hdr_abort u (i_stat (i2cs s u)) (snd (I2C_LOCK c s)))) = fst (tk_set_flg c f 1 k0)"
    by (simp add: hdr_wup_def hdr_abort_def k0_def assms(2))
  ultimately have k1: "i2c_kst s' = (END_CRITICAL_SECTION c (upd_flg (get_flgcb f) (\<lambda>F. F\<lparr>flgptn := flgptn F OR 1\<rparr>) k0))
      \<lparr>smp := (end_cs c (smp k0))\<lparr>primask := primask (smp (i2c_kst s))\<rparr>\<rparr>"
    unfolding set_flg_eq[OF f0] by (simp add: I2C_UNLOCK_def i2c_set_mask_def END_CRITICAL_SECTION_def I2C_LOCK_def k0)
  have "(x OR 1) AND (1 :: UW) \<noteq> 0" for x using and_or_mono[of 1 1 x] by (simp add: or.commute)
  then show ?thesis using assms(1) by (simp add: k1 flag_free_def k0 END_CRITICAL_SECTION_def in_ddsp_def in_indp_def knl_isTaskIndependent_def)
qed

text \<open>
  C29. Errors reach the caller. An error that the controller reports ends the transfer in whatever state it is: the handler masks the interrupts and records the
  error without another command to the bus. The task, before the test of the error or before its wait, returns with \<open>E_IO\<close> and switches the controller off.
\<close>
theorem i2c_error_reported:
  assumes "u < 2" "i_stat (i2cs s u) AND I2C_INT_ERROR \<noteq> 0" "flag_free (done_flgid (i2c_ll s u)) (i2c_kst s)" "\<not> in_ddsp c2 (i2c_kst s)"
  shows "let s' = i2c_inthdr c (intno_of u) s
    in i2c_state (i2c_ll s' u) = I2C_STS_STOP \<and> err_reason (i2c_ll s' u) = i_stat (i2cs s u) \<and> i_mask (i2cs s' u) = 0 \<and>
       i_cmds (i2cs s' u) = i_cmds (i2cs s u) \<and>
       (\<exists>s2. trans_step t p u c2 (T_Check, err, s') = (T_Done E_IO, E_IO, s2) \<and> i_enable (i2cs s2 u) = 0) \<and>
       (\<exists>s3. trans_step t p u c3 (trans_step t p u c2 (T_Wait, err, s')) = (T_Done E_IO, E_IO, s3) \<and> i_enable (i2cs s3 u) = 0)"
proof -
  define s' where "s' = i2c_inthdr c (intno_of u) s"
  have h: "s' = I2C_UNLOCK c (fst (I2C_LOCK c s)) (hdr_wup c (intno_of u) u (hdr_abort u (i_stat (i2cs s u)) (snd (I2C_LOCK c s))))"
    using assms(2) by (simp add: s'_def i2c_inthdr_unit[OF assms(1)] Let_def)
  then have f: "i2c_ll s' u = (i2c_ll s u)\<lparr>ioerr := E_IO, err_reason := i_stat (i2cs s u), i2c_state := I2C_STS_STOP\<rparr>"
    "i_mask (i2cs s' u) = 0" "i_cmds (i2cs s' u) = i_cmds (i2cs s u)"
    by (simp_all add: hdr_abort_def hdr_wup_def)
  note fl = i2c_flag_set[OF assms(3) refl assms(1,2), of c, folded s'_def]
  have w: "snd (tk_wai_flg c2 (done_flgid (i2c_ll s u)) 1 (TWF_ORW OR TWF_BITCLR) p I2C_TMO (i2c_kst s')) = Ret E_OK"
    using fl assms(4) by (intro wai_flg_ready) (simp_all add: flag_free_def I2C_TMO_def)
  then obtain k where k: "tk_wai_flg c2 (done_flgid (i2c_ll s u)) 1 (TWF_ORW OR TWF_BITCLR) p I2C_TMO (i2c_kst s') = (k, Ret E_OK)"
    by (metis prod.collapse)
  have "trans_step t p u c2 (T_Wait, err, s') = (T_Loop, E_IO, upd_i2ck (\<lambda>_. k) s')"
    using k f(1) by (simp add: trans_step_def trans_waited_def)
  then show ?thesis unfolding s'_def[symmetric] Let_def using f by (simp add: trans_step_def trans_end_def)
qed

subsection \<open>A concrete controller\<close>

definition ex_i2c :: "i2c_sts \<Rightarrow> UW \<Rightarrow> UW \<Rightarrow> UW \<Rightarrow> i2cst" where
  "ex_i2c st sn rn sts = \<lparr>dev_i2c_cb = (\<lambda>u. \<lparr>id_unit = u, id_omode = 3, id_evtmbfid = 0\<rparr>),
     i2c_ll = (\<lambda>_. \<lparr>done_flgid = 1, i2c_state = st, i2c_sadr = 0x50, ioerr = E_OK, err_reason = 0, sdat_num = sn, rdat_num = rn,
       sbuf = 0x20001000, rbuf = 0x20002000\<rparr>),
     i2cs = (\<lambda>_. \<lparr>i_con = 0x165, i_tar = 0x50, i_mask = 0, i_enable = 1, i_rx_tl = 0, i_tx_tl = 0, i_dma_cr = 3, i_hcnt = 126, i_lcnt = 187, i_spklen = 11,
       i_hold = 38, i_cmds = [], i_stat = sts, i_data = 0\<rparr>),
     i2c_nvics = (\<lambda>_. \<lparr>nv_en = 0, nv_pend = 0, nv_ipr = (\<lambda>_. 0)\<rparr>), i2c_ints = \<lparr>exchdr = (\<lambda>_. 0), inthdr_tbl = (\<lambda>_. 0), hll = 1, dflt = 2\<rparr>,
     i2c_board = \<lparr>reset_reg = 0, reset_done = 0x18, gpio_ctrl = (\<lambda>_. 0), gpio_pad = (\<lambda>_. 0)\<rparr>,
     i2c_knl = (knl (ex_ser 0 0))\<lparr>kst := (kst (knl (ex_ser 0 0)))\<lparr>mem := (\<lambda>a. if a = 0x20001000 then 0x10 else 0x20)\<rparr>\<rparr>\<rparr>"

lemma ex_i2c_sel [simp]:
  "i2c_state (i2c_ll (ex_i2c st sn rn sts) u) = st" "sdat_num (i2c_ll (ex_i2c st sn rn sts) u) = sn" "rdat_num (i2c_ll (ex_i2c st sn rn sts) u) = rn"
  "i_stat (i2cs (ex_i2c st sn rn sts) u) = sts" "i_cmds (i2cs (ex_i2c st sn rn sts) u) = []" "sbuf (i2c_ll (ex_i2c st sn rn sts) u) = 0x20001000"
  "done_flgid (i2c_ll (ex_i2c st sn rn sts) u) = 1" "mem (i2c_kst (ex_i2c st sn rn sts)) = (\<lambda>a. if a = 0x20001000 then 0x10 else 0x20)"
  by (simp_all add: ex_i2c_def i2c_kst_def)

theorem i2c_sends_in_order_witness:
  "let s' = fold (\<lambda>c. i2c_inthdr c 23) [0, 0] (ex_i2c I2C_STS_SEND 2 0 0x10)
   in i_cmds (i2cs s' 0) = [0x10, 0x220] \<and> i2c_state (i2c_ll s' 0) = I2C_STS_STOP"
  using i2c_sends_in_order[of 0 "ex_i2c I2C_STS_SEND 2 0 0x10" "[0x10, 0x20]" "[0, 0]"] by (simp add: Let_def intno_of_def)

theorem i2c_long_read_without_stop_witness:
  "let s' = fold (rx_irq 0) [(0, 1), (0, 2), (0, 3)] (trans_locked 0 0 (ex_i2c I2C_STS_START 0 3 4))
   in i_cmds (i2cs s' 0) = [0x100, 0x100, 0x100] \<and> i2c_state (i2c_ll s' 0) = I2C_STS_STOP"
  using i2c_long_read_without_stop[of 0 "ex_i2c I2C_STS_START 0 3 4" "[(0, 1), (0, 2), (0, 3)]" 0] by (simp add: Let_def)

theorem i2c_error_reported_witness:
  "\<exists>s2. trans_step 0 0 0 0 (T_Check, 0, i2c_inthdr 0 23 (ex_i2c I2C_STS_SEND 2 0 0x40)) = (T_Done E_IO, E_IO, s2)"
proof -
  have "flag_free 1 (i2c_kst (ex_i2c I2C_STS_SEND 2 0 0x40))"
    by (simp add: flag_free_def CHK_FLGID_def size_defs ex_i2c_def i2c_kst_def ex_ser_def ex_dev_def ex_state_def get_flgcb_def)
  moreover have "\<not> in_ddsp 0 (i2c_kst (ex_i2c I2C_STS_SEND 2 0 0x40))"
    by (simp add: in_ddsp_def in_indp_def knl_isTaskIndependent_def ex_i2c_def i2c_kst_def ex_ser_def ex_dev_def ex_state_def ex_smp_def)
  ultimately show ?thesis using i2c_error_reported[of 0 "ex_i2c I2C_STS_SEND 2 0 0x40" 0 0 0 0 0 0] by (auto simp: Let_def intno_of_def)
qed

end
