(* ===== verification/Adc.thy ===== *)
theory Adc
  imports Device_Io Cpu_Calls Msdi
begin

text \<open>
  The driver of the A/D converter: \<^verbatim>\<open>device/adc/adc.c\<close> and \<^verbatim>\<open>sysdepend/rp2040/adc_rp2040.c\<close>. A task starts one conversion and waits for an event flag;
  the interrupt handler takes the sample from the FIFO of the converter. The model has the registers that the driver writes, the values of the control register with
  which a conversion was started in their order, what the FIFO holds, and, as an input, whether the status register shows that the converter is ready.
\<close>

subsection \<open>Data\<close>

record adc_ll =
  ad_flgid :: int
  ad_buf :: UW
  ad_asz :: int
  ad_active :: bool

record adc_regs =
  a_cs :: UW
  a_fcs :: UW
  a_div :: UW
  a_inte :: UW
  a_starts :: "UW list"
  a_fifo :: "UW list"
  a_empty :: UW
  a_ready :: bool

record t_adc_dcb =
  ad_unit :: UW
  ad_omode :: UW
  ad_evtmbfid :: int

record adcst =
  dev_adc_cb :: "nat \<Rightarrow> t_adc_dcb"
  adc_llcb :: adc_ll
  adc_hw :: adc_regs
  adc_nvics :: "nat \<Rightarrow> nvic"
  adc_ints :: intst
  adc_knl :: devst

definition upd_adl :: "(adc_ll \<Rightarrow> adc_ll) \<Rightarrow> adcst \<Rightarrow> adcst" where "upd_adl f s = s\<lparr>adc_llcb := f (adc_llcb s)\<rparr>"
definition upd_adr :: "(adc_regs \<Rightarrow> adc_regs) \<Rightarrow> adcst \<Rightarrow> adcst" where "upd_adr f s = s\<lparr>adc_hw := f (adc_hw s)\<rparr>"
definition adc_kst :: "adcst \<Rightarrow> kstate" where "adc_kst s = kst (adc_knl s)"

definition upd_adk :: "(kstate \<Rightarrow> kstate) \<Rightarrow> adcst \<Rightarrow> adcst" where
  "upd_adk f s = s\<lparr>adc_knl := (adc_knl s)\<lparr>kst := f (kst (adc_knl s))\<rparr>\<rparr>"

definition adc_clear_int :: "nat \<Rightarrow> UW \<Rightarrow> adcst \<Rightarrow> adcst" where
  "adc_clear_int c intno s = s\<lparr>adc_nvics := (adc_nvics s)(c := ClearInt intno (adc_nvics s c))\<rparr>"

text \<open>The lock: the mask of the own core; the spinlock is free at the start of every step.\<close>

definition adc_set_mask :: "nat \<Rightarrow> bool \<Rightarrow> adcst \<Rightarrow> adcst" where
  "adc_set_mask c m = upd_adk (\<lambda>k. k\<lparr>smp := (smp k)\<lparr>primask := (primask (smp k))(c := m)\<rparr>\<rparr>)"

definition ADC_LOCK :: "nat \<Rightarrow> adcst \<Rightarrow> bool \<times> adcst" where "ADC_LOCK c s = (primask (smp (adc_kst s)) c, adc_set_mask c True s)"
definition ADC_UNLOCK :: "nat \<Rightarrow> bool \<Rightarrow> adcst \<Rightarrow> adcst" where "ADC_UNLOCK c sts s = adc_set_mask c sts s"

subsection \<open>The interrupt handler\<close>

abbreviation (input) ADC_CS_EN :: UW where "ADC_CS_EN \<equiv> 1"
abbreviation (input) ADC_CS_STRAT_ONCE :: UW where "ADC_CS_STRAT_ONCE \<equiv> 4"
abbreviation (input) ADC_FCS_EN :: UW where "ADC_FCS_EN \<equiv> 1"
abbreviation (input) E_IO_ADC :: ER where "E_IO_ADC \<equiv> - 57"

definition ADC_CH_NUM :: int where "ADC_CH_NUM = 5"
definition INTNO_ADC :: UW where "INTNO_ADC = 22"

text \<open>Reading the FIFO takes its oldest sample out; \<open>a_empty\<close> is what reading it gives when it has none.\<close>

definition in_fifo :: "adcst \<Rightarrow> UW \<times> adcst" where
  "in_fifo s = (case a_fifo (adc_hw s) of [] \<Rightarrow> (a_empty (adc_hw s), s) | v # vs \<Rightarrow> (v, upd_adr (\<lambda>R. R\<lparr>a_fifo := vs\<rparr>) s))"

definition adc_inthdr :: "nat \<Rightarrow> UW \<Rightarrow> adcst \<Rightarrow> adcst" where
  "adc_inthdr c intno s =
     (let (intsts, s) = ADC_LOCK c s;
          (s, fin) =
            (if ad_active (adc_llcb s) \<and> ad_buf (adc_llcb s) \<noteq> 0
             then let (v, s) = in_fifo s;
                      s = upd_adk (\<lambda>k. k\<lparr>mem := st32 (ad_buf (adc_llcb s)) (v AND 0x0FFF) (mem k)\<rparr>) s
                  in (upd_adl (\<lambda>L. L\<lparr>ad_asz := 1, ad_active := False\<rparr>) s, True)
             else (s, False));
          s = upd_adr (\<lambda>R. R\<lparr>a_inte := 0\<rparr>) s;
          s = (if fin then upd_adk (\<lambda>k. fst (tk_set_flg c (ad_flgid (adc_llcb s)) 1 k)) s else s);
          s = ADC_UNLOCK c intsts s
      in adc_clear_int c intno s)"

subsection \<open>A conversion\<close>

text \<open>
  Where the task stands in \<open>adc_convert\<close>: at the test that the converter is ready, before the locked part that starts the conversion, before the wait, waiting,
  behind the wait with its result, returned.
\<close>

datatype adcpc = A_Ready | A_Start | A_Wait | A_Woken | A_Waited ER | A_Done int

definition conv_start :: "nat \<Rightarrow> int \<Rightarrow> UW \<Rightarrow> adcst \<Rightarrow> adcst" where
  "conv_start c ch buf s =
     (let (intsts, s) = ADC_LOCK c s;
          s = upd_adk (\<lambda>k. fst (tk_clr_flg c (ad_flgid (adc_llcb s)) 0 k)) s;
          s = upd_adl (\<lambda>L. L\<lparr>ad_buf := buf, ad_asz := 0, ad_active := True\<rparr>) s;
          s = upd_adr (\<lambda>R. R\<lparr>a_inte := 1, a_cs := push_bit 12 (word_of_int ch) OR ADC_CS_EN\<rparr>) s;
          s = upd_adr (\<lambda>R. R\<lparr>a_starts := a_starts R @ [a_cs R OR ADC_CS_STRAT_ONCE]\<rparr>) s
      in ADC_UNLOCK c intsts s)"

definition conv_end :: "nat \<Rightarrow> ER \<Rightarrow> adcst \<Rightarrow> adcpc \<times> adcst" where
  "conv_end c err s =
     (let (intsts, s) = ADC_LOCK c s;
          s = (if err < E_OK \<and> ad_active (adc_llcb s)
               then upd_adl (\<lambda>L. L\<lparr>ad_active := False, ad_buf := 0\<rparr>) (upd_adr (\<lambda>R. R\<lparr>a_inte := 0\<rparr>) s) else s);
          err = (if err = E_OK then if ad_asz (adc_llcb s) = 1 then 1 else E_IO_ADC else err)
      in (A_Done err, ADC_UNLOCK c intsts s))"

definition DEVCNF_ADC_TMOSCAN :: int where "DEVCNF_ADC_TMOSCAN = 1000"

text \<open>\<open>t\<close> is the calling task, \<open>p\<close> the address of its local variable \<open>flgptn\<close>.\<close>

definition conv_step :: "nat \<Rightarrow> UW \<Rightarrow> int \<Rightarrow> UW \<Rightarrow> nat \<Rightarrow> adcpc \<times> adcst \<Rightarrow> adcpc \<times> adcst" where
  "conv_step t p ch buf c = (\<lambda>(pc, s).
     case pc of
       A_Ready \<Rightarrow> (if a_ready (adc_hw s) then A_Start else A_Ready, s)
     | A_Start \<Rightarrow> (A_Wait, conv_start c ch buf s)
     | A_Wait \<Rightarrow>
         (case tk_wai_flg c (ad_flgid (adc_llcb s)) 1 (TWF_ORW OR TWF_BITCLR) p DEVCNF_ADC_TMOSCAN (adc_kst s) of
            (k, Ret er) \<Rightarrow> (A_Waited er, upd_adk (\<lambda>_. k) s)
          | (k, Blocked) \<Rightarrow> (A_Woken, upd_adk (\<lambda>_. k) s))
     | A_Woken \<Rightarrow> (A_Waited (ercd (adc_kst s) t), s)
     | A_Waited err \<Rightarrow> conv_end c err s
     | A_Done e \<Rightarrow> (pc, s))"

text \<open>A run: before every step of the task, what happens meanwhile, and the core of the step.\<close>

fun conv_run :: "nat \<Rightarrow> UW \<Rightarrow> int \<Rightarrow> UW \<Rightarrow> ((adcst \<Rightarrow> adcst) \<times> nat) list \<Rightarrow> adcpc \<times> adcst \<Rightarrow> adcpc \<times> adcst" where
  "conv_run t p ch buf [] x = x"
| "conv_run t p ch buf ((e, c) # E) (pc, s) =
     (case pc of A_Done _ \<Rightarrow> (pc, s) | _ \<Rightarrow> conv_run t p ch buf E (conv_step t p ch buf c (pc, e s)))"

definition adc_convert :: "nat \<Rightarrow> UW \<Rightarrow> ((adcst \<Rightarrow> adcst) \<times> nat) list \<Rightarrow> int \<Rightarrow> int \<Rightarrow> UW \<Rightarrow> adcst \<Rightarrow> (adcst \<times> int) option" where
  "adc_convert t p E ch sz buf s =
     (if ch < 0 \<or> ch > ADC_CH_NUM - 1 then Some (s, E_PAR)
      else if sz \<noteq> 1 then Some (s, E_PAR)
      else case conv_run t p ch buf E (A_Ready, s) of (A_Done r, s) \<Rightarrow> Some (s, r) | _ \<Rightarrow> None)"

subsection \<open>Low-level control\<close>

definition ADC_DIV_INI :: UW where "ADC_DIV_INI = 0"

definition adc_open :: "adcst \<Rightarrow> adcst \<times> ER" where
  "adc_open s = (upd_adr (\<lambda>R. R\<lparr>a_div := ADC_DIV_INI, a_fcs := push_bit 24 1 OR ADC_FCS_EN\<rparr>) s, E_OK)"

definition adc_close :: "adcst \<Rightarrow> adcst" where "adc_close s = upd_adr (\<lambda>R. R\<lparr>a_inte := 0\<rparr>) s"

datatype t_lld_adc_cmd = LLD_ADC_OPEN | LLD_ADC_CLOSE | LLD_ADC_READ | LLD_ADC_RSIZE

definition dev_adc_llctl ::
  "nat \<Rightarrow> UW \<Rightarrow> ((adcst \<Rightarrow> adcst) \<times> nat) list \<Rightarrow> UW \<Rightarrow> t_lld_adc_cmd \<Rightarrow> UW \<Rightarrow> UW \<Rightarrow> UW \<Rightarrow> adcst \<Rightarrow> (adcst \<times> int) option" where
  "dev_adc_llctl t p E u cmd p1 p2 pp s =
     (case cmd of
        LLD_ADC_OPEN \<Rightarrow> Some (adc_open s)
      | LLD_ADC_CLOSE \<Rightarrow> Some (adc_close s, E_OK)
      | LLD_ADC_READ \<Rightarrow> adc_convert t p E (sint p1) (sint p2) pp s
      | LLD_ADC_RSIZE \<Rightarrow> Some (s, 1))"

text \<open>The code waits until the converter is ready; there is no value when it is not. Reset and pins are left alone in this configuration.\<close>

definition dev_adc_llinit :: "nat \<Rightarrow> UW \<Rightarrow> adcst \<Rightarrow> (adcst \<times> ER) option" where
  "dev_adc_llinit c ih s =
     (let (k, fid) = tk_cre_flg c \<lparr>cf_exinf = 0, cf_flgatr = 0, cf_iflgptn = 0\<rparr> (adc_kst s);
          s = upd_adl (\<lambda>L. L\<lparr>ad_flgid := fid\<rparr>) (upd_adk (\<lambda>_. k) s)
      in if fid < E_OK then Some (s, fid)
         else let s = upd_adl (\<lambda>L. L\<lparr>ad_buf := 0, ad_asz := 0, ad_active := False\<rparr>) s;
                  s = upd_adr (\<lambda>R. R\<lparr>a_cs := a_cs R OR ADC_CS_EN\<rparr>) s
              in if \<not> a_ready (adc_hw s) then None
                 else let ((v, k), err) = tk_def_int c INTNO_ADC (Some \<lparr>di_intatr = TA_HLNG, di_inthdr = ih\<rparr>) (adc_ints s, adc_kst s);
                          s = upd_adk (\<lambda>_. k) (s\<lparr>adc_ints := v\<rparr>)
                      in Some (if err = E_OK
                               then let s = adc_clear_int c INTNO_ADC s
                                    in (s\<lparr>adc_nvics := (adc_nvics s)(c := EnableInt INTNO_ADC 2 (adc_nvics s c))\<rparr>, err)
                               else (upd_adk (\<lambda>k. fst (tk_del_flg c fid k)) s, err)))"

subsection \<open>Functions of the driver\<close>

abbreviation (input) TDN_EVENT_ADC :: int where "TDN_EVENT_ADC \<equiv> - 1"

definition adc_read_atr :: "nat \<Rightarrow> t_devreq \<Rightarrow> adcst \<Rightarrow> adcst \<times> t_devreq \<times> ER" where
  "adc_read_atr d r s =
     (if dr_start r = TDN_EVENT_ADC
      then if dr_size r \<ge> 4
           then (upd_adk (\<lambda>k. k\<lparr>mem := st32 (dr_buf r) (word_of_int (ad_evtmbfid (dev_adc_cb s d))) (mem k)\<rparr>) s, r\<lparr>dr_asize := 4\<rparr>, E_OK)
           else if dr_size r \<noteq> 0 then (s, r, E_PAR) else (s, r\<lparr>dr_asize := 4\<rparr>, E_OK)
      else (s, r, E_PAR))"

definition adc_write_atr :: "nat \<Rightarrow> t_devreq \<Rightarrow> adcst \<Rightarrow> adcst \<times> t_devreq \<times> ER" where
  "adc_write_atr d r s =
     (if dr_start r = TDN_EVENT_ADC
      then if dr_size r \<ge> 4
           then (s\<lparr>dev_adc_cb := (dev_adc_cb s)(d := (dev_adc_cb s d)\<lparr>ad_evtmbfid := sint (ld32 (dr_buf r) (mem (adc_kst s)))\<rparr>)\<rparr>,
                 r\<lparr>dr_asize := 4\<rparr>, E_OK)
           else if dr_size r \<noteq> 0 then (s, r, E_PAR) else (s, r\<lparr>dr_asize := 4\<rparr>, E_OK)
      else (s, r, E_PAR))"

definition adc_read_data :: "nat \<Rightarrow> UW \<Rightarrow> nat \<Rightarrow> ((adcst \<Rightarrow> adcst) \<times> nat) list \<Rightarrow> t_devreq \<Rightarrow> adcst \<Rightarrow> (adcst \<times> t_devreq \<times> ER) option" where
  "adc_read_data t p d E r s =
     (let u = ad_unit (dev_adc_cb s d)
      in if dr_size r \<noteq> 0
         then map_option (\<lambda>(s, rtn). if rtn > 0 then (s, r\<lparr>dr_asize := rtn\<rparr>, if dr_size r \<noteq> rtn then E_IO_ADC else E_OK) else (s, r, rtn))
                (dev_adc_llctl t p E u LLD_ADC_READ (word_of_int (dr_start r)) (word_of_int (dr_size r)) (dr_buf r) s)
         else map_option (\<lambda>(s, rtn). (s, r\<lparr>dr_asize := rtn\<rparr>, E_OK)) (dev_adc_llctl t p E u LLD_ADC_RSIZE (word_of_int (dr_start r)) 0 0 s))"

definition dev_adc_openfn :: "UW \<Rightarrow> nat \<Rightarrow> adcst \<Rightarrow> (adcst \<times> ER) option" where
  "dev_adc_openfn om d s =
     (let s = s\<lparr>dev_adc_cb := (dev_adc_cb s)(d := (dev_adc_cb s d)\<lparr>ad_omode := om\<rparr>)\<rparr>
      in dev_adc_llctl 0 0 [] (ad_unit (dev_adc_cb s d)) LLD_ADC_OPEN 0 0 0 s)"

definition dev_adc_closefn :: "nat \<Rightarrow> adcst \<Rightarrow> (adcst \<times> ER) option" where
  "dev_adc_closefn d s = dev_adc_llctl 0 0 [] (ad_unit (dev_adc_cb s d)) LLD_ADC_CLOSE 0 0 0 s"

definition dev_adc_readfn :: "nat \<Rightarrow> UW \<Rightarrow> nat \<Rightarrow> ((adcst \<Rightarrow> adcst) \<times> nat) list \<Rightarrow> t_devreq \<Rightarrow> adcst \<Rightarrow> (adcst \<times> t_devreq \<times> ER) option" where
  "dev_adc_readfn t p d E r s =
     (if dr_start r \<ge> 0
      then if ad_omode (dev_adc_cb s d) AND TD_READ \<noteq> 0 then adc_read_data t p d E r s else Some (s, r, E_OACV)
      else Some (adc_read_atr d r s))"

definition dev_adc_writefn :: "nat \<Rightarrow> t_devreq \<Rightarrow> adcst \<Rightarrow> adcst \<times> t_devreq \<times> ER" where
  "dev_adc_writefn d r s = (if dr_start r \<ge> 0 then (s, r, E_PAR) else adc_write_atr d r s)"

definition dev_adc_eventfn :: "int \<Rightarrow> UW \<Rightarrow> ER" where "dev_adc_eventfn evttyp evtinf = E_NOSPT_MSDI"

subsection \<open>Initialisation\<close>

definition sizeof_T_ADC_DCB :: int where "sizeof_T_ADC_DCB = 12"
definition DEV_ADC_UNITNM :: nat where "DEV_ADC_UNITNM = 1"

definition adc_dmsdi :: "t_dmsdi \<Rightarrow> UW \<Rightarrow> nat \<Rightarrow> t_dmsdi" where
  "adc_dmsdi fns p u = fns\<lparr>dm_exinf := p, dm_drvatr := 0, dm_devatr := 0, dm_nsub := 0, dm_blksz := 1,
     dm_devnm := [0x61, 0x64, 0x63, 0x61 + of_nat u]\<rparr>"

definition adc_Kfree :: "nat \<Rightarrow> UW \<Rightarrow> (UW \<Rightarrow> t_msdi) \<times> adcst \<Rightarrow> ER \<Rightarrow> (((UW \<Rightarrow> t_msdi) \<times> adcst) \<times> ER) option" where
  "adc_Kfree c p = (\<lambda>(M, s) err. map_option (\<lambda>k. ((M, upd_adk (\<lambda>_. k) s), err)) (Kfree c p (adc_kst s)))"

definition dev_init_adc :: "t_ddev \<Rightarrow> t_dmsdi \<Rightarrow> UW \<Rightarrow> UW \<Rightarrow> nat \<Rightarrow> nat \<Rightarrow> (UW \<Rightarrow> t_msdi) \<times> adcst \<Rightarrow> (((UW \<Rightarrow> t_msdi) \<times> adcst) \<times> ER) option" where
  "dev_init_adc F fns ih nm c u = (\<lambda>(M, s).
     if u \<ge> DEV_ADC_UNITNM then Some ((M, s), E_PAR)
     else do {
       (k, p) \<leftarrow> Kmalloc c sizeof_T_ADC_DCB (adc_kst s);
       let s = upd_adk (\<lambda>_. k) s;
       (if p = 0 then Some ((M, s), E_NOMEM)
        else do {
          (ms, err, idv, m) \<leftarrow> msdi_def_dev F c nm (adc_dmsdi fns p u) \<lparr>msdis = M, mdev = adc_knl s\<rparr>;
          let M = msdis ms;
          let s = s\<lparr>adc_knl := mdev ms\<rparr>;
          (case idv of
             None \<Rightarrow> adc_Kfree c p (M, s) err
           | Some iv \<Rightarrow> do {
               let s = s\<lparr>dev_adc_cb := (dev_adc_cb s)(u := (dev_adc_cb s u)\<lparr>ad_unit := of_nat u, ad_evtmbfid := evtmbfid iv\<rparr>)\<rparr>;
               (s, err) \<leftarrow> dev_adc_llinit c ih s;
               (if err \<noteq> E_OK
                then do {
                  (ms, er) \<leftarrow> msdi_del_dev c m \<lparr>msdis = M, mdev = adc_knl s\<rparr>;
                  adc_Kfree c p (msdis ms, s\<lparr>adc_knl := mdev ms\<rparr>) err
                }
                else Some ((M, s), E_OK))
             })
        })
     })"

end
