(* ===== verification/Adc_Props.thy ===== *)
theory Adc_Props
  imports Adc Serial_Props
begin

text \<open>
  The A/D converter: what a conversion returns, and what a conversion leaves behind whose wait ends without a sample.
\<close>

subsection \<open>Frames\<close>

lemma adc_sel [simp]:
  "adc_llcb (upd_adl f s) = f (adc_llcb s)" "adc_hw (upd_adl f s) = adc_hw s" "adc_kst (upd_adl f s) = adc_kst s"
  "adc_llcb (upd_adr g s) = adc_llcb s" "adc_hw (upd_adr g s) = g (adc_hw s)" "adc_kst (upd_adr g s) = adc_kst s"
  "adc_llcb (upd_adk h s) = adc_llcb s" "adc_hw (upd_adk h s) = adc_hw s" "adc_kst (upd_adk h s) = h (adc_kst s)"
  "adc_llcb (adc_clear_int c i s) = adc_llcb s" "adc_hw (adc_clear_int c i s) = adc_hw s" "adc_kst (adc_clear_int c i s) = adc_kst s"
  by (simp_all add: upd_adl_def upd_adr_def upd_adk_def adc_clear_int_def adc_kst_def)

lemma adc_lock_sel [simp]:
  "adc_llcb (adc_set_mask c m s) = adc_llcb s" "adc_hw (adc_set_mask c m s) = adc_hw s"
  "adc_kst (adc_set_mask c m s) = (adc_kst s)\<lparr>smp := (smp (adc_kst s))\<lparr>primask := (primask (smp (adc_kst s)))(c := m)\<rparr>\<rparr>"
  by (simp_all add: adc_set_mask_def)

lemmas adc_locks = ADC_LOCK_def ADC_UNLOCK_def

text \<open>What a step on the converter leaves of the kernel: the event flag, free of waiters, and the ability to wait.\<close>

definition flag_kept :: "int \<Rightarrow> kstate \<Rightarrow> kstate \<Rightarrow> bool" where
  "flag_kept f k k' \<longleftrightarrow> (flag_free f k \<longrightarrow> flag_free f k') \<and> dispatch_disabled (smp k') = dispatch_disabled (smp k) \<and>
     taskindp (smp k') = taskindp (smp k) \<and> ctxtsk (smp k') = ctxtsk (smp k)"

lemma flag_kept_refl [simp]: "flag_kept f k k"
  by (simp add: flag_kept_def)

lemma flag_kept_trans: "flag_kept f k k' \<Longrightarrow> flag_kept f k' k'' \<Longrightarrow> flag_kept f k k''"
  by (simp add: flag_kept_def)

lemma flag_kept_mask [simp]: "flag_kept f k0 (k\<lparr>smp := (smp k)\<lparr>primask := m\<rparr>\<rparr>) = flag_kept f k0 k"
  by (simp add: flag_kept_def flag_free_def)

lemma flag_kept_mem [simp]: "flag_kept f k0 (k\<lparr>mem := m\<rparr>) = flag_kept f k0 k"
  by (simp add: flag_kept_def flag_free_def)

lemma flag_kept_ptn [simp]: "flag_kept f k (END_CRITICAL_SECTION c (upd_flg i (\<lambda>F. F\<lparr>flgptn := g F\<rparr>) k))"
  by (simp add: flag_kept_def flag_free_def END_CRITICAL_SECTION_def)

lemma flag_kept_ddsp: "flag_kept f k k' \<Longrightarrow> primask (smp k') = primask (smp k) \<Longrightarrow> in_ddsp c k' = in_ddsp c k"
  by (simp add: flag_kept_def in_ddsp_def in_indp_def knl_isTaskIndependent_def)

subsection \<open>The start of a conversion and the handler\<close>

lemma conv_start_eff:
  fixes c :: nat and ch :: int and buf :: UW
  assumes "flag_free (ad_flgid (adc_llcb s)) (adc_kst s)"
  defines "s' \<equiv> conv_start c ch buf s"
  shows "adc_llcb s' = (adc_llcb s)\<lparr>ad_buf := buf, ad_asz := 0, ad_active := True\<rparr>"
    "a_fifo (adc_hw s') = a_fifo (adc_hw s)" "a_inte (adc_hw s') = 1"
    "a_starts (adc_hw s') = a_starts (adc_hw s) @ [push_bit 12 (word_of_int ch) OR ADC_CS_EN OR ADC_CS_STRAT_ONCE]"
    "flag_kept (ad_flgid (adc_llcb s)) (adc_kst s) (adc_kst s')" "primask (smp (adc_kst s')) = primask (smp (adc_kst s))" "a_ready (adc_hw s') = a_ready (adc_hw s)"
proof -
  let ?f = "ad_flgid (adc_llcb s)"
  show "adc_llcb s' = (adc_llcb s)\<lparr>ad_buf := buf, ad_asz := 0, ad_active := True\<rparr>"
    "a_fifo (adc_hw s') = a_fifo (adc_hw s)" "a_inte (adc_hw s') = 1"
    "a_starts (adc_hw s') = a_starts (adc_hw s) @ [push_bit 12 (word_of_int ch) OR ADC_CS_EN OR ADC_CS_STRAT_ONCE]" "a_ready (adc_hw s') = a_ready (adc_hw s)"
    by (simp_all add: s'_def conv_start_def adc_locks Let_def or.assoc)
  define k0 where "k0 = adc_kst (adc_set_mask c True s)"
  have m: "flag_kept ?f (adc_kst s) k0" by (simp add: k0_def)
  then have "flag_free ?f k0" using assms(1) by (simp add: flag_kept_def)
  then have e: "fst (tk_clr_flg c ?f 0 k0) = END_CRITICAL_SECTION c (upd_flg (get_flgcb ?f) (\<lambda>F. F\<lparr>flgptn := 0\<rparr>) k0)"
    by (intro clr_flg_eq) (simp_all add: flag_free_def)
  have k: "adc_kst s' = (fst (tk_clr_flg c ?f 0 k0))\<lparr>smp := (smp (fst (tk_clr_flg c ?f 0 k0)))
      \<lparr>primask := (primask (smp (fst (tk_clr_flg c ?f 0 k0))))(c := primask (smp (adc_kst s)) c)\<rparr>\<rparr>"
    by (simp add: s'_def conv_start_def adc_locks Let_def k0_def)
  show "flag_kept ?f (adc_kst s) (adc_kst s')" unfolding k e using m by (rule flag_kept_trans) (simp only: flag_kept_mask flag_kept_ptn)
  show "primask (smp (adc_kst s')) = primask (smp (adc_kst s))" unfolding k e by (simp add: k0_def END_CRITICAL_SECTION_def)
qed

text \<open>The handler, when a conversion waits for its sample.\<close>

lemma adc_inthdr_active:
  fixes c :: nat and i :: UW
  assumes "flag_free (ad_flgid (adc_llcb s)) (adc_kst s)" "ad_active (adc_llcb s)" "ad_buf (adc_llcb s) \<noteq> 0" "a_fifo (adc_hw s) = v # vs"
  defines "s' \<equiv> adc_inthdr c i s"
  shows "adc_llcb s' = (adc_llcb s)\<lparr>ad_asz := 1, ad_active := False\<rparr>"
    "a_fifo (adc_hw s') = vs" "a_inte (adc_hw s') = 0" "a_starts (adc_hw s') = a_starts (adc_hw s)"
    "mem (adc_kst s') = st32 (ad_buf (adc_llcb s)) (v AND 0x0FFF) (mem (adc_kst s))"
    "flag_kept (ad_flgid (adc_llcb s)) (adc_kst s) (adc_kst s')"
    "flgptn (flg (adc_kst s') (get_flgcb (ad_flgid (adc_llcb s)))) AND 1 \<noteq> 0" "primask (smp (adc_kst s')) = primask (smp (adc_kst s))" "a_ready (adc_hw s') = a_ready (adc_hw s)"
proof -
  let ?f = "ad_flgid (adc_llcb s)"
  define k0 where "k0 = (adc_kst (adc_set_mask c True s))\<lparr>mem := st32 (ad_buf (adc_llcb s)) (v AND 0x0FFF) (mem (adc_kst s))\<rparr>"
  have m: "flag_kept ?f (adc_kst s) k0" by (simp add: k0_def)
  then have "flag_free ?f k0" using assms(1) by (simp add: flag_kept_def)
  then have e: "fst (tk_set_flg c ?f 1 k0) = END_CRITICAL_SECTION c (upd_flg (get_flgcb ?f) (\<lambda>F. F\<lparr>flgptn := flgptn F OR 1\<rparr>) k0)"
    by (intro set_flg_eq) (simp_all add: flag_free_def)
  have k: "adc_kst s' = (fst (tk_set_flg c ?f 1 k0))\<lparr>smp := (smp (fst (tk_set_flg c ?f 1 k0)))
      \<lparr>primask := (primask (smp (fst (tk_set_flg c ?f 1 k0))))(c := primask (smp (adc_kst s)) c)\<rparr>\<rparr>"
    using assms(2-4) by (simp add: s'_def adc_inthdr_def in_fifo_def adc_locks k0_def)
  show "adc_llcb s' = (adc_llcb s)\<lparr>ad_asz := 1, ad_active := False\<rparr>"
    "a_fifo (adc_hw s') = vs" "a_inte (adc_hw s') = 0" "a_starts (adc_hw s') = a_starts (adc_hw s)" "a_ready (adc_hw s') = a_ready (adc_hw s)"
    using assms(2-4) by (simp_all add: s'_def adc_inthdr_def in_fifo_def adc_locks)
  show "mem (adc_kst s') = st32 (ad_buf (adc_llcb s)) (v AND 0x0FFF) (mem (adc_kst s))"
    unfolding k e by (simp add: END_CRITICAL_SECTION_def k0_def)
  show "flag_kept ?f (adc_kst s) (adc_kst s')" unfolding k e using m by (rule flag_kept_trans) (simp only: flag_kept_mask flag_kept_ptn)
  show "primask (smp (adc_kst s')) = primask (smp (adc_kst s))" unfolding k e by (simp add: k0_def END_CRITICAL_SECTION_def)
  have "(x OR 1) AND (1 :: UW) \<noteq> 0" for x using and_or_mono[of 1 1 x] by (simp add: or.commute)
  then show "flgptn (flg (adc_kst s') (get_flgcb ?f)) AND 1 \<noteq> 0" unfolding k e by (simp add: END_CRITICAL_SECTION_def)
qed

text \<open>An interrupt that nobody waits for writes nothing and takes no sample out of the FIFO.\<close>

lemma adc_inthdr_idle:
  assumes "\<not> ad_active (adc_llcb s)"
  shows "mem (adc_kst (adc_inthdr c i s)) = mem (adc_kst s)" "adc_llcb (adc_inthdr c i s) = adc_llcb s"
    "a_fifo (adc_hw (adc_inthdr c i s)) = a_fifo (adc_hw s)" "a_inte (adc_hw (adc_inthdr c i s)) = 0"
  using assms by (simp_all add: adc_inthdr_def adc_locks)

subsection \<open>What a conversion returns\<close>

text \<open>The converter has finished: its sample is at the end of the FIFO.\<close>

definition sample :: "UW \<Rightarrow> adcst \<Rightarrow> adcst" where "sample x = upd_adr (\<lambda>R. R\<lparr>a_fifo := a_fifo R @ [x]\<rparr>)"

lemma sample_sel [simp]:
  "adc_llcb (sample x s) = adc_llcb s" "adc_kst (sample x s) = adc_kst s" "a_fifo (adc_hw (sample x s)) = a_fifo (adc_hw s) @ [x]"
  "a_starts (adc_hw (sample x s)) = a_starts (adc_hw s)" "a_ready (adc_hw (sample x s)) = a_ready (adc_hw s)"
  by (simp_all add: sample_def)

lemma wai_flg_ready_eff:
  assumes "flag_free f k" "flgptn (flg k (get_flgcb f)) AND 1 \<noteq> 0" "- 1 \<le> tmo" "\<not> in_ddsp c k"
  shows "\<exists>k' v. tk_wai_flg c f 1 (TWF_ORW OR TWF_BITCLR) p tmo k = (k', Ret E_OK) \<and> mem k' = st32 p v (mem k) \<and>
    flag_kept f k k' \<and> primask (smp k') = primask (smp k)"
proof -
  let ?v = "flgptn (flg k (get_flgcb f))"
  have "tk_wai_flg c f 1 (TWF_ORW OR TWF_BITCLR) p tmo k =
    (END_CRITICAL_SECTION c (upd_flg (get_flgcb f) (\<lambda>F. F\<lparr>flgptn := flgptn F AND NOT 1\<rparr>) (k\<lparr>mem := st32 p ?v (mem k)\<rparr>)), Ret E_OK)"
    using assms by (simp add: flag_free_def tk_wai_flg_def wai_flg_cs_def knl_eventflag_cond_def Let_def case_prod_unfold)
  moreover have "flag_kept f k (END_CRITICAL_SECTION c (upd_flg (get_flgcb f) (\<lambda>F. F\<lparr>flgptn := flgptn F AND NOT 1\<rparr>) (k\<lparr>mem := m\<rparr>)))" for m
    using flag_kept_trans[OF _ flag_kept_ptn] by simp
  ultimately show ?thesis by (auto simp: END_CRITICAL_SECTION_def upd_flg_def)
qed

text \<open>The four steps of a conversion in which the converter delivers its sample before the wait.\<close>

definition prompt_run :: "UW \<Rightarrow> nat \<Rightarrow> nat \<times> nat \<times> nat \<times> nat \<Rightarrow> ((adcst \<Rightarrow> adcst) \<times> nat) list" where
  "prompt_run x ci = (\<lambda>(c0, c1, c2, c3). [(id, c0), (id, c1), (\<lambda>s. adc_inthdr ci INTNO_ADC (sample x s), c2), (id, c3)])"

lemma adc_convert_prompt:
  assumes "0 \<le> ch" "ch < ADC_CH_NUM" "buf \<noteq> 0" "apart 4 p buf" "a_ready (adc_hw s)" "a_fifo (adc_hw s) @ [x] = v # vs"
    and "flag_free (ad_flgid (adc_llcb s)) (adc_kst s)" "\<not> in_ddsp c2 (adc_kst s)"
  shows "\<exists>s'. adc_convert t p (prompt_run x ci (c0, c1, c2, c3)) ch 1 buf s = Some (s', 1) \<and>
    ld32 buf (mem (adc_kst s')) = v AND 0x0FFF \<and> a_fifo (adc_hw s') = vs \<and> a_inte (adc_hw s') = 0 \<and> \<not> ad_active (adc_llcb s') \<and>
    a_starts (adc_hw s') = a_starts (adc_hw s) @ [push_bit 12 (word_of_int ch) OR ADC_CS_EN OR ADC_CS_STRAT_ONCE] \<and>
    ad_flgid (adc_llcb s') = ad_flgid (adc_llcb s) \<and> a_ready (adc_hw s') \<and>
    flag_kept (ad_flgid (adc_llcb s)) (adc_kst s) (adc_kst s') \<and> primask (smp (adc_kst s')) = primask (smp (adc_kst s))"
proof -
  let ?f = "ad_flgid (adc_llcb s)"
  define s1 where "s1 = conv_start c1 ch buf s"
  note a = conv_start_eff[OF assms(7), of "c1" ch buf, folded s1_def]
  define s2 where "s2 = adc_inthdr ci INTNO_ADC (sample x s1)"
  have f1: "flag_free (ad_flgid (adc_llcb (sample x s1))) (adc_kst (sample x s1))"
    using a(5) assms(7) by (simp add: a(1) flag_kept_def)
  have "ad_active (adc_llcb (sample x s1))" "ad_buf (adc_llcb (sample x s1)) \<noteq> 0" "a_fifo (adc_hw (sample x s1)) = v # vs"
    using assms(3,6) by (simp_all add: a(1,2))
  note b = adc_inthdr_active[OF f1 this, of ci INTNO_ADC, folded s2_def]
  have fid: "ad_flgid (adc_llcb s2) = ?f" by (simp add: b(1) a(1))
  have kept: "flag_kept ?f (adc_kst s) (adc_kst s2)" by (rule flag_kept_trans[OF a(5)]) (use b(6) in \<open>simp add: a(1)\<close>)
  have dd: "in_ddsp c2 (adc_kst s2) = in_ddsp c2 (adc_kst s)" by (rule flag_kept_ddsp[OF kept]) (simp add: b(8) a(6))
  have fr: "flag_free ?f (adc_kst s2)" "\<not> in_ddsp c2 (adc_kst s2)" "flgptn (flg (adc_kst s2) (get_flgcb ?f)) AND 1 \<noteq> 0"
    using kept assms(7,8) b(7) dd by (simp_all add: flag_kept_def a(1))
  obtain k v' where w: "tk_wai_flg c2 ?f 1 (TWF_ORW OR TWF_BITCLR) p DEVCNF_ADC_TMOSCAN (adc_kst s2) = (k, Ret E_OK)"
    "mem k = st32 p v' (mem (adc_kst s2))"
    "flag_kept ?f (adc_kst s2) k" "primask (smp k) = primask (smp (adc_kst s2))"
    using wai_flg_ready_eff[OF fr(1,3), of DEVCNF_ADC_TMOSCAN "c2" p] fr(2) by (auto simp: DEVCNF_ADC_TMOSCAN_def)
  define s3 where "s3 = snd (conv_end c3 E_OK (upd_adk (\<lambda>_. k) s2))"
  have c: "conv_end c3 E_OK (upd_adk (\<lambda>_. k) s2) = (A_Done 1, s3)"
    by (simp add: s3_def conv_end_def adc_locks b(1))
  have st: "conv_step t p ch buf c0 (A_Ready, s) = (A_Start, s)" "conv_step t p ch buf c1 (A_Start, s) = (A_Wait, s1)"
    "conv_step t p ch buf c2 (A_Wait, s2) = (A_Waited E_OK, upd_adk (\<lambda>_. k) s2)"
    "conv_step t p ch buf c3 (A_Waited E_OK, upd_adk (\<lambda>_. k) s2) = (A_Done 1, s3)"
    using assms(5) w(1) c by (simp_all add: conv_step_def s1_def fid)
  have "conv_run t p ch buf (prompt_run x ci (c0, c1, c2, c3)) (A_Ready, s) = (A_Done 1, s3)"
    by (simp add: prompt_run_def st s2_def[symmetric])
  then have r: "adc_convert t p (prompt_run x ci (c0, c1, c2, c3)) ch 1 buf s = Some (s3, 1)"
    using assms(1,2) by (simp add: adc_convert_def)
  have e: "mem (adc_kst s3) = mem k" "a_fifo (adc_hw s3) = vs" "a_inte (adc_hw s3) = 0" "\<not> ad_active (adc_llcb s3)"
    "a_starts (adc_hw s3) = a_starts (adc_hw s2)"
    using b by (simp_all add: s3_def conv_end_def adc_locks)
  have "ld32 buf (mem (adc_kst s3)) = v AND 0x0FFF"
    using assms(4) by (simp add: e(1) w(2) ld32_apart b(5) a(1))
  moreover have "flag_kept ?f (adc_kst s) (adc_kst s3)" "primask (smp (adc_kst s3)) = primask (smp (adc_kst s))"
    using flag_kept_trans[OF kept w(3)] w(4) by (simp_all add: s3_def conv_end_def adc_locks b(8) a(6))
  moreover have "a_ready (adc_hw s2)" using assms(5) a(7) b(9) by simp
  then have "a_ready (adc_hw s3)" "ad_flgid (adc_llcb s3) = ?f" by (simp_all add: s3_def conv_end_def adc_locks fid)
  ultimately show ?thesis using r e b(4) a(4) by auto
qed

text \<open>Conversions one after the other: for each the channel, the buffer, the cores of its steps, and the sample of the converter; the values read are collected.\<close>

type_synonym conv = "int \<times> UW \<times> nat \<times> (nat \<times> nat \<times> nat \<times> nat) \<times> UW"

fun conversions :: "nat \<Rightarrow> UW \<Rightarrow> conv list \<Rightarrow> adcst \<Rightarrow> (adcst \<times> UW list) option" where
  "conversions t p [] s = Some (s, [])"
| "conversions t p ((ch, buf, ci, cs, x) # C) s =
     (case adc_convert t p (prompt_run x ci cs) ch 1 buf s of
        Some (s', r) \<Rightarrow> if r = 1 then map_option (\<lambda>(s'', vs). (s'', ld32 buf (mem (adc_kst s')) # vs)) (conversions t p C s') else None
      | None \<Rightarrow> None)"

fun conv_ok :: "UW \<Rightarrow> kstate \<Rightarrow> conv \<Rightarrow> bool" where
  "conv_ok p k (ch, buf, ci, (c0, c1, c2, c3), x) \<longleftrightarrow> 0 \<le> ch \<and> ch < ADC_CH_NUM \<and> buf \<noteq> 0 \<and> apart 4 p buf \<and> \<not> in_ddsp c2 k"

definition conv_sample :: "conv \<Rightarrow> UW" where "conv_sample = (\<lambda>(ch, buf, ci, cs, x). x)"

text \<open>
  What conversions return. Conversions on valid channels, each of them delivered before its task waits, all succeed and return the samples in the order in which
  the converter produced them, starting with what the FIFO held before; as many samples as it held then, it holds at the end. From an empty FIFO, every conversion returns its
  own sample. From a FIFO with one sample in it, every conversion returns the sample of the one before it.
\<close>
theorem adc_samples_in_order:
  assumes "flag_free (ad_flgid (adc_llcb s)) (adc_kst s)" "a_ready (adc_hw s)" "\<forall>C \<in> set Cs. conv_ok p (adc_kst s) C"
  shows "\<exists>s' vs. conversions t p Cs s = Some (s', vs) \<and> length vs = length Cs \<and>
    map (\<lambda>x. x AND 0x0FFF) (a_fifo (adc_hw s) @ map conv_sample Cs) = vs @ map (\<lambda>x. x AND 0x0FFF) (a_fifo (adc_hw s'))"
  using assms
proof (induction Cs arbitrary: s)
  case (Cons C Cs)
  obtain ch buf ci c0 c1 c2 c3 x where C: "C = (ch, buf, ci, (c0, c1, c2, c3), x)" by (metis prod.exhaust)
  have ok: "0 \<le> ch" "ch < ADC_CH_NUM" "buf \<noteq> 0" "apart 4 p buf" "\<not> in_ddsp c2 (adc_kst s)" using Cons.prems(3) by (simp_all add: C)
  obtain v vs where f: "a_fifo (adc_hw s) @ [x] = v # vs" by (cases "a_fifo (adc_hw s)") auto
  obtain s1 where s1: "adc_convert t p (prompt_run x ci (c0, c1, c2, c3)) ch 1 buf s = Some (s1, 1)"
    "ld32 buf (mem (adc_kst s1)) = v AND 0x0FFF" "a_fifo (adc_hw s1) = vs" "ad_flgid (adc_llcb s1) = ad_flgid (adc_llcb s)"
    "a_ready (adc_hw s1)" "flag_kept (ad_flgid (adc_llcb s)) (adc_kst s) (adc_kst s1)" "primask (smp (adc_kst s1)) = primask (smp (adc_kst s))"
    using adc_convert_prompt[OF ok(1-4) Cons.prems(2) f Cons.prems(1) ok(5), of t ci c0 c1 c3] by blast
  have d: "in_ddsp c (adc_kst s1) = in_ddsp c (adc_kst s)" for c by (rule flag_kept_ddsp[OF s1(6,7)])
  have "conv_ok p (adc_kst s1) D = conv_ok p (adc_kst s) D" for D by (cases "(p, adc_kst s, D)" rule: conv_ok.cases) (simp add: d)
  then have pre: "flag_free (ad_flgid (adc_llcb s1)) (adc_kst s1)" "\<forall>C \<in> set Cs. conv_ok p (adc_kst s1) C"
    using Cons.prems s1(6) by (simp_all add: flag_kept_def s1(4))
  obtain s' ws where r: "conversions t p Cs s1 = Some (s', ws)" "length ws = length Cs"
    "map (\<lambda>x. x AND 0x0FFF) (vs @ map conv_sample Cs) = ws @ map (\<lambda>x. x AND 0x0FFF) (a_fifo (adc_hw s'))"
    using Cons.IH[OF pre(1) s1(5) pre(2)] s1(3) by auto
  have g: "a_fifo (adc_hw s) @ map conv_sample (C # Cs) = v # vs @ map conv_sample Cs"
    using arg_cong[OF f, of "\<lambda>l. l @ map conv_sample Cs"] by (simp add: C conv_sample_def)
  have "map (\<lambda>x. x AND 0x0FFF) (a_fifo (adc_hw s) @ map conv_sample (C # Cs)) =
      ((v AND 0x0FFF) # ws) @ map (\<lambda>x. x AND 0x0FFF) (a_fifo (adc_hw s'))"
    unfolding g by (simp only: list.map append_Cons r(3))
  moreover have "conversions t p (C # Cs) s = Some (s', (v AND 0x0FFF) # ws)" using r(1) by (simp add: C s1(1,2))
  ultimately show ?case using r(2) by auto
qed simp

subsection \<open>Any run of a conversion\<close>

text \<open>
  Between the steps of the task the converter delivers samples, the handler runs on some core, and the kernel does anything else. The converter raises its
  interrupt only while its FIFO holds a sample.
\<close>

datatype adc_ev = Sample UW | Intr nat | Kernel "kstate \<Rightarrow> kstate"

fun adc_do :: "adc_ev \<Rightarrow> adcst \<Rightarrow> adcst" where
  "adc_do (Sample x) s = sample x s"
| "adc_do (Intr c) s = (if a_fifo (adc_hw s) = [] then s else adc_inthdr c INTNO_ADC s)"
| "adc_do (Kernel h) s = upd_adk h s"

type_synonym adc_sched = "(adc_ev list \<times> nat) list"

definition acts :: "adc_sched \<Rightarrow> ((adcst \<Rightarrow> adcst) \<times> nat) list" where
  "acts E = map (\<lambda>(es, c). (fold adc_do es, c)) E"

fun ev_samples :: "adc_ev list \<Rightarrow> UW list" where
  "ev_samples [] = []"
| "ev_samples (Sample x # es) = x # ev_samples es"
| "ev_samples (e # es) = ev_samples es"

definition samples :: "adc_sched \<Rightarrow> UW list" where "samples E = concat (map (ev_samples \<circ> fst) E)"

text \<open>
  What the rest of the kernel has to respect: tasks that wait for the driver's event flag get its pattern elsewhere than in the buffer, the result that a wait of the task finds is no
  positive number, and the word in the buffer is written by nobody else.
\<close>

definition adc_world :: "int \<Rightarrow> UW \<Rightarrow> nat \<Rightarrow> kstate \<Rightarrow> bool" where
  "adc_world f buf t k \<longleftrightarrow> (\<forall>u \<in> set (que k (FlgQ (get_flgcb f))). apart 4 (flg_p_flgptn (winfo (tcb k u))) buf) \<and> ercd k t \<le> 0"

definition keeps :: "int \<Rightarrow> UW \<Rightarrow> nat \<Rightarrow> (kstate \<Rightarrow> kstate) \<Rightarrow> bool" where
  "keeps f buf t h \<longleftrightarrow> (\<forall>k. adc_world f buf t k \<longrightarrow> adc_world f buf t (h k) \<and> ld32 buf (mem (h k)) = ld32 buf (mem k))"

definition run_keeps :: "int \<Rightarrow> UW \<Rightarrow> nat \<Rightarrow> adc_sched \<Rightarrow> bool" where
  "run_keeps f buf t E \<longleftrightarrow> (\<forall>(es, c) \<in> set E. \<forall>h. Kernel h \<in> set es \<longrightarrow> keeps f buf t h)"

lemma keepsI: "(\<And>k. adc_world f buf t k \<Longrightarrow> adc_world f buf t (h k) \<and> ld32 buf (mem (h k)) = ld32 buf (mem k)) \<Longrightarrow> keeps f buf t h"
  by (simp add: keeps_def)

lemma adc_world_cong:
  "adc_world f buf t k \<Longrightarrow> set (que k' (FlgQ (get_flgcb f))) \<subseteq> set (que k (FlgQ (get_flgcb f))) \<Longrightarrow>
   (\<And>u. winfo (tcb k' u) = winfo (tcb k u)) \<Longrightarrow> ercd k' t = ercd k t \<or> ercd k' t \<le> 0 \<Longrightarrow> adc_world f buf t k'"
  by (auto simp: adc_world_def)

lemma ercd_set_wercd: "ercd (set_wercd u e k) t = ercd k t \<or> ercd (set_wercd u e k) t = e"
  by (simp add: set_wercd_def split: option.split)

lemma keeps_release: "keeps f buf t (knl_wait_release_ok c u)"
proof (rule keepsI)
  fix k assume w: "adc_world f buf t k"
  have "ercd (knl_wait_release_ok c u k) = ercd (set_wercd u 0 k)" by (simp add: knl_wait_release_ok_def)
  then have "ercd (knl_wait_release_ok c u k) t = ercd k t \<or> ercd (knl_wait_release_ok c u k) t \<le> 0" using ercd_set_wercd[of u 0 k t] by auto
  then have "adc_world f buf t (knl_wait_release_ok c u k)"
    by (intro adc_world_cong[OF w]) (simp_all add: q_release_other set_remove1_subset)
  then show "adc_world f buf t (knl_wait_release_ok c u k) \<and> ld32 buf (mem (knl_wait_release_ok c u k)) = ld32 buf (mem k)" by simp
qed

lemma adc_world_flg [simp]:
  "adc_world f buf t (upd_flg i g k) = adc_world f buf t k" "adc_world f buf t (k\<lparr>mem := m\<rparr>) = adc_world f buf t k"
  "adc_world f buf t (k\<lparr>smp := x\<rparr>) = adc_world f buf t k" "adc_world f buf t (END_CRITICAL_SECTION c k) = adc_world f buf t k"
  by (simp_all add: adc_world_def)

lemma set_flg_loop_keeps:
  assumes "adc_world f buf t k" "\<forall>u \<in> set q. apart 4 (flg_p_flgptn (winfo (tcb k u))) buf"
  shows "adc_world f buf t (set_flg_loop c i q k) \<and> ld32 buf (mem (set_flg_loop c i q k)) = ld32 buf (mem k)"
  using assms
proof (induction q arbitrary: k)
  case (Cons u q)
  let ?k = "knl_wait_release_ok c u (k\<lparr>mem := st32 (flg_p_flgptn (winfo (tcb k u))) (flgptn (flg k i)) (mem k)\<rparr>)"
  have r: "adc_world f buf t ?k" "ld32 buf (mem ?k) = ld32 buf (mem k)"
    using keeps_release[of f buf t c u] Cons.prems by (simp_all add: keeps_def ld32_apart)
  have w: "winfo (tcb ?k v) = winfo (tcb k v)" for v by simp
  show ?case
  proof (cases "knl_eventflag_cond (flgptn (flg k i)) (flg_waiptn (winfo (tcb k u))) (flg_wfmode (winfo (tcb k u)))")
    case True
    define j where "j = (if flg_wfmode (winfo (tcb k u)) AND TWF_BITCLR \<noteq> 0
      then upd_flg i (\<lambda>F. F\<lparr>flgptn := flgptn F AND NOT (flg_waiptn (winfo (tcb k u)))\<rparr>) ?k else ?k)"
    have j: "adc_world f buf t j" "ld32 buf (mem j) = ld32 buf (mem k)" "\<And>v. winfo (tcb j v) = winfo (tcb k v)"
      using r w by (simp_all add: j_def)
    have l: "adc_world f buf t (set_flg_loop c i q j) \<and> ld32 buf (mem (set_flg_loop c i q j)) = ld32 buf (mem k)"
      using Cons.IH[OF j(1)] Cons.prems(2) j(2,3) by simp
    have "set_flg_loop c i (u # q) k = (if flg_wfmode (winfo (tcb k u)) AND TWF_BITCLR \<noteq> 0 \<and> flgptn (flg j i) = 0 then j
       else if flg_wfmode (winfo (tcb k u)) AND TWF_CLR \<noteq> 0 then upd_flg i (flgptn_update (\<lambda>_. 0)) j else set_flg_loop c i q j)"
      by (simp only: set_flg_loop.simps Let_def True if_True j_def)
    then show ?thesis using j(1,2) l by simp
  next
    case False
    then show ?thesis using Cons.IH[OF Cons.prems(1)] Cons.prems(2) by (simp add: Let_def)
  qed
qed simp

lemma keeps_set_flg: "keeps f buf t (\<lambda>k. fst (tk_set_flg c f v k))"
proof (rule keepsI)
  fix k assume w: "adc_world f buf t k"
  let ?k = "upd_flg (get_flgcb f) (\<lambda>F. F\<lparr>flgptn := flgptn F OR v\<rparr>) k"
  have "adc_world f buf t (set_flg_loop c (get_flgcb f) (que ?k (FlgQ (get_flgcb f))) ?k) \<and>
      ld32 buf (mem (set_flg_loop c (get_flgcb f) (que ?k (FlgQ (get_flgcb f))) ?k)) = ld32 buf (mem ?k)"
    by (rule set_flg_loop_keeps) (use w in \<open>simp_all add: adc_world_def\<close>)
  then show "adc_world f buf t (fst (tk_set_flg c f v k)) \<and> ld32 buf (mem (fst (tk_set_flg c f v k))) = ld32 buf (mem k)"
    using w by (simp add: tk_set_flg_def Let_def)
qed

lemma keeps_clr_flg: "keeps f buf t (\<lambda>k. fst (tk_clr_flg c f v k))"
  by (rule keepsI) (simp add: tk_clr_flg_def Let_def)

lemma keeps_make_wait:
  assumes "adc_world f buf t k" "apart 4 (flg_p_flgptn (winfo (tcb k (cur c k)))) buf"
  shows "adc_world f buf t (knl_gcb_make_wait c h oid a tmout k) \<and> mem (knl_gcb_make_wait c h oid a tmout k) = mem k"
proof -
  let ?t = "cur c k"
  define k0 where "k0 = upd_tcb ?t (wid_update (\<lambda>_. oid)) (set_wercd ?t E_TMOUT k)"
  have k0: "que k0 = que k" "winfo (tcb k0 u) = winfo (tcb k u)" "ercd k0 t = ercd k t \<or> ercd k0 t \<le> 0" "mem k0 = mem k" "smp k0 = smp k" for u
    using ercd_set_wercd[of ?t E_TMOUT k t] by (auto simp: k0_def)
  define k1 where "k1 = wait_state c k0"
  have "set (que k1 q) \<subseteq> set (que k0 q)" "winfo (tcb k1 u) = winfo (tcb k0 u)" "ercd k1 = ercd k0" "mem k1 = mem k0" for q u
    by (auto simp: k1_def wait_state_def knl_make_non_ready_def knl_smp_reschedule_all_def knl_ready_queue_delete_def q_remove_def Let_def
        dest: set_remove1_subset[THEN subsetD] split: tstat.split if_splits)
  then have k1: "set (que k1 q) \<subseteq> set (que k q)" "winfo (tcb k1 u) = winfo (tcb k u)" "ercd k1 t = ercd k t \<or> ercd k1 t \<le> 0" "mem k1 = mem k" for q u
    using k0 by auto
  define k2 where "k2 = k1\<lparr>tmr := knl_timer_insert (TmTsk ?t) tmout (Wait_release_tmout ?t) (tmr k1)\<rparr>"
  have e: "knl_gcb_make_wait c h oid a tmout k = (if tmout \<noteq> TMO_POL
      then if a AND TA_TPRI \<noteq> 0 then knl_queue_insert_tpri ?t h k2 else upd_que (q_insert ?t h) k2 else set_wercd ?t E_TMOUT k)"
    using k0(5) by (simp add: knl_gcb_make_wait_def knl_make_wait_def k0_def k1_def k2_def Let_def)
  have q: "set (((que k2)(h := insert_before P ?t (que k2 h))) g) \<subseteq> insert ?t (set (que k g))"
    "set (q_insert ?t h (que k2) g) \<subseteq> insert ?t (set (que k g))" for P g
    using k1(1)[of g] by (auto simp: k2_def q_insert_def)
  have w: "adc_world f buf t (k2\<lparr>que := Q\<rparr>)" if "\<And>g. set (Q g) \<subseteq> insert ?t (set (que k g))" for Q
  proof -
    have "apart 4 (flg_p_flgptn (winfo (tcb k u))) buf" if "u \<in> insert ?t (set (que k (FlgQ (get_flgcb f))))" for u
      using that assms by (auto simp: adc_world_def)
    moreover have "ercd k1 t \<le> 0" using assms(1) k1(3) by (auto simp: adc_world_def)
    ultimately show ?thesis using that[of "FlgQ (get_flgcb f)"] k1(2) by (auto simp: adc_world_def k2_def)
  qed
  show ?thesis
  proof (cases "tmout \<noteq> TMO_POL")
    case True
    then show ?thesis using w q k1(4) by (auto simp: e knl_queue_insert_tpri_def k2_def)
  next
    case False
    have "adc_world f buf t (set_wercd ?t E_TMOUT k)"
      by (rule adc_world_cong[OF assms(1)]) (use ercd_set_wercd[of ?t E_TMOUT k t] in auto)
    then show ?thesis unfolding e using False by simp
  qed
qed

lemma keeps_wai_flg:
  assumes w: "adc_world f buf t k" and p: "apart 4 p buf"
    and r: "tk_wai_flg c f v m p DEVCNF_ADC_TMOSCAN k = (k', r)"
  shows "adc_world f buf t k' \<and> ld32 buf (mem k') = ld32 buf (mem k) \<and> (\<forall>er. r = Ret er \<longrightarrow> er \<le> 0)"
proof -
  have tm: "DEVCNF_ADC_TMOSCAN \<noteq> TMO_POL" by (simp add: DEVCNF_ADC_TMOSCAN_def)
  let ?i = "get_flgcb f"
  obtain j r' where j: "wai_flg_cs c ?i v m p DEVCNF_ADC_TMOSCAN k = (j, r')" by fastforce
  have "adc_world f buf t j \<and> ld32 buf (mem j) = ld32 buf (mem k) \<and> (\<forall>er. r' = Ret er \<longrightarrow> er \<le> 0)"
  proof (cases "flgid (flg k ?i) = 0 \<or> flgatr (flg k ?i) AND TA_WMUL = 0 \<and> que k (FlgQ ?i) \<noteq> [] \<or> knl_eventflag_cond (flgptn (flg k ?i)) v m")
    case True
    then show ?thesis using j w p by (auto simp: wai_flg_cs_def ld32_apart Let_def split: if_splits)
  next
    case False
    define k0 where "k0 = upd_tcb (cur c k) (\<lambda>T. T\<lparr>wspec := (if flgatr (flg k ?i) AND TA_TPRI \<noteq> 0 then Wspec_flg_tpri else Wspec_flg_tfifo),
        wercd := Some (cur c k), winfo := (winfo T)\<lparr>flg_waiptn := v, flg_wfmode := m, flg_p_flgptn := p\<rparr>\<rparr>) k"
    have a: "adc_world f buf t k0" using w p by (auto simp: adc_world_def k0_def)
    have b: "apart 4 (flg_p_flgptn (winfo (tcb k0 (cur c k0)))) buf" using p by (simp add: k0_def)
    have "j = knl_gcb_make_wait c (FlgQ ?i) (flgid (flg k ?i)) (flgatr (flg k ?i)) DEVCNF_ADC_TMOSCAN k0" "r' = Blocked"
      using j False tm by (auto simp: wai_flg_cs_def k0_def Let_def)
    then show ?thesis using keeps_make_wait[OF a b] by (simp add: k0_def)
  qed
  then show ?thesis using r j w by (auto simp: tk_wai_flg_def split: if_splits)
qed

subsection \<open>What a conversion can return\<close>

text \<open>
  \<open>X\<close> are the samples that have arrived since the last conversion. Until the handler runs in the conversion, they are all in the FIFO; then the first of them is in the
  buffer.
\<close>

definition waits_sample :: "UW \<Rightarrow> UW list \<Rightarrow> adcst \<Rightarrow> bool" where
  "waits_sample buf X s \<longleftrightarrow> ad_active (adc_llcb s) \<and> ad_buf (adc_llcb s) = buf \<and> ad_asz (adc_llcb s) = 0 \<and> a_fifo (adc_hw s) = X"

definition has_sample :: "UW \<Rightarrow> UW list \<Rightarrow> adcst \<Rightarrow> bool" where
  "has_sample buf X s \<longleftrightarrow> \<not> ad_active (adc_llcb s) \<and> X \<noteq> [] \<and> a_fifo (adc_hw s) = tl X \<and> ld32 buf (mem (adc_kst s)) = hd X AND 0x0FFF"

definition phase :: "UW \<Rightarrow> UW list \<Rightarrow> adcpc \<Rightarrow> adcst \<Rightarrow> bool" where
  "phase buf X pc s = (case pc of
     A_Ready \<Rightarrow> \<not> ad_active (adc_llcb s) \<and> a_fifo (adc_hw s) = X
   | A_Start \<Rightarrow> \<not> ad_active (adc_llcb s) \<and> a_fifo (adc_hw s) = X
   | A_Wait \<Rightarrow> waits_sample buf X s \<or> has_sample buf X s
   | A_Woken \<Rightarrow> waits_sample buf X s \<or> has_sample buf X s
   | A_Waited e \<Rightarrow> e \<le> 0 \<and> (waits_sample buf X s \<or> has_sample buf X s)
   | A_Done e \<Rightarrow> e = 1 \<longrightarrow> has_sample buf X s)"

definition run_inv :: "int \<Rightarrow> UW \<Rightarrow> nat \<Rightarrow> UW list \<Rightarrow> adcpc \<times> adcst \<Rightarrow> bool" where
  "run_inv f buf t X = (\<lambda>(pc, s). ad_flgid (adc_llcb s) = f \<and> adc_world f buf t (adc_kst s) \<and> phase buf X pc s)"

lemma phase_ev:
  assumes "phase buf X pc s" "ad_active (adc_llcb s') = ad_active (adc_llcb s)" "ad_buf (adc_llcb s') = ad_buf (adc_llcb s)"
    "ad_asz (adc_llcb s') = ad_asz (adc_llcb s)" "a_fifo (adc_hw s') = a_fifo (adc_hw s) @ Y"
    "ld32 buf (mem (adc_kst s')) = ld32 buf (mem (adc_kst s))"
  shows "phase buf (X @ Y) pc s'"
  using assms by (cases pc) (auto simp: phase_def waits_sample_def has_sample_def)

lemma inthdr_active_any:
  fixes c :: nat and i :: UW
  assumes "adc_world (ad_flgid (adc_llcb s)) buf t (adc_kst s)" "waits_sample buf (x # X) s" "buf \<noteq> 0"
  defines "s' \<equiv> adc_inthdr c i s"
  shows "adc_world (ad_flgid (adc_llcb s)) buf t (adc_kst s') \<and> has_sample buf (x # X) s' \<and> ad_flgid (adc_llcb s') = ad_flgid (adc_llcb s)"
proof -
  let ?f = "ad_flgid (adc_llcb s)"
  have a: "ad_active (adc_llcb s)" "ad_buf (adc_llcb s) = buf" "a_fifo (adc_hw s) = x # X" using assms(2) by (simp_all add: waits_sample_def)
  define k0 where "k0 = (adc_kst (adc_set_mask c True s))\<lparr>mem := st32 buf (x AND 0x0FFF) (mem (adc_kst s))\<rparr>"
  define k1 where "k1 = fst (tk_set_flg c ?f 1 k0)"
  have "adc_world ?f buf t k0" using assms(1) by (simp add: k0_def)
  then have k1: "adc_world ?f buf t k1" "ld32 buf (mem k1) = x AND 0x0FFF"
    using keeps_set_flg[of ?f buf t c 1] by (simp_all add: keeps_def k1_def k0_def)
  have k: "adc_kst s' = k1\<lparr>smp := (smp k1)\<lparr>primask := (primask (smp k1))(c := primask (smp (adc_kst s)) c)\<rparr>\<rparr>"
    using a assms(3) by (simp add: s'_def adc_inthdr_def in_fifo_def adc_locks k0_def k1_def)
  have "adc_llcb s' = (adc_llcb s)\<lparr>ad_asz := 1, ad_active := False\<rparr>" "a_fifo (adc_hw s') = X"
    using a assms(3) by (simp_all add: s'_def adc_inthdr_def in_fifo_def adc_locks)
  then show ?thesis using k1 by (simp add: has_sample_def k)
qed

lemma inthdr_idle_world: "\<not> ad_active (adc_llcb s) \<Longrightarrow> adc_world f buf t (adc_kst (adc_inthdr c i s)) = adc_world f buf t (adc_kst s)"
  by (simp add: adc_inthdr_def adc_locks)

lemma run_inv_ev:
  assumes "run_inv f buf t X (pc, s)" "\<forall>v. pc \<noteq> A_Done v" "buf \<noteq> 0" "\<And>h. e = Kernel h \<Longrightarrow> keeps f buf t h"
  shows "run_inv f buf t (X @ ev_samples [e]) (pc, adc_do e s)"
proof (cases e)
  case (Sample x)
  then show ?thesis using assms(1) phase_ev[of buf X pc s "sample x s" "[x]"] by (simp add: run_inv_def)
next
  case (Kernel h)
  then show ?thesis using assms phase_ev[of buf X pc s "upd_adk h s" "[]"] by (simp add: run_inv_def keeps_def)
next
  case (Intr c)
  show ?thesis
  proof (cases "a_fifo (adc_hw s) = []")
    case False
    show ?thesis
    proof (cases "ad_active (adc_llcb s)")
      case True
      then have w: "waits_sample buf X s" using assms(1,2) by (cases pc) (auto simp: run_inv_def phase_def has_sample_def)
      then obtain x Y where X: "X = x # Y" using False by (cases X) (auto simp: waits_sample_def)
      have h: "adc_world f buf t (adc_kst (adc_inthdr c INTNO_ADC s))" "has_sample buf X (adc_inthdr c INTNO_ADC s)"
        "ad_flgid (adc_llcb (adc_inthdr c INTNO_ADC s)) = f"
        using inthdr_active_any[of s buf t x Y c INTNO_ADC] assms(1,3) w by (auto simp: X run_inv_def)
      have "phase buf X pc (adc_inthdr c INTNO_ADC s)"
        using h(2) assms(1,2) True by (cases pc) (auto simp: run_inv_def phase_def)
      then show ?thesis using h False Intr by (simp add: run_inv_def)
    next
      case F: False
      then show ?thesis using assms(1) False Intr phase_ev[of buf X pc s "adc_inthdr c INTNO_ADC s" "[]"] adc_inthdr_idle[OF F, of c INTNO_ADC]
        inthdr_idle_world[OF F] by (simp add: run_inv_def)
    qed
  qed (use assms(1) Intr in simp)
qed

lemma ev_samples_append: "ev_samples (es @ es') = ev_samples es @ ev_samples es'"
  by (induction es rule: ev_samples.induct) auto

lemma run_inv_evs:
  assumes "run_inv f buf t X (pc, s)" "\<forall>v. pc \<noteq> A_Done v" "buf \<noteq> 0" "\<And>h. Kernel h \<in> set es \<Longrightarrow> keeps f buf t h"
  shows "run_inv f buf t (X @ ev_samples es) (pc, fold adc_do es s)"
  using assms(1,4)
proof (induction es arbitrary: X s)
  case (Cons e es)
  have "run_inv f buf t (X @ ev_samples [e]) (pc, adc_do e s)"
    by (rule run_inv_ev[OF Cons.prems(1) assms(2,3)]) (use Cons.prems(2) in auto)
  from Cons.IH[OF this] Cons.prems(2) show ?case using ev_samples_append[of "[e]" es] by simp
qed simp

lemma run_inv_step:
  assumes "run_inv f buf t X (pc, s)" "apart 4 p buf"
  shows "run_inv f buf t X (conv_step t p ch buf c (pc, s))"
proof (cases pc)
  case A_Ready
  then show ?thesis using assms(1) by (simp add: run_inv_def conv_step_def phase_def)
next
  case A_Start
  define k0 where "k0 = adc_kst (adc_set_mask c True s)"
  have "adc_world f buf t k0" using assms(1) by (simp add: k0_def run_inv_def)
  then have w: "adc_world f buf t (fst (tk_clr_flg c f 0 k0))" using keeps_clr_flg[of f buf t c 0] by (simp add: keeps_def)
  have "adc_kst (conv_start c ch buf s) = (fst (tk_clr_flg c f 0 k0))\<lparr>smp := (smp (fst (tk_clr_flg c f 0 k0)))
      \<lparr>primask := (primask (smp (fst (tk_clr_flg c f 0 k0))))(c := primask (smp (adc_kst s)) c)\<rparr>\<rparr>"
    using assms(1) by (simp add: conv_start_def adc_locks Let_def k0_def run_inv_def)
  moreover have "adc_llcb (conv_start c ch buf s) = (adc_llcb s)\<lparr>ad_buf := buf, ad_asz := 0, ad_active := True\<rparr>"
    "a_fifo (adc_hw (conv_start c ch buf s)) = a_fifo (adc_hw s)"
    by (simp_all add: conv_start_def adc_locks Let_def)
  ultimately show ?thesis using A_Start assms(1) w by (simp add: run_inv_def conv_step_def phase_def waits_sample_def)
next
  case A_Wait
  obtain k r where w: "tk_wai_flg c f 1 (TWF_ORW OR TWF_BITCLR) p DEVCNF_ADC_TMOSCAN (adc_kst s) = (k, r)" by fastforce
  have f: "ad_flgid (adc_llcb s) = f" using assms(1) by (simp add: run_inv_def)
  note K = keeps_wai_flg[OF _ assms(2) w, of t]
  have k: "adc_world f buf t k" "ld32 buf (mem k) = ld32 buf (mem (adc_kst s))" "\<And>er. r = Ret er \<Longrightarrow> er \<le> 0"
    using K assms(1) by (simp_all add: run_inv_def)
  have h: "waits_sample buf X (upd_adk (\<lambda>_. k) s) = waits_sample buf X s" "has_sample buf X (upd_adk (\<lambda>_. k) s) = has_sample buf X s"
    using k(2) by (simp_all add: waits_sample_def has_sample_def)
  show ?thesis
    using A_Wait assms(1) w k h f by (cases r) (simp_all add: run_inv_def conv_step_def phase_def)
next
  case A_Woken
  then show ?thesis using assms(1) by (auto simp: run_inv_def conv_step_def phase_def adc_world_def)
next
  case (A_Waited e)
  have i: "e \<le> 0" "waits_sample buf X s \<or> has_sample buf X s" "ad_flgid (adc_llcb s) = f" "adc_world f buf t (adc_kst s)"
    using assms(1) A_Waited by (simp_all add: run_inv_def phase_def)
  have "\<exists>v. fst (conv_end c e s) = A_Done v" by (simp add: conv_end_def adc_locks Let_def)
  then obtain v s' where s': "conv_end c e s = (A_Done v, s')" by (metis prod.collapse)
  have w: "adc_world f buf t (adc_kst s')" "ad_flgid (adc_llcb s') = f" using s' i(3,4) by (auto simp: conv_end_def adc_locks Let_def)
  have "has_sample buf X s'" if "v = 1"
  proof -
    have "e = 0" "ad_asz (adc_llcb s) = 1" using s' i(1) that by (auto simp: conv_end_def adc_locks Let_def split: if_splits)
    moreover from this have "has_sample buf X s" using i(2) by (auto simp: waits_sample_def)
    ultimately show ?thesis using s' by (auto simp: conv_end_def adc_locks Let_def has_sample_def)
  qed
  then show ?thesis using A_Waited s' w by (simp add: run_inv_def conv_step_def phase_def)
next
  case (A_Done v)
  then show ?thesis using assms(1) by (simp add: conv_step_def)
qed

lemma run_returns:
  assumes "run_inv f buf t X (pc, s)" "buf \<noteq> 0" "apart 4 p buf" "run_keeps f buf t E" "conv_run t p ch buf (acts E) (pc, s) = (A_Done 1, s')"
  shows "\<exists>Y. prefix Y (X @ samples E) \<and> has_sample buf Y s'"
  using assms(1,4,5)
proof (induction E arbitrary: X pc s)
  case Nil
  then show ?case by (auto simp: acts_def run_inv_def phase_def samples_def)
next
  case (Cons ec E)
  obtain es c where ec: "ec = (es, c)" by fastforce
  show ?case
  proof (cases "\<exists>v. pc = A_Done v")
    case True
    then have "pc = A_Done 1" "s' = s" using Cons.prems(3) by (auto simp: acts_def ec)
    then show ?thesis using Cons.prems(1) by (intro exI[of _ X]) (auto simp: run_inv_def phase_def)
  next
    case False
    have es: "run_inv f buf t (X @ ev_samples es) (pc, fold adc_do es s)"
      by (rule run_inv_evs[OF Cons.prems(1) _ assms(2)]) (use False Cons.prems(2) in \<open>auto simp: run_keeps_def ec\<close>)
    obtain pc' s1 where st: "conv_step t p ch buf c (pc, fold adc_do es s) = (pc', s1)" by fastforce
    have i: "run_inv f buf t (X @ ev_samples es) (pc', s1)" using run_inv_step[OF es assms(3), of ch c] st by simp
    have r: "conv_run t p ch buf (acts E) (pc', s1) = (A_Done 1, s')" using Cons.prems(3) False st by (cases pc) (simp_all add: acts_def ec)
    have "run_keeps f buf t E" using Cons.prems(2) by (simp add: run_keeps_def)
    from Cons.IH[OF i this r] show ?thesis by (simp add: samples_def ec)
  qed
qed

definition prompt_events :: "UW \<Rightarrow> UW \<Rightarrow> nat \<Rightarrow> nat \<times> nat \<times> nat \<times> nat \<Rightarrow> adc_sched" where
  "prompt_events x1 x2 ci = (\<lambda>(c0, c1, c2, c3). [([Sample x1], c0), ([], c1), ([Sample x2, Intr ci], c2), ([], c3)])"

lemma prompt_events_run:
  "adc_convert t p (acts (prompt_events x1 x2 ci (c0, c1, c2, c3))) ch sz buf s = adc_convert t p (prompt_run x2 ci (c0, c1, c2, c3)) ch sz buf (sample x1 s)
   \<or> ch < 0 \<or> ch > ADC_CH_NUM - 1 \<or> sz \<noteq> 1"
proof -
  have e: "fold adc_do [Sample x2, Intr ci] = (\<lambda>s. adc_inthdr ci INTNO_ADC (sample x2 s))" by (simp add: fun_eq_iff)
  have "acts (prompt_events x1 x2 ci (c0, c1, c2, c3)) = (sample x1, c0) # tl (prompt_run x2 ci (c0, c1, c2, c3))"
    using e by (simp add: acts_def prompt_events_def prompt_run_def fun_eq_iff del: fold_simps)
  then show ?thesis by (simp add: adc_convert_def prompt_run_def)
qed

text \<open>
  C40. The next conversion returns an abandoned sample. A conversion whose wait ends without its sample, by a time-out or because the wait is released, leaves the FIFO to the next one. Whatever happens from then on,
  in whatever order samples arrive, the handler runs and the kernel does other things before and between the steps of the next conversion, on whatever channel: if that conversion succeeds, the value it returns is the first sample that has arrived
  since the time-out, that of the abandoned conversion, and what arrived behind it, its own sample included, stays in the FIFO. Such a run exists for all samples \<open>x1\<close> and \<open>x2\<close>. It is assumed
  that the handler runs only while the FIFO holds a sample, that nobody else writes the buffer of the caller or waits for the driver's flag with a result address in it, and that waits end with no positive
  result.
\<close>
theorem adc_abandoned_sample_returned:
  assumes "err < E_OK" "ad_active (adc_llcb s)" "a_fifo (adc_hw s) = []" "a_ready (adc_hw s)"
    and "flag_free (ad_flgid (adc_llcb s)) (adc_kst s)" "\<not> in_ddsp c2 (adc_kst s)" "ercd (adc_kst s) t \<le> 0"
    and "0 \<le> ch" "ch < ADC_CH_NUM" "buf \<noteq> 0" "apart 4 p buf"
  shows "\<exists>s1. conv_step t' p' ch' buf' c (A_Waited err, s) = (A_Done err, s1) \<and> mem (adc_kst s1) = mem (adc_kst s) \<and>
    (\<forall>E s2. run_keeps (ad_flgid (adc_llcb s)) buf t E \<and> adc_convert t p (acts E) ch 1 buf s1 = Some (s2, 1) \<longrightarrow>
       (\<exists>x X. samples E = x # X \<and> ld32 buf (mem (adc_kst s2)) = x AND 0x0FFF \<and> prefix (a_fifo (adc_hw s2)) X)) \<and>
    (\<exists>s2. adc_convert t p (acts (prompt_events x1 x2 ci (c0, c1, c2, c3))) ch 1 buf s1 = Some (s2, 1) \<and>
       ld32 buf (mem (adc_kst s2)) = x1 AND 0x0FFF \<and> a_fifo (adc_hw s2) = [x2])"
proof -
  let ?f = "ad_flgid (adc_llcb s)"
  define s1 where "s1 = snd (conv_end c err s)"
  have st: "conv_step t' p' ch' buf' c (A_Waited err, s) = (A_Done err, s1)"
    using assms(1) by (simp add: conv_step_def s1_def conv_end_def adc_locks)
  have e: "adc_llcb s1 = (adc_llcb s)\<lparr>ad_active := False, ad_buf := 0\<rparr>" "a_fifo (adc_hw s1) = []" "a_ready (adc_hw s1)"
    "mem (adc_kst s1) = mem (adc_kst s)"
    using assms(1-4) by (simp_all add: s1_def conv_end_def adc_locks)
  have k: "flag_kept f (adc_kst s) (adc_kst s1)" for f using assms(1,2) by (simp add: s1_def conv_end_def adc_locks)
  have dd: "in_ddsp c' (adc_kst s1) = in_ddsp c' (adc_kst s)" for c'
    by (rule flag_kept_ddsp[OF k]) (use assms(1,2) in \<open>simp add: s1_def conv_end_def adc_locks\<close>)
  have pre: "a_ready (adc_hw (sample x1 s1))" "a_fifo (adc_hw (sample x1 s1)) @ [x2] = x1 # [x2]"
    "flag_free (ad_flgid (adc_llcb (sample x1 s1))) (adc_kst (sample x1 s1))" "\<not> in_ddsp c2 (adc_kst (sample x1 s1))"
    using e dd k[of ?f] assms(5,6) by (simp_all add: flag_kept_def)
  have "\<exists>s2. adc_convert t p (acts (prompt_events x1 x2 ci (c0, c1, c2, c3))) ch 1 buf s1 = Some (s2, 1) \<and>
       ld32 buf (mem (adc_kst s2)) = x1 AND 0x0FFF \<and> a_fifo (adc_hw s2) = [x2]"
    using adc_convert_prompt[OF assms(8-11) pre, of t ci c0 c1 c3] prompt_events_run[of t p x1 x2 ci c0 c1 c2 c3 ch 1 buf s1] assms(8,9) by auto
  moreover have "\<exists>x X. samples E = x # X \<and> ld32 buf (mem (adc_kst s2)) = x AND 0x0FFF \<and> prefix (a_fifo (adc_hw s2)) X"
    if "run_keeps ?f buf t E" "adc_convert t p (acts E) ch 1 buf s1 = Some (s2, 1)" for E s2
  proof -
    have w: "adc_world ?f buf t (adc_kst s1)"
      using assms(1,2,5,7) by (simp add: s1_def conv_end_def adc_locks adc_world_def flag_free_def)
    have i: "run_inv ?f buf t [] (A_Ready, s1)" using w e by (simp add: run_inv_def phase_def)
    have "conv_run t p ch buf (acts E) (A_Ready, s1) = (A_Done 1, s2)"
      using that(2) assms(8,9) by (auto simp: adc_convert_def split: prod.splits adcpc.splits)
    from run_returns[OF i assms(10,11) that(1) this] obtain Y where Y: "prefix Y (samples E)" "has_sample buf Y s2" by auto
    then obtain y Z where "Y = y # Z" by (cases Y) (auto simp: has_sample_def)
    then show ?thesis using Y by (cases "samples E") (auto simp: has_sample_def)
  qed
  ultimately show ?thesis using st e(4) by blast
qed

subsection \<open>A concrete converter\<close>

definition ex_adc :: "bool \<Rightarrow> UW list \<Rightarrow> adcst" where
  "ex_adc act fifo = \<lparr>dev_adc_cb = (\<lambda>u. \<lparr>ad_unit = 0, ad_omode = 1, ad_evtmbfid = 0\<rparr>),
     adc_llcb = \<lparr>ad_flgid = 1, ad_buf = 0x20001000, ad_asz = 0, ad_active = act\<rparr>,
     adc_hw = \<lparr>a_cs = 1, a_fcs = 0x01000001, a_div = 0, a_inte = 0, a_starts = [], a_fifo = fifo, a_empty = 0, a_ready = True\<rparr>,
     adc_nvics = (\<lambda>_. \<lparr>nv_en = 0, nv_pend = 0, nv_ipr = (\<lambda>_. 0)\<rparr>), adc_ints = \<lparr>exchdr = (\<lambda>_. 0), inthdr_tbl = (\<lambda>_. 0), hll = 1, dflt = 2\<rparr>,
     adc_knl = knl (ex_ser 0 0)\<rparr>"

lemma ex_adc_sel [simp]:
  "ad_active (adc_llcb (ex_adc act fifo)) = act" "ad_flgid (adc_llcb (ex_adc act fifo)) = 1" "a_fifo (adc_hw (ex_adc act fifo)) = fifo"
  "a_ready (adc_hw (ex_adc act fifo))" "adc_kst (ex_adc act fifo) = kst (knl (ex_ser 0 0))"
  by (simp_all add: ex_adc_def adc_kst_def)

lemma ex_adc_flag: "flag_free 1 (kst (knl (ex_ser 0 0)))" "\<not> in_ddsp 0 (kst (knl (ex_ser 0 0)))"
  by (simp_all add: flag_free_def CHK_FLGID_def size_defs ex_ser_def ex_dev_def ex_state_def get_flgcb_def
      in_ddsp_def in_indp_def knl_isTaskIndependent_def ex_smp_def)

lemma ex_adc_apart: "apart 4 0x20003000 (0x20001000 :: UW)" "apart 4 0x20003000 (0x20002000 :: UW)"
  by (simp_all add: apart_def)

theorem adc_samples_in_order_witness:
  "\<exists>s'. conversions 0 0x20003000 [(0, 0x20001000, 0, (0, 0, 0, 0), 0x123), (1, 0x20002000, 0, (0, 0, 0, 0), 0x456)] (ex_adc False [0x789]) =
     Some (s', [0x789, 0x123])"
proof -
  let ?C = "[(0, 0x20001000, 0, (0, 0, 0, 0), 0x123), (1, 0x20002000, 0, (0, 0, 0, 0), 0x456)] :: conv list"
  obtain s' vs where "conversions 0 0x20003000 ?C (ex_adc False [0x789]) = Some (s', vs)" "length vs = 2"
    "map (\<lambda>x. x AND 0x0FFF) ([0x789] @ map conv_sample ?C) = vs @ map (\<lambda>x. x AND 0x0FFF) (a_fifo (adc_hw s'))"
    using adc_samples_in_order[where s = "ex_adc False [0x789]" and Cs = ?C and p = "0x20003000" and t = 0] ex_adc_flag ex_adc_apart by (auto simp: ADC_CH_NUM_def)
  then show ?thesis by (cases vs; cases "tl vs") (auto simp: conv_sample_def)
qed

theorem adc_abandoned_sample_returned_witness:
  "\<exists>s1 s2. conv_step 0 0x20003000 0 0x20001000 0 (A_Waited (- 50), ex_adc True []) = (A_Done (- 50), s1) \<and>
     adc_convert 0 0x20003000 (acts (prompt_events 0x123 0x456 0 (0, 0, 0, 0))) 1 1 0x20002000 s1 = Some (s2, 1) \<and>
     ld32 0x20002000 (mem (adc_kst s2)) = 0x123"
proof -
  have "ercd (adc_kst (ex_adc True [])) 0 \<le> 0" by (simp add: ex_ser_def ex_dev_def ex_state_def)
  then show ?thesis
    using adc_abandoned_sample_returned[where err = "- 50" and s = "ex_adc True []" and ch = 1 and buf = "0x20002000" and p = "0x20003000" and t = 0 and t' = 0
      and p' = "0x20003000" and ch' = 0 and buf' = "0x20001000" and c = 0 and ?c0.0 = 0 and ?c1.0 = 0 and ?c2.0 = 0 and ?c3.0 = 0 and ci = 0 and ?x1.0 = "0x123" and ?x2.0 = "0x456"]
    ex_adc_flag ex_adc_apart by (auto simp: ADC_CH_NUM_def)
qed

end
