(* ===== verification/Spec2Isabelle.thy ===== *)
theory Spec2Isabelle
  imports Prelude Queue Kernel_State Ready_Queue Smp_Assign Task_Ctl Sched_Inv Example_State Memory_Words
    Wait_Object Semaphore Eventflag Mailbox Tstdlib Imalloc Msgbuf Klock Mempfix Mempool Mutex Time_Calls Sched_Props Task_Manage Task_Sync
    Mutex_Props Task_Frame Task_Props Dispatch_Props
    Smp_Lock Lock_Props Smp_Atomic Smp_Ipi Fastlock Fastlock_Props Device Device_Io Device_Props Device_Run
    Cpu_Calls Cpu_Props Boot Boot_Props Tm_Printf Printf_Props
    Msdi Serial Serial_Io Serial_Init Serial_Props I2c I2c_Io I2c_Props Adc Adc_Props
begin

text \<open>
  micro T-Kernel 3.0 with its SMP extension for the RP2040 (two Cortex-M0+ cores), as configured for the board \<^verbatim>\<open>pico_rp2040\<close> with
  \<^verbatim>\<open>SMP=1\<close>. Paths are relative to \<^verbatim>\<open>src/\<close>; \<^verbatim>\<open>tkernel/\<close> is \<^verbatim>\<open>kernel/tkernel/\<close>.

  The program. A kernel with one global ready queue serves two cores. A system call runs inside a critical section: it masks the
  interrupts of its core and takes the big kernel lock (\<^verbatim>\<open>tkernel/smp_lock.c\<close>). A call that makes a task ready, or takes one from the ready
  queue, selects anew for both cores (\<^verbatim>\<open>tkernel/ready_queue_smp.c\<close>), publishes the selection in \<open>schedtsk\<close>, and asks a core whose selection has
  changed to dispatch, the own core by the PendSV exception, the other one by a mailbox interrupt (\<^verbatim>\<open>smp_rp2040.c\<close>). The dispatcher
  (\<^verbatim>\<open>dispatch.S\<close>) makes the selected task current. On this rest the synchronisation objects, the memory pools, the timer with its
  handlers, and the device manager, which calls drivers.

  The model. Kernel data is the record \<open>kstate\<close> of \<open>Kernel_State\<close>: control blocks in tables, pointers to them as table numbers, queues as lists
  of task numbers, and one byte memory for all that the program itself lays out in memory (heap, pools, messages, stacks). An operation is a
  function with the core that executes it as first argument; it returns the new state with the error code, \<open>Blocked\<close> when the caller waits,
  and \<open>None\<close> when the code does not return. The body of a section between \<open>BEGIN_CRITICAL_SECTION\<close> and \<open>END_CRITICAL_SECTION\<close> is
  one definition (\<open>..._cs\<close>), because the kernel lock excludes (\<open>kernel_lock_exclusive\<close>); where the code works without the lock, as the dispatcher and
  \<open>tk_dis_dsp\<close> do, the definitions stop at each access that the other core can see. What the device manager does between \<open>LockDM\<close> and \<open>UnlockDM\<close> is one
  definition as well, although that lock does not exclude across the cores (\<open>mlock_not_exclusive\<close>): the properties of open descriptors and requests say that they assume it does.

  Theories and the code they model:
    \<^item> \<open>Prelude\<close>, \<open>Memory_Words\<close>, \<open>Example_State\<close>: machine types, error codes, configured sizes; words in the byte memory; a concrete state.
    \<^item> \<open>Queue\<close> (\<^verbatim>\<open>include/sys/queue.h\<close>): the rings on linked nodes, with their refinement to lists (locale \<open>queue_store\<close>).
    \<^item> \<open>Kernel_State\<close>, \<open>Ready_Queue\<close>, \<open>Smp_Assign\<close>, \<open>Task_Ctl\<close> (\<^verbatim>\<open>ready_queue.h\<close>, \<^verbatim>\<open>ready_queue_smp.c\<close>, \<^verbatim>\<open>task.c\<close>, \<^verbatim>\<open>wait.c\<close>, \<^verbatim>\<open>timer.c\<close>): the
      scheduler. \<open>Sched_Inv\<close> has its invariant \<open>kwf\<close> (every control block is linked where its state says, the ready queue is exact, no task is
      current or selected on two cores) and its preservation; \<open>Task_Frame\<close> what the scheduler does not read.
    \<^item> \<open>Task_Manage\<close>, \<open>Task_Sync\<close>, \<open>Cpu_Calls\<close> (\<^verbatim>\<open>task_manage.c\<close>, \<^verbatim>\<open>task_sync.c\<close>, \<^verbatim>\<open>smp_dispatch.c\<close>, \<^verbatim>\<open>dispatch.S\<close>, \<^verbatim>\<open>cpuctl.c\<close>, \<^verbatim>\<open>int.c\<close>, \<^verbatim>\<open>misc_calls.c\<close>,
      \<^verbatim>\<open>armv6m/\<close>): task calls, the dispatcher in three parts, registers, interrupt handlers.
    \<^item> \<open>Semaphore\<close>, \<open>Eventflag\<close>, \<open>Mailbox\<close>, \<open>Msgbuf\<close>, \<open>Mutex\<close>, \<open>Mempfix\<close> with \<open>Klock\<close>, \<open>Mempool\<close>: one theory for each file of the
      same purpose; \<open>Wait_Object\<close> is the interface (locale) under which operations on one object keep the others intact.
    \<^item> \<open>Imalloc\<close>, \<open>Tstdlib\<close> (\<^verbatim>\<open>memory.c\<close>, \<^verbatim>\<open>tstdlib/\<close>): the kernel heap, string and bit routines, on the byte memory.
    \<^item> \<open>Time_Calls\<close> (\<^verbatim>\<open>time_calls.c\<close>, \<^verbatim>\<open>timer.c\<close>): clock, cyclic and alarm handlers on both cores, the timer interrupt.
    \<^item> \<open>Smp_Lock\<close>, \<open>Smp_Atomic\<close>, \<open>Smp_Ipi\<close> (\<^verbatim>\<open>smp_lock.c\<close>, \<^verbatim>\<open>smp_atomic.c\<close>, \<^verbatim>\<open>smp_rp2040.c\<close>): the kernel lock one step per shared access, atomic
      operations and spinlocks, mailboxes, the launch of core 1.
    \<^item> \<open>Fastlock\<close> (\<^verbatim>\<open>lib/libtk/fastlock.c\<close>, \<^verbatim>\<open>fastmlock.c\<close>): both locks, each call as a function and one step per shared access; \<open>Fastlock_Props\<close> what they
      promise to any number of tasks on both cores; \<open>Device\<close>, \<open>Device_Io\<close> (\<^verbatim>\<open>device.c\<close>, \<^verbatim>\<open>deviceio.c\<close>): the device manager; \<open>Device_Run\<close>
      tasks that open, close and request in any interleaving.
    \<^item> \<open>Boot\<close> (\<^verbatim>\<open>reset_hdl.c\<close>, \<^verbatim>\<open>sysinit.c\<close>, \<^verbatim>\<open>tkinit.c\<close>, \<^verbatim>\<open>inittask.c\<close>): from reset to the initial task.
    \<^item> \<open>Tm_Printf\<close> (\<^verbatim>\<open>lib/libtm/libtm_printf.c\<close>): formatted output to the console and to a buffer.
    \<^item> \<open>Msdi\<close> (\<^verbatim>\<open>device/common/drvif/msdrvif.c\<close>), \<open>Serial\<close>, \<open>Serial_Io\<close>, \<open>Serial_Init\<close> (\<^verbatim>\<open>device/ser/\<close>): the layer for simple drivers and the serial driver;
      \<open>I2c\<close>, \<open>I2c_Io\<close> (\<^verbatim>\<open>device/i2c/\<close>): the I2C driver; \<open>Adc\<close> (\<^verbatim>\<open>device/adc/\<close>): the A/D converter.
    \<^item> theories ending in \<open>_Props\<close> hold the properties that need more than one component.

  What the lemmas show: that every task call keeps the invariant \<open>task_inv\<close> (\<open>kwf\<close>, well-formed lists of mutexes that priority inheritance can follow to an end, no
  fault) and that \<open>tk_chg_pri\<close> returns, under hypotheses on the caller and on memory pools that the property states; that selection and dispatch keep a task on one core, with the windows in which the
  code does not; that the kernel lock is exclusive; that priority inheritance ends and raises the owner; that the
  object calls implement abstract specifications (grants along a queue, a pattern served in order, a bounded byte queue); that timers
  fire, the heap search is a best fit, exclusive opens exclude and requests are accounted for as far as the lock of the device manager excludes; that the system starts; what formatted output puts out; that serial data is
  neither reordered nor lost without a mark, what an I2C transfer puts on the bus, and which sample an A/D conversion returns. Several
  properties state a defect of the code, exactly as the code behaves.

  Bounds and fuel. Sizes are those of \<^verbatim>\<open>config.h\<close>. Loops are structural recursion, or \<open>partial_function (option)\<close> where the code may not end.
  \<open>CHG_FUEL\<close> bounds the recursion of \<open>knl_change_task_priority\<close> and \<open>MTX_FUEL\<close> the walk along a list of mutexes;
  \<open>change_priority_returns\<close> and \<open>task_calls_keep_invariant\<close> show that they suffice. Loops over a wait queue
  use the initial length of the queue, since every pass removes the head.

  Arguments of the model. User handlers and what runs at an interrupt address are functions on the state; device drivers are
  functions (\<open>denv\<close>), as are the application's \<open>usermain\<close> and the boot ROM.

  Not modelled. Rendezvous ports, power control, object names, the calls for debuggers and coprocessors: compiled out in
  this configuration. The ports to other processors and boards, which this configuration does not build. The ports of the device drivers to other processors. Register-level
  start-up of clocks and pins, the second-stage boot and the vector table. The networking, wireless and USB glue in \<^verbatim>\<open>lib/\<close>, which
  mostly calls third-party code that the repository does not have, and the applications and host tools.
\<close>

end
